(* ===== verification/Prelude.thy ===== *)
theory Prelude
  imports Complex_Main "HOL-Library.AList"
begin

text \<open>
  Vocabulary shared by every theory of the development: Python exceptions as values, the
  result type \<open>exn + 'a\<close> with its sequencing combinators (an expression that may raise, a
  loop that stops at the first raise), insertion-ordered dictionaries as association lists,
  and the named fact collections the component proofs are run with.
\<close>

section \<open>Fact collections\<close>

named_theorems res_simps "equations of the result combinators"
named_theorems f64_simps "evaluation of binary64 arithmetic on exact inputs"
named_theorems order_simps "frame facts of the order lifecycle"
named_theorems dict_simps "lookup and key facts of insertion-ordered dictionaries"

section \<open>Exceptions and results\<close>

text \<open>
  The exception classes the package raises. Messages are kept where they distinguish two
  raises of one class; the parts of a message that are formatted from data are dropped.
  \<open>UserException\<close> stands for an ordinary exception raised inside a user callback and
  \<open>BaseException\<close> for an interruption (\<open>KeyboardInterrupt\<close>, \<open>SystemExit\<close>), which
  \<open>except Exception\<close> does not catch.
\<close>

datatype exn =
    TypeError string
  | ValueError string
  | RuntimeError string
  | IndexError string
  | KeyError string
  | AttributeError string
  | OverflowError string
  | ZeroDivisionError
  | Exception string
  | PQException string
  | OSError string
  | BufferError string
  | FactorStoreError string
  | FactorNodeCacheMiss string
  | FactorMetricsError string
  | BacktestCallbackError string exn
  | UserException nat
  | BaseException nat

type_synonym 'a res = "exn + 'a"

definition is_exception :: "exn \<Rightarrow> bool" where
  "is_exception e = (case e of BaseException _ \<Rightarrow> False | _ \<Rightarrow> True)"

definition rbind :: "'a res \<Rightarrow> ('a \<Rightarrow> 'b res) \<Rightarrow> 'b res" where
  "rbind m f = (case m of Inl e \<Rightarrow> Inl e | Inr x \<Rightarrow> f x)"

definition require :: "bool \<Rightarrow> exn \<Rightarrow> unit res" where
  "require ok e = (if ok then Inr () else Inl e)"

primrec res_fold :: "('s \<Rightarrow> 'a \<Rightarrow> 's res) \<Rightarrow> 's \<Rightarrow> 'a list \<Rightarrow> 's res" where
  "res_fold f s [] = Inr s"
| "res_fold f s (x # xs) = rbind (f s x) (\<lambda>s'. res_fold f s' xs)"

primrec res_map :: "('a \<Rightarrow> 'b res) \<Rightarrow> 'a list \<Rightarrow> 'b list res" where
  "res_map f [] = Inr []"
| "res_map f (x # xs) = rbind (f x) (\<lambda>y. rbind (res_map f xs) (\<lambda>ys. Inr (y # ys)))"

primrec res_each :: "('a \<Rightarrow> unit res) \<Rightarrow> 'a list \<Rightarrow> unit res" where
  "res_each f [] = Inr ()"
| "res_each f (x # xs) = rbind (f x) (\<lambda>_. res_each f xs)"

lemma rbind_simps [simp, res_simps]:
  "rbind (Inl e) f = Inl e"
  "rbind (Inr x) f = f x"
  by (simp_all add: rbind_def)

lemma rbind_Inr_iff: "rbind m f = Inr y \<longleftrightarrow> (\<exists>x. m = Inr x \<and> f x = Inr y)"
  by (cases m) auto

lemma rbind_Inl_iff: "rbind m f = Inl e \<longleftrightarrow> m = Inl e \<or> (\<exists>x. m = Inr x \<and> f x = Inl e)"
  by (cases m) auto

lemma rbindE [elim!]:
  assumes "rbind m f = Inr y"
  obtains x where "m = Inr x" "f x = Inr y"
  using assms by (auto simp: rbind_Inr_iff)

lemma require_Inr [simp, res_simps]: "require b e = Inr u \<longleftrightarrow> b"
  by (simp add: require_def)

lemma require_Inl [simp, res_simps]: "require b e = Inl e' \<longleftrightarrow> \<not> b \<and> e' = e"
  by (auto simp: require_def)

lemma rbind_require_Inr [simp, res_simps]:
  "rbind (require b e) f = Inr y \<longleftrightarrow> b \<and> f () = Inr y"
  by (auto simp: require_def)

lemma rbind_require_True [simp, res_simps]: "rbind (require True e) f = f ()"
  by (simp add: require_def)

lemma rbind_require_False [simp, res_simps]: "rbind (require False e) f = Inl e"
  by (simp add: require_def)

lemma require_True [simp, res_simps]: "require True e = Inr ()"
  by (simp add: require_def)

lemma require_False [simp, res_simps]: "require False e = Inl e"
  by (simp add: require_def)

lemma rbind_cong [fundef_cong]:
  "m = m' \<Longrightarrow> (\<And>x. m' = Inr x \<Longrightarrow> f x = f' x) \<Longrightarrow> rbind m f = rbind m' f'"
  by (cases m') auto

lemma res_each_Inr: "res_each f xs = Inr u \<longleftrightarrow> (\<forall>x\<in>set xs. f x = Inr ())"
  by (induction xs) (auto simp: rbind_Inr_iff)

lemma res_map_Inr_conv: "res_map f xs = Inr ys \<longleftrightarrow> list_all2 (\<lambda>x y. f x = Inr y) xs ys"
  by (induction xs arbitrary: ys) (auto simp: rbind_Inr_iff list_all2_Cons1)

lemma res_map_length: "res_map f xs = Inr ys \<Longrightarrow> length ys = length xs"
  by (simp add: res_map_Inr_conv list_all2_lengthD)

lemma res_fold_append: "res_fold f s (xs @ ys) = rbind (res_fold f s xs) (\<lambda>s'. res_fold f s' ys)"
proof (induction xs arbitrary: s)
  case (Cons x xs)
  then show ?case by (cases "f s x") simp_all
qed simp

text \<open>An invariant of a loop body is an invariant of the loop.\<close>

lemma res_fold_invariant:
  assumes "\<And>s x s'. x \<in> set xs \<Longrightarrow> I s \<Longrightarrow> f s x = Inr s' \<Longrightarrow> I s'"
    and "I s" and "res_fold f s xs = Inr t"
  shows "I t"
  using assms
proof (induction xs arbitrary: s)
  case (Cons x xs)
  from Cons.prems(3) obtain s' where s': "f s x = Inr s'" "res_fold f s' xs = Inr t" by auto
  with Cons.prems(1,2) have "I s'" by (meson list.set_intros(1))
  then show ?case using Cons.IH Cons.prems(1) s'(2) by (meson list.set_intros(2))
qed simp

section \<open>Insertion-ordered dictionaries\<close>

text \<open>
  A Python \<open>dict\<close> whose iteration order is observed is an association list. Storing under
  a present key keeps its place, storing under a new key appends: this is \<open>AList.update\<close>.
\<close>

type_synonym ('k, 'v) dict = "('k \<times> 'v) list"

abbreviation dict_get :: "('k, 'v) dict \<Rightarrow> 'k \<Rightarrow> 'v option" where
  "dict_get d k \<equiv> map_of d k"

abbreviation dict_set :: "'k \<Rightarrow> 'v \<Rightarrow> ('k, 'v) dict \<Rightarrow> ('k, 'v) dict" where
  "dict_set k v d \<equiv> AList.update k v d"

abbreviation dict_keys :: "('k, 'v) dict \<Rightarrow> 'k list" where
  "dict_keys d \<equiv> map fst d"

abbreviation dict_values :: "('k, 'v) dict \<Rightarrow> 'v list" where
  "dict_values d \<equiv> map snd d"

lemma dict_get_set [simp, dict_simps]: "dict_get (dict_set k v d) k' = (if k' = k then Some v else dict_get d k')"
  by (simp add: update_conv')

lemma dict_keys_set [dict_simps]:
  "dict_keys (dict_set k v d) = (if k \<in> set (dict_keys d) then dict_keys d else dict_keys d @ [k])"
  by (induction d) auto

lemma distinct_dict_set [simp, dict_simps]:
  "distinct (dict_keys d) \<Longrightarrow> distinct (dict_keys (dict_set k v d))"
  by (simp add: dict_keys_set)

lemma dict_values_set_new:
  "dict_get d k = None \<Longrightarrow> dict_set k v d = d @ [(k, v)]"
  by (induction d) (auto split: if_splits)

section \<open>Lists\<close>

lemma sum_list_map_filter_split:
  fixes f :: "'a \<Rightarrow> 'b::comm_monoid_add"
  shows "sum_list (map f (filter P xs)) + sum_list (map f (filter (\<lambda>x. \<not> P x) xs)) = sum_list (map f xs)"
  by (induction xs) (auto simp: ac_simps)

lemma filter_partition_length: "length (filter P xs) + length (filter (\<lambda>x. \<not> P x) xs) = length xs"
  by (induction xs) auto

section \<open>Programs over a state\<close>

text \<open>
  A method that mutates its object and may raise: the outcome beside the state it leaves, so
  that what was done before a raise stays visible. \<open>ptry\<close> is \<open>try ... except BaseException:
  handler; raise\<close>: the handler runs on the state left behind and the exception goes on.
\<close>

type_synonym ('s, 'a) prog = "'s \<Rightarrow> 'a res \<times> 's"

definition preturn :: "'a \<Rightarrow> ('s, 'a) prog" where
  "preturn x s = (Inr x, s)"

definition plift :: "'a res \<Rightarrow> ('s, 'a) prog" where
  "plift r s = (r, s)"

definition pmodify :: "('s \<Rightarrow> 's) \<Rightarrow> ('s, unit) prog" where
  "pmodify f s = (Inr (), f s)"

definition pbind :: "('s, 'a) prog \<Rightarrow> ('a \<Rightarrow> ('s, 'b) prog) \<Rightarrow> ('s, 'b) prog" where
  "pbind m f s = (case m s of (Inl e, s') \<Rightarrow> (Inl e, s') | (Inr x, s') \<Rightarrow> f x s')"

definition pgets :: "('s \<Rightarrow> 'a) \<Rightarrow> ('s, 'a) prog" where
  "pgets f s = (Inr (f s), s)"

primrec pforeach :: "('a \<Rightarrow> ('s, unit) prog) \<Rightarrow> 'a list \<Rightarrow> ('s, unit) prog" where
  "pforeach f [] = preturn ()"
| "pforeach f (x # xs) = pbind (f x) (\<lambda>_. pforeach f xs)"

definition ptry :: "('s, 'a) prog \<Rightarrow> ('s \<Rightarrow> 's) \<Rightarrow> ('s, 'a) prog" where
  "ptry m handler s = (case m s of (Inl e, s') \<Rightarrow> (Inl e, handler s') | r \<Rightarrow> r)"

lemma prog_simps [simp, res_simps]:
  "preturn x s = (Inr x, s)" "plift r s = (r, s)" "pmodify g s = (Inr (), g s)" "pgets h s = (Inr (h s), s)"
  by (simp_all add: preturn_def plift_def pmodify_def pgets_def)

lemma pbind_Inr_iff: "pbind m f s = (Inr y, t) \<longleftrightarrow> (\<exists>x u. m s = (Inr x, u) \<and> f x u = (Inr y, t))"
  by (auto simp: pbind_def split: prod.splits sum.splits)

lemma pbindE [elim!]:
  assumes "pbind m f s = (Inr y, t)"
  obtains x u where "m s = (Inr x, u)" "f x u = (Inr y, t)"
  using assms by (auto simp: pbind_Inr_iff)

lemma pbind_simps [simp, res_simps]:
  "pbind (preturn x) f s = f x s" "pbind (plift (Inr x)) f s = f x s" "pbind (plift (Inl e)) f s = (Inl e, s)"
  "pbind (pmodify g) h s = h () (g s)" "pbind (pgets k) f s = f (k s) s"
  by (simp_all add: pbind_def)

lemma pbind_eq:
  "m s = (Inr x, u) \<Longrightarrow> pbind m f s = f x u"
  "m s = (Inl e, u) \<Longrightarrow> pbind m f s = (Inl e, u)"
  by (simp_all add: pbind_def)

text \<open>An invariant of the body of a loop holds behind the loop, whether it ended or raised.\<close>

lemma pforeach_invariant:
  assumes "\<And>x s r s'. x \<in> set xs \<Longrightarrow> I s \<Longrightarrow> f x s = (r, s') \<Longrightarrow> I s'"
    and "I s" and "pforeach f xs s = (r, t)"
  shows "I t"
  using assms
proof (induction xs arbitrary: s)
  case (Cons x xs)
  obtain q u where q: "f x s = (q, u)" by fastforce
  then have u: "I u" using Cons.prems(1,2) by (meson list.set_intros(1))
  show ?case
  proof (cases q)
    case (Inl e)
    then show ?thesis using Cons.prems(3) q u by (simp add: pbind_def)
  next
    case (Inr y)
    then have "pforeach f xs u = (r, t)" using Cons.prems(3) q by (simp add: pbind_def)
    then show ?thesis using Cons.IH [of u] Cons.prems(1) u by (meson list.set_intros(2))
  qed
qed simp

lemma pforeach_append: "pforeach f (xs @ ys) s = pbind (pforeach f xs) (\<lambda>_. pforeach f ys) s"
  by (induction xs arbitrary: s) (auto simp: pbind_def split: prod.splits sum.splits)

end
