(* ===== verification/Float64.thy ===== *)
theory Float64
  imports Prelude "HOL-Library.Log_Nat"
begin

text \<open>
  IEEE 754 binary64, the arithmetic of Python's \<open>float\<close>, NumPy's \<open>float64\<close> and the
  C \<open>double\<close> of the P&L kernel. A finite value is the rational it denotes; every operation
  computes exactly and rounds once, to nearest with ties to even, with gradual underflow and
  overflow to an infinity. The two zeros are one value: no modelled operation reads the
  sign of a zero. The last section gives the facts the components rest on: results that are
  representable are exact, and the error of any finite result is bounded.
\<close>

section \<open>Values and rounding\<close>

datatype float64 = Fin rat | PInf | MInf | NaN

definition pow2 :: "int \<Rightarrow> rat" where
  "pow2 e = (if 0 \<le> e then of_int (2 ^ nat e) else 1 / of_int (2 ^ nat (- e)))"

text \<open>The binary exponent of a positive rational.\<close>

definition ilog2 :: "rat \<Rightarrow> int" where
  "ilog2 x = (let (n, d) = quotient_of x; e = bitlen n - bitlen d in
     if x < pow2 e then e - 1 else e)"

definition round_half_even :: "rat \<Rightarrow> int" where
  "round_half_even x =
     (let f = \<lfloor>x\<rfloor>; r = x - of_int f in
      if r < 1 / 2 then f else if 1 / 2 < r then f + 1 else if even f then f else f + 1)"

definition ulp_exp :: "rat \<Rightarrow> int" where
  "ulp_exp x = max (ilog2 \<bar>x\<bar> - 52) (- 1074)"

definition rnd64 :: "rat \<Rightarrow> float64" where
  "rnd64 x =
     (if x = 0 then Fin 0
      else let e = ulp_exp x; m = round_half_even (x / pow2 e) in
        if e > 971 \<or> (e = 971 \<and> \<bar>m\<bar> \<ge> 2 ^ 53) then (if x > 0 then PInf else MInf)
        else Fin (of_int m * pow2 e))"

section \<open>Arithmetic, comparisons, classification\<close>

fun f_neg :: "float64 \<Rightarrow> float64" where
  "f_neg (Fin x) = Fin (- x)"
| "f_neg PInf = MInf"
| "f_neg MInf = PInf"
| "f_neg NaN = NaN"

fun f_abs :: "float64 \<Rightarrow> float64" where
  "f_abs (Fin x) = Fin \<bar>x\<bar>"
| "f_abs NaN = NaN"
| "f_abs _ = PInf"

fun f_add :: "float64 \<Rightarrow> float64 \<Rightarrow> float64" where
  "f_add (Fin x) (Fin y) = rnd64 (x + y)"
| "f_add NaN _ = NaN"
| "f_add _ NaN = NaN"
| "f_add PInf MInf = NaN"
| "f_add MInf PInf = NaN"
| "f_add PInf _ = PInf"
| "f_add _ PInf = PInf"
| "f_add MInf _ = MInf"
| "f_add _ MInf = MInf"

definition f_sub :: "float64 \<Rightarrow> float64 \<Rightarrow> float64" where
  "f_sub a b = f_add a (f_neg b)"

definition inf_of_sign :: "rat \<Rightarrow> float64" where
  "inf_of_sign s = (if s > 0 then PInf else if s < 0 then MInf else NaN)"

fun f_sign_rat :: "float64 \<Rightarrow> rat" where
  "f_sign_rat (Fin x) = sgn x"
| "f_sign_rat PInf = 1"
| "f_sign_rat MInf = - 1"
| "f_sign_rat NaN = 0"

fun f_mul :: "float64 \<Rightarrow> float64 \<Rightarrow> float64" where
  "f_mul (Fin x) (Fin y) = rnd64 (x * y)"
| "f_mul NaN _ = NaN"
| "f_mul _ NaN = NaN"
| "f_mul a b = inf_of_sign (f_sign_rat a * f_sign_rat b)"

text \<open>
  Division as NumPy and C do it (a zero divisor gives an infinity or NaN). Python's own
  division operator raises on a zero divisor: \<open>py_truediv\<close>.
\<close>

fun f_div :: "float64 \<Rightarrow> float64 \<Rightarrow> float64" where
  "f_div NaN _ = NaN"
| "f_div _ NaN = NaN"
| "f_div (Fin x) (Fin y) = (if y = 0 then inf_of_sign x else rnd64 (x / y))"
| "f_div (Fin x) _ = Fin 0"
| "f_div a (Fin y) = (if y < 0 then f_neg a else a)"
| "f_div _ _ = NaN"

definition py_truediv :: "float64 \<Rightarrow> float64 \<Rightarrow> float64 res" where
  "py_truediv a b = (if b = Fin 0 then Inl ZeroDivisionError else Inr (f_div a b))"

fun f_lt :: "float64 \<Rightarrow> float64 \<Rightarrow> bool" where
  "f_lt (Fin x) (Fin y) = (x < y)"
| "f_lt NaN _ = False"
| "f_lt _ NaN = False"
| "f_lt PInf _ = False"
| "f_lt _ MInf = False"
| "f_lt _ _ = True"

definition f_eq :: "float64 \<Rightarrow> float64 \<Rightarrow> bool" where
  "f_eq a b = (a = b \<and> a \<noteq> NaN)"

definition f_le :: "float64 \<Rightarrow> float64 \<Rightarrow> bool" where
  "f_le a b = (f_lt a b \<or> f_eq a b)"

definition is_finite :: "float64 \<Rightarrow> bool" where
  "is_finite a = (case a of Fin _ \<Rightarrow> True | _ \<Rightarrow> False)"

definition is_nan :: "float64 \<Rightarrow> bool" where
  "is_nan a = (a = NaN)"

definition is_integer :: "float64 \<Rightarrow> bool" where
  "is_integer a = (case a of Fin x \<Rightarrow> of_int \<lfloor>x\<rfloor> = x | _ \<Rightarrow> False)"

text \<open>\<open>math.isclose(a, 0)\<close> with the default tolerances (relative 1e-9, absolute 0).\<close>

definition rel_tol :: rat where
  "rel_tol = 4835703278458517 / 4835703278458516698824704"

definition isclose0 :: "float64 \<Rightarrow> bool" where
  "isclose0 a = (case a of Fin x \<Rightarrow> x = 0 \<or> f_le (Fin \<bar>x\<bar>) (f_abs (f_mul (Fin rel_tol) a)) | _ \<Rightarrow> False)"

text \<open>Python's \<open>max(a, b)\<close> and \<open>min(a, b)\<close>: the first argument wins unless the second compares past it.\<close>

definition py_fmax :: "float64 \<Rightarrow> float64 \<Rightarrow> float64" where
  "py_fmax a b = (if f_lt a b then b else a)"

definition py_fmin :: "float64 \<Rightarrow> float64 \<Rightarrow> float64" where
  "py_fmin a b = (if f_lt b a then b else a)"

text \<open>\<open>float(n)\<close> of a Python integer raises when the magnitude does not fit.\<close>

definition py_float :: "int \<Rightarrow> float64 res" where
  "py_float n = (case rnd64 (of_int n) of Fin x \<Rightarrow> Inr (Fin x) | _ \<Rightarrow> Inl (OverflowError ''int too large to convert to float''))"

text \<open>A C or NumPy conversion of a 64-bit integer, which never overflows.\<close>

definition f_of_int :: "int \<Rightarrow> float64" where
  "f_of_int n = rnd64 (of_int n)"

text \<open>\<open>math.floor\<close>, \<open>math.ceil\<close> and \<open>numpy.fix\<close> of a float; the first two raise off the finite range.\<close>

definition py_floor :: "float64 \<Rightarrow> int res" where
  "py_floor a = (case a of Fin x \<Rightarrow> Inr \<lfloor>x\<rfloor>
     | NaN \<Rightarrow> Inl (ValueError ''cannot convert float NaN to integer'')
     | _ \<Rightarrow> Inl (OverflowError ''cannot convert float infinity to integer''))"

definition py_ceil :: "float64 \<Rightarrow> int res" where
  "py_ceil a = (case a of Fin x \<Rightarrow> Inr \<lceil>x\<rceil>
     | NaN \<Rightarrow> Inl (ValueError ''cannot convert float NaN to integer'')
     | _ \<Rightarrow> Inl (OverflowError ''cannot convert float infinity to integer''))"

definition np_fix :: "float64 \<Rightarrow> float64" where
  "np_fix a = (case a of Fin x \<Rightarrow> Fin (of_int (if 0 \<le> x then \<lfloor>x\<rfloor> else \<lceil>x\<rceil>)) | _ \<Rightarrow> a)"

text \<open>
  \<open>round(x, n)\<close> of a finite float with a digit count: the exact value is rounded half-even
  to \<open>n\<close> decimals and the decimal result converted back.
\<close>

definition pow10 :: "int \<Rightarrow> rat" where
  "pow10 n = (if 0 \<le> n then of_int (10 ^ nat n) else 1 / of_int (10 ^ nat (- n)))"

definition py_round :: "float64 \<Rightarrow> int \<Rightarrow> float64" where
  "py_round a n = (case a of Fin x \<Rightarrow> rnd64 (of_int (round_half_even (x * pow10 n)) / pow10 n) | _ \<Rightarrow> a)"

text \<open>\<open>math.copysign(x, q)\<close> for a nonzero integer \<open>q\<close>.\<close>

definition copysign_int :: "float64 \<Rightarrow> int \<Rightarrow> float64" where
  "copysign_int a q = (if q < 0 then f_neg (f_abs a) else f_abs a)"

primrec f_sum_from :: "float64 \<Rightarrow> float64 list \<Rightarrow> float64" where
  "f_sum_from a [] = a"
| "f_sum_from a (x # xs) = f_sum_from (f_add a x) xs"


section \<open>Exactness and error of rounding\<close>

lemma pow2_powi: "pow2 e = 2 powi e"
  by (auto simp: pow2_def power_int_def field_simps)

lemma pow2_pos [simp]: "0 < pow2 e"
  by (simp add: pow2_powi)

lemma pow2_nonzero [simp]: "pow2 e \<noteq> 0"
  using pow2_pos [of e] by linarith

lemma pow2_nonneg [simp]: "0 \<le> pow2 e"
  using pow2_pos [of e] by linarith

lemma pow2_add: "pow2 (a + b) = pow2 a * pow2 b"
  by (simp add: pow2_powi power_int_add)

lemma pow2_0 [simp]: "pow2 0 = 1"
  by (simp add: pow2_def)

lemma pow2_diff: "pow2 (a - b) = pow2 a / pow2 b"
  by (simp add: pow2_powi power_int_diff)

lemma pow2_mono: "a \<le> b \<Longrightarrow> pow2 a \<le> pow2 b"
  by (simp add: pow2_powi power_int_increasing)

lemma pow2_less_iff [simp]: "pow2 a < pow2 b \<longleftrightarrow> a < b"
  using pow2_mono [of b a] power_int_strict_increasing [of a b "2::rat"]
  by (auto simp: pow2_powi not_less [symmetric])

lemma pow2_le_iff [simp]: "pow2 a \<le> pow2 b \<longleftrightarrow> a \<le> b"
  using pow2_less_iff [of b a] by (simp only: not_less [symmetric] not_le)

lemma pow2_of_nat: "0 \<le> e \<Longrightarrow> pow2 e = of_int (2 ^ nat e)"
  by (simp add: pow2_def)

lemma bitlen_lower: "0 < n \<Longrightarrow> pow2 (bitlen n - 1) \<le> of_int n"
  using bitlen_bounds [of n] bitlen_nonneg [of n]
  by (auto simp: pow2_def power_int_def bitlen_def floorlog_def nat_diff_distrib simp flip: of_int_power of_int_le_iff)

lemma bitlen_upper: "0 < n \<Longrightarrow> of_int n < pow2 (bitlen n)"
  using bitlen_bounds [of n] bitlen_nonneg [of n]
  by (simp add: pow2_def flip: of_int_less_iff)

lemma ilog2_bounds:
  assumes "0 < x" shows "pow2 (ilog2 x) \<le> x" and "x < pow2 (ilog2 x + 1)"
proof -
  obtain n d where q: "quotient_of x = (n, d)" by fastforce
  then have d: "0 < d" and x: "x = of_int n / of_int d"
    by (auto intro: quotient_of_denom_pos simp: quotient_of_div)
  with assms have n: "0 < n" by (simp add: zero_less_divide_iff)
  let ?e = "bitlen n - bitlen d"
  have "pow2 (?e - 1) = pow2 (bitlen n - 1) / pow2 (bitlen d)"
    by (simp add: pow2_diff)
  also have "\<dots> \<le> x"
    unfolding x using bitlen_lower [OF n] bitlen_upper [OF d] d n
    by (intro frac_le) auto
  finally have lo: "pow2 (?e - 1) \<le> x" .
  have "x < pow2 (bitlen n) / pow2 (bitlen d - 1)"
    unfolding x using bitlen_upper [OF n] bitlen_lower [OF d] d n
    by (intro frac_less) auto
  also have "\<dots> = pow2 (?e + 1)"
    by (simp add: pow2_diff pow2_add field_simps)
  finally have hi: "x < pow2 (?e + 1)" .
  show "pow2 (ilog2 x) \<le> x" "x < pow2 (ilog2 x + 1)"
    using lo hi q by (auto simp: ilog2_def Let_def)
qed

lemma round_half_even_error: "\<bar>of_int (round_half_even x) - x\<bar> \<le> 1 / 2"
proof -
  define f where "f = \<lfloor>x\<rfloor>"
  have b: "of_int f \<le> x" "x < of_int f + 1" unfolding f_def by linarith+
  have "round_half_even x = f \<and> x - of_int f \<le> 1 / 2 \<or> round_half_even x = f + 1 \<and> 1 / 2 \<le> x - of_int f"
    unfolding round_half_even_def Let_def f_def by (simp split: if_split; linarith)
  then show ?thesis using b by (auto simp: abs_le_iff)
qed

lemma round_half_even_of_int [simp]: "round_half_even (of_int n) = n"
  by (simp add: round_half_even_def)

text \<open>A value with at most 53 significant bits in the exponent range is its own rounding.\<close>

lemma ulp_exp_le:
  assumes "m \<noteq> 0" "\<bar>m\<bar> < 2 ^ 53" "- 1074 \<le> e"
  shows "ulp_exp (of_int m * pow2 e) \<le> e"
proof -
  let ?x = "\<bar>of_int m * pow2 e\<bar> :: rat"
  have "?x = of_int \<bar>m\<bar> * pow2 e" by (simp add: abs_mult)
  also have "\<dots> < pow2 53 * pow2 e"
    using assms(2) by (intro mult_strict_right_mono) (simp_all add: pow2_def flip: of_int_less_iff)
  finally have "?x < pow2 (53 + e)" by (simp add: pow2_add)
  moreover have "pow2 (ilog2 ?x) \<le> ?x" by (rule ilog2_bounds) (use assms in simp)
  ultimately have "pow2 (ilog2 ?x) < pow2 (53 + e)" by linarith
  then show ?thesis using assms(3) by (simp add: ulp_exp_def)
qed

lemma rnd64_exact_aux:
  assumes "m \<noteq> 0" "\<bar>m\<bar> < 2 ^ 53" "- 1074 \<le> e" "e \<le> 971"
  shows "rnd64 (of_int m * pow2 e) = Fin (of_int m * pow2 e)"
proof -
  let ?x = "of_int m * pow2 e"
  let ?u = "ulp_exp ?x"
  have u: "?u \<le> e" by (rule ulp_exp_le) (use assms in auto)
  have "?x / pow2 ?u = of_int m * pow2 (e - ?u)" by (simp add: pow2_diff)
  also have "\<dots> = of_int (m * 2 ^ nat (e - ?u))" using u by (simp add: pow2_of_nat)
  finally have i: "?x / pow2 ?u = of_int (m * 2 ^ nat (e - ?u))" .
  have r: "round_half_even (?x / pow2 ?u) = m * 2 ^ nat (e - ?u)"
    unfolding i by (rule round_half_even_of_int)
  have v: "of_int (round_half_even (?x / pow2 ?u)) * pow2 ?u = ?x"
    unfolding r i [symmetric] by simp
  have "\<not> (?u > 971 \<or> (?u = 971 \<and> \<bar>round_half_even (?x / pow2 ?u)\<bar> \<ge> 2 ^ 53))"
    using u assms by (auto simp: r)
  then show ?thesis using assms(1) v by (simp add: rnd64_def Let_def)
qed

lemma pow2_53: "pow2 53 = 2 ^ 53"
  by (simp add: pow2_def)

lemma rnd64_exact [f64_simps]:
  assumes "\<bar>m\<bar> \<le> 2 ^ 53" "- 1074 \<le> e" "e \<le> 918"
  shows "rnd64 (of_int m * pow2 e) = Fin (of_int m * pow2 e)"
proof -
  consider "m = 0" | "m \<noteq> 0" "\<bar>m\<bar> < 2 ^ 53" | "m = 2 ^ 53" | "m = - (2 ^ 53)"
    using assms(1) by linarith
  then show ?thesis
  proof cases
    case 1 then show ?thesis by (simp add: rnd64_def)
  next
    case 2 then show ?thesis using assms by (intro rnd64_exact_aux) auto
  next
    case 3
    then have "of_int m * pow2 e = of_int 1 * pow2 (e + 53)" by (simp add: pow2_add pow2_53)
    then show ?thesis using assms by (simp only: ) (rule rnd64_exact_aux, auto)
  next
    case 4
    then have "of_int m * pow2 e = of_int (- 1) * pow2 (e + 53)" by (simp add: pow2_add pow2_53)
    then show ?thesis using assms by (simp only: ) (rule rnd64_exact_aux, auto)
  qed
qed

lemma rnd64_of_int [simp]: "\<bar>m\<bar> \<le> 2 ^ 53 \<Longrightarrow> rnd64 (of_int m) = Fin (of_int m)"
  using rnd64_exact [of m 0] by simp

lemma rnd64_0 [simp]: "rnd64 0 = Fin 0" by (simp add: rnd64_def)
lemma rnd64_1 [simp]: "rnd64 1 = Fin 1" using rnd64_of_int [of 1] by simp
lemma rnd64_numeral [simp]: "numeral k \<le> (2::int) ^ 53 \<Longrightarrow> rnd64 (numeral k) = Fin (numeral k)"
  using rnd64_of_int [of "numeral k"] by simp
lemma rnd64_neg_numeral [simp]: "numeral k \<le> (2::int) ^ 53 \<Longrightarrow> rnd64 (- numeral k) = Fin (- numeral k)"
  using rnd64_of_int [of "- numeral k"] by simp
lemma rnd64_m1 [simp]: "rnd64 (- 1) = Fin (- 1)" using rnd64_of_int [of "-1"] by simp

text \<open>The error of a finite result: half a unit in the last place, or half the least subnormal.\<close>

lemma pow2_ulp_le: "x \<noteq> 0 \<Longrightarrow> pow2 (ulp_exp x) \<le> max (\<bar>x\<bar> * pow2 (- 52)) (pow2 (- 1074))"
proof -
  assume "x \<noteq> 0"
  then have "pow2 (ilog2 \<bar>x\<bar>) * pow2 (- 52) \<le> \<bar>x\<bar> * pow2 (- 52)"
    by (intro mult_right_mono ilog2_bounds) auto
  then have "pow2 (ilog2 \<bar>x\<bar> - 52) \<le> \<bar>x\<bar> * pow2 (- 52)"
    using pow2_add [of "ilog2 \<bar>x\<bar>" "- 52"] by simp
  then show ?thesis unfolding ulp_exp_def
    by (cases "ilog2 \<bar>x\<bar> - 52 \<le> - 1074") (simp_all add: max_absorb1 max_absorb2 le_max_iff_disj)
qed

lemma rnd64_error:
  assumes "rnd64 x = Fin y"
  shows "\<bar>y - x\<bar> \<le> max (\<bar>x\<bar> * pow2 (- 53)) (pow2 (- 1075))"
proof (cases "x = 0")
  case True then show ?thesis using assms by (simp add: rnd64_def)
next
  case False
  let ?u = "ulp_exp x"
  have y: "y = of_int (round_half_even (x / pow2 ?u)) * pow2 ?u"
    using assms False by (auto simp: rnd64_def Let_def split: if_splits)
  have "y - x = (of_int (round_half_even (x / pow2 ?u)) - x / pow2 ?u) * pow2 ?u"
    unfolding y by (simp add: left_diff_distrib)
  then have "\<bar>y - x\<bar> = \<bar>of_int (round_half_even (x / pow2 ?u)) - x / pow2 ?u\<bar> * pow2 ?u"
    by (simp add: abs_mult)
  also have "\<dots> \<le> 1 / 2 * pow2 ?u"
    by (intro mult_right_mono round_half_even_error) simp
  also have "\<dots> \<le> 1 / 2 * max (\<bar>x\<bar> * pow2 (- 52)) (pow2 (- 1074))"
    using pow2_ulp_le [OF False] by simp
  also have "\<dots> = max (\<bar>x\<bar> * pow2 (- 53)) (pow2 (- 1075))"
  proof -
    have "pow2 (- 52) = 2 * pow2 (- 53)" "pow2 (- 1074) = 2 * pow2 (- 1075)"
      using pow2_add [of 1 "- 53"] pow2_add [of 1 "- 1075"] by (simp_all add: pow2_def [of 1])
    then show ?thesis by (simp add: max_mult_distrib_left)
  qed
  finally show ?thesis .
qed

lemma rnd64_finite:
  assumes "\<bar>x\<bar> < pow2 1000"
  obtains y where "rnd64 x = Fin y"
proof (cases "x = 0")
  case False
  then have "pow2 (ilog2 \<bar>x\<bar>) < pow2 1000" using ilog2_bounds(1) [of "\<bar>x\<bar>"] assms by linarith
  then have "ulp_exp x < 971" by (simp add: ulp_exp_def)
  then show ?thesis using False that by (auto simp: rnd64_def Let_def)
qed (use that in simp)

text \<open>The default relative tolerance never makes a whole number close to zero.\<close>

lemma isclose0_of_int [simp]:
  assumes "\<bar>n\<bar> \<le> 2 ^ 64"
  shows "isclose0 (Fin (of_int n)) \<longleftrightarrow> n = 0"
proof (cases "n = 0")
  case False
  have n: "1 \<le> \<bar>of_int n :: rat\<bar>" using False by (simp flip: of_int_abs)
  have "\<not> \<bar>of_int n\<bar> \<le> \<bar>y\<bar>" if "rnd64 (rel_tol * of_int n) = Fin y" for y
  proof -
    let ?x = "rel_tol * of_int n :: rat"
    have t: "0 < rel_tol" "rel_tol < 1 / 4" by (simp_all add: rel_tol_def)
    have x: "\<bar>?x\<bar> \<le> \<bar>of_int n\<bar> / 4" using t mult_right_mono [of rel_tol "1/4" "\<bar>of_int n\<bar>"]
      by (simp add: abs_mult)
    have "pow2 (- 53) \<le> pow2 (- 1)" "pow2 (- 1075) \<le> pow2 (- 2)" by simp_all
    then have p: "pow2 (- 53) \<le> 1 / 2" "pow2 (- 1075) \<le> 1 / 4"
      by (simp_all add: pow2_def [of "- 1"] pow2_def [of "- 2"])
    have "\<bar>?x\<bar> * pow2 (- 53) \<le> \<bar>?x\<bar> * (1 / 2)" using p by (intro mult_left_mono) auto
    then have "\<bar>y - ?x\<bar> \<le> max (\<bar>?x\<bar> / 2) (1 / 4)"
      using rnd64_error [OF that] p by (auto simp: max_def split: if_splits)
    moreover have "\<bar>y\<bar> \<le> \<bar>y - ?x\<bar> + \<bar>?x\<bar>" using abs_triangle_ineq [of "y - ?x" ?x] by simp
    ultimately show ?thesis using x n by (auto simp: max_def split: if_splits)
  qed
  moreover obtain y where "rnd64 (rel_tol * of_int n) = Fin y"
  proof (rule rnd64_finite)
    have "\<bar>rel_tol * of_int n\<bar> \<le> 1 * (of_int (2 ^ 64) :: rat)"
      unfolding abs_mult using assms
      by (intro mult_mono) (simp_all add: rel_tol_def flip: of_int_abs of_int_le_iff)
    also have "\<dots> = pow2 64" by (simp add: pow2_def)
    also have "\<dots> < pow2 1000" by simp
    finally show "\<bar>rel_tol * of_int n\<bar> < pow2 1000" .
  qed
  ultimately show ?thesis using False
    by (auto simp: isclose0_def f_le_def f_eq_def)
qed (simp add: isclose0_def)

lemma isclose0_numeral [simp]:
  "isclose0 (Fin 0)" "\<not> isclose0 (Fin 1)" "\<not> isclose0 (Fin (- 1))"
  "numeral k \<le> (2::int) ^ 64 \<Longrightarrow> \<not> isclose0 (Fin (numeral k))"
  "numeral k \<le> (2::int) ^ 64 \<Longrightarrow> \<not> isclose0 (Fin (- numeral k))"
  using isclose0_of_int [of 0] isclose0_of_int [of 1] isclose0_of_int [of "-1"]
    isclose0_of_int [of "numeral k"] isclose0_of_int [of "- numeral k"] by simp_all

lemma is_finite_simps [simp]:
  "is_finite (Fin x)" "\<not> is_finite PInf" "\<not> is_finite MInf" "\<not> is_finite NaN"
  by (simp_all add: is_finite_def)

lemma is_finite_iff: "is_finite a \<longleftrightarrow> (\<exists>x. a = Fin x)"
  by (cases a) simp_all

lemma rnd64_not_nan [simp]: "rnd64 x \<noteq> NaN"
  by (simp add: rnd64_def Let_def)

lemma f_of_int_small [simp, f64_simps]: "\<bar>n\<bar> \<le> 2 ^ 53 \<Longrightarrow> f_of_int n = Fin (of_int n)"
  by (simp add: f_of_int_def)

lemma py_float_small [simp, f64_simps]: "\<bar>n\<bar> \<le> 2 ^ 53 \<Longrightarrow> py_float n = Inr (Fin (of_int n))"
  by (simp add: py_float_def)

lemma f_le_Fin [simp]: "f_le (Fin x) (Fin y) \<longleftrightarrow> x \<le> y"
  by (auto simp: f_le_def f_eq_def)

lemma f_eq_Fin [simp]: "f_eq (Fin x) (Fin y) \<longleftrightarrow> x = y"
  by (simp add: f_eq_def)

lemma f_sub_Fin [simp]: "f_sub (Fin x) (Fin y) = rnd64 (x - y)"
  by (simp add: f_sub_def)

lemma isclose0_simps [simp]: "isclose0 (Fin 0)" "\<not> isclose0 NaN" "\<not> isclose0 PInf" "\<not> isclose0 MInf"
  by (simp_all add: isclose0_def)

lemma is_integer_Fin: "is_integer (Fin x) \<longleftrightarrow> x \<in> \<int>"
  by (auto simp: is_integer_def Ints_def)

lemma is_integer_of_int [simp]: "is_integer (Fin (of_int n))"
  by (simp add: is_integer_def)

end
