(* ===== verification/Py_Values.thy ===== *)
theory Py_Values
  imports Float64 "HOL-Library.Word"
begin

text \<open>
  The dynamically typed values that cross the package's public boundaries and callbacks:
  numbers of the Python and NumPy classes, \<open>datetime64\<close> scalars with their unit and NaT,
  strings and opaque objects; the arithmetic the engine applies to a quantity it does not
  trust; and the two shared numeric validators of \<open>pq_types.py\<close> (\<open>_whole_quantity\<close>,
  \<open>_finite_real\<close>) and the boundary validators of \<open>boundaries.py\<close>.
\<close>

section \<open>Machine integers\<close>

definition wrap64 :: "int \<Rightarrow> int" where
  "wrap64 n = (n + 2 ^ 63) mod 2 ^ 64 - 2 ^ 63"

definition in_int64 :: "int \<Rightarrow> bool" where
  "in_int64 n = (- (2 ^ 63) \<le> n \<and> n < 2 ^ 63)"

lemma wrap64_in_int64 [simp]: "in_int64 n \<Longrightarrow> wrap64 n = n"
  by (simp add: wrap64_def in_int64_def)

lemma in_int64_wrap64: "in_int64 (wrap64 n)"
proof -
  have "0 \<le> (n + 2 ^ 63) mod 2 ^ 64" "(n + 2 ^ 63) mod 2 ^ 64 < 2 ^ 64" by simp_all
  then show ?thesis unfolding in_int64_def wrap64_def by simp
qed

text \<open>The value of a wider integer narrowed to a C \<open>int\<close>.\<close>

definition c_int :: "int \<Rightarrow> int" where
  "c_int n = (n + 2 ^ 31) mod 2 ^ 32 - 2 ^ 31"

lemma c_int_small [simp]: "- (2 ^ 31) \<le> n \<Longrightarrow> n < 2 ^ 31 \<Longrightarrow> c_int n = n"
  by (simp add: c_int_def)

section \<open>Timestamps\<close>

datatype dt_unit = DT_Y | DT_M | DT_W | DT_D | DT_h | DT_m | DT_s | DT_ms | DT_us | DT_ns

text \<open>A scalar has a unit and an instant in nanoseconds since the epoch; \<open>None\<close> is NaT.\<close>

datatype datetime64 = Datetime64 (dt_unit_of: dt_unit) (dt_ns: "int option")

definition isnat :: "datetime64 \<Rightarrow> bool" where
  "isnat t = (dt_ns t = None)"

definition dt_lt :: "datetime64 \<Rightarrow> datetime64 \<Rightarrow> bool" where
  "dt_lt a b = (case (dt_ns a, dt_ns b) of (Some x, Some y) \<Rightarrow> x < y | _ \<Rightarrow> False)"

definition dt_le :: "datetime64 \<Rightarrow> datetime64 \<Rightarrow> bool" where
  "dt_le a b = (case (dt_ns a, dt_ns b) of (Some x, Some y) \<Rightarrow> x \<le> y | _ \<Rightarrow> False)"

definition dt_eq :: "datetime64 \<Rightarrow> datetime64 \<Rightarrow> bool" where
  "dt_eq a b = (case (dt_ns a, dt_ns b) of (Some x, Some y) \<Rightarrow> x = y | _ \<Rightarrow> False)"

definition ns_per_day :: int where "ns_per_day = 86400000000000"

definition ns_per_minute :: int where "ns_per_minute = 60000000000"

text \<open>\<open>astype("M8[D]")\<close>: the day an instant lies in, as a day number.\<close>

definition day_of :: "int \<Rightarrow> int" where
  "day_of t = t div ns_per_day"

lemma day_of_mono: "s \<le> t \<Longrightarrow> day_of s \<le> day_of t"
  by (simp add: day_of_def ns_per_day_def zdiv_mono1)

section \<open>Numbers and other values\<close>

datatype pynum = PyInt int | PyFloat float64 | NpInt "64 word" | NpFloat float64

datatype pyval =
    VNone
  | VBool bool
  | VNpBool bool
  | VNum pynum
  | VStr string
  | VDt datetime64
  | VObj nat

type_synonym namespace = "(string, pyval) dict"

text \<open>
  An attribute of a mutable object that ought to hold a value of one class but can be
  overwritten with anything: \<open>Attr x\<close> passes the class test, \<open>Foreign v\<close> does not.
\<close>

datatype 'a attr = Attr 'a | Foreign pyval

definition is_attr :: "'a attr \<Rightarrow> bool" where
  "is_attr a = (case a of Attr _ \<Rightarrow> True | Foreign _ \<Rightarrow> False)"

lemma is_attr_iff: "is_attr a \<longleftrightarrow> (\<exists>x. a = Attr x)"
  by (cases a) (simp_all add: is_attr_def)

lemma is_attr_simps [simp]: "is_attr (Attr x)" "\<not> is_attr (Foreign v)"
  by (simp_all add: is_attr_def)

text \<open>\<open>float(value)\<close> of a number.\<close>

fun num_float :: "pynum \<Rightarrow> float64 res" where
  "num_float (PyInt n) = py_float n"
| "num_float (NpInt w) = Inr (f_of_int (sint w))"
| "num_float (PyFloat x) = Inr x"
| "num_float (NpFloat x) = Inr x"

text \<open>\<open>numpy.isfinite(value)\<close>: a Python integer outside 64 bits has no ufunc loop.\<close>

fun num_isfinite :: "pynum \<Rightarrow> bool res" where
  "num_isfinite (PyInt n) = (if - (2 ^ 63) \<le> n \<and> n < 2 ^ 64 then Inr True
     else Inl (TypeError ''ufunc isfinite not supported''))"
| "num_isfinite (NpInt w) = Inr True"
| "num_isfinite (PyFloat x) = Inr (is_finite x)"
| "num_isfinite (NpFloat x) = Inr (is_finite x)"

text \<open>\<open>int(value)\<close> of a number already known to be finite.\<close>

fun num_int :: "pynum \<Rightarrow> int res" where
  "num_int (PyInt n) = Inr n"
| "num_int (NpInt w) = Inr (sint w)"
| "num_int (PyFloat (Fin x)) = Inr (if 0 \<le> x then \<lfloor>x\<rfloor> else \<lceil>x\<rceil>)"
| "num_int (NpFloat (Fin x)) = Inr (if 0 \<le> x then \<lfloor>x\<rfloor> else \<lceil>x\<rceil>)"
| "num_int _ = Inl (OverflowError ''cannot convert float infinity to integer'')"

fun is_np :: "pynum \<Rightarrow> bool" where
  "is_np (NpInt _) = True" | "is_np (NpFloat _) = True" | "is_np _ = False"

fun is_float_num :: "pynum \<Rightarrow> bool" where
  "is_float_num (PyFloat _) = True" | "is_float_num (NpFloat _) = True" | "is_float_num _ = False"

fun num_exact :: "pynum \<Rightarrow> float64" where
  "num_exact (PyInt n) = Fin (of_int n)"
| "num_exact (NpInt w) = Fin (of_int (sint w))"
| "num_exact (PyFloat x) = x"
| "num_exact (NpFloat x) = x"

fun num_rounded :: "pynum \<Rightarrow> float64" where
  "num_rounded (PyInt n) = f_of_int n"
| "num_rounded (NpInt w) = f_of_int (sint w)"
| "num_rounded (PyFloat x) = x"
| "num_rounded (NpFloat x) = x"

text \<open>Python compares an integer with a float exactly; NumPy converts the integer first.\<close>

definition num_operands :: "pynum \<Rightarrow> pynum \<Rightarrow> float64 \<times> float64" where
  "num_operands a b =
     (if (is_np a \<or> is_np b) \<and> (is_float_num a \<or> is_float_num b)
      then (num_rounded a, num_rounded b) else (num_exact a, num_exact b))"

definition num_lt :: "pynum \<Rightarrow> pynum \<Rightarrow> bool" where
  "num_lt a b = (case num_operands a b of (x, y) \<Rightarrow> f_lt x y)"

definition num_eq :: "pynum \<Rightarrow> pynum \<Rightarrow> bool" where
  "num_eq a b = (case num_operands a b of (x, y) \<Rightarrow> f_eq x y)"

text \<open>Subtraction and multiplication by a Python integer, the operations \<open>Order.fill\<close> applies.\<close>

definition num_intop :: "(int \<Rightarrow> int \<Rightarrow> int) \<Rightarrow> (float64 \<Rightarrow> float64 \<Rightarrow> float64) \<Rightarrow> pynum \<Rightarrow> int \<Rightarrow> pynum res" where
  "num_intop iop fop a n = (case a of
      PyInt m \<Rightarrow> Inr (PyInt (iop m n))
    | NpInt w \<Rightarrow> if in_int64 n then Inr (NpInt (word_of_int (iop (sint w) n)))
                 else Inl (OverflowError ''Python int too large to convert to C long'')
    | PyFloat x \<Rightarrow> rbind (py_float n) (\<lambda>y. Inr (PyFloat (fop x y)))
    | NpFloat x \<Rightarrow> rbind (py_float n) (\<lambda>y. Inr (NpFloat (fop x y))))"

definition num_abs :: "pynum \<Rightarrow> pynum" where
  "num_abs a = (case a of PyInt n \<Rightarrow> PyInt \<bar>n\<bar> | NpInt w \<Rightarrow> NpInt (word_of_int \<bar>sint w\<bar>)
     | PyFloat x \<Rightarrow> PyFloat (f_abs x) | NpFloat x \<Rightarrow> NpFloat (f_abs x))"

text \<open>The number an arithmetic operator sees; \<open>None\<close> where it raises \<open>TypeError\<close>.\<close>

definition as_number :: "pyval \<Rightarrow> pynum option" where
  "as_number v = (case v of VNum a \<Rightarrow> Some a | VBool b \<Rightarrow> Some (PyInt (if b then 1 else 0))
     | VNpBool b \<Rightarrow> Some (NpInt (if b then 1 else 0)) | _ \<Rightarrow> None)"

text \<open>
  The class test of the validators: an instance of \<open>int\<close>, \<open>float\<close>, \<open>np.integer\<close> or
  \<open>np.floating\<close> that is not a boolean.
\<close>

definition as_real :: "pyval \<Rightarrow> pynum option" where
  "as_real v = (case v of VNum a \<Rightarrow> Some a | _ \<Rightarrow> None)"

section \<open>The shared numeric validators\<close>

definition whole_quantity :: "string \<Rightarrow> pyval \<Rightarrow> int res" where
  "whole_quantity field_name value =
     (let bad = Inl (ValueError (field_name @ '' must be finite and nonzero, in whole shares or contracts'')) in
      case as_real value of
        None \<Rightarrow> bad
      | Some a \<Rightarrow> rbind (num_isfinite a) (\<lambda>fin.
          if \<not> fin then bad
          else rbind (num_float a) (\<lambda>x.
            if isclose0 x then bad else if \<not> is_integer x then bad else num_int a)))"

definition finite_real :: "string \<Rightarrow> pyval \<Rightarrow> float64 res" where
  "finite_real field_name value =
     (let bad = Inl (ValueError (field_name @ '' must be a finite real number'')) in
      case as_real value of
        None \<Rightarrow> bad
      | Some a \<Rightarrow> rbind (num_isfinite a) (\<lambda>fin. if \<not> fin then bad else num_float a))"

text \<open>A quantity the validator accepts is the exact value of its argument, whole and nonzero.\<close>

lemma whole_quantity_Inr:
  assumes "whole_quantity f v = Inr n"
  shows "n \<noteq> 0" and "\<exists>a. v = VNum a \<and> num_exact a = Fin (of_int n)"
proof -
  from assms obtain a x where v: "v = VNum a" and fin: "num_isfinite a = Inr True"
    and x: "num_float a = Inr x" and nc: "\<not> isclose0 x" and i: "is_integer x" and n: "num_int a = Inr n"
    by (auto simp: whole_quantity_def as_real_def Let_def split: pyval.splits if_splits)
  have "n \<noteq> 0 \<and> num_exact a = Fin (of_int n)"
  proof (cases a)
    case (PyInt m) with x nc n show ?thesis by (auto simp: py_float_def)
  next
    case (NpInt m) with x nc n show ?thesis by (auto simp: f_of_int_def simp del: of_int_sint)
  next
    case (PyFloat y)
    then show ?thesis using x nc n i fin by (cases y) (auto simp: is_integer_Fin Ints_def split: if_splits)
  next
    case (NpFloat y)
    then show ?thesis using x nc n i fin by (cases y) (auto simp: is_integer_Fin Ints_def split: if_splits)
  qed
  with v show "n \<noteq> 0" "\<exists>a. v = VNum a \<and> num_exact a = Fin (of_int n)" by auto
qed

lemma whole_quantity_PyInt [simp]:
  "\<bar>n\<bar> \<le> 2 ^ 53 \<Longrightarrow> whole_quantity f (VNum (PyInt n)) =
     (if n = 0 then Inl (ValueError (f @ '' must be finite and nonzero, in whole shares or contracts'')) else Inr n)"
  by (auto simp: whole_quantity_def as_real_def)

lemma is_finite_f_of_int: "\<bar>n\<bar> \<le> 2 ^ 64 \<Longrightarrow> is_finite (f_of_int n)"
proof -
  assume "\<bar>n\<bar> \<le> 2 ^ 64"
  then have "\<bar>of_int n :: rat\<bar> \<le> of_int (2 ^ 64)" by (simp flip: of_int_abs of_int_le_iff)
  also have "\<dots> = pow2 64" by (simp add: pow2_def)
  also have "\<dots> < pow2 1000" by simp
  finally obtain y where "rnd64 (of_int n) = Fin y" by (rule rnd64_finite)
  then show ?thesis by (simp add: f_of_int_def)
qed

lemma is_finite_f_of_sint [simp]: "is_finite (f_of_int (sint (w :: 64 word)))"
  using sint_ge [of w] sint_lt [of w] by (intro is_finite_f_of_int) (simp add: abs_le_iff)

lemma finite_real_Inr:
  assumes "finite_real f v = Inr x"
  shows "is_finite x"
proof -
  from assms obtain a where fin: "num_isfinite a = Inr True" and x: "num_float a = Inr x"
    by (auto simp: finite_real_def Let_def split: option.splits if_splits)
  show ?thesis
  proof (cases a)
    case (PyInt n)
    then show ?thesis using x by (cases "rnd64 (of_int n)") (auto simp: py_float_def)
  qed (use fin x in auto)
qed

section \<open>Boundary validators\<close>

text \<open>
  \<open>boundaries.py\<close>. A timestamp array is seen through what its validator inspects: whether
  it is an ndarray at all, its number of dimensions, whether its dtype is a \<open>datetime64\<close>, and
  its elements as nanosecond instants (\<open>None\<close> for NaT). Once validated, a grid is the list
  of its instants. \<open>numpy.searchsorted\<close> on a sorted array counts the elements below (or
  not above) the probe; NaT sorts behind every instant.
\<close>

datatype ts_array = NotAnArray | NdArray (nd_ndim: nat) (nd_datetime: bool) (nd_elems: "int option list")

type_synonym grid = "int list"

definition strictly_increasing :: "int list \<Rightarrow> bool" where
  "strictly_increasing ts = sorted_wrt (<) ts"

text \<open>\<open>numpy.all(numpy.diff(ts) > 0)\<close>.\<close>

definition diffs_positive :: "int list \<Rightarrow> bool" where
  "diffs_positive ts = (\<forall>(s, t)\<in>set (zip ts (tl ts)). 0 < t - s)"

definition validate_timestamp_grid :: "ts_array \<Rightarrow> grid res" where
  "validate_timestamp_grid a = (case a of
      NotAnArray \<Rightarrow> Inl (TypeError ''timestamps must be a NumPy array'')
    | NdArray ndim is_dt elems \<Rightarrow>
        if ndim \<noteq> 1 then Inl (ValueError ''timestamps must be one-dimensional'')
        else if \<not> is_dt then Inl (TypeError ''timestamps must have a datetime64 dtype'')
        else if elems = [] then Inl (ValueError ''timestamps cannot be empty'')
        else if None \<in> set elems then Inl (ValueError ''timestamps cannot contain NaT'')
        else if \<not> diffs_positive (map the elems)
          then Inl (ValueError ''timestamps must be strictly increasing and unique'')
        else Inr (map the elems))"

definition searchsorted_left :: "grid \<Rightarrow> int option \<Rightarrow> nat" where
  "searchsorted_left ts t = (case t of None \<Rightarrow> length ts | Some x \<Rightarrow> length (takeWhile (\<lambda>s. s < x) ts))"

definition searchsorted_right :: "grid \<Rightarrow> int option \<Rightarrow> nat" where
  "searchsorted_right ts t = (case t of None \<Rightarrow> length ts | Some x \<Rightarrow> length (takeWhile (\<lambda>s. s \<le> x) ts))"

definition timestamp_index :: "grid \<Rightarrow> int option \<Rightarrow> nat res" where
  "timestamp_index ts t =
     (let i = searchsorted_left ts t in
      if i \<ge> length ts \<or> Some (ts ! i) \<noteq> t
      then Inl (ValueError ''timestamp is not present in the timestamp grid'') else Inr i)"

definition final_timestamp_at_or_before :: "grid \<Rightarrow> int option \<Rightarrow> int option" where
  "final_timestamp_at_or_before ts end =
     (case end of
        None \<Rightarrow> Some (last ts)
      | Some _ \<Rightarrow> let i = int (searchsorted_right ts end) - 1 in
                  if i < 0 then None else Some (ts ! nat i))"

text \<open>
  Date bounds: \<open>None\<close> is an open bound. \<open>parse\<close> is NumPy's \<open>datetime64\<close> constructor, which
  fails on a malformed string.
\<close>

datatype date_arg = DateNone | DateValue datetime64 | DateString string

definition parse_bound :: "(string \<Rightarrow> datetime64 option) \<Rightarrow> date_arg \<Rightarrow> datetime64 option" where
  "parse_bound parse a = (case a of
      DateNone \<Rightarrow> Some (Datetime64 DT_ns None)
    | DateValue d \<Rightarrow> Some d
    | DateString s \<Rightarrow> parse s)"

definition validate_date_range :: "(string \<Rightarrow> datetime64 option) \<Rightarrow> date_arg \<Rightarrow> date_arg
    \<Rightarrow> (datetime64 \<times> datetime64) res" where
  "validate_date_range parse start end =
     (case (parse_bound parse start, parse_bound parse end) of
        (Some s, Some e) \<Rightarrow>
          if \<not> isnat s \<and> \<not> isnat e \<and> dt_lt e s then Inl (ValueError ''start date cannot be after end date'')
          else Inr (s, e)
      | _ \<Rightarrow> Inl (ValueError ''date range contains an invalid timestamp''))"

definition validate_price_value :: "bool \<Rightarrow> pyval \<Rightarrow> float64 res" where
  "validate_price_value allow_missing value = (case as_real value of
      None \<Rightarrow> Inl (TypeError ''returned a non-real scalar price'')
    | Some a \<Rightarrow> rbind (num_float a) (\<lambda>price.
        if is_nan price then
          (if allow_missing then Inr price else Inl (ValueError ''returned a missing price''))
        else if \<not> is_finite price then Inl (ValueError ''returned a non-finite price'')
        else Inr price))"

subsection \<open>Facts\<close>

lemma diffs_positive_iff: "diffs_positive ts \<longleftrightarrow> strictly_increasing ts"
proof (induction ts)
  case (Cons a ts)
  have "diffs_positive (a # ts) \<longleftrightarrow> (ts \<noteq> [] \<longrightarrow> a < hd ts) \<and> diffs_positive ts"
    by (cases ts) (auto simp: diffs_positive_def)
  also have "\<dots> \<longleftrightarrow> strictly_increasing (a # ts)"
    using Cons.IH by (cases ts) (auto simp: strictly_increasing_def intro: order.strict_trans)
  finally show ?case .
qed (simp add: diffs_positive_def strictly_increasing_def)

lemma validate_timestamp_grid_Inr:
  "validate_timestamp_grid a = Inr ts \<longleftrightarrow>
     a = NdArray 1 True (map Some ts) \<and> ts \<noteq> [] \<and> strictly_increasing ts"
proof -
  have *: "map Some (map the xs) = xs" if "None \<notin> set xs" for xs :: "int option list"
    using that by (induction xs) auto
  show ?thesis
    using * by (cases a) (auto simp: validate_timestamp_grid_def diffs_positive_iff o_def)
qed

lemma takeWhile_less_index:
  assumes "strictly_increasing ts" "i < length ts"
  shows "length (takeWhile (\<lambda>s. s < ts ! i) ts) = i"
proof -
  have "takeWhile (\<lambda>s. s < ts ! i) ts = take i ts"
    using assms by (intro takeWhile_eq_take_P_nth) (auto simp: strictly_increasing_def sorted_wrt_iff_nth_less)
  then show ?thesis using assms(2) by simp
qed

lemma timestamp_index_Inr:
  assumes "strictly_increasing ts"
  shows "timestamp_index ts t = Inr i \<longleftrightarrow> i < length ts \<and> t = Some (ts ! i)"
  using assms takeWhile_less_index [OF assms, of i]
  by (auto simp: timestamp_index_def searchsorted_left_def Let_def split: option.splits if_splits)

lemma timestamp_index_total:
  assumes "strictly_increasing ts" "t \<in> set ts"
  obtains i where "timestamp_index ts (Some t) = Inr i" "i < length ts" "ts ! i = t"
  using assms timestamp_index_Inr [OF assms(1)] by (metis in_set_conv_nth)

lemma validate_price_value_Inr:
  assumes "validate_price_value m v = Inr p"
  shows "is_finite p \<or> m \<and> p = NaN"
  using assms by (auto simp: validate_price_value_def is_nan_def split: option.splits if_splits)

section \<open>Decimal text\<close>

text \<open>\<open>str(n)\<close> of an integer.\<close>

fun dec :: "nat \<Rightarrow> string" where
  "dec n = (if n < 10 then [char_of (48 + n)] else dec (n div 10) @ [char_of (48 + n mod 10)])"

declare dec.simps [simp del]

definition str_int :: "int \<Rightarrow> string" where
  "str_int n = (if n < 0 then ''-'' @ dec (nat (- n)) else dec (nat n))"

end
