(* ===== verification/Sorted_Dict.thy ===== *)
theory Sorted_Dict
  imports Py_Values
begin

text \<open>
  The ordered dictionaries the ledgers keep (\<open>SortedDict\<close> keyed by timestamps): an association
  list with strictly increasing keys, with the operations the ledgers use, and the lookup
  \<open>find_index_before\<close> of \<open>contract_pnl.py\<close>. The contract the ledgers rely on, that peeking at the
  index \<open>find_index_before\<close> returns reads the latest entry not after a timestamp, is the locale
  \<open>as_of_index\<close>, interpreted on these definitions.
\<close>

type_synonym 'v sorted_dict = "(int \<times> 'v) list"

definition sd_ok :: "'v sorted_dict \<Rightarrow> bool" where
  "sd_ok d = strictly_increasing (dict_keys d)"

fun sd_set :: "int \<Rightarrow> 'v \<Rightarrow> 'v sorted_dict \<Rightarrow> 'v sorted_dict" where
  "sd_set k v [] = [(k, v)]"
| "sd_set k v ((j, w) # d) = (if k < j then (k, v) # (j, w) # d else if k = j then (k, v) # d else (j, w) # sd_set k v d)"

definition sd_del :: "int \<Rightarrow> 'v sorted_dict \<Rightarrow> 'v sorted_dict" where
  "sd_del k d = filter (\<lambda>e. fst e \<noteq> k) d"

definition sd_bisect_left :: "'v sorted_dict \<Rightarrow> int \<Rightarrow> nat" where
  "sd_bisect_left d k = length (takeWhile (\<lambda>e. fst e < k) d)"

definition sd_peekitem :: "'v sorted_dict \<Rightarrow> int \<Rightarrow> (int \<times> 'v) res" where
  "sd_peekitem d i = (let j = (if i < 0 then i + int (length d) else i) in
     if 0 \<le> j \<and> j < int (length d) then Inr (d ! nat j) else Inl (IndexError ''list index out of range''))"

definition find_index_before :: "'v sorted_dict \<Rightarrow> int \<Rightarrow> int" where
  "find_index_before d key =
     (let size = length d in
      if size = 0 then - 1
      else let i = sd_bisect_left d key in
        if i = size then int size - 1
        else if fst (d ! i) \<noteq> key then int i - 1
        else int i)"

text \<open>Deleting every key from a timestamp on, one key at a time as the ledgers do.\<close>

definition sd_drop_from :: "int \<Rightarrow> 'v sorted_dict \<Rightarrow> 'v sorted_dict" where
  "sd_drop_from t d = fold (\<lambda>k d. if t \<le> k then sd_del k d else d) (dict_keys d) d"

section \<open>Specification\<close>

text \<open>The entry in force at a timestamp: the last one with a key not after it.\<close>

definition as_of :: "'v sorted_dict \<Rightarrow> int \<Rightarrow> (int \<times> 'v) option" where
  "as_of d t = (let es = filter (\<lambda>e. fst e \<le> t) d in if es = [] then None else Some (last es))"

locale as_of_index =
  fixes ok :: "'d \<Rightarrow> bool" and index :: "'d \<Rightarrow> int \<Rightarrow> int" and peek :: "'d \<Rightarrow> int \<Rightarrow> (int \<times> 'v) res"
    and in_force :: "'d \<Rightarrow> int \<Rightarrow> (int \<times> 'v) option"
  assumes index_none: "ok d \<Longrightarrow> index d t = - 1 \<longleftrightarrow> in_force d t = None"
    and index_some: "ok d \<Longrightarrow> in_force d t = Some e \<Longrightarrow> peek d (index d t) = Inr e"
begin

text \<open>The shape of every read in the ledgers: test the index against -1, then peek.\<close>

lemma read_at_index:
  assumes "ok d"
  shows "(if index d t = - 1 then Inr none else rbind (peek d (index d t)) (\<lambda>e. Inr (some e)))
    = Inr (case in_force d t of None \<Rightarrow> none | Some e \<Rightarrow> some e)"
  using index_none [OF assms, of t] index_some [OF assms, of t] by (cases "in_force d t") auto

end

section \<open>Facts\<close>

lemma sd_ok_simps [simp]: "sd_ok []" "sd_ok (e # d) \<longleftrightarrow> (\<forall>f\<in>set d. fst e < fst f) \<and> sd_ok d"
  by (auto simp: sd_ok_def strictly_increasing_def)

lemma sd_ok_append: "sd_ok (d @ d') \<longleftrightarrow> sd_ok d \<and> sd_ok d' \<and> (\<forall>e\<in>set d. \<forall>f\<in>set d'. fst e < fst f)"
  by (auto simp: sd_ok_def strictly_increasing_def sorted_wrt_append)

lemma sd_ok_filter: "sd_ok d \<Longrightarrow> sd_ok (filter P d)"
  by (induction d) auto

lemma sd_last_max: "sd_ok d \<Longrightarrow> e \<in> set d \<Longrightarrow> fst e \<le> fst (last d)"
  by (induction d rule: rev_induct) (auto simp: sd_ok_append less_imp_le)

lemma set_sd_set: "sd_ok d \<Longrightarrow> set (sd_set k v d) = insert (k, v) {e \<in> set d. fst e \<noteq> k}"
  by (induction k v d rule: sd_set.induct) auto

lemma fst_sd_set [simp]: "fst ` set (sd_set k v d) = insert k (fst ` set d)"
  by (induction k v d rule: sd_set.induct) auto

lemma sd_ok_set [simp]: "sd_ok d \<Longrightarrow> sd_ok (sd_set k v d)"
  by (induction k v d rule: sd_set.induct) (auto simp: set_sd_set)

lemma sd_get_set [simp]: "sd_ok d \<Longrightarrow> map_of (sd_set k v d) j = (if j = k then Some v else map_of d j)"
  by (induction k v d rule: sd_set.induct) auto

lemma sd_ok_distinct: "sd_ok d \<Longrightarrow> distinct (dict_keys d)"
  by (induction d) force+

lemma sd_drop_from_filter: "sd_drop_from t d = filter (\<lambda>e. fst e < t) d"
proof -
  have "fold (\<lambda>k d. if t \<le> k then sd_del k d else d) ks d = filter (\<lambda>e. \<not> (fst e \<in> set ks \<and> t \<le> fst e)) d" for ks
    by (induction ks arbitrary: d) (auto simp: sd_del_def intro!: filter_cong)
  then show ?thesis unfolding sd_drop_from_def by (auto intro!: filter_cong)
qed

lemma filter_above:
  fixes d :: "'v sorted_dict"
  shows "\<forall>f\<in>set d. a < fst f \<Longrightarrow> k \<le> a \<Longrightarrow> filter (\<lambda>e. fst e < k) d = []"
  "\<forall>f\<in>set d. a < fst f \<Longrightarrow> k \<le> a \<Longrightarrow> filter (\<lambda>e. fst e \<le> k) d = []"
  "\<forall>f\<in>set d. a < fst f \<Longrightarrow> k \<le> a \<Longrightarrow> filter (\<lambda>e. fst e = k) d = []"
  "\<forall>f\<in>set d. a < fst f \<Longrightarrow> k \<le> a \<Longrightarrow> filter (\<lambda>e. k \<le> fst e) d = d"
  "\<forall>f\<in>set d. a < fst f \<Longrightarrow> k \<le> a \<Longrightarrow> filter (\<lambda>e. k < fst e) d = d"
  by (induction d) auto

lemma sd_split:
  assumes "sd_ok d"
  shows "filter (\<lambda>e. fst e < k) d @ filter (\<lambda>e. k \<le> fst e) d = d"
    and "filter (\<lambda>e. fst e \<le> k) d @ filter (\<lambda>e. k < fst e) d = d"
    and "filter (\<lambda>e. fst e < k) d @ filter (\<lambda>e. fst e = k) d = filter (\<lambda>e. fst e \<le> k) d"
  using assms by (induction d) (auto simp: filter_above)

lemma takeWhile_eq_filter_sd: "sd_ok d \<Longrightarrow> takeWhile (\<lambda>e. fst e < k) d = filter (\<lambda>e. fst e < k) d"
  by (induction d) (auto simp: filter_above)

lemma as_of_None: "as_of d t = None \<longleftrightarrow> (\<forall>e\<in>set d. t < fst e)"
  by (auto simp: as_of_def Let_def filter_empty_conv not_le)

lemma as_of_append_singleton [simp]: "as_of (d @ [(k, v)]) t = (if k \<le> t then Some (k, v) else as_of d t)"
  by (simp add: as_of_def Let_def)

lemma as_of_Cons: "sd_ok (e # d) \<Longrightarrow> as_of (e # d) t = (if t < fst e then None else case as_of d t of None \<Rightarrow> Some e | x \<Rightarrow> x)"
  by (auto simp: as_of_def Let_def filter_empty_conv not_le)

text \<open>Storing under a key that is not before any other is seen from that key on and nowhere before.\<close>

lemma sd_set_last:
  assumes "sd_ok d" "\<forall>e\<in>set d. fst e \<le> k"
  shows "sd_set k v d = filter (\<lambda>e. fst e < k) d @ [(k, v)]"
  using assms
proof (induction k v d rule: sd_set.induct)
  case (2 k v j w d)
  then have "\<not> k < j" by auto
  moreover have "d = []" if "k = j" using 2(2,3) that by (cases d) auto
  ultimately show ?case using 2 by (auto simp: filter_above)
qed simp

lemma as_of_filter_less: "t < k \<Longrightarrow> as_of (filter (\<lambda>e. fst e < k) d) t = as_of d t"
proof -
  assume "t < k"
  then have "filter (\<lambda>e. fst e < k \<and> fst e \<le> t) d = filter (\<lambda>e. fst e \<le> t) d" by (intro filter_cong) auto
  then show ?thesis by (simp add: as_of_def Let_def)
qed

lemma as_of_set_last:
  assumes "sd_ok d" "\<forall>e\<in>set d. fst e \<le> k"
  shows "as_of (sd_set k v d) t = (if k \<le> t then Some (k, v) else as_of d t)"
  using assms by (simp add: sd_set_last as_of_filter_less)

lemma find_index_before_spec:
  assumes "sd_ok d"
  shows "find_index_before d t = int (length (filter (\<lambda>e. fst e \<le> t) d)) - 1"
proof -
  let ?n = "length (filter (\<lambda>e. fst e < t) d)"
  have b: "sd_bisect_left d t = ?n" by (simp add: sd_bisect_left_def takeWhile_eq_filter_sd [OF assms])
  have len: "length (filter (\<lambda>e. fst e \<le> t) d) = ?n + length (filter (\<lambda>e. fst e = t) d)"
    by (simp flip: sd_split(3) [OF assms])
  have split: "d = filter (\<lambda>e. fst e < t) d @ filter (\<lambda>e. t \<le> fst e) d"
    by (rule sd_split(1) [OF assms, symmetric])
  show ?thesis
  proof (cases "filter (\<lambda>e. t \<le> fst e) d")
    case Nil
    with split have "?n = length d" by (metis append_Nil2)
    moreover from this have "filter (\<lambda>e. fst e = t) d = []"
      using Nil by (auto simp: filter_empty_conv)
    ultimately show ?thesis using b len by (simp add: find_index_before_def Let_def)
  next
    case (Cons e rest)
    have nth: "d ! ?n = e" using split Cons by (metis nth_append_length)
    have lt: "?n < length d" using split Cons by (metis length_append less_add_same_cancel1 length_greater_0_conv list.distinct(1))
    have ok: "sd_ok (e # rest)" using sd_ok_filter [OF assms, of "\<lambda>e. t \<le> fst e"] Cons by simp
    have "filter (\<lambda>e. fst e = t) d = filter (\<lambda>e. fst e = t) (e # rest)"
      using Cons [symmetric] by (auto simp: intro!: filter_cong)
    moreover have "filter (\<lambda>f. fst f = t) rest = []"
    proof -
      have "t \<le> fst e" using Cons by (metis filter_eq_Cons_iff)
      with ok show ?thesis by (force simp: filter_empty_conv)
    qed
    ultimately have "length (filter (\<lambda>e. fst e = t) d) = (if fst e = t then 1 else 0)" by simp
    then show ?thesis using b len lt nth by (auto simp: find_index_before_def Let_def)
  qed
qed

interpretation sd: as_of_index sd_ok find_index_before sd_peekitem as_of
proof
  fix d :: "(int \<times> 'v) list" and t assume ok: "sd_ok d"
  show "find_index_before d t = - 1 \<longleftrightarrow> as_of d t = None"
    by (auto simp: find_index_before_spec [OF ok] as_of_def Let_def)
  fix e assume e: "as_of d t = Some e"
  let ?es = "filter (\<lambda>e. fst e \<le> t) d"
  have ne: "?es \<noteq> []" and le: "e = last ?es" using e by (auto simp: as_of_def Let_def split: if_splits)
  have "d = ?es @ filter (\<lambda>e. t < fst e) d" by (rule sd_split(2) [OF ok, symmetric])
  then have "d ! (length ?es - 1) = ?es ! (length ?es - 1)"
    by (metis ne nth_append diff_less length_greater_0_conv zero_less_one)
  moreover have "length ?es - 1 < length d" 
    using length_filter_le [of "\<lambda>e. fst e \<le> t" d] length_greater_0_conv [THEN iffD2, OF ne] by linarith
  moreover have "find_index_before d t = int (length ?es - 1)"
    using ne by (simp add: find_index_before_spec [OF ok] of_nat_diff Suc_le_eq)
  ultimately show "sd_peekitem d (find_index_before d t) = Inr e"
    by (simp add: sd_peekitem_def le last_conv_nth [OF ne] del: of_nat_diff)
qed

end
