(* ===== verification/Fifo_Kernel.thy ===== *)
theory Fifo_Kernel
  imports Py_Values
begin

text \<open>
  The native whole-unit P&L kernel (\<open>compute_pnl.pyx\<close>) behind \<open>pnl_calculation.py\<close>: lots
  held in malloc'ed buffers addressed by a start index and a size, 64-bit quantities that
  wrap, double prices. An access outside a buffer is \<open>None\<close>. The lemmas show that no access
  leaves a buffer, that the buffer program computes the list function \<open>fifo\<close>, and what that
  function does: positions are conserved, what remains open is one-sided, and the realised
  amount is the exact FIFO cash difference whenever prices lie on a common binary tick.
\<close>

section \<open>Lots and lot buffers\<close>

record lot =
  lot_qty :: int
  lot_price :: float64

record trade_vec =
  tv_start :: nat
  tv_size :: nat
  tv_buf :: "lot list"

definition sign :: "int \<Rightarrow> int" where
  "sign val = (if 0 < val then 1 else 0) - (if val < 0 then 1 else 0)"

definition push_back :: "trade_vec \<Rightarrow> lot \<Rightarrow> trade_vec option" where
  "push_back tv t =
     (let size = tv_size tv + 1; idx = tv_start tv + size - 1 in
      if idx < length (tv_buf tv) then Some (tv\<lparr>tv_size := size, tv_buf := (tv_buf tv)[idx := t]\<rparr>) else None)"

definition pop_front :: "trade_vec \<Rightarrow> trade_vec" where
  "pop_front tv = tv\<lparr>tv_start := tv_start tv + 1, tv_size := tv_size tv - 1\<rparr>"

text \<open>
  The index is a C \<open>int\<close>: one that does not fit it reads elsewhere and counts as an access outside
  the buffer.
\<close>

definition tv_at :: "trade_vec \<Rightarrow> nat \<Rightarrow> lot option" where
  "tv_at tv i = (if i < 2 ^ 31 \<and> tv_start tv + i < length (tv_buf tv) then Some (tv_buf tv ! (tv_start tv + i)) else None)"

text \<open>A store through the pointer \<open>at(tv, 0)\<close> returns.\<close>

definition tv_set_front :: "trade_vec \<Rightarrow> lot \<Rightarrow> trade_vec" where
  "tv_set_front tv t = tv\<lparr>tv_buf := (tv_buf tv)[tv_start tv := t]\<rparr>"

definition blank_lot :: lot where
  "blank_lot = \<lparr>lot_qty = 0, lot_price = NaN\<rparr>"

text \<open>
  \<open>malloc\<close> of a number of bytes, a lot taking 16: the allocator \<open>grants\<close> the request or returns a null
  pointer, which the code does not check. Behind a null pointer there is no lot to access.
\<close>

definition malloc_lots :: "(nat \<Rightarrow> bool) \<Rightarrow> nat \<Rightarrow> lot list" where
  "malloc_lots grants bytes = (if grants bytes then replicate (bytes div 16) blank_lot else [])"

text \<open>
  The size of the request is a \<open>size_t\<close> and \<open>extra_capacity\<close> a C \<open>int\<close>; either may have wrapped. The
  nonzero lots are stored from the front, outside the buffer (\<open>None\<close>) if it is too small; the rest of
  the allocation is never read (see \<open>net_loop_refines\<close>).
\<close>

definition create :: "(nat \<Rightarrow> bool) \<Rightarrow> int list \<Rightarrow> float64 list \<Rightarrow> int \<Rightarrow> trade_vec option" where
  "create grants qtys prices extra_capacity =
     (let trades = malloc_lots grants (nat ((int (length qtys) + extra_capacity) * 16 mod 2 ^ 64));
          lots = [\<lparr>lot_qty = q, lot_price = p\<rparr>. (q, p) \<leftarrow> zip qtys prices, q \<noteq> 0] in
      if length lots \<le> length trades
      then Some \<lparr>tv_start = 0, tv_size = length lots, tv_buf = lots @ drop (length lots) trades\<rparr>
      else None)"

text \<open>
  Net two lots of opposite sign. The kernel calls this with the open position as \<open>trade\<close> and
  the incoming trade as \<open>position\<close>. The result is (new trade, new position, realised).
\<close>

definition net_trade :: "lot \<Rightarrow> lot \<Rightarrow> lot \<times> lot \<times> float64" where
  "net_trade trade position =
     (let abs_tqty = (if 0 \<le> lot_qty trade then lot_qty trade else wrap64 (- lot_qty trade));
          abs_pqty = (if 0 \<le> lot_qty position then lot_qty position else wrap64 (- lot_qty position));
          txn_qty = (if abs_tqty \<le> abs_pqty then lot_qty trade else wrap64 (- lot_qty position));
          realized = f_mul (f_of_int txn_qty) (f_sub (lot_price position) (lot_price trade)) in
      (trade\<lparr>lot_qty := wrap64 (lot_qty trade - txn_qty)\<rparr>,
       position\<lparr>lot_qty := wrap64 (lot_qty position + txn_qty)\<rparr>, realized))"

section \<open>The netting loop\<close>

lemma wrap64_0 [simp]: "wrap64 0 = 0"
  by (simp add: in_int64_def)

lemma wrap64_add_wrap_neg: "wrap64 (n + wrap64 (- n)) = 0"
proof -
  have "wrap64 (n + wrap64 (- n)) = (n + 2 ^ 63 + (2 ^ 63 - n) mod 2 ^ 64 - 2 ^ 63) mod 2 ^ 64 - (2 ^ 63 :: int)"
    by (simp add: wrap64_def algebra_simps)
  also have "\<dots> = (n + (2 ^ 63 - n)) mod 2 ^ 64 - 2 ^ 63"
    by (simp add: mod_add_right_eq)
  finally show ?thesis by simp
qed

lemma net_trade_zero:
  assumes "net_trade trade position = (trade', position', g)"
  shows "lot_qty trade' = 0 \<or> lot_qty position' = 0"
  using assms by (auto simp: net_trade_def Let_def wrap64_add_wrap_neg split: if_splits)

function net_loop :: "trade_vec \<Rightarrow> trade_vec \<Rightarrow> float64 \<Rightarrow> (trade_vec \<times> float64) option" where
  "net_loop trades positions realized =
     (if tv_size trades = 0 then Some (positions, realized)
      else case tv_at trades 0 of None \<Rightarrow> None | Some trade \<Rightarrow>
        if tv_size positions = 0 then
          (case push_back positions trade of None \<Rightarrow> None
           | Some positions' \<Rightarrow> net_loop (pop_front trades) positions' realized)
        else case tv_at positions 0 of None \<Rightarrow> None | Some position \<Rightarrow>
          if sign (lot_qty trade) = sign (lot_qty position) then
            (case push_back positions trade of None \<Rightarrow> None
             | Some positions' \<Rightarrow> net_loop (pop_front trades) positions' realized)
          else case net_trade position trade of (position', trade', gain) \<Rightarrow>
            net_loop
              (if lot_qty trade' = 0 then pop_front (tv_set_front trades trade') else tv_set_front trades trade')
              (if lot_qty position' = 0 then pop_front (tv_set_front positions position')
               else tv_set_front positions position')
              (f_add realized gain))"
  by pat_completeness auto
termination
proof (relation "measure (\<lambda>(trades, positions, _). 2 * tv_size trades + tv_size positions)", goal_cases)
  case (4 trades positions realized trade position position' rest trade' gain)
  then show ?case
    using net_trade_zero [of position trade position' trade' gain]
    by (auto simp: pop_front_def tv_set_front_def)
qed (auto simp: pop_front_def push_back_def Let_def split: if_splits)

declare net_loop.simps [simp del]

text \<open>
  The number of new trades, a \<open>Py_ssize_t\<close>, is narrowed to a C \<open>int\<close> in the call of \<open>create\<close>. A fault is
  the last error.
\<close>

definition calc_trade_pnl_on :: "(nat \<Rightarrow> bool) \<Rightarrow>
  int list \<Rightarrow> float64 list \<Rightarrow> int list \<Rightarrow> float64 list \<Rightarrow> float64 \<Rightarrow> (int list \<times> float64 list \<times> float64) res"
where
  "calc_trade_pnl_on grants open_qtys open_prices new_qtys new_prices multiplier =
     (if length open_qtys \<noteq> length open_prices
      then Inl (ValueError ''open quantities and prices must have the same length'')
      else if length new_qtys \<noteq> length new_prices
      then Inl (ValueError ''new quantities and prices must have the same length'')
      else case Option.bind (create grants new_qtys new_prices 0) (\<lambda>trades.
        Option.bind (create grants open_qtys open_prices (c_int (int (length new_qtys)))) (\<lambda>positions.
        Option.bind (net_loop trades positions (Fin 0)) (\<lambda>(positions, realized).
        Option.bind (those (map (tv_at positions) [0..<tv_size positions])) (\<lambda>lots.
        Some (map lot_qty lots, map lot_price lots, f_mul realized multiplier))))) of
        None \<Rightarrow> Inl (RuntimeError ''access outside a lot buffer'')
      | Some result \<Rightarrow> Inr result)"

text \<open>The allocator of the callers: every request of fewer than \<open>2\<^sup>6\<^sup>3\<close> bytes is granted.\<close>

definition malloc_grants :: "nat \<Rightarrow> bool" where
  "malloc_grants bytes = (bytes < 2 ^ 63)"

definition calc_trade_pnl ::
  "int list \<Rightarrow> float64 list \<Rightarrow> int list \<Rightarrow> float64 list \<Rightarrow> float64 \<Rightarrow> (int list \<times> float64 list \<times> float64) res"
where
  "calc_trade_pnl = calc_trade_pnl_on malloc_grants"

definition calculate_trade_pnl ::
  "int list \<Rightarrow> float64 list \<Rightarrow> int list \<Rightarrow> float64 list \<Rightarrow> float64 \<Rightarrow> (int list \<times> float64 list \<times> float64) res"
where
  "calculate_trade_pnl open_quantities open_prices new_quantities new_prices multiplier =
     rbind (calc_trade_pnl open_quantities open_prices new_quantities new_prices multiplier)
       (\<lambda>(quantities, prices, realized). Inr (quantities, prices, realized))"

section \<open>The list function the buffer program computes\<close>

function fifo :: "lot list \<Rightarrow> lot list \<Rightarrow> float64 \<Rightarrow> lot list \<times> float64" where
  "fifo [] ps r = (ps, r)"
| "fifo (t # ts) [] r = fifo ts [t] r"
| "fifo (t # ts) (p # ps) r =
     (if sign (lot_qty t) = sign (lot_qty p) then fifo ts (p # ps @ [t]) r
      else case net_trade p t of (p', t', gain) \<Rightarrow>
        fifo (if lot_qty t' = 0 then ts else t' # ts)
             (if lot_qty p' = 0 then ps else p' # ps) (f_add r gain))"
  by pat_completeness auto
termination
proof (relation "measure (\<lambda>(ts, ps, _). 2 * length ts + length ps)", goal_cases)
  case (4 t ts p ps r p' rest t' gain)
  then show ?case using net_trade_zero [of p t p' t' gain] by auto
qed auto

definition tv_list :: "trade_vec \<Rightarrow> lot list" where
  "tv_list tv = take (tv_size tv) (drop (tv_start tv) (tv_buf tv))"

definition tv_wf :: "trade_vec \<Rightarrow> bool" where
  "tv_wf tv = (tv_start tv + tv_size tv \<le> length (tv_buf tv))"

definition has_room :: "nat \<Rightarrow> trade_vec \<Rightarrow> bool" where
  "has_room n tv = (tv_start tv + tv_size tv + n \<le> length (tv_buf tv))"

lemma tv_decompose:
  assumes "tv_wf tv" "tv_size tv = Suc n"
  obtains pre t ts post where "tv_buf tv = pre @ t # ts @ post" "length pre = tv_start tv" "length ts = n"
proof -
  let ?d = "drop (tv_start tv) (tv_buf tv)"
  have "n < length ?d" using assms by (auto simp: tv_wf_def)
  then obtain t ds where d: "?d = t # ds" "n \<le> length ds" by (cases ?d) auto
  show ?thesis
  proof
    show "tv_buf tv = take (tv_start tv) (tv_buf tv) @ t # take n ds @ drop n ds"
      using d(1) by (metis append_take_drop_id)
  qed (use assms d in \<open>auto simp: tv_wf_def\<close>)
qed

lemma tv_front:
  assumes "tv_wf tv" "tv_size tv = Suc n"
  obtains t ts where "tv_list tv = t # ts" "tv_at tv 0 = Some t" "tv_list (pop_front tv) = ts" "tv_wf (pop_front tv)"
    "\<And>u. tv_list (tv_set_front tv u) = u # ts" "\<And>u. tv_wf (tv_set_front tv u)"
    "\<And>u. tv_list (pop_front (tv_set_front tv u)) = ts" "\<And>u. tv_wf (pop_front (tv_set_front tv u))"
proof -
  from tv_decompose [OF assms] obtain pre t ts post where
    b: "tv_buf tv = pre @ t # ts @ post" "length pre = tv_start tv" "length ts = n" .
  show ?thesis
    by (rule that [of t ts])
      (use b assms(2) in \<open>auto simp: tv_list_def tv_at_def tv_wf_def pop_front_def tv_set_front_def
         list_update_append nth_append simp flip: b(2)\<close>)
qed

lemma tv_push:
  assumes "has_room (Suc k) tv"
  obtains tv' where "push_back tv t = Some tv'" "tv_list tv' = tv_list tv @ [t]" "has_room k tv'"
    "tv_size tv' = Suc (tv_size tv)" "length (tv_buf tv') = length (tv_buf tv)"
proof -
  let ?i = "tv_start tv + tv_size tv"
  have lt: "?i < length (tv_buf tv)" using assms by (simp add: has_room_def)
  have "take (Suc (tv_size tv)) (drop (tv_start tv) ((tv_buf tv)[?i := t]))
      = take (tv_size tv) (drop (tv_start tv) (tv_buf tv)) @ [t]"
    using lt by (simp add: take_Suc_conv_app_nth drop_update_swap)
  then show ?thesis
    using lt assms that [of "tv\<lparr>tv_size := Suc (tv_size tv), tv_buf := (tv_buf tv)[?i := t]\<rparr>"]
    by (simp add: push_back_def has_room_def tv_list_def)
qed

lemma tv_wf_of_room: "has_room k tv \<Longrightarrow> tv_wf tv"
  by (simp add: has_room_def tv_wf_def)

lemma tv_list_Nil: "tv_size tv = 0 \<Longrightarrow> tv_list tv = []"
  by (simp add: tv_list_def)

lemma has_room_simps [simp]:
  "has_room k (tv_set_front tv u) \<longleftrightarrow> has_room k tv"
  "tv_size tv \<noteq> 0 \<Longrightarrow> has_room k (pop_front tv) \<longleftrightarrow> has_room k tv"
  "tv_size tv \<noteq> 0 \<Longrightarrow> has_room k (pop_front (tv_set_front tv u)) \<longleftrightarrow> has_room k tv"
  by (auto simp: has_room_def pop_front_def tv_set_front_def)

lemma tv_size_simps [simp]:
  "tv_size (tv_set_front tv u) = tv_size tv" "tv_size (pop_front tv) = tv_size tv - 1"
  by (simp_all add: tv_set_front_def pop_front_def)

lemma has_room_mono: "has_room k tv \<Longrightarrow> j \<le> k \<Longrightarrow> has_room j tv"
  by (simp add: has_room_def)

text \<open>
  Memory safety and functional refinement in one: with room for every outstanding trade the
  loop never leaves a buffer and computes \<open>fifo\<close> on the lists the buffers hold.
\<close>

lemma net_loop_refines:
  assumes "tv_wf trades" "has_room (tv_size trades) positions"
  shows "\<exists>positions' realized'. net_loop trades positions realized = Some (positions', realized') \<and>
     tv_wf positions' \<and> fifo (tv_list trades) (tv_list positions) realized = (tv_list positions', realized')"
  using assms
proof (induction trades positions realized rule: net_loop.induct)
  case (1 trades positions realized)
  show ?case
  proof (cases "tv_size trades")
    case 0
    then show ?thesis
      using "1.prems"(2) by (simp add: net_loop.simps tv_list_Nil tv_wf_of_room)
  next
    case (Suc n)
    obtain t ts where t: "tv_list trades = t # ts" "tv_at trades 0 = Some t"
      "tv_list (pop_front trades) = ts" "tv_wf (pop_front trades)"
      "\<And>u. tv_list (tv_set_front trades u) = u # ts" "\<And>u. tv_wf (tv_set_front trades u)"
      "\<And>u. tv_list (pop_front (tv_set_front trades u)) = ts" "\<And>u. tv_wf (pop_front (tv_set_front trades u))"
      using tv_front [OF "1.prems"(1) Suc] by metis
    obtain pv where pv: "push_back positions t = Some pv" "tv_list pv = tv_list positions @ [t]" "has_room n pv"
      using tv_push "1.prems"(2) Suc by metis
    show ?thesis
    proof (cases "tv_size positions")
      case 0
      then show ?thesis
        using Suc t pv "1.IH"(1) [of t pv]
        by (simp add: net_loop.simps [of trades] tv_list_Nil)
    next
      case (Suc k)
      obtain p ps where p: "tv_list positions = p # ps" "tv_at positions 0 = Some p"
        "tv_list (pop_front positions) = ps" "\<And>u. tv_list (tv_set_front positions u) = u # ps"
        "\<And>u. tv_list (pop_front (tv_set_front positions u)) = ps"
        using tv_front [OF tv_wf_of_room [OF "1.prems"(2)] Suc] by metis
      show ?thesis
      proof (cases "sign (lot_qty t) = sign (lot_qty p)")
        case True
        then show ?thesis
          using \<open>tv_size trades = Suc n\<close> Suc t p pv "1.IH"(2) [of t p pv]
          by (simp add: net_loop.simps [of trades])
      next
        case False
        obtain p' t' g where n: "net_trade p t = (p', t', g)" by (cases "net_trade p t") auto
        let ?ts = "if lot_qty t' = 0 then pop_front (tv_set_front trades t') else tv_set_front trades t'"
        let ?ps = "if lot_qty p' = 0 then pop_front (tv_set_front positions p') else tv_set_front positions p'"
        have "has_room (tv_size ?ts) ?ps"
          using \<open>tv_size trades = Suc n\<close> Suc "1.prems"(2) by (auto intro: has_room_mono)
        moreover have "tv_wf ?ts" using t by simp
        moreover have "net_loop trades positions realized = net_loop ?ts ?ps (f_add realized g)"
          using \<open>tv_size trades = Suc n\<close> Suc t p False n by (simp add: net_loop.simps [of trades])
        moreover have "fifo (tv_list trades) (tv_list positions) realized
            = fifo (tv_list ?ts) (tv_list ?ps) (f_add realized g)"
          unfolding t(1) p(1) by (subst fifo.simps) (simp add: False n t p del: fifo.simps)
        ultimately show ?thesis
          using \<open>tv_size trades = Suc n\<close> Suc "1.IH"(3) [OF _ t(2) _ p(2) False n [symmetric] refl]
          by simp
      qed
    qed
  qed
qed

text \<open>Whatever room there is: a loop that stays inside its buffers has computed \<open>fifo\<close>.\<close>

lemma push_back_some:
  assumes "push_back tv t = Some tv'" "tv_wf tv"
  shows "tv_wf tv'" "tv_list tv' = tv_list tv @ [t]"
proof -
  have "tv_start tv + tv_size tv < length (tv_buf tv)" using assms(1) by (auto simp: push_back_def Let_def split: if_splits)
  then have "has_room (Suc 0) tv" by (simp add: has_room_def)
  from tv_push [OF this, of t] assms(1) show "tv_wf tv'" "tv_list tv' = tv_list tv @ [t]"
    by (metis option.inject tv_wf_of_room)+
qed

lemma net_loop_partial:
  assumes "tv_wf trades" "tv_wf positions" "net_loop trades positions realized = Some (positions', realized')"
  shows "tv_wf positions' \<and> fifo (tv_list trades) (tv_list positions) realized = (tv_list positions', realized')"
  using assms
proof (induction trades positions realized rule: net_loop.induct)
  case (1 trades positions realized)
  show ?case
  proof (cases "tv_size trades")
    case 0
    then show ?thesis using "1.prems" by (simp add: net_loop.simps tv_list_Nil)
  next
    case (Suc n)
    obtain t ts where t: "tv_list trades = t # ts" "tv_at trades 0 = Some t"
      "tv_list (pop_front trades) = ts" "tv_wf (pop_front trades)"
      "\<And>u. tv_list (tv_set_front trades u) = u # ts" "\<And>u. tv_wf (tv_set_front trades u)"
      "\<And>u. tv_list (pop_front (tv_set_front trades u)) = ts" "\<And>u. tv_wf (pop_front (tv_set_front trades u))"
      using tv_front [OF "1.prems"(1) Suc] by metis
    show ?thesis
    proof (cases "tv_size positions")
      case 0
      then obtain pv where pv: "push_back positions t = Some pv" "net_loop (pop_front trades) pv realized = Some (positions', realized')"
        using "1.prems"(3) Suc t by (auto simp: net_loop.simps [of trades] split: option.splits)
      show ?thesis
        using 0 Suc t push_back_some [OF pv(1) "1.prems"(2)] pv "1.IH"(1) [of t pv]
        by (simp add: tv_list_Nil)
    next
      case (Suc k)
      obtain p ps where p: "tv_list positions = p # ps" "tv_at positions 0 = Some p"
        "tv_list (pop_front positions) = ps" "\<And>u. tv_list (tv_set_front positions u) = u # ps"
        "\<And>u. tv_list (pop_front (tv_set_front positions u)) = ps"
        "\<And>u. tv_wf (tv_set_front positions u)" "\<And>u. tv_wf (pop_front (tv_set_front positions u))"
        using tv_front [OF "1.prems"(2) Suc] by metis
      show ?thesis
      proof (cases "sign (lot_qty t) = sign (lot_qty p)")
        case True
        then obtain pv where pv: "push_back positions t = Some pv" "net_loop (pop_front trades) pv realized = Some (positions', realized')"
          using "1.prems"(3) \<open>tv_size trades = Suc n\<close> Suc t p by (auto simp: net_loop.simps [of trades] split: option.splits)
        show ?thesis
          using True \<open>tv_size trades = Suc n\<close> Suc t p push_back_some [OF pv(1) "1.prems"(2)] pv "1.IH"(2) [of t p pv] by simp
      next
        case False
        obtain p' t' g where n: "net_trade p t = (p', t', g)" by (cases "net_trade p t") auto
        let ?ts = "if lot_qty t' = 0 then pop_front (tv_set_front trades t') else tv_set_front trades t'"
        let ?ps = "if lot_qty p' = 0 then pop_front (tv_set_front positions p') else tv_set_front positions p'"
        have "net_loop ?ts ?ps (f_add realized g) = Some (positions', realized')"
          using "1.prems"(3) \<open>tv_size trades = Suc n\<close> Suc t p False n by (simp add: net_loop.simps [of trades])
        moreover have "tv_wf ?ts" "tv_wf ?ps" using t p by simp_all
        moreover have "fifo (tv_list trades) (tv_list positions) realized
            = fifo (tv_list ?ts) (tv_list ?ps) (f_add realized g)"
          unfolding t(1) p(1) by (subst fifo.simps) (simp add: False n t p del: fifo.simps)
        ultimately show ?thesis
          using \<open>tv_size trades = Suc n\<close> Suc "1.IH"(3) [OF _ t(2) _ p(2) False n [symmetric] refl] by simp
      qed
    qed
  qed
qed

lemma fifo_length: "length (fst (fifo ts ps r)) \<le> length ts + length ps"
proof (induction ts ps r rule: fifo.induct)
  case (3 t ts p ps r)
  show ?case
  proof (cases "sign (lot_qty t) = sign (lot_qty p)")
    case True
    then show ?thesis using "3.IH"(1) by simp
  next
    case False
    obtain p' t' g where n: "net_trade p t = (p', t', g)" by (cases "net_trade p t") auto
    show ?thesis using "3.IH"(2) [OF False n [symmetric] refl] False n by (auto split: if_splits)
  qed
qed auto

section \<open>The netting contract\<close>

text \<open>
  What one netting step promises, whichever representation of a lot it works on: the smaller
  side is used up and the larger keeps the difference. The native kernel and the round-trip
  reconciliation both provide it.
\<close>

definition one_sided :: "('l \<Rightarrow> int) \<Rightarrow> 'l list \<Rightarrow> bool" where
  "one_sided qty ls = ((\<forall>l\<in>set ls. 0 < qty l) \<or> (\<forall>l\<in>set ls. qty l < 0))"

locale lot_netting =
  fixes qty :: "'l \<Rightarrow> int" and ok :: "'l \<Rightarrow> bool" and net :: "'l \<Rightarrow> 'l \<Rightarrow> 'l \<times> 'l \<times> 'g"
  assumes net_law: "ok p \<Longrightarrow> ok t \<Longrightarrow> qty p * qty t < 0 \<Longrightarrow> net p t = (p', t', g) \<Longrightarrow>
      qty p' = (if \<bar>qty p\<bar> \<le> \<bar>qty t\<bar> then 0 else qty p + qty t) \<and>
      qty t' = (if \<bar>qty p\<bar> \<le> \<bar>qty t\<bar> then qty p + qty t else 0)"
    and net_ok: "ok p \<Longrightarrow> ok t \<Longrightarrow> qty p * qty t < 0 \<Longrightarrow> net p t = (p', t', g) \<Longrightarrow> ok p' \<and> ok t'"
begin

lemma net_conserves:
  "ok p \<Longrightarrow> ok t \<Longrightarrow> qty p * qty t < 0 \<Longrightarrow> net p t = (p', t', g) \<Longrightarrow> qty p' + qty t' = qty p + qty t"
  using net_law [of p t p' t' g] by simp

lemma net_sign:
  assumes "ok p" "ok t" "qty p * qty t < 0" "net p t = (p', t', g)"
  shows "qty p' \<noteq> 0 \<Longrightarrow> (0 < qty p' \<longleftrightarrow> 0 < qty p)" and "qty t' \<noteq> 0 \<Longrightarrow> (0 < qty t' \<longleftrightarrow> 0 < qty t)"
    and "qty p' = 0 \<or> qty t' = 0"
proof -
  have d: "0 < qty p \<and> qty t < 0 \<or> qty p < 0 \<and> 0 < qty t"
    using assms(3) by (simp add: mult_less_0_iff)
  note l = net_law [OF assms]
  show "qty p' \<noteq> 0 \<Longrightarrow> (0 < qty p' \<longleftrightarrow> 0 < qty p)" and "qty t' \<noteq> 0 \<Longrightarrow> (0 < qty t' \<longleftrightarrow> 0 < qty t)"
    using l d by (cases "\<bar>qty p\<bar> \<le> \<bar>qty t\<bar>"; simp; arith)+
  show "qty p' = 0 \<or> qty t' = 0" using l by (cases "\<bar>qty p\<bar> \<le> \<bar>qty t\<bar>") simp_all
qed

lemma net_one_sided:
  assumes "one_sided qty (p # ps)" "ok p" "ok t" "qty p * qty t < 0" "net p t = (p', t', g)"
  shows "one_sided qty (if qty p' = 0 then ps else p' # ps)"
  using assms(1) net_sign(1) [OF assms(2-5)] by (auto simp: one_sided_def)

end

lemma net_trade_exact:
  assumes "\<bar>lot_qty p\<bar> < 2 ^ 63" "\<bar>lot_qty t\<bar> < 2 ^ 63" "lot_qty p * lot_qty t < 0"
  shows "net_trade p t =
    (if \<bar>lot_qty p\<bar> \<le> \<bar>lot_qty t\<bar>
     then (p\<lparr>lot_qty := 0\<rparr>, t\<lparr>lot_qty := lot_qty t + lot_qty p\<rparr>,
           f_mul (f_of_int (lot_qty p)) (f_sub (lot_price t) (lot_price p)))
     else (p\<lparr>lot_qty := lot_qty p + lot_qty t\<rparr>, t\<lparr>lot_qty := 0\<rparr>,
           f_mul (f_of_int (- lot_qty t)) (f_sub (lot_price t) (lot_price p))))"
proof -
  have w: "wrap64 n = n" if "\<bar>n\<bar> < 2 ^ 63" for n
    using that by (intro wrap64_in_int64) (simp add: in_int64_def abs_less_iff)
  have d: "0 < lot_qty p \<and> lot_qty t < 0 \<or> lot_qty p < 0 \<and> 0 < lot_qty t"
    using assms(3) by (simp add: mult_less_0_iff)
  have wn: "wrap64 (- lot_qty p) = - lot_qty p" "wrap64 (- lot_qty t) = - lot_qty t"
    "wrap64 (lot_qty t + lot_qty p) = lot_qty t + lot_qty p" "wrap64 (lot_qty p + lot_qty t) = lot_qty p + lot_qty t"
    by (rule w, use assms(1,2) d in linarith)+
  have a: "(if 0 \<le> lot_qty p then lot_qty p else wrap64 (- lot_qty p)) = \<bar>lot_qty p\<bar>"
    "(if 0 \<le> lot_qty t then lot_qty t else wrap64 (- lot_qty t)) = \<bar>lot_qty t\<bar>"
    by (simp_all add: wn)
  show ?thesis
    unfolding net_trade_def Let_def a by (simp add: wn)
qed

interpretation kernel: lot_netting lot_qty "\<lambda>l. \<bar>lot_qty l\<bar> < 2 ^ 63" net_trade
proof (unfold_locales, goal_cases)
  case (1 p t p' t' g)
  then show ?case using net_trade_exact [of p t] by (auto split: if_splits)
next
  case (2 p t p' t' g)
  then show ?case using net_trade_exact [of p t] by (auto simp: mult_less_0_iff abs_if split: if_splits)
qed

section \<open>What the kernel computes\<close>

definition lots_of :: "int list \<Rightarrow> float64 list \<Rightarrow> lot list" where
  "lots_of qtys prices = [\<lparr>lot_qty = q, lot_price = p\<rparr>. (q, p) \<leftarrow> zip qtys prices, q \<noteq> 0]"

lemma lots_of_Cons [simp]:
  "lots_of (q # qs) (p # ps) = (if q = 0 then [] else [\<lparr>lot_qty = q, lot_price = p\<rparr>]) @ lots_of qs ps"
  "lots_of [] ps = []" "lots_of qs [] = []"
  by (simp_all add: lots_of_def)

lemma length_lots_of: "length (lots_of qs ps) \<le> length qs"
  by (induction qs ps rule: list_induct2') auto

lemma create_some:
  assumes "create grants qs ps k = Some tv"
  shows "tv_list tv = lots_of qs ps" "tv_wf tv"
  using assms by (auto simp: create_def tv_list_def tv_wf_def lots_of_def Let_def split: if_splits)

lemma create_granted:
  assumes "grants (16 * (length qs + k))" "16 * (length qs + k) < 2 ^ 64"
  obtains tv where "create grants qs ps (int k) = Some tv" "has_room k tv" "tv_size tv = length (lots_of qs ps)"
proof -
  have e: "nat ((int (length qs) + int k) * 16 mod 2 ^ 64) = 16 * (length qs + k)" 
  proof -
    have "(int (length qs) + int k) * 16 = int (16 * (length qs + k))" by simp
    then show ?thesis using assms(2) by (simp only: nat_mod_distrib flip: of_nat_power of_nat_mod) simp
  qed
  have room: "length (malloc_lots grants (nat ((int (length qs) + int k) * 16 mod 2 ^ 64))) = length qs + k"
    unfolding e malloc_lots_def using assms(1) by simp
  show ?thesis
    by (rule that) (use room length_lots_of [of qs ps] in \<open>auto simp: create_def Let_def has_room_def lots_of_def\<close>)
qed

lemma those_tv_at: "tv_wf tv \<Longrightarrow> those (map (tv_at tv) [0..<tv_size tv]) = Some ls \<Longrightarrow> ls = tv_list tv"
proof -
  assume wf: "tv_wf tv"
  have "those (map f is) = Some ls \<Longrightarrow> \<forall>i\<in>set is. f i = None \<or> f i = Some (g i) \<Longrightarrow> ls = map g is"
    for f :: "nat \<Rightarrow> lot option" and g "is" by (induction "is" arbitrary: ls) (auto split: option.splits)
  from this [of "tv_at tv" "[0..<tv_size tv]" "\<lambda>i. tv_list tv ! i"] show
    "those (map (tv_at tv) [0..<tv_size tv]) = Some ls \<Longrightarrow> ls = tv_list tv"
    using wf map_nth [of "tv_list tv"] by (auto simp: tv_at_def tv_list_def tv_wf_def)
qed

lemma those_tv_at_total:
  assumes "tv_wf tv" "tv_size tv \<le> 2 ^ 31"
  shows "those (map (tv_at tv) [0..<tv_size tv]) = Some (tv_list tv)"
proof -
  have "\<forall>i\<in>set is. f i \<noteq> None \<Longrightarrow> \<exists>ls. those (map f is) = Some ls" for f :: "nat \<Rightarrow> lot option" and "is"
    by (induction "is") auto
  moreover have "\<forall>i\<in>set [0..<tv_size tv]. tv_at tv i \<noteq> None" using assms by (auto simp: tv_at_def tv_wf_def)
  ultimately obtain ls where "those (map (tv_at tv) [0..<tv_size tv]) = Some ls" by blast
  then show ?thesis using those_tv_at [OF assms(1)] by simp
qed

text \<open>What is returned is what \<open>fifo\<close> computes, whatever the allocator does and however long the arrays are.\<close>

lemma calc_trade_pnl_returned:
  assumes "calc_trade_pnl_on grants oq op nq np m = Inr (qs, ps, x)"
  obtains ls r where "fifo (lots_of nq np) (lots_of oq op) (Fin 0) = (ls, r)"
    "qs = map lot_qty ls" "ps = map lot_price ls" "x = f_mul r m"
proof -
  obtain trades positions pv r ls where c: "create grants nq np 0 = Some trades"
      "create grants oq op (c_int (int (length nq))) = Some positions"
      "net_loop trades positions (Fin 0) = Some (pv, r)" "those (map (tv_at pv) [0..<tv_size pv]) = Some ls"
    and r: "qs = map lot_qty ls" "ps = map lot_price ls" "x = f_mul r m"
    using assms by (auto simp: calc_trade_pnl_on_def bind_eq_Some_conv split: if_splits option.splits)
  note f = net_loop_partial [OF create_some(2) [OF c(1)] create_some(2) [OF c(2)] c(3)]
  have "ls = tv_list pv" using f c(4) by (intro those_tv_at) auto
  then show ?thesis using f create_some(1) [OF c(1)] create_some(1) [OF c(2)] r by (intro that) auto
qed

text \<open>It is returned when the arrays are short enough for the C integers and the two buffers are granted.\<close>

lemma calc_trade_pnl_total:
  assumes "length oq = length op" "length nq = length np" "length oq + length nq < 2 ^ 31"
    and "grants (16 * length nq)" "grants (16 * (length oq + length nq))"
  shows "calc_trade_pnl_on grants oq op nq np m =
    (case fifo (lots_of nq np) (lots_of oq op) (Fin 0) of (ls, r) \<Rightarrow>
       Inr (map lot_qty ls, map lot_price ls, f_mul r m))"
proof -
  obtain trades where t: "create grants nq np 0 = Some trades" "tv_size trades = length (lots_of nq np)"
    using create_granted [of grants nq 0 np] assms(3,4) by auto
  obtain positions where p: "create grants oq op (int (length nq)) = Some positions" "has_room (length nq) positions"
    using create_granted [of grants oq "length nq" op] assms(3,5) by auto
  have c: "c_int (int (length nq)) = int (length nq)" using assms(3) by simp
  have "has_room (tv_size trades) positions"
    using p(2) t(2) length_lots_of [of nq np] by (auto intro: has_room_mono)
  from net_loop_refines [OF create_some(2) [OF t(1)] this, of "Fin 0"] obtain pv r where
    n: "net_loop trades positions (Fin 0) = Some (pv, r)" "tv_wf pv"
      "fifo (lots_of nq np) (lots_of oq op) (Fin 0) = (tv_list pv, r)"
    using create_some(1) [OF t(1)] create_some(1) [OF p(1)] by auto
  have "length (tv_list pv) \<le> length nq + length oq"
    using fifo_length [of "lots_of nq np" "lots_of oq op" "Fin 0"] n(3) length_lots_of [of nq np] length_lots_of [of oq op] by simp
  then have "tv_size pv \<le> 2 ^ 31" using n(2) assms(3) by (simp add: tv_list_def tv_wf_def)
  from those_tv_at_total [OF n(2) this] show ?thesis using assms(1,2) t(1) p(1) c n by (simp add: calc_trade_pnl_on_def)
qed

lemma calc_trade_pnl_fifo:
  assumes "length oq = length op" "length nq = length np" "length oq + length nq < 2 ^ 31"
  shows "calc_trade_pnl oq op nq np m =
    (case fifo (lots_of nq np) (lots_of oq op) (Fin 0) of (ls, r) \<Rightarrow>
       Inr (map lot_qty ls, map lot_price ls, f_mul r m))"
  unfolding calc_trade_pnl_def by (rule calc_trade_pnl_total) (use assms in \<open>auto simp: malloc_grants_def\<close>)

lemma sign_eq_iff: "a \<noteq> 0 \<Longrightarrow> b \<noteq> 0 \<Longrightarrow> sign a = sign b \<longleftrightarrow> 0 < a * b"
  by (auto simp: sign_def zero_less_mult_iff)

definition lots_ok :: "lot list \<Rightarrow> bool" where
  "lots_ok ls = (\<forall>l\<in>set ls. lot_qty l \<noteq> 0 \<and> \<bar>lot_qty l\<bar> < 2 ^ 63)"

definition net_qty :: "lot list \<Rightarrow> int" where
  "net_qty ls = sum_list (map lot_qty ls)"

lemma lots_ok_simps [simp]:
  "lots_ok []" "lots_ok (l # ls) \<longleftrightarrow> lot_qty l \<noteq> 0 \<and> \<bar>lot_qty l\<bar> < 2 ^ 63 \<and> lots_ok ls"
  "lots_ok (ls @ ms) \<longleftrightarrow> lots_ok ls \<and> lots_ok ms"
  by (auto simp: lots_ok_def)

lemma net_qty_simps [simp]:
  "net_qty [] = 0" "net_qty (l # ls) = lot_qty l + net_qty ls" "net_qty (ls @ ms) = net_qty ls + net_qty ms"
  by (simp_all add: net_qty_def)

text \<open>One netting step, as the induction over \<open>fifo\<close> uses it.\<close>

lemma net_step:
  assumes "lots_ok (t # ts)" "lots_ok (p # ps)" "one_sided lot_qty (p # ps)"
    "sign (lot_qty t) \<noteq> sign (lot_qty p)" "net_trade p t = (p', t', g)"
  defines "ts' \<equiv> (if lot_qty t' = 0 then ts else t' # ts)" and "ps' \<equiv> (if lot_qty p' = 0 then ps else p' # ps)"
  shows "lots_ok ts'" "lots_ok ps'" "one_sided lot_qty ps'"
    "net_qty ts' + net_qty ps' = net_qty (t # ts) + net_qty (p # ps)"
proof -
  have opp: "lot_qty p * lot_qty t < 0"
    using assms(1,2,4) sign_eq_iff [of "lot_qty t" "lot_qty p"]
    by (auto simp: mult.commute mult_less_0_iff zero_less_mult_iff)
  have b: "\<bar>lot_qty p\<bar> < 2 ^ 63" "\<bar>lot_qty t\<bar> < 2 ^ 63" using assms(1,2) by auto
  note k = kernel.net_ok [OF b opp assms(5)] kernel.net_conserves [OF b opp assms(5)]
  show "lots_ok ts'" "lots_ok ps'" using assms(1,2) k by (auto simp: ts'_def ps'_def)
  show "one_sided lot_qty ps'" unfolding ps'_def by (rule kernel.net_one_sided [OF assms(3) b opp assms(5)])
  show "net_qty ts' + net_qty ps' = net_qty (t # ts) + net_qty (p # ps)"
    using k by (auto simp: ts'_def ps'_def)
qed

lemma fifo_invariant:
  assumes "lots_ok ts" "lots_ok ps" "one_sided lot_qty ps" "fifo ts ps r = (ps', r')"
  shows "lots_ok ps' \<and> one_sided lot_qty ps' \<and> net_qty ps' = net_qty ts + net_qty ps"
  using assms
proof (induction ts ps r rule: fifo.induct)
  case (2 t ts r)
  then have "one_sided lot_qty [t]" by (auto simp: one_sided_def)
  with 2 show ?case by simp
next
  case (3 t ts p ps r)
  show ?case
  proof (cases "sign (lot_qty t) = sign (lot_qty p)")
    case True
    then have "one_sided lot_qty (p # ps @ [t])"
      using "3.prems" sign_eq_iff [of "lot_qty t" "lot_qty p"]
      by (auto simp: one_sided_def zero_less_mult_iff)
    with True "3.prems" "3.IH"(1) show ?thesis by simp
  next
    case False
    obtain p' t' g where n: "net_trade p t = (p', t', g)" by (cases "net_trade p t") auto
    note st = net_step [OF "3.prems"(1-3) False n]
    show ?thesis
      using "3.IH"(2) [OF False n [symmetric] refl st(1-3)] "3.prems"(4) st(4) False n by simp
  qed
qed auto

text \<open>
  Exact realised amounts. Prices are whole multiples of one binary tick \<open>2\<^sup>k\<close>. The amount
  at risk, total open quantity times twice the largest price, bounds every product and
  partial sum, so nothing rounds while it fits the 53-bit significand.
\<close>

definition on_tick :: "int \<Rightarrow> int \<Rightarrow> lot \<Rightarrow> bool" where
  "on_tick k m l = (\<exists>n. \<bar>n\<bar> \<le> m \<and> lot_price l = Fin (of_int n * pow2 k))"

definition ticks :: "int \<Rightarrow> lot \<Rightarrow> int" where
  "ticks k l = (case lot_price l of Fin x \<Rightarrow> \<lfloor>x / pow2 k\<rfloor> | _ \<Rightarrow> 0)"

definition gross_qty :: "lot list \<Rightarrow> int" where
  "gross_qty ls = sum_list (map (\<lambda>l. \<bar>lot_qty l\<bar>) ls)"

definition cash :: "int \<Rightarrow> lot list \<Rightarrow> int" where
  "cash k ls = sum_list (map (\<lambda>l. lot_qty l * ticks k l) ls)"

lemma ticks_price: "on_tick k m l \<Longrightarrow> lot_price l = Fin (of_int (ticks k l) * pow2 k) \<and> \<bar>ticks k l\<bar> \<le> m"
  by (auto simp: on_tick_def ticks_def)

lemma ticks_update [simp]: "ticks k (l\<lparr>lot_qty := q\<rparr>) = ticks k l" "on_tick k m (l\<lparr>lot_qty := q\<rparr>) = on_tick k m l"
  by (simp_all add: ticks_def on_tick_def)

lemma gross_cash_simps [simp]:
  "gross_qty [] = 0" "gross_qty (l # ls) = \<bar>lot_qty l\<bar> + gross_qty ls" "gross_qty (ls @ ms) = gross_qty ls + gross_qty ms"
  "cash k [] = 0" "cash k (l # ls) = lot_qty l * ticks k l + cash k ls" "cash k (ls @ ms) = cash k ls + cash k ms"
  by (simp_all add: gross_qty_def cash_def)

lemma gross_qty_nonneg: "0 \<le> gross_qty ls"
  by (induction ls) auto

lemma tick_product_exact:
  assumes "on_tick k m p" "on_tick k m t" "- 1074 \<le> k" "k \<le> 918" "\<bar>q\<bar> * (2 * m) \<le> 2 ^ 53" "q \<noteq> 0" "1 \<le> m"
  shows "f_mul (f_of_int q) (f_sub (lot_price t) (lot_price p)) = Fin (of_int (q * (ticks k t - ticks k p)) * pow2 k)"
    and "\<bar>q * (ticks k t - ticks k p)\<bar> \<le> \<bar>q\<bar> * (2 * m)"
proof -
  note tp = ticks_price [OF assms(1)] ticks_price [OF assms(2)]
  let ?d = "ticks k t - ticks k p"
  have d: "\<bar>?d\<bar> \<le> 2 * m" using tp by linarith
  then show b: "\<bar>q * ?d\<bar> \<le> \<bar>q\<bar> * (2 * m)" by (simp add: abs_mult mult_left_mono)
  have "1 * (2 * m) \<le> \<bar>q\<bar> * (2 * m)" using assms(6,7) by (intro mult_right_mono) auto
  then have m53: "2 * m \<le> 2 ^ 53" using assms(5) by linarith
  have "\<bar>q\<bar> * 1 \<le> \<bar>q\<bar> * (2 * m)" using assms(7) by (intro mult_left_mono) auto
  then have "\<bar>q\<bar> \<le> 2 ^ 53" using assms(5) by linarith
  then have "f_of_int q = Fin (of_int q)" by (rule f_of_int_small)
  moreover have "f_sub (lot_price t) (lot_price p) = Fin (of_int ?d * pow2 k)"
    using rnd64_exact [of ?d k] d m53 assms(3,4) tp by (simp add: left_diff_distrib)
  ultimately show "f_mul (f_of_int q) (f_sub (lot_price t) (lot_price p)) = Fin (of_int (q * ?d) * pow2 k)"
    using rnd64_exact [OF order_trans [OF b assms(5)] assms(3,4)] by (simp add: mult.assoc)
qed

text \<open>
  One step of the exact run: the risk bound is kept and the realised amount grows by the
  change of the cash value of what is held and pending.
\<close>

lemma net_step_exact:
  assumes ok: "lots_ok (t # ts)" "lots_ok (p # ps)" and opp: "sign (lot_qty t) \<noteq> sign (lot_qty p)"
    and tick: "on_tick k m t" "on_tick k m p" and k: "- 1074 \<le> k" "k \<le> 918" "1 \<le> m"
    and risk: "(gross_qty (t # ts) + gross_qty (p # ps)) * (2 * m) + \<bar>R\<bar> \<le> 2 ^ 53"
    and n: "net_trade p t = (p', t', g)"
  defines "ts' \<equiv> (if lot_qty t' = 0 then ts else t' # ts)" and "ps' \<equiv> (if lot_qty p' = 0 then ps else p' # ps)"
  shows "\<exists>G. g = Fin (of_int G * pow2 k) \<and> f_add (Fin (of_int R * pow2 k)) g = Fin (of_int (R + G) * pow2 k)
     \<and> (gross_qty ts' + gross_qty ps') * (2 * m) + \<bar>R + G\<bar> \<le> 2 ^ 53
     \<and> G = cash k ts' + cash k ps' - cash k (t # ts) - cash k (p # ps)
     \<and> on_tick k m p' \<and> on_tick k m t'"
proof -
  let ?p = "lot_qty p" and ?t = "lot_qty t"
  let ?q = "if \<bar>?p\<bar> \<le> \<bar>?t\<bar> then ?p else - ?t"
  let ?G = "?q * (ticks k t - ticks k p)"
  have mul: "?p * ?t < 0"
    using ok opp sign_eq_iff [of ?t ?p] by (auto simp: mult.commute mult_less_0_iff zero_less_mult_iff)
  note e = net_trade_exact [OF _ _ mul]
  have pt: "p' = p\<lparr>lot_qty := if \<bar>?p\<bar> \<le> \<bar>?t\<bar> then 0 else ?p + ?t\<rparr>"
    "t' = t\<lparr>lot_qty := if \<bar>?p\<bar> \<le> \<bar>?t\<bar> then ?t + ?p else 0\<rparr>"
    "g = f_mul (f_of_int ?q) (f_sub (lot_price t) (lot_price p))"
    using e ok n by (auto split: if_splits)
  have q0: "?q \<noteq> 0" using ok by auto
  have gross: "gross_qty ts' + gross_qty ps' = gross_qty (t # ts) + gross_qty (p # ps) - 2 * \<bar>?q\<bar>"
    using mul by (auto simp: ts'_def ps'_def pt mult_less_0_iff)
  have gn: "0 \<le> gross_qty ts' + gross_qty ps'" using gross_qty_nonneg [of ts'] gross_qty_nonneg [of ps'] by linarith
  define A where "A = gross_qty ts' + gross_qty ps'"
  have g2: "gross_qty (t # ts) + gross_qty (p # ps) = A + 2 * \<bar>?q\<bar>" using gross unfolding A_def by linarith
  have riskA: "A * (2 * m) + 2 * (\<bar>?q\<bar> * (2 * m)) + \<bar>R\<bar> \<le> 2 ^ 53"
    using risk unfolding g2 by (simp only: distrib_right mult.assoc)
  have An: "0 \<le> A * (2 * m)" using gn k unfolding A_def by simp
  have Bn: "0 \<le> \<bar>?q\<bar> * (2 * m)" using k by simp
  have qm: "\<bar>?q\<bar> * (2 * m) \<le> 2 ^ 53" using riskA An Bn by linarith
  note P = tick_product_exact [OF tick(2,1) k(1,2) qm q0 k(3)]
  have RG: "\<bar>R + ?G\<bar> \<le> \<bar>R\<bar> + \<bar>?q\<bar> * (2 * m)" using P(2) by linarith
  then have bound: "A * (2 * m) + \<bar>R + ?G\<bar> \<le> 2 ^ 53" using riskA Bn by linarith
  then have bound': "\<bar>R + ?G\<bar> \<le> 2 ^ 53" using An by linarith
  have add: "f_add (Fin (of_int R * pow2 k)) g = Fin (of_int (R + ?G) * pow2 k)"
    using rnd64_exact [OF bound' k(1,2)] unfolding pt(3) P(1) f_add.simps by (simp only: of_int_add distrib_right)
  have split: "cash k ts' = lot_qty t' * ticks k t + cash k ts" "cash k ps' = lot_qty p' * ticks k p + cash k ps"
    by (simp_all add: ts'_def ps'_def pt)
  have "?G = cash k ts' + cash k ps' - cash k (t # ts) - cash k (p # ps)"
    unfolding split by (simp add: pt algebra_simps)
  then show ?thesis using P(1) pt add bound tick unfolding A_def by auto
qed

lemma fifo_exact:
  assumes "lots_ok ts" "lots_ok ps" "one_sided lot_qty ps"
    and "\<forall>l\<in>set ts \<union> set ps. on_tick k m l" and "- 1074 \<le> k" "k \<le> 918" "1 \<le> m"
    and "(gross_qty ts + gross_qty ps) * (2 * m) + \<bar>R\<bar> \<le> 2 ^ 53"
    and "fifo ts ps (Fin (of_int R * pow2 k)) = (ps', r')"
  shows "r' = Fin (of_int (R + (cash k ps' - cash k ps - cash k ts)) * pow2 k)"
  using assms
proof (induction ts ps "Fin (of_int R * pow2 k)" arbitrary: R rule: fifo.induct)
  case (2 t ts)
  then have "one_sided lot_qty [t]" by (auto simp: one_sided_def)
  with 2 show ?case by (simp add: algebra_simps)
next
  case (3 t ts p ps)
  show ?case
  proof (cases "sign (lot_qty t) = sign (lot_qty p)")
    case True
    then have "one_sided lot_qty (p # ps @ [t])"
      using "3.prems"(1-3) sign_eq_iff [of "lot_qty t" "lot_qty p"]
      by (auto simp: one_sided_def zero_less_mult_iff)
    with True "3.prems" "3.hyps"(1) [of R] show ?thesis by (simp add: algebra_simps)
  next
    case False
    obtain p' t' g where n: "net_trade p t = (p', t', g)" by (cases "net_trade p t") auto
    have tk: "on_tick k m t" "on_tick k m p" using "3.prems"(4) by auto
    let ?ts = "if lot_qty t' = 0 then ts else t' # ts" and ?ps = "if lot_qty p' = 0 then ps else p' # ps"
    note st = net_step [OF "3.prems"(1-3) False n]
    from net_step_exact [OF "3.prems"(1,2) False tk "3.prems"(5-8) n] obtain G where
      G: "f_add (Fin (of_int R * pow2 k)) g = Fin (of_int (R + G) * pow2 k)"
        "(gross_qty ?ts + gross_qty ?ps) * (2 * m) + \<bar>R + G\<bar> \<le> 2 ^ 53"
        "G = cash k ?ts + cash k ?ps - cash k (t # ts) - cash k (p # ps)" "on_tick k m p'" "on_tick k m t'"
      by blast
    have tick': "\<forall>l\<in>set ?ts \<union> set ?ps. on_tick k m l" using "3.prems"(4) G(4,5) by auto
    have run: "fifo ?ts ?ps (Fin (of_int (R + G) * pow2 k)) = (ps', r')"
      using "3.prems"(9) False n G(1) by simp
    from "3.hyps"(2) [OF False n [symmetric] refl G(1) st(1-3) tick' "3.prems"(5-7) G(2) run]
    show ?thesis using G(3) by (simp add: algebra_simps)
  qed
qed simp

section \<open>Properties\<close>

lemma net_qty_lots_of: "length qs = length ps \<Longrightarrow> net_qty (lots_of qs ps) = sum_list qs"
  by (induction qs ps rule: list_induct2) auto

lemma lots_ok_lots_of: "\<forall>q\<in>set qs. \<bar>q\<bar> < 2 ^ 63 \<Longrightarrow> lots_ok (lots_of qs ps)"
  by (induction qs ps rule: list_induct2') auto

lemma one_sided_lots_of:
  "(\<forall>q\<in>set qs. 0 \<le> q) \<or> (\<forall>q\<in>set qs. q \<le> 0) \<Longrightarrow> one_sided lot_qty (lots_of qs ps)"
proof -
  have "l \<in> set (lots_of qs ps) \<Longrightarrow> lot_qty l \<in> set qs \<and> lot_qty l \<noteq> 0" for l
    by (auto simp: lots_of_def dest: set_zip_leftD)
  then show "(\<forall>q\<in>set qs. 0 \<le> q) \<or> (\<forall>q\<in>set qs. q \<le> 0) \<Longrightarrow> ?thesis"
    by (fastforce simp: one_sided_def)
qed

text \<open>
  Claim C1. The P&L kernel never reads or writes outside its lot buffers and always returns, for
  arrays of matching lengths with fewer than \<open>2\<^sup>3\<^sup>1\<close> lots and trades in all and an allocator that grants
  the two requests, of 16 bytes for each new trade and for each lot or trade: its result is the one
  of the list function \<open>fifo\<close> on the nonzero lots, whose realised amount it scales by the multiplier.
  Whatever the lengths and the allocator, a call that does return has this result.
\<close>

theorem calc_trade_pnl_memory_safe:
  assumes "length open_qtys = length open_prices" "length new_qtys = length new_prices"
  shows "\<exists>ls r. fifo (lots_of new_qtys new_prices) (lots_of open_qtys open_prices) (Fin 0) = (ls, r) \<and>
    (length open_qtys + length new_qtys < 2 ^ 31 \<and> grants (16 * length new_qtys) \<and>
       grants (16 * (length open_qtys + length new_qtys)) \<longrightarrow>
     calc_trade_pnl_on grants open_qtys open_prices new_qtys new_prices multiplier
       = Inr (map lot_qty ls, map lot_price ls, f_mul r multiplier)) \<and>
    (\<forall>result. calc_trade_pnl_on grants open_qtys open_prices new_qtys new_prices multiplier = Inr result \<longrightarrow>
       result = (map lot_qty ls, map lot_price ls, f_mul r multiplier))"
proof -
  obtain ls r where f: "fifo (lots_of new_qtys new_prices) (lots_of open_qtys open_prices) (Fin 0) = (ls, r)"
    by (cases "fifo (lots_of new_qtys new_prices) (lots_of open_qtys open_prices) (Fin 0)")
  moreover have "result = (map lot_qty ls, map lot_price ls, f_mul r multiplier)"
    if "calc_trade_pnl_on grants open_qtys open_prices new_qtys new_prices multiplier = Inr result" for result
    using that f by (cases result) (auto elim!: calc_trade_pnl_returned)
  moreover have "calc_trade_pnl_on grants open_qtys open_prices new_qtys new_prices multiplier
      = Inr (map lot_qty ls, map lot_price ls, f_mul r multiplier)"
    if "length open_qtys + length new_qtys < 2 ^ 31 \<and> grants (16 * length new_qtys) \<and>
       grants (16 * (length open_qtys + length new_qtys))"
    using calc_trade_pnl_total [OF assms, of grants multiplier] that f by simp
  ultimately show ?thesis by blast
qed

theorem calc_trade_pnl_memory_safe_witness:
  "\<exists>ls r. fifo (lots_of [- 20, - 5] [Fin 8, Fin 7]) (lots_of [15, 8] [Fin 6, Fin 5]) (Fin 0) = (ls, r) \<and>
     calc_trade_pnl_on malloc_grants [15, 8] [Fin 6, Fin 5] [- 20, - 5] [Fin 8, Fin 7] (Fin 100)
       = Inr (map lot_qty ls, map lot_price ls, f_mul r (Fin 100))"
  using calc_trade_pnl_memory_safe [of "[15, 8]" "[Fin 6, Fin 5]" "[- 20, - 5]" "[Fin 8, Fin 7]" malloc_grants "Fin 100"]
  by (auto simp: malloc_grants_def)

text \<open>
  The bound is needed: with \<open>2\<^sup>3\<^sup>1\<close> new trades the extra capacity of the positions' buffer wraps to a
  negative number, the size of the request to one no allocator grants, and opening the first position
  writes through the null pointer.
\<close>

lemma net_loop_no_room:
  assumes "tv_wf trades" "tv_size trades \<noteq> 0" "tv_size positions = 0" "length (tv_buf positions) = 0"
  shows "net_loop trades positions r = None"
proof -
  obtain n where "tv_size trades = Suc n" using assms(2) by (cases "tv_size trades") auto
  then obtain t where "tv_at trades 0 = Some t" using tv_front [OF assms(1)] by metis
  then show ?thesis using assms(2-4) by (simp add: net_loop.simps [of trades] push_back_def Let_def)
qed

lemma calc_trade_pnl_overflows:
  assumes "length new_qtys = 2 ^ 31" "length new_prices = 2 ^ 31" "\<forall>q\<in>set new_qtys. q \<noteq> 0"
  shows "calc_trade_pnl [] [] new_qtys new_prices m = Inl (RuntimeError ''access outside a lot buffer'')"
proof -
  have n: "c_int (int (length new_qtys)) = - (2 ^ 31)" by (simp add: assms(1) c_int_def)
  have p: "create malloc_grants [] [] (- (2 ^ 31)) = Some \<lparr>tv_start = 0, tv_size = 0, tv_buf = []\<rparr>"
    by (simp add: create_def malloc_lots_def malloc_grants_def)
  have "net_loop trades \<lparr>tv_start = 0, tv_size = 0, tv_buf = []\<rparr> (Fin 0) = None"
    if t: "create malloc_grants new_qtys new_prices 0 = Some trades" for trades
  proof (rule net_loop_no_room)
    obtain q qs' p' ps' where "new_qtys = q # qs'" "new_prices = p' # ps'"
      using assms(1,2) by (cases new_qtys; cases new_prices) auto
    then show "tv_size trades \<noteq> 0" using t assms(3) by (auto simp: create_def Let_def split: if_splits)
  qed (use t create_some(2) in auto)
  then show ?thesis using assms(1,2) unfolding calc_trade_pnl_def calc_trade_pnl_on_def n p
    by (cases "create malloc_grants new_qtys new_prices 0") auto
qed

text \<open>The book the kernel returns, as the ledger above it uses it.\<close>

lemma calc_trade_pnl_book:
  assumes "length open_qtys = length open_prices" "length new_qtys = length new_prices"
    and "\<forall>q\<in>set open_qtys \<union> set new_qtys. \<bar>q\<bar> < 2 ^ 63"
    and "(\<forall>q\<in>set open_qtys. 0 \<le> q) \<or> (\<forall>q\<in>set open_qtys. q \<le> 0)"
    and "calc_trade_pnl open_qtys open_prices new_qtys new_prices multiplier = Inr (qtys, prices, realized)"
  shows "sum_list qtys = sum_list open_qtys + sum_list new_qtys \<and> length prices = length qtys \<and>
    0 \<notin> set qtys \<and> ((\<forall>q\<in>set qtys. 0 < q) \<or> (\<forall>q\<in>set qtys. q < 0))"
proof -
  obtain ls r where f: "fifo (lots_of new_qtys new_prices) (lots_of open_qtys open_prices) (Fin 0) = (ls, r)"
    and q: "qtys = map lot_qty ls" "prices = map lot_price ls"
    using assms(5) unfolding calc_trade_pnl_def by (rule calc_trade_pnl_returned)
  have "lots_ok ls \<and> one_sided lot_qty ls \<and>
      net_qty ls = net_qty (lots_of new_qtys new_prices) + net_qty (lots_of open_qtys open_prices)"
    by (rule fifo_invariant [OF _ _ _ f]) (use assms in \<open>auto intro!: lots_ok_lots_of one_sided_lots_of\<close>)
  then have "lots_ok ls" "one_sided lot_qty ls" "sum_list qtys = sum_list open_qtys + sum_list new_qtys"
    using assms(1,2) q net_qty_def [of ls] by (simp_all add: net_qty_lots_of)
  then show ?thesis using q by (auto simp: lots_ok_def one_sided_def)
qed

text \<open>
  Claim C2. Netting conserves the position and leaves a one-sided book: when the open lots
  are all long or all short and every quantity fits 64 bits, the quantities returned add up
  to the old position plus the traded quantities, none of them is zero, and they all have
  one sign.
\<close>

theorem calc_trade_pnl_conserves_position:
  assumes "length open_qtys = length open_prices" "length new_qtys = length new_prices"
    and "\<forall>q\<in>set open_qtys \<union> set new_qtys. \<bar>q\<bar> < 2 ^ 63"
    and "(\<forall>q\<in>set open_qtys. 0 \<le> q) \<or> (\<forall>q\<in>set open_qtys. q \<le> 0)"
    and "calc_trade_pnl open_qtys open_prices new_qtys new_prices multiplier = Inr (qtys, prices, realized)"
  shows "sum_list qtys = sum_list open_qtys + sum_list new_qtys \<and> length prices = length qtys \<and>
    0 \<notin> set qtys \<and> ((\<forall>q\<in>set qtys. 0 < q) \<or> (\<forall>q\<in>set qtys. q < 0))"
  using assms by (rule calc_trade_pnl_book)

theorem calc_trade_pnl_conserves_position_witness:
  "sum_list [- 2] = sum_list [15, 8] + sum_list [- 20, - 5 :: int] \<and> length [Fin 7] = length [- 2 :: int] \<and>
    0 \<notin> set [- 2 :: int] \<and> ((\<forall>q\<in>set [- 2 :: int]. 0 < q) \<or> (\<forall>q\<in>set [- 2 :: int]. q < 0))"
proof (rule calc_trade_pnl_conserves_position)
  show "calc_trade_pnl [15, 8] [Fin 6, Fin 5] [- 20, - 5] [Fin 8, Fin 7] (Fin 100) = Inr ([- 2], [Fin 7], Fin 5100)"
    by (simp add: calc_trade_pnl_fifo sign_def net_trade_def Let_def in_int64_def)
qed simp_all

text \<open>
  Claim C3. Realised P&L is exact on a binary tick: when every price is a whole number of
  ticks of size \<open>2\<^sup>k\<close> of magnitude at most \<open>m\<close>, with \<open>k\<close> from -1074 to 918, the gross quantity times
  \<open>2 m\<close> fits 53 bits, the open lots are on one side, every quantity fits 64 bits and there are fewer
  than \<open>2\<^sup>3\<^sup>1\<close> lots and trades, the double the kernel computes before scaling is exactly the cash value of the residual
  lots less that of the old lots and of the trades, with no rounding anywhere.
\<close>

theorem calc_trade_pnl_realized_exact:
  assumes "length open_qtys = length open_prices" "length new_qtys = length new_prices"
    and "\<forall>q\<in>set open_qtys \<union> set new_qtys. \<bar>q\<bar> < 2 ^ 63"
    and "(\<forall>q\<in>set open_qtys. 0 \<le> q) \<or> (\<forall>q\<in>set open_qtys. q \<le> 0)"
    and "\<forall>l\<in>set (lots_of new_qtys new_prices) \<union> set (lots_of open_qtys open_prices). on_tick k m l"
    and "- 1074 \<le> k" "k \<le> 918" "1 \<le> m"
    and "(gross_qty (lots_of new_qtys new_prices) + gross_qty (lots_of open_qtys open_prices)) * (2 * m) \<le> 2 ^ 53"
    and "length open_qtys + length new_qtys < 2 ^ 31"
  shows "\<exists>ls. calc_trade_pnl open_qtys open_prices new_qtys new_prices multiplier =
     Inr (map lot_qty ls, map lot_price ls,
       f_mul (Fin (of_int (cash k ls - cash k (lots_of open_qtys open_prices)
                           - cash k (lots_of new_qtys new_prices)) * pow2 k)) multiplier)"
proof -
  obtain ls r where f: "fifo (lots_of new_qtys new_prices) (lots_of open_qtys open_prices) (Fin 0) = (ls, r)"
    by (cases "fifo (lots_of new_qtys new_prices) (lots_of open_qtys open_prices) (Fin 0)")
  have "r = Fin (of_int (0 + (cash k ls - cash k (lots_of open_qtys open_prices)
        - cash k (lots_of new_qtys new_prices))) * pow2 k)"
    by (rule fifo_exact) (use assms f in \<open>auto intro!: lots_ok_lots_of one_sided_lots_of\<close>)
  then show ?thesis using calc_trade_pnl_fifo [OF assms(1,2,10)] f by auto
qed

lemma on_tick_0 [simp]: "on_tick 0 m \<lparr>lot_qty = q, lot_price = Fin x\<rparr> \<longleftrightarrow> (\<exists>n. \<bar>n\<bar> \<le> m \<and> x = of_int n)"
  by (simp add: on_tick_def)

theorem calc_trade_pnl_realized_exact_witness:
  "\<exists>ls. calc_trade_pnl [15, 8] [Fin 6, Fin 5] [- 20, - 5] [Fin 8, Fin 7] (Fin 100) =
     Inr (map lot_qty ls, map lot_price ls,
       f_mul (Fin (of_int (cash 0 ls - cash 0 (lots_of [15, 8] [Fin 6, Fin 5])
                           - cash 0 (lots_of [- 20, - 5] [Fin 8, Fin 7])) * pow2 0)) (Fin 100))"
proof (rule calc_trade_pnl_realized_exact)
  show "\<forall>l\<in>set (lots_of [- 20, - 5] [Fin 8, Fin 7]) \<union> set (lots_of [15, 8] [Fin 6, Fin 5]). on_tick 0 8 l"
    by (auto intro: exI [of _ 8] exI [of _ 7] exI [of _ 6] exI [of _ 5])
qed simp_all

end
