(* ===== verification/Contracts.thy ===== *)
theory Contracts
  imports Py_Values
begin

text \<open>
  Instruments, contract groups and contracts (\<open>instruments.py\<close> and the first part of
  \<open>pq_types.py\<close>) with the two class-level registries and the member table of every group.
  Contracts and group names are immutable, so they are values carrying an identity number;
  Python's \<open>is\<close> compares identities. The mutable parts, the registries and the member
  tables, are the state. The lemmas show that every operation keeps the registries and the
  member tables consistent and what a creation or a lookup returns.
\<close>

section \<open>Instrument metadata\<close>

datatype asset_class = UNKNOWN | EQUITY | FUTURE | OPTION | FX | CRYPTO | FIXED_INCOME | BASKET

datatype tradability = ACTIVE | IGNORED | UNTRADEABLE | DUPLICATE | BAD

record instrument_spec =
  is_asset_class :: asset_class
  is_currency :: string
  is_tick_size :: "float64 option"
  is_exchange_calendar :: "string option"
  is_trading_timezone :: "string option"
  is_liquidity_group :: "string option"
  is_tradability :: tradability
  is_duplicate_of :: "string option"

text \<open>\<open>str.upper\<close> and \<open>str.isalpha\<close> on the ASCII letters.\<close>

definition upper_char :: "char \<Rightarrow> char" where
  "upper_char c = (if 97 \<le> (of_char c :: nat) \<and> (of_char c :: nat) \<le> 122 then char_of ((of_char c :: nat) - 32) else c)"

definition alpha_char :: "char \<Rightarrow> bool" where
  "alpha_char c = (let n = (of_char c :: nat) in 65 \<le> n \<and> n \<le> 90 \<or> 97 \<le> n \<and> n \<le> 122)"

definition py_isalpha :: "string \<Rightarrow> bool" where
  "py_isalpha s = (s \<noteq> [] \<and> list_all alpha_char s)"

definition mk_instrument_spec :: "instrument_spec \<Rightarrow> instrument_spec res" where
  "mk_instrument_spec raw =
     (let currency = map upper_char (is_currency raw); spec = raw\<lparr>is_currency := currency\<rparr> in
      if length currency \<noteq> 3 \<or> \<not> py_isalpha currency
      then Inl (ValueError ''currency must be a three-letter alphabetic code'')
      else if (case is_tick_size raw of None \<Rightarrow> False | Some t \<Rightarrow> \<not> is_finite t \<or> f_le t (Fin 0))
      then Inl (ValueError ''tick_size must be finite and positive'')
      else if is_tradability raw = DUPLICATE \<and> (is_duplicate_of raw = None \<or> is_duplicate_of raw = Some [])
      then Inl (ValueError ''duplicate instruments must identify duplicate_of'')
      else if is_tradability raw \<noteq> DUPLICATE \<and> is_duplicate_of raw \<noteq> None
      then Inl (ValueError ''duplicate_of is only valid for duplicate instruments'')
      else Inr spec)"

definition default_spec :: instrument_spec where
  "default_spec = \<lparr>is_asset_class = UNKNOWN, is_currency = ''USD'', is_tick_size = None, is_exchange_calendar = None,
     is_trading_timezone = None, is_liquidity_group = None, is_tradability = ACTIVE, is_duplicate_of = None\<rparr>"

section \<open>Groups, contracts, registries\<close>

datatype contract_group = ContractGroup (cg_id: nat) (cg_name: string)

datatype contract = Contract
  (c_id: nat) (c_symbol: string) (c_group: contract_group) (c_expiry: "datetime64 option") (c_multiplier: float64)
  (c_components: "(contract \<times> float64) list") (c_properties: namespace) (c_spec: instrument_spec)

record registry =
  cg_registry :: "(string, contract_group) dict"
  c_registry :: "(string, contract) dict"
  cg_members :: "nat \<Rightarrow> (string, contract) dict"
  next_id :: nat

definition DEFAULT_CG :: contract_group where
  "DEFAULT_CG = ContractGroup 0 ''DEFAULT''"

definition initial_registry :: registry where
  "initial_registry = \<lparr>cg_registry = [(''DEFAULT'', DEFAULT_CG)], c_registry = [], cg_members = (\<lambda>_. []), next_id = 1\<rparr>"

definition is_basket :: "contract \<Rightarrow> bool" where
  "is_basket c = (0 < length (c_components c))"

definition nonempty_str :: "pyval \<Rightarrow> string option" where
  "nonempty_str v = (case v of VStr s \<Rightarrow> if s = [] then None else Some s | _ \<Rightarrow> None)"

subsection \<open>Contract groups\<close>

definition cg_get :: "pyval \<Rightarrow> registry \<Rightarrow> (contract_group \<times> registry) res" where
  "cg_get name reg = (case nonempty_str name of
      None \<Rightarrow> Inl (ValueError ''contract group name must be a non-empty string'')
    | Some s \<Rightarrow> (case dict_get (cg_registry reg) s of
        Some cg \<Rightarrow> Inr (cg, reg)
      | None \<Rightarrow> let cg = ContractGroup (next_id reg) s in
          Inr (cg, reg\<lparr>cg_registry := dict_set s cg (cg_registry reg), next_id := next_id reg + 1\<rparr>)))"

definition cg_exists :: "string \<Rightarrow> registry \<Rightarrow> bool" where
  "cg_exists name reg = (dict_get (cg_registry reg) name \<noteq> None)"

definition add_contract :: "contract_group \<Rightarrow> contract attr \<Rightarrow> registry \<Rightarrow> registry res" where
  "add_contract self a reg = (case a of
      Foreign _ \<Rightarrow> Inl (TypeError ''contract group members must be Contract objects'')
    | Attr contract \<Rightarrow>
        if cg_id (c_group contract) \<noteq> cg_id self then Inl (ValueError ''contract belongs to another group'')
        else if (case dict_get (cg_members reg (cg_id self)) (c_symbol contract) of
                   None \<Rightarrow> False | Some existing \<Rightarrow> c_id existing \<noteq> c_id contract)
        then Inl (ValueError ''contract group already contains a different contract with symbol'')
        else Inr (reg\<lparr>cg_members := (cg_members reg)(cg_id self :=
                      dict_set (c_symbol contract) contract (cg_members reg (cg_id self)))\<rparr>))"

definition get_contract :: "contract_group \<Rightarrow> string \<Rightarrow> registry \<Rightarrow> contract option" where
  "get_contract self symbol reg = dict_get (cg_members reg (cg_id self)) symbol"

definition get_contracts :: "contract_group \<Rightarrow> registry \<Rightarrow> contract list" where
  "get_contracts self reg = dict_values (cg_members reg (cg_id self))"

definition cg_clear :: "contract_group \<Rightarrow> registry \<Rightarrow> registry" where
  "cg_clear self reg = reg\<lparr>cg_members := (cg_members reg)(cg_id self := [])\<rparr>"

definition cg_clear_cache :: "registry \<Rightarrow> registry" where
  "cg_clear_cache reg =
     (let reg = fold cg_clear (dict_values (cg_registry reg)) reg; reg = cg_clear DEFAULT_CG reg in
      reg\<lparr>cg_registry := [(cg_name DEFAULT_CG, DEFAULT_CG)]\<rparr>)"

subsection \<open>Contracts\<close>

datatype component_arg = BadComponent | Component "contract attr" pyval

definition validated_contract_component :: "component_arg \<Rightarrow> (contract \<times> float64) res" where
  "validated_contract_component a = (case a of
      BadComponent \<Rightarrow> Inl (TypeError ''contract components must be (Contract, ratio) tuples'')
    | Component (Foreign _) _ \<Rightarrow> Inl (TypeError ''contract component instruments must be Contract objects'')
    | Component (Attr c) ratio \<Rightarrow> rbind (finite_real ''contract component ratio'' ratio) (\<lambda>r.
        if isclose0 r then Inl (ValueError ''contract component ratios must be nonzero'') else Inr (c, r)))"

definition validated_contract_components :: "component_arg list \<Rightarrow> (contract \<times> float64) list res" where
  "validated_contract_components = res_map validated_contract_component"

text \<open>The arguments of \<open>create\<close> and \<open>get_or_create\<close>; \<open>None\<close> is an argument left out.\<close>

record contract_args =
  ca_symbol :: pyval
  ca_group :: "contract_group attr option"
  ca_expiry :: "pyval option"
  ca_multiplier :: "pyval option"
  ca_components :: "component_arg list option"
  ca_properties :: "namespace attr option"
  ca_spec :: "instrument_spec attr option"

definition validated_expiry :: "pyval option \<Rightarrow> datetime64 option res" where
  "validated_expiry a = (case a of
      None \<Rightarrow> Inr None
    | Some (VDt t) \<Rightarrow> if isnat t then Inl (ValueError ''contract expiry cannot be NaT'') else Inr (Some t)
    | Some _ \<Rightarrow> Inl (TypeError ''contract expiry must be a numpy datetime64 value or None''))"

definition attr_or :: "'a \<Rightarrow> exn \<Rightarrow> 'a attr option \<Rightarrow> 'a res" where
  "attr_or d e a = (case a of None \<Rightarrow> Inr d | Some (Attr x) \<Rightarrow> Inr x | Some (Foreign _) \<Rightarrow> Inl e)"

definition contract_create :: "contract_args \<Rightarrow> registry \<Rightarrow> (contract \<times> registry) res" where
  "contract_create a reg = (case nonempty_str (ca_symbol a) of
      None \<Rightarrow> Inl (ValueError ''contract symbol must be a non-empty string'')
    | Some symbol \<Rightarrow>
        rbind (attr_or DEFAULT_CG (TypeError ''contract_group must be a ContractGroup'') (ca_group a)) (\<lambda>group.
        rbind (require (dict_get (c_registry reg) symbol = None) (ValueError ''Contract with symbol already exists'')) (\<lambda>_.
        rbind (finite_real ''contract multiplier'' (case ca_multiplier a of None \<Rightarrow> VNum (PyFloat (Fin 1)) | Some m \<Rightarrow> m)) (\<lambda>multiplier.
        rbind (require (\<not> f_le multiplier (Fin 0)) (ValueError ''contract multiplier must be positive'')) (\<lambda>_.
        rbind (validated_expiry (ca_expiry a)) (\<lambda>expiry.
        rbind (validated_contract_components (case ca_components a of None \<Rightarrow> [] | Some cs \<Rightarrow> cs)) (\<lambda>components.
        rbind (attr_or [] (TypeError ''contract properties must be a SimpleNamespace or None'') (ca_properties a)) (\<lambda>properties.
        rbind (attr_or default_spec (TypeError ''instrument_spec must be an InstrumentSpec or None'') (ca_spec a)) (\<lambda>spec.
        let contract = Contract (next_id reg) symbol group expiry multiplier components properties spec in
        rbind (add_contract group (Attr contract) (reg\<lparr>next_id := next_id reg + 1\<rparr>)) (\<lambda>reg'.
        Inr (contract, reg'\<lparr>c_registry := dict_set symbol contract (c_registry reg')\<rparr>)))))))))))"

definition contract_exists :: "string \<Rightarrow> registry \<Rightarrow> bool" where
  "contract_exists name reg = (dict_get (c_registry reg) name \<noteq> None)"

definition contract_get :: "string \<Rightarrow> registry \<Rightarrow> contract option" where
  "contract_get name reg = dict_get (c_registry reg) name"

text \<open>Python \<open>==\<close> on plain values, and on two \<open>SimpleNamespace\<close> objects (their dictionaries).\<close>

definition py_eq :: "pyval \<Rightarrow> pyval \<Rightarrow> bool" where
  "py_eq a b = (case (as_number a, as_number b) of
      (Some x, Some y) \<Rightarrow> num_eq x y
    | (None, None) \<Rightarrow> (case (a, b) of (VDt s, VDt t) \<Rightarrow> dt_eq s t | _ \<Rightarrow> a = b)
    | _ \<Rightarrow> False)"

definition ns_eq :: "namespace \<Rightarrow> namespace \<Rightarrow> bool" where
  "ns_eq a b = (set (dict_keys a) = set (dict_keys b) \<and>
     (\<forall>k\<in>set (dict_keys a). case (dict_get a k, dict_get b k) of (Some x, Some y) \<Rightarrow> py_eq x y | _ \<Rightarrow> False))"

text \<open>
  The conflict tests of \<open>get_or_create\<close>, in the source's order: each may raise on an argument
  of the wrong class and otherwise says whether the existing contract disagrees.
\<close>

definition group_conflict :: "contract \<Rightarrow> contract_args \<Rightarrow> bool res" where
  "group_conflict existing a = (case ca_group a of
      None \<Rightarrow> Inr False
    | Some (Foreign _) \<Rightarrow> Inl (TypeError ''contract_group must be a ContractGroup'')
    | Some (Attr g) \<Rightarrow> Inr (cg_id (c_group existing) \<noteq> cg_id g))"

definition expiry_conflict :: "contract \<Rightarrow> contract_args \<Rightarrow> bool res" where
  "expiry_conflict existing a = rbind (validated_expiry (ca_expiry a)) (\<lambda>e. case e of
      None \<Rightarrow> Inr False
    | Some t \<Rightarrow> Inr (case c_expiry existing of None \<Rightarrow> True | Some s \<Rightarrow> \<not> dt_eq s t))"

definition multiplier_conflict :: "contract \<Rightarrow> contract_args \<Rightarrow> bool res" where
  "multiplier_conflict existing a = (case ca_multiplier a of
      None \<Rightarrow> Inr False
    | Some m \<Rightarrow> rbind (finite_real ''contract multiplier'' m) (\<lambda>x. Inr (\<not> f_eq (c_multiplier existing) x)))"

definition components_conflict :: "contract \<Rightarrow> contract_args \<Rightarrow> bool res" where
  "components_conflict existing a = (case ca_components a of
      None \<Rightarrow> Inr False
    | Some cs \<Rightarrow> rbind (validated_contract_components cs) (\<lambda>requested.
        Inr (\<not> list_all2 (\<lambda>(c, r) (c', r'). c_id c = c_id c' \<and> f_eq r r') (c_components existing) requested)))"

definition properties_conflict :: "contract \<Rightarrow> contract_args \<Rightarrow> bool res" where
  "properties_conflict existing a = (case ca_properties a of
      None \<Rightarrow> Inr False
    | Some (Foreign _) \<Rightarrow> Inl (TypeError ''contract properties must be a SimpleNamespace or None'')
    | Some (Attr p) \<Rightarrow> Inr (\<not> ns_eq (c_properties existing) p))"

definition spec_conflict :: "contract \<Rightarrow> contract_args \<Rightarrow> bool res" where
  "spec_conflict existing a = (case ca_spec a of
      None \<Rightarrow> Inr False
    | Some (Foreign _) \<Rightarrow> Inl (TypeError ''instrument_spec must be an InstrumentSpec or None'')
    | Some (Attr s) \<Rightarrow> Inr (c_spec existing \<noteq> s))"

definition contract_conflicts :: "contract \<Rightarrow> contract_args \<Rightarrow> bool list res" where
  "contract_conflicts existing a = res_map (\<lambda>f. f existing a)
     [group_conflict, expiry_conflict, multiplier_conflict, components_conflict, properties_conflict, spec_conflict]"

definition contract_get_or_create :: "contract_args \<Rightarrow> registry \<Rightarrow> (contract \<times> registry) res" where
  "contract_get_or_create a reg =
     (case (case ca_symbol a of VStr s \<Rightarrow> dict_get (c_registry reg) s | _ \<Rightarrow> None) of
        Some existing \<Rightarrow> rbind (contract_conflicts existing a) (\<lambda>conflicts.
          if True \<in> set conflicts then Inl (ValueError ''existing contract conflicts with requested'')
          else Inr (existing, reg))
      | None \<Rightarrow> contract_create a reg)"

definition contract_clear_cache :: "registry \<Rightarrow> registry" where
  "contract_clear_cache reg = (fold cg_clear (dict_values (cg_registry reg)) reg)\<lparr>c_registry := []\<rparr>"

section \<open>The registry invariant\<close>

text \<open>
  Every table is keyed by what it stores: groups by name, contracts by symbol, members by
  symbol within their own group; identities are issued below the counter and no two
  registered contracts share one; the default group stays registered.
\<close>

definition members_wf :: "registry \<Rightarrow> bool" where
  "members_wf reg = (\<forall>g. distinct (dict_keys (cg_members reg g)) \<and>
     (\<forall>(s, c)\<in>set (cg_members reg g). c_symbol c = s \<and> cg_id (c_group c) = g \<and> c_id c < next_id reg))"

definition contract_entry_ok :: "nat \<Rightarrow> string \<times> contract \<Rightarrow> bool" where
  "contract_entry_ok n e = (case e of (s, c) \<Rightarrow> c_symbol c = s \<and> s \<noteq> [] \<and> c_id c < n
     \<and> is_finite (c_multiplier c) \<and> f_lt (Fin 0) (c_multiplier c))"

definition contracts_wf :: "registry \<Rightarrow> bool" where
  "contracts_wf reg = (distinct (dict_keys (c_registry reg)) \<and> distinct (map c_id (dict_values (c_registry reg))) \<and>
     (\<forall>e\<in>set (c_registry reg). contract_entry_ok (next_id reg) e))"

definition groups_wf :: "registry \<Rightarrow> bool" where
  "groups_wf reg = (distinct (dict_keys (cg_registry reg)) \<and>
     (\<forall>(s, g)\<in>set (cg_registry reg). cg_name g = s \<and> s \<noteq> [] \<and> cg_id g < next_id reg) \<and>
     dict_get (cg_registry reg) ''DEFAULT'' = Some DEFAULT_CG \<and> 0 < next_id reg)"

definition registry_wf :: "registry \<Rightarrow> bool" where
  "registry_wf reg = (members_wf reg \<and> contracts_wf reg \<and> groups_wf reg)"

lemma set_dict_set: "set (dict_set k v d) \<subseteq> insert (k, v) (set d)"
  by (induction d) auto

lemma members_wf_mono: "members_wf reg \<Longrightarrow> next_id reg \<le> n \<Longrightarrow> members_wf (reg\<lparr>next_id := n\<rparr>)"
  by (fastforce simp: members_wf_def)

lemma registry_wf_next_id:
  assumes "registry_wf reg"
  shows "registry_wf (reg\<lparr>next_id := next_id reg + 1\<rparr>)"
proof -
  have "contracts_wf (reg\<lparr>next_id := next_id reg + 1\<rparr>)"
    using assms by (auto simp: registry_wf_def contracts_wf_def contract_entry_ok_def less_Suc_eq)
  moreover have "groups_wf (reg\<lparr>next_id := next_id reg + 1\<rparr>)"
    using assms by (auto simp: registry_wf_def groups_wf_def less_Suc_eq)
  ultimately show ?thesis using assms by (simp add: registry_wf_def members_wf_mono)
qed

lemma registry_wf_initial: "registry_wf initial_registry"
  by (simp add: registry_wf_def members_wf_def contracts_wf_def groups_wf_def initial_registry_def DEFAULT_CG_def)

lemma fold_cg_clear_members:
  "cg_members (fold cg_clear gs reg) g = (if g \<in> cg_id ` set gs then [] else cg_members reg g)"
  by (induction gs arbitrary: reg) (auto simp: cg_clear_def)

lemma fold_cg_clear_frame [simp]:
  "cg_registry (fold cg_clear gs reg) = cg_registry reg" "c_registry (fold cg_clear gs reg) = c_registry reg"
  "next_id (fold cg_clear gs reg) = next_id reg"
  by (induction gs arbitrary: reg) (simp_all add: cg_clear_def)

lemma fold_cg_clear_wf: "members_wf reg \<Longrightarrow> members_wf (fold cg_clear gs reg)"
  by (auto simp: members_wf_def fold_cg_clear_members)

lemma cg_get_wf:
  assumes "registry_wf reg" "cg_get name reg = Inr (cg, reg')"
  shows "registry_wf reg' \<and> dict_get (cg_registry reg') (cg_name cg) = Some cg \<and> name = VStr (cg_name cg)"
proof -
  obtain s where s: "name = VStr s" "s \<noteq> []"
    using assms(2) by (auto simp: cg_get_def nonempty_str_def split: option.splits pyval.splits if_splits)
  show ?thesis
  proof (cases "dict_get (cg_registry reg) s")
    case (Some g)
    then have "(s, g) \<in> set (cg_registry reg)" by (rule map_of_SomeD)
    with Some s assms show ?thesis
      by (auto simp: cg_get_def nonempty_str_def registry_wf_def groups_wf_def)
  next
    case None
    with s assms(2) have c: "cg = ContractGroup (next_id reg) s"
      "reg' = reg\<lparr>cg_registry := dict_set s cg (cg_registry reg), next_id := next_id reg + 1\<rparr>"
      by (auto simp: cg_get_def nonempty_str_def Let_def)
    have "contracts_wf reg'" "members_wf reg'"
      using registry_wf_next_id [OF assms(1)] by (simp_all add: c registry_wf_def contracts_wf_def members_wf_def)
    moreover have "groups_wf reg'"
      using assms(1) None s set_dict_set [of s cg "cg_registry reg"]
      by (fastforce simp: c registry_wf_def groups_wf_def)
    ultimately show ?thesis using c s by (simp add: registry_wf_def)
  qed
qed

lemma add_contract_Inr:
  assumes "add_contract g (Attr c) reg = Inr reg'"
  shows "cg_id (c_group c) = cg_id g"
    and "reg' = reg\<lparr>cg_members := (cg_members reg)(cg_id g := dict_set (c_symbol c) c (cg_members reg (cg_id g)))\<rparr>"
    and "\<And>e. dict_get (cg_members reg (cg_id g)) (c_symbol c) = Some e \<Longrightarrow> c_id e = c_id c"
  using assms by (auto simp: add_contract_def split: if_splits option.splits)

lemma add_contract_wf:
  assumes "registry_wf reg" "c_id c < next_id reg" "add_contract g (Attr c) reg = Inr reg'"
  shows "registry_wf reg'"
proof -
  note r = add_contract_Inr [OF assms(3)]
  have "members_wf reg'"
    using assms(1,2) r(1) set_dict_set [of "c_symbol c" c "cg_members reg (cg_id g)"]
    by (fastforce simp: r(2) registry_wf_def members_wf_def)
  then show ?thesis using assms(1) by (simp add: r(2) registry_wf_def contracts_wf_def groups_wf_def)
qed

lemma cg_clear_wf: "registry_wf reg \<Longrightarrow> registry_wf (cg_clear g reg)"
  by (auto simp: registry_wf_def members_wf_def contracts_wf_def groups_wf_def cg_clear_def)

lemma cg_clear_cache_wf: "registry_wf reg \<Longrightarrow> registry_wf (cg_clear_cache reg)"
  using fold_cg_clear_wf [of reg "dict_values (cg_registry reg)"]
  by (auto simp: registry_wf_def members_wf_def contracts_wf_def groups_wf_def cg_clear_cache_def Let_def
      cg_clear_def DEFAULT_CG_def)

lemma contract_clear_cache_wf: "registry_wf reg \<Longrightarrow> registry_wf (contract_clear_cache reg)"
  using fold_cg_clear_wf [of reg "dict_values (cg_registry reg)"]
  by (auto simp: registry_wf_def members_wf_def contracts_wf_def groups_wf_def contract_clear_cache_def)

subsection \<open>Creation\<close>

lemma finite_real_positive: "finite_real f v = Inr x \<Longrightarrow> \<not> f_le x (Fin 0) \<Longrightarrow> f_lt (Fin 0) x"
  by (auto dest!: finite_real_Inr simp: is_finite_iff)

lemma nonempty_str_Some [simp]: "nonempty_str v = Some s \<longleftrightarrow> v = VStr s \<and> s \<noteq> []"
  by (cases v) (auto simp: nonempty_str_def)

lemma contract_create_Inr:
  assumes "contract_create a reg = Inr (c, reg')"
  shows "ca_symbol a = VStr (c_symbol c)" "c_symbol c \<noteq> []" "dict_get (c_registry reg) (c_symbol c) = None"
    "c_id c = next_id reg" "is_finite (c_multiplier c)" "f_lt (Fin 0) (c_multiplier c)"
    "\<exists>reg1. add_contract (c_group c) (Attr c) (reg\<lparr>next_id := next_id reg + 1\<rparr>) = Inr reg1
       \<and> reg' = reg1\<lparr>c_registry := dict_set (c_symbol c) c (c_registry reg1)\<rparr>"
  using assms unfolding contract_create_def Let_def
  by (auto intro: finite_real_Inr finite_real_positive split: option.split_asm)

lemma contracts_wf_insert:
  assumes "contracts_wf reg" "dict_get (c_registry reg) (c_symbol c) = None" "c_id c = next_id reg"
    "contract_entry_ok (next_id reg + 1) (c_symbol c, c)"
  shows "contracts_wf (reg\<lparr>next_id := next_id reg + 1, c_registry := dict_set (c_symbol c) c (c_registry reg)\<rparr>)"
proof -
  have "dict_set (c_symbol c) c (c_registry reg) = c_registry reg @ [(c_symbol c, c)]"
    using assms(2) by (rule dict_values_set_new)
  moreover have "c_symbol c \<notin> set (dict_keys (c_registry reg))"
    using assms(2) by (simp add: map_of_eq_None_iff)
  moreover have "c_id c \<notin> set (map c_id (dict_values (c_registry reg)))"
    using assms(1,3) by (auto simp: contracts_wf_def contract_entry_ok_def)
  moreover have "contract_entry_ok (next_id reg + 1) e" if "e \<in> set (c_registry reg)" for e
    using assms(1) that by (auto simp: contracts_wf_def contract_entry_ok_def less_Suc_eq)
  ultimately show ?thesis using assms(1,4) by (simp add: contracts_wf_def)
qed

lemma contract_create_wf:
  assumes "registry_wf reg" "contract_create a reg = Inr (c, reg')"
  shows "registry_wf reg'"
proof -
  note r = contract_create_Inr [OF assms(2)]
  let ?reg = "reg\<lparr>next_id := next_id reg + 1\<rparr>"
  from r(7) obtain reg1 where a: "add_contract (c_group c) (Attr c) ?reg = Inr reg1"
    and reg': "reg' = reg1\<lparr>c_registry := dict_set (c_symbol c) c (c_registry reg1)\<rparr>" by blast
  have "registry_wf ?reg" using assms(1) by (rule registry_wf_next_id)
  then have 1: "registry_wf reg1" 
    by (rule add_contract_wf [OF _ _ a]) (simp add: r(4))
  note m = add_contract_Inr(2) [OF a]
  have "contract_entry_ok (next_id reg + 1) (c_symbol c, c)" using r by (simp add: contract_entry_ok_def)
  then have "contracts_wf reg'"
    using contracts_wf_insert [of reg c] assms(1) r(3,4) by (simp add: reg' m registry_wf_def contracts_wf_def)
  then show ?thesis using 1 by (simp add: reg' registry_wf_def members_wf_def groups_wf_def)
qed

lemma contract_create_lookup:
  assumes "contract_create a reg = Inr (c, reg')"
  shows "contract_get s reg' = (if s = c_symbol c then Some c else contract_get s reg)"
    and "get_contract (c_group c) (c_symbol c) reg' = Some c"
proof -
  from contract_create_Inr(7) [OF assms] obtain reg1
    where a: "add_contract (c_group c) (Attr c) (reg\<lparr>next_id := next_id reg + 1\<rparr>) = Inr reg1"
    and reg': "reg' = reg1\<lparr>c_registry := dict_set (c_symbol c) c (c_registry reg1)\<rparr>" by blast
  note m = add_contract_Inr(2) [OF a]
  show "contract_get s reg' = (if s = c_symbol c then Some c else contract_get s reg)"
    by (simp add: contract_get_def reg' m)
  show "get_contract (c_group c) (c_symbol c) reg' = Some c"
    by (simp add: get_contract_def reg' m)
qed

lemma validated_contract_components_finite:
  assumes "validated_contract_components cs = Inr ds"
  shows "\<forall>(c, r)\<in>set ds. is_finite r"
  using assms
  by (induction cs arbitrary: ds)
     (auto simp: validated_contract_components_def validated_contract_component_def
       dest: finite_real_Inr split: component_arg.splits attr.splits if_splits)

lemma list_all2_same_component:
  assumes "\<forall>(c, r)\<in>set ds. is_finite r"
  shows "list_all2 (\<lambda>(c, r) (c', r'). c_id c = c_id c' \<and> f_eq r r') ds ds"
  using assms by (induction ds) (auto simp: is_finite_iff)

lemma validated_expiry_eq: "validated_expiry e = Inr (Some t) \<Longrightarrow> dt_eq t t"
  by (auto simp: validated_expiry_def dt_eq_def isnat_def split: option.splits pyval.splits if_splits)

text \<open>A contract agrees with the arguments it was created from.\<close>

lemma contract_create_no_conflict:
  assumes "contract_create a reg = Inr (c, reg')"
    and "\<And>p. ca_properties a = Some (Attr p) \<Longrightarrow> ns_eq p p"
  shows "contract_conflicts c a = Inr (replicate 6 False)"
proof -
  from assms(1) have
    g: "attr_or DEFAULT_CG (TypeError ''contract_group must be a ContractGroup'') (ca_group a) = Inr (c_group c)" and
    m: "finite_real ''contract multiplier'' (case ca_multiplier a of None \<Rightarrow> VNum (PyFloat (Fin 1)) | Some m \<Rightarrow> m)
        = Inr (c_multiplier c)" and
    e: "validated_expiry (ca_expiry a) = Inr (c_expiry c)" and
    k: "validated_contract_components (case ca_components a of None \<Rightarrow> [] | Some cs \<Rightarrow> cs) = Inr (c_components c)" and
    p: "attr_or [] (TypeError ''contract properties must be a SimpleNamespace or None'') (ca_properties a) = Inr (c_properties c)" and
    s: "attr_or default_spec (TypeError ''instrument_spec must be an InstrumentSpec or None'') (ca_spec a) = Inr (c_spec c)"
    unfolding contract_create_def Let_def by (auto split: option.splits)
  have "group_conflict c a = Inr False" using g by (auto simp: group_conflict_def attr_or_def split: option.splits attr.splits)
  moreover have "expiry_conflict c a = Inr False"
    using e validated_expiry_eq [of "ca_expiry a"] by (auto simp: expiry_conflict_def split: option.splits)
  moreover have "multiplier_conflict c a = Inr False"
    using m by (auto simp: multiplier_conflict_def is_finite_iff dest!: finite_real_Inr split: option.splits)
  moreover have "components_conflict c a = Inr False"
    using k list_all2_same_component [OF validated_contract_components_finite [OF k]]
    by (auto simp: components_conflict_def split: option.splits)
  moreover have "properties_conflict c a = Inr False"
    using p assms(2) by (auto simp: properties_conflict_def attr_or_def split: option.splits attr.splits)
  moreover have "spec_conflict c a = Inr False"
    using s by (auto simp: spec_conflict_def attr_or_def split: option.splits attr.splits)
  ultimately show ?thesis by (simp add: contract_conflicts_def numeral_eq_Suc)
qed

section \<open>Properties\<close>

text \<open>
  Creating a contract keeps the registries consistent, and the new contract is
  exactly what both lookups (\<open>Contract.get\<close> by symbol and \<open>ContractGroup.get_contract\<close> within
  its group) return afterwards, while every other symbol keeps its entry; the symbol was free
  and the contract's identity is new.
\<close>

lemma contract_create_registers:
  assumes "registry_wf reg" "contract_create a reg = Inr (c, reg')"
  shows "registry_wf reg' \<and> ca_symbol a = VStr (c_symbol c) \<and> contract_get (c_symbol c) reg = None \<and>
    contract_get (c_symbol c) reg' = Some c \<and> get_contract (c_group c) (c_symbol c) reg' = Some c \<and>
    (\<forall>s. s \<noteq> c_symbol c \<longrightarrow> contract_get s reg' = contract_get s reg) \<and>
    c_id c \<notin> c_id ` set (dict_values (c_registry reg))"
proof -
  have "c_id c \<notin> c_id ` set (dict_values (c_registry reg))"
    using assms(1) contract_create_Inr(4) [OF assms(2)]
    by (auto simp: registry_wf_def contracts_wf_def contract_entry_ok_def)
  then show ?thesis
    using contract_create_wf [OF assms] contract_create_Inr [OF assms(2)] contract_create_lookup [OF assms(2)]
    by (simp add: contract_get_def)
qed

definition example_args :: contract_args where
  "example_args = \<lparr>ca_symbol = VStr ''A'', ca_group = None, ca_expiry = None, ca_multiplier = Some (VNum (PyInt 5)),
     ca_components = None, ca_properties = None, ca_spec = None\<rparr>"

lemma example_create:
  "contract_create example_args initial_registry =
     (let c = Contract 1 ''A'' DEFAULT_CG None (Fin 5) [] [] default_spec in
      Inr (c, \<lparr>cg_registry = [(''DEFAULT'', DEFAULT_CG)], c_registry = [(''A'', c)],
               cg_members = (\<lambda>_. [])(0 := [(''A'', c)]), next_id = 2\<rparr>))"
  by (simp add: contract_create_def example_args_def initial_registry_def nonempty_str_def attr_or_def
      finite_real_def as_real_def py_float_def validated_expiry_def validated_contract_components_def
      add_contract_def DEFAULT_CG_def Let_def fun_upd_def f64_simps)

text \<open>
  \<open>Contract.get_or_create\<close> is idempotent: repeating a successful call with the same
  arguments returns the same contract and changes nothing, whether the first call found the
  contract or created it. The property namespace has to equal itself, which fails only for a
  namespace holding a NaN or NaT.
\<close>

lemma contract_get_or_create_idempotent:
  assumes "contract_get_or_create a reg = Inr (c, reg')"
    and "\<And>p. ca_properties a = Some (Attr p) \<Longrightarrow> ns_eq p p"
  shows "contract_get_or_create a reg' = Inr (c, reg')"
proof (cases "case ca_symbol a of VStr s \<Rightarrow> dict_get (c_registry reg) s | _ \<Rightarrow> None")
  case None
  with assms(1) have c: "contract_create a reg = Inr (c, reg')" by (simp add: contract_get_or_create_def)
  have "ca_symbol a = VStr (c_symbol c)" by (rule contract_create_Inr(1) [OF c])
  moreover have "dict_get (c_registry reg') (c_symbol c) = Some c"
    using contract_create_lookup(1) [OF c, of "c_symbol c"] by (simp add: contract_get_def)
  ultimately show ?thesis
    using contract_create_no_conflict [OF c assms(2)] by (simp add: contract_get_or_create_def)
next
  case (Some existing)
  with assms(1) have "c = existing" "reg' = reg" by (auto simp: contract_get_or_create_def split: if_splits)
  then show ?thesis using assms(1) by simp
qed

definition clear_cache_run :: "pyval \<Rightarrow> contract_args \<Rightarrow> (contract_group \<times> registry) res" where
  "clear_cache_run name a = rbind (cg_get name initial_registry) (\<lambda>(g, reg).
     rbind (contract_create (a\<lparr>ca_group := Some (Attr g)\<rparr>) (cg_clear_cache reg)) (\<lambda>(c, reg).
     Inr (g, contract_clear_cache reg)))"

text \<open>
  A documented guarantee that does not hold: \<open>Contract.clear_cache\<close> says it removes
  every group's references, but it visits only the groups that are registered at that moment.
  From the initial state, \<open>g = ContractGroup.get("G")\<close>, \<open>ContractGroup.clear_cache()\<close>,
  \<open>Contract.create("A", g)\<close>, \<open>Contract.clear_cache()\<close> leaves the contract in \<open>g\<close>: the symbol is
  free in the registry, and creating it again in \<open>g\<close> raises.
\<close>

lemma contract_clear_cache_misses_unregistered_group:
  "\<exists>g reg. clear_cache_run (VStr ''G'') example_args = Inr (g, reg) \<and> contract_exists ''A'' reg = False \<and>
     get_contract g ''A'' reg \<noteq> None \<and>
     contract_create (example_args\<lparr>ca_group := Some (Attr g)\<rparr>) reg =
       Inl (ValueError ''contract group already contains a different contract with symbol'')"
  by (simp add: clear_cache_run_def cg_get_def contract_create_def example_args_def initial_registry_def nonempty_str_def
      attr_or_def finite_real_def as_real_def py_float_def validated_expiry_def validated_contract_components_def
      add_contract_def DEFAULT_CG_def cg_clear_cache_def contract_clear_cache_def cg_clear_def contract_exists_def
      get_contract_def Let_def f64_simps)

end
