(* ===== verification/Orders.thy ===== *)
theory Orders
  imports Contracts
begin

text \<open>
  Orders and trades (\<open>pq_types.py\<close>, from \<open>OrderStatus\<close> on), their detached snapshots
  (\<open>execution_snapshots.py\<close>) and the guard the engine puts around callbacks
  (\<open>order_callback_state.py\<close>). Orders and trades are mutable Python objects: a callback can
  overwrite any attribute with any value, so the attributes the engine rechecks are untyped
  values (\<open>pyval\<close>, or \<open>attr\<close> where a class is expected; reading a deleted attribute through
  \<open>getattr(..., None)\<close> is \<open>None\<close>). An order is reached through a heap of identity numbers, as
  Python reaches it through references. The lemmas cover construction, the lifecycle of an
  order under fills and cancels, the expansion of a roll, and capture and restore.
\<close>

section \<open>Data\<close>

datatype order_status = OPEN | PARTIALLY_FILLED | FILLED | CANCEL_REQUESTED | CANCELLED

datatype time_in_force = FOK | GTC | DAY

text \<open>The subclasses of \<open>Order\<close> with the fields they add.\<close>

datatype order_kind =
    PlainOrder
  | MarketOrder
  | LimitOrder (limit_price: pyval)
  | RollOrder (reopen_contract: "contract attr") (close_qty: pyval) (reopen_qty: pyval)
  | StopLimitOrder (trigger_price: pyval) (stop_limit_price: pyval) (triggered: bool)
  | VWAPOrder (vwap_stop: pyval) (vwap_end_time: pyval)

record order =
  o_contract :: "contract attr"
  o_timestamp :: pyval
  o_qty :: pyval
  o_reason_code :: string
  o_time_in_force :: "time_in_force attr"
  o_properties :: namespace
  o_status :: "order_status attr"
  o_kind :: order_kind

type_synonym order_heap = "nat \<Rightarrow> order"

record trade =
  t_contract :: "contract attr"
  t_order :: "nat attr"
  t_timestamp :: pyval
  t_qty :: pyval
  t_price :: pyval
  t_fee :: pyval
  t_commission :: pyval
  t_properties :: namespace

text \<open>A detached trade: its validated numbers, its instant and the state of its order.\<close>

record trade_snapshot =
  ts_contract :: contract
  ts_order :: order
  ts_timestamp :: int
  ts_qty :: int
  ts_price :: float64
  ts_fee :: float64
  ts_commission :: float64
  ts_properties :: namespace

section \<open>Construction\<close>

definition as_datetime :: "pyval \<Rightarrow> datetime64 option" where
  "as_datetime v = (case v of VDt t \<Rightarrow> Some t | _ \<Rightarrow> None)"

definition is_float_nan :: "pyval \<Rightarrow> bool" where
  "is_float_nan v = (case v of VNum (PyFloat x) \<Rightarrow> is_nan x | VNum (NpFloat x) \<Rightarrow> is_nan x | _ \<Rightarrow> False)"

definition validate_order_references :: "order \<Rightarrow> unit res" where
  "validate_order_references ord =
     rbind (require (is_attr (o_contract ord)) (TypeError ''order contract must be a Contract'')) (\<lambda>_.
     rbind (require (as_datetime (o_timestamp ord) \<noteq> None) (TypeError ''order timestamp must be a numpy datetime64 value'')) (\<lambda>_.
     rbind (require (is_attr (o_time_in_force ord)) (TypeError ''order time_in_force must be a TimeInForce'')) (\<lambda>_.
     require (is_attr (o_status ord)) (TypeError ''order status must be an OrderStatus''))))"

definition order_post_init :: "order \<Rightarrow> order res" where
  "order_post_init self =
     rbind (validate_order_references self) (\<lambda>_.
     rbind (whole_quantity ''order qty'' (o_qty self)) (\<lambda>q. Inr (self\<lparr>o_qty := VNum (PyInt q)\<rparr>)))"

definition roll_validated_terms :: "order \<Rightarrow> (contract \<times> contract \<times> int \<times> int) res" where
  "roll_validated_terms self = (case o_kind self of
      RollOrder reopen close_q reopen_q \<Rightarrow> (case (o_contract self, reopen) of
        (Foreign _, _) \<Rightarrow> Inl (TypeError ''order contract must be a Contract'')
      | (Attr _, Foreign _) \<Rightarrow> Inl (TypeError ''roll reopen contract must be a Contract'')
      | (Attr c, Attr r) \<Rightarrow>
          rbind (whole_quantity ''roll close qty'' close_q) (\<lambda>cq.
          rbind (whole_quantity ''roll reopen qty'' reopen_q) (\<lambda>rq.
          if c_id r = c_id c then Inl (ValueError ''roll contracts must be distinct'')
          else if cg_id (c_group r) \<noteq> cg_id (c_group c)
          then Inl (ValueError ''roll contracts must belong to the same contract group'')
          else if (0 < cq) = (0 < rq)
          then Inl (ValueError ''roll close and reopen quantities must have opposite signs'')
          else Inr (c, r, cq, rq))))
    | _ \<Rightarrow> Inl (AttributeError ''_validated_terms''))"

definition roll_post_init :: "order \<Rightarrow> order res" where
  "roll_post_init self =
     rbind (roll_validated_terms self) (\<lambda>(c, r, cq, rq).
     order_post_init (self\<lparr>o_qty := VNum (PyInt cq),
       o_kind := RollOrder (Attr r) (VNum (PyInt cq)) (VNum (PyInt rq))\<rparr>))"

definition vwap_validate_stop :: "pyval \<Rightarrow> unit res" where
  "vwap_validate_stop stop =
     (if is_float_nan stop then Inr () else rbind (finite_real ''VWAP stop'' stop) (\<lambda>_. Inr ()))"

definition vwap_validate_window :: "pyval \<Rightarrow> pyval \<Rightarrow> unit res" where
  "vwap_validate_window timestamp end_time = (case (as_datetime timestamp, as_datetime end_time) of
      (Some t, Some e) \<Rightarrow>
        if isnat t \<or> isnat e then Inl (ValueError ''VWAP order timestamps cannot be NaT'')
        else if dt_lt e t then Inl (ValueError ''VWAP end time cannot precede the order timestamp'')
        else Inr ()
    | _ \<Rightarrow> Inl (TypeError ''VWAP order timestamps must be numpy datetime64 values''))"

text \<open>The constructor of each class: its \<open>__post_init__\<close> on the fields as passed.\<close>

definition order_init :: "order \<Rightarrow> order res" where
  "order_init self = (case o_kind self of
      PlainOrder \<Rightarrow> order_post_init self
    | MarketOrder \<Rightarrow> order_post_init self
    | LimitOrder p \<Rightarrow> rbind (order_post_init self) (\<lambda>ord.
        rbind (finite_real ''limit price'' p) (\<lambda>x. Inr (ord\<lparr>o_kind := LimitOrder (VNum (PyFloat x))\<rparr>)))
    | RollOrder _ _ _ \<Rightarrow> roll_post_init self
    | StopLimitOrder trig lmt tr \<Rightarrow> rbind (order_post_init self) (\<lambda>ord.
        rbind (finite_real ''stop trigger price'' trig) (\<lambda>x.
        if is_float_nan lmt then Inr (ord\<lparr>o_kind := StopLimitOrder (VNum (PyFloat x)) lmt tr\<rparr>)
        else rbind (finite_real ''stop limit price'' lmt) (\<lambda>y.
          Inr (ord\<lparr>o_kind := StopLimitOrder (VNum (PyFloat x)) (VNum (PyFloat y)) tr\<rparr>))))
    | VWAPOrder stop end_time \<Rightarrow> rbind (order_post_init self) (\<lambda>ord.
        rbind (vwap_validate_window (o_timestamp ord) end_time) (\<lambda>_.
        rbind (vwap_validate_stop stop) (\<lambda>_. Inr ord))))"

section \<open>Lifecycle\<close>

definition status_in :: "order_status attr \<Rightarrow> order_status list \<Rightarrow> bool" where
  "status_in s ss = (case s of Attr x \<Rightarrow> x \<in> set ss | Foreign _ \<Rightarrow> False)"

definition is_open :: "order \<Rightarrow> bool" where
  "is_open self = status_in (o_status self) [OPEN, CANCEL_REQUESTED, PARTIALLY_FILLED]"

definition request_cancel :: "order \<Rightarrow> order" where
  "request_cancel self =
     (if status_in (o_status self) [FILLED, CANCELLED, CANCEL_REQUESTED] then self
      else self\<lparr>o_status := Attr CANCEL_REQUESTED\<rparr>)"

definition cancel :: "order \<Rightarrow> order" where
  "cancel self =
     (if status_in (o_status self) [FILLED, CANCELLED] then self else self\<lparr>o_status := Attr CANCELLED\<rparr>)"

text \<open>
  \<open>fill\<close> returns the outcome beside the order, because the last test can raise after the
  quantity has been reduced.
\<close>

definition fill_checked_qty :: "pyval \<Rightarrow> order \<Rightarrow> (int \<times> pynum) res" where
  "fill_checked_qty fill_qty self =
     rbind (require (status_in (o_status self) [OPEN, PARTIALLY_FILLED]) (ValueError ''cannot fill an order in status'')) (\<lambda>_.
     rbind (whole_quantity ''fill qty'' (if is_float_nan fill_qty then o_qty self else fill_qty)) (\<lambda>f.
     case as_number (o_qty self) of
       None \<Rightarrow> Inl (TypeError ''unsupported operand type'')
     | Some q \<Rightarrow>
         rbind (num_intop (*) f_mul q f) (\<lambda>prod.
         if num_lt prod (PyInt 0) then Inl (ValueError ''order qty cannot be opposite sign of fill qty'')
         else if num_lt (num_abs q) (PyInt \<bar>f\<bar>) then Inl (ValueError ''cannot fill qty larger than order qty'')
         else rbind (num_intop (-) f_sub q f) (\<lambda>rest. Inr (f, rest)))))"

definition fill :: "pyval \<Rightarrow> order \<Rightarrow> unit res \<times> order" where
  "fill fill_qty self = (case fill_checked_qty fill_qty self of
      Inl e \<Rightarrow> (Inl e, self)
    | Inr (f, rest) \<Rightarrow> (let self = self\<lparr>o_qty := VNum rest\<rparr> in
        case num_float rest of
          Inl e \<Rightarrow> (Inl e, self)
        | Inr x \<Rightarrow> (Inr (), self\<lparr>o_status := Attr (if isclose0 x then FILLED else PARTIALLY_FILLED)\<rparr>)))"

section \<open>Roll legs\<close>

definition hex_digit :: "nat \<Rightarrow> char" where
  "hex_digit n = char_of (if n < 10 then 48 + n else 87 + n)"

fun hex_of :: "nat \<Rightarrow> string" where
  "hex_of n = (if n < 16 then [hex_digit n] else hex_of (n div 16) @ [hex_digit (n mod 16)])"

declare hex_of.simps [simp del]

definition roll_leg :: "string \<Rightarrow> string \<Rightarrow> contract \<Rightarrow> int \<Rightarrow> order \<Rightarrow> order res" where
  "roll_leg roll_id leg c q self =
     (if \<exists>k\<in>set (dict_keys (o_properties self)). k = ''_gambit_roll_id'' \<or> k = ''_gambit_roll_leg''
      then Inl (TypeError ''SimpleNamespace() got multiple values for keyword argument'')
      else order_init \<lparr>o_contract = Attr c, o_timestamp = o_timestamp self, o_qty = VNum (PyInt q),
        o_reason_code = o_reason_code self, o_time_in_force = o_time_in_force self,
        o_properties = o_properties self @ [(''_gambit_roll_id'', VStr roll_id), (''_gambit_roll_leg'', VStr leg)],
        o_status = Attr OPEN, o_kind = MarketOrder\<rparr>)"

definition roll_legs :: "nat \<Rightarrow> order \<Rightarrow> (order \<times> order) res" where
  "roll_legs oid self =
     rbind (roll_validated_terms self) (\<lambda>(c, r, cq, rq).
     rbind (require (o_status self = Attr OPEN) (ValueError ''only an open roll command can be expanded'')) (\<lambda>_.
     rbind (roll_leg (hex_of oid) ''close'' c cq self) (\<lambda>close.
     rbind (roll_leg (hex_of oid) ''reopen'' r rq self) (\<lambda>reopen. Inr (close, reopen)))))"

section \<open>Trades\<close>

definition validated_trade_numbers :: "pyval \<Rightarrow> pyval \<Rightarrow> pyval \<Rightarrow> pyval \<Rightarrow> (int \<times> float64 \<times> float64 \<times> float64) res" where
  "validated_trade_numbers qty price fee commission =
     rbind (whole_quantity ''trade qty'' qty) (\<lambda>q.
     rbind (finite_real ''trade price'' price) (\<lambda>p.
     rbind (finite_real ''trade fee'' fee) (\<lambda>f.
     rbind (finite_real ''trade commission'' commission) (\<lambda>c. Inr (q, p, f, c)))))"

definition contract_is :: "contract \<Rightarrow> contract attr \<Rightarrow> bool" where
  "contract_is c a = (case a of Attr d \<Rightarrow> c_id c = c_id d | Foreign _ \<Rightarrow> False)"

definition validate_trade_references :: "order_heap \<Rightarrow> contract attr \<Rightarrow> nat attr \<Rightarrow> pyval \<Rightarrow> (contract \<times> order \<times> int) res" where
  "validate_trade_references heap contract ord timestamp = (case contract of
      Foreign _ \<Rightarrow> Inl (TypeError ''trade contract must be a Contract'')
    | Attr c \<Rightarrow> (case ord of
        Foreign _ \<Rightarrow> Inl (TypeError ''trade order must be an Order'')
      | Attr oid \<Rightarrow> (let o' = heap oid in
          if \<not> contract_is c (o_contract o') then Inl (ValueError ''trade contract must match its originating order'')
          else case as_datetime timestamp of
            None \<Rightarrow> Inl (TypeError ''trade timestamp must be a numpy datetime64 value'')
          | Some t \<Rightarrow> (case (dt_ns t, as_datetime (o_timestamp o')) of
              (None, _) \<Rightarrow> Inl (ValueError ''trade timestamp cannot be NaT'')
            | (Some _, None) \<Rightarrow> Inl (ValueError ''trade order timestamp must be a valid numpy datetime64 value'')
            | (Some ns, Some s) \<Rightarrow>
                if isnat s then Inl (ValueError ''trade order timestamp must be a valid numpy datetime64 value'')
                else if dt_lt t s then Inl (ValueError ''trade timestamp cannot precede its originating order'')
                else Inr (c, o', ns)))))"

definition trade_init :: "order_heap \<Rightarrow> trade \<Rightarrow> trade res" where
  "trade_init heap t =
     rbind (validate_trade_references heap (t_contract t) (t_order t) (t_timestamp t)) (\<lambda>_.
     rbind (validated_trade_numbers (t_qty t) (t_price t) (t_fee t) (t_commission t)) (\<lambda>(q, p, f, c).
     Inr (t\<lparr>t_qty := VNum (PyInt q), t_price := VNum (PyFloat p), t_fee := VNum (PyFloat f),
            t_commission := VNum (PyFloat c)\<rparr>)))"

text \<open>
  \<open>snapshot_order\<close> copies the order and its properties: the copy is the value the heap holds at
  that moment. \<open>snapshot_trade\<close> does the same for a trade whose references and numbers have been
  validated.
\<close>

definition snapshot_order :: "order_heap \<Rightarrow> nat \<Rightarrow> order" where
  "snapshot_order heap oid = heap oid"

definition snapshot_trade :: "order_heap \<Rightarrow> trade \<Rightarrow> trade_snapshot res" where
  "snapshot_trade heap t =
     rbind (validate_trade_references heap (t_contract t) (t_order t) (t_timestamp t)) (\<lambda>(c, o', ns).
     rbind (validated_trade_numbers (t_qty t) (t_price t) (t_fee t) (t_commission t)) (\<lambda>(q, p, f, cm).
     Inr \<lparr>ts_contract = c, ts_order = o', ts_timestamp = ns, ts_qty = q, ts_price = p, ts_fee = f,
          ts_commission = cm, ts_properties = t_properties t\<rparr>))"

section \<open>The callback guard\<close>

record order_callback_state =
  ocs_order :: nat
  ocs_contract :: "contract attr"
  ocs_timestamp :: pyval
  ocs_time_in_force :: "time_in_force attr"
  ocs_qty :: pyval
  ocs_status :: "order_status attr"

definition capture :: "order_heap \<Rightarrow> nat \<Rightarrow> order_callback_state" where
  "capture heap oid = (let ord = heap oid in
     \<lparr>ocs_order = oid, ocs_contract = o_contract ord, ocs_timestamp = o_timestamp ord,
      ocs_time_in_force = o_time_in_force ord, ocs_qty = o_qty ord, ocs_status = o_status ord\<rparr>)"

text \<open>\<open>is\<close> on contract references.\<close>

definition same_contract :: "contract attr \<Rightarrow> contract attr \<Rightarrow> bool" where
  "same_contract a b = (case (a, b) of (Attr c, _) \<Rightarrow> contract_is c b | (Foreign v, Foreign w) \<Rightarrow> v = w | _ \<Rightarrow> False)"

definition validate_identity :: "order_heap \<Rightarrow> order_callback_state \<Rightarrow> unit res" where
  "validate_identity heap self = (let ord = heap (ocs_order self) in
     rbind (require (same_contract (o_contract ord) (ocs_contract self)) (ValueError ''callback changed submitted order contract'')) (\<lambda>_.
     rbind (case (as_datetime (o_timestamp ord), as_datetime (ocs_timestamp self)) of
         (None, _) \<Rightarrow> Inl (ValueError ''callback changed submitted order timestamp'')
       | (Some _, None) \<Rightarrow> Inl (AttributeError ''dtype'')
       | (Some t, Some s) \<Rightarrow> require (dt_unit_of t = dt_unit_of s \<and> (dt_eq t s \<or> isnat t \<and> isnat s))
            (ValueError ''callback changed submitted order timestamp'')) (\<lambda>_.
     require (o_time_in_force ord = ocs_time_in_force self) (ValueError ''callback changed submitted order time_in_force''))))"

definition validate_unchanged :: "order_heap \<Rightarrow> bool \<Rightarrow> order_callback_state \<Rightarrow> unit res" where
  "validate_unchanged heap allow_cancel self = (let ord = heap (ocs_order self) in
     rbind (validate_identity heap self) (\<lambda>_.
     rbind (require (as_real (o_qty ord) \<noteq> None \<and> py_eq (o_qty ord) (ocs_qty self))
        (ValueError ''callback changed protected order quantity'')) (\<lambda>_.
     require (o_status ord = ocs_status self \<or>
        allow_cancel \<and> status_in (ocs_status self) [OPEN, PARTIALLY_FILLED, CANCEL_REQUESTED]
          \<and> status_in (o_status ord) [CANCEL_REQUESTED, CANCELLED])
       (ValueError ''callback changed protected order status''))))"

definition restore :: "order_callback_state \<Rightarrow> order_heap \<Rightarrow> order_heap" where
  "restore self heap = heap(ocs_order self := (heap (ocs_order self))
     \<lparr>o_contract := ocs_contract self, o_timestamp := ocs_timestamp self,
      o_time_in_force := ocs_time_in_force self, o_qty := ocs_qty self, o_status := ocs_status self\<rparr>)"

section \<open>Lemmas on construction\<close>

lemma whole_quantity_PyInt_Inr: "whole_quantity f (VNum (PyInt n)) = Inr m \<Longrightarrow> m = n"
  by (auto simp: whole_quantity_def as_real_def Let_def split: if_splits)

lemma validate_order_references_Inr:
  "validate_order_references ord = Inr u \<longleftrightarrow> is_attr (o_contract ord) \<and> as_datetime (o_timestamp ord) \<noteq> None
     \<and> is_attr (o_time_in_force ord) \<and> is_attr (o_status ord)"
  by (auto simp: validate_order_references_def)

lemma roll_validated_terms_Inr:
  assumes "roll_validated_terms self = Inr (c, r, cq, rq)"
  shows "o_contract self = Attr c" "c_id r \<noteq> c_id c" "cg_id (c_group r) = cg_id (c_group c)"
    "cq \<noteq> 0" "rq \<noteq> 0" "cq * rq < 0"
    and "\<exists>cv rv. o_kind self = RollOrder (Attr r) cv rv \<and> whole_quantity ''roll close qty'' cv = Inr cq
       \<and> whole_quantity ''roll reopen qty'' rv = Inr rq"
proof -
  from assms obtain cv rv where k: "o_kind self = RollOrder (Attr r) cv rv" "o_contract self = Attr c"
    and w: "whole_quantity ''roll close qty'' cv = Inr cq" "whole_quantity ''roll reopen qty'' rv = Inr rq"
    and t: "c_id r \<noteq> c_id c" "cg_id (c_group r) = cg_id (c_group c)" "(0 < cq) \<noteq> (0 < rq)"
    by (auto simp: roll_validated_terms_def split: order_kind.splits attr.splits if_splits)
  have nz: "cq \<noteq> 0" "rq \<noteq> 0" using w by (auto dest: whole_quantity_Inr)
  with t(3) have "cq * rq < 0" by (auto simp: mult_less_0_iff not_less)
  with k w t nz show "o_contract self = Attr c" "c_id r \<noteq> c_id c" "cg_id (c_group r) = cg_id (c_group c)"
    "cq \<noteq> 0" "rq \<noteq> 0" "cq * rq < 0"
    "\<exists>cv rv. o_kind self = RollOrder (Attr r) cv rv \<and> whole_quantity ''roll close qty'' cv = Inr cq
       \<and> whole_quantity ''roll reopen qty'' rv = Inr rq"
    by auto
qed

lemma roll_leg_Inr:
  assumes "roll_leg roll_id leg c q self = Inr ord"
  shows "o_contract ord = Attr c \<and> o_qty ord = VNum (PyInt q) \<and> o_status ord = Attr OPEN \<and> o_kind ord = MarketOrder
    \<and> o_timestamp ord = o_timestamp self \<and> o_time_in_force ord = o_time_in_force self
    \<and> dict_get (o_properties ord) ''_gambit_roll_id'' = Some (VStr roll_id)
    \<and> dict_get (o_properties ord) ''_gambit_roll_leg'' = Some (VStr leg)"
proof -
  from assms have new: "''_gambit_roll_id'' \<notin> set (dict_keys (o_properties self))"
    "''_gambit_roll_leg'' \<notin> set (dict_keys (o_properties self))"
    by (auto simp: roll_leg_def split: if_splits)
  then have "dict_get (o_properties self) ''_gambit_roll_id'' = None" "dict_get (o_properties self) ''_gambit_roll_leg'' = None"
    by (simp_all add: map_of_eq_None_iff)
  with assms show ?thesis
    by (auto simp: roll_leg_def order_init_def order_post_init_def map_add_def dest: whole_quantity_PyInt_Inr split: if_splits)
qed

section \<open>Lemmas on the lifecycle\<close>

lemma status_in_simps [simp, order_simps]:
  "status_in (Attr x) ss \<longleftrightarrow> x \<in> set ss" "\<not> status_in (Foreign v) ss"
  by (simp_all add: status_in_def)

lemma num_ops_PyInt [simp]:
  "num_intop iop fop (PyInt m) n = Inr (PyInt (iop m n))"
  "num_lt (PyInt m) (PyInt n) \<longleftrightarrow> m < n" "num_abs (PyInt m) = PyInt \<bar>m\<bar>"
  by (simp_all add: num_intop_def num_lt_def num_operands_def num_abs_def)

lemma fill_checked_qty_Inr:
  assumes "o_qty self = VNum (PyInt q)"
  shows "fill_checked_qty v self = Inr (f, rest) \<longleftrightarrow>
    status_in (o_status self) [OPEN, PARTIALLY_FILLED] \<and>
    whole_quantity ''fill qty'' (if is_float_nan v then o_qty self else v) = Inr f \<and>
    0 \<le> q * f \<and> \<bar>f\<bar> \<le> \<bar>q\<bar> \<and> rest = PyInt (q - f)"
proof (cases "whole_quantity ''fill qty'' (if is_float_nan v then o_qty self else v)")
  case (Inl e)
  then show ?thesis by (simp add: fill_checked_qty_def)
next
  case (Inr g)
  then show ?thesis by (simp add: fill_checked_qty_def as_number_def assms not_less) auto
qed

text \<open>A whole number of units within 2^53 fills exactly.\<close>

lemma fill_whole:
  assumes "o_qty self = VNum (PyInt q)" "\<bar>q\<bar> \<le> 2 ^ 53" "fill_checked_qty v self = Inr (f, rest)"
  shows "fill v self = (Inr (), self\<lparr>o_qty := VNum (PyInt (q - f)),
     o_status := Attr (if f = q then FILLED else PARTIALLY_FILLED)\<rparr>)"
proof -
  from assms(3) have f: "0 \<le> q * f" "\<bar>f\<bar> \<le> \<bar>q\<bar>" "rest = PyInt (q - f)"
    by (simp_all add: fill_checked_qty_Inr [OF assms(1)])
  then have "\<bar>q - f\<bar> \<le> \<bar>q\<bar>" by (auto simp: zero_le_mult_iff abs_if split: if_splits)
  with assms(2) have "\<bar>q - f\<bar> \<le> 2 ^ 53" by linarith
  then have "num_float rest = Inr (Fin (of_int (q - f)))" "isclose0 (Fin (of_int (q - f))) \<longleftrightarrow> f = q"
    using isclose0_of_int [of "q - f"] by (auto simp: f(3) py_float_def simp del: isclose0_of_int of_int_diff)
  then show ?thesis by (simp add: fill_def assms(3) f(3))
qed

lemma fill_rejected: "fill_checked_qty v self = Inl e \<Longrightarrow> fill v self = (Inl e, self)"
  by (simp add: fill_def)

lemma fill_closed:
  assumes "\<not> status_in (o_status self) [OPEN, PARTIALLY_FILLED]"
  shows "fill v self = (Inl (ValueError ''cannot fill an order in status''), self)"
    and "fill_checked_qty v self = Inl (ValueError ''cannot fill an order in status'')"
  using assms by (simp_all add: fill_def fill_checked_qty_def require_def)

subsection \<open>Runs of the lifecycle\<close>

text \<open>
  One call on an order, labelled with the quantity it filled: a fill that succeeds, a fill that
  raises, a cancel request, a cancel; and a sequence of calls with the total filled.
\<close>

inductive order_step :: "order \<Rightarrow> int \<Rightarrow> order \<Rightarrow> bool" where
  step_fill: "fill_checked_qty v ord = Inr (f, rest) \<Longrightarrow> order_step ord f (snd (fill v ord))"
| step_fill_rejected: "fill_checked_qty v ord = Inl e \<Longrightarrow> order_step ord 0 (snd (fill v ord))"
| step_request_cancel: "order_step ord 0 (request_cancel ord)"
| step_cancel: "order_step ord 0 (cancel ord)"

inductive order_run :: "order \<Rightarrow> int \<Rightarrow> order \<Rightarrow> bool" where
  run_nil: "order_run ord 0 ord"
| run_step: "order_run ord n ord' \<Longrightarrow> order_step ord' f ord'' \<Longrightarrow> order_run ord (n + f) ord''"

inductive_cases order_stepE: "order_step ord f ord'"

text \<open>The invariant of an order created with \<open>q\<close> units, of which \<open>n\<close> have been filled.\<close>

definition lifecycle_inv :: "int \<Rightarrow> int \<Rightarrow> order \<Rightarrow> bool" where
  "lifecycle_inv q n ord = (o_qty ord = VNum (PyInt (q - n)) \<and> 0 \<le> n * q \<and> \<bar>n\<bar> \<le> \<bar>q\<bar> \<and>
     (\<exists>st. o_status ord = Attr st \<and> (st = FILLED \<longleftrightarrow> n = q) \<and> (st = OPEN \<longrightarrow> n = 0)))"

lemma partial_amount:
  fixes q n f :: int
  assumes "0 \<le> n * q" "\<bar>n\<bar> \<le> \<bar>q\<bar>" "0 \<le> (q - n) * f" "\<bar>f\<bar> \<le> \<bar>q - n\<bar>"
  shows "0 \<le> (n + f) * q \<and> \<bar>n + f\<bar> \<le> \<bar>q\<bar> \<and> \<bar>q - n\<bar> \<le> \<bar>q\<bar>"
  using assms by (auto simp: zero_le_mult_iff)

lemma lifecycle_inv_step:
  assumes "order_step ord f ord'" "lifecycle_inv q n ord" "q \<noteq> 0" "\<bar>q\<bar> \<le> 2 ^ 53"
  shows "lifecycle_inv q (n + f) ord'"
  using assms(1)
proof cases
  case (step_fill v rest)
  have oq: "o_qty ord = VNum (PyInt (q - n))" and n: "0 \<le> n * q" "\<bar>n\<bar> \<le> \<bar>q\<bar>"
    using assms(2) by (simp_all add: lifecycle_inv_def)
  have f: "0 \<le> (q - n) * f" "\<bar>f\<bar> \<le> \<bar>q - n\<bar>" and nz: "f \<noteq> 0"
    using step_fill(2) whole_quantity_Inr(1) by (auto simp: fill_checked_qty_Inr [OF oq])
  note amt = partial_amount [OF n f]
  have "\<bar>q - n\<bar> \<le> 2 ^ 53" using amt assms(4) by linarith
  from fill_whole [OF oq this step_fill(2)] step_fill(1) amt nz show ?thesis
    by (auto simp: lifecycle_inv_def algebra_simps)
next
  case (step_fill_rejected v e)
  then show ?thesis using assms(2) by (simp add: fill_rejected)
next
  case step_request_cancel
  then show ?thesis using assms(2,3) by (auto simp: lifecycle_inv_def request_cancel_def)
next
  case step_cancel
  then show ?thesis using assms(2,3) by (auto simp: lifecycle_inv_def cancel_def)
qed

lemma lifecycle_inv_run:
  assumes "order_run ord n ord'" "lifecycle_inv q 0 ord" "q \<noteq> 0" "\<bar>q\<bar> \<le> 2 ^ 53"
  shows "lifecycle_inv q n ord'"
  using assms by (induction rule: order_run.induct) (auto intro: lifecycle_inv_step)

lemma order_step_terminal:
  assumes "order_step ord f ord'" "status_in (o_status ord) [FILLED, CANCELLED]"
  shows "f = 0 \<and> ord' = ord"
proof -
  have c: "\<not> status_in (o_status ord) [OPEN, PARTIALLY_FILLED]"
    using assms(2) by (cases "o_status ord") auto
  from assms(1) show ?thesis
    by (cases rule: order_stepE)
       (use assms(2) c in \<open>auto simp: fill_closed request_cancel_def cancel_def status_in_def split: attr.splits\<close>)
qed

lemma snd_fill_frame:
  "o_contract (snd (fill v ord)) = o_contract ord" "o_timestamp (snd (fill v ord)) = o_timestamp ord"
  "o_time_in_force (snd (fill v ord)) = o_time_in_force ord" "o_kind (snd (fill v ord)) = o_kind ord"
  by (auto simp: fill_def Let_def split: sum.splits)

lemma order_step_frame:
  "order_step ord f ord' \<Longrightarrow> o_contract ord' = o_contract ord \<and> o_timestamp ord' = o_timestamp ord
     \<and> o_time_in_force ord' = o_time_in_force ord \<and> o_kind ord' = o_kind ord"
  by (erule order_stepE) (auto simp: snd_fill_frame request_cancel_def cancel_def)

section \<open>Lemmas on the guard\<close>

lemma same_contract_refl [simp]: "same_contract a a"
  by (cases a) (simp_all add: same_contract_def contract_is_def)

lemma capture_simps [simp]:
  "ocs_order (capture heap oid) = oid" "ocs_contract (capture heap oid) = o_contract (heap oid)"
  "ocs_timestamp (capture heap oid) = o_timestamp (heap oid)" "ocs_qty (capture heap oid) = o_qty (heap oid)"
  "ocs_time_in_force (capture heap oid) = o_time_in_force (heap oid)" "ocs_status (capture heap oid) = o_status (heap oid)"
  by (simp_all add: capture_def Let_def)

lemma py_eq_PyInt [simp]: "py_eq (VNum (PyInt m)) (VNum (PyInt n)) \<longleftrightarrow> m = n"
  by (simp add: py_eq_def as_number_def num_eq_def num_operands_def f_eq_def)

lemma dt_self: "dt_eq t t \<or> isnat t \<and> isnat t"
  by (auto simp: dt_eq_def isnat_def split: option.splits)

lemma validate_unchanged_fields:
  assumes "validate_unchanged heap' allow_cancel (capture heap oid) = Inr ()"
  shows "same_contract (o_contract (heap' oid)) (o_contract (heap oid))"
    "o_timestamp (heap' oid) = o_timestamp (heap oid)" "o_time_in_force (heap' oid) = o_time_in_force (heap oid)"
    "\<exists>a. o_qty (heap' oid) = VNum a \<and> py_eq (VNum a) (o_qty (heap oid))"
    "o_status (heap' oid) = o_status (heap oid) \<or> allow_cancel \<and>
      status_in (o_status (heap oid)) [OPEN, PARTIALLY_FILLED, CANCEL_REQUESTED] \<and>
      status_in (o_status (heap' oid)) [CANCEL_REQUESTED, CANCELLED]"
proof -
  from assms have u: "validate_identity heap' (capture heap oid) = Inr ()"
    and q: "as_real (o_qty (heap' oid)) \<noteq> None" "py_eq (o_qty (heap' oid)) (o_qty (heap oid))"
    by (auto simp: validate_unchanged_def Let_def)
  show "same_contract (o_contract (heap' oid)) (o_contract (heap oid))"
    using u by (simp add: validate_identity_def Let_def)
  show "o_timestamp (heap' oid) = o_timestamp (heap oid)" "o_time_in_force (heap' oid) = o_time_in_force (heap oid)"
    using u by (auto simp: validate_identity_def Let_def as_datetime_def dt_eq_def isnat_def
        split: pyval.splits option.splits datetime64.splits intro: datetime64.expand)
  show "\<exists>a. o_qty (heap' oid) = VNum a \<and> py_eq (VNum a) (o_qty (heap oid))"
    using q by (auto simp: as_real_def split: pyval.splits)
  show "o_status (heap' oid) = o_status (heap oid) \<or> allow_cancel \<and>
      status_in (o_status (heap oid)) [OPEN, PARTIALLY_FILLED, CANCEL_REQUESTED] \<and>
      status_in (o_status (heap' oid)) [CANCEL_REQUESTED, CANCELLED]"
    using assms by (auto simp: validate_unchanged_def Let_def)
qed

section \<open>Properties\<close>

text \<open>
  Claim C4. Conservation over the whole life of an order: for every sequence of fills (accepted
  or rejected), cancel requests and cancels on a new order of \<open>q\<close> units, the remaining quantity is
  \<open>q\<close> minus what was filled, it never changes sign or grows, the order is \<open>FILLED\<close> exactly
  when nothing remains, and contract, timestamp, time in force and kind stay as they were.
\<close>

theorem order_run_conserves:
  assumes "order_run ord n ord'" "o_qty ord = VNum (PyInt q)" "o_status ord = Attr OPEN" "q \<noteq> 0" "\<bar>q\<bar> \<le> 2 ^ 53"
  shows "o_qty ord' = VNum (PyInt (q - n)) \<and> 0 \<le> n * q \<and> \<bar>n\<bar> \<le> \<bar>q\<bar> \<and>
    (o_status ord' = Attr FILLED \<longleftrightarrow> n = q) \<and>
    o_contract ord' = o_contract ord \<and> o_timestamp ord' = o_timestamp ord \<and>
    o_time_in_force ord' = o_time_in_force ord \<and> o_kind ord' = o_kind ord"
proof -
  have "lifecycle_inv q 0 ord" using assms(2-4) by (simp add: lifecycle_inv_def)
  then have "lifecycle_inv q n ord'" by (rule lifecycle_inv_run [OF assms(1) _ assms(4,5)])
  moreover from assms(1) have "o_contract ord' = o_contract ord \<and> o_timestamp ord' = o_timestamp ord
      \<and> o_time_in_force ord' = o_time_in_force ord \<and> o_kind ord' = o_kind ord"
    by (induction rule: order_run.induct) (use order_step_frame in auto)
  ultimately show ?thesis by (auto simp: lifecycle_inv_def)
qed

definition example_order :: "int \<Rightarrow> order" where
  "example_order q = \<lparr>o_contract = Attr (Contract 1 ''A'' DEFAULT_CG None (Fin 1) [] [] default_spec),
     o_timestamp = VDt (Datetime64 DT_ns (Some 5)), o_qty = VNum (PyInt q), o_reason_code = ''entry'',
     o_time_in_force = Attr GTC, o_properties = [], o_status = Attr OPEN, o_kind = MarketOrder\<rparr>"

definition example_trade :: "int \<Rightarrow> int \<Rightarrow> rat \<Rightarrow> trade_snapshot" where
  "example_trade t q p = \<lparr>ts_contract = Contract 1 ''A'' DEFAULT_CG None (Fin 1) [] [] default_spec,
     ts_order = example_order q, ts_timestamp = t, ts_qty = q, ts_price = Fin p, ts_fee = Fin 0,
     ts_commission = Fin 0, ts_properties = []\<rparr>"

lemma example_fill:
  "fill_checked_qty (VNum (PyInt 3)) (example_order 10) = Inr (3, PyInt 7)"
  by (simp add: fill_checked_qty_def example_order_def is_float_nan_def as_number_def)

theorem order_run_conserves_witness:
  "\<exists>ord'. order_run (example_order 10) 3 ord' \<and> o_qty ord' = VNum (PyInt 7) \<and> o_status ord' \<noteq> Attr FILLED"
proof -
  have r: "order_run (example_order 10) (0 + 3) (snd (fill (VNum (PyInt 3)) (example_order 10)))"
    by (rule run_step [OF run_nil step_fill [OF example_fill]])
  from order_run_conserves [OF this, of 10] r show ?thesis by (auto simp: example_order_def)
qed

text \<open>
  \<open>FILLED\<close> and \<open>CANCELLED\<close> are final: no sequence of fills, cancel requests and cancels
  changes anything about such an order, and nothing more is filled.
\<close>

lemma order_run_terminal:
  assumes "order_run ord n ord'" "status_in (o_status ord) [FILLED, CANCELLED]"
  shows "n = 0 \<and> ord' = ord"
  using assms by (induction rule: order_run.induct) (auto dest: order_step_terminal)

lemma order_run_terminal_instance:
  "snd (fill (VNum (PyInt 3)) (cancel (example_order 10))) = cancel (example_order 10)"
proof -
  have s: "status_in (o_status (cancel (example_order 10))) [FILLED, CANCELLED]"
    by (simp add: cancel_def example_order_def)
  have "fill_checked_qty (VNum (PyInt 3)) (cancel (example_order 10)) = Inl (ValueError ''cannot fill an order in status'')"
    by (rule fill_closed(2)) (simp add: cancel_def example_order_def)
  from run_step [OF run_nil step_fill_rejected [OF this]] order_run_terminal [OF _ s] show ?thesis by blast
qed

text \<open>
  Expanding a roll command gives two open market orders, one out of the command's
  contract and one into the reopen contract, in the same group, for the command's whole
  quantities of opposite signs, placed at the same time with the same time in force and tagged
  with one roll identifier.
\<close>

lemma roll_legs_pair:
  assumes "roll_legs oid self = Inr (close, reopen)"
  shows "\<exists>c r cq rq. o_contract self = Attr c \<and> o_contract close = Attr c \<and> o_contract reopen = Attr r \<and>
    c_id c \<noteq> c_id r \<and> cg_id (c_group c) = cg_id (c_group r) \<and>
    o_qty close = VNum (PyInt cq) \<and> o_qty reopen = VNum (PyInt rq) \<and> cq * rq < 0 \<and>
    o_status self = Attr OPEN \<and> o_status close = Attr OPEN \<and> o_status reopen = Attr OPEN \<and>
    o_kind close = MarketOrder \<and> o_kind reopen = MarketOrder \<and>
    o_timestamp close = o_timestamp self \<and> o_timestamp reopen = o_timestamp self \<and>
    o_time_in_force close = o_time_in_force reopen \<and>
    dict_get (o_properties close) ''_gambit_roll_id'' = Some (VStr (hex_of oid)) \<and>
    dict_get (o_properties reopen) ''_gambit_roll_id'' = Some (VStr (hex_of oid))"
proof -
  from assms obtain c r cq rq where t: "roll_validated_terms self = Inr (c, r, cq, rq)" "o_status self = Attr OPEN"
    and l: "roll_leg (hex_of oid) ''close'' c cq self = Inr close" "roll_leg (hex_of oid) ''reopen'' r rq self = Inr reopen"
    by (auto simp: roll_legs_def)
  from roll_validated_terms_Inr [OF t(1)] t(2) roll_leg_Inr [OF l(1)] roll_leg_Inr [OF l(2)]
  show ?thesis by auto
qed

definition example_roll :: order where
  "example_roll = (example_order (- 4))\<lparr>o_kind :=
     RollOrder (Attr (Contract 2 ''B'' DEFAULT_CG None (Fin 1) [] [] default_spec)) (VNum (PyInt (- 4))) (VNum (PyInt 4))\<rparr>"

lemma example_roll_legs: "\<exists>close reopen. roll_legs 26 example_roll = Inr (close, reopen)"
  by (simp add: roll_legs_def roll_leg_def roll_validated_terms_def example_roll_def example_order_def
      order_init_def order_post_init_def validate_order_references_def as_datetime_def DEFAULT_CG_def)

end
