(* ===== verification/Contract_PNL.thy ===== *)
theory Contract_PNL
  imports Sorted_Dict Fifo_Kernel Orders "HOL-Library.Multiset"
begin

text \<open>
  The ledger of one contract (\<open>contract_pnl.py\<close>): the cumulative trade P&L by timestamp, the
  valuations by timestamp, the open lots handed to the FIFO kernel, and the rules for late
  trades, missing prices and expiry. \<open>np_sum\<close> (NumPy's reduction) and \<open>py_sum\<close> (the built-in
  \<open>sum\<close> of floats, whose rounding differs between the supported Python versions) are parameters, as
  is the price callback. The lemmas show that positions are the running totals of the trades,
  that the open lots carry the position, and that no valuation survives a trade it precedes.
\<close>

section \<open>State\<close>

record numerics =
  np_sum :: "float64 list \<Rightarrow> float64"
  py_sum :: "float64 list \<Rightarrow> float64"

type_synonym price_function = "contract \<Rightarrow> grid \<Rightarrow> nat \<Rightarrow> pyval res"

record trade_pnl =
  tp_position :: int
  tp_realized :: float64
  tp_fee :: float64
  tp_commission :: float64
  tp_open_qty :: int
  tp_wavg :: float64

record valuation =
  v_price :: float64
  v_open_qty :: int
  v_unrealized :: float64
  v_net_pnl :: float64

record contract_pnl =
  cp_contract :: contract
  cp_timestamps :: grid
  cp_trade_pnl :: "trade_pnl sorted_dict"
  cp_net_pnl :: "valuation sorted_dict"
  cp_open_qtys :: "int list"
  cp_open_prices :: "float64 list"
  cp_first_trade :: "int option"
  cp_final_pnl :: float64
  cp_new_trades_added :: bool

definition contract_pnl_init :: "contract \<Rightarrow> grid \<Rightarrow> contract_pnl" where
  "contract_pnl_init c ts = \<lparr>cp_contract = c, cp_timestamps = ts, cp_trade_pnl = [], cp_net_pnl = [],
     cp_open_qtys = [], cp_open_prices = [], cp_first_trade = None, cp_final_pnl = NaN, cp_new_trades_added = False\<rparr>"

text \<open>\<open>ContractPNLState\<close>: what a snapshot copies; the contract and the grid never change.\<close>

record contract_pnl_state =
  cs_trade_pnl :: "trade_pnl sorted_dict"
  cs_net_pnl :: "valuation sorted_dict"
  cs_open_qtys :: "int list"
  cs_open_prices :: "float64 list"
  cs_first_trade :: "int option"
  cs_final_pnl :: float64
  cs_new_trades_added :: bool

definition cp_snapshot_state :: "contract_pnl \<Rightarrow> contract_pnl_state" where
  "cp_snapshot_state self = \<lparr>cs_trade_pnl = cp_trade_pnl self, cs_net_pnl = cp_net_pnl self,
     cs_open_qtys = cp_open_qtys self, cs_open_prices = cp_open_prices self, cs_first_trade = cp_first_trade self,
     cs_final_pnl = cp_final_pnl self, cs_new_trades_added = cp_new_trades_added self\<rparr>"

definition cp_restore_state :: "contract_pnl_state \<Rightarrow> contract_pnl \<Rightarrow> contract_pnl" where
  "cp_restore_state st self = self\<lparr>cp_trade_pnl := cs_trade_pnl st, cp_net_pnl := cs_net_pnl st,
     cp_open_qtys := cs_open_qtys st, cp_open_prices := cs_open_prices st, cp_first_trade := cs_first_trade st,
     cp_final_pnl := cs_final_pnl st, cp_new_trades_added := cs_new_trades_added st\<rparr>"

section \<open>Valuation\<close>

definition after_expiry :: "contract \<Rightarrow> int \<Rightarrow> bool" where
  "after_expiry c t = (case c_expiry c of None \<Rightarrow> False
     | Some e \<Rightarrow> (case dt_ns e of None \<Rightarrow> False | Some x \<Rightarrow> x < t))"

definition zero_trade_pnl :: trade_pnl where
  "zero_trade_pnl = \<lparr>tp_position = 0, tp_realized = Fin 0, tp_fee = Fin 0, tp_commission = Fin 0, tp_open_qty = 0, tp_wavg = Fin 0\<rparr>"

definition latest_trade_pnl :: "contract_pnl \<Rightarrow> int \<Rightarrow> trade_pnl res" where
  "latest_trade_pnl self t =
     (if find_index_before (cp_trade_pnl self) t = - 1 then Inr zero_trade_pnl
      else rbind (sd_peekitem (cp_trade_pnl self) (find_index_before (cp_trade_pnl self) t)) (\<lambda>e. Inr (snd e)))"

definition prev_unrealized :: "contract_pnl \<Rightarrow> int \<Rightarrow> float64 res" where
  "prev_unrealized self t =
     (if find_index_before (cp_net_pnl self) t = - 1 then Inr (Fin 0)
      else rbind (sd_peekitem (cp_net_pnl self) (find_index_before (cp_net_pnl self) t)) (\<lambda>e. Inr (v_unrealized (snd e))))"

definition price_and_unrealized :: "price_function \<Rightarrow> contract_pnl \<Rightarrow> nat \<Rightarrow> int \<Rightarrow> trade_pnl \<Rightarrow> (float64 \<times> float64) res" where
  "price_and_unrealized price self i t tp =
     (if isclose0 (f_of_int (tp_open_qty tp)) then Inr (NaN, Fin 0)
      else rbind (price (cp_contract self) (cp_timestamps self) i) (\<lambda>v.
        rbind (validate_price_value True v) (\<lambda>p.
        if is_nan p then rbind (prev_unrealized self t) (\<lambda>u. Inr (p, u))
        else Inr (p, f_mul (f_mul (f_of_int (tp_open_qty tp)) (f_sub p (tp_wavg tp))) (c_multiplier (cp_contract self))))))"

definition net_of :: "trade_pnl \<Rightarrow> float64 \<Rightarrow> float64" where
  "net_of tp unrealized = f_sub (f_sub (f_add (tp_realized tp) unrealized) (tp_commission tp)) (tp_fee tp)"

definition valued_at :: "price_function \<Rightarrow> contract_pnl \<Rightarrow> int \<Rightarrow> valuation res" where
  "valued_at price self t =
     rbind (timestamp_index (cp_timestamps self) (Some t)) (\<lambda>i.
     rbind (latest_trade_pnl self t) (\<lambda>tp.
     rbind (price_and_unrealized price self i t tp) (\<lambda>(p, u).
     Inr \<lparr>v_price = p, v_open_qty = tp_open_qty tp, v_unrealized = u, v_net_pnl = net_of tp u\<rparr>)))"

definition calc_net_pnl :: "price_function \<Rightarrow> int \<Rightarrow> (contract_pnl, unit) prog" where
  "calc_net_pnl price t self =
     (if t \<in> set (dict_keys (cp_net_pnl self)) \<and> \<not> cp_new_trades_added self then (Inr (), self)
      else if (case cp_first_trade self of None \<Rightarrow> True | Some f \<Rightarrow> t < f) then (Inr (), self)
      else if after_expiry (cp_contract self) t \<and> \<not> is_nan (cp_final_pnl self) then (Inr (), self)
      else case valued_at price self t of
        Inl e \<Rightarrow> (Inl e, self)
      | Inr v \<Rightarrow> (Inr (), self\<lparr>cp_net_pnl := sd_set t v (cp_net_pnl self),
          cp_final_pnl := (if after_expiry (cp_contract self) t then v_net_pnl v else cp_final_pnl self),
          cp_new_trades_added := False\<rparr>))"

section \<open>Trades\<close>

definition unique_timestamps :: "trade_snapshot list \<Rightarrow> int list" where
  "unique_timestamps trades = sort (remdups (map ts_timestamp trades))"

definition validate_trade_chronology :: "trade_snapshot list \<Rightarrow> contract_pnl \<Rightarrow> unit res" where
  "validate_trade_chronology trades self =
     (if trades = [] \<or> cp_trade_pnl self = [] then Inr ()
      else rbind (sd_peekitem (cp_trade_pnl self) (- 1)) (\<lambda>(prev_max, _).
        require (\<not> hd (unique_timestamps trades) < prev_max)
          (ValueError ''trades can only be added with non-decreasing timestamps'')))"

text \<open>\<open>numpy.array(..., dtype=int)\<close> of a Python integer.\<close>

definition to_int64 :: "int \<Rightarrow> int res" where
  "to_int64 n = (if in_int64 n then Inr n else Inl (OverflowError ''Python int too large to convert to C long''))"

definition weighted_avg_price :: "numerics \<Rightarrow> int list \<Rightarrow> float64 list \<Rightarrow> float64" where
  "weighted_avg_price num qtys prices = (let open_qty = wrap64 (sum_list qtys) in
     if open_qty = 0 then Fin 0
     else f_div (np_sum num (map2 (\<lambda>q p. f_mul (f_of_int q) p) qtys prices)) (f_of_int open_qty))"

definition add_to_trade_pnl :: "trade_pnl \<Rightarrow> int \<Rightarrow> float64 \<Rightarrow> float64 \<Rightarrow> float64 \<Rightarrow> int \<Rightarrow> float64 \<Rightarrow> trade_pnl" where
  "add_to_trade_pnl prev position_chg realized_chg fee_chg commission_chg open_qty wavg =
     \<lparr>tp_position = tp_position prev + position_chg, tp_realized = f_add (tp_realized prev) realized_chg,
      tp_fee = f_add (tp_fee prev) fee_chg, tp_commission = f_add (tp_commission prev) commission_chg,
      tp_open_qty = open_qty, tp_wavg = wavg\<rparr>"

text \<open>
  The record stored at a timestamp: the changes themselves when nothing is in force, the previous
  record plus the changes otherwise.
\<close>

definition next_trade_pnl :: "numerics \<Rightarrow> trade_snapshot list \<Rightarrow> int \<Rightarrow> float64 \<Rightarrow> contract_pnl \<Rightarrow> trade_pnl res" where
  "next_trade_pnl num t_trades t realized_chg self =
     (let position_chg = sum_list (map ts_qty t_trades);
          commission_chg = py_sum num (map ts_commission t_trades);
          fee_chg = py_sum num (map ts_fee t_trades);
          open_qty = wrap64 (sum_list (cp_open_qtys self));
          wavg = weighted_avg_price num (cp_open_qtys self) (cp_open_prices self) in
      if find_index_before (cp_trade_pnl self) t = - 1
      then Inr \<lparr>tp_position = position_chg, tp_realized = realized_chg, tp_fee = fee_chg, tp_commission = commission_chg,
                tp_open_qty = open_qty, tp_wavg = wavg\<rparr>
      else rbind (sd_peekitem (cp_trade_pnl self) (find_index_before (cp_trade_pnl self) t)) (\<lambda>e.
        Inr (add_to_trade_pnl (snd e) position_chg realized_chg fee_chg commission_chg open_qty wavg)))"

definition add_trades_at :: "numerics \<Rightarrow> price_function \<Rightarrow> trade_snapshot list \<Rightarrow> int \<Rightarrow> (contract_pnl, unit) prog" where
  "add_trades_at num price trades t =
     (let t_trades = filter (\<lambda>tr. ts_timestamp tr = t) trades in
      pbind (plift (res_map to_int64 (map ts_qty t_trades))) (\<lambda>qtys.
      pbind (\<lambda>self. (calculate_trade_pnl (cp_open_qtys self) (cp_open_prices self) qtys (map ts_price t_trades)
          (c_multiplier (cp_contract self)), self)) (\<lambda>(open_qtys, open_prices, realized_chg).
      pbind (pmodify (\<lambda>self. self\<lparr>cp_open_qtys := open_qtys, cp_open_prices := open_prices\<rparr>)) (\<lambda>_.
      pbind (\<lambda>self. (next_trade_pnl num t_trades t realized_chg self, self)) (\<lambda>tp.
      pbind (pmodify (\<lambda>self. self\<lparr>cp_trade_pnl := sd_set t tp (cp_trade_pnl self)\<rparr>)) (\<lambda>_.
      calc_net_pnl price t))))))"

definition cp_add_trades :: "numerics \<Rightarrow> price_function \<Rightarrow> trade_snapshot list \<Rightarrow> (contract_pnl, unit) prog" where
  "cp_add_trades num price trades =
     (if trades = [] then preturn ()
      else pbind (\<lambda>self. (validate_trade_chronology trades self, self)) (\<lambda>_.
        let timestamps = unique_timestamps trades; first_timestamp = hd timestamps in
        pbind (pmodify (\<lambda>self. self\<lparr>cp_net_pnl := sd_drop_from first_timestamp (cp_net_pnl self),
            cp_first_trade := (case cp_first_trade self of None \<Rightarrow> Some first_timestamp | x \<Rightarrow> x),
            cp_new_trades_added := True\<rparr>)) (\<lambda>_.
        pforeach (add_trades_at num price trades) timestamps)))"

section \<open>Queries\<close>

definition cp_position :: "contract_pnl \<Rightarrow> int \<Rightarrow> int res" where
  "cp_position self t =
     (if find_index_before (cp_trade_pnl self) t = - 1 then Inr 0
      else rbind (sd_peekitem (cp_trade_pnl self) (find_index_before (cp_trade_pnl self) t)) (\<lambda>e. Inr (tp_position (snd e))))"

definition cp_net_pnl_at :: "contract_pnl \<Rightarrow> int \<Rightarrow> float64 res" where
  "cp_net_pnl_at self t =
     (if after_expiry (cp_contract self) t \<and> \<not> is_nan (cp_final_pnl self) then Inr (cp_final_pnl self)
      else if find_index_before (cp_net_pnl self) t = - 1 then Inr (Fin 0)
      else rbind (sd_peekitem (cp_net_pnl self) (find_index_before (cp_net_pnl self) t)) (\<lambda>e. Inr (v_net_pnl (snd e))))"

record pnl_row =
  pr_position :: int
  pr_price :: float64
  pr_realized :: float64
  pr_unrealized :: float64
  pr_fee :: float64
  pr_commission :: float64
  pr_net_pnl :: float64

definition cp_pnl :: "contract_pnl \<Rightarrow> int \<Rightarrow> pnl_row res" where
  "cp_pnl self t =
     rbind (latest_trade_pnl self t) (\<lambda>tp.
     rbind (if find_index_before (cp_net_pnl self) t = - 1
        then Inr \<lparr>v_price = Fin 0, v_open_qty = 0, v_unrealized = Fin 0, v_net_pnl = Fin 0\<rparr>
        else rbind (sd_peekitem (cp_net_pnl self) (find_index_before (cp_net_pnl self) t)) (\<lambda>e. Inr (snd e))) (\<lambda>v.
     Inr \<lparr>pr_position = tp_position tp, pr_price = v_price v, pr_realized = tp_realized tp, pr_unrealized = v_unrealized v,
          pr_fee = tp_fee tp, pr_commission = tp_commission tp, pr_net_pnl = v_net_pnl v\<rparr>))"

section \<open>Reads\<close>

definition trade_pnl_as_of :: "contract_pnl \<Rightarrow> int \<Rightarrow> trade_pnl" where
  "trade_pnl_as_of self t = (case as_of (cp_trade_pnl self) t of None \<Rightarrow> zero_trade_pnl | Some e \<Rightarrow> snd e)"

lemma latest_trade_pnl_eq: "sd_ok (cp_trade_pnl self) \<Longrightarrow> latest_trade_pnl self t = Inr (trade_pnl_as_of self t)"
  unfolding latest_trade_pnl_def trade_pnl_as_of_def by (rule sd.read_at_index)

lemma cp_position_eq: "sd_ok (cp_trade_pnl self) \<Longrightarrow> cp_position self t = Inr (tp_position (trade_pnl_as_of self t))"
  unfolding cp_position_def trade_pnl_as_of_def
  by (subst sd.read_at_index) (auto simp: zero_trade_pnl_def split: option.splits)

lemma next_trade_pnl_position:
  assumes "sd_ok (cp_trade_pnl self)" "next_trade_pnl num b t r self = Inr tp"
  shows "tp_position tp = tp_position (trade_pnl_as_of self t) + sum_list (map ts_qty b)"
    and "tp_open_qty tp = wrap64 (sum_list (cp_open_qtys self))"
  using assms(2) sd.index_none [OF assms(1), of t] sd.index_some [OF assms(1), of t]
  by (auto simp: next_trade_pnl_def add_to_trade_pnl_def trade_pnl_as_of_def zero_trade_pnl_def Let_def
      split: if_splits option.splits)

lemma trade_pnl_as_of_set:
  assumes "sd_ok (cp_trade_pnl self)" "\<forall>e\<in>set (cp_trade_pnl self). fst e \<le> k"
  shows "trade_pnl_as_of (self\<lparr>cp_trade_pnl := sd_set k tp (cp_trade_pnl self)\<rparr>) t
    = (if k \<le> t then tp else trade_pnl_as_of self t)"
  using assms by (simp add: trade_pnl_as_of_def as_of_set_last)

lemma trade_pnl_as_of_cong:
  "cp_trade_pnl self = cp_trade_pnl self' \<Longrightarrow> trade_pnl_as_of self = trade_pnl_as_of self'"
  by (simp add: trade_pnl_as_of_def fun_eq_iff)

section \<open>Frames\<close>

lemma calc_net_pnl_frame:
  assumes "calc_net_pnl price t self = (r, self')"
  shows "cp_trade_pnl self' = cp_trade_pnl self" "cp_open_qtys self' = cp_open_qtys self"
    "cp_open_prices self' = cp_open_prices self" "cp_first_trade self' = cp_first_trade self"
    "cp_contract self' = cp_contract self" "cp_timestamps self' = cp_timestamps self"
  using assms by (auto simp: calc_net_pnl_def split: if_splits sum.splits)

lemma calc_net_pnl_cases:
  assumes "calc_net_pnl price t self = (r, self')"
  obtains "self' = self"
  | v where "valued_at price self t = Inr v" "r = Inr ()" "cp_net_pnl self' = sd_set t v (cp_net_pnl self)"
      "\<not> (after_expiry (cp_contract self) t \<and> \<not> is_nan (cp_final_pnl self))"
  using assms by (auto simp: calc_net_pnl_def split: if_splits sum.splits)

lemma res_map_to_int64: "res_map to_int64 qs = Inr qs' \<Longrightarrow> qs' = qs \<and> (\<forall>q\<in>set qs. in_int64 q)"
  by (induction qs arbitrary: qs') (auto simp: to_int64_def split: if_splits)

lemma calculate_trade_pnl_eq: "calculate_trade_pnl oq op nq np m = calc_trade_pnl oq op nq np m"
  by (cases "calc_trade_pnl oq op nq np m") (auto simp: calculate_trade_pnl_def)

lemma add_trades_at_Inr:
  assumes "add_trades_at num price trades t self = (Inr u, self')"
  defines "b \<equiv> filter (\<lambda>tr. ts_timestamp tr = t) trades"
  obtains oq op r tp where
    "calc_trade_pnl (cp_open_qtys self) (cp_open_prices self) (map ts_qty b) (map ts_price b)
       (c_multiplier (cp_contract self)) = Inr (oq, op, r)"
    "next_trade_pnl num b t r (self\<lparr>cp_open_qtys := oq, cp_open_prices := op\<rparr>) = Inr tp"
    "calc_net_pnl price t (self\<lparr>cp_open_qtys := oq, cp_open_prices := op,
       cp_trade_pnl := sd_set t tp (cp_trade_pnl self)\<rparr>) = (Inr (), self')"
  using assms by (auto simp: add_trades_at_def calculate_trade_pnl_eq Let_def dest!: res_map_to_int64)

section \<open>Valuations follow the trades\<close>

text \<open>
  Every stored valuation is the one of the trade record in force at its timestamp. This is what
  discarding the valuations from the first new trade on keeps true.
\<close>

definition valuation_current :: "contract_pnl \<Rightarrow> int \<times> valuation \<Rightarrow> bool" where
  "valuation_current self e = (case e of (t, v) \<Rightarrow>
     v_open_qty v = tp_open_qty (trade_pnl_as_of self t) \<and> v_net_pnl v = net_of (trade_pnl_as_of self t) (v_unrealized v))"

definition ledger_ok :: "contract_pnl \<Rightarrow> bool" where
  "ledger_ok self = (sd_ok (cp_trade_pnl self) \<and> sd_ok (cp_net_pnl self) \<and>
     (\<forall>e\<in>set (cp_net_pnl self). valuation_current self e))"

definition before_or_at :: "int \<Rightarrow> contract_pnl \<Rightarrow> bool" where
  "before_or_at t self = ((\<forall>e\<in>set (cp_trade_pnl self). fst e \<le> t) \<and> (\<forall>e\<in>set (cp_net_pnl self). fst e < t))"

lemma valued_at_current:
  assumes "sd_ok (cp_trade_pnl self)" "valued_at price self t = Inr v"
  shows "valuation_current self (t, v)"
  using assms(2) by (auto simp: valued_at_def latest_trade_pnl_eq [OF assms(1)] valuation_current_def)

lemma valuation_current_cong:
  "cp_trade_pnl self = cp_trade_pnl self' \<Longrightarrow> valuation_current self = valuation_current self'"
  by (simp add: valuation_current_def fun_eq_iff trade_pnl_as_of_cong [of self self'])

lemma calc_net_pnl_ledger_ok:
  assumes "calc_net_pnl price t self = (r, self')" "ledger_ok self"
  shows "ledger_ok self'"
  using assms(1)
proof (cases rule: calc_net_pnl_cases)
  case 1
  then show ?thesis using assms(2) by simp
next
  case (2 v)
  note f = calc_net_pnl_frame [OF assms(1)]
  have "valuation_current self' = valuation_current self" by (rule valuation_current_cong) (rule f)
  then show ?thesis
    using assms(2) 2(3) f(1) valued_at_current [OF _ 2(1)]
    by (auto simp: ledger_ok_def set_sd_set)
qed

lemma calc_net_pnl_net_keys:
  assumes "calc_net_pnl price t self = (r, self')" "sd_ok (cp_net_pnl self)" "\<forall>e\<in>set (cp_net_pnl self). fst e \<le> t"
  shows "\<forall>e\<in>set (cp_net_pnl self'). fst e \<le> t"
  using assms(1) by (cases rule: calc_net_pnl_cases) (use assms in \<open>auto simp: set_sd_set\<close>)

lemma add_record_ledger_ok:
  assumes "ledger_ok self" "before_or_at t self"
  shows "ledger_ok (self\<lparr>cp_open_qtys := oq, cp_open_prices := op, cp_trade_pnl := sd_set t tp (cp_trade_pnl self)\<rparr>)"
proof -
  let ?s = "self\<lparr>cp_open_qtys := oq, cp_open_prices := op, cp_trade_pnl := sd_set t tp (cp_trade_pnl self)\<rparr>"
  have "trade_pnl_as_of ?s k = trade_pnl_as_of self k" if "k < t" for k
    using that assms by (simp add: trade_pnl_as_of_def ledger_ok_def before_or_at_def as_of_set_last)
  then have "valuation_current ?s e = valuation_current self e" if "fst e < t" for e
    using that by (cases e) (simp add: valuation_current_def)
  then have "\<forall>e\<in>set (cp_net_pnl self). valuation_current ?s e"
    using assms by (simp add: ledger_ok_def before_or_at_def)
  then show ?thesis using assms(1) by (simp add: ledger_ok_def)
qed

lemma ledger_ok_open [simp]:
  "ledger_ok (self\<lparr>cp_open_qtys := oq, cp_open_prices := op\<rparr>) = ledger_ok self"
  by (simp add: ledger_ok_def valuation_current_def trade_pnl_as_of_def)

text \<open>One timestamp of a batch, whether it ends or raises.\<close>

lemma add_trades_at_ledger_ok:
  assumes "add_trades_at num price trades t self = (r, self')" "ledger_ok self" "before_or_at t self"
  shows "ledger_ok self' \<and> (\<forall>k\<in>fst ` set (cp_trade_pnl self') \<union> fst ` set (cp_net_pnl self'). k \<le> t)"
proof -
  let ?b = "filter (\<lambda>tr. ts_timestamp tr = t) trades"
  have base: "\<forall>k\<in>fst ` set (cp_trade_pnl self) \<union> fst ` set (cp_net_pnl self). k \<le> t"
    using assms(3) by (auto simp: before_or_at_def)
  consider "self' = self"
    | oq op where "self' = self\<lparr>cp_open_qtys := oq, cp_open_prices := op\<rparr>"
    | oq op tp where "calc_net_pnl price t (self\<lparr>cp_open_qtys := oq, cp_open_prices := op,
       cp_trade_pnl := sd_set t tp (cp_trade_pnl self)\<rparr>) = (r, self')"
    using assms(1) by (auto simp: add_trades_at_def Let_def pbind_def split: prod.splits sum.splits)
  then show ?thesis
  proof cases
    case (3 oq op tp)
    let ?s = "self\<lparr>cp_open_qtys := oq, cp_open_prices := op, cp_trade_pnl := sd_set t tp (cp_trade_pnl self)\<rparr>"
    have s: "ledger_ok ?s" by (rule add_record_ledger_ok [OF assms(2,3)])
    have "\<forall>e\<in>set (cp_net_pnl self'). fst e \<le> t"
      by (rule calc_net_pnl_net_keys [OF 3]) (use base assms(2) in \<open>auto simp: ledger_ok_def\<close>)
    moreover have "\<forall>e\<in>set (cp_trade_pnl self'). fst e \<le> t"
      using calc_net_pnl_frame(1) [OF 3] base assms(2) by (auto simp: ledger_ok_def set_sd_set)
    ultimately show ?thesis using calc_net_pnl_ledger_ok [OF 3 s] by blast
  qed (use assms(2) base in auto)
qed

lemma add_trades_loop_ledger_ok:
  assumes "pforeach (add_trades_at num price trades) ts self = (r, self')"
    "ledger_ok self" "sorted_wrt (<) ts" "ts \<noteq> [] \<Longrightarrow> before_or_at (hd ts) self"
  shows "ledger_ok self'"
  using assms
proof (induction ts arbitrary: self)
  case (Cons t ts)
  obtain q s where q: "add_trades_at num price trades t self = (q, s)" by fastforce
  have st: "ledger_ok s" "\<forall>k\<in>fst ` set (cp_trade_pnl s) \<union> fst ` set (cp_net_pnl s). k \<le> t"
    using add_trades_at_ledger_ok [OF q Cons.prems(2)] Cons.prems(4) by auto
  show ?case
  proof (cases q)
    case (Inl e)
    then show ?thesis using Cons.prems(1) q st by (simp add: pbind_def)
  next
    case (Inr y)
    have "before_or_at (hd ts) s" if "ts \<noteq> []"
      using st(2) Cons.prems(3) that by (cases ts) (force simp: before_or_at_def)+
    moreover have "pforeach (add_trades_at num price trades) ts s = (r, self')"
      using Cons.prems(1) q Inr by (simp add: pbind_def)
    ultimately show ?thesis using Cons.IH st(1) Cons.prems(3) by simp
  qed
qed simp

lemma unique_timestamps_sorted: "sorted_wrt (<) (unique_timestamps trades)"
  by (simp add: unique_timestamps_def strict_sorted_iff)

lemma set_unique_timestamps [simp]: "set (unique_timestamps trades) = ts_timestamp ` set trades"
  by (simp add: unique_timestamps_def)

lemma unique_timestamps_Nil [simp]: "unique_timestamps trades = [] \<longleftrightarrow> trades = []"
  using set_unique_timestamps [of trades] by (metis image_is_empty set_empty)

lemma chronology_keys:
  assumes "validate_trade_chronology trades self = Inr u" "trades \<noteq> []" "sd_ok (cp_trade_pnl self)"
  shows "\<forall>e\<in>set (cp_trade_pnl self). fst e \<le> hd (unique_timestamps trades)"
proof (cases "cp_trade_pnl self = []")
  case False
  let ?d = "cp_trade_pnl self"
  have "sd_peekitem ?d (- 1) = Inr (last ?d)"
    using False by (simp add: sd_peekitem_def last_conv_nth nat_diff_distrib Suc_le_eq)
  with assms(1,2) False have "fst (last ?d) \<le> hd (unique_timestamps trades)"
    by (auto simp: validate_trade_chronology_def split: prod.splits)
  then show ?thesis using sd_last_max [OF assms(3)] by (meson order_trans)
qed simp

lemma ledger_ok_init: "ledger_ok (contract_pnl_init c ts)"
  by (simp add: ledger_ok_def contract_pnl_init_def)

text \<open>The state the loop over the timestamps of a batch starts from.\<close>

definition batch_start :: "int \<Rightarrow> contract_pnl \<Rightarrow> contract_pnl" where
  "batch_start first_timestamp self = self\<lparr>cp_net_pnl := sd_drop_from first_timestamp (cp_net_pnl self),
     cp_first_trade := (case cp_first_trade self of None \<Rightarrow> Some first_timestamp | x \<Rightarrow> x), cp_new_trades_added := True\<rparr>"

lemma cp_add_trades_unfold:
  assumes "trades \<noteq> []"
  shows "cp_add_trades num price trades self = (case validate_trade_chronology trades self of
      Inl e \<Rightarrow> (Inl e, self)
    | Inr _ \<Rightarrow> pforeach (add_trades_at num price trades) (unique_timestamps trades)
        (batch_start (hd (unique_timestamps trades)) self))"
  using assms by (auto simp: cp_add_trades_def batch_start_def Let_def pbind_def split: sum.splits)

lemma cp_add_trades_noop:
  assumes "cp_add_trades num price trades self = (r, self')"
    "trades = [] \<or> (\<exists>e. validate_trade_chronology trades self = Inl e)"
  shows "self' = self"
proof (cases "trades = []")
  case True
  then show ?thesis using assms(1) by (simp add: cp_add_trades_def)
next
  case False
  then show ?thesis using assms by (auto simp: cp_add_trades_unfold)
qed

lemma batch_start_ok:
  assumes "ledger_ok self" "\<forall>e\<in>set (cp_trade_pnl self). fst e \<le> t"
  shows "ledger_ok (batch_start t self)" "before_or_at t (batch_start t self)"
proof -
  have "valuation_current (batch_start t self) = valuation_current self"
    by (rule valuation_current_cong) (simp add: batch_start_def)
  then show "ledger_ok (batch_start t self)" "before_or_at t (batch_start t self)"
    using assms by (auto simp: ledger_ok_def before_or_at_def batch_start_def sd_drop_from_filter sd_ok_filter)
qed

lemma cp_add_trades_ledger_ok:
  assumes "cp_add_trades num price trades self = (r, self')" "ledger_ok self"
  shows "ledger_ok self'"
proof (cases "trades = [] \<or> (\<exists>e. validate_trade_chronology trades self = Inl e)")
  case True
  then show ?thesis using cp_add_trades_noop [OF assms(1)] assms(2) by simp
next
  case False
  then obtain u where c: "validate_trade_chronology trades self = Inr u" "trades \<noteq> []"
    by (cases "validate_trade_chronology trades self") auto
  have k: "\<forall>e\<in>set (cp_trade_pnl self). fst e \<le> hd (unique_timestamps trades)"
    using c assms(2) by (intro chronology_keys) (auto simp: ledger_ok_def)
  from assms(1) c have "pforeach (add_trades_at num price trades) (unique_timestamps trades)
      (batch_start (hd (unique_timestamps trades)) self) = (r, self')"
    by (simp add: cp_add_trades_unfold)
  then show ?thesis
    by (rule add_trades_loop_ledger_ok) (use batch_start_ok [OF assms(2) k] unique_timestamps_sorted in auto)
qed

section \<open>Positions are running totals\<close>

definition qty_upto :: "trade_snapshot list \<Rightarrow> int \<Rightarrow> int" where
  "qty_upto h t = sum_list (map ts_qty (filter (\<lambda>x. ts_timestamp x \<le> t) h))"

definition gross_traded :: "trade_snapshot list \<Rightarrow> int" where
  "gross_traded h = sum_list (map (\<lambda>x. \<bar>ts_qty x\<bar>) h)"

text \<open>The ledger has recorded exactly the trades \<open>h\<close>.\<close>

definition book_tracks :: "int \<Rightarrow> contract_pnl \<Rightarrow> bool" where
  "book_tracks net self = (length (cp_open_qtys self) = length (cp_open_prices self) \<and>
     sum_list (cp_open_qtys self) = net \<and>
     ((\<forall>q\<in>set (cp_open_qtys self). 0 \<le> q) \<or> (\<forall>q\<in>set (cp_open_qtys self). q \<le> 0)))"

definition tracks :: "trade_snapshot list \<Rightarrow> contract_pnl \<Rightarrow> bool" where
  "tracks h self = (sd_ok (cp_trade_pnl self) \<and> fst ` set (cp_trade_pnl self) = ts_timestamp ` set h \<and>
     (\<forall>t. tp_position (trade_pnl_as_of self t) = qty_upto h t \<and> tp_open_qty (trade_pnl_as_of self t) = qty_upto h t) \<and>
     book_tracks (sum_list (map ts_qty h)) self)"

lemma qty_upto_append [simp]: "qty_upto (h @ h') t = qty_upto h t + qty_upto h' t"
  by (simp add: qty_upto_def)

lemma gross_traded_append [simp]: "gross_traded (h @ h') = gross_traded h + gross_traded h'"
  by (simp add: gross_traded_def)

lemma gross_traded_bound: "\<bar>sum_list (map ts_qty h)\<bar> \<le> gross_traded h"
  by (induction h) (auto simp: gross_traded_def)

lemma gross_traded_nonneg [simp]: "0 \<le> gross_traded h"
  using gross_traded_bound [of h] by linarith

lemma gross_traded_member: "x \<in> set h \<Longrightarrow> \<bar>ts_qty x\<bar> \<le> gross_traded h"
proof (induction h)
  case (Cons y h)
  then show ?case using gross_traded_nonneg [of h] by (auto simp: gross_traded_def)
qed simp

lemma one_sided_member_bound:
  fixes qs :: "int list"
  assumes "(\<forall>q\<in>set qs. 0 \<le> q) \<or> (\<forall>q\<in>set qs. q \<le> 0)" "q \<in> set qs"
  shows "\<bar>q\<bar> \<le> \<bar>sum_list qs\<bar>"
  using assms
proof (induction qs)
  case (Cons a qs)
  have "(\<forall>q\<in>set qs. 0 \<le> q) \<Longrightarrow> 0 \<le> sum_list qs" by (rule sum_list_nonneg) simp
  moreover have "(\<forall>q\<in>set qs. q \<le> 0) \<Longrightarrow> sum_list qs \<le> 0" by (rule sum_list_nonpos) simp
  ultimately have sum: "0 \<le> a \<and> 0 \<le> sum_list qs \<or> a \<le> 0 \<and> sum_list qs \<le> 0" using Cons.prems(1) by auto
  consider "q = a" | "\<bar>q\<bar> \<le> \<bar>sum_list qs\<bar>" using Cons by auto
  then show ?case using sum by cases auto
qed simp

lemma qty_upto_all: "\<forall>x\<in>set h. ts_timestamp x \<le> t \<Longrightarrow> qty_upto h t = sum_list (map ts_qty h)"
  by (simp add: qty_upto_def filter_id_conv [THEN iffD2])

lemma qty_upto_none: "\<forall>x\<in>set h. t < ts_timestamp x \<Longrightarrow> qty_upto h t = 0"
  by (simp add: qty_upto_def filter_empty_conv [THEN iffD2] not_le)

lemma book_tracks_step:
  assumes "book_tracks (sum_list (map ts_qty h)) self" "gross_traded (h @ b) < 2 ^ 63"
    and "calc_trade_pnl (cp_open_qtys self) (cp_open_prices self) (map ts_qty b) (map ts_price b) m = Inr (oq, op, r)"
  shows "book_tracks (sum_list (map ts_qty (h @ b))) (self\<lparr>cp_open_qtys := oq, cp_open_prices := op, cp_trade_pnl := d\<rparr>)"
proof -
  have lot: "\<bar>q\<bar> < 2 ^ 63" if "q \<in> set (cp_open_qtys self)" for q
  proof -
    have "\<bar>q\<bar> \<le> \<bar>sum_list (map ts_qty h)\<bar>"
      using one_sided_member_bound [OF _ that] assms(1) by (simp add: book_tracks_def)
    then show ?thesis
      using assms(2) gross_traded_bound [of h] gross_traded_nonneg [of b] unfolding gross_traded_append by linarith
  qed
  have new: "\<bar>ts_qty x\<bar> < 2 ^ 63" if "x \<in> set b" for x
    using gross_traded_member [OF that] assms(2) gross_traded_nonneg [of h] unfolding gross_traded_append by linarith
  have "sum_list oq = sum_list (cp_open_qtys self) + sum_list (map ts_qty b) \<and> length op = length oq \<and>
      0 \<notin> set oq \<and> ((\<forall>q\<in>set oq. 0 < q) \<or> (\<forall>q\<in>set oq. q < 0))"
    by (rule calc_trade_pnl_book [OF _ _ _ _ assms(3)]) (use assms(1) lot new in \<open>auto simp: book_tracks_def\<close>)
  then show ?thesis using assms(1) by (auto simp: book_tracks_def less_imp_le)
qed

lemma add_trades_at_tracks:
  assumes "add_trades_at num price trades t self = (Inr u, self')"
  defines "b \<equiv> filter (\<lambda>tr. ts_timestamp tr = t) trades"
  assumes "tracks h self" "\<forall>x\<in>set h. ts_timestamp x \<le> t" "b \<noteq> []" "gross_traded (h @ b) < 2 ^ 63"
  shows "tracks (h @ b) self'"
  using assms(1)
proof (rule add_trades_at_Inr, fold b_def)
  fix oq op r tp
  let ?s = "self\<lparr>cp_open_qtys := oq, cp_open_prices := op\<rparr>"
  let ?s' = "self\<lparr>cp_open_qtys := oq, cp_open_prices := op, cp_trade_pnl := sd_set t tp (cp_trade_pnl self)\<rparr>"
  assume k: "calc_trade_pnl (cp_open_qtys self) (cp_open_prices self) (map ts_qty b) (map ts_price b)
      (c_multiplier (cp_contract self)) = Inr (oq, op, r)"
    and tp: "next_trade_pnl num b t r ?s = Inr tp" and c: "calc_net_pnl price t ?s' = (Inr (), self')"
  have ok: "sd_ok (cp_trade_pnl self)" and keys: "fst ` set (cp_trade_pnl self) = ts_timestamp ` set h"
    using assms(3) by (simp_all add: tracks_def)
  have below: "\<forall>e\<in>set (cp_trade_pnl self). fst e \<le> t"
  proof
    fix e assume "e \<in> set (cp_trade_pnl self)"
    then have "fst e \<in> ts_timestamp ` set h" by (simp flip: keys)
    then show "fst e \<le> t" using assms(4) by auto
  qed
  have bt: "\<forall>x\<in>set b. ts_timestamp x = t" by (simp add: b_def)
  have "book_tracks (sum_list (map ts_qty (h @ b))) ?s'"
    by (rule book_tracks_step [OF _ assms(6) k]) (use assms(3) in \<open>simp add: tracks_def\<close>)
  then have book: "book_tracks (sum_list (map ts_qty (h @ b))) self'"
    by (simp add: book_tracks_def calc_net_pnl_frame [OF c])
  have same: "trade_pnl_as_of ?s = trade_pnl_as_of self" by (rule trade_pnl_as_of_cong) simp
  have tot: "sum_list (map ts_qty (h @ b)) = qty_upto h t + sum_list (map ts_qty b)"
    using qty_upto_all [OF assms(4)] by simp
  have "tp_position tp = sum_list (map ts_qty (h @ b))"
    using next_trade_pnl_position(1) [OF _ tp] ok same assms(3) tot by (simp add: tracks_def)
  moreover have "tp_open_qty tp = sum_list (map ts_qty (h @ b))"
  proof -
    have "tp_open_qty tp = wrap64 (sum_list (map ts_qty (h @ b)))"
      using next_trade_pnl_position(2) [OF _ tp] ok book calc_net_pnl_frame(2) [OF c] by (simp add: book_tracks_def)
    moreover have "in_int64 (sum_list (map ts_qty (h @ b)))"
      using gross_traded_bound [of "h @ b"] assms(6) by (simp add: in_int64_def abs_le_iff)
    ultimately show ?thesis by simp
  qed
  moreover have "trade_pnl_as_of self' k = (if t \<le> k then tp else trade_pnl_as_of self k)" for k
    using ok below calc_net_pnl_frame(1) [OF c] by (simp add: trade_pnl_as_of_def as_of_set_last)
  moreover have "qty_upto (h @ b) k = (if t \<le> k then sum_list (map ts_qty (h @ b)) else qty_upto h k)" for k
  proof (cases "t \<le> k")
    case True
    then have "\<forall>x\<in>set (h @ b). ts_timestamp x \<le> k" using assms(4) bt by (auto intro: order_trans)
    then show ?thesis using True qty_upto_all by simp
  next
    case False
    then show ?thesis using bt by (simp add: qty_upto_none)
  qed
  moreover have "fst ` set (cp_trade_pnl self') = ts_timestamp ` set (h @ b)"
  proof -
    have "ts_timestamp ` set b = {t}" using bt assms(5) by (cases b) auto
    then show ?thesis using keys calc_net_pnl_frame(1) [OF c] by (simp add: image_Un)
  qed
  ultimately show "tracks (h @ b) self'"
    using assms(3) book ok calc_net_pnl_frame(1) [OF c] by (simp add: tracks_def)
qed

text \<open>The history matters only as a multiset, so a batch may be replayed timestamp by timestamp.\<close>

lemma tracks_mset: "mset h = mset h' \<Longrightarrow> tracks h self = tracks h' self"
proof -
  assume m: "mset h = mset h'"
  then have "set h = set h'" by (rule mset_eq_setD)
  moreover have "sum_list (map ts_qty (filter P h)) = sum_list (map ts_qty (filter P h'))" for P
    using m by (metis mset_filter mset_map sum_mset_sum_list)
  from this this [of "\<lambda>_. True"] have "qty_upto h = qty_upto h'" "sum_list (map ts_qty h) = sum_list (map ts_qty h')"
    by (simp_all add: qty_upto_def fun_eq_iff)
  ultimately show ?thesis by (simp add: tracks_def)
qed

lemma gross_traded_mset: "mset h = mset h' \<Longrightarrow> gross_traded h = gross_traded h'"
  unfolding gross_traded_def by (metis mset_map sum_mset_sum_list)

lemma mset_by_timestamp:
  assumes "distinct ts" "ts_timestamp ` set trades \<subseteq> set ts"
  shows "mset (concat (map (\<lambda>t. filter (\<lambda>x. ts_timestamp x = t) trades) ts)) = mset trades"
  using assms
proof (induction ts arbitrary: trades)
  case (Cons t ts)
  let ?rest = "filter (\<lambda>x. ts_timestamp x \<noteq> t) trades"
  have "filter (\<lambda>x. ts_timestamp x = k) ?rest = filter (\<lambda>x. ts_timestamp x = k) trades" if "k \<in> set ts" for k
    using that Cons.prems(1) by (auto intro!: filter_cong)
  then have eq: "map (\<lambda>k. filter (\<lambda>x. ts_timestamp x = k) ?rest) ts = map (\<lambda>k. filter (\<lambda>x. ts_timestamp x = k) trades) ts"
    by (intro map_cong) auto
  have "mset (concat (map (\<lambda>k. filter (\<lambda>x. ts_timestamp x = k) ?rest) ts)) = mset ?rest"
    using Cons.prems by (intro Cons.IH) auto
  then show ?case unfolding eq by (simp add: mset_filter)
qed auto

lemma add_trades_loop_tracks:
  assumes "pforeach (add_trades_at num price trades) ts self = (Inr u, self')" "tracks h self"
    "sorted_wrt (<) ts" "set ts \<subseteq> ts_timestamp ` set trades"
    "\<And>x. x \<in> set h \<Longrightarrow> ts \<noteq> [] \<Longrightarrow> ts_timestamp x \<le> hd ts"
    "gross_traded (h @ concat (map (\<lambda>t. filter (\<lambda>x. ts_timestamp x = t) trades) ts)) < 2 ^ 63"
  shows "tracks (h @ concat (map (\<lambda>t. filter (\<lambda>x. ts_timestamp x = t) trades) ts)) self'"
  using assms
proof (induction ts arbitrary: self h)
  case (Cons t ts)
  let ?b = "filter (\<lambda>x. ts_timestamp x = t) trades"
  let ?rest = "concat (map (\<lambda>t. filter (\<lambda>x. ts_timestamp x = t) trades) ts)"
  from Cons.prems(1) obtain s where s: "add_trades_at num price trades t self = (Inr (), s)"
    and r: "pforeach (add_trades_at num price trades) ts s = (Inr u, self')" by auto
  have "gross_traded (h @ ?b) + gross_traded ?rest < 2 ^ 63" using Cons.prems(6) by simp
  then have g: "gross_traded (h @ ?b) < 2 ^ 63" using gross_traded_nonneg [of ?rest] by linarith
  have "?b \<noteq> []" using Cons.prems(4) by (auto simp: filter_empty_conv)
  then have "tracks (h @ ?b) s"
    using Cons.prems(5) by (intro add_trades_at_tracks [OF s Cons.prems(2)]) (use g in auto)
  moreover have "ts_timestamp x \<le> hd ts" if "x \<in> set (h @ ?b)" "ts \<noteq> []" for x
  proof -
    have "ts_timestamp x \<le> t" using that(1) Cons.prems(5) [of x] by auto
    also have "t \<le> hd ts" using that(2) Cons.prems(3) by (cases ts) auto
    finally show ?thesis .
  qed
  ultimately have "tracks ((h @ ?b) @ ?rest) self'"
    using Cons.prems(3,4,6) by (intro Cons.IH [OF r]) auto
  then show ?case by simp
qed simp

lemma tracks_init: "tracks [] (contract_pnl_init c ts)"
  by (simp add: tracks_def book_tracks_def contract_pnl_init_def trade_pnl_as_of_def as_of_def zero_trade_pnl_def qty_upto_def)

lemma tracks_frame:
  assumes "cp_trade_pnl self' = cp_trade_pnl self" "cp_open_qtys self' = cp_open_qtys self"
    "cp_open_prices self' = cp_open_prices self" "tracks h self"
  shows "tracks h self'"
  using assms trade_pnl_as_of_cong [OF assms(1)] by (simp add: tracks_def book_tracks_def)

lemma cp_add_trades_tracks:
  assumes "cp_add_trades num price trades self = (Inr u, self')" "tracks h self" "gross_traded (h @ trades) < 2 ^ 63"
  shows "tracks (h @ trades) self'"
proof (cases "trades = []")
  case True
  then show ?thesis using assms by (simp add: cp_add_trades_def)
next
  case False
  let ?ts = "unique_timestamps trades"
  let ?all = "concat (map (\<lambda>t. filter (\<lambda>x. ts_timestamp x = t) trades) ?ts)"
  from assms(1) False obtain w where c: "validate_trade_chronology trades self = Inr w"
    and l: "pforeach (add_trades_at num price trades) ?ts (batch_start (hd ?ts) self) = (Inr u, self')"
    by (auto simp: cp_add_trades_unfold split: sum.splits)
  have "mset ?all = mset trades"
    by (rule mset_by_timestamp) (simp_all add: unique_timestamps_def)
  then have m: "mset (h @ ?all) = mset (h @ trades)" by simp
  have "tracks h (batch_start (hd ?ts) self)"
    by (rule tracks_frame [OF _ _ _ assms(2)]) (simp_all add: batch_start_def)
  moreover have "ts_timestamp x \<le> hd ?ts" if "x \<in> set h" for x
  proof -
    have "ts_timestamp x \<in> fst ` set (cp_trade_pnl self)" using assms(2) that by (simp add: tracks_def)
    moreover have "sd_ok (cp_trade_pnl self)" using assms(2) by (simp add: tracks_def)
    ultimately show ?thesis using chronology_keys [OF c False] by (auto simp del: set_unique_timestamps)
  qed
  ultimately have "tracks (h @ ?all) self'"
    using assms(3) gross_traded_mset [OF m] by (intro add_trades_loop_tracks [OF l]) (auto simp: unique_timestamps_sorted)
  then show ?thesis by (simp add: tracks_mset [OF m])
qed

section \<open>Runs of a ledger\<close>

text \<open>A call on the ledger, with the price callback as it behaves at that call.\<close>

datatype ledger_call = AddTrades price_function "trade_snapshot list" | CalcNetPnl price_function int

fun ledger_call_run :: "numerics \<Rightarrow> ledger_call \<Rightarrow> (contract_pnl, unit) prog" where
  "ledger_call_run num (AddTrades price trades) = cp_add_trades num price trades"
| "ledger_call_run num (CalcNetPnl price t) = calc_net_pnl price t"

fun trades_of_call :: "ledger_call \<Rightarrow> trade_snapshot list" where
  "trades_of_call (AddTrades price trades) = trades"
| "trades_of_call (CalcNetPnl price t) = []"

lemma ledger_run_tracks:
  assumes "pforeach (ledger_call_run num) calls self = (Inr u, self')" "tracks h self"
    "gross_traded (h @ concat (map trades_of_call calls)) < 2 ^ 63"
  shows "tracks (h @ concat (map trades_of_call calls)) self'"
  using assms
proof (induction calls arbitrary: self h)
  case (Cons c calls)
  let ?rest = "concat (map trades_of_call calls)"
  from Cons.prems(1) obtain s where s: "ledger_call_run num c self = (Inr (), s)"
    and r: "pforeach (ledger_call_run num) calls s = (Inr u, self')" by auto
  have "gross_traded (h @ trades_of_call c) + gross_traded ?rest < 2 ^ 63" using Cons.prems(3) by simp
  then have g: "gross_traded (h @ trades_of_call c) < 2 ^ 63" using gross_traded_nonneg [of ?rest] by linarith
  have "tracks (h @ trades_of_call c) s"
  proof (cases c)
    case (AddTrades price trades)
    then show ?thesis using s g Cons.prems(2) by (auto intro: cp_add_trades_tracks)
  next
    case (CalcNetPnl price t)
    then have "calc_net_pnl price t self = (Inr (), s)" using s by simp
    from tracks_frame [OF calc_net_pnl_frame(1-3) [OF this] Cons.prems(2)] show ?thesis using CalcNetPnl by simp
  qed
  from Cons.IH [OF r this] Cons.prems(3) show ?case by simp
qed simp

lemma ledger_run_ledger_ok:
  assumes "pforeach (ledger_call_run num) calls self = (r, self')" "ledger_ok self"
  shows "ledger_ok self'"
proof (rule pforeach_invariant [where I = ledger_ok, OF _ assms(2,1)])
  fix c s r s' assume "ledger_ok s" "ledger_call_run num c s = (r, s')"
  then show "ledger_ok s'"
    by (cases c) (auto intro: cp_add_trades_ledger_ok calc_net_pnl_ledger_ok)
qed

section \<open>Properties\<close>

text \<open>
  Claim C10. Positions are right at every timestamp: after any sequence of successful calls on a new
  ledger, batches of trades and valuations in any order, \<open>position(t)\<close> is the sum of the signed
  quantities traded at or before \<open>t\<close>, the quantity a valuation at \<open>t\<close> uses is that position, and the
  open lots of the FIFO book add up to the current position. The gross quantity traded has to stay
  below 2^63, the range of the kernel's integers.
\<close>

theorem ledger_position_running_total:
  assumes "pforeach (ledger_call_run num) calls (contract_pnl_init c ts) = (Inr (), self)"
    and "gross_traded (concat (map trades_of_call calls)) < 2 ^ 63"
  shows "cp_position self t = Inr (qty_upto (concat (map trades_of_call calls)) t) \<and>
    (\<exists>tp. latest_trade_pnl self t = Inr tp \<and> tp_open_qty tp = qty_upto (concat (map trades_of_call calls)) t) \<and>
    sum_list (cp_open_qtys self) = sum_list (map ts_qty (concat (map trades_of_call calls)))"
proof -
  have "tracks ([] @ concat (map trades_of_call calls)) self"
    using assms by (intro ledger_run_tracks [OF _ tracks_init]) simp_all
  then show ?thesis by (simp add: tracks_def book_tracks_def cp_position_eq latest_trade_pnl_eq)
qed

definition example_numerics :: numerics where
  "example_numerics = \<lparr>np_sum = f_sum_from (Fin 0), py_sum = f_sum_from (Fin 0)\<rparr>"

definition example_price :: price_function where
  "example_price c ts i = Inr (VNum (PyFloat (Fin 12)))"

abbreviation example_contract :: contract where
  "example_contract \<equiv> Contract 1 ''A'' DEFAULT_CG None (Fin 1) [] [] default_spec"

lemmas ledger_eval_simps =
  cp_add_trades_def add_trades_at_def calc_net_pnl_def valued_at_def contract_pnl_init_def pbind_def
  validate_trade_chronology_def unique_timestamps_def example_trade_def example_numerics_def example_price_def
  to_int64_def in_int64_def calculate_trade_pnl_eq calc_trade_pnl_fifo next_trade_pnl_def weighted_avg_price_def
  find_index_before_def sd_bisect_left_def sd_peekitem_def sd_drop_from_filter timestamp_index_def searchsorted_left_def
  latest_trade_pnl_def price_and_unrealized_def validate_price_value_def as_real_def net_of_def after_expiry_def
  f_of_int_def f_sub_def is_nan_def Let_def lots_of_def

lemma example_ledger_run:
  "fst (pforeach (ledger_call_run example_numerics) [AddTrades example_price [example_trade 10 4 6], CalcNetPnl example_price 20]
     (contract_pnl_init example_contract [10, 20])) = Inr ()"
  by (simp add: ledger_eval_simps)

theorem ledger_position_running_total_witness:
  "\<exists>self. cp_position self 15 = Inr 4 \<and> sum_list (cp_open_qtys self) = 4"
proof -
  let ?calls = "[AddTrades example_price [example_trade 10 4 6], CalcNetPnl example_price 20]"
  obtain self where r: "pforeach (ledger_call_run example_numerics) ?calls (contract_pnl_init example_contract [10, 20]) = (Inr (), self)"
    using example_ledger_run by (metis prod.collapse)
  have g: "gross_traded (concat (map trades_of_call ?calls)) < 2 ^ 63"
    by (simp add: gross_traded_def example_trade_def)
  from ledger_position_running_total [OF r g, of 15]
  have "cp_position self 15 = Inr 4 \<and> sum_list (cp_open_qtys self) = 4"
    by (simp add: qty_upto_def example_trade_def)
  then show ?thesis by blast
qed



lemma calc_net_pnl_frozen:
  assumes "after_expiry (cp_contract self) t" "\<not> is_nan (cp_final_pnl self)"
  shows "calc_net_pnl price t self = (Inr (), self)"
  using assms by (simp add: calc_net_pnl_def)

lemma add_trades_at_frozen:
  assumes "add_trades_at num price trades t self = (r, self')"
    "after_expiry (cp_contract self) t" "\<not> is_nan (cp_final_pnl self)"
  shows "cp_contract self' = cp_contract self \<and> cp_final_pnl self' = cp_final_pnl self"
  using assms
  by (auto simp: add_trades_at_def Let_def pbind_def calc_net_pnl_frozen split: prod.splits sum.splits)

text \<open>
  Once a contract has expired and its final P&L is recorded, later trades are booked but
  never reach its P&L: for a batch dated after the expiry, whatever it holds and however it ends, the
  net P&L reported for every timestamp after the expiry stays the recorded one.
\<close>

lemma final_pnl_frozen:
  assumes "cp_add_trades num price trades self = (r, self')" "\<not> is_nan (cp_final_pnl self)"
    and "\<forall>x\<in>set trades. after_expiry (cp_contract self) (ts_timestamp x)" "after_expiry (cp_contract self) t"
  shows "cp_net_pnl_at self' t = Inr (cp_final_pnl self)"
proof -
  let ?I = "\<lambda>s. cp_contract s = cp_contract self \<and> cp_final_pnl s = cp_final_pnl self"
  have "?I self'"
  proof (cases "trades = [] \<or> (\<exists>e. validate_trade_chronology trades self = Inl e)")
    case True
    then show ?thesis using cp_add_trades_noop [OF assms(1)] by simp
  next
    case False
    then have l: "pforeach (add_trades_at num price trades) (unique_timestamps trades)
        (batch_start (hd (unique_timestamps trades)) self) = (r, self')"
      using assms(1) by (cases "validate_trade_chronology trades self") (auto simp: cp_add_trades_unfold)
    show ?thesis
      by (rule pforeach_invariant [where I = ?I, OF _ _ l])
         (use add_trades_at_frozen assms(2,3) in \<open>fastforce simp: batch_start_def\<close>)+
  qed
  then show ?thesis using assms(2,4) by (simp add: cp_net_pnl_at_def)
qed

lemma final_pnl_frozen_instance:
  "let c = Contract 1 ''A'' DEFAULT_CG (Some (Datetime64 DT_ns (Some 5))) (Fin 1) [] [] default_spec;
       self = (contract_pnl_init c [10, 20])\<lparr>cp_final_pnl := Fin 0\<rparr>;
       self' = snd (cp_add_trades example_numerics example_price [example_trade 10 4 6, example_trade 20 (- 4) 9] self) in
   cp_net_pnl_at self' 20 = Inr (Fin 0)"
  unfolding Let_def
proof (rule final_pnl_frozen [OF prod.collapse [symmetric], THEN trans])
qed (simp_all add: contract_pnl_init_def is_nan_def after_expiry_def example_trade_def)

end
