(* ===== verification/Reconciliation.thy ===== *)
theory Reconciliation
  imports Fifo_Kernel Orders
begin

text \<open>
  Round-trip reconciliation (\<open>trade_reconciliation.py\<close>): executions are netted first in, first out
  against a queue per symbol, each match giving a round trip, and what stays open is reported as
  round trips without an exit. The netting step provides the contract \<open>lot_netting\<close> of the kernel, and
  the queues are shown to hold exactly the lots the native kernel keeps, and the round trips to be the
  matches, in order, whose gains the kernel adds up.
\<close>

section \<open>Data\<close>

text \<open>A working copy of a trade, with the position in the input its properties are tagged with.\<close>

record working_trade = trade_snapshot +
  wk_index :: nat

record roundtrip_trade =
  rt_contract :: contract
  rt_entry_order :: order
  rt_exit_order :: "order option"
  rt_entry_timestamp :: int
  rt_exit_timestamp :: "int option"
  rt_qty :: int
  rt_entry_price :: float64
  rt_exit_price :: float64
  rt_entry_reason :: string
  rt_exit_reason :: "string option"
  rt_entry_commission :: float64
  rt_exit_commission :: float64
  rt_entry_properties :: namespace
  rt_exit_properties :: namespace
  rt_net_pnl :: float64
  rt_index :: nat
  rt_entry_index :: "nat option"

section \<open>Netting\<close>

text \<open>\<open>abs(n / d)\<close> of two Python integers: the correctly rounded quotient.\<close>

definition int_fraction :: "int \<Rightarrow> int \<Rightarrow> float64" where
  "int_fraction n d = f_abs (rnd64 (of_int n / of_int d))"

definition matched_qty :: "int \<Rightarrow> int \<Rightarrow> int" where
  "matched_qty entry_qty trade_qty = min \<bar>entry_qty\<bar> \<bar>trade_qty\<bar> * sgn entry_qty"

definition match_trades :: "working_trade \<Rightarrow> working_trade \<Rightarrow> working_trade \<times> working_trade \<times> roundtrip_trade" where
  "match_trades entry trade =
     (let qty = matched_qty (ts_qty entry) (ts_qty trade);
          entry_fraction = int_fraction qty (ts_qty entry);
          exit_fraction = int_fraction qty (ts_qty trade);
          entry_commission = f_mul (ts_commission entry) entry_fraction;
          exit_commission = f_mul (ts_commission trade) exit_fraction;
          pnl = f_sub (f_sub (f_mul (f_mul (f_of_int qty) (f_sub (ts_price trade) (ts_price entry)))
                                    (c_multiplier (ts_contract entry)))
                             exit_commission) entry_commission in
      (entry\<lparr>ts_qty := ts_qty entry - qty, ts_commission := f_mul (ts_commission entry) (f_sub (Fin 1) entry_fraction)\<rparr>,
       trade\<lparr>ts_qty := ts_qty trade + qty, ts_commission := f_mul (ts_commission trade) (f_sub (Fin 1) exit_fraction)\<rparr>,
       \<lparr>rt_contract = ts_contract entry, rt_entry_order = ts_order entry, rt_exit_order = Some (ts_order trade),
        rt_entry_timestamp = ts_timestamp entry, rt_exit_timestamp = Some (ts_timestamp trade), rt_qty = qty,
        rt_entry_price = ts_price entry, rt_exit_price = ts_price trade, rt_entry_reason = o_reason_code (ts_order entry),
        rt_exit_reason = Some (o_reason_code (ts_order trade)), rt_entry_commission = entry_commission,
        rt_exit_commission = exit_commission, rt_entry_properties = ts_properties entry,
        rt_exit_properties = ts_properties trade, rt_net_pnl = pnl, rt_index = wk_index entry, rt_entry_index = None\<rparr>))"

text \<open>
  \<open>_net_trade\<close>: queue the trade when nothing opposes it, otherwise match it against the oldest entry,
  which leaves the queue when nothing of it remains. The matched quantity is a product with a
  NumPy integer and has to fit 64 bits; a zero quantity divides by zero.
\<close>

definition net_trade_rt :: "working_trade list \<Rightarrow> working_trade
    \<Rightarrow> (working_trade list \<times> working_trade \<times> roundtrip_trade option) res" where
  "net_trade_rt stack trade = (case stack of
      [] \<Rightarrow> Inr ([trade], trade, None)
    | entry # rest \<Rightarrow>
        if sgn (ts_qty trade) = sgn (ts_qty entry) then Inr (stack @ [trade], trade, None)
        else if \<not> in_int64 (min \<bar>ts_qty entry\<bar> \<bar>ts_qty trade\<bar>)
        then Inl (OverflowError ''Python int too large to convert to C long'')
        else if ts_qty entry = 0 \<or> ts_qty trade = 0 then Inl ZeroDivisionError
        else (case match_trades entry trade of (entry', trade', roundtrip) \<Rightarrow>
          Inr (if ts_qty entry' = 0 then rest else entry' # rest, trade', Some roundtrip)))"

lemma matched_qty_cases:
  assumes "sgn t \<noteq> sgn e" "e \<noteq> 0" "t \<noteq> 0"
  shows "matched_qty e t = (if \<bar>e\<bar> \<le> \<bar>t\<bar> then e else - t)"
  using assms by (auto simp: matched_qty_def min_def sgn_if split: if_splits)

lemma net_trade_rt_decreases:
  assumes "net_trade_rt stack trade = Inr (stack', trade', Some rt)" "ts_qty trade' \<noteq> 0"
  shows "length stack' < length stack"
  using assms
  by (auto simp: net_trade_rt_def match_trades_def Let_def matched_qty_cases split: list.splits if_splits)

text \<open>The inner loop: net one trade until it is queued or used up.\<close>

function net_until_done :: "working_trade list \<Rightarrow> working_trade \<Rightarrow> (working_trade list \<times> roundtrip_trade list) res" where
  "net_until_done stack trade = (case net_trade_rt stack trade of
      Inl e \<Rightarrow> Inl e
    | Inr (stack', trade', None) \<Rightarrow> Inr (stack', [])
    | Inr (stack', trade', Some rt) \<Rightarrow>
        if ts_qty trade' = 0 then Inr (stack', [rt])
        else rbind (net_until_done stack' trade') (\<lambda>(stack'', rts). Inr (stack'', rt # rts)))"
  by pat_completeness auto
termination
  by (relation "measure (\<lambda>(stack, _). length stack)") (auto dest: net_trade_rt_decreases)

declare net_until_done.simps [simp del]

definition open_roundtrip :: "working_trade \<Rightarrow> roundtrip_trade" where
  "open_roundtrip tr =
     \<lparr>rt_contract = ts_contract tr, rt_entry_order = ts_order tr, rt_exit_order = None,
      rt_entry_timestamp = ts_timestamp tr, rt_exit_timestamp = None, rt_qty = ts_qty tr,
      rt_entry_price = ts_price tr, rt_exit_price = NaN, rt_entry_reason = o_reason_code (ts_order tr),
      rt_exit_reason = None, rt_entry_commission = ts_commission tr, rt_exit_commission = NaN,
      rt_entry_properties = ts_properties tr, rt_exit_properties = [], rt_net_pnl = Fin 0,
      rt_index = wk_index tr, rt_entry_index = None\<rparr>"

definition working_copies :: "trade_snapshot list \<Rightarrow> working_trade list" where
  "working_copies trades = map (\<lambda>(i, tr). trade_snapshot.extend tr (working_trade.fields i)) (enumerate 0 trades)"

type_synonym stacks = "(string, working_trade list) dict"

definition stack_of :: "stacks \<Rightarrow> string \<Rightarrow> working_trade list" where
  "stack_of stacks s = (case dict_get stacks s of None \<Rightarrow> [] | Some st \<Rightarrow> st)"

definition reconcile_step :: "stacks \<times> roundtrip_trade list \<Rightarrow> working_trade \<Rightarrow> (stacks \<times> roundtrip_trade list) res" where
  "reconcile_step acc trade = (case acc of (stacks, reconciled) \<Rightarrow>
     (let symbol = c_symbol (ts_contract trade) in
      rbind (net_until_done (stack_of stacks symbol) trade) (\<lambda>(st, rts).
      Inr (dict_set symbol st stacks, reconciled @ rts))))"

definition reindex :: "roundtrip_trade list \<Rightarrow> roundtrip_trade list" where
  "reindex rts = map (\<lambda>(i, rt). rt\<lparr>rt_entry_index := Some (rt_index rt), rt_index := i\<rparr>) (enumerate 0 rts)"

definition roundtrip_trades :: "trade_snapshot list \<Rightarrow> roundtrip_trade list res" where
  "roundtrip_trades trades =
     rbind (res_fold reconcile_step ([], []) (working_copies trades)) (\<lambda>(stacks, reconciled).
     Inr (reindex (sort_key rt_index (reconciled @ map open_roundtrip (concat (dict_values stacks))))))"

section \<open>The netting contract\<close>

interpretation recon: lot_netting ts_qty "\<lambda>_. True" match_trades
proof (unfold_locales, goal_cases)
  case (1 p t p' t' g)
  then have "sgn (ts_qty t) \<noteq> sgn (ts_qty p)" "ts_qty p \<noteq> 0" "ts_qty t \<noteq> 0"
    by (auto simp: mult_less_0_iff)
  with 1(4) show ?case by (auto simp: match_trades_def Let_def matched_qty_cases)
qed simp

section \<open>Agreement with the kernel\<close>

definition lot_of :: "('a) trade_snapshot_scheme \<Rightarrow> lot" where
  "lot_of tr = \<lparr>lot_qty = ts_qty tr, lot_price = ts_price tr\<rparr>"

lemma lot_of_simps [simp]: "lot_qty (lot_of tr) = ts_qty tr" "lot_price (lot_of tr) = ts_price tr"
  by (simp_all add: lot_of_def)

lemma sign_sgn: "sign n = sgn n"
  by (simp add: sign_def sgn_if)

text \<open>One match is the kernel's netting step on the lots of the two trades.\<close>

lemma match_trades_net_trade:
  assumes "sgn (ts_qty t) \<noteq> sgn (ts_qty p)" "ts_qty p \<noteq> 0" "ts_qty t \<noteq> 0"
    "\<bar>ts_qty p\<bar> < 2 ^ 63" "\<bar>ts_qty t\<bar> < 2 ^ 63" "match_trades p t = (p', t', rt)"
  obtains g where "net_trade (lot_of p) (lot_of t) = (lot_of p', lot_of t', g)"
proof -
  have opp: "ts_qty p * ts_qty t < 0" using assms(1-3) by (auto simp: sgn_if mult_less_0_iff split: if_splits)
  have "net_trade (lot_of p) (lot_of t) = (lot_of p', lot_of t', snd (snd (net_trade (lot_of p) (lot_of t))))"
    using assms(6) net_trade_exact [of "lot_of p" "lot_of t"] opp assms(4,5)
    by (auto simp: match_trades_def Let_def matched_qty_cases [OF assms(1-3)] lot_of_def)
  then show ?thesis by (rule that)
qed

lemma match_trades_frame:
  assumes "match_trades p t = (p', t', rt)"
  shows "wk_index p' = wk_index p" "wk_index t' = wk_index t" "ts_contract p' = ts_contract p"
    "ts_contract t' = ts_contract t" "rt_exit_order rt \<noteq> None" "rt_contract rt = ts_contract p" "rt_index rt = wk_index p"
  using assms by (auto simp: match_trades_def Let_def)

lemma fifo_step:
  assumes "sign (lot_qty t) \<noteq> sign (lot_qty p)" "net_trade p t = (p', t', g)"
  shows "fifo (t # ts) (p # ps) r = fifo (if lot_qty t' = 0 then ts else t' # ts)
    (if lot_qty p' = 0 then ps else p' # ps) (f_add r g)"
  using assms by simp

text \<open>
  The matches of a FIFO run, each with its signed quantity and the prices of the entry and of the
  exit: what the kernel adds up and the reconciliation reports.
\<close>

type_synonym fill_match = "int \<times> float64 \<times> float64"

function fifo_matches :: "lot list \<Rightarrow> lot list \<Rightarrow> fill_match list" where
  "fifo_matches [] ps = []"
| "fifo_matches (t # ts) [] = fifo_matches ts [t]"
| "fifo_matches (t # ts) (p # ps) =
     (if sign (lot_qty t) = sign (lot_qty p) then fifo_matches ts (p # ps @ [t])
      else case net_trade p t of (p', t', _) \<Rightarrow>
        (lot_qty p - lot_qty p', lot_price p, lot_price t) #
        fifo_matches (if lot_qty t' = 0 then ts else t' # ts) (if lot_qty p' = 0 then ps else p' # ps))"
  by pat_completeness auto
termination
proof (relation "measure (\<lambda>(ts, ps). 2 * length ts + length ps)", goal_cases)
  case (4 t ts p ps p' rest t' g)
  then show ?case using net_trade_zero [of p t p' t' g] by auto
qed auto

definition match_gain :: "fill_match \<Rightarrow> float64" where
  "match_gain m = (case m of (q, entry_price, exit_price) \<Rightarrow> f_mul (f_of_int q) (f_sub exit_price entry_price))"

lemma fifo_matches_step:
  assumes "sign (lot_qty t) \<noteq> sign (lot_qty p)" "net_trade p t = (p', t', g)"
  shows "fifo_matches (t # ts) (p # ps) = (lot_qty p - lot_qty p', lot_price p, lot_price t) #
    fifo_matches (if lot_qty t' = 0 then ts else t' # ts) (if lot_qty p' = 0 then ps else p' # ps)"
  using assms by simp

text \<open>The amount the kernel realises is the sum of the gains of its matches, added in their order.\<close>

lemma fifo_realized:
  assumes "lots_ok ts" "lots_ok ps"
  shows "snd (fifo ts ps r) = foldl f_add r (map match_gain (fifo_matches ts ps))"
  using assms
proof (induction ts ps r rule: fifo.induct)
  case (3 t ts p ps r)
  show ?case
  proof (cases "sign (lot_qty t) = sign (lot_qty p)")
    case True
    then show ?thesis using "3.IH"(1) "3.prems" by simp
  next
    case False
    obtain p' t' g where n: "net_trade p t = (p', t', g)" by (cases "net_trade p t") auto
    have opp: "lot_qty p * lot_qty t < 0"
      using "3.prems" False sign_eq_iff [of "lot_qty t" "lot_qty p"]
      by (auto simp: mult.commute mult_less_0_iff zero_less_mult_iff)
    have b: "\<bar>lot_qty p\<bar> < 2 ^ 63" "\<bar>lot_qty t\<bar> < 2 ^ 63" using "3.prems" by auto
    have g: "g = match_gain (lot_qty p - lot_qty p', lot_price p, lot_price t)"
      using n net_trade_exact [OF b opp] by (auto simp: match_gain_def split: if_splits)
    have ok: "lots_ok (if lot_qty t' = 0 then ts else t' # ts)" "lots_ok (if lot_qty p' = 0 then ps else p' # ps)"
      using "3.prems" kernel.net_ok [OF b opp n] by auto
    show ?thesis
      using "3.IH"(2) [OF False n [symmetric] refl ok] g
      unfolding fifo_step [OF False n] fifo_matches_step [OF False n] by simp
  qed
qed auto

lemma fifo_append: "fst (fifo (ts @ us) ps r) = fst (fifo us (fst (fifo ts ps r)) r')"
proof (induction ts ps r arbitrary: r' rule: fifo.induct)
  case (1 ps r)
  show ?case
  proof (induction us ps r arbitrary: r' rule: fifo.induct)
    case (3 t ts p ps r)
    show ?case
    proof (cases "sign (lot_qty t) = sign (lot_qty p)")
      case True
      then show ?thesis using "3.IH"(1) [OF True, of r'] by simp
    next
      case False
      obtain p' t' g where n: "net_trade p t = (p', t', g)" by (cases "net_trade p t") auto
      show ?thesis using "3.IH"(2) [OF False n [symmetric] refl] unfolding append_Nil fifo.simps(1) fst_conv fifo_step [OF False n] .
    qed
  qed auto
next
  case (3 t ts p ps r)
  show ?case
  proof (cases "sign (lot_qty t) = sign (lot_qty p)")
    case True
    then show ?thesis using "3.IH"(1) [OF True] by simp
  next
    case False
    obtain p' t' g where n: "net_trade p t = (p', t', g)" by (cases "net_trade p t") auto
    have "(if lot_qty t' = 0 then ts else t' # ts) @ us = (if lot_qty t' = 0 then ts @ us else t' # ts @ us)" by simp
    then show ?thesis
      using "3.IH"(2) [OF False n [symmetric] refl] unfolding append_Cons fifo_step [OF False n] by presburger
  qed
qed simp

lemma fifo_matches_append: "fifo_matches (ts @ us) ps = fifo_matches ts ps @ fifo_matches us (fst (fifo ts ps r))"
proof (induction ts ps r rule: fifo.induct)
  case (3 t ts p ps r)
  show ?case
  proof (cases "sign (lot_qty t) = sign (lot_qty p)")
    case True
    then show ?thesis using "3.IH"(1) [OF True] by simp
  next
    case False
    obtain p' t' g where n: "net_trade p t = (p', t', g)" by (cases "net_trade p t") auto
    have "(if lot_qty t' = 0 then ts else t' # ts) @ us = (if lot_qty t' = 0 then ts @ us else t' # ts @ us)" by simp
    then show ?thesis
      using "3.IH"(2) [OF False n [symmetric] refl]
      unfolding append_Cons fifo_step [OF False n] fifo_matches_step [OF False n] by presburger
  qed
qed simp_all

definition trip_match :: "roundtrip_trade \<Rightarrow> fill_match" where
  "trip_match rt = (rt_qty rt, rt_entry_price rt, rt_exit_price rt)"

lemma match_trades_trip:
  "match_trades p t = (p', t', rt) \<Longrightarrow> trip_match rt = (ts_qty p - ts_qty p', ts_price p, ts_price t)"
  by (auto simp: match_trades_def trip_match_def Let_def)

text \<open>The inner loop returns, leaves the queue the kernel would leave and reports its matches.\<close>

lemma net_until_done_fifo:
  assumes "lots_ok (map lot_of stack)" "lots_ok [lot_of trade]"
  shows "\<exists>stack' rts. net_until_done stack trade = Inr (stack', rts) \<and> lots_ok (map lot_of stack') \<and>
    map lot_of stack' = fst (fifo [lot_of trade] (map lot_of stack) r) \<and>
    map trip_match rts = fifo_matches [lot_of trade] (map lot_of stack)"
  using assms
proof (induction stack trade arbitrary: r rule: net_until_done.induct)
  case (1 stack trade)
  show ?case
  proof (cases stack)
    case Nil
    then show ?thesis using 1(3) by (simp add: net_until_done.simps [of "[]" trade] net_trade_rt_def)
  next
    case (Cons p ps)
    show ?thesis
    proof (cases "sgn (ts_qty trade) = sgn (ts_qty p)")
      case True
      then show ?thesis using 1(2,3) Cons by (simp add: net_until_done.simps [of "p # ps" trade] net_trade_rt_def sign_sgn)
    next
      case False
      obtain p' t' rt where m: "match_trades p trade = (p', t', rt)" by (cases "match_trades p trade") auto
      have b: "ts_qty p \<noteq> 0" "ts_qty trade \<noteq> 0" "\<bar>ts_qty p\<bar> < 2 ^ 63" "\<bar>ts_qty trade\<bar> < 2 ^ 63"
        using 1(2,3) Cons by auto
      obtain g where n: "net_trade (lot_of p) (lot_of trade) = (lot_of p', lot_of t', g)"
        by (rule match_trades_net_trade [OF False b m])
      have opp: "ts_qty p * ts_qty trade < 0" using False b by (auto simp: sgn_if mult_less_0_iff split: if_splits)
      have ok: "\<bar>ts_qty p'\<bar> < 2 ^ 63" "\<bar>ts_qty t'\<bar> < 2 ^ 63"
        using kernel.net_ok [of "lot_of p" "lot_of trade"] b opp n by auto
      let ?st = "if ts_qty p' = 0 then ps else p' # ps"
      have st: "lots_ok (map lot_of ?st)" using 1(2) Cons ok by auto
      have "in_int64 (min \<bar>ts_qty p\<bar> \<bar>ts_qty trade\<bar>)" using b(3,4) by (auto simp: in_int64_def min_def)
      then have r: "net_trade_rt stack trade = Inr (?st, t', Some rt)"
        using False b m Cons by (simp add: net_trade_rt_def)
      have f: "fst (fifo [lot_of trade] (map lot_of stack) r) =
          fst (fifo (if ts_qty t' = 0 then [] else [lot_of t']) (map lot_of ?st) (f_add r g))"
        using False n Cons by (simp add: sign_sgn)
      have mm: "fifo_matches [lot_of trade] (map lot_of stack) =
          trip_match rt # fifo_matches (if ts_qty t' = 0 then [] else [lot_of t']) (map lot_of ?st)"
        using False n Cons match_trades_trip [OF m] by (simp add: sign_sgn)
      show ?thesis
      proof (cases "ts_qty t' = 0")
        case True
        then show ?thesis using r f mm st by (simp add: net_until_done.simps [of stack trade])
      next
        case False
        then have "lots_ok [lot_of t']" using ok by simp
        from 1(1) [OF r refl refl refl False st this, of "f_add r g"] obtain st' rts
          where i: "net_until_done ?st t' = Inr (st', rts)" "lots_ok (map lot_of st')"
            "map lot_of st' = fst (fifo [lot_of t'] (map lot_of ?st) (f_add r g))"
            "map trip_match rts = fifo_matches [lot_of t'] (map lot_of ?st)" by blast
        have "net_until_done stack trade = Inr (st', rt # rts)"
          using r i(1) False unfolding net_until_done.simps [of stack trade] by (simp del: if_split)
        moreover have "map lot_of st' = fst (fifo [lot_of trade] (map lot_of stack) r)"
          using f i(3) False by (simp del: if_split fifo.simps)
        moreover have "map trip_match (rt # rts) = fifo_matches [lot_of trade] (map lot_of stack)"
          using mm i(4) False by (simp del: if_split fifo_matches.simps)
        ultimately show ?thesis using i(2) by blast
      qed
    qed
  qed
qed

lemma net_until_done_frame:
  assumes "net_until_done stack trade = Inr (stack', rts)"
    "\<forall>w\<in>set stack. Q (ts_contract w) \<and> wk_index w < wk_index trade" "Q (ts_contract trade)"
    "sorted (is @ map wk_index stack)" "\<forall>i\<in>set is. i \<le> wk_index trade"
  shows "(\<forall>w\<in>set stack'. Q (ts_contract w) \<and> wk_index w \<le> wk_index trade) \<and>
    sorted (is @ map rt_index rts @ map wk_index stack') \<and> (\<forall>rt\<in>set rts. Q (rt_contract rt) \<and> rt_exit_order rt \<noteq> None \<and> rt_index rt \<le> wk_index trade)"
  using assms
proof (induction stack trade arbitrary: "is" stack' rts rule: net_until_done.induct)
  case (1 stack trade)
  from 1(2) obtain st t o' where n: "net_trade_rt stack trade = Inr (st, t, o')"
    by (auto simp: net_until_done.simps [of stack trade] split: sum.splits option.splits prod.splits)
  show ?case
  proof (cases o')
    case None
    then have "st = stack @ [trade]"
      using n by (auto simp: net_trade_rt_def split: list.splits if_splits prod.splits)
    moreover have "stack' = st" "rts = []" using 1(2) n None by (simp_all add: net_until_done.simps [of stack trade])
    ultimately show ?thesis using 1(3-6) by (auto simp: sorted_append less_imp_le)
  next
    case (Some rt)
    with n obtain p ps p' where s: "stack = p # ps" "match_trades p trade = (p', t, rt)"
      "st = (if ts_qty p' = 0 then ps else p' # ps)"
      by (auto simp: net_trade_rt_def split: list.splits if_splits prod.splits)
    note fr = match_trades_frame [OF s(2)]
    have st: "\<forall>w\<in>set st. Q (ts_contract w) \<and> wk_index w < wk_index t" "sorted ((is @ [rt_index rt]) @ map wk_index st)"
      "Q (ts_contract t)" "\<forall>i\<in>set (is @ [rt_index rt]). i \<le> wk_index t" "Q (rt_contract rt)" "rt_index rt \<le> wk_index trade"
      using 1(3-6) s(1,3) fr by (auto simp: sorted_append)
    show ?thesis
    proof (cases "ts_qty t = 0")
      case True
      then have "stack' = st" "rts = [rt]" using 1(2) n Some by (simp_all add: net_until_done.simps [of stack trade])
      then show ?thesis using st fr by (auto simp: less_imp_le)
    next
      case False
      with 1(2) n Some obtain rts' where r: "net_until_done st t = Inr (stack', rts')" "rts = rt # rts'"
        by (auto simp: net_until_done.simps [of stack trade])
      from 1(1) [OF n refl refl Some False r(1) st(1,3,2,4)] r(2) fr st(5,6) show ?thesis by auto
    qed
  qed
qed

section \<open>Whole runs\<close>

abbreviation of_symbol :: "string \<Rightarrow> ('a) trade_snapshot_scheme \<Rightarrow> bool" where
  "of_symbol s tr \<equiv> c_symbol (ts_contract tr) = s"

definition trip_of :: "string \<Rightarrow> roundtrip_trade \<Rightarrow> bool" where
  "trip_of s rt = (rt_exit_order rt \<noteq> None \<and> c_symbol (rt_contract rt) = s)"

text \<open>
  The queue of a symbol and the round trips made so far, after the trades \<open>done\<close>: the queue holds trades
  of its symbol and the kernel's lots, the round trips are the matches, and the entries of both follow
  each other in input order.
\<close>

definition stack_ok :: "working_trade list \<Rightarrow> roundtrip_trade list \<Rightarrow> string \<Rightarrow> working_trade list \<Rightarrow> bool" where
  "stack_ok done rts s st = (lots_ok (map lot_of st) \<and> sorted (map rt_index (filter (trip_of s) rts) @ map wk_index st) \<and>
     (\<forall>w\<in>set st. of_symbol s w \<and> (\<exists>d\<in>set done. wk_index w \<le> wk_index d)) \<and>
     map lot_of st = fst (fifo (map lot_of (filter (of_symbol s) done)) [] (Fin 0)) \<and>
     map trip_match (filter (trip_of s) rts) = fifo_matches (map lot_of (filter (of_symbol s) done)) [])"

definition stacks_ok :: "working_trade list \<Rightarrow> stacks \<Rightarrow> roundtrip_trade list \<Rightarrow> bool" where
  "stacks_ok done stacks rts = (distinct (dict_keys stacks) \<and> (\<forall>s. stack_ok done rts s (stack_of stacks s)) \<and>
     (\<forall>rt\<in>set rts. rt_exit_order rt \<noteq> None \<and> (\<exists>d\<in>set done. rt_index rt \<le> wk_index d)))"

lemma stack_of_set [simp]: "stack_of (dict_set s st stacks) s' = (if s' = s then st else stack_of stacks s')"
  by (simp add: stack_of_def)

lemma reconcile_step_ok:
  assumes "stacks_ok done stacks rts" "lots_ok [lot_of w]" "\<forall>d\<in>set done. wk_index d < wk_index w"
  shows "\<exists>stacks' rts'. reconcile_step (stacks, rts) w = Inr (stacks', rts') \<and> stacks_ok (done @ [w]) stacks' rts'"
proof -
  let ?s = "c_symbol (ts_contract w)"
  let ?st = "stack_of stacks ?s"
  let ?is = "map rt_index (filter (trip_of ?s) rts)"
  have ok: "stack_ok done rts s (stack_of stacks s)" for s using assms(1) by (simp add: stacks_ok_def)
  note st = ok [of ?s, unfolded stack_ok_def]
  have closed: "\<forall>rt\<in>set rts. rt_index rt \<le> wk_index w" using assms(1,3) by (fastforce simp: stacks_ok_def)
  obtain st' new where n: "net_until_done ?st w = Inr (st', new)" "lots_ok (map lot_of st')"
    "map lot_of st' = fst (fifo [lot_of w] (map lot_of ?st) (Fin 0))"
    "map trip_match new = fifo_matches [lot_of w] (map lot_of ?st)"
    using net_until_done_fifo [of ?st w] st assms(2) by blast
  have before: "\<forall>v\<in>set ?st. c_symbol (ts_contract v) = ?s \<and> wk_index v < wk_index w"
    using st assms(3) by fastforce
  have fr: "\<forall>v\<in>set st'. c_symbol (ts_contract v) = ?s \<and> wk_index v \<le> wk_index w" "sorted (?is @ map rt_index new @ map wk_index st')"
    "\<forall>rt\<in>set new. c_symbol (rt_contract rt) = ?s \<and> rt_exit_order rt \<noteq> None \<and> rt_index rt \<le> wk_index w"
    using net_until_done_frame [OF n(1), of "\<lambda>c. c_symbol c = ?s" ?is] before closed st by auto
  have new: "filter (trip_of s) new = (if s = ?s then new else [])" for s
    using fr(3) by (auto simp: trip_of_def filter_id_conv filter_empty_conv)
  have "map lot_of st' = fst (fifo (map lot_of (filter (of_symbol ?s) (done @ [w]))) [] (Fin 0))"
    using st by (simp add: n(3) fifo_append [where r' = "Fin 0"])
  moreover have "map trip_match (filter (trip_of ?s) (rts @ new)) = fifo_matches (map lot_of (filter (of_symbol ?s) (done @ [w]))) []"
    using st by (simp add: new n(4) fifo_matches_append [where r = "Fin 0"])
  ultimately have "stack_ok (done @ [w]) (rts @ new) ?s st'"
    unfolding stack_ok_def using fr(1,2) n(2) new [of ?s] by auto
  moreover have "stack_ok (done @ [w]) (rts @ new) s (stack_of stacks s)" if "s \<noteq> ?s" for s
    using ok [of s] that new [of s] by (auto simp: stack_ok_def)
  ultimately have "stacks_ok (done @ [w]) (dict_set ?s st' stacks) (rts @ new)"
    using assms(1) fr(3) by (auto simp: stacks_ok_def)
  then show ?thesis using n(1) by (auto simp: reconcile_step_def)
qed

lemma reconcile_fold_ok:
  assumes "\<forall>w\<in>set ws. lots_ok [lot_of w]" "sorted_wrt (<) (map wk_index (done @ ws))" "stacks_ok done stacks rts"
  shows "\<exists>stacks' rts'. res_fold reconcile_step (stacks, rts) ws = Inr (stacks', rts') \<and> stacks_ok (done @ ws) stacks' rts'"
  using assms
proof (induction ws arbitrary: "done" stacks rts)
  case (Cons w ws)
  obtain stacks' rts' where s: "reconcile_step (stacks, rts) w = Inr (stacks', rts')" "stacks_ok (done @ [w]) stacks' rts'"
    using reconcile_step_ok [OF Cons.prems(3), of w] Cons.prems(1,2) by (auto simp: sorted_wrt_append)
  have "\<exists>stacks'' rts''. res_fold reconcile_step (stacks', rts') ws = Inr (stacks'', rts'') \<and>
      stacks_ok ((done @ [w]) @ ws) stacks'' rts''"
    using Cons.prems(1,2) by (intro Cons.IH) (use s in auto)
  then show ?case using s(1) by simp
qed auto

lemma working_copies_facts:
  "map wk_index (working_copies trades) = [0..<length trades]"
  "map lot_of (filter (of_symbol s) (working_copies trades)) = map lot_of (filter (of_symbol s) trades)"
  "w \<in> set (working_copies trades) \<Longrightarrow> \<exists>tr\<in>set trades. ts_qty w = ts_qty tr"
proof -
  have gen: "map lot_of (filter (of_symbol s) (map (\<lambda>(i, tr). trade_snapshot.extend tr (working_trade.fields i)) (enumerate n trades)))
    = map lot_of (filter (of_symbol s) trades)" for n
    by (induction trades arbitrary: n) (auto simp: lot_of_def trade_snapshot.defs working_trade.defs)
  have idx: "map wk_index (map (\<lambda>(i, tr). trade_snapshot.extend tr (working_trade.fields i)) (enumerate n trades))
    = [n..<n + length trades]" for n
    by (induction trades arbitrary: n) (auto simp: trade_snapshot.defs working_trade.defs upt_rec)
  show "map lot_of (filter (of_symbol s) (working_copies trades)) = map lot_of (filter (of_symbol s) trades)"
    unfolding working_copies_def by (rule gen)
  show "map wk_index (working_copies trades) = [0..<length trades]"
    unfolding working_copies_def using idx [of 0] by simp
  show "w \<in> set (working_copies trades) \<Longrightarrow> \<exists>tr\<in>set trades. ts_qty w = ts_qty tr"
    by (auto simp: working_copies_def trade_snapshot.defs working_trade.defs in_set_enumerate_eq)
qed

text \<open>The entries of one symbol among the queues are the queue of that symbol.\<close>

lemma filter_concat_stacks:
  assumes "distinct (dict_keys stacks)" "\<And>s'. \<forall>w\<in>set (stack_of stacks s'). of_symbol s' w"
  shows "filter (of_symbol s) (concat (dict_values stacks)) = stack_of stacks s"
  using assms
proof (induction stacks)
  case (Cons e stacks)
  obtain k st where e: "e = (k, st)" by (cases e)
  have nk: "dict_get stacks k = None" using Cons.prems(1) e by (simp add: map_of_eq_None_iff)
  have st: "\<forall>w\<in>set st. of_symbol k w" using Cons.prems(2) [of k] e by (simp add: stack_of_def)
  have "\<forall>w\<in>set (stack_of stacks s'). of_symbol s' w" for s'
    using Cons.prems(2) [of s'] e nk by (cases "s' = k") (simp_all add: stack_of_def)
  then have IH: "filter (of_symbol s) (concat (dict_values stacks)) = stack_of stacks s"
    using Cons.prems(1) by (intro Cons.IH) (auto simp: e)
  show ?case
  proof (cases "s = k")
    case True
    then have "filter (of_symbol s) st = st" using st by (simp add: filter_id_conv)
    then show ?thesis using True IH nk e by (simp add: stack_of_def)
  next
    case False
    then have "filter (of_symbol s) st = []" using st by (auto simp: filter_empty_conv)
    then show ?thesis using False IH e by (simp add: stack_of_def)
  qed
qed (simp add: stack_of_def)

section \<open>Properties\<close>

definition open_of :: "string \<Rightarrow> roundtrip_trade \<Rightarrow> bool" where
  "open_of s rt = (rt_exit_order rt = None \<and> c_symbol (rt_contract rt) = s)"

lemma reindex_facts:
  "map trip_match (filter (trip_of s) (reindex rts)) = map trip_match (filter (trip_of s) rts)"
  "map rt_index (reindex rts) = [0..<length rts]" "map rt_entry_index (reindex rts) = map (\<lambda>rt. Some (rt_index rt)) rts"
  "map rt_qty (filter (open_of s) (reindex rts)) = map rt_qty (filter (open_of s) rts)"
  "map rt_entry_price (filter (open_of s) (reindex rts)) = map rt_entry_price (filter (open_of s) rts)"
proof -
  have "map rt_index (map (\<lambda>(i, rt). rt\<lparr>rt_entry_index := Some (rt_index rt), rt_index := i\<rparr>) (enumerate n rts)) = [n..<n + length rts]"
    "map rt_entry_index (map (\<lambda>(i, rt). rt\<lparr>rt_entry_index := Some (rt_index rt), rt_index := i\<rparr>) (enumerate n rts))
      = map (\<lambda>rt. Some (rt_index rt)) rts"
    "map rt_qty (filter (open_of s) (map (\<lambda>(i, rt). rt\<lparr>rt_entry_index := Some (rt_index rt), rt_index := i\<rparr>) (enumerate n rts)))
      = map rt_qty (filter (open_of s) rts)"
    "map rt_entry_price (filter (open_of s) (map (\<lambda>(i, rt). rt\<lparr>rt_entry_index := Some (rt_index rt), rt_index := i\<rparr>) (enumerate n rts)))
      = map rt_entry_price (filter (open_of s) rts)"
    "map trip_match (filter (trip_of s) (map (\<lambda>(i, rt). rt\<lparr>rt_entry_index := Some (rt_index rt), rt_index := i\<rparr>) (enumerate n rts)))
      = map trip_match (filter (trip_of s) rts)" for n
    by (induction rts arbitrary: n) (auto simp: open_of_def trip_of_def trip_match_def upt_rec)
  from this [of 0] show "map trip_match (filter (trip_of s) (reindex rts)) = map trip_match (filter (trip_of s) rts)"
    "map rt_index (reindex rts) = [0..<length rts]"
    "map rt_entry_index (reindex rts) = map (\<lambda>rt. Some (rt_index rt)) rts"
    "map rt_qty (filter (open_of s) (reindex rts)) = map rt_qty (filter (open_of s) rts)"
    "map rt_entry_price (filter (open_of s) (reindex rts)) = map rt_entry_price (filter (open_of s) rts)"
    by (simp_all add: reindex_def)
qed

text \<open>
  Claim C28. Reconciliation and the native P&L kernel make the same FIFO matches. For every list of
  nonzero 64-bit executions, fewer than \<open>2\<^sup>3\<^sup>1\<close> of them, reconciliation returns, its result is numbered
  consecutively in the order of the entries, and for every symbol: the round trips with an exit are, in
  order, the matches of a FIFO run over the symbol's executions from a flat position, each with the
  matched quantity, the entry's price and the exit's price; the amount the kernel realises on these
  executions is the sum of exactly these round trips' gains, in their order, times the multiplier; and
  the quantities and prices reported as open are the lots the kernel leaves.
\<close>

theorem roundtrip_trades_agrees_with_kernel:
  assumes "\<forall>x\<in>set trades. ts_qty x \<noteq> 0 \<and> \<bar>ts_qty x\<bar> < 2 ^ 63" "length trades < 2 ^ 31"
  shows "\<exists>rts. roundtrip_trades trades = Inr rts \<and> map rt_index rts = [0..<length rts] \<and>
    sorted (map (\<lambda>rt. the (rt_entry_index rt)) rts) \<and>
    (\<forall>s m. map trip_match (filter (trip_of s) rts) = fifo_matches (map lot_of (filter (of_symbol s) trades)) [] \<and>
      calc_trade_pnl [] [] (map ts_qty (filter (of_symbol s) trades)) (map ts_price (filter (of_symbol s) trades)) m
       = Inr (map rt_qty (filter (open_of s) rts), map rt_entry_price (filter (open_of s) rts),
           f_mul (foldl f_add (Fin 0) (map match_gain (map trip_match (filter (trip_of s) rts)))) m))"
proof -
  have "\<forall>w\<in>set (working_copies trades). lots_ok [lot_of w]" using working_copies_facts(3) assms(1) by fastforce
  moreover have "stacks_ok [] [] []" by (simp add: stacks_ok_def stack_ok_def stack_of_def)
  ultimately obtain stacks closed where f: "res_fold reconcile_step ([], []) (working_copies trades) = Inr (stacks, closed)"
    and ok: "stacks_ok (working_copies trades) stacks closed"
    using reconcile_fold_ok [of "working_copies trades" "[]" "[]" "[]"] working_copies_facts(1) [of trades] by auto
  have cl: "\<forall>rt\<in>set closed. rt_exit_order rt \<noteq> None" using ok by (simp add: stacks_ok_def)
  have sok: "stack_ok (working_copies trades) closed s (stack_of stacks s)" for s using ok by (simp add: stacks_ok_def)
  note st = sok [unfolded stack_ok_def working_copies_facts(2)]
  let ?all = "closed @ map open_roundtrip (concat (dict_values stacks))"
  let ?rts = "reindex (sort_key rt_index ?all)"
  have open_s: "filter (open_of s) (sort_key rt_index ?all) = map open_roundtrip (stack_of stacks s)" for s
  proof -
    have "filter (open_of s) ?all = map open_roundtrip (filter (of_symbol s) (concat (dict_values stacks)))"
      using cl by (auto simp: filter_map o_def open_of_def open_roundtrip_def filter_empty_conv)
    also have "\<dots> = map open_roundtrip (stack_of stacks s)"
      using ok st by (subst filter_concat_stacks) (auto simp: stacks_ok_def)
    finally have "filter (open_of s) (sort_key rt_index ?all) = sort_key rt_index (map open_roundtrip (stack_of stacks s))"
      by (simp only: filter_sort)
    moreover have "sorted (map rt_index (map open_roundtrip (stack_of stacks s)))"
      using st [of s] by (simp add: sorted_append o_def open_roundtrip_def)
    ultimately show ?thesis by (simp only: sorted_sort_id sort_key_id_if_sorted)
  qed
  have closed_s: "filter (trip_of s) (sort_key rt_index ?all) = filter (trip_of s) closed" for s
  proof -
    have "filter (trip_of s) ?all = filter (trip_of s) closed" by (auto simp: trip_of_def open_roundtrip_def filter_empty_conv)
    moreover have "sorted (map rt_index (filter (trip_of s) closed))" using st [of s] by (simp add: sorted_append)
    ultimately show ?thesis by (simp only: filter_sort sort_key_id_if_sorted)
  qed
  have trips: "map trip_match (filter (trip_of s) ?rts) = fifo_matches (map lot_of (filter (of_symbol s) trades)) []" for s
    using st [of s] by (simp only: reindex_facts closed_s)
  have "calc_trade_pnl [] [] (map ts_qty (filter (of_symbol s) trades)) (map ts_price (filter (of_symbol s) trades)) m
       = Inr (map rt_qty (filter (open_of s) ?rts), map rt_entry_price (filter (open_of s) ?rts),
           f_mul (foldl f_add (Fin 0) (map match_gain (map trip_match (filter (trip_of s) ?rts)))) m)" for s m
  proof -
    have nz: "lots_of (map ts_qty xs) (map ts_price xs) = map lot_of xs" if "set xs \<subseteq> set trades" for xs
      using that assms(1) by (induction xs) (auto simp: lot_of_def)
    have short: "length (filter (of_symbol s) trades) < 2 ^ 31" using assms(2) length_filter_le [of _ trades] by (rule le_less_trans [rotated])
    have "lots_ok (map lot_of (filter (of_symbol s) trades))" using assms(1) by (auto simp: lots_ok_def)
    then have "fifo (map lot_of (filter (of_symbol s) trades)) [] (Fin 0)
        = (map lot_of (stack_of stacks s), foldl f_add (Fin 0) (map match_gain (map trip_match (filter (trip_of s) ?rts))))"
      using st [of s] by (intro prod_eqI) (simp_all add: trips fifo_realized)
    then show ?thesis
      using short by (simp add: calc_trade_pnl_fifo reindex_facts(4,5) open_s open_roundtrip_def o_def nz)
  qed
  moreover have "sorted (map (\<lambda>rt. the (rt_entry_index rt)) ?rts)"
  proof -
    have "map (\<lambda>rt. the (rt_entry_index rt)) ?rts = map the (map rt_entry_index ?rts)" by simp
    then show ?thesis by (simp only: reindex_facts) (simp add: o_def)
  qed
  moreover have "roundtrip_trades trades = Inr ?rts" by (simp add: roundtrip_trades_def f)
  moreover have "map rt_index ?rts = [0..<length ?rts]"
    using reindex_facts(2) [of "sort_key rt_index ?all"] by (simp add: reindex_def)
  ultimately show ?thesis using trips by blast
qed

theorem roundtrip_trades_agrees_with_kernel_witness:
  "\<exists>rts. roundtrip_trades [example_trade 1 10 6, example_trade 2 (- 4) 9] = Inr rts
    \<and> map trip_match (filter (trip_of ''A'') rts) = [(4, Fin 6, Fin 9)]"
proof -
  have "\<forall>x\<in>set [example_trade 1 10 6, example_trade 2 (- 4) 9]. ts_qty x \<noteq> 0 \<and> \<bar>ts_qty x\<bar> < 2 ^ 63"
    "length [example_trade 1 10 6, example_trade 2 (- 4) 9] < 2 ^ 31"
    by (simp_all add: example_trade_def)
  from roundtrip_trades_agrees_with_kernel [OF this] obtain rts where
    "roundtrip_trades [example_trade 1 10 6, example_trade 2 (- 4) 9] = Inr rts"
    "map trip_match (filter (trip_of ''A'') rts) = fifo_matches (map lot_of (filter (of_symbol ''A'') [example_trade 1 10 6, example_trade 2 (- 4) 9])) []"
    by blast
  then show ?thesis by (simp add: example_trade_def sign_def net_trade_def Let_def in_int64_def)
qed

end
