(* ===== verification/Account.thy ===== *)
theory Account
  imports Contract_PNL Reconciliation
begin

text \<open>
  The account (\<open>account.py\<close>): admission and atomic booking of executions over the ledgers of several
  contracts, lazy valuation, equity, positions and the trade queries. Ledger objects are reached
  through the symbol table, so a group's list of ledgers is the list of their symbols. The lemmas
  show that a rejected or failing booking leaves the account exactly as it was, that booking keeps
  the tables consistent and every position a running total, and what equity is made of.
\<close>

section \<open>State\<close>

record account =
  ac_starting_equity :: float64
  ac_contract_groups :: "contract_group list"
  ac_timestamps :: grid
  ac_calc_timestamps :: "int list"
  ac_contracts :: "(string, contract) dict"
  ac_trades :: "trade_snapshot list"
  ac_trades_for_date :: "(string \<times> int, trade_snapshot list) dict"
  ac_pnl :: "float64 sorted_dict"
  ac_group_pnls :: "(string, string list) dict"
  ac_symbol_pnls :: "(string, contract_pnl) dict"

definition get_calc_timestamps :: "grid \<Rightarrow> int \<Rightarrow> int list" where
  "get_calc_timestamps timestamps pnl_calc_time =
     (let dates = sort (remdups (map day_of timestamps));
          bounds = map (\<lambda>d. (searchsorted_left timestamps (Some (d * ns_per_day)),
             searchsorted_right timestamps (Some (d * ns_per_day + pnl_calc_time * ns_per_minute)))) dates in
      [timestamps ! (e - 1). (s, e) \<leftarrow> bounds, s < e])"

text \<open>The \<open>contract_groups\<close> argument: \<open>None\<close> when it is not a sequence (or is a string).\<close>

definition validate_contract_groups :: "contract_group attr list option \<Rightarrow> contract_group list res" where
  "validate_contract_groups a = (case a of
      None \<Rightarrow> Inl (TypeError ''account contract_groups must be a sequence of ContractGroup objects'')
    | Some gs \<Rightarrow>
        if gs = [] then Inl (ValueError ''account requires at least one contract group'')
        else if \<not> list_all is_attr gs then Inl (TypeError ''account contract_groups must contain only ContractGroup objects'')
        else let groups = [g. Attr g \<leftarrow> gs]; names = map cg_name groups in
          if \<not> distinct names then Inl (ValueError ''account contract group names must be unique'')
          else Inr groups)"

definition validated_equity :: "pyval \<Rightarrow> float64 res" where
  "validated_equity v = (case v of
      VNum (PyInt n) \<Rightarrow> rbind (py_float n) (\<lambda>x.
        rbind (require (0 < n) (ValueError ''starting_equity must be finite and positive'')) (\<lambda>_. Inr x))
    | VNum (PyFloat x) \<Rightarrow> rbind (require (is_finite x \<and> \<not> f_le x (Fin 0)) (ValueError ''starting_equity must be finite and positive'')) (\<lambda>_. Inr x)
    | VNum (NpFloat x) \<Rightarrow> rbind (require (is_finite x \<and> \<not> f_le x (Fin 0)) (ValueError ''starting_equity must be finite and positive'')) (\<lambda>_. Inr x)
    | _ \<Rightarrow> Inl (TypeError ''starting_equity must be numeric''))"

definition validated_calc_time :: "pyval \<Rightarrow> int res" where
  "validated_calc_time v =
     rbind (case v of VNum (PyInt n) \<Rightarrow> Inr n | VNum (NpInt w) \<Rightarrow> Inr (sint w)
        | _ \<Rightarrow> Inl (TypeError ''pnl_calc_time must be an integer number of minutes'')) (\<lambda>n.
     rbind (require (0 \<le> n \<and> n < 24 * 60) (ValueError ''pnl_calc_time must be between 0 and 1439'')) (\<lambda>_. Inr n))"

definition account_init :: "contract_group attr list option \<Rightarrow> ts_array \<Rightarrow> bool \<Rightarrow> pyval \<Rightarrow> pyval \<Rightarrow> account res" where
  "account_init contract_groups timestamps price_callable starting_equity pnl_calc_time =
     rbind (validated_equity starting_equity) (\<lambda>equity.
     rbind (validated_calc_time pnl_calc_time) (\<lambda>calc_time.
     rbind (require price_callable (TypeError ''account price_function must be callable'')) (\<lambda>_.
     rbind (validate_contract_groups contract_groups) (\<lambda>groups.
     rbind (validate_timestamp_grid timestamps) (\<lambda>ts.
     Inr \<lparr>ac_starting_equity = equity, ac_contract_groups = groups, ac_timestamps = ts,
          ac_calc_timestamps = get_calc_timestamps ts calc_time, ac_contracts = [], ac_trades = [],
          ac_trades_for_date = [], ac_pnl = [], ac_group_pnls = [], ac_symbol_pnls = []\<rparr>)))))"

definition symbols :: "account \<Rightarrow> string list" where
  "symbols self = dict_keys (ac_contracts self)"

definition trade_count :: "account \<Rightarrow> nat" where
  "trade_count self = length (ac_trades self)"

definition configured :: "account \<Rightarrow> contract_group \<Rightarrow> bool" where
  "configured self g = (cg_id g \<in> cg_id ` set (ac_contract_groups self))"

definition require_configured_group :: "account \<Rightarrow> contract_group \<Rightarrow> unit res" where
  "require_configured_group self g =
     require (configured self g) (ValueError ''contract group is not configured for this account'')"

section \<open>Booking\<close>

text \<open>A default dictionary of lists: append under a key, creating the list when the key is new.\<close>

definition dict_append :: "'k \<Rightarrow> 'v \<Rightarrow> ('k, 'v list) dict \<Rightarrow> ('k, 'v list) dict" where
  "dict_append k v d = dict_set k ((case dict_get d k of None \<Rightarrow> [] | Some vs \<Rightarrow> vs) @ [v]) d"

definition account_add_contract :: "contract \<Rightarrow> (account, unit) prog" where
  "account_add_contract c self =
     (if dict_get (ac_symbol_pnls self) (c_symbol c) \<noteq> None then (Inl (ValueError ''account already contains contract symbol''), self)
      else (Inr (), self\<lparr>
        ac_symbol_pnls := dict_set (c_symbol c) (contract_pnl_init c (ac_timestamps self)) (ac_symbol_pnls self),
        ac_group_pnls := dict_append (cg_name (c_group c)) (c_symbol c) (ac_group_pnls self),
        ac_contracts := dict_set (c_symbol c) c (ac_contracts self)\<rparr>))"

text \<open>A method call on the ledger of a symbol.\<close>

definition on_symbol :: "string \<Rightarrow> (contract_pnl, 'a) prog \<Rightarrow> (account, 'a) prog" where
  "on_symbol s m self = (case dict_get (ac_symbol_pnls self) s of
      None \<Rightarrow> (Inl (KeyError s), self)
    | Some cp \<Rightarrow> (case m cp of (r, cp') \<Rightarrow> (r, self\<lparr>ac_symbol_pnls := dict_set s cp' (ac_symbol_pnls self)\<rparr>)))"

record account_trade_state =
  as_contract_states :: "(string, contract_pnl_state) dict"
  as_contracts :: "(string, contract) dict"
  as_symbol_pnls :: "string list"
  as_group_pnls :: "(string, string list) dict"
  as_trades :: "trade_snapshot list"
  as_trades_for_date :: "(string \<times> int, trade_snapshot list) dict"
  as_pnl :: "float64 sorted_dict"

definition snapshot_trade_state :: "string list \<Rightarrow> account \<Rightarrow> account_trade_state" where
  "snapshot_trade_state syms self =
     \<lparr>as_contract_states = [(s, cp_snapshot_state cp). s \<leftarrow> syms, Some cp \<leftarrow> [dict_get (ac_symbol_pnls self) s]],
      as_contracts = ac_contracts self, as_symbol_pnls = dict_keys (ac_symbol_pnls self),
      as_group_pnls = ac_group_pnls self, as_trades = ac_trades self,
      as_trades_for_date = ac_trades_for_date self, as_pnl = ac_pnl self\<rparr>"

text \<open>
  The saved symbol table holds references, so a ledger outside the batch is restored as it is now,
  and one of the batch after its saved state is put back into it.
\<close>

definition restored_ledger :: "account_trade_state \<Rightarrow> account \<Rightarrow> string \<Rightarrow> contract_pnl option" where
  "restored_ledger st self s = (case dict_get (ac_symbol_pnls self) s of
      None \<Rightarrow> None
    | Some cp \<Rightarrow> Some (case dict_get (as_contract_states st) s of None \<Rightarrow> cp | Some cs \<Rightarrow> cp_restore_state cs cp))"

definition restore_trade_state :: "account_trade_state \<Rightarrow> account \<Rightarrow> account" where
  "restore_trade_state st self = self\<lparr>
     ac_contracts := as_contracts st,
     ac_symbol_pnls := [(s, cp). s \<leftarrow> as_symbol_pnls st, Some cp \<leftarrow> [restored_ledger st self s]],
     ac_group_pnls := as_group_pnls st, ac_trades := as_trades st,
     ac_trades_for_date := as_trades_for_date st, ac_pnl := as_pnl st\<rparr>"

text \<open>
  Admission of one execution: class, references, numbers, the timestamp grid, the configured groups
  and the registration of the contract in its group, in this order.
\<close>

definition admit_trade :: "order_heap \<Rightarrow> registry \<Rightarrow> account \<Rightarrow> trade attr \<Rightarrow> trade_snapshot res" where
  "admit_trade heap reg self a = (case a of
      Foreign _ \<Rightarrow> Inl (TypeError ''account trades must be Trade objects'')
    | Attr trade \<Rightarrow>
        rbind (snapshot_trade heap trade) (\<lambda>snap.
        rbind (timestamp_index (ac_timestamps self) (Some (ts_timestamp snap))) (\<lambda>_.
        let c = ts_contract snap in
        rbind (require (configured self (c_group c)) (ValueError ''trade contract is outside the configured contract groups'')) (\<lambda>_.
        rbind (require (case get_contract (c_group c) (c_symbol c) reg of None \<Rightarrow> False | Some d \<Rightarrow> c_id d = c_id c)
            (ValueError ''trade contract is not registered in its contract group'')) (\<lambda>_.
        Inr snap)))))"

definition trades_by_contract :: "trade_snapshot list \<Rightarrow> (string, trade_snapshot list) dict" where
  "trades_by_contract trades = fold (\<lambda>tr d. dict_append (c_symbol (ts_contract tr)) tr d) trades []"

definition check_chronology :: "(string, trade_snapshot list) dict \<Rightarrow> account \<Rightarrow> unit res" where
  "check_chronology by_contract self = res_each (\<lambda>(s, ts). case dict_get (ac_symbol_pnls self) s of
      None \<Rightarrow> Inr () | Some cp \<Rightarrow> validate_trade_chronology ts cp) by_contract"

definition book_trades :: "numerics \<Rightarrow> price_function \<Rightarrow> trade_snapshot list \<Rightarrow> (string, trade_snapshot list) dict
    \<Rightarrow> (account, unit) prog" where
  "book_trades num price trades by_contract =
     pbind (pforeach (\<lambda>tr self. if dict_get (ac_contracts self) (c_symbol (ts_contract tr)) = None
          then account_add_contract (ts_contract tr) self else (Inr (), self)) trades) (\<lambda>_.
     pbind (pforeach (\<lambda>(s, ts). on_symbol s (cp_add_trades num price ts)) by_contract) (\<lambda>_.
     pmodify (\<lambda>self. self\<lparr>
       ac_trades_for_date := fold (\<lambda>tr d. dict_append (c_symbol (ts_contract tr), day_of (ts_timestamp tr)) tr d) trades
         (ac_trades_for_date self),
       ac_trades := ac_trades self @ trades,
       ac_pnl := (case trades of [] \<Rightarrow> ac_pnl self | tr # _ \<Rightarrow> sd_drop_from (ts_timestamp tr) (ac_pnl self))\<rparr>)))"

definition add_trades :: "numerics \<Rightarrow> price_function \<Rightarrow> order_heap \<Rightarrow> registry \<Rightarrow> trade attr list \<Rightarrow> (account, unit) prog" where
  "add_trades num price heap reg trades self =
     (case res_map (admit_trade heap reg self) trades of
        Inl e \<Rightarrow> (Inl e, self)
      | Inr snaps \<Rightarrow>
          (let snaps = sort_key ts_timestamp snaps; by_contract = trades_by_contract snaps in
           case check_chronology by_contract self of
             Inl e \<Rightarrow> (Inl e, self)
           | Inr _ \<Rightarrow>
               ptry (book_trades num price snaps by_contract)
                 (restore_trade_state (snapshot_trade_state (dict_keys by_contract) self)) self))"

section \<open>Valuation\<close>

definition calc_points :: "account \<Rightarrow> int \<Rightarrow> int list res" where
  "calc_points self t =
     rbind (if find_index_before (ac_pnl self) t = - 1 then Inr None
            else rbind (sd_peekitem (ac_pnl self) (find_index_before (ac_pnl self) t)) (\<lambda>e. Inr (Some (fst e)))) (\<lambda>prev.
     let mid = filter (\<lambda>c. c \<le> t) (ac_calc_timestamps self);
         mid = (case prev of None \<Rightarrow> mid | Some p \<Rightarrow> filter (\<lambda>c. p < c) mid) in
     Inr (if mid = [] \<or> last mid \<noteq> t then mid @ [t] else mid))"

primrec value_symbols :: "price_function \<Rightarrow> int \<Rightarrow> string list \<Rightarrow> float64 \<Rightarrow> (account, float64) prog" where
  "value_symbols price t [] net = preturn net"
| "value_symbols price t (s # ss) net =
     pbind (on_symbol s (pbind (calc_net_pnl price t) (\<lambda>_ cp. (cp_net_pnl_at cp t, cp)))) (\<lambda>x.
     value_symbols price t ss (f_add net x))"

definition calc_point :: "price_function \<Rightarrow> int \<Rightarrow> (account, unit) prog" where
  "calc_point price t =
     pbind (pgets (\<lambda>self. dict_keys (ac_symbol_pnls self))) (\<lambda>ss.
     pbind (value_symbols price t ss (Fin 0)) (\<lambda>net.
     pmodify (\<lambda>self. self\<lparr>ac_pnl := sd_set t net (ac_pnl self)\<rparr>)))"

definition calc :: "price_function \<Rightarrow> int \<Rightarrow> (account, unit) prog" where
  "calc price t =
     pbind (\<lambda>self. (timestamp_index (ac_timestamps self) (Some t), self)) (\<lambda>_ self.
     if t \<in> set (dict_keys (ac_pnl self)) then (Inr (), self)
     else pbind (\<lambda>self. (calc_points self t, self)) (\<lambda>points. pforeach (calc_point price) points) self)"

definition equity :: "price_function \<Rightarrow> int \<Rightarrow> (account, float64) prog" where
  "equity price t self = (case map_of (ac_pnl self) t of
      Some pnl \<Rightarrow> (Inr (f_add (ac_starting_equity self) pnl), self)
    | None \<Rightarrow> pbind (calc price t) (\<lambda>_ self. (case map_of (ac_pnl self) t of
          None \<Rightarrow> (Inl (KeyError ''pnl''), self)
        | Some pnl \<Rightarrow> (Inr (f_add (ac_starting_equity self) pnl), self))) self)"

section \<open>Queries\<close>

definition ledger_position :: "account \<Rightarrow> int \<Rightarrow> string \<Rightarrow> int res" where
  "ledger_position self t s = (case dict_get (ac_symbol_pnls self) s of None \<Rightarrow> Inl (KeyError s) | Some cp \<Rightarrow> cp_position cp t)"

definition position :: "account \<Rightarrow> contract_group \<Rightarrow> int \<Rightarrow> float64 res" where
  "position self g t =
     rbind (require_configured_group self g) (\<lambda>_.
     res_fold (\<lambda>acc s. rbind (ledger_position self t s) (\<lambda>p. rbind (py_float p) (\<lambda>x. Inr (f_add acc x)))) (Fin 0)
       (case dict_get (ac_group_pnls self) (cg_name g) of None \<Rightarrow> [] | Some ss \<Rightarrow> ss))"

definition positions :: "registry \<Rightarrow> account \<Rightarrow> contract_group \<Rightarrow> int \<Rightarrow> (contract \<times> int) list res" where
  "positions reg self g t =
     rbind (require_configured_group self g) (\<lambda>_.
     res_fold (\<lambda>acc (s, c). case dict_get (ac_symbol_pnls self) s of
         None \<Rightarrow> Inr acc
       | Some cp \<Rightarrow> rbind (cp_position cp t) (\<lambda>p. rbind (py_float p) (\<lambda>x. Inr (if isclose0 x then acc else acc @ [(c, p)])))) []
       (cg_members reg (cg_id g)))"

definition get_trades_for_date :: "account \<Rightarrow> string \<Rightarrow> int \<Rightarrow> trade_snapshot list" where
  "get_trades_for_date self s d = (case dict_get (ac_trades_for_date self) (s, d) of None \<Rightarrow> [] | Some ts \<Rightarrow> ts)"

definition in_date_range :: "datetime64 \<Rightarrow> datetime64 \<Rightarrow> trade_snapshot \<Rightarrow> bool" where
  "in_date_range s e tr = ((case dt_ns s of None \<Rightarrow> True | Some x \<Rightarrow> x \<le> ts_timestamp tr) \<and>
     (case dt_ns e of None \<Rightarrow> True | Some x \<Rightarrow> ts_timestamp tr \<le> x))"

definition checked_query :: "(string \<Rightarrow> datetime64 option) \<Rightarrow> account \<Rightarrow> contract_group option \<Rightarrow> date_arg \<Rightarrow> date_arg
    \<Rightarrow> (datetime64 \<times> datetime64) res" where
  "checked_query parse self g start_date end_date =
     rbind (case g of None \<Rightarrow> Inr () | Some g \<Rightarrow> require_configured_group self g) (\<lambda>_.
     validate_date_range parse start_date end_date)"

definition account_trades :: "(string \<Rightarrow> datetime64 option) \<Rightarrow> account \<Rightarrow> contract_group option \<Rightarrow> date_arg \<Rightarrow> date_arg
    \<Rightarrow> trade_snapshot list res" where
  "account_trades parse self g start_date end_date =
     rbind (checked_query parse self g start_date end_date) (\<lambda>(s, e).
     Inr (filter (\<lambda>tr. in_date_range s e tr \<and> (case g of None \<Rightarrow> True | Some g \<Rightarrow> cg_id (c_group (ts_contract tr)) = cg_id g))
       (ac_trades self)))"

definition account_roundtrip_trades :: "(string \<Rightarrow> datetime64 option) \<Rightarrow> account \<Rightarrow> contract_group option \<Rightarrow> date_arg \<Rightarrow> date_arg
    \<Rightarrow> roundtrip_trade list res" where
  "account_roundtrip_trades parse self g start_date end_date =
     rbind (checked_query parse self g start_date end_date) (\<lambda>(s, e).
     let trades = (case g of None \<Rightarrow> ac_trades self | Some g \<Rightarrow> filter (\<lambda>tr. (case o_contract (ts_order tr) of
             Attr c \<Rightarrow> cg_id (c_group c) = cg_id g | Foreign _ \<Rightarrow> False)) (ac_trades self)) in
     roundtrip_trades (filter (in_date_range s e) trades))"

text \<open>One row of \<open>df_account_pnl\<close>: the finite entries of every ledger added up, with the equity.\<close>

definition add_finite :: "float64 \<Rightarrow> float64 \<Rightarrow> float64" where
  "add_finite acc x = (if is_finite x then f_add acc x else acc)"

record account_row =
  ar_timestamp :: int
  ar_position :: float64
  ar_unrealized :: float64
  ar_realized :: float64
  ar_commission :: float64
  ar_fee :: float64
  ar_net_pnl :: float64
  ar_equity :: float64

definition account_row_at :: "account \<Rightarrow> string list \<Rightarrow> int \<Rightarrow> account_row res" where
  "account_row_at self ss t =
     rbind (res_fold (\<lambda>row s. case dict_get (ac_symbol_pnls self) s of None \<Rightarrow> Inl (KeyError s) | Some cp \<Rightarrow>
         rbind (cp_pnl cp t) (\<lambda>p. rbind (py_float (pr_position p)) (\<lambda>pos.
         Inr (row\<lparr>ar_position := add_finite (ar_position row) pos, ar_unrealized := add_finite (ar_unrealized row) (pr_unrealized p),
           ar_realized := add_finite (ar_realized row) (pr_realized p), ar_commission := add_finite (ar_commission row) (pr_commission p),
           ar_fee := add_finite (ar_fee row) (pr_fee p), ar_net_pnl := add_finite (ar_net_pnl row) (pr_net_pnl p)\<rparr>))))
       \<lparr>ar_timestamp = t, ar_position = Fin 0, ar_unrealized = Fin 0, ar_realized = Fin 0, ar_commission = Fin 0, ar_fee = Fin 0,
        ar_net_pnl = Fin 0, ar_equity = Fin 0\<rparr> ss) (\<lambda>row.
     Inr (row\<lparr>ar_equity := f_add (ac_starting_equity self) (ar_net_pnl row)\<rparr>))"

definition account_pnl_rows :: "registry \<Rightarrow> account \<Rightarrow> contract_group option \<Rightarrow> account_row list res" where
  "account_pnl_rows reg self g =
     rbind (case g of None \<Rightarrow> Inr (dict_keys (ac_symbol_pnls self))
       | Some g \<Rightarrow> rbind (require_configured_group self g) (\<lambda>_.
           Inr (filter (\<lambda>s. dict_get (ac_symbol_pnls self) s \<noteq> None) (dict_keys (cg_members reg (cg_id g)))))) (\<lambda>ss.
     case ac_calc_timestamps self of
       [] \<Rightarrow> Inr []
     | t0 # _ \<Rightarrow> rbind (account_row_at self [] (t0 - ns_per_day)) (\<lambda>first.
         rbind (res_map (account_row_at self ss) (ac_calc_timestamps self)) (\<lambda>rows. Inr (first # rows))))"

section \<open>Rollback\<close>

lemma cp_restore_snapshot:
  "cp_contract cp' = cp_contract cp \<Longrightarrow> cp_timestamps cp' = cp_timestamps cp \<Longrightarrow>
     cp_restore_state (cp_snapshot_state cp) cp' = cp"
  by (simp add: cp_restore_state_def cp_snapshot_state_def)

lemma calc_net_pnl_static:
  "calc_net_pnl price t cp = (r, cp') \<Longrightarrow> cp_contract cp' = cp_contract cp \<and> cp_timestamps cp' = cp_timestamps cp"
  by (simp add: calc_net_pnl_frame)

lemma add_trades_at_static:
  "add_trades_at num price trades t cp = (r, cp') \<Longrightarrow> cp_contract cp' = cp_contract cp \<and> cp_timestamps cp' = cp_timestamps cp"
  by (auto simp: add_trades_at_def Let_def pbind_def split: prod.splits sum.splits dest!: calc_net_pnl_static)

lemma cp_add_trades_static:
  assumes "cp_add_trades num price trades cp = (r, cp')"
  shows "cp_contract cp' = cp_contract cp \<and> cp_timestamps cp' = cp_timestamps cp"
proof (cases "trades = [] \<or> (\<exists>e. validate_trade_chronology trades cp = Inl e)")
  case True
  then show ?thesis using cp_add_trades_noop [OF assms] by simp
next
  case False
  then have l: "pforeach (add_trades_at num price trades) (unique_timestamps trades)
      (batch_start (hd (unique_timestamps trades)) cp) = (r, cp')"
    using assms by (cases "validate_trade_chronology trades cp") (auto simp: cp_add_trades_unfold)
  show ?thesis
    by (rule pforeach_invariant [where I = "\<lambda>s. cp_contract s = cp_contract cp \<and> cp_timestamps s = cp_timestamps cp", OF _ _ l])
       (auto simp: batch_start_def dest: add_trades_at_static)
qed

text \<open>What booking a batch over \<open>syms\<close> may change: only the ledgers of \<open>syms\<close> and new entries.\<close>

definition ledger_kept :: "string list \<Rightarrow> string \<Rightarrow> contract_pnl \<Rightarrow> contract_pnl option \<Rightarrow> bool" where
  "ledger_kept syms s cp x = (case x of None \<Rightarrow> False | Some cp' \<Rightarrow>
     cp_contract cp' = cp_contract cp \<and> cp_timestamps cp' = cp_timestamps cp \<and> (s \<notin> set syms \<longrightarrow> cp' = cp))"

definition booking_from :: "string list \<Rightarrow> account \<Rightarrow> account \<Rightarrow> bool" where
  "booking_from syms ac ac' = (
     ac_starting_equity ac' = ac_starting_equity ac \<and> ac_contract_groups ac' = ac_contract_groups ac \<and>
     ac_timestamps ac' = ac_timestamps ac \<and> ac_calc_timestamps ac' = ac_calc_timestamps ac \<and>
     (\<forall>s cp. dict_get (ac_symbol_pnls ac) s = Some cp \<longrightarrow> ledger_kept syms s cp (dict_get (ac_symbol_pnls ac') s)))"

lemma booking_from_refl: "booking_from syms ac ac"
  by (simp add: booking_from_def ledger_kept_def)

lemma booking_from_add_contract:
  assumes "booking_from syms ac s" "account_add_contract c s = (r, s')"
  shows "booking_from syms ac s'"
proof (cases "dict_get (ac_symbol_pnls s) (c_symbol c)")
  case (Some cp)
  then show ?thesis using assms by (simp add: account_add_contract_def)
next
  case None
  then have "dict_get (ac_symbol_pnls s') y = dict_get (ac_symbol_pnls s) y" if "dict_get (ac_symbol_pnls s) y \<noteq> None" for y
    using assms(2) that by (auto simp: account_add_contract_def)
  moreover have "dict_get (ac_symbol_pnls s) y \<noteq> None" if "ledger_kept syms y cp (dict_get (ac_symbol_pnls s) y)" for y cp
    using that by (auto simp: ledger_kept_def split: option.splits)
  ultimately have "ledger_kept syms y cp (dict_get (ac_symbol_pnls s') y)"
    if "dict_get (ac_symbol_pnls ac) y = Some cp" for y cp
    using assms(1) that unfolding booking_from_def by metis
  then show ?thesis using assms None by (auto simp: booking_from_def account_add_contract_def)
qed

lemma ledger_kept_static:
  assumes "ledger_kept syms x cp0 (Some cp)" "cp_contract cp' = cp_contract cp \<and> cp_timestamps cp' = cp_timestamps cp" "x \<in> set syms"
  shows "ledger_kept syms x cp0 (Some cp')"
  using assms by (simp add: ledger_kept_def)

lemma booking_from_on_symbol:
  assumes "booking_from syms ac s" "on_symbol x m s = (r, s')" "x \<in> set syms"
    "\<And>cp q cp'. m cp = (q, cp') \<Longrightarrow> cp_contract cp' = cp_contract cp \<and> cp_timestamps cp' = cp_timestamps cp"
  shows "booking_from syms ac s'"
proof (cases "dict_get (ac_symbol_pnls s) x")
  case None
  then show ?thesis using assms(1,2) by (simp add: on_symbol_def)
next
  case (Some cp)
  obtain q cp' where q: "m cp = (q, cp')" by fastforce
  then have s': "s' = s\<lparr>ac_symbol_pnls := dict_set x cp' (ac_symbol_pnls s)\<rparr>" using assms(2) Some by (simp add: on_symbol_def)
  have "ledger_kept syms y cp0 (dict_get (ac_symbol_pnls s') y)" if "dict_get (ac_symbol_pnls ac) y = Some cp0" for y cp0
  proof (cases "y = x")
    case True
    have "ledger_kept syms y cp0 (dict_get (ac_symbol_pnls s) y)" using assms(1) that unfolding booking_from_def by blast
    then have "ledger_kept syms x cp0 (Some cp)" using True Some by simp
    then show ?thesis using ledger_kept_static [OF _ assms(4) [OF q] assms(3)] True s' by simp
  next
    case False
    then show ?thesis using assms(1) that s' by (simp add: booking_from_def)
  qed
  then show ?thesis using assms(1) s' by (simp add: booking_from_def)
qed

lemma booking_from_book_trades:
  assumes "book_trades num price snaps by_contract ac = (r, ac')"
  shows "booking_from (dict_keys by_contract) ac ac'"
proof -
  let ?B = "booking_from (dict_keys by_contract) ac"
  let ?add = "\<lambda>tr self. if dict_get (ac_contracts self) (c_symbol (ts_contract tr)) = None
          then account_add_contract (ts_contract tr) self else (Inr (), self)"
  obtain r1 s1 where 1: "pforeach ?add snaps ac = (r1, s1)" by fastforce
  have s1: "?B s1"
    by (rule pforeach_invariant [where I = ?B, OF _ booking_from_refl 1])
       (auto split: if_splits intro: booking_from_add_contract)
  obtain r2 s2 where 2: "pforeach (\<lambda>(s, ts). on_symbol s (cp_add_trades num price ts)) by_contract s1 = (r2, s2)" by fastforce
  have s2: "?B s2"
  proof (rule pforeach_invariant [where I = ?B, OF _ s1 2])
    fix x s q s'
    assume x: "x \<in> set by_contract" "?B s" "(case x of (s, ts) \<Rightarrow> on_symbol s (cp_add_trades num price ts)) s = (q, s')"
    obtain y ts where y: "x = (y, ts)" by (cases x)
    have "y \<in> set (dict_keys by_contract)" using x(1) y by force
    moreover have "on_symbol y (cp_add_trades num price ts) s = (q, s')" using x(3) y by simp
    ultimately show "?B s'" using booking_from_on_symbol [OF x(2)] cp_add_trades_static by blast
  qed
  consider "ac' = s1" | "ac' = s2" | g h p where "ac' = s2\<lparr>ac_trades_for_date := g, ac_trades := h, ac_pnl := p\<rparr>"
    using assms 1 2 by (auto simp: book_trades_def pbind_def split: sum.splits)
  then show ?thesis using s1 s2 by cases (auto simp: booking_from_def)
qed

lemma snapshot_states_get:
  "dict_get (as_contract_states (snapshot_trade_state syms ac)) s =
     (if s \<in> set syms then map_option cp_snapshot_state (dict_get (ac_symbol_pnls ac) s) else None)"
proof -
  have "map_of [(s, cp_snapshot_state cp). s \<leftarrow> syms, Some cp \<leftarrow> [dict_get (ac_symbol_pnls ac) s]] s =
     (if s \<in> set syms then map_option cp_snapshot_state (dict_get (ac_symbol_pnls ac) s) else None)"
    by (induction syms) (auto split: option.splits)
  then show ?thesis by (simp add: snapshot_trade_state_def)
qed

lemma comprehension_id:
  assumes "\<And>s c. (s, c) \<in> set d \<Longrightarrow> f s = Some c"
  shows "[(s, c). s \<leftarrow> dict_keys d, Some c \<leftarrow> [f s]] = d"
  using assms
proof (induction d)
  case (Cons e d)
  have IH: "[(s, c). s \<leftarrow> dict_keys d, Some c \<leftarrow> [f s]] = d" using Cons.prems by (intro Cons.IH) simp
  have "f (fst e) = Some (snd e)" using Cons.prems [of "fst e" "snd e"] by simp
  with IH show ?case by (cases e) simp
qed simp

lemma restore_undoes_booking:
  assumes "booking_from syms ac ac'" "distinct (dict_keys (ac_symbol_pnls ac))"
  shows "restore_trade_state (snapshot_trade_state syms ac) ac' = ac"
proof -
  have "restored_ledger (snapshot_trade_state syms ac) ac' s = Some cp" if "(s, cp) \<in> set (ac_symbol_pnls ac)" for s cp
  proof -
    have g: "dict_get (ac_symbol_pnls ac) s = Some cp" using that assms(2) by simp
    then have "ledger_kept syms s cp (dict_get (ac_symbol_pnls ac') s)" using assms(1) by (simp add: booking_from_def)
    then obtain cp' where "dict_get (ac_symbol_pnls ac') s = Some cp'" "cp_contract cp' = cp_contract cp"
      "cp_timestamps cp' = cp_timestamps cp" "s \<notin> set syms \<longrightarrow> cp' = cp"
      by (auto simp: ledger_kept_def split: option.splits)
    then show ?thesis by (simp add: restored_ledger_def snapshot_states_get g cp_restore_snapshot)
  qed
  from comprehension_id [OF this]
  have "[(s, cp). s \<leftarrow> dict_keys (ac_symbol_pnls ac), Some cp \<leftarrow> [restored_ledger (snapshot_trade_state syms ac) ac' s]]
      = ac_symbol_pnls ac" .
  then show ?thesis using assms(1)
    by (simp add: restore_trade_state_def booking_from_def snapshot_trade_state_def)
qed

lemma add_trades_failure:
  assumes "add_trades num price heap reg trades ac = (Inl e, ac')" "distinct (dict_keys (ac_symbol_pnls ac))"
  shows "ac' = ac"
proof (cases "res_map (admit_trade heap reg ac) trades")
  case (Inl e)
  then show ?thesis using assms(1) by (simp add: add_trades_def)
next
  case (Inr snaps)
  let ?snaps = "sort_key ts_timestamp snaps"
  let ?by = "trades_by_contract ?snaps"
  show ?thesis
  proof (cases "check_chronology ?by ac")
    case (Inl e)
    then show ?thesis using assms(1) \<open>res_map _ _ = _\<close> by (simp add: add_trades_def Let_def)
  next
    case (Inr u)
    obtain r s where b: "book_trades num price ?snaps ?by ac = (r, s)" by fastforce
    then have "ac' = restore_trade_state (snapshot_trade_state (dict_keys ?by) ac) s"
      using assms(1) \<open>res_map _ _ = _\<close> Inr by (auto simp: add_trades_def Let_def ptry_def split: sum.splits)
    then show ?thesis using restore_undoes_booking [OF booking_from_book_trades [OF b] assms(2)] by simp
  qed
qed

section \<open>Consistency and running totals\<close>

definition symbol_ok :: "account \<Rightarrow> string \<Rightarrow> contract_pnl \<Rightarrow> bool" where
  "symbol_ok self s cp = (c_symbol (cp_contract cp) = s \<and> cp_timestamps cp = ac_timestamps self \<and> ledger_ok cp)"

definition account_wf :: "account \<Rightarrow> bool" where
  "account_wf self = (distinct (dict_keys (ac_symbol_pnls self)) \<and>
     set (dict_keys (ac_contracts self)) = set (dict_keys (ac_symbol_pnls self)) \<and>
     (\<forall>s cp. dict_get (ac_symbol_pnls self) s = Some cp \<longrightarrow> symbol_ok self s cp) \<and> sd_ok (ac_pnl self))"

text \<open>The ledger of a symbol has recorded the trades \<open>h\<close>; a symbol without a ledger has none.\<close>

definition symbol_tracks :: "trade_snapshot list \<Rightarrow> contract_pnl option \<Rightarrow> bool" where
  "symbol_tracks h x = (case x of None \<Rightarrow> h = [] | Some cp \<Rightarrow> tracks h cp)"

definition account_tracks :: "account \<Rightarrow> bool" where
  "account_tracks self = (\<forall>s. symbol_tracks (filter (of_symbol s) (ac_trades self)) (dict_get (ac_symbol_pnls self) s))"

lemma dict_get_None_keys: "dict_get d k = None \<longleftrightarrow> k \<notin> set (dict_keys d)"
  by (simp add: map_of_eq_None_iff)

lemma account_add_contract_ok:
  assumes "account_add_contract c self = (r, self')" "account_wf self"
    "\<And>s. symbol_tracks (h s) (dict_get (ac_symbol_pnls self) s)"
  shows "account_wf self' \<and> ac_trades self' = ac_trades self \<and> ac_pnl self' = ac_pnl self \<and>
    (\<forall>s. symbol_tracks (h s) (dict_get (ac_symbol_pnls self') s))"
proof (cases "dict_get (ac_symbol_pnls self) (c_symbol c)")
  case (Some cp)
  then show ?thesis using assms by (simp add: account_add_contract_def)
next
  case None
  let ?cp = "contract_pnl_init c (ac_timestamps self)"
  have s': "self' = self\<lparr>ac_symbol_pnls := dict_set (c_symbol c) ?cp (ac_symbol_pnls self),
      ac_group_pnls := dict_append (cg_name (c_group c)) (c_symbol c) (ac_group_pnls self),
      ac_contracts := dict_set (c_symbol c) c (ac_contracts self)\<rparr>"
    using assms(1) None by (simp add: account_add_contract_def)
  have "symbol_ok self (c_symbol c) ?cp"
    by (simp add: symbol_ok_def ledger_ok_init) (simp add: contract_pnl_init_def)
  then have "account_wf self'" using assms(2) by (auto simp: account_wf_def s' dict_keys_set symbol_ok_def)
  moreover have "h (c_symbol c) = []" using assms(3) [of "c_symbol c"] None by (simp add: symbol_tracks_def)
  then have "symbol_tracks (h s) (dict_get (ac_symbol_pnls self') s)" for s
    using assms(3) [of s] tracks_init by (simp add: s' symbol_tracks_def)
  ultimately show ?thesis by (simp add: s')
qed

lemma add_contracts_ok:
  assumes "pforeach (\<lambda>tr self. if dict_get (ac_contracts self) (c_symbol (ts_contract tr)) = None
          then account_add_contract (ts_contract tr) self else (Inr (), self)) snaps self = (r, self')"
    "account_wf self" "\<And>s. symbol_tracks (h s) (dict_get (ac_symbol_pnls self) s)"
  shows "account_wf self' \<and> ac_trades self' = ac_trades self \<and> ac_pnl self' = ac_pnl self \<and>
    (\<forall>s. symbol_tracks (h s) (dict_get (ac_symbol_pnls self') s))"
proof (rule pforeach_invariant [where I = "\<lambda>x. account_wf x \<and> ac_trades x = ac_trades self \<and> ac_pnl x = ac_pnl self \<and>
      (\<forall>s. symbol_tracks (h s) (dict_get (ac_symbol_pnls x) s))", OF _ _ assms(1)], goal_cases)
  case (1 tr x q x')
  show ?case
  proof (cases "dict_get (ac_contracts x) (c_symbol (ts_contract tr)) = None")
    case True
    then have "account_add_contract (ts_contract tr) x = (q, x')" using 1(3) by simp
    from account_add_contract_ok [OF this, of h] 1(2) show ?thesis by simp
  next
    case False
    then show ?thesis using 1 by auto
  qed
qed (use assms in simp)

lemma account_wf_set_ledger:
  assumes "account_wf self" "dict_get (ac_symbol_pnls self) s = Some cp" "symbol_ok self s cp'"
  shows "account_wf (self\<lparr>ac_symbol_pnls := dict_set s cp' (ac_symbol_pnls self)\<rparr>)"
proof -
  have "s \<in> set (dict_keys (ac_symbol_pnls self))" using assms(2) by (metis dict_get_None_keys option.distinct(1))
  then show ?thesis using assms(1,3) by (auto simp: account_wf_def dict_keys_set symbol_ok_def)
qed

lemma on_symbol_Inr:
  assumes "on_symbol s m self = (Inr x, self')"
  obtains cp cp' where "dict_get (ac_symbol_pnls self) s = Some cp" "m cp = (Inr x, cp')"
    "self' = self\<lparr>ac_symbol_pnls := dict_set s cp' (ac_symbol_pnls self)\<rparr>"
  using assms by (auto simp: on_symbol_def split: option.splits prod.splits)

lemma on_symbol_wf:
  assumes "on_symbol s m self = (r, self')" "account_wf self"
    "\<And>cp q cp'. m cp = (q, cp') \<Longrightarrow> ledger_ok cp \<Longrightarrow>
       ledger_ok cp' \<and> cp_contract cp' = cp_contract cp \<and> cp_timestamps cp' = cp_timestamps cp"
  shows "account_wf self'"
proof (cases "dict_get (ac_symbol_pnls self) s")
  case None
  then show ?thesis using assms(1,2) by (simp add: on_symbol_def)
next
  case (Some cp)
  obtain q cp' where q: "m cp = (q, cp')" by fastforce
  have ok: "symbol_ok self s cp" using assms(2) Some by (simp add: account_wf_def)
  then have "symbol_ok self s cp'" using assms(3) [OF q] by (simp add: symbol_ok_def)
  from account_wf_set_ledger [OF assms(2) Some this] show ?thesis using assms(1) Some q by (auto simp: on_symbol_def)
qed

lemma gross_traded_filter: "gross_traded (filter P h) \<le> gross_traded h"
  by (induction h) (auto simp: gross_traded_def)

lemma book_ledgers_ok:
  assumes "pforeach (\<lambda>(s, ts). on_symbol s (cp_add_trades num price ts)) by_contract self = (Inr u, self')"
    "account_wf self" "\<And>s. symbol_tracks (h s) (dict_get (ac_symbol_pnls self) s)" "distinct (dict_keys by_contract)"
    "\<And>s ts. (s, ts) \<in> set by_contract \<Longrightarrow> gross_traded (h s @ ts) < 2 ^ 63"
  shows "account_wf self' \<and> ac_trades self' = ac_trades self \<and> ac_pnl self' = ac_pnl self \<and>
    (\<forall>s. symbol_tracks (h s @ (case dict_get by_contract s of None \<Rightarrow> [] | Some ts \<Rightarrow> ts)) (dict_get (ac_symbol_pnls self') s))"
  using assms
proof (induction by_contract arbitrary: self h)
  case (Cons e rest)
  obtain s ts where e: "e = (s, ts)" by (cases e)
  from Cons.prems(1) e obtain s1 where 1: "on_symbol s (cp_add_trades num price ts) self = (Inr (), s1)"
    and r: "pforeach (\<lambda>(s, ts). on_symbol s (cp_add_trades num price ts)) rest s1 = (Inr u, self')" by auto
  from 1 obtain cp cp' where cp: "dict_get (ac_symbol_pnls self) s = Some cp" "cp_add_trades num price ts cp = (Inr (), cp')"
    and s1: "s1 = self\<lparr>ac_symbol_pnls := dict_set s cp' (ac_symbol_pnls self)\<rparr>" by (rule on_symbol_Inr)
  have wf: "account_wf s1"
    by (rule on_symbol_wf [OF 1 Cons.prems(2)]) (auto dest: cp_add_trades_static cp_add_trades_ledger_ok)
  have "tracks (h s) cp" using Cons.prems(3) [of s] cp(1) by (simp add: symbol_tracks_def)
  then have "tracks (h s @ ts) cp'" using cp_add_trades_tracks [OF cp(2)] Cons.prems(5) [of s ts] e by simp
  then have t: "symbol_tracks ((h(s := h s @ ts)) x) (dict_get (ac_symbol_pnls s1) x)" for x
    using Cons.prems(3) [of x] by (simp add: s1 symbol_tracks_def)
  have nd: "dict_get rest s = None" "distinct (dict_keys rest)"
    using Cons.prems(4) e by (auto simp: map_of_eq_None_iff)
  have "gross_traded ((h(s := h s @ ts)) x @ us) < 2 ^ 63" if "(x, us) \<in> set rest" for x us
  proof -
    have "x \<noteq> s" using that nd(1) by (force simp: map_of_eq_None_iff)
    then show ?thesis using Cons.prems(5) [of x us] that by simp
  qed
  note IH = Cons.IH [OF r wf t nd(2) this]
  have "symbol_tracks (h x @ (case dict_get (e # rest) x of None \<Rightarrow> [] | Some ts \<Rightarrow> ts)) (dict_get (ac_symbol_pnls self') x)" for x
    using conjunct2 [OF conjunct2 [OF conjunct2 [OF IH]], rule_format, of x] e nd(1) by (cases "x = s") simp_all
  then show ?case using IH by (simp add: s1)
qed simp

lemma book_ledgers_trades:
  assumes "pforeach (\<lambda>(s, ts). on_symbol s (cp_add_trades num price ts)) by_contract self = (r, self')"
  shows "ac_trades self' = ac_trades self"
proof (rule pforeach_invariant [where I = "\<lambda>x. ac_trades x = ac_trades self", OF _ refl assms])
  fix e x q x' assume "ac_trades x = ac_trades self" "(case e of (s, ts) \<Rightarrow> on_symbol s (cp_add_trades num price ts)) x = (q, x')"
  then show "ac_trades x' = ac_trades self" by (cases e) (auto simp: on_symbol_def split: option.splits prod.splits)
qed

lemma trades_by_contract_get:
  "distinct (dict_keys (trades_by_contract trades)) \<and>
   dict_get (trades_by_contract trades) s =
     (let ts = filter (of_symbol s) trades in if ts = [] then None else Some ts)"
proof (induction trades rule: rev_induct)
  case (snoc tr trades)
  have "trades_by_contract (trades @ [tr]) = dict_append (c_symbol (ts_contract tr)) tr (trades_by_contract trades)"
    by (simp add: trades_by_contract_def)
  then show ?case using snoc by (auto simp: dict_append_def Let_def)
qed (simp add: trades_by_contract_def)

lemma filter_by_contract:
  "(case dict_get (trades_by_contract trades) s of None \<Rightarrow> [] | Some ts \<Rightarrow> ts) = filter (of_symbol s) trades"
  using trades_by_contract_get [of trades s] by (auto simp: Let_def split: if_splits)

lemma add_trades_success:
  assumes "add_trades num price heap reg trades self = (Inr u, self')" "account_wf self" "account_tracks self"
    "gross_traded (ac_trades self') < 2 ^ 63"
  obtains snaps where "res_map (admit_trade heap reg self) trades = Inr snaps"
    "ac_trades self' = ac_trades self @ sort_key ts_timestamp snaps" "account_wf self'" "account_tracks self'"
proof -
  from assms(1) obtain snaps0 where a: "res_map (admit_trade heap reg self) trades = Inr snaps0"
    by (cases "res_map (admit_trade heap reg self) trades") (auto simp: add_trades_def)
  define snaps by_contract where "snaps = sort_key ts_timestamp snaps0" and "by_contract = trades_by_contract snaps"
  from assms(1) a have b: "book_trades num price snaps by_contract self = (Inr u, self')"
    by (auto simp: add_trades_def Let_def ptry_def snaps_def by_contract_def split: sum.splits prod.splits)
  let ?add = "\<lambda>tr self. if dict_get (ac_contracts self) (c_symbol (ts_contract tr)) = None
          then account_add_contract (ts_contract tr) self else (Inr (), self)"
  let ?h = "\<lambda>s. filter (of_symbol s) (ac_trades self)"
  let ?dates = "\<lambda>x. fold (\<lambda>tr d. dict_append (c_symbol (ts_contract tr), day_of (ts_timestamp tr)) tr d) snaps (ac_trades_for_date x)"
  let ?pnl = "\<lambda>x. case snaps of [] \<Rightarrow> ac_pnl x | tr # _ \<Rightarrow> sd_drop_from (ts_timestamp tr) (ac_pnl x)"
  from b obtain s1 s2 where 1: "pforeach ?add snaps self = (Inr (), s1)"
    and 2: "pforeach (\<lambda>(s, ts). on_symbol s (cp_add_trades num price ts)) by_contract s1 = (Inr (), s2)"
    and self': "self' = s2\<lparr>ac_trades_for_date := ?dates s2, ac_trades := ac_trades s2 @ snaps, ac_pnl := ?pnl s2\<rparr>"
    unfolding book_trades_def by auto
  have pnl: "sd_ok (ac_pnl s2) \<Longrightarrow> sd_ok (?pnl s2)"
    by (simp add: sd_drop_from_filter sd_ok_filter split: list.splits)
  have s1: "account_wf s1 \<and> ac_trades s1 = ac_trades self \<and> ac_pnl s1 = ac_pnl self \<and>
      (\<forall>s. symbol_tracks (?h s) (dict_get (ac_symbol_pnls s1) s))"
    by (rule add_contracts_ok [OF 1 assms(2)]) (use assms(3) in \<open>simp add: account_tracks_def\<close>)
  have tr': "ac_trades self' = ac_trades self @ snaps"
    using self' s1 book_ledgers_trades [OF 2] by auto
  have g: "gross_traded (?h s @ ts) < 2 ^ 63" if "(s, ts) \<in> set by_contract" for s ts
  proof -
    have "distinct (dict_keys by_contract)" using trades_by_contract_get [of snaps s] by (simp add: by_contract_def)
    then have "dict_get by_contract s = Some ts" using that by simp
    then have "ts = filter (of_symbol s) snaps"
      using trades_by_contract_get [of snaps s] by (auto simp: by_contract_def Let_def split: if_splits)
    then have "?h s @ ts = filter (of_symbol s) (ac_trades self')" using tr' by simp
    then show ?thesis using gross_traded_filter [of "of_symbol s" "ac_trades self'"] assms(4) by simp
  qed
  have s2: "account_wf s2 \<and> ac_trades s2 = ac_trades s1 \<and> ac_pnl s2 = ac_pnl s1 \<and>
      (\<forall>s. symbol_tracks (?h s @ (case dict_get by_contract s of None \<Rightarrow> [] | Some ts \<Rightarrow> ts)) (dict_get (ac_symbol_pnls s2) s))"
    by (rule book_ledgers_ok [OF 2]) (use s1 g trades_by_contract_get [of snaps] in \<open>auto simp: by_contract_def\<close>)
  have "account_wf self'" using self' s2 pnl by (auto simp: account_wf_def symbol_ok_def)
  moreover have "account_tracks self'"
    using s2 self' tr' by (auto simp: account_tracks_def by_contract_def filter_by_contract)
  ultimately show ?thesis using that [OF a] tr' by (simp add: snaps_def)
qed

text \<open>Valuation changes no trade record and keeps the tables consistent, even when a price callback raises.\<close>

lemma value_cp_ok:
  assumes "pbind (calc_net_pnl price t) (\<lambda>_ cp. (cp_net_pnl_at cp t, cp)) cp = (q, cp')"
  shows "(ledger_ok cp \<longrightarrow> ledger_ok cp') \<and> cp_contract cp' = cp_contract cp \<and> cp_timestamps cp' = cp_timestamps cp \<and>
    (tracks h cp \<longrightarrow> tracks h cp')"
proof -
  have c: "calc_net_pnl price t cp = (fst (calc_net_pnl price t cp), cp')"
    using assms by (auto simp: pbind_def split: prod.splits sum.splits)
  show ?thesis
    using calc_net_pnl_ledger_ok [OF c] calc_net_pnl_static [OF c] tracks_frame [OF calc_net_pnl_frame(1-3) [OF c]] by blast
qed

definition valued_from :: "account \<Rightarrow> account \<Rightarrow> bool" where
  "valued_from ac ac' = (ac_trades ac' = ac_trades ac \<and> ac_starting_equity ac' = ac_starting_equity ac \<and>
     (account_wf ac \<longrightarrow> account_wf ac') \<and> (account_tracks ac \<longrightarrow> account_tracks ac'))"

lemma valued_from_refl [simp]: "valued_from ac ac" by (simp add: valued_from_def)

lemma valued_from_trans: "valued_from a b \<Longrightarrow> valued_from b c \<Longrightarrow> valued_from a c"
  by (simp add: valued_from_def)

lemma valued_from_on_symbol:
  assumes "on_symbol s (pbind (calc_net_pnl price t) (\<lambda>_ cp. (cp_net_pnl_at cp t, cp))) ac = (r, ac')"
  shows "valued_from ac ac' \<and> dict_keys (ac_symbol_pnls ac') = dict_keys (ac_symbol_pnls ac) \<and> ac_pnl ac' = ac_pnl ac"
proof (cases "dict_get (ac_symbol_pnls ac) s")
  case None
  then show ?thesis using assms by (simp add: on_symbol_def)
next
  case (Some cp)
  obtain q cp' where q: "pbind (calc_net_pnl price t) (\<lambda>_ cp. (cp_net_pnl_at cp t, cp)) cp = (q, cp')" by fastforce
  then have ac': "ac' = ac\<lparr>ac_symbol_pnls := dict_set s cp' (ac_symbol_pnls ac)\<rparr>" using assms Some by (simp add: on_symbol_def)
  have "account_wf ac \<Longrightarrow> account_wf ac'" by (rule on_symbol_wf [OF assms]) (use value_cp_ok in blast)+
  moreover have "account_tracks ac \<Longrightarrow> account_tracks ac'"
  proof -
    assume a: "account_tracks ac"
    have "tracks (filter (of_symbol s) (ac_trades ac)) cp" using a [unfolded account_tracks_def, rule_format, of s] Some
      by (simp add: symbol_tracks_def)
    then have "tracks (filter (of_symbol s) (ac_trades ac)) cp'" using value_cp_ok [OF q] by blast
    then show "account_tracks ac'" using a by (simp add: account_tracks_def ac' symbol_tracks_def)
  qed
  moreover have "s \<in> set (dict_keys (ac_symbol_pnls ac))" using Some by (metis dict_get_None_keys option.distinct(1))
  ultimately show ?thesis by (auto simp: valued_from_def ac' dict_keys_set)
qed

lemma valued_from_value_symbols:
  "value_symbols price t ss net ac = (r, ac') \<Longrightarrow> valued_from ac ac' \<and> ac_pnl ac' = ac_pnl ac"
proof (induction ss arbitrary: net ac)
  case (Cons s ss)
  obtain q s1 where 1: "on_symbol s (pbind (calc_net_pnl price t) (\<lambda>_ cp. (cp_net_pnl_at cp t, cp))) ac = (q, s1)" by fastforce
  note v = valued_from_on_symbol [OF 1]
  show ?case
  proof (cases q)
    case (Inl e)
    then show ?thesis using Cons.prems 1 v by (simp add: pbind_def [of "on_symbol s _"])
  next
    case (Inr x)
    then have "value_symbols price t ss (f_add net x) s1 = (r, ac')"
      using Cons.prems 1 by (simp add: pbind_def [of "on_symbol s _"])
    from Cons.IH [OF this] v show ?thesis by (auto intro: valued_from_trans)
  qed
qed simp

lemma value_symbols_keys:
  "value_symbols price t ss net ac = (r, ac') \<Longrightarrow> dict_keys (ac_symbol_pnls ac') = dict_keys (ac_symbol_pnls ac)"
proof (induction ss arbitrary: net ac)
  case (Cons s ss)
  obtain q s1 where 1: "on_symbol s (pbind (calc_net_pnl price t) (\<lambda>_ cp. (cp_net_pnl_at cp t, cp))) ac = (q, s1)" by fastforce
  show ?case using Cons 1 valued_from_on_symbol [OF 1] by (cases q) (auto simp: pbind_def [of "on_symbol s _"])
qed simp

lemma valued_from_calc_point:
  assumes "calc_point price t ac = (r, ac')"
  shows "valued_from ac ac'"
proof -
  obtain q s1 where 1: "value_symbols price t (dict_keys (ac_symbol_pnls ac)) (Fin 0) ac = (q, s1)" by fastforce
  note v = valued_from_value_symbols [OF 1]
  have "ac' = s1 \<or> (\<exists>x. ac' = s1\<lparr>ac_pnl := sd_set t x (ac_pnl s1)\<rparr>)"
    using assms 1 by (cases q) (auto simp: calc_point_def pbind_def)
  moreover have "valued_from s1 (s1\<lparr>ac_pnl := sd_set t x (ac_pnl s1)\<rparr>)" for x
    by (auto simp: valued_from_def account_wf_def account_tracks_def symbol_ok_def)
  ultimately show ?thesis using v valued_from_trans by blast
qed

lemma valued_from_calc:
  assumes "calc price t ac = (r, ac')"
  shows "valued_from ac ac'"
proof -
  consider "ac' = ac" | pts where "pforeach (calc_point price) pts ac = (r, ac')"
    using assms by (auto simp: calc_def pbind_def split: sum.splits if_splits)
  then show ?thesis
  proof cases
    case (2 pts)
    show ?thesis
      by (rule pforeach_invariant [where I = "valued_from ac", OF _ valued_from_refl 2])
         (auto intro: valued_from_trans valued_from_calc_point)
  qed simp
qed

lemma valued_from_equity:
  assumes "equity price t ac = (r, ac')"
  shows "valued_from ac ac'"
proof (cases "map_of (ac_pnl ac) t")
  case None
  then have "ac' = snd (calc price t ac)"
    using assms by (auto simp: equity_def pbind_def split: prod.splits sum.splits option.splits)
  then show ?thesis using valued_from_calc [OF prod.collapse [symmetric]] by simp
next
  case (Some p)
  then show ?thesis using assms by (simp add: equity_def)
qed

lemma valued_from_snd: "valued_from ac (snd (calc price t ac))" "valued_from ac (snd (equity price t ac))"
  by (rule valued_from_calc [OF prod.collapse [symmetric]], rule valued_from_equity [OF prod.collapse [symmetric]])

section \<open>Sequences of calls\<close>

text \<open>A call on the account by a client that goes on after an exception.\<close>

datatype account_call =
    CallAddTrades price_function order_heap registry "trade attr list"
  | CallCalc price_function int
  | CallEquity price_function int

fun account_call_run :: "numerics \<Rightarrow> account_call \<Rightarrow> account \<Rightarrow> account" where
  "account_call_run num (CallAddTrades price heap reg trades) ac = snd (add_trades num price heap reg trades ac)"
| "account_call_run num (CallCalc price t) ac = snd (calc price t ac)"
| "account_call_run num (CallEquity price t) ac = snd (equity price t ac)"

lemma add_contracts_trades:
  "pforeach (\<lambda>tr self. if dict_get (ac_contracts self) (c_symbol (ts_contract tr)) = None
          then account_add_contract (ts_contract tr) self else (Inr (), self)) snaps ac = (r, ac') \<Longrightarrow>
     ac_trades ac' = ac_trades ac"
  by (erule pforeach_invariant [where I = "\<lambda>x. ac_trades x = ac_trades ac", rotated 2])
     (auto simp: account_add_contract_def split: if_splits)

lemma add_trades_appends:
  assumes "add_trades num price heap reg trades ac = (r, ac')" "distinct (dict_keys (ac_symbol_pnls ac))"
  shows "\<exists>xs. ac_trades ac' = ac_trades ac @ xs"
proof (cases r)
  case (Inl e)
  then show ?thesis using add_trades_failure [OF assms(1) [unfolded Inl] assms(2)] by simp
next
  case (Inr u)
  then obtain snaps where "book_trades num price snaps (trades_by_contract snaps) ac = (Inr u, ac')"
    using assms(1) by (auto simp: add_trades_def Let_def ptry_def split: sum.splits prod.splits)
  then show ?thesis by (auto simp: book_trades_def dest!: add_contracts_trades book_ledgers_trades)
qed

lemma account_call_step:
  assumes "account_wf ac" "account_tracks ac" "gross_traded (ac_trades (account_call_run num c ac)) < 2 ^ 63"
  shows "account_wf (account_call_run num c ac) \<and> account_tracks (account_call_run num c ac)"
proof (cases c)
  case (CallAddTrades price heap reg trades)
  obtain r ac' where a: "add_trades num price heap reg trades ac = (r, ac')" by fastforce
  then have ac': "account_call_run num c ac = ac'" using CallAddTrades by simp
  show ?thesis
  proof (cases r)
    case (Inl e)
    have "distinct (dict_keys (ac_symbol_pnls ac))" using assms(1) by (simp add: account_wf_def)
    from add_trades_failure [OF a [unfolded Inl] this] show ?thesis using assms(1,2) by (simp add: ac')
  next
    case (Inr u)
    have "gross_traded (ac_trades ac') < 2 ^ 63" using assms(3) by (simp add: ac')
    from add_trades_success [OF a [unfolded Inr] assms(1,2) this] show ?thesis unfolding ac' by blast
  qed
next
  case (CallCalc price t)
  then show ?thesis using valued_from_snd(1) [of ac price t] assms by (simp add: valued_from_def)
next
  case (CallEquity price t)
  then show ?thesis using valued_from_snd(2) [of ac price t] assms by (simp add: valued_from_def)
qed

lemma account_call_appends:
  assumes "distinct (dict_keys (ac_symbol_pnls ac))"
  shows "\<exists>xs. ac_trades (account_call_run num c ac) = ac_trades ac @ xs"
proof (cases c)
  case (CallAddTrades price heap reg trades)
  then show ?thesis using add_trades_appends [OF prod.collapse [symmetric] assms] by simp
next
  case (CallCalc price t)
  then show ?thesis using valued_from_snd(1) [of ac price t] by (simp add: valued_from_def)
next
  case (CallEquity price t)
  then show ?thesis using valued_from_snd(2) [of ac price t] by (simp add: valued_from_def)
qed

text \<open>Symbols stay unique whatever the calls do.\<close>

lemma on_symbol_distinct:
  "on_symbol s m ac = (r, ac') \<Longrightarrow> distinct (dict_keys (ac_symbol_pnls ac)) \<Longrightarrow> distinct (dict_keys (ac_symbol_pnls ac'))"
  by (auto simp: on_symbol_def split: option.splits prod.splits)

lemma value_symbols_distinct:
  "value_symbols price t ss net ac = (r, ac') \<Longrightarrow> distinct (dict_keys (ac_symbol_pnls ac)) \<Longrightarrow>
     distinct (dict_keys (ac_symbol_pnls ac'))"
proof (induction ss arbitrary: net ac)
  case (Cons s ss)
  obtain q s1 where 1: "on_symbol s (pbind (calc_net_pnl price t) (\<lambda>_ cp. (cp_net_pnl_at cp t, cp))) ac = (q, s1)" by fastforce
  note d = on_symbol_distinct [OF 1 Cons.prems(2)]
  show ?case using Cons 1 d by (cases q) (auto simp: pbind_def [of "on_symbol s _"])
qed simp

lemma calc_distinct:
  assumes "calc price t ac = (r, ac')" "distinct (dict_keys (ac_symbol_pnls ac))"
  shows "distinct (dict_keys (ac_symbol_pnls ac'))"
proof -
  let ?D = "\<lambda>ac. distinct (dict_keys (ac_symbol_pnls ac))"
  have point: "?D s'" if p: "calc_point price u s = (q, s')" and d: "?D s" for u s q s'
  proof -
    obtain w s1 where 1: "value_symbols price u (dict_keys (ac_symbol_pnls s)) (Fin 0) s = (w, s1)" by fastforce
    have "ac_symbol_pnls s' = ac_symbol_pnls s1" using p 1 by (cases w) (auto simp: calc_point_def pbind_def)
    then show ?thesis using value_symbols_distinct [OF 1 d] by simp
  qed
  consider "ac' = ac" | pts where "pforeach (calc_point price) pts ac = (r, ac')"
    using assms(1) by (auto simp: calc_def pbind_def split: sum.splits if_splits)
  then show ?thesis
  proof cases
    case (2 pts)
    show ?thesis by (rule pforeach_invariant [where I = ?D, OF _ assms(2) 2]) (use point in blast)
  qed (use assms(2) in simp)
qed

lemma book_trades_distinct:
  assumes "book_trades num price snaps by_contract ac = (r, ac')" "distinct (dict_keys (ac_symbol_pnls ac))"
  shows "distinct (dict_keys (ac_symbol_pnls ac'))"
proof -
  let ?D = "\<lambda>ac. distinct (dict_keys (ac_symbol_pnls ac))"
  let ?add = "\<lambda>tr self. if dict_get (ac_contracts self) (c_symbol (ts_contract tr)) = None
          then account_add_contract (ts_contract tr) self else (Inr (), self)"
  obtain r1 s1 where 1: "pforeach ?add snaps ac = (r1, s1)" by fastforce
  have s1: "?D s1"
    by (rule pforeach_invariant [where I = ?D, OF _ assms(2) 1]) (auto simp: account_add_contract_def split: if_splits)
  obtain r2 s2 where 2: "pforeach (\<lambda>(s, ts). on_symbol s (cp_add_trades num price ts)) by_contract s1 = (r2, s2)" by fastforce
  have s2: "?D s2"
  proof (rule pforeach_invariant [where I = ?D, OF _ s1 2])
    fix e x q x' assume "?D x" "(case e of (s, ts) \<Rightarrow> on_symbol s (cp_add_trades num price ts)) x = (q, x')"
    then show "?D x'" by (cases e) (auto intro: on_symbol_distinct)
  qed
  show ?thesis using assms(1) 1 2 s1 s2 by (cases r1; cases r2) (auto simp: book_trades_def pbind_def)
qed

lemma account_run_distinct:
  assumes "distinct (dict_keys (ac_symbol_pnls ac))"
  shows "distinct (dict_keys (ac_symbol_pnls (fold (account_call_run num) calls ac)))"
  using assms
proof (induction calls rule: rev_induct)
  case (snoc c calls)
  let ?ac = "fold (account_call_run num) calls ac"
  note IH = snoc.IH [OF snoc.prems]
  show ?case
  proof (cases c)
    case (CallAddTrades price heap reg trades)
    obtain r ac' where a: "add_trades num price heap reg trades ?ac = (r, ac')" by fastforce
    show ?thesis
    proof (cases r)
      case (Inl e)
      then show ?thesis using add_trades_failure [OF a [unfolded Inl] IH] IH CallAddTrades a by simp
    next
      case (Inr u)
      then obtain snaps where "book_trades num price snaps (trades_by_contract snaps) ?ac = (Inr u, ac')"
        using a by (auto simp: add_trades_def Let_def ptry_def split: sum.splits prod.splits)
      from book_trades_distinct [OF this IH] CallAddTrades a show ?thesis by simp
    qed
  next
    case (CallCalc price t)
    then show ?thesis using calc_distinct [OF prod.collapse [symmetric] IH] by simp
  next
    case (CallEquity price t)
    have "snd (equity price t ?ac) = ?ac \<or> snd (equity price t ?ac) = snd (calc price t ?ac)"
      by (auto simp: equity_def pbind_def split: prod.splits sum.splits option.splits)
    then show ?thesis using calc_distinct [OF prod.collapse [symmetric] IH] IH CallEquity by auto
  qed
qed simp

lemma account_run_ok:
  assumes "account_wf ac" "account_tracks ac" "gross_traded (ac_trades (fold (account_call_run num) calls ac)) < 2 ^ 63"
  shows "account_wf (fold (account_call_run num) calls ac) \<and> account_tracks (fold (account_call_run num) calls ac)"
  using assms(3)
proof (induction calls rule: rev_induct)
  case (snoc c calls)
  let ?ac = "fold (account_call_run num) calls ac"
  have step: "fold (account_call_run num) (calls @ [c]) ac = account_call_run num c ?ac" by simp
  show ?case
  proof (cases "gross_traded (ac_trades ?ac) < 2 ^ 63")
    case True
    then show ?thesis using snoc account_call_step [of ?ac num c] by (simp add: step)
  next
    case False
    have "distinct (dict_keys (ac_symbol_pnls ?ac))" by (rule account_run_distinct) (use assms(1) in \<open>simp add: account_wf_def\<close>)
    from account_call_appends [OF this, of num c] obtain xs where "ac_trades (account_call_run num c ?ac) = ac_trades ?ac @ xs" by blast
    then have "gross_traded (ac_trades ?ac) \<le> gross_traded (ac_trades (account_call_run num c ?ac))" by simp
    then show ?thesis using snoc.prems False by (simp add: step)
  qed
qed (use assms in simp)

lemma account_init_ok:
  assumes "account_init gs ts pc eq ct = Inr ac"
  shows "account_wf ac \<and> account_tracks ac \<and> ac_trades ac = []"
  using assms by (auto simp: account_init_def account_wf_def account_tracks_def symbol_tracks_def)

section \<open>Properties\<close>

text \<open>
  What a successful booking of the batch leaves: the contracts not yet known opened in the order of
  their first trades, each with a ledger and an entry in its group; every ledger the result of
  recording its symbol's trades; the trades appended to the trade list and to the lists of their
  symbols and dates; the cached P&L dropped from the first trade on; nothing else changed.
\<close>

primrec new_contracts :: "string list \<Rightarrow> trade_snapshot list \<Rightarrow> contract list" where
  "new_contracts known [] = []"
| "new_contracts known (tr # trs) = (let s = c_symbol (ts_contract tr) in
     if s \<in> set known then new_contracts known trs else ts_contract tr # new_contracts (known @ [s]) trs)"

definition opened_with :: "contract list \<Rightarrow> account \<Rightarrow> account" where
  "opened_with cs self = self\<lparr>
     ac_symbol_pnls := ac_symbol_pnls self @ map (\<lambda>c. (c_symbol c, contract_pnl_init c (ac_timestamps self))) cs,
     ac_group_pnls := fold (\<lambda>c. dict_append (cg_name (c_group c)) (c_symbol c)) cs (ac_group_pnls self),
     ac_contracts := ac_contracts self @ map (\<lambda>c. (c_symbol c, c)) cs\<rparr>"

definition batch_booked :: "numerics \<Rightarrow> price_function \<Rightarrow> trade_snapshot list \<Rightarrow> account \<Rightarrow> account \<Rightarrow> bool" where
  "batch_booked num price batch ac ac' = (\<exists>opened. opened = opened_with (new_contracts (dict_keys (ac_contracts ac)) batch) ac \<and>
     ac_trades ac' = ac_trades ac @ batch \<and>
     (\<forall>s d. get_trades_for_date ac' s d = get_trades_for_date ac s d @
        filter (\<lambda>tr. of_symbol s tr \<and> day_of (ts_timestamp tr) = d) batch) \<and>
     ac_pnl ac' = filter (\<lambda>e. \<forall>tr\<in>set batch. fst e < ts_timestamp tr) (ac_pnl ac) \<and>
     ac_contracts ac' = ac_contracts opened \<and> ac_group_pnls ac' = ac_group_pnls opened \<and>
     dict_keys (ac_symbol_pnls ac') = dict_keys (ac_symbol_pnls opened) \<and>
     (\<forall>s cp. dict_get (ac_symbol_pnls opened) s = Some cp \<longrightarrow> (\<exists>cp'.
        cp_add_trades num price (filter (of_symbol s) batch) cp = (Inr (), cp') \<and> dict_get (ac_symbol_pnls ac') s = Some cp')) \<and>
     ac_starting_equity ac' = ac_starting_equity ac \<and> ac_contract_groups ac' = ac_contract_groups ac \<and>
     ac_timestamps ac' = ac_timestamps ac \<and> ac_calc_timestamps ac' = ac_calc_timestamps ac)"

lemma add_contracts_opened:
  assumes "set (dict_keys (ac_contracts self)) = set (dict_keys (ac_symbol_pnls self))"
  shows "pforeach (\<lambda>tr self. if dict_get (ac_contracts self) (c_symbol (ts_contract tr)) = None
          then account_add_contract (ts_contract tr) self else (Inr (), self)) snaps self
     = (Inr (), opened_with (new_contracts (dict_keys (ac_contracts self)) snaps) self)"
  using assms
proof (induction snaps arbitrary: self)
  case Nil
  then show ?case by (simp add: opened_with_def preturn_def)
next
  case (Cons tr snaps)
  let ?c = "ts_contract tr"
  let ?add = "\<lambda>tr self. if dict_get (ac_contracts self) (c_symbol (ts_contract tr)) = None
          then account_add_contract (ts_contract tr) self else (Inr (), self)"
  show ?case
  proof (cases "c_symbol ?c \<in> set (dict_keys (ac_contracts self))")
    case True
    then obtain c where c: "dict_get (ac_contracts self) (c_symbol ?c) = Some c"
      by (metis dict_get_None_keys option.exhaust)
    have "pforeach ?add (tr # snaps) self = pforeach ?add snaps self" by (simp add: pbind_def c)
    then show ?thesis using Cons.IH [OF Cons.prems] True by (simp only: new_contracts.simps Let_def if_True)
  next
    case False
    then have n: "dict_get (ac_contracts self) (c_symbol ?c) = None" "dict_get (ac_symbol_pnls self) (c_symbol ?c) = None"
      using Cons.prems by (simp_all only: dict_get_None_keys not_not refl) auto
    let ?self = "opened_with [?c] self"
    have a: "account_add_contract ?c self = (Inr (), ?self)"
      using n by (simp add: account_add_contract_def opened_with_def dict_values_set_new)
    have "set (dict_keys (ac_contracts ?self)) = set (dict_keys (ac_symbol_pnls ?self))"
      using Cons.prems by (simp add: opened_with_def)
    note IH = Cons.IH [OF this]
    have "pforeach ?add (tr # snaps) self = pforeach ?add snaps ?self" by (simp add: pbind_def n(1) a)
    also have "\<dots> = (Inr (), opened_with (new_contracts (dict_keys (ac_contracts ?self)) snaps) ?self)" by (rule IH)
    also have "\<dots> = (Inr (), opened_with (new_contracts (dict_keys (ac_contracts self)) (tr # snaps)) self)"
      using False by (simp add: Let_def) (simp add: opened_with_def)
    finally show ?thesis .
  qed
qed

lemma book_ledgers_each:
  assumes "pforeach (\<lambda>(s, ts). on_symbol s (cp_add_trades num price ts)) by_contract self = (Inr u, self')"
    "distinct (dict_keys by_contract)"
  shows "self' = self\<lparr>ac_symbol_pnls := ac_symbol_pnls self'\<rparr> \<and> dict_keys (ac_symbol_pnls self') = dict_keys (ac_symbol_pnls self) \<and>
    (\<forall>s cp. dict_get (ac_symbol_pnls self) s = Some cp \<longrightarrow> (\<exists>cp'.
       cp_add_trades num price (case dict_get by_contract s of None \<Rightarrow> [] | Some ts \<Rightarrow> ts) cp = (Inr (), cp') \<and>
       dict_get (ac_symbol_pnls self') s = Some cp'))"
  using assms
proof (induction by_contract arbitrary: self)
  case Nil
  then show ?case by (simp add: cp_add_trades_def)
next
  case (Cons e rest)
  obtain x ts where e: "e = (x, ts)" by (cases e)
  from Cons.prems(1) e obtain s1 where 1: "on_symbol x (cp_add_trades num price ts) self = (Inr (), s1)"
    and r: "pforeach (\<lambda>(s, ts). on_symbol s (cp_add_trades num price ts)) rest s1 = (Inr u, self')" by auto
  from 1 obtain cp cp' where cp: "dict_get (ac_symbol_pnls self) x = Some cp" "cp_add_trades num price ts cp = (Inr (), cp')"
    and s1: "s1 = self\<lparr>ac_symbol_pnls := dict_set x cp' (ac_symbol_pnls self)\<rparr>" by (rule on_symbol_Inr)
  have key: "x \<in> set (dict_keys (ac_symbol_pnls self))" using cp(1) by (metis dict_get_None_keys option.distinct(1))
  have nx: "dict_get rest x = None" "distinct (dict_keys rest)" using Cons.prems(2) e by (auto simp: map_of_eq_None_iff)
  note IH = Cons.IH [OF r nx(2)]
  have "\<exists>c'. cp_add_trades num price (case dict_get (e # rest) s of None \<Rightarrow> [] | Some ts \<Rightarrow> ts) c = (Inr (), c') \<and>
      dict_get (ac_symbol_pnls self') s = Some c'" if "dict_get (ac_symbol_pnls self) s = Some c" for s c
  proof (cases "s = x")
    case True
    have "dict_get (ac_symbol_pnls s1) x = Some cp'" by (simp add: s1)
    with IH nx(1) have "dict_get (ac_symbol_pnls self') x = Some cp'" by (fastforce simp: cp_add_trades_def)
    then show ?thesis using True that cp e by simp
  next
    case False
    then have "dict_get (ac_symbol_pnls s1) s = Some c" using that by (simp add: s1)
    then show ?thesis using IH False e by simp
  qed
  moreover have "dict_keys (ac_symbol_pnls self') = dict_keys (ac_symbol_pnls self)"
    using IH key by (simp add: s1 dict_keys_set)
  moreover have "self' = self\<lparr>ac_symbol_pnls := ac_symbol_pnls self'\<rparr>" using conjunct1 [OF IH] by (simp add: s1)
  ultimately show ?case by blast
qed

lemma dict_append_fold:
  "(case dict_get (fold (\<lambda>tr d. dict_append (k tr) tr d) xs d0) key of None \<Rightarrow> [] | Some ts \<Rightarrow> ts)
     = (case dict_get d0 key of None \<Rightarrow> [] | Some ts \<Rightarrow> ts) @ filter (\<lambda>tr. k tr = key) xs"
  by (induction xs arbitrary: d0) (auto simp: dict_append_def)

lemma book_trades_booked:
  assumes "book_trades num price batch (trades_by_contract batch) ac = (Inr u, ac')" "account_wf ac"
    "sorted (map ts_timestamp batch)"
  shows "batch_booked num price batch ac ac'"
proof -
  let ?opened = "opened_with (new_contracts (dict_keys (ac_contracts ac)) batch) ac"
  have "pforeach (\<lambda>tr self. if dict_get (ac_contracts self) (c_symbol (ts_contract tr)) = None
          then account_add_contract (ts_contract tr) self else (Inr (), self)) batch ac = (Inr (), ?opened)"
    using assms(2) by (intro add_contracts_opened) (simp add: account_wf_def)
  with assms(1) obtain s2 where
    2: "pforeach (\<lambda>(s, ts). on_symbol s (cp_add_trades num price ts)) (trades_by_contract batch) ?opened = (Inr (), s2)"
    and ac': "ac' = s2\<lparr>ac_trades_for_date := fold (\<lambda>tr d. dict_append (c_symbol (ts_contract tr), day_of (ts_timestamp tr)) tr d) batch
        (ac_trades_for_date s2), ac_trades := ac_trades s2 @ batch,
        ac_pnl := (case batch of [] \<Rightarrow> ac_pnl s2 | tr # _ \<Rightarrow> sd_drop_from (ts_timestamp tr) (ac_pnl s2))\<rparr>"
    unfolding book_trades_def by auto
  have "distinct (dict_keys (trades_by_contract batch))" using trades_by_contract_get [of batch] by blast
  note each = book_ledgers_each [OF 2 this, unfolded filter_by_contract]
  have frame: "ac_trades s2 = ac_trades ac" "ac_trades_for_date s2 = ac_trades_for_date ac" "ac_pnl s2 = ac_pnl ac"
    "ac_contracts s2 = ac_contracts ?opened" "ac_group_pnls s2 = ac_group_pnls ?opened"
    "ac_starting_equity s2 = ac_starting_equity ac" "ac_contract_groups s2 = ac_contract_groups ac"
    "ac_timestamps s2 = ac_timestamps ac" "ac_calc_timestamps s2 = ac_calc_timestamps ac"
    by (subst conjunct1 [OF each], simp add: opened_with_def)+
  have dates: "get_trades_for_date ac' s d = get_trades_for_date ac s d @
      filter (\<lambda>tr. of_symbol s tr \<and> day_of (ts_timestamp tr) = d) batch" for s d
    using dict_append_fold [where k = "\<lambda>tr. (c_symbol (ts_contract tr), day_of (ts_timestamp tr))" and key = "(s, d)"]
    by (simp add: get_trades_for_date_def ac' frame)
  have pnl: "ac_pnl ac' = filter (\<lambda>e. \<forall>tr\<in>set batch. fst e < ts_timestamp tr) (ac_pnl ac)"
    using assms(3) by (cases batch) (auto simp: ac' frame sd_drop_from_filter intro!: filter_cong)
  show ?thesis
    unfolding batch_booked_def
    by (rule exI [of _ ?opened]) (use each dates pnl in \<open>simp add: ac' frame\<close>)
qed

text \<open>
  Claim C12. Booking is atomic, on every well-formed account (\<open>account_wf\<close>, which the operations keep). When
  \<open>add_trades\<close> returns, every trade was admitted and the whole batch,
  in order of timestamp, is booked in every table of the account (\<open>batch_booked\<close>). When it raises, at
  admission, in the chronology check or in the middle of the batch because a price callback failed or
  was interrupted, the account is exactly the account it was before, ledgers, trade lists, tables and
  cached P&L included.
\<close>

theorem add_trades_atomic:
  assumes "account_wf ac" "add_trades num price heap reg trades ac = (r, ac')"
  shows "case r of
      Inl e \<Rightarrow> ac' = ac
    | Inr _ \<Rightarrow> \<exists>snaps. res_map (admit_trade heap reg ac) trades = Inr snaps \<and>
        batch_booked num price (sort_key ts_timestamp snaps) ac ac'"
proof (cases r)
  case (Inl e)
  then show ?thesis using add_trades_failure assms by (simp add: account_wf_def)
next
  case (Inr u)
  with assms(2) obtain snaps where a: "res_map (admit_trade heap reg ac) trades = Inr snaps"
    and b: "book_trades num price (sort_key ts_timestamp snaps) (trades_by_contract (sort_key ts_timestamp snaps)) ac = (Inr u, ac')"
    by (auto simp: add_trades_def Let_def ptry_def split: sum.splits prod.splits)
  show ?thesis using Inr a book_trades_booked [OF b assms(1)] by simp
qed

text \<open>
  Over any sequence of bookings, valuations and equity queries on a new account, some of
  which may raise, the tables stay consistent and every ledger reports at every timestamp the sum
  of the quantities of the booked executions of its symbol up to that timestamp.
\<close>

lemma account_positions_running_total:
  assumes "account_init groups timestamps callable_price starting_equity calc_time = Inr ac0"
    and "gross_traded (ac_trades (fold (account_call_run num) calls ac0)) < 2 ^ 63"
  shows "let ac = fold (account_call_run num) calls ac0 in account_wf ac \<and>
    (\<forall>s cp t. dict_get (ac_symbol_pnls ac) s = Some cp \<longrightarrow>
       cp_position cp t = Inr (qty_upto (filter (of_symbol s) (ac_trades ac)) t))"
proof -
  let ?ac = "fold (account_call_run num) calls ac0"
  have ok: "account_wf ?ac" "account_tracks ?ac"
    using account_run_ok [OF _ _ assms(2)] account_init_ok [OF assms(1)] by blast+
  have "cp_position cp t = Inr (qty_upto (filter (of_symbol s) (ac_trades ?ac)) t)"
    if "dict_get (ac_symbol_pnls ?ac) s = Some cp" for s cp t
  proof -
    have "tracks (filter (of_symbol s) (ac_trades ?ac)) cp"
      using ok(2) [unfolded account_tracks_def, rule_format, of s] that by (simp add: symbol_tracks_def)
    then show ?thesis by (simp add: tracks_def cp_position_eq)
  qed
  then show ?thesis using ok(1) by (simp add: Let_def)
qed

definition example_heap :: order_heap where
  "example_heap i = example_order 4"

definition example_registry :: registry where
  "example_registry = initial_registry\<lparr>cg_members := (\<lambda>_. [])(0 := [(''A'', example_contract)])\<rparr>"

definition example_raw_trade :: trade where
  "example_raw_trade = \<lparr>t_contract = Attr example_contract, t_order = Attr 0, t_timestamp = VDt (Datetime64 DT_ns (Some 10)),
     t_qty = VNum (PyInt 4), t_price = VNum (PyFloat (Fin 6)), t_fee = VNum (PyFloat (Fin 0)),
     t_commission = VNum (PyFloat (Fin 0)), t_properties = []\<rparr>"

definition example_account :: account where
  "example_account = \<lparr>ac_starting_equity = Fin 1000, ac_contract_groups = [DEFAULT_CG], ac_timestamps = [10, 20],
     ac_calc_timestamps = [20], ac_contracts = [], ac_trades = [], ac_trades_for_date = [], ac_pnl = [],
     ac_group_pnls = [], ac_symbol_pnls = []\<rparr>"

lemma example_account_init:
  "account_init (Some [Attr DEFAULT_CG]) (NdArray 1 True [Some 10, Some 20]) True (VNum (PyInt 1000)) (VNum (PyInt 900))
     = Inr example_account"
  by (simp add: account_init_def example_account_def validated_equity_def py_float_def validated_calc_time_def
      validate_contract_groups_def validate_timestamp_grid_def diffs_positive_def get_calc_timestamps_def day_of_def
      ns_per_day_def ns_per_minute_def searchsorted_left_def searchsorted_right_def Let_def)

lemma example_admit: "admit_trade example_heap example_registry example_account (Attr example_raw_trade) = Inr (example_trade 10 4 6)"
  by (simp add: admit_trade_def snapshot_trade_def validate_trade_references_def example_raw_trade_def example_heap_def
      example_order_def contract_is_def as_datetime_def isnat_def dt_lt_def validated_trade_numbers_def finite_real_def
      as_real_def example_account_def timestamp_index_def searchsorted_left_def configured_def DEFAULT_CG_def
      get_contract_def example_registry_def initial_registry_def example_trade_def Let_def)

lemmas account_eval_simps = add_trades_def example_admit check_chronology_def trades_by_contract_def dict_append_def
  book_trades_def account_add_contract_def on_symbol_def ptry_def ledger_eval_simps

text \<open>A price callback that raises.\<close>

definition failing_price :: price_function where
  "failing_price c ts i = Inl (UserException 7)"

lemma example_booking_fails:
  "fst (add_trades example_numerics failing_price example_heap example_registry [Attr example_raw_trade] example_account)
     = Inl (UserException 7)"
  by (simp add: account_eval_simps) (simp add: account_eval_simps example_account_def failing_price_def)

lemma example_account_wf: "account_wf example_account"
  using account_init_ok [OF example_account_init] by blast

lemma example_booking_returns:
  "fst (add_trades example_numerics example_price example_heap example_registry [Attr example_raw_trade] example_account) = Inr ()"
  by (simp add: account_eval_simps) (simp add: account_eval_simps example_account_def)

lemma example_admission:
  "res_map (admit_trade example_heap example_registry example_account) [Attr example_raw_trade] = Inr [example_trade 10 4 6]"
  by (simp add: account_eval_simps)

theorem add_trades_atomic_witness:
  "add_trades example_numerics failing_price example_heap example_registry [Attr example_raw_trade] example_account
     = (Inl (UserException 7), example_account) \<and>
   batch_booked example_numerics example_price [example_trade 10 4 6] example_account
     (snd (add_trades example_numerics example_price example_heap example_registry [Attr example_raw_trade] example_account))"
proof
  obtain ac' where a: "add_trades example_numerics failing_price example_heap example_registry [Attr example_raw_trade] example_account
      = (Inl (UserException 7), ac')"
    using example_booking_fails by (metis prod.collapse)
  from add_trades_atomic [OF example_account_wf a] a
  show "add_trades example_numerics failing_price example_heap example_registry [Attr example_raw_trade] example_account
     = (Inl (UserException 7), example_account)" by simp
  obtain ac'' where b: "add_trades example_numerics example_price example_heap example_registry [Attr example_raw_trade] example_account
      = (Inr (), ac'')"
    using example_booking_returns by (metis prod.collapse)
  from add_trades_atomic [OF example_account_wf b] example_admission b
  show "batch_booked example_numerics example_price [example_trade 10 4 6] example_account
     (snd (add_trades example_numerics example_price example_heap example_registry [Attr example_raw_trade] example_account))" by simp
qed

lemma example_booking:
  "ac_trades (snd (add_trades example_numerics example_price example_heap example_registry [Attr example_raw_trade] example_account))
     = [example_trade 10 4 6]"
  by (simp add: account_eval_simps) (simp add: account_eval_simps example_account_def)

lemma example_ledger:
  "dict_get (ac_symbol_pnls (snd (add_trades example_numerics example_price example_heap example_registry
      [Attr example_raw_trade] example_account))) ''A'' \<noteq> None"
  by (simp add: account_eval_simps) (simp add: account_eval_simps example_account_def)

lemma account_positions_running_total_instance:
  "\<exists>cp. dict_get (ac_symbol_pnls (snd (add_trades example_numerics example_price example_heap example_registry
      [Attr example_raw_trade] example_account))) ''A'' = Some cp \<and> cp_position cp 15 = Inr 4"
proof -
  have "gross_traded (ac_trades (fold (account_call_run example_numerics)
      [CallAddTrades example_price example_heap example_registry [Attr example_raw_trade]] example_account)) < 2 ^ 63"
    by (simp add: example_booking) (simp add: gross_traded_def example_trade_def)
  from account_positions_running_total [OF example_account_init this] example_ledger
  show ?thesis by (auto simp: example_booking Let_def) (simp_all add: qty_upto_def example_trade_def)
qed

section \<open>Equity\<close>

lemma on_symbol_value_Inr:
  assumes "on_symbol s (pbind (calc_net_pnl price t) (\<lambda>_ cp. (cp_net_pnl_at cp t, cp))) ac = (Inr x, ac')"
  shows "\<exists>cp. dict_get (ac_symbol_pnls ac') s = Some cp \<and> cp_net_pnl_at cp t = Inr x"
    "\<And>y. y \<noteq> s \<Longrightarrow> dict_get (ac_symbol_pnls ac') y = dict_get (ac_symbol_pnls ac) y"
  using assms by (auto elim!: on_symbol_Inr)

lemma value_symbols_sum:
  assumes "value_symbols price t ss net ac = (Inr x, ac')" "distinct ss"
  shows "\<exists>xs. list_all2 (\<lambda>s y. \<exists>cp. dict_get (ac_symbol_pnls ac') s = Some cp \<and> cp_net_pnl_at cp t = Inr y) ss xs \<and>
    x = foldl f_add net xs \<and> (\<forall>y. y \<notin> set ss \<longrightarrow> dict_get (ac_symbol_pnls ac') y = dict_get (ac_symbol_pnls ac) y)"
  using assms
proof (induction ss arbitrary: net ac)
  case (Cons s ss)
  from Cons.prems(1) obtain v s1
    where 1: "on_symbol s (pbind (calc_net_pnl price t) (\<lambda>_ cp. (cp_net_pnl_at cp t, cp))) ac = (Inr v, s1)"
    and r: "value_symbols price t ss (f_add net v) s1 = (Inr x, ac')" by auto
  note o = on_symbol_value_Inr [OF 1]
  from Cons.IH [OF r] Cons.prems(2) obtain xs
    where xs: "list_all2 (\<lambda>s y. \<exists>cp. dict_get (ac_symbol_pnls ac') s = Some cp \<and> cp_net_pnl_at cp t = Inr y) ss xs"
      "x = foldl f_add (f_add net v) xs" "\<forall>y. y \<notin> set ss \<longrightarrow> dict_get (ac_symbol_pnls ac') y = dict_get (ac_symbol_pnls s1) y"
    by auto
  have "\<exists>cp. dict_get (ac_symbol_pnls ac') s = Some cp \<and> cp_net_pnl_at cp t = Inr v"
    using o(1) xs(3) Cons.prems(2) by simp
  then show ?case using xs o(2) by (intro exI [of _ "v # xs"]) auto
qed simp

lemma calc_points_last: "calc_points ac t = Inr pts \<Longrightarrow> \<exists>ps. pts = ps @ [t]"
  by (auto simp: calc_points_def Let_def split: if_splits) (metis append_butlast_last_id)+

text \<open>
  Claim C13. Equity is the starting equity plus the sum of the ledgers' net P&L: a query at a
  timestamp that has not been valued yet returns the starting equity plus the net P&L every ledger
  reports at that timestamp afterwards, added in symbol order, and a repeated query returns the same
  number and changes nothing.
\<close>

theorem equity_sums_ledgers:
  assumes "equity price t ac = (Inr x, ac')" "account_wf ac" "map_of (ac_pnl ac) t = None"
  shows "\<exists>xs. list_all2 (\<lambda>s y. \<exists>cp. dict_get (ac_symbol_pnls ac') s = Some cp \<and> cp_net_pnl_at cp t = Inr y)
      (dict_keys (ac_symbol_pnls ac')) xs \<and> x = f_add (ac_starting_equity ac) (foldl f_add (Fin 0) xs) \<and>
    equity price' t ac' = (Inr x, ac')"
proof -
  from assms(1,3) obtain pnl where c: "calc price t ac = (Inr (), ac')" and p: "map_of (ac_pnl ac') t = Some pnl"
    and x: "x = f_add (ac_starting_equity ac') pnl"
    by (auto simp: equity_def pbind_def split: prod.splits sum.splits option.splits)
  have se: "ac_starting_equity ac' = ac_starting_equity ac" using valued_from_calc [OF c] by (simp add: valued_from_def)
  from c assms(3) obtain pts where pts: "calc_points ac t = Inr pts" and l: "pforeach (calc_point price) pts ac = (Inr (), ac')"
    by (auto simp: calc_def map_of_eq_None_iff split: if_splits)
  from calc_points_last [OF pts] obtain ps where "pts = ps @ [t]" by blast
  with l obtain s1 where s1: "pforeach (calc_point price) ps ac = (Inr (), s1)" "calc_point price t s1 = (Inr (), ac')"
    by (auto simp: pforeach_append)
  have wf: "account_wf s1"
    by (rule pforeach_invariant [where I = account_wf, OF _ assms(2) s1(1)])
       (use valued_from_calc_point in \<open>auto simp: valued_from_def\<close>)
  from s1(2) obtain net s2 where v: "value_symbols price t (dict_keys (ac_symbol_pnls s1)) (Fin 0) s1 = (Inr net, s2)"
    and ac': "ac' = s2\<lparr>ac_pnl := sd_set t net (ac_pnl s2)\<rparr>" by (auto simp: calc_point_def)
  have "account_wf s2" using valued_from_value_symbols [OF v] wf by (simp add: valued_from_def)
  then have "net = pnl" using p by (simp add: ac' account_wf_def)
  have keys: "dict_keys (ac_symbol_pnls ac') = dict_keys (ac_symbol_pnls s1)"
    using value_symbols_keys [OF v] by (simp add: ac')
  from value_symbols_sum [OF v] wf obtain xs
    where "list_all2 (\<lambda>s y. \<exists>cp. dict_get (ac_symbol_pnls s2) s = Some cp \<and> cp_net_pnl_at cp t = Inr y)
        (dict_keys (ac_symbol_pnls s1)) xs" "net = foldl f_add (Fin 0) xs"
    by (auto simp: account_wf_def)
  moreover have "equity price' t ac' = (Inr x, ac')" using p x by (simp add: equity_def)
  ultimately show ?thesis using keys x se \<open>net = pnl\<close> by (auto simp: ac')
qed

definition example_booked :: account where
  "example_booked = snd (add_trades example_numerics example_price example_heap example_registry [Attr example_raw_trade] example_account)"

lemma example_booked_facts: "fst (equity example_price 20 example_booked) = Inr (Fin 1024)" "map_of (ac_pnl example_booked) 20 = None"
  unfolding example_booked_def
  by (simp add: account_eval_simps, simp add: account_eval_simps example_account_def equity_def calc_def calc_points_def
      calc_point_def cp_net_pnl_at_def, simp add: account_eval_simps, simp add: account_eval_simps example_account_def)

lemma example_booked_wf: "account_wf example_booked"
proof -
  have "account_tracks example_account" using account_init_ok [OF example_account_init] by blast
  then show ?thesis
    using account_run_ok [OF example_account_wf, of example_numerics
        "[CallAddTrades example_price example_heap example_registry [Attr example_raw_trade]]"]
    by (simp add: example_booking example_booked_def) (simp add: gross_traded_def example_trade_def)
qed

theorem equity_sums_ledgers_witness:
  "\<exists>ac'. equity example_price 20 example_booked = (Inr (Fin 1024), ac') \<and> equity failing_price 20 ac' = (Inr (Fin 1024), ac')"
proof -
  obtain ac' where e: "equity example_price 20 example_booked = (Inr (Fin 1024), ac')"
    using example_booked_facts(1) by (metis prod.collapse)
  from equity_sums_ledgers [OF e example_booked_wf example_booked_facts(2), of failing_price] e show ?thesis by blast
qed

section \<open>Valuation times\<close>

lemma takeWhile_length_le: "length (takeWhile P xs) \<le> length xs"
  by (induction xs) auto

lemma searchsorted_left_le_iff:
  assumes "strictly_increasing ts" "i < length ts"
  shows "searchsorted_left ts (Some x) \<le> i \<longleftrightarrow> x \<le> ts ! i"
proof -
  have *: "length (takeWhile (\<lambda>s. s < x) ts) \<le> i \<longleftrightarrow> x \<le> ts ! i"
    using assms
  proof (induction ts arbitrary: i)
    case (Cons a ts)
    then show ?case
      by (cases i) (auto simp: strictly_increasing_def, fastforce dest: nth_mem)
  qed simp
  then show ?thesis by (simp add: searchsorted_left_def)
qed

lemma searchsorted_right_le_iff:
  assumes "strictly_increasing ts" "i < length ts"
  shows "searchsorted_right ts (Some x) \<le> i \<longleftrightarrow> x < ts ! i"
proof -
  have *: "length (takeWhile (\<lambda>s. s \<le> x) ts) \<le> i \<longleftrightarrow> x < ts ! i"
    using assms
  proof (induction ts arbitrary: i)
    case (Cons a ts)
    then show ?case
      by (cases i) (auto simp: strictly_increasing_def, fastforce dest: nth_mem)
  qed simp
  then show ?thesis by (simp add: searchsorted_right_def)
qed

text \<open>
  The daily valuation times are the right ones: a timestamp is a valuation time exactly
  when it is a timestamp of the grid not after the configured minute of its day and no later
  timestamp of the same day is.
\<close>

lemma get_calc_timestamps_spec:
  assumes "strictly_increasing ts" "0 \<le> m" "m < 1440"
  shows "set (get_calc_timestamps ts m) = {t \<in> set ts. t \<le> day_of t * ns_per_day + m * ns_per_minute \<and>
    (\<forall>u\<in>set ts. day_of u = day_of t \<longrightarrow> t < u \<longrightarrow> day_of t * ns_per_day + m * ns_per_minute < u)}"
proof -
  let ?cut = "\<lambda>d. d * ns_per_day + m * ns_per_minute"
  let ?s = "\<lambda>d. searchsorted_left ts (Some (d * ns_per_day))"
  let ?e = "\<lambda>d. searchsorted_right ts (Some (?cut d))"
  have day: "day_of t = d \<longleftrightarrow> d * ns_per_day \<le> t \<and> t < (d + 1) * ns_per_day" for t d
    by (auto simp: day_of_def ns_per_day_def)
  have cut: "?cut d < (d + 1) * ns_per_day" for d using assms(3) by (simp add: ns_per_day_def ns_per_minute_def)
  have s: "?s d \<le> i \<longleftrightarrow> d * ns_per_day \<le> ts ! i" and e: "?e d \<le> i \<longleftrightarrow> ?cut d < ts ! i" if "i < length ts" for i d
    using searchsorted_left_le_iff [OF assms(1) that] searchsorted_right_le_iff [OF assms(1) that] by auto
  have el: "?e d \<le> length ts" for d by (simp add: searchsorted_right_def takeWhile_length_le)
  have mono: "ts ! i < ts ! j \<longleftrightarrow> i < j" if "i < length ts" "j < length ts" for i j
    using assms(1) that by (metis not_less_iff_gr_or_eq sorted_wrt_nth_less strictly_increasing_def)
  have A: "ts ! (?e d - 1) \<in> set ts \<and> day_of (ts ! (?e d - 1)) = d \<and> ts ! (?e d - 1) \<le> ?cut d \<and>
      (\<forall>u\<in>set ts. ts ! (?e d - 1) < u \<longrightarrow> ?cut d < u)" if "?s d < ?e d" for d
  proof -
    let ?i = "?e d - 1"
    have i: "?i < length ts" "?s d \<le> ?i" "\<not> ?e d \<le> ?i" using that el [of d] by auto
    have "ts ! ?i \<le> ?cut d" using e [OF i(1), of d] i(3) by simp
    moreover have "d * ns_per_day \<le> ts ! ?i" using s [OF i(1), of d] i(2) by simp
    moreover have "?cut d < u" if u: "u \<in> set ts" "ts ! ?i < u" for u
    proof -
      obtain j where j: "j < length ts" "u = ts ! j" using u(1) by (metis in_set_conv_nth)
      then have "?i < j" using mono [OF i(1) j(1)] u(2) by simp
      then have "?e d \<le> j" by linarith
      then show ?thesis using e [OF j(1), of d] j(2) by simp
    qed
    ultimately show ?thesis using i(1) cut [of d] day [of "ts ! ?i" d] by auto
  qed
  have B: "?s (day_of t) < ?e (day_of t) \<and> ts ! (?e (day_of t) - 1) = t"
    if t: "t \<in> set ts" "t \<le> ?cut (day_of t)" "\<forall>u\<in>set ts. day_of u = day_of t \<longrightarrow> t < u \<longrightarrow> ?cut (day_of t) < u" for t
  proof -
    obtain i where i: "i < length ts" "t = ts ! i" using t(1) by (metis in_set_conv_nth)
    have "?s (day_of t) \<le> i" using s [OF i(1), of "day_of t"] day [of t "day_of t"] i(2) by simp
    moreover have "i < ?e (day_of t)" using e [OF i(1), of "day_of t"] t(2) i(2) by simp
    ultimately have lt: "?s (day_of t) < ?e (day_of t)" by simp
    note a = A [OF lt]
    have "i \<le> ?e (day_of t) - 1" using \<open>i < ?e (day_of t)\<close> by simp
    moreover have "\<not> i < ?e (day_of t) - 1"
    proof
      assume l: "i < ?e (day_of t) - 1"
      have "?e (day_of t) - 1 < length ts" using lt el [of "day_of t"] by linarith
      then have "t < ts ! (?e (day_of t) - 1)" using mono [OF i(1)] l i(2) by simp
      then show False using t(3) a by force
    qed
    ultimately have "i = ?e (day_of t) - 1" by simp
    then show ?thesis using lt i(2) by simp
  qed
  have set_eq: "set (get_calc_timestamps ts m) = {ts ! (?e d - 1) | d. d \<in> day_of ` set ts \<and> ?s d < ?e d}"
    by (auto simp: get_calc_timestamps_def Let_def)
  show ?thesis unfolding set_eq
  proof (intro set_eqI iffI; clarsimp)
    fix x assume "?s (day_of x) < ?e (day_of x)"
    from A [OF this]
    show "ts ! (?e (day_of x) - Suc 0) \<in> set ts \<and>
       ts ! (?e (day_of x) - Suc 0) \<le> ?cut (day_of (ts ! (?e (day_of x) - Suc 0))) \<and>
       (\<forall>u\<in>set ts. day_of u = day_of (ts ! (?e (day_of x) - Suc 0)) \<longrightarrow> ts ! (?e (day_of x) - Suc 0) < u \<longrightarrow>
          ?cut (day_of (ts ! (?e (day_of x) - Suc 0))) < u)"
      by simp
  next
    fix t assume t: "t \<in> set ts" "t \<le> ?cut (day_of t)" "\<forall>u\<in>set ts. day_of u = day_of t \<longrightarrow> t < u \<longrightarrow> ?cut (day_of t) < u"
    from B [OF t] t(1) show "\<exists>d. t = ts ! (?e d - Suc 0) \<and> d \<in> day_of ` set ts \<and> ?s d < ?e d"
      by (intro exI [of _ "day_of t"]) auto
  qed
qed

lemma get_calc_timestamps_spec_instance: "20 \<in> set (get_calc_timestamps [10, 20] 900) \<and> 10 \<notin> set (get_calc_timestamps [10, 20] 900)"
proof -
  have "strictly_increasing [10, 20]" by (simp add: strictly_increasing_def)
  from get_calc_timestamps_spec [OF this, of 900]
  show ?thesis by (auto simp: day_of_def ns_per_day_def ns_per_minute_def)
qed

end
