(* ===== verification/Risk.thy ===== *)
theory Risk
  imports Account
begin

text \<open>
  Pre-trade risk (\<open>risk.py\<close>): the context a policy sees, the four built-in policies, the decision
  record with its order snapshot, and \<open>decide_order\<close>, which runs user policies under the order guard.
  A policy is a program over the order heap, because it can change the orders it is shown. The lemmas
  show that the position bounds a policy uses are the exact extremes of what can still be filled,
  and that no policy, whether it returns, raises or is interrupted, leaves a guarded order changed.
\<close>

section \<open>Number addition\<close>

definition num_add :: "pynum \<Rightarrow> pynum \<Rightarrow> pynum res" where
  "num_add a b = (case (a, b) of
      (PyInt m, PyInt n) \<Rightarrow> Inr (PyInt (m + n))
    | (NpInt w, NpInt v) \<Rightarrow> Inr (NpInt (w + v))
    | (NpInt w, PyInt n) \<Rightarrow> num_intop (+) f_add (NpInt w) n
    | (PyInt n, NpInt w) \<Rightarrow> num_intop (+) f_add (NpInt w) n
    | _ \<Rightarrow> rbind (num_float a) (\<lambda>x. rbind (num_float b) (\<lambda>y.
        Inr (if is_np a \<or> is_np b then NpFloat (f_add x y) else PyFloat (f_add x y)))))"

definition val_num :: "pyval \<Rightarrow> pynum res" where
  "val_num v = (case as_number v of None \<Rightarrow> Inl (TypeError ''unsupported operand type'') | Some a \<Rightarrow> Inr a)"

text \<open>\<open>min(0, q)\<close> and \<open>max(0, q)\<close>: zero wins a tie.\<close>

definition min0 :: "pynum \<Rightarrow> pynum" where
  "min0 q = (if num_lt q (PyInt 0) then q else PyInt 0)"

definition max0 :: "pynum \<Rightarrow> pynum" where
  "max0 q = (if num_lt (PyInt 0) q then q else PyInt 0)"

section \<open>Context\<close>

record risk_context =
  rc_account :: account
  rc_registry :: registry
  rc_timestamp :: int
  rc_open_orders :: "nat list"

definition order_contract :: "order \<Rightarrow> contract res" where
  "order_contract ord = (case o_contract ord of Attr c \<Rightarrow> Inr c | Foreign _ \<Rightarrow> Inl (AttributeError ''contract_group''))"

definition current_position :: "risk_context \<Rightarrow> contract \<Rightarrow> int res" where
  "current_position ctx c =
     rbind (positions (rc_registry ctx) (rc_account ctx) (c_group c) (rc_timestamp ctx)) (\<lambda>ps.
     Inr (sum_list [q. (d, q) \<leftarrow> ps, c_symbol d = c_symbol c]))"

text \<open>The quantities of the open pending orders for the symbol, in order.\<close>

definition pending_quantities :: "order_heap \<Rightarrow> risk_context \<Rightarrow> contract \<Rightarrow> pynum list res" where
  "pending_quantities heap ctx c =
     rbind (res_map (\<lambda>i. rbind (order_contract (heap i)) (\<lambda>d. if c_symbol d = c_symbol c then rbind (val_num (o_qty (heap i))) (\<lambda>q. Inr [q])
          else Inr [])) (filter (\<lambda>i. is_open (heap i)) (rc_open_orders ctx))) (\<lambda>qss. Inr (concat qss))"

definition projected_position :: "order_heap \<Rightarrow> risk_context \<Rightarrow> order \<Rightarrow> pynum res" where
  "projected_position heap ctx ord =
     rbind (order_contract ord) (\<lambda>c.
     rbind (current_position ctx c) (\<lambda>current.
     rbind (pending_quantities heap ctx c) (\<lambda>qs.
     rbind (res_fold num_add (PyInt 0) qs) (\<lambda>pending.
     rbind (num_add (PyInt current) pending) (\<lambda>p.
     rbind (val_num (o_qty ord)) (\<lambda>q. num_add p q))))))"

definition position_bounds :: "order_heap \<Rightarrow> risk_context \<Rightarrow> order \<Rightarrow> (pynum \<times> pynum) res" where
  "position_bounds heap ctx ord =
     rbind (order_contract ord) (\<lambda>c.
     rbind (current_position ctx c) (\<lambda>current.
     rbind (val_num (o_qty ord)) (\<lambda>q.
     rbind (num_add (PyInt current) (min0 q)) (\<lambda>lower.
     rbind (num_add (PyInt current) (max0 q)) (\<lambda>upper.
     rbind (pending_quantities heap ctx c) (\<lambda>qs.
     res_fold (\<lambda>(l, u) p. rbind (num_add l (min0 p)) (\<lambda>l'. rbind (num_add u (max0 p)) (\<lambda>u'. Inr (l', u')))) (lower, upper) qs))))))"

section \<open>Policies\<close>

record policy_result =
  pr_accepted :: bool
  pr_code :: string
  pr_message :: string

definition policy_result_init :: "pyval \<Rightarrow> pyval \<Rightarrow> pyval \<Rightarrow> policy_result res" where
  "policy_result_init accepted code message = (case accepted of
      VBool b \<Rightarrow> (case nonempty_str code of
          None \<Rightarrow> Inl (ValueError ''policy result code must be a non-empty string'')
        | Some c \<Rightarrow> (case message of
            VStr m \<Rightarrow> Inr \<lparr>pr_accepted = b, pr_code = c, pr_message = m\<rparr>
          | _ \<Rightarrow> Inl (TypeError ''policy result message must be a string'')))
    | _ \<Rightarrow> Inl (TypeError ''policy result accepted must be a bool''))"

definition accept :: policy_result where
  "accept = \<lparr>pr_accepted = True, pr_code = ''accepted'', pr_message = []\<rparr>"

definition reject :: "string \<Rightarrow> policy_result" where
  "reject code = \<lparr>pr_accepted = False, pr_code = code, pr_message = code\<rparr>"

definition positive_limit :: "string \<Rightarrow> float64 \<Rightarrow> float64 res" where
  "positive_limit what x = (if \<not> is_finite x \<or> f_le x (Fin 0)
     then Inl (ValueError (''maximum '' @ what @ '' quantity must be finite and positive'')) else Inr x)"

definition max_order_quantity :: "float64 \<Rightarrow> order \<Rightarrow> policy_result res" where
  "max_order_quantity maximum ord =
     rbind (val_num (o_qty ord)) (\<lambda>q.
     Inr (if num_lt (PyFloat maximum) (num_abs q) then reject ''order_quantity_exceeded'' else accept))"

definition num_le :: "pynum \<Rightarrow> pynum \<Rightarrow> bool" where
  "num_le a b = (num_lt a b \<or> num_eq a b)"

definition max_position_quantity :: "float64 \<Rightarrow> order_heap \<Rightarrow> risk_context \<Rightarrow> order \<Rightarrow> policy_result res" where
  "max_position_quantity maximum heap ctx ord =
     rbind (position_bounds heap ctx ord) (\<lambda>(lower, upper).
     rbind (val_num (o_qty ord)) (\<lambda>q.
     let within_limit = (if num_lt (PyInt 0) q then num_le upper (PyFloat maximum) else num_le (PyFloat (f_neg maximum)) lower) in
     Inr (if within_limit then accept else reject ''position_quantity_exceeded'')))"

definition participation_limit :: "float64 \<Rightarrow> float64 res" where
  "participation_limit x = (if \<not> is_finite x \<or> \<not> (f_lt (Fin 0) x \<and> f_le x (Fin 1))
     then Inl (ValueError ''maximum volume participation must be in (0, 1]'') else Inr x)"

definition max_volume_participation :: "float64 \<Rightarrow> (order \<Rightarrow> int \<Rightarrow> float64 res) \<Rightarrow> risk_context \<Rightarrow> order \<Rightarrow> policy_result res" where
  "max_volume_participation maximum_fraction volume ctx ord =
     rbind (volume ord (rc_timestamp ctx)) (\<lambda>available.
     if \<not> is_finite available \<or> f_le available (Fin 0) then Inr (reject ''volume_unavailable'')
     else rbind (val_num (o_qty ord)) (\<lambda>q. rbind (num_float (num_abs q)) (\<lambda>x.
       Inr (if f_lt maximum_fraction (f_div x available) then reject ''volume_participation_exceeded'' else accept))))"

fun tradability_value :: "tradability \<Rightarrow> string" where
  "tradability_value ACTIVE = ''active''" | "tradability_value IGNORED = ''ignored''"
| "tradability_value UNTRADEABLE = ''untradeable''" | "tradability_value DUPLICATE = ''duplicate''"
| "tradability_value BAD = ''bad''"

definition num_sub :: "pynum \<Rightarrow> pynum \<Rightarrow> pynum res" where
  "num_sub a b = num_add a (case b of PyInt n \<Rightarrow> PyInt (- n) | NpInt w \<Rightarrow> NpInt (- w) | PyFloat x \<Rightarrow> PyFloat (f_neg x) | NpFloat x \<Rightarrow> NpFloat (f_neg x))"

definition instrument_tradability :: "bool \<Rightarrow> order_heap \<Rightarrow> risk_context \<Rightarrow> order \<Rightarrow> policy_result res" where
  "instrument_tradability allow_risk_reducing heap ctx ord =
     rbind (order_contract ord) (\<lambda>c.
     if after_expiry c (rc_timestamp ctx) then Inr (reject ''contract_expired'')
     else if is_tradability (c_spec c) = ACTIVE then Inr accept
     else rbind (projected_position heap ctx ord) (\<lambda>projected.
       rbind (val_num (o_qty ord)) (\<lambda>q.
       rbind (num_sub projected q) (\<lambda>before.
       let reduces_risk = num_lt (num_abs projected) (num_abs before) in
       Inr (if allow_risk_reducing \<and> reduces_risk \<and> is_tradability (c_spec c) \<in> {IGNORED, UNTRADEABLE} then accept
            else reject (''instrument_'' @ tradability_value (is_tradability (c_spec c))))))))"

section \<open>Decisions\<close>

record order_snapshot =
  sn_symbol :: string
  sn_contract_group :: string
  sn_multiplier :: float64
  sn_expiry :: "datetime64 option"
  sn_submitted_at :: pyval
  sn_qty :: pyval
  sn_order_type :: string
  sn_time_in_force :: string
  sn_order_status :: string
  sn_reason_code :: string
  sn_limit_price :: "pyval option"
  sn_trigger_price :: "pyval option"
  sn_triggered :: "bool option"
  sn_vwap_stop :: "pyval option"
  sn_vwap_end_time :: "pyval option"
  sn_reopen_symbol :: "string option"
  sn_reopen_contract_group :: "string option"
  sn_close_qty :: "pyval option"
  sn_reopen_qty :: "pyval option"
  sn_roll_id :: "string option"
  sn_roll_leg :: "string option"

definition roll_property :: "order \<Rightarrow> string \<Rightarrow> string option" where
  "roll_property ord name = (case dict_get (o_properties ord) name of Some (VStr s) \<Rightarrow> Some s | _ \<Rightarrow> None)"

fun order_type_name :: "order_kind \<Rightarrow> string" where
  "order_type_name PlainOrder = ''Order''"
| "order_type_name MarketOrder = ''MarketOrder''"
| "order_type_name (LimitOrder _) = ''LimitOrder''"
| "order_type_name (RollOrder _ _ _) = ''RollOrder''"
| "order_type_name (StopLimitOrder _ _ _) = ''StopLimitOrder''"
| "order_type_name (VWAPOrder _ _) = ''VWAPOrder''"

fun time_in_force_name :: "time_in_force attr \<Rightarrow> string res" where
  "time_in_force_name (Attr FOK) = Inr ''FOK''" | "time_in_force_name (Attr GTC) = Inr ''GTC''"
| "time_in_force_name (Attr DAY) = Inr ''DAY''" | "time_in_force_name (Foreign _) = Inl (AttributeError ''name'')"

fun order_status_name :: "order_status attr \<Rightarrow> string res" where
  "order_status_name (Attr OPEN) = Inr ''open''" | "order_status_name (Attr PARTIALLY_FILLED) = Inr ''partially_filled''"
| "order_status_name (Attr FILLED) = Inr ''filled''" | "order_status_name (Attr CANCEL_REQUESTED) = Inr ''cancel_requested''"
| "order_status_name (Attr CANCELLED) = Inr ''cancelled''" | "order_status_name (Foreign _) = Inl (AttributeError ''name'')"

definition reopen_of :: "order_kind \<Rightarrow> contract option res" where
  "reopen_of k = (case k of RollOrder (Attr r) _ _ \<Rightarrow> Inr (Some r) | RollOrder (Foreign _) _ _ \<Rightarrow> Inl (AttributeError ''symbol'') | _ \<Rightarrow> Inr None)"

definition snapshot_capture :: "order \<Rightarrow> order_snapshot res" where
  "snapshot_capture ord =
     rbind (order_contract ord) (\<lambda>c. let k = o_kind ord in
     rbind (time_in_force_name (o_time_in_force ord)) (\<lambda>tif.
     rbind (order_status_name (o_status ord)) (\<lambda>st.
     rbind (reopen_of k) (\<lambda>reopen.
     Inr \<lparr>sn_symbol = c_symbol c, sn_contract_group = cg_name (c_group c), sn_multiplier = c_multiplier c, sn_expiry = c_expiry c,
       sn_submitted_at = o_timestamp ord, sn_qty = o_qty ord, sn_order_type = order_type_name k, sn_time_in_force = tif,
       sn_order_status = st, sn_reason_code = o_reason_code ord,
       sn_limit_price = (case k of LimitOrder p \<Rightarrow> Some p | StopLimitOrder _ p _ \<Rightarrow> Some p | _ \<Rightarrow> None),
       sn_trigger_price = (case k of StopLimitOrder p _ _ \<Rightarrow> Some p | _ \<Rightarrow> None),
       sn_triggered = (case k of StopLimitOrder _ _ b \<Rightarrow> Some b | _ \<Rightarrow> None),
       sn_vwap_stop = (case k of VWAPOrder s _ \<Rightarrow> Some s | _ \<Rightarrow> None),
       sn_vwap_end_time = (case k of VWAPOrder _ e \<Rightarrow> Some e | _ \<Rightarrow> None),
       sn_reopen_symbol = map_option c_symbol reopen,
       sn_reopen_contract_group = map_option (\<lambda>r. cg_name (c_group r)) reopen,
       sn_close_qty = (case k of RollOrder _ q _ \<Rightarrow> Some q | _ \<Rightarrow> None),
       sn_reopen_qty = (case k of RollOrder _ _ q \<Rightarrow> Some q | _ \<Rightarrow> None),
       sn_roll_id = roll_property ord ''_gambit_roll_id'', sn_roll_leg = roll_property ord ''_gambit_roll_leg''\<rparr>))))"

datatype decision_status = ACCEPTED | REJECTED

record order_decision =
  od_order :: nat
  od_status :: decision_status
  od_policy :: string
  od_code :: string
  od_message :: string
  od_proposed_qty :: pyval
  od_timestamp :: int
  od_snapshot :: order_snapshot

definition make_decision :: "nat \<Rightarrow> decision_status \<Rightarrow> string \<Rightarrow> string \<Rightarrow> string \<Rightarrow> risk_context \<Rightarrow> order_heap \<Rightarrow> order_decision res" where
  "make_decision oid st policy code message ctx heap =
     rbind (snapshot_capture (heap oid)) (\<lambda>snap.
     Inr \<lparr>od_order = oid, od_status = st, od_policy = policy, od_code = code, od_message = message,
          od_proposed_qty = o_qty (heap oid), od_timestamp = rc_timestamp ctx, od_snapshot = snap\<rparr>)"

text \<open>A policy: its name and its \<open>evaluate\<close> method, which may change orders and may return anything.\<close>

type_synonym policy = "string \<times> (nat \<Rightarrow> risk_context \<Rightarrow> (order_heap, policy_result attr) prog)"

definition restore_all :: "order_callback_state list \<Rightarrow> order_heap \<Rightarrow> order_heap" where
  "restore_all states heap = fold restore states heap"

definition evaluate_guarded :: "policy \<Rightarrow> nat \<Rightarrow> risk_context \<Rightarrow> (order_heap, policy_result attr) prog" where
  "evaluate_guarded p oid ctx heap =
     (let states = map (capture heap) (oid # rc_open_orders ctx) in
      ptry (pbind (snd p oid ctx) (\<lambda>result heap. (rbind (res_each (validate_unchanged heap False) states) (\<lambda>_. Inr result), heap)))
        (restore_all states) heap)"

primrec run_policies :: "policy list \<Rightarrow> nat \<Rightarrow> risk_context \<Rightarrow> (order_heap, order_decision) prog" where
  "run_policies [] oid ctx = (\<lambda>heap. (make_decision oid ACCEPTED [] ''accepted'' [] ctx heap, heap))"
| "run_policies (p # ps) oid ctx =
     pbind (evaluate_guarded p oid ctx) (\<lambda>result. case result of
         Foreign _ \<Rightarrow> plift (Inl (TypeError ''risk policy must return a PolicyResult''))
       | Attr r \<Rightarrow> if \<not> pr_accepted r then (\<lambda>heap. (make_decision oid REJECTED (fst p) (pr_code r) (pr_message r) ctx heap, heap))
                   else run_policies ps oid ctx)"

definition decide_order :: "nat \<Rightarrow> risk_context \<Rightarrow> policy list \<Rightarrow> (order_heap, order_decision) prog" where
  "decide_order oid ctx policies =
     pbind (\<lambda>heap. (rbind (whole_quantity ''order qty'' (o_qty (heap oid))) (\<lambda>_.
         res_each (\<lambda>i. if is_open (heap i) then rbind (whole_quantity ''pending order qty'' (o_qty (heap i))) (\<lambda>_. Inr ()) else Inr ())
           (rc_open_orders ctx)), heap)) (\<lambda>_.
     run_policies policies oid ctx)"

section \<open>The bounds are the reachable extremes\<close>

definition between0 :: "int \<Rightarrow> int \<Rightarrow> bool" where
  "between0 f q = (min 0 q \<le> f \<and> f \<le> max 0 q)"

lemma num_add_PyInt [simp]: "num_add (PyInt m) (PyInt n) = Inr (PyInt (m + n))"
  by (simp add: num_add_def)

lemma minmax0_PyInt [simp]: "min0 (PyInt q) = PyInt (min 0 q)" "max0 (PyInt q) = PyInt (max 0 q)"
  by (simp_all add: min0_def max0_def min_def max_def)

lemma position_bounds_fold:
  "res_fold (\<lambda>(l, u) p. rbind (num_add l (min0 p)) (\<lambda>l'. rbind (num_add u (max0 p)) (\<lambda>u'. Inr (l', u')))) (PyInt l, PyInt u) (map PyInt ps)
     = Inr (PyInt (l + sum_list (map (min 0) ps)), PyInt (u + sum_list (map (max 0) ps)))"
  by (induction ps arbitrary: l u) (simp_all add: add.assoc)

lemma position_bounds_whole:
  assumes "o_contract ord = Attr c" "o_qty ord = VNum (PyInt q)" "current_position ctx c = Inr cur"
    "pending_quantities heap ctx c = Inr (map PyInt ps)"
  shows "position_bounds heap ctx ord = Inr (PyInt (cur + min 0 q + sum_list (map (min 0) ps)),
     PyInt (cur + max 0 q + sum_list (map (max 0) ps)))"
  using assms by (simp add: position_bounds_def order_contract_def val_num_def as_number_def position_bounds_fold)

lemma between0_sum:
  "list_all2 between0 fs ps \<Longrightarrow> sum_list (map (min 0) ps) \<le> sum_list fs \<and> sum_list fs \<le> sum_list (map (max 0) ps)"
  by (induction rule: list_all2_induct) (auto simp: between0_def)

lemma between0_extremes: "list_all2 between0 (map (min 0) ps) ps" "list_all2 between0 (map (max 0) ps) ps"
  by (induction ps) (auto simp: between0_def)

section \<open>The guard holds for every outcome\<close>

definition qty_is :: "int \<Rightarrow> order \<Rightarrow> bool" where
  "qty_is q ord = (\<exists>a. o_qty ord = VNum a \<and> num_exact a = Fin (of_int q))"

definition guardable :: "order \<Rightarrow> bool" where
  "guardable ord = ((\<exists>c. o_contract ord = Attr c) \<and> (\<exists>q. \<bar>q\<bar> < 2 ^ 53 \<and> qty_is q ord))"

definition guard_same :: "order \<Rightarrow> order \<Rightarrow> bool" where
  "guard_same ord ord' = (same_contract (o_contract ord') (o_contract ord) \<and> o_timestamp ord' = o_timestamp ord \<and>
     o_time_in_force ord' = o_time_in_force ord \<and> o_status ord' = o_status ord \<and>
     (\<exists>q. \<bar>q\<bar> < 2 ^ 53 \<and> qty_is q ord \<and> qty_is q ord'))"

lemma f_of_int_small_inj:
  assumes "f_of_int n = Fin (of_int q)" "\<bar>q\<bar> < 2 ^ 53"
  shows "n = q"
proof (cases "\<bar>n\<bar> \<le> 2 ^ 53")
  case True
  then show ?thesis using assms(1) by (simp add: f_of_int_def)
next
  case False
  have "\<bar>of_int q - of_int n :: rat\<bar> \<le> max (\<bar>of_int n\<bar> * pow2 (- 53)) (pow2 (- 1075))"
    by (rule rnd64_error) (use assms(1) in \<open>simp add: f_of_int_def\<close>)
  moreover have "pow2 (- 1075) \<le> pow2 (- 53)" by simp
  moreover have "pow2 (- 53) \<le> \<bar>of_int n\<bar> * pow2 (- 53)" using False by (simp flip: of_int_abs)
  ultimately have "\<bar>of_int (q - n) :: rat\<bar> \<le> \<bar>of_int n\<bar> * pow2 (- 53)" by simp
  then have "\<bar>of_int (q - n) :: rat\<bar> * 2 ^ 53 \<le> \<bar>of_int n\<bar>" by (simp add: pow2_def field_simps)
  then have "(of_int (\<bar>q - n\<bar> * 2 ^ 53) :: rat) \<le> of_int \<bar>n\<bar>" by simp
  then have "\<bar>q - n\<bar> * 2 ^ 53 \<le> \<bar>n\<bar>" by (simp only: of_int_le_iff)
  then show ?thesis using False assms(2) by (simp add: abs_if split: if_splits)
qed

lemma num_rounded_small: "num_exact a = Fin (of_int q) \<Longrightarrow> \<bar>q\<bar> < 2 ^ 53 \<Longrightarrow> num_rounded a = Fin (of_int q)"
  by (cases a) (auto simp: f_of_int_def simp del: of_int_sint)

lemma num_exact_of_rounded: "num_rounded a = Fin (of_int q) \<Longrightarrow> \<bar>q\<bar> < 2 ^ 53 \<Longrightarrow> num_exact a = Fin (of_int q)"
  by (cases a) (auto dest: f_of_int_small_inj simp del: of_int_sint)

lemma num_eq_exact:
  assumes "num_eq b a" "num_exact a = Fin (of_int q)" "\<bar>q\<bar> < 2 ^ 53"
  shows "num_exact b = Fin (of_int q)"
  using assms num_rounded_small [OF assms(2,3)]
  by (auto simp: num_eq_def num_operands_def f_eq_def split: if_splits intro: num_exact_of_rounded)

lemma guard_same_refl: "guardable ord \<Longrightarrow> guard_same ord ord"
  by (auto simp: guardable_def guard_same_def)

lemma qty_is_unique: "qty_is q ord \<Longrightarrow> qty_is q' ord \<Longrightarrow> q = q'"
  by (auto simp: qty_is_def)

lemma same_contract_trans: "same_contract a b \<Longrightarrow> same_contract b c \<Longrightarrow> same_contract a c"
  by (auto simp: same_contract_def contract_is_def split: attr.splits)

lemma guard_same_trans: "guard_same a b \<Longrightarrow> guard_same b c \<Longrightarrow> guard_same a c"
  unfolding guard_same_def using same_contract_trans qty_is_unique by metis

lemma guardable_same: "guardable a \<Longrightarrow> guard_same a b \<Longrightarrow> guardable b"
  by (auto simp: guardable_def guard_same_def same_contract_def contract_is_def split: attr.splits)

lemma guard_same_validated:
  assumes "validate_unchanged heap' False (capture heap i) = Inr ()" "guardable (heap i)"
  shows "guard_same (heap i) (heap' i)"
proof -
  note f = validate_unchanged_fields [OF assms(1)]
  from assms(2) obtain q a where q: "\<bar>q\<bar> < 2 ^ 53" "o_qty (heap i) = VNum a" "num_exact a = Fin (of_int q)"
    by (auto simp: guardable_def qty_is_def)
  from f(4) q(2) obtain b where b: "o_qty (heap' i) = VNum b" "num_eq b a" by (auto simp: py_eq_def as_number_def)
  have "qty_is q (heap' i)" using num_eq_exact [OF b(2) q(3,1)] b(1) by (simp add: qty_is_def)
  moreover have "qty_is q (heap i)" using q(2,3) by (simp add: qty_is_def)
  ultimately show ?thesis using f(1-3,5) q(1) by (auto simp: guard_same_def)
qed

lemma restore_all_fields:
  assumes "i \<in> set is"
  shows "let o' = restore_all (map (capture heap) is) heap' i in o_contract o' = o_contract (heap i) \<and>
    o_timestamp o' = o_timestamp (heap i) \<and> o_time_in_force o' = o_time_in_force (heap i) \<and>
    o_qty o' = o_qty (heap i) \<and> o_status o' = o_status (heap i)"
  using assms
proof (induction "is" rule: rev_induct)
  case (snoc j js)
  then show ?case by (cases "i = j") (auto simp: restore_all_def restore_def Let_def)
qed simp

lemma guard_same_restored:
  assumes "i \<in> set is" "guardable (heap i)"
  shows "guard_same (heap i) (restore_all (map (capture heap) is) heap' i)"
  using restore_all_fields [OF assms(1), of heap heap'] assms(2)
  by (auto simp: guardable_def guard_same_def Let_def qty_is_def)

lemma evaluate_guarded_same:
  assumes "evaluate_guarded p oid ctx heap = (r, heap')" "i \<in> set (oid # rc_open_orders ctx)" "guardable (heap i)"
  shows "guard_same (heap i) (heap' i)"
proof -
  let ?is = "oid # rc_open_orders ctx"
  obtain q h where q: "snd p oid ctx heap = (q, h)" by fastforce
  have "(\<exists>h. heap' = restore_all (map (capture heap) ?is) h) \<or> heap' = h \<and> res_each (validate_unchanged h False) (map (capture heap) ?is) = Inr ()"
    using assms(1) q
    by (cases "res_each (validate_unchanged h False) (map (capture heap) ?is)"; cases q)
       (auto simp: evaluate_guarded_def ptry_def pbind_def Let_def split: sum.splits)
  then show ?thesis
  proof (elim disjE exE conjE)
    fix h' assume "heap' = restore_all (map (capture heap) ?is) h'"
    then show ?thesis using guard_same_restored [of i ?is heap, OF assms(2,3)] by simp
  next
    assume "heap' = h" "res_each (validate_unchanged h False) (map (capture heap) ?is) = Inr ()"
    then have "validate_unchanged heap' False (capture heap i) = Inr ()" using assms(2) by (auto simp: res_each_Inr)
    then show ?thesis using guard_same_validated [of heap' heap i] assms(3) by blast
  qed
qed

lemma run_policies_same:
  assumes "run_policies ps oid ctx heap = (r, heap')" "i \<in> set (oid # rc_open_orders ctx)" "guardable (heap i)"
  shows "guard_same (heap i) (heap' i)"
  using assms
proof (induction ps arbitrary: heap)
  case Nil
  then show ?case by (simp add: guard_same_refl)
next
  case (Cons p ps)
  obtain q h where q: "evaluate_guarded p oid ctx heap = (q, h)" by fastforce
  note s = evaluate_guarded_same [OF q Cons.prems(2,3)]
  have "heap' = h \<or> run_policies ps oid ctx h = (r, heap')"
    using Cons.prems(1) q by (cases q) (auto simp: pbind_def split: attr.splits if_splits)
  then show ?case
    using s Cons.IH [of h] Cons.prems(2) guardable_same [OF Cons.prems(3) s] guard_same_trans by blast
qed

section \<open>Properties\<close>

lemma num_le_PyInt_PyFloat:
  "num_le (PyInt n) (PyFloat (Fin m)) \<longleftrightarrow> of_int n \<le> m"
  "num_le (PyFloat (Fin m)) (PyInt n) \<longleftrightarrow> m \<le> of_int n"
  by (auto simp: num_le_def num_lt_def num_eq_def num_operands_def)

text \<open>
  Claim C29. An order that the position limit accepts cannot extend its side beyond the limit,
  whatever part of it and of each pending order for the same symbol is eventually filled: with the
  current position, any fill between zero and the order's quantity and any fill between zero and the
  quantity of each pending order, the position stays at or below the maximum for a buy and at or
  above its negative for a sell. Conversely a rejected order has a combination of fills that breaks it.
\<close>

theorem max_position_quantity_sound:
  assumes "o_contract ord = Attr c" "o_qty ord = VNum (PyInt q)" "current_position ctx c = Inr cur"
    "pending_quantities heap ctx c = Inr (map PyInt ps)"
  shows "\<exists>r. max_position_quantity (Fin m) heap ctx ord = Inr r \<and>
    (pr_accepted r \<longleftrightarrow> (\<forall>f fs. between0 f q \<and> list_all2 between0 fs ps \<longrightarrow>
       (if 0 < q then of_int (cur + f + sum_list fs) \<le> m else - m \<le> of_int (cur + f + sum_list fs))))"
proof -
  let ?lo = "cur + min 0 q + sum_list (map (min 0) ps)" and ?hi = "cur + max 0 q + sum_list (map (max 0) ps)"
  have b: "position_bounds heap ctx ord = Inr (PyInt ?lo, PyInt ?hi)" by (rule position_bounds_whole [OF assms])
  have lim: "(\<forall>f fs. between0 f q \<and> list_all2 between0 fs ps \<longrightarrow>
      (if 0 < q then of_int (cur + f + sum_list fs) \<le> m else - m \<le> of_int (cur + f + sum_list fs))) \<longleftrightarrow>
     (if 0 < q then of_int ?hi \<le> m else - m \<le> of_int ?lo)" (is "?L \<longleftrightarrow> ?R")
  proof
    assume l: ?L
    have "between0 (max 0 q) q" "between0 (min 0 q) q" by (auto simp: between0_def)
    then show ?R using l between0_extremes [of ps] by (smt (verit))
  next
    assume r: ?R
    show ?L
    proof (intro allI impI)
      fix f fs assume f: "between0 f q \<and> list_all2 between0 fs ps"
      then have "?lo \<le> cur + f + sum_list fs" "cur + f + sum_list fs \<le> ?hi"
        using between0_sum [of fs ps] by (auto simp: between0_def)
      then have "(of_int ?lo :: rat) \<le> of_int (cur + f + sum_list fs)" "(of_int (cur + f + sum_list fs) :: rat) \<le> of_int ?hi"
        by (simp_all only: of_int_le_iff)
      then show "if 0 < q then of_int (cur + f + sum_list fs) \<le> m else - m \<le> of_int (cur + f + sum_list fs)"
        using r by (auto split: if_splits)
    qed
  qed
  have "max_position_quantity (Fin m) heap ctx ord =
      Inr (if (if 0 < q then of_int ?hi \<le> m else - m \<le> of_int ?lo) then accept else reject ''position_quantity_exceeded'')"
    using assms(2) unfolding max_position_quantity_def b
    by (simp add: val_num_def as_number_def num_le_PyInt_PyFloat Let_def)
  then show ?thesis unfolding lim by (auto simp: accept_def reject_def)
qed

definition example_context :: risk_context where
  "example_context = \<lparr>rc_account = example_account, rc_registry = example_registry, rc_timestamp = 10, rc_open_orders = [0]\<rparr>"

theorem max_position_quantity_sound_witness:
  "\<exists>r. max_position_quantity (Fin 10) example_heap example_context (example_order 3) = Inr r \<and> pr_accepted r"
proof -
  have c: "o_contract (example_order 3) = Attr example_contract" "o_qty (example_order 3) = VNum (PyInt 3)"
    by (simp_all add: example_order_def)
  have p: "current_position example_context example_contract = Inr 0"
    by (simp add: current_position_def positions_def example_context_def require_configured_group_def configured_def
        example_account_def example_registry_def DEFAULT_CG_def)
  have q: "pending_quantities example_heap example_context example_contract = Inr (map PyInt [4])"
    by (simp add: pending_quantities_def example_context_def example_heap_def example_order_def is_open_def status_in_def
        order_contract_def val_num_def as_number_def)
  have "\<forall>f fs. between0 f 3 \<and> list_all2 between0 fs [4] \<longrightarrow> of_int (0 + f + sum_list fs) \<le> (10 :: rat)"
    by (auto simp: between0_def list_all2_Cons2)
  then show ?thesis using max_position_quantity_sound [OF c p q, of 10] by auto
qed

text \<open>
  Claim C30. A decision never leaves the guarded terms of an order changed: whatever the risk policies
  do to the order under decision and to the open orders they are shown, and whether the decision is
  made, a policy raises or it is interrupted, every such order ends with its contract, timestamp, time
  in force, status and quantity as they were. The order is one that the guard can compare: its contract
  is a contract and its quantity a number of magnitude below \<open>2\<^sup>5\<^sup>3\<close>. The other fields, its properties and
  limit price among them, are not guarded.
\<close>

theorem decide_order_guards_orders:
  assumes "decide_order oid ctx ps heap = (r, heap')" "i \<in> set (oid # rc_open_orders ctx)" "guardable (heap i)"
  shows "guard_same (heap i) (heap' i)"
proof -
  have "heap' = heap \<or> run_policies ps oid ctx heap = (r, heap')"
    using assms(1) by (auto simp: decide_order_def pbind_def split: prod.splits sum.splits)
  then show ?thesis using guard_same_refl [OF assms(3)] run_policies_same [of ps oid ctx heap r heap' i] assms(2,3) by blast
qed

text \<open>A policy that cancels the order it is shown: the decision raises and the order is open again.\<close>

definition meddling_policy :: policy where
  "meddling_policy = (''meddling'', \<lambda>oid ctx heap. (Inr (Attr accept), heap(oid := cancel (heap oid))))"

theorem decide_order_guards_orders_witness:
  "o_status (snd (decide_order 1 example_context [meddling_policy] example_heap) 1) = Attr OPEN"
proof -
  obtain r h where d: "decide_order 1 example_context [meddling_policy] example_heap = (r, h)" by fastforce
  have "guardable (example_heap 1)"
    by (auto simp: guardable_def qty_is_def example_heap_def example_order_def intro!: exI [of _ 4])
  from decide_order_guards_orders [OF d, of 1] this d show ?thesis
    by (simp add: guard_same_def example_heap_def example_order_def)
qed

end
