(* ===== verification/Rounding.thy ===== *)
theory Rounding
  imports Float64
begin

text \<open>
  Order facts of binary64 rounding: rounding is odd and idempotent, and rounding a value that lies
  between zero and a binary64 number stays between them.
\<close>

definition repr64 :: "rat \<Rightarrow> bool" where
  "repr64 x = (rnd64 x = Fin x)"

lemma repr64_simps [simp]: "repr64 0" "repr64 1"
  by (simp_all add: repr64_def)

lemma pow2_1: "pow2 1 = 2"
  by (simp add: pow2_def)

lemma repr64_of_int: "\<bar>n\<bar> \<le> 2 ^ 53 \<Longrightarrow> repr64 (of_int n)"
  by (simp add: repr64_def)

lemma round_half_even_minus: "round_half_even (- x) = - round_half_even x"
proof (cases "of_int \<lfloor>x\<rfloor> = x")
  case True
  then have "x = of_int \<lfloor>x\<rfloor>" by (rule sym)
  then show ?thesis by (metis of_int_minus round_half_even_of_int)
next
  case False
  define f where "f = \<lfloor>x\<rfloor>"
  define r where "r = x - of_int f"
  have x: "x = of_int f + r" "0 < r" "r < 1" using False unfolding f_def r_def by linarith+
  then have fl: "\<lfloor>- x\<rfloor> = - f - 1" by linarith
  have l: "round_half_even x = (if r < 1 / 2 then f else if 1 / 2 < r then f + 1 else if even f then f else f + 1)"
    unfolding round_half_even_def Let_def using f_def r_def by simp
  have r: "round_half_even (- x) = (if 1 - r < 1 / 2 then - f - 1 else if 1 / 2 < 1 - r then - f else if even (- f - 1) then - f - 1 else - f)"
    unfolding round_half_even_def Let_def fl using x(1) by (simp add: algebra_simps)
  show ?thesis unfolding l r by auto
qed

lemma round_half_even_le: "x \<le> of_int n \<Longrightarrow> round_half_even x \<le> n"
proof -
  assume n: "x \<le> of_int n"
  show ?thesis
  proof (cases "x = of_int n")
    case False
    then have "\<lfloor>x\<rfloor> < n" using n by linarith
    then show ?thesis by (simp add: round_half_even_def Let_def)
  qed simp
qed

lemma round_half_even_nonneg: "0 \<le> x \<Longrightarrow> 0 \<le> round_half_even x"
  by (simp add: round_half_even_def Let_def)

lemma ulp_exp_minus [simp]: "ulp_exp (- x) = ulp_exp x"
  by (simp add: ulp_exp_def)

lemma rnd64_minus: "rnd64 (- x) = f_neg (rnd64 x)"
  by (auto simp: rnd64_def Let_def round_half_even_minus)

lemma ilog2_mono:
  assumes "0 < x" "x \<le> y" shows "ilog2 x \<le> ilog2 y"
proof -
  have "pow2 (ilog2 x) < pow2 (ilog2 y + 1)"
    using ilog2_bounds [of x] ilog2_bounds [of y] assms by linarith
  then show ?thesis by simp
qed

lemma mantissa_bound:
  assumes "x \<noteq> 0" shows "\<bar>x\<bar> / pow2 (ulp_exp x) < 2 ^ 53"
proof -
  have "\<bar>x\<bar> < pow2 (ilog2 \<bar>x\<bar> + 1)" using ilog2_bounds(2) [of "\<bar>x\<bar>"] assms by simp
  also have "\<dots> \<le> pow2 (ulp_exp x + 53)" by (simp add: ulp_exp_def)
  finally show ?thesis by (simp add: pow2_add pow2_53 divide_less_eq mult.commute)
qed

lemma round_half_even_abs_le: "\<bar>x\<bar> \<le> of_int n \<Longrightarrow> \<bar>round_half_even x\<bar> \<le> n"
  using round_half_even_le [of x n] round_half_even_le [of "- x" n] by (simp add: round_half_even_minus abs_le_iff)

lemma rnd64_nonzero_Fin:
  assumes "rnd64 x = Fin y" "x \<noteq> 0"
  obtains m where "y = of_int m * pow2 (ulp_exp x)" "\<bar>m\<bar> \<le> 2 ^ 53" "ulp_exp x \<le> 971" "ulp_exp x = 971 \<Longrightarrow> \<bar>m\<bar> < 2 ^ 53"
    "m = round_half_even (x / pow2 (ulp_exp x))"
proof -
  let ?m = "round_half_even (x / pow2 (ulp_exp x))"
  have "\<bar>x / pow2 (ulp_exp x)\<bar> \<le> of_int (2 ^ 53)" using mantissa_bound [OF assms(2)] by simp
  then have "\<bar>?m\<bar> \<le> 2 ^ 53" by (rule round_half_even_abs_le)
  moreover have "y = of_int ?m * pow2 (ulp_exp x)" "\<not> (ulp_exp x > 971 \<or> (ulp_exp x = 971 \<and> \<bar>?m\<bar> \<ge> 2 ^ 53))"
    using assms by (auto simp: rnd64_def Let_def split: if_splits)
  ultimately show thesis using that [of ?m] by linarith
qed

lemma repr64_rnd64:
  assumes "rnd64 x = Fin y" shows "repr64 y"
proof (cases "x = 0 \<or> y = 0")
  case False
  then obtain m where m: "y = of_int m * pow2 (ulp_exp x)" "\<bar>m\<bar> \<le> 2 ^ 53" "ulp_exp x \<le> 971" "ulp_exp x = 971 \<Longrightarrow> \<bar>m\<bar> < 2 ^ 53"
    using rnd64_nonzero_Fin [OF assms] by metis
  have e: "- 1074 \<le> ulp_exp x" by (simp add: ulp_exp_def)
  have z: "m \<noteq> 0" using m(1) False by auto
  show ?thesis
  proof (cases "\<bar>m\<bar> < 2 ^ 53")
    case True
    then show ?thesis using rnd64_exact_aux [OF z True e m(3)] m(1) by (simp add: repr64_def)
  next
    case False
    define k :: int where "k = sgn m * 2 ^ 52"
    have "m = 2 * k" using False m(2) by (auto simp: k_def sgn_if abs_if split: if_splits)
    then have y: "y = of_int k * pow2 (ulp_exp x + 1)" using m(1) by (simp add: pow2_add pow2_1)
    have "ulp_exp x + 1 \<le> 971" using m(3,4) False by force
    moreover have "k \<noteq> 0" "\<bar>k\<bar> < 2 ^ 53" using z by (auto simp: k_def sgn_if abs_mult)
    ultimately show ?thesis using rnd64_exact_aux [of k "ulp_exp x + 1"] e y by (simp add: repr64_def)
  qed
qed (use assms in auto)

lemma rnd64_shrink:
  assumes "repr64 x" "0 \<le> y" "y \<le> x"
  obtains z where "rnd64 y = Fin z" "0 \<le> z" "z \<le> x"
proof (cases "y = 0")
  case False
  then have y: "0 < y" "0 < x" using assms by auto
  let ?e = "ulp_exp y" and ?d = "ulp_exp x"
  from assms(1) y(2) obtain k where k: "x = of_int k * pow2 ?d" "?d \<le> 971" "?d = 971 \<Longrightarrow> \<bar>k\<bar> < 2 ^ 53"
    using rnd64_nonzero_Fin [of x x] by (metis less_irrefl repr64_def)
  have e: "?e \<le> ?d" using ilog2_mono [OF y(1) assms(3)] y by (simp add: ulp_exp_def)
  define K where "K = k * 2 ^ nat (?d - ?e)"
  have K: "x = of_int K * pow2 ?e"
    using k(1) e pow2_of_nat [of "?d - ?e"] pow2_add [of "?d - ?e" ?e] by (simp add: K_def)
  let ?m = "round_half_even (y / pow2 ?e)"
  have "y / pow2 ?e \<le> of_int K" using assms(3) K by (simp add: divide_le_eq)
  then have m: "0 \<le> ?m" "?m \<le> K" using round_half_even_le round_half_even_nonneg y(1) by (simp_all add: divide_nonneg_pos)
  have "\<not> (?e > 971 \<or> (?e = 971 \<and> \<bar>?m\<bar> \<ge> 2 ^ 53))" using k(2,3) e m by (auto simp: K_def)
  then have "rnd64 y = Fin (of_int ?m * pow2 ?e)" using y(1) by (auto simp: rnd64_def Let_def)
  then show thesis using that m K by (simp add: mult_right_mono)
qed (use that assms in simp)

lemma rnd64_scale:
  assumes "repr64 x" "0 \<le> m" "m \<le> 1"
  obtains z where "rnd64 (x * m) = Fin z" "\<bar>z\<bar> \<le> \<bar>x\<bar>" "0 \<le> x * z" "repr64 z"
proof (cases "0 \<le> x")
  case True
  then obtain z where z: "rnd64 (x * m) = Fin z" "0 \<le> z" "z \<le> x"
    using rnd64_shrink [OF assms(1), of "x * m"] assms(2,3) by (metis mult_nonneg_nonneg mult_right_le_one_le)
  then show thesis using that [of z] repr64_rnd64 [OF z(1)] True by simp
next
  case False
  have "repr64 (- x)" using assms(1) by (simp add: repr64_def rnd64_minus)
  then obtain z where z: "rnd64 (- x * m) = Fin z" "0 \<le> z" "z \<le> - x"
    using rnd64_shrink [of "- x" "- x * m"] False assms(2,3) by (metis linear mult_nonneg_nonneg mult_right_le_one_le neg_0_le_iff_le)
  then have "rnd64 (x * m) = Fin (- z)" using rnd64_minus [of "- x * m"] by simp
  then show thesis using that [of "- z"] repr64_rnd64 z False by (simp add: mult_nonpos_nonpos mult_nonneg_nonpos2)
qed

lemma rnd64_nonneg: "0 \<le> x \<Longrightarrow> rnd64 x = Fin z \<Longrightarrow> 0 \<le> z"
proof (cases "x = 0")
  case False
  assume "0 \<le> x" "rnd64 x = Fin z"
  moreover from this obtain m where "z = of_int m * pow2 (ulp_exp x)" "m = round_half_even (x / pow2 (ulp_exp x))"
    using rnd64_nonzero_Fin [OF _ False, of z] by metis
  ultimately show ?thesis using round_half_even_nonneg [of "x / pow2 (ulp_exp x)"] by (simp add: divide_nonneg_pos)
qed simp

lemma rnd64_pos_not_MInf: "0 \<le> x \<Longrightarrow> rnd64 x \<noteq> MInf"
  by (auto simp: rnd64_def Let_def)

end
