(* ===== verification/Json.thy ===== *)
theory Json
  imports Py_Values "HOL-Library.Char_ord" "HOL-Library.List_Lexorder"
begin

text \<open>
  The document values and the text predicates of the persisted components: JSON as
  \<open>json.loads\<close> builds it, lookups in an object, comparison with a literal the way Python's
  \<open>==\<close> compares across numeric types, \<open>str.strip\<close>, and the regular expressions the factor
  cache checks names with.
\<close>

section \<open>JSON values\<close>

datatype json = JNull | JBool bool | JInt int | JFloat float64 | JStr string | JArr "json list" | JObj "(string \<times> json) list"

fun json_truthy :: "json \<Rightarrow> bool" where
  "json_truthy JNull = False"
| "json_truthy (JBool b) = b"
| "json_truthy (JInt n) = (n \<noteq> 0)"
| "json_truthy (JFloat x) = (x \<noteq> Fin 0)"
| "json_truthy (JStr s) = (s \<noteq> [])"
| "json_truthy (JArr xs) = (xs \<noteq> [])"
| "json_truthy (JObj kvs) = (kvs \<noteq> [])"

definition item_of :: "(string \<times> json) list \<Rightarrow> string \<Rightarrow> json res" where
  "item_of d k = (case map_of d k of None \<Rightarrow> Inl (KeyError k) | Some v \<Rightarrow> Inr v)"

definition item_get :: "(string \<times> json) list \<Rightarrow> string \<Rightarrow> json" where
  "item_get d k = (case map_of d k of None \<Rightarrow> JNull | Some v \<Rightarrow> v)"

text \<open>\<open>value == n\<close> for an integer literal: \<open>True == 1\<close> and \<open>1.0 == 1\<close> hold in Python.\<close>

fun json_eq_int :: "json \<Rightarrow> int \<Rightarrow> bool" where
  "json_eq_int (JInt k) n = (k = n)"
| "json_eq_int (JBool b) n = ((if b then 1 else 0) = n)"
| "json_eq_int (JFloat x) n = (x = Fin (of_int n))"
| "json_eq_int _ n = False"

fun json_dict :: "json \<Rightarrow> (string \<times> json) list option" where
  "json_dict (JObj d) = Some d"
| "json_dict _ = None"

fun json_int :: "json \<Rightarrow> int option" where
  "json_int (JInt n) = Some n"
| "json_int _ = None"

fun json_str :: "json \<Rightarrow> string option" where
  "json_str (JStr s) = Some s"
| "json_str _ = None"

lemma json_dict_Some [simp]: "json_dict v = Some d \<longleftrightarrow> v = JObj d"
  by (cases v) auto

lemma json_int_Some [simp]: "json_int v = Some n \<longleftrightarrow> v = JInt n"
  by (cases v) auto

lemma json_str_Some [simp]: "json_str v = Some s \<longleftrightarrow> v = JStr s"
  by (cases v) auto

section \<open>Text\<close>

definition is_space :: "char \<Rightarrow> bool" where
  "is_space c = (of_char c \<in> {9, 10, 11, 12, 13, 28, 29, 30, 31, 32, 133, 160 :: nat})"

definition str_strip :: "string \<Rightarrow> string" where
  "str_strip s = rev (dropWhile is_space (rev (dropWhile is_space s)))"

definition newline :: char where
  "newline = CHR 0x0A"

definition lower_hex :: "char \<Rightarrow> bool" where
  "lower_hex c = ((CHR ''0'' \<le> c \<and> c \<le> CHR ''9'') \<or> (CHR ''a'' \<le> c \<and> c \<le> CHR ''f''))"

definition hex_name :: "nat \<Rightarrow> string \<Rightarrow> bool" where
  "hex_name n s = (length s = n \<and> list_all lower_hex s)"

definition is_letter :: "char \<Rightarrow> bool" where
  "is_letter c = ((CHR ''A'' \<le> c \<and> c \<le> CHR ''Z'') \<or> (CHR ''a'' \<le> c \<and> c \<le> CHR ''z''))"

definition is_digit :: "char \<Rightarrow> bool" where
  "is_digit c = (CHR ''0'' \<le> c \<and> c \<le> CHR ''9'')"

text \<open>\<open>[A-Za-z][A-Za-z0-9_.-]{0,127}\<close>, matched in full.\<close>

definition portable_name :: "string \<Rightarrow> bool" where
  "portable_name s = (case s of [] \<Rightarrow> False
     | c # cs \<Rightarrow> is_letter c \<and> length cs \<le> 127
         \<and> list_all (\<lambda>d. is_letter d \<or> is_digit d \<or> d \<in> {CHR ''_'', CHR ''.'', CHR ''-''}) cs)"

lemma lower_hex_not_space: "lower_hex c \<Longrightarrow> \<not> is_space c"
  by (auto simp: lower_hex_def is_space_def less_eq_char_def)

lemma str_strip_hex: "hex_name n s \<Longrightarrow> str_strip (s @ [newline]) = s"
proof -
  assume h: "hex_name n s"
  have sp: "is_space newline" by (simp add: is_space_def newline_def)
  have no: "\<forall>c\<in>set s. \<not> is_space c" using h lower_hex_not_space by (auto simp: hex_name_def list_all_iff)
  have left: "dropWhile is_space (s @ [newline]) = (if s = [] then [] else s @ [newline])"
    using no sp by (cases s) auto
  have right: "dropWhile is_space (rev s) = rev s" using no by (cases s rule: rev_cases) auto
  show ?thesis using sp right by (simp add: str_strip_def left)
qed

lemma hex_name_not_dotted: "hex_name n s \<Longrightarrow> 0 < n \<Longrightarrow> hd s \<noteq> CHR ''.''"
  by (cases s) (auto simp: hex_name_def lower_hex_def less_eq_char_def)

end
