(* ===== verification/Control_Plane.thy ===== *)
theory Control_Plane
  imports Risk Rounding Json "HOL-Library.Product_Lexorder"
begin

text \<open>
  The control plane (\<open>control_plane.py\<close>): proportional clipping of exposures at the nodes of the
  portfolio hierarchy, dated trading overrides with their persisted form and the policy that applies
  them, and the rolling trade budget. Polars' column sum is a parameter (\<open>pl_sum\<close>): its order of
  summation is not specified, and the clipping facts hold for every choice.
\<close>

section \<open>Exposure limits\<close>

datatype control_level = PORTFOLIO | STRATEGY | GROUP | INSTRUMENT

fun level_value :: "control_level \<Rightarrow> string" where
  "level_value PORTFOLIO = ''portfolio''" | "level_value STRATEGY = ''strategy''"
| "level_value GROUP = ''group''" | "level_value INSTRUMENT = ''instrument''"

record exposure_limit =
  el_level :: control_level
  el_maximum :: float64
  el_key :: "string option"

definition key_error :: "control_level \<Rightarrow> bool \<Rightarrow> bool \<Rightarrow> string \<Rightarrow> exn option" where
  "key_error level key_none key_truthy what =
     (if level = PORTFOLIO then (if key_none then None else Some (ValueError (''portfolio '' @ what @ '' key must be None'')))
      else if key_truthy then None else Some (ValueError (level_value level @ '' '' @ what @ '' requires a key'')))"

definition str_truthy :: "string option \<Rightarrow> bool" where
  "str_truthy k = (k \<noteq> None \<and> k \<noteq> Some [])"

definition exposure_limit_init :: "control_level \<Rightarrow> float64 \<Rightarrow> string option \<Rightarrow> exposure_limit res" where
  "exposure_limit_init level maximum key =
     (if \<not> is_finite maximum \<or> f_le maximum (Fin 0) then Inl (ValueError ''exposure limit must be finite and positive'')
      else case key_error level (key = None) (str_truthy key) ''limit'' of
          Some e \<Rightarrow> Inl e
        | None \<Rightarrow> Inr \<lparr>el_level = level, el_maximum = maximum, el_key = key\<rparr>)"

definition limiter_init :: "exposure_limit list \<Rightarrow> exposure_limit list res" where
  "limiter_init limits =
     (if limits = [] then Inl (ValueError ''at least one exposure limit is required'')
      else if \<not> distinct (map (\<lambda>l. (el_level l, el_key l)) limits)
      then Inl (ValueError ''exposure limits must have unique level/key identities'')
      else Inr limits)"

text \<open>A frame of positions: the columns it has, and its rows, where \<open>None\<close> is a null.\<close>

record position_row =
  px_symbol :: "string option"
  px_strategy :: "string option"
  px_contract_group :: "string option"
  px_net_exposure :: "float64 option"

record position_frame =
  pf_columns :: "string list"
  pf_rows :: "position_row list"

record limited_row =
  lr_symbol :: string
  lr_strategy :: string
  lr_contract_group :: string
  lr_pre_limit_net_exposure :: float64
  lr_net_exposure :: float64
  lr_limit_multiplier :: float64

record limit_diagnostic =
  ld_level :: string
  ld_key :: "string option"
  ld_gross_before :: float64
  ld_limit :: float64
  ld_multiplier :: float64
  ld_gross_after :: float64
  ld_clipped :: bool

definition checked_positions :: "position_frame \<Rightarrow> limited_row list res" where
  "checked_positions pf =
     (if \<not> {''symbol'', ''strategy'', ''contract_group'', ''net_exposure''} \<subseteq> set (pf_columns pf)
        then Inl (ValueError ''position columns are missing'')
      else if pf_rows pf = [] then Inl (ValueError ''positions cannot be empty'')
      else if \<exists>r\<in>set (pf_rows pf). px_symbol r = None then Inl (ValueError ''position symbol cannot be null'')
      else if \<exists>r\<in>set (pf_rows pf). px_strategy r = None then Inl (ValueError ''position strategy cannot be null'')
      else if \<exists>r\<in>set (pf_rows pf). px_contract_group r = None then Inl (ValueError ''position contract_group cannot be null'')
      else if \<exists>r\<in>set (pf_rows pf). px_net_exposure r = None then Inl (ValueError ''net exposure cannot be null'')
      else if \<exists>r\<in>set (pf_rows pf). \<not> is_finite (the (px_net_exposure r)) then Inl (ValueError ''net exposure must be finite'')
      else Inr (map (\<lambda>r. \<lparr>lr_symbol = the (px_symbol r), lr_strategy = the (px_strategy r),
        lr_contract_group = the (px_contract_group r), lr_pre_limit_net_exposure = the (px_net_exposure r),
        lr_net_exposure = the (px_net_exposure r), lr_limit_multiplier = Fin 1\<rparr>) (pf_rows pf)))"

fun limit_mask :: "exposure_limit \<Rightarrow> limited_row \<Rightarrow> bool" where
  "limit_mask l r = (case el_level l of
      PORTFOLIO \<Rightarrow> True
    | STRATEGY \<Rightarrow> Some (lr_strategy r) = el_key l
    | GROUP \<Rightarrow> Some (lr_contract_group r) = el_key l
    | INSTRUMENT \<Rightarrow> Some (lr_symbol r) = el_key l)"

fun limit_ordering :: "control_level \<Rightarrow> nat" where
  "limit_ordering INSTRUMENT = 0" | "limit_ordering GROUP = 1"
| "limit_ordering STRATEGY = 2" | "limit_ordering PORTFOLIO = 3"

definition limit_multiplier_of :: "float64 \<Rightarrow> float64 \<Rightarrow> float64" where
  "limit_multiplier_of maximum gross_before =
     (if f_lt (Fin 0) gross_before then py_fmin (Fin 1) (f_div maximum gross_before) else Fin 1)"

definition scale_row :: "float64 \<Rightarrow> limited_row \<Rightarrow> limited_row" where
  "scale_row m r = r\<lparr>lr_net_exposure := f_mul (lr_net_exposure r) m, lr_limit_multiplier := f_mul (lr_limit_multiplier r) m\<rparr>"

definition apply_limit :: "(float64 list \<Rightarrow> float64) \<Rightarrow> limited_row list \<times> limit_diagnostic list \<Rightarrow> exposure_limit
    \<Rightarrow> (limited_row list \<times> limit_diagnostic list) res" where
  "apply_limit pl_sum = (\<lambda>(result, rows) limit.
     let matched = filter (limit_mask limit) result in
     if matched = [] then Inl (ValueError ''exposure limit matches no positions'')
     else let gross_before = pl_sum (map (\<lambda>r. f_abs (lr_net_exposure r)) matched);
              multiplier = limit_multiplier_of (el_maximum limit) gross_before in
       Inr (map (\<lambda>r. if limit_mask limit r then scale_row multiplier r else r) result,
            rows @ [\<lparr>ld_level = level_value (el_level limit), ld_key = el_key limit, ld_gross_before = gross_before,
              ld_limit = el_maximum limit, ld_multiplier = multiplier, ld_gross_after = f_mul gross_before multiplier,
              ld_clipped = f_lt multiplier (Fin 1)\<rparr>]))"

text \<open>The result: each row with its \<open>gross_exposure\<close>, and one diagnostic per limit.\<close>

definition limiter_apply :: "(float64 list \<Rightarrow> float64) \<Rightarrow> exposure_limit list \<Rightarrow> position_frame
    \<Rightarrow> ((limited_row \<times> float64) list \<times> limit_diagnostic list) res" where
  "limiter_apply pl_sum limits pf =
     rbind (checked_positions pf) (\<lambda>result.
     rbind (res_fold (apply_limit pl_sum) (result, []) (sort_key (\<lambda>l. limit_ordering (el_level l)) limits)) (\<lambda>(result, rows).
     Inr (map (\<lambda>r. (r, f_abs (lr_net_exposure r))) result, rows)))"

section \<open>Trading overrides\<close>

datatype trading_mode = MODE_ACTIVE | REDUCE_ONLY | NO_TRADE

fun mode_value :: "trading_mode \<Rightarrow> string" where
  "mode_value MODE_ACTIVE = ''active''" | "mode_value REDUCE_ONLY = ''reduce_only''" | "mode_value NO_TRADE = ''no_trade''"

record trading_override =
  to_level :: control_level
  to_mode :: trading_mode
  to_effective_from :: int
  to_reason :: string
  to_key :: json
  to_expires_at :: "int option"

definition trading_override_init :: "control_level \<Rightarrow> trading_mode \<Rightarrow> datetime64 \<Rightarrow> string \<Rightarrow> json \<Rightarrow> datetime64 option
    \<Rightarrow> trading_override res" where
  "trading_override_init level mode effective_from reason key expires_at =
     (case (dt_ns effective_from, map_option dt_ns expires_at) of
        (None, _) \<Rightarrow> Inl (ValueError ''override timestamps cannot be NaT'')
      | (_, Some None) \<Rightarrow> Inl (ValueError ''override timestamps cannot be NaT'')
      | (Some start, end) \<Rightarrow>
          if (case end of Some (Some e) \<Rightarrow> e < start | _ \<Rightarrow> False)
            then Inl (ValueError ''override expiry cannot precede its effective time'')
          else if list_all is_space reason then Inl (ValueError ''override reason cannot be empty'')
          else case key_error level (key = JNull) (json_truthy key) ''override'' of
              Some e \<Rightarrow> Inl e
            | None \<Rightarrow> Inr \<lparr>to_level = level, to_mode = mode, to_effective_from = start, to_reason = reason, to_key = key,
                to_expires_at = Option.bind end id\<rparr>)"

definition override_is_active :: "trading_override \<Rightarrow> int \<Rightarrow> bool" where
  "override_is_active ov t = (to_effective_from ov \<le> t \<and> (case to_expires_at ov of None \<Rightarrow> True | Some e \<Rightarrow> t \<le> e))"

definition override_matches :: "trading_override \<Rightarrow> order \<Rightarrow> string option \<Rightarrow> bool res" where
  "override_matches ov ord strategy = (case to_level ov of
      PORTFOLIO \<Rightarrow> Inr True
    | STRATEGY \<Rightarrow> Inr ((case strategy of None \<Rightarrow> JNull | Some s \<Rightarrow> JStr s) = to_key ov)
    | GROUP \<Rightarrow> rbind (order_contract ord) (\<lambda>c. Inr (JStr (cg_name (c_group c)) = to_key ov))
    | INSTRUMENT \<Rightarrow> rbind (order_contract ord) (\<lambda>c. Inr (JStr (c_symbol c) = to_key ov)))"

fun severity :: "trading_mode \<Rightarrow> nat" where
  "severity MODE_ACTIVE = 0" | "severity REDUCE_ONLY = 1" | "severity NO_TRADE = 2"

fun specificity :: "control_level \<Rightarrow> nat" where
  "specificity PORTFOLIO = 0" | "specificity STRATEGY = 1" | "specificity GROUP = 2" | "specificity INSTRUMENT = 3"

definition override_rank :: "trading_override \<Rightarrow> nat \<times> nat \<times> int" where
  "override_rank ov = (severity (to_mode ov), specificity (to_level ov), to_effective_from ov)"

text \<open>\<open>max(xs, key=f)\<close>: the first element no later one exceeds.\<close>

primrec max_by :: "('a \<Rightarrow> 'k::linorder) \<Rightarrow> 'a \<Rightarrow> 'a list \<Rightarrow> 'a" where
  "max_by f best [] = best"
| "max_by f best (x # xs) = max_by f (if f best < f x then x else best) xs"

definition resolve :: "trading_override list \<Rightarrow> order \<Rightarrow> int \<Rightarrow> string option \<Rightarrow> trading_override option res" where
  "resolve overrides ord t strategy =
     rbind (res_map (\<lambda>ov. if override_is_active ov t then rbind (override_matches ov ord strategy) (\<lambda>b. Inr (ov, b)) else Inr (ov, False))
       overrides) (\<lambda>tested.
     case map fst (filter snd tested) of
       [] \<Rightarrow> Inr None
     | m # ms \<Rightarrow> Inr (Some (max_by override_rank m ms)))"

definition override_policy :: "trading_override list \<Rightarrow> string option \<Rightarrow> order_heap \<Rightarrow> risk_context \<Rightarrow> order \<Rightarrow> policy_result res" where
  "override_policy book strategy heap ctx ord =
     rbind (resolve book ord (rc_timestamp ctx) strategy) (\<lambda>found.
     case found of
       None \<Rightarrow> Inr accept
     | Some ov \<Rightarrow> (case to_mode ov of
         MODE_ACTIVE \<Rightarrow> Inr accept
       | NO_TRADE \<Rightarrow> Inr \<lparr>pr_accepted = False, pr_code = ''no_trade_override'', pr_message = to_reason ov\<rparr>
       | REDUCE_ONLY \<Rightarrow>
           rbind (projected_position heap ctx ord) (\<lambda>projected.
           rbind (val_num (o_qty ord)) (\<lambda>q.
           rbind (num_sub projected q) (\<lambda>before.
           Inr (if num_lt (num_abs projected) (num_abs before) then accept
                else \<lparr>pr_accepted = False, pr_code = ''reduce_only_override'', pr_message = to_reason ov\<rparr>))))))"

subsection \<open>The persisted book\<close>

text \<open>
  \<open>show_dt\<close> and \<open>parse_dt\<close> are NumPy's text form of an instant and its reading. The document is
  the JSON value that \<open>save\<close> writes and \<open>load\<close> reads.
\<close>

definition override_payload :: "(int \<Rightarrow> string) \<Rightarrow> trading_override \<Rightarrow> json" where
  "override_payload show_dt ov = JObj [(''level'', JStr (level_value (to_level ov))), (''key'', to_key ov),
     (''mode'', JStr (mode_value (to_mode ov))), (''effective_from'', JStr (show_dt (to_effective_from ov))),
     (''expires_at'', case to_expires_at ov of None \<Rightarrow> JNull | Some e \<Rightarrow> JStr (show_dt e)), (''reason'', JStr (to_reason ov))]"

definition book_save :: "(int \<Rightarrow> string) \<Rightarrow> trading_override list \<Rightarrow> json" where
  "book_save show_dt book = JObj [(''schema_version'', JInt 1), (''overrides'', JArr (map (override_payload show_dt) book))]"

definition level_of :: "json \<Rightarrow> control_level res" where
  "level_of v = (case find (\<lambda>l. JStr (level_value l) = v) [PORTFOLIO, STRATEGY, GROUP, INSTRUMENT] of
      None \<Rightarrow> Inl (ValueError ''not a valid ControlLevel'') | Some l \<Rightarrow> Inr l)"

definition mode_of :: "json \<Rightarrow> trading_mode res" where
  "mode_of v = (case find (\<lambda>m. JStr (mode_value m) = v) [MODE_ACTIVE, REDUCE_ONLY, NO_TRADE] of
      None \<Rightarrow> Inl (ValueError ''not a valid TradingMode'') | Some m \<Rightarrow> Inr m)"

definition json_datetime :: "(string \<Rightarrow> datetime64 option) \<Rightarrow> json \<Rightarrow> datetime64 res" where
  "json_datetime parse_dt v = (case v of
      JNull \<Rightarrow> Inr (Datetime64 DT_ns None)
    | JStr s \<Rightarrow> (case parse_dt s of None \<Rightarrow> Inl (ValueError ''Error parsing datetime string'') | Some t \<Rightarrow> Inr t)
    | _ \<Rightarrow> Inl (ValueError ''Could not convert object to NumPy datetime''))"

definition load_override :: "(string \<Rightarrow> datetime64 option) \<Rightarrow> (string \<times> json) list \<Rightarrow> trading_override res" where
  "load_override parse_dt item =
     rbind (item_of item ''level'') (\<lambda>lv. rbind (level_of lv) (\<lambda>level.
     rbind (item_of item ''mode'') (\<lambda>mv. rbind (mode_of mv) (\<lambda>mode.
     rbind (item_of item ''effective_from'') (\<lambda>ev. rbind (json_datetime parse_dt ev) (\<lambda>effective_from.
     rbind (case item_get item ''expires_at'' of JNull \<Rightarrow> Inr None | xv \<Rightarrow> rbind (json_datetime parse_dt xv) (\<lambda>x. Inr (Some x))) (\<lambda>expires_at.
     rbind (item_of item ''reason'') (\<lambda>rv.
     case rv of
       JStr reason \<Rightarrow> trading_override_init level mode effective_from reason (item_get item ''key'') expires_at
     | _ \<Rightarrow> Inl (AttributeError ''strip'')))))))))"

definition is_schema_1 :: "json \<Rightarrow> bool" where
  "is_schema_1 v = (v = JInt 1 \<or> v = JBool True \<or> v = JFloat (Fin 1))"

definition book_load :: "(string \<Rightarrow> datetime64 option) \<Rightarrow> json \<Rightarrow> trading_override list res" where
  "book_load parse_dt payload = (case payload of
      JObj d \<Rightarrow> (case (is_schema_1 (item_get d ''schema_version''), item_get d ''overrides'') of
          (True, JArr items) \<Rightarrow>
            if \<forall>i\<in>set items. (case i of JObj _ \<Rightarrow> True | _ \<Rightarrow> False)
            then res_map (\<lambda>i. case i of JObj item \<Rightarrow> load_override parse_dt item | _ \<Rightarrow> Inl (TypeError ''item'')) items
            else Inl (ValueError ''trading override entries must be objects'')
        | _ \<Rightarrow> Inl (ValueError ''unsupported trading override book schema''))
    | _ \<Rightarrow> Inl (ValueError ''trading override book root must be an object''))"

section \<open>Rolling trade budget\<close>

record trade_budget =
  tb_maximum_quantity :: float64
  tb_window :: int
  tb_level :: control_level
  tb_key :: "string option"
  tb_strategy :: "string option"

text \<open>The window is a \<open>timedelta64\<close>: a unit and a number of nanoseconds, \<open>None\<close> for NaT.\<close>

definition trade_budget_init :: "float64 \<Rightarrow> datetime64 \<Rightarrow> control_level \<Rightarrow> string option \<Rightarrow> string option \<Rightarrow> trade_budget res" where
  "trade_budget_init maximum window level key strategy =
     (if \<not> is_finite maximum \<or> f_le maximum (Fin 0) then Inl (ValueError ''trade budget must be finite and positive'')
      else if dt_unit_of window \<in> {DT_Y, DT_M} then Inl (ValueError ''trade-budget window must use a fixed-duration unit'')
      else case dt_ns window of
          None \<Rightarrow> Inl (ValueError ''trade-budget window must be positive'')
        | Some w \<Rightarrow>
            if w \<le> 0 then Inl (ValueError ''trade-budget window must be positive'')
            else case (if level = STRATEGY then
                         (if \<not> str_truthy key \<or> strategy \<noteq> key
                          then Some (ValueError ''strategy trade budget requires a matching strategy key'') else None)
                       else key_error level (key = None) (str_truthy key) ''trade-budget'') of
                Some e \<Rightarrow> Inl e
              | None \<Rightarrow> Inr \<lparr>tb_maximum_quantity = maximum, tb_window = w, tb_level = level, tb_key = key, tb_strategy = strategy\<rparr>)"

definition budget_matches :: "trade_budget \<Rightarrow> order \<Rightarrow> bool res" where
  "budget_matches self ord = (case tb_level self of
      PORTFOLIO \<Rightarrow> Inr True
    | STRATEGY \<Rightarrow> Inr True
    | GROUP \<Rightarrow> rbind (order_contract ord) (\<lambda>c. Inr (Some (cg_name (c_group c)) = tb_key self))
    | INSTRUMENT \<Rightarrow> rbind (order_contract ord) (\<lambda>c. Inr (Some (c_symbol c) = tb_key self)))"

definition executed_quantity :: "trade_budget \<Rightarrow> risk_context \<Rightarrow> int res" where
  "executed_quantity self ctx =
     rbind (account_trades (\<lambda>_. None) (rc_account ctx) None (DateValue (Datetime64 DT_ns (Some (rc_timestamp ctx - tb_window self))))
         (DateValue (Datetime64 DT_ns (Some (rc_timestamp ctx))))) (\<lambda>trades.
     rbind (res_map (\<lambda>tr. rbind (budget_matches self (ts_order tr)) (\<lambda>b. Inr (if b then \<bar>ts_qty tr\<bar> else 0))) trades) (\<lambda>qs.
     Inr (sum_list qs)))"

definition pending_budget :: "trade_budget \<Rightarrow> order_heap \<Rightarrow> risk_context \<Rightarrow> pynum list res" where
  "pending_budget self heap ctx =
     rbind (res_map (\<lambda>i. rbind (budget_matches self (heap i)) (\<lambda>b. if b then rbind (val_num (o_qty (heap i))) (\<lambda>q. Inr [num_abs q]) else Inr []))
       (filter (\<lambda>i. is_open (heap i)) (rc_open_orders ctx))) (\<lambda>qss. Inr (concat qss))"

definition rolling_trade_budget :: "trade_budget \<Rightarrow> order_heap \<Rightarrow> risk_context \<Rightarrow> order \<Rightarrow> policy_result res" where
  "rolling_trade_budget self heap ctx ord =
     rbind (executed_quantity self ctx) (\<lambda>executed.
     rbind (pending_budget self heap ctx) (\<lambda>qs.
     rbind (res_fold num_add (PyInt 0) qs) (\<lambda>pending.
     rbind (num_add (PyInt executed) pending) (\<lambda>p.
     rbind (val_num (o_qty ord)) (\<lambda>q.
     rbind (num_add p (num_abs q)) (\<lambda>projected.
     Inr (if num_lt (PyFloat (tb_maximum_quantity self)) projected then reject ''rolling_trade_budget_exceeded'' else accept)))))))"

section \<open>Resolution finds the most severe override\<close>

lemma max_by_in: "max_by f b xs \<in> set (b # xs)"
  by (induction xs arbitrary: b) (auto split: if_splits)

lemma max_by_ge: "x \<in> set (b # xs) \<Longrightarrow> f x \<le> f (max_by f b xs)"
proof (induction xs arbitrary: b x)
  case (Cons a xs)
  have "f b \<le> f (if f b < f a then a else b)" "f a \<le> f (if f b < f a then a else b)" by auto
  moreover have "f (if f b < f a then a else b) \<le> f (max_by f b (a # xs))"
    using Cons.IH [of "if f b < f a then a else b"] by simp
  ultimately show ?case using Cons.IH [of x "if f b < f a then a else b"] Cons.prems by (force intro: order_trans)
qed simp

lemma override_rank_severity: "override_rank a \<le> override_rank b \<Longrightarrow> severity (to_mode a) \<le> severity (to_mode b)"
  by (auto simp: override_rank_def less_eq_prod_def)

definition in_force :: "trading_override list \<Rightarrow> order \<Rightarrow> int \<Rightarrow> string option \<Rightarrow> trading_override \<Rightarrow> bool" where
  "in_force book ord t strategy ov = (ov \<in> set book \<and> override_is_active ov t \<and> override_matches ov ord strategy = Inr True)"

lemma resolve_tested:
  assumes "res_map (\<lambda>ov. if override_is_active ov t then rbind (override_matches ov ord strategy) (\<lambda>b. Inr (ov, b)) else Inr (ov, False)) book = Inr tested"
  shows "ov \<in> set (map fst (filter snd tested)) \<longleftrightarrow> in_force book ord t strategy ov"
  using assms
proof (induction book arbitrary: tested)
  case (Cons a book)
  then obtain x ys where x: "(if override_is_active a t then rbind (override_matches a ord strategy) (\<lambda>b. Inr (a, b)) else Inr (a, False)) = Inr x"
    and ys: "res_map (\<lambda>ov. if override_is_active ov t then rbind (override_matches ov ord strategy) (\<lambda>b. Inr (ov, b)) else Inr (ov, False)) book = Inr ys"
    and t: "tested = x # ys" by auto
  have "snd x \<longleftrightarrow> override_is_active a t \<and> override_matches a ord strategy = Inr True" "fst x = a"
    using x by (auto split: if_splits)
  then show ?case using Cons.IH [OF ys] t by (auto simp: in_force_def)
qed (simp add: in_force_def)

lemma resolve_Inr:
  assumes "resolve book ord t strategy = Inr found"
  shows "case found of None \<Rightarrow> \<forall>ov. \<not> in_force book ord t strategy ov
    | Some best \<Rightarrow> in_force book ord t strategy best \<and> (\<forall>ov. in_force book ord t strategy ov \<longrightarrow> override_rank ov \<le> override_rank best)"
proof -
  from assms obtain tested where r: "res_map (\<lambda>ov. if override_is_active ov t then rbind (override_matches ov ord strategy)
      (\<lambda>b. Inr (ov, b)) else Inr (ov, False)) book = Inr tested"
    and f: "(case map fst (filter snd tested) of [] \<Rightarrow> Inr None | m # ms \<Rightarrow> Inr (Some (max_by override_rank m ms))) = (Inr found :: _ res)"
    by (auto simp: resolve_def)
  note s = resolve_tested [OF r]
  show ?thesis
  proof (cases "map fst (filter snd tested)")
    case Nil
    then show ?thesis using f s by auto
  next
    case (Cons m ms)
    then have "found = Some (max_by override_rank m ms)" using f by simp
    then show ?thesis using s Cons max_by_in [of override_rank m ms] max_by_ge [of _ m ms override_rank] by auto
  qed
qed

lemma mode_of_value [simp]: "mode_of (JStr (mode_value m)) = Inr m"
  by (cases m) (simp_all add: mode_of_def)

lemma level_of_value [simp]: "level_of (JStr (level_value l)) = Inr l"
  by (cases l) (simp_all add: level_of_def)

definition override_wf :: "trading_override \<Rightarrow> bool" where
  "override_wf ov = (\<exists>l m s r k e. trading_override_init l m s r k e = Inr ov)"

lemma trading_override_init_again:
  assumes "override_wf ov"
  shows "trading_override_init (to_level ov) (to_mode ov) (Datetime64 u (Some (to_effective_from ov))) (to_reason ov) (to_key ov)
     (map_option (\<lambda>e. Datetime64 v (Some e)) (to_expires_at ov)) = Inr ov"
proof -
  from assms obtain l m s r k e where i: "trading_override_init l m s r k e = Inr ov" by (auto simp: override_wf_def)
  show ?thesis
    by (cases "to_expires_at ov"; use i in \<open>auto simp: trading_override_init_def split: option.splits if_splits\<close>)
qed

lemma item_simps [simp]:
  "item_of ((k, v) # d) k' = (if k' = k then Inr v else item_of d k')"
  "item_get ((k, v) # d) k' = (if k' = k then v else item_get d k')"
  by (simp_all add: item_of_def item_get_def)

lemma load_override_payload:
  assumes "override_wf ov" "\<And>t. parse_dt (show_dt t) = Some (Datetime64 (u t) (Some t))"
  shows "(case override_payload show_dt ov of JObj item \<Rightarrow> load_override parse_dt item | _ \<Rightarrow> Inl (TypeError ''item'')) = Inr ov"
proof -
  note i = trading_override_init_again [OF assms(1), of "u (to_effective_from ov)"]
  show ?thesis
  proof (cases "to_expires_at ov")
    case None
    then show ?thesis using i by (simp add: override_payload_def load_override_def json_datetime_def assms(2))
  next
    case (Some e)
    then show ?thesis using i [of "u e"] by (simp add: override_payload_def load_override_def json_datetime_def assms(2))
  qed
qed

section \<open>Properties\<close>

text \<open>
  Claim C31. An override is never outranked by a more permissive one: when the override policy
  accepts an order, no override in force for it forbids trading, and if one in force allows only
  reductions then the order strictly shrinks the absolute projected position.
\<close>

theorem override_policy_respects_overrides:
  assumes "override_policy book strategy heap ctx ord = Inr r" "pr_accepted r"
    "ov \<in> set book" "override_is_active ov (rc_timestamp ctx)" "override_matches ov ord strategy = Inr True"
  shows "to_mode ov \<noteq> NO_TRADE \<and> (to_mode ov = REDUCE_ONLY \<longrightarrow>
    (\<exists>p q b. projected_position heap ctx ord = Inr p \<and> val_num (o_qty ord) = Inr q \<and> num_sub p q = Inr b \<and>
      num_lt (num_abs p) (num_abs b)))"
proof -
  from assms(1) obtain found where f: "resolve book ord (rc_timestamp ctx) strategy = Inr found" by (auto simp: override_policy_def)
  have ov: "in_force book ord (rc_timestamp ctx) strategy ov" using assms(3-5) by (simp add: in_force_def)
  then obtain best where b: "found = Some best" "override_rank ov \<le> override_rank best"
    using resolve_Inr [OF f] by (cases found) auto
  have s: "severity (to_mode ov) \<le> severity (to_mode best)" by (rule override_rank_severity [OF b(2)])
  show ?thesis
    using assms(1,2) f b(1) s
    by (cases "to_mode best"; cases "to_mode ov") (auto simp: override_policy_def accept_def split: if_splits)
qed

definition example_override :: trading_override where
  "example_override = \<lparr>to_level = GROUP, to_mode = REDUCE_ONLY, to_effective_from = 5, to_reason = ''halt'', to_key = JStr ''DEFAULT'',
     to_expires_at = Some 20\<rparr>"

definition halt_override :: trading_override where
  "halt_override = example_override\<lparr>to_mode := NO_TRADE, to_effective_from := 11\<rparr>"

definition reducing_context :: risk_context where
  "reducing_context = example_context\<lparr>rc_open_orders := [0]\<rparr>"

theorem override_policy_respects_overrides_witness:
  "\<exists>r p b. override_policy [halt_override, example_override] None example_heap reducing_context (example_order (-1)) = Inr r \<and> pr_accepted r \<and>
     projected_position example_heap reducing_context (example_order (-1)) = Inr p \<and> num_sub p (PyInt (- 1)) = Inr b \<and>
     num_lt (num_abs p) (num_abs b)"
proof -
  have p: "projected_position example_heap reducing_context (example_order (-1)) = Inr (PyInt 3)"
    by (simp add: projected_position_def order_contract_def example_order_def current_position_def positions_def reducing_context_def
        example_context_def require_configured_group_def configured_def example_account_def example_registry_def DEFAULT_CG_def
        pending_quantities_def example_heap_def is_open_def status_in_def val_num_def as_number_def)
  have v: "val_num (o_qty (example_order (-1))) = Inr (PyInt (-1))" by (simp add: val_num_def as_number_def example_order_def)
  have m: "override_matches example_override (example_order (-1)) None = Inr True"
    by (simp add: override_matches_def example_override_def order_contract_def example_order_def DEFAULT_CG_def)
  have a: "override_is_active example_override (rc_timestamp reducing_context)" "\<not> override_is_active halt_override (rc_timestamp reducing_context)"
    by (simp_all add: override_is_active_def example_override_def halt_override_def reducing_context_def example_context_def)
  have r: "override_policy [halt_override, example_override] None example_heap reducing_context (example_order (-1)) = Inr accept"
    by (simp add: override_policy_def resolve_def a m p v example_override_def [THEN arg_cong [of _ _ to_mode]]
        num_sub_def num_abs_def num_lt_def num_operands_def)
  show ?thesis
    using override_policy_respects_overrides [OF r _ _ a(1) m] r p
    by (auto simp: example_override_def accept_def val_num_def as_number_def example_order_def)
qed

text \<open>
  Saving a book of overrides and loading the document gives back the same book, in the
  same order, provided NumPy reads back the instants it prints.
\<close>

lemma override_book_round_trip:
  assumes "\<And>t. parse_dt (show_dt t) = Some (Datetime64 (u t) (Some t))" "\<And>ov. ov \<in> set book \<Longrightarrow> override_wf ov"
  shows "book_load parse_dt (book_save show_dt book) = Inr book"
proof -
  have "res_map (\<lambda>i. case i of JObj item \<Rightarrow> load_override parse_dt item | _ \<Rightarrow> Inl (TypeError ''item''))
      (map (override_payload show_dt) book) = Inr book"
    using load_override_payload [where parse_dt = parse_dt and show_dt = show_dt and u = u, OF assms(2,1)]
    by (auto simp: res_map_Inr_conv list_all2_map1 intro: list_all2_refl list.rel_refl_strong)
  moreover have "\<forall>i\<in>set (map (override_payload show_dt) book). (case i of JObj _ \<Rightarrow> True | _ \<Rightarrow> False)"
    by (auto simp: override_payload_def)
  ultimately show ?thesis by (simp add: book_load_def book_save_def is_schema_1_def)
qed

text \<open>A printer and a reader of instants in unary, so that the hypothesis is seen to be satisfiable.\<close>

definition show_unary :: "int \<Rightarrow> string" where
  "show_unary t = (if t < 0 then CHR ''-'' # replicate (nat (- t)) CHR ''1'' else replicate (nat t) CHR ''1'')"

definition parse_unary :: "string \<Rightarrow> datetime64 option" where
  "parse_unary s = Some (Datetime64 DT_ns (Some (case s of c # cs \<Rightarrow> if c = CHR ''-'' then - int (length cs) else int (length s) | [] \<Rightarrow> 0)))"

lemma parse_show_unary: "parse_unary (show_unary t) = Some (Datetime64 DT_ns (Some t))"
proof (cases "t \<le> 0")
  case False
  then obtain n where "nat t = Suc n" using gr0_implies_Suc by fastforce
  then show ?thesis using False by (auto simp: parse_unary_def show_unary_def)
qed (auto simp: parse_unary_def show_unary_def)

lemma example_override_wf: "override_wf example_override"
proof -
  have "trading_override_init GROUP REDUCE_ONLY (Datetime64 DT_ns (Some 5)) ''halt'' (JStr ''DEFAULT'') (Some (Datetime64 DT_ns (Some 20)))
     = Inr example_override"
    by (simp add: trading_override_init_def example_override_def key_error_def is_space_def)
  then show ?thesis unfolding override_wf_def by blast
qed

lemma override_book_round_trip_instance:
  "book_load parse_unary (book_save show_unary [example_override]) = Inr [example_override]"
  using override_book_round_trip [where u = "\<lambda>_. DT_ns", OF parse_show_unary, of "[example_override]"] example_override_wf by simp

lemma num_add_fold: "res_fold num_add (PyInt a) (map PyInt ps) = Inr (PyInt (a + sum_list ps))"
  by (induction ps arbitrary: a) (simp_all add: add.assoc)

lemma num_lt_PyFloat_PyInt: "num_lt (PyFloat (Fin m)) (PyInt n) \<longleftrightarrow> m < of_int n"
  by (simp add: num_lt_def num_operands_def)

lemma executed_quantity_window:
  assumes "0 < tb_window self" "\<And>tr. tr \<in> set (ac_trades (rc_account ctx)) \<Longrightarrow> \<exists>c. o_contract (ts_order tr) = Attr c"
  shows "executed_quantity self ctx = Inr (\<Sum>tr\<leftarrow>ac_trades (rc_account ctx).
     if rc_timestamp ctx - tb_window self \<le> ts_timestamp tr \<and> ts_timestamp tr \<le> rc_timestamp ctx \<and> budget_matches self (ts_order tr) = Inr True
     then \<bar>ts_qty tr\<bar> else 0)"
proof -
  let ?in = "\<lambda>tr. rc_timestamp ctx - tb_window self \<le> ts_timestamp tr \<and> ts_timestamp tr \<le> rc_timestamp ctx"
  let ?q = "\<lambda>tr. if budget_matches self (ts_order tr) = Inr True then \<bar>ts_qty tr\<bar> else 0"
  have step: "rbind (budget_matches self (ts_order tr)) (\<lambda>b. Inr (if b then \<bar>ts_qty tr\<bar> else 0)) = Inr (?q tr)"
    if "tr \<in> set (ac_trades (rc_account ctx))" for tr
    using assms(2) [OF that] by (auto simp: budget_matches_def order_contract_def split: control_level.splits)
  have "account_trades (\<lambda>_. None) (rc_account ctx) None (DateValue (Datetime64 DT_ns (Some (rc_timestamp ctx - tb_window self))))
      (DateValue (Datetime64 DT_ns (Some (rc_timestamp ctx)))) = Inr (filter ?in (ac_trades (rc_account ctx)))"
    using assms(1) by (simp add: account_trades_def checked_query_def validate_date_range_def parse_bound_def dt_lt_def in_date_range_def)
  moreover have "res_map (\<lambda>tr. rbind (budget_matches self (ts_order tr)) (\<lambda>b. Inr (if b then \<bar>ts_qty tr\<bar> else 0)))
      (filter ?in (ac_trades (rc_account ctx))) = Inr (map ?q (filter ?in (ac_trades (rc_account ctx))))"
    using step by (auto simp: res_map_Inr_conv list_all2_map2 intro!: list.rel_refl_strong)
  moreover have "(\<Sum>tr\<leftarrow>filter ?in xs. ?q tr) = (\<Sum>tr\<leftarrow>xs. if ?in tr \<and> budget_matches self (ts_order tr) = Inr True then \<bar>ts_qty tr\<bar> else 0)" for xs
    by (induction xs) auto
  ultimately show ?thesis by (simp add: executed_quantity_def)
qed

text \<open>
  The rolling budget counts what it says: an order is accepted exactly when the absolute
  quantities executed in the closed window that ends now, those still pending and its own, restricted
  to the orders the budget covers, do not exceed the maximum together.
\<close>

lemma rolling_trade_budget_exact:
  assumes "0 < tb_window self" "tb_maximum_quantity self = Fin m" "o_qty ord = VNum (PyInt q)"
    "\<And>tr. tr \<in> set (ac_trades (rc_account ctx)) \<Longrightarrow> \<exists>c. o_contract (ts_order tr) = Attr c"
    "pending_budget self heap ctx = Inr (map PyInt ps)"
  shows "\<exists>r. rolling_trade_budget self heap ctx ord = Inr r \<and> (pr_accepted r \<longleftrightarrow>
    of_int ((\<Sum>tr\<leftarrow>ac_trades (rc_account ctx).
      if rc_timestamp ctx - tb_window self \<le> ts_timestamp tr \<and> ts_timestamp tr \<le> rc_timestamp ctx \<and>
         budget_matches self (ts_order tr) = Inr True then \<bar>ts_qty tr\<bar> else 0) + sum_list ps + \<bar>q\<bar>) \<le> m)"
  using assms
  by (simp add: rolling_trade_budget_def executed_quantity_window num_add_fold val_num_def as_number_def num_abs_def
      num_lt_PyFloat_PyInt accept_def reject_def not_less del: of_int_add)

definition example_budget :: trade_budget where
  "example_budget = \<lparr>tb_maximum_quantity = Fin 7, tb_window = 5, tb_level = PORTFOLIO, tb_key = None, tb_strategy = None\<rparr>"

lemma rolling_trade_budget_exact_instance:
  "\<exists>r s. rolling_trade_budget example_budget example_heap example_context (example_order 3) = Inr r \<and> pr_accepted r \<and>
     rolling_trade_budget example_budget example_heap example_context (example_order (- 4)) = Inr s \<and> \<not> pr_accepted s"
proof -
  have p: "pending_budget example_budget example_heap example_context = Inr (map PyInt [4])"
    by (simp add: pending_budget_def example_context_def example_heap_def example_order_def is_open_def status_in_def
        budget_matches_def example_budget_def val_num_def as_number_def num_abs_def)
  have t: "ac_trades (rc_account example_context) = []" by (simp add: example_context_def example_account_def)
  have q: "o_qty (example_order n) = VNum (PyInt n)" for n by (simp add: example_order_def)
  have b: "0 < tb_window example_budget" "tb_maximum_quantity example_budget = Fin 7" by (simp_all add: example_budget_def)
  show ?thesis
    using rolling_trade_budget_exact [OF b q _ p, of 3] rolling_trade_budget_exact [OF b q _ p, of "- 4"] by (simp add: t)
qed

section \<open>Clipping\<close>

lemma limit_multiplier_of_unit:
  assumes "0 < a"
  obtains m where "limit_multiplier_of (Fin a) g = Fin m" "0 \<le> m" "m \<le> 1"
proof -
  have "\<exists>m. limit_multiplier_of (Fin a) g = Fin m \<and> 0 \<le> m \<and> m \<le> 1"
  proof (cases g)
    case (Fin x)
    then show ?thesis
    proof (cases "0 < x")
      case True
      then have q: "0 < a / x" using assms by simp
      show ?thesis
      proof (cases "rnd64 (a / x)")
        case (Fin z)
        moreover have "0 \<le> z" by (rule rnd64_nonneg [OF _ Fin]) (use q in simp)
        ultimately show ?thesis using True \<open>g = Fin x\<close> by (simp add: limit_multiplier_of_def py_fmin_def)
      qed (use True \<open>g = Fin x\<close> rnd64_pos_not_MInf [OF less_imp_le [OF q]] in \<open>simp_all add: limit_multiplier_of_def py_fmin_def\<close>)
    qed (simp add: limit_multiplier_of_def)
  qed (auto simp: limit_multiplier_of_def py_fmin_def)
  then show thesis using that by blast
qed

definition clipped_from :: "limited_row \<Rightarrow> limited_row \<Rightarrow> bool" where
  "clipped_from r0 r = (lr_symbol r = lr_symbol r0 \<and> lr_strategy r = lr_strategy r0 \<and> lr_contract_group r = lr_contract_group r0 \<and>
     lr_pre_limit_net_exposure r = lr_pre_limit_net_exposure r0 \<and>
     (\<exists>x z. lr_net_exposure r0 = Fin x \<and> lr_net_exposure r = Fin z \<and> \<bar>z\<bar> \<le> \<bar>x\<bar> \<and> 0 \<le> x * z \<and> repr64 z))"

lemma clipped_from_scale:
  assumes "clipped_from r0 r" "0 \<le> m" "m \<le> 1"
  shows "clipped_from r0 (scale_row (Fin m) r)"
proof -
  from assms(1) obtain x z where z: "lr_net_exposure r0 = Fin x" "lr_net_exposure r = Fin z" "\<bar>z\<bar> \<le> \<bar>x\<bar>" "0 \<le> x * z" "repr64 z"
    by (auto simp: clipped_from_def)
  from rnd64_scale [OF z(5) assms(2,3)] obtain w where w: "rnd64 (z * m) = Fin w" "\<bar>w\<bar> \<le> \<bar>z\<bar>" "0 \<le> z * w" "repr64 w" by blast
  have "0 \<le> x * w"
    using z(4) w(2,3) by (cases "z = 0") (auto simp: zero_le_mult_iff)
  then show ?thesis using assms(1) z w by (simp add: clipped_from_def scale_row_def)
qed

lemma apply_limit_clips:
  assumes "apply_limit pl_sum (rs, ds) l = Inr (rs', ds')" "el_maximum l = Fin a" "0 < a" "list_all2 clipped_from r0 rs"
  shows "list_all2 clipped_from r0 rs' \<and> length ds' = Suc (length ds)"
proof -
  obtain m where m: "limit_multiplier_of (Fin a) (pl_sum (map (\<lambda>r. f_abs (lr_net_exposure r)) (filter (limit_mask l) rs))) = Fin m"
    "0 \<le> m" "m \<le> 1" using limit_multiplier_of_unit [OF assms(3)] by blast
  have "rs' = map (\<lambda>r. if limit_mask l r then scale_row (Fin m) r else r) rs" "length ds' = Suc (length ds)"
    using assms(1,2) m(1) by (auto simp: apply_limit_def Let_def split: if_splits)
  then show ?thesis
    using assms(4) clipped_from_scale m(2,3) by (auto simp: list_all2_map2 elim!: list_all2_mono)
qed

lemma apply_limits_clip:
  assumes "res_fold (apply_limit pl_sum) (rs, ds) ls = Inr (rs', ds')" "\<forall>l\<in>set ls. \<exists>a. el_maximum l = Fin a \<and> 0 < a"
    "list_all2 clipped_from r0 rs"
  shows "list_all2 clipped_from r0 rs' \<and> length ds' = length ds + length ls"
  using assms
proof (induction ls arbitrary: rs ds)
  case (Cons l ls)
  then obtain rs1 ds1 where s: "apply_limit pl_sum (rs, ds) l = Inr (rs1, ds1)" "res_fold (apply_limit pl_sum) (rs1, ds1) ls = Inr (rs', ds')"
    by auto
  from Cons.prems(2) obtain a where "el_maximum l = Fin a" "0 < a" by auto
  with apply_limit_clips [OF s(1)] Cons.prems(3) have "list_all2 clipped_from r0 rs1" "length ds1 = Suc (length ds)" by auto
  with Cons.IH [OF s(2)] Cons.prems(2) show ?case by simp
qed simp

lemma checked_positions_Inr:
  assumes "checked_positions pf = Inr rs" "\<forall>p\<in>set (pf_rows pf). \<forall>x. px_net_exposure p = Some (Fin x) \<longrightarrow> repr64 x"
  shows "list_all2 clipped_from rs rs" "list_all2 (\<lambda>p r. px_symbol p = Some (lr_symbol r) \<and> px_strategy p = Some (lr_strategy r) \<and>
    px_contract_group p = Some (lr_contract_group r) \<and> px_net_exposure p = Some (lr_net_exposure r) \<and>
    lr_pre_limit_net_exposure r = lr_net_exposure r) (pf_rows pf) rs"
proof -
  from assms(1) have f: "\<And>r. r \<in> set (pf_rows pf) \<Longrightarrow> px_symbol r \<noteq> None \<and> px_strategy r \<noteq> None \<and> px_contract_group r \<noteq> None \<and>
      px_net_exposure r \<noteq> None \<and> is_finite (the (px_net_exposure r))"
    and rs: "rs = map (\<lambda>r. \<lparr>lr_symbol = the (px_symbol r), lr_strategy = the (px_strategy r),
        lr_contract_group = the (px_contract_group r), lr_pre_limit_net_exposure = the (px_net_exposure r),
        lr_net_exposure = the (px_net_exposure r), lr_limit_multiplier = Fin 1\<rparr>) (pf_rows pf)"
    by (auto simp: checked_positions_def split: if_splits)
  show "list_all2 (\<lambda>p r. px_symbol p = Some (lr_symbol r) \<and> px_strategy p = Some (lr_strategy r) \<and>
    px_contract_group p = Some (lr_contract_group r) \<and> px_net_exposure p = Some (lr_net_exposure r) \<and>
    lr_pre_limit_net_exposure r = lr_net_exposure r) (pf_rows pf) rs"
    unfolding rs list_all2_map2 by (rule list.rel_refl_strong) (use f in auto)
  show "list_all2 clipped_from rs rs"
    unfolding rs by (rule list.rel_refl_strong) (use f assms(2) in \<open>fastforce simp: clipped_from_def is_finite_iff\<close>)
qed

text \<open>
  Claim C32. Clipping never enlarges a position and never turns it around: whatever the limits and
  however Polars orders its sums, each input row is returned under its own symbol, strategy and group
  with its original exposure recorded, and its limited exposure is finite, of no larger magnitude and
  of the same sign or zero; there is one diagnostic per limit.
\<close>

theorem limiter_never_enlarges:
  assumes "limiter_apply pl_sum limits pf = Inr (rows, diagnostics)"
    "\<forall>l\<in>set limits. \<exists>a. el_maximum l = Fin a \<and> 0 < a"
    "\<forall>p\<in>set (pf_rows pf). \<forall>x. px_net_exposure p = Some (Fin x) \<longrightarrow> repr64 x"
  shows "list_all2 (\<lambda>p (r, gross). px_symbol p = Some (lr_symbol r) \<and> px_strategy p = Some (lr_strategy r) \<and>
      px_contract_group p = Some (lr_contract_group r) \<and> (\<exists>x z. px_net_exposure p = Some (Fin x) \<and>
      lr_pre_limit_net_exposure r = Fin x \<and> lr_net_exposure r = Fin z \<and> gross = Fin \<bar>z\<bar> \<and> \<bar>z\<bar> \<le> \<bar>x\<bar> \<and> 0 \<le> x * z))
    (pf_rows pf) rows \<and> length diagnostics = length limits"
proof -
  from assms(1) obtain rs rs' where rs: "checked_positions pf = Inr rs"
    and f: "res_fold (apply_limit pl_sum) (rs, []) (sort_key (\<lambda>l. limit_ordering (el_level l)) limits) = Inr (rs', diagnostics)"
    and rows: "rows = map (\<lambda>r. (r, f_abs (lr_net_exposure r))) rs'"
    by (auto simp: limiter_apply_def)
  note c = checked_positions_Inr [OF rs assms(3)]
  have k: "list_all2 clipped_from rs rs'" "length diagnostics = length limits"
    using apply_limits_clip [OF f _ c(1)] assms(2) by auto
  have "list_all2 (\<lambda>p (r, gross). px_symbol p = Some (lr_symbol r) \<and> px_strategy p = Some (lr_strategy r) \<and>
      px_contract_group p = Some (lr_contract_group r) \<and> (\<exists>x z. px_net_exposure p = Some (Fin x) \<and>
      lr_pre_limit_net_exposure r = Fin x \<and> lr_net_exposure r = Fin z \<and> gross = Fin \<bar>z\<bar> \<and> \<bar>z\<bar> \<le> \<bar>x\<bar> \<and> 0 \<le> x * z))
    (pf_rows pf) rows"
    unfolding rows list_all2_map2
    by (rule list_all2_trans [OF _ c(2) k(1)]) (auto simp: clipped_from_def)
  with k(2) show ?thesis by blast
qed

definition example_positions :: position_frame where
  "example_positions = \<lparr>pf_columns = [''symbol'', ''strategy'', ''contract_group'', ''net_exposure''],
     pf_rows = [\<lparr>px_symbol = Some ''A'', px_strategy = Some ''S'', px_contract_group = Some ''G'', px_net_exposure = Some (Fin 8)\<rparr>,
       \<lparr>px_symbol = Some ''B'', px_strategy = Some ''S'', px_contract_group = Some ''H'', px_net_exposure = Some (Fin (- 12))\<rparr>]\<rparr>"

definition example_limit :: exposure_limit where
  "example_limit = \<lparr>el_level = PORTFOLIO, el_maximum = Fin 20, el_key = None\<rparr>"

theorem limiter_never_enlarges_witness:
  "\<exists>r g rows diagnostics. limiter_apply (f_sum_from (Fin 0)) [example_limit] example_positions = Inr ((r, g) # rows, diagnostics) \<and>
     lr_pre_limit_net_exposure r = Fin 8 \<and> (\<exists>z. lr_net_exposure r = Fin z \<and> \<bar>z\<bar> \<le> 8)"
proof -
  have e: "\<exists>rows diagnostics. limiter_apply (f_sum_from (Fin 0)) [example_limit] example_positions = Inr (rows, diagnostics)"
    by (simp add: limiter_apply_def checked_positions_def example_positions_def apply_limit_def Let_def example_limit_def)
  then obtain rows diagnostics where l: "limiter_apply (f_sum_from (Fin 0)) [example_limit] example_positions = Inr (rows, diagnostics)"
    by blast
  have "repr64 8" "repr64 (- 12)" using repr64_of_int [of 8] repr64_of_int [of "- 12"] by simp_all
  then have r: "\<forall>p\<in>set (pf_rows example_positions). \<forall>x. px_net_exposure p = Some (Fin x) \<longrightarrow> repr64 x"
    by (auto simp: example_positions_def)
  have "\<forall>k\<in>set [example_limit]. \<exists>a. el_maximum k = Fin a \<and> 0 < a" by (simp add: example_limit_def)
  note c = conjunct1 [OF limiter_never_enlarges [OF l this r]]
  show ?thesis using c unfolding l by (auto simp: example_positions_def list_all2_Cons1)
qed

end
