(* ===== verification/Execution_Costs.thy ===== *)
theory Execution_Costs
  imports Risk Rounding
begin

text \<open>
  Slippage, market impact, commissions and fees (\<open>execution_costs.py\<close>). A slippage model moves the
  price against the order; a charge is never negative. Both contracts are locales, interpreted by
  every built-in model, and the market simulator is proved against the locales.
\<close>

section \<open>Square roots\<close>

text \<open>
  \<open>math.sqrt\<close>, correctly rounded: the integer square root of the scaled argument with a sticky bit
  in the last place, rounded once.
\<close>

fun isqrt :: "nat \<Rightarrow> nat" where
  "isqrt n = (if n = 0 then 0 else let r = 2 * isqrt (n div 4) in if (r + 1) ^ 2 \<le> n then r + 1 else r)"

declare isqrt.simps [simp del]

definition sqrt_scale :: "rat \<Rightarrow> int" where
  "sqrt_scale x = max 0 (60 - ilog2 x div 2)"

definition f_sqrt :: "float64 \<Rightarrow> float64 res" where
  "f_sqrt a = (case a of
      Fin x \<Rightarrow> if x < 0 then Inl (ValueError ''math domain error'')
               else if x = 0 then Inr (Fin 0)
               else let k = nat (sqrt_scale x); y = x * 4 ^ k; n = nat \<lfloor>y\<rfloor>; s = isqrt n in
                 Inr (rnd64 (of_nat (2 * s + (if of_nat (s * s) = y then 0 else 1)) / (2 * 2 ^ k)))
    | MInf \<Rightarrow> Inl (ValueError ''math domain error'')
    | PInf \<Rightarrow> Inr PInf
    | NaN \<Rightarrow> Inr NaN)"

lemma isqrt_bounds: "isqrt n * isqrt n \<le> n \<and> n < (isqrt n + 1) * (isqrt n + 1)"
proof (induction n rule: isqrt.induct)
  case (1 n)
  show ?case
  proof (cases "n = 0")
    case False
    define r where "r = isqrt (n div 4)"
    have "r * r \<le> n div 4" "n div 4 < (r + 1) * (r + 1)" using 1 [OF False] by (simp_all add: r_def)
    then have "4 * (r * r) \<le> n" "n < 4 * ((r + 1) * (r + 1))" by linarith+
    then have "(2 * r) * (2 * r) \<le> n" "n < (2 * r + 2) * (2 * r + 2)" by (simp_all add: algebra_simps)
    moreover have "isqrt n = (if (2 * r + 1) ^ 2 \<le> n then 2 * r + 1 else 2 * r)"
      using False by (subst isqrt.simps) (simp add: r_def Let_def)
    ultimately show ?thesis by (auto simp: power2_eq_square algebra_simps)
  qed (simp add: isqrt.simps)
qed

text \<open>Values that are not below zero: the ones a cost may take.\<close>

definition f_nonneg :: "float64 \<Rightarrow> bool" where
  "f_nonneg a = (case a of Fin x \<Rightarrow> 0 \<le> x | PInf \<Rightarrow> True | MInf \<Rightarrow> False | NaN \<Rightarrow> True)"

lemma f_nonneg_simps [simp]: "f_nonneg (Fin x) \<longleftrightarrow> 0 \<le> x" "f_nonneg PInf" "\<not> f_nonneg MInf" "f_nonneg NaN"
  by (simp_all add: f_nonneg_def)

lemma f_nonneg_rnd64: "0 \<le> x \<Longrightarrow> f_nonneg (rnd64 x)"
  using rnd64_nonneg [of x] rnd64_pos_not_MInf [of x] by (cases "rnd64 x") auto

lemma f_nonneg_abs [simp]: "f_nonneg (f_abs a)"
  by (cases a) simp_all

lemma f_nonneg_mul: "f_nonneg a \<Longrightarrow> f_nonneg b \<Longrightarrow> f_nonneg (f_mul a b)"
  by (cases a; cases b) (auto simp: f_nonneg_rnd64 inf_of_sign_def sgn_if)

lemma f_nonneg_div: "f_nonneg a \<Longrightarrow> f_lt (Fin 0) b \<Longrightarrow> f_nonneg (f_div a b)"
  by (cases a; cases b) (auto simp: f_nonneg_rnd64 inf_of_sign_def sgn_if)

lemma f_nonneg_sqrt: "f_sqrt a = Inr b \<Longrightarrow> f_nonneg b"
  by (cases a) (auto simp: f_sqrt_def Let_def intro!: f_nonneg_rnd64 split: if_splits)

section \<open>Slippage\<close>

datatype slippage_model =
    FixedPercentageSlippage float64
  | BidAskSpreadSlippage float64
  | SquareRootMarketImpact float64 float64 float64

definition nonneg_finite :: "string \<Rightarrow> float64 \<Rightarrow> unit res" where
  "nonneg_finite msg x = require (is_finite x \<and> \<not> f_lt x (Fin 0)) (ValueError msg)"

fun slippage_init :: "slippage_model \<Rightarrow> slippage_model res" where
  "slippage_init (FixedPercentageSlippage p) =
     rbind (nonneg_finite ''slippage percentage must be finite and non-negative'' p) (\<lambda>_. Inr (FixedPercentageSlippage p))"
| "slippage_init (BidAskSpreadSlippage s) =
     rbind (nonneg_finite ''spread must be finite and non-negative'' s) (\<lambda>_. Inr (BidAskSpreadSlippage s))"
| "slippage_init (SquareRootMarketImpact volume volatility coefficient) =
     (if \<not> (is_finite volume \<and> is_finite volatility \<and> is_finite coefficient) then Inl (ValueError ''market-impact inputs must be finite'')
      else if f_le volume (Fin 0) \<or> f_lt volatility (Fin 0) \<or> f_lt coefficient (Fin 0)
      then Inl (ValueError ''volume must be positive; volatility and coefficient must be non-negative'')
      else Inr (SquareRootMarketImpact volume volatility coefficient))"

text \<open>\<open>math.copysign(x, order.qty)\<close>, for a quantity that is not a negative zero.\<close>

definition copysign :: "float64 \<Rightarrow> float64 \<Rightarrow> float64" where
  "copysign a q = (if f_lt q (Fin 0) then f_neg (f_abs a) else f_abs a)"

definition order_float_qty :: "order \<Rightarrow> float64 res" where
  "order_float_qty ord = rbind (val_num (o_qty ord)) num_float"

fun adjustment :: "slippage_model \<Rightarrow> order \<Rightarrow> float64 \<Rightarrow> float64 res" where
  "adjustment (FixedPercentageSlippage percentage) ord raw_price =
     rbind (order_float_qty ord) (\<lambda>q. Inr (copysign (f_mul (f_abs raw_price) percentage) q))"
| "adjustment (BidAskSpreadSlippage spread) ord raw_price =
     rbind (order_float_qty ord) (\<lambda>q. Inr (copysign (f_div spread (Fin 2)) q))"
| "adjustment (SquareRootMarketImpact available_volume volatility coefficient) ord raw_price =
     rbind (val_num (o_qty ord)) (\<lambda>n. rbind (num_float (num_abs n)) (\<lambda>size.
     rbind (f_sqrt (f_div size available_volume)) (\<lambda>root.
     rbind (order_float_qty ord) (\<lambda>q.
     Inr (copysign (f_mul (f_abs raw_price) (f_mul (f_mul coefficient volatility) root)) q)))))"

section \<open>Charges\<close>

datatype charge_model = PerUnitCharge float64 | PerOrderCharge float64 | NotionalCharge float64

fun charge_init :: "charge_model \<Rightarrow> charge_model res" where
  "charge_init (PerUnitCharge a) = rbind (nonneg_finite ''per-unit charge must be finite and non-negative'' a) (\<lambda>_. Inr (PerUnitCharge a))"
| "charge_init (PerOrderCharge a) = rbind (nonneg_finite ''per-order charge must be finite and non-negative'' a) (\<lambda>_. Inr (PerOrderCharge a))"
| "charge_init (NotionalCharge r) = rbind (nonneg_finite ''notional charge rate must be finite and non-negative'' r) (\<lambda>_. Inr (NotionalCharge r))"

fun charge :: "charge_model \<Rightarrow> order \<Rightarrow> float64 \<Rightarrow> float64 res" where
  "charge (PerUnitCharge amount) ord execution_price =
     rbind (val_num (o_qty ord)) (\<lambda>n. rbind (num_float (num_abs n)) (\<lambda>size. Inr (f_mul amount size)))"
| "charge (PerOrderCharge amount) ord execution_price = Inr amount"
| "charge (NotionalCharge rate) ord execution_price =
     rbind (order_float_qty ord) (\<lambda>q. rbind (order_contract ord) (\<lambda>c.
     Inr (f_mul rate (f_abs (f_mul (f_mul q execution_price) (c_multiplier c))))))"

section \<open>The contracts\<close>

text \<open>
  What the simulator relies on: slippage is against the side of the order, charges are not negative.
\<close>

locale adverse_slippage =
  fixes adjust :: "order \<Rightarrow> float64 \<Rightarrow> float64 res"
  assumes adverse: "adjust ord raw = Inr s \<Longrightarrow> order_float_qty ord = Inr q \<Longrightarrow>
    (if f_lt q (Fin 0) then f_nonneg (f_neg s) else f_nonneg s)"
begin

lemma buy_pays_more:
  assumes "adjust ord (Fin r) = Inr (Fin s)" "order_float_qty ord = Inr (Fin q)" "0 < q"
  shows "r \<le> r + s"
  using adverse [OF assms(1,2)] assms(3) by simp

lemma sell_gets_less:
  assumes "adjust ord (Fin r) = Inr (Fin s)" "order_float_qty ord = Inr (Fin q)" "q < 0"
  shows "r + s \<le> r"
  using adverse [OF assms(1,2)] assms(3) by simp

end

locale nonnegative_charge =
  fixes cost :: "order \<Rightarrow> float64 \<Rightarrow> float64 res"
  assumes nonnegative: "o_qty ord = VNum (PyInt q) \<Longrightarrow> cost ord price = Inr x \<Longrightarrow> f_nonneg x"
begin

lemma finite_charge_nonneg: "o_qty ord = VNum (PyInt q) \<Longrightarrow> cost ord price = Inr (Fin x) \<Longrightarrow> 0 \<le> x"
  using nonnegative by fastforce

end

lemma copysign_adverse: "if f_lt q (Fin 0) then f_nonneg (f_neg (copysign a q)) else f_nonneg (copysign a q)"
  by (cases a) (auto simp: copysign_def)

lemma adjustment_adverse:
  assumes "adjustment m ord raw = Inr s" "order_float_qty ord = Inr q"
  shows "if f_lt q (Fin 0) then f_nonneg (f_neg s) else f_nonneg s"
proof -
  obtain a where "s = copysign a q" using assms by (cases m) auto
  then show ?thesis using copysign_adverse [of q a] by simp
qed

text \<open>A built-in charge as it is used: constructed, which may raise, and then called.\<close>

definition constructed_charge :: "charge_model \<Rightarrow> order \<Rightarrow> float64 \<Rightarrow> float64 res" where
  "constructed_charge m ord price = rbind (charge_init m) (\<lambda>m. charge m ord price)"

lemma charge_nonneg:
  assumes "o_qty ord = VNum (PyInt q)" "constructed_charge m ord price = Inr x"
  shows "f_nonneg x"
proof (cases m)
  case (PerUnitCharge a)
  then obtain y where "py_float \<bar>q\<bar> = Inr y" "x = f_mul a y" "f_nonneg a"
    using assms by (cases a) (auto simp: constructed_charge_def nonneg_finite_def val_num_def as_number_def num_abs_def)
  moreover have "f_nonneg y" if "py_float \<bar>q\<bar> = Inr y"
    using that f_nonneg_rnd64 [of "of_int \<bar>q\<bar>"] by (cases "rnd64 (of_int \<bar>q\<bar>)") (auto simp: py_float_def)
  ultimately show ?thesis by (simp add: f_nonneg_mul)
next
  case (PerOrderCharge a)
  then show ?thesis using assms by (cases a) (auto simp: constructed_charge_def nonneg_finite_def)
next
  case (NotionalCharge r)
  then show ?thesis using assms by (cases r) (auto simp: constructed_charge_def nonneg_finite_def intro!: f_nonneg_mul)
qed

interpretation built_in_slippage: adverse_slippage "adjustment m" for m
  by unfold_locales (rule adjustment_adverse)

interpretation built_in_charge: nonnegative_charge "constructed_charge m" for m
  by unfold_locales (rule charge_nonneg)

end
