(* ===== verification/Callback_Contracts.thy ===== *)
theory Callback_Contracts
  imports Orders
begin

text \<open>
  Validation of what user callbacks return (\<open>callback_contracts.py\<close>): stage arrays, the orders of a
  rule (with roll commands expanded into fresh legs) and the trades of a market simulator. The
  order objects live in a store; validation reads it and may add legs, but never changes an order.
  The lemmas state what admission guarantees: no duplicate, foreign, unregistered or ill-timed order
  gets in, and no simulator can fill an order beyond the quantity it had before the callback ran.
\<close>

section \<open>Stage values\<close>

datatype 'a stage_result = NotNdArray | StageArray nat "'a list"

definition validate_stage_values :: "nat \<Rightarrow> 'a stage_result \<Rightarrow> 'a list res" where
  "validate_stage_values expected_length result = (case result of
      NotNdArray \<Rightarrow> Inl (TypeError ''callback must return a NumPy array or Polars Series'')
    | StageArray ndim values \<Rightarrow>
        if ndim \<noteq> 1 then Inl (ValueError ''callback must return a one-dimensional array'')
        else if length values \<noteq> expected_length then Inl (ValueError ''callback returned the wrong number of values'')
        else Inr values)"

section \<open>Rule orders\<close>

record order_store =
  os_heap :: order_heap
  os_next :: nat

definition alloc :: "order \<Rightarrow> order_store \<Rightarrow> nat \<times> order_store" where
  "alloc ord st = (os_next st, st\<lparr>os_heap := (os_heap st)(os_next st := ord), os_next := os_next st + 1\<rparr>)"

fun dec_of :: "nat \<Rightarrow> string" where
  "dec_of n = (if n < 10 then [char_of (48 + n)] else dec_of (n div 10) @ [char_of (48 + n mod 10)])"

declare dec_of.simps [simp del]

definition stamp_leg :: "string option \<Rightarrow> nat \<Rightarrow> order \<Rightarrow> order" where
  "stamp_leg roll_id_prefix submission_index leg = (case roll_id_prefix of
      None \<Rightarrow> leg
    | Some p \<Rightarrow> leg\<lparr>o_properties := dict_set ''_gambit_roll_id'' (VStr (p @ '':'' @ dec_of submission_index)) (o_properties leg)\<rparr>)"

definition registered_is :: "registry \<Rightarrow> contract_group \<Rightarrow> contract \<Rightarrow> bool" where
  "registered_is reg g c = (case get_contract g (c_symbol c) reg of None \<Rightarrow> False | Some d \<Rightarrow> c_id d = c_id c)"

text \<open>The checks on one order object, up to the expansion of a roll.\<close>

definition check_rule_order :: "registry \<Rightarrow> contract_group \<Rightarrow> datetime64 \<Rightarrow> order \<Rightarrow> contract res" where
  "check_rule_order reg grp now ord =
     rbind (require (case o_kind ord of StopLimitOrder _ _ _ \<Rightarrow> False | _ \<Rightarrow> True)
        (ValueError ''StopLimitOrder is deprecated and cannot be executed'')) (\<lambda>_.
     rbind (validate_order_references ord) (\<lambda>_.
     rbind (case o_kind ord of RollOrder _ _ _ \<Rightarrow> Inr () | _ \<Rightarrow> rbind (whole_quantity ''order qty'' (o_qty ord)) (\<lambda>_. Inr ())) (\<lambda>_.
     rbind (case o_kind ord of LimitOrder p \<Rightarrow> rbind (finite_real ''limit price'' p) (\<lambda>_. Inr ()) | _ \<Rightarrow> Inr ()) (\<lambda>_.
     case o_contract ord of
       Foreign _ \<Rightarrow> Inl (TypeError ''order contract must be a Contract'')
     | Attr c \<Rightarrow>
         rbind (require (cg_id (c_group c) = cg_id grp) (ValueError ''rule returned a contract outside the contract group'')) (\<lambda>_.
         rbind (require (registered_is reg grp c) (ValueError ''rule returned an unregistered contract'')) (\<lambda>_.
         rbind (require (case as_datetime (o_timestamp ord) of None \<Rightarrow> False | Some t \<Rightarrow> \<not> isnat t \<and> dt_eq t now)
            (ValueError ''rule order timestamp does not match the current strategy timestamp'')) (\<lambda>_.
         rbind (case o_kind ord of
             VWAPOrder stop end_time \<Rightarrow> rbind (vwap_validate_window (o_timestamp ord) end_time) (\<lambda>_. vwap_validate_stop stop)
           | _ \<Rightarrow> Inr ()) (\<lambda>_. Inr c))))))))"

definition expand_order :: "registry \<Rightarrow> contract_group \<Rightarrow> string option \<Rightarrow> nat \<Rightarrow> nat \<Rightarrow> order_store
    \<Rightarrow> (nat list \<times> order_store) res" where
  "expand_order reg grp roll_id_prefix submission_index oid st = (case o_kind (os_heap st oid) of
      RollOrder reopen _ _ \<Rightarrow> (case reopen of
          Foreign _ \<Rightarrow> Inl (AttributeError ''symbol'')
        | Attr r \<Rightarrow>
            rbind (require (registered_is reg grp r) (ValueError ''rule returned an unregistered roll contract'')) (\<lambda>_.
            rbind (roll_legs oid (os_heap st oid)) (\<lambda>(close, reopen).
            let (i, st) = alloc (stamp_leg roll_id_prefix submission_index close) st;
                (j, st) = alloc (stamp_leg roll_id_prefix submission_index reopen) st in
            Inr ([i, j], st))))
    | _ \<Rightarrow> Inr ([oid], st))"

fun rule_orders_loop :: "registry \<Rightarrow> contract_group \<Rightarrow> datetime64 \<Rightarrow> string option \<Rightarrow> nat set \<Rightarrow> nat \<Rightarrow> nat attr list
    \<Rightarrow> order_store \<Rightarrow> (nat list \<times> order_store) res" where
  "rule_orders_loop reg grp now pfx seen k [] st = Inr ([], st)"
| "rule_orders_loop reg grp now pfx seen k (a # rest) st = (case a of
      Foreign _ \<Rightarrow> Inl (TypeError ''rule callback returned a non-Order value'')
    | Attr oid \<Rightarrow>
        if oid \<in> seen then Inl (ValueError ''rule returned a duplicate or already-pending order object'')
        else rbind (check_rule_order reg grp now (os_heap st oid)) (\<lambda>_.
          rbind (expand_order reg grp pfx k oid st) (\<lambda>(ids, st').
          rbind (rule_orders_loop reg grp now pfx (insert oid seen) (k + 1) rest st') (\<lambda>(more, st'').
          Inr (ids @ more, st'')))))"

definition validate_rule_orders :: "registry \<Rightarrow> contract_group \<Rightarrow> datetime64 \<Rightarrow> nat list \<Rightarrow> string option \<Rightarrow> nat attr list option
    \<Rightarrow> order_store \<Rightarrow> (nat list \<times> order_store) res" where
  "validate_rule_orders reg grp now pending pfx result st = (case result of
      None \<Rightarrow> Inl (TypeError ''rule callback must return a sequence of Order objects'')
    | Some submitted \<Rightarrow> rule_orders_loop reg grp now pfx (set pending) 0 submitted st)"

section \<open>Simulator trades\<close>

type_synonym original_states = "(nat, pyval \<times> order_status attr) dict"

definition num_positive :: "pyval \<Rightarrow> bool res" where
  "num_positive v = (case as_number v of None \<Rightarrow> Inl (TypeError ''not supported between instances'')
     | Some a \<Rightarrow> Inr (num_lt (PyInt 0) a))"

definition filled_of :: "(nat, int) dict \<Rightarrow> nat \<Rightarrow> int" where
  "filled_of filled oid = (case dict_get filled oid of None \<Rightarrow> 0 | Some q \<Rightarrow> q)"

definition check_market_trade :: "order_heap \<Rightarrow> nat list \<Rightarrow> datetime64 \<Rightarrow> original_states \<Rightarrow> (nat, int) dict \<Rightarrow> trade attr
    \<Rightarrow> (nat, int) dict res" where
  "check_market_trade heap open_orders now originals filled a = (case a of
      Foreign _ \<Rightarrow> Inl (TypeError ''market simulator returned a non-Trade value'')
    | Attr trade \<Rightarrow>
        rbind (validate_trade_references heap (t_contract trade) (t_order trade) (t_timestamp trade)) (\<lambda>_.
        case t_order trade of
          Foreign _ \<Rightarrow> Inl (TypeError ''trade order must be an Order'')
        | Attr oid \<Rightarrow>
            rbind (require (oid \<in> set open_orders) (ValueError ''market simulator returned a trade for an order outside the open order set'')) (\<lambda>_.
            rbind (require (case as_datetime (t_timestamp trade) of None \<Rightarrow> False | Some t \<Rightarrow> dt_eq t now)
               (ValueError ''market simulator trade timestamp does not match the current strategy timestamp'')) (\<lambda>_.
            rbind (validated_trade_numbers (t_qty trade) (t_price trade) (t_fee trade) (t_commission trade)) (\<lambda>(quantity, _, _, _).
            case dict_get originals oid of
              None \<Rightarrow> Inl (KeyError ''original_states'')
            | Some (original, _) \<Rightarrow>
                rbind (num_positive original) (\<lambda>pos.
                rbind (require ((0 < quantity) = pos) (ValueError ''market simulator fill has the opposite sign to its originating order'')) (\<lambda>_.
                let f = filled_of filled oid + quantity in
                rbind (require (case as_number original of None \<Rightarrow> True | Some q \<Rightarrow> \<not> num_lt (num_abs q) (PyInt \<bar>f\<bar>))
                   (ValueError ''market simulator fills exceed the originating order remaining quantity'')) (\<lambda>_.
                Inr (dict_set oid f filled)))))))))"

definition check_order_state :: "order_heap \<Rightarrow> original_states \<Rightarrow> (nat, int) dict \<Rightarrow> nat \<Rightarrow> unit res" where
  "check_order_state heap originals filled oid = (case dict_get originals oid of
      None \<Rightarrow> Inl (KeyError ''original_states'')
    | Some (original, status) \<Rightarrow> (case as_number original of
        None \<Rightarrow> Inl (TypeError ''unsupported operand type'')
      | Some q \<Rightarrow>
          rbind (num_intop (-) f_sub q (filled_of filled oid)) (\<lambda>remaining.
          let ord = heap oid; f = filled_of filled oid;
              did_not_apply = (py_eq (o_qty ord) original \<and> o_status ord = status);
              expected = (if num_eq remaining (PyInt 0) then FILLED else PARTIALLY_FILLED);
              applied = (f \<noteq> 0 \<and> py_eq (o_qty ord) (VNum remaining) \<and> status_in (o_status ord) [expected, CANCELLED]);
              cancelled = (f = 0 \<and> py_eq (o_qty ord) original \<and> o_status ord = Attr CANCELLED) in
          require (did_not_apply \<or> applied \<or> cancelled)
            (ValueError ''market simulator trades do not match the originating order quantity changes''))))"

definition validate_market_trades :: "order_heap \<Rightarrow> nat list \<Rightarrow> datetime64 \<Rightarrow> original_states \<Rightarrow> trade attr list option
    \<Rightarrow> trade list res" where
  "validate_market_trades heap open_orders now originals result = (case result of
      None \<Rightarrow> Inl (TypeError ''market simulator must return a sequence of Trade objects'')
    | Some trades \<Rightarrow>
        rbind (res_fold (check_market_trade heap open_orders now originals) [] trades) (\<lambda>filled.
        rbind (res_each (check_order_state heap originals filled) open_orders) (\<lambda>_.
        Inr [t. Attr t \<leftarrow> trades])))"

section \<open>What admission guarantees\<close>

definition admitted :: "registry \<Rightarrow> contract_group \<Rightarrow> datetime64 \<Rightarrow> order \<Rightarrow> bool" where
  "admitted reg grp now ord = (
     (\<exists>c. o_contract ord = Attr c \<and> cg_id (c_group c) = cg_id grp \<and> registered_is reg grp c) \<and>
     (\<exists>t. o_timestamp ord = VDt t \<and> dt_eq t now) \<and>
     (\<exists>a n. o_qty ord = VNum a \<and> num_exact a = Fin (of_int n) \<and> n \<noteq> 0) \<and>
     (case o_kind ord of StopLimitOrder _ _ _ \<Rightarrow> False | RollOrder _ _ _ \<Rightarrow> False | _ \<Rightarrow> True))"

lemma check_rule_order_Inr:
  assumes "check_rule_order reg grp now ord = Inr c"
  shows "o_contract ord = Attr c" "cg_id (c_group c) = cg_id grp" "registered_is reg grp c"
    "\<exists>t. o_timestamp ord = VDt t \<and> dt_eq t now"
    "case o_kind ord of StopLimitOrder _ _ _ \<Rightarrow> False | RollOrder _ _ _ \<Rightarrow> True | _ \<Rightarrow> (\<exists>q. whole_quantity ''order qty'' (o_qty ord) = Inr q)"
proof -
  have "\<exists>t. v = VDt t \<and> dt_eq t now" if "case as_datetime v of None \<Rightarrow> False | Some t \<Rightarrow> \<not> isnat t \<and> dt_eq t now" for v
    using that by (auto simp: as_datetime_def split: pyval.splits)
  moreover from assms have "case as_datetime (o_timestamp ord) of None \<Rightarrow> False | Some t \<Rightarrow> \<not> isnat t \<and> dt_eq t now"
    by (auto simp: check_rule_order_def split: attr.splits)
  ultimately show "\<exists>t. o_timestamp ord = VDt t \<and> dt_eq t now" by blast
  show "o_contract ord = Attr c" "cg_id (c_group c) = cg_id grp" "registered_is reg grp c"
    using assms by (auto simp: check_rule_order_def split: attr.splits)
  show "case o_kind ord of StopLimitOrder _ _ _ \<Rightarrow> False | RollOrder _ _ _ \<Rightarrow> True | _ \<Rightarrow> (\<exists>q. whole_quantity ''order qty'' (o_qty ord) = Inr q)"
    using assms by (cases "o_kind ord") (auto simp: check_rule_order_def)
qed

lemma stamp_leg_frame [simp]:
  "o_contract (stamp_leg p k ord) = o_contract ord" "o_timestamp (stamp_leg p k ord) = o_timestamp ord"
  "o_qty (stamp_leg p k ord) = o_qty ord" "o_kind (stamp_leg p k ord) = o_kind ord"
  by (simp_all add: stamp_leg_def split: option.splits)

lemma roll_legs_Inr:
  assumes "roll_legs oid self = Inr (close, reopen)"
  obtains c r cq rq where "o_contract self = Attr c" "\<exists>cv rv. o_kind self = RollOrder (Attr r) cv rv"
    "cg_id (c_group r) = cg_id (c_group c)" "o_contract close = Attr c" "o_contract reopen = Attr r"
    "o_qty close = VNum (PyInt cq)" "o_qty reopen = VNum (PyInt rq)" "cq \<noteq> 0" "rq \<noteq> 0"
    "o_kind close = MarketOrder" "o_kind reopen = MarketOrder"
    "o_timestamp close = o_timestamp self" "o_timestamp reopen = o_timestamp self"
proof -
  from assms obtain c r cq rq where t: "roll_validated_terms self = Inr (c, r, cq, rq)"
    and l: "roll_leg (hex_of oid) ''close'' c cq self = Inr close" "roll_leg (hex_of oid) ''reopen'' r rq self = Inr reopen"
    by (auto simp: roll_legs_def)
  show thesis
    using roll_validated_terms_Inr [OF t] roll_leg_Inr [OF l(1)] roll_leg_Inr [OF l(2)] by (intro that [of c r cq rq]) auto
qed

text \<open>An order that passed the checks is returned itself, a roll command as two new legs.\<close>

lemma expand_order_admitted:
  assumes "check_rule_order reg grp now (os_heap st oid) = Inr c" "expand_order reg grp p k oid st = Inr (ids, st')"
    "oid < os_next st"
  shows "os_next st \<le> os_next st' \<and> (\<forall>i<os_next st. os_heap st' i = os_heap st i) \<and> distinct ids \<and>
    (\<forall>i\<in>set ids. i = oid \<or> os_next st \<le> i) \<and> (\<forall>i\<in>set ids. i < os_next st' \<and> admitted reg grp now (os_heap st' i))"
proof -
  note ch = check_rule_order_Inr [OF assms(1)]
  show ?thesis
  proof (cases "\<exists>reopen cv rv. o_kind (os_heap st oid) = RollOrder reopen cv rv")
    case False
    then have "ids = [oid]" "st' = st" using assms(2) by (auto simp: expand_order_def split: order_kind.splits)
    moreover have "\<exists>q. whole_quantity ''order qty'' (o_qty (os_heap st oid)) = Inr q"
      using ch(5) False by (auto split: order_kind.splits)
    then have "\<exists>a n. o_qty (os_heap st oid) = VNum a \<and> num_exact a = Fin (of_int n) \<and> n \<noteq> 0"
      using whole_quantity_Inr by blast
    moreover have "case o_kind (os_heap st oid) of StopLimitOrder _ _ _ \<Rightarrow> False | RollOrder _ _ _ \<Rightarrow> False | _ \<Rightarrow> True"
      using ch(5) False by (auto split: order_kind.splits)
    ultimately show ?thesis using ch(1-4) assms(3) by (simp add: admitted_def)
  next
    case True
    then obtain r cv rv close reopen where k: "o_kind (os_heap st oid) = RollOrder (Attr r) cv rv" "registered_is reg grp r"
      and l: "roll_legs oid (os_heap st oid) = Inr (close, reopen)" and ids: "ids = [os_next st, os_next st + 1]"
      and st': "st' = snd (alloc (stamp_leg p k reopen) (snd (alloc (stamp_leg p k close) st)))"
      using assms(2) by (auto simp: expand_order_def alloc_def Let_def split: attr.splits)
    from l obtain cq rq where "o_contract close = Attr c" "o_contract reopen = Attr r" "cg_id (c_group r) = cg_id (c_group c)"
      "o_qty close = VNum (PyInt cq)" "o_qty reopen = VNum (PyInt rq)" "cq \<noteq> 0" "rq \<noteq> 0" "o_kind close = MarketOrder"
      "o_kind reopen = MarketOrder" "o_timestamp close = o_timestamp (os_heap st oid)" "o_timestamp reopen = o_timestamp (os_heap st oid)"
      by (rule roll_legs_Inr) (use ch(1) k(1) in auto)
    then have "admitted reg grp now (stamp_leg p k close)" "admitted reg grp now (stamp_leg p k reopen)"
      using ch(2-4) k(2) by (simp_all add: admitted_def)
    then show ?thesis using ids st' by (auto simp: alloc_def)
  qed
qed

lemma rule_orders_loop_admitted:
  assumes "rule_orders_loop reg grp now p seen k submitted st = Inr (ids, st')"
    "\<forall>oid. Attr oid \<in> set submitted \<longrightarrow> oid < os_next st" "\<forall>i\<in>seen. i < os_next st"
  shows "os_next st \<le> os_next st' \<and> (\<forall>i<os_next st. os_heap st' i = os_heap st i) \<and> distinct ids \<and> set ids \<inter> seen = {} \<and>
    (\<forall>i\<in>set ids. i < os_next st' \<and> admitted reg grp now (os_heap st' i)) \<and>
    (\<forall>i\<in>set ids. Attr i \<in> set submitted \<or> os_next st \<le> i)"
  using assms
proof (induction submitted arbitrary: seen k st ids)
  case (Cons a rest)
  from Cons.prems(1) obtain oid c ids1 st1 more where a: "a = Attr oid" "oid \<notin> seen"
    and c: "check_rule_order reg grp now (os_heap st oid) = Inr c"
    and e: "expand_order reg grp p k oid st = Inr (ids1, st1)"
    and r: "rule_orders_loop reg grp now p (insert oid seen) (k + 1) rest st1 = Inr (more, st')" and ids: "ids = ids1 @ more"
    by (auto split: attr.splits if_splits)
  have oid: "oid < os_next st" using Cons.prems(2) a(1) by simp
  note x = expand_order_admitted [OF c e oid]
  have "\<forall>oid. Attr oid \<in> set rest \<longrightarrow> oid < os_next st1" "\<forall>i\<in>insert oid seen. i < os_next st1"
    using Cons.prems(2,3) oid x by (auto intro: less_le_trans)
  note y = Cons.IH [OF r this]
  have "set ids1 \<inter> set more = {}"
  proof -
    have "i \<notin> set more" if "i \<in> set ids1" for i
    proof
      assume m: "i \<in> set more"
      then have "i \<noteq> oid" using y by auto
      then have "os_next st \<le> i" "i < os_next st1" using x that by auto
      moreover have "Attr i \<in> set rest \<or> os_next st1 \<le> i" using m y by blast
      ultimately show False using Cons.prems(2) by fastforce
    qed
    then show ?thesis by auto
  qed
  moreover have "set ids1 \<inter> seen = {}" using x a(2) Cons.prems(3) by fastforce
  moreover have "\<forall>i\<in>set ids1. i < os_next st' \<and> admitted reg grp now (os_heap st' i)" using x y by (auto intro: less_le_trans)
  moreover have "Attr i \<in> set (a # rest) \<or> os_next st \<le> i" if "i \<in> set ids" for i
    using that x y a(1) by (auto simp: ids)
  ultimately show ?case using x y by (auto simp: ids)
qed simp

section \<open>Fills stay within the captured quantity\<close>

definition trade_fill :: "trade \<Rightarrow> int" where
  "trade_fill t = (case whole_quantity ''trade qty'' (t_qty t) of Inl _ \<Rightarrow> 0 | Inr q \<Rightarrow> q)"

definition fills_for :: "nat \<Rightarrow> trade attr list \<Rightarrow> int" where
  "fills_for oid trades = sum_list [trade_fill t. Attr t \<leftarrow> trades, t_order t = Attr oid]"

lemma fills_for_snoc [simp]:
  "fills_for oid (ts @ [Attr t]) = fills_for oid ts + (if t_order t = Attr oid then trade_fill t else 0)" "fills_for oid [] = 0"
  by (simp_all add: fills_for_def)

lemma filled_of_set [simp]: "filled_of (dict_set i f filled) oid = (if oid = i then f else filled_of filled oid)"
  by (simp add: filled_of_def)

lemma check_market_trade_Inr:
  assumes "check_market_trade heap open_orders now originals filled a = Inr filled'"
  obtains t oid q where "a = Attr t" "t_order t = Attr oid" "oid \<in> set open_orders" "trade_fill t = q" "q \<noteq> 0"
    "filled' = dict_set oid (filled_of filled oid + q) filled"
    "\<forall>n st. dict_get originals oid = Some (VNum (PyInt n), st) \<longrightarrow>
       (0 < q \<longleftrightarrow> 0 < n) \<and> \<bar>filled_of filled oid + q\<bar> \<le> \<bar>n\<bar>"
proof -
  from assms obtain t where t: "a = Attr t" by (cases a) (auto simp: check_market_trade_def)
  from assms t obtain oid where oid: "t_order t = Attr oid" "oid \<in> set open_orders"
    by (auto simp: check_market_trade_def split: attr.splits)
  from assms t oid obtain q p f c where n: "validated_trade_numbers (t_qty t) (t_price t) (t_fee t) (t_commission t) = Inr (q, p, f, c)"
    by (auto simp: check_market_trade_def)
  then have q: "whole_quantity ''trade qty'' (t_qty t) = Inr q" by (auto simp: validated_trade_numbers_def)
  show thesis
  proof (rule that [OF t oid])
    show "trade_fill t = q" by (simp add: trade_fill_def q)
    show "q \<noteq> 0" by (rule whole_quantity_Inr(1) [OF q])
    show "filled' = dict_set oid (filled_of filled oid + q) filled"
      using assms t oid n by (auto simp: check_market_trade_def Let_def split: option.splits)
    show "\<forall>k st. dict_get originals oid = Some (VNum (PyInt k), st) \<longrightarrow>
        (0 < q \<longleftrightarrow> 0 < k) \<and> \<bar>filled_of filled oid + q\<bar> \<le> \<bar>k\<bar>"
      using assms t oid n
      by (auto simp: check_market_trade_def Let_def num_positive_def as_number_def not_less)
  qed
qed

lemma check_market_trades_fold:
  assumes "res_fold (check_market_trade heap open_orders now originals) [] trades = Inr filled"
  shows "filled_of filled oid = fills_for oid trades \<and> (\<forall>n st. dict_get originals oid = Some (VNum (PyInt n), st) \<longrightarrow>
    0 \<le> fills_for oid trades * n \<and> \<bar>fills_for oid trades\<bar> \<le> \<bar>n\<bar>)"
  using assms
proof (induction trades arbitrary: filled rule: rev_induct)
  case Nil
  then show ?case by (simp add: filled_of_def)
next
  case (snoc a trades)
  from snoc.prems obtain filled1 where 1: "res_fold (check_market_trade heap open_orders now originals) [] trades = Inr filled1"
    and 2: "check_market_trade heap open_orders now originals filled1 a = Inr filled"
    by (auto simp: res_fold_append)
  note IH = snoc.IH [OF 1]
  from 2 obtain t i q where t: "a = Attr t" "t_order t = Attr i" "i \<in> set open_orders" "trade_fill t = q" "q \<noteq> 0"
    and f: "filled = dict_set i (filled_of filled1 i + q) filled1"
    and b: "\<forall>n st. dict_get originals i = Some (VNum (PyInt n), st) \<longrightarrow>
       (0 < q \<longleftrightarrow> 0 < n) \<and> \<bar>filled_of filled1 i + q\<bar> \<le> \<bar>n\<bar>"
    by (rule check_market_trade_Inr)
  show ?case
  proof (cases "i = oid")
    case True
    have "0 \<le> (fills_for oid trades + q) * n \<and> \<bar>fills_for oid trades + q\<bar> \<le> \<bar>n\<bar>"
      if "dict_get originals oid = Some (VNum (PyInt n), st)" for n st
    proof -
      have o: "(0 < q \<longleftrightarrow> 0 < n)" "\<bar>fills_for oid trades + q\<bar> \<le> \<bar>n\<bar>" "0 \<le> fills_for oid trades * n"
        using b [rule_format, of n st] that True IH by auto
      have "0 \<le> q * n" using o(1) t(5) by (auto simp: zero_le_mult_iff)
      then show ?thesis using o by (simp add: distrib_right)
    qed
    then show ?thesis using True IH t f by auto
  next
    case False
    then show ?thesis using IH t f by simp
  qed
qed

text \<open>What an accepted simulator result says of one order the simulator was shown.\<close>

lemma validated_order_state:
  assumes "validate_market_trades heap open_orders now originals (Some result) = Inr trades" "oid \<in> set open_orders"
    and "dict_get originals oid = Some (VNum (PyInt q), status)"
  defines "f \<equiv> fills_for oid result"
  shows "0 \<le> f * q" "\<bar>f\<bar> \<le> \<bar>q\<bar>"
    "py_eq (o_qty (heap oid)) (VNum (PyInt q)) \<and> o_status (heap oid) = status \<or>
     f \<noteq> 0 \<and> py_eq (o_qty (heap oid)) (VNum (PyInt (q - f))) \<and>
       status_in (o_status (heap oid)) [if q = f then FILLED else PARTIALLY_FILLED, CANCELLED] \<or>
     f = 0 \<and> py_eq (o_qty (heap oid)) (VNum (PyInt q)) \<and> o_status (heap oid) = Attr CANCELLED"
proof -
  from assms(1) obtain filled where fold: "res_fold (check_market_trade heap open_orders now originals) [] result = Inr filled"
    and each: "res_each (check_order_state heap originals filled) open_orders = Inr ()"
    by (auto simp: validate_market_trades_def)
  note ff = check_market_trades_fold [OF fold, of oid]
  show "0 \<le> f * q" "\<bar>f\<bar> \<le> \<bar>q\<bar>" using ff assms(3) by (simp_all add: f_def)
  have "num_eq (PyInt (q - f)) (PyInt 0) \<longleftrightarrow> q = f"
    by (simp add: num_eq_def num_operands_def f_eq_def flip: of_int_diff)
  moreover have "check_order_state heap originals filled oid = Inr ()"
    using each assms(2) by (simp add: res_each_Inr)
  ultimately show "py_eq (o_qty (heap oid)) (VNum (PyInt q)) \<and> o_status (heap oid) = status \<or>
     f \<noteq> 0 \<and> py_eq (o_qty (heap oid)) (VNum (PyInt (q - f))) \<and>
       status_in (o_status (heap oid)) [if q = f then FILLED else PARTIALLY_FILLED, CANCELLED] \<or>
     f = 0 \<and> py_eq (o_qty (heap oid)) (VNum (PyInt q)) \<and> o_status (heap oid) = Attr CANCELLED"
    using ff assms(3) by (auto simp: check_order_state_def as_number_def Let_def f_def)
qed

section \<open>Properties\<close>

text \<open>
  What a rule can get admitted: the returned orders are distinct objects, none of them
  already pending; each is for a contract of the rule's group registered in it, dated at the current
  timestamp, for a whole nonzero quantity, and of an executable kind (roll commands have become market
  legs, stop-limit orders are refused); and no existing order object was changed.
\<close>

lemma rule_orders_admitted:
  assumes "validate_rule_orders reg grp now pending pfx (Some submitted) st = Inr (ids, st')"
    and "\<forall>oid. Attr oid \<in> set submitted \<longrightarrow> oid < os_next st" and "\<forall>i\<in>set pending. i < os_next st"
  shows "distinct ids \<and> set ids \<inter> set pending = {} \<and> (\<forall>i<os_next st. os_heap st' i = os_heap st i) \<and>
    (\<forall>i\<in>set ids. admitted reg grp now (os_heap st' i))"
  using rule_orders_loop_admitted [of reg grp now pfx "set pending" 0 submitted st ids st'] assms
  by (simp add: validate_rule_orders_def)

lemma example_registered:
  "registered_is (initial_registry\<lparr>cg_members := (\<lambda>_. [])(0 := [(''A'', Contract 1 ''A'' DEFAULT_CG None (Fin 1) [] [] default_spec)])\<rparr>)
     DEFAULT_CG (Contract 1 ''A'' DEFAULT_CG None (Fin 1) [] [] default_spec)"
  by (simp add: registered_is_def get_contract_def DEFAULT_CG_def)

lemma rule_orders_admitted_instance:
  "\<exists>ids st'. validate_rule_orders (initial_registry\<lparr>cg_members := (\<lambda>_. [])(0 := [(''A'', Contract 1 ''A'' DEFAULT_CG None (Fin 1) [] [] default_spec)])\<rparr>)
      DEFAULT_CG (Datetime64 DT_ns (Some 5)) [] None (Some [Attr 0]) \<lparr>os_heap = (\<lambda>_. example_order 4), os_next = 1\<rparr> = Inr (ids, st')
    \<and> ids = [0] \<and> distinct ids"
proof -
  let ?reg = "initial_registry\<lparr>cg_members := (\<lambda>_. [])(0 := [(''A'', Contract 1 ''A'' DEFAULT_CG None (Fin 1) [] [] default_spec)])\<rparr>"
  let ?st = "\<lparr>os_heap = (\<lambda>_. example_order 4), os_next = 1\<rparr>"
  have v: "validate_rule_orders ?reg DEFAULT_CG (Datetime64 DT_ns (Some 5)) [] None (Some [Attr 0]) ?st = Inr ([0], ?st)"
    using example_registered
    by (simp add: validate_rule_orders_def check_rule_order_def expand_order_def validate_order_references_def example_order_def
        as_datetime_def isnat_def dt_eq_def DEFAULT_CG_def)
  have "distinct [0 :: nat]" using rule_orders_admitted [OF v] by simp
  with v show ?thesis by blast
qed

text \<open>
  No simulator can overfill: when its result is accepted, the fills reported for an order
  have the sign of the quantity the order had before the callback and do not exceed it in total, and
  the order object is left either untouched, or reduced by exactly the reported fills (filled when
  nothing remains, otherwise partially filled, or cancelled), or cancelled without a fill.
\<close>

lemma market_trades_within_order:
  assumes "validate_market_trades heap open_orders now originals (Some result) = Inr trades" "oid \<in> set open_orders"
    and "dict_get originals oid = Some (VNum (PyInt q), status)"
  defines "f \<equiv> fills_for oid result"
  shows "0 \<le> f * q \<and> \<bar>f\<bar> \<le> \<bar>q\<bar> \<and>
    (py_eq (o_qty (heap oid)) (VNum (PyInt q)) \<and> o_status (heap oid) = status \<or>
     f \<noteq> 0 \<and> py_eq (o_qty (heap oid)) (VNum (PyInt (q - f))) \<and>
       status_in (o_status (heap oid)) [if q = f then FILLED else PARTIALLY_FILLED, CANCELLED] \<or>
     f = 0 \<and> py_eq (o_qty (heap oid)) (VNum (PyInt q)) \<and> o_status (heap oid) = Attr CANCELLED)"
  using validated_order_state [OF assms(1-3)] unfolding f_def by blast

definition example_fill_trade :: trade where
  "example_fill_trade = \<lparr>t_contract = o_contract (example_order 4), t_order = Attr 0, t_timestamp = VDt (Datetime64 DT_ns (Some 5)),
     t_qty = VNum (PyInt 3), t_price = VNum (PyFloat (Fin 6)), t_fee = VNum (PyFloat (Fin 0)),
     t_commission = VNum (PyFloat (Fin 0)), t_properties = []\<rparr>"

lemma market_trades_within_order_instance:
  "\<exists>trades. validate_market_trades (\<lambda>_. example_order 4) [0] (Datetime64 DT_ns (Some 5)) [(0, VNum (PyInt 4), Attr OPEN)]
      (Some [Attr example_fill_trade]) = Inr trades \<and> \<bar>fills_for 0 [Attr example_fill_trade]\<bar> \<le> \<bar>4\<bar>"
proof -
  have v: "validate_market_trades (\<lambda>_. example_order 4) [0] (Datetime64 DT_ns (Some 5)) [(0, VNum (PyInt 4), Attr OPEN)]
      (Some [Attr example_fill_trade]) = Inr [example_fill_trade]"
    by (simp add: validate_market_trades_def check_market_trade_def check_order_state_def validate_trade_references_def
        as_number_def filled_of_def example_order_def example_fill_trade_def contract_is_def as_datetime_def isnat_def
        dt_lt_def dt_eq_def validated_trade_numbers_def finite_real_def as_real_def num_positive_def Let_def)
  from market_trades_within_order [OF v, of 0 4 "Attr OPEN"] v show ?thesis by auto
qed

end
