(* ===== verification/Market_Simulators.thy ===== *)
theory Market_Simulators
  imports Execution_Costs Callback_Contracts
begin

text \<open>
  The market simulators (\<open>strategy_components.py\<close>): \<open>SimpleMarketSimulator\<close>, which fills market and
  marketable limit orders at a slipped and rounded price and fills the legs of a roll together or not
  at all, and \<open>VWAPMarketSimulator\<close>, which closes a VWAP order at its stop, at its end time, at the end
  of the day or at the last timestamp. Both are programs over the order heap. Price callbacks,
  slippage, charges and the post-trade hook are parameters; indicator columns are lists of floats.
\<close>

section \<open>Shared\<close>

definition grid_at :: "grid \<Rightarrow> nat \<Rightarrow> int res" where
  "grid_at ts i = (if i < length ts then Inr (ts ! i) else Inl (IndexError ''index out of bounds''))"

abbreviation instant :: "int \<Rightarrow> pyval" where
  "instant t \<equiv> VDt (Datetime64 DT_ns (Some t))"

definition pq_assert :: "bool \<Rightarrow> string \<Rightarrow> unit res" where
  "pq_assert ok msg = require ok (PQException msg)"

definition heap_fill :: "nat \<Rightarrow> pyval \<Rightarrow> (order_heap, unit) prog" where
  "heap_fill oid q heap = (case fill q (heap oid) of (r, ord') \<Rightarrow> (r, heap(oid := ord')))"

definition heap_cancel :: "nat \<Rightarrow> (order_heap, unit) prog" where
  "heap_cancel oid heap = (Inr (), heap(oid := cancel (heap oid)))"

definition mk_trade :: "order_heap \<Rightarrow> contract \<Rightarrow> nat \<Rightarrow> int \<Rightarrow> pyval \<Rightarrow> float64 \<Rightarrow> float64 \<Rightarrow> float64 \<Rightarrow> trade res" where
  "mk_trade heap c oid t q price fee commission = trade_init heap \<lparr>t_contract = Attr c, t_order = Attr oid, t_timestamp = instant t,
     t_qty = q, t_price = VNum (PyFloat price), t_fee = VNum (PyFloat fee), t_commission = VNum (PyFloat commission), t_properties = []\<rparr>"

section \<open>SimpleMarketSimulator\<close>

record simple_sim =
  ss_price_func :: price_function
  ss_slippage :: "order \<Rightarrow> float64 \<Rightarrow> float64 res"
  ss_commission :: "order \<Rightarrow> float64 \<Rightarrow> float64 res"
  ss_fee :: "order \<Rightarrow> float64 \<Rightarrow> float64 res"
  ss_price_rounding :: int
  ss_post_trade :: "(trade \<Rightarrow> (order_heap, unit) prog) option"

text \<open>The constructor: a model that is not given is the fixed percentage or the per-unit charge.\<close>

definition simple_sim_init :: "price_function \<Rightarrow> float64 \<Rightarrow> float64 \<Rightarrow> int \<Rightarrow> (trade \<Rightarrow> (order_heap, unit) prog) option \<Rightarrow>
    (order \<Rightarrow> float64 \<Rightarrow> float64 res) option \<Rightarrow> (order \<Rightarrow> float64 \<Rightarrow> float64 res) option \<Rightarrow> (order \<Rightarrow> float64 \<Rightarrow> float64 res) option \<Rightarrow> simple_sim res" where
  "simple_sim_init price_func slippage_pct commission price_rounding post_trade slippage_model commission_model fee_model =
     rbind (case slippage_model of Some m \<Rightarrow> Inr m | None \<Rightarrow> rbind (slippage_init (FixedPercentageSlippage slippage_pct)) (\<lambda>m. Inr (adjustment m))) (\<lambda>sl.
     rbind (case commission_model of Some m \<Rightarrow> Inr m | None \<Rightarrow> rbind (charge_init (PerUnitCharge commission)) (\<lambda>m. Inr (charge m))) (\<lambda>cm.
     rbind (case fee_model of Some m \<Rightarrow> Inr m | None \<Rightarrow> rbind (charge_init (PerUnitCharge (Fin 0))) (\<lambda>m. Inr (charge m))) (\<lambda>fm.
     Inr \<lparr>ss_price_func = price_func, ss_slippage = sl, ss_commission = cm, ss_fee = fm, ss_price_rounding = price_rounding,
          ss_post_trade = post_trade\<rparr>)))"

definition callback_price :: "price_function \<Rightarrow> grid \<Rightarrow> nat \<Rightarrow> contract \<Rightarrow> float64 res" where
  "callback_price pf ts i c = rbind (pf c ts i) (validate_price_value True)"

fun basket_price :: "price_function \<Rightarrow> grid \<Rightarrow> nat \<Rightarrow> float64 \<Rightarrow> (contract \<times> float64) list \<Rightarrow> float64 res" where
  "basket_price pf ts i raw [] = Inr raw"
| "basket_price pf ts i raw ((c, ratio) # cs) =
     rbind (callback_price pf ts i c) (\<lambda>p. let raw' = f_add raw (f_mul p ratio) in
       if is_nan raw' then Inr raw' else basket_price pf ts i raw' cs)"

definition raw_price :: "price_function \<Rightarrow> grid \<Rightarrow> nat \<Rightarrow> contract \<Rightarrow> float64 res" where
  "raw_price pf ts i c = (if \<not> is_basket c then callback_price pf ts i c else basket_price pf ts i (Fin 0) (c_components c))"

definition marketable :: "order \<Rightarrow> pyval \<Rightarrow> float64 \<Rightarrow> bool res" where
  "marketable ord lmt price =
     rbind (finite_real ''limit price'' lmt) (\<lambda>l.
     rbind (val_num (o_qty ord)) (\<lambda>q.
     Inr (num_lt (PyInt 0) q \<and> f_le price l \<or> num_lt q (PyInt 0) \<and> f_le l price)))"

definition executable_kind :: "order_kind \<Rightarrow> bool res" where
  "executable_kind k = (case k of
      StopLimitOrder _ _ _ \<Rightarrow> Inl (ValueError ''StopLimitOrder is deprecated and cannot be executed'')
    | MarketOrder \<Rightarrow> Inr True
    | LimitOrder _ \<Rightarrow> Inr True
    | _ \<Rightarrow> Inr False)"

text \<open>One order: no trade when it is of another kind, has no price or is not marketable.\<close>

definition candidate_trade :: "simple_sim \<Rightarrow> grid \<Rightarrow> nat \<Rightarrow> int \<Rightarrow> order_heap \<Rightarrow> nat \<Rightarrow> trade option res" where
  "candidate_trade sim ts i now heap oid = (let ord = heap oid in
     rbind (executable_kind (o_kind ord)) (\<lambda>ok. if \<not> ok then Inr None else
     rbind (order_contract ord) (\<lambda>c.
     rbind (raw_price (ss_price_func sim) ts i c) (\<lambda>raw. if is_nan raw then Inr None else
     rbind (ss_slippage sim ord raw) (\<lambda>slip.
     rbind (validate_price_value False (VNum (PyFloat (f_add raw slip)))) (\<lambda>p. let price = py_round p (ss_price_rounding sim) in
     rbind (case o_kind ord of LimitOrder lmt \<Rightarrow> marketable ord lmt price | _ \<Rightarrow> Inr True) (\<lambda>go. if \<not> go then Inr None else
     rbind (ss_commission sim ord price) (\<lambda>commission.
     rbind (ss_fee sim ord price) (\<lambda>fee.
     rbind (mk_trade heap c oid now (o_qty ord) price fee commission) (\<lambda>tr. Inr (Some tr)))))))))))"

definition roll_id_of :: "order \<Rightarrow> pyval option" where
  "roll_id_of ord = (case dict_get (o_properties ord) ''_gambit_roll_id'' of None \<Rightarrow> None | Some VNone \<Rightarrow> None | Some v \<Rightarrow> Some v)"

definition trade_order_id :: "trade \<Rightarrow> nat" where
  "trade_order_id tr = (case t_order tr of Attr oid \<Rightarrow> oid | Foreign _ \<Rightarrow> 0)"

definition complete_rolls :: "order_heap \<Rightarrow> nat list \<Rightarrow> trade list \<Rightarrow> trade list" where
  "complete_rolls heap orders candidates =
     (let count = (\<lambda>r ids. length (filter (\<lambda>oid. roll_id_of (heap oid) = Some r) ids)); traded = map trade_order_id candidates in
      filter (\<lambda>tr. case roll_id_of (heap (trade_order_id tr)) of
          None \<Rightarrow> True
        | Some r \<Rightarrow> count r traded = count r orders \<and> count r orders = 2) candidates)"

definition fill_trade :: "simple_sim \<Rightarrow> trade \<Rightarrow> (order_heap, unit) prog" where
  "fill_trade sim tr =
     pbind (heap_fill (trade_order_id tr) (VNum (PyFloat NaN))) (\<lambda>_.
     case ss_post_trade sim of None \<Rightarrow> preturn () | Some f \<Rightarrow> f tr)"

definition simple_market_simulator :: "simple_sim \<Rightarrow> nat list \<Rightarrow> nat \<Rightarrow> grid \<Rightarrow> (order_heap, trade list) prog" where
  "simple_market_simulator sim orders i ts =
     pbind (plift (grid_at ts i)) (\<lambda>now.
     pbind (\<lambda>heap. (res_map (candidate_trade sim ts i now heap) orders, heap)) (\<lambda>found.
     pbind (\<lambda>heap. (Inr (complete_rolls heap orders [tr. Some tr \<leftarrow> found]), heap)) (\<lambda>trades.
     pbind (pforeach (fill_trade sim) trades) (\<lambda>_. preturn trades))))"

section \<open>VWAPMarketSimulator\<close>

record vwap_sim =
  vs_price_indicator :: string
  vs_volume_indicator :: string
  vs_backup :: "string option"

text \<open>The indicators of a group: its columns by name, \<open>None\<close> for an attribute that holds \<open>None\<close>.\<close>

type_synonym columns = "(string, float64 list option) dict"

definition get_column :: "columns \<Rightarrow> string \<Rightarrow> float64 list res" where
  "get_column inds name = (case dict_get inds name of
      None \<Rightarrow> Inl (AttributeError name)
    | Some None \<Rightarrow> Inl (PQException ''indicator not found for contract group'')
    | Some (Some xs) \<Rightarrow> Inr xs)"

definition column_at :: "float64 list \<Rightarrow> nat \<Rightarrow> float64 res" where
  "column_at xs i = (if i < length xs then Inr (xs ! i) else Inl (IndexError ''index out of bounds''))"

definition vwap_terms :: "order_kind \<Rightarrow> (pyval \<times> pyval) option" where
  "vwap_terms k = (case k of VWAPOrder stop end_time \<Rightarrow> Some (stop, end_time) | _ \<Rightarrow> None)"

definition check_vwap :: "order_heap \<Rightarrow> nat \<Rightarrow> unit res" where
  "check_vwap heap oid = (case vwap_terms (o_kind (heap oid)) of
      None \<Rightarrow> Inr ()
    | Some (stop, end_time) \<Rightarrow> rbind (vwap_validate_window (o_timestamp (heap oid)) end_time) (\<lambda>_. vwap_validate_stop stop))"

definition stop_hit :: "order \<Rightarrow> pyval \<Rightarrow> float64 list \<Rightarrow> nat \<Rightarrow> bool res" where
  "stop_hit ord stop prices i =
     rbind (val_num stop) (\<lambda>s. if \<not> is_finite (num_exact s) then Inr False else
     rbind (val_num (o_qty ord)) (\<lambda>q.
     rbind (column_at prices i) (\<lambda>p.
     Inr (num_le (PyInt 0) q \<and> num_le (NpFloat p) s \<or> num_lt q (PyInt 0) \<and> num_le s (NpFloat p)))))"

definition window_mask :: "grid \<Rightarrow> float64 list \<Rightarrow> float64 list \<Rightarrow> int \<Rightarrow> int \<Rightarrow> int \<Rightarrow> bool list res" where
  "window_mask ts prices volumes now start stop =
     (if length prices \<noteq> length volumes \<or> length volumes \<noteq> length ts then Inl (ValueError ''operands could not be broadcast together'')
      else Inr (map (\<lambda>(t, p, v). f_lt (Fin 0) p \<and> f_lt (Fin 0) v \<and> t \<le> now \<and> start \<le> t \<and> t \<le> stop) (zip ts (zip prices volumes))))"

definition masked :: "bool list \<Rightarrow> 'a list \<Rightarrow> 'a list" where
  "masked msk xs = map snd (filter fst (zip msk xs))"

definition vwap_price :: "numerics \<Rightarrow> vwap_sim \<Rightarrow> columns \<Rightarrow> float64 list \<Rightarrow> float64 list \<Rightarrow> bool list \<Rightarrow> nat \<Rightarrow> float64 res" where
  "vwap_price nm sim inds prices volumes msk i =
     (let amt = masked msk (map (\<lambda>(p, v). f_mul p v) (zip prices volumes)) in
      if amt = [] then (case vs_backup sim of
          None \<Rightarrow> Inl (PQException ''backup price indicator not found and no vwap found'')
        | Some b \<Rightarrow> rbind (get_column inds b) (\<lambda>xs. column_at xs i))
      else Inr (f_div (np_sum nm amt) (np_sum nm (masked msk volumes))))"

text \<open>The share of the window that has passed, between 0 and 1; all of it for an empty window.\<close>

definition fill_fraction :: "int \<Rightarrow> int \<Rightarrow> int \<Rightarrow> float64" where
  "fill_fraction now start end_time =
     (if end_time - start \<le> 0 then Fin 1
      else py_fmin (py_fmax (rnd64 (of_int (now - start) / of_int (end_time - start))) (Fin 0)) (Fin 1))"

definition stopped_qty :: "order \<Rightarrow> float64 \<Rightarrow> float64 res" where
  "stopped_qty ord fraction = rbind (val_num (o_qty ord)) (\<lambda>q. rbind (num_float q) (\<lambda>x. Inr (np_fix (f_mul x fraction))))"

definition last_of_day :: "grid \<Rightarrow> nat \<Rightarrow> bool" where
  "last_of_day ts i = (i = length ts - 1 \<or> day_of (ts ! (i + 1)) > day_of (ts ! i))"

definition ns_of :: "pyval \<Rightarrow> int res" where
  "ns_of v = (case v of VDt (Datetime64 _ (Some t)) \<Rightarrow> Inr t | _ \<Rightarrow> Inl (ValueError ''NaT''))"

definition close_vwap :: "contract \<Rightarrow> nat \<Rightarrow> int \<Rightarrow> pyval \<Rightarrow> float64 \<Rightarrow> (order_heap, trade option) prog" where
  "close_vwap c oid now q price =
     pbind (heap_fill oid q) (\<lambda>_.
     pbind (heap_cancel oid) (\<lambda>_ heap.
     (rbind (mk_trade heap c oid now q price (Fin 0) (Fin 0)) (\<lambda>tr. Inr (Some tr)), heap)))"

text \<open>What the simulator decides about one VWAP order before it touches it.\<close>

datatype vwap_decision = Wait | CloseAt pyval float64 | CancelOrder

definition vwap_decide :: "numerics \<Rightarrow> vwap_sim \<Rightarrow> (string, columns) dict \<Rightarrow> grid \<Rightarrow> nat \<Rightarrow> int \<Rightarrow> order \<Rightarrow> pyval \<Rightarrow> pyval
    \<Rightarrow> contract \<Rightarrow> vwap_decision res" where
  "vwap_decide nm sim indicators ts i now ord stop end_time c =
     rbind (case dict_get indicators (cg_name (c_group c)) of None \<Rightarrow> Inl (PQException ''indicators not found for contract group'') | Some inds \<Rightarrow> Inr inds) (\<lambda>inds.
     rbind (get_column inds (vs_price_indicator sim)) (\<lambda>prices.
     rbind (get_column inds (vs_volume_indicator sim)) (\<lambda>volumes.
     rbind (stop_hit ord stop prices i) (\<lambda>end_order.
     rbind (ns_of (o_timestamp ord)) (\<lambda>start.
     rbind (ns_of end_time) (\<lambda>end_ns.
     if \<not> end_order \<and> now < end_ns \<and> \<not> last_of_day ts i then Inr Wait
     else rbind (window_mask ts prices volumes now start (if end_order then now else end_ns)) (\<lambda>msk.
       rbind (vwap_price nm sim inds prices volumes msk i) (\<lambda>v.
       rbind (validate_price_value False (VNum (NpFloat v))) (\<lambda>vwap.
       if f_lt vwap (Fin 0) then Inl (ValueError ''VWAP execution price cannot be negative'')
       else if end_order then rbind (stopped_qty ord (fill_fraction now start end_ns)) (\<lambda>q.
         Inr (if isclose0 q then CancelOrder else CloseAt (VNum (PyFloat q)) vwap))
       else Inr (CloseAt (o_qty ord) vwap))))))))))"

definition vwap_order :: "numerics \<Rightarrow> vwap_sim \<Rightarrow> (string, columns) dict \<Rightarrow> grid \<Rightarrow> nat \<Rightarrow> int \<Rightarrow> nat \<Rightarrow> (order_heap, trade option) prog" where
  "vwap_order nm sim indicators ts i now oid heap = (case vwap_terms (o_kind (heap oid)) of
      None \<Rightarrow> (Inr None, heap)
    | Some (stop, end_time) \<Rightarrow>
        pbind (plift (order_contract (heap oid))) (\<lambda>c.
        pbind (plift (vwap_decide nm sim indicators ts i now (heap oid) stop end_time c)) (\<lambda>d.
        case d of
          Wait \<Rightarrow> preturn None
        | CancelOrder \<Rightarrow> pbind (heap_cancel oid) (\<lambda>_. preturn None)
        | CloseAt q price \<Rightarrow> close_vwap c oid now q price)) heap)"

primrec vwap_orders :: "numerics \<Rightarrow> vwap_sim \<Rightarrow> (string, columns) dict \<Rightarrow> grid \<Rightarrow> nat \<Rightarrow> int \<Rightarrow> nat list \<Rightarrow> (order_heap, trade list) prog" where
  "vwap_orders nm sim indicators ts i now [] = preturn []"
| "vwap_orders nm sim indicators ts i now (oid # oids) =
     pbind (vwap_order nm sim indicators ts i now oid) (\<lambda>tr.
     pbind (vwap_orders nm sim indicators ts i now oids) (\<lambda>trs. preturn (case tr of None \<Rightarrow> trs | Some t \<Rightarrow> t # trs)))"

definition vwap_market_simulator :: "numerics \<Rightarrow> vwap_sim \<Rightarrow> nat list \<Rightarrow> nat \<Rightarrow> grid \<Rightarrow> (string, columns) dict \<Rightarrow> (order_heap, trade list) prog" where
  "vwap_market_simulator nm sim orders i ts indicators =
     pbind (plift (grid_at ts i)) (\<lambda>now.
     pbind (\<lambda>heap. (res_each (check_vwap heap) orders, heap)) (\<lambda>_.
     vwap_orders nm sim indicators ts i now orders))"

section \<open>The simple simulator keeps the terms of each order\<close>

lemma trade_init_Inr:
  assumes "trade_init heap t = Inr t'"
  shows "t_contract t' = t_contract t" "t_order t' = t_order t" "t_timestamp t' = t_timestamp t"
    "whole_quantity ''trade qty'' (t_qty t) = Inr q \<Longrightarrow> t_qty t' = VNum (PyInt q)"
    "finite_real ''trade price'' (t_price t) = Inr p \<Longrightarrow> t_price t' = VNum (PyFloat p)"
    "\<exists>q. whole_quantity ''trade qty'' (t_qty t) = Inr q" "\<exists>p. finite_real ''trade price'' (t_price t) = Inr p"
  using assms by (auto simp: trade_init_def validated_trade_numbers_def)

lemma finite_real_PyFloat: "finite_real f (VNum (PyFloat x)) = Inr y \<longleftrightarrow> is_finite x \<and> y = x"
  by (auto simp: finite_real_def as_real_def)

definition keeps_terms :: "order \<Rightarrow> trade \<Rightarrow> bool" where
  "keeps_terms ord tr = (\<exists>q p. whole_quantity ''trade qty'' (o_qty ord) = Inr q \<and> t_qty tr = VNum (PyInt q) \<and> t_price tr = VNum (PyFloat p) \<and>
     (o_kind ord = MarketOrder \<or> (\<exists>lmt l. o_kind ord = LimitOrder lmt \<and> finite_real ''limit price'' lmt = Inr l \<and>
        (0 < q \<longrightarrow> f_le p l) \<and> (q < 0 \<longrightarrow> f_le l p))))"

lemma num_lt_whole:
  assumes "whole_quantity f v = Inr q" "val_num v = Inr n" "\<bar>q\<bar> < 2 ^ 53"
  shows "num_lt (PyInt 0) n \<longleftrightarrow> 0 < q" "num_lt n (PyInt 0) \<longleftrightarrow> q < 0"
proof -
  from whole_quantity_Inr [OF assms(1)] assms(2) have e: "num_exact n = Fin (of_int q)"
    by (auto simp: val_num_def as_number_def)
  note r = num_rounded_small [OF e assms(3)]
  show "num_lt (PyInt 0) n \<longleftrightarrow> 0 < q" "num_lt n (PyInt 0) \<longleftrightarrow> q < 0"
    using e r by (auto simp: num_lt_def num_operands_def)
qed

lemma candidate_trade_Inr:
  assumes "candidate_trade sim ts i now heap oid = Inr (Some tr)"
    "\<And>q. whole_quantity ''trade qty'' (o_qty (heap oid)) = Inr q \<Longrightarrow> \<bar>q\<bar> < 2 ^ 53"
  shows "t_order tr = Attr oid" "t_timestamp tr = instant now" "keeps_terms (heap oid) tr"
proof -
  from assms(1) obtain c raw slip p price commission fee where k: "executable_kind (o_kind (heap oid)) = Inr True"
    and go: "(case o_kind (heap oid) of LimitOrder lmt \<Rightarrow> marketable (heap oid) lmt price | _ \<Rightarrow> Inr True) = Inr True"
    and tr: "mk_trade heap c oid now (o_qty (heap oid)) price fee commission = Inr tr"
    by (auto simp: candidate_trade_def Let_def split: if_splits)
  note t = trade_init_Inr [OF tr [unfolded mk_trade_def], simplified]
  show "t_order tr = Attr oid" "t_timestamp tr = instant now" using t(2,3) by simp_all
  from t(6) obtain q where q: "whole_quantity ''trade qty'' (o_qty (heap oid)) = Inr q" by blast
  from t(7) have p: "t_price tr = VNum (PyFloat price)" using t(5) finite_real_PyFloat by blast
  have "o_kind (heap oid) = MarketOrder \<or> (\<exists>lmt l. o_kind (heap oid) = LimitOrder lmt \<and> finite_real ''limit price'' lmt = Inr l \<and>
        (0 < q \<longrightarrow> f_le price l) \<and> (q < 0 \<longrightarrow> f_le l price))"
  proof (cases "o_kind (heap oid)")
    case (LimitOrder lmt)
    then obtain l n where l: "finite_real ''limit price'' lmt = Inr l" "val_num (o_qty (heap oid)) = Inr n"
      "num_lt (PyInt 0) n \<and> f_le price l \<or> num_lt n (PyInt 0) \<and> f_le l price"
      using go by (auto simp: marketable_def)
    show ?thesis using LimitOrder l num_lt_whole [OF q l(2) assms(2) [OF q]] by auto
  qed (use k in \<open>auto simp: executable_kind_def\<close>)
  then show "keeps_terms (heap oid) tr" using q p t(4) [OF q] unfolding keeps_terms_def by blast
qed

lemma simple_market_simulator_Inr:
  assumes "simple_market_simulator sim orders i ts heap = (Inr trades, heap')"
  obtains found where "i < length ts" "res_map (candidate_trade sim ts i (ts ! i) heap) orders = Inr found"
    "trades = complete_rolls heap orders [tr. Some tr \<leftarrow> found]"
  using assms by (auto simp: simple_market_simulator_def grid_at_def split: if_splits)

lemma candidate_of_found:
  assumes "res_map f orders = Inr found" "tr \<in> set [tr. Some tr \<leftarrow> found]"
  obtains oid where "oid \<in> set orders" "f oid = Inr (Some tr)"
proof -
  have "Some tr \<in> set found" using assms(2) by (auto split: option.splits)
  then obtain j where j: "j < length found" "found ! j = Some tr" by (auto simp: in_set_conv_nth)
  have "list_all2 (\<lambda>x y. f x = Inr y) orders found" using assms(1) by (simp add: res_map_Inr_conv)
  then have "j < length orders" "f (orders ! j) = Inr (Some tr)" using j by (auto simp: list_all2_conv_all_nth)
  then show thesis using that nth_mem by blast
qed

lemma complete_rolls_kept:
  assumes "tr \<in> set (complete_rolls heap orders cs)" "roll_id_of (heap (trade_order_id tr)) = Some r"
  shows "length (filter (\<lambda>oid. roll_id_of (heap oid) = Some r) orders) = 2 \<and>
    length (filter (\<lambda>tr. roll_id_of (heap (trade_order_id tr)) = Some r) (complete_rolls heap orders cs)) = 2"
proof -
  let ?n = "length (filter (\<lambda>oid. roll_id_of (heap oid) = Some r) (map trade_order_id cs))"
  have n: "?n = 2" "length (filter (\<lambda>oid. roll_id_of (heap oid) = Some r) orders) = 2"
    using assms by (auto simp: complete_rolls_def Let_def)
  have "filter (\<lambda>tr. roll_id_of (heap (trade_order_id tr)) = Some r) (complete_rolls heap orders cs)
      = filter (\<lambda>tr. roll_id_of (heap (trade_order_id tr)) = Some r) cs"
    using n by (auto simp: complete_rolls_def Let_def filter_filter intro!: filter_cong)
  then show ?thesis using n by (simp add: filter_map comp_def)
qed

section \<open>No look-ahead in VWAP execution\<close>

definition known_upto :: "nat \<Rightarrow> 'a list \<Rightarrow> 'a list \<Rightarrow> bool" where
  "known_upto i xs ys = (length xs = length ys \<and> take (Suc i) xs = take (Suc i) ys)"

definition same_history :: "nat \<Rightarrow> (string, columns) dict \<Rightarrow> (string, columns) dict \<Rightarrow> bool" where
  "same_history i = list_all2 (\<lambda>(g, cs) (g', cs'). g = g' \<and>
     list_all2 (\<lambda>(n, x) (n', x'). n = n' \<and> rel_option (known_upto i) x x') cs cs')"

lemma dict_get_rel:
  assumes "list_all2 (\<lambda>(k, v) (k', v'). k = k' \<and> R v v') d d'"
  shows "rel_option R (dict_get d k) (dict_get d' k)"
  using assms by (induction rule: list_all2_induct) auto

lemma known_upto_nth: "known_upto i xs ys \<Longrightarrow> j \<le> i \<Longrightarrow> j < length xs \<Longrightarrow> xs ! j = ys ! j"
  unfolding known_upto_def by (metis le_imp_less_Suc nth_take)

lemma column_at_known: "known_upto i xs ys \<Longrightarrow> column_at xs i = column_at ys i"
  by (auto simp: column_at_def known_upto_nth) (simp_all add: known_upto_def)

lemma get_column_known:
  assumes "list_all2 (\<lambda>(n, x) (n', x'). n = n' \<and> rel_option (known_upto i) x x') cs cs'"
  shows "(\<exists>e. get_column cs n = Inl e \<and> get_column cs' n = Inl e) \<or> (\<exists>x x'. get_column cs n = Inr x \<and> get_column cs' n = Inr x' \<and> known_upto i x x')"
  using dict_get_rel [OF assms, of n] by (auto simp: get_column_def option_rel_Some1 elim!: option.rel_cases)

lemma zip_mask_eq:
  assumes "length xs = length ys" "length m = length xs" "\<And>j. j < length xs \<Longrightarrow> m ! j \<Longrightarrow> xs ! j = ys ! j"
  shows "masked m xs = masked m ys"
proof -
  have "filter fst (zip m xs) = filter fst (zip m ys)"
    using assms
  proof (induction m arbitrary: xs ys)
    case (Cons b m)
    then obtain x xs' y ys' where l: "xs = x # xs'" "ys = y # ys'" by (metis length_Suc_conv length_0_conv list.exhaust list.size(3) nat.simps(3))
    have "filter fst (zip m xs') = filter fst (zip m ys')"
      by (rule Cons.IH) (use Cons.prems l in \<open>force+\<close>)
    moreover have "b \<Longrightarrow> x = y" using Cons.prems(3) [of 0] l by simp
    ultimately show ?case using l by simp
  qed simp
  then show ?thesis by (simp add: masked_def)
qed

lemma window_mask_known:
  assumes "known_upto i ps ps'" "known_upto i vs vs'" "strictly_increasing ts" "i < length ts" "length ps = length ts" "length vs = length ts"
  shows "\<exists>m. window_mask ts ps vs (ts ! i) a b = Inr m \<and> window_mask ts ps' vs' (ts ! i) a b = Inr m \<and> length m = length ts \<and>
    (\<forall>j<length ts. m ! j \<longrightarrow> j \<le> i)"
proof -
  have l: "length ps' = length ts" "length vs' = length ts" using assms by (auto simp: known_upto_def)
  have later: "ts ! i < ts ! j" if "i < j" "j < length ts" for j
    using assms(3) that by (simp add: strictly_increasing_def sorted_wrt_nth_less)
  let ?f = "\<lambda>(t, p, v). f_lt (Fin 0) p \<and> f_lt (Fin 0) v \<and> t \<le> ts ! i \<and> a \<le> t \<and> t \<le> b"
  have "map ?f (zip ts (zip ps vs)) = map ?f (zip ts (zip ps' vs'))"
  proof (rule nth_equalityI)
    fix j assume j: "j < length (map ?f (zip ts (zip ps vs)))"
    then have j: "j < length ts" using assms by simp
    show "map ?f (zip ts (zip ps vs)) ! j = map ?f (zip ts (zip ps' vs')) ! j"
    proof (cases "j \<le> i")
      case True
      then show ?thesis using j l assms known_upto_nth [OF assms(1) True] known_upto_nth [OF assms(2) True] by simp
    next
      case False
      then show ?thesis using j l assms later [of j] by simp
    qed
  qed (use assms l in simp)
  then have "window_mask ts ps vs (ts ! i) a b = Inr (map ?f (zip ts (zip ps vs)))" "window_mask ts ps' vs' (ts ! i) a b = Inr (map ?f (zip ts (zip ps vs)))"
    using assms l by (simp_all add: window_mask_def)
  moreover have "\<forall>j<length ts. map ?f (zip ts (zip ps vs)) ! j \<longrightarrow> j \<le> i"
  proof (intro allI impI, rule ccontr)
    fix j assume "j < length ts" "map ?f (zip ts (zip ps vs)) ! j" "\<not> j \<le> i"
    then show False using later [of j] assms(5,6) by simp
  qed
  moreover have "length (map ?f (zip ts (zip ps vs))) = length ts" using assms(5,6) by simp
  ultimately show ?thesis by blast
qed

lemma vwap_price_known:
  assumes "known_upto i ps ps'" "known_upto i vs vs'" "length ps = length ts" "length vs = length ts" "length m = length ts"
    "\<forall>j<length ts. m ! j \<longrightarrow> j \<le> i" "list_all2 (\<lambda>(n, x) (n', x'). n = n' \<and> rel_option (known_upto i) x x') cs cs'"
  shows "vwap_price nm sim cs ps vs m i = vwap_price nm sim cs' ps' vs' m i"
proof -
  have l: "length ps' = length ts" "length vs' = length ts" using assms by (auto simp: known_upto_def)
  have "masked m vs = masked m vs'"
    by (rule zip_mask_eq) (use assms l known_upto_nth [OF assms(2)] in auto)
  moreover have "masked m (map (\<lambda>(p, v). f_mul p v) (zip ps vs)) = masked m (map (\<lambda>(p, v). f_mul p v) (zip ps' vs'))"
    by (rule zip_mask_eq) (use assms l known_upto_nth [OF assms(1)] known_upto_nth [OF assms(2)] in auto)
  moreover have "rbind (get_column cs b) (\<lambda>xs. column_at xs i) = rbind (get_column cs' b) (\<lambda>xs. column_at xs i)" for b
    using get_column_known [OF assms(7), of b] column_at_known by fastforce
  ultimately show ?thesis by (simp add: vwap_price_def Let_def split: option.splits)
qed

lemma stop_hit_known: "known_upto i ps ps' \<Longrightarrow> stop_hit ord stop ps i = stop_hit ord stop ps' i"
  using column_at_known [of i ps ps'] by (simp add: stop_hit_def cong: if_cong)

lemma vwap_decide_known:
  assumes "same_history i inds inds'" "strictly_increasing ts" "i < length ts"
  shows "vwap_decide nm sim inds ts i (ts ! i) ord stop end_time c = vwap_decide nm sim inds' ts i (ts ! i) ord stop end_time c"
proof (cases "dict_get inds (cg_name (c_group c))")
  case None
  then have "dict_get inds' (cg_name (c_group c)) = None"
    using dict_get_rel [OF assms(1) [unfolded same_history_def], of "cg_name (c_group c)"] by simp
  then show ?thesis using None by (simp add: vwap_decide_def)
next
  case (Some cs)
  with dict_get_rel [OF assms(1) [unfolded same_history_def], of "cg_name (c_group c)"]
  obtain cs' where cs': "dict_get inds' (cg_name (c_group c)) = Some cs'"
    and r: "list_all2 (\<lambda>(n, x) (n', x'). n = n' \<and> rel_option (known_upto i) x x') cs cs'" by (auto simp: option_rel_Some1)
  note g = get_column_known [OF r]
  show ?thesis
  proof (cases "\<exists>ps vs. get_column cs (vs_price_indicator sim) = Inr ps \<and> get_column cs (vs_volume_indicator sim) = Inr vs")
    case False
    then show ?thesis using g [of "vs_price_indicator sim"] g [of "vs_volume_indicator sim"] Some cs' by (auto simp: vwap_decide_def)
  next
    case True
    then obtain ps vs ps' vs' where p: "get_column cs (vs_price_indicator sim) = Inr ps" "get_column cs' (vs_price_indicator sim) = Inr ps'" "known_upto i ps ps'"
      and v: "get_column cs (vs_volume_indicator sim) = Inr vs" "get_column cs' (vs_volume_indicator sim) = Inr vs'" "known_upto i vs vs'"
      using g [of "vs_price_indicator sim"] g [of "vs_volume_indicator sim"] by auto
    have w: "rbind (window_mask ts ps vs (ts ! i) a b) (\<lambda>msk. rbind (vwap_price nm sim cs ps vs msk i) k)
        = rbind (window_mask ts ps' vs' (ts ! i) a b) (\<lambda>msk. rbind (vwap_price nm sim cs' ps' vs' msk i) k)" for a b and k :: "float64 \<Rightarrow> vwap_decision res"
    proof (cases "length ps = length ts \<and> length vs = length ts")
      case True
      with window_mask_known [OF p(3) v(3) assms(2,3), of a b] obtain m where
        "window_mask ts ps vs (ts ! i) a b = Inr m" "window_mask ts ps' vs' (ts ! i) a b = Inr m" "length m = length ts" "\<forall>j<length ts. m ! j \<longrightarrow> j \<le> i"
        by blast
      then show ?thesis using vwap_price_known [OF p(3) v(3) _ _ _ _ r, of ts m nm sim] True by simp
    next
      case False
      then show ?thesis using p(3) v(3) by (auto simp: window_mask_def known_upto_def)
    qed
    show ?thesis unfolding vwap_decide_def using Some cs' p v by (simp add: stop_hit_known [OF p(3)] w cong: if_cong)
  qed
qed

lemma vwap_orders_known:
  assumes "same_history i inds inds'" "strictly_increasing ts" "i < length ts"
  shows "vwap_orders nm sim inds ts i (ts ! i) oids = vwap_orders nm sim inds' ts i (ts ! i) oids"
proof (induction oids)
  case (Cons oid oids)
  have "vwap_order nm sim inds ts i (ts ! i) oid = vwap_order nm sim inds' ts i (ts ! i) oid"
    by (rule ext) (auto simp: vwap_order_def vwap_decide_known [OF assms] split: option.splits)
  with Cons show ?case by simp
qed simp

section \<open>Properties\<close>

text \<open>
  Claim C35. The simple simulator keeps the terms of every order it fills: each trade belongs to one
  of the orders it was given, at the current timestamp, for the order's whole remaining quantity, and
  is of a market order or of a limit order whose limit price is not passed. The legs of a roll trade
  together or not at all: a trade of a leg is one of exactly two, and there are exactly two legs.
\<close>

theorem simple_simulator_keeps_terms:
  assumes "simple_market_simulator sim orders i ts heap = (Inr trades, heap')" "tr \<in> set trades"
    "\<And>oid q. oid \<in> set orders \<Longrightarrow> whole_quantity ''trade qty'' (o_qty (heap oid)) = Inr q \<Longrightarrow> \<bar>q\<bar> < 2 ^ 53"
  shows "\<exists>oid\<in>set orders. t_order tr = Attr oid \<and> t_timestamp tr = instant (ts ! i) \<and> keeps_terms (heap oid) tr \<and>
    (\<forall>r. roll_id_of (heap oid) = Some r \<longrightarrow> length (filter (\<lambda>j. roll_id_of (heap j) = Some r) orders) = 2 \<and>
       length (filter (\<lambda>tr. roll_id_of (heap (trade_order_id tr)) = Some r) trades) = 2)"
proof -
  from simple_market_simulator_Inr [OF assms(1)] obtain found where
    f: "res_map (candidate_trade sim ts i (ts ! i) heap) orders = Inr found" and t: "trades = complete_rolls heap orders [tr. Some tr \<leftarrow> found]"
    by blast
  have "tr \<in> set [tr. Some tr \<leftarrow> found]" using assms(2) unfolding t complete_rolls_def Let_def by simp
  from candidate_of_found [OF f this] obtain oid where oid: "oid \<in> set orders" "candidate_trade sim ts i (ts ! i) heap oid = Inr (Some tr)" .
  note c = candidate_trade_Inr [OF oid(2) assms(3) [OF oid(1)]]
  have "trade_order_id tr = oid" using c(1) by (simp add: trade_order_id_def)
  then show ?thesis using c oid(1) complete_rolls_kept [of tr heap orders "[tr. Some tr \<leftarrow> found]"] assms(2) t by (intro bexI [of _ oid]) auto
qed

text \<open>
  Claim C36. VWAP execution never looks ahead: the trades, the errors and the orders left behind at a
  timestamp are the same for any two sets of indicator columns that agree up to that timestamp.
\<close>

theorem vwap_simulator_no_lookahead:
  assumes "same_history i inds inds'" "strictly_increasing ts"
  shows "vwap_market_simulator nm sim orders i ts inds = vwap_market_simulator nm sim orders i ts inds'"
proof (cases "i < length ts")
  case True
  then show ?thesis by (intro ext) (simp add: vwap_market_simulator_def grid_at_def vwap_orders_known [OF assms True])
qed (simp add: vwap_market_simulator_def grid_at_def fun_eq_iff)

definition example_sim :: simple_sim where
  "example_sim = \<lparr>ss_price_func = (\<lambda>_ _ _. Inr (VNum (PyFloat (Fin 10)))), ss_slippage = adjustment (FixedPercentageSlippage (Fin 0)),
     ss_commission = charge (PerUnitCharge (Fin 0)), ss_fee = charge (PerUnitCharge (Fin 0)), ss_price_rounding = 3, ss_post_trade = None\<rparr>"

lemma example_sim_run:
  "\<exists>tr heap'. simple_market_simulator example_sim [0] 0 [10, 20] example_heap = (Inr [tr], heap')"
proof -
  have "\<exists>tr. candidate_trade example_sim [10, 20] 0 10 example_heap 0 = Inr (Some tr) \<and> t_order tr = Attr 0"
    by (simp add: candidate_trade_def example_heap_def example_order_def executable_kind_def order_contract_def raw_price_def is_basket_def
        callback_price_def example_sim_def validate_price_value_def as_real_def order_float_qty_def val_num_def as_number_def copysign_def
        py_round_def pow10_def round_half_even_def num_abs_def mk_trade_def trade_init_def validate_trade_references_def contract_is_def
        as_datetime_def dt_lt_def isnat_def validated_trade_numbers_def finite_real_def is_nan_def Let_def)
  then obtain tr where tr: "candidate_trade example_sim [10, 20] 0 10 example_heap 0 = Inr (Some tr)" "t_order tr = Attr 0" by blast
  have "complete_rolls example_heap [0] [tr] = [tr]"
    using tr(2) by (simp add: complete_rolls_def trade_order_id_def roll_id_of_def example_heap_def example_order_def)
  moreover have "\<exists>h. pforeach (fill_trade example_sim) [tr] example_heap = (Inr (), h)"
    using tr(2) by (simp add: fill_trade_def example_sim_def heap_fill_def trade_order_id_def fill_def fill_checked_qty_def example_heap_def
        example_order_def is_float_nan_def is_nan_def as_number_def pbind_def)
  ultimately show ?thesis using tr(1) by (auto simp: simple_market_simulator_def grid_at_def pbind_def)
qed

theorem simple_simulator_keeps_terms_witness:
  "\<exists>tr heap'. simple_market_simulator example_sim [0] 0 [10, 20] example_heap = (Inr [tr], heap') \<and> t_timestamp tr = instant 10 \<and>
     keeps_terms (example_order 4) tr"
proof -
  from example_sim_run obtain tr heap' where r: "simple_market_simulator example_sim [0] 0 [10, 20] example_heap = (Inr [tr], heap')" by blast
  have "\<And>oid q. oid \<in> set [0] \<Longrightarrow> whole_quantity ''trade qty'' (o_qty (example_heap oid)) = Inr q \<Longrightarrow> \<bar>q\<bar> < 2 ^ 53"
    by (simp add: example_heap_def example_order_def)
  from simple_simulator_keeps_terms [OF r _ this, of tr] r show ?thesis by (auto simp: example_heap_def)
qed

definition example_vwap :: vwap_sim where
  "example_vwap = \<lparr>vs_price_indicator = ''p'', vs_volume_indicator = ''v'', vs_backup = None\<rparr>"

definition example_columns :: "rat \<Rightarrow> (string, columns) dict" where
  "example_columns x = [(''DEFAULT'', [(''p'', Some [Fin 5, Fin x]), (''v'', Some [Fin 2, Fin 7])])]"

definition vwap_heap :: order_heap where
  "vwap_heap i = (example_order 4)\<lparr>o_kind := VWAPOrder (VNum (PyFloat NaN)) (instant 8)\<rparr>"

theorem vwap_simulator_no_lookahead_witness:
  "vwap_market_simulator example_numerics example_vwap [0] 0 [10, 20] (example_columns 6) vwap_heap =
   vwap_market_simulator example_numerics example_vwap [0] 0 [10, 20] (example_columns 1000) vwap_heap"
proof -
  have "same_history 0 (example_columns 6) (example_columns 1000)"
    by (simp add: same_history_def example_columns_def known_upto_def)
  from vwap_simulator_no_lookahead [OF this, of "[10, 20]"] show ?thesis by (simp add: strictly_increasing_def)
qed

section \<open>A stopped VWAP order fills a valid part\<close>

lemma fill_fraction_unit: "\<exists>f. fill_fraction now start end_time = Fin f \<and> 0 \<le> f \<and> f \<le> 1"
proof (cases "end_time - start \<le> 0")
  case False
  then show ?thesis
    by (cases "rnd64 (of_int (now - start) / of_int (end_time - start))")
       (auto simp: fill_fraction_def py_fmin_def py_fmax_def simp del: of_int_diff)
qed (simp add: fill_fraction_def)

lemma np_fix_part:
  assumes "\<bar>z\<bar> \<le> \<bar>of_int q\<bar>" "0 \<le> of_int q * z"
  obtains k where "np_fix (Fin z) = Fin (of_int k)" "\<bar>k\<bar> \<le> \<bar>q\<bar>" "0 \<le> q * k"
proof (cases "0 \<le> z")
  case True
  have "0 \<le> \<lfloor>z\<rfloor>" "\<lfloor>z\<rfloor> \<le> \<bar>q\<bar>" using True assms(1) by (auto simp: le_floor_iff floor_le_iff)
  moreover have "\<lfloor>z\<rfloor> = 0 \<or> 0 \<le> q"
  proof (cases "z = 0")
    case False
    then have "0 \<le> (of_int q :: rat)" using assms(2) True by (simp add: zero_le_mult_iff)
    then show ?thesis by simp
  qed simp
  ultimately show thesis using that [of "\<lfloor>z\<rfloor>"] True by (auto simp: np_fix_def)
next
  case False
  have "\<lceil>z\<rceil> \<le> 0" "- \<lceil>z\<rceil> \<le> \<bar>q\<bar>" using False assms(1) by (auto simp: ceiling_le_iff abs_if split: if_splits) linarith+
  moreover have "q \<le> 0" using assms(2) False by (simp add: zero_le_mult_iff)
  ultimately show thesis using that [of "\<lceil>z\<rceil>"] False by (auto simp: np_fix_def mult_nonpos_nonpos)
qed

text \<open>
  When a VWAP order hits its stop, the part filled is whole, on the order's side and not
  larger than what remains, so the fill is always accepted by the order and never raises; when the
  part rounds to nothing, nothing is filled.
\<close>

lemma vwap_stop_fill_valid:
  assumes "o_qty ord = VNum (PyInt q)" "\<bar>q\<bar> < 2 ^ 53" "status_in (o_status ord) [OPEN, PARTIALLY_FILLED]"
  shows "\<exists>k. stopped_qty ord (fill_fraction now start end_time) = Inr (Fin (of_int k)) \<and> \<bar>k\<bar> \<le> \<bar>q\<bar> \<and> 0 \<le> q * k \<and>
    (k \<noteq> 0 \<longrightarrow> fst (fill (VNum (PyFloat (Fin (of_int k)))) ord) = Inr () \<and>
       o_qty (snd (fill (VNum (PyFloat (Fin (of_int k)))) ord)) = VNum (PyInt (q - k)))"
proof -
  from fill_fraction_unit obtain f where f: "fill_fraction now start end_time = Fin f" "0 \<le> f" "f \<le> 1" by blast
  have "repr64 (of_int q)" using assms(2) by (simp add: repr64_of_int)
  from rnd64_scale [OF this f(2,3)] obtain z where z: "rnd64 (of_int q * f) = Fin z" "\<bar>z\<bar> \<le> \<bar>of_int q\<bar>" "0 \<le> of_int q * z" by blast
  from np_fix_part [OF z(2,3)] obtain k where k: "np_fix (Fin z) = Fin (of_int k)" "\<bar>k\<bar> \<le> \<bar>q\<bar>" "0 \<le> q * k" .
  have s: "stopped_qty ord (fill_fraction now start end_time) = Inr (Fin (of_int k))"
    using assms(1,2) f(1) z(1) k(1) by (simp add: stopped_qty_def val_num_def as_number_def)
  have "fst (fill (VNum (PyFloat (Fin (of_int k)))) ord) = Inr () \<and> o_qty (snd (fill (VNum (PyFloat (Fin (of_int k)))) ord)) = VNum (PyInt (q - k))"
    if "k \<noteq> 0"
  proof -
    have b: "\<bar>k\<bar> \<le> 2 ^ 64" "\<bar>q - k\<bar> \<le> 2 ^ 53" using k assms(2) by (auto simp: abs_if zero_le_mult_iff split: if_splits)
    have w: "whole_quantity ''fill qty'' (VNum (PyFloat (Fin (of_int k)))) = Inr k"
      using that b(1) by (simp add: whole_quantity_def as_real_def)
    have "fill_checked_qty (VNum (PyFloat (Fin (of_int k)))) ord = Inr (k, PyInt (q - k))"
      using assms(1,3) w k by (simp add: fill_checked_qty_def is_float_nan_def is_nan_def as_number_def num_intop_def num_lt_def num_operands_def num_abs_def not_less
          flip: of_int_mult of_int_abs)
    then show ?thesis using b(2) by (simp add: fill_def)
  qed
  with s k show ?thesis by blast
qed

lemma vwap_stop_fill_valid_instance:
  "\<exists>k. stopped_qty (example_order 4) (fill_fraction 7 5 9) = Inr (Fin (of_int k)) \<and> \<bar>k\<bar> \<le> 4"
  using vwap_stop_fill_valid [of "example_order 4" 4 7 5 9] by (auto simp: example_order_def)

end
