(* ===== verification/Trading_Rules.thy ===== *)
theory Trading_Rules
  imports Market_Simulators
begin

text \<open>
  Position sizing and the trading rules (\<open>strategy_components.py\<close>). A rule is a program over the
  account, because it asks for equity and equity is computed on demand; it returns the orders it
  constructs. The rule's price callbacks, the account's price function and the contract filter are
  parameters. The theorems bound the size an entry rule may take and show that an exit rule closes
  exactly the positions it finds.
\<close>

section \<open>Sizing\<close>

definition nonnegative_fraction :: "float64 \<Rightarrow> string \<Rightarrow> unit res" where
  "nonnegative_fraction value name = require (is_finite value \<and> \<not> f_lt value (Fin 0)) (ValueError (name @ '' must be finite and non-negative''))"

definition entry_price :: "pyval \<Rightarrow> float64 res" where
  "entry_price value =
     rbind (validate_price_value True value) (\<lambda>price.
     if \<not> is_nan price \<and> f_le price (Fin 0) then Inl (ValueError ''entry sizing requires a positive price'') else Inr price)"

definition entry_quantity :: "float64 \<Rightarrow> float64 \<Rightarrow> float64 \<Rightarrow> float64 \<Rightarrow> float64 res" where
  "entry_quantity eqty fraction price_distance multiplier =
     rbind (nonnegative_fraction fraction ''equity fraction'') (\<lambda>_.
     rbind (require (is_finite eqty) (ValueError ''entry sizing equity must be finite'')) (\<lambda>_.
     rbind (require (is_finite price_distance \<and> \<not> f_le price_distance (Fin 0))
        (ValueError ''entry sizing price/stop distance must be finite and positive'')) (\<lambda>_.
     let unit_cost = f_mul price_distance multiplier; budget = f_mul (py_fmax eqty (Fin 0)) fraction in
     rbind (require (is_finite unit_cost \<and> \<not> f_le unit_cost (Fin 0) \<and> is_finite budget) (ValueError ''entry sizing monetary amount is out of range'')) (\<lambda>_.
     let quantity = f_div budget unit_cost in
     rbind (require (is_finite quantity) (ValueError ''entry sizing quantity is out of range'')) (\<lambda>_. Inr quantity)))))"

text \<open>\<open>math.isclose(n, 0.0)\<close> of a Python integer.\<close>

definition int_isclose0 :: "int \<Rightarrow> bool res" where
  "int_isclose0 n = rbind (py_float n) (\<lambda>x. Inr (isclose0 x))"

definition new_order :: "order_kind \<Rightarrow> contract \<Rightarrow> int \<Rightarrow> pyval \<Rightarrow> string \<Rightarrow> time_in_force \<Rightarrow> order res" where
  "new_order k c t q reason tif = order_init \<lparr>o_contract = Attr c, o_timestamp = instant t, o_qty = q, o_reason_code = reason,
     o_time_in_force = Attr tif, o_properties = [], o_status = Attr OPEN, o_kind = k\<rparr>"

text \<open>What the engine passes to a rule, beside the account.\<close>

record rule_env =
  re_registry :: registry
  re_group :: contract_group
  re_index :: nat
  re_timestamps :: grid
  re_indicators :: columns
  re_heap :: order_heap
  re_current_orders :: "nat list"
  re_account_price :: price_function

section \<open>PercentOfEquityTradingRule\<close>

record percent_rule =
  pe_reason_code :: string
  pe_price_func :: price_function
  pe_equity_percent :: float64
  pe_long :: bool
  pe_allocate_risk :: bool
  pe_limit_increment :: float64

definition percent_rule_init :: "percent_rule \<Rightarrow> percent_rule res" where
  "percent_rule_init self = rbind (nonnegative_fraction (pe_equity_percent self) ''equity_percent'') (\<lambda>_. Inr self)"

definition percent_qty :: "percent_rule \<Rightarrow> nat \<Rightarrow> float64 \<Rightarrow> int res" where
  "percent_qty self n quantity =
     (let q1 = (if pe_allocate_risk self then f_div quantity (f_of_int (int n)) else quantity);
          q2 = (if pe_long self then q1 else f_neg q1) in
      if f_lt (Fin 0) q2 then py_floor q2 else py_ceil q2)"

definition percent_order :: "percent_rule \<Rightarrow> contract \<Rightarrow> int \<Rightarrow> float64 \<Rightarrow> int \<Rightarrow> order res" where
  "percent_order self c t price q =
     (if is_finite (pe_limit_increment self)
      then new_order (LimitOrder (VNum (NpFloat (f_sub price (f_mul (Fin (of_int (sgn q))) (pe_limit_increment self)))))) c t (VNum (PyInt q)) (pe_reason_code self) FOK
      else new_order MarketOrder c t (VNum (PyInt q)) (pe_reason_code self) FOK)"

primrec percent_loop :: "percent_rule \<Rightarrow> rule_env \<Rightarrow> int \<Rightarrow> nat \<Rightarrow> contract list \<Rightarrow> order list \<Rightarrow> (account, order list) prog" where
  "percent_loop self env t n [] orders = preturn orders"
| "percent_loop self env t n (c # cs) orders =
     pbind (plift (rbind (pe_price_func self c (re_timestamps env) (re_index env)) entry_price)) (\<lambda>price.
     if is_nan price then preturn []
     else pbind (equity (re_account_price env) t) (\<lambda>eq.
       pbind (plift (entry_quantity eq (pe_equity_percent self) price (c_multiplier c))) (\<lambda>quantity.
       pbind (plift (percent_qty self n quantity)) (\<lambda>q.
       pbind (plift (int_isclose0 q)) (\<lambda>zero.
       if zero then percent_loop self env t n cs orders
       else pbind (plift (percent_order self c t price q)) (\<lambda>ord. percent_loop self env t n cs (orders @ [ord])))))))"

definition percent_of_equity_rule :: "percent_rule \<Rightarrow> rule_env \<Rightarrow> (account, order list) prog" where
  "percent_of_equity_rule self env =
     pbind (plift (grid_at (re_timestamps env) (re_index env))) (\<lambda>t.
     let contracts = get_contracts (re_group env) (re_registry env) in percent_loop self env t (length contracts) contracts [])"

section \<open>VWAPEntryRule\<close>

record vwap_entry_rule =
  ve_reason_code :: string
  ve_vwap_minutes :: int
  ve_price_func :: price_function
  ve_long :: bool
  ve_percent_of_equity :: float64
  ve_stop_price_ind :: "string option"
  ve_min_price_diff_pct :: float64
  ve_single_entry_per_day :: bool

definition vwap_entry_init :: "string \<Rightarrow> pyval \<Rightarrow> price_function \<Rightarrow> bool \<Rightarrow> float64 \<Rightarrow> pyval \<Rightarrow> float64 \<Rightarrow> bool \<Rightarrow> vwap_entry_rule res" where
  "vwap_entry_init reason minutes price_func long percent stop_ind min_diff single =
     rbind (nonnegative_fraction percent ''percent_of_equity'') (\<lambda>_.
     rbind (nonnegative_fraction min_diff ''min_price_diff_pct'') (\<lambda>_.
     rbind (case minutes of VNum (PyInt n) \<Rightarrow> Inr n | VNum (NpInt w) \<Rightarrow> Inr (sint w) | _ \<Rightarrow> Inr 0) (\<lambda>n.
     rbind (require (0 < n) (ValueError ''vwap_minutes must be a positive integer'')) (\<lambda>_.
     rbind (case stop_ind of VNone \<Rightarrow> Inr None | _ \<Rightarrow> (case nonempty_str stop_ind of
         None \<Rightarrow> Inl (ValueError ''stop_price_ind must be a non-empty string or None'') | Some s \<Rightarrow> Inr (Some s))) (\<lambda>ind.
     Inr \<lparr>ve_reason_code = reason, ve_vwap_minutes = n, ve_price_func = price_func, ve_long = long, ve_percent_of_equity = percent,
          ve_stop_price_ind = ind, ve_min_price_diff_pct = min_diff, ve_single_entry_per_day = single\<rparr>)))))"

definition group_has_open_order :: "rule_env \<Rightarrow> bool res" where
  "group_has_open_order env =
     res_fold (\<lambda>found i. if found then Inr True else rbind (order_contract (re_heap env i)) (\<lambda>c.
       Inr (cg_id (c_group c) = cg_id (re_group env) \<and> is_open (re_heap env i)))) False (re_current_orders env)"

definition traded_today :: "rule_env \<Rightarrow> account \<Rightarrow> int \<Rightarrow> contract \<Rightarrow> bool" where
  "traded_today env ac t c = (get_trades_for_date ac (c_symbol c) (day_of t) \<noteq> [])"

text \<open>The stop and the distance to it; \<open>None\<close> when the stop is too near to enter.\<close>

definition vwap_stop_distance :: "vwap_entry_rule \<Rightarrow> rule_env \<Rightarrow> float64 \<Rightarrow> (float64 \<times> float64) option res" where
  "vwap_stop_distance self env price = (case ve_stop_price_ind self of
      None \<Rightarrow> Inr (Some (NaN, price))
    | Some name \<Rightarrow>
        rbind (case dict_get (re_indicators env) name of Some (Some xs) \<Rightarrow> Inr xs | Some None \<Rightarrow> Inl (TypeError ''NoneType is not subscriptable'')
           | None \<Rightarrow> Inl (AttributeError name)) (\<lambda>xs.
        rbind (column_at xs (re_index env)) (\<lambda>stop.
        let distance = (if ve_long self then f_sub price stop else f_sub stop price) in
        rbind (require (is_finite distance \<and> \<not> f_le distance (Fin 0)) (ValueError ''VWAP stop must be finite and on the loss side of the entry price'')) (\<lambda>_.
        Inr (if f_lt distance (f_mul (ve_min_price_diff_pct self) price) then None else Some (stop, distance))))))"

definition vwap_entry_qty :: "vwap_entry_rule \<Rightarrow> nat \<Rightarrow> float64 \<Rightarrow> int res" where
  "vwap_entry_qty self n quantity = rbind (py_floor (f_div quantity (f_of_int (int n)))) (\<lambda>k. Inr (k * (if ve_long self then 1 else - 1)))"

primrec vwap_entry_loop :: "vwap_entry_rule \<Rightarrow> rule_env \<Rightarrow> int \<Rightarrow> nat \<Rightarrow> contract list \<Rightarrow> order list \<Rightarrow> (account, order list) prog" where
  "vwap_entry_loop self env t n [] orders = preturn orders"
| "vwap_entry_loop self env t n (c # cs) orders =
     pbind (plift (rbind (ve_price_func self c (re_timestamps env) (re_index env)) entry_price)) (\<lambda>price.
     if is_nan price then preturn []
     else pbind (plift (vwap_stop_distance self env price)) (\<lambda>sd. case sd of
         None \<Rightarrow> preturn []
       | Some (stop, distance) \<Rightarrow>
           pbind (equity (re_account_price env) t) (\<lambda>eq.
           pbind (plift (entry_quantity eq (ve_percent_of_equity self) distance (c_multiplier c))) (\<lambda>quantity.
           pbind (plift (vwap_entry_qty self n quantity)) (\<lambda>q.
           pbind (plift (int_isclose0 q)) (\<lambda>zero.
           if zero then vwap_entry_loop self env t n cs orders
           else pbind (plift (new_order (VWAPOrder (VNum (NpFloat stop)) (instant (t + ve_vwap_minutes self * ns_per_minute))) c t
                  (VNum (PyInt q)) (ve_reason_code self) GTC)) (\<lambda>ord.
             vwap_entry_loop self env t n cs (orders @ [ord]))))))))"

definition vwap_entry :: "vwap_entry_rule \<Rightarrow> rule_env \<Rightarrow> (account, order list) prog" where
  "vwap_entry self env =
     pbind (plift (grid_at (re_timestamps env) (re_index env))) (\<lambda>t.
     let contracts = get_contracts (re_group env) (re_registry env) in
     pbind (pgets (\<lambda>ac. ve_single_entry_per_day self \<and> (\<exists>c\<in>set contracts. traded_today env ac t c))) (\<lambda>entered.
     if entered then preturn []
     else pbind (plift (group_has_open_order env)) (\<lambda>pending.
       if pending then preturn [] else vwap_entry_loop self env t (length contracts) contracts [])))"

section \<open>VWAPCloseRule\<close>

record vwap_close_rule =
  vc_reason_code :: string
  vc_vwap_minutes :: int

definition vwap_close :: "vwap_close_rule \<Rightarrow> rule_env \<Rightarrow> (account, order list) prog" where
  "vwap_close self env ac =
     (rbind (grid_at (re_timestamps env) (re_index env)) (\<lambda>t.
      rbind (group_has_open_order env) (\<lambda>pending. if pending then Inr [] else
      rbind (positions (re_registry env) ac (re_group env) t) (\<lambda>ps.
      res_map (\<lambda>(c, q). new_order (VWAPOrder (VNum (PyFloat NaN)) (instant (t + vc_vwap_minutes self * ns_per_minute))) c t
        (VNum (PyInt (- q))) (vc_reason_code self) GTC) ps))), ac)"

section \<open>BracketOrderEntryRule\<close>

record bracket_rule =
  br_reason_code :: string
  br_price_func :: price_function
  br_long :: bool
  br_percent_of_equity :: float64
  br_min_stop_return :: float64
  br_max_position_size :: float64
  br_single_entry_per_day :: bool
  br_contract_filter :: "(rule_env \<Rightarrow> account \<Rightarrow> string list res) option"
  br_stop_return_func :: "(contract \<Rightarrow> grid \<Rightarrow> nat \<Rightarrow> float64 res) option"

definition bracket_init :: "bracket_rule \<Rightarrow> bracket_rule res" where
  "bracket_init self =
     rbind (nonnegative_fraction (br_percent_of_equity self) ''percent_of_equity'') (\<lambda>_.
     rbind (nonnegative_fraction (br_max_position_size self) ''max_position_size'') (\<lambda>_.
     rbind (require (is_finite (br_min_stop_return self) \<and> \<not> f_lt (Fin 0) (br_min_stop_return self))
        (ValueError ''min_stop_return must be finite and non-positive'')) (\<lambda>_. Inr self)))"

definition bracket_contracts :: "bracket_rule \<Rightarrow> rule_env \<Rightarrow> account \<Rightarrow> contract list res" where
  "bracket_contracts self env ac = (case br_contract_filter self of
      None \<Rightarrow> Inr (get_contracts (re_group env) (re_registry env))
    | Some f \<Rightarrow> rbind (f env ac) (\<lambda>names. Inr (List.map_filter (\<lambda>n. contract_get n (re_registry env)) names)))"

text \<open>The distance from entry to stop; \<open>None\<close> when the stop is too near or not on the loss side.\<close>

definition bracket_distance :: "bracket_rule \<Rightarrow> rule_env \<Rightarrow> contract \<Rightarrow> float64 \<Rightarrow> float64 option res" where
  "bracket_distance self env c price = (case br_stop_return_func self of
      None \<Rightarrow> Inr (Some price)
    | Some f \<Rightarrow>
        rbind (f c (re_timestamps env) (re_index env)) (\<lambda>stop_return.
        rbind (require (is_finite stop_return \<and> \<not> f_le (Fin 0) stop_return) (ValueError ''stop_return must be finite and negative'')) (\<lambda>_.
        if f_lt (br_min_stop_return self) stop_return then Inr None
        else let sr = (if br_long self then stop_return else f_neg stop_return);
                 stop_price = f_mul price (f_add (Fin 1) sr) in
          Inr (if (if br_long self then f_le price stop_price else f_le stop_price price) then None
               else Some (f_abs (f_mul price sr))))))"

definition bracket_qty :: "bracket_rule \<Rightarrow> float64 \<Rightarrow> float64 \<Rightarrow> float64 \<Rightarrow> float64 \<Rightarrow> int res" where
  "bracket_qty self eqty price distance multiplier =
     rbind (entry_quantity eqty (br_percent_of_equity self) distance multiplier) (\<lambda>order_qty.
     rbind (if f_lt (Fin 0) (br_max_position_size self)
        then rbind (entry_quantity eqty (br_max_position_size self) price multiplier) (\<lambda>max_qty.
          Inr (if f_lt max_qty (f_abs order_qty) then f_mul max_qty (Fin (f_sign_rat order_qty)) else order_qty))
        else Inr order_qty) (\<lambda>q.
     rbind (py_floor q) (\<lambda>k. Inr (if br_long self then k else - k))))"

primrec bracket_loop :: "bracket_rule \<Rightarrow> rule_env \<Rightarrow> int \<Rightarrow> contract list \<Rightarrow> order list \<Rightarrow> (account, order list) prog" where
  "bracket_loop self env t [] orders = preturn orders"
| "bracket_loop self env t (c # cs) orders =
     pbind (pgets (\<lambda>ac. br_single_entry_per_day self \<and> traded_today env ac t c)) (\<lambda>entered.
     if entered then bracket_loop self env t cs orders
     else pbind (plift (rbind (br_price_func self c (re_timestamps env) (re_index env)) entry_price)) (\<lambda>price.
       if is_nan price then bracket_loop self env t cs orders
       else pbind (plift (bracket_distance self env c price)) (\<lambda>d. case d of
           None \<Rightarrow> bracket_loop self env t cs orders
         | Some distance \<Rightarrow>
             pbind (equity (re_account_price env) t) (\<lambda>eq.
             pbind (plift (bracket_qty self eq price distance (c_multiplier c))) (\<lambda>q.
             pbind (plift (int_isclose0 q)) (\<lambda>zero.
             if zero then bracket_loop self env t cs orders
             else pbind (plift (new_order MarketOrder c t (VNum (PyInt q)) (br_reason_code self) FOK)) (\<lambda>ord.
               bracket_loop self env t cs (orders @ [ord]))))))))"

definition bracket_entry :: "bracket_rule \<Rightarrow> rule_env \<Rightarrow> (account, order list) prog" where
  "bracket_entry self env =
     pbind (plift (grid_at (re_timestamps env) (re_index env))) (\<lambda>t.
     pbind (\<lambda>ac. (bracket_contracts self env ac, ac)) (\<lambda>contracts. bracket_loop self env t contracts []))"

section \<open>ClosePositionExitRule\<close>

record close_rule =
  cl_reason_code :: string
  cl_price_func :: "contract \<Rightarrow> grid \<Rightarrow> nat \<Rightarrow> float64 res"
  cl_limit_increment :: float64

definition close_rule_init :: "close_rule \<Rightarrow> close_rule res" where
  "close_rule_init self =
     rbind (pq_assert (is_nan (cl_limit_increment self) \<or> f_le (Fin 0) (cl_limit_increment self)) ''limit_increment cannot be negative'') (\<lambda>_. Inr self)"

definition close_order :: "close_rule \<Rightarrow> rule_env \<Rightarrow> int \<Rightarrow> contract \<times> int \<Rightarrow> order res" where
  "close_order self env t = (\<lambda>(c, q).
     if is_finite (cl_limit_increment self)
     then rbind (cl_price_func self c (re_timestamps env) (re_index env)) (\<lambda>p.
       new_order (LimitOrder (VNum (PyFloat (if 0 \<le> q then f_add p (cl_limit_increment self) else f_sub p (cl_limit_increment self))))) c t
         (VNum (PyInt (- q))) (cl_reason_code self) FOK)
     else new_order MarketOrder c t (VNum (PyInt (- q))) (cl_reason_code self) FOK)"

definition close_position :: "close_rule \<Rightarrow> rule_env \<Rightarrow> (account, order list) prog" where
  "close_position self env ac =
     (rbind (grid_at (re_timestamps env) (re_index env)) (\<lambda>t.
      rbind (positions (re_registry env) ac (re_group env) t) (\<lambda>ps. res_map (close_order self env t) ps)), ac)"

section \<open>StopReturnExitRule\<close>

record stop_return_rule =
  sr_reason_code :: string
  sr_price_func :: "contract \<Rightarrow> grid \<Rightarrow> nat \<Rightarrow> float64 res"
  sr_stop_return_func :: "contract \<Rightarrow> grid \<Rightarrow> nat \<Rightarrow> float64 res"

text \<open>The entry prices of the day are what the strategy context holds for it; \<open>None\<close> for no such key.\<close>

definition stop_return_order :: "stop_return_rule \<Rightarrow> rule_env \<Rightarrow> int \<Rightarrow> (string, float64) dict \<Rightarrow> contract \<times> int \<Rightarrow> order option res" where
  "stop_return_order self env t entry_prices = (\<lambda>(c, q).
     rbind (sr_stop_return_func self c (re_timestamps env) (re_index env)) (\<lambda>stop_ret.
     rbind (pq_assert (f_lt stop_ret (Fin 0)) ''stop_return must be negative'') (\<lambda>_.
     rbind (case dict_get entry_prices (c_symbol c) of None \<Rightarrow> Inl (KeyError (c_symbol c)) | Some p \<Rightarrow> Inr p) (\<lambda>entry.
     let stop_price = f_mul entry (f_add (Fin 1) (if q < 0 then f_neg stop_ret else stop_ret)) in
     rbind (sr_price_func self c (re_timestamps env) (re_index env)) (\<lambda>curr.
     if is_nan curr then Inr None
     else if 0 < q \<and> f_lt stop_price curr \<or> q \<le> 0 \<and> f_lt curr stop_price then Inr None
     else rbind (new_order MarketOrder c t (VNum (PyInt (- q))) (sr_reason_code self) FOK) (\<lambda>ord. Inr (Some ord)))))))"

definition stop_return_exit :: "stop_return_rule \<Rightarrow> (int \<Rightarrow> (string, float64) dict option) \<Rightarrow> rule_env \<Rightarrow> (account, order list) prog" where
  "stop_return_exit self entry_prices env ac =
     (rbind (grid_at (re_timestamps env) (re_index env)) (\<lambda>t.
      rbind (case entry_prices (day_of t) of None \<Rightarrow> Inl (KeyError ''entry_prices'') | Some d \<Rightarrow> Inr d) (\<lambda>d.
      rbind (pq_assert (d \<noteq> []) ''no symbols entered'') (\<lambda>_.
      rbind (positions (re_registry env) ac (re_group env) t) (\<lambda>ps.
      rbind (res_map (stop_return_order self env t d) ps) (\<lambda>os. Inr [ord. Some ord \<leftarrow> os]))))), ac)"

section \<open>Facts\<close>

lemma whole_quantity_PyInt_eq: "whole_quantity f (VNum (PyInt q)) = Inr q' \<Longrightarrow> q' = q \<and> q \<noteq> 0"
  using whole_quantity_Inr [of f "VNum (PyInt q)" q'] by auto

lemma new_order_Inr:
  assumes "new_order k c t (VNum (PyInt q)) reason tif = Inr ord" "\<And>r x y. k \<noteq> RollOrder r x y"
  shows "o_contract ord = Attr c" "o_timestamp ord = instant t" "o_qty ord = VNum (PyInt q)" "o_status ord = Attr OPEN" "q \<noteq> 0"
    "k = MarketOrder \<Longrightarrow> o_kind ord = MarketOrder"
proof -
  have "\<exists>q'. whole_quantity ''order qty'' (VNum (PyInt q)) = Inr q' \<and> o_contract ord = Attr c \<and> o_timestamp ord = instant t \<and>
      o_qty ord = VNum (PyInt q') \<and> o_status ord = Attr OPEN \<and> (k = MarketOrder \<longrightarrow> o_kind ord = MarketOrder)"
    using assms by (cases k) (auto simp: new_order_def order_init_def order_post_init_def split: if_splits)
  then show "o_contract ord = Attr c" "o_timestamp ord = instant t" "o_qty ord = VNum (PyInt q)" "o_status ord = Attr OPEN" "q \<noteq> 0"
    "k = MarketOrder \<Longrightarrow> o_kind ord = MarketOrder"
    using whole_quantity_PyInt_eq by blast+
qed

lemma entry_quantity_nonneg:
  assumes "entry_quantity eqty fraction distance multiplier = Inr x"
  shows "\<exists>y. x = Fin y \<and> 0 \<le> y \<and> repr64 y"
proof -
  let ?u = "f_mul distance multiplier" and ?b = "f_mul (py_fmax eqty (Fin 0)) fraction"
  from assms obtain u b y where u: "?u = Fin u" "0 < u" and b: "?b = Fin b" and y: "f_div ?b ?u = Fin y" "x = Fin y"
    and f: "is_finite fraction" "\<not> f_lt fraction (Fin 0)"
    by (auto simp: entry_quantity_def nonnegative_fraction_def Let_def is_finite_iff)
  have "f_nonneg fraction" using f by (auto simp: is_finite_iff)
  moreover have "f_nonneg (py_fmax eqty (Fin 0))" by (cases eqty) (auto simp: py_fmax_def)
  ultimately have "f_nonneg ?b" by (rule f_nonneg_mul [rotated])
  then have "0 \<le> b" using b by simp
  moreover have r: "rnd64 (b / u) = Fin y" using y(1) u b by simp
  ultimately show ?thesis using y(2) u(2) rnd64_nonneg [OF _ r] repr64_rnd64 [OF r] by simp
qed

text \<open>The risk budget and the position cap both bound the number of contracts.\<close>

lemma bracket_qty_capped:
  assumes "bracket_qty self eqty price distance multiplier = Inr k"
  shows "if br_long self then 0 \<le> k else k \<le> 0"
    "\<exists>y. entry_quantity eqty (br_percent_of_equity self) distance multiplier = Inr (Fin y) \<and> of_int \<bar>k\<bar> \<le> y"
    "f_lt (Fin 0) (br_max_position_size self) \<Longrightarrow>
       \<exists>y. entry_quantity eqty (br_max_position_size self) price multiplier = Inr (Fin y) \<and> of_int \<bar>k\<bar> \<le> y"
proof -
  let ?cap = "f_lt (Fin 0) (br_max_position_size self)"
  from assms obtain a where a: "entry_quantity eqty (br_percent_of_equity self) distance multiplier = Inr a"
    by (auto simp: bracket_qty_def)
  from entry_quantity_nonneg [OF a] obtain x where x: "a = Fin x" "0 \<le> x" "repr64 x" by blast
  have "\<exists>m y. (?cap \<longrightarrow> entry_quantity eqty (br_max_position_size self) price multiplier = Inr (Fin m) \<and> y \<le> m) \<and> 0 \<le> y \<and> y \<le> x \<and>
      k = (if br_long self then \<lfloor>y\<rfloor> else - \<lfloor>y\<rfloor>)"
  proof (cases ?cap)
    case False
    then show ?thesis using assms a x by (auto simp: bracket_qty_def py_floor_def)
  next
    case True
    then obtain b where b: "entry_quantity eqty (br_max_position_size self) price multiplier = Inr b"
      using assms a by (auto simp: bracket_qty_def)
    from entry_quantity_nonneg [OF b] obtain m where m: "b = Fin m" "0 \<le> m" "repr64 m" by blast
    have "sgn x = 1" if "m < x" using that m(2) by simp
    then have "k = (if br_long self then \<lfloor>if m < x then m else x\<rfloor> else - \<lfloor>if m < x then m else x\<rfloor>)"
      using assms a x b m True by (auto simp: bracket_qty_def py_floor_def repr64_def split: if_splits)
    then show ?thesis using b m x(2) by (intro exI [of _ m] exI [of _ "if m < x then m else x"]) auto
  qed
  then obtain m y where y: "?cap \<longrightarrow> entry_quantity eqty (br_max_position_size self) price multiplier = Inr (Fin m) \<and> y \<le> m" "0 \<le> y" "y \<le> x"
    "k = (if br_long self then \<lfloor>y\<rfloor> else - \<lfloor>y\<rfloor>)" by blast
  have k: "of_int \<bar>k\<bar> \<le> y" "0 \<le> \<lfloor>y\<rfloor>" using y(2,4) by (auto simp: of_int_floor_le)
  show "if br_long self then 0 \<le> k else k \<le> 0" using y(4) k(2) by simp
  show "\<exists>y. entry_quantity eqty (br_percent_of_equity self) distance multiplier = Inr (Fin y) \<and> of_int \<bar>k\<bar> \<le> y"
    using a x(1) k(1) y(3) by auto
  show "?cap \<Longrightarrow> \<exists>y. entry_quantity eqty (br_max_position_size self) price multiplier = Inr (Fin y) \<and> of_int \<bar>k\<bar> \<le> y"
    using y(1) k(1) by auto
qed

text \<open>What is known of every order a bracket rule builds.\<close>

definition bracket_order_ok :: "bracket_rule \<Rightarrow> contract list \<Rightarrow> int \<Rightarrow> order \<Rightarrow> bool" where
  "bracket_order_ok self cs t ord = (\<exists>c k eqty price distance. c \<in> set cs \<and> o_contract ord = Attr c \<and> o_timestamp ord = instant t \<and>
     o_kind ord = MarketOrder \<and> o_qty ord = VNum (PyInt k) \<and> (if br_long self then 0 < k else k < 0) \<and>
     (\<exists>y. entry_quantity eqty (br_percent_of_equity self) distance (c_multiplier c) = Inr (Fin y) \<and> of_int \<bar>k\<bar> \<le> y) \<and>
     (f_lt (Fin 0) (br_max_position_size self) \<longrightarrow>
        (\<exists>y. entry_quantity eqty (br_max_position_size self) price (c_multiplier c) = Inr (Fin y) \<and> of_int \<bar>k\<bar> \<le> y)))"

lemma bracket_loop_ok:
  assumes "bracket_loop self env t cs orders ac = (Inr orders', ac')" "set cs \<subseteq> set all" "\<forall>ord\<in>set orders. bracket_order_ok self all t ord"
  shows "\<forall>ord\<in>set orders'. bracket_order_ok self all t ord"
  using assms
proof (induction cs arbitrary: orders ac)
  case (Cons c cs)
  have step: "\<exists>orders1 ac1. bracket_loop self env t cs orders1 ac1 = (Inr orders', ac') \<and> (\<forall>ord\<in>set orders1. bracket_order_ok self all t ord)"
  proof -
    consider (skip) ac1 where "bracket_loop self env t cs orders ac1 = (Inr orders', ac')"
      | (order) price distance eqty k ord ac1 where "bracket_qty self eqty price distance (c_multiplier c) = Inr k"
        "new_order MarketOrder c t (VNum (PyInt k)) (br_reason_code self) FOK = Inr ord"
        "bracket_loop self env t cs (orders @ [ord]) ac1 = (Inr orders', ac')"
      using Cons.prems(1) by (auto split: if_splits option.splits)
    then show ?thesis
    proof cases
      case skip
      then show ?thesis using Cons.prems(3) by blast
    next
      case order
      note n = new_order_Inr [OF order(2)]
      note q = bracket_qty_capped [OF order(1)]
      have "bracket_order_ok self all t ord"
        unfolding bracket_order_ok_def using n q Cons.prems(2)
        by (intro exI [of _ c] exI [of _ k] exI [of _ eqty] exI [of _ price] exI [of _ distance]) auto
      then show ?thesis using order(3) Cons.prems(3) by (intro exI [of _ "orders @ [ord]"] exI [of _ ac1]) auto
    qed
  qed
  then show ?case using Cons.IH Cons.prems(2) by auto
qed simp

section \<open>Properties\<close>

text \<open>
  An exit closes what is held: the close rule returns one order per nonzero position of
  the group, in the same order, each open, for the same contract, at the current timestamp and for
  exactly the opposite quantity; the account is not changed.
\<close>

lemma close_position_flattens:
  assumes "close_position self env ac = (Inr orders, ac')" "re_index env < length (re_timestamps env)"
    "positions (re_registry env) ac (re_group env) (re_timestamps env ! re_index env) = Inr ps"
  shows "ac' = ac \<and> list_all2 (\<lambda>(c, q) ord. o_contract ord = Attr c \<and> o_qty ord = VNum (PyInt (- q)) \<and> o_status ord = Attr OPEN \<and>
    o_timestamp ord = instant (re_timestamps env ! re_index env)) ps orders"
proof -
  have "res_map (close_order self env (re_timestamps env ! re_index env)) ps = Inr orders" "ac' = ac"
    using assms by (auto simp: close_position_def grid_at_def)
  moreover have "o_contract ord = Attr c \<and> o_qty ord = VNum (PyInt (- q)) \<and> o_status ord = Attr OPEN \<and> o_timestamp ord = instant t"
    if "close_order self env t (c, q) = Inr ord" for c q ord t
    using that new_order_Inr [of _ c t "- q" "cl_reason_code self" FOK ord] by (auto simp: close_order_def split: if_splits)
  ultimately show ?thesis by (auto simp: res_map_Inr_conv elim!: list_all2_mono)
qed

text \<open>
  A bracket entry never takes more than its budgets allow: every order it returns is a
  market order at the current timestamp on the rule's side, for a contract it was asked to consider,
  and its size exceeds neither the quantity the equity fraction buys at the stop distance nor, when a
  maximum position size is set, the quantity that size buys at the entry price.
\<close>

lemma bracket_entry_within_budgets:
  assumes "bracket_entry self env ac = (Inr orders, ac')" "re_index env < length (re_timestamps env)"
    "bracket_contracts self env ac = Inr cs" "ord \<in> set orders"
  shows "\<exists>c k eqty price distance. c \<in> set cs \<and> o_contract ord = Attr c \<and> o_timestamp ord = instant (re_timestamps env ! re_index env) \<and>
     o_kind ord = MarketOrder \<and> o_qty ord = VNum (PyInt k) \<and> (if br_long self then 0 < k else k < 0) \<and>
     (\<exists>y. entry_quantity eqty (br_percent_of_equity self) distance (c_multiplier c) = Inr (Fin y) \<and> of_int \<bar>k\<bar> \<le> y) \<and>
     (f_lt (Fin 0) (br_max_position_size self) \<longrightarrow>
        (\<exists>y. entry_quantity eqty (br_max_position_size self) price (c_multiplier c) = Inr (Fin y) \<and> of_int \<bar>k\<bar> \<le> y))"
proof -
  have "bracket_loop self env (re_timestamps env ! re_index env) cs [] ac = (Inr orders, ac')"
    using assms(1-3) by (auto simp: bracket_entry_def grid_at_def pbind_def)
  from bracket_loop_ok [OF this order_refl] assms(4) have "bracket_order_ok self cs (re_timestamps env ! re_index env) ord" by simp
  then show ?thesis unfolding bracket_order_ok_def .
qed

definition example_env :: rule_env where
  "example_env = \<lparr>re_registry = example_registry, re_group = DEFAULT_CG, re_index = 1, re_timestamps = [10, 20], re_indicators = [],
     re_heap = example_heap, re_current_orders = [], re_account_price = example_price\<rparr>"

definition example_close :: close_rule where
  "example_close = \<lparr>cl_reason_code = ''exit'', cl_price_func = (\<lambda>_ _ _. Inr (Fin 10)), cl_limit_increment = NaN\<rparr>"

lemma example_positions_booked: "positions example_registry example_booked DEFAULT_CG 20 = Inr [(example_contract, 4)]"
proof -
  have "\<exists>cp. dict_get (ac_symbol_pnls example_booked) ''A'' = Some cp \<and> cp_position cp 20 = Inr 4" "ac_contract_groups example_booked = [DEFAULT_CG]"
    unfolding example_booked_def
    by (simp_all add: account_eval_simps) (simp_all add: account_eval_simps example_account_def cp_position_def)
  then show ?thesis
    by (auto simp: positions_def require_configured_group_def configured_def example_registry_def DEFAULT_CG_def)
qed

lemma close_position_flattens_instance:
  "\<exists>ord. close_position example_close example_env example_booked = (Inr [ord], example_booked) \<and> o_qty ord = VNum (PyInt (- 4))"
proof -
  have i: "re_index example_env < length (re_timestamps example_env)" by (simp add: example_env_def)
  have p: "positions (re_registry example_env) example_booked (re_group example_env) (re_timestamps example_env ! re_index example_env)
      = Inr [(example_contract, 4)]"
    using example_positions_booked by (simp add: example_env_def)
  have "\<exists>os. close_position example_close example_env example_booked = (Inr os, example_booked)"
    using p i by (simp add: close_position_def grid_at_def close_order_def example_close_def new_order_def order_init_def order_post_init_def
        validate_order_references_def as_datetime_def)
  then obtain os where c: "close_position example_close example_env example_booked = (Inr os, example_booked)" by blast
  from close_position_flattens [OF c i p] c show ?thesis by (auto simp: list_all2_Cons1)
qed

definition example_bracket :: bracket_rule where
  "example_bracket = \<lparr>br_reason_code = ''entry'', br_price_func = (\<lambda>_ _ _. Inr (VNum (PyFloat (Fin 8)))), br_long = True,
     br_percent_of_equity = Fin 1, br_min_stop_return = Fin 0, br_max_position_size = Fin 0, br_single_entry_per_day = False,
     br_contract_filter = None, br_stop_return_func = None\<rparr>"

lemma example_equity: "\<exists>ac. equity example_price 20 example_account = (Inr (Fin 1000), ac)"
  by (simp add: equity_def calc_def calc_points_def calc_point_def example_account_def timestamp_index_def searchsorted_left_def
      find_index_before_def sd_bisect_left_def pbind_def)

lemma example_bracket_run:
  "\<exists>ord ac'. bracket_entry example_bracket example_env example_account = (Inr [ord], ac')"
proof -
  obtain ac where e: "equity example_price 20 example_account = (Inr (Fin 1000), ac)" using example_equity by blast
  have q: "bracket_qty example_bracket (Fin 1000) (Fin 8) (Fin 8) (Fin 1) = Inr 125"
    by (simp add: bracket_qty_def example_bracket_def entry_quantity_def nonnegative_fraction_def py_fmax_def py_floor_def Let_def)
  have f: "br_single_entry_per_day example_bracket = False" "br_contract_filter example_bracket = None" "br_stop_return_func example_bracket = None"
    "br_price_func example_bracket c ts i = Inr (VNum (PyFloat (Fin 8)))" "br_reason_code example_bracket = ''entry''" for c ts i
    by (simp_all add: example_bracket_def)
  have g: "re_index example_env = 1" "re_timestamps example_env = [10, 20]" "re_account_price example_env = example_price"
    "get_contracts (re_group example_env) (re_registry example_env) = [example_contract]"
    by (simp_all add: example_env_def get_contracts_def example_registry_def DEFAULT_CG_def)
  have n: "\<exists>ord. new_order MarketOrder example_contract 20 (VNum (PyInt 125)) ''entry'' FOK = Inr ord"
    by (simp add: new_order_def order_init_def order_post_init_def validate_order_references_def as_datetime_def)
  have l: "\<exists>ord ac'. bracket_loop example_bracket example_env 20 [example_contract] [] example_account = (Inr [ord], ac')"
    using n by (auto simp: f g entry_price_def validate_price_value_def as_real_def is_nan_def bracket_distance_def pbind_eq(1) [where m = "equity example_price 20" and s = example_account, OF e] q int_isclose0_def)
  show ?thesis using l by (simp add: bracket_entry_def grid_at_def g bracket_contracts_def f pbind_def)
qed

lemma bracket_entry_within_budgets_instance:
  "\<exists>ord k ac'. bracket_entry example_bracket example_env example_account = (Inr [ord], ac') \<and> o_qty ord = VNum (PyInt k) \<and> 0 < k"
proof -
  from example_bracket_run obtain ord ac' where b: "bracket_entry example_bracket example_env example_account = (Inr [ord], ac')" by blast
  have i: "re_index example_env < length (re_timestamps example_env)" by (simp add: example_env_def)
  have "bracket_contracts example_bracket example_env example_account = Inr (get_contracts (re_group example_env) (re_registry example_env))"
    by (simp add: bracket_contracts_def example_bracket_def)
  from bracket_entry_within_budgets [OF b i this, of ord] b show ?thesis by (auto simp: example_bracket_def)
qed

end
