(* ===== verification/Price_Inputs.thy ===== *)
theory Price_Inputs
  imports Market_Simulators "HOL-Library.Char_ord" "HOL-Library.List_Lexorder"
begin

text \<open>
  The price adapters and vector stages of \<open>strategy_inputs.py\<close>: validation and detachment of price
  series, point lookups with and without falling back to the previous price, and the three callable
  price functions. What a lookup may depend on is a locale; the pricing of baskets is proved causal
  once inside it and both lookups interpret it.
\<close>

section \<open>Price series\<close>

text \<open>\<open>numpy.asarray\<close> of prices: the number of dimensions and the elements; \<open>astype(float)\<close> of one element.\<close>

datatype price_array = PriceArray (pa_ndim: nat) (pa_elems: "pyval list")

type_synonym price_series = "grid \<times> float64 list"

definition astype_float :: "pyval \<Rightarrow> float64 res" where
  "astype_float v = (case as_number v of None \<Rightarrow> Inl (TypeError ''prices must be numeric'') | Some a \<Rightarrow> num_float a)"

definition snapshot_price_series :: "ts_array \<Rightarrow> price_array \<Rightarrow> price_series res" where
  "snapshot_price_series timestamps prices = (case timestamps of
      NotAnArray \<Rightarrow> Inl (ValueError ''price arrays must be one-dimensional'')
    | NdArray ndim is_datetime elems \<Rightarrow>
        rbind (require (ndim = 1 \<and> pa_ndim prices = 1) (ValueError ''price arrays must be one-dimensional'')) (\<lambda>_.
        rbind (require (length elems = length (pa_elems prices)) (ValueError ''timestamp and price arrays must have equal lengths'')) (\<lambda>_.
        rbind (require is_datetime (TypeError ''timestamps must have a datetime64 dtype'')) (\<lambda>_.
        rbind (require (None \<notin> set elems) (ValueError ''timestamps cannot contain NaT'')) (\<lambda>_.
        let ts = map the elems in
        rbind (require (\<not> 1 < length ts \<or> diffs_positive ts) (ValueError ''timestamps must be strictly increasing and unique'')) (\<lambda>_.
        rbind (res_map astype_float (pa_elems prices)) (\<lambda>ps. Inr (ts, ps))))))))"

definition snapshot_vector :: "nat \<Rightarrow> 'a list \<Rightarrow> 'a list res" where
  "snapshot_vector ndim values = rbind (require (ndim = 1) (ValueError ''vector values must be one-dimensional'')) (\<lambda>_. Inr values)"

section \<open>Point lookups\<close>

definition np_indexof_sorted :: "grid \<Rightarrow> int \<Rightarrow> int" where
  "np_indexof_sorted ts t =
     (let idx = searchsorted_left ts (Some t) in
      if idx = length ts then - 1 else if ts ! idx \<noteq> t then - 1 else int idx)"

definition get_contract_price_from_array_dict :: "(string, price_series) dict \<Rightarrow> bool \<Rightarrow> contract \<Rightarrow> int \<Rightarrow> float64 res" where
  "get_contract_price_from_array_dict price_dict allow_previous c t = (case dict_get price_dict (c_symbol c) of
      None \<Rightarrow> Inl (PQException ''symbol not found in price_dict'')
    | Some (ts, ps) \<Rightarrow>
        let idx = (if allow_previous then int (searchsorted_right ts (Some t)) - 1 else np_indexof_sorted ts t) in
        if idx = - 1 then Inr NaN
        else if nat idx < length ps then Inr (ps ! nat idx) else Inl (IndexError ''index out of bounds''))"

text \<open>Keys are timestamps compared as instants.\<close>

definition get_contract_price_from_dict :: "(string, (int, float64) dict) dict \<Rightarrow> contract \<Rightarrow> int \<Rightarrow> float64 res" where
  "get_contract_price_from_dict price_dict c t = (case dict_get price_dict (c_symbol c) of
      None \<Rightarrow> Inl (PQException ''symbol not found in price_dict'')
    | Some prices \<Rightarrow> Inr (case dict_get prices t of None \<Rightarrow> NaN | Some p \<Rightarrow> p))"

section \<open>Price functions\<close>

text \<open>The common \<open>__call__\<close>: a basket is the sum of its components times their ratios.\<close>

definition adapter_price :: "(contract \<Rightarrow> int \<Rightarrow> float64 res) \<Rightarrow> contract \<Rightarrow> grid \<Rightarrow> nat \<Rightarrow> float64 res" where
  "adapter_price quote c ts i =
     rbind (grid_at ts i) (\<lambda>t.
     if is_basket c
     then res_fold (\<lambda>price (component, ratio). rbind (quote component t) (\<lambda>p. Inr (f_add price (f_mul p ratio)))) (Fin 0) (c_components c)
     else quote c t)"

record price_func_arrays =
  pf_price_dict :: "(string, price_series) dict"
  pf_allow_previous :: bool

text \<open>\<open>PriceFuncArrays\<close>: \<open>numpy.unique\<close> gives the distinct symbols in order; a mask selects the rows of one.\<close>

definition price_func_arrays_init :: "string list \<Rightarrow> nat \<Rightarrow> bool \<Rightarrow> int option list \<Rightarrow> nat \<Rightarrow> pyval list \<Rightarrow> bool \<Rightarrow> price_func_arrays res" where
  "price_func_arrays_init syms ts_ndim ts_datetime timestamps prices_ndim prices allow_previous =
     rbind (pq_assert (length timestamps = length syms \<and> length prices = length syms) ''arrays have different sizes'') (\<lambda>_.
     rbind (res_map (\<lambda>symbol.
         let rows = filter (\<lambda>(s, _). s = symbol) (zip syms (zip timestamps prices)) in
         rbind (snapshot_price_series (NdArray ts_ndim ts_datetime (map (fst \<circ> snd) rows)) (PriceArray prices_ndim (map (snd \<circ> snd) rows))) (\<lambda>series.
         Inr (symbol, series))) (sort (remdups syms))) (\<lambda>d.
     Inr \<lparr>pf_price_dict = d, pf_allow_previous = allow_previous\<rparr>))"

definition price_func_array_dict_init :: "(string \<times> ts_array \<times> price_array) list \<Rightarrow> bool \<Rightarrow> price_func_arrays res" where
  "price_func_array_dict_init price_dict allow_previous =
     rbind (res_map (\<lambda>(symbol, timestamps, prices). rbind (snapshot_price_series timestamps prices) (\<lambda>series. Inr (symbol, series))) price_dict) (\<lambda>d.
     Inr \<lparr>pf_price_dict = d, pf_allow_previous = allow_previous\<rparr>)"

definition price_func_arrays :: "price_func_arrays \<Rightarrow> contract \<Rightarrow> grid \<Rightarrow> nat \<Rightarrow> float64 res" where
  "price_func_arrays self = adapter_price (get_contract_price_from_array_dict (pf_price_dict self) (pf_allow_previous self))"

definition dict_price :: "pyval \<times> pyval \<Rightarrow> (int \<times> float64) res" where
  "dict_price = (\<lambda>(timestamp, price). case timestamp of
      VDt d \<Rightarrow> (case dt_ns d of
          None \<Rightarrow> Inl (ValueError ''price timestamps cannot be NaT'')
        | Some t \<Rightarrow> (case as_real price of
            None \<Rightarrow> Inl (TypeError ''prices must be real numeric values'')
          | Some a \<Rightarrow> rbind (num_float a) (\<lambda>x.
              if \<not> is_finite x \<and> \<not> is_nan x then Inl (ValueError ''prices cannot be infinite'') else Inr (t, x))))
    | _ \<Rightarrow> Inl (TypeError ''price timestamps must be numpy datetime64 values''))"

definition price_func_dict_init :: "(pyval \<times> (pyval \<times> pyval) list) list \<Rightarrow> (string, (int, float64) dict) dict res" where
  "price_func_dict_init price_dict =
     res_map (\<lambda>(symbol, values). case nonempty_str symbol of
         None \<Rightarrow> Inl (ValueError ''price dictionary symbols must be non-empty strings'')
       | Some s \<Rightarrow> rbind (res_fold (\<lambda>d v. rbind (dict_price v) (\<lambda>(t, x). Inr (dict_set t x d))) [] values) (\<lambda>d. Inr (s, d))) price_dict"

definition price_func_dict :: "(string, (int, float64) dict) dict \<Rightarrow> contract \<Rightarrow> grid \<Rightarrow> nat \<Rightarrow> float64 res" where
  "price_func_dict self = adapter_price (get_contract_price_from_dict self)"

section \<open>What a lookup depends on\<close>

text \<open>
  A source of quotes over data \<open>'d\<close>, with the relation "same data up to an instant": a quote for an
  instant does not depend on later data.
\<close>

locale causal_quotes =
  fixes quote :: "'d \<Rightarrow> contract \<Rightarrow> int \<Rightarrow> float64 res" and same_until :: "int \<Rightarrow> 'd \<Rightarrow> 'd \<Rightarrow> bool"
  assumes quote_causal: "same_until t d d' \<Longrightarrow> quote d c t = quote d' c t"
begin

lemma adapter_causal:
  assumes "i < length ts" "same_until (ts ! i) d d'"
  shows "adapter_price (quote d) c ts i = adapter_price (quote d') c ts i"
  using assms quote_causal [OF assms(2)] by (simp add: adapter_price_def grid_at_def)

end

definition entries_until :: "int \<Rightarrow> price_series \<Rightarrow> (int \<times> float64) list" where
  "entries_until t s = filter (\<lambda>(u, _). u \<le> t) (zip (fst s) (snd s))"

definition series_ok :: "price_series \<Rightarrow> bool" where
  "series_ok s = (strictly_increasing (fst s) \<and> length (snd s) = length (fst s))"

definition series_dict_ok :: "(string, price_series) dict \<Rightarrow> bool" where
  "series_dict_ok d = (\<forall>(s, series)\<in>set d. series_ok series)"

definition same_series_until :: "int \<Rightarrow> (string, price_series) dict \<Rightarrow> (string, price_series) dict \<Rightarrow> bool" where
  "same_series_until t d d' = (series_dict_ok d \<and> series_dict_ok d' \<and>
     (\<forall>s. rel_option (\<lambda>a b. entries_until t a = entries_until t b) (dict_get d s) (dict_get d' s)))"

lemma snapshot_price_series_ok:
  assumes "snapshot_price_series ts prices = Inr series"
  shows "series_ok series"
proof -
  from assms obtain elems where e: "fst series = map the elems" "length elems = length (pa_elems prices)"
    "\<not> 1 < length (map the elems) \<or> diffs_positive (map the elems)" "res_map astype_float (pa_elems prices) = Inr (snd series)"
    by (auto simp: snapshot_price_series_def Let_def split: ts_array.splits)
  have "strictly_increasing (map the elems)"
  proof (cases "1 < length elems")
    case True
    then show ?thesis using e(3) by (simp add: diffs_positive_iff)
  next
    case False
    then show ?thesis by (cases elems; cases "tl elems") (auto simp: strictly_increasing_def)
  qed
  then show ?thesis using e res_map_length [OF e(4)] by (simp add: series_ok_def)
qed

text \<open>The lookups in closed form: the last entry at or before the instant, or none but one at the instant.\<close>

lemma entries_until_take:
  assumes "series_ok (ts, ps)"
  shows "entries_until t (ts, ps) = take (searchsorted_right ts (Some t)) (zip ts ps)" "searchsorted_right ts (Some t) \<le> length ts"
proof -
  have "strictly_increasing ts" "length ps = length ts" using assms by (auto simp: series_ok_def)
  then show "entries_until t (ts, ps) = take (searchsorted_right ts (Some t)) (zip ts ps)"
  proof (induction ts arbitrary: ps)
    case (Cons u ts)
    then obtain p qs where ps: "ps = p # qs" by (cases ps) auto
    have later: "\<forall>x\<in>set ts. u < x" "strictly_increasing ts" using Cons.prems(1) by (auto simp: strictly_increasing_def)
    show ?case
    proof (cases "u \<le> t")
      case True
      then show ?thesis using Cons.IH [OF later(2), of qs] Cons.prems(2) ps by (simp add: entries_until_def searchsorted_right_def)
    next
      case False
      then have "\<forall>x\<in>set (zip ts qs). \<not> fst x \<le> t" using later(1) by (force dest: set_zip_leftD)
      then show ?thesis using False ps by (auto simp: entries_until_def searchsorted_right_def filter_empty_conv)
    qed
  qed (simp add: entries_until_def)
  show "searchsorted_right ts (Some t) \<le> length ts" by (simp add: searchsorted_right_def length_takeWhile_le)
qed

definition last_price :: "(int \<times> float64) list \<Rightarrow> float64" where
  "last_price es = (if es = [] then NaN else snd (last es))"

definition exact_price :: "int \<Rightarrow> (int \<times> float64) list \<Rightarrow> float64" where
  "exact_price t es = (if es \<noteq> [] \<and> fst (last es) = t then snd (last es) else NaN)"

lemma last_entry:
  assumes "series_ok (ts, ps)" "searchsorted_right ts (Some t) = Suc n"
  shows "last (entries_until t (ts, ps)) = (ts ! n, ps ! n)" "n < length ts" "entries_until t (ts, ps) \<noteq> []"
proof -
  show n: "n < length ts" using entries_until_take(2) [OF assms(1), of t] assms(2) by simp
  have "length ps = length ts" using assms(1) by (simp add: series_ok_def)
  with n show "last (entries_until t (ts, ps)) = (ts ! n, ps ! n)" "entries_until t (ts, ps) \<noteq> []"
    unfolding entries_until_take(1) [OF assms(1)] assms(2) by (simp_all add: take_Suc_conv_app_nth)
qed

lemma array_lookup_previous:
  assumes "dict_get d (c_symbol c) = Some (ts, ps)" "series_ok (ts, ps)"
  shows "get_contract_price_from_array_dict d True c t = Inr (last_price (entries_until t (ts, ps)))"
proof (cases "searchsorted_right ts (Some t)")
  case 0
  then show ?thesis using assms entries_until_take(1) [OF assms(2), of t] by (simp add: get_contract_price_from_array_dict_def last_price_def)
next
  case (Suc n)
  note L = last_entry [OF assms(2) Suc]
  show ?thesis using assms Suc L by (simp add: get_contract_price_from_array_dict_def last_price_def series_ok_def)
qed

lemma searchsorted_left_right:
  assumes "strictly_increasing ts"
  shows "searchsorted_right ts (Some t) = searchsorted_left ts (Some t) + (if t \<in> set ts then 1 else 0)"
    "t \<in> set ts \<Longrightarrow> ts ! searchsorted_left ts (Some t) = t"
  using assms
proof (induction ts)
  case (Cons u ts)
  { case 1
    then have "\<forall>x\<in>set ts. u < x" "strictly_increasing ts" by (auto simp: strictly_increasing_def)
    moreover have "takeWhile (\<lambda>s. s \<le> t) ts = []" "takeWhile (\<lambda>s. s < t) ts = []" "t \<notin> set ts" if "t \<le> u"
      using that \<open>\<forall>x\<in>set ts. u < x\<close> by (cases ts; force)+
    ultimately show ?case using Cons.IH(1) by (cases "u < t") (auto simp: searchsorted_left_def searchsorted_right_def)
  }
  { case 2
    then have "\<forall>x\<in>set ts. u < x" "strictly_increasing ts" by (auto simp: strictly_increasing_def)
    then show ?case using Cons.IH(2) 2 by (auto simp: searchsorted_left_def)
  }
qed (simp_all add: searchsorted_left_def searchsorted_right_def)

lemma array_lookup_exact:
  assumes "dict_get d (c_symbol c) = Some (ts, ps)" "series_ok (ts, ps)"
  shows "get_contract_price_from_array_dict d False c t = Inr (exact_price t (entries_until t (ts, ps)))"
proof -
  have inc: "strictly_increasing ts" using assms(2) by (simp add: series_ok_def)
  note S = searchsorted_left_right [OF inc, of t]
  show ?thesis
  proof (cases "t \<in> set ts")
    case True
    then have r: "searchsorted_right ts (Some t) = Suc (searchsorted_left ts (Some t))" using S(1) by simp
    note L = last_entry [OF assms(2) r]
    then show ?thesis using assms S(2) [OF True]
      by (simp add: get_contract_price_from_array_dict_def np_indexof_sorted_def exact_price_def series_ok_def Let_def)
  next
    case False
    have "ts ! k \<noteq> t" if "k < length ts" for k using False nth_mem [OF that] by auto
    then have "np_indexof_sorted ts t = - 1"
      using length_takeWhile_le [of "\<lambda>s. s < t" ts] by (auto simp: np_indexof_sorted_def Let_def searchsorted_left_def order.order_iff_strict)
    moreover have "exact_price t (entries_until t (ts, ps)) = NaN"
      using False by (auto simp: exact_price_def entries_until_def dest!: last_in_set elim!: in_set_zipE)
    ultimately show ?thesis using assms(1) by (simp add: get_contract_price_from_array_dict_def)
  qed
qed

lemma array_lookup:
  assumes "dict_get d (c_symbol c) = Some s" "series_ok s"
  shows "get_contract_price_from_array_dict d allow c t
    = Inr (if allow then last_price (entries_until t s) else exact_price t (entries_until t s))"
  using assms array_lookup_previous [of d c "fst s" "snd s"] array_lookup_exact [of d c "fst s" "snd s"] by (cases allow) simp_all

lemma array_lookup_missing:
  "dict_get d (c_symbol c) = None \<Longrightarrow> get_contract_price_from_array_dict d allow c t = Inl (PQException ''symbol not found in price_dict'')"
  by (simp add: get_contract_price_from_array_dict_def)

lemma array_lookup_causal:
  assumes "same_series_until t d d'"
  shows "get_contract_price_from_array_dict d allow c t = get_contract_price_from_array_dict d' allow c t"
proof -
  have "rel_option (\<lambda>a b. entries_until t a = entries_until t b) (dict_get d (c_symbol c)) (dict_get d' (c_symbol c))"
    using assms by (simp add: same_series_until_def)
  moreover have "series_ok s" if "dict_get d (c_symbol c) = Some s \<or> dict_get d' (c_symbol c) = Some s" for s
    using assms that by (auto simp: same_series_until_def series_dict_ok_def dest!: map_of_SomeD)
  ultimately show ?thesis
    by (cases "dict_get d (c_symbol c)"; cases "dict_get d' (c_symbol c)") (simp_all add: array_lookup array_lookup_missing)
qed

definition same_prices_until :: "int \<Rightarrow> (string, (int, float64) dict) dict \<Rightarrow> (string, (int, float64) dict) dict \<Rightarrow> bool" where
  "same_prices_until t d d' = (\<forall>s. rel_option (\<lambda>a b. \<forall>u\<le>t. dict_get a u = dict_get b u) (dict_get d s) (dict_get d' s))"

interpretation previous_quotes: causal_quotes "\<lambda>d. get_contract_price_from_array_dict d True" same_series_until
  by unfold_locales (rule array_lookup_causal)

interpretation exact_quotes: causal_quotes "\<lambda>d. get_contract_price_from_array_dict d False" same_series_until
  by unfold_locales (rule array_lookup_causal)

interpretation dict_quotes: causal_quotes get_contract_price_from_dict same_prices_until
proof
  fix t d d' c assume "same_prices_until t d d'"
  then have "rel_option (\<lambda>a b. \<forall>u\<le>t. dict_get a u = dict_get b u) (dict_get d (c_symbol c)) (dict_get d' (c_symbol c))"
    by (simp add: same_prices_until_def)
  then show "get_contract_price_from_dict d c t = get_contract_price_from_dict d' c t"
    by (cases "dict_get d (c_symbol c)"; cases "dict_get d' (c_symbol c)") (simp_all add: get_contract_price_from_dict_def)
qed

section \<open>Properties\<close>

text \<open>
  No price adapter looks ahead: for a contract or a basket, what \<open>PriceFuncArrays\<close>,
  \<open>PriceFuncArrayDict\<close> (with or without falling back to the previous price) and \<open>PriceFuncDict\<close>
  return at index \<open>i\<close> is the same for any two data sets that agree up to the timestamp at \<open>i\<close>,
  failures included.
\<close>

lemma price_adapters_causal:
  assumes "i < length ts" "same_series_until (ts ! i) d d'" "same_prices_until (ts ! i) e e'"
  shows "price_func_arrays \<lparr>pf_price_dict = d, pf_allow_previous = allow\<rparr> c ts i = price_func_arrays \<lparr>pf_price_dict = d', pf_allow_previous = allow\<rparr> c ts i \<and>
    price_func_dict e c ts i = price_func_dict e' c ts i"
  using previous_quotes.adapter_causal [OF assms(1,2)] exact_quotes.adapter_causal [OF assms(1,2)] dict_quotes.adapter_causal [OF assms(1,3)]
  by (cases allow) (simp_all add: price_func_arrays_def price_func_dict_def)

definition example_series :: "rat \<Rightarrow> (string, price_series) dict" where
  "example_series p = [(''A'', ([10, 20, 30], [Fin 5, Fin 6, Fin p]))]"

definition example_prices :: "rat \<Rightarrow> (string, (int, float64) dict) dict" where
  "example_prices p = [(''A'', [(10, Fin 5), (30, Fin p)])]"

lemma price_adapters_causal_instance:
  "price_func_arrays \<lparr>pf_price_dict = example_series 7, pf_allow_previous = True\<rparr> example_contract [10, 25, 30] 1
     = price_func_arrays \<lparr>pf_price_dict = example_series 8, pf_allow_previous = True\<rparr> example_contract [10, 25, 30] 1 \<and>
   price_func_arrays \<lparr>pf_price_dict = example_series 7, pf_allow_previous = True\<rparr> example_contract [10, 25, 30] 1 = Inr (Fin 6)"
proof
  have "same_series_until ([10, 25, 30] ! 1) (example_series 7) (example_series 8)" "same_prices_until ([10, 25, 30] ! 1) (example_prices 7) (example_prices 8)"
    by (auto simp: same_series_until_def example_series_def series_dict_ok_def series_ok_def strictly_increasing_def entries_until_def
        same_prices_until_def example_prices_def)
  from price_adapters_causal [OF _ this]
  show "price_func_arrays \<lparr>pf_price_dict = example_series 7, pf_allow_previous = True\<rparr> example_contract [10, 25, 30] 1
     = price_func_arrays \<lparr>pf_price_dict = example_series 8, pf_allow_previous = True\<rparr> example_contract [10, 25, 30] 1" by simp
  show "price_func_arrays \<lparr>pf_price_dict = example_series 7, pf_allow_previous = True\<rparr> example_contract [10, 25, 30] 1 = Inr (Fin 6)" by code_simp
qed

end
