(* ===== verification/Universe.thy ===== *)
theory Universe
  imports Contracts Rounding
begin

text \<open>
  Bulk construction of contracts (\<open>universe.py\<close>): a request that maps group names to contract
  definitions is validated as a whole against the contract registry, then the groups are looked up
  or created and the contracts are created one after the other. The lemmas show that on registries
  whose groups hold registered contracts only, a request that passes the validation is never
  stopped half way, so that a call either changes nothing or creates exactly what was asked for.
\<close>

section \<open>Requests\<close>

text \<open>
  \<open>ContractSpec\<close>: \<open>None\<close> is Python's \<open>None\<close>. The properties are a mapping whose keys may be anything.
\<close>

record contract_definition =
  cd_symbol :: pyval
  cd_expiry :: "pyval option"
  cd_multiplier :: "pyval option"
  cd_instrument :: "instrument_spec attr option"
  cd_properties :: "(pyval, pyval) dict attr option"

datatype contract_entry = SymbolEntry string | SpecEntry contract_definition | OtherEntry pyval

datatype entries = StringEntries string | EntryList "contract_entry list" | NotIterable pyval

datatype group_definition =
    PlainGroup entries
  | ContractGroupSpec (gs_contracts: entries) (gs_multiplier: pyval) (gs_instrument: "instrument_spec attr option")

type_synonym definitions = "(pyval, group_definition) dict"

record prepared_contract =
  pc_group_name :: string
  pc_symbol :: string
  pc_expiry :: "datetime64 option"
  pc_multiplier :: float64
  pc_instrument :: instrument_spec
  pc_properties :: "namespace option"

record contract_universe =
  un_groups :: "(string, contract_group) dict"
  un_contracts :: "(string, contract) dict"

section \<open>Validation of a request\<close>

text \<open>\<open>str.strip\<close> leaves nothing of a string of white space.\<close>

definition space_char :: "char \<Rightarrow> bool" where
  "space_char c = (let n = (of_char c :: nat) in 9 \<le> n \<and> n \<le> 13 \<or> 28 \<le> n \<and> n \<le> 32 \<or> n = 133 \<or> n = 160)"

definition blank :: "string \<Rightarrow> bool" where
  "blank s = list_all space_char s"

definition truthy :: "pyval \<Rightarrow> bool" where
  "truthy v = (case v of VNone \<Rightarrow> False | VStr s \<Rightarrow> s \<noteq> [] | VDt _ \<Rightarrow> True | VObj _ \<Rightarrow> True
     | _ \<Rightarrow> (case as_number v of Some a \<Rightarrow> \<not> num_eq a (PyInt 0) | None \<Rightarrow> True))"

text \<open>\<open>x or default\<close> for an instrument specification, and its class test.\<close>

definition spec_or :: "instrument_spec \<Rightarrow> exn \<Rightarrow> instrument_spec attr option \<Rightarrow> instrument_spec res" where
  "spec_or d e a = (case a of None \<Rightarrow> Inr d | Some (Attr s) \<Rightarrow> Inr s | Some (Foreign v) \<Rightarrow> if truthy v then Inl e else Inr d)"

text \<open>An \<open>int\<close> or \<open>float\<close> instance that is no boolean; \<open>numpy.float64\<close> is a subclass of \<open>float\<close>.\<close>

definition prepared_multiplier :: "pyval \<Rightarrow> float64 res" where
  "prepared_multiplier v = (case v of
      VNum (NpInt _) \<Rightarrow> Inl (TypeError ''multiplier must be numeric'')
    | VNum a \<Rightarrow> rbind (num_float a) (\<lambda>x.
        if \<not> is_finite x \<or> f_le (num_exact a) (Fin 0) then Inl (ValueError ''multiplier must be finite and positive'') else Inr x)
    | _ \<Rightarrow> Inl (TypeError ''multiplier must be numeric''))"

definition property_names :: "(pyval, pyval) dict \<Rightarrow> namespace option" where
  "property_names p = those (map (\<lambda>(k, v). case k of VStr s \<Rightarrow> Some (s, v) | _ \<Rightarrow> None) p)"

definition prepared_properties :: "(pyval, pyval) dict attr option \<Rightarrow> namespace option res" where
  "prepared_properties a = (case a of
      None \<Rightarrow> Inr None
    | Some (Foreign _) \<Rightarrow> Inl (TypeError ''properties must be a mapping'')
    | Some (Attr p) \<Rightarrow> (case property_names p of None \<Rightarrow> Inl (TypeError ''property names must be strings'') | Some n \<Rightarrow> Inr (Some n)))"

definition prepare_entry :: "registry \<Rightarrow> string \<Rightarrow> pyval \<Rightarrow> instrument_spec \<Rightarrow> prepared_contract list \<Rightarrow> contract_entry
    \<Rightarrow> prepared_contract list res" where
  "prepare_entry reg group_name default_multiplier default_instrument prepared entry =
     rbind (case entry of
         SymbolEntry s \<Rightarrow> Inr \<lparr>cd_symbol = VStr s, cd_expiry = None, cd_multiplier = None, cd_instrument = None, cd_properties = None\<rparr>
       | SpecEntry d \<Rightarrow> Inr d
       | OtherEntry _ \<Rightarrow> Inl (TypeError ''contract definition must be a symbol or ContractSpec'')) (\<lambda>spec.
     case nonempty_str (cd_symbol spec) of
       None \<Rightarrow> Inl (ValueError ''contract symbols must be non-empty strings'')
     | Some symbol \<Rightarrow>
         rbind (require (symbol \<notin> set (map pc_symbol prepared)) (ValueError ''duplicate contract symbol in bulk request'')) (\<lambda>_.
         rbind (require (\<not> contract_exists symbol reg) (ValueError ''contract already exists'')) (\<lambda>_.
         rbind (prepared_multiplier (case cd_multiplier spec of None \<Rightarrow> default_multiplier | Some m \<Rightarrow> m)) (\<lambda>multiplier.
         rbind (case cd_expiry spec of
             None \<Rightarrow> Inr None
           | Some (VDt t) \<Rightarrow> if isnat t then Inl (ValueError ''expiry cannot be NaT'') else Inr (Some t)
           | Some _ \<Rightarrow> Inl (TypeError ''expiry must be numpy.datetime64'')) (\<lambda>expiry.
         rbind (prepared_properties (cd_properties spec)) (\<lambda>properties.
         rbind (spec_or default_instrument (TypeError ''instrument_spec must be an InstrumentSpec'') (cd_instrument spec)) (\<lambda>instrument.
         Inr (prepared @ [\<lparr>pc_group_name = group_name, pc_symbol = symbol, pc_expiry = expiry, pc_multiplier = multiplier,
                pc_instrument = instrument, pc_properties = properties\<rparr>]))))))))"

definition prepare_group :: "registry \<Rightarrow> prepared_contract list \<Rightarrow> pyval \<times> group_definition \<Rightarrow> prepared_contract list res" where
  "prepare_group reg prepared d = (case d of (name, definition) \<Rightarrow>
     (case name of
        VStr group_name \<Rightarrow>
          if blank group_name then Inl (ValueError ''contract-group names must be non-empty strings'')
          else
            let (es, default_multiplier, given) = (case definition of
                ContractGroupSpec es m i \<Rightarrow> (es, m, i) | PlainGroup es \<Rightarrow> (es, VNum (PyFloat (Fin 1)), None)) in
            rbind (spec_or default_spec (TypeError ''instrument_spec must be an InstrumentSpec'') given) (\<lambda>default_instrument.
            case es of
              StringEntries _ \<Rightarrow> Inl (TypeError ''contracts must be an iterable, not a string'')
            | NotIterable _ \<Rightarrow> Inl (TypeError ''object is not iterable'')
            | EntryList xs \<Rightarrow> res_fold (prepare_entry reg group_name default_multiplier default_instrument) prepared xs)
      | _ \<Rightarrow> Inl (ValueError ''contract-group names must be non-empty strings'')))"

definition prepare_contracts :: "registry \<Rightarrow> definitions attr \<Rightarrow> prepared_contract list res" where
  "prepare_contracts reg definitions = (case definitions of
      Foreign _ \<Rightarrow> Inl (TypeError ''contract-group definitions must be a mapping'')
    | Attr ds \<Rightarrow> res_fold (prepare_group reg) [] ds)"

section \<open>Creation\<close>

text \<open>The arguments of \<open>Contract.create\<close> for a prepared contract and its group.\<close>

definition create_args :: "prepared_contract \<Rightarrow> contract_group \<Rightarrow> contract_args" where
  "create_args item g = \<lparr>ca_symbol = VStr (pc_symbol item), ca_group = Some (Attr g), ca_expiry = map_option VDt (pc_expiry item),
     ca_multiplier = Some (VNum (PyFloat (pc_multiplier item))), ca_components = None,
     ca_properties = map_option Attr (pc_properties item), ca_spec = Some (Attr (pc_instrument item))\<rparr>"

text \<open>
  The creation loops run on the live registries, so that a raise inside them leaves what was created
  before it.
\<close>

primrec create_groups :: "pyval list \<Rightarrow> (string, contract_group) dict \<Rightarrow> (registry, (string, contract_group) dict) prog" where
  "create_groups [] groups = preturn groups"
| "create_groups (name # names) groups = (\<lambda>reg. case cg_get name reg of
      Inl e \<Rightarrow> (Inl e, reg)
    | Inr (g, reg') \<Rightarrow> create_groups names (dict_set (cg_name g) g groups) reg')"

primrec create_contracts :: "(string, contract_group) dict \<Rightarrow> prepared_contract list \<Rightarrow> (string, contract) dict
    \<Rightarrow> (registry, (string, contract) dict) prog" where
  "create_contracts groups [] contracts = preturn contracts"
| "create_contracts groups (item # items) contracts = (\<lambda>reg. case dict_get groups (pc_group_name item) of
      None \<Rightarrow> (Inl (KeyError (pc_group_name item)), reg)
    | Some g \<Rightarrow> (case contract_create (create_args item g) reg of
        Inl e \<Rightarrow> (Inl e, reg)
      | Inr (c, reg') \<Rightarrow> create_contracts groups items (dict_set (pc_symbol item) c contracts) reg'))"

definition create_contract_groups :: "definitions attr \<Rightarrow> (registry, contract_universe) prog" where
  "create_contract_groups definitions = (\<lambda>reg.
     pbind (plift (prepare_contracts reg definitions)) (\<lambda>prepared.
     pbind (create_groups (case definitions of Attr ds \<Rightarrow> dict_keys ds | Foreign _ \<Rightarrow> []) []) (\<lambda>groups.
     pbind (create_contracts groups prepared []) (\<lambda>contracts.
     preturn \<lparr>un_groups = groups, un_contracts = contracts\<rparr>))) reg)"

definition universe_group :: "contract_universe \<Rightarrow> string \<Rightarrow> contract_group res" where
  "universe_group u name = (case dict_get (un_groups u) name of None \<Rightarrow> Inl (KeyError name) | Some g \<Rightarrow> Inr g)"

definition universe_contract :: "contract_universe \<Rightarrow> string \<Rightarrow> contract res" where
  "universe_contract u symbol = (case dict_get (un_contracts u) symbol of None \<Rightarrow> Inl (KeyError symbol) | Some c \<Rightarrow> Inr c)"

section \<open>What the validation establishes\<close>

lemma py_float_positive:
  assumes "0 < n" "py_float n = Inr x"
  shows "\<not> f_le x (Fin 0)"
proof -
  from assms(2) obtain z where z: "rnd64 (of_int n) = Fin z" "x = Fin z" by (auto simp: py_float_def split: float64.splits)
  have "0 \<le> z" using rnd64_nonneg [of "of_int n" z] assms(1) z(1) by simp
  moreover have "z \<noteq> 0"
  proof
    assume "z = 0"
    have n: "1 \<le> (of_int n :: rat)" using assms(1) by simp
    have "pow2 (- 53) < 1" "pow2 (- 1075) < 1" using pow2_less_iff [of _ 0] by simp_all
    then have "of_int n * pow2 (- 53) < of_int n" "pow2 (- 1075) < of_int n" using n by simp_all
    then show False using rnd64_error [OF z(1)] n \<open>z = 0\<close> by (auto simp: le_max_iff_disj)
  qed
  ultimately show ?thesis using z(2) by simp
qed

lemma prepared_multiplier_Inr:
  assumes "prepared_multiplier v = Inr x"
  shows "is_finite x \<and> \<not> f_le x (Fin 0)"
proof -
  from assms obtain a where a: "v = VNum a" "num_float a = Inr x" "is_finite x" "\<not> f_le (num_exact a) (Fin 0)"
    by (auto simp: prepared_multiplier_def split: pyval.splits pynum.splits if_splits)
  moreover have "\<not> f_le x (Fin 0)"
  proof (cases a)
    case (PyInt n)
    then show ?thesis using a py_float_positive [of n x] by simp
  next
    case (NpInt w)
    then show ?thesis using a(1) assms by (simp add: prepared_multiplier_def)
  qed (use a in auto)
  ultimately show ?thesis by simp
qed

definition prepared_ok :: "registry \<Rightarrow> prepared_contract \<Rightarrow> bool" where
  "prepared_ok reg p = (pc_symbol p \<noteq> [] \<and> dict_get (c_registry reg) (pc_symbol p) = None \<and>
     is_finite (pc_multiplier p) \<and> \<not> f_le (pc_multiplier p) (Fin 0) \<and> (\<forall>t. pc_expiry p = Some t \<longrightarrow> \<not> isnat t))"

definition request_ok :: "registry \<Rightarrow> pyval set \<Rightarrow> prepared_contract list \<Rightarrow> bool" where
  "request_ok reg names ps = (distinct (map pc_symbol ps) \<and> (\<forall>p\<in>set ps. prepared_ok reg p \<and> VStr (pc_group_name p) \<in> names))"

lemma request_ok_Nil [simp]: "request_ok reg names []"
  by (simp add: request_ok_def)

lemma request_ok_mono: "request_ok reg names ps \<Longrightarrow> names \<subseteq> names' \<Longrightarrow> request_ok reg names' ps"
  by (auto simp: request_ok_def)

lemma prepare_entry_ok:
  assumes "request_ok reg names ps" "VStr group_name \<in> names"
    and "prepare_entry reg group_name m i ps entry = Inr ps'"
  shows "request_ok reg names ps'"
proof -
  from assms(3) obtain p where p: "ps' = ps @ [p]" "pc_group_name p = group_name" "pc_symbol p \<notin> set (map pc_symbol ps)"
    "prepared_ok reg p"
    unfolding prepare_entry_def
    by (auto simp: prepared_ok_def contract_exists_def dest!: prepared_multiplier_Inr split: option.split_asm pyval.split_asm if_split_asm)
  then show ?thesis using assms(1,2) by (auto simp: request_ok_def)
qed

lemma prepare_group_ok:
  assumes "request_ok reg names ps" "prepare_group reg ps (name, d) = Inr ps'"
  shows "request_ok reg (insert name names) ps' \<and> (\<exists>s. name = VStr s \<and> s \<noteq> [])"
proof -
  from assms(2) obtain g where g: "name = VStr g" "\<not> blank g"
    by (auto simp: prepare_group_def split: pyval.splits if_splits)
  with assms(2) obtain m i xs where f: "res_fold (prepare_entry reg g m i) ps xs = Inr ps'"
    by (auto simp: prepare_group_def Let_def split: group_definition.splits entries.splits)
  have "request_ok reg (insert name names) ps'"
    by (rule res_fold_invariant [OF _ _ f, where I = "request_ok reg (insert name names)"])
      (use g(1) in \<open>auto intro: prepare_entry_ok request_ok_mono [OF assms(1)]\<close>)
  then show ?thesis using g by (auto simp: blank_def)
qed

lemma prepare_contracts_ok:
  assumes "prepare_contracts reg (Attr ds) = Inr ps"
  shows "request_ok reg (set (dict_keys ds)) ps \<and> (\<forall>n\<in>set (dict_keys ds). \<exists>s. n = VStr s \<and> s \<noteq> [])"
proof -
  have "request_ok reg (names \<union> set (dict_keys ds)) ps \<and> (\<forall>n\<in>set (dict_keys ds). \<exists>s. n = VStr s \<and> s \<noteq> [])"
    if "res_fold (prepare_group reg) qs ds = Inr ps" "request_ok reg names qs" for names qs
    using that
  proof (induction ds arbitrary: qs names)
    case (Cons d ds)
    obtain name g where d: "d = (name, g)" by (cases d)
    from Cons.prems(1) obtain qs' where q: "prepare_group reg qs (name, g) = Inr qs'" "res_fold (prepare_group reg) qs' ds = Inr ps"
      by (auto simp: d)
    note p = prepare_group_ok [OF Cons.prems(2) q(1)]
    show ?case using Cons.IH [OF q(2), of "insert name names"] p by (auto simp: d)
  qed simp
  from this [of "[]" "{}"] assms show ?thesis by (simp add: prepare_contracts_def)
qed

section \<open>Closed registries\<close>

text \<open>
  Every member of a registered group is a registered contract, and no group has been given an
  identity that is still to be issued. The operations of \<open>pq_types.py\<close> keep this; only attaching a
  contract object that was not created through \<open>Contract.create\<close> breaks it.
\<close>

definition registry_closed :: "registry \<Rightarrow> bool" where
  "registry_closed reg = ((\<forall>i\<ge>next_id reg. cg_members reg i = []) \<and>
     (\<forall>g\<in>set (dict_values (cg_registry reg)). \<forall>s\<in>set (dict_keys (cg_members reg (cg_id g))). contract_exists s reg))"

lemma registry_closed_initial: "registry_closed initial_registry"
  by (simp add: registry_closed_def initial_registry_def)

lemma set_dict_values_set: "set (dict_values (dict_set k v d)) \<subseteq> insert v (set (dict_values d))"
  by (induction d) auto

lemma set_dict_keys_set: "set (dict_keys (dict_set k v d)) = insert k (set (dict_keys d))"
  by (auto simp: dict_keys_set)

lemma cg_get_closed:
  assumes "registry_closed reg" "cg_get name reg = Inr (g, reg')"
  shows "registry_closed reg' \<and> c_registry reg' = c_registry reg \<and> g \<in> set (dict_values (cg_registry reg'))"
proof -
  obtain s where s: "name = VStr s" "s \<noteq> []"
    using assms(2) by (auto simp: cg_get_def split: option.splits)
  show ?thesis
  proof (cases "dict_get (cg_registry reg) s")
    case (Some h)
    with assms(2) s have r: "g = h" "reg' = reg" by (auto simp: cg_get_def nonempty_str_def)
    have "h \<in> set (dict_values (cg_registry reg))" using map_of_SomeD [OF Some] by force
    with assms(1) r show ?thesis by simp
  next
    case None
    with s assms(2) have r: "g = ContractGroup (next_id reg) s"
      "reg' = reg\<lparr>cg_registry := dict_set s g (cg_registry reg), next_id := next_id reg + 1\<rparr>"
      by (auto simp: cg_get_def nonempty_str_def Let_def)
    have e: "cg_members reg (cg_id g) = []" using assms(1) by (simp add: registry_closed_def r(1))
    have "contract_exists t reg" if "h \<in> set (dict_values (dict_set s g (cg_registry reg)))" "t \<in> set (dict_keys (cg_members reg (cg_id h)))" for h t
    proof -
      have "h = g \<or> h \<in> set (dict_values (cg_registry reg))" using that(1) set_dict_values_set [of s g "cg_registry reg"] by blast
      then show ?thesis using assms(1) that(2) e unfolding registry_closed_def by auto
    qed
    then have "registry_closed reg'" using assms(1) by (auto simp: r(2) registry_closed_def contract_exists_def)
    moreover have "g \<in> set (dict_values (cg_registry reg'))"
      by (simp add: r(2) dict_values_set_new [OF None])
    ultimately show ?thesis by (simp add: r(2))
  qed
qed

lemma contract_create_closed:
  assumes "registry_closed reg" "cg_id (c_group c) < next_id reg" "contract_create a reg = Inr (c, reg')"
  shows "registry_closed reg' \<and> cg_registry reg' = cg_registry reg \<and> next_id reg' = next_id reg + 1"
proof -
  from contract_create_Inr(7) [OF assms(3)] obtain reg1 where
    a: "add_contract (c_group c) (Attr c) (reg\<lparr>next_id := next_id reg + 1\<rparr>) = Inr reg1"
    and r: "reg' = reg1\<lparr>c_registry := dict_set (c_symbol c) c (c_registry reg1)\<rparr>" by blast
  note m = add_contract_Inr(2) [OF a]
  have "contract_exists s reg'" if "g \<in> set (dict_values (cg_registry reg))" "s \<in> set (dict_keys (cg_members reg' (cg_id g)))" for g s
  proof (cases "s = c_symbol c")
    case False
    then have "s \<in> set (dict_keys (cg_members reg (cg_id g)))"
      using that(2) set_dict_keys_set [of "c_symbol c" c "cg_members reg (cg_id g)"]
      by (cases "cg_id g = cg_id (c_group c)") (auto simp: r m)
    then have "contract_exists s reg" using assms(1) that(1) unfolding registry_closed_def by blast
    then show ?thesis by (simp add: contract_exists_def r m)
  qed (simp add: contract_exists_def r)
  then show ?thesis using assms(1,2) by (auto simp: registry_closed_def r m)
qed

section \<open>The creation loops\<close>

definition realises :: "prepared_contract \<Rightarrow> contract \<Rightarrow> bool" where
  "realises p c = (c_symbol c = pc_symbol p \<and> cg_name (c_group c) = pc_group_name p \<and> c_expiry c = pc_expiry p \<and>
     c_multiplier c = pc_multiplier p \<and> c_components c = [] \<and> c_spec c = pc_instrument p \<and>
     c_properties c = (case pc_properties p of None \<Rightarrow> [] | Some n \<Rightarrow> n))"

definition registered :: "registry \<Rightarrow> contract_group \<Rightarrow> bool" where
  "registered reg g = (g \<in> set (dict_values (cg_registry reg)))"

lemma registered_id: "registry_wf reg \<Longrightarrow> registered reg g \<Longrightarrow> cg_id g < next_id reg"
  by (fastforce simp: registry_wf_def groups_wf_def registered_def)

lemma create_prepared:
  assumes "registry_closed reg" "prepared_ok reg p" "registered reg g" "cg_name g = pc_group_name p"
  shows "\<exists>c reg'. contract_create (create_args p g) reg = Inr (c, reg') \<and> realises p c \<and> c_group c = g"
proof -
  let ?c = "Contract (next_id reg) (pc_symbol p) g (pc_expiry p) (pc_multiplier p) []
    (case pc_properties p of None \<Rightarrow> [] | Some n \<Rightarrow> n) (pc_instrument p)"
  have "dict_get (cg_members reg (cg_id g)) (pc_symbol p) = None"
    using assms(1-3) unfolding registry_closed_def prepared_ok_def registered_def contract_exists_def
    by (metis map_of_eq_None_iff image_set)
  then have a: "add_contract g (Attr ?c) (reg\<lparr>next_id := next_id reg + 1\<rparr>) \<noteq> Inl e" for e
    by (simp add: add_contract_def)
  have e: "validated_expiry (map_option VDt (pc_expiry p)) = Inr (pc_expiry p)"
    using assms(2) by (auto simp: validated_expiry_def prepared_ok_def split: option.splits)
  have m: "finite_real f (VNum (PyFloat (pc_multiplier p))) = Inr (pc_multiplier p)" for f
    using assms(2) by (simp add: finite_real_def as_real_def prepared_ok_def)
  have pr: "attr_or [] x (map_option Attr (pc_properties p)) = Inr (case pc_properties p of None \<Rightarrow> [] | Some n \<Rightarrow> n)" for x
    by (simp add: attr_or_def split: option.splits)
  have "\<exists>reg'. contract_create (create_args p g) reg = Inr (?c, reg')"
    using assms(2) a by (cases "add_contract g (Attr ?c) (reg\<lparr>next_id := next_id reg + 1\<rparr>)")
      (auto simp: Let_def contract_create_def create_args_def e m pr attr_or_def [of DEFAULT_CG] attr_or_def [of default_spec]
        validated_contract_components_def nonempty_str_def prepared_ok_def)
  then show ?thesis using assms(4) by (auto simp: realises_def)
qed

lemma contract_create_keeps_members:
  assumes "contract_create a reg = Inr (c, reg')" "s \<noteq> c_symbol c"
  shows "get_contract g s reg' = get_contract g s reg"
proof -
  from contract_create_Inr(7) [OF assms(1)] obtain reg1 where
    a: "add_contract (c_group c) (Attr c) (reg\<lparr>next_id := next_id reg + 1\<rparr>) = Inr reg1"
    and r: "reg' = reg1\<lparr>c_registry := dict_set (c_symbol c) c (c_registry reg1)\<rparr>" by blast
  show ?thesis using assms(2) by (simp add: get_contract_def r add_contract_Inr(2) [OF a])
qed

lemma request_ok_tail:
  assumes "request_ok reg names (p # ps)" "contract_create a reg = Inr (c, reg')" "c_symbol c = pc_symbol p"
  shows "request_ok reg' names ps"
  using assms contract_create_lookup(1) [OF assms(2)]
  by (auto simp: request_ok_def prepared_ok_def contract_get_def) (metis image_eqI)

definition group_table :: "registry \<Rightarrow> pyval set \<Rightarrow> (string, contract_group) dict \<Rightarrow> bool" where
  "group_table reg names groups = (\<forall>n\<in>names. \<exists>s g. n = VStr s \<and> dict_get groups s = Some g \<and> cg_name g = s \<and> registered reg g)"

lemma create_contracts_complete:
  assumes "request_ok reg names ps" "registry_wf reg" "registry_closed reg" "group_table reg names groups"
    and "set (dict_keys contracts) \<inter> set (map pc_symbol ps) = {}"
  shows "\<exists>cs reg'. create_contracts groups ps contracts reg = (Inr (contracts @ zip (map pc_symbol ps) cs), reg') \<and>
    list_all2 realises ps cs \<and> (\<forall>c\<in>set cs. dict_get groups (cg_name (c_group c)) = Some (c_group c)) \<and>
    registry_wf reg' \<and> registry_closed reg' \<and> cg_registry reg' = cg_registry reg \<and>
    (\<forall>s. contract_get s reg' = (if s \<in> set (map pc_symbol ps) then dict_get (zip (map pc_symbol ps) cs) s else contract_get s reg)) \<and>
    (\<forall>c\<in>set cs. get_contract (c_group c) (c_symbol c) reg' = Some c) \<and>
    (\<forall>g s. s \<notin> set (map pc_symbol ps) \<longrightarrow> get_contract g s reg' = get_contract g s reg)"
  using assms
proof (induction ps arbitrary: contracts reg)
  case (Cons p ps)
  from Cons.prems(1,4) obtain g where g: "dict_get groups (pc_group_name p) = Some g" "cg_name g = pc_group_name p" "registered reg g"
    by (fastforce simp: request_ok_def group_table_def)
  have "prepared_ok reg p" using Cons.prems(1) by (simp add: request_ok_def)
  from create_prepared [OF Cons.prems(3) this g(3,2)] obtain c reg1 where
    c: "contract_create (create_args p g) reg = Inr (c, reg1)" "realises p c" "c_group c = g" by blast
  have sym: "c_symbol c = pc_symbol p" using c(2) by (simp add: realises_def)
  have cl: "registry_closed reg1 \<and> cg_registry reg1 = cg_registry reg \<and> next_id reg1 = next_id reg + 1"
    by (rule contract_create_closed [OF Cons.prems(3) _ c(1)]) (simp add: c(3) registered_id [OF Cons.prems(2) g(3)])
  have tab: "group_table reg1 names groups" using Cons.prems(4) cl by (simp add: group_table_def registered_def)
  have new: "dict_set (pc_symbol p) c contracts = contracts @ [(pc_symbol p, c)]"
    by (rule dict_values_set_new) (use Cons.prems(5) in \<open>auto simp: map_of_eq_None_iff\<close>)
  have d: "pc_symbol p \<notin> set (map pc_symbol ps)" using Cons.prems(1) by (simp add: request_ok_def)
  from Cons.IH [OF request_ok_tail [OF Cons.prems(1) c(1) sym] contract_create_wf [OF Cons.prems(2) c(1)] _ tab, of "contracts @ [(pc_symbol p, c)]"]
  obtain cs reg' where r: "create_contracts groups ps (contracts @ [(pc_symbol p, c)]) reg1 =
      (Inr ((contracts @ [(pc_symbol p, c)]) @ zip (map pc_symbol ps) cs), reg')"
    "list_all2 realises ps cs" "\<forall>c\<in>set cs. dict_get groups (cg_name (c_group c)) = Some (c_group c)"
    "registry_wf reg'" "registry_closed reg'" "cg_registry reg' = cg_registry reg1"
    "\<And>s. contract_get s reg' = (if s \<in> set (map pc_symbol ps) then dict_get (zip (map pc_symbol ps) cs) s else contract_get s reg1)"
    "\<forall>c\<in>set cs. get_contract (c_group c) (c_symbol c) reg' = Some c"
    "\<And>g s. s \<notin> set (map pc_symbol ps) \<Longrightarrow> get_contract g s reg' = get_contract g s reg1"
    using cl d Cons.prems(5) by auto
  have "get_contract (c_group c) (c_symbol c) reg' = Some c"
    using r(9) [of "pc_symbol p"] d contract_create_lookup(2) [OF c(1)] by (simp add: sym)
  moreover have "contract_get s reg' = (if s \<in> set (map pc_symbol (p # ps)) then dict_get (zip (map pc_symbol (p # ps)) (c # cs)) s
      else contract_get s reg)" for s
    using r(7) [of s] contract_create_lookup(1) [OF c(1), of s] sym d by auto
  moreover have "get_contract h s reg' = get_contract h s reg" if "s \<notin> set (map pc_symbol (p # ps))" for h s
    using r(9) [of s h] contract_create_keeps_members [OF c(1), of s h] that sym by simp
  moreover have "create_contracts groups (p # ps) contracts reg = (Inr (contracts @ zip (map pc_symbol (p # ps)) (c # cs)), reg')"
    using r(1) by (simp add: g(1) c(1) new)
  ultimately show ?case
    using r(2-6,8) cl c(2,3) g(1,2) by (intro exI [of _ "c # cs"] exI [of _ reg']) auto
qed simp

lemma cg_get_registered_mono:
  assumes "cg_get name reg = Inr (g, reg')" "registered reg h"
  shows "registered reg' h"
  using assms by (auto simp: cg_get_def registered_def Let_def dict_values_set_new split: option.splits)

lemma cg_get_members: "cg_get name reg = Inr (g, reg') \<Longrightarrow> cg_members reg' = cg_members reg"
  by (auto simp: cg_get_def Let_def split: option.splits)

lemma create_groups_complete:
  assumes "\<forall>n\<in>set names. \<exists>s. n = VStr s \<and> s \<noteq> []" "registry_wf reg" "registry_closed reg" "group_table reg N groups"
  shows "\<exists>groups' reg'. create_groups names groups reg = (Inr groups', reg') \<and> registry_wf reg' \<and> registry_closed reg' \<and>
    c_registry reg' = c_registry reg \<and> cg_members reg' = cg_members reg \<and> group_table reg' (N \<union> set names) groups'"
  using assms
proof (induction names arbitrary: groups reg N)
  case (Cons name names)
  then obtain s where s: "name = VStr s" "s \<noteq> []" by auto
  obtain g reg1 where g: "cg_get name reg = Inr (g, reg1)"
    by (cases "dict_get (cg_registry reg) s") (auto simp: cg_get_def nonempty_str_def s Let_def)
  note w = cg_get_wf [OF Cons.prems(2) g] and cl = cg_get_closed [OF Cons.prems(3) g]
  have "group_table reg1 (insert name N) (dict_set (cg_name g) g groups)"
    unfolding group_table_def
  proof
    fix n assume n: "n \<in> insert name N"
    have g': "registered reg1 g" using cl by (simp add: registered_def)
    show "\<exists>s h. n = VStr s \<and> dict_get (dict_set (cg_name g) g groups) s = Some h \<and> cg_name h = s \<and> registered reg1 h"
    proof (cases "n = name")
      case False
      with n Cons.prems(4) obtain t h where "n = VStr t" "dict_get groups t = Some h" "cg_name h = t" "registered reg h"
        by (auto simp: group_table_def)
      then show ?thesis using g' cg_get_registered_mono [OF g] by (cases "t = cg_name g") auto
    qed (use w g' in simp)
  qed
  from Cons.IH [OF _ _ _ this] Cons.prems(1) w cl g cg_get_members [OF g] show ?case by simp
qed simp

lemma create_contract_groups_rejects:
  "prepare_contracts reg definitions = Inl e \<Longrightarrow> create_contract_groups definitions reg = (Inl e, reg)"
  by (simp add: create_contract_groups_def)

lemma create_contract_groups_creates:
  assumes "registry_wf reg" "registry_closed reg" "prepare_contracts reg definitions = Inr prepared"
  shows "\<exists>groups cs reg'. create_contract_groups definitions reg =
      (Inr \<lparr>un_groups = groups, un_contracts = zip (map pc_symbol prepared) cs\<rparr>, reg') \<and>
    list_all2 realises prepared cs \<and> registry_wf reg' \<and> registry_closed reg' \<and>
    (\<forall>s. contract_get s reg' = (if s \<in> set (map pc_symbol prepared) then dict_get (zip (map pc_symbol prepared) cs) s else contract_get s reg)) \<and>
    (\<forall>c\<in>set cs. get_contract (c_group c) (c_symbol c) reg' = Some c \<and> dict_get groups (cg_name (c_group c)) = Some (c_group c))"
proof -
  from assms(3) obtain ds where ds: "definitions = Attr ds" by (auto simp: prepare_contracts_def split: attr.splits)
  note ok = prepare_contracts_ok [OF assms(3) [unfolded ds]]
  from create_groups_complete [OF conjunct2 [OF ok] assms(1,2), of "{}" "[]"] obtain groups reg1 where
    g: "create_groups (dict_keys ds) [] reg = (Inr groups, reg1)" "registry_wf reg1" "registry_closed reg1"
      "c_registry reg1 = c_registry reg" "cg_members reg1 = cg_members reg" "group_table reg1 (set (dict_keys ds)) groups"
    by (auto simp: group_table_def)
  have "request_ok reg1 (set (dict_keys ds)) prepared"
    using ok g(4) by (simp add: request_ok_def prepared_ok_def)
  from create_contracts_complete [OF this g(2,3,6), of "[]"] obtain cs reg' where
    c: "create_contracts groups prepared [] reg1 = (Inr (zip (map pc_symbol prepared) cs), reg')" "list_all2 realises prepared cs"
      "\<forall>c\<in>set cs. dict_get groups (cg_name (c_group c)) = Some (c_group c)" "registry_wf reg'" "registry_closed reg'"
      "\<forall>s. contract_get s reg' = (if s \<in> set (map pc_symbol prepared) then dict_get (zip (map pc_symbol prepared) cs) s else contract_get s reg1)"
      "\<forall>c\<in>set cs. get_contract (c_group c) (c_symbol c) reg' = Some c" by auto
  have "create_contract_groups definitions reg = (Inr \<lparr>un_groups = groups, un_contracts = zip (map pc_symbol prepared) cs\<rparr>, reg')"
    using assms(3) g(1) c(1) by (simp add: create_contract_groups_def ds pbind_def)
  moreover have "contract_get s reg1 = contract_get s reg" for s using g(4) by (simp add: contract_get_def)
  ultimately show ?thesis using c(2-7) by (intro exI [of _ groups] exI [of _ cs] exI [of _ reg']) simp
qed

section \<open>Properties\<close>

text \<open>
  Claim C37. Bulk creation is all or nothing. On consistent registries whose groups hold registered
  contracts only, \<open>create_contract_groups\<close> raises exactly when its validation of the request does, and
  then the registries are untouched; otherwise every requested contract, and no other, has been
  created with the requested terms, is found under its symbol and in the group of the requested
  name, is listed in the universe returned, and the registries are consistent again.
\<close>

theorem create_contract_groups_atomic:
  assumes "registry_wf reg" "registry_closed reg" "create_contract_groups definitions reg = (r, reg')"
  shows "case prepare_contracts reg definitions of
      Inl e \<Rightarrow> r = Inl e \<and> reg' = reg
    | Inr prepared \<Rightarrow> \<exists>u. r = Inr u \<and> registry_wf reg' \<and> registry_closed reg' \<and>
        dict_keys (un_contracts u) = map pc_symbol prepared \<and> list_all2 realises prepared (dict_values (un_contracts u)) \<and>
        (\<forall>s. contract_get s reg' = (if s \<in> set (map pc_symbol prepared) then dict_get (un_contracts u) s else contract_get s reg)) \<and>
        (\<forall>c\<in>set (dict_values (un_contracts u)). get_contract (c_group c) (c_symbol c) reg' = Some c \<and>
           universe_group u (cg_name (c_group c)) = Inr (c_group c))"
proof (cases "prepare_contracts reg definitions")
  case (Inl e)
  then show ?thesis using assms(3) by (simp add: create_contract_groups_rejects)
next
  case (Inr prepared)
  from create_contract_groups_creates [OF assms(1,2) Inr] obtain groups cs reg1 where
    c: "create_contract_groups definitions reg = (Inr \<lparr>un_groups = groups, un_contracts = zip (map pc_symbol prepared) cs\<rparr>, reg1)"
      "list_all2 realises prepared cs" "registry_wf reg1" "registry_closed reg1"
      "\<forall>s. contract_get s reg1 = (if s \<in> set (map pc_symbol prepared) then dict_get (zip (map pc_symbol prepared) cs) s else contract_get s reg)"
      "\<forall>c\<in>set cs. get_contract (c_group c) (c_symbol c) reg1 = Some c \<and> dict_get groups (cg_name (c_group c)) = Some (c_group c)" by blast
  have "length cs = length prepared" using c(2) by (simp add: list_all2_lengthD)
  moreover have "r = Inr \<lparr>un_groups = groups, un_contracts = zip (map pc_symbol prepared) cs\<rparr>" "reg' = reg1" using assms(3) c(1) by simp_all
  ultimately show ?thesis using c(2-6) by (auto simp: Inr universe_group_def dest!: set_zip_rightD)
qed

definition example_request :: "definitions attr" where
  "example_request = Attr [(VStr ''TECH'', PlainGroup (EntryList [SymbolEntry ''A'', SymbolEntry ''B'']))]"

theorem create_contract_groups_atomic_witness:
  "\<exists>u reg' prepared. create_contract_groups example_request initial_registry = (Inr u, reg') \<and>
     prepare_contracts initial_registry example_request = Inr prepared \<and> map pc_symbol prepared = [''A'', ''B''] \<and>
     dict_keys (un_contracts u) = [''A'', ''B''] \<and> contract_get ''A'' reg' = dict_get (un_contracts u) ''A''"
proof -
  obtain r reg' where r: "create_contract_groups example_request initial_registry = (r, reg')" by fastforce
  obtain prepared where p: "prepare_contracts initial_registry example_request = Inr prepared" "map pc_symbol prepared = [''A'', ''B'']"
    by (simp add: prepare_contracts_def example_request_def prepare_group_def prepare_entry_def blank_def space_char_def nonempty_str_def
        prepared_multiplier_def contract_exists_def initial_registry_def spec_or_def prepared_properties_def)
  show ?thesis
    using create_contract_groups_atomic [OF registry_wf_initial registry_closed_initial r] r p by auto
qed

end
