(* ===== verification/Calculation.thy ===== *)
theory Calculation
  imports Contracts Rounding
begin

text \<open>
  Calculation parameters (\<open>calculation.py\<close>) and point-in-time currency translation
  (\<open>currency.py\<close>). A context is validated and normalised when it is built, an FX snapshot too; a
  translation checks the snapshot against the context and then multiplies the monetary columns of a
  frame of exposures by the rate of each row's currency. The lemmas show what a validated context and
  snapshot promise and what a translation does to every row.
\<close>

section \<open>Calculation contexts\<close>

datatype missing_data_policy = MissingError | MissingWarn | MissingSkip

datatype calculation_mode = SINGLE | HISTORICAL

text \<open>
  \<open>CalculationContext\<close>: instants are in nanoseconds, \<open>None\<close> inside a \<open>datetime64\<close> is NaT, and an
  optional argument that was not given is \<open>None\<close>. The scenarios are only carried along.
\<close>

record 's calculation_context =
  cx_valuation_time :: datetime64
  cx_market_data_as_of :: "datetime64 option"
  cx_start_time :: "datetime64 option"
  cx_end_time :: "datetime64 option"
  cx_calendar :: "string option"
  cx_base_currency :: string
  cx_scenarios :: "'s list"
  cx_missing_data_policy :: missing_data_policy
  cx_mode :: calculation_mode
  cx_allow_lookahead :: bool
  cx_provenance_reference :: "string option"

text \<open>
  \<open>astype("datetime64[ns]")\<close> computes in 64 bits and wraps silently outside the years 1677 to 2262; the
  smallest integer is NaT.
\<close>

definition to_nanosecond_timestamp :: "datetime64 \<Rightarrow> datetime64" where
  "to_nanosecond_timestamp v = Datetime64 DT_ns (case dt_ns v of
      None \<Rightarrow> None | Some n \<Rightarrow> if wrap64 n = - (2 ^ 63) then None else Some (wrap64 n))"

definition currency_code :: "string \<Rightarrow> string \<Rightarrow> string res" where
  "currency_code field v = (let code = map upper_char v in
     if length code \<noteq> 3 \<or> \<not> py_isalpha code then Inl (ValueError (field @ '' must be a three-letter alphabetic code'')) else Inr code)"

definition opt_nat :: "datetime64 option \<Rightarrow> bool" where
  "opt_nat t = (case t of None \<Rightarrow> False | Some d \<Rightarrow> isnat d)"

definition calculation_context_init :: "'s calculation_context \<Rightarrow> 's calculation_context res" where
  "calculation_context_init self =
     (let valuation_time = to_nanosecond_timestamp (cx_valuation_time self);
          market_data_as_of = (case cx_market_data_as_of self of None \<Rightarrow> valuation_time | Some t \<Rightarrow> to_nanosecond_timestamp t);
          start = map_option to_nanosecond_timestamp (cx_start_time self);
          stop = map_option to_nanosecond_timestamp (cx_end_time self) in
      rbind (require (\<not> isnat valuation_time) (ValueError ''valuation_time cannot be NaT'')) (\<lambda>_.
      rbind (require (\<not> isnat market_data_as_of) (ValueError ''market_data_as_of cannot be NaT'')) (\<lambda>_.
      rbind (require (cx_allow_lookahead self \<or> \<not> dt_lt valuation_time market_data_as_of)
        (ValueError ''market_data_as_of cannot be after valuation_time unless look-ahead is enabled'')) (\<lambda>_.
      rbind (require (\<not> (opt_nat start \<or> opt_nat stop)) (ValueError ''calculation range cannot contain NaT'')) (\<lambda>_.
      rbind (require (case (start, stop) of (Some s, Some e) \<Rightarrow> \<not> dt_lt e s | _ \<Rightarrow> True)
        (ValueError ''start_time cannot be after end_time'')) (\<lambda>_.
      rbind (require (\<not> (cx_mode self = HISTORICAL \<and> (start = None \<or> stop = None)))
        (ValueError ''historical calculations require start_time and end_time'')) (\<lambda>_.
      rbind (currency_code ''base_currency'' (cx_base_currency self)) (\<lambda>currency.
      Inr (self\<lparr>cx_valuation_time := valuation_time, cx_market_data_as_of := Some market_data_as_of, cx_start_time := start,
             cx_end_time := stop, cx_base_currency := currency\<rparr>)))))))))"

text \<open>The argument of an operation that takes a context or a bare valuation time.\<close>

datatype 's context_arg = Context "'s calculation_context" | ValuationTime datetime64

definition coerce :: "'s context_arg \<Rightarrow> 's calculation_context res" where
  "coerce value = (case value of
      Context c \<Rightarrow> Inr c
    | ValuationTime t \<Rightarrow> calculation_context_init \<lparr>cx_valuation_time = t, cx_market_data_as_of = None, cx_start_time = None,
        cx_end_time = None, cx_calendar = None, cx_base_currency = ''USD'', cx_scenarios = [], cx_missing_data_policy = MissingError,
        cx_mode = SINGLE, cx_allow_lookahead = False, cx_provenance_reference = None\<rparr>)"

section \<open>FX snapshots\<close>

text \<open>\<open>math.isclose(a, b)\<close> with the default tolerances.\<close>

definition f_isclose :: "float64 \<Rightarrow> float64 \<Rightarrow> bool" where
  "f_isclose a b = (f_eq a b \<or> (is_finite a \<and> is_finite b \<and>
     (let diff = f_abs (f_sub b a) in
      f_le diff (f_abs (f_mul (Fin rel_tol) b)) \<or> f_le diff (f_abs (f_mul (Fin rel_tol) a)))))"

record fx_rate_snapshot =
  fx_base_currency :: string
  fx_as_of :: datetime64
  fx_rates :: "(string, float64) dict"
  fx_source :: "string option"

definition normalize_rate :: "(string, float64) dict \<Rightarrow> string \<times> pynum \<Rightarrow> (string, float64) dict res" where
  "normalize_rate normalized item = (case item of (currency, rate) \<Rightarrow>
     rbind (currency_code ''FX currency'' currency) (\<lambda>code.
     rbind (require (dict_get normalized code = None) (ValueError ''duplicate FX currency after normalization'')) (\<lambda>_.
     rbind (num_float rate) (\<lambda>v.
     rbind (require (is_finite v \<and> \<not> f_le v (Fin 0)) (ValueError ''FX rate must be finite and positive'')) (\<lambda>_.
     Inr (dict_set code v normalized))))))"

definition fx_rate_snapshot_init :: "string \<Rightarrow> datetime64 \<Rightarrow> (string, pynum) dict \<Rightarrow> string option \<Rightarrow> fx_rate_snapshot res" where
  "fx_rate_snapshot_init base_currency as_of rates source =
     rbind (currency_code ''base_currency'' base_currency) (\<lambda>base.
     let as_of = to_nanosecond_timestamp as_of in
     rbind (require (\<not> isnat as_of) (ValueError ''FX as_of cannot be NaT'')) (\<lambda>_.
     rbind (res_fold normalize_rate [] rates) (\<lambda>normalized.
     rbind (require (case dict_get normalized base of None \<Rightarrow> True | Some r \<Rightarrow> f_isclose r (Fin 1))
       (ValueError ''base-currency FX rate must equal one'')) (\<lambda>_.
     Inr \<lparr>fx_base_currency = base, fx_as_of = as_of, fx_rates = dict_set base (Fin 1) normalized, fx_source = source\<rparr>))))"

definition fx_rate :: "fx_rate_snapshot \<Rightarrow> string \<Rightarrow> float64 res" where
  "fx_rate self currency = rbind (currency_code ''currency'' currency) (\<lambda>code.
     case dict_get (fx_rates self) code of None \<Rightarrow> Inl (ValueError ''FX rate is missing'') | Some r \<Rightarrow> Inr r)"

section \<open>Translation\<close>

text \<open>
  A frame of exposures: the names of its columns and, per row, the four columns a translation
  touches; \<open>None\<close> is a null.
\<close>

record exposure_row =
  ex_currency :: "string option"
  ex_price :: "float64 option"
  ex_net_exposure :: "float64 option"
  ex_gross_exposure :: "float64 option"

record exposure_frame =
  ef_columns :: "string list"
  ef_rows :: "exposure_row list"

record translated_row = exposure_row +
  tr_local_currency :: "string option"
  tr_local_price :: "float64 option"
  tr_local_net_exposure :: "float64 option"
  tr_local_gross_exposure :: "float64 option"
  tr_fx_rate :: float64
  tr_fx_as_of :: datetime64
  tr_fx_source :: "string option"

definition required_columns :: "string list" where
  "required_columns = [''currency'', ''price'', ''net_exposure'', ''gross_exposure'']"

definition translate_row :: "fx_rate_snapshot \<Rightarrow> string \<Rightarrow> float64 \<Rightarrow> exposure_row \<Rightarrow> translated_row" where
  "translate_row snapshot currency rate row =
     \<lparr>ex_currency = Some (fx_base_currency snapshot), ex_price = map_option (\<lambda>x. f_mul x rate) (ex_price row),
      ex_net_exposure = map_option (\<lambda>x. f_mul x rate) (ex_net_exposure row),
      ex_gross_exposure = map_option (\<lambda>x. f_mul x rate) (ex_gross_exposure row),
      tr_local_currency = Some currency, tr_local_price = ex_price row, tr_local_net_exposure = ex_net_exposure row,
      tr_local_gross_exposure = ex_gross_exposure row, tr_fx_rate = rate, tr_fx_as_of = fx_as_of snapshot, tr_fx_source = fx_source snapshot\<rparr>"

text \<open>\<open>replace_strict\<close> raises on a currency without a rate; the check before it excludes that.\<close>

definition replace_rate :: "fx_rate_snapshot \<Rightarrow> exposure_row \<Rightarrow> translated_row res" where
  "replace_rate snapshot row = (case ex_currency row of
      None \<Rightarrow> Inl (ValueError ''exposure currency cannot be null'')
    | Some currency \<Rightarrow> (case dict_get (fx_rates snapshot) (map upper_char currency) of
        None \<Rightarrow> Inl (ValueError ''incomplete mapping specified for replace_strict'')
      | Some rate \<Rightarrow> Inr (translate_row snapshot currency rate row)))"

definition translate_exposures :: "exposure_frame \<Rightarrow> fx_rate_snapshot \<Rightarrow> 's context_arg \<Rightarrow> translated_row list res" where
  "translate_exposures exposures snapshot arg =
     rbind (coerce arg) (\<lambda>calculation.
     rbind (require (cx_allow_lookahead calculation \<or>
         \<not> (case cx_market_data_as_of calculation of None \<Rightarrow> False | Some t \<Rightarrow> dt_lt t (fx_as_of snapshot)))
       (ValueError ''FX snapshot uses market data after the calculation cutoff'')) (\<lambda>_.
     rbind (require (fx_base_currency snapshot = cx_base_currency calculation)
       (ValueError ''FX snapshot and calculation context base currencies must match'')) (\<lambda>_.
     rbind (require (set required_columns \<subseteq> set (ef_columns exposures)) (ValueError ''exposure columns are missing'')) (\<lambda>_.
     rbind (require (None \<notin> set (map ex_currency (ef_rows exposures))) (ValueError ''exposure currency cannot be null'')) (\<lambda>_.
     rbind (require (\<forall>row\<in>set (ef_rows exposures). case ex_currency row of None \<Rightarrow> True
         | Some c \<Rightarrow> dict_get (fx_rates snapshot) (map upper_char c) \<noteq> None) (ValueError ''FX rates are missing'')) (\<lambda>_.
     res_map (replace_rate snapshot) (ef_rows exposures)))))))"

section \<open>What validation establishes\<close>

definition context_ok :: "'s calculation_context \<Rightarrow> bool" where
  "context_ok c = (\<not> isnat (cx_valuation_time c) \<and>
     (\<exists>t. cx_market_data_as_of c = Some t \<and> \<not> isnat t \<and> (cx_allow_lookahead c \<or> dt_le t (cx_valuation_time c))) \<and>
     (case (cx_start_time c, cx_end_time c) of (Some s, Some e) \<Rightarrow> dt_le s e | _ \<Rightarrow> cx_mode c \<noteq> HISTORICAL) \<and>
     currency_code ''base_currency'' (cx_base_currency c) = Inr (cx_base_currency c))"

lemma dt_le_iff: "\<not> isnat a \<Longrightarrow> \<not> isnat b \<Longrightarrow> dt_le a b \<longleftrightarrow> \<not> dt_lt b a"
  by (auto simp: dt_le_def dt_lt_def isnat_def split: option.splits)

lemma upper_char_idem [simp]: "upper_char (upper_char c) = upper_char c"
proof -
  have "of_char (upper_char c) = (if 97 \<le> (of_char c :: nat) \<and> (of_char c :: nat) \<le> 122 then of_char c - 32 else (of_char c :: nat))"
    by (auto simp: upper_char_def)
  then show ?thesis by (auto simp: upper_char_def [of "upper_char c"])
qed

lemma currency_code_Inr: "currency_code f v = Inr code \<longleftrightarrow> code = map upper_char v \<and> length v = 3 \<and> py_isalpha code"
  by (auto simp: currency_code_def Let_def)

lemma currency_code_idem: "currency_code f v = Inr code \<Longrightarrow> currency_code g code = Inr code"
  by (auto simp: currency_code_Inr)

lemma calculation_context_init_ok:
  assumes "calculation_context_init raw = Inr c"
  shows "context_ok c"
proof -
  let ?n = to_nanosecond_timestamp
  let ?m = "case cx_market_data_as_of raw of None \<Rightarrow> ?n (cx_valuation_time raw) | Some t \<Rightarrow> ?n t"
  let ?s = "map_option ?n (cx_start_time raw)" and ?e = "map_option ?n (cx_end_time raw)"
  from assms obtain code where
    v: "\<not> isnat (?n (cx_valuation_time raw))" "\<not> isnat ?m" "cx_allow_lookahead raw \<or> \<not> dt_lt (?n (cx_valuation_time raw)) ?m"
    "\<not> (opt_nat ?s \<or> opt_nat ?e)" "case (?s, ?e) of (Some s, Some e) \<Rightarrow> \<not> dt_lt e s | _ \<Rightarrow> True"
    "\<not> (cx_mode raw = HISTORICAL \<and> (?s = None \<or> ?e = None))"
    and code: "currency_code ''base_currency'' (cx_base_currency raw) = Inr code"
    and c: "c = raw\<lparr>cx_valuation_time := ?n (cx_valuation_time raw), cx_market_data_as_of := Some ?m, cx_start_time := ?s, cx_end_time := ?e, cx_base_currency := code\<rparr>"
    unfolding calculation_context_init_def Let_def rbind_require_Inr by (elim conjE rbindE) simp
  have "cx_allow_lookahead c \<or> dt_le ?m (cx_valuation_time c)" using v(1-3) by (auto simp: c dt_le_iff)
  moreover have "case (?s, ?e) of (Some s, Some e) \<Rightarrow> dt_le s e | _ \<Rightarrow> cx_mode c \<noteq> HISTORICAL"
    using v(4-6) by (cases ?s; cases ?e) (auto simp: c opt_nat_def dt_le_iff)
  moreover have "cx_valuation_time c = ?n (cx_valuation_time raw)" "cx_market_data_as_of c = Some ?m" "cx_start_time c = ?s"
    "cx_end_time c = ?e" "cx_base_currency c = code" by (simp_all add: c)
  ultimately show ?thesis unfolding context_ok_def using v(1,2) currency_code_idem [OF code] by metis
qed

definition rates_ok :: "(string, float64) dict \<Rightarrow> bool" where
  "rates_ok d = (\<forall>k v. dict_get d k = Some v \<longrightarrow> length k = 3 \<and> py_isalpha k \<and> is_finite v \<and> f_lt (Fin 0) v)"

lemma normalize_rate_ok:
  assumes "rates_ok d" "normalize_rate d item = Inr d'"
  shows "rates_ok d'"
proof -
  obtain currency rate where i: "item = (currency, rate)" by (cases item)
  with assms(2) obtain code v where
    n: "currency_code ''FX currency'' currency = Inr code" "is_finite v" "\<not> f_le v (Fin 0)" "d' = dict_set code v d"
    by (auto simp: normalize_rate_def)
  have "f_lt (Fin 0) v" using n(2,3) by (auto simp: is_finite_iff)
  then show ?thesis using assms(1) n by (auto simp: rates_ok_def currency_code_Inr)
qed

lemma fx_rate_snapshot_init_ok:
  assumes "fx_rate_snapshot_init base as_of rates source = Inr snap"
  shows "rates_ok (fx_rates snap)" "dict_get (fx_rates snap) (fx_base_currency snap) = Some (Fin 1)" "\<not> isnat (fx_as_of snap)"
proof -
  from assms obtain code normalized where
    s: "currency_code ''base_currency'' base = Inr code" "res_fold normalize_rate [] rates = Inr normalized" "\<not> isnat (to_nanosecond_timestamp as_of)"
      "snap = \<lparr>fx_base_currency = code, fx_as_of = to_nanosecond_timestamp as_of, fx_rates = dict_set code (Fin 1) normalized, fx_source = source\<rparr>"
    unfolding fx_rate_snapshot_init_def Let_def rbind_require_Inr by (elim conjE rbindE) simp
  have "rates_ok normalized"
    by (rule res_fold_invariant [OF normalize_rate_ok _ s(2)]) (simp_all add: rates_ok_def)
  then show "rates_ok (fx_rates snap)" using s(1) by (auto simp: s(4) rates_ok_def currency_code_Inr)
  show "dict_get (fx_rates snap) (fx_base_currency snap) = Some (Fin 1)" "\<not> isnat (fx_as_of snap)"
    using s(3) by (simp_all add: s(4))
qed

text \<open>Instants the nanosecond clock can represent are kept.\<close>

definition ns_range :: "datetime64 \<Rightarrow> bool" where
  "ns_range t = (case dt_ns t of None \<Rightarrow> True | Some n \<Rightarrow> \<bar>n\<bar> < 2 ^ 63)"

lemma to_nanosecond_in_range: "ns_range t \<Longrightarrow> dt_ns (to_nanosecond_timestamp t) = dt_ns t"
proof (cases "dt_ns t")
  case (Some n)
  assume "ns_range t"
  then have "\<bar>n\<bar> < 2 ^ 63" using Some by (simp add: ns_range_def)
  then have "in_int64 n" "n \<noteq> - (2 ^ 63)" unfolding in_int64_def by linarith+
  then show ?thesis using Some by (simp add: to_nanosecond_timestamp_def)
qed (simp add: to_nanosecond_timestamp_def)

lemma valuation_time_of: "calculation_context_init raw = Inr ctx \<Longrightarrow> cx_valuation_time ctx = to_nanosecond_timestamp (cx_valuation_time raw)"
  unfolding calculation_context_init_def Let_def rbind_require_Inr by (elim conjE rbindE) (simp, drule sym, simp)

lemma fx_as_of_of: "fx_rate_snapshot_init base as_of rates source = Inr snap \<Longrightarrow> fx_as_of snap = to_nanosecond_timestamp as_of"
  unfolding fx_rate_snapshot_init_def Let_def rbind_require_Inr by (elim conjE rbindE) (simp, drule sym, simp)

lemma fx_rate_lookup:
  assumes "rates_ok (fx_rates snap)" "dict_get (fx_rates snap) (map upper_char c) = Some r"
  shows "fx_rate snap c = Inr r"
proof -
  have "length (map upper_char c) = 3" "py_isalpha (map upper_char c)" using assms by (auto simp only: rates_ok_def)
  then show ?thesis using assms(2) by (simp add: fx_rate_def currency_code_def)
qed

lemma fx_rate_iff:
  "rates_ok (fx_rates snap) \<Longrightarrow> fx_rate snap c = Inr r \<longleftrightarrow> dict_get (fx_rates snap) (map upper_char c) = Some r"
  using fx_rate_lookup [of snap c r] by (auto simp: fx_rate_def currency_code_Inr split: option.splits)

lemma replace_rate_Inr:
  "rates_ok (fx_rates snap) \<Longrightarrow> replace_rate snap row = Inr tr \<longleftrightarrow>
     (\<exists>c r. ex_currency row = Some c \<and> fx_rate snap c = Inr r \<and> tr = translate_row snap c r row)"
  by (auto simp: replace_rate_def fx_rate_iff split: option.splits)

lemma f_mul_1 [simp]: "f_mul (rnd64 x) (Fin 1) = rnd64 x"
proof (cases "rnd64 x")
  case (Fin y)
  then show ?thesis using repr64_rnd64 [of x y] by (simp add: repr64_def)
qed (simp_all add: inf_of_sign_def)

section \<open>Properties\<close>

text \<open>
  Claim C38. Translation is exact and, for instants that fit the nanosecond clock, never looks ahead. For
  a context and an FX snapshot that were accepted by their constructors, \<open>translate_exposures\<close> returns
  exactly when the stored instant of the snapshot is not after the context's stored data cutoff (unless
  look-ahead is enabled), both use one base currency, the monetary columns exist and every row names a
  currency with a rate; each row then carries its local values and the products with the rate
  \<open>FxRateSnapshot.rate\<close> gives for its currency. Without look-ahead, when the instant the snapshot was given
  and the valuation time the context was given both lie within the range of 64-bit nanoseconds, the rates
  used are not newer than the valuation. Every rate is finite and positive, and amounts in the base
  currency are not changed. Outside the range the stored instants have wrapped and the check can be
  passed by a future snapshot: \<open>translate_exposures_wrapped\<close>.
\<close>

theorem translate_exposures_point_in_time:
  assumes "calculation_context_init raw = Inr ctx" "fx_rate_snapshot_init base as_of rates source = Inr snap"
  shows "(translate_exposures frame snap (Context ctx) = Inr rows \<longleftrightarrow>
      (cx_allow_lookahead ctx \<or> dt_le (fx_as_of snap) (the (cx_market_data_as_of ctx))) \<and>
      fx_base_currency snap = cx_base_currency ctx \<and> set required_columns \<subseteq> set (ef_columns frame) \<and>
      list_all2 (\<lambda>row tr. \<exists>c r. ex_currency row = Some c \<and> fx_rate snap c = Inr r \<and> tr = translate_row snap c r row) (ef_rows frame) rows) \<and>
    (translate_exposures frame snap (Context ctx) = Inr rows \<longrightarrow> cx_allow_lookahead ctx \<or>
       dt_le (fx_as_of snap) (cx_valuation_time ctx) \<and>
       (ns_range as_of \<and> ns_range (cx_valuation_time raw) \<longrightarrow> dt_le as_of (cx_valuation_time raw))) \<and>
    (\<forall>c r. fx_rate snap c = Inr r \<longrightarrow> is_finite r \<and> f_lt (Fin 0) r \<and>
       (map upper_char c = fx_base_currency snap \<longrightarrow> (\<forall>x. f_mul (rnd64 x) r = rnd64 x)))"
proof -
  from calculation_context_init_ok [OF assms(1)] obtain t where
    t: "cx_market_data_as_of ctx = Some t" "\<not> isnat t" "cx_allow_lookahead ctx \<or> dt_le t (cx_valuation_time ctx)"
    by (auto simp: context_ok_def)
  note s = fx_rate_snapshot_init_ok [OF assms(2)]
  let ?rows = "list_all2 (\<lambda>row tr. \<exists>c r. ex_currency row = Some c \<and> fx_rate snap c = Inr r \<and> tr = translate_row snap c r row) (ef_rows frame) rows"
  have cov: "?rows \<Longrightarrow> None \<notin> set (map ex_currency (ef_rows frame)) \<and>
      (\<forall>row\<in>set (ef_rows frame). case ex_currency row of None \<Rightarrow> True | Some c \<Rightarrow> dict_get (fx_rates snap) (map upper_char c) \<noteq> None)"
    by (fastforce simp: list_all2_conv_all_nth in_set_conv_nth fx_rate_iff [OF s(1)])
  have cut: "\<not> dt_lt t (fx_as_of snap) \<longleftrightarrow> dt_le (fx_as_of snap) t" using s(3) t(2) by (simp add: dt_le_iff)
  have "translate_exposures frame snap (Context ctx) = Inr rows \<longleftrightarrow>
      (cx_allow_lookahead ctx \<or> dt_le (fx_as_of snap) (the (cx_market_data_as_of ctx))) \<and>
      fx_base_currency snap = cx_base_currency ctx \<and> set required_columns \<subseteq> set (ef_columns frame) \<and> ?rows"
    unfolding translate_exposures_def coerce_def context_arg.case rbind_simps rbind_require_Inr res_map_Inr_conv
      replace_rate_Inr [OF s(1)] using cov cut by (auto simp: t(1))
  moreover have "dt_le (fx_as_of snap) t \<Longrightarrow> dt_le t (cx_valuation_time ctx) \<Longrightarrow> dt_le (fx_as_of snap) (cx_valuation_time ctx)"
    by (auto simp: dt_le_def split: option.splits)
  moreover have "dt_le (fx_as_of snap) (cx_valuation_time ctx) \<Longrightarrow> ns_range as_of \<Longrightarrow> ns_range (cx_valuation_time raw) \<Longrightarrow>
      dt_le as_of (cx_valuation_time raw)"
    using to_nanosecond_in_range [of as_of] to_nanosecond_in_range [of "cx_valuation_time raw"]
    by (simp add: dt_le_def fx_as_of_of [OF assms(2)] valuation_time_of [OF assms(1)])
  moreover have "is_finite r \<and> f_lt (Fin 0) r \<and> (map upper_char c = fx_base_currency snap \<longrightarrow> (\<forall>x. f_mul (rnd64 x) r = rnd64 x))"
    if "fx_rate snap c = Inr r" for c r
    using that s(1,2) by (auto simp: fx_rate_iff [OF s(1)] rates_ok_def)
  ultimately show ?thesis using t by auto
qed

definition example_context :: "unit calculation_context" where
  "example_context = \<lparr>cx_valuation_time = Datetime64 DT_ns (Some 20), cx_market_data_as_of = Some (Datetime64 DT_ns (Some 20)), cx_start_time = None,
        cx_end_time = None, cx_calendar = None, cx_base_currency = ''USD'', cx_scenarios = [], cx_missing_data_policy = MissingError,
        cx_mode = SINGLE, cx_allow_lookahead = False, cx_provenance_reference = None\<rparr>"

definition example_snapshot :: fx_rate_snapshot where
  "example_snapshot = \<lparr>fx_base_currency = ''USD'', fx_as_of = Datetime64 DT_ns (Some 10), fx_rates = [(''EUR'', Fin (5 / 4)), (''USD'', Fin 1)], fx_source = None\<rparr>"

definition example_frame :: exposure_frame where
  "example_frame = \<lparr>ef_columns = [''symbol'', ''currency'', ''price'', ''net_exposure'', ''gross_exposure''],
     ef_rows = [\<lparr>ex_currency = Some ''EUR'', ex_price = Some (Fin 50), ex_net_exposure = Some (Fin 1000), ex_gross_exposure = Some (Fin 1000)\<rparr>]\<rparr>"

lemma example_context_init: "calculation_context_init example_context = Inr example_context"
  by code_simp

lemma example_snapshot_init:
  "fx_rate_snapshot_init ''usd'' (Datetime64 DT_s (Some 10)) [(''eur'', PyFloat (Fin (5 / 4)))] None = Inr example_snapshot"
  by code_simp

theorem translate_exposures_point_in_time_witness:
  "\<exists>rows. translate_exposures example_frame example_snapshot (Context example_context) = Inr rows \<and>
     map ex_net_exposure rows = [Some (Fin 1250)] \<and> map tr_local_net_exposure rows = [Some (Fin 1000)] \<and>
     dt_le (Datetime64 DT_s (Some 10)) (cx_valuation_time example_context)"
proof -
  let ?rows = "map (translate_row example_snapshot ''EUR'' (Fin (5 / 4))) (ef_rows example_frame)"
  have t: "translate_exposures example_frame example_snapshot (Context example_context) = Inr ?rows" by code_simp
  have "map ex_net_exposure ?rows = [Some (Fin 1250)]" "map tr_local_net_exposure ?rows = [Some (Fin 1000)]"
    "cx_allow_lookahead example_context = False" by code_simp+
  moreover have "ns_range (Datetime64 DT_s (Some 10))" "ns_range (cx_valuation_time example_context)" by code_simp+
  moreover have "cx_allow_lookahead example_context \<or> dt_le (fx_as_of example_snapshot) (cx_valuation_time example_context) \<and>
      (ns_range (Datetime64 DT_s (Some 10)) \<and> ns_range (cx_valuation_time example_context) \<longrightarrow>
       dt_le (Datetime64 DT_s (Some 10)) (cx_valuation_time example_context))"
    by (rule mp [OF conjunct1 [OF conjunct2 [OF translate_exposures_point_in_time [OF example_context_init example_snapshot_init]]] t])
  ultimately show ?thesis using t by (intro exI [of _ ?rows]) simp
qed

text \<open>
  A snapshot of 2300-01-01 becomes one of the year 1715 and passes the check of a valuation in 2020
  without look-ahead.
\<close>

definition future_instant :: datetime64 where
  "future_instant = Datetime64 DT_s (Some (10413792000 * 10 ^ 9))"

definition valuation_2020 :: "unit calculation_context" where
  "valuation_2020 = example_context\<lparr>cx_valuation_time := Datetime64 DT_ns (Some (1577836800 * 10 ^ 9)), cx_market_data_as_of := None\<rparr>"

lemma translate_exposures_wrapped:
  "case (calculation_context_init valuation_2020, fx_rate_snapshot_init ''usd'' future_instant [(''eur'', PyFloat (Fin (5 / 4)))] None) of
     (Inr ctx, Inr snap) \<Rightarrow> \<not> cx_allow_lookahead ctx \<and> \<not> dt_le future_instant (cx_valuation_time valuation_2020) \<and>
       (case translate_exposures example_frame snap (Context ctx) of Inl _ \<Rightarrow> False | Inr rows \<Rightarrow> True)
   | _ \<Rightarrow> False"
  by code_simp

end
