(* ===== verification/Stages.thy ===== *)
theory Stages
  imports Contracts
begin

text \<open>
  The stage graph of a strategy (\<open>stages.py\<close>): named nodes with dependencies and the depth-first
  \<open>topological_order\<close>, whose nested \<open>visit\<close> keeps the path it is on and the nodes it has finished.
  The order is shown to be a permutation of the nodes with every dependency first, and to exist
  exactly when no dependency is missing and none is circular. The second part is the validation of
  stage selections and dependency scopes (\<open>strategy_validation.py\<close>).
\<close>

section \<open>The graph\<close>

record stage_node =
  sn_name :: string
  sn_kind :: string
  sn_dependencies :: "string list"

type_synonym stage_graph = "(string, stage_node) dict"

definition stage_graph_init :: "stage_node list \<Rightarrow> stage_graph res" where
  "stage_graph_init nodes =
     (let d = fold (\<lambda>n d. dict_set (sn_name n) n d) nodes [] in
      if length d \<noteq> length nodes then Inl (ValueError ''stage names must be unique'') else Inr d)"

definition stage_nodes :: "stage_graph \<Rightarrow> stage_node list" where
  "stage_nodes g = dict_values g"

text \<open>
  \<open>visit\<close> and its loop over the dependencies. The path \<open>visiting\<close> is pushed before the loop and
  popped behind it; \<open>order\<close> and \<open>complete\<close> (here \<open>finished\<close>) are what the closure accumulates.
\<close>

function (sequential) visit :: "stage_graph \<Rightarrow> string list \<Rightarrow> string \<Rightarrow> string list \<times> string set \<Rightarrow> (string list \<times> string set) res"
  and visit_all :: "stage_graph \<Rightarrow> string list \<Rightarrow> string list \<Rightarrow> string list \<times> string set \<Rightarrow> (string list \<times> string set) res" where
  "visit g visiting name (order, finished) =
     (if name \<in> finished then Inr (order, finished)
      else if name \<in> set visiting then Inl (ValueError ''stage dependency cycle'')
      else case dict_get g name of
          None \<Rightarrow> Inl (KeyError name)
        | Some node \<Rightarrow> rbind (visit_all g (visiting @ [name]) (sn_dependencies node) (order, finished))
            (\<lambda>(order, finished). Inr (order @ [name], insert name finished)))"
| "visit_all g visiting [] s = Inr s"
| "visit_all g visiting (d # ds) s = rbind (visit g visiting d s) (\<lambda>s. visit_all g visiting ds s)"
  by pat_completeness auto

termination
proof (relation "inv_image (less_than <*lex*> less_than) (\<lambda>x. case x of
      Inl (g, visiting, name, s) \<Rightarrow> (card (set (dict_keys g) - set visiting), 0)
    | Inr (g, visiting, ds, s) \<Rightarrow> (card (set (dict_keys g) - set visiting), length ds))", goal_cases)
  case (2 g visiting name order finished node)
  have "name \<in> set (dict_keys g)" using 2(3) by (force dest: map_of_SomeD)
  then have "card (set (dict_keys g) - set (visiting @ [name])) < card (set (dict_keys g) - set visiting)"
    using 2(2) by (intro psubset_card_mono) auto
  then show ?case by simp
qed auto

definition missing_dependencies :: "stage_graph \<Rightarrow> string set" where
  "missing_dependencies g = {d \<in> \<Union> (set ` sn_dependencies ` set (dict_values g)). d \<notin> set (dict_keys g)}"

definition topological_order :: "stage_graph \<Rightarrow> string list res" where
  "topological_order g =
     (if missing_dependencies g \<noteq> {} then Inl (ValueError ''stage dependencies are missing'')
      else rbind (visit_all g [] (dict_keys g) ([], {})) (\<lambda>(order, _). Inr order))"

definition describe :: "stage_graph \<Rightarrow> (string \<times> string \<times> string list) list" where
  "describe g = map (\<lambda>n. (sn_name n, sn_kind n, sn_dependencies n)) (dict_values g)"

section \<open>The order respects the dependencies\<close>

definition graph_ok :: "stage_graph \<Rightarrow> bool" where
  "graph_ok g = (distinct (dict_keys g) \<and> (\<forall>(k, n)\<in>set g. sn_name n = k))"

definition dep_rel :: "stage_graph \<Rightarrow> (string \<times> string) set" where
  "dep_rel g = {(a, d). \<exists>n. dict_get g a = Some n \<and> d \<in> set (sn_dependencies n)}"

text \<open>Every entry is behind all its dependencies.\<close>

definition deps_first :: "stage_graph \<Rightarrow> string list \<Rightarrow> bool" where
  "deps_first g order = (\<forall>xs a ys. order = xs @ a # ys \<longrightarrow> (\<forall>d. (a, d) \<in> dep_rel g \<longrightarrow> d \<in> set xs))"

definition visit_inv :: "stage_graph \<Rightarrow> string list \<Rightarrow> string list \<times> string set \<Rightarrow> bool" where
  "visit_inv g visiting s = (case s of (order, finished) \<Rightarrow>
     finished = set order \<and> distinct order \<and> set order \<subseteq> set (dict_keys g) \<and> deps_first g order \<and> finished \<inter> set visiting = {})"

lemma deps_first_Nil [simp]: "deps_first g []"
  by (simp add: deps_first_def)

lemma deps_first_snoc:
  assumes "deps_first g order" "\<And>d. (a, d) \<in> dep_rel g \<Longrightarrow> d \<in> set order"
  shows "deps_first g (order @ [a])"
  unfolding deps_first_def
proof (intro allI impI)
  fix xs b ys d assume *: "order @ [a] = xs @ b # ys" "(b, d) \<in> dep_rel g"
  show "d \<in> set xs"
  proof (cases ys rule: rev_cases)
    case Nil
    then show ?thesis using * assms(2) by simp
  next
    case (snoc zs z)
    then show ?thesis using * assms(1) by (auto simp: deps_first_def)
  qed
qed

text \<open>
  A successful visit keeps the invariant, only adds finished nodes, and finishes its node.
\<close>

lemma visit_ok:
  "visit g visiting name s = Inr s' \<Longrightarrow> visit_inv g visiting s \<Longrightarrow> visit_inv g visiting s' \<and> snd s \<subseteq> snd s' \<and> name \<in> snd s'"
  "visit_all g visiting ds s = Inr s' \<Longrightarrow> visit_inv g visiting s \<Longrightarrow> visit_inv g visiting s' \<and> snd s \<subseteq> snd s' \<and> set ds \<subseteq> snd s'"
proof (induction g visiting name s and g visiting ds s arbitrary: s' and s' rule: visit_visit_all.induct)
  case (1 g visiting name order finished)
  show ?case
  proof (cases "name \<in> finished")
    case True
    then show ?thesis using 1 by auto
  next
    case False
    with 1(2) obtain node o1 c1 where n: "name \<notin> set visiting" "dict_get g name = Some node"
      and v: "visit_all g (visiting @ [name]) (sn_dependencies node) (order, finished) = Inr (o1, c1)"
      and s': "s' = (o1 @ [name], insert name c1)"
      by (auto split: if_splits option.splits)
    have "visit_inv g (visiting @ [name]) (order, finished)" using 1(3) False by (auto simp: visit_inv_def)
    from 1(1) [OF False n v this] have i: "visit_inv g (visiting @ [name]) (o1, c1)" "finished \<subseteq> c1" "set (sn_dependencies node) \<subseteq> c1"
      by simp_all
    have "\<And>d. (name, d) \<in> dep_rel g \<Longrightarrow> d \<in> set o1" using i(1,3) n(2) by (auto simp: dep_rel_def visit_inv_def)
    moreover have "name \<in> set (dict_keys g)" using n(2) by (force dest: map_of_SomeD)
    ultimately show ?thesis using i(1,2) s' n(1) deps_first_snoc [of g o1 name] by (auto simp: visit_inv_def)
  qed
next
  case (3 g visiting d ds s)
  then obtain s1 where "visit g visiting d s = Inr s1" "visit_all g visiting ds s1 = Inr s'" by auto
  with 3(1) [OF _ 3(4)] 3(2) show ?case by fastforce
qed simp

section \<open>It exists exactly for acyclic graphs\<close>

lemma visit_total:
  "visit_inv g visiting s \<Longrightarrow> acyclic (dep_rel g) \<Longrightarrow> missing_dependencies g = {} \<Longrightarrow> name \<in> set (dict_keys g) \<Longrightarrow>
     (\<And>v. v \<in> set visiting \<Longrightarrow> (v, name) \<in> (dep_rel g)\<^sup>+) \<Longrightarrow> \<exists>s'. visit g visiting name s = Inr s'"
  "visit_inv g visiting s \<Longrightarrow> acyclic (dep_rel g) \<Longrightarrow> missing_dependencies g = {} \<Longrightarrow> set ds \<subseteq> set (dict_keys g) \<Longrightarrow>
     (\<And>v d. v \<in> set visiting \<Longrightarrow> d \<in> set ds \<Longrightarrow> (v, d) \<in> (dep_rel g)\<^sup>+) \<Longrightarrow> \<exists>s'. visit_all g visiting ds s = Inr s'"
proof (induction g visiting name s and g visiting ds s rule: visit_visit_all.induct)
  case (1 g visiting name order finished)
  show ?case
  proof (cases "name \<in> finished")
    case False
    have nv: "name \<notin> set visiting" using 1(3,6) by (auto simp: acyclic_def)
    obtain node where n: "dict_get g name = Some node" using 1(5) by (cases "dict_get g name") (auto simp: map_of_eq_None_iff)
    have dep: "(name, d) \<in> dep_rel g" if "d \<in> set (sn_dependencies node)" for d using n that by (auto simp: dep_rel_def)
    have sub: "set (sn_dependencies node) \<subseteq> set (dict_keys g)"
      using 1(4) map_of_SomeD [OF n] by (force simp: missing_dependencies_def)
    have "\<exists>s'. visit_all g (visiting @ [name]) (sn_dependencies node) (order, finished) = Inr s'"
    proof (rule 1(1) [OF False nv n _ 1(3,4) sub])
      show "visit_inv g (visiting @ [name]) (order, finished)" using 1(2) False by (auto simp: visit_inv_def)
      show "(v, d) \<in> (dep_rel g)\<^sup>+" if "v \<in> set (visiting @ [name])" "d \<in> set (sn_dependencies node)" for v d
        using that 1(6) [of v] dep by (auto intro: trancl_into_trancl)
    qed
    then show ?thesis using False nv n by auto
  qed simp
next
  case (3 g visiting d ds s)
  then obtain s1 where s1: "visit g visiting d s = Inr s1" by fastforce
  have "visit_inv g visiting s1" using visit_ok(1) [OF s1 3(3)] by simp
  with 3 s1 show ?case by auto
qed simp

lemma deps_first_no_cycle:
  assumes "deps_first g order" "set order = set (dict_keys g)" "distinct order"
  shows "acyclic (dep_rel g)"
proof -
  have pos: "\<exists>xs ys. order = xs @ a # ys" if "(a, d) \<in> dep_rel g" for a d
    using that assms(2) by (intro split_list) (force simp: dep_rel_def dest: map_of_SomeD)
  have step: "\<exists>xs ys. order = xs @ a # ys \<and> d \<in> set xs" if "(a, d) \<in> (dep_rel g)\<^sup>+" for a d
    using that
  proof induction
    case (base d)
    then show ?case using pos assms(1) by (metis deps_first_def)
  next
    case (step d e)
    then obtain xs ys where x: "order = xs @ a # ys" "d \<in> set xs" by blast
    then obtain us vs where "xs = us @ d # vs" by (meson split_list)
    then have "e \<in> set us" using assms(1) step(2) x(1) unfolding deps_first_def by (metis append.assoc append_Cons)
    then have "e \<in> set xs" using \<open>xs = us @ d # vs\<close> by simp
    then show ?case using x(1) by blast
  qed
  show ?thesis
  proof (rule acyclicI, rule allI, rule notI)
    fix a assume "(a, a) \<in> (dep_rel g)\<^sup>+"
    from step [OF this] obtain xs ys where x: "order = xs @ a # ys" "a \<in> set xs" by blast
    show False using x assms(3) by simp
  qed
qed
lemma visit_error:
  "visit g visiting name s = Inl e \<Longrightarrow> missing_dependencies g = {} \<Longrightarrow> name \<in> set (dict_keys g) \<Longrightarrow> e = ValueError ''stage dependency cycle''"
  "visit_all g visiting ds s = Inl e \<Longrightarrow> missing_dependencies g = {} \<Longrightarrow> set ds \<subseteq> set (dict_keys g) \<Longrightarrow> e = ValueError ''stage dependency cycle''"
proof (induction g visiting name s and g visiting ds s rule: visit_visit_all.induct)
  case (1 g visiting name order finished)
  have "dict_get g name \<noteq> None" using 1(4) by (simp add: map_of_eq_None_iff)
  with 1(2) consider "e = ValueError ''stage dependency cycle''"
    | node where "name \<notin> finished" "name \<notin> set visiting" "dict_get g name = Some node"
      "visit_all g (visiting @ [name]) (sn_dependencies node) (order, finished) = Inl e"
    by (auto simp: rbind_Inl_iff split: if_splits)
  then show ?case
  proof cases
    case 2
    have "set (sn_dependencies node) \<subseteq> set (dict_keys g)"
      using 1(3) map_of_SomeD [OF 2(3)] by (force simp: missing_dependencies_def)
    then show ?thesis using 1(1) [OF 2(1-4) 1(3)] by simp
  qed
qed (auto simp: rbind_Inl_iff)

lemma topological_order_Inr:
  assumes "topological_order g = Inr order"
  shows "visit_inv g [] (order, set order)" "set order = set (dict_keys g)" "missing_dependencies g = {}"
proof -
  from assms obtain fin where v: "visit_all g [] (dict_keys g) ([], {}) = Inr (order, fin)" and m: "missing_dependencies g = {}"
    by (auto simp: topological_order_def split: if_splits)
  have i: "visit_inv g [] (order, fin)" "set (dict_keys g) \<subseteq> fin"
    using visit_ok(2) [OF v] by (auto simp: visit_inv_def)
  then show "visit_inv g [] (order, set order)" "set order = set (dict_keys g)" "missing_dependencies g = {}"
    using m by (auto simp: visit_inv_def)
qed

section \<open>Selection and scopes\<close>

text \<open>
  Selections: \<open>None\<close> for an argument left out, \<open>Some None\<close> for one that is not a sequence (or is a
  string). Groups are compared by identity.
\<close>

definition group_in :: "contract_group \<Rightarrow> contract_group list \<Rightarrow> bool" where
  "group_in g gs = (cg_id g \<in> cg_id ` set gs)"

definition validated_stage_groups :: "contract_group attr list option option \<Rightarrow> contract_group list \<Rightarrow> contract_group list res" where
  "validated_stage_groups groups configured_groups = (case groups of
      None \<Rightarrow> Inr configured_groups
    | Some None \<Rightarrow> Inl (TypeError ''contract_groups must be a sequence of ContractGroup objects'')
    | Some (Some gs) \<Rightarrow>
        if gs = [] then Inl (ValueError ''requires at least one contract group'')
        else if \<not> list_all is_attr gs then Inl (TypeError ''contract_groups must contain only ContractGroup objects'')
        else let groups = [g. Attr g \<leftarrow> gs] in
          if \<not> list_all (\<lambda>g. group_in g configured_groups) groups
          then Inl (ValueError ''contract group is not configured for this strategy'') else Inr groups)"

definition validated_stage_names :: "pyval list option option \<Rightarrow> string list \<Rightarrow> string list res" where
  "validated_stage_names names registered_names = (case names of
      None \<Rightarrow> Inr registered_names
    | Some None \<Rightarrow> Inl (TypeError ''names must be a sequence of strings'')
    | Some (Some ns) \<Rightarrow>
        if \<not> list_all (\<lambda>v. case v of VStr _ \<Rightarrow> True | _ \<Rightarrow> False) ns then Inl (TypeError ''names must contain only strings'')
        else let ss = [s. VStr s \<leftarrow> ns] in
          if \<not> list_all (\<lambda>s. s \<in> set registered_names) ss then Inl (ValueError ''unknown names'')
          else Inr (rev (remdups (rev ss))))"

definition require_group_coverage :: "contract_group list \<Rightarrow> contract_group list \<Rightarrow> unit res" where
  "require_group_coverage consumer_groups dependency_groups =
     res_each (\<lambda>g. require (group_in g dependency_groups) (ValueError ''dependency is not registered for contract group'')) consumer_groups"

definition dict_item :: "(string, 'v) dict \<Rightarrow> string \<Rightarrow> 'v res" where
  "dict_item d k = (case dict_get d k of None \<Rightarrow> Inl (KeyError k) | Some v \<Rightarrow> Inr v)"

definition check_scope :: "(string, contract_group list) dict \<Rightarrow> (string, string list) dict \<Rightarrow> string \<times> contract_group list \<Rightarrow> unit res" where
  "check_scope dependency_groups dependencies = (\<lambda>(name, groups).
     rbind (dict_item dependencies name) (\<lambda>ds.
     res_each (\<lambda>d. rbind (dict_item dependency_groups d) (\<lambda>dgs. require_group_coverage groups dgs)) ds))"

definition validate_dependency_scopes :: "(string, contract_group list) dict \<Rightarrow> (string, string list) dict \<Rightarrow>
    (string, contract_group list) dict \<Rightarrow> (string, string list) dict \<Rightarrow> (string, string list) dict \<Rightarrow> unit res" where
  "validate_dependency_scopes indicator_groups indicator_dependencies signal_groups signal_indicator_dependencies signal_dependencies =
     rbind (res_each (check_scope indicator_groups indicator_dependencies) indicator_groups) (\<lambda>_.
     res_each (\<lambda>(name, groups). rbind (check_scope indicator_groups signal_indicator_dependencies (name, groups)) (\<lambda>_.
       check_scope signal_groups signal_dependencies (name, groups))) signal_groups)"

lemma check_scope_Inr:
  "check_scope dgs deps (name, groups) = Inr u \<longleftrightarrow>
     (\<exists>ds. dict_get deps name = Some ds \<and> (\<forall>d\<in>set ds. \<exists>gs. dict_get dgs d = Some gs \<and> (\<forall>g\<in>set groups. group_in g gs)))"
  by (auto simp: check_scope_def dict_item_def require_group_coverage_def res_each_Inr rbind_Inr_iff split: option.splits)

section \<open>Properties\<close>

text \<open>
  The stage order is a permutation of the stages in which every stage comes after all the
  stages it depends on, so a pipeline run in this order never reads a value that is not yet computed.
\<close>

lemma topological_order_sound:
  assumes "topological_order g = Inr order"
  shows "distinct order \<and> set order = set (dict_keys g) \<and>
    (\<forall>xs a ys n d. order = xs @ a # ys \<and> dict_get g a = Some n \<and> d \<in> set (sn_dependencies n) \<longrightarrow> d \<in> set xs)"
  using topological_order_Inr [OF assms] by (auto simp: visit_inv_def deps_first_def dep_rel_def)

definition example_graph :: stage_graph where
  "example_graph = [(''b'', \<lparr>sn_name = ''b'', sn_kind = ''signal'', sn_dependencies = [''a'', ''a'']\<rparr>),
     (''a'', \<lparr>sn_name = ''a'', sn_kind = ''indicator'', sn_dependencies = []\<rparr>)]"

lemma example_graph_order: "topological_order example_graph = Inr [''a'', ''b'']"
  by (simp add: topological_order_def missing_dependencies_def example_graph_def)

lemma topological_order_sound_instance:
  "topological_order example_graph = Inr [''a'', ''b''] \<and> distinct [''a'', ''b''] \<and> set [''a'', ''b''] = set (dict_keys example_graph)"
  using topological_order_sound [OF example_graph_order] example_graph_order by blast

text \<open>
  Claim C33. Ordering always ends with an answer: it returns an order exactly when every dependency
  is a stage and no stage depends on itself through others, and raises \<open>ValueError\<close> otherwise.
\<close>

theorem topological_order_complete:
  "case topological_order g of
     Inr order \<Rightarrow> (\<forall>n\<in>set (dict_values g). set (sn_dependencies n) \<subseteq> set (dict_keys g)) \<and> acyclic (dep_rel g)
   | Inl e \<Rightarrow> \<not> ((\<forall>n\<in>set (dict_values g). set (sn_dependencies n) \<subseteq> set (dict_keys g)) \<and> acyclic (dep_rel g)) \<and>
       e \<in> {ValueError ''stage dependencies are missing'', ValueError ''stage dependency cycle''}"
proof (cases "topological_order g")
  case (Inr order)
  note i = topological_order_Inr [OF Inr]
  show ?thesis using i deps_first_no_cycle [of g order] Inr by (auto simp: visit_inv_def missing_dependencies_def)
next
  case (Inl e)
  show ?thesis
  proof (cases "missing_dependencies g = {}")
    case False
    then show ?thesis using Inl by (auto simp: topological_order_def missing_dependencies_def)
  next
    case True
    then have v: "visit_all g [] (dict_keys g) ([], {}) = Inl e" using Inl by (auto simp: topological_order_def rbind_Inl_iff)
    have "\<not> acyclic (dep_rel g)"
      using visit_total(2) [of g "[]" "([], {})" "dict_keys g"] v True by (auto simp: visit_inv_def)
    then show ?thesis using Inl visit_error(2) [OF v True] by simp
  qed
qed

theorem topological_order_complete_witness:
  "acyclic (dep_rel example_graph)"
  using topological_order_complete [of example_graph] by (simp add: example_graph_order)

text \<open>
  Scope validation passes exactly when every indicator and every signal finds each of its
  dependencies registered for each contract group it runs on.
\<close>

lemma validate_dependency_scopes_exact:
  "validate_dependency_scopes igs ids sgs sids sds = Inr () \<longleftrightarrow>
     (\<forall>(name, groups)\<in>set igs. \<exists>ds. dict_get ids name = Some ds \<and>
        (\<forall>d\<in>set ds. \<exists>gs. dict_get igs d = Some gs \<and> (\<forall>g\<in>set groups. cg_id g \<in> cg_id ` set gs))) \<and>
     (\<forall>(name, groups)\<in>set sgs. (\<exists>ds. dict_get sids name = Some ds \<and>
        (\<forall>d\<in>set ds. \<exists>gs. dict_get igs d = Some gs \<and> (\<forall>g\<in>set groups. cg_id g \<in> cg_id ` set gs))) \<and>
       (\<exists>ds. dict_get sds name = Some ds \<and>
        (\<forall>d\<in>set ds. \<exists>gs. dict_get sgs d = Some gs \<and> (\<forall>g\<in>set groups. cg_id g \<in> cg_id ` set gs))))"
proof -
  have 1: "res_each (check_scope igs ids) igs = Inr () \<longleftrightarrow> (\<forall>(name, groups)\<in>set igs. \<exists>ds. dict_get ids name = Some ds \<and>
        (\<forall>d\<in>set ds. \<exists>gs. dict_get igs d = Some gs \<and> (\<forall>g\<in>set groups. group_in g gs)))"
    by (auto simp: res_each_Inr check_scope_Inr)
  show ?thesis
    unfolding validate_dependency_scopes_def rbind_Inr_iff
    by (simp add: 1 flip: group_in_def) (auto simp: res_each_Inr check_scope_Inr rbind_Inr_iff)
qed

lemma validate_dependency_scopes_exact_instance:
  "validate_dependency_scopes [(''i'', [DEFAULT_CG])] [(''i'', [])] [(''s'', [DEFAULT_CG])] [(''s'', [''i''])] [(''s'', [])] = Inr ()"
  unfolding validate_dependency_scopes_exact by simp

end
