(* ===== verification/Sparse_Iterations.thy ===== *)
theory Sparse_Iterations
  imports Prelude
begin

text \<open>
  The engine's schedule (\<open>sparse_iterations.py\<close>): a fixed number of timestamp buckets of which only
  the populated ones are stored, with Python's list indexing and slicing on the bucket views. The
  refinement theorem says that, for the outside, it is a plain list of lists.
\<close>

section \<open>Python list access\<close>

definition py_index :: "string \<Rightarrow> nat \<Rightarrow> int \<Rightarrow> nat res" where
  "py_index msg len i = (let j = (if i < 0 then i + int len else i) in
     if 0 \<le> j \<and> j < int len then Inr (nat j) else Inl (IndexError msg))"

datatype py_slice = Slice (sl_start: "int option") (sl_stop: "int option") (sl_step: "int option")

definition clamp_bound :: "int \<Rightarrow> int \<Rightarrow> int \<Rightarrow> int \<Rightarrow> int" where
  "clamp_bound len lower upper x = (if x < 0 then max lower (x + len) else min upper x)"

text \<open>\<open>slice.indices(len)\<close>.\<close>

definition slice_indices :: "py_slice \<Rightarrow> nat \<Rightarrow> (int \<times> int \<times> int) res" where
  "slice_indices sl n =
     (let len = int n; step = (case sl_step sl of None \<Rightarrow> 1 | Some k \<Rightarrow> k) in
      if step = 0 then Inl (ValueError ''slice step cannot be zero'')
      else let lower = (if step < 0 then - 1 else 0); upper = (if step < 0 then len - 1 else len) in
        Inr (case sl_start sl of None \<Rightarrow> if step < 0 then upper else lower | Some x \<Rightarrow> clamp_bound len lower upper x,
             case sl_stop sl of None \<Rightarrow> if step < 0 then lower else upper | Some x \<Rightarrow> clamp_bound len lower upper x,
             step))"

definition py_range :: "int \<times> int \<times> int \<Rightarrow> int list" where
  "py_range r = (case r of (start, stop, step) \<Rightarrow>
     map (\<lambda>k. start + int k * step) [0..<nat (if 0 < step then (stop - start + step - 1) div step else (start - stop - step - 1) div (- step))])"

definition list_set :: "int \<Rightarrow> 'a \<Rightarrow> 'a list \<Rightarrow> 'a list res" where
  "list_set i v xs = rbind (py_index ''list assignment index out of range'' (length xs) i) (\<lambda>j. Inr (xs[j := v]))"

definition list_del :: "int \<Rightarrow> 'a list \<Rightarrow> 'a list res" where
  "list_del i xs = rbind (py_index ''list assignment index out of range'' (length xs) i) (\<lambda>j. Inr (take j xs @ drop (Suc j) xs))"

definition list_insert :: "int \<Rightarrow> 'a \<Rightarrow> 'a list \<Rightarrow> 'a list" where
  "list_insert i v xs = (let j = nat (clamp_bound (int (length xs)) 0 (int (length xs)) i) in take j xs @ v # drop j xs)"

definition list_set_slice :: "py_slice \<Rightarrow> 'a list \<Rightarrow> 'a list \<Rightarrow> 'a list res" where
  "list_set_slice sl vs xs =
     rbind (slice_indices sl (length xs)) (\<lambda>(start, stop, step).
     if step = 1 then Inr (take (nat start) xs @ vs @ drop (nat (max start stop)) xs)
     else let idx = py_range (start, stop, step) in
       if length vs \<noteq> length idx then Inl (ValueError ''attempt to assign sequence to extended slice'')
       else Inr (fold (\<lambda>(i, v) ys. ys[nat i := v]) (zip idx vs) xs))"

definition list_del_slice :: "py_slice \<Rightarrow> 'a list \<Rightarrow> 'a list res" where
  "list_del_slice sl xs =
     rbind (slice_indices sl (length xs)) (\<lambda>r.
     Inr (map snd (filter (\<lambda>(i, _). int i \<notin> set (py_range r)) (zip [0..<length xs] xs))))"

definition list_get_slice :: "py_slice \<Rightarrow> 'a list \<Rightarrow> 'a list res" where
  "list_get_slice sl xs = rbind (slice_indices sl (length xs)) (\<lambda>r. Inr (map (\<lambda>i. xs ! nat i) (py_range r)))"

section \<open>Sparse buckets\<close>

record 'a sparse_iterations =
  si_size :: nat
  si_buckets :: "(nat, 'a list) dict"

definition maxsize :: int where "maxsize = 2 ^ 63 - 1"

definition si_init :: "int \<Rightarrow> 'a sparse_iterations res" where
  "si_init n = (if n < 0 \<or> maxsize < n then Inl (ValueError ''timestamp bucket count is outside the supported range'')
     else Inr \<lparr>si_size = nat n, si_buckets = []\<rparr>)"

definition populated_count :: "'a sparse_iterations \<Rightarrow> nat" where
  "populated_count s = length (si_buckets s)"

definition si_index :: "'a sparse_iterations \<Rightarrow> int \<Rightarrow> nat res" where
  "si_index s i = py_index ''timestamp bucket index out of range'' (si_size s) i"

definition bucket_of :: "'a sparse_iterations \<Rightarrow> nat \<Rightarrow> 'a list" where
  "bucket_of s i = (case dict_get (si_buckets s) i of None \<Rightarrow> [] | Some b \<Rightarrow> b)"

definition si_at :: "'a sparse_iterations \<Rightarrow> int \<Rightarrow> 'a list res" where
  "si_at s i = rbind (si_index s i) (\<lambda>j. Inr (bucket_of s j))"

definition append_at :: "int \<Rightarrow> 'a \<Rightarrow> 'a sparse_iterations \<Rightarrow> 'a sparse_iterations res" where
  "append_at i v s = rbind (si_index s i) (\<lambda>j.
     Inr (s\<lparr>si_buckets := dict_set j (bucket_of s j @ [v]) (si_buckets s)\<rparr>))"

definition si_replace :: "nat \<Rightarrow> 'a list \<Rightarrow> 'a sparse_iterations \<Rightarrow> 'a sparse_iterations" where
  "si_replace i vs s = s\<lparr>si_buckets := (if vs \<noteq> [] then dict_set i vs (si_buckets s) else AList.delete i (si_buckets s))\<rparr>"

definition getitem_slice :: "py_slice \<Rightarrow> 'a sparse_iterations \<Rightarrow> nat list res" where
  "getitem_slice sl s = rbind (slice_indices sl (si_size s)) (\<lambda>r. res_map (si_index s) (py_range r))"

text \<open>
  A bucket view: the owner and a normalised index. Each mutator copies the bucket, changes the copy
  and stores it back, dropping the entry when it became empty.
\<close>

definition bucket_modify :: "('a list \<Rightarrow> 'a list res) \<Rightarrow> nat \<Rightarrow> 'a sparse_iterations \<Rightarrow> 'a sparse_iterations res" where
  "bucket_modify f i s = rbind (si_at s (int i)) (\<lambda>values. rbind (f values) (\<lambda>values'. Inr (si_replace i values' s)))"

definition bucket_setitem :: "nat \<Rightarrow> int \<Rightarrow> 'a \<Rightarrow> 'a sparse_iterations \<Rightarrow> 'a sparse_iterations res" where
  "bucket_setitem i k v = bucket_modify (list_set k v) i"

definition bucket_setslice :: "nat \<Rightarrow> py_slice \<Rightarrow> 'a list \<Rightarrow> 'a sparse_iterations \<Rightarrow> 'a sparse_iterations res" where
  "bucket_setslice i sl vs = bucket_modify (list_set_slice sl vs) i"

definition bucket_delitem :: "nat \<Rightarrow> int \<Rightarrow> 'a sparse_iterations \<Rightarrow> 'a sparse_iterations res" where
  "bucket_delitem i k = bucket_modify (list_del k) i"

definition bucket_delslice :: "nat \<Rightarrow> py_slice \<Rightarrow> 'a sparse_iterations \<Rightarrow> 'a sparse_iterations res" where
  "bucket_delslice i sl = bucket_modify (list_del_slice sl) i"

definition bucket_insert :: "nat \<Rightarrow> int \<Rightarrow> 'a \<Rightarrow> 'a sparse_iterations \<Rightarrow> 'a sparse_iterations res" where
  "bucket_insert i k v = bucket_modify (\<lambda>xs. Inr (list_insert k v xs)) i"

definition bucket_append :: "nat \<Rightarrow> 'a \<Rightarrow> 'a sparse_iterations \<Rightarrow> 'a sparse_iterations res" where
  "bucket_append i v s = append_at (int i) v s"

definition bucket_getitem :: "nat \<Rightarrow> int \<Rightarrow> 'a sparse_iterations \<Rightarrow> 'a res" where
  "bucket_getitem i k s = rbind (si_at s (int i)) (\<lambda>xs. rbind (py_index ''list index out of range'' (length xs) k) (\<lambda>j. Inr (xs ! j)))"

section \<open>Refinement of a list of lists\<close>

definition si_ok :: "'a sparse_iterations \<Rightarrow> bool" where
  "si_ok s = (distinct (dict_keys (si_buckets s)) \<and> (\<forall>(i, b)\<in>set (si_buckets s). i < si_size s \<and> b \<noteq> []))"

definition buckets :: "'a sparse_iterations \<Rightarrow> 'a list list" where
  "buckets s = map (bucket_of s) [0..<si_size s]"

text \<open>One mutation through the schedule or a bucket view, on the sparse store and on plain lists.\<close>

datatype 'a bucket_op = AppendAt 'a | SetItem int 'a | SetSlice py_slice "'a list" | DelItem int | DelSlice py_slice | Insert int 'a

fun op_list :: "'a bucket_op \<Rightarrow> 'a list \<Rightarrow> 'a list res" where
  "op_list (AppendAt v) xs = Inr (xs @ [v])"
| "op_list (SetItem k v) xs = list_set k v xs"
| "op_list (SetSlice sl vs) xs = list_set_slice sl vs xs"
| "op_list (DelItem k) xs = list_del k xs"
| "op_list (DelSlice sl) xs = list_del_slice sl xs"
| "op_list (Insert k v) xs = Inr (list_insert k v xs)"

fun op_sparse :: "'a bucket_op \<Rightarrow> nat \<Rightarrow> 'a sparse_iterations \<Rightarrow> 'a sparse_iterations res" where
  "op_sparse (AppendAt v) i s = bucket_append i v s"
| "op_sparse (SetItem k v) i s = bucket_setitem i k v s"
| "op_sparse (SetSlice sl vs) i s = bucket_setslice i sl vs s"
| "op_sparse (DelItem k) i s = bucket_delitem i k s"
| "op_sparse (DelSlice sl) i s = bucket_delslice i sl s"
| "op_sparse (Insert k v) i s = bucket_insert i k v s"

definition sparse_call :: "int \<times> 'a bucket_op \<Rightarrow> 'a sparse_iterations \<Rightarrow> unit res \<times> 'a sparse_iterations" where
  "sparse_call c s = (case rbind (si_index s (fst c)) (\<lambda>i. op_sparse (snd c) i s) of Inl e \<Rightarrow> (Inl e, s) | Inr s' \<Rightarrow> (Inr (), s'))"

definition list_call :: "int \<times> 'a bucket_op \<Rightarrow> 'a list list \<Rightarrow> unit res \<times> 'a list list" where
  "list_call c bs = (case rbind (py_index ''timestamp bucket index out of range'' (length bs) (fst c)) (\<lambda>i.
      rbind (op_list (snd c) (bs ! i)) (\<lambda>b. Inr (bs[i := b]))) of Inl e \<Rightarrow> (Inl e, bs) | Inr bs' \<Rightarrow> (Inr (), bs'))"

lemma length_buckets [simp]: "length (buckets s) = si_size s"
  by (simp add: buckets_def)

lemma nth_buckets [simp]: "i < si_size s \<Longrightarrow> buckets s ! i = bucket_of s i"
  by (simp add: buckets_def)

lemma py_index_of_nat [simp]: "i < n \<Longrightarrow> py_index m n (int i) = Inr i"
  by (simp add: py_index_def)

lemma py_index_Inr: "py_index m n i = Inr j \<Longrightarrow> j < n"
  by (auto simp: py_index_def Let_def split: if_splits)

lemma bucket_of_replace: "bucket_of (si_replace i vs s) j = (if j = i then vs else bucket_of s j)"
  by (auto simp: bucket_of_def si_replace_def delete_conv')

lemma si_size_replace [simp]: "si_size (si_replace i vs s) = si_size s"
  by (simp add: si_replace_def)

lemma dict_set_subset: "set (dict_set k v d) \<subseteq> insert (k, v) (set d)"
  by (induction d) auto

lemma si_ok_replace:
  assumes "si_ok s" "i < si_size s" shows "si_ok (si_replace i vs s)"
proof (cases "vs = []")
  case True
  then show ?thesis using assms by (auto simp: si_ok_def si_replace_def AList.delete_eq distinct_map_filter)
next
  case False
  then show ?thesis using assms dict_set_subset [of i vs "si_buckets s"] by (auto simp: si_ok_def si_replace_def)
qed

lemma op_sparse_replace:
  assumes "i < si_size s"
  shows "op_sparse op i s = rbind (op_list op (bucket_of s i)) (\<lambda>b. Inr (si_replace i b s))"
  using assms
  by (cases op) (simp_all add: bucket_append_def append_at_def bucket_setitem_def bucket_setslice_def bucket_delitem_def
      bucket_delslice_def bucket_insert_def bucket_modify_def si_at_def si_index_def si_replace_def)

lemma buckets_replace: "i < si_size s \<Longrightarrow> buckets (si_replace i b s) = (buckets s)[i := b]"
  by (rule nth_equalityI) (simp_all add: nth_list_update bucket_of_replace si_size_replace)

lemma sparse_call_refines:
  assumes "si_ok s" "sparse_call c s = (r, s')"
  shows "si_ok s' \<and> si_size s' = si_size s \<and> list_call c (buckets s) = (r, buckets s')"
proof (cases "py_index ''timestamp bucket index out of range'' (si_size s) (fst c)")
  case (Inl e)
  then show ?thesis using assms by (simp add: sparse_call_def list_call_def si_index_def)
next
  case (Inr i)
  have i: "i < si_size s" by (rule py_index_Inr [OF Inr])
  show ?thesis
  proof (cases "op_list (snd c) (bucket_of s i)")
    case (Inl e)
    then show ?thesis using assms Inr i by (simp add: sparse_call_def list_call_def si_index_def op_sparse_replace)
  next
    case b: (Inr b)
    then have "r = Inr ()" "s' = si_replace i b s"
      using assms(2) Inr i by (simp_all add: sparse_call_def si_index_def op_sparse_replace)
    then show ?thesis using si_ok_replace [OF assms(1) i] buckets_replace [OF i] Inr b i
      by (simp add: list_call_def si_replace_def)
  qed
qed

fun run_calls :: "('c \<Rightarrow> 's \<Rightarrow> unit res \<times> 's) \<Rightarrow> 'c list \<Rightarrow> 's \<Rightarrow> unit res list \<times> 's" where
  "run_calls f [] s = ([], s)"
| "run_calls f (c # cs) s = (let (r, s') = f c s; (rs, t) = run_calls f cs s' in (r # rs, t))"

lemma run_calls_refines:
  assumes "si_ok s" "run_calls sparse_call cs s = (rs, t)"
  shows "si_ok t \<and> si_size t = si_size s \<and> run_calls list_call cs (buckets s) = (rs, buckets t)"
  using assms
proof (induction cs arbitrary: s rs)
  case (Cons c cs)
  obtain r s' where c: "sparse_call c s = (r, s')" by fastforce
  obtain qs u where q: "run_calls sparse_call cs s' = (qs, u)" by fastforce
  note h = sparse_call_refines [OF Cons.prems(1) c]
  then show ?case using Cons.IH [of s' qs] Cons.prems(2) c q by simp
qed simp

lemma populated_count_nonempty:
  assumes "si_ok s" shows "populated_count s = length (filter (\<lambda>b. b \<noteq> []) (buckets s))"
proof -
  have d: "distinct (dict_keys (si_buckets s))" using assms by (simp add: si_ok_def)
  have "i \<in> set (dict_keys (si_buckets s)) \<longleftrightarrow> i < si_size s \<and> bucket_of s i \<noteq> []" for i
  proof (cases "dict_get (si_buckets s) i")
    case None
    then show ?thesis by (simp add: bucket_of_def) (simp add: map_of_eq_None_iff)
  next
    case (Some b)
    then show ?thesis using assms map_of_SomeD [OF Some] by (force simp: bucket_of_def si_ok_def)
  qed
  then have "set (dict_keys (si_buckets s)) = set (filter (\<lambda>i. bucket_of s i \<noteq> []) [0..<si_size s])" by auto
  then have "length (dict_keys (si_buckets s)) = length (filter (\<lambda>i. bucket_of s i \<noteq> []) [0..<si_size s])"
    by (metis d distinct_card distinct_filter distinct_upt)
  then show ?thesis by (simp add: populated_count_def buckets_def filter_map comp_def)
qed

section \<open>Properties\<close>

text \<open>
  Claim C34. The sparse schedule is a list of lists: after any sequence of appends, insertions,
  replacements and deletions, by index or by slice, each call has raised or returned exactly as on a
  plain list of lists and the buckets read the same; and storage is kept for the non-empty buckets only.
\<close>

theorem sparse_iterations_refine_lists:
  assumes "si_init n = Inr s" "run_calls sparse_call cs s = (rs, t)"
  shows "run_calls list_call cs (replicate (nat n) []) = (rs, buckets t) \<and>
    populated_count t = length (filter (\<lambda>b. b \<noteq> []) (buckets t))"
proof -
  have s: "s = \<lparr>si_size = nat n, si_buckets = []\<rparr>" using assms(1) by (simp add: si_init_def split: if_splits)
  then have ok: "si_ok s" by (simp add: si_ok_def)
  have "buckets s = replicate (nat n) []" by (intro nth_equalityI) (simp_all add: s bucket_of_def)
  then show ?thesis using run_calls_refines [OF ok assms(2)] populated_count_nonempty by metis
qed

definition example_calls :: "(int \<times> nat bucket_op) list" where
  "example_calls = [(0, AppendAt 7), (- 1, AppendAt 8), (2, Insert 0 9), (0, DelItem (- 1)), (5, AppendAt 1), (- 1, SetSlice (Slice (Some 1) None None) [3, 4])]"

lemma example_calls_run:
  "\<exists>s rs t. si_init 3 = Inr s \<and> run_calls sparse_call example_calls s = (rs, t) \<and> buckets t = [[], [], [9, 3, 4]]"
  by (simp add: si_init_def maxsize_def example_calls_def sparse_call_def si_index_def py_index_def bucket_append_def append_at_def bucket_of_def
      bucket_insert_def bucket_modify_def si_at_def list_insert_def clamp_bound_def si_replace_def bucket_delitem_def list_del_def
      bucket_setslice_def list_set_slice_def slice_indices_def buckets_def upt_rec)

theorem sparse_iterations_refine_lists_witness:
  "\<exists>rs. run_calls list_call example_calls (replicate 3 []) = (rs, [[], [], [9, 3, 4]])"
  using example_calls_run sparse_iterations_refine_lists [where n = 3 and cs = example_calls] by auto

end
