(* ===== verification/Strategy_Stages.thy ===== *)
theory Strategy_Stages
  imports Stages Sparse_Iterations Callback_Contracts
begin

text \<open>
  The part of \<open>Strategy\<close> (\<open>strategy.py\<close>) that declares and runs the pipeline up to the rules:
  registration of indicators, signals and rules, the stage graph, the recursive evaluation of
  indicators and signals into per-group namespaces, and the schedule of rule calls. Callbacks are
  functions of what they are given. The recursion of \<open>run_indicators\<close> and \<open>run_signals\<close> into
  parents carries the interpreter's remaining call depth; the lemmas show how much is enough.
\<close>

section \<open>State\<close>

text \<open>
  Stage values are NumPy arrays: an element type and the elements (\<open>VNpBool\<close> for booleans,
  \<open>VNum\<close> for numbers). A namespace maps stage names to arrays; a \<open>defaultdict\<close> of namespaces is
  keyed by group name.
\<close>

datatype dtype = BoolDtype | IntDtype | FloatDtype | ObjectDtype

type_synonym stage_array = "dtype \<times> pyval list"
type_synonym stage_values = "(string, stage_array) dict"
type_synonym callback_array = "dtype \<times> pyval stage_result"
type_synonym indicator = "contract_group \<Rightarrow> grid \<Rightarrow> stage_values \<Rightarrow> callback_array res"
type_synonym signal = "contract_group \<Rightarrow> grid \<Rightarrow> stage_values \<Rightarrow> stage_values \<Rightarrow> callback_array res"

record rule_params =
  rp_indicator_values :: stage_values
  rp_signal_values :: stage_array
  rp_rule_name :: string

type_synonym 'r order_tup = "'r \<times> contract_group \<times> rule_params"

record 'r pipeline =
  pl_contract_groups :: "contract_group list"
  pl_timestamps :: grid
  pl_trade_lag :: nat
  pl_indicators :: "(string, indicator) dict"
  pl_indicator_functions :: "(string \<times> nat, indicator) dict"
  pl_indicator_deps :: "(string, string list) dict"
  pl_indicator_cgroups :: "(string, contract_group list) dict"
  pl_indicator_values :: "(string, stage_values) dict"
  pl_signals :: "(string, signal) dict"
  pl_signal_functions :: "(string \<times> nat, signal) dict"
  pl_signal_indicator_deps :: "(string, string list) dict"
  pl_signal_deps :: "(string, string list) dict"
  pl_signal_cgroups :: "(string, contract_group list) dict"
  pl_signal_values :: "(string, stage_values) dict"
  pl_rule_names :: "string list"
  pl_rules :: "(string, 'r) dict"
  pl_rule_signals :: "(string, string \<times> pyval list) dict"
  pl_position_filters :: "(string, string option) dict"
  pl_orders_iter :: "'r order_tup sparse_iterations option"

definition pipeline_init :: "contract_group list \<Rightarrow> grid \<Rightarrow> nat \<Rightarrow> 'r pipeline" where
  "pipeline_init groups ts lag = \<lparr>pl_contract_groups = groups, pl_timestamps = ts, pl_trade_lag = lag,
     pl_indicators = [], pl_indicator_functions = [], pl_indicator_deps = [], pl_indicator_cgroups = [], pl_indicator_values = [],
     pl_signals = [], pl_signal_functions = [], pl_signal_indicator_deps = [], pl_signal_deps = [], pl_signal_cgroups = [], pl_signal_values = [],
     pl_rule_names = [], pl_rules = [], pl_rule_signals = [], pl_position_filters = [], pl_orders_iter = None\<rparr>"

section \<open>Registration\<close>

definition dict_list :: "(string, 'v list) dict \<Rightarrow> string \<Rightarrow> 'v list" where
  "dict_list d k = (case dict_get d k of None \<Rightarrow> [] | Some vs \<Rightarrow> vs)"

definition setdefault :: "'k \<Rightarrow> 'v \<Rightarrow> ('k, 'v) dict \<Rightarrow> ('k, 'v) dict" where
  "setdefault k v d = (case dict_get d k of None \<Rightarrow> dict_set k v d | Some _ \<Rightarrow> d)"

text \<open>A second registration under a name must repeat the dependencies of the first.\<close>

definition same_dependencies :: "(string, string list) dict \<Rightarrow> string \<Rightarrow> string list \<Rightarrow> bool" where
  "same_dependencies d name deps = (case dict_get d name of None \<Rightarrow> True | Some ds \<Rightarrow> ds = deps)"

definition add_indicator :: "string \<Rightarrow> indicator attr \<Rightarrow> contract_group attr list option option \<Rightarrow> string list option
    \<Rightarrow> ('r, 'z) pipeline_scheme \<Rightarrow> ('r, 'z) pipeline_scheme res" where
  "add_indicator name indicator contract_groups depends_on self = (case indicator of
      Foreign _ \<Rightarrow> Inl (TypeError ''indicator must be callable'')
    | Attr f \<Rightarrow>
        rbind (validated_stage_groups contract_groups (pl_contract_groups self)) (\<lambda>validated_groups.
        let dependencies = (case depends_on of None \<Rightarrow> [] | Some ds \<Rightarrow> ds);
            existing_groups = dict_list (pl_indicator_cgroups self) name in
        rbind (require (\<not> list_ex (\<lambda>g. group_in g existing_groups) validated_groups)
           (ValueError ''indicator is already registered for one or more contract groups'')) (\<lambda>_.
        rbind (require (same_dependencies (pl_indicator_deps self) name dependencies)
           (ValueError ''indicator registrations must declare identical dependencies'')) (\<lambda>_.
        Inr (self\<lparr>pl_indicators := setdefault name f (pl_indicators self),
                  pl_indicator_deps := dict_set name dependencies (pl_indicator_deps self),
                  pl_indicator_cgroups := dict_set name (existing_groups @ validated_groups) (pl_indicator_cgroups self),
                  pl_indicator_functions := fold (\<lambda>g. dict_set (name, cg_id g) f) validated_groups (pl_indicator_functions self)\<rparr>)))))"

definition add_signal :: "string \<Rightarrow> signal attr \<Rightarrow> contract_group attr list option option \<Rightarrow> string list option \<Rightarrow> string list option
    \<Rightarrow> ('r, 'z) pipeline_scheme \<Rightarrow> ('r, 'z) pipeline_scheme res" where
  "add_signal name signal_function contract_groups depends_on_indicators depends_on_signals self = (case signal_function of
      Foreign _ \<Rightarrow> Inl (TypeError ''signal must be callable'')
    | Attr f \<Rightarrow>
        rbind (validated_stage_groups contract_groups (pl_contract_groups self)) (\<lambda>validated_groups.
        let indicator_dependencies = (case depends_on_indicators of None \<Rightarrow> [] | Some ds \<Rightarrow> ds);
            signal_dependencies = (case depends_on_signals of None \<Rightarrow> [] | Some ds \<Rightarrow> ds);
            existing_groups = dict_list (pl_signal_cgroups self) name in
        rbind (require (\<not> list_ex (\<lambda>g. group_in g existing_groups) validated_groups)
           (ValueError ''signal is already registered for one or more contract groups'')) (\<lambda>_.
        rbind (require (same_dependencies (pl_signal_indicator_deps self) name indicator_dependencies)
           (ValueError ''signal registrations must declare identical indicator dependencies'')) (\<lambda>_.
        rbind (require (same_dependencies (pl_signal_deps self) name signal_dependencies)
           (ValueError ''signal registrations must declare identical signal dependencies'')) (\<lambda>_.
        Inr (self\<lparr>pl_signals := setdefault name f (pl_signals self),
                  pl_signal_indicator_deps := dict_set name indicator_dependencies (pl_signal_indicator_deps self),
                  pl_signal_deps := dict_set name signal_dependencies (pl_signal_deps self),
                  pl_signal_cgroups := dict_set name (existing_groups @ validated_groups) (pl_signal_cgroups self),
                  pl_signal_functions := fold (\<lambda>g. dict_set (name, cg_id g) f) validated_groups (pl_signal_functions self)\<rparr>))))))"

text \<open>The empty filter counts as none.\<close>

definition add_rule :: "pyval \<Rightarrow> 'r attr \<Rightarrow> pyval \<Rightarrow> pyval list option \<Rightarrow> pyval
    \<Rightarrow> ('r, 'z) pipeline_scheme \<Rightarrow> ('r, 'z) pipeline_scheme res" where
  "add_rule name rule_function signal_name sig_true_values position_filter self = (case name of
      VStr n \<Rightarrow>
        rbind (require (n \<noteq> []) (ValueError ''rule name must be a non-empty string'')) (\<lambda>_.
        rbind (require (n \<notin> set (pl_rule_names self)) (ValueError ''rule is already registered'')) (\<lambda>_.
        case rule_function of
          Foreign _ \<Rightarrow> Inl (TypeError ''rule must be callable'')
        | Attr f \<Rightarrow> (case signal_name of
            VStr s \<Rightarrow>
              rbind (require (s \<noteq> []) (ValueError ''rule signal_name must be a non-empty string'')) (\<lambda>_.
              rbind (require (position_filter \<in> {VNone, VStr [], VStr ''zero'', VStr ''nonzero'', VStr ''positive'', VStr ''negative''})
                (ValueError ''invalid rule position_filter'')) (\<lambda>_.
              Inr (self\<lparr>pl_rule_names := pl_rule_names self @ [n],
                        pl_rule_signals := dict_set n (s, case sig_true_values of None \<Rightarrow> [VBool True] | Some vs \<Rightarrow> vs) (pl_rule_signals self),
                        pl_rules := dict_set n f (pl_rules self),
                        pl_position_filters := dict_set n (case position_filter of VStr p \<Rightarrow> if p = [] then None else Some p | _ \<Rightarrow> None)
                          (pl_position_filters self)\<rparr>)))
          | _ \<Rightarrow> Inl (ValueError ''rule signal_name must be a non-empty string''))))
    | _ \<Rightarrow> Inl (ValueError ''rule name must be a non-empty string''))"

section \<open>The stage graph\<close>

definition indicator_nodes :: "('r, 'z) pipeline_scheme \<Rightarrow> stage_node list res" where
  "indicator_nodes self = res_map (\<lambda>name. rbind (dict_item (pl_indicator_deps self) name) (\<lambda>ds.
     Inr \<lparr>sn_name = ''indicator:'' @ name, sn_kind = ''indicator'', sn_dependencies = map ((@) ''indicator:'') ds\<rparr>))
       (dict_keys (pl_indicators self))"

definition signal_nodes :: "('r, 'z) pipeline_scheme \<Rightarrow> stage_node list res" where
  "signal_nodes self = res_map (\<lambda>name. rbind (dict_item (pl_signal_indicator_deps self) name) (\<lambda>is. rbind (dict_item (pl_signal_deps self) name) (\<lambda>ss.
     Inr \<lparr>sn_name = ''signal:'' @ name, sn_kind = ''signal'',
          sn_dependencies = map ((@) ''indicator:'') is @ map ((@) ''signal:'') ss\<rparr>)))
       (dict_keys (pl_signals self))"

definition rule_nodes :: "('r, 'z) pipeline_scheme \<Rightarrow> stage_node list res" where
  "rule_nodes self = res_map (\<lambda>name. rbind (dict_item (pl_rule_signals self) name) (\<lambda>(signal_name, _).
     Inr \<lparr>sn_name = ''rule:'' @ name, sn_kind = ''rule'', sn_dependencies = [''signal:'' @ signal_name]\<rparr>)) (pl_rule_names self)"

definition execution_nodes :: "nat \<Rightarrow> string list \<Rightarrow> stage_node list" where
  "execution_nodes market_sims rule_dependencies =
     map (\<lambda>k. \<lparr>sn_name = ''execution:'' @ dec_of k, sn_kind = ''execution'', sn_dependencies = rule_dependencies\<rparr>) [0..<market_sims] @
     [\<lparr>sn_name = ''accounting:main'', sn_kind = ''accounting'',
       sn_dependencies = (if market_sims = 0 then rule_dependencies else map (\<lambda>k. ''execution:'' @ dec_of k) [0..<market_sims])\<rparr>]"

definition stage_graph :: "nat \<Rightarrow> ('r, 'z) pipeline_scheme \<Rightarrow> stage_graph res" where
  "stage_graph market_sims self =
     rbind (indicator_nodes self) (\<lambda>ins. rbind (signal_nodes self) (\<lambda>sigs. rbind (rule_nodes self) (\<lambda>rls.
     stage_graph_init (ins @ sigs @ rls @ execution_nodes market_sims (map ((@) ''rule:'') (pl_rule_names self))))))"

definition validate_stage_graph :: "nat \<Rightarrow> ('r, 'z) pipeline_scheme \<Rightarrow> string list res" where
  "validate_stage_graph market_sims self =
     rbind (rbind (stage_graph market_sims self) topological_order) (\<lambda>order.
     rbind (validate_dependency_scopes (pl_indicator_cgroups self) (pl_indicator_deps self)
        (pl_signal_cgroups self) (pl_signal_indicator_deps self) (pl_signal_deps self)) (\<lambda>_.
     Inr order))"

section \<open>Running indicators and signals\<close>

text \<open>
  \<open>indicator_values[name]\<close> on the \<open>defaultdict\<close> creates an absent namespace; \<open>hasattr\<close> and
  \<open>getattr\<close> on a namespace; \<open>select_values\<close> copies the attributes a callback is given into a
  fresh namespace.
\<close>

definition touch :: "string \<Rightarrow> (string, stage_values) dict \<Rightarrow> (string, stage_values) dict" where
  "touch g vals = setdefault g [] vals"

definition ns_has :: "(string, stage_values) dict \<Rightarrow> string \<Rightarrow> string \<Rightarrow> bool" where
  "ns_has vals g name = (case dict_get vals g of None \<Rightarrow> False | Some ns \<Rightarrow> dict_get ns name \<noteq> None)"

definition ns_getattr :: "(string, stage_values) dict \<Rightarrow> string \<Rightarrow> string \<Rightarrow> stage_array res" where
  "ns_getattr vals g name = (case dict_get (dict_list vals g) name of None \<Rightarrow> Inl (AttributeError name) | Some v \<Rightarrow> Inr v)"

definition ns_setattr :: "string \<Rightarrow> string \<Rightarrow> stage_array \<Rightarrow> (string, stage_values) dict \<Rightarrow> (string, stage_values) dict" where
  "ns_setattr g name v vals = dict_set g (dict_set name v (dict_list vals g)) vals"

definition select_values :: "(string, stage_values) dict \<Rightarrow> string \<Rightarrow> string list \<Rightarrow> stage_values res" where
  "select_values vals g names = res_fold (\<lambda>ns p. rbind (ns_getattr vals g p) (\<lambda>v. Inr (dict_set p v ns))) [] names"

definition validated_array :: "nat \<Rightarrow> callback_array \<Rightarrow> stage_array res" where
  "validated_array n = (\<lambda>(d, r). rbind (validate_stage_values n r) (\<lambda>xs. Inr (d, xs)))"

definition wrap_callback :: "string \<Rightarrow> 'a res \<Rightarrow> 'a res" where
  "wrap_callback msg r = (case r of
      Inl e \<Rightarrow> Inl (if is_exception e then BacktestCallbackError msg e else e)
    | Inr x \<Rightarrow> Inr x)"

definition in_scope_names :: "(string, contract_group list) dict \<Rightarrow> contract_group list \<Rightarrow> string list \<Rightarrow> string list res" where
  "in_scope_names cgroups contract_groups names =
     rbind (res_map (\<lambda>name. rbind (dict_item cgroups name) (\<lambda>stage_groups.
         Inr (if list_ex (\<lambda>g. group_in g stage_groups) contract_groups then [name] else []))) names) (\<lambda>ns. Inr (concat ns))"

text \<open>The body of the inner loop: \<open>rec\<close> is the recursive call for one parent on the same group.\<close>

definition indicator_step :: "(string \<Rightarrow> (('r, 'z) pipeline_scheme, unit) prog) \<Rightarrow> contract_group \<Rightarrow> string
    \<Rightarrow> (('r, 'z) pipeline_scheme, unit) prog" where
  "indicator_step rec g name =
     pbind (\<lambda>self. (dict_item (pl_indicator_deps self) name, self)) (\<lambda>parent_names.
     pbind (pforeach (\<lambda>p self. if ns_has (pl_indicator_values self) (cg_name g) p then (Inr (), self) else rec p self) parent_names) (\<lambda>_ self.
     if ns_has (pl_indicator_values self) (cg_name g) name then (Inr (), self)
     else case dict_get (pl_indicator_functions self) (name, cg_id g) of
         None \<Rightarrow> (Inl (KeyError name), self)
       | Some indicator_function \<Rightarrow>
           (case rbind (select_values (pl_indicator_values self) (cg_name g) parent_names) (\<lambda>parent_values.
                wrap_callback ''indicator callback failed''
                  (rbind (indicator_function g (pl_timestamps self) parent_values) (validated_array (length (pl_timestamps self))))) of
              Inl e \<Rightarrow> (Inl e, self)
            | Inr v \<Rightarrow> (Inr (), self\<lparr>pl_indicator_values := ns_setattr (cg_name g) name v (pl_indicator_values self)\<rparr>))))"

primrec run_indicators :: "nat \<Rightarrow> pyval list option option \<Rightarrow> contract_group attr list option option \<Rightarrow> bool
    \<Rightarrow> (('r, 'z) pipeline_scheme, unit) prog" where
  "run_indicators 0 indicator_names contract_groups clear_all = plift (Inl (RuntimeError ''maximum recursion depth exceeded''))"
| "run_indicators (Suc depth) indicator_names contract_groups clear_all =
     pbind (\<lambda>self. (validated_stage_names indicator_names (dict_keys (pl_indicators self)), self)) (\<lambda>names.
     pbind (\<lambda>self. (validated_stage_groups contract_groups (pl_contract_groups self), self)) (\<lambda>groups.
     pbind (pmodify (\<lambda>self. if clear_all then self\<lparr>pl_indicator_values := []\<rparr> else self)) (\<lambda>_.
     pbind (\<lambda>self. (in_scope_names (pl_indicator_cgroups self) groups names, self)) (\<lambda>names.
     pforeach (\<lambda>g.
       pbind (pmodify (\<lambda>self. self\<lparr>pl_indicator_values := touch (cg_name g) (pl_indicator_values self)\<rparr>)) (\<lambda>_.
       pforeach (indicator_step (\<lambda>p. run_indicators depth (Some (Some [VStr p])) (Some (Some [Attr g])) False) g) names)) groups))))"

definition signal_step :: "(string \<Rightarrow> (('r, 'z) pipeline_scheme, unit) prog) \<Rightarrow> contract_group \<Rightarrow> string
    \<Rightarrow> (('r, 'z) pipeline_scheme, unit) prog" where
  "signal_step rec g name =
     pbind (\<lambda>self. (dict_item (pl_signal_cgroups self) name, self)) (\<lambda>stage_groups.
     if cg_name g \<notin> cg_name ` set stage_groups then preturn ()
     else pbind (\<lambda>self. (dict_item (pl_signal_deps self) name, self)) (\<lambda>parent_names.
       pbind (pforeach (\<lambda>p self. if ns_has (pl_signal_values self) (cg_name g) p then (Inr (), self) else rec p self) parent_names) (\<lambda>_ self.
       if ns_has (pl_signal_values self) (cg_name g) name then (Inr (), self)
       else case dict_get (pl_signal_functions self) (name, cg_id g) of
           None \<Rightarrow> (Inl (KeyError name), self)
         | Some signal_function \<Rightarrow>
             pbind (pmodify (\<lambda>self. if parent_names = [] then self
                 else self\<lparr>pl_signal_values := touch (cg_name g) (pl_signal_values self)\<rparr>)) (\<lambda>_.
             pbind (\<lambda>self. (select_values (pl_signal_values self) (cg_name g) parent_names, self)) (\<lambda>parent_values.
             pbind (\<lambda>self. (dict_item (pl_signal_indicator_deps self) name, self)) (\<lambda>indicator_names.
             pbind (pmodify (\<lambda>self. if indicator_names = [] then self
                 else self\<lparr>pl_indicator_values := touch (cg_name g) (pl_indicator_values self)\<rparr>)) (\<lambda>_.
             pbind (\<lambda>self. (select_values (pl_indicator_values self) (cg_name g) indicator_names, self)) (\<lambda>indicator_values self.
             case wrap_callback ''signal callback failed''
                 (rbind (signal_function g (pl_timestamps self) indicator_values parent_values) (validated_array (length (pl_timestamps self)))) of
               Inl e \<Rightarrow> (Inl e, self)
             | Inr v \<Rightarrow> (Inr (), self\<lparr>pl_signal_values := ns_setattr (cg_name g) name v (pl_signal_values self)\<rparr>)))))) self)))"

primrec run_signals :: "nat \<Rightarrow> pyval list option option \<Rightarrow> contract_group attr list option option \<Rightarrow> bool
    \<Rightarrow> (('r, 'z) pipeline_scheme, unit) prog" where
  "run_signals 0 signal_names contract_groups clear_all = plift (Inl (RuntimeError ''maximum recursion depth exceeded''))"
| "run_signals (Suc depth) signal_names contract_groups clear_all =
     pbind (\<lambda>self. (validated_stage_names signal_names (dict_keys (pl_signals self)), self)) (\<lambda>names.
     pbind (\<lambda>self. (validated_stage_groups contract_groups (pl_contract_groups self), self)) (\<lambda>groups.
     pbind (pmodify (\<lambda>self. if clear_all then self\<lparr>pl_signal_values := []\<rparr> else self)) (\<lambda>_.
     pbind (\<lambda>self. (in_scope_names (pl_signal_cgroups self) groups names, self)) (\<lambda>names.
     pforeach (\<lambda>g. pforeach (signal_step (\<lambda>p. run_signals depth (Some (Some [VStr p])) (Some (Some [Attr g])) False) g) names) groups))))"

section \<open>The schedule of rule calls\<close>

definition null_value :: "dtype \<Rightarrow> pyval res" where
  "null_value d = (case d of
      BoolDtype \<Rightarrow> Inr (VNpBool False)
    | FloatDtype \<Rightarrow> Inr (VNum (NpFloat NaN))
    | ObjectDtype \<Rightarrow> Inr (VNum (PyFloat NaN))
    | IntDtype \<Rightarrow> Inl (ValueError ''cannot convert float NaN to integer''))"

text \<open>\<open>sig_values[lo:hi] = null_value\<close> on the copied array.\<close>

definition assign_null :: "nat \<Rightarrow> nat \<Rightarrow> stage_array \<Rightarrow> stage_array res" where
  "assign_null lo hi = (\<lambda>(d, xs). rbind (null_value d) (\<lambda>v.
     Inr (d, map (\<lambda>(k, x). if lo \<le> k \<and> k < hi then v else x) (enumerate 0 xs))))"

definition windowed :: "grid \<Rightarrow> datetime64 \<Rightarrow> datetime64 \<Rightarrow> stage_array \<Rightarrow> stage_array res" where
  "windowed ts start_date end_date sig =
     rbind (if isnat start_date then Inr sig else assign_null 0 (searchsorted_left ts (dt_ns start_date)) sig) (\<lambda>sig.
     if isnat end_date then Inr sig else assign_null (searchsorted_left ts (dt_ns end_date)) (length (snd sig)) sig)"

definition trigger_indices :: "nat \<Rightarrow> nat \<Rightarrow> pyval list \<Rightarrow> stage_array \<Rightarrow> nat list" where
  "trigger_indices num_timestamps trade_lag sig_true_values sig =
     (let indices = filter (\<lambda>k. list_ex (py_eq (snd sig ! k)) sig_true_values) [0..<min num_timestamps (length (snd sig))] in
      if indices \<noteq> [] \<and> last indices + 1 = length (snd sig) \<and> 0 < trade_lag then butlast indices else indices)"

definition schedule_rule :: "datetime64 \<Rightarrow> datetime64 \<Rightarrow> string \<Rightarrow> ('r, 'z) pipeline_scheme \<Rightarrow> contract_group
    \<Rightarrow> (nat list \<times> 'r order_tup) option res" where
  "schedule_rule start_date end_date rule_name self g =
     rbind (dict_item (pl_rules self) rule_name) (\<lambda>rule_function.
     rbind (dict_item (pl_rule_signals self) rule_name) (\<lambda>(signal_name, sig_true_values).
     rbind (dict_item (pl_signal_cgroups self) signal_name) (\<lambda>stage_groups.
     if cg_name g \<notin> cg_name ` set stage_groups then Inr None
     else rbind (require (dict_get (pl_signal_values self) (cg_name g) \<noteq> None) (PQException ''missing group in signal_values'')) (\<lambda>_.
       rbind (ns_getattr (pl_signal_values self) (cg_name g) signal_name) (\<lambda>sig.
       rbind (windowed (pl_timestamps self) start_date end_date sig) (\<lambda>sig_values.
       Inr (Some (trigger_indices (length (pl_timestamps self)) (pl_trade_lag self) sig_true_values sig_values,
         (rule_function, g, \<lparr>rp_indicator_values = dict_list (pl_indicator_values self) (cg_name g),
            rp_signal_values = sig_values, rp_rule_name = rule_name\<rparr>)))))))))"

primrec schedule_all :: "datetime64 \<Rightarrow> datetime64 \<Rightarrow> (string \<times> contract_group) list \<Rightarrow> 'r order_tup sparse_iterations
    \<Rightarrow> (('r, 'z) pipeline_scheme, 'r order_tup sparse_iterations) prog" where
  "schedule_all start_date end_date [] iters = preturn iters"
| "schedule_all start_date end_date (pair # pairs) iters =
     pbind (\<lambda>self. (schedule_rule start_date end_date (fst pair) self (snd pair), self)) (\<lambda>s. case s of
         None \<Rightarrow> schedule_all start_date end_date pairs iters
       | Some (indices, tup) \<Rightarrow>
           pbind (pmodify (\<lambda>self. self\<lparr>pl_indicator_values := touch (cg_name (snd pair)) (pl_indicator_values self)\<rparr>)) (\<lambda>_.
           pbind (plift (res_fold (\<lambda>iters idx. append_at (int idx) tup iters) iters indices)) (\<lambda>iters.
           schedule_all start_date end_date pairs iters)))"

definition generate_order_iterations :: "(string \<Rightarrow> datetime64 option) \<Rightarrow> string list option \<Rightarrow> contract_group list option
    \<Rightarrow> date_arg \<Rightarrow> date_arg \<Rightarrow> (('r, 'z) pipeline_scheme, unit) prog" where
  "generate_order_iterations parse rule_names contract_groups start end =
     pbind (plift (validate_date_range parse start end)) (\<lambda>(start_date, end_date).
     pbind (pgets (\<lambda>self. (case rule_names of None \<Rightarrow> pl_rule_names self | Some ns \<Rightarrow> ns,
                           case contract_groups of None \<Rightarrow> pl_contract_groups self | Some gs \<Rightarrow> gs))) (\<lambda>(names, groups).
     pbind (\<lambda>self. (si_init (int (length (pl_timestamps self))), self)) (\<lambda>iters.
     pbind (schedule_all start_date end_date [(n, g). n \<leftarrow> names, g \<leftarrow> groups] iters) (\<lambda>iters.
     pmodify (\<lambda>self. self\<lparr>pl_orders_iter := Some iters\<rparr>)))))"

section \<open>Facts about the schedule\<close>

text \<open>A rule call is due: the signal of the rule has a trigger value, inside the date window.\<close>

definition in_window :: "datetime64 \<Rightarrow> datetime64 \<Rightarrow> int \<Rightarrow> bool" where
  "in_window start_date end_date t =
     ((case dt_ns start_date of None \<Rightarrow> True | Some s \<Rightarrow> s \<le> t) \<and> (case dt_ns end_date of None \<Rightarrow> True | Some e \<Rightarrow> t < e))"

definition due :: "('r, 'z) pipeline_scheme \<Rightarrow> datetime64 \<Rightarrow> datetime64 \<Rightarrow> nat \<Rightarrow> string \<times> contract_group \<Rightarrow> bool" where
  "due self start_date end_date i = (\<lambda>(name, g). \<exists>sn trig d xs.
     dict_get (pl_rule_signals self) name = Some (sn, trig) \<and> cg_name g \<in> cg_name ` set (dict_list (pl_signal_cgroups self) sn) \<and>
     dict_get (dict_list (pl_signal_values self) (cg_name g)) sn = Some (d, xs) \<and> list_ex (py_eq (xs ! i)) trig \<and>
     in_window start_date end_date (pl_timestamps self ! i) \<and> (pl_trade_lag self = 0 \<or> i + 1 < length (pl_timestamps self)))"

text \<open>No trigger value of the rule equals \<open>False\<close>, the value that masks a boolean signal.\<close>

definition unmasked :: "('r, 'z) pipeline_scheme \<Rightarrow> string \<Rightarrow> bool" where
  "unmasked self name = (case dict_get (pl_rule_signals self) name of
     None \<Rightarrow> True | Some (_, trig) \<Rightarrow> \<not> list_ex (py_eq (VNpBool False)) trig)"

definition values_ok :: "nat \<Rightarrow> (string, stage_values) dict \<Rightarrow> bool" where
  "values_ok n vals = (\<forall>g ns name v. dict_get vals g = Some ns \<longrightarrow> dict_get ns name = Some v \<longrightarrow> length (snd v) = n)"

lemma dict_item_Inr [simp]: "dict_item d k = Inr v \<longleftrightarrow> dict_get d k = Some v"
  by (simp add: dict_item_def split: option.splits)

lemma dict_item_Some [simp]: "dict_get d k = Some v \<Longrightarrow> dict_item d k = Inr v"
  by simp

lemma py_eq_nan [simp]: "\<not> py_eq (VNum (NpFloat NaN)) v" "\<not> py_eq (VNum (PyFloat NaN)) v"
  by (auto simp: py_eq_def as_number_def num_eq_def num_operands_def f_eq_def split: option.splits)

lemma null_value_Inr: "null_value d = Inr v \<Longrightarrow> v = VNpBool False \<or> (\<forall>x. \<not> py_eq v x)"
  by (auto simp: null_value_def split: dtype.splits)

lemma assign_null_Inr:
  assumes "assign_null lo hi sig = Inr sig'" "\<not> list_ex (py_eq (VNpBool False)) trig"
  shows "length (snd sig') = length (snd sig)"
    "k < length (snd sig) \<Longrightarrow> list_ex (py_eq (snd sig' ! k)) trig \<longleftrightarrow> \<not> (lo \<le> k \<and> k < hi) \<and> list_ex (py_eq (snd sig ! k)) trig"
proof -
  from assms(1) obtain v where v: "null_value (fst sig) = Inr v"
    "snd sig' = map (\<lambda>(k, x). if lo \<le> k \<and> k < hi then v else x) (enumerate 0 (snd sig))"
    by (auto simp: assign_null_def split: prod.splits)
  show "length (snd sig') = length (snd sig)" using v(2) by simp
  have "\<not> list_ex (py_eq v) trig" using null_value_Inr [OF v(1)] assms(2) by (auto simp: list_ex_iff)
  then show "k < length (snd sig) \<Longrightarrow> list_ex (py_eq (snd sig' ! k)) trig \<longleftrightarrow> \<not> (lo \<le> k \<and> k < hi) \<and> list_ex (py_eq (snd sig ! k)) trig"
    using v(2) by (auto simp: nth_enumerate_eq)
qed

lemma searchsorted_left_index:
  assumes "strictly_increasing ts" "k < length ts"
  shows "k < searchsorted_left ts (Some x) \<longleftrightarrow> ts ! k < x"
proof
  assume "k < searchsorted_left ts (Some x)"
  then have "k < length (takeWhile (\<lambda>s. s < x) ts)" by (simp add: searchsorted_left_def)
  then show "ts ! k < x" by (metis nth_mem set_takeWhileD takeWhile_nth)
next
  assume "ts ! k < x"
  then have "\<forall>j \<le> k. ts ! j < x"
    using assms by (metis le_neq_implies_less less_trans sorted_wrt_nth_less strictly_increasing_def)
  then have "\<forall>s\<in>set (take (Suc k) ts). s < x" by (auto simp: in_set_conv_nth)
  then have "takeWhile (\<lambda>s. s < x) (take (Suc k) ts @ drop (Suc k) ts) = take (Suc k) ts @ takeWhile (\<lambda>s. s < x) (drop (Suc k) ts)"
    by (intro takeWhile_append2) blast
  then have "Suc k \<le> length (takeWhile (\<lambda>s. s < x) ts)" using assms(2) by simp
  then show "k < searchsorted_left ts (Some x)" by (simp add: searchsorted_left_def)
qed

lemma windowed_Inr:
  assumes "windowed ts s e sig = Inr sig'" "strictly_increasing ts" "length (snd sig) = length ts"
    and no: "\<not> list_ex (py_eq (VNpBool False)) trig"
  shows "length (snd sig') = length ts"
    and "k < length ts \<Longrightarrow> list_ex (py_eq (snd sig' ! k)) trig \<longleftrightarrow> list_ex (py_eq (snd sig ! k)) trig \<and> in_window s e (ts ! k)"
proof -
  from assms(1) obtain m where
    m: "(if isnat s then Inr sig else assign_null 0 (searchsorted_left ts (dt_ns s)) sig) = Inr m"
    and w: "(if isnat e then Inr m else assign_null (searchsorted_left ts (dt_ns e)) (length (snd m)) m) = Inr sig'"
    by (auto simp: windowed_def)
  have lm: "length (snd m) = length ts" using m assign_null_Inr(1) [OF _ no] assms(3) by (auto split: if_splits)
  then show "length (snd sig') = length ts" using w assign_null_Inr(1) [OF _ no] by (auto split: if_splits)
  show "list_ex (py_eq (snd sig' ! k)) trig \<longleftrightarrow> list_ex (py_eq (snd sig ! k)) trig \<and> in_window s e (ts ! k)" if k: "k < length ts"
  proof -
    have "list_ex (py_eq (snd m ! k)) trig \<longleftrightarrow> list_ex (py_eq (snd sig ! k)) trig \<and> (case dt_ns s of None \<Rightarrow> True | Some x \<Rightarrow> x \<le> ts ! k)"
      using m assign_null_Inr(2) [OF _ no, where k = k and sig = sig] searchsorted_left_index [OF assms(2) k] assms(3) k
      by (cases "dt_ns s") (auto simp: isnat_def)
    moreover have "list_ex (py_eq (snd sig' ! k)) trig \<longleftrightarrow> list_ex (py_eq (snd m ! k)) trig \<and> (case dt_ns e of None \<Rightarrow> True | Some x \<Rightarrow> ts ! k < x)"
      using w assign_null_Inr(2) [OF _ no, where k = k and sig = m and sig' = sig'] searchsorted_left_index [OF assms(2) k] lm k
      by (cases "dt_ns e") (auto simp: isnat_def simp flip: not_le)
    ultimately show ?thesis by (auto simp: in_window_def)
  qed
qed

lemma trigger_indices_set:
  assumes "length (snd sig) = n"
  shows "i \<in> set (trigger_indices n lag trig sig) \<longleftrightarrow> i < n \<and> list_ex (py_eq (snd sig ! i)) trig \<and> (lag = 0 \<or> i + 1 < n)"
    and "distinct (trigger_indices n lag trig sig)"
proof -
  let ?is = "filter (\<lambda>k. list_ex (py_eq (snd sig ! k)) trig) [0..<n]"
  have d: "distinct ?is" by simp
  show "distinct (trigger_indices n lag trig sig)" using d assms by (simp add: trigger_indices_def Let_def distinct_butlast)
  have mem: "i \<in> set ?is \<longleftrightarrow> i < n \<and> list_ex (py_eq (snd sig ! i)) trig" by auto
  show "i \<in> set (trigger_indices n lag trig sig) \<longleftrightarrow> i < n \<and> list_ex (py_eq (snd sig ! i)) trig \<and> (lag = 0 \<or> i + 1 < n)"
  proof (cases "?is" rule: rev_cases)
    case Nil
    then show ?thesis using assms mem by (auto simp: trigger_indices_def Let_def)
  next
    case (snoc ys y)
    have "sorted (ys @ [y])" unfolding snoc [symmetric] by (simp add: sorted_wrt_filter)
    then have le: "\<forall>k\<in>set ys. k < y" using d unfolding snoc by (auto simp: sorted_append order.strict_iff_order)
    then have "y \<notin> set ys" by blast
    moreover have "y < n" using arg_cong [OF snoc, of set] by auto
    moreover have "trigger_indices n lag trig sig = (if y + 1 = n \<and> 0 < lag then ys else ys @ [y])"
      using assms snoc by (simp add: trigger_indices_def Let_def)
    ultimately show ?thesis using mem le unfolding snoc by auto
  qed
qed

lemma append_all:
  assumes "distinct is" "\<forall>i\<in>set is. i < si_size iters"
  shows "\<exists>iters'. res_fold (\<lambda>iters idx. append_at (int idx) tup iters) iters is = Inr iters' \<and> si_size iters' = si_size iters \<and>
    (\<forall>j. bucket_of iters' j = bucket_of iters j @ (if j \<in> set is then [tup] else []))"
  using assms
proof (induction "is" arbitrary: iters)
  case (Cons i "is")
  let ?it = "iters\<lparr>si_buckets := dict_set i (bucket_of iters i @ [tup]) (si_buckets iters)\<rparr>"
  have a: "append_at (int i) tup iters = Inr ?it" using Cons.prems by (simp add: append_at_def si_index_def)
  have b: "bucket_of ?it j = bucket_of iters j @ (if j = i then [tup] else [])" for j
    by (simp add: bucket_of_def update_conv')
  from Cons.IH [of ?it] Cons.prems obtain it' where
    "res_fold (\<lambda>iters idx. append_at (int idx) tup iters) ?it is = Inr it'" "si_size it' = si_size iters"
    "\<forall>j. bucket_of it' j = bucket_of ?it j @ (if j \<in> set is then [tup] else [])" by auto
  then show ?case using a b Cons.prems(1) by (intro exI [of _ it']) auto
qed simp

lemma schedule_rule_Inr:
  assumes "schedule_rule s e name self g = Inr r" "strictly_increasing (pl_timestamps self)"
    "values_ok (length (pl_timestamps self)) (pl_signal_values self)"
    "unmasked self name"
  shows "case r of None \<Rightarrow> \<forall>i. \<not> due self s e i (name, g)
    | Some (is, f, g', p) \<Rightarrow> distinct is \<and> (\<forall>i. i \<in> set is \<longleftrightarrow> i < length (pl_timestamps self) \<and> due self s e i (name, g)) \<and>
        dict_get (pl_rules self) name = Some f \<and> g' = g \<and> rp_rule_name p = name"
proof -
  let ?n = "length (pl_timestamps self)"
  from assms(1) obtain f sn trig gs where f: "dict_get (pl_rules self) name = Some f"
    and sn: "dict_get (pl_rule_signals self) name = Some (sn, trig)" and gs: "dict_get (pl_signal_cgroups self) sn = Some gs"
    by (auto simp: schedule_rule_def split: prod.splits)
  show ?thesis
  proof (cases "cg_name g \<in> cg_name ` set gs")
    case False
    then have "r = None" using assms(1) f sn gs by (simp add: schedule_rule_def)
    then show ?thesis using False sn gs by (auto simp: due_def dict_list_def)
  next
    case True
    then obtain ns sig sig' where ns: "dict_get (pl_signal_values self) (cg_name g) = Some ns"
      and sig: "dict_get ns sn = Some sig" and w: "windowed (pl_timestamps self) s e sig = Inr sig'"
      and r: "r = Some (trigger_indices ?n (pl_trade_lag self) trig sig',
         (f, g, \<lparr>rp_indicator_values = dict_list (pl_indicator_values self) (cg_name g), rp_signal_values = sig', rp_rule_name = name\<rparr>))"
      using assms(1) f sn gs by (auto simp: schedule_rule_def ns_getattr_def dict_list_def split: option.splits)
    have len: "length (snd sig) = ?n" using assms(3) ns sig unfolding values_ok_def by blast
    have "\<not> list_ex (py_eq (VNpBool False)) trig" using assms(4) sn by (simp add: unmasked_def)
    note w = windowed_Inr [OF w assms(2) len this]
    have "due self s e i (name, g) \<longleftrightarrow> list_ex (py_eq (snd sig ! i)) trig \<and> in_window s e (pl_timestamps self ! i) \<and>
        (pl_trade_lag self = 0 \<or> i + 1 < ?n)" for i
      using True sn gs ns sig by (cases sig) (auto simp: due_def dict_list_def)
    then show ?thesis using r f trigger_indices_set [OF w(1), where lag = "pl_trade_lag self" and trig = trig] w(2) by auto
  qed
qed

definition call_of :: "'r order_tup \<Rightarrow> 'r \<times> contract_group \<times> string" where
  "call_of = (\<lambda>(f, g, p). (f, g, rp_rule_name p))"

definition call_for :: "('r, 'z) pipeline_scheme \<Rightarrow> string \<times> contract_group \<Rightarrow> 'r \<times> contract_group \<times> string" where
  "call_for self = (\<lambda>(name, g). (the (dict_get (pl_rules self) name), g, name))"

lemma touch_frame [simp]:
  "due (self\<lparr>pl_indicator_values := v\<rparr>) = due self" "call_for (self\<lparr>pl_indicator_values := v\<rparr>) = call_for self"
  "unmasked (self\<lparr>pl_indicator_values := v\<rparr>) = unmasked self"
  by (simp_all add: due_def call_for_def unmasked_def fun_eq_iff)

lemma schedule_step:
  assumes a: "schedule_all s e ((name, g) # pairs) iters self = (Inr iters', self')"
    and b: "strictly_increasing (pl_timestamps self)" "values_ok (length (pl_timestamps self)) (pl_signal_values self)"
    and c: "si_size iters = length (pl_timestamps self)" and n: "unmasked self name"
  obtains it v where "schedule_all s e pairs it (self\<lparr>pl_indicator_values := v\<rparr>) = (Inr iters', self')" "si_size it = si_size iters"
    "\<And>i. i < si_size iters \<Longrightarrow>
       map call_of (bucket_of it i) = map call_of (bucket_of iters i) @ map (call_for self) (filter (due self s e i) [(name, g)])"
proof -
  from a obtain r where r: "schedule_rule s e name self g = Inr r" by auto
  note R = schedule_rule_Inr [OF r b n]
  show ?thesis
  proof (cases r)
    case None
    then have "schedule_all s e pairs iters (self\<lparr>pl_indicator_values := pl_indicator_values self\<rparr>) = (Inr iters', self')"
      using a r by (simp add: pbind_def)
    then show ?thesis using R None by (intro that [of iters "pl_indicator_values self"]) auto
  next
    case (Some x)
    obtain "is" f p where x: "r = Some (is, f, g, p)" using R Some by (cases x) auto
    have "\<forall>i\<in>set is. i < si_size iters" "distinct is" using R x c by auto
    from append_all [OF this(2,1), of "(f, g, p)"] obtain it where
      it: "res_fold (\<lambda>iters idx. append_at (int idx) (f, g, p) iters) iters is = Inr it" "si_size it = si_size iters"
      "\<forall>j. bucket_of it j = bucket_of iters j @ (if j \<in> set is then [(f, g, p)] else [])" by blast
    have "schedule_all s e pairs it (self\<lparr>pl_indicator_values := touch (cg_name g) (pl_indicator_values self)\<rparr>) = (Inr iters', self')"
      using a r x it(1) by (simp add: pbind_def)
    then show ?thesis using it R x c by (intro that [of it]) (auto simp: call_of_def call_for_def)
  qed
qed

lemma schedule_all_Inr:
  assumes "schedule_all s e pairs iters self = (Inr iters', self')" "strictly_increasing (pl_timestamps self)"
    "values_ok (length (pl_timestamps self)) (pl_signal_values self)" "si_size iters = length (pl_timestamps self)"
    "\<forall>(name, g)\<in>set pairs. unmasked self name"
  shows "(\<exists>v. self' = self\<lparr>pl_indicator_values := v\<rparr>) \<and> si_size iters' = si_size iters \<and>
    (\<forall>i < si_size iters. map call_of (bucket_of iters' i) = map call_of (bucket_of iters i) @ map (call_for self) (filter (due self s e i) pairs))"
  using assms
proof (induction pairs arbitrary: iters self)
  case Nil
  then show ?case by (auto intro: exI [of _ "pl_indicator_values self"])
next
  case (Cons pair pairs)
  obtain name g where pair: "pair = (name, g)" by fastforce
  from schedule_step [OF Cons.prems(1) [unfolded pair] Cons.prems(2-4)] Cons.prems(5) pair obtain it v where
    it: "schedule_all s e pairs it (self\<lparr>pl_indicator_values := v\<rparr>) = (Inr iters', self')" "si_size it = si_size iters"
    "\<And>i. i < si_size iters \<Longrightarrow>
       map call_of (bucket_of it i) = map call_of (bucket_of iters i) @ map (call_for self) (filter (due self s e i) [(name, g)])"
    by auto
  have "(\<exists>w. self' = self\<lparr>pl_indicator_values := v, pl_indicator_values := w\<rparr>) \<and> si_size iters' = si_size it \<and>
    (\<forall>i < si_size it. map call_of (bucket_of iters' i) = map call_of (bucket_of it i) @ map (call_for self) (filter (due self s e i) pairs))"
    using Cons.IH [OF it(1)] Cons.prems(2-5) it(2) by simp
  then show ?case using it(2,3) pair by auto
qed

section \<open>The graph orders the indicators\<close>

lemma length_dict_set_old: "dict_get d k \<noteq> None \<Longrightarrow> length (dict_set k v d) = length d"
  by (induction d) auto

lemma dict_get_key: "dict_get d k = Some v \<Longrightarrow> k \<in> set (dict_keys d)"
  by (force dest: map_of_SomeD)

lemma stage_graph_init_Inr:
  assumes "stage_graph_init nodes = Inr g"
  shows "g = map (\<lambda>n. (sn_name n, n)) nodes" "distinct (map sn_name nodes)"
proof -
  let ?F = "\<lambda>nodes. fold (\<lambda>n d. dict_set (sn_name n) n d) nodes []"
  have "length (?F nodes) \<le> length nodes \<and>
    (length (?F nodes) = length nodes \<longrightarrow> ?F nodes = map (\<lambda>n. (sn_name n, n)) nodes \<and> distinct (map sn_name nodes))"
  proof (induction nodes rule: rev_induct)
    case (snoc n nodes)
    show ?case
    proof (cases "dict_get (?F nodes) (sn_name n)")
      case None
      then have "length (?F nodes) = length nodes \<longrightarrow> sn_name n \<notin> sn_name ` set nodes"
        using snoc by (auto simp: map_of_eq_None_iff image_image)
      then show ?thesis using snoc None by (auto simp: dict_values_set_new)
    next
      case (Some m)
      then have "length (dict_set (sn_name n) n (?F nodes)) = length (?F nodes)"
        by (intro length_dict_set_old) simp
      then show ?thesis using snoc by auto
    qed
  qed simp
  then show "g = map (\<lambda>n. (sn_name n, n)) nodes" "distinct (map sn_name nodes)"
    using assms by (auto simp: stage_graph_init_def Let_def split: if_splits)
qed

lemma res_map_mem:
  assumes "res_map f xs = Inr ys"
  shows "x \<in> set xs \<Longrightarrow> \<exists>y\<in>set ys. f x = Inr y" "y \<in> set ys \<Longrightarrow> \<exists>x\<in>set xs. f x = Inr y"
  using assms by (auto simp: res_map_Inr_conv list_all2_conv_all_nth in_set_conv_nth) (metis nth_mem)

lemma stage_graph_nodes:
  assumes "stage_graph k self = Inr g"
  shows "name \<in> set (dict_keys (pl_indicators self)) \<Longrightarrow> dict_get (pl_indicator_deps self) name = Some ds \<Longrightarrow>
      \<exists>node. dict_get g (''indicator:'' @ name) = Some node \<and> sn_dependencies node = map ((@) ''indicator:'') ds"
    and "''indicator:'' @ name \<in> set (dict_keys g) \<Longrightarrow> name \<in> set (dict_keys (pl_indicators self))"
proof -
  from assms obtain ins sigs rls where
    i: "indicator_nodes self = Inr ins" and s: "signal_nodes self = Inr sigs" and r: "rule_nodes self = Inr rls"
    and g: "stage_graph_init (ins @ sigs @ rls @ execution_nodes k (map ((@) ''rule:'') (pl_rule_names self))) = Inr g"
    by (auto simp: stage_graph_def)
  note G = stage_graph_init_Inr [OF g]
  note I = res_map_mem [OF i [unfolded indicator_nodes_def]] and S = res_map_mem(2) [OF s [unfolded signal_nodes_def]]
    and R = res_map_mem(2) [OF r [unfolded rule_nodes_def]]
  show "\<exists>node. dict_get g (''indicator:'' @ name) = Some node \<and> sn_dependencies node = map ((@) ''indicator:'') ds"
    if "name \<in> set (dict_keys (pl_indicators self))" "dict_get (pl_indicator_deps self) name = Some ds"
  proof -
    from I(1) [OF that(1)] that(2) obtain node where
      node: "node \<in> set ins" "sn_name node = ''indicator:'' @ name" "sn_dependencies node = map ((@) ''indicator:'') ds" by auto
    then have "(''indicator:'' @ name, node) \<in> set g" using G(1) by force
    moreover have "distinct (dict_keys g)" using G by (simp add: o_def)
    ultimately show ?thesis using node(3) by (metis map_of_eq_Some_iff)
  qed
  show "name \<in> set (dict_keys (pl_indicators self))" if "''indicator:'' @ name \<in> set (dict_keys g)"
  proof -
    define ex where "ex = execution_nodes k (map ((@) ''rule:'') (pl_rule_names self))"
    have "set (dict_keys g) = sn_name ` set (ins @ sigs @ rls @ ex)" unfolding G(1) ex_def by (simp add: image_Un image_image)
    with that have "''indicator:'' @ name \<in> sn_name ` set (ins @ sigs @ rls @ ex)" by (simp only:)
    then obtain node where node: "node \<in> set (ins @ sigs @ rls @ ex)" "sn_name node = ''indicator:'' @ name"
      unfolding image_iff by metis
    then have "node \<in> set ins" by (auto dest!: S R simp: ex_def execution_nodes_def split: prod.splits)
    from I(2) [OF this] node(2) show ?thesis by (auto intro: rev_image_eqI)
  qed
qed

definition rank :: "string list \<Rightarrow> string \<Rightarrow> nat" where
  "rank order name = length (takeWhile (\<lambda>y. y \<noteq> name) order)"

lemma rank_first: "a \<notin> set xs \<Longrightarrow> rank (xs @ a # ys) a = length xs"
  by (induction xs) (auto simp: rank_def)

lemma rank_member: "a \<in> set xs \<Longrightarrow> rank (xs @ ys) a < length xs"
  by (induction xs) (auto simp: rank_def)

lemma rank_dependency:
  assumes "validate_stage_graph k self = Inr order" "name \<in> set (dict_keys (pl_indicators self))"
    "dict_get (pl_indicator_deps self) name = Some ds" "p \<in> set ds"
  shows "p \<in> set (dict_keys (pl_indicators self))" "rank order (''indicator:'' @ p) < rank order (''indicator:'' @ name)"
proof -
  from assms(1) obtain g where g: "stage_graph k self = Inr g" and t: "topological_order g = Inr order"
    by (auto simp: validate_stage_graph_def)
  note T = topological_order_Inr [OF t] and N = stage_graph_nodes [OF g]
  define a b where "a = ''indicator:'' @ name" and "b = ''indicator:'' @ p"
  from N(1) [OF assms(2,3)] obtain node where node: "dict_get g a = Some node" "sn_dependencies node = map ((@) ''indicator:'') ds"
    unfolding a_def by blast
  have "b \<in> set (sn_dependencies node)" unfolding node(2) b_def set_map using assms(4) by blast
  with node(1) have d: "(a, b) \<in> dep_rel g" by (auto simp: dep_rel_def)
  have "a \<in> set order" using dict_get_key [OF node(1)] T(2) by simp
  then obtain xs ys where o: "order = xs @ a # ys" by (meson split_list)
  then have p: "b \<in> set xs" using T(1) d by (auto simp: visit_inv_def deps_first_def)
  have "a \<notin> set xs" using T(1) o by (auto simp: visit_inv_def)
  with rank_first [OF this] rank_member [OF p, of "a # ys"] show "rank order (''indicator:'' @ p) < rank order (''indicator:'' @ name)"
    unfolding a_def [symmetric] b_def [symmetric] o by simp
  have "b \<in> set (dict_keys g)" using p o T(2) by auto
  then show "p \<in> set (dict_keys (pl_indicators self))" unfolding b_def by (rule N(2))
qed

section \<open>Evaluation of the indicators\<close>

text \<open>The attribute \<open>n\<close> of the namespace of group \<open>h\<close>.\<close>

definition ns_map :: "(string, stage_values) dict \<Rightarrow> string \<Rightarrow> string \<Rightarrow> stage_array option" where
  "ns_map vals h n = dict_get (dict_list vals h) n"

lemma ns_map_simps [simp]:
  "ns_map (touch g vals) h n = ns_map vals h n"
  "ns_map (ns_setattr g m v vals) h n = (if h = g \<and> n = m then Some v else ns_map vals h n)"
  by (auto simp: ns_map_def touch_def setdefault_def ns_setattr_def dict_list_def split: option.splits)

lemma ns_has_map: "ns_has vals h n \<longleftrightarrow> ns_map vals h n \<noteq> None"
  by (auto simp: ns_has_def ns_map_def dict_list_def split: option.splits)

lemma ns_getattr_map: "ns_getattr vals h n = Inr v \<longleftrightarrow> ns_map vals h n = Some v"
  by (auto simp: ns_getattr_def ns_map_def split: option.splits)

definition extends :: "(string, stage_values) dict \<Rightarrow> (string, stage_values) dict \<Rightarrow> bool" where
  "extends vals vals' = (\<forall>h n v. ns_map vals h n = Some v \<longrightarrow> ns_map vals' h n = Some v)"

lemma select_values_total:
  assumes "\<forall>p\<in>set ps. ns_map vals h p \<noteq> None"
  shows "\<exists>pv. select_values vals h ps = Inr pv"
proof -
  have "\<exists>pv. res_fold (\<lambda>ns p. rbind (ns_getattr vals h p) (\<lambda>v. Inr (dict_set p v ns))) acc ps = Inr pv" for acc
    using assms
  proof (induction ps arbitrary: acc)
    case (Cons p ps)
    then obtain v where "ns_getattr vals h p = Inr v" by (auto simp: ns_getattr_map)
    with Cons show ?case by simp
  qed simp
  then show ?thesis by (simp add: select_values_def)
qed

lemma select_values_extends:
  assumes "select_values vals h ps = Inr pv" "extends vals vals'"
  shows "select_values vals' h ps = Inr pv"
proof -
  have "res_fold (\<lambda>ns p. rbind (ns_getattr vals h p) (\<lambda>v. Inr (dict_set p v ns))) acc ps = Inr pv \<Longrightarrow>
      res_fold (\<lambda>ns p. rbind (ns_getattr vals' h p) (\<lambda>v. Inr (dict_set p v ns))) acc ps = Inr pv" for acc
  proof (induction ps arbitrary: acc)
    case (Cons p ps)
    then obtain v where "ns_getattr vals h p = Inr v" by auto
    moreover from this assms(2) have "ns_getattr vals' h p = Inr v" unfolding ns_getattr_map extends_def by blast
    ultimately show ?case using Cons by simp
  qed simp
  then show ?thesis using assms(1) by (simp add: select_values_def)
qed

text \<open>
  What the value of an indicator should be: the validated result of the function registered for the
  group, called with the values of its parents.
\<close>

definition computed :: "('r, 'z) pipeline_scheme \<Rightarrow> (string, stage_values) dict \<Rightarrow> contract_group \<Rightarrow> string \<Rightarrow> stage_array \<Rightarrow> bool" where
  "computed self vals g name v = (\<exists>f ds pv. dict_get (pl_indicator_functions self) (name, cg_id g) = Some f \<and>
     dict_get (pl_indicator_deps self) name = Some ds \<and> select_values vals (cg_name g) ds = Inr pv \<and>
     rbind (f g (pl_timestamps self) pv) (validated_array (length (pl_timestamps self))) = Inr v)"

lemma computed_extends: "computed self vals g name v \<Longrightarrow> extends vals vals' \<Longrightarrow> computed self vals' g name v"
  unfolding computed_def by (metis select_values_extends)

definition total_indicators :: "('r, 'z) pipeline_scheme \<Rightarrow> bool" where
  "total_indicators self = (\<forall>(k, f)\<in>set (pl_indicator_functions self). \<forall>g pv.
     \<exists>d xs. f g (pl_timestamps self) pv = Inr (d, StageArray 1 xs) \<and> length xs = length (pl_timestamps self))"

text \<open>What the registration methods keep true of the tables.\<close>

definition registered :: "('r, 'z) pipeline_scheme \<Rightarrow> bool" where
  "registered self = ((\<forall>name\<in>set (dict_keys (pl_indicators self)).
      dict_get (pl_indicator_deps self) name \<noteq> None \<and> dict_get (pl_indicator_cgroups self) name \<noteq> None) \<and>
    (\<forall>name g. group_in g (dict_list (pl_indicator_cgroups self) name) \<longleftrightarrow> dict_get (pl_indicator_functions self) (name, cg_id g) \<noteq> None))"

definition covers_all :: "('r, 'z) pipeline_scheme \<Rightarrow> bool" where
  "covers_all self = (\<forall>name\<in>set (dict_keys (pl_indicators self)). \<forall>g\<in>set (pl_contract_groups self).
     group_in g (dict_list (pl_indicator_cgroups self) name))"

lemma pforeach_progress:
  assumes "\<And>x s. x \<in> set xs \<Longrightarrow> J s \<Longrightarrow> \<exists>s'. f x s = (Inr (), s') \<and> J s' \<and> R s s' \<and> Q x s'"
    and "\<And>x s s'. Q x s \<Longrightarrow> R s s' \<Longrightarrow> Q x s'" "\<And>s. R s s" "\<And>s t u. R s t \<Longrightarrow> R t u \<Longrightarrow> R s u" "J s"
  shows "\<exists>s'. pforeach f xs s = (Inr (), s') \<and> J s' \<and> R s s' \<and> (\<forall>x\<in>set xs. Q x s')"
  using assms(1,5)
proof (induction xs arbitrary: s)
  case Nil
  then show ?case using assms(3) by auto
next
  case (Cons x xs)
  from Cons.prems obtain t where t: "f x s = (Inr (), t)" "J t" "R s t" "Q x t" by (meson list.set_intros(1))
  from Cons.IH [OF Cons.prems(1) t(2)] obtain u where u: "pforeach f xs t = (Inr (), u)" "J u" "R t u" "\<forall>x\<in>set xs. Q x u" by auto
  then show ?case using t assms(2) [OF t(4) u(3)] assms(4) [OF t(3) u(3)] by (auto simp: pbind_eq)
qed

text \<open>
  The state during an evaluation that began in \<open>self\<close>: only the values differ, and every value so
  far is the one its indicator should have.
\<close>

definition consistent :: "('r, 'z) pipeline_scheme \<Rightarrow> (string, stage_values) dict \<Rightarrow> bool" where
  "consistent self vals = (\<forall>g\<in>set (pl_contract_groups self). \<forall>n v. ns_map vals (cg_name g) n = Some v \<longrightarrow> computed self vals g n v)"

definition evaluating :: "('r, 'z) pipeline_scheme \<Rightarrow> ('r, 'z) pipeline_scheme \<Rightarrow> bool" where
  "evaluating self s = (\<exists>vals. s = self\<lparr>pl_indicator_values := vals\<rparr> \<and> consistent self vals)"

abbreviation grows :: "('r, 'z) pipeline_scheme \<Rightarrow> ('r, 'z) pipeline_scheme \<Rightarrow> bool" where
  "grows s s' \<equiv> extends (pl_indicator_values s) (pl_indicator_values s')"

abbreviation has_value :: "contract_group \<Rightarrow> string \<Rightarrow> ('r, 'z) pipeline_scheme \<Rightarrow> bool" where
  "has_value g name s \<equiv> ns_map (pl_indicator_values s) (cg_name g) name \<noteq> None"

lemma extends_refl [simp]: "extends vals vals"
  by (simp add: extends_def)

lemma grows_facts: "grows s s" "grows s t \<Longrightarrow> grows t u \<Longrightarrow> grows s u" "has_value g n s \<Longrightarrow> grows s s' \<Longrightarrow> has_value g n s'"
  by (auto simp: extends_def)

lemma consistent_touch:
  assumes "consistent self vals"
  shows "consistent self (touch g vals)" "extends vals (touch g vals)"
proof -
  show e: "extends vals (touch g vals)" by (simp add: extends_def)
  then show "consistent self (touch g vals)"
    using assms unfolding consistent_def ns_map_simps by (blast intro: computed_extends)
qed

lemma consistent_setattr:
  assumes "consistent self vals" "g \<in> set (pl_contract_groups self)" "distinct (map cg_name (pl_contract_groups self))"
    "ns_map vals (cg_name g) n = None" "computed self vals g n v"
  shows "consistent self (ns_setattr (cg_name g) n v vals)" "extends vals (ns_setattr (cg_name g) n v vals)"
proof -
  show e: "extends vals (ns_setattr (cg_name g) n v vals)"
    using assms(4) by (auto simp: extends_def)
  show "consistent self (ns_setattr (cg_name g) n v vals)"
    unfolding consistent_def
  proof (intro ballI allI impI)
    fix h m w assume h: "h \<in> set (pl_contract_groups self)" "ns_map (ns_setattr (cg_name g) n v vals) (cg_name h) m = Some w"
    show "computed self (ns_setattr (cg_name g) n v vals) h m w"
    proof (cases "cg_name h = cg_name g \<and> m = n")
      case True
      then have "h = g" using assms(2,3) h(1) by (simp add: distinct_map inj_on_def)
      then show ?thesis using True h(2) computed_extends [OF assms(5) e] by simp
    next
      case False
      then have "computed self vals h m w" using h assms(1) unfolding consistent_def by (metis ns_map_simps(2))
      then show ?thesis using e by (rule computed_extends)
    qed
  qed
qed

lemma indicator_step_ok:
  fixes self :: "('r, 'z) pipeline_scheme"
  assumes reg: "registered self" "total_indicators self" "distinct (map cg_name (pl_contract_groups self))"
    and g: "g \<in> set (pl_contract_groups self)" "group_in g (dict_list (pl_indicator_cgroups self) name)"
    and ds: "dict_get (pl_indicator_deps self) name = Some ds"
    and rec: "\<And>p s. p \<in> set ds \<Longrightarrow> evaluating self s \<Longrightarrow> \<exists>s'. rec p s = (Inr (), s') \<and> evaluating self s' \<and> grows s s' \<and> has_value g p s'"
    and s: "evaluating self s"
  shows "\<exists>s'. indicator_step rec g name s = (Inr (), s') \<and> evaluating self s' \<and> grows s s' \<and> has_value g name s'"
proof -
  let ?parent = "\<lambda>p self. if ns_has (pl_indicator_values self) (cg_name g) p then (Inr (), self) else rec p self"
  have "\<exists>s'. pforeach ?parent ds s = (Inr (), s') \<and> evaluating self s' \<and> grows s s' \<and> (\<forall>p\<in>set ds. has_value g p s')"
  proof (rule pforeach_progress [where J = "evaluating self" and R = grows and Q = "has_value g"])
    fix p s assume "p \<in> set ds" "evaluating self s"
    then show "\<exists>s'. ?parent p s = (Inr (), s') \<and> evaluating self s' \<and> grows s s' \<and> has_value g p s'"
      using rec by (simp add: ns_has_map)
  qed (use s grows_facts in blast)+
  then obtain t where t: "pforeach ?parent ds s = (Inr (), t)" "evaluating self t" "grows s t" "\<forall>p\<in>set ds. has_value g p t" by blast
  from t(2) obtain vals where vals: "t = self\<lparr>pl_indicator_values := vals\<rparr>" "consistent self vals" by (auto simp: evaluating_def)
  have "dict_get (pl_indicator_deps s) name = Some ds" using s ds by (auto simp: evaluating_def)
  then have run: "indicator_step rec g name s = (\<lambda>self. if ns_has (pl_indicator_values self) (cg_name g) name then (Inr (), self)
     else case dict_get (pl_indicator_functions self) (name, cg_id g) of
         None \<Rightarrow> (Inl (KeyError name), self)
       | Some indicator_function \<Rightarrow>
           (case rbind (select_values (pl_indicator_values self) (cg_name g) ds) (\<lambda>parent_values.
                wrap_callback ''indicator callback failed''
                  (rbind (indicator_function g (pl_timestamps self) parent_values) (validated_array (length (pl_timestamps self))))) of
              Inl e \<Rightarrow> (Inl e, self)
            | Inr v \<Rightarrow> (Inr (), self\<lparr>pl_indicator_values := ns_setattr (cg_name g) name v (pl_indicator_values self)\<rparr>))) t"
    using t(1) by (simp add: indicator_step_def pbind_def)
  show ?thesis
  proof (cases "ns_map vals (cg_name g) name")
    case (Some v)
    then show ?thesis using run t vals by (simp add: ns_has_map)
  next
    case None
    obtain f where f: "dict_get (pl_indicator_functions self) (name, cg_id g) = Some f" using reg(1) g(2) unfolding registered_def by blast
    obtain pv where pv: "select_values vals (cg_name g) ds = Inr pv" using select_values_total t(4) vals(1) by fastforce
    have "\<exists>d xs. f g (pl_timestamps self) pv = Inr (d, StageArray 1 xs) \<and> length xs = length (pl_timestamps self)"
      using reg(2) map_of_SomeD [OF f] by (fastforce simp: total_indicators_def)
    then obtain v where v: "rbind (f g (pl_timestamps self) pv) (validated_array (length (pl_timestamps self))) = Inr v"
      by (auto simp: validated_array_def validate_stage_values_def)
    have c: "computed self vals g name v" unfolding computed_def using f ds pv v by (intro exI conjI)
    let ?t = "self\<lparr>pl_indicator_values := ns_setattr (cg_name g) name v vals\<rparr>"
    have "indicator_step rec g name s = (Inr (), ?t)" using run vals(1) None f pv v by (simp add: ns_has_map wrap_callback_def)
    moreover note C = consistent_setattr [OF vals(2) g(1) reg(3) None c]
    have "evaluating self ?t" using C(1) by (auto simp: evaluating_def)
    moreover have "grows s ?t" using grows_facts(2) [OF t(3), of ?t] C(2) vals(1) by simp
    ultimately show ?thesis by auto
  qed
qed

lemma select_one:
  "p \<in> set names \<Longrightarrow> validated_stage_names (Some (Some [VStr p])) names = Inr [p]"
  "g \<in> set groups \<Longrightarrow> validated_stage_groups (Some (Some [Attr g])) groups = Inr [g]"
  by (auto simp: validated_stage_names_def validated_stage_groups_def group_in_def)

lemma in_scope_all:
  assumes "\<forall>n\<in>set names. dict_get cgroups n \<noteq> None \<and> (\<exists>g\<in>set groups. group_in g (dict_list cgroups n))"
  shows "in_scope_names cgroups groups names = Inr names"
proof -
  have "res_map (\<lambda>name. rbind (dict_item cgroups name) (\<lambda>sg. Inr (if list_ex (\<lambda>g. group_in g sg) groups then [name] else []))) names
      = Inr (map (\<lambda>n. [n]) names)"
    using assms by (induction names) (auto simp: dict_list_def list_ex_iff)
  then show ?thesis by (simp add: in_scope_names_def)
qed

lemma in_scope_ok:
  assumes "registered self" "covers_all self" "set names \<subseteq> set (dict_keys (pl_indicators self))"
    "set groups \<subseteq> set (pl_contract_groups self)" "groups \<noteq> []"
  shows "in_scope_names (pl_indicator_cgroups self) groups names = Inr names"
proof (rule in_scope_all, intro ballI conjI)
  fix n assume "n \<in> set names"
  then have n: "n \<in> set (dict_keys (pl_indicators self))" using assms(3) by blast
  then show "dict_get (pl_indicator_cgroups self) n \<noteq> None" using assms(1) unfolding registered_def by blast
  have "hd groups \<in> set groups" "hd groups \<in> set (pl_contract_groups self)" using assms(4,5) by auto
  then show "\<exists>g\<in>set groups. group_in g (dict_list (pl_indicator_cgroups self) n)" using n assms(2) unfolding covers_all_def by blast
qed

text \<open>One group: touching its namespace and running the steps of the given names.\<close>

lemma group_pass_ok:
  assumes s: "evaluating self s"
    and step: "\<And>n s. n \<in> set names \<Longrightarrow> evaluating self s \<Longrightarrow> \<exists>s'. step n s = (Inr (), s') \<and> evaluating self s' \<and> grows s s' \<and> has_value g n s'"
  shows "\<exists>s'. pbind (pmodify (\<lambda>self. self\<lparr>pl_indicator_values := touch (cg_name g) (pl_indicator_values self)\<rparr>)) (\<lambda>_. pforeach step names) s
      = (Inr (), s') \<and> evaluating self s' \<and> grows s s' \<and> (\<forall>n\<in>set names. has_value g n s')"
proof -
  let ?s = "s\<lparr>pl_indicator_values := touch (cg_name g) (pl_indicator_values s)\<rparr>"
  from s have "evaluating self ?s" using consistent_touch(1) by (fastforce simp: evaluating_def)
  then have "\<exists>s'. pforeach step names ?s = (Inr (), s') \<and> evaluating self s' \<and> grows ?s s' \<and> (\<forall>n\<in>set names. has_value g n s')"
    by (intro pforeach_progress [where J = "evaluating self" and R = grows and Q = "has_value g"] step) (use grows_facts in blast)+
  then obtain s' where s': "pforeach step names ?s = (Inr (), s')" "evaluating self s'" "grows ?s s'" "\<forall>n\<in>set names. has_value g n s'" by blast
  have "grows s ?s" by (simp add: extends_def)
  then have "grows s s'" using s'(3) by (rule grows_facts(2))
  then show ?thesis unfolding pbind_simps using s' by blast
qed

lemma run_indicators_one:
  fixes self :: "('r, 'z) pipeline_scheme"
  assumes reg: "registered self" "covers_all self" "total_indicators self" "distinct (map cg_name (pl_contract_groups self))"
    and graph: "validate_stage_graph k self = Inr order"
    and g: "g \<in> set (pl_contract_groups self)" and name: "name \<in> set (dict_keys (pl_indicators self))"
    and depth: "rank order (''indicator:'' @ name) < depth" and s: "evaluating self s"
  shows "\<exists>s'. run_indicators depth (Some (Some [VStr name])) (Some (Some [Attr g])) False s = (Inr (), s') \<and>
     evaluating self s' \<and> grows s s' \<and> has_value g name s'"
  using name depth s
proof (induction depth arbitrary: name s)
  case (Suc depth)
  obtain ds where ds: "dict_get (pl_indicator_deps self) name = Some ds" using reg(1) Suc.prems(1) unfolding registered_def by blast
  from Suc.prems(3) obtain vals where vals: "s = self\<lparr>pl_indicator_values := vals\<rparr>" by (auto simp: evaluating_def)
  have scope: "in_scope_names (pl_indicator_cgroups self) [g] [name] = Inr [name]"
    using in_scope_ok [OF reg(1,2), of "[name]" "[g]"] g Suc.prems(1) by simp
  have step: "\<exists>s'. indicator_step (\<lambda>p. run_indicators depth (Some (Some [VStr p])) (Some (Some [Attr g])) False) g n t = (Inr (), s') \<and>
      evaluating self s' \<and> grows t s' \<and> has_value g n s'" if "n \<in> set [name]" "evaluating self t" for n t
  proof -
    have n: "n = name" using that(1) by simp
    show ?thesis unfolding n
    proof (rule indicator_step_ok [OF reg(1,3,4) g _ ds _ that(2)])
      show "group_in g (dict_list (pl_indicator_cgroups self) name)" using reg(2) Suc.prems(1) g unfolding covers_all_def by blast
      fix p s assume p: "p \<in> set ds" "evaluating self s"
      note R = rank_dependency [OF graph Suc.prems(1) ds p(1)]
      show "\<exists>s'. run_indicators depth (Some (Some [VStr p])) (Some (Some [Attr g])) False s = (Inr (), s') \<and>
        evaluating self s' \<and> grows s s' \<and> has_value g p s'"
        using Suc.IH [OF R(1) _ p(2)] R(2) Suc.prems(2) by simp
    qed
  qed
  show ?case
    using group_pass_ok [OF Suc.prems(3), of "[name]", OF step] vals scope select_one(1) [OF Suc.prems(1)] select_one(2) [OF g]
    by (simp add: pbind_def split: prod.splits sum.splits)
qed simp

lemma rank_bound: "name \<in> set order \<Longrightarrow> rank order name < length order"
  using rank_member [of name order "[]"] by simp

lemma indicator_in_order:
  assumes "validate_stage_graph k self = Inr order" "name \<in> set (dict_keys (pl_indicators self))" "registered self"
  shows "''indicator:'' @ name \<in> set order"
proof -
  from assms(1) obtain g where g: "stage_graph k self = Inr g" and t: "topological_order g = Inr order"
    by (auto simp: validate_stage_graph_def)
  obtain ds where "dict_get (pl_indicator_deps self) name = Some ds" using assms(2,3) unfolding registered_def by blast
  from stage_graph_nodes(1) [OF g assms(2) this] obtain node where "dict_get g (''indicator:'' @ name) = Some node" by blast
  from dict_get_key [OF this] show ?thesis unfolding topological_order_Inr(2) [OF t] .
qed

text \<open>A whole run: every group, every indicator, from empty namespaces.\<close>

lemma run_indicators_all:
  fixes self :: "('r, 'z) pipeline_scheme"
  assumes reg: "registered self" "covers_all self" "total_indicators self" "distinct (map cg_name (pl_contract_groups self))"
    and graph: "validate_stage_graph k self = Inr order" and depth: "length order < depth" and ne: "pl_contract_groups self \<noteq> []"
  shows "\<exists>s'. run_indicators depth None None True self = (Inr (), s') \<and> evaluating self s' \<and>
     (\<forall>g\<in>set (pl_contract_groups self). \<forall>n\<in>set (dict_keys (pl_indicators self)). has_value g n s')"
proof -
  obtain d where d: "depth = Suc d" using depth by (cases depth) auto
  let ?groups = "pl_contract_groups self" and ?names = "dict_keys (pl_indicators self)"
  let ?rec = "\<lambda>g p. run_indicators d (Some (Some [VStr p])) (Some (Some [Attr g])) False :: (('r, 'z) pipeline_scheme, unit) prog"
  let ?pass = "\<lambda>g. pbind (pmodify (\<lambda>self. self\<lparr>pl_indicator_values := touch (cg_name g) (pl_indicator_values self)\<rparr>))
      (\<lambda>_. pforeach (indicator_step (?rec g) g) ?names)"
  let ?Q = "\<lambda>g s. \<forall>n\<in>set ?names. has_value g n s"
  have step: "\<exists>s'. indicator_step (?rec g) g n s = (Inr (), s') \<and> evaluating self s' \<and> grows s s' \<and> has_value g n s'"
    if g: "g \<in> set ?groups" and n: "n \<in> set ?names" and s: "evaluating self s" for g n s
  proof -
    obtain ds where ds: "dict_get (pl_indicator_deps self) n = Some ds" using reg(1) n unfolding registered_def by blast
    show ?thesis
    proof (rule indicator_step_ok [OF reg(1,3,4) g _ ds _ s])
      show "group_in g (dict_list (pl_indicator_cgroups self) n)" using reg(2) n g unfolding covers_all_def by blast
      fix p s assume p: "p \<in> set ds" "evaluating self s"
      note R = rank_dependency [OF graph n ds p(1)]
      have "rank order (''indicator:'' @ p) < d"
        using rank_bound [OF indicator_in_order [OF graph R(1) reg(1)]] depth d by linarith
      then show "\<exists>s'. ?rec g p s = (Inr (), s') \<and> evaluating self s' \<and> grows s s' \<and> has_value g p s'"
        using run_indicators_one [OF reg graph g R(1) _ p(2)] by blast
    qed
  qed
  let ?s = "self\<lparr>pl_indicator_values := []\<rparr>"
  have e: "evaluating self ?s" by (auto simp: evaluating_def consistent_def ns_map_def dict_list_def intro!: exI [of _ "[]"])
  have "\<exists>s'. pforeach ?pass ?groups ?s = (Inr (), s') \<and> evaluating self s' \<and> grows ?s s' \<and> (\<forall>g\<in>set ?groups. ?Q g s')"
  proof (rule pforeach_progress [where J = "evaluating self" and R = grows and Q = ?Q])
    fix g s assume g: "g \<in> set ?groups" "evaluating self s"
    show "\<exists>s'. ?pass g s = (Inr (), s') \<and> evaluating self s' \<and> grows s s' \<and> ?Q g s'"
      by (rule group_pass_ok [OF g(2)]) (rule step [OF g(1)])
  qed (use e grows_facts in blast)+
  then obtain s' where s': "pforeach ?pass ?groups ?s = (Inr (), s')" "evaluating self s'" "\<forall>g\<in>set ?groups. ?Q g s'" by blast
  have "in_scope_names (pl_indicator_cgroups self) ?groups ?names = Inr ?names" by (rule in_scope_ok [OF reg(1,2) _ _ ne]) auto
  then have "run_indicators depth None None True self = (Inr (), s')"
    unfolding d using s'(1) by (simp add: pbind_def validated_stage_names_def validated_stage_groups_def)
  then show ?thesis using s'(2,3) by blast
qed

section \<open>An indicator that does not cover a group\<close>

lemma pforeach_Inr_each:
  assumes "pforeach f xs s = (Inr u, t)" "x \<in> set xs" "I s"
    "\<And>x s r s'. x \<in> set xs \<Longrightarrow> I s \<Longrightarrow> f x s = (r, s') \<Longrightarrow> I s'"
  shows "\<exists>s1 s2. I s1 \<and> f x s1 = (Inr (), s2)"
  using assms
proof (induction xs arbitrary: s)
  case (Cons y ys)
  from Cons.prems(1) obtain v w where w: "f y s = (Inr v, w)" "pforeach f ys w = (Inr u, t)" by auto
  then have I: "I w" using Cons.prems(3,4) by (metis list.set_intros(1))
  show ?case
  proof (cases "x = y")
    case True
    then show ?thesis using w(1) Cons.prems(3) by auto
  next
    case False
    then have x: "x \<in> set ys" using Cons.prems(2) by simp
    show ?thesis by (rule Cons.IH [OF w(2) x I]) (use Cons.prems(4) in \<open>metis list.set_intros(2)\<close>)
  qed
qed simp

text \<open>The namespace of \<open>g\<close> has no attribute \<open>name\<close>, and the tables are those of \<open>self\<close>.\<close>

definition lacks :: "('r, 'z) pipeline_scheme \<Rightarrow> contract_group \<Rightarrow> string \<Rightarrow> ('r, 'z) pipeline_scheme \<Rightarrow> bool" where
  "lacks self g name s = (\<exists>vals. s = self\<lparr>pl_indicator_values := vals\<rparr> \<and> ns_map vals (cg_name g) name = None)"

lemma indicator_step_lacks:
  assumes "dict_get (pl_indicator_functions self) (name, cg_id g) = None" "lacks self g name s" "cg_name h = cg_name g \<longrightarrow> h = g"
    "\<And>p s r s'. lacks self g name s \<Longrightarrow> rec p s = (r, s') \<Longrightarrow> lacks self g name s'" "indicator_step rec h n s = (r, s')"
  shows "lacks self g name s'"
proof -
  let ?parent = "\<lambda>p self. if ns_has (pl_indicator_values self) (cg_name h) p then (Inr (), self) else rec p self"
  have inv: "lacks self g name t'" if "pforeach ?parent ps t = (q, t')" "lacks self g name t" for ps q t t'
    by (rule pforeach_invariant [where I = "lacks self g name", OF _ that(2,1)]) (use assms(4) in \<open>auto split: if_splits\<close>)
  from assms(2) obtain vals where s: "s = self\<lparr>pl_indicator_values := vals\<rparr>" by (auto simp: lacks_def)
  show ?thesis
  proof (cases "dict_get (pl_indicator_deps self) n")
    case None
    then show ?thesis using assms(2,5) s by (simp add: indicator_step_def pbind_def dict_item_def)
  next
    case (Some ds)
    obtain q t where t: "pforeach ?parent ds s = (q, t)" by fastforce
    from inv [OF t assms(2)] obtain w where w: "t = self\<lparr>pl_indicator_values := w\<rparr>" "ns_map w (cg_name g) name = None" by (auto simp: lacks_def)
    have "s' = t \<or> (\<exists>f v. dict_get (pl_indicator_functions self) (n, cg_id h) = Some f \<and>
        s' = self\<lparr>pl_indicator_values := ns_setattr (cg_name h) n v w\<rparr>)"
      using assms(5) s Some t w(1) by (auto simp: indicator_step_def pbind_def split: sum.splits if_splits option.splits)
    then show ?thesis
    proof (elim disjE exE conjE)
      fix f v assume f: "dict_get (pl_indicator_functions self) (n, cg_id h) = Some f"
        and s': "s' = self\<lparr>pl_indicator_values := ns_setattr (cg_name h) n v w\<rparr>"
      have "\<not> (cg_name g = cg_name h \<and> name = n)" using f assms(1,3) by auto
      then have "ns_map (ns_setattr (cg_name h) n v w) (cg_name g) name = None" using w(2) by simp
      then show ?thesis unfolding s' lacks_def by blast
    qed (use inv [OF t assms(2)] in simp)
  qed
qed

lemma group_pass_lacks:
  assumes "lacks self g name s" "\<And>n s r s'. lacks self g name s \<Longrightarrow> step n s = (r, s') \<Longrightarrow> lacks self g name s'"
    "pbind (pmodify (\<lambda>self. self\<lparr>pl_indicator_values := touch (cg_name h) (pl_indicator_values self)\<rparr>)) (\<lambda>_. pforeach step names) s = (r, s')"
  shows "lacks self g name s'"
proof (rule pforeach_invariant [where I = "lacks self g name" and f = step and xs = names])
  show "lacks self g name (s\<lparr>pl_indicator_values := touch (cg_name h) (pl_indicator_values s)\<rparr>)" using assms(1) by (auto simp: lacks_def)
  show "pforeach step names (s\<lparr>pl_indicator_values := touch (cg_name h) (pl_indicator_values s)\<rparr>) = (r, s')" using assms(3) by simp
qed (use assms(2) in blast)

lemma run_indicators_lacks:
  fixes self :: "('r, 'z) pipeline_scheme"
  assumes f: "dict_get (pl_indicator_functions self) (name, cg_id g) = None" and g: "g \<in> set (pl_contract_groups self)"
    and dist: "distinct (map cg_name (pl_contract_groups self))"
    and h: "h \<in> set (pl_contract_groups self)" and s: "lacks self g name s"
    and run: "run_indicators depth names (Some (Some [Attr h])) False s = (r, s')"
  shows "lacks self g name s'"
  using h s run
proof (induction depth arbitrary: names h s r s')
  case (Suc depth)
  have hg: "cg_name h = cg_name g \<longrightarrow> h = g" using Suc.prems(1) g dist by (simp add: distinct_map inj_on_def)
  have step: "lacks self g name t'"
    if "lacks self g name t" "indicator_step (\<lambda>p. run_indicators depth (Some (Some [VStr p])) (Some (Some [Attr h])) False) h n t = (q, t')" for n t q t'
    by (rule indicator_step_lacks [OF f that(1) hg _ that(2)]) (use Suc.IH [OF Suc.prems(1)] in blast)
  from Suc.prems(2) have gs: "pl_contract_groups s = pl_contract_groups self" by (auto simp: lacks_def)
  consider "s' = s" | ns where "pbind (pmodify (\<lambda>self. self\<lparr>pl_indicator_values := touch (cg_name h) (pl_indicator_values self)\<rparr>))
      (\<lambda>_. pforeach (indicator_step (\<lambda>p. run_indicators depth (Some (Some [VStr p])) (Some (Some [Attr h])) False) h) ns) s = (r, s')"
    using Suc.prems(3) select_one(2) [OF Suc.prems(1)] gs
    by (cases "validated_stage_names names (dict_keys (pl_indicators s))";
        cases "in_scope_names (pl_indicator_cgroups s) [h] (projr (validated_stage_names names (dict_keys (pl_indicators s))))")
       (auto simp: pbind_def split: sum.splits prod.splits)
  then show ?case
  proof cases
    case (2 ns)
    show ?thesis by (rule group_pass_lacks [OF Suc.prems(2) _ 2]) (rule step)
  qed (use Suc.prems(2) in simp)
qed (simp add: plift_def)

lemma in_scope_member:
  assumes "in_scope_names cgroups groups names = Inr ns" "name \<in> set names" "h \<in> set groups" "group_in h (dict_list cgroups name)"
  shows "name \<in> set ns"
proof -
  let ?f = "\<lambda>name. rbind (dict_item cgroups name) (\<lambda>stage_groups.
     Inr (if list_ex (\<lambda>g. group_in g stage_groups) groups then [name] else []))"
  from assms(1) obtain nss where nss: "res_map ?f names = Inr nss" "ns = concat nss" by (auto simp: in_scope_names_def)
  from res_map_mem(1) [OF nss(1) assms(2)] obtain y where y: "y \<in> set nss" "?f name = Inr y" by (elim bexE)
  from y(2) obtain sg where sg: "dict_get cgroups name = Some sg" "y = (if list_ex (\<lambda>g. group_in g sg) groups then [name] else [])" by auto
  have "list_ex (\<lambda>g. group_in g sg) groups" using assms(3,4) sg(1) unfolding list_ex_iff dict_list_def by auto
  then have "name \<in> set y" using sg(2) by simp
  then show ?thesis unfolding nss(2) set_concat using y(1) by blast
qed

lemma run_indicators_uncovered:
  fixes self :: "('r, 'z) pipeline_scheme"
  assumes f: "dict_get (pl_indicator_functions self) (name, cg_id g) = None" and g: "g \<in> set (pl_contract_groups self)"
    and dist: "distinct (map cg_name (pl_contract_groups self))" and name: "name \<in> set (dict_keys (pl_indicators self))"
    and part: "h \<in> set (pl_contract_groups self)" "group_in h (dict_list (pl_indicator_cgroups self) name)"
  shows "run_indicators depth None None True self \<noteq> (Inr (), self')"
proof
  assume run: "run_indicators depth None None True self = (Inr (), self')"
  then obtain d where d: "depth = Suc d" by (cases depth) auto
  let ?rec = "\<lambda>g p. run_indicators d (Some (Some [VStr p])) (Some (Some [Attr g])) False :: (('r, 'z) pipeline_scheme, unit) prog"
  let ?pass = "\<lambda>ns g. pbind (pmodify (\<lambda>self. self\<lparr>pl_indicator_values := touch (cg_name g) (pl_indicator_values self)\<rparr>))
      (\<lambda>_. pforeach (indicator_step (?rec g) g) ns)"
  let ?s = "self\<lparr>pl_indicator_values := []\<rparr>"
  from run obtain ns where ns: "in_scope_names (pl_indicator_cgroups self) (pl_contract_groups self) (dict_keys (pl_indicators self)) = Inr ns"
    and loop: "pforeach (?pass ns) (pl_contract_groups self) ?s = (Inr (), self')"
    unfolding d by (auto simp: validated_stage_names_def validated_stage_groups_def)
  have "name \<in> set ns" by (rule in_scope_member [OF ns name part])
  have I: "lacks self g name ?s" by (auto simp: lacks_def ns_map_def dict_list_def intro!: exI [of _ "[]"])
  have step: "lacks self g name t'" if "k \<in> set (pl_contract_groups self)" "lacks self g name t" "indicator_step (?rec k) k n t = (q, t')" for k n t q t'
  proof (rule indicator_step_lacks [OF f that(2) _ _ that(3)])
    show "cg_name k = cg_name g \<longrightarrow> k = g" using that(1) g dist by (simp add: distinct_map inj_on_def)
  qed (rule run_indicators_lacks [OF f g dist that(1)])
  have pass: "lacks self g name t'" if "k \<in> set (pl_contract_groups self)" "lacks self g name t" "?pass ns k t = (q, t')" for k t q t'
    by (rule group_pass_lacks [OF that(2) _ that(3)]) (rule step [OF that(1)])
  have "\<exists>t t'. lacks self g name t \<and> ?pass ns g t = (Inr (), t')"
    by (rule pforeach_Inr_each [where I = "lacks self g name", OF loop g I]) (rule pass)
  then obtain t t' where t: "lacks self g name t" "?pass ns g t = (Inr (), t')" by (elim exE conjE)
  let ?t = "t\<lparr>pl_indicator_values := touch (cg_name g) (pl_indicator_values t)\<rparr>"
  have t2: "lacks self g name ?t" "pforeach (indicator_step (?rec g) g) ns ?t = (Inr (), t')" using t by (auto simp: lacks_def)
  have "\<exists>u u'. lacks self g name u \<and> indicator_step (?rec g) g name u = (Inr (), u')"
    by (rule pforeach_Inr_each [where I = "lacks self g name", OF t2(2) \<open>name \<in> set ns\<close> t2(1)]) (rule step [OF g])
  then obtain u u' where u: "lacks self g name u" "indicator_step (?rec g) g name u = (Inr (), u')" by (elim exE conjE)
  let ?parent = "\<lambda>p self. if ns_has (pl_indicator_values self) (cg_name g) p then (Inr (), self) else ?rec g p self"
  from u(2) obtain ds w where w: "pforeach ?parent ds u = (Inr (), w)" and
    rest: "ns_has (pl_indicator_values w) (cg_name g) name \<or> dict_get (pl_indicator_functions w) (name, cg_id g) \<noteq> None"
    by (auto simp: indicator_step_def pbind_def split: sum.splits prod.splits option.splits if_splits)
  have "lacks self g name w"
    by (rule pforeach_invariant [where I = "lacks self g name", OF _ u(1) w])
       (use run_indicators_lacks [OF f g dist g] in \<open>auto split: if_splits\<close>)
  then show False using rest f by (auto simp: lacks_def ns_has_map)
qed

section \<open>Registration keeps the tables coherent\<close>

lemma registered_init: "registered (pipeline_init groups ts lag)"
  by (simp add: registered_def pipeline_init_def dict_list_def group_in_def)

lemma dict_get_fold_set:
  "dict_get (fold (\<lambda>g. dict_set (name, cg_id g) f) gs d) (n, i) = (if n = name \<and> i \<in> cg_id ` set gs then Some f else dict_get d (n, i))"
  by (induction gs arbitrary: d) auto

lemma dict_get_setdefault: "dict_get (setdefault k v d) k' \<noteq> None \<longleftrightarrow> k' = k \<or> dict_get d k' \<noteq> None"
  by (auto simp: setdefault_def split: option.splits)

lemma mem_keys_iff: "k \<in> set (dict_keys d) \<longleftrightarrow> dict_get d k \<noteq> None"
  by (metis map_of_eq_None_iff set_map)

lemma registered_add_indicator:
  assumes "registered self" "add_indicator name indicator groups deps self = Inr self'"
  shows "registered self'"
proof -
  from assms(2) obtain f vg where f: "indicator = Attr f"
    and self': "self' = self\<lparr>pl_indicators := setdefault name f (pl_indicators self),
      pl_indicator_deps := dict_set name (case deps of None \<Rightarrow> [] | Some ds \<Rightarrow> ds) (pl_indicator_deps self),
      pl_indicator_cgroups := dict_set name (dict_list (pl_indicator_cgroups self) name @ vg) (pl_indicator_cgroups self),
      pl_indicator_functions := fold (\<lambda>g. dict_set (name, cg_id g) f) vg (pl_indicator_functions self)\<rparr>"
    by (auto simp: add_indicator_def Let_def split: attr.splits)
  have "group_in g (dict_list (pl_indicator_cgroups self') n) \<longleftrightarrow> dict_get (pl_indicator_functions self') (n, cg_id g) \<noteq> None" for n g
  proof -
    have "dict_list (pl_indicator_cgroups self') n = (if n = name then dict_list (pl_indicator_cgroups self) name @ vg else dict_list (pl_indicator_cgroups self) n)"
      by (simp add: self' dict_list_def)
    moreover have "group_in g (dict_list (pl_indicator_cgroups self) n) \<longleftrightarrow> dict_get (pl_indicator_functions self) (n, cg_id g) \<noteq> None"
      using assms(1) unfolding registered_def by blast
    ultimately show ?thesis by (cases "n = name") (simp_all add: self' group_in_def dict_get_fold_set image_Un)
  qed
  moreover have "dict_get (pl_indicator_deps self') n \<noteq> None \<and> dict_get (pl_indicator_cgroups self') n \<noteq> None"
    if "dict_get (pl_indicators self') n \<noteq> None" for n
  proof (cases "n = name")
    case False
    then have "dict_get (pl_indicators self) n \<noteq> None" using that dict_get_setdefault by (fastforce simp: self')
    then show ?thesis using assms(1) False unfolding registered_def mem_keys_iff Ball_def by (simp add: self')
  qed (simp add: self')
  ultimately show ?thesis unfolding registered_def Ball_def mem_keys_iff by blast
qed

lemma registered_add_signal: "registered self \<Longrightarrow> add_signal name f groups ids sds self = Inr self' \<Longrightarrow> registered self'"
  by (auto simp: add_signal_def Let_def split: attr.splits) (simp add: registered_def)

lemma registered_add_rule: "registered self \<Longrightarrow> add_rule name f sn trig pf self = Inr self' \<Longrightarrow> registered self'"
  by (auto simp: add_rule_def split: attr.splits pyval.splits) (simp_all add: registered_def)

section \<open>Properties\<close>

text \<open>
  Claim C8. Indicator evaluation terminates and is complete: when the stage graph validates, every
  indicator is registered for every group and every callback returns an array of the right length,
  \<open>run_indicators\<close> with more recursion depth than the graph has stages returns, and each group then
  holds for each indicator the validated result of the registered function on the final values of
  its parents, in whatever order the indicators were registered.
\<close>

theorem run_indicators_complete:
  assumes "registered self" "covers_all self" "total_indicators self" "distinct (map cg_name (pl_contract_groups self))"
    "pl_contract_groups self \<noteq> []" "validate_stage_graph k self = Inr order" "length order < depth"
  shows "\<exists>self'. run_indicators depth None None True self = (Inr (), self') \<and>
    (\<forall>g\<in>set (pl_contract_groups self). \<forall>name\<in>set (dict_keys (pl_indicators self)).
       \<exists>v. ns_getattr (pl_indicator_values self') (cg_name g) name = Inr v \<and> computed self (pl_indicator_values self') g name v)"
proof -
  from run_indicators_all [OF assms(1-4,6,7,5)] obtain s' where
    run: "run_indicators depth None None True self = (Inr (), s')" and e: "evaluating self s'"
    and has: "\<forall>g\<in>set (pl_contract_groups self). \<forall>n\<in>set (dict_keys (pl_indicators self)). has_value g n s'" by blast
  have "\<exists>v. ns_getattr (pl_indicator_values s') (cg_name g) n = Inr v \<and> computed self (pl_indicator_values s') g n v"
    if "g \<in> set (pl_contract_groups self)" "n \<in> set (dict_keys (pl_indicators self))" for g n
  proof -
    from has [rule_format, OF that] obtain v where v: "ns_map (pl_indicator_values s') (cg_name g) n = Some v" by (auto simp del: split_paired_Ex)
    moreover have "consistent self (pl_indicator_values s')" using e by (auto simp: evaluating_def)
    ultimately have "computed self (pl_indicator_values s') g n v" using that(1) unfolding consistent_def by blast
    with v show ?thesis by (auto simp: ns_getattr_map)
  qed
  with run show ?thesis by blast
qed

text \<open>Two indicators, the first registered depending on the second; one group, two timestamps.\<close>

definition example_group :: "string \<Rightarrow> nat \<Rightarrow> contract_group" where
  "example_group name i = ContractGroup i name"

definition example_floats :: "rat list \<Rightarrow> callback_array" where
  "example_floats xs = (FloatDtype, StageArray 1 (map (\<lambda>x. VNum (NpFloat (Fin x))) xs))"

definition base_indicator :: indicator where
  "base_indicator g ts parents = Inr (example_floats (map (\<lambda>_. 1) ts))"

definition child_indicator :: indicator where
  "child_indicator g ts parents = Inr (FloatDtype, StageArray 1 (case dict_get parents ''base'' of
     Some (d, xs) \<Rightarrow> if length xs = length ts then xs else map (\<lambda>_. VNum (NpFloat NaN)) ts | None \<Rightarrow> map (\<lambda>_. VNum (NpFloat NaN)) ts))"

definition example_pipeline :: "unit pipeline" where
  "example_pipeline = (pipeline_init [example_group ''ES'' 7] [10, 20] 0)\<lparr>
     pl_indicators := [(''child'', child_indicator), (''base'', base_indicator)],
     pl_indicator_deps := [(''child'', [''base'']), (''base'', [])],
     pl_indicator_cgroups := [(''child'', [example_group ''ES'' 7]), (''base'', [example_group ''ES'' 7])],
     pl_indicator_functions := [((''child'', 7), child_indicator), ((''base'', 7), base_indicator)]\<rparr>"

lemma example_pipeline_built:
  "rbind (add_indicator ''child'' (Attr child_indicator) None (Some [''base'']) (pipeline_init [example_group ''ES'' 7] [10, 20] 0))
     (add_indicator ''base'' (Attr base_indicator) None None) = Inr example_pipeline"
  by (simp add: add_indicator_def validated_stage_groups_def pipeline_init_def example_pipeline_def example_group_def dict_list_def
      setdefault_def same_dependencies_def group_in_def)

lemma example_pipeline_registered: "registered example_pipeline"
  using example_pipeline_built by (elim rbindE) (blast intro: registered_add_indicator registered_init)

lemma example_pipeline_graph: "validate_stage_graph 0 example_pipeline = Inr [''indicator:base'', ''indicator:child'', ''accounting:main'']"
  by code_simp

theorem run_indicators_complete_witness:
  "\<exists>self' v. run_indicators 4 None None True example_pipeline = (Inr (), self') \<and>
     ns_getattr (pl_indicator_values self') ''ES'' ''child'' = Inr v \<and>
     computed example_pipeline (pl_indicator_values self') (example_group ''ES'' 7) ''child'' v"
proof -
  have c: "covers_all example_pipeline"
    by (simp add: covers_all_def example_pipeline_def pipeline_init_def group_in_def dict_list_def)
  have "base_indicator g [10, 20] pv = Inr (FloatDtype, StageArray 1 [VNum (NpFloat (Fin 1)), VNum (NpFloat (Fin 1))])" for g pv
    by (simp add: base_indicator_def example_floats_def)
  moreover have "\<exists>xs. child_indicator g [10, 20] pv = Inr (FloatDtype, StageArray 1 xs) \<and> length xs = 2" for g pv
    by (auto simp: child_indicator_def split: option.splits)
  ultimately have t: "total_indicators example_pipeline"
    by (fastforce simp: total_indicators_def example_pipeline_def pipeline_init_def)
  have d: "distinct (map cg_name (pl_contract_groups example_pipeline))" "pl_contract_groups example_pipeline \<noteq> []"
    by (simp_all add: example_pipeline_def pipeline_init_def)
  from run_indicators_complete [OF example_pipeline_registered c t d example_pipeline_graph, of 4] obtain self' where
    run: "run_indicators 4 None None True example_pipeline = (Inr (), self')" and
    v: "\<forall>g\<in>set (pl_contract_groups example_pipeline). \<forall>name\<in>set (dict_keys (pl_indicators example_pipeline)).
       \<exists>v. ns_getattr (pl_indicator_values self') (cg_name g) name = Inr v \<and> computed example_pipeline (pl_indicator_values self') g name v"
    by auto
  have m: "example_group ''ES'' 7 \<in> set (pl_contract_groups example_pipeline)" "''child'' \<in> set (dict_keys (pl_indicators example_pipeline))"
    "cg_name (example_group ''ES'' 7) = ''ES''"
    by (simp_all add: example_pipeline_def pipeline_init_def example_group_def)
  from v [rule_format, OF m(1,2)] run show ?thesis unfolding m(3) by blast
qed

text \<open>
  Claim C9. The limit of the above: an indicator registered for some of the strategy's contract
  groups and not for another (which \<open>add_indicator\<close> documents and accepts) makes a run over all
  groups fail, whatever the callbacks return, because \<open>run_indicators\<close>, unlike \<open>run_signals\<close>, does
  not skip the groups the stage is not registered for.
\<close>

theorem run_indicators_partial_coverage:
  assumes "registered self" "distinct (map cg_name (pl_contract_groups self))" "name \<in> set (dict_keys (pl_indicators self))"
    "g \<in> set (pl_contract_groups self)" "\<not> group_in g (dict_list (pl_indicator_cgroups self) name)"
    "h \<in> set (pl_contract_groups self)" "group_in h (dict_list (pl_indicator_cgroups self) name)"
  shows "\<exists>e. fst (run_indicators depth None None True self) = Inl e"
proof -
  have f: "dict_get (pl_indicator_functions self) (name, cg_id g) = None" using assms(1,5) unfolding registered_def by blast
  obtain r self' where run: "run_indicators depth None None True self = (r, self')" by fastforce
  show ?thesis
  proof (cases r)
    case (Inr u)
    then show ?thesis using run run_indicators_uncovered [OF f assms(4,2,3,6,7), of depth self'] by simp
  qed (use run in simp)
qed

text \<open>Registered for the second of two groups: the graph validates and the run raises \<open>KeyError\<close>.\<close>

definition partial_pipeline :: "unit pipeline" where
  "partial_pipeline = (pipeline_init [example_group ''ES'' 7, example_group ''CL'' 8] [10, 20] 0)\<lparr>
     pl_indicators := [(''base'', base_indicator)], pl_indicator_deps := [(''base'', [])],
     pl_indicator_cgroups := [(''base'', [example_group ''CL'' 8])], pl_indicator_functions := [((''base'', 8), base_indicator)]\<rparr>"

lemma partial_pipeline_built:
  "add_indicator ''base'' (Attr base_indicator) (Some (Some [Attr (example_group ''CL'' 8)])) None
     (pipeline_init [example_group ''ES'' 7, example_group ''CL'' 8] [10, 20] 0) = Inr partial_pipeline"
  by (simp add: add_indicator_def validated_stage_groups_def pipeline_init_def partial_pipeline_def example_group_def dict_list_def
      setdefault_def same_dependencies_def group_in_def)

theorem run_indicators_partial_coverage_witness:
  "validate_stage_graph 0 partial_pipeline = Inr [''indicator:base'', ''accounting:main''] \<and>
   (\<exists>e. fst (run_indicators 4 None None True partial_pipeline) = Inl e) \<and>
   fst (run_indicators 4 None None True partial_pipeline) = Inl (KeyError ''base'')"
proof (intro conjI)
  show "validate_stage_graph 0 partial_pipeline = Inr [''indicator:base'', ''accounting:main'']" by code_simp
  show "\<exists>e. fst (run_indicators 4 None None True partial_pipeline) = Inl e"
    by (rule run_indicators_partial_coverage [where name = "''base''" and g = "example_group ''ES'' 7" and h = "example_group ''CL'' 8"])
       (use registered_add_indicator [OF registered_init partial_pipeline_built] in
         \<open>simp_all add: partial_pipeline_def pipeline_init_def example_group_def dict_list_def group_in_def\<close>)
  show "fst (run_indicators 4 None None True partial_pipeline) = Inl (KeyError ''base'')" by code_simp
qed

text \<open>
  Claim C7. For rules none of whose trigger values equals \<open>False\<close> (or 0), the schedule is exactly the due
  calls: when \<open>_generate_order_iterations\<close> returns, the bucket of timestamp \<open>i\<close> lists, rule by rule in the
  given order and group by group within a rule, the calls whose signal is registered for the group and
  has a trigger value at \<open>i\<close>, at or after the start date and strictly before the end date, and not at the
  last timestamp when trades lag. The timestamps are strictly increasing and the signal arrays as long
  as they are. A rule triggered by \<open>False\<close> is scheduled outside the dates too: \<open>masked_signal_triggers\<close>.
\<close>

theorem order_iterations_schedule:
  assumes "generate_order_iterations parse (Some names) (Some groups) start end self = (Inr (), self')"
    "validate_date_range parse start end = Inr (s, e)" "strictly_increasing (pl_timestamps self)"
    "values_ok (length (pl_timestamps self)) (pl_signal_values self)" "\<forall>name\<in>set names. unmasked self name"
    "i < length (pl_timestamps self)"
  shows "\<exists>iters. pl_orders_iter self' = Some iters \<and>
    map call_of (bucket_of iters i) = map (call_for self) (filter (due self s e i) [(n, g). n \<leftarrow> names, g \<leftarrow> groups])"
proof -
  let ?pairs = "[(n, g). n \<leftarrow> names, g \<leftarrow> groups]"
  from assms(1,2) obtain it0 it s1 where it0: "si_init (int (length (pl_timestamps self))) = Inr it0"
    and all: "schedule_all s e ?pairs it0 self = (Inr it, s1)" and self': "self' = s1\<lparr>pl_orders_iter := Some it\<rparr>"
    by (auto simp: generate_order_iterations_def)
  have z: "si_size it0 = length (pl_timestamps self)" "bucket_of it0 i = []"
    using it0 by (auto simp: si_init_def bucket_of_def split: if_splits)
  have u: "\<forall>(name, g)\<in>set ?pairs. unmasked self name" using assms(5) by auto
  from schedule_all_Inr [OF all assms(3,4) z(1) u] z assms(6) self' show ?thesis by auto
qed

definition schedule_pipeline :: "unit pipeline" where
  "schedule_pipeline = (pipeline_init [example_group ''ES'' 7, example_group ''CL'' 8] [10, 20, 30] 0)\<lparr>
     pl_signal_cgroups := [(''cross'', [example_group ''ES'' 7, example_group ''CL'' 8])],
     pl_signal_values := [(''ES'', [(''cross'', (FloatDtype, map (\<lambda>x. VNum (NpFloat (Fin x))) [0, 1, 1]))]),
                          (''CL'', [(''cross'', (FloatDtype, map (\<lambda>x. VNum (NpFloat (Fin x))) [1, 1, 0]))])],
     pl_rule_names := [''enter''], pl_rules := [(''enter'', ())], pl_rule_signals := [(''enter'', (''cross'', [VNum (PyInt 1)]))],
     pl_position_filters := [(''enter'', None)]\<rparr>"

lemma schedule_pipeline_values: "values_ok 3 (pl_signal_values schedule_pipeline)"
  by (auto simp: values_ok_def schedule_pipeline_def split: if_splits)

lemma schedule_pipeline_due:
  "due schedule_pipeline (Datetime64 DT_ns (Some 20)) (Datetime64 DT_ns (Some 30)) 1 (''enter'', example_group ''ES'' 7)"
  "due schedule_pipeline (Datetime64 DT_ns (Some 20)) (Datetime64 DT_ns (Some 30)) 1 (''enter'', example_group ''CL'' 8)"
  by (auto simp: due_def schedule_pipeline_def pipeline_init_def example_group_def dict_list_def in_window_def py_eq_def as_number_def
      num_eq_def num_operands_def f_eq_def image_iff)

theorem order_iterations_schedule_witness:
  "\<exists>self' iters. generate_order_iterations (\<lambda>_. None) (Some [''enter'']) (Some [example_group ''ES'' 7, example_group ''CL'' 8])
       (DateValue (Datetime64 DT_ns (Some 20))) (DateValue (Datetime64 DT_ns (Some 30))) schedule_pipeline = (Inr (), self') \<and>
     pl_orders_iter self' = Some iters \<and>
     map call_of (bucket_of iters 1) = [((), example_group ''ES'' 7, ''enter''), ((), example_group ''CL'' 8, ''enter'')]"
proof -
  let ?run = "generate_order_iterations (\<lambda>_. None) (Some [''enter'']) (Some [example_group ''ES'' 7, example_group ''CL'' 8])
       (DateValue (Datetime64 DT_ns (Some 20))) (DateValue (Datetime64 DT_ns (Some 30))) schedule_pipeline"
  have "fst ?run = Inr ()" by code_simp
  then obtain self' where run: "?run = (Inr (), self')" by (cases ?run) auto
  have r: "validate_date_range (\<lambda>_. None) (DateValue (Datetime64 DT_ns (Some 20))) (DateValue (Datetime64 DT_ns (Some 30)))
      = Inr (Datetime64 DT_ns (Some 20), Datetime64 DT_ns (Some 30))"
    by (simp add: validate_date_range_def parse_bound_def isnat_def dt_lt_def)
  have n: "length (pl_timestamps schedule_pipeline) = 3" "strictly_increasing (pl_timestamps schedule_pipeline)"
    by (simp_all add: schedule_pipeline_def pipeline_init_def strictly_increasing_def)
  have u: "\<forall>name\<in>set [''enter'']. unmasked schedule_pipeline name"
    by (simp add: unmasked_def schedule_pipeline_def pipeline_init_def py_eq_def as_number_def num_eq_def num_operands_def f_eq_def)
  from order_iterations_schedule [OF run r n(2) _ u, of 1] n(1) schedule_pipeline_values schedule_pipeline_due run
  show ?thesis by (auto simp: call_for_def schedule_pipeline_def)
qed

text \<open>
  Signals outside the date window are overwritten by \<open>False\<close> when they are boolean, and a rule may be
  triggered by \<open>False\<close>: such a rule is scheduled at timestamp 10, before the start date 20, although its
  signal is \<open>True\<close> throughout.
\<close>

definition masked_pipeline :: "unit pipeline" where
  "masked_pipeline = (pipeline_init [example_group ''ES'' 7] [10, 20, 30] 0)\<lparr>
     pl_signal_cgroups := [(''flat'', [example_group ''ES'' 7])],
     pl_signal_values := [(''ES'', [(''flat'', (BoolDtype, [VNpBool True, VNpBool True, VNpBool True]))])],
     pl_rule_names := [''enter''], pl_rules := [(''enter'', ())], pl_rule_signals := [(''enter'', (''flat'', [VBool False]))],
     pl_position_filters := [(''enter'', None)]\<rparr>"

lemma masked_signal_triggers:
  "case generate_order_iterations (\<lambda>_. None) (Some [''enter'']) (Some [example_group ''ES'' 7])
      (DateValue (Datetime64 DT_ns (Some 20))) (DateValue (Datetime64 DT_ns None)) masked_pipeline of
     (r, self') \<Rightarrow> r = Inr () \<and> (case pl_orders_iter self' of None \<Rightarrow> False | Some iters \<Rightarrow>
       map call_of (bucket_of iters 0) = [((), example_group ''ES'' 7, ''enter'')] \<and> bucket_of iters 1 = [] \<and> bucket_of iters 2 = [])"
  by code_simp

end
