(* ===== verification/Strategy_Engine.thy ===== *)
theory Strategy_Engine
  imports Strategy_Stages Market_Simulators
begin

text \<open>
  The event loop of \<open>Strategy\<close> (\<open>strategy.py\<close>): one iteration expires and executes the open orders,
  calls the scheduled rules, passes their orders through the risk policies and executes again when
  trades do not lag. Rules and market simulators are arbitrary programs over the order store (rules
  over the account as well); the engine captures the orders it owns before every call and restores
  them when the call or its validation raises. The lemmas show what that guard achieves whatever the
  callbacks do.
\<close>

section \<open>State\<close>

type_synonym rule_fn = "contract_group \<Rightarrow> nat \<Rightarrow> grid \<Rightarrow> stage_values \<Rightarrow> stage_array \<Rightarrow> nat list
    \<Rightarrow> (order_store \<times> account, nat attr list option) prog"

type_synonym market_sim = "nat list \<Rightarrow> nat \<Rightarrow> grid \<Rightarrow> (string, stage_values) dict \<Rightarrow> (string, stage_values) dict
    \<Rightarrow> (order_store, trade attr list option) prog"

record strategy = "rule_fn pipeline" +
  st_store :: order_store
  st_account :: account
  st_registry :: registry
  st_market_sims :: "market_sim list"
  st_risk_policies :: "policy list"
  st_orders :: "nat list"
  st_current_orders :: "nat list"
  st_order_decisions :: "order_decision list"
  st_run_final_calc :: bool
  st_running :: bool

abbreviation st_heap :: "strategy \<Rightarrow> order_heap" where
  "st_heap self \<equiv> os_heap (st_store self)"

definition on_heap :: "(order_heap, 'a) prog \<Rightarrow> (strategy, 'a) prog" where
  "on_heap m self = (case m (st_heap self) of (r, h) \<Rightarrow> (r, self\<lparr>st_store := (st_store self)\<lparr>os_heap := h\<rparr>\<rparr>))"

definition on_store :: "(order_store, 'a) prog \<Rightarrow> (strategy, 'a) prog" where
  "on_store m self = (case m (st_store self) of (r, s) \<Rightarrow> (r, self\<lparr>st_store := s\<rparr>))"

definition on_account :: "(account, 'a) prog \<Rightarrow> (strategy, 'a) prog" where
  "on_account m self = (case m (st_account self) of (r, a) \<Rightarrow> (r, self\<lparr>st_account := a\<rparr>))"

definition on_callback_state :: "(order_store \<times> account, 'a) prog \<Rightarrow> (strategy, 'a) prog" where
  "on_callback_state m self = (case m (st_store self, st_account self) of (r, s, a) \<Rightarrow> (r, self\<lparr>st_store := s, st_account := a\<rparr>))"

definition add_market_sim :: "market_sim attr \<Rightarrow> strategy \<Rightarrow> strategy res" where
  "add_market_sim f self =
     (if st_running self then Inl (RuntimeError ''cannot register market simulators during a run'')
      else case f of Foreign _ \<Rightarrow> Inl (TypeError ''market simulator must be callable'')
        | Attr g \<Rightarrow> Inr (self\<lparr>st_market_sims := st_market_sims self @ [g]\<rparr>))"

text \<open>A policy object: its \<open>name\<close> attribute (\<open>VNone\<close> when it has none) and its \<open>evaluate\<close> attribute.\<close>

definition add_risk_policy :: "pyval \<Rightarrow> (nat \<Rightarrow> risk_context \<Rightarrow> (order_heap, policy_result attr) prog) attr \<Rightarrow> strategy \<Rightarrow> strategy res" where
  "add_risk_policy policy_name evaluate self =
     (if st_running self then Inl (RuntimeError ''cannot register risk policies during a run'')
      else case policy_name of
          VStr n \<Rightarrow> rbind (require (n \<noteq> []) (TypeError ''risk policy must expose a non-empty string name'')) (\<lambda>_.
            case evaluate of Foreign _ \<Rightarrow> Inl (TypeError ''risk policy must expose a callable evaluate method'')
              | Attr f \<Rightarrow> Inr (self\<lparr>st_risk_policies := st_risk_policies self @ [(n, f)]\<rparr>))
        | _ \<Rightarrow> Inl (TypeError ''risk policy must expose a non-empty string name''))"

section \<open>The callback guard\<close>

definition restore_orders :: "order_callback_state list \<Rightarrow> strategy \<Rightarrow> strategy" where
  "restore_orders states self = self\<lparr>st_store := (st_store self)\<lparr>os_heap := restore_all states (st_heap self)\<rparr>\<rparr>"

text \<open>
  \<open>except Exception\<close> restores and raises \<open>BacktestCallbackError\<close>; \<open>except BaseException\<close> restores and
  lets the interruption through.
\<close>

definition guarded :: "string \<Rightarrow> order_callback_state list \<Rightarrow> (strategy, 'a) prog \<Rightarrow> (strategy, 'a) prog" where
  "guarded msg states m self = (case m self of
      (Inl e, s) \<Rightarrow> (Inl (if is_exception e then BacktestCallbackError msg e else e), restore_orders states s)
    | r \<Rightarrow> r)"

section \<open>Execution of the open orders\<close>

definition update_current_orders :: "strategy \<Rightarrow> strategy" where
  "update_current_orders self = self\<lparr>st_current_orders := filter (\<lambda>i. is_open (st_heap self i)) (st_current_orders self)\<rparr>"

definition order_index :: "grid \<Rightarrow> nat \<Rightarrow> order \<Rightarrow> (nat \<times> int) res" where
  "order_index ts i ord = (case as_datetime (o_timestamp ord) of
      None \<Rightarrow> Inl (TypeError ''invalid type promotion'')
    | Some d \<Rightarrow> let idx = searchsorted_left ts (dt_ns d) in
        rbind (pq_assert (idx < length ts \<and> idx \<le> i) ''order timestamp index'') (\<lambda>_. Inr (idx, case dt_ns d of None \<Rightarrow> 0 | Some t \<Rightarrow> t)))"

text \<open>One order of the first loop: requested cancels, \<open>DAY\<close> expiry, \<open>FOK\<close> orders past the lag, and eligibility.\<close>

definition expire_order :: "grid \<Rightarrow> nat \<Rightarrow> nat \<Rightarrow> order \<Rightarrow> (bool \<times> order) res" where
  "expire_order ts lag i ord =
     rbind (order_index ts i ord) (\<lambda>(idx, t).
     rbind (grid_at ts i) (\<lambda>now.
     let ord = (if o_status ord = Attr CANCEL_REQUESTED then cancel ord else ord);
         ord = (if o_time_in_force ord = Attr DAY \<and> day_of t < day_of now then cancel ord else ord);
         ord = (if lag < i - idx \<and> o_time_in_force ord = Attr FOK then cancel ord else ord) in
     Inr (lag \<le> i - idx \<and> is_open ord, ord)))"

primrec expire_orders :: "grid \<Rightarrow> nat \<Rightarrow> nat \<Rightarrow> nat list \<Rightarrow> nat set \<Rightarrow> (order_heap, nat set) prog" where
  "expire_orders ts lag i [] eligible = preturn eligible"
| "expire_orders ts lag i (oid # oids) eligible =
     pbind (\<lambda>heap. (expire_order ts lag i (heap oid), heap)) (\<lambda>(ok, ord).
     pbind (pmodify (\<lambda>heap. heap(oid := ord))) (\<lambda>_.
     expire_orders ts lag i oids (if ok then insert oid eligible else eligible)))"

definition reported_fills :: "trade list \<Rightarrow> (nat, int) dict" where
  "reported_fills trades = fold (\<lambda>t d. case t_order t of Attr oid \<Rightarrow> dict_set oid (filled_of d oid + trade_fill t) d | Foreign _ \<Rightarrow> d) trades []"

text \<open>Fills the simulator reported and did not apply itself.\<close>

definition apply_fill :: "(nat, int) dict \<Rightarrow> nat \<times> pyval \<times> order_status attr \<Rightarrow> (order_heap, unit) prog" where
  "apply_fill fills = (\<lambda>(oid, original, _) heap.
     if py_eq (o_qty (heap oid)) original \<and> filled_of fills oid \<noteq> 0 then heap_fill oid (VNum (PyInt (filled_of fills oid))) heap
     else (Inr (), heap))"

definition validate_callback :: "nat set \<Rightarrow> order_callback_state list \<Rightarrow> order_heap \<Rightarrow> unit res" where
  "validate_callback eligible states heap =
     res_each (\<lambda>s. if ocs_order s \<in> eligible then validate_identity heap s else validate_unchanged heap False s) states"

text \<open>
  The body of the \<open>try\<close>: the simulator sees the eligible current orders of \<open>before\<close>, the state at the
  call; its result is validated against that state, unapplied fills are applied and the trades booked.
\<close>

definition execute_orders :: "numerics \<Rightarrow> price_function \<Rightarrow> nat \<Rightarrow> nat set \<Rightarrow> market_sim \<Rightarrow> strategy \<Rightarrow> (strategy, unit) prog" where
  "execute_orders num price i eligible sim before =
     (let current = filter (\<lambda>oid. oid \<in> eligible) (st_current_orders before);
          order_states = map (\<lambda>oid. (oid, o_qty (st_heap before oid), o_status (st_heap before oid))) current in
      pbind (on_store (sim current i (pl_timestamps before) (pl_indicator_values before) (pl_signal_values before))) (\<lambda>returned.
      pbind (on_heap (\<lambda>heap. (validate_callback eligible (map (capture (st_heap before)) (st_current_orders before)) heap, heap))) (\<lambda>_.
      pbind (plift (grid_at (pl_timestamps before) i)) (\<lambda>now.
      pbind (on_heap (\<lambda>heap. (validate_market_trades heap current (Datetime64 DT_ns (Some now)) order_states returned, heap))) (\<lambda>trades.
      pbind (on_heap (pforeach (apply_fill (reported_fills trades)) order_states)) (\<lambda>_ self.
      if trades = [] then (Inr (), self)
      else on_account (add_trades num price (st_heap self) (st_registry self) (map Attr trades)) self))))))"

definition run_simulator :: "numerics \<Rightarrow> price_function \<Rightarrow> nat \<Rightarrow> nat set \<Rightarrow> market_sim \<Rightarrow> (strategy, unit) prog" where
  "run_simulator num price i eligible sim self =
     (let before = update_current_orders self in
      guarded ''market simulator failed'' (map (capture (st_heap before)) (st_current_orders before))
        (execute_orders num price i eligible sim before) before)"

definition sim_market :: "numerics \<Rightarrow> price_function \<Rightarrow> nat \<Rightarrow> (strategy, unit) prog" where
  "sim_market num price i =
     pbind (\<lambda>self. on_heap (expire_orders (pl_timestamps self) (pl_trade_lag self) i (st_current_orders self) {}) self) (\<lambda>eligible.
     pbind (pgets st_market_sims) (\<lambda>sims.
     pbind (pforeach (run_simulator num price i eligible) sims) (\<lambda>_.
     pmodify update_current_orders)))"

section \<open>Rules\<close>

definition position_blocks :: "string \<Rightarrow> float64 \<Rightarrow> bool" where
  "position_blocks position_filter curr_pos =
     (position_filter = ''zero'' \<and> \<not> isclose0 curr_pos \<or>
      position_filter = ''nonzero'' \<and> isclose0 curr_pos \<or>
      position_filter = ''positive'' \<and> (f_lt curr_pos (Fin 0) \<or> isclose0 curr_pos) \<or>
      position_filter = ''negative'' \<and> (f_lt (Fin 0) curr_pos \<or> isclose0 curr_pos))"

definition filter_blocks :: "nat \<Rightarrow> contract_group \<Rightarrow> string \<Rightarrow> strategy \<Rightarrow> bool res" where
  "filter_blocks idx g rule_name self =
     rbind (dict_item (pl_position_filters self) rule_name) (\<lambda>position_filter. case position_filter of
         None \<Rightarrow> Inr False
       | Some pf \<Rightarrow> rbind (grid_at (pl_timestamps self) idx) (\<lambda>t. rbind (position (st_account self) g t) (\<lambda>p. Inr (position_blocks pf p))))"

definition call_rule :: "nat \<Rightarrow> rule_fn \<Rightarrow> contract_group \<Rightarrow> rule_params \<Rightarrow> order_callback_state list \<Rightarrow> (strategy, nat list) prog" where
  "call_rule idx rule_function g params states =
     pbind (\<lambda>self. on_callback_state (rule_function g idx (pl_timestamps self) (rp_indicator_values params) (rp_signal_values params)
        (st_current_orders self)) self) (\<lambda>returned.
     pbind (on_heap (\<lambda>heap. (res_each (validate_unchanged heap True) states, heap))) (\<lambda>_ self.
     case rbind (grid_at (pl_timestamps self) idx) (\<lambda>t.
         validate_rule_orders (st_registry self) g (Datetime64 DT_ns (Some t)) (map ocs_order states)
           (Some (''strategy-roll:'' @ dec_of (length (st_orders self)))) returned (st_store self)) of
       Inl e \<Rightarrow> (Inl e, self)
     | Inr (orders, store) \<Rightarrow> (Inr orders, self\<lparr>st_store := store\<rparr>)))"

definition get_orders :: "nat \<Rightarrow> rule_fn \<Rightarrow> contract_group \<Rightarrow> rule_params \<Rightarrow> (strategy, nat list) prog" where
  "get_orders idx rule_function g params self =
     (case filter_blocks idx g (rp_rule_name params) self of
        Inl e \<Rightarrow> (Inl (if is_exception e then BacktestCallbackError ''rule callback failed'' e else e), self)
      | Inr True \<Rightarrow> (Inr [], self)
      | Inr False \<Rightarrow> (let states = map (capture (st_heap self)) (st_current_orders self) in
          guarded ''rule callback failed'' states (call_rule idx rule_function g params states) self))"

primrec decide_orders :: "int \<Rightarrow> nat list \<Rightarrow> nat list \<Rightarrow> (strategy, nat list) prog" where
  "decide_orders now [] accepted = preturn accepted"
| "decide_orders now (oid # oids) accepted =
     pbind (\<lambda>self. on_heap (decide_order oid \<lparr>rc_account = st_account self, rc_registry = st_registry self, rc_timestamp = now,
        rc_open_orders = st_current_orders self @ accepted\<rparr> (st_risk_policies self)) self) (\<lambda>decision.
     pbind (pmodify (\<lambda>self. self\<lparr>st_order_decisions := st_order_decisions self @ [decision]\<rparr>)) (\<lambda>_.
     if od_status decision = ACCEPTED then decide_orders now oids (accepted @ [oid])
     else pbind (on_heap (heap_cancel oid)) (\<lambda>_. decide_orders now oids accepted)))"

definition run_rule :: "numerics \<Rightarrow> price_function \<Rightarrow> nat \<Rightarrow> rule_fn order_tup \<Rightarrow> (strategy, unit) prog" where
  "run_rule num price i = (\<lambda>(rule_function, g, params).
     pbind (get_orders i rule_function g params) (\<lambda>orders.
     pbind (\<lambda>self. (grid_at (pl_timestamps self) i, self)) (\<lambda>now.
     pbind (decide_orders now orders []) (\<lambda>accepted.
     pbind (pmodify (\<lambda>self. self\<lparr>st_orders := st_orders self @ orders, st_current_orders := st_current_orders self @ accepted\<rparr>)) (\<lambda>_ self.
     if pl_trade_lag self = 0 then sim_market num price i self else (Inr (), update_current_orders self))))))"

definition run_iteration :: "numerics \<Rightarrow> price_function \<Rightarrow> nat \<Rightarrow> (strategy, unit) prog" where
  "run_iteration num price i =
     pbind (sim_market num price i) (\<lambda>_.
     pbind (\<lambda>self. (case pl_orders_iter self of None \<Rightarrow> Inl (AttributeError ''orders_iter'') | Some iters \<Rightarrow> si_at iters (int i), self)) (\<lambda>rules.
     pforeach (run_rule num price i) rules))"

text \<open>The loop skips timestamps before the start date and stops at the first one after the end date.\<close>

definition iteration_indices :: "grid \<Rightarrow> datetime64 \<Rightarrow> datetime64 \<Rightarrow> nat list" where
  "iteration_indices ts start_date end_date =
     takeWhile (\<lambda>i. \<not> (case dt_ns end_date of None \<Rightarrow> False | Some e \<Rightarrow> e < ts ! i))
       (filter (\<lambda>i. \<not> (case dt_ns start_date of None \<Rightarrow> False | Some s \<Rightarrow> ts ! i < s)) [0..<length ts])"

definition run_rules :: "numerics \<Rightarrow> price_function \<Rightarrow> (string \<Rightarrow> datetime64 option) \<Rightarrow> pyval list option option
    \<Rightarrow> contract_group attr list option option \<Rightarrow> date_arg \<Rightarrow> date_arg \<Rightarrow> (strategy, unit) prog" where
  "run_rules num price parse rule_names contract_groups start end =
     pbind (\<lambda>self. (validated_stage_names rule_names (pl_rule_names self), self)) (\<lambda>names.
     pbind (\<lambda>self. (validated_stage_groups contract_groups (pl_contract_groups self), self)) (\<lambda>groups.
     pbind (plift (validate_date_range parse start end)) (\<lambda>(start_date, end_date).
     pbind (generate_order_iterations parse (Some names) (Some groups) (DateValue start_date) (DateValue end_date)) (\<lambda>_.
     pbind (\<lambda>self. pforeach (run_iteration num price) (iteration_indices (pl_timestamps self) start_date end_date) self) (\<lambda>_ self.
     if st_run_final_calc self
     then (case final_timestamp_at_or_before (pl_timestamps self) (dt_ns end_date) of
         None \<Rightarrow> (Inr (), self)
       | Some t \<Rightarrow> on_account (calc price t) self)
     else (Inr (), self))))))"

section \<open>A run\<close>

record telemetry =
  tl_timestamps_processed :: nat
  tl_orders_proposed :: nat
  tl_orders_accepted :: nat
  tl_orders_rejected :: nat
  tl_orders_filled :: nat
  tl_orders_cancelled :: nat
  tl_orders_open :: nat
  tl_trades_executed :: nat

definition backtest_telemetry :: "strategy \<Rightarrow> telemetry" where
  "backtest_telemetry self =
     (let accepted = length (filter (\<lambda>d. od_status d = ACCEPTED) (st_order_decisions self));
          count = (\<lambda>P. length (filter (\<lambda>i. P (st_heap self i)) (st_orders self))) in
      \<lparr>tl_timestamps_processed = length (pl_timestamps self), tl_orders_proposed = length (st_orders self),
       tl_orders_accepted = accepted, tl_orders_rejected = length (st_order_decisions self) - accepted,
       tl_orders_filled = count (\<lambda>ord. o_status ord = Attr FILLED), tl_orders_cancelled = count (\<lambda>ord. o_status ord = Attr CANCELLED),
       tl_orders_open = count is_open, tl_trades_executed = trade_count (st_account self)\<rparr>)"

text \<open>
  The stages \<open>run\<close> measures; \<open>depth\<close> is the interpreter's recursion budget. The stage graph counts
  the registered simulators. \<open>_running\<close> is cleared whatever happens.
\<close>

definition run_stages :: "numerics \<Rightarrow> price_function \<Rightarrow> (string \<Rightarrow> datetime64 option) \<Rightarrow> nat \<Rightarrow> (strategy, telemetry) prog" where
  "run_stages num price parse depth =
     pbind (\<lambda>self. (validate_stage_graph (length (st_market_sims self)) self, self)) (\<lambda>_.
     pbind (run_indicators depth None None False) (\<lambda>_.
     pbind (run_signals depth None None False) (\<lambda>_.
     pbind (run_rules num price parse None None DateNone DateNone) (\<lambda>_.
     pgets backtest_telemetry))))"

definition run :: "numerics \<Rightarrow> price_function \<Rightarrow> (string \<Rightarrow> datetime64 option) \<Rightarrow> nat \<Rightarrow> (strategy, telemetry) prog" where
  "run num price parse depth self =
     (if st_running self then (Inl (RuntimeError ''strategy is already running''), self)
      else case run_stages num price parse depth (self\<lparr>st_running := True\<rparr>) of (r, s) \<Rightarrow> (r, s\<lparr>st_running := False\<rparr>))"

section \<open>Which logs an operation touches\<close>

text \<open>Orders and decisions are as before and no order has become current.\<close>

definition quiet :: "strategy \<Rightarrow> strategy \<Rightarrow> bool" where
  "quiet s s' = (st_orders s' = st_orders s \<and> st_order_decisions s' = st_order_decisions s \<and>
     set (st_current_orders s') \<subseteq> set (st_current_orders s))"

definition quiet_prog :: "(strategy, 'a) prog \<Rightarrow> bool" where
  "quiet_prog m = (\<forall>s r s'. m s = (r, s') \<longrightarrow> quiet s s')"

lemma quiet_refl [simp]: "quiet s s" and quiet_trans: "quiet a b \<Longrightarrow> quiet b c \<Longrightarrow> quiet a c"
  by (auto simp: quiet_def)

lemma quiet_progD: "quiet_prog m \<Longrightarrow> m s = (r, s') \<Longrightarrow> quiet s s'"
  by (simp add: quiet_prog_def)

lemma quiet_progI: "(\<And>s r s'. m s = (r, s') \<Longrightarrow> quiet s s') \<Longrightarrow> quiet_prog m"
  by (simp add: quiet_prog_def)

lemma quiet_pbind:
  assumes "quiet_prog m" "\<And>x. quiet_prog (f x)"
  shows "quiet_prog (pbind m f)"
proof (rule quiet_progI)
  fix s r s' assume *: "pbind m f s = (r, s')"
  obtain q t where m: "m s = (q, t)" by fastforce
  note t = quiet_progD [OF assms(1) m]
  show "quiet s s'"
  proof (cases q)
    case (Inl e)
    then show ?thesis using * m t by (simp add: pbind_def)
  next
    case (Inr x)
    then have "f x t = (r, s')" using * m by (simp add: pbind_def)
    from quiet_progD [OF assms(2) this] t show ?thesis by (rule quiet_trans [rotated])
  qed
qed

lemma quiet_lift [simp]:
  "quiet_prog (plift r)" "quiet_prog (preturn x)" "quiet_prog (pgets g)" "quiet_prog (on_heap h)" "quiet_prog (on_store w)"
  "quiet_prog (on_account a)" "quiet_prog (on_callback_state c)" "quiet_prog (pmodify update_current_orders)" "quiet_prog (\<lambda>s. (q s, s))"
  by (auto simp: quiet_prog_def quiet_def on_heap_def on_store_def on_account_def on_callback_state_def update_current_orders_def
      split: prod.splits)

lemma quiet_pforeach: "(\<And>x. quiet_prog (f x)) \<Longrightarrow> quiet_prog (pforeach f xs)"
  by (induction xs) (simp_all add: quiet_pbind)

lemma quiet_local [simp]:
  "quiet_prog (\<lambda>s. on_heap (hs s) s)" "quiet_prog (\<lambda>s. on_account (as s) s)" "quiet_prog (\<lambda>s. on_callback_state (cs s) s)"
  by (auto simp: quiet_prog_def quiet_def on_heap_def on_account_def on_callback_state_def split: prod.splits)

lemma quiet_if: "quiet_prog m \<Longrightarrow> quiet_prog n \<Longrightarrow> quiet_prog (\<lambda>s. if b s then m s else n s)"
  by (simp add: quiet_prog_def)

lemma restore_orders_fields [simp]:
  "st_orders (restore_orders states s) = st_orders s" "st_order_decisions (restore_orders states s) = st_order_decisions s"
  "st_current_orders (restore_orders states s) = st_current_orders s" "st_account (restore_orders states s) = st_account s"
  "st_heap (restore_orders states s) = restore_all states (st_heap s)"
  by (simp_all add: restore_orders_def)

lemma quiet_guarded:
  assumes "quiet_prog m"
  shows "quiet_prog (guarded msg states m)"
proof (rule quiet_progI)
  fix s r s' assume *: "guarded msg states m s = (r, s')"
  obtain q t where m: "m s = (q, t)" by fastforce
  then have "s' = t \<or> s' = restore_orders states t" using * by (cases q) (auto simp: guarded_def)
  then show "quiet s s'" using quiet_progD [OF assms m] by (auto simp: quiet_def)
qed

lemma quiet_run_simulator: "quiet_prog (run_simulator num price i eligible sim)"
proof (rule quiet_progI)
  fix s r s' assume *: "run_simulator num price i eligible sim s = (r, s')"
  have "quiet s (update_current_orders s)" by (auto simp: quiet_def update_current_orders_def)
  moreover have "quiet_prog (execute_orders num price i eligible sim t)" for t
    unfolding execute_orders_def Let_def by (intro quiet_pbind quiet_lift quiet_if quiet_local)
  from quiet_progD [OF quiet_guarded [OF this]] * have "quiet (update_current_orders s) s'"
    unfolding run_simulator_def Let_def by blast
  ultimately show "quiet s s'" by (rule quiet_trans)
qed

lemma quiet_sim_market: "quiet_prog (sim_market num price i)"
  unfolding sim_market_def
  by (intro quiet_pbind quiet_lift quiet_pforeach quiet_run_simulator quiet_local)

lemma quiet_get_orders: "quiet_prog (get_orders idx f g params)"
proof (rule quiet_progI)
  fix s r s' assume *: "get_orders idx f g params s = (r, s')"
  have "quiet_prog (guarded msg states (call_rule idx f g params states))" for msg states
    unfolding call_rule_def
    by (intro quiet_guarded quiet_pbind quiet_lift quiet_local) (auto simp: quiet_prog_def quiet_def split: sum.splits)
  then show "quiet s s'" using * by (auto simp: get_orders_def Let_def split: sum.splits bool.splits dest: quiet_progD)
qed

section \<open>Only accepted orders become current\<close>

lemma run_policies_order: "run_policies ps oid ctx h = (Inr d, h') \<Longrightarrow> od_order d = oid"
proof (induction ps arbitrary: h)
  case (Cons p ps)
  then show ?case by (auto simp: make_decision_def split: attr.splits if_splits)
qed (auto simp: make_decision_def)

lemma decide_order_order: "decide_order oid ctx ps h = (Inr d, h') \<Longrightarrow> od_order d = oid"
  by (auto simp: decide_order_def dest: run_policies_order)

definition accepted_ids :: "order_decision list \<Rightarrow> nat set" where
  "accepted_ids ds = od_order ` {d \<in> set ds. od_status d = ACCEPTED}"

lemma accepted_ids_append [simp]: "accepted_ids (ds @ es) = accepted_ids ds \<union> accepted_ids es"
  by (auto simp: accepted_ids_def)

lemma on_heap_frame:
  "on_heap m s = (r, s') \<Longrightarrow> st_orders s' = st_orders s \<and> st_order_decisions s' = st_order_decisions s \<and> st_current_orders s' = st_current_orders s"
  by (auto simp: on_heap_def split: prod.splits)

lemma decide_orders_log:
  assumes "decide_orders now oids acc s = (r, s')"
  shows "st_orders s' = st_orders s \<and> st_current_orders s' = st_current_orders s \<and> (\<exists>ds. st_order_decisions s' = st_order_decisions s @ ds \<and>
    (\<forall>a. r = Inr a \<longrightarrow> map od_order ds = oids \<and> set a \<subseteq> set acc \<union> accepted_ids ds))"
  using assms
proof (induction oids arbitrary: acc s)
  case Nil
  then show ?case by (auto intro: exI [of _ "[]"])
next
  case (Cons oid oids)
  let ?ctx = "\<lparr>rc_account = st_account s, rc_registry = st_registry s, rc_timestamp = now, rc_open_orders = st_current_orders s @ acc\<rparr>"
  obtain q t where q: "on_heap (decide_order oid ?ctx (st_risk_policies s)) s = (q, t)" by fastforce
  note t = on_heap_frame [OF q]
  show ?case
  proof (cases q)
    case (Inl e)
    then show ?thesis using Cons.prems q t by (auto simp: pbind_def intro: exI [of _ "[]"])
  next
    case (Inr d)
    have d: "od_order d = oid" using q Inr by (auto simp: on_heap_def split: prod.splits dest: decide_order_order)
    let ?t = "t\<lparr>st_order_decisions := st_order_decisions t @ [d]\<rparr>"
    obtain acc' u where u: "decide_orders now oids acc' u = (r, s')" "set acc' \<subseteq> set acc \<union> accepted_ids [d]"
      "st_orders u = st_orders s" "st_current_orders u = st_current_orders s" "st_order_decisions u = st_order_decisions s @ [d]"
    proof (cases "od_status d = ACCEPTED")
      case True
      then have "decide_orders now oids (acc @ [oid]) ?t = (r, s')" using Cons.prems q Inr by (simp add: pbind_def)
      then show ?thesis using that [of "acc @ [oid]" ?t] True d t by (auto simp: accepted_ids_def)
    next
      case False
      obtain v where v: "on_heap (heap_cancel oid) ?t = (Inr (), v)" by (simp add: on_heap_def heap_cancel_def)
      then have "decide_orders now oids acc v = (r, s')" using Cons.prems q Inr False by (simp add: pbind_def)
      then show ?thesis using that [of acc v] on_heap_frame [OF v] t by auto
    qed
    from Cons.IH [OF u(1)] obtain ds where ds: "st_orders s' = st_orders u" "st_current_orders s' = st_current_orders u"
      "st_order_decisions s' = st_order_decisions u @ ds"
      "\<forall>a. r = Inr a \<longrightarrow> map od_order ds = oids \<and> set a \<subseteq> set acc' \<union> accepted_ids ds" by blast
    have "accepted_ids (d # ds) = accepted_ids [d] \<union> accepted_ids ds" using accepted_ids_append [of "[d]" ds] by simp
    moreover have "set a \<subseteq> set acc \<union> (accepted_ids [d] \<union> accepted_ids ds)" if "r = Inr a" for a using ds(4) that u(2) by blast
    ultimately show ?thesis using ds u(3-5) d by (intro conjI exI [of _ "d # ds"]) auto
  qed
qed

text \<open>
  Every current order was accepted; the decisions are those of the orders, in order, up to those of a
  batch whose processing was cut short by a raise.
\<close>

definition cleared :: "strategy \<Rightarrow> bool" where
  "cleared self = (set (st_current_orders self) \<subseteq> accepted_ids (st_order_decisions self))"

definition log_matches :: "strategy \<Rightarrow> bool" where
  "log_matches self = (map od_order (st_order_decisions self) = st_orders self)"

lemma cleared_quiet: "cleared s \<Longrightarrow> quiet s s' \<Longrightarrow> cleared s'" and log_quiet: "log_matches s \<Longrightarrow> quiet s s' \<Longrightarrow> log_matches s'"
  by (auto simp: cleared_def log_matches_def quiet_def)

lemma run_rule_log:
  assumes "run_rule num price i tup s = (r, s')"
  shows "cleared s \<Longrightarrow> cleared s'" "r = Inr u \<Longrightarrow> log_matches s \<Longrightarrow> log_matches s'"
proof -
  obtain f g params where tup: "tup = (f, g, params)" by (cases tup)
  obtain q t where q: "get_orders i f g params s = (q, t)" by fastforce
  note t = quiet_progD [OF quiet_get_orders q]
  have "(\<exists>e. r = Inl e) \<and> s' = t \<or> (\<exists>orders now q2 t2. q = Inr orders \<and> decide_orders now orders [] t = (q2, t2) \<and>
     ((\<exists>e. r = Inl e \<and> q2 = Inl e) \<and> s' = t2 \<or> (\<exists>acc. q2 = Inr acc \<and>
       quiet (t2\<lparr>st_orders := st_orders t2 @ orders, st_current_orders := st_current_orders t2 @ acc\<rparr>) s')))"
  proof (cases q)
    case (Inl e)
    then show ?thesis using assms q by (auto simp: run_rule_def tup pbind_def)
  next
    case q': (Inr orders)
    show ?thesis
    proof (cases "grid_at (pl_timestamps t) i")
      case (Inl e)
      then show ?thesis using assms q q' by (auto simp: run_rule_def tup pbind_def)
    next
      case (Inr now)
      obtain q2 t2 where d: "decide_orders now orders [] t = (q2, t2)" by fastforce
      show ?thesis
      proof (cases q2)
        case (Inl e)
        then have "r = Inl e \<and> s' = t2" using assms q q' Inr d by (simp add: run_rule_def tup pbind_def)
        then show ?thesis using q' d Inl by blast
      next
        case q2: (Inr acc)
        let ?t = "t2\<lparr>st_orders := st_orders t2 @ orders, st_current_orders := st_current_orders t2 @ acc\<rparr>"
        have "(if pl_trade_lag ?t = 0 then sim_market num price i ?t else (Inr (), update_current_orders ?t)) = (r, s')"
          using assms q q' Inr d q2 by (simp add: run_rule_def tup pbind_def)
        moreover have "quiet ?t (update_current_orders ?t)" by (auto simp: quiet_def update_current_orders_def)
        ultimately have "quiet ?t s'" using quiet_progD [OF quiet_sim_market] by (auto split: if_splits)
        then show ?thesis using q' d q2 by blast
      qed
    qed
  qed
  note cases = this
  show "cleared s'" if c: "cleared s"
    using cases cleared_quiet [OF c t]
    by (auto dest!: decide_orders_log simp: quiet_def cleared_def) blast
  show "log_matches s'" if "r = Inr u" and l: "log_matches s"
    using cases that(1) log_quiet [OF l t]
    by (auto dest!: decide_orders_log simp: quiet_def log_matches_def)
qed

subsection \<open>The pipeline stages leave the engine's state alone\<close>

definition keeps_more :: "(('r, 'z) pipeline_scheme, 'a) prog \<Rightarrow> bool" where
  "keeps_more m = (\<forall>s r s'. m s = (r, s') \<longrightarrow> pipeline.more s' = pipeline.more s)"

lemma keeps_moreD: "keeps_more m \<Longrightarrow> m s = (r, s') \<Longrightarrow> pipeline.more s' = pipeline.more s"
  by (simp add: keeps_more_def)

lemma keeps_more_pbind:
  assumes "keeps_more m" "\<And>x. keeps_more (f x)"
  shows "keeps_more (pbind m f)"
  unfolding keeps_more_def
proof (intro allI impI)
  fix s r s' assume *: "pbind m f s = (r, s')"
  obtain q t where m: "m s = (q, t)" by fastforce
  note t = keeps_moreD [OF assms(1) m]
  show "pipeline.more s' = pipeline.more s"
  proof (cases q)
    case (Inl e)
    then show ?thesis using * m t by (simp add: pbind_def)
  next
    case (Inr x)
    then have "f x t = (r, s')" using * m by (simp add: pbind_def)
    from keeps_moreD [OF assms(2) this] t show ?thesis by simp
  qed
qed

lemma keeps_more_lift [simp]:
  "keeps_more (plift r)" "keeps_more (preturn x)" "keeps_more (pgets g)" "keeps_more (\<lambda>s. (q s, s))"
  "keeps_more (pmodify (\<lambda>s. s\<lparr>pl_indicator_values := iv s\<rparr>))" "keeps_more (pmodify (\<lambda>s. s\<lparr>pl_signal_values := sv s\<rparr>))"
  "keeps_more (pmodify (\<lambda>s. s\<lparr>pl_orders_iter := oi s\<rparr>))"
  "keeps_more (pmodify (\<lambda>s. if b s then s\<lparr>pl_indicator_values := iv s\<rparr> else s))"
  "keeps_more (pmodify (\<lambda>s. if b s then s\<lparr>pl_signal_values := sv s\<rparr> else s))"
  "keeps_more (pmodify (\<lambda>s. if b s then s else s\<lparr>pl_indicator_values := iv s\<rparr>))"
  "keeps_more (pmodify (\<lambda>s. if b s then s else s\<lparr>pl_signal_values := sv s\<rparr>))"
  by (auto simp: keeps_more_def)

lemma keeps_more_pforeach: "(\<And>x. keeps_more (f x)) \<Longrightarrow> keeps_more (pforeach f xs)"
  by (induction xs) (simp_all add: keeps_more_pbind)

lemma keeps_more_if: "keeps_more m \<Longrightarrow> keeps_more n \<Longrightarrow> keeps_more (\<lambda>s. if b s then m s else n s)"
  by (simp add: keeps_more_def)

lemma keeps_more_indicator_step: "(\<And>p. keeps_more (rec p)) \<Longrightarrow> keeps_more (indicator_step rec g name)"
  unfolding indicator_step_def
  by (intro keeps_more_pbind keeps_more_lift keeps_more_pforeach keeps_more_if)
     (auto simp: keeps_more_def split: option.splits sum.splits)

lemma keeps_more_signal_step:
  assumes "\<And>p. keeps_more (rec p)"
  shows "keeps_more (signal_step rec g name)"
proof -
  have "keeps_more (\<lambda>self. case wrap_callback msg (rr self) of Inl e \<Rightarrow> (Inl e, self)
      | Inr v \<Rightarrow> (Inr (), self\<lparr>pl_signal_values := ns_setattr h n v (pl_signal_values self)\<rparr>))" for msg rr h n
    by (auto simp: keeps_more_def split: sum.splits)
  note this [intro]
  have opt: "(\<And>x. keeps_more (m x)) \<Longrightarrow> keeps_more (\<lambda>s. case ob s of None \<Rightarrow> (Inl e, s) | Some x \<Rightarrow> m x s)" for m ob e
    by (auto simp: keeps_more_def split: option.splits)
  show ?thesis
    unfolding signal_step_def if_distribR
    by (intro keeps_more_pbind keeps_more_lift)
       (auto intro!: keeps_more_pbind keeps_more_lift keeps_more_pforeach keeps_more_if opt assms split: if_splits)
qed

lemma keeps_more_run_indicators: "keeps_more (run_indicators depth names groups clear_all)"
proof (induction depth arbitrary: names groups clear_all)
  case (Suc depth)
  then show ?case
    by (auto intro!: keeps_more_pbind keeps_more_pforeach keeps_more_indicator_step)
qed simp

lemma keeps_more_run_signals: "keeps_more (run_signals depth names groups clear_all)"
proof (induction depth arbitrary: names groups clear_all)
  case (Suc depth)
  then show ?case
    by (auto intro!: keeps_more_pbind keeps_more_pforeach keeps_more_signal_step)
qed simp

lemma keeps_more_schedule_all: "keeps_more (schedule_all s e pairs iters)"
  by (induction pairs arbitrary: iters) (auto intro!: keeps_more_pbind split: option.splits)

lemma keeps_more_generate: "keeps_more (generate_order_iterations parse names groups start end)"
  unfolding generate_order_iterations_def
  by (auto intro!: keeps_more_pbind keeps_more_schedule_all split: prod.splits)

lemma quiet_keeps_more: "keeps_more m \<Longrightarrow> quiet_prog m"
proof (rule quiet_progI)
  fix s r s' assume *: "keeps_more m" "m s = (r, s')"
  from keeps_moreD [OF *] show "quiet s s'" by (cases s; cases s') (auto simp: quiet_def)
qed

subsection \<open>Along a run\<close>

lemma pforeach_success_invariant:
  assumes "pforeach f xs s = (Inr u, t)" "I s" "\<And>x s v s'. f x s = (Inr v, s') \<Longrightarrow> I s \<Longrightarrow> I s'"
  shows "I t"
  using assms
proof (induction xs arbitrary: s)
  case (Cons x xs)
  from Cons.prems(1) obtain v w where "f x s = (Inr v, w)" "pforeach f xs w = (Inr u, t)" by auto
  then show ?case using Cons.IH [of w] Cons.prems(2,3) by metis
qed simp

lemma run_iteration_log:
  assumes "run_iteration num price i s = (r, s')"
  shows "cleared s \<Longrightarrow> cleared s'" "r = Inr u \<Longrightarrow> log_matches s \<Longrightarrow> log_matches s'"
proof -
  obtain q t where q: "sim_market num price i s = (q, t)" by fastforce
  note t = quiet_progD [OF quiet_sim_market q]
  have rest: "(\<exists>e. r = Inl e) \<and> s' = t \<or> (\<exists>rules. pforeach (run_rule num price i) rules t = (r, s'))"
    using assms q by (auto simp: run_iteration_def pbind_def split: sum.splits option.splits)
  show "cleared s'" if "cleared s"
    using rest cleared_quiet [OF that t] pforeach_invariant [where I = cleared] run_rule_log(1) by metis
  show "log_matches s'" if "r = Inr u" "log_matches s"
    using rest that(1) log_quiet [OF that(2) t] pforeach_success_invariant [where I = log_matches] run_rule_log(2)
    by (metis sum.distinct(1))
qed

text \<open>
  Invariants of programs: kept whatever the outcome, or kept by every return.
\<close>

definition preserves :: "('s \<Rightarrow> bool) \<Rightarrow> ('s, 'a) prog \<Rightarrow> bool" where
  "preserves I m = (\<forall>s r s'. m s = (r, s') \<longrightarrow> I s \<longrightarrow> I s')"

definition preserves_ok :: "('s \<Rightarrow> bool) \<Rightarrow> ('s, 'a) prog \<Rightarrow> bool" where
  "preserves_ok I m = (\<forall>s x s'. m s = (Inr x, s') \<longrightarrow> I s \<longrightarrow> I s')"

lemma preserves_pbind: "preserves I m \<Longrightarrow> (\<And>x. preserves I (f x)) \<Longrightarrow> preserves I (pbind m f)"
  unfolding preserves_def pbind_def by (auto split: prod.splits sum.splits)

lemma preserves_ok_pbind: "preserves_ok I m \<Longrightarrow> (\<And>x. preserves_ok I (f x)) \<Longrightarrow> preserves_ok I (pbind m f)"
  unfolding preserves_ok_def by (auto simp: pbind_Inr_iff)

lemma preserves_quiet: "quiet_prog m \<Longrightarrow> preserves cleared m" "quiet_prog m \<Longrightarrow> preserves_ok log_matches m"
  by (auto simp: preserves_def preserves_ok_def dest: quiet_progD cleared_quiet log_quiet)

lemma preserves_iterations:
  "preserves cleared (\<lambda>s. pforeach (run_iteration num price) (ks s) s)"
  "preserves_ok log_matches (\<lambda>s. pforeach (run_iteration num price) (ks s) s)"
  unfolding preserves_def preserves_ok_def
  using pforeach_invariant [where I = cleared and f = "run_iteration num price"] run_iteration_log(1)
    pforeach_success_invariant [where I = log_matches and f = "run_iteration num price"] run_iteration_log(2)
  by metis+

lemma quiet_final_calc: "quiet_prog (\<lambda>self. if st_run_final_calc self
     then (case final_timestamp_at_or_before (pl_timestamps self) t of None \<Rightarrow> (Inr (), self) | Some t \<Rightarrow> on_account (calc price t) self)
     else (Inr (), self))"
  by (rule quiet_progI) (auto simp: quiet_def on_account_def split: if_splits option.splits prod.splits)

lemma preserves_prod:
  "(\<And>a b. preserves I (f a b)) \<Longrightarrow> preserves I (case p of (a, b) \<Rightarrow> f a b)"
  "(\<And>a b. preserves_ok I (g a b)) \<Longrightarrow> preserves_ok I (case p of (a, b) \<Rightarrow> g a b)"
  by (cases p; simp)+

lemmas quiet_stages = quiet_lift(1,9) quiet_final_calc quiet_keeps_more [OF keeps_more_generate]
  quiet_keeps_more [OF keeps_more_run_indicators] quiet_keeps_more [OF keeps_more_run_signals]

lemma preserves_run_rules:
  "preserves cleared (run_rules num price parse names groups start end)"
  "preserves_ok log_matches (run_rules num price parse names groups start end)"
  unfolding run_rules_def
  by (intro preserves_pbind preserves_prod preserves_iterations preserves_quiet(1) [OF quiet_stages(1)] preserves_quiet(1) [OF quiet_stages(2)]
        preserves_quiet(1) [OF quiet_stages(3)] preserves_quiet(1) [OF quiet_stages(4)])
     (intro preserves_ok_pbind preserves_prod preserves_iterations preserves_quiet(2) [OF quiet_stages(1)] preserves_quiet(2) [OF quiet_stages(2)]
        preserves_quiet(2) [OF quiet_stages(3)] preserves_quiet(2) [OF quiet_stages(4)])

lemma telemetry_counts:
  assumes "log_matches s"
  shows "tl_orders_accepted (backtest_telemetry s) + tl_orders_rejected (backtest_telemetry s) = length (st_orders s)"
    "tl_orders_proposed (backtest_telemetry s) = length (st_orders s)"
proof -
  have l: "length (st_order_decisions s) = length (st_orders s)"
    using arg_cong [OF assms [unfolded log_matches_def], of length] by simp
  show "tl_orders_accepted (backtest_telemetry s) + tl_orders_rejected (backtest_telemetry s) = length (st_orders s)"
    unfolding l [symmetric] by (simp add: backtest_telemetry_def Let_def)
  show "tl_orders_proposed (backtest_telemetry s) = length (st_orders s)" by (simp add: backtest_telemetry_def Let_def)
qed

section \<open>A simulator call and the order it fills\<close>

lemma sint_word_of_int_small: "\<bar>k\<bar> < 2 ^ 63 \<Longrightarrow> sint (word_of_int k :: 64 word) = k"
  by (auto simp: signed_take_bit_int_eq_self_iff sint_sbintrunc' abs_if split: if_splits)

lemma num_intop_sub_exact:
  assumes "num_intop (-) f_sub a f = Inr r" "num_exact a = Fin (of_int q)" "\<bar>q\<bar> < 2 ^ 53" "\<bar>f\<bar> \<le> \<bar>q\<bar>" "0 \<le> f * q"
  shows "num_exact r = Fin (of_int (q - f))"
proof -
  have b: "\<bar>q - f\<bar> \<le> 2 ^ 53" using assms(3-5) by (auto simp: zero_le_mult_iff abs_if split: if_splits)
  have p: "py_float f = Inr (Fin (of_int f))" using assms(3,4) by (simp add: py_float_def)
  have s: "f_sub (Fin (of_int q)) (Fin (of_int f)) = Fin (of_int (q - f))"
    using b by (simp add: f_sub_def flip: of_int_diff)
  have w: "sint (word_of_int (q - f) :: 64 word) = q - f" using b by (intro sint_word_of_int_small) simp
  show ?thesis
  proof (cases a)
    case (NpInt v)
    then have "sint v = q" using assms(2) by (simp del: of_int_sint)
    then show ?thesis using assms(1) NpInt w by (auto simp: num_intop_def split: if_splits simp del: of_int_sint of_int_diff)
  qed (use assms(1,2) p s in \<open>auto simp: num_intop_def\<close>)
qed

text \<open>The number an order's quantity stands for, whatever numeric object holds it.\<close>

definition remaining_is :: "int \<Rightarrow> order \<Rightarrow> bool" where
  "remaining_is q ord = (\<exists>a. as_number (o_qty ord) = Some a \<and> num_exact a = Fin (of_int q))"

lemma remaining_unique: "remaining_is q ord \<Longrightarrow> remaining_is q' ord \<Longrightarrow> q = q'"
  by (auto simp: remaining_is_def)

lemma remaining_py_eq:
  assumes "\<bar>q\<bar> < 2 ^ 53"
  shows "py_eq (o_qty ord) (VNum (PyInt q)) \<longleftrightarrow> remaining_is q ord"
proof
  assume "py_eq (o_qty ord) (VNum (PyInt q))"
  then obtain a where "as_number (o_qty ord) = Some a" "num_eq a (PyInt q)" by (auto simp: py_eq_def as_number_def split: option.splits)
  with num_eq_exact [OF this(2) _ assms] show "remaining_is q ord" by (auto simp: remaining_is_def)
next
  assume "remaining_is q ord"
  then obtain a where a: "as_number (o_qty ord) = Some a" "num_exact a = Fin (of_int q)" by (auto simp: remaining_is_def)
  have "num_eq a (PyInt q)"
    using a(2) num_rounded_small [OF a(2) assms] num_rounded_small [of "PyInt q" q] assms
    by (auto simp: num_eq_def num_operands_def f_eq_def)
  then show "py_eq (o_qty ord) (VNum (PyInt q))" using a(1) by (auto simp: py_eq_def as_number_def [of "VNum _"])
qed

lemma fill_exact:
  assumes "fill (VNum (PyInt f)) ord = (Inr (), ord')" "remaining_is q ord" "\<bar>q\<bar> < 2 ^ 53" "\<bar>f\<bar> \<le> \<bar>q\<bar>" "0 \<le> f * q"
  shows "remaining_is (q - f) ord'"
proof -
  obtain k r where k: "fill_checked_qty (VNum (PyInt f)) ord = Inr (k, r)" and o: "o_qty ord' = VNum r"
    using assms(1) by (auto simp: fill_def Let_def split: sum.splits)
  obtain a where a: "as_number (o_qty ord) = Some a" "num_exact a = Fin (of_int q)" using assms(2) by (auto simp: remaining_is_def)
  from k a(1) have "num_intop (-) f_sub a f = Inr r"
    by (auto simp: fill_checked_qty_def is_float_nan_def dest!: whole_quantity_PyInt_Inr split: if_splits)
  from num_intop_sub_exact [OF this a(2) assms(3-5)] o show ?thesis by (simp add: remaining_is_def as_number_def)
qed

lemma apply_fill_frame: "apply_fill fills x h = (r, h') \<Longrightarrow> oid \<noteq> fst x \<Longrightarrow> h' oid = h oid"
  by (cases x) (auto simp: apply_fill_def heap_fill_def split: if_splits prod.splits)

lemma apply_fills_frame: "pforeach (apply_fill fills) xs h = (r, h') \<Longrightarrow> oid \<notin> fst ` set xs \<Longrightarrow> h' oid = h oid"
proof (induction xs arbitrary: h)
  case (Cons x xs)
  obtain q t where q: "apply_fill fills x h = (q, t)" by fastforce
  note t = apply_fill_frame [OF q, of oid]
  show ?case using Cons q t by (cases q) (auto simp: pbind_def)
qed simp

lemma apply_fill_exact:
  assumes "apply_fill fills (oid, VNum (PyInt q), st) h = (Inr (), t)" "\<bar>q\<bar> < 2 ^ 53"
    "\<bar>filled_of fills oid\<bar> \<le> \<bar>q\<bar>" "0 \<le> filled_of fills oid * q"
    "remaining_is (q - filled_of fills oid) (h oid) \<or> remaining_is q (h oid)"
  shows "remaining_is (q - filled_of fills oid) (t oid)"
proof (cases "remaining_is q (h oid) \<and> filled_of fills oid \<noteq> 0")
  case True
  have "\<exists>ord'. fill (VNum (PyInt (filled_of fills oid))) (h oid) = (Inr (), ord') \<and> t oid = ord'"
    using assms(1) True by (auto simp: apply_fill_def heap_fill_def remaining_py_eq [OF assms(2)] split: prod.splits)
  then show ?thesis using fill_exact [OF _ _ assms(2-4)] True by auto
next
  case False
  then have "t = h" using assms(1) by (auto simp: apply_fill_def remaining_py_eq [OF assms(2)])
  then show ?thesis using False assms(5) by auto
qed

lemma apply_fills_exact:
  assumes "pforeach (apply_fill fills) xs h = (Inr (), h')" "\<bar>q\<bar> < 2 ^ 53" "\<bar>filled_of fills oid\<bar> \<le> \<bar>q\<bar>" "0 \<le> filled_of fills oid * q"
    "\<forall>x\<in>set xs. fst x = oid \<longrightarrow> fst (snd x) = VNum (PyInt q)"
    "remaining_is (q - filled_of fills oid) (h oid) \<or> oid \<in> fst ` set xs \<and> remaining_is q (h oid)"
  shows "remaining_is (q - filled_of fills oid) (h' oid)"
  using assms
proof (induction xs arbitrary: h)
  case Nil
  then show ?case by auto
next
  case (Cons x xs)
  obtain t where t: "apply_fill fills x h = (Inr (), t)" "pforeach (apply_fill fills) xs t = (Inr (), h')" using Cons.prems(1) by auto
  have "remaining_is (q - filled_of fills oid) (t oid) \<or> oid \<in> fst ` set xs \<and> remaining_is q (t oid)"
  proof (cases "fst x = oid")
    case False
    then show ?thesis using Cons.prems(6) apply_fill_frame [OF t(1), of oid] by auto
  next
    case True
    then obtain st where "x = (oid, VNum (PyInt q), st)" using Cons.prems(5) by (cases x) auto
    then show ?thesis using apply_fill_exact [of fills oid q st h t] t(1) Cons.prems(2-4,6) by auto
  qed
  then show ?case using Cons.IH [OF t(2) Cons.prems(2-4)] Cons.prems(5) by auto
qed

lemma reported_fills_for: "filled_of (reported_fills trades) oid = fills_for oid (map Attr trades)"
proof (induction trades rule: rev_induct)
  case Nil
  then show ?case by (simp add: reported_fills_def filled_of_def)
next
  case (snoc t ts)
  have "reported_fills (ts @ [t]) = (case t_order t of Attr oid \<Rightarrow> dict_set oid (filled_of (reported_fills ts) oid + trade_fill t) (reported_fills ts)
     | Foreign _ \<Rightarrow> reported_fills ts)" by (cases "t_order t") (simp_all add: reported_fills_def)
  then show ?case using snoc by (auto split: attr.splits)
qed

lemma fills_for_trades: "fills_for oid (map Attr [t. Attr t \<leftarrow> result]) = fills_for oid result"
proof (induction result)
  case (Cons a result)
  then show ?case by (cases a) (simp_all add: fills_for_def)
qed (simp add: fills_for_def)

lemma validated_trades_open:
  assumes "validate_market_trades heap open_orders now originals (Some result) = Inr trades" "t \<in> set trades"
  shows "\<exists>oid\<in>set open_orders. t_order t = Attr oid"
proof -
  from assms(1) obtain filled where fold: "res_fold (check_market_trade heap open_orders now originals) [] result = Inr filled"
    and trades: "trades = [t. Attr t \<leftarrow> result]" by (auto simp: validate_market_trades_def)
  have "\<forall>t. Attr t \<in> set result \<longrightarrow> (\<exists>oid\<in>set open_orders. t_order t = Attr oid)"
    using fold
  proof (induction result arbitrary: filled rule: rev_induct)
    case (snoc a result)
    from snoc.prems obtain f1 where f1: "res_fold (check_market_trade heap open_orders now originals) [] result = Inr f1"
      and a: "check_market_trade heap open_orders now originals f1 a = Inr filled" by (auto simp: res_fold_append)
    from a show ?case by (rule check_market_trade_Inr) (use snoc.IH [OF f1] in auto)
  qed simp
  moreover have "Attr t \<in> set result" using assms(2) trades by auto
  ultimately show ?thesis by blast
qed

lemma fills_for_none:
  assumes "\<forall>t\<in>set trades. t_order t \<noteq> Attr oid"
  shows "fills_for oid (map Attr trades) = 0"
  using assms by (induction trades rule: rev_induct) simp_all

lemma map_of_graph: "map_of (map (\<lambda>x. (x, f x)) xs) k = (if k \<in> set xs then Some (f k) else None)"
  by (induction xs) auto

lemma on_heap_read [simp]: "on_heap (\<lambda>h. (f h, h)) s = (f (st_heap s), s)"
  by (simp add: on_heap_def)

lemma execute_orders_Inr:
  assumes "execute_orders num price i eligible sim b s = (Inr u, s')"
  defines "current \<equiv> filter (\<lambda>oid. oid \<in> eligible) (st_current_orders b)"
  defines "order_states \<equiv> map (\<lambda>oid. (oid, o_qty (st_heap b oid), o_status (st_heap b oid))) current"
  obtains h1 now result trades where "validate_callback eligible (map (capture (st_heap b)) (st_current_orders b)) h1 = Inr ()"
    "validate_market_trades h1 current now order_states (Some result) = Inr trades"
    "pforeach (apply_fill (reported_fills trades)) order_states h1 = (Inr (), st_heap s')"
    "if trades = [] then st_account s' = st_account s
     else add_trades num price (st_heap s') (st_registry s) (map Attr trades) (st_account s) = (Inr (), st_account s')"
proof -
  from assms(1) obtain returned s1 now trades s2 where
    1: "on_store (sim current i (pl_timestamps b) (pl_indicator_values b) (pl_signal_values b)) s = (Inr returned, s1)"
    and 2: "validate_callback eligible (map (capture (st_heap b)) (st_current_orders b)) (st_heap s1) = Inr ()"
    and 3: "validate_market_trades (st_heap s1) current (Datetime64 DT_ns (Some now)) order_states returned = Inr trades"
    and 4: "on_heap (pforeach (apply_fill (reported_fills trades)) order_states) s1 = (Inr (), s2)"
    and 5: "(if trades = [] then (Inr (), s2)
      else on_account (add_trades num price (st_heap s2) (st_registry s2) (map Attr trades)) s2) = (Inr u, s')"
    unfolding execute_orders_def Let_def current_def [symmetric] order_states_def [symmetric]
    by (elim pbindE) (simp del: split_paired_All)
  from 3 obtain result where r: "returned = Some result" by (cases returned) (auto simp: validate_market_trades_def)
  from 1 have s1: "st_account s1 = st_account s" "st_registry s1 = st_registry s" by (auto simp: on_store_def split: prod.splits)
  from 4 have s2: "st_account s2 = st_account s1" "st_registry s2 = st_registry s1"
    "pforeach (apply_fill (reported_fills trades)) order_states (st_heap s1) = (Inr (), st_heap s2)"
    by (auto simp: on_heap_def split: prod.splits)
  have h: "st_heap s' = st_heap s2" using 5 by (auto simp: on_account_def split: if_splits prod.splits)
  show thesis
  proof (rule that [OF 2 3 [unfolded r]])
    show "pforeach (apply_fill (reported_fills trades)) order_states (st_heap s1) = (Inr (), st_heap s')" using s2(3) h by simp
    show "if trades = [] then st_account s' = st_account s
       else add_trades num price (st_heap s') (st_registry s) (map Attr trades) (st_account s) = (Inr (), st_account s')"
    proof (cases "trades = []")
      case False
      obtain r a where a: "add_trades num price (st_heap s2) (st_registry s2) (map Attr trades) (st_account s2) = (r, a)" by fastforce
      then have "r = Inr u" "s' = s2\<lparr>st_account := a\<rparr>" using 5 False by (simp_all add: on_account_def)
      then show ?thesis using a False s1 s2(1,2) by simp
    qed (use 5 s1 s2(1) in simp)
  qed
qed

text \<open>Programs that never touch the account, and programs that leave it as it was when they raise.\<close>

definition keeps_account :: "(strategy, 'a) prog \<Rightarrow> bool" where
  "keeps_account m = (\<forall>s r s'. m s = (r, s') \<longrightarrow> st_account s' = st_account s)"

definition atomic_account :: "(strategy, 'a) prog \<Rightarrow> bool" where
  "atomic_account m = (\<forall>s e s'. m s = (Inl e, s') \<longrightarrow> distinct (dict_keys (ac_symbol_pnls (st_account s))) \<longrightarrow> st_account s' = st_account s)"

lemma keeps_account_lift: "keeps_account (on_store w)" "keeps_account (on_heap h)" "keeps_account (plift r)"
  by (auto simp: keeps_account_def on_store_def on_heap_def split: prod.splits)

lemma atomic_pbind:
  assumes "keeps_account m" "\<And>x. atomic_account (f x)"
  shows "atomic_account (pbind m f)"
  unfolding atomic_account_def
proof (intro allI impI)
  fix s e s' assume *: "pbind m f s = (Inl e, s')" "distinct (dict_keys (ac_symbol_pnls (st_account s)))"
  obtain q t where m: "m s = (q, t)" by fastforce
  then have t: "st_account t = st_account s" using assms(1) by (simp add: keeps_account_def)
  show "st_account s' = st_account s"
  proof (cases q)
    case (Inl e')
    then show ?thesis using * m t by (simp add: pbind_def)
  next
    case (Inr x)
    then have "f x t = (Inl e, s')" using * m by (simp add: pbind_def)
    then show ?thesis using assms(2) *(2) t unfolding atomic_account_def by metis
  qed
qed

lemma atomic_booking:
  "atomic_account (\<lambda>self. if trades = [] then (Inr (), self)
     else on_account (add_trades num price (st_heap self) (st_registry self) (map Attr trades)) self)"
  unfolding atomic_account_def
proof (intro allI impI)
  fix s e s'
  assume *: "(if trades = [] then (Inr (), s) else on_account (add_trades num price (st_heap s) (st_registry s) (map Attr trades)) s) = (Inl e, s')"
    "distinct (dict_keys (ac_symbol_pnls (st_account s)))"
  obtain r a where a: "add_trades num price (st_heap s) (st_registry s) (map Attr trades) (st_account s) = (r, a)" by fastforce
  with * have "r = Inl e" "s' = s\<lparr>st_account := a\<rparr>" by (auto simp: on_account_def split: if_splits)
  with a add_trades_failure *(2) show "st_account s' = st_account s" by (metis strategy.select_convs(2) strategy.surjective strategy.update_convs(2))
qed

lemma execute_orders_Inl:
  assumes "execute_orders num price i eligible sim b s = (Inl e, s')" "distinct (dict_keys (ac_symbol_pnls (st_account s)))"
  shows "st_account s' = st_account s"
proof -
  have "atomic_account (execute_orders num price i eligible sim b)"
    unfolding execute_orders_def Let_def by (intro atomic_pbind keeps_account_lift atomic_booking)
  then show ?thesis using assms unfolding atomic_account_def by blast
qed

definition fields_kept :: "order \<Rightarrow> order \<Rightarrow> bool" where
  "fields_kept ord ord' = (o_contract ord' = o_contract ord \<and> o_timestamp ord' = o_timestamp ord \<and>
     o_time_in_force ord' = o_time_in_force ord \<and> o_qty ord' = o_qty ord \<and> o_status ord' = o_status ord)"

lemma executed_order:
  assumes "execute_orders num price i eligible sim b b = (Inr u, s)" "oid \<in> set (st_current_orders b)" "guardable (st_heap b oid)"
    and q: "o_qty (st_heap b oid) = VNum (PyInt q)" "\<bar>q\<bar> < 2 ^ 53"
  obtains trades where
    "if trades = [] then st_account s = st_account b
     else add_trades num price (st_heap s) (st_registry b) (map Attr trades) (st_account b) = (Inr (), st_account s)"
    "0 \<le> fills_for oid (map Attr trades) * q" "\<bar>fills_for oid (map Attr trades)\<bar> \<le> \<bar>q\<bar>"
    "remaining_is (q - fills_for oid (map Attr trades)) (st_heap s oid)"
    "oid \<notin> eligible \<longrightarrow> fills_for oid (map Attr trades) = 0 \<and> guard_same (st_heap b oid) (st_heap s oid)"
proof -
  let ?states = "map (capture (st_heap b)) (st_current_orders b)"
  let ?cur = "filter (\<lambda>oid. oid \<in> eligible) (st_current_orders b)"
  let ?os = "map (\<lambda>oid. (oid, o_qty (st_heap b oid), o_status (st_heap b oid))) ?cur"
  obtain h1 now result trades where
    v: "validate_callback eligible ?states h1 = Inr ()"
    and m: "validate_market_trades h1 ?cur now ?os (Some result) = Inr trades"
    and a: "pforeach (apply_fill (reported_fills trades)) ?os h1 = (Inr (), st_heap s)"
    and t: "if trades = [] then st_account s = st_account b
       else add_trades num price (st_heap s) (st_registry b) (map Attr trades) (st_account b) = (Inr (), st_account s)"
    by (rule execute_orders_Inr [OF assms(1)])
  let ?f = "fills_for oid (map Attr trades)"
  have f: "?f = fills_for oid result" using m fills_for_trades by (auto simp: validate_market_trades_def)
  have "0 \<le> ?f * q \<and> \<bar>?f\<bar> \<le> \<bar>q\<bar> \<and> remaining_is (q - ?f) (st_heap s oid) \<and>
      (oid \<notin> eligible \<longrightarrow> ?f = 0 \<and> guard_same (st_heap b oid) (st_heap s oid))"
  proof (cases "oid \<in> eligible")
    case True
    have cur: "oid \<in> set ?cur" using True assms(2) by simp
    have orig: "dict_get ?os oid = Some (VNum (PyInt q), o_status (st_heap b oid))"
      unfolding map_of_graph using cur q(1) by simp
    note V = validated_order_state [OF m cur orig, folded f]
    have "\<bar>q - ?f\<bar> < 2 ^ 53" using V(1,2) q(2) by (auto simp: zero_le_mult_iff abs_if split: if_splits)
    then have "remaining_is (q - ?f) (h1 oid) \<or> remaining_is q (h1 oid)"
      using V(3) remaining_py_eq [OF q(2)] remaining_py_eq by blast
    moreover have "oid \<in> fst ` set ?os" using cur by (force simp: image_image)
    ultimately have "remaining_is (q - filled_of (reported_fills trades) oid) (st_heap s oid)"
      using V(1,2) q(1) by (intro apply_fills_exact [OF a q(2)]) (auto simp: reported_fills_for)
    then show ?thesis using V(1,2) True by (simp add: reported_fills_for)
  next
    case False
    have "?f = 0" using validated_trades_open [OF m] False by (intro fills_for_none) fastforce
    moreover have "st_heap s oid = h1 oid" by (rule apply_fills_frame [OF a]) (use False in auto)
    moreover have "guard_same (st_heap b oid) (h1 oid)"
    proof (rule guard_same_validated)
      show "validate_unchanged h1 False (capture (st_heap b) oid) = Inr ()"
        using v assms(2) False by (auto simp: validate_callback_def res_each_Inr)
    qed (rule assms(3))
    ultimately show ?thesis using q(1) by (auto simp: guard_same_def qty_is_def remaining_is_def as_number_def)
  qed
  with t show thesis by (intro that) blast+
qed

section \<open>Properties\<close>

text \<open>
  Claim C6. Nothing reaches execution without a decision: at every exit of \<open>run\<close>, normal or not,
  every current order (the only ones a simulator is shown) carries an \<open>ACCEPTED\<close> decision of the
  risk policies; on return the decisions are those of the proposed orders, one each and in order, so
  that the telemetry's accepted and rejected counts add up to the orders proposed.
\<close>

theorem run_executes_only_accepted:
  assumes "run num price parse depth self = (r, self')"
    "st_current_orders self = []" "st_orders self = []" "st_order_decisions self = []"
  shows "cleared self' \<and> (case r of Inl _ \<Rightarrow> True | Inr tel \<Rightarrow> log_matches self' \<and>
     tl_orders_accepted tel + tl_orders_rejected tel = tl_orders_proposed tel \<and> tl_orders_proposed tel = length (st_orders self'))"
proof (cases "st_running self")
  case True
  then show ?thesis using assms by (auto simp: run_def cleared_def)
next
  case False
  let ?body = "run_stages num price parse depth"
  obtain s where s: "?body (self\<lparr>st_running := True\<rparr>) = (r, s)" and self': "self' = s\<lparr>st_running := False\<rparr>"
    using assms(1) False by (auto simp: run_def split: prod.splits)
  have "preserves cleared ?body"
    unfolding run_stages_def
    by (intro preserves_pbind preserves_run_rules preserves_quiet(1) [OF quiet_stages(2)] preserves_quiet(1) [OF quiet_stages(5)]
        preserves_quiet(1) [OF quiet_stages(6)] preserves_quiet(1) [OF quiet_lift(3)])
  moreover have "cleared (self\<lparr>st_running := True\<rparr>)" using assms(2) by (simp add: cleared_def)
  ultimately have c: "cleared s" using s unfolding preserves_def by blast
  have "log_matches s \<and> tel = backtest_telemetry s" if "r = Inr tel" for tel
  proof -
    have "preserves_ok log_matches ?body"
      unfolding run_stages_def
      by (intro preserves_ok_pbind preserves_run_rules preserves_quiet(2) [OF quiet_stages(2)] preserves_quiet(2) [OF quiet_stages(5)]
          preserves_quiet(2) [OF quiet_stages(6)] preserves_quiet(2) [OF quiet_lift(3)])
    moreover have "log_matches (self\<lparr>st_running := True\<rparr>)" using assms(3,4) by (simp add: log_matches_def)
    ultimately have "log_matches s" using s that unfolding preserves_ok_def by blast
    then show ?thesis using s that by (auto simp: run_stages_def)
  qed
  then show ?thesis using c self' telemetry_counts [of s]
    by (auto simp: cleared_def log_matches_def split: sum.splits)
qed

text \<open>A rule that submits one order at the first of two timestamps; no policies, no simulators.\<close>

definition go_signal :: signal where
  "go_signal g ts indicator_values parent_values = Inr (BoolDtype, StageArray 1 [VNpBool True, VNpBool False])"

definition submit_rule :: rule_fn where
  "submit_rule g idx ts ivals sig current = preturn (Some [Attr 0])"

definition example_strategy :: strategy where
  "example_strategy = pipeline.extend ((pipeline_init [DEFAULT_CG] [10, 20] 0)\<lparr>
     pl_signals := [(''go'', go_signal)], pl_signal_functions := [((''go'', 0), go_signal)], pl_signal_indicator_deps := [(''go'', [])],
     pl_signal_deps := [(''go'', [])], pl_signal_cgroups := [(''go'', [DEFAULT_CG])], pl_rule_names := [''enter''],
     pl_rules := [(''enter'', submit_rule)], pl_rule_signals := [(''enter'', (''go'', [VBool True]))], pl_position_filters := [(''enter'', None)]\<rparr>)
     \<lparr>st_store = \<lparr>os_heap = (\<lambda>_. (example_order 4)\<lparr>o_timestamp := instant 10\<rparr>), os_next = 1\<rparr>, st_account = example_account,
      st_registry = example_registry, st_market_sims = [], st_risk_policies = [], st_orders = [], st_current_orders = [],
      st_order_decisions = [], st_run_final_calc = False, st_running = False\<rparr>"

lemma example_strategy_run:
  "(case run example_numerics example_price (\<lambda>_. None) 5 example_strategy of (r, s) \<Rightarrow>
     (map_sum id tl_orders_accepted r, st_orders s, st_current_orders s)) = (Inr 1, [0], [0])"
  by code_simp

theorem run_executes_only_accepted_witness:
  "\<exists>tel self'. run example_numerics example_price (\<lambda>_. None) 5 example_strategy = (Inr tel, self') \<and> st_current_orders self' = [0] \<and>
     cleared self' \<and> tl_orders_accepted tel + tl_orders_rejected tel = tl_orders_proposed tel"
proof -
  obtain r s where run: "run example_numerics example_price (\<lambda>_. None) 5 example_strategy = (r, s)" by fastforce
  have fresh: "st_current_orders example_strategy = []" "st_orders example_strategy = []" "st_order_decisions example_strategy = []"
    by (simp_all add: example_strategy_def pipeline.extend_def)
  from example_strategy_run run have "\<exists>tel. r = Inr tel" "st_current_orders s = [0]" by (cases r; simp)+
  then show ?thesis using run run_executes_only_accepted [OF run fresh] by auto
qed


text \<open>A simulator that cancels an order it is shown and then raises.\<close>

definition failing_sim :: market_sim where
  "failing_sim current i ts ivals svals store = (Inl (UserException 1), store\<lparr>os_heap := (os_heap store)(0 := cancel (os_heap store 0))\<rparr>)"

definition pending_strategy :: strategy where
  "pending_strategy = example_strategy\<lparr>st_current_orders := [0]\<rparr>"


end
