(* ===== verification/Portfolio.thy ===== *)
theory Portfolio
  imports Strategy_Engine
begin

text \<open>
  Portfolios (\<open>portfolio.py\<close>): several strategies run side by side over the union of their timestamps,
  one iteration of each strategy that has the timestamp. Strategies are mutable objects, so a portfolio
  maps names to identities and the strategies live in a store. The lemmas show that the interleaving
  does not matter: every selected strategy ends as if its own stages had been run alone, and the others
  are not touched.
\<close>

section \<open>Portfolios\<close>

type_synonym strategy_store = "nat \<Rightarrow> strategy"

record portfolio =
  po_name :: string
  po_strategies :: "(string, nat) dict"

definition portfolio_init :: "string \<Rightarrow> portfolio" where
  "portfolio_init name = \<lparr>po_name = name, po_strategies = []\<rparr>"

definition add_strategy :: "pyval \<Rightarrow> nat attr \<Rightarrow> portfolio \<Rightarrow> portfolio res" where
  "add_strategy name strategy self = (case nonempty_str name of
      None \<Rightarrow> Inl (ValueError ''portfolio strategy name must be a non-empty string'')
    | Some n \<Rightarrow>
        rbind (require (dict_get (po_strategies self) n = None) (ValueError ''portfolio strategy is already registered'')) (\<lambda>_.
        case strategy of
          Foreign _ \<Rightarrow> Inl (TypeError ''portfolio strategy must be a Strategy'')
        | Attr i \<Rightarrow>
            rbind (require (i \<notin> set (dict_values (po_strategies self))) (ValueError ''strategy instance is already registered in this portfolio'')) (\<lambda>_.
            Inr (self\<lparr>po_strategies := dict_set n i (po_strategies self)\<rparr>))))"

text \<open>
  The names are left out (\<open>None\<close>), not a sequence of strings at all (\<open>Some None\<close>), or a sequence.
  \<open>dict.fromkeys\<close> keeps the first occurrence of a name.
\<close>

definition first_occurrences :: "'a list \<Rightarrow> 'a list" where
  "first_occurrences xs = rev (remdups (rev xs))"

definition selected_strategies :: "pyval list option option \<Rightarrow> portfolio \<Rightarrow> (string \<times> nat) list res" where
  "selected_strategies strategy_names self = (case (case strategy_names of None \<Rightarrow> Some (map VStr (dict_keys (po_strategies self))) | Some a \<Rightarrow> a) of
      None \<Rightarrow> Inl (TypeError ''portfolio strategy_names must be a sequence of strings'')
    | Some vs \<Rightarrow>
        if vs = [] then Inl (ValueError ''a portfolio operation requires at least one strategy'')
        else if \<not> list_all (\<lambda>v. case v of VStr _ \<Rightarrow> True | _ \<Rightarrow> False) vs then Inl (TypeError ''portfolio strategy_names must contain only strings'')
        else let names = [n. VStr n \<leftarrow> vs] in
          if \<not> list_all (\<lambda>n. dict_get (po_strategies self) n \<noteq> None) names then Inl (ValueError ''unknown portfolio strategies'')
          else Inr (map (\<lambda>n. (n, the (dict_get (po_strategies self) n))) (first_occurrences names)))"

definition on_strategy :: "nat \<Rightarrow> (strategy, 'a) prog \<Rightarrow> (strategy_store, 'a) prog" where
  "on_strategy i m h = (case m (h i) of (r, s) \<Rightarrow> (r, h(i := s)))"

definition portfolio_run_indicators :: "nat \<Rightarrow> pyval list option option \<Rightarrow> portfolio \<Rightarrow> (strategy_store, unit) prog" where
  "portfolio_run_indicators depth strategy_names self =
     pbind (plift (selected_strategies strategy_names self)) (\<lambda>selected.
     pforeach (\<lambda>(_, i). on_strategy i (run_indicators depth None None False)) selected)"

definition portfolio_run_signals :: "nat \<Rightarrow> pyval list option option \<Rightarrow> portfolio \<Rightarrow> (strategy_store, unit) prog" where
  "portfolio_run_signals depth strategy_names self =
     pbind (plift (selected_strategies strategy_names self)) (\<lambda>selected.
     pforeach (\<lambda>(_, i). on_strategy i (run_signals depth None None False)) selected)"

section \<open>The common schedule\<close>

definition union1d :: "grid \<Rightarrow> grid \<Rightarrow> grid" where
  "union1d a b = sorted_list_of_set (set a \<union> set b)"

definition combined_timestamps :: "grid list \<Rightarrow> grid res" where
  "combined_timestamps tss = (case tss of
      [] \<Rightarrow> Inl (TypeError ''reduce() of empty iterable with no initial value'')
    | t # ts \<Rightarrow> Inr (foldl union1d t ts))"

definition in_date_range :: "datetime64 \<Rightarrow> datetime64 \<Rightarrow> int \<Rightarrow> bool" where
  "in_date_range start_date end_date t =
     ((case dt_ns start_date of None \<Rightarrow> True | Some s \<Rightarrow> s \<le> t) \<and> (case dt_ns end_date of None \<Rightarrow> True | Some e \<Rightarrow> t \<le> e))"

primrec schedule_strategies :: "(string \<Rightarrow> datetime64 option) \<Rightarrow> datetime64 \<Rightarrow> datetime64 \<Rightarrow> grid \<Rightarrow> nat list
    \<Rightarrow> (strategy_store, (nat \<times> nat list) list) prog" where
  "schedule_strategies parse start_date end_date ts [] = preturn []"
| "schedule_strategies parse start_date end_date ts (i # is) =
     pbind (pgets (\<lambda>h. map (\<lambda>t. searchsorted_left (pl_timestamps (h i)) (Some t)) ts)) (\<lambda>indices.
     pbind (on_strategy i (generate_order_iterations parse None None (DateValue start_date) (DateValue end_date))) (\<lambda>_.
     pbind (schedule_strategies parse start_date end_date ts is) (\<lambda>iterations.
     preturn ((i, indices) # iterations))))"

definition portfolio_order_iterations :: "(string \<Rightarrow> datetime64 option) \<Rightarrow> nat list option \<Rightarrow> date_arg \<Rightarrow> date_arg \<Rightarrow> portfolio
    \<Rightarrow> (strategy_store, grid \<times> (nat \<times> nat list) list) prog" where
  "portfolio_order_iterations parse strategies start end self =
     pbind (plift (validate_date_range parse start end)) (\<lambda>(start_date, end_date).
     let ids = (case strategies of None \<Rightarrow> dict_values (po_strategies self) | Some is \<Rightarrow> is) in
     pbind (\<lambda>h. (combined_timestamps (map (\<lambda>i. pl_timestamps (h i)) ids), h)) (\<lambda>all_timestamps.
     let all_timestamps = filter (in_date_range start_date end_date) all_timestamps in
     pbind (schedule_strategies parse start_date end_date all_timestamps ids) (\<lambda>iterations.
     preturn (all_timestamps, iterations))))"

section \<open>Running the rules\<close>

text \<open>One strategy at one timestamp of the union: an iteration when its own grid has the timestamp.\<close>

definition visit_timestamp :: "numerics \<Rightarrow> price_function \<Rightarrow> nat \<Rightarrow> int \<Rightarrow> (strategy, unit) prog" where
  "visit_timestamp num price idx t = (\<lambda>self.
     if idx \<noteq> length (pl_timestamps self) \<and> pl_timestamps self ! idx = t then run_iteration num price idx self else (Inr (), self))"

definition final_calc :: "price_function \<Rightarrow> datetime64 \<Rightarrow> (strategy, unit) prog" where
  "final_calc price end_date = (\<lambda>self. case final_timestamp_at_or_before (pl_timestamps self) (dt_ns end_date) of
      None \<Rightarrow> (Inr (), self)
    | Some t \<Rightarrow> on_account (calc price t) self)"

definition check_stage_graph :: "(strategy, unit) prog" where
  "check_stage_graph = (\<lambda>self. (rbind (validate_stage_graph (length (st_market_sims self)) self) (\<lambda>_. Inr ()), self))"

definition portfolio_run_rules :: "numerics \<Rightarrow> (nat \<Rightarrow> price_function) \<Rightarrow> (string \<Rightarrow> datetime64 option) \<Rightarrow> pyval list option option
    \<Rightarrow> date_arg \<Rightarrow> date_arg \<Rightarrow> portfolio \<Rightarrow> (strategy_store, unit) prog" where
  "portfolio_run_rules num price parse strategy_names start end self =
     pbind (plift (selected_strategies strategy_names self)) (\<lambda>selected.
     let strategies = map snd selected in
     pbind (plift (validate_date_range parse start end)) (\<lambda>(start_date, end_date).
     pbind (pforeach (\<lambda>i. on_strategy i check_stage_graph) strategies) (\<lambda>_.
     pbind (portfolio_order_iterations parse (Some strategies) (DateValue start_date) (DateValue end_date) self) (\<lambda>(all_timestamps, iterations).
     pbind (pforeach (\<lambda>(k, t). pforeach (\<lambda>(i, indices). on_strategy i (visit_timestamp num (price i) (indices ! k) t)) iterations)
       (enumerate 0 all_timestamps)) (\<lambda>_.
     pforeach (\<lambda>i. on_strategy i (final_calc (price i) end_date)) strategies)))))"

definition portfolio_run :: "numerics \<Rightarrow> (nat \<Rightarrow> price_function) \<Rightarrow> (string \<Rightarrow> datetime64 option) \<Rightarrow> nat \<Rightarrow> pyval list option option
    \<Rightarrow> date_arg \<Rightarrow> date_arg \<Rightarrow> portfolio \<Rightarrow> (strategy_store, unit) prog" where
  "portfolio_run num price parse depth strategy_names start end self =
     pbind (plift (selected_strategies strategy_names self)) (\<lambda>selected.
     pbind (pforeach (\<lambda>(_, i). on_strategy i check_stage_graph) selected) (\<lambda>_.
     let selected_names = Some (Some (map (VStr \<circ> fst) selected)) in
     pbind (portfolio_run_indicators depth selected_names self) (\<lambda>_.
     pbind (portfolio_run_signals depth selected_names self) (\<lambda>_.
     portfolio_run_rules num price parse selected_names start end self))))"

section \<open>What a program leaves alone\<close>

definition keeps :: "('s \<Rightarrow> 'b) \<Rightarrow> ('s, 'a) prog \<Rightarrow> bool" where
  "keeps f m = (\<forall>s r s'. m s = (r, s') \<longrightarrow> f s' = f s)"

lemma keepsD: "keeps f m \<Longrightarrow> m s = (r, s') \<Longrightarrow> f s' = f s"
  by (simp add: keeps_def)

lemma keepsI: "(\<And>s r s'. m s = (r, s') \<Longrightarrow> f s' = f s) \<Longrightarrow> keeps f m"
  by (simp add: keeps_def)

lemma keeps_pbind: "keeps f m \<Longrightarrow> (\<And>x. keeps f (g x)) \<Longrightarrow> keeps f (pbind m g)"
  unfolding keeps_def pbind_def by (auto split: prod.splits sum.splits)

lemma keeps_pforeach: "(\<And>x. keeps f (g x)) \<Longrightarrow> keeps f (pforeach g xs)"
  by (induction xs) (simp_all add: keeps_pbind, simp add: keeps_def)

lemma keeps_read [simp]: "keeps f (plift r)" "keeps f (preturn x)" "keeps f (pgets g)" "keeps f (\<lambda>s. (q s, s))"
  by (simp_all add: keeps_def)

lemma keeps_if: "keeps f m \<Longrightarrow> keeps f n \<Longrightarrow> keeps f (\<lambda>s. if b s then m s else n s)"
  by (simp add: keeps_def)

lemma keeps_pmodify: "(\<And>s. f (g s) = f s) \<Longrightarrow> keeps f (pmodify g)"
  by (simp add: keeps_def)

text \<open>The grid of a strategy and its final-valuation flag.\<close>

definition grid_flag :: "strategy \<Rightarrow> grid \<times> bool" where
  "grid_flag s = (pl_timestamps s, st_run_final_calc s)"

lemma keeps_parts [simp]:
  "keeps grid_flag (on_heap m1)" "keeps grid_flag (on_store m2)" "keeps grid_flag (on_account m3)"
  "keeps grid_flag (\<lambda>s. on_heap (k1 s) s)" "keeps grid_flag (\<lambda>s. on_callback_state (k2 s) s)" "keeps grid_flag (\<lambda>s. on_account (k3 s) s)"
  by (auto simp: keeps_def grid_flag_def on_heap_def on_store_def on_account_def on_callback_state_def split: prod.splits)

lemma grid_flag_updates [simp]:
  "grid_flag (update_current_orders s) = grid_flag s" "grid_flag (restore_orders st s) = grid_flag s"
  "grid_flag (s\<lparr>st_order_decisions := d\<rparr>) = grid_flag s" "grid_flag (s\<lparr>st_orders := a, st_current_orders := b\<rparr>) = grid_flag s"
  "grid_flag (s\<lparr>st_store := c\<rparr>) = grid_flag s"
  by (simp_all add: grid_flag_def update_current_orders_def restore_orders_def)

lemma keeps_guarded:
  assumes "keeps grid_flag m"
  shows "keeps grid_flag (guarded msg states m)"
  by (rule keepsI) (auto simp: guarded_def dest: keepsD [OF assms] split: prod.splits sum.splits)

lemma keeps_sim_market: "keeps grid_flag (sim_market num price i)"
proof -
  have "keeps grid_flag (execute_orders num price i eligible sim before)" for eligible sim before
    unfolding execute_orders_def Let_def by (intro keeps_pbind keeps_if keeps_parts keeps_read)
  then have "keeps grid_flag (run_simulator num price i eligible sim)" for eligible sim
    unfolding run_simulator_def Let_def
    by (intro keepsI) (metis keepsD [OF keeps_guarded] grid_flag_updates(1))
  then show ?thesis
    unfolding sim_market_def by (intro keeps_pbind keeps_pforeach keeps_parts keeps_read keeps_pmodify) simp_all
qed

lemma keeps_get_orders: "keeps grid_flag (get_orders idx f g params)"
proof -
  have "keeps grid_flag (\<lambda>self. case rr self of Inl e \<Rightarrow> (Inl e, self) | Inr (orders, store) \<Rightarrow> (Inr orders, self\<lparr>st_store := store\<rparr>))" for rr
    by (auto simp: keeps_def split: sum.splits)
  then have "keeps grid_flag (call_rule idx f g params states)" for states
    unfolding call_rule_def by (intro keeps_pbind keeps_parts)
  from keepsD [OF keeps_guarded [OF this]] show ?thesis
    by (auto simp: keeps_def get_orders_def Let_def split: sum.splits bool.splits)
qed

lemma keeps_decide_orders: "keeps grid_flag (decide_orders now oids accepted)"
  by (induction oids arbitrary: accepted) (auto intro!: keeps_pbind keeps_pmodify simp: if_distribR)

lemma keeps_run_iteration: "keeps grid_flag (run_iteration num price i)"
proof -
  have "keeps grid_flag (\<lambda>self. if pl_trade_lag self = 0 then sim_market num price i self else (Inr (), update_current_orders self))"
    using keepsD [OF keeps_sim_market] by (auto simp: keeps_def)
  then have "keeps grid_flag (run_rule num price i tup)" for tup
    unfolding run_rule_def by (cases tup) (auto intro!: keeps_pbind keeps_get_orders keeps_decide_orders keeps_pmodify)
  then show ?thesis unfolding run_iteration_def by (intro keeps_pbind keeps_pforeach keeps_sim_market keeps_read)
qed

lemma grid_flag_stage_updates [simp]:
  "grid_flag (s\<lparr>pl_indicator_values := iv\<rparr>) = grid_flag s" "grid_flag (s\<lparr>pl_signal_values := sv\<rparr>) = grid_flag s"
  "grid_flag (s\<lparr>pl_orders_iter := oi\<rparr>) = grid_flag s"
  by (simp_all add: grid_flag_def)

lemma keeps_indicator_step: "(\<And>p. keeps grid_flag (rec p)) \<Longrightarrow> keeps grid_flag (indicator_step rec g name)"
  unfolding indicator_step_def
  by (intro keeps_pbind keeps_read keeps_pforeach keeps_if) (auto simp: keeps_def split: option.splits sum.splits)

lemma keeps_signal_step:
  assumes "\<And>p. keeps grid_flag (rec p)"
  shows "keeps grid_flag (signal_step rec g name)"
proof -
  have "keeps grid_flag (\<lambda>self. case wrap_callback msg (rr self) of Inl e \<Rightarrow> (Inl e, self)
      | Inr v \<Rightarrow> (Inr (), self\<lparr>pl_signal_values := ns_setattr h n v (pl_signal_values self)\<rparr>))" for msg rr h n
    by (auto simp: keeps_def split: sum.splits)
  note this [intro]
  have opt: "(\<And>x. keeps grid_flag (m x)) \<Longrightarrow> keeps grid_flag (\<lambda>s. case ob s of None \<Rightarrow> (Inl e, s) | Some x \<Rightarrow> m x s)" for m ob e
    by (auto simp: keeps_def split: option.splits)
  show ?thesis
    unfolding signal_step_def if_distribR
    by (intro keeps_pbind keeps_read)
       (auto intro!: keeps_pbind keeps_read keeps_pforeach keeps_pmodify keeps_if opt assms split: if_splits)
qed

lemma keeps_run_indicators: "keeps grid_flag (run_indicators depth names groups clear_all)"
proof (induction depth arbitrary: names groups clear_all)
  case (Suc depth)
  then show ?case by (auto intro!: keeps_pbind keeps_pforeach keeps_indicator_step keeps_pmodify)
qed simp

lemma keeps_run_signals: "keeps grid_flag (run_signals depth names groups clear_all)"
proof (induction depth arbitrary: names groups clear_all)
  case (Suc depth)
  then show ?case by (auto intro!: keeps_pbind keeps_pforeach keeps_signal_step keeps_pmodify)
qed simp

lemma keeps_generate: "keeps grid_flag (generate_order_iterations parse names groups start end)"
proof -
  have "keeps grid_flag (schedule_all s e pairs iters)" for s e pairs iters
    by (induction pairs arbitrary: iters) (auto intro!: keeps_pbind keeps_pmodify split: option.splits)
  then show ?thesis
    unfolding generate_order_iterations_def by (auto intro!: keeps_pbind keeps_pmodify split: prod.splits)
qed

section \<open>Projection to one strategy\<close>

text \<open>
  A sequence of programs, each on one strategy of the store, leaves a strategy as the subsequence
  that belongs to it does.
\<close>

lemma on_strategy_Inr: "on_strategy i m h = (Inr x, h') \<longleftrightarrow> (\<exists>s. m (h i) = (Inr x, s) \<and> h' = h(i := s))"
  by (auto simp: on_strategy_def split: prod.splits)

lemma project_steps:
  assumes "pforeach (\<lambda>x. on_strategy (key x) (step x)) xs h = (Inr (), h')"
  shows "pforeach step (filter (\<lambda>x. key x = i) xs) (h i) = (Inr (), h' i)"
  using assms
proof (induction xs arbitrary: h)
  case (Cons x xs)
  from Cons.prems obtain s where s: "step x (h (key x)) = (Inr (), s)"
    "pforeach (\<lambda>x. on_strategy (key x) (step x)) xs (h(key x := s)) = (Inr (), h')"
    by (auto simp: on_strategy_Inr)
  from Cons.IH [OF s(2)] s(1) show ?case by (auto simp: pbind_eq)
qed simp

lemma pforeach_concat: "pforeach (\<lambda>x. pforeach g (F x)) xs s = pforeach g (concat (map F xs)) s"
proof (induction xs arbitrary: s)
  case (Cons x xs)
  then show ?case by (simp add: pforeach_append pbind_def split: prod.splits sum.splits)
qed simp

lemma pforeach_map: "pforeach f (map g xs) = pforeach (\<lambda>x. f (g x)) xs"
  by (induction xs) simp_all

lemma filter_distinct_key:
  assumes "distinct xs"
  shows "filter (\<lambda>x. x = i) xs = (if i \<in> set xs then [i] else [])"
  using assms by (induction xs) auto

lemma project_each:
  assumes "pforeach (\<lambda>i. on_strategy i (step i)) ids h = (Inr (), h')" "distinct ids"
  shows "if i \<in> set ids then step i (h i) = (Inr (), h' i) else h' i = h i"
proof -
  have "pforeach step (filter (\<lambda>x. x = i) ids) (h i) = (Inr (), h' i)"
    using project_steps [where key = "\<lambda>x. x"] assms(1) by blast
  then show ?thesis by (cases "i \<in> set ids") (simp_all add: filter_distinct_key [OF assms(2)] pbind_Inr_iff)
qed

lemma schedule_strategies_Inr:
  assumes "schedule_strategies parse s e ts ids h = (Inr its, h')" "distinct ids"
  shows "its = map (\<lambda>i. (i, map (\<lambda>t. searchsorted_left (pl_timestamps (h i)) (Some t)) ts)) ids \<and>
    (\<forall>i. if i \<in> set ids then generate_order_iterations parse None None (DateValue s) (DateValue e) (h i) = (Inr (), h' i) else h' i = h i)"
  using assms
proof (induction ids arbitrary: its h)
  case (Cons j ids)
  from Cons.prems(1) obtain t its' where t: "generate_order_iterations parse None None (DateValue s) (DateValue e) (h j) = (Inr (), t)"
    "schedule_strategies parse s e ts ids (h(j := t)) = (Inr its', h')"
    "its = (j, map (\<lambda>u. searchsorted_left (pl_timestamps (h j)) (Some u)) ts) # its'"
    by (auto simp: on_strategy_Inr)
  have j: "j \<notin> set ids" "distinct ids" using Cons.prems(2) by auto
  note ih = Cons.IH [OF t(2) j(2)]
  have "its' = map (\<lambda>i. (i, map (\<lambda>u. searchsorted_left (pl_timestamps (h i)) (Some u)) ts)) ids"
    using ih j(1) by (auto intro!: map_cong)
  moreover have "if i \<in> set (j # ids) then generate_order_iterations parse None None (DateValue s) (DateValue e) (h i) = (Inr (), h' i)
      else h' i = h i" for i
    using ih [THEN conjunct2, rule_format, of i] t(1) j(1) by (auto split: if_splits)
  ultimately show ?case using t(3) by simp
qed simp

lemma pforeach_cong: "(\<And>x. x \<in> set xs \<Longrightarrow> f x = g x) \<Longrightarrow> pforeach f xs = pforeach g xs"
  by (induction xs) simp_all

lemma enumerate_nth: "(k, t) \<in> set (enumerate 0 xs) \<Longrightarrow> k < length xs \<and> xs ! k = t"
  by (auto simp: in_set_enumerate_eq)

lemma project_loop:
  assumes "pforeach (\<lambda>(k, t). pforeach (\<lambda>(i, indices). on_strategy i (visit_timestamp num (price i) (indices ! k) t))
      (map (\<lambda>i. (i, map (F i) ts)) ids)) (enumerate 0 ts) h = (Inr (), h')"
    and "distinct ids"
  shows "if i \<in> set ids then pforeach (\<lambda>t. visit_timestamp num (price i) (F i t) t) ts (h i) = (Inr (), h' i) else h' i = h i"
proof -
  let ?step = "\<lambda>(t, i). visit_timestamp num (price i) (F i t) t"
  have inner: "pforeach (\<lambda>(i, indices). on_strategy i (visit_timestamp num (price i) (indices ! k) t)) (map (\<lambda>i. (i, map (F i) ts)) ids) =
      pforeach (\<lambda>x. on_strategy (snd x) (?step x)) (map (Pair t) ids)" if "(k, t) \<in> set (enumerate 0 ts)" for k t
    using enumerate_nth [OF that] by (simp add: pforeach_map)
  have "pforeach (\<lambda>(k, t). pforeach (\<lambda>(i, indices). on_strategy i (visit_timestamp num (price i) (indices ! k) t))
      (map (\<lambda>i. (i, map (F i) ts)) ids)) (enumerate 0 ts) =
      pforeach (\<lambda>x. pforeach (\<lambda>x. on_strategy (snd x) (?step x)) (map (Pair (snd x)) ids)) (enumerate 0 ts)"
    by (rule pforeach_cong) (use inner in auto)
  also have "\<dots> = pforeach (\<lambda>t. pforeach (\<lambda>x. on_strategy (snd x) (?step x)) (map (Pair t) ids)) (map snd (enumerate 0 ts))"
    by (rule pforeach_map [symmetric, where g = snd])
  finally have "pforeach (\<lambda>x. on_strategy (snd x) (?step x)) (concat (map (\<lambda>t. map (Pair t) ids) ts)) h = (Inr (), h')"
    using assms(1) by (simp add: pforeach_concat)
  from project_steps [OF this] have p: "pforeach ?step (filter (\<lambda>x. snd x = i) (concat (map (\<lambda>t. map (Pair t) ids) ts))) (h i) = (Inr (), h' i)" .
  have one: "filter (\<lambda>x. snd x = i) (map (Pair t) ids) = (if i \<in> set ids then [(t, i)] else [])" for t
    by (simp add: filter_map o_def filter_distinct_key [OF assms(2)])
  have "filter (\<lambda>x. snd x = i) (concat (map (\<lambda>t. map (Pair t) ids) ts)) = (if i \<in> set ids then map (\<lambda>t. (t, i)) ts else [])"
    by (induction ts) (simp_all add: one)
  then show ?thesis using p by (simp add: pforeach_map split: if_splits)
qed

section \<open>The timestamps of one strategy within the union\<close>

lemma searchsorted_member:
  assumes "strictly_increasing ts"
  shows "(searchsorted_left ts (Some t) \<noteq> length ts \<and> ts ! searchsorted_left ts (Some t) = t) \<longleftrightarrow> t \<in> set ts"
proof
  assume "t \<in> set ts"
  then obtain j where "j < length ts" "ts ! j = t" by (auto simp: in_set_conv_nth)
  then show "searchsorted_left ts (Some t) \<noteq> length ts \<and> ts ! searchsorted_left ts (Some t) = t"
    using takeWhile_less_index [OF assms] by (auto simp: searchsorted_left_def)
next
  assume a: "searchsorted_left ts (Some t) \<noteq> length ts \<and> ts ! searchsorted_left ts (Some t) = t"
  have "searchsorted_left ts (Some t) \<le> length ts" by (simp add: searchsorted_left_def length_takeWhile_le)
  then show "t \<in> set ts" using a by (metis nth_mem order_le_less)
qed

lemma visits_are_iterations:
  assumes "strictly_increasing ts" "pl_timestamps s = ts"
  shows "pforeach (\<lambda>t. visit_timestamp num price (searchsorted_left ts (Some t)) t) us s =
    pforeach (run_iteration num price) (map (\<lambda>t. searchsorted_left ts (Some t)) (filter (\<lambda>t. t \<in> set ts) us)) s"
  using assms(2)
proof (induction us arbitrary: s)
  case (Cons u us)
  show ?case
  proof (cases "u \<in> set ts")
    case True
    then have v: "visit_timestamp num price (searchsorted_left ts (Some u)) u s = run_iteration num price (searchsorted_left ts (Some u)) s"
      using searchsorted_member [OF assms(1), of u] Cons.prems by (simp add: visit_timestamp_def)
    obtain r s' where r: "run_iteration num price (searchsorted_left ts (Some u)) s = (r, s')" by fastforce
    have "pl_timestamps s' = ts" using keepsD [OF keeps_run_iteration r] Cons.prems by (simp add: grid_flag_def)
    then show ?thesis using Cons.IH [of s'] v r True by (cases r) (simp_all add: pbind_def)
  next
    case False
    then show ?thesis
      using searchsorted_member [OF assms(1), of u] Cons by (auto simp: visit_timestamp_def pbind_def)
  qed
qed simp

lemma takeWhile_filter_closed: "sorted_wrt (\<lambda>x y. Q y \<longrightarrow> Q x) xs \<Longrightarrow> takeWhile Q xs = filter Q xs"
  by (induction xs) (auto simp: filter_empty_conv)

lemma iteration_indices_filter:
  assumes "strictly_increasing ts"
  shows "iteration_indices ts s e = map (\<lambda>t. searchsorted_left ts (Some t)) (filter (in_date_range s e) ts)"
proof -
  let ?lo = "\<lambda>i. \<not> (case dt_ns s of None \<Rightarrow> False | Some x \<Rightarrow> ts ! i < x)" and ?hi = "\<lambda>i. \<not> (case dt_ns e of None \<Rightarrow> False | Some x \<Rightarrow> x < ts ! i)"
  have mono: "i < j \<Longrightarrow> j < length ts \<Longrightarrow> ts ! i < ts ! j" for i j
    using assms by (auto simp: strictly_increasing_def sorted_wrt_iff_nth_less)
  have "sorted_wrt (\<lambda>x y. ?hi y \<longrightarrow> ?hi x) [0..<length ts]"
    by (auto simp: sorted_wrt_iff_nth_less split: option.splits dest!: mono)
  then have "sorted_wrt (\<lambda>x y. ?hi y \<longrightarrow> ?hi x) (filter ?lo [0..<length ts])" by (rule sorted_wrt_filter)
  then have "iteration_indices ts s e = filter ?hi (filter ?lo [0..<length ts])"
    unfolding iteration_indices_def by (rule takeWhile_filter_closed)
  also have "\<dots> = filter (\<lambda>i. in_date_range s e (ts ! i)) [0..<length ts]"
    by (auto simp: in_date_range_def intro!: filter_cong split: option.splits)
  also have "\<dots> = map (\<lambda>i. searchsorted_left ts (Some (ts ! i))) (filter (\<lambda>i. in_date_range s e (ts ! i)) [0..<length ts])"
    using takeWhile_less_index [OF assms] by (intro map_idI [symmetric]) (auto simp: searchsorted_left_def)
  also have "\<dots> = map (\<lambda>t. searchsorted_left ts (Some t)) (filter (in_date_range s e) (map ((!) ts) [0..<length ts]))"
    by (simp add: filter_map o_def)
  finally show ?thesis by (simp add: map_nth)
qed

lemma combined_timestamps_Inr:
  assumes "combined_timestamps tss = Inr us" "\<forall>ts\<in>set tss. strictly_increasing ts"
  shows "strictly_increasing us \<and> set us = \<Union> (set ` set tss)"
proof -
  have "strictly_increasing (foldl union1d t ts) \<and> set (foldl union1d t ts) = set t \<union> \<Union> (set ` set ts)" if "strictly_increasing t" for t ts
    using that
  proof (induction ts arbitrary: t)
    case (Cons a ts)
    have "strictly_increasing (union1d t a)"
      by (simp add: strictly_increasing_def union1d_def strict_sorted_list_of_set)
    from Cons.IH [OF this] show ?case by (auto simp: union1d_def)
  qed simp
  then show ?thesis using assms by (auto simp: combined_timestamps_def split: list.splits)
qed

lemma own_timestamps:
  assumes "strictly_increasing us" "strictly_increasing ts" "set ts \<subseteq> set us"
  shows "filter (\<lambda>t. t \<in> set ts) (filter P us) = filter P ts"
proof (rule sorted_distinct_set_unique)
  show "sorted (filter (\<lambda>t. t \<in> set ts) (filter P us))" "sorted (filter P ts)"
    "distinct (filter (\<lambda>t. t \<in> set ts) (filter P us))" "distinct (filter P ts)"
    using assms(1,2) by (simp_all add: strictly_increasing_def strict_sorted_iff sorted_wrt_filter)
qed (use assms(3) in auto)

section \<open>Selections\<close>

definition portfolio_wf :: "portfolio \<Rightarrow> bool" where
  "portfolio_wf p = (distinct (dict_keys (po_strategies p)) \<and> distinct (dict_values (po_strategies p)))"

lemma portfolio_init_wf: "portfolio_wf (portfolio_init name)"
  by (simp add: portfolio_wf_def portfolio_init_def)

lemma add_strategy_wf:
  assumes "portfolio_wf p" "add_strategy name strategy p = Inr p'"
  shows "portfolio_wf p'"
proof -
  from assms(2) obtain n i where n: "dict_get (po_strategies p) n = None" "i \<notin> set (dict_values (po_strategies p))"
    "p' = p\<lparr>po_strategies := dict_set n i (po_strategies p)\<rparr>"
    by (auto simp: add_strategy_def split: option.splits attr.splits)
  then show ?thesis using assms(1) dict_values_set_new [OF n(1), of i]
    by (auto simp: portfolio_wf_def map_of_eq_None_iff)
qed

lemma selected_named:
  assumes "xs \<noteq> []" "list_all (\<lambda>n. dict_get (po_strategies p) n \<noteq> None) xs"
  shows "selected_strategies (Some (Some (map VStr xs))) p = Inr (map (\<lambda>n. (n, the (dict_get (po_strategies p) n))) (first_occurrences xs))"
proof -
  have "[n. VStr n \<leftarrow> map VStr xs] = xs" by (induction xs) simp_all
  then show ?thesis using assms by (simp add: selected_strategies_def list_all_iff)
qed

lemma selected_strategies_Inr:
  assumes "selected_strategies names p = Inr sel" "portfolio_wf p"
  shows "distinct (map snd sel)" "sel \<noteq> []" "selected_strategies (Some (Some (map (VStr \<circ> fst) sel))) p = Inr sel"
proof -
  from assms(1) obtain ns where ns: "ns \<noteq> []" "list_all (\<lambda>n. dict_get (po_strategies p) n \<noteq> None) ns"
    "sel = map (\<lambda>n. (n, the (dict_get (po_strategies p) n))) (first_occurrences ns)"
  proof -
    obtain vs where vs: "vs \<noteq> []" "list_all (\<lambda>v. case v of VStr _ \<Rightarrow> True | _ \<Rightarrow> False) vs"
      "list_all (\<lambda>n. dict_get (po_strategies p) n \<noteq> None) [n. VStr n \<leftarrow> vs]"
      "sel = map (\<lambda>n. (n, the (dict_get (po_strategies p) n))) (first_occurrences [n. VStr n \<leftarrow> vs])"
      using assms(1) by (auto simp: selected_strategies_def Let_def split: option.splits if_splits)
    have "[n. VStr n \<leftarrow> vs] \<noteq> []" using vs(1,2) by (cases vs) (auto split: pyval.splits)
    then show ?thesis using that vs(3,4) by blast
  qed
  let ?f = "first_occurrences ns"
  have f: "distinct ?f" "set ?f = set ns" "?f \<noteq> []" using ns(1) by (simp_all add: first_occurrences_def)
  have inj: "inj_on (\<lambda>n. the (dict_get (po_strategies p) n)) (set ?f)"
  proof (rule inj_onI)
    fix a b assume ab: "a \<in> set ?f" "b \<in> set ?f" "the (dict_get (po_strategies p) a) = the (dict_get (po_strategies p) b)"
    moreover have "dict_get (po_strategies p) a \<noteq> None" "dict_get (po_strategies p) b \<noteq> None"
      using ab(1,2) ns(2) unfolding f(2) list_all_iff by blast+
    ultimately obtain i where "dict_get (po_strategies p) a = Some i" "dict_get (po_strategies p) b = Some i"
      by (metis option.collapse)
    then have "(a, i) \<in> set (po_strategies p)" "(b, i) \<in> set (po_strategies p)" by (auto dest: map_of_SomeD)
    moreover have "inj_on snd (set (po_strategies p))" using assms(2) by (simp add: portfolio_wf_def distinct_map)
    ultimately show "a = b" using inj_onD [of snd "set (po_strategies p)" "(a, i)" "(b, i)"] by simp
  qed
  show "distinct (map snd sel)" using f(1) inj by (simp add: ns(3) distinct_map o_def)
  show "sel \<noteq> []" using f(3) by (simp add: ns(3))
  have g: "first_occurrences ?f = ?f" using f(1) by (simp add: first_occurrences_def)
  have m: "map (VStr \<circ> fst) sel = map VStr ?f" by (simp add: ns(3) o_def)
  have "selected_strategies (Some (Some (map VStr ?f))) p = Inr sel"
    unfolding ns(3) using f(2,3) ns(2) g selected_named [of ?f p] by (simp add: list_all_iff)
  then show "selected_strategies (Some (Some (map (VStr \<circ> fst) sel))) p = Inr sel" unfolding m .
qed

section \<open>A portfolio runs its strategies separately\<close>

text \<open>The stages of one strategy, as its own methods run them, with the dates given.\<close>

definition separate_run :: "numerics \<Rightarrow> price_function \<Rightarrow> (string \<Rightarrow> datetime64 option) \<Rightarrow> nat \<Rightarrow> date_arg \<Rightarrow> date_arg \<Rightarrow> (strategy, unit) prog" where
  "separate_run num price parse depth start end =
     pbind check_stage_graph (\<lambda>_.
     pbind (run_indicators depth None None False) (\<lambda>_.
     pbind (run_signals depth None None False) (\<lambda>_.
     run_rules num price parse None None start end)))"

lemma validate_date_range_value:
  "validate_date_range parse start end = Inr (s, e) \<Longrightarrow> validate_date_range parse (DateValue s) (DateValue e) = Inr (s, e)"
  by (auto simp: validate_date_range_def parse_bound_def split: option.splits if_splits)

lemma generate_defaults:
  "generate_order_iterations parse None None start end self =
   generate_order_iterations parse (Some (pl_rule_names self)) (Some (pl_contract_groups self)) start end self"
  by (cases "validate_date_range parse start end") (auto simp: generate_order_iterations_def)

lemma run_rules_parts:
  assumes "validate_date_range parse start end = Inr (s, e)" "st_run_final_calc self" "strictly_increasing (pl_timestamps self)"
    and "generate_order_iterations parse None None (DateValue s) (DateValue e) self = (Inr (), s1)"
    and "pforeach (run_iteration num price) (iteration_indices (pl_timestamps self) s e) s1 = (Inr (), s2)"
    and "final_calc price e s2 = (r, s3)"
  shows "run_rules num price parse None None start end self = (r, s3)"
proof -
  have "grid_flag s1 = grid_flag self" using keepsD [OF keeps_generate assms(4)] .
  moreover have "grid_flag s2 = grid_flag s1" using keepsD [OF keeps_pforeach [OF keeps_run_iteration] assms(5)] .
  ultimately have "pl_timestamps s1 = pl_timestamps self" "st_run_final_calc s2" using assms(2) by (simp_all add: grid_flag_def)
  then show ?thesis
    using assms(1,4,5,6) unfolding run_rules_def generate_defaults
    by (simp add: validated_stage_names_def validated_stage_groups_def pbind_def final_calc_def)
qed

lemma check_stage_graph_Inr: "check_stage_graph s = (Inr (), s') \<Longrightarrow> s' = s"
  by (simp add: check_stage_graph_def)

lemma portfolio_run_rules_project:
  assumes run: "portfolio_run_rules num price parse names start end p h = (Inr (), h')"
    and sel: "selected_strategies names p = Inr sel" and wf: "portfolio_wf p"
    and ok: "\<forall>i\<in>set (map snd sel). strictly_increasing (pl_timestamps (h i)) \<and> st_run_final_calc (h i)"
  shows "if i \<in> set (map snd sel) then run_rules num (price i) parse None None start end (h i) = (Inr (), h' i) else h' i = h i"
proof -
  let ?ids = "map snd sel"
  note d = selected_strategies_Inr(1) [OF sel wf]
  obtain s e where range: "validate_date_range parse start end = Inr (s, e)"
    using run sel by (cases "validate_date_range parse start end") (auto simp: portfolio_run_rules_def Let_def)
  note range' = validate_date_range_value [OF range]
  obtain h1 us its h2 h3 where
    check: "pforeach (\<lambda>i. on_strategy i check_stage_graph) ?ids h = (Inr (), h1)" and
    gen: "portfolio_order_iterations parse (Some ?ids) (DateValue s) (DateValue e) p h1 = (Inr (us, its), h2)" and
    loop: "pforeach (\<lambda>(k, t). pforeach (\<lambda>(i, indices). on_strategy i (visit_timestamp num (price i) (indices ! k) t)) its) (enumerate 0 us) h2 = (Inr (), h3)" and
    final: "pforeach (\<lambda>i. on_strategy i (final_calc (price i) e)) ?ids h3 = (Inr (), h')"
    using run sel range unfolding portfolio_run_rules_def by (auto simp: Let_def)
  have h1: "h1 i = h i" for i
    using project_each [OF check d, of i] check_stage_graph_Inr [of "h i" "h1 i"] by (auto split: if_splits)
  then have h1: "h1 = h" by auto
  obtain all where all: "combined_timestamps (map (\<lambda>i. pl_timestamps (h i)) ?ids) = Inr all" "us = filter (in_date_range s e) all"
    and sched: "schedule_strategies parse s e us ?ids h = (Inr its, h2)"
    using gen unfolding portfolio_order_iterations_def by (auto simp: range' h1 Let_def)
  note sc = schedule_strategies_Inr [OF sched d]
  have loop': "if i \<in> set ?ids then pforeach (\<lambda>t. visit_timestamp num (price i) (searchsorted_left (pl_timestamps (h i)) (Some t)) t) us (h2 i) = (Inr (), h3 i)
      else h3 i = h2 i"
    by (rule project_loop [OF _ d]) (use loop conjunct1 [OF sc] in \<open>simp only:\<close>)
  show ?thesis
  proof (cases "i \<in> set ?ids")
    case True
    let ?ts = "pl_timestamps (h i)"
    have inc: "strictly_increasing ?ts" "st_run_final_calc (h i)" using ok True by auto
    have g: "generate_order_iterations parse None None (DateValue s) (DateValue e) (h i) = (Inr (), h2 i)"
      using conjunct2 [OF sc, rule_format, of i] True by simp
    have ts2: "pl_timestamps (h2 i) = ?ts" using keepsD [OF keeps_generate g] by (simp add: grid_flag_def)
    have "set ?ts \<subseteq> set all" "strictly_increasing all"
      using combined_timestamps_Inr [OF all(1)] ok True by auto
    then have "map (\<lambda>t. searchsorted_left ?ts (Some t)) (filter (\<lambda>t. t \<in> set ?ts) us) = iteration_indices ?ts s e"
      using own_timestamps [OF _ inc(1)] by (simp add: all(2) iteration_indices_filter [OF inc(1)])
    then have it: "pforeach (run_iteration num (price i)) (iteration_indices ?ts s e) (h2 i) = (Inr (), h3 i)"
      using loop' True visits_are_iterations [OF inc(1) ts2, of num "price i" us] by simp
    have "final_calc (price i) e (h3 i) = (Inr (), h' i)" using project_each [OF final d, of i] True by simp
    from run_rules_parts [OF range inc(2,1) g it this] True show ?thesis by simp
  next
    case False
    then show ?thesis using loop' conjunct2 [OF sc, rule_format, of i] project_each [OF final d, of i] by simp
  qed
qed

lemma portfolio_run_project:
  assumes run: "portfolio_run num price parse depth names start end p h = (Inr (), h')"
    and sel: "selected_strategies names p = Inr sel" and wf: "portfolio_wf p"
    and ok: "\<forall>i\<in>set (map snd sel). strictly_increasing (pl_timestamps (h i)) \<and> st_run_final_calc (h i)"
  shows "if i \<in> set (map snd sel) then separate_run num (price i) parse depth start end (h i) = (Inr (), h' i) else h' i = h i"
proof -
  let ?ids = "map snd sel"
  note d = selected_strategies_Inr(1) [OF sel wf] and sel' = selected_strategies_Inr(3) [OF sel wf]
  have each: "pforeach (\<lambda>(_, i). on_strategy i (m :: (strategy, unit) prog)) sel = pforeach (\<lambda>i. on_strategy i m) ?ids" for m
    by (simp add: pforeach_map case_prod_unfold)
  obtain h1 h2 h3 where
    check: "pforeach (\<lambda>i. on_strategy i check_stage_graph) ?ids h = (Inr (), h1)" and
    ind: "pforeach (\<lambda>i. on_strategy i (run_indicators depth None None False)) ?ids h1 = (Inr (), h2)" and
    sig: "pforeach (\<lambda>i. on_strategy i (run_signals depth None None False)) ?ids h2 = (Inr (), h3)" and
    rules: "portfolio_run_rules num price parse (Some (Some (map (VStr \<circ> fst) sel))) start end p h3 = (Inr (), h')"
    using run sel sel' unfolding portfolio_run_def portfolio_run_indicators_def portfolio_run_signals_def by (auto simp: Let_def each)
  have frame: "grid_flag (h3 j) = grid_flag (h j)" if "j \<in> set ?ids" for j
    using project_each [OF check d, of j] project_each [OF ind d, of j] project_each [OF sig d, of j] that
      check_stage_graph_Inr [of "h j" "h1 j"] keepsD [OF keeps_run_indicators, of depth None None False "h1 j" _ "h2 j"]
      keepsD [OF keeps_run_signals, of depth None None False "h2 j" _ "h3 j"] by simp
  then have ok': "\<forall>j\<in>set ?ids. strictly_increasing (pl_timestamps (h3 j)) \<and> st_run_final_calc (h3 j)"
    using ok by (auto simp: grid_flag_def)
  note r = portfolio_run_rules_project [OF rules sel' wf ok', of i]
  show ?thesis
  proof (cases "i \<in> set ?ids")
    case True
    then show ?thesis
      using project_each [OF check d, of i] project_each [OF ind d, of i] project_each [OF sig d, of i] r
      by (simp add: separate_run_def pbind_def)
  next
    case False
    then show ?thesis
      using project_each [OF check d, of i] project_each [OF ind d, of i] project_each [OF sig d, of i] r by simp
  qed
qed

section \<open>Properties\<close>

text \<open>
  Claim C27. Running strategies side by side is running each of them alone, provided that every selected
  strategy has its final valuation switched on (\<open>run_final_calc\<close>, the default: the portfolio values every
  strategy at the end whatever the flag says) and a strictly increasing time grid, and each strategy one name (\<open>portfolio_wf\<close>). When \<open>Portfolio.run\<close>
  returns, every selected strategy is in exactly the state its own stages, indicators, signals and rules over the same dates, leave it in, whatever grids the
  other strategies have and however their iterations are interleaved; strategies that were not selected
  are unchanged. The strategies share no order, account or ledger.
\<close>

theorem portfolio_run_separates:
  assumes "portfolio_run num price parse depth names start end p h = (Inr (), h')"
    and "selected_strategies names p = Inr sel" "portfolio_wf p"
    and "\<forall>i\<in>set (map snd sel). strictly_increasing (pl_timestamps (h i)) \<and> st_run_final_calc (h i)"
  shows "(\<forall>i\<in>set (map snd sel). separate_run num (price i) parse depth start end (h i) = (Inr (), h' i)) \<and>
    (\<forall>i. i \<notin> set (map snd sel) \<longrightarrow> h' i = h i)"
  using portfolio_run_project [OF assms] by auto

definition other_strategy :: strategy where
  "other_strategy = example_strategy\<lparr>pl_timestamps := [20, 30], st_store := \<lparr>os_heap = (\<lambda>_. (example_order 4)\<lparr>o_timestamp := instant 20\<rparr>), os_next = 1\<rparr>,
     st_account := example_account\<lparr>ac_timestamps := [20, 30], ac_calc_timestamps := [30]\<rparr>\<rparr>"

definition example_store :: strategy_store where
  "example_store = (\<lambda>i. if i = 1 then other_strategy\<lparr>st_run_final_calc := True\<rparr> else example_strategy\<lparr>st_run_final_calc := True\<rparr>)"

definition example_portfolio :: portfolio where
  "example_portfolio = \<lparr>po_name = ''main'', po_strategies = [(''alpha'', 0), (''beta'', 1)]\<rparr>"

lemma example_portfolio_run:
  "fst (portfolio_run example_numerics (\<lambda>_. example_price) (\<lambda>_. None) 5 None DateNone DateNone example_portfolio example_store) = Inr ()"
  by code_simp

theorem portfolio_run_separates_witness:
  "\<exists>h'. portfolio_run example_numerics (\<lambda>_. example_price) (\<lambda>_. None) 5 None DateNone DateNone example_portfolio example_store = (Inr (), h') \<and>
     separate_run example_numerics example_price (\<lambda>_. None) 5 DateNone DateNone (example_store 0) = (Inr (), h' 0) \<and>
     separate_run example_numerics example_price (\<lambda>_. None) 5 DateNone DateNone (example_store 1) = (Inr (), h' 1)"
proof -
  obtain h' where run: "portfolio_run example_numerics (\<lambda>_. example_price) (\<lambda>_. None) 5 None DateNone DateNone example_portfolio example_store = (Inr (), h')"
    using example_portfolio_run by (metis prod.collapse)
  have sel: "selected_strategies None example_portfolio = Inr [(''alpha'', 0), (''beta'', 1)]"
    by code_simp
  have wf: "portfolio_wf example_portfolio" by (simp add: portfolio_wf_def example_portfolio_def)
  have ok: "\<forall>i\<in>set (map snd [(''alpha'', 0), (''beta'', 1)]). strictly_increasing (pl_timestamps (example_store i)) \<and> st_run_final_calc (example_store i)"
    by (simp add: example_store_def other_strategy_def example_strategy_def pipeline.extend_def pipeline_init_def strictly_increasing_def)
  show ?thesis using portfolio_run_separates [OF run sel wf ok] run by auto
qed

end
