(* ===== verification/Factor_Segment.thy ===== *)
theory Factor_Segment
  imports Json
begin

text \<open>
  The stored form of one factor column (\<open>factor_cache.py\<close>): a 4096-byte header page with the
  magic, the format version, the commit state, the bounds and an FNV-1a checksum, followed by the
  little-endian \<open>float64\<close> values. A value is its 64-bit pattern, so that NaN payloads and signed
  zeros are told apart as they are on disk; a file is its bytes. Writing is the sequence of file
  images the mapped file goes through, from its creation to the committed header.
\<close>

unbundle bit_operations_syntax

section \<open>The segment format\<close>

type_synonym byte = "8 word"
type_synonym f8 = "64 word"

primrec le_bytes :: "nat \<Rightarrow> nat \<Rightarrow> byte list" where
  "le_bytes 0 x = []"
| "le_bytes (Suc n) x = of_nat x # le_bytes n (x div 256)"

primrec le_nat :: "byte list \<Rightarrow> nat" where
  "le_nat [] = 0"
| "le_nat (b # bs) = unat b + 256 * le_nat bs"

definition MAGIC :: "byte list" where
  "MAGIC = [71, 65, 77, 66, 73, 84, 70, 67]"

definition VERSION :: nat where "VERSION = 1"

definition COMMITTED :: nat where "COMMITTED = 1"

definition HEADER_BYTES :: nat where "HEADER_BYTES = 4096"

definition fnv_step :: "64 word \<Rightarrow> byte \<Rightarrow> 64 word" where
  "fnv_step v b = (v XOR ucast b) * 1099511628211"

definition checksum :: "byte list \<Rightarrow> 64 word" where
  "checksum data = foldl fnv_step 1469598103934665603 data"

record segment_header =
  sh_magic :: "byte list"
  sh_version :: nat
  sh_state :: nat
  sh_rows :: nat
  sh_offset :: nat
  sh_data_bytes :: nat
  sh_checksum :: nat

text \<open>\<open>struct.Struct("<8sIIQQQQ")\<close>: 48 bytes.\<close>

definition header_pack :: "segment_header \<Rightarrow> byte list" where
  "header_pack h = sh_magic h @ le_bytes 4 (sh_version h) @ le_bytes 4 (sh_state h) @ le_bytes 8 (sh_rows h)
     @ le_bytes 8 (sh_offset h) @ le_bytes 8 (sh_data_bytes h) @ le_bytes 8 (sh_checksum h)"

definition field :: "nat \<Rightarrow> nat \<Rightarrow> byte list \<Rightarrow> byte list" where
  "field start n bs = take n (drop start bs)"

definition header_unpack :: "byte list \<Rightarrow> segment_header" where
  "header_unpack bs = \<lparr>sh_magic = field 0 8 bs, sh_version = le_nat (field 8 4 bs), sh_state = le_nat (field 12 4 bs),
     sh_rows = le_nat (field 16 8 bs), sh_offset = le_nat (field 24 8 bs), sh_data_bytes = le_nat (field 32 8 bs),
     sh_checksum = le_nat (field 40 8 bs)\<rparr>"

definition f8_bytes :: "f8 list \<Rightarrow> byte list" where
  "f8_bytes values = concat (map (\<lambda>w. le_bytes 8 (unat w)) values)"

fun f8_of_bytes :: "byte list \<Rightarrow> f8 list" where
  "f8_of_bytes (a # b # c # d # e # f # g # h # bs) = of_nat (le_nat [a, b, c, d, e, f, g, h]) # f8_of_bytes bs"
| "f8_of_bytes _ = []"

definition segment_header_of :: "nat \<Rightarrow> f8 list \<Rightarrow> segment_header" where
  "segment_header_of state values = \<lparr>sh_magic = MAGIC, sh_version = VERSION, sh_state = state, sh_rows = length values,
     sh_offset = HEADER_BYTES, sh_data_bytes = length (f8_bytes values), sh_checksum = unat (checksum (f8_bytes values))\<rparr>"

definition store_at_front :: "byte list \<Rightarrow> byte list \<Rightarrow> byte list" where
  "store_at_front new mapping = new @ drop (length new) mapping"

text \<open>
  The images of the file, in the order \<open>write_reference_float64\<close> makes them: created, extended with
  zeros, the data copied in, the header of state 0, the committed header. \<open>open("xb+")\<close> refuses a
  path that exists.
\<close>

definition write_images :: "f8 list \<Rightarrow> byte list list" where
  "write_images values =
     (let data = f8_bytes values;
          extended = replicate (HEADER_BYTES + length data) 0;
          copied = take HEADER_BYTES extended @ data;
          pending = store_at_front (header_pack (segment_header_of 0 values)) copied;
          committed = store_at_front (header_pack (segment_header_of COMMITTED values)) pending in
      [[], extended, copied, pending, committed])"

definition write_reference_float64 :: "byte list option \<Rightarrow> f8 list \<Rightarrow> byte list res" where
  "write_reference_float64 existing values =
     (case existing of Some _ \<Rightarrow> Inl (OSError ''File exists'') | None \<Rightarrow> Inr (last (write_images values)))"

text \<open>
  An empty file cannot be mapped. When the checksum does not match, the view of the data is still alive
  as the mapping closes, so what reaches the caller is the \<open>BufferError\<close> of the closing mapping and not
  the \<open>ValueError\<close> that was being raised.
\<close>

definition read_reference_float64 :: "byte list \<Rightarrow> f8 list res" where
  "read_reference_float64 mapping =
     (if mapping = [] then Inl (ValueError ''cannot mmap an empty file'')
      else if length mapping < HEADER_BYTES then Inl (ValueError ''factor cache segment is truncated'')
      else let h = header_unpack mapping; data = take (sh_data_bytes h) (drop (sh_offset h) mapping) in
        if sh_magic h \<noteq> MAGIC \<or> sh_version h \<noteq> VERSION \<or> sh_state h \<noteq> COMMITTED
          then Inl (ValueError ''factor cache header is invalid or uncommitted'')
        else if sh_offset h \<noteq> HEADER_BYTES \<or> sh_data_bytes h \<noteq> sh_rows h * 8
            \<or> sh_offset h + sh_data_bytes h \<noteq> length mapping
          then Inl (ValueError ''factor cache segment bounds are invalid'')
        else if unat (checksum data) \<noteq> sh_checksum h then Inl (BufferError ''cannot close exported pointers exist'')
        else Inr (f8_of_bytes data))"

section \<open>Byte codes\<close>

lemma length_le_bytes [simp]: "length (le_bytes n x) = n"
  by (induction n arbitrary: x) auto

lemma le_nat_le_bytes: "le_nat (le_bytes n x) = x mod 256 ^ n"
proof (induction n arbitrary: x)
  case (Suc n)
  have "x mod 256 + 256 * (x div 256 mod 256 ^ n) = x mod (256 * 256 ^ n)"
    by (metis add.commute mod_mult2_eq)
  then show ?case using Suc by (simp add: unat_of_nat)
qed simp

lemma unat_less_bytes:
  "unat (b :: byte) < 2 ^ LENGTH(8)" "unat (w :: f8) < 2 ^ LENGTH(64)"
  by (rule unsigned_less)+

lemma le_nat_less: "le_nat bs < 256 ^ length bs"
proof (induction bs)
  case (Cons b bs)
  have "unat b < 256" using unat_less_bytes(1) by simp
  then show ?case using Cons by simp
qed simp

lemma byte_256: "(256 :: byte) = 0"
  by simp

lemma le_bytes_le_nat: "le_bytes (length bs) (le_nat bs) = bs"
proof (induction bs)
  case (Cons b bs)
  have b: "unat b < 256" using unat_less_bytes(1) by simp
  have "(of_nat (unat b + 256 * le_nat bs) :: byte) = b"
    using byte_256 by (simp only: of_nat_add of_nat_mult of_nat_numeral of_nat_unat mult_zero_left add_0_right ucast_id)
  moreover have "(unat b + 256 * le_nat bs) div 256 = le_nat bs" using b by simp
  ultimately show ?case using Cons by simp
qed simp

lemma le_nat_inj: "length bs = length cs \<Longrightarrow> le_nat bs = le_nat cs \<Longrightarrow> bs = cs"
  by (metis le_bytes_le_nat)

lemma f8_word_bytes: "of_nat (le_nat (le_bytes 8 (unat w))) = (w :: f8)"
proof -
  have "unat w < 256 ^ 8" using unat_less_bytes(2) [of w] by simp
  then show ?thesis by (simp add: le_nat_le_bytes)
qed

lemma f8_bytes_simps [simp]:
  "f8_bytes [] = []" "f8_bytes (w # ws) = le_bytes 8 (unat w) @ f8_bytes ws"
  by (simp_all add: f8_bytes_def)

lemma length_f8_bytes [simp]: "length (f8_bytes values) = 8 * length values"
  by (induction "values") simp_all

lemma f8_of_bytes_block:
  assumes "length bs = 8"
  shows "f8_of_bytes (bs @ rest) = of_nat (le_nat bs) # f8_of_bytes rest"
proof -
  obtain a b c d e f g h where "bs = [a, b, c, d, e, f, g, h]"
    using assms by (auto simp: numeral_eq_Suc length_Suc_conv)
  then show ?thesis by simp
qed

lemma f8_roundtrip: "f8_of_bytes (f8_bytes values) = values"
  by (induction "values") (simp_all add: f8_of_bytes_block f8_word_bytes)

lemma f8_bytes_of_bytes: "length bs = 8 * n \<Longrightarrow> f8_bytes (f8_of_bytes bs) = bs \<and> length (f8_of_bytes bs) = n"
proof (induction n arbitrary: bs)
  case (Suc n)
  define x y where "x = take 8 bs" and "y = drop 8 bs"
  have bs: "bs = x @ y" and x: "length x = 8" and y: "length y = 8 * n" using Suc.prems by (simp_all add: x_def y_def)
  have "le_nat x < 2 ^ 64" using le_nat_less [of x] x by simp
  then have "unat (of_nat (le_nat x) :: f8) = le_nat x" by (simp add: unat_of_nat)
  moreover have "le_bytes 8 (le_nat x) = x" using le_bytes_le_nat [of x] x by simp
  ultimately show ?case using Suc.IH [OF y] by (simp add: bs f8_of_bytes_block [OF x])
qed simp

section \<open>The checksum\<close>

text \<open>The FNV prime is odd, hence invertible: a step loses neither the running value nor the byte.\<close>

lemma fnv_prime_inverse: "(1099511628211 :: 64 word) * 14886173955864302971 = 1"
  by simp

lemma mult_inj_of_inverse: "p * q = (1 :: 'a::comm_monoid_mult) \<Longrightarrow> x * p = y * p \<longleftrightarrow> x = y"
  by (metis mult.assoc mult_1_right)

lemma mult_prime_inj: "(x :: 64 word) * 1099511628211 = y * 1099511628211 \<longleftrightarrow> x = y"
  by (rule mult_inj_of_inverse [OF fnv_prime_inverse])

lemma xor_cancel_left: "x XOR a = x XOR b \<longleftrightarrow> a = (b :: 'a::len word)"
  by (auto simp: bit_eq_iff bit_xor_iff)

lemma xor_cancel_right: "a XOR x = b XOR x \<longleftrightarrow> a = (b :: 'a::len word)"
  by (auto simp: bit_eq_iff bit_xor_iff)

lemma fnv_step_inj_value: "fnv_step v b = fnv_step v' b \<longleftrightarrow> v = v'"
  by (simp add: fnv_step_def mult_prime_inj xor_cancel_right)

lemma ucast_byte_inj: "(ucast (b :: byte) :: 64 word) = ucast b' \<longleftrightarrow> b = b'"
proof -
  have "unat (ucast c :: 64 word) = unat c" for c :: byte
  proof -
    have "unat c < 2 ^ 64" using unat_less_bytes(1) [of c] by simp
    then show ?thesis by (simp add: unsigned_ucast_eq take_bit_nat_eq_self)
  qed
  then show ?thesis by (metis word_unat_eq_iff)
qed

lemma fnv_step_inj_byte: "fnv_step v b = fnv_step v b' \<longleftrightarrow> b = b'"
  by (simp add: fnv_step_def mult_prime_inj xor_cancel_left ucast_byte_inj)

lemma fnv_fold_inj: "foldl fnv_step v data = foldl fnv_step v' data \<longleftrightarrow> v = v'"
  by (induction data arbitrary: v v') (simp_all add: fnv_step_inj_value)

lemma checksum_split:
  "checksum (xs @ b # ys) = checksum (xs @ b' # ys) \<longleftrightarrow> b = b'"
  by (simp add: checksum_def fnv_fold_inj fnv_step_inj_byte)

lemma checksum_detects:
  assumes "i < length data" "data ! i \<noteq> b"
  shows "checksum (data[i := b]) \<noteq> checksum data"
  using assms checksum_split [of "take i data" b "drop (Suc i) data" "data ! i"]
  by (simp add: upd_conv_take_nth_drop id_take_nth_drop [symmetric])

section \<open>Accepted files\<close>

lemma length_MAGIC [simp]: "length MAGIC = 8"
  by (simp add: MAGIC_def)

lemma length_header_pack: "length (header_pack (segment_header_of state vs)) = 48"
  by (simp add: header_pack_def segment_header_of_def)

lemma header_unpack_segment:
  assumes "8 * length vs < 2 ^ 64" and "state < 2 ^ 32"
  shows "header_unpack (header_pack (segment_header_of state vs) @ rest) = segment_header_of state vs"
proof -
  have "unat (checksum (f8_bytes vs)) < 2 ^ 64" using unat_less_bytes(2) [of "checksum (f8_bytes vs)"] by simp
  then show ?thesis
    using assms by (simp add: header_unpack_def header_pack_def segment_header_of_def field_def le_nat_le_bytes
        VERSION_def HEADER_BYTES_def)
qed

lemma read_header_data:
  assumes "8 * length vs < 2 ^ 64" "state < 2 ^ 32" "length pad = 4048" "length data = 8 * length vs"
  shows "read_reference_float64 (header_pack (segment_header_of state vs) @ pad @ data)
    = (if state \<noteq> COMMITTED then Inl (ValueError ''factor cache header is invalid or uncommitted'')
       else if checksum data = checksum (f8_bytes vs) then Inr (f8_of_bytes data)
       else Inl (BufferError ''cannot close exported pointers exist''))"
proof -
  define im where "im = header_pack (segment_header_of state vs) @ pad @ data"
  have h: "header_unpack im = segment_header_of state vs"
    unfolding im_def by (rule header_unpack_segment [OF assms(1,2)])
  have len: "length im = 4096 + 8 * length vs" using assms(3,4) by (simp add: im_def length_header_pack)
  have d: "drop 4096 im = data" using assms(3) by (simp add: im_def length_header_pack)
  have "sh_magic (header_unpack im) = MAGIC" "sh_version (header_unpack im) = VERSION" "sh_state (header_unpack im) = state"
    "sh_offset (header_unpack im) = 4096" "sh_data_bytes (header_unpack im) = 8 * length vs" "sh_rows (header_unpack im) = length vs"
    "sh_checksum (header_unpack im) = unat (checksum (f8_bytes vs))"
    unfolding h by (simp_all add: segment_header_of_def HEADER_BYTES_def f8_roundtrip)
  moreover have "im \<noteq> []" using len by force
  ultimately have "read_reference_float64 im = (if state \<noteq> COMMITTED then Inl (ValueError ''factor cache header is invalid or uncommitted'')
      else if unat (checksum data) = unat (checksum (f8_bytes vs)) then Inr (f8_of_bytes data)
      else Inl (BufferError ''cannot close exported pointers exist''))"
    using len d assms(4) unfolding read_reference_float64_def Let_def HEADER_BYTES_def by simp
  then show ?thesis by (simp add: im_def word_unat_eq_iff)
qed

lemma read_header_page:
  assumes "8 * length vs < 2 ^ 64" "state < 2 ^ 32" "length pad = 4048"
  shows "read_reference_float64 (header_pack (segment_header_of state vs) @ pad @ f8_bytes vs)
    = (if state = COMMITTED then Inr vs else Inl (ValueError ''factor cache header is invalid or uncommitted''))"
  using read_header_data [OF assms, of "f8_bytes vs"] by (simp add: f8_roundtrip)

lemma field_split: "drop start bs = field start n bs @ drop (start + n) bs"
  by (simp add: field_def add.commute flip: drop_drop)

lemma le_bytes_field:
  "start + n \<le> length bs \<Longrightarrow> le_nat (field start n bs) = x \<Longrightarrow> field start n bs = le_bytes n x"
  using le_bytes_le_nat [of "field start n bs"] by (simp add: field_def)

lemma accepted_image:
  assumes "read_reference_float64 bs = Inr vs"
  shows "\<exists>pad. length pad = 4048 \<and> bs = header_pack (segment_header_of COMMITTED vs) @ pad @ f8_bytes vs"
proof -
  define h where "h = header_unpack bs"
  define data where "data = take (sh_data_bytes h) (drop (sh_offset h) bs)"
  have len: "HEADER_BYTES \<le> length bs" and magic: "sh_magic h = MAGIC" and version: "sh_version h = VERSION"
    and state: "sh_state h = COMMITTED" and offset: "sh_offset h = HEADER_BYTES"
    and bytes: "sh_data_bytes h = sh_rows h * 8" and bounds: "sh_offset h + sh_data_bytes h = length bs"
    and sum: "unat (checksum data) = sh_checksum h" and vs: "vs = f8_of_bytes data"
    using assms unfolding read_reference_float64_def h_def data_def Let_def by (auto split: if_splits)
  have data: "data = drop 4096 bs" using offset bounds by (simp add: data_def HEADER_BYTES_def)
  have dlen: "length data = 8 * sh_rows h" using bounds bytes offset by (simp add: data HEADER_BYTES_def)
  have stored: "f8_bytes vs = data" "length vs = sh_rows h" using f8_bytes_of_bytes [OF dlen] by (simp_all add: vs)
  have "bs = field 0 8 bs @ field 8 4 bs @ field 12 4 bs @ field 16 8 bs @ field 24 8 bs @ field 32 8 bs @ field 40 8 bs
      @ field 48 4048 bs @ data"
    using field_split [of 0 bs 8] field_split [of 8 bs 4] field_split [of 12 bs 4] field_split [of 16 bs 8]
      field_split [of 24 bs 8] field_split [of 32 bs 8] field_split [of 40 bs 8] field_split [of 48 bs 4048] data by simp
  moreover have "field 0 8 bs = MAGIC" using magic by (simp add: h_def header_unpack_def)
  moreover have "field 8 4 bs = le_bytes 4 VERSION" "field 12 4 bs = le_bytes 4 COMMITTED" "field 16 8 bs = le_bytes 8 (length vs)"
      "field 24 8 bs = le_bytes 8 HEADER_BYTES" "field 32 8 bs = le_bytes 8 (8 * length vs)"
      "field 40 8 bs = le_bytes 8 (unat (checksum data))"
    using version state offset bytes stored(2) sum len
    by (auto simp: h_def header_unpack_def HEADER_BYTES_def intro!: le_bytes_field)
  ultimately have "bs = header_pack (segment_header_of COMMITTED vs) @ field 48 4048 bs @ f8_bytes vs"
    by (simp add: header_pack_def segment_header_of_def stored dlen)
  moreover have "length (field 48 4048 bs) = 4048" using len by (simp add: field_def HEADER_BYTES_def)
  ultimately show ?thesis by blast
qed

text \<open>The ways a file is refused: before its data is mapped, or by its checksum.\<close>

definition segment_refused :: "byte list \<Rightarrow> bool" where
  "segment_refused bs = (case read_reference_float64 bs of Inl (ValueError _) \<Rightarrow> True | _ \<Rightarrow> False)"

definition segment_mismatched :: "byte list \<Rightarrow> bool" where
  "segment_mismatched bs = (case read_reference_float64 bs of Inl (BufferError _) \<Rightarrow> True | _ \<Rightarrow> False)"

lemma read_cases: "(\<exists>us. read_reference_float64 bs = Inr us) \<or> segment_refused bs \<or> segment_mismatched bs"
  by (auto simp: segment_refused_def segment_mismatched_def read_reference_float64_def Let_def)

lemma rejectedI: "(\<And>us. read_reference_float64 bs = Inr us \<Longrightarrow> False) \<Longrightarrow> segment_refused bs \<or> segment_mismatched bs"
  using read_cases [of bs] by blast

lemma header_refused:
  "sh_magic (header_unpack bs) \<noteq> MAGIC \<or> sh_state (header_unpack bs) \<noteq> COMMITTED \<Longrightarrow> segment_refused bs"
  by (auto simp: segment_refused_def read_reference_float64_def Let_def)

lemma header_pack_inj:
  assumes "header_pack (segment_header_of s us) = header_pack (segment_header_of s vs)"
    and "8 * length us < 2 ^ 64" "8 * length vs < 2 ^ 64"
  shows "length us = length vs" "checksum (f8_bytes us) = checksum (f8_bytes vs)"
proof -
  have "le_bytes 8 (length us) = le_bytes 8 (length vs)"
    and sums: "le_bytes 8 (unat (checksum (f8_bytes us))) = le_bytes 8 (unat (checksum (f8_bytes vs)))"
    using assms(1) by (simp_all add: header_pack_def segment_header_of_def append_eq_append_conv)
  then have "length us mod 256 ^ 8 = length vs mod 256 ^ 8"
    by (metis le_nat_le_bytes)
  then show "length us = length vs" using assms(2,3) by simp
  have "unat (checksum (f8_bytes us)) mod 256 ^ 8 = unat (checksum (f8_bytes vs)) mod 256 ^ 8"
    using sums by (metis le_nat_le_bytes)
  then show "checksum (f8_bytes us) = checksum (f8_bytes vs)"
    using unat_less_bytes(2) [of "checksum (f8_bytes us)"] unat_less_bytes(2) [of "checksum (f8_bytes vs)"]
    by (simp add: word_unat_eq_iff)
qed

lemma f8_bytes_inj: "f8_bytes us = f8_bytes vs \<Longrightarrow> us = vs"
  by (metis f8_roundtrip)

text \<open>
  A file differing from an accepted one in a single byte of its data fails its checksum, and one
  differing in a byte of its header is not accepted.
\<close>

lemma committed_data_mismatched:
  assumes im: "im = header_pack (segment_header_of COMMITTED vs) @ pad @ f8_bytes vs" "length pad = 4048"
    and small: "8 * length vs < 2 ^ 64" and i: "i < length im" "4096 \<le> i" "im ! i \<noteq> b"
  shows "segment_mismatched (im[i := b])"
proof -
  have past: "\<not> i - 48 < 4048" using i(2) by simp
  have "im[i := b] = header_pack (segment_header_of COMMITTED vs) @ pad @ (f8_bytes vs)[i - 4096 := b]"
    using im(2) i(2) past by (simp add: im(1) list_update_append length_header_pack)
  moreover have "i - 4096 < length (f8_bytes vs)" "f8_bytes vs ! (i - 4096) \<noteq> b"
    using i past im(2) by (simp_all add: im(1) nth_append length_header_pack split: if_splits)
  then have "checksum ((f8_bytes vs)[i - 4096 := b]) \<noteq> checksum (f8_bytes vs)" by (rule checksum_detects)
  ultimately show ?thesis
    using read_header_data [OF small _ im(2), of COMMITTED "(f8_bytes vs)[i - 4096 := b]"]
    by (simp add: segment_mismatched_def f8_roundtrip COMMITTED_def)
qed

lemma committed_header_rejected:
  assumes im: "im = header_pack (segment_header_of COMMITTED vs) @ pad @ f8_bytes vs" "length pad = 4048"
    and i: "i < 48" "im ! i \<noteq> b"
  shows "segment_refused (im[i := b]) \<or> segment_mismatched (im[i := b])"
proof (rule rejectedI)
  fix us
  assume "read_reference_float64 (im[i := b]) = Inr us"
  then obtain pad' where pad': "length pad' = 4048"
    and acc: "im[i := b] = header_pack (segment_header_of COMMITTED us) @ pad' @ f8_bytes us"
    using accepted_image by blast
  have head: "im[i := b] = (header_pack (segment_header_of COMMITTED vs))[i := b] @ pad @ f8_bytes vs"
    using i(1) by (simp add: im(1) list_update_append length_header_pack)
  have "f8_bytes us = f8_bytes vs" using acc head im(2) pad' by (simp add: append_eq_append_conv length_header_pack)
  then have "us = vs" by (rule f8_bytes_inj)
  then have "(header_pack (segment_header_of COMMITTED vs))[i := b] = header_pack (segment_header_of COMMITTED vs)"
    using acc head im(2) pad' by (simp add: append_eq_append_conv length_header_pack)
  then have "header_pack (segment_header_of COMMITTED vs) ! i = b" using i(1) by (metis length_header_pack nth_list_update_eq)
  then show False using i by (simp add: im(1) nth_append length_header_pack)
qed

lemma short_refused: "length bs < 4096 \<Longrightarrow> segment_refused bs"
  by (auto simp: segment_refused_def read_reference_float64_def HEADER_BYTES_def)

text \<open>A file cut behind its header page is refused by its bounds.\<close>

lemma committed_truncation_refused:
  assumes im: "im = header_pack (segment_header_of COMMITTED vs) @ pad @ f8_bytes vs" "length pad = 4048"
    and small: "8 * length vs < 2 ^ 64" and n: "n < length im"
  shows "segment_refused (take n im)"
proof (cases "n < 4096")
  case True
  then show ?thesis using n by (simp add: short_refused)
next
  case False
  have cut: "take n im = header_pack (segment_header_of COMMITTED vs) @ pad @ take (n - 4096) (f8_bytes vs)"
    using False im(2) by (simp add: im(1) length_header_pack)
  have h: "header_unpack (take n im) = segment_header_of COMMITTED vs"
    unfolding cut by (rule header_unpack_segment [OF small]) (simp add: COMMITTED_def)
  have len: "length (take n im) = n" "n < 4096 + 8 * length vs" using n im(2) by (simp_all add: im(1) length_header_pack)
  then have "take n im \<noteq> []" using False by force
  then show ?thesis
    using len False by (simp add: segment_refused_def read_reference_float64_def Let_def h HEADER_BYTES_def)
      (simp add: segment_header_of_def HEADER_BYTES_def)
qed

lemma committed_image:
  "last (write_images vs) = header_pack (segment_header_of COMMITTED vs) @ replicate 4048 0 @ f8_bytes vs"
  by (simp add: write_images_def Let_def store_at_front_def length_header_pack HEADER_BYTES_def take_replicate drop_replicate)

text \<open>An image written before the committed header is refused, whole or cut at any byte.\<close>

lemma uncommitted_images_refused:
  assumes "8 * length vs < 2 ^ 64" "img \<in> set (butlast (write_images vs))"
  shows "segment_refused (take n img)"
proof (cases "length (take n img) < 4096")
  case True
  then show ?thesis by (rule short_refused)
next
  case False
  have "img = [] \<or> (\<exists>rest. img = replicate 4096 0 @ rest)
      \<or> img = header_pack (segment_header_of 0 vs) @ replicate 4048 0 @ f8_bytes vs"
    using assms(2) by (auto simp: write_images_def Let_def store_at_front_def length_header_pack HEADER_BYTES_def
        take_replicate drop_replicate replicate_add)
  then show ?thesis
  proof (elim disjE exE)
    assume "img = []"
    then show ?thesis using False by simp
  next
    fix rest
    assume "img = replicate 4096 0 @ rest"
    then have "field 0 8 (take n img) = replicate 8 0" using False by (simp add: field_def take_replicate)
    moreover have "replicate 8 0 \<noteq> MAGIC" by (auto simp: MAGIC_def dest: arg_cong [of _ _ hd])
    ultimately show ?thesis by (intro header_refused) (simp add: header_unpack_def)
  next
    assume "img = header_pack (segment_header_of 0 vs) @ replicate 4048 0 @ f8_bytes vs"
    then have "take n img = header_pack (segment_header_of 0 vs) @ take (n - 48) (replicate 4048 0 @ f8_bytes vs)"
      using False by (simp add: length_header_pack)
    then have "header_unpack (take n img) = segment_header_of 0 vs"
      using header_unpack_segment [OF assms(1), of 0] by simp
    then show ?thesis by (intro header_refused) (simp add: segment_header_of_def COMMITTED_def)
  qed
qed

section \<open>Properties\<close>

text \<open>
  Claim C25. The committed file reads back as the written values, bit for bit. Every earlier image the
  writer gives the file, whole or cut at any byte, and every proper prefix of the committed file are
  refused with a \<open>ValueError\<close>. The committed file with one byte of its data changed fails its checksum,
  which reaches the caller as a \<open>BufferError\<close>, and with one byte of its header changed it is not read
  either. The 4048 padding bytes are covered by no check.
\<close>

theorem segment_durable:
  assumes "8 * length vs < 2 ^ 64" and "write_reference_float64 None vs = Inr seg"
  shows "read_reference_float64 seg = Inr vs
    \<and> (\<forall>img\<in>set (butlast (write_images vs)). \<forall>n. segment_refused (take n img))
    \<and> (\<forall>n<length seg. segment_refused (take n seg))
    \<and> (\<forall>i b. i < length seg \<and> 4096 \<le> i \<and> seg ! i \<noteq> b \<longrightarrow> segment_mismatched (seg[i := b]))
    \<and> (\<forall>i b. i < 48 \<and> seg ! i \<noteq> b \<longrightarrow> segment_refused (seg[i := b]) \<or> segment_mismatched (seg[i := b]))"
proof -
  have seg: "seg = header_pack (segment_header_of COMMITTED vs) @ replicate 4048 0 @ f8_bytes vs"
    using assms(2) by (simp add: write_reference_float64_def committed_image)
  have "read_reference_float64 seg = Inr vs"
    using read_header_page [OF assms(1), of COMMITTED "replicate 4048 0"] by (simp add: seg COMMITTED_def)
  then show ?thesis
    using uncommitted_images_refused [OF assms(1)] committed_truncation_refused [OF seg _ assms(1)]
      committed_data_mismatched [OF seg _ assms(1)] committed_header_rejected [OF seg]
    by simp
qed

theorem segment_durable_witness:
  "read_reference_float64 (last (write_images [0, 4607182418800017408])) = Inr [0, 4607182418800017408]"
  using segment_durable [of "[0, 4607182418800017408]" "last (write_images [0, 4607182418800017408])"]
  by (simp add: write_reference_float64_def)

end
