(* ===== verification/Factor_Identity.thy ===== *)
theory Factor_Identity
  imports Json
begin

text \<open>
  Deterministic identities of factor-DAG nodes (\<open>factor_identity.py\<close>): canonical parameter values, the
  identity's constructor with its checks, the canonical snapshot and its reading back. The payload that
  is hashed is the text of the snapshot with sorted keys; the model keeps the document, since the text
  is a function of it, and the hash of its UTF-8 text is the parameter \<open>digest\<close>.
\<close>

section \<open>Canonical values\<close>

text \<open>
  A value a caller may pass as a parameter: the JSON-like values, mappings whose keys need not be
  strings, and any other object.
\<close>

datatype py_key = KStr string | KOther

datatype py_tree = PNull | PBool bool | PInt int | PFloat float64 | PStr string | PSeq "py_tree list"
  | PMap "(py_key \<times> py_tree) list" | POther string

definition IDENTITY_FORMAT :: string where "IDENTITY_FORMAT = ''gambit-factor-node''"

definition IDENTITY_VERSION :: int where "IDENTITY_VERSION = 1"

fun key_str :: "py_key \<Rightarrow> string" where
  "key_str (KStr s) = s"
| "key_str KOther = []"

lemma res_map_cong [fundef_cong]:
  "xs = ys \<Longrightarrow> (\<And>x. x \<in> set ys \<Longrightarrow> f x = g x) \<Longrightarrow> res_map f xs = res_map g ys"
  by (induction ys arbitrary: xs) (auto intro: rbind_cong)

lemma size_py_map [termination_simp]: "(k, v) \<in> set kvs \<Longrightarrow> size v < Suc (size_list (size_prod (\<lambda>_. 0) size) kvs)"
  by (induction kvs) auto

function canonicalize :: "py_tree \<Rightarrow> json res" where
  "canonicalize PNull = Inr JNull"
| "canonicalize (PStr s) = Inr (JStr s)"
| "canonicalize (PBool b) = Inr (JBool b)"
| "canonicalize (PInt n) = Inr (JInt n)"
| "canonicalize (PFloat x) = (if is_finite x then Inr (JFloat x) else Inl (ValueError ''contains a non-finite float''))"
| "canonicalize (PMap kvs) =
     (if \<exists>kv\<in>set kvs. key_str (fst kv) = [] then Inl (ValueError ''mapping keys must be non-empty strings'')
      else rbind (res_map (\<lambda>kv. rbind (canonicalize (snd kv)) (\<lambda>v. Inr (key_str (fst kv), v)))
             (sort_key (\<lambda>kv. key_str (fst kv)) kvs)) (\<lambda>d. Inr (JObj d)))"
| "canonicalize (PSeq xs) = rbind (res_map canonicalize xs) (\<lambda>ys. Inr (JArr ys))"
| "canonicalize (POther t) = Inl (TypeError ''contains unsupported value type'')"
  by pat_completeness auto

termination canonicalize
  by (relation "measure size") (auto simp: termination_simp less_Suc_eq_le intro: size_list_estimation')

section \<open>Identities\<close>

record column_schema =
  cs_name :: string
  cs_dtype :: string
  cs_nullable :: bool

definition column_schema_init :: "string \<Rightarrow> string \<Rightarrow> bool \<Rightarrow> column_schema res" where
  "column_schema_init nm dtype nullable =
     (if \<not> portable_name nm then Inl (ValueError ''factor column name must be a safe portable identifier'')
      else if dtype = [] \<or> length dtype > 128
        then Inl (ValueError ''factor column dtype must be non-empty and at most 128 characters'')
      else Inr \<lparr>cs_name = nm, cs_dtype = dtype, cs_nullable = nullable\<rparr>)"

definition column_snapshot :: "column_schema \<Rightarrow> json" where
  "column_snapshot c = JObj [(''name'', JStr (cs_name c)), (''dtype'', JStr (cs_dtype c)), (''nullable'', JBool (cs_nullable c))]"

record node_identity =
  ni_transform :: string
  ni_transform_version :: string
  ni_output_schema :: "column_schema list"
  ni_row_ordering :: "string list"
  ni_parents :: "string list"
  ni_input_fingerprints :: "(string \<times> string) list"
  ni_parameters :: "(py_key \<times> py_tree) list"
  ni_research_context :: "(py_key \<times> py_tree) list"
  ni_canonical_payload :: json

definition validate_digest :: "string \<Rightarrow> unit res" where
  "validate_digest v = require (hex_name 64 v) (ValueError ''must contain lowercase SHA-256 digests'')"

definition build_snapshot :: "node_identity \<Rightarrow> json res" where
  "build_snapshot self =
     rbind (canonicalize (PMap (ni_parameters self))) (\<lambda>parameters.
     rbind (canonicalize (PMap (ni_research_context self))) (\<lambda>context.
     Inr (JObj [
       (''format'', JStr IDENTITY_FORMAT),
       (''version'', JInt IDENTITY_VERSION),
       (''parents'', JArr (map JStr (ni_parents self))),
       (''inputs'', JObj (sort_key fst (map (\<lambda>(nm, f). (nm, JStr f)) (ni_input_fingerprints self)))),
       (''transform'', JObj [(''name'', JStr (ni_transform self)), (''version'', JStr (ni_transform_version self))]),
       (''parameters'', parameters),
       (''output_schema'', JArr (map column_snapshot (ni_output_schema self))),
       (''row_ordering'', JArr (map JStr (ni_row_ordering self))),
       (''research_context'', context)])))"

text \<open>\<open>json.dumps(..., sort_keys=True)\<close>: every object with its keys in order.\<close>

lemma size_json_obj [termination_simp]: "(k, v) \<in> set kvs \<Longrightarrow> size v < Suc (size_list (size_prod (\<lambda>_. 0) size) kvs)"
  by (induction kvs) auto

function sorted_json :: "json \<Rightarrow> json" where
  "sorted_json JNull = JNull"
| "sorted_json (JBool b) = JBool b"
| "sorted_json (JInt n) = JInt n"
| "sorted_json (JFloat x) = JFloat x"
| "sorted_json (JStr s) = JStr s"
| "sorted_json (JArr xs) = JArr (map sorted_json xs)"
| "sorted_json (JObj kvs) = JObj (sort_key fst (map (\<lambda>kv. (fst kv, sorted_json (snd kv))) kvs))"
  by pat_completeness auto

termination sorted_json
  by (relation "measure size") (auto simp: termination_simp less_Suc_eq_le intro: size_list_estimation')

definition identity_checks :: "node_identity \<Rightarrow> unit res" where
  "identity_checks self =
     rbind (require (ni_transform self \<noteq> [] \<and> length (ni_transform self) \<le> 255)
       (ValueError ''transform must be non-empty and at most 255 characters'')) (\<lambda>_.
     rbind (require (ni_transform_version self \<noteq> [] \<and> length (ni_transform_version self) \<le> 128)
       (ValueError ''transform_version must be non-empty and at most 128 characters'')) (\<lambda>_.
     rbind (require (ni_output_schema self \<noteq> []) (ValueError ''output_schema must not be empty'')) (\<lambda>_.
     rbind (require (distinct (map cs_name (ni_output_schema self))) (ValueError ''output_schema column names must be unique'')) (\<lambda>_.
     rbind (require (ni_row_ordering self \<noteq> [] \<and> [] \<notin> set (ni_row_ordering self))
       (ValueError ''row_ordering must explicitly name at least one ordering field'')) (\<lambda>_.
     rbind (require (distinct (ni_row_ordering self)) (ValueError ''row_ordering fields must be unique'')) (\<lambda>_.
     rbind (res_each validate_digest (ni_parents self)) (\<lambda>_.
     rbind (require (distinct (ni_parents self)) (ValueError ''parents must not contain duplicate node keys'')) (\<lambda>_.
     rbind (require (ni_parents self \<noteq> [] \<or> ni_input_fingerprints self \<noteq> [])
       (ValueError ''a factor node must identify at least one parent or input'')) (\<lambda>_.
     res_each (\<lambda>(nm, fingerprint).
       rbind (require (portable_name nm) (ValueError ''input fingerprint names must be safe portable identifiers'')) (\<lambda>_.
       validate_digest fingerprint)) (ni_input_fingerprints self))))))))))"

definition identity_init :: "string \<Rightarrow> string \<Rightarrow> column_schema list \<Rightarrow> string list \<Rightarrow> string list \<Rightarrow> (string \<times> string) list
    \<Rightarrow> (py_key \<times> py_tree) list \<Rightarrow> (py_key \<times> py_tree) list \<Rightarrow> node_identity res" where
  "identity_init transform version schema row_order parents inputs parameters context =
     (let self = \<lparr>ni_transform = transform, ni_transform_version = version, ni_output_schema = schema,
        ni_row_ordering = row_order, ni_parents = parents, ni_input_fingerprints = inputs, ni_parameters = parameters,
        ni_research_context = context, ni_canonical_payload = JNull\<rparr> in
      rbind (identity_checks self) (\<lambda>_.
      rbind (build_snapshot self) (\<lambda>snapshot.
      Inr (self\<lparr>ni_canonical_payload := sorted_json snapshot\<rparr>))))"

definition identity_snapshot :: "node_identity \<Rightarrow> json" where
  "identity_snapshot self = ni_canonical_payload self"

definition identity_node_key :: "(json \<Rightarrow> string) \<Rightarrow> node_identity \<Rightarrow> string" where
  "identity_node_key digest self = digest (ni_canonical_payload self)"

subsection \<open>Reading a snapshot\<close>

function py_of_json :: "json \<Rightarrow> py_tree" where
  "py_of_json JNull = PNull"
| "py_of_json (JBool b) = PBool b"
| "py_of_json (JInt n) = PInt n"
| "py_of_json (JFloat x) = PFloat x"
| "py_of_json (JStr s) = PStr s"
| "py_of_json (JArr xs) = PSeq (map py_of_json xs)"
| "py_of_json (JObj kvs) = PMap (map (\<lambda>kv. (KStr (fst kv), py_of_json (snd kv))) kvs)"
  by pat_completeness auto

termination py_of_json
  by (relation "measure size") (auto simp: termination_simp less_Suc_eq_le intro: size_list_estimation')

definition read_column :: "json \<Rightarrow> column_schema res" where
  "read_column column = (case column of
      JObj d \<Rightarrow>
        if set (dict_keys d) \<noteq> {''name'', ''dtype'', ''nullable''} then Inl (ValueError ''factor identity output schema is invalid'')
        else (case (item_get d ''name'', item_get d ''dtype'', item_get d ''nullable'') of
            (JStr nm, JStr dtype, JBool nullable) \<Rightarrow> column_schema_init nm dtype nullable
          | _ \<Rightarrow> Inl (ValueError ''factor identity output schema is invalid''))
    | _ \<Rightarrow> Inl (ValueError ''factor identity output schema is invalid''))"

definition read_strings :: "string \<Rightarrow> json \<Rightarrow> string list res" where
  "read_strings what v = (case v of
      JArr xs \<Rightarrow> res_map (\<lambda>x. case x of JStr s \<Rightarrow> Inr s | _ \<Rightarrow> Inl (ValueError what)) xs
    | _ \<Rightarrow> Inl (ValueError what))"

definition json_pairs :: "(string \<times> json) list \<Rightarrow> (py_key \<times> py_tree) list" where
  "json_pairs d = map (\<lambda>kv. (KStr (fst kv), py_of_json (snd kv))) d"

definition snapshot_fields :: "string set" where
  "snapshot_fields = {''format'', ''version'', ''parents'', ''inputs'', ''transform'', ''parameters'', ''output_schema'',
     ''row_ordering'', ''research_context''}"

definition identity_from_snapshot :: "json \<Rightarrow> node_identity res" where
  "identity_from_snapshot v = (case v of JObj d \<Rightarrow>
     if set (dict_keys d) \<noteq> snapshot_fields then Inl (ValueError ''factor identity snapshot fields are invalid'')
     else if item_get d ''format'' \<noteq> JStr IDENTITY_FORMAT \<or> item_get d ''version'' \<noteq> JInt IDENTITY_VERSION
       then Inl (ValueError ''factor identity snapshot version is invalid'')
     else (case item_get d ''transform'' of JObj transform \<Rightarrow>
       if set (dict_keys transform) \<noteq> {''name'', ''version''} then Inl (ValueError ''factor identity transform is invalid'')
       else
         rbind (read_strings ''factor identity parents are invalid'' (item_get d ''parents'')) (\<lambda>parents.
         rbind (case item_get d ''inputs'' of JObj inputs \<Rightarrow> Inr inputs
           | _ \<Rightarrow> Inl (ValueError ''factor identity inputs are invalid'')) (\<lambda>inputs.
         rbind (case item_get d ''output_schema'' of JArr schema \<Rightarrow> Inr schema
           | _ \<Rightarrow> Inl (ValueError ''factor identity output schema is invalid'')) (\<lambda>schema.
         rbind (read_strings ''factor identity row ordering is invalid'' (item_get d ''row_ordering'')) (\<lambda>row_order.
         rbind (case (item_get d ''parameters'', item_get d ''research_context'') of
             (JObj parameters, JObj context) \<Rightarrow> Inr (parameters, context)
           | _ \<Rightarrow> Inl (ValueError ''factor identity mappings are invalid'')) (\<lambda>(parameters, context).
         rbind (res_map read_column schema) (\<lambda>columns.
         rbind (case (item_get transform ''name'', item_get transform ''version'') of
             (JStr nm, JStr version) \<Rightarrow> Inr (nm, version)
           | _ \<Rightarrow> Inl (ValueError ''factor identity transform is invalid'')) (\<lambda>(nm, version).
         rbind (res_map (\<lambda>(k, x). case x of JStr f \<Rightarrow> Inr (k, f)
           | _ \<Rightarrow> Inl (ValueError ''factor identity inputs are invalid'')) inputs) (\<lambda>fingerprints.
         identity_init nm version columns row_order parents fingerprints (json_pairs parameters) (json_pairs context)))))))))
     | _ \<Rightarrow> Inl (ValueError ''factor identity transform is invalid''))
   | _ \<Rightarrow> Inl (ValueError ''factor identity snapshot fields are invalid''))"

section \<open>Canonical documents\<close>

function canonical :: "json \<Rightarrow> bool" where
  "canonical JNull = True"
| "canonical (JBool b) = True"
| "canonical (JInt n) = True"
| "canonical (JFloat x) = is_finite x"
| "canonical (JStr s) = True"
| "canonical (JArr xs) = (\<forall>x\<in>set xs. canonical x)"
| "canonical (JObj kvs) = (sorted (map fst kvs) \<and> [] \<notin> fst ` set kvs \<and> (\<forall>kv\<in>set kvs. canonical (snd kv)))"
  by pat_completeness auto

termination canonical
  by (relation "measure size") (auto simp: termination_simp less_Suc_eq_le intro: size_list_estimation')

lemma list_all2_source: "list_all2 P xs ys \<Longrightarrow> y \<in> set ys \<Longrightarrow> \<exists>x\<in>set xs. P x y"
  by (induction rule: list_all2_induct) auto

lemma canonicalize_canonical: "canonicalize v = Inr j \<Longrightarrow> canonical j"
proof (induction v arbitrary: j rule: canonicalize.induct)
  case (6 kvs)
  let ?key = "\<lambda>kv. key_str (fst kv)"
  have named: "\<forall>kv\<in>set kvs. ?key kv \<noteq> []" using "6.prems" by (auto split: if_splits)
  then obtain d where d: "list_all2 (\<lambda>kv e. rbind (canonicalize (snd kv)) (\<lambda>v. Inr (?key kv, v)) = Inr e) (sort_key ?key kvs) d"
    and j: "j = JObj d"
    using "6.prems" by (auto simp: res_map_Inr_conv split: if_splits)
  have keys: "map fst d = map ?key (sort_key ?key kvs)"
    using d by (induction rule: list_all2_induct) auto
  have vals: "canonical (snd e)" if "e \<in> set d" for e
  proof -
    note src = list_all2_source [OF d that]
    obtain kv where kv: "kv \<in> set (sort_key ?key kvs)" "rbind (canonicalize (snd kv)) (\<lambda>v. Inr (?key kv, v)) = Inr e"
      using src by (rule bexE)
    from kv(2) obtain x where x: "canonicalize (snd kv) = Inr x" "e = (?key kv, x)" by auto
    have "canonical x" using "6.IH" [OF _ kv(1) x(1)] named by auto
    then show ?thesis using x by simp
  qed
  have "sorted (map fst d)" by (simp only: keys sorted_sort_key)
  moreover have "[] \<notin> fst ` set d" using named arg_cong [OF keys, of set] by auto
  ultimately show ?case using vals by (simp add: j)
next
  case (7 xs)
  then obtain ys where ys: "list_all2 (\<lambda>x y. canonicalize x = Inr y) xs ys" and j: "j = JArr ys"
    by (auto simp: res_map_Inr_conv)
  have "canonical y" if "y \<in> set ys" for y
  proof -
    from list_all2_source [OF ys that] obtain x where "x \<in> set xs" "canonicalize x = Inr y" by blast
    then show ?thesis using "7.IH" by blast
  qed
  then show ?case by (simp add: j)
qed (auto split: if_splits)

lemma sorted_json_canonical: "canonical j \<Longrightarrow> sorted_json j = j"
proof (induction j rule: sorted_json.induct)
  case (7 kvs)
  then have "map (\<lambda>kv. (fst kv, sorted_json (snd kv))) kvs = kvs" by (auto intro: map_idI)
  moreover have "sort_key fst kvs = kvs" using "7.prems" by (simp add: sort_key_id_if_sorted)
  ultimately show ?case by simp
qed (auto intro: map_idI)

lemma canonicalize_of_json: "canonical j \<Longrightarrow> canonicalize (py_of_json j) = Inr j"
proof (induction j rule: canonical.induct)
  case (7 kvs)
  let ?key = "\<lambda>kv :: py_key \<times> py_tree. key_str (fst kv)" and ?ps = "map (\<lambda>kv. (KStr (fst kv), py_of_json (snd kv))) kvs"
  have "sort_key ?key ?ps = ?ps"
    using "7.prems" by (intro sort_key_id_if_sorted) (simp add: comp_def)
  moreover have "res_map (\<lambda>kv. rbind (canonicalize (snd kv)) (\<lambda>v. Inr (?key kv, v))) ?ps = Inr kvs"
    using "7.IH" "7.prems" by (auto simp: res_map_Inr_conv list_all2_conv_all_nth)
  moreover have "\<forall>kv\<in>set ?ps. ?key kv \<noteq> []" using "7.prems" by force
  ultimately show ?case by (simp del: set_map)
next
  case (6 xs)
  then have "res_map canonicalize (map py_of_json xs) = Inr xs"
    by (auto simp: res_map_Inr_conv list_all2_conv_all_nth)
  then show ?case by simp
qed auto

lemma canonicalize_map_obj: "canonicalize (PMap kvs) = Inr j \<Longrightarrow> \<exists>d. j = JObj d"
  by (auto split: if_splits)

lemma canonicalize_json_pairs: "canonical (JObj d) \<Longrightarrow> canonicalize (PMap (json_pairs d)) = Inr (JObj d)"
  using canonicalize_of_json [of "JObj d"] by (simp add: json_pairs_def)

section \<open>The round trip\<close>

definition column_wf :: "column_schema \<Rightarrow> bool" where
  "column_wf c = (portable_name (cs_name c) \<and> cs_dtype c \<noteq> [] \<and> length (cs_dtype c) \<le> 128)"

lemma column_schema_init_wf: "column_schema_init nm dtype nullable = Inr c \<Longrightarrow> column_wf c"
  by (auto simp: column_schema_init_def column_wf_def split: if_splits)

lemma sorted_json_column:
  "sorted_json (column_snapshot c) =
     JObj [(''dtype'', JStr (cs_dtype c)), (''name'', JStr (cs_name c)), (''nullable'', JBool (cs_nullable c))]"
  by (simp add: column_snapshot_def)

lemma read_column_snapshot: "column_wf c \<Longrightarrow> read_column (sorted_json (column_snapshot c)) = Inr c"
  by (auto simp: sorted_json_column read_column_def item_get_def column_schema_init_def column_wf_def)

lemma read_strings_JStr: "read_strings m (JArr (map JStr xs)) = Inr xs"
  by (simp add: read_strings_def res_map_Inr_conv list_all2_conv_all_nth)

lemma res_map_eq: "(\<And>x. x \<in> set xs \<Longrightarrow> f x = Inr (g x)) \<Longrightarrow> res_map f xs = Inr (map g xs)"
  by (induction xs) simp_all

lemma res_map_invert: "(\<And>x. x \<in> set xs \<Longrightarrow> f (g x) = Inr x) \<Longrightarrow> res_map f (map g xs) = Inr xs"
  by (simp add: res_map_Inr_conv list_all2_conv_all_nth)

lemma sorted_json_snapshot:
  assumes "canonical parameters" "canonical context"
  shows "sorted_json (JObj [
       (''format'', JStr IDENTITY_FORMAT), (''version'', JInt IDENTITY_VERSION), (''parents'', JArr (map JStr parents)),
       (''inputs'', JObj inputs), (''transform'', JObj [(''name'', JStr nm), (''version'', JStr vs)]),
       (''parameters'', parameters), (''output_schema'', JArr (map column_snapshot cols)),
       (''row_ordering'', JArr (map JStr row_order)), (''research_context'', context)]) =
     JObj [(''format'', JStr IDENTITY_FORMAT), (''inputs'', sorted_json (JObj inputs)),
       (''output_schema'', JArr (map (sorted_json \<circ> column_snapshot) cols)), (''parameters'', parameters),
       (''parents'', JArr (map JStr parents)), (''research_context'', context), (''row_ordering'', JArr (map JStr row_order)),
       (''transform'', JObj [(''name'', JStr nm), (''version'', JStr vs)]), (''version'', JInt IDENTITY_VERSION)]"
  using assms by (simp add: sorted_json_canonical comp_def)

definition input_items :: "(string \<times> string) list \<Rightarrow> (string \<times> json) list" where
  "input_items inputs = sort_key fst (map (\<lambda>(nm, f). (nm, JStr f)) inputs)"

lemma input_items_sorted: "sort_key fst (input_items inputs) = input_items inputs"
  by (simp add: input_items_def sort_key_id_if_sorted)

lemma sorted_json_inputs: "sorted_json (JObj (input_items inputs)) = JObj (input_items inputs)"
proof -
  have "map (\<lambda>kv. (fst kv, sorted_json (snd kv))) (input_items inputs) = input_items inputs"
    by (rule map_idI) (auto simp: input_items_def)
  then show ?thesis by (simp add: input_items_sorted)
qed

lemma read_inputs:
  "\<exists>copy. res_map (\<lambda>(k, x). case x of JStr f \<Rightarrow> Inr (k, f) | _ \<Rightarrow> Inl e) (input_items inputs) = Inr copy
    \<and> set copy = set inputs \<and> input_items copy = input_items inputs"
proof -
  define copy where "copy = map (\<lambda>(k, x). (k, the (json_str x))) (input_items inputs)"
  have strs: "\<exists>f. snd kv = JStr f" if "kv \<in> set (input_items inputs)" for kv
    using that by (auto simp: input_items_def)
  have inverse: "map (\<lambda>(nm, f). (nm, JStr f)) copy = input_items inputs"
    unfolding copy_def map_map by (rule map_idI) (use strs in \<open>force simp: comp_def\<close>)
  have "res_map (\<lambda>(k, x). case x of JStr f \<Rightarrow> Inr (k, f) | _ \<Rightarrow> Inl e) (input_items inputs) = Inr copy"
    unfolding copy_def by (rule res_map_eq) (use strs in force)
  moreover have "set copy = set inputs"
    by (force simp: copy_def input_items_def)
  moreover have "input_items copy = input_items inputs"
    using inverse input_items_sorted [of inputs] by (simp add: input_items_def [of copy])
  ultimately show ?thesis by blast
qed

lemma identity_init_Inr:
  "identity_init transform version schema row_order parents inputs parameters context = Inr ident \<longleftrightarrow>
     (\<exists>pd cd. canonicalize (PMap parameters) = Inr pd \<and> canonicalize (PMap context) = Inr cd
       \<and> identity_checks ident = Inr ()
       \<and> ident = \<lparr>ni_transform = transform, ni_transform_version = version, ni_output_schema = schema,
           ni_row_ordering = row_order, ni_parents = parents, ni_input_fingerprints = inputs, ni_parameters = parameters,
           ni_research_context = context,
           ni_canonical_payload = JObj [(''format'', JStr IDENTITY_FORMAT), (''inputs'', JObj (input_items inputs)),
             (''output_schema'', JArr (map (sorted_json \<circ> column_snapshot) schema)), (''parameters'', pd),
             (''parents'', JArr (map JStr parents)), (''research_context'', cd), (''row_ordering'', JArr (map JStr row_order)),
             (''transform'', JObj [(''name'', JStr transform), (''version'', JStr version)]),
             (''version'', JInt IDENTITY_VERSION)]\<rparr>)"
  (is "?L \<longleftrightarrow> ?R")
proof -
  define bare where "bare = \<lparr>ni_transform = transform, ni_transform_version = version, ni_output_schema = schema,
        ni_row_ordering = row_order, ni_parents = parents, ni_input_fingerprints = inputs, ni_parameters = parameters,
        ni_research_context = context, ni_canonical_payload = JNull\<rparr>"
  have checks: "identity_checks (bare\<lparr>ni_canonical_payload := p\<rparr>) = identity_checks bare" for p
    by (simp add: identity_checks_def)
  have payload: "sorted_json (JObj [
       (''format'', JStr IDENTITY_FORMAT), (''version'', JInt IDENTITY_VERSION), (''parents'', JArr (map JStr parents)),
       (''inputs'', JObj (input_items inputs)), (''transform'', JObj [(''name'', JStr transform), (''version'', JStr version)]),
       (''parameters'', pd), (''output_schema'', JArr (map column_snapshot schema)),
       (''row_ordering'', JArr (map JStr row_order)), (''research_context'', cd)]) =
     JObj [(''format'', JStr IDENTITY_FORMAT), (''inputs'', JObj (input_items inputs)),
       (''output_schema'', JArr (map (sorted_json \<circ> column_snapshot) schema)), (''parameters'', pd),
       (''parents'', JArr (map JStr parents)), (''research_context'', cd), (''row_ordering'', JArr (map JStr row_order)),
       (''transform'', JObj [(''name'', JStr transform), (''version'', JStr version)]), (''version'', JInt IDENTITY_VERSION)]"
    if "canonicalize (PMap parameters) = Inr pd" "canonicalize (PMap context) = Inr cd" for pd cd
    by (simp only: sorted_json_snapshot [OF canonicalize_canonical [OF that(1)] canonicalize_canonical [OF that(2)]]
        sorted_json_inputs)
  have eq: "identity_init transform version schema row_order parents inputs parameters context =
    rbind (identity_checks bare) (\<lambda>_. rbind (canonicalize (PMap parameters)) (\<lambda>pd. rbind (canonicalize (PMap context)) (\<lambda>cd.
      Inr (bare\<lparr>ni_canonical_payload := sorted_json (JObj [
       (''format'', JStr IDENTITY_FORMAT), (''version'', JInt IDENTITY_VERSION), (''parents'', JArr (map JStr parents)),
       (''inputs'', JObj (input_items inputs)), (''transform'', JObj [(''name'', JStr transform), (''version'', JStr version)]),
       (''parameters'', pd), (''output_schema'', JArr (map column_snapshot schema)),
       (''row_ordering'', JArr (map JStr row_order)), (''research_context'', cd)])\<rparr>))))"
    by (cases "canonicalize (PMap parameters)"; cases "canonicalize (PMap context)")
      (simp_all add: identity_init_def build_snapshot_def bare_def input_items_def del: canonicalize.simps sorted_json.simps)
  show ?thesis
    unfolding eq
    by (auto simp: rbind_Inr_iff payload checks bare_def [symmetric] simp del: canonicalize.simps sorted_json.simps)
       (auto simp: bare_def simp del: canonicalize.simps sorted_json.simps
         intro: trans [OF checks [unfolded bare_def, simplified, symmetric]])
qed

lemma input_items_keys_ok:
  assumes "identity_checks ident = Inr ()"
    and "set copy = set (ni_input_fingerprints ident)"
  shows "identity_checks (ident\<lparr>ni_input_fingerprints := copy, ni_parameters := p, ni_research_context := c\<rparr>) = Inr ()"
proof -
  have "copy = [] \<longleftrightarrow> ni_input_fingerprints ident = []" using assms(2) by (metis set_empty2)
  then show ?thesis using assms unfolding identity_checks_def by (simp add: res_each_Inr rbind_Inr_iff)
qed

lemma identity_reads_back:
  assumes "identity_init transform version schema row_order parents inputs parameters context = Inr ident"
    and "\<forall>c\<in>set schema. column_wf c"
  shows "\<exists>copy. identity_from_snapshot (identity_snapshot ident) = Inr copy
    \<and> identity_snapshot copy = identity_snapshot ident
    \<and> identity_node_key digest copy = identity_node_key digest ident
    \<and> ni_transform copy = transform \<and> ni_transform_version copy = version
    \<and> ni_output_schema copy = schema \<and> ni_row_ordering copy = row_order \<and> ni_parents copy = parents
    \<and> set (ni_input_fingerprints copy) = set inputs"
proof -
  from assms(1) obtain pd cd where cans: "canonicalize (PMap parameters) = Inr pd" "canonicalize (PMap context) = Inr cd"
    and checks: "identity_checks ident = Inr ()"
    and ident: "ident = \<lparr>ni_transform = transform, ni_transform_version = version, ni_output_schema = schema,
           ni_row_ordering = row_order, ni_parents = parents, ni_input_fingerprints = inputs, ni_parameters = parameters,
           ni_research_context = context,
           ni_canonical_payload = JObj [(''format'', JStr IDENTITY_FORMAT), (''inputs'', JObj (input_items inputs)),
             (''output_schema'', JArr (map (sorted_json \<circ> column_snapshot) schema)), (''parameters'', pd),
             (''parents'', JArr (map JStr parents)), (''research_context'', cd), (''row_ordering'', JArr (map JStr row_order)),
             (''transform'', JObj [(''name'', JStr transform), (''version'', JStr version)]),
             (''version'', JInt IDENTITY_VERSION)]\<rparr>"
    unfolding identity_init_Inr by (elim exE conjE)
  obtain pkvs where pkvs: "pd = JObj pkvs" using canonicalize_map_obj [OF cans(1)] by (elim exE)
  obtain ckvs where ckvs: "cd = JObj ckvs" using canonicalize_map_obj [OF cans(2)] by (elim exE)
  have canonical: "canonicalize (PMap (json_pairs pkvs)) = Inr pd" "canonicalize (PMap (json_pairs ckvs)) = Inr cd"
    using canonicalize_canonical [OF cans(1)] canonicalize_canonical [OF cans(2)] canonicalize_json_pairs pkvs ckvs
    by (simp_all del: canonicalize.simps)
  obtain copy where copy: "res_map (\<lambda>(k, x). case x of JStr f \<Rightarrow> Inr (k, f)
      | _ \<Rightarrow> Inl (ValueError ''factor identity inputs are invalid'')) (input_items inputs) = Inr copy"
      "set copy = set inputs" "input_items copy = input_items inputs"
    using read_inputs by metis
  define new where "new = ident\<lparr>ni_input_fingerprints := copy, ni_parameters := json_pairs pkvs,
    ni_research_context := json_pairs ckvs\<rparr>"
  have "identity_checks new = Inr ()"
    unfolding new_def by (rule input_items_keys_ok [OF checks]) (simp add: ident copy(2))
  then have new: "identity_init transform version schema row_order parents copy (json_pairs pkvs) (json_pairs ckvs) = Inr new"
    unfolding identity_init_Inr using canonical by (intro exI conjI) (assumption | simp add: new_def ident copy(3))+
  have columns: "res_map read_column (map (sorted_json \<circ> column_snapshot) schema) = Inr schema"
    using assms(2) by (intro res_map_invert) (simp add: read_column_snapshot)
  have "identity_from_snapshot (identity_snapshot ident) = Inr new"
    by (simp add: ident identity_snapshot_def identity_from_snapshot_def snapshot_fields_def item_get_def insert_commute
        read_strings_JStr pkvs ckvs copy(1) columns new)
  then show ?thesis
    by (intro exI [of _ new]) (simp add: new_def identity_snapshot_def identity_node_key_def copy(2), simp add: ident)
qed

lemma sorted_json_idem: "sorted_json (sorted_json j) = sorted_json j"
proof (induction j rule: sorted_json.induct)
  case (7 kvs)
  let ?d = "sort_key fst (map (\<lambda>kv. (fst kv, sorted_json (snd kv))) kvs)"
  have "map (\<lambda>kv. (fst kv, sorted_json (snd kv))) ?d = ?d"
    by (rule map_idI) (use 7 in auto)
  then show ?case by (simp add: sort_key_id_if_sorted)
qed auto

lemma identity_payload_sorted:
  assumes "identity_init transform version schema row_order parents inputs parameters context = Inr ident"
  shows "sorted_json (identity_snapshot ident) = identity_snapshot ident"
proof -
  obtain snapshot where "ni_canonical_payload ident = sorted_json snapshot"
    using assms by (auto simp: identity_init_def Let_def)
  then show ?thesis by (simp add: identity_snapshot_def sorted_json_idem)
qed

text \<open>
  Claim C26. The persisted snapshot of an identity reads back as an identity with the same payload,
  hence the same node key under any hash, and with the same transform, schema, ordering and parents;
  so two identities with one payload agree in all of these.
\<close>

theorem identity_snapshot_roundtrip:
  assumes "identity_init transform version schema row_order parents inputs parameters context = Inr ident"
    and "\<forall>c\<in>set schema. column_wf c"
  shows "\<exists>copy. identity_from_snapshot (identity_snapshot ident) = Inr copy
    \<and> identity_snapshot copy = identity_snapshot ident
    \<and> identity_node_key digest copy = identity_node_key digest ident
    \<and> ni_transform copy = transform \<and> ni_transform_version copy = version
    \<and> ni_output_schema copy = schema \<and> ni_row_ordering copy = row_order \<and> ni_parents copy = parents
    \<and> set (ni_input_fingerprints copy) = set inputs"
  using assms by (rule identity_reads_back)

definition example_identity :: "node_identity res" where
  "example_identity = identity_init ''sma'' ''1'' [\<lparr>cs_name = ''factor'', cs_dtype = ''float64'', cs_nullable = False\<rparr>] [''ts'']
     [] [(''prices'', replicate 64 CHR ''a'')] [(KStr ''window'', PInt 20), (KStr ''mode'', PSeq [PBool True, PNull])] []"

lemma example_identity_ok: "example_identity = Inr (projr example_identity)"
proof -
  have "isl example_identity = False" by code_simp
  then show ?thesis by (cases example_identity) simp_all
qed

theorem identity_snapshot_roundtrip_witness:
  "\<exists>copy. identity_from_snapshot (identity_snapshot (projr example_identity)) = Inr copy
     \<and> identity_snapshot copy = identity_snapshot (projr example_identity) \<and> ni_transform copy = ''sma''"
  using identity_snapshot_roundtrip [OF example_identity_ok [unfolded example_identity_def], folded example_identity_def]
  by (simp add: column_wf_def portable_name_def is_letter_def is_digit_def less_eq_char_def) blast

end
