(* ===== verification/Factor_Files.thy ===== *)
theory Factor_Files
  imports Factor_Segment Factor_Identity
begin

text \<open>
  The part of a factor store that lives on disk, and what may go wrong while it is written. A store
  is its directories as the code names them; a file holds pointer text, a JSON document, a column
  segment, or bytes that are none of these (a file cut off while it was written). A program over
  the store performs its writes one by one with \<open>io\<close>; the fault plan of the world lets one of
  them raise, or lets the process die before it. The rules at the end execute a program on a symbolic
  store, with one postcondition for a return, one for an exception and one for a crash.
\<close>

section \<open>Directories and files\<close>

datatype content = Text string | Doc json | Segment "byte list" | Torn

text \<open>
  A directory entry: what the code expects there, a symbolic link, or an entry of another kind
  (a directory for a file, a file that may not be read), every use of which is an \<open>OSError\<close>.
\<close>

datatype 'a entry = Plain 'a | Symlink | Irregular

datatype 'a folder = Absent | Linked | Folder "(string \<times> 'a entry) list"

fun entries :: "'a folder \<Rightarrow> (string \<times> 'a entry) list" where
  "entries (Folder d) = d"
| "entries _ = []"

type_synonym generation_dir = "(string \<times> content entry) list"
type_synonym lease_dir = "(string \<times> content entry) list"

text \<open>
  The store: the file \<open>CURRENT\<close>, the files \<open>.CURRENT-*\<close> beside it, and the directories \<open>nodes\<close>,
  \<open>generations\<close>, \<open>leases\<close>, \<open>access\<close>, \<open>admission\<close>, \<open>metrics\<close> and \<open>migration\<close>. A metadata file of \<open>access\<close> or
  \<open>admission\<close> comes with its modification time. A missing directory of generations or leases is the empty one.
\<close>

record store =
  st_current :: "content entry option"
  st_pointers :: "(string \<times> content entry) list"
  st_nodes :: "content folder"
  st_generations :: "(string \<times> generation_dir entry) list"
  st_leases :: "(string \<times> lease_dir entry) list"
  st_access :: "(content \<times> int) folder"
  st_admission :: "(content \<times> int) folder"
  st_metrics :: "content folder"
  st_migration :: "content folder"

definition empty_store :: store where
  "empty_store = \<lparr>st_current = None, st_pointers = [], st_nodes = Absent, st_generations = [], st_leases = [],
     st_access = Absent, st_admission = Absent, st_metrics = Absent, st_migration = Absent\<rparr>"

text \<open>\<open>path.read_text()\<close> and \<open>json.loads(path.read_bytes())\<close>; a document's text begins with a brace.\<close>

fun read_text :: "content entry option \<Rightarrow> string res" where
  "read_text None = Inl (OSError ''No such file or directory'')"
| "read_text (Some (Plain (Text s))) = Inr s"
| "read_text (Some (Plain (Doc j))) = Inr ''{''"
| "read_text (Some (Plain _)) = Inl (ValueError ''codec cannot decode'')"
| "read_text (Some _) = Inl (OSError ''unreadable'')"

fun read_json :: "content entry option \<Rightarrow> json res" where
  "read_json None = Inl (OSError ''No such file or directory'')"
| "read_json (Some (Plain (Doc j))) = Inr j"
| "read_json (Some (Plain _)) = Inl (ValueError ''not JSON'')"
| "read_json (Some _) = Inl (OSError ''unreadable'')"

fun is_plain :: "'a entry option \<Rightarrow> bool" where
  "is_plain (Some (Plain x)) = True"
| "is_plain _ = False"

lemma is_plain_iff: "is_plain e \<longleftrightarrow> (\<exists>x. e = Some (Plain x))"
  by (cases e rule: is_plain.cases) auto

definition dotted :: "string \<Rightarrow> bool" where
  "dotted s = (case s of [] \<Rightarrow> False | c # _ \<Rightarrow> c = CHR ''.'')"

lemma hex_not_dotted [simp]: "hex_name n s \<Longrightarrow> \<not> dotted s"
  by (cases s) (auto simp: dotted_def hex_name_def lower_hex_def less_eq_char_def)

lemma dotted_Cons [simp]: "dotted (CHR ''.'' # s)"
  by (simp add: dotted_def)

section \<open>Writes that may fail\<close>

datatype fault = NoFault | RaiseAfter nat exn | CrashAfter nat | Crashed

record world =
  w_store :: store
  w_faults :: fault

text \<open>One write: it is performed, or raises, or the process dies before it.\<close>

definition io :: "(store \<Rightarrow> store) \<Rightarrow> (world, unit) prog" where
  "io f w = (case w_faults w of
      NoFault \<Rightarrow> (Inr (), w\<lparr>w_store := f (w_store w)\<rparr>)
    | RaiseAfter 0 e \<Rightarrow> (Inl e, w\<lparr>w_faults := NoFault\<rparr>)
    | RaiseAfter (Suc n) e \<Rightarrow> (Inr (), w\<lparr>w_store := f (w_store w), w_faults := RaiseAfter n e\<rparr>)
    | CrashAfter 0 \<Rightarrow> (Inl (BaseException 0), w\<lparr>w_faults := Crashed\<rparr>)
    | CrashAfter (Suc n) \<Rightarrow> (Inr (), w\<lparr>w_store := f (w_store w), w_faults := CrashAfter n\<rparr>)
    | Crashed \<Rightarrow> (Inl (BaseException 0), w))"

definition reads :: "(store \<Rightarrow> 'a) \<Rightarrow> (world, 'a) prog" where
  "reads f w = (Inr (f (w_store w)), w)"

definition reads_res :: "(store \<Rightarrow> 'a res) \<Rightarrow> (world, 'a) prog" where
  "reads_res f w = (f (w_store w), w)"

text \<open>\<open>try: m; except BaseException: handler; raise\<close>. A dead process runs no handler.\<close>

definition on_exception :: "(world, 'a) prog \<Rightarrow> (store \<Rightarrow> store) \<Rightarrow> (world, 'a) prog" where
  "on_exception m handler w = (case m w of
      (Inl e, w') \<Rightarrow> (Inl e, if w_faults w' = Crashed then w' else w'\<lparr>w_store := handler (w_store w')\<rparr>)
    | r \<Rightarrow> r)"

text \<open>\<open>try: m; except OSError: return\<close>.\<close>

definition ignoring_os_error :: "(world, unit) prog \<Rightarrow> (world, unit) prog" where
  "ignoring_os_error m w = (case m w of
      (Inl (OSError t), w') \<Rightarrow> (if w_faults w' = Crashed then Inl (OSError t) else Inr (), w')
    | r \<Rightarrow> r)"

definition live :: "world \<Rightarrow> bool" where
  "live w = (w_faults w \<noteq> Crashed)"

section \<open>Symbolic runs\<close>

text \<open>
  \<open>runs t m Q E C\<close>: a run of \<open>m\<close> on the store \<open>t\<close>, under any fault plan, ends in a store with \<open>Q\<close> when it
  returns, with \<open>E\<close> when it raises and with \<open>C\<close> when the process dies. The rules execute a program from
  its front on a symbolic store.
\<close>

definition runs :: "store \<Rightarrow> (world, 'a) prog \<Rightarrow> ('a \<Rightarrow> store \<Rightarrow> bool) \<Rightarrow> (exn \<Rightarrow> store \<Rightarrow> bool) \<Rightarrow> (store \<Rightarrow> bool) \<Rightarrow> bool" where
  "runs t m Q E C = (\<forall>w. live w \<longrightarrow> w_store w = t \<longrightarrow> (case m w of
      (Inr x, w') \<Rightarrow> live w' \<and> Q x (w_store w')
    | (Inl e, w') \<Rightarrow> if live w' then E e (w_store w') else C (w_store w')))"

named_theorems run_rules "symbolic execution of programs over a store"

lemma runsI:
  assumes "\<And>w. live w \<Longrightarrow> w_store w = t \<Longrightarrow> (case m w of
      (Inr x, w') \<Rightarrow> live w' \<and> Q x (w_store w')
    | (Inl e, w') \<Rightarrow> if live w' then E e (w_store w') else C (w_store w'))"
  shows "runs t m Q E C"
  using assms by (simp add: runs_def)

lemma runs_Inr: "runs t m Q E C \<Longrightarrow> live w \<Longrightarrow> w_store w = t \<Longrightarrow> m w = (Inr x, w') \<Longrightarrow> live w' \<and> Q x (w_store w')"
  by (force simp: runs_def)

lemma runs_Inl:
  "runs t m Q E C \<Longrightarrow> live w \<Longrightarrow> w_store w = t \<Longrightarrow> m w = (Inl e, w')
    \<Longrightarrow> (live w' \<longrightarrow> E e (w_store w')) \<and> (\<not> live w' \<longrightarrow> C (w_store w'))"
  by (force simp: runs_def)

lemma runs_conseq:
  assumes "runs t m Q' E' C'" "\<And>x s. Q' x s \<Longrightarrow> Q x s" "\<And>e s. E' e s \<Longrightarrow> E e s" "\<And>s. C' s \<Longrightarrow> C s"
  shows "runs t m Q E C"
proof (rule runsI)
  fix w
  assume w: "live w" "w_store w = t"
  show "case m w of (Inr x, w') \<Rightarrow> live w' \<and> Q x (w_store w')
      | (Inl e, w') \<Rightarrow> if live w' then E e (w_store w') else C (w_store w')"
    using runs_Inr [OF assms(1) w] runs_Inl [OF assms(1) w] assms(2-4)
    by (cases "m w"; cases "fst (m w)") auto
qed

lemma runs_return [run_rules]: "Q x t \<Longrightarrow> runs t (preturn x) Q E C"
  by (simp add: runs_def)

lemma runs_lift [run_rules]:
  "(\<And>x. r = Inr x \<Longrightarrow> Q x t) \<Longrightarrow> (\<And>e. r = Inl e \<Longrightarrow> E e t) \<Longrightarrow> runs t (plift r) Q E C"
  by (auto simp: runs_def split: sum.splits)

lemma runs_reads [run_rules]: "Q (f t) t \<Longrightarrow> runs t (reads f) Q E C"
  by (simp add: runs_def reads_def)

lemma runs_reads_res [run_rules]:
  "(\<And>x. f t = Inr x \<Longrightarrow> Q x t) \<Longrightarrow> (\<And>e. f t = Inl e \<Longrightarrow> E e t) \<Longrightarrow> runs t (reads_res f) Q E C"
  by (auto simp: runs_def reads_res_def split: sum.splits)

lemma runs_io [run_rules]: "Q () (f t) \<Longrightarrow> (\<And>e. E e t) \<Longrightarrow> C t \<Longrightarrow> runs t (io f) Q E C"
  by (auto simp: runs_def io_def live_def split: fault.splits nat.splits)

lemma runs_bind:
  assumes "runs t m R E C" and "\<And>x s. R x s \<Longrightarrow> runs s (f x) Q E C"
  shows "runs t (pbind m f) Q E C"
proof (rule runsI)
  fix w
  assume w: "live w" "w_store w = t"
  show "case pbind m f w of (Inr x, w') \<Rightarrow> live w' \<and> Q x (w_store w')
      | (Inl e, w') \<Rightarrow> if live w' then E e (w_store w') else C (w_store w')"
  proof (cases "m w")
    case (Pair r u)
    then show ?thesis
    proof (cases r)
      case (Inl e)
      then show ?thesis using Pair runs_Inl [OF assms(1) w] by (simp add: pbind_def)
    next
      case (Inr x)
      then have "live u \<and> R x (w_store u)" using Pair runs_Inr [OF assms(1) w] by simp
      then show ?thesis using Pair Inr assms(2) [of x "w_store u"] by (simp add: pbind_def runs_def)
    qed
  qed
qed

lemma runs_bind_return [run_rules]: "runs t (f x) Q E C \<Longrightarrow> runs t (pbind (preturn x) f) Q E C"
  by (rule runs_bind [where R = "\<lambda>y s. y = x \<and> s = t"]) (auto intro: runs_return)

lemma runs_bind_io [run_rules]:
  "(\<And>e. E e t) \<Longrightarrow> C t \<Longrightarrow> runs (g t) (f ()) Q E C \<Longrightarrow> runs t (pbind (io g) f) Q E C"
  by (rule runs_bind [where R = "\<lambda>_ s. s = g t"]) (auto intro: runs_io)

lemma runs_bind_reads [run_rules]: "runs t (f (h t)) Q E C \<Longrightarrow> runs t (pbind (reads h) f) Q E C"
  by (rule runs_bind [where R = "\<lambda>x s. x = h t \<and> s = t"]) (auto intro: runs_reads)

lemma runs_bind_reads_res [run_rules]:
  "(\<And>e. h t = Inl e \<Longrightarrow> E e t) \<Longrightarrow> (\<And>x. h t = Inr x \<Longrightarrow> runs t (f x) Q E C) \<Longrightarrow> runs t (pbind (reads_res h) f) Q E C"
  by (rule runs_bind [where R = "\<lambda>x s. h t = Inr x \<and> s = t"]) (auto intro: runs_reads_res)

lemma runs_bind_lift [run_rules]:
  "(\<And>e. r = Inl e \<Longrightarrow> E e t) \<Longrightarrow> (\<And>x. r = Inr x \<Longrightarrow> runs t (f x) Q E C) \<Longrightarrow> runs t (pbind (plift r) f) Q E C"
  by (rule runs_bind [where R = "\<lambda>x s. r = Inr x \<and> s = t"]) (auto intro: runs_lift)

lemma runs_foreach:
  assumes "\<And>x ys zs s. xs = ys @ x # zs \<Longrightarrow> J ys s \<Longrightarrow> runs s (f x) (\<lambda>_. J (ys @ [x])) E C" and "J [] t"
  shows "runs t (pforeach f xs) (\<lambda>_. J xs) E C"
proof -
  have "runs s (pforeach f zs) (\<lambda>_. J xs) E C" if "xs = ys @ zs" "J ys s" for ys zs s
    using that
  proof (induction zs arbitrary: ys s)
    case Nil
    then show ?case unfolding pforeach.simps by (intro runs_return) simp
  next
    case (Cons z zs)
    show ?case
      unfolding pforeach.simps
      by (rule runs_bind [where R = "\<lambda>_. J (ys @ [z])"]) (use Cons assms in auto)
  qed
  from this [of "[]" xs t] show ?thesis using assms(2) by simp
qed

text \<open>A loop whose body keeps a property keeps it, however it ends.\<close>

lemma runs_foreach_invariant:
  assumes "\<And>x s. x \<in> set xs \<Longrightarrow> I s \<Longrightarrow> runs s (f x) (\<lambda>_. I) (\<lambda>_. I) I" and "I t"
  shows "runs t (pforeach f xs) (\<lambda>_. I) (\<lambda>_. I) I"
  by (rule runs_foreach [where J = "\<lambda>_. I"]) (use assms in auto)

lemma runs_on_exception:
  assumes "runs t m Q E' C" and "\<And>e s. E' e s \<Longrightarrow> E e (h s)"
  shows "runs t (on_exception m h) Q E C"
proof (rule runsI)
  fix w
  assume w: "live w" "w_store w = t"
  show "case on_exception m h w of (Inr x, w') \<Rightarrow> live w' \<and> Q x (w_store w')
      | (Inl e, w') \<Rightarrow> if live w' then E e (w_store w') else C (w_store w')"
    using runs_Inr [OF assms(1) w] runs_Inl [OF assms(1) w] assms(2)
    by (cases "m w"; cases "fst (m w)") (auto simp: on_exception_def live_def)
qed

lemma runs_ignoring_os_error:
  assumes "runs t m Q E C" and "\<And>u s. E (OSError u) s \<Longrightarrow> Q () s"
  shows "runs t (ignoring_os_error m) Q E C"
proof (rule runsI)
  fix w
  assume w: "live w" "w_store w = t"
  show "case ignoring_os_error m w of (Inr x, w') \<Rightarrow> live w' \<and> Q x (w_store w')
      | (Inl e, w') \<Rightarrow> if live w' then E e (w_store w') else C (w_store w')"
    using runs_Inr [OF assms(1) w] runs_Inl [OF assms(1) w] assms(2)
    by (cases "m w"; cases "fst (m w)") (auto simp: ignoring_os_error_def live_def split: exn.splits)
qed

end
