(* ===== verification/Factor_Metrics.thy ===== *)
theory Factor_Metrics
  imports Factor_Files
begin

text \<open>
  The lifetime counters of the factor cache (\<open>factor_metrics.py\<close>), one JSON file of the store replaced as
  a whole under a lock. The functions whose work is done record them with \<open>try_record\<close>, which reports a
  failure instead of raising it.
\<close>

section \<open>Counters\<close>

definition METRICS_FORMAT :: string where "METRICS_FORMAT = ''gambit-factor-cache-metrics''"

definition METRICS_VERSION :: int where "METRICS_VERSION = 2"

definition V1_COUNTER_NAMES :: "string list" where
  "V1_COUNTER_NAMES = [''cache_hits'', ''cache_misses'', ''cache_admissions'', ''cache_declines'', ''cache_evictions'',
     ''reclaimed_bytes'', ''corruption_failures'', ''lease_conflicts'']"

definition COUNTER_NAMES :: "string list" where
  "COUNTER_NAMES = V1_COUNTER_NAMES @ [''migration_nodes'', ''migration_bytes'', ''migration_failures'', ''migration_conflicts'']"

type_synonym counters = "(string \<times> int) list"

record factor_metrics =
  fm_updated_ns :: int
  fm_counters :: counters

definition empty_counters :: counters where
  "empty_counters = map (\<lambda>nm. (nm, 0)) COUNTER_NAMES"

definition validate_increments :: "counters \<Rightarrow> counters res" where
  "validate_increments increments =
     rbind (require (set (map fst increments) \<subseteq> set COUNTER_NAMES) (ValueError ''unknown factor-cache counters'')) (\<lambda>_.
     rbind (require (\<forall>x\<in>set increments. 0 \<le> snd x) (ValueError ''factor-cache counter increments must be non-negative integers'')) (\<lambda>_.
     Inr (foldl (\<lambda>d x. dict_set (fst x) (snd x) d) empty_counters increments)))"

definition counter :: "counters \<Rightarrow> string \<Rightarrow> int" where
  "counter d nm = (case map_of d nm of None \<Rightarrow> 0 | Some n \<Rightarrow> n)"

definition metrics_document :: "factor_metrics \<Rightarrow> json" where
  "metrics_document m = sorted_json (JObj [(''format'', JStr METRICS_FORMAT), (''version'', JInt METRICS_VERSION),
     (''updated_ns'', JInt (fm_updated_ns m)), (''counters'', JObj (map (\<lambda>x. (fst x, JInt (snd x))) (fm_counters m)))])"

section \<open>Reading and adding\<close>

text \<open>The values of the stored counters when they are non-negative integers under exactly the names given.\<close>

definition stored_counters :: "string list \<Rightarrow> json \<Rightarrow> counters option" where
  "stored_counters names v = (case v of
      JObj d \<Rightarrow>
        if set (map fst d) = set names \<and> (\<forall>x\<in>set d. \<exists>n\<in>set_option (json_int (snd x)). 0 \<le> n)
        then Some (map (\<lambda>x. (fst x, the (json_int (snd x)))) d) else None
    | _ \<Rightarrow> None)"

definition metrics_of :: "(string \<times> json) list \<Rightarrow> factor_metrics option" where
  "metrics_of payload = (let version = item_get payload ''version'' in
     case (json_int (item_get payload ''updated_ns''),
           stored_counters (if json_eq_int version 1 then V1_COUNTER_NAMES else COUNTER_NAMES) (item_get payload ''counters'')) of
       (Some updated_ns, Some counters) \<Rightarrow>
         if item_get payload ''format'' = JStr METRICS_FORMAT \<and> (json_eq_int version 1 \<or> json_eq_int version METRICS_VERSION)
           \<and> 0 \<le> updated_ns
         then Some \<lparr>fm_updated_ns = updated_ns, fm_counters = foldl (\<lambda>d x. dict_set (fst x) (snd x) d) empty_counters counters\<rparr>
         else None
     | _ \<Rightarrow> None)"

definition decode_metrics :: "bool \<Rightarrow> content entry option \<Rightarrow> factor_metrics res" where
  "decode_metrics link_exists e =
     (if e = None \<or> e = Some Symlink \<and> \<not> link_exists then Inr \<lparr>fm_updated_ns = 0, fm_counters = empty_counters\<rparr>
      else if e = Some Symlink then Inl (FactorMetricsError ''factor metrics file may not be a symbolic link'')
      else case read_json e of
          Inr (JObj payload) \<Rightarrow> (case metrics_of payload of
              None \<Rightarrow> Inl (FactorMetricsError ''factor cache lifetime metrics are invalid'') | Some m \<Rightarrow> Inr m)
        | _ \<Rightarrow> Inl (FactorMetricsError ''factor cache lifetime metrics are invalid''))"

definition read_metrics :: "bool \<Rightarrow> store \<Rightarrow> factor_metrics res" where
  "read_metrics link_exists st =
     rbind (require (st_metrics st \<noteq> Linked) (FactorMetricsError ''factor metrics directory may not be a symbolic link'')) (\<lambda>_.
     decode_metrics link_exists (map_of (entries (st_metrics st)) ''lifetime.json''))"

definition make_metrics :: "store \<Rightarrow> store" where
  "make_metrics st = (if st_metrics st = Absent then st\<lparr>st_metrics := Folder []\<rparr> else st)"

definition put_metrics :: "string \<Rightarrow> content \<Rightarrow> store \<Rightarrow> store" where
  "put_metrics nm c st = st\<lparr>st_metrics := Folder (dict_set nm (Plain c) (entries (st_metrics st)))\<rparr>"

definition unlink_metrics :: "string \<Rightarrow> store \<Rightarrow> store" where
  "unlink_metrics nm st = st\<lparr>st_metrics := Folder (AList.delete nm (entries (st_metrics st)))\<rparr>"

definition replace_metrics :: "string \<Rightarrow> store \<Rightarrow> store" where
  "replace_metrics staging st = (case map_of (entries (st_metrics st)) staging of
      None \<Rightarrow> st
    | Some e \<Rightarrow> st\<lparr>st_metrics := Folder (dict_set ''lifetime.json'' e (AList.delete staging (entries (st_metrics st))))\<rparr>)"

definition read_factor_cache_metrics :: "bool \<Rightarrow> (world, factor_metrics) prog" where
  "read_factor_cache_metrics link_exists =
     pbind (reads_res (\<lambda>st. require (st_metrics st \<noteq> Linked) (FactorMetricsError ''factor metrics directory may not be a symbolic link''))) (\<lambda>_.
     pbind (io make_metrics) (\<lambda>_. reads_res (read_metrics link_exists)))"

definition metrics_staging :: "string \<Rightarrow> string" where
  "metrics_staging uuid = ''.lifetime-'' @ uuid @ ''.tmp''"

definition add_counters :: "counters \<Rightarrow> counters \<Rightarrow> counters" where
  "add_counters previous additions = map (\<lambda>nm. (nm, counter previous nm + counter additions nm)) COUNTER_NAMES"

text \<open>What the host gives to one recording: whether a link in the file's place leads anywhere, the time, a fresh name.\<close>

record metrics_call =
  mc_link_exists :: bool
  mc_now_ns :: int
  mc_uuid :: string

text \<open>
  The directory is opened and synchronised after the replacement, and the staging file unlinked in any
  case (\<open>finally\<close>); each of these steps may raise when the new counters are already in place.
\<close>

definition sync_metrics :: "store \<Rightarrow> store" where
  "sync_metrics st = st"

definition record_factor_cache_metrics :: "metrics_call \<Rightarrow> counters \<Rightarrow> (world, factor_metrics) prog" where
  "record_factor_cache_metrics call increments = (let staging = metrics_staging (mc_uuid call) in
     pbind (plift (validate_increments increments)) (\<lambda>additions.
     pbind (reads_res (\<lambda>st. require (st_metrics st \<noteq> Linked) (FactorMetricsError ''factor metrics directory may not be a symbolic link''))) (\<lambda>_.
     pbind (io make_metrics) (\<lambda>_.
     pbind (reads_res (read_metrics (mc_link_exists call))) (\<lambda>previous.
     let updated = \<lparr>fm_updated_ns = mc_now_ns call, fm_counters = add_counters (fm_counters previous) additions\<rparr> in
     pbind (on_exception
       (pbind (io (put_metrics staging Torn)) (\<lambda>_.
        pbind (io (put_metrics staging (Doc (metrics_document updated)))) (\<lambda>_.
        pbind (io (replace_metrics staging)) (\<lambda>_.
        io sync_metrics)))) (unlink_metrics staging)) (\<lambda>_.
     pbind (io (unlink_metrics staging)) (\<lambda>_.
     preturn updated)))))))"

text \<open>\<open>except (FactorMetricsError, OSError): return False\<close>.\<close>

definition try_record_factor_cache_metrics :: "metrics_call \<Rightarrow> counters \<Rightarrow> (world, bool) prog" where
  "try_record_factor_cache_metrics call increments w = (case record_factor_cache_metrics call increments w of
      (Inr _, w') \<Rightarrow> (Inr True, w')
    | (Inl (FactorMetricsError t), w') \<Rightarrow> (if w_faults w' = Crashed then Inl (FactorMetricsError t) else Inr False, w')
    | (Inl (OSError t), w') \<Rightarrow> (if w_faults w' = Crashed then Inl (OSError t) else Inr False, w')
    | (Inl e, w') \<Rightarrow> (Inl e, w'))"

section \<open>Text format\<close>

definition prometheus_name :: "string \<Rightarrow> string" where
  "prometheus_name nm = ''gambit_factor_cache_'' @ (if take 6 nm = ''cache_'' then drop 6 nm else nm) @ ''_total''"

definition format_prometheus_metrics :: "factor_metrics \<Rightarrow> bool \<Rightarrow> string" where
  "format_prometheus_metrics m openmetrics =
     concat (map (\<lambda>line. line @ [newline]) (concat (map (\<lambda>nm. let metric = prometheus_name nm in
       [''# HELP '' @ metric @ '' Gambit factor cache lifetime '' @ map (\<lambda>c. if c = CHR ''_'' then CHR '' '' else c) nm @ ''.'',
        ''# TYPE '' @ metric @ '' counter'',
        metric @ '' '' @ str_int (counter (fm_counters m) nm)]) COUNTER_NAMES)
       @ (if openmetrics then [''# EOF''] else [])))"

section \<open>Adding is exact\<close>

lemma counter_names_distinct [simp]: "distinct COUNTER_NAMES"
  by (simp add: COUNTER_NAMES_def V1_COUNTER_NAMES_def)

lemma set_of_names:
  assumes "distinct names" "k \<in> set names"
  shows "dict_set k v (map (\<lambda>nm. (nm, f nm)) names) = map (\<lambda>nm. (nm, if nm = k then v else f nm)) names"
  using assms
proof (induction names)
  case (Cons nm names)
  then show ?case by (cases "nm = k") auto
qed simp

lemma foldl_set_of_names:
  assumes "distinct names" "set (map fst d) \<subseteq> set names"
  shows "foldl (\<lambda>d x. dict_set (fst x) (snd x) d) (map (\<lambda>nm. (nm, f nm)) names) d
    = map (\<lambda>nm. (nm, case map_of (rev d) nm of None \<Rightarrow> f nm | Some v \<Rightarrow> v)) names"
  using assms(2)
proof (induction d arbitrary: f)
  case (Cons x d)
  have "foldl (\<lambda>d x. dict_set (fst x) (snd x) d) (map (\<lambda>nm. (nm, f nm)) names) (x # d)
      = foldl (\<lambda>d x. dict_set (fst x) (snd x) d) (map (\<lambda>nm. (nm, if nm = fst x then snd x else f nm)) names) d"
    using Cons.prems assms(1) by (simp add: set_of_names)
  also have "\<dots> = map (\<lambda>nm. (nm, case map_of (rev d) nm of None \<Rightarrow> if nm = fst x then snd x else f nm | Some v \<Rightarrow> v)) names"
    using Cons.prems by (intro Cons.IH) simp
  also have "\<dots> = map (\<lambda>nm. (nm, case map_of (rev (x # d)) nm of None \<Rightarrow> f nm | Some v \<Rightarrow> v)) names"
    by (auto simp: map_add_def split: option.splits)
  finally show ?case .
qed simp

lemma foldl_empty_counters:
  assumes "distinct (map fst d)" "set (map fst d) \<subseteq> set COUNTER_NAMES"
  shows "foldl (\<lambda>d x. dict_set (fst x) (snd x) d) empty_counters d = map (\<lambda>nm. (nm, counter d nm)) COUNTER_NAMES"
proof -
  have "map_of (rev d) = map_of d" using assms(1) by (intro map_of_inject_set [THEN iffD2]) (simp_all add: rev_map [symmetric])
  then show ?thesis
    using foldl_set_of_names [OF counter_names_distinct assms(2), of "\<lambda>_. 0"] by (simp add: empty_counters_def counter_def)
qed

lemma counter_names_lookup: "nm \<in> set COUNTER_NAMES \<Longrightarrow> counter (map (\<lambda>nm. (nm, f nm)) COUNTER_NAMES) nm = f nm"
  by (simp add: counter_def map_of_map_restrict restrict_map_def)

definition metrics_ok :: "factor_metrics \<Rightarrow> bool" where
  "metrics_ok m = (map fst (fm_counters m) = COUNTER_NAMES \<and> (\<forall>x\<in>set (fm_counters m). 0 \<le> snd x) \<and> 0 \<le> fm_updated_ns m)"

lemma sort_key_of_map: "sort_key f (map g xs) = map g (sort_key (\<lambda>x. f (g x)) xs)"
proof -
  have "insort_key f (g x) (map g ys) = map g (insort_key (\<lambda>x. f (g x)) x ys)" for x ys by (induction ys) auto
  then show ?thesis by (induction xs) auto
qed

text \<open>What is written reads back, and what reads is well-formed.\<close>

lemma stored_counters_document:
  assumes "map fst d = names" "\<forall>x\<in>set d. 0 \<le> snd x"
  shows "stored_counters names (sorted_json (JObj (map (\<lambda>x. (fst x, JInt (snd x))) d))) = Some (sort_key fst d)"
proof -
  have obj: "sorted_json (JObj (map (\<lambda>x. (fst x, JInt (snd x))) d)) = JObj (map (\<lambda>x. (fst x, JInt (snd x))) (sort_key fst d))"
    by (simp add: comp_def sort_key_of_map)
  show ?thesis
    using assms unfolding obj by (force simp: stored_counters_def comp_def image_comp)
qed

lemma decode_written:
  assumes "metrics_ok m"
  shows "decode_metrics link_exists (Some (Plain (Doc (metrics_document m)))) = Inr m"
proof -
  let ?d = "fm_counters m"
  have names: "map fst ?d = COUNTER_NAMES" "\<forall>x\<in>set ?d. 0 \<le> snd x" "0 \<le> fm_updated_ns m" using assms by (simp_all add: metrics_ok_def)
  have distinct: "distinct (map fst ?d)" by (simp add: names(1))
  have sorted: "map_of (sort_key fst ?d) = map_of ?d"
    using distinct by (intro map_of_inject_set [THEN iffD2]) (simp_all add: distinct_map inj_on_def)
  have "distinct (map fst (sort_key fst ?d))" using distinct by (simp add: distinct_map inj_on_def)
  moreover have "fst ` set (sort_key fst ?d) = set COUNTER_NAMES" by (simp flip: names(1))
  ultimately have "foldl (\<lambda>d x. dict_set (fst x) (snd x) d) empty_counters (sort_key fst ?d) = map (\<lambda>nm. (nm, counter (sort_key fst ?d) nm)) COUNTER_NAMES"
    by (intro foldl_empty_counters) simp_all
  also have "\<dots> = map (\<lambda>nm. (nm, counter ?d nm)) (map fst ?d)" by (simp add: counter_def sorted names(1))
  also have "\<dots> = ?d" using distinct by (auto simp: counter_def comp_def intro!: map_idI)
  finally have counters: "foldl (\<lambda>d x. dict_set (fst x) (snd x) d) empty_counters (sort_key fst ?d) = ?d" .
  have document: "metrics_document m = JObj [(''counters'', sorted_json (JObj (map (\<lambda>x. (fst x, JInt (snd x))) ?d))),
      (''format'', JStr METRICS_FORMAT), (''updated_ns'', JInt (fm_updated_ns m)), (''version'', JInt METRICS_VERSION)]"
    by (simp add: metrics_document_def)
  show ?thesis
    using names(3) counters
    by (simp add: decode_metrics_def document metrics_of_def item_get_def METRICS_VERSION_def stored_counters_document [OF names(1,2)]
        del: sorted_json.simps)
qed

lemma stored_counters_Some:
  assumes "stored_counters names v = Some d"
  shows "set (map fst d) = set names" "\<forall>x\<in>set d. 0 \<le> snd x"
proof -
  obtain kvs where kvs: "v = JObj kvs" "set (map fst kvs) = set names" "\<forall>x\<in>set kvs. \<exists>n\<in>set_option (json_int (snd x)). 0 \<le> n"
      "d = map (\<lambda>x. (fst x, the (json_int (snd x)))) kvs"
    using assms by (auto simp: stored_counters_def split: json.splits if_splits)
  then show "set (map fst d) = set names" by (simp add: image_comp comp_def)
  show "\<forall>x\<in>set d. 0 \<le> snd x" using kvs(3) by (fastforce simp: kvs(4))
qed

lemma metrics_of_ok: "metrics_of payload = Some m \<Longrightarrow> metrics_ok m"
proof -
  assume "metrics_of payload = Some m"
  then obtain d where d: "stored_counters (if json_eq_int (item_get payload ''version'') 1 then V1_COUNTER_NAMES else COUNTER_NAMES)
        (item_get payload ''counters'') = Some d"
      and m: "fm_counters m = foldl (\<lambda>d x. dict_set (fst x) (snd x) d) empty_counters d" "0 \<le> fm_updated_ns m"
    unfolding metrics_of_def Let_def by (auto split: option.splits if_split_asm)
  have v1: "set V1_COUNTER_NAMES \<subseteq> set COUNTER_NAMES" by (auto simp: COUNTER_NAMES_def)
  have names: "set (map fst d) \<subseteq> set COUNTER_NAMES" "\<forall>x\<in>set d. 0 \<le> snd x"
    using stored_counters_Some [OF d] v1 by (auto split: if_splits)
  have "fm_counters m = map (\<lambda>nm. (nm, case map_of (rev d) nm of None \<Rightarrow> 0 | Some v \<Rightarrow> v)) COUNTER_NAMES"
    unfolding m(1) empty_counters_def by (rule foldl_set_of_names [OF counter_names_distinct names(1)])
  moreover have "0 \<le> (case map_of (rev d) nm of None \<Rightarrow> 0 | Some v \<Rightarrow> v)" for nm
    using names(2) map_of_SomeD [of "rev d" nm] by (force split: option.splits)
  ultimately show "metrics_ok m" using m(2) by (auto simp: metrics_ok_def comp_def)
qed

lemma decode_ok: "decode_metrics link_exists e = Inr m \<Longrightarrow> metrics_ok m"
proof -
  assume "decode_metrics link_exists e = Inr m"
  then consider "m = \<lparr>fm_updated_ns = 0, fm_counters = empty_counters\<rparr>" | payload where "metrics_of payload = Some m"
    by (auto simp: decode_metrics_def split: if_splits sum.splits json.splits option.splits)
  then show "metrics_ok m"
    by cases (simp add: metrics_ok_def empty_counters_def comp_def, rule metrics_of_ok)
qed

section \<open>Recording\<close>

lemma metrics_writes:
  "map_of (entries (st_metrics (make_metrics s))) nm = map_of (entries (st_metrics s)) nm"
  "map_of (entries (st_metrics (put_metrics f c s))) nm = (if nm = f then Some (Plain c) else map_of (entries (st_metrics s)) nm)"
  "map_of (entries (st_metrics (unlink_metrics f s))) nm = (if nm = f then None else map_of (entries (st_metrics s)) nm)"
  "st_metrics (make_metrics s) = Linked \<longleftrightarrow> st_metrics s = Linked" "st_metrics (put_metrics f c s) \<noteq> Linked"
  "st_metrics (unlink_metrics f s) \<noteq> Linked"
  by (auto simp: make_metrics_def put_metrics_def unlink_metrics_def delete_conv')

lemma read_metrics_writes:
  "read_metrics l (make_metrics s) = read_metrics l s"
  "st_metrics s \<noteq> Linked \<Longrightarrow> read_metrics l (put_metrics (metrics_staging u) c s) = read_metrics l s"
  "st_metrics s \<noteq> Linked \<Longrightarrow> read_metrics l (unlink_metrics (metrics_staging u) s) = read_metrics l s"
  by (simp_all add: read_metrics_def metrics_writes metrics_staging_def)

lemma read_metrics_replaced:
  assumes "map_of (entries (st_metrics s)) (metrics_staging u) = Some (Plain (Doc (metrics_document m)))" "metrics_ok m"
  shows "read_metrics l (replace_metrics (metrics_staging u) s) = Inr m \<and> st_metrics (replace_metrics (metrics_staging u) s) \<noteq> Linked"
  using assms by (simp add: read_metrics_def replace_metrics_def decode_written)

lemma metrics_ok_added:
  assumes "metrics_ok previous" "0 \<le> now_ns" "validate_increments increments = Inr additions" "distinct (map fst increments)"
  shows "metrics_ok \<lparr>fm_updated_ns = now_ns, fm_counters = add_counters (fm_counters previous) additions\<rparr>
    \<and> (\<forall>nm\<in>set COUNTER_NAMES. counter (add_counters (fm_counters previous) additions) nm = counter (fm_counters previous) nm + counter increments nm)"
proof -
  have inc: "set (map fst increments) \<subseteq> set COUNTER_NAMES" "\<forall>x\<in>set increments. 0 \<le> snd x"
      "additions = foldl (\<lambda>d x. dict_set (fst x) (snd x) d) empty_counters increments"
    using assms(3) by (simp_all add: validate_increments_def require_def split: if_splits)
  have additions: "additions = map (\<lambda>nm. (nm, counter increments nm)) COUNTER_NAMES"
    unfolding inc(3) by (rule foldl_empty_counters [OF assms(4) inc(1)])
  have "0 \<le> counter increments nm" for nm
    using inc(2) map_of_SomeD [of increments nm] by (force simp: counter_def split: option.splits)
  moreover have "0 \<le> counter (fm_counters previous) nm" for nm
    using assms(1) map_of_SomeD [of "fm_counters previous" nm] by (force simp: metrics_ok_def counter_def split: option.splits)
  ultimately show ?thesis
    using assms(2) by (auto simp: metrics_ok_def add_counters_def additions counter_names_lookup comp_def)
qed

text \<open>Recording touches no other part of the store.\<close>

definition same_but_metrics :: "store \<Rightarrow> store \<Rightarrow> bool" where
  "same_but_metrics t s = (s = t\<lparr>st_metrics := st_metrics s\<rparr>)"

lemma same_but_metrics_writes:
  "same_but_metrics t t" "same_but_metrics t (sync_metrics s) = same_but_metrics t s" "same_but_metrics t (make_metrics s) = same_but_metrics t s"
  "same_but_metrics t (put_metrics f c s) = same_but_metrics t s"
  "same_but_metrics t (unlink_metrics f s) = same_but_metrics t s" "same_but_metrics t (replace_metrics f s) = same_but_metrics t s"
  by (cases s; cases t; auto simp: same_but_metrics_def make_metrics_def put_metrics_def unlink_metrics_def replace_metrics_def
      sync_metrics_def split: option.splits)+

lemma same_but_metrics_fields:
  assumes "same_but_metrics t s"
  shows "st_current s = st_current t" "st_pointers s = st_pointers t" "st_nodes s = st_nodes t" "st_generations s = st_generations t"
    "st_leases s = st_leases t" "st_access s = st_access t" "st_admission s = st_admission t" "st_migration s = st_migration t"
  using assms by (cases s; cases t; simp add: same_but_metrics_def)+

lemma runs_try_record_metrics:
  "runs t (try_record_factor_cache_metrics call increments) (\<lambda>_. same_but_metrics t) (\<lambda>_. same_but_metrics t) (same_but_metrics t)"
proof -
  have recorded: "runs t (record_factor_cache_metrics call increments) (\<lambda>_. same_but_metrics t) (\<lambda>_. same_but_metrics t) (same_but_metrics t)"
    unfolding record_factor_cache_metrics_def Let_def
    by (intro runs_bind_lift runs_bind_reads_res runs_bind_io runs_io runs_return
        runs_bind [OF runs_on_exception [where Q = "\<lambda>_. same_but_metrics t" and E' = "\<lambda>_. same_but_metrics t"]])
      (simp_all add: same_but_metrics_writes)
  show ?thesis
  proof (rule runsI)
    fix w
    assume w: "live w" "w_store w = t"
    show "case try_record_factor_cache_metrics call increments w of (Inr _, w') \<Rightarrow> live w' \<and> same_but_metrics t (w_store w')
        | (Inl e, w') \<Rightarrow> if live w' then same_but_metrics t (w_store w') else same_but_metrics t (w_store w')"
      using runs_Inr [OF recorded w] runs_Inl [OF recorded w]
      by (cases "record_factor_cache_metrics call increments w"; cases "fst (record_factor_cache_metrics call increments w)")
        (auto simp: try_record_factor_cache_metrics_def live_def split: exn.splits)
  qed
qed

text \<open>Every counter of \<open>m\<close>, stored now, is its value before plus its increment.\<close>

definition counters_added :: "metrics_call \<Rightarrow> counters \<Rightarrow> bool \<Rightarrow> store \<Rightarrow> store \<Rightarrow> factor_metrics \<Rightarrow> bool" where
  "counters_added call increments l t s m = (read_metrics l s = Inr m \<and>
     (\<exists>previous. read_metrics (mc_link_exists call) t = Inr previous \<and>
       (\<forall>nm\<in>set COUNTER_NAMES. counter (fm_counters m) nm = counter (fm_counters previous) nm + counter increments nm)))"

text \<open>Nothing was recorded, or everything.\<close>

definition recorded_or_not :: "metrics_call \<Rightarrow> counters \<Rightarrow> bool \<Rightarrow> store \<Rightarrow> store \<Rightarrow> bool" where
  "recorded_or_not call increments l t s =
     (read_metrics l s = read_metrics l t \<or> (\<exists>m. counters_added call increments l t s m))"

lemma runs_record_metrics:
  assumes "0 \<le> mc_now_ns call" "distinct (map fst increments)"
  shows "runs t (record_factor_cache_metrics call increments)
    (\<lambda>m s. counters_added call increments l t s m) (\<lambda>_. recorded_or_not call increments l t) (recorded_or_not call increments l t)"
    (is "runs t _ ?Q (\<lambda>_. ?E) ?E")
  unfolding record_factor_cache_metrics_def Let_def
proof (intro runs_bind_lift runs_bind_reads_res)
  fix additions x
  assume additions: "validate_increments increments = Inr additions" and linked: "require (st_metrics t \<noteq> Linked)
      (FactorMetricsError ''factor metrics directory may not be a symbolic link'') = Inr x"
  let ?same = "\<lambda>s. read_metrics l s = read_metrics l t \<and> st_metrics s \<noteq> Linked"
  let ?s = "make_metrics t" and ?m = "\<lambda>previous. \<lparr>fm_updated_ns = mc_now_ns call, fm_counters = add_counters (fm_counters previous) additions\<rparr>"
  let ?staging = "metrics_staging (mc_uuid call)"
  have made: "?same ?s" using linked by (simp add: read_metrics_writes metrics_writes)
  have kept: "?E s" if "?same s" for s using that by (simp add: recorded_or_not_def)
  have body: "runs ?s (pbind (on_exception
       (pbind (io (put_metrics ?staging Torn)) (\<lambda>_.
        pbind (io (put_metrics ?staging (Doc (metrics_document (?m previous))))) (\<lambda>_.
        pbind (io (replace_metrics ?staging)) (\<lambda>_.
        io sync_metrics)))) (unlink_metrics ?staging)) (\<lambda>_.
       pbind (io (unlink_metrics ?staging)) (\<lambda>_. preturn (?m previous)))) ?Q (\<lambda>_. ?E) ?E"
    if previous: "read_metrics (mc_link_exists call) ?s = Inr previous" for previous
  proof -
    have before: "read_metrics (mc_link_exists call) t = Inr previous" using previous by (simp add: read_metrics_writes)
    have "metrics_ok previous"
      using before decode_ok by (auto simp: read_metrics_def)
    note added = metrics_ok_added [OF this assms(1) additions assms(2)]
    let ?new = "\<lambda>s. ?Q (?m previous) s \<and> st_metrics s \<noteq> Linked"
    have new: "?new (replace_metrics ?staging (put_metrics ?staging (Doc (metrics_document (?m previous))) s))" for s
      using read_metrics_replaced [OF _ conjunct1 [OF added]] before added by (auto simp: metrics_writes counters_added_def)
    have unlinked: "?new (unlink_metrics ?staging s)" "?E (unlink_metrics ?staging s)" if "?new s" for s
      using that by (auto simp: read_metrics_writes metrics_writes counters_added_def recorded_or_not_def)
    have ended: "?E s" if "?new s" for s using that by (auto simp: recorded_or_not_def)
    have staged: "?same (put_metrics ?staging c s)" "?same (unlink_metrics ?staging s)" if "?same s" for c s
      using that by (simp_all add: read_metrics_writes metrics_writes)
    show ?thesis
    proof (rule runs_bind [where R = "\<lambda>_. ?new"])
      show "runs ?s (on_exception
       (pbind (io (put_metrics ?staging Torn)) (\<lambda>_.
        pbind (io (put_metrics ?staging (Doc (metrics_document (?m previous))))) (\<lambda>_.
        pbind (io (replace_metrics ?staging)) (\<lambda>_.
        io sync_metrics)))) (unlink_metrics ?staging)) (\<lambda>_. ?new) (\<lambda>_. ?E) ?E"
        by (intro runs_on_exception [where E' = "\<lambda>_ s. ?same s \<or> ?new s"] runs_bind_io runs_io)
          (use made new staged kept ended unlinked in \<open>auto simp: sync_metrics_def\<close>)
      show "runs s (pbind (io (unlink_metrics ?staging)) (\<lambda>_. preturn (?m previous))) ?Q (\<lambda>_. ?E) ?E" if "?new s" for s
        by (intro runs_bind_io runs_return) (use that ended unlinked in auto)
    qed
  qed
  show "runs t (pbind (io make_metrics) (\<lambda>_. pbind (reads_res (read_metrics (mc_link_exists call))) (\<lambda>previous.
     pbind (on_exception
       (pbind (io (put_metrics ?staging Torn)) (\<lambda>_.
        pbind (io (put_metrics ?staging (Doc (metrics_document (?m previous))))) (\<lambda>_.
        pbind (io (replace_metrics ?staging)) (\<lambda>_.
        io sync_metrics)))) (unlink_metrics ?staging)) (\<lambda>_.
     pbind (io (unlink_metrics ?staging)) (\<lambda>_. preturn (?m previous)))))) ?Q (\<lambda>_. ?E) ?E"
    by (intro runs_bind_io runs_bind_reads_res body) (use made kept in \<open>auto simp: recorded_or_not_def\<close>)
qed (simp_all add: recorded_or_not_def)

text \<open>
  Claim C21. Recording is all or nothing, for distinct counter names and a clock not before 1970. When it returns, every counter is what it was plus its increment,
  a file of the first version being counted on without loss. When it raises or the process dies at any
  write, the counters are what they were, or the increments have all been added: the synchronisation of
  the directory or the removal of the staging file may fail after the file was replaced. So it is with an
  attempt (\<open>try_record_factor_cache_metrics\<close>), which has added the increments when it reports success.
\<close>

theorem metrics_recorded_exactly:
  assumes "live w" and "record_factor_cache_metrics call increments w = (r, w')"
    and "0 \<le> mc_now_ns call" and "distinct (map fst increments)"
    and "try_record_factor_cache_metrics call increments w = (recorded, w'')"
  shows "(case r of
      Inl e \<Rightarrow> recorded_or_not call increments l (w_store w) (w_store w')
    | Inr m \<Rightarrow> counters_added call increments l (w_store w) (w_store w') m) \<and>
    (if recorded = Inr True then \<exists>m. counters_added call increments l (w_store w) (w_store w'') m
     else recorded_or_not call increments l (w_store w) (w_store w''))"
proof -
  have r: "case r of
      Inl e \<Rightarrow> recorded_or_not call increments l (w_store w) (w_store w')
    | Inr m \<Rightarrow> counters_added call increments l (w_store w) (w_store w') m"
    using runs_Inl [OF runs_record_metrics [OF assms(3,4)] assms(1) refl, of _ w' l]
      runs_Inr [OF runs_record_metrics [OF assms(3,4)] assms(1) refl, of _ w' l] assms(2) by (cases r) auto
  have "w'' = w'" "recorded = Inr True \<longrightarrow> \<not> isl r"
    using assms(2,5) by (auto simp: try_record_factor_cache_metrics_def split: sum.splits exn.splits if_splits)
  then show ?thesis using r by (cases r) (auto simp: recorded_or_not_def)
qed

text \<open>Two recordings; the second dies before its file is replaced, or after that.\<close>

definition example_metrics_call :: metrics_call where
  "example_metrics_call = \<lparr>mc_link_exists = False, mc_now_ns = 7, mc_uuid = ''u''\<rparr>"

definition example_recorded :: world where
  "example_recorded = snd (record_factor_cache_metrics example_metrics_call [(''cache_hits'', 3)] \<lparr>w_store = empty_store, w_faults = NoFault\<rparr>)"

definition stored_hits :: "store \<Rightarrow> int" where
  "stored_hits s = (case read_metrics False s of Inl _ \<Rightarrow> -1 | Inr m \<Rightarrow> counter (fm_counters m) ''cache_hits'')"

lemma example_recording:
  "(case fst (record_factor_cache_metrics example_metrics_call [(''cache_hits'', 3)] \<lparr>w_store = empty_store, w_faults = NoFault\<rparr>) of
      Inl _ \<Rightarrow> False | Inr m \<Rightarrow> counter (fm_counters m) ''cache_hits'' = 3)"
  "stored_hits (w_store (snd (record_factor_cache_metrics example_metrics_call [(''cache_hits'', 2)] (example_recorded\<lparr>w_faults := CrashAfter 2\<rparr>)))) = 3"
  "stored_hits (w_store (snd (record_factor_cache_metrics example_metrics_call [(''cache_hits'', 2)] (example_recorded\<lparr>w_faults := CrashAfter 4\<rparr>)))) = 5"
  "stored_hits (w_store (snd (record_factor_cache_metrics example_metrics_call [(''cache_hits'', 2)] (example_recorded\<lparr>w_faults := RaiseAfter 4 (OSError ''sync'')\<rparr>)))) = 5"
  by code_simp+

theorem metrics_recorded_exactly_witness:
  "stored_hits (w_store example_recorded) = 3"
proof -
  let ?w = "\<lparr>w_store = empty_store, w_faults = NoFault\<rparr>"
  obtain m where run: "record_factor_cache_metrics example_metrics_call [(''cache_hits'', 3)] ?w = (Inr m, example_recorded)"
      "counter (fm_counters m) ''cache_hits'' = 3"
    using example_recording(1) by (cases "record_factor_cache_metrics example_metrics_call [(''cache_hits'', 3)] ?w")
      (auto simp: example_recorded_def split: sum.splits)
  obtain recorded w'' where "try_record_factor_cache_metrics example_metrics_call [(''cache_hits'', 3)] ?w = (recorded, w'')" by fastforce
  from metrics_recorded_exactly [OF _ run(1) _ _ this, of False] have "read_metrics False (w_store example_recorded) = Inr m"
    by (simp add: live_def example_metrics_call_def counters_added_def)
  then show ?thesis using run(2) by (simp add: stored_hits_def)
qed

end
