(* ===== verification/Factor_Store.thy ===== *)
theory Factor_Store
  imports Factor_Metrics
begin

text \<open>
  Generations of mapped factor columns (\<open>factor_store.py\<close>): publication with its staging directory,
  manifest, \<open>CURRENT\<close> and node pointers, the strictly validated opening with its lease, and the access
  records. The native column class is the record \<open>native\<close>: what \<open>create_chunked_v3\<close> stores and returns,
  and what \<open>open\<close> makes of stored bytes. Time, fresh names, process and host come with \<open>env\<close>. The
  section on the commit shows that a publication, whatever interrupts it, leaves the index in one of
  four states, each of which opens.
\<close>

section \<open>Values\<close>

record column =
  col_values :: "f8 list"
  col_rows :: nat
  col_checksum :: nat
  col_version :: nat

record native =
  nat_create :: "f8 list \<Rightarrow> byte list \<times> column"
  nat_open :: "byte list \<Rightarrow> column res"

record env =
  ev_now :: int
  ev_generation :: string
  ev_lease_name :: string
  ev_pid :: int
  ev_host :: string

record nd_array =
  arr_ndim :: nat
  arr_values :: "f8 list"

definition FORMAT :: string where "FORMAT = ''gambit-factor-generation''"

definition store_VERSION :: int where "store_VERSION = 1"

definition staging_name :: "string \<Rightarrow> string" where
  "staging_name g = ''.staging-'' @ g"

definition dir_files :: "generation_dir entry option \<Rightarrow> generation_dir" where
  "dir_files e = (case e of Some (Plain d) \<Rightarrow> d | _ \<Rightarrow> [])"

text \<open>\<open>np.array_equal(..., equal_nan=True)\<close> on bit patterns: NaNs agree, and so do the two zeros.\<close>

definition f8_is_nan :: "f8 \<Rightarrow> bool" where
  "f8_is_nan w = (unat w mod 2 ^ 63 > 9218868437227405312)"

definition f8_same :: "f8 \<Rightarrow> f8 \<Rightarrow> bool" where
  "f8_same a b = (a = b \<or> (f8_is_nan a \<and> f8_is_nan b) \<or> (unat a mod 2 ^ 63 = 0 \<and> unat b mod 2 ^ 63 = 0))"

definition array_equal :: "f8 list \<Rightarrow> f8 list \<Rightarrow> bool" where
  "array_equal xs ys = list_all2 f8_same xs ys"

section \<open>Node pointers and access records\<close>

definition read_node_pointer :: "store \<Rightarrow> string \<Rightarrow> bool \<Rightarrow> string option res" where
  "read_node_pointer st node_key missing_ok =
     (if \<not> hex_name 64 node_key then Inl (ValueError ''node_key must be a lowercase SHA-256 digest'')
      else case map_of (entries (st_nodes st)) node_key of
          Some Symlink \<Rightarrow> Inl (FactorStoreError ''factor node index may not use symbolic links'')
        | None \<Rightarrow> if missing_ok then Inr None else Inl (FactorNodeCacheMiss ''factor node is not cached'')
        | found \<Rightarrow> (case read_text found of
              Inl (OSError _) \<Rightarrow> Inl (FactorStoreError ''factor node index is unreadable'')
            | Inl e \<Rightarrow> Inl e
            | Inr text \<Rightarrow>
                if hex_name 32 (str_strip text) then Inr (Some (str_strip text))
                else Inl (FactorStoreError ''factor node index generation is invalid'')))"

definition require_node_pointer :: "store \<Rightarrow> string \<Rightarrow> string res" where
  "require_node_pointer st node_key = rbind (read_node_pointer st node_key False) (\<lambda>g.
     case g of None \<Rightarrow> Inl (FactorStoreError ''factor node pointer is missing'') | Some g \<Rightarrow> Inr g)"

definition json_name :: "string \<Rightarrow> string" where
  "json_name node_key = node_key @ ''.json''"

text \<open>The count an access record continues from, or \<open>None\<close> when the record is recent enough to keep.\<close>

definition access_count_before :: "store \<Rightarrow> string \<Rightarrow> string \<Rightarrow> int \<Rightarrow> float64 \<Rightarrow> int option" where
  "access_count_before st node_key generation now_ns minimum_ns =
     (case map_of (entries (st_access st)) (json_name node_key) of
        Some (Plain (Doc (JObj previous), _)) \<Rightarrow>
          (case (json_int (item_get previous ''last_access_ns''), json_int (item_get previous ''access_count'')) of
             (Some last_access, Some n) \<Rightarrow>
               if item_get previous ''node_key'' = JStr node_key \<and> item_get previous ''generation'' = JStr generation
               then if 0 \<le> last_access \<and> last_access \<le> now_ns \<and> f_lt (Fin (of_int (now_ns - last_access))) minimum_ns
                    then None else Some (max 0 n)
               else Some 0
           | _ \<Rightarrow> Some 0)
      | _ \<Rightarrow> Some 0)"

definition access_record :: "string \<Rightarrow> string \<Rightarrow> int \<Rightarrow> int \<Rightarrow> json" where
  "access_record node_key generation now_ns n = sorted_json (JObj [(''format'', JStr ''gambit-factor-access''), (''version'', JInt 1),
     (''node_key'', JStr node_key), (''generation'', JStr generation), (''last_access_ns'', JInt now_ns), (''access_count'', JInt n)])"

definition put_access :: "string \<Rightarrow> json \<Rightarrow> int \<Rightarrow> store \<Rightarrow> store" where
  "put_access node_key value now_ns st =
     st\<lparr>st_access := Folder (dict_set (json_name node_key) (Plain (Doc value, now_ns)) (entries (st_access st)))\<rparr>"

definition record_node_access :: "env \<Rightarrow> string \<Rightarrow> string \<Rightarrow> float64 \<Rightarrow> (world, unit) prog" where
  "record_node_access env node_key generation minimum_ns =
     pbind (reads (\<lambda>st. if st_access st = Linked \<or> map_of (entries (st_access st)) (json_name node_key) = Some Irregular then None
       else access_count_before st node_key generation (ev_now env) minimum_ns)) (\<lambda>count.
     case count of None \<Rightarrow> preturn ()
     | Some n \<Rightarrow> ignoring_os_error (io (put_access node_key (access_record node_key generation (ev_now env) (n + 1)) (ev_now env))))"

definition read_node_last_access :: "store \<Rightarrow> string \<Rightarrow> string \<Rightarrow> int \<Rightarrow> int \<Rightarrow> int" where
  "read_node_last_access st node_key generation fallback_ns now_ns =
     (case map_of (entries (st_access st)) (json_name node_key) of
        Some (Plain (Doc (JObj value), _)) \<Rightarrow>
          (case json_int (item_get value ''last_access_ns'') of
             Some last_access \<Rightarrow>
               if item_get value ''format'' = JStr ''gambit-factor-access'' \<and> json_eq_int (item_get value ''version'') 1
                  \<and> item_get value ''node_key'' = JStr node_key \<and> item_get value ''generation'' = JStr generation
                  \<and> 0 \<le> last_access \<and> last_access \<le> now_ns
               then last_access else fallback_ns
           | None \<Rightarrow> fallback_ns)
      | _ \<Rightarrow> fallback_ns)"

section \<open>Opening a generation\<close>

text \<open>\<open>str(manifest.get("node_key", ""))\<close>, where its form can be 64 hexadecimal digits.\<close>

definition manifest_node_key :: "(string \<times> json) list \<Rightarrow> string" where
  "manifest_node_key manifest = (case item_get manifest ''node_key'' of
      JStr s \<Rightarrow> s
    | JInt n \<Rightarrow> if 0 \<le> n then dec (nat n) else ''-''
    | _ \<Rightarrow> [])"

definition open_file :: "native \<Rightarrow> content entry option \<Rightarrow> column res" where
  "open_file native e = (case e of Some (Plain (Segment bytes)) \<Rightarrow> nat_open native bytes
     | _ \<Rightarrow> Inl (RuntimeError ''open factor cache segment''))"

definition open_column :: "native \<Rightarrow> generation_dir \<Rightarrow> string \<Rightarrow> json \<Rightarrow> (string \<times> column) res" where
  "open_column native files nm metadata =
     (case (portable_name nm, metadata) of
        (True, JObj m) \<Rightarrow>
          if item_get m ''file'' \<noteq> JStr (nm @ ''.bin'')
            then Inl (FactorStoreError ''factor generation column filename is invalid'')
          else if map_of files (nm @ ''.bin'') = Some Symlink
            then Inl (FactorStoreError ''factor generation may not use symbolic links'')
          else rbind (open_file native (map_of files (nm @ ''.bin''))) (\<lambda>column.
            if \<not> json_eq_int (item_get m ''rows'') (int (col_rows column))
               \<or> \<not> json_eq_int (item_get m ''checksum'') (int (col_checksum column))
               \<or> \<not> json_eq_int (item_get m ''segment_version'') (int (col_version column))
            then Inl (FactorStoreError ''factor generation column metadata mismatch'')
            else Inr (nm, column))
      | _ \<Rightarrow> Inl (FactorStoreError ''factor generation column metadata is invalid''))"

definition read_identity :: "(json \<Rightarrow> string) \<Rightarrow> string \<Rightarrow> bool \<Rightarrow> json \<Rightarrow> node_identity option res" where
  "read_identity digest node_key require_identity snapshot =
     (if snapshot = JNull then
        (if require_identity then Inl (FactorStoreError ''factor generation has no strict identity snapshot'') else Inr None)
      else case identity_from_snapshot snapshot of
          Inl (TypeError _) \<Rightarrow> Inl (FactorStoreError ''factor generation identity snapshot is invalid'')
        | Inl (ValueError _) \<Rightarrow> Inl (FactorStoreError ''factor generation identity snapshot is invalid'')
        | Inl e \<Rightarrow> Inl e
        | Inr ident \<Rightarrow>
            if identity_node_key digest ident \<noteq> node_key then Inl (FactorStoreError ''factor generation identity hash mismatch'')
            else Inr (Some ident))"

definition check_generation :: "native \<Rightarrow> (json \<Rightarrow> string) \<Rightarrow> (string \<Rightarrow> generation_dir entry option) \<Rightarrow> string
    \<Rightarrow> string option \<Rightarrow> bool \<Rightarrow> (string \<times> node_identity option \<times> (string \<times> column) list) res" where
  "check_generation native digest generations generation expected_node_key require_identity =
     (let files = dir_files (generations generation) in
      if generations generation = Some Symlink \<or> map_of files ''manifest.json'' = Some Symlink
        then Inl (FactorStoreError ''factor generation may not use symbolic links'')
      else case read_json (map_of files ''manifest.json'') of
          Inl _ \<Rightarrow> Inl (FactorStoreError ''factor generation manifest is unreadable'')
        | Inr (JObj manifest) \<Rightarrow>
            let node_key = manifest_node_key manifest in
            if item_get manifest ''format'' \<noteq> JStr FORMAT \<or> \<not> json_eq_int (item_get manifest ''version'') store_VERSION
               \<or> item_get manifest ''generation'' \<noteq> JStr generation \<or> \<not> hex_name 64 node_key
              then Inl (FactorStoreError ''factor generation manifest identity is invalid'')
            else if expected_node_key \<noteq> None \<and> expected_node_key \<noteq> Some node_key
              then Inl (FactorStoreError ''factor generation node key does not match its index'')
            else rbind (read_identity digest node_key require_identity (item_get manifest ''identity'')) (\<lambda>identity.
              case item_get manifest ''columns'' of
                JObj (c # cs) \<Rightarrow> rbind (res_map (\<lambda>(nm, metadata). open_column native files nm metadata) (c # cs)) (\<lambda>opened.
                  Inr (node_key, identity, opened))
              | _ \<Rightarrow> Inl (FactorStoreError ''factor generation manifest has no columns''))
        | Inr _ \<Rightarrow> Inl (AttributeError ''get''))"

record lease =
  l_generation :: string
  l_node_key :: string
  l_identity :: "node_identity option"
  l_columns :: "(string \<times> column) list"
  l_name :: string
  l_closed :: bool

definition lease_files :: "store \<Rightarrow> string \<Rightarrow> lease_dir" where
  "lease_files st generation = (case map_of (st_leases st) generation of Some (Plain d) \<Rightarrow> d | _ \<Rightarrow> [])"

definition put_lease :: "string \<Rightarrow> string \<Rightarrow> content \<Rightarrow> store \<Rightarrow> store" where
  "put_lease generation nm c st =
     st\<lparr>st_leases := dict_set generation (Plain (dict_set nm (Plain c) (lease_files st generation))) (st_leases st)\<rparr>"

definition make_lease_dir :: "string \<Rightarrow> store \<Rightarrow> store" where
  "make_lease_dir generation st =
     (if map_of (st_leases st) generation = None then st\<lparr>st_leases := dict_set generation (Plain []) (st_leases st)\<rparr> else st)"

definition unlink_lease :: "string \<Rightarrow> string \<Rightarrow> store \<Rightarrow> store" where
  "unlink_lease generation nm st = (case map_of (st_leases st) generation of
      Some (Plain d) \<Rightarrow> st\<lparr>st_leases := dict_set generation (Plain (AList.delete nm d)) (st_leases st)\<rparr>
    | _ \<Rightarrow> st)"

definition lease_document :: "env \<Rightarrow> string \<Rightarrow> json" where
  "lease_document env generation = sorted_json (JObj [(''generation'', JStr generation), (''pid'', JInt (ev_pid env)),
     (''host'', JStr (ev_host env)), (''created_ns'', JInt (ev_now env))])"

definition open_and_lease :: "native \<Rightarrow> (json \<Rightarrow> string) \<Rightarrow> env \<Rightarrow> string \<Rightarrow> string option \<Rightarrow> bool \<Rightarrow> (world, lease) prog" where
  "open_and_lease native digest env generation expected_node_key require_identity =
     pbind (reads_res (\<lambda>st. check_generation native digest (map_of (st_generations st)) generation expected_node_key require_identity))
       (\<lambda>(node_key, identity, opened).
     pbind (reads_res (\<lambda>st. require (map_of (st_leases st) generation \<notin> {Some Symlink, Some Irregular}) (OSError ''File exists''))) (\<lambda>_.
     pbind (io (make_lease_dir generation)) (\<lambda>_.
     pbind (io (put_lease generation (ev_lease_name env) Torn)) (\<lambda>_.
     pbind (io (put_lease generation (ev_lease_name env) (Doc (lease_document env generation)))) (\<lambda>_.
     preturn \<lparr>l_generation = generation, l_node_key = node_key, l_identity = identity, l_columns = opened,
       l_name = ev_lease_name env, l_closed = False\<rparr>)))))"

definition lease_close :: "lease \<Rightarrow> (world, lease) prog" where
  "lease_close lease = (if l_closed lease then preturn lease
     else pbind (io (unlink_lease (l_generation lease) (l_name lease))) (\<lambda>_. preturn (lease\<lparr>l_columns := [], l_closed := True\<rparr>)))"

definition lease_getitem :: "lease \<Rightarrow> string \<Rightarrow> column res" where
  "lease_getitem lease nm = (if l_closed lease then Inl (FactorStoreError ''factor generation lease is closed'')
     else case map_of (l_columns lease) nm of None \<Rightarrow> Inl (KeyError nm) | Some c \<Rightarrow> Inr c)"

definition read_current :: "store \<Rightarrow> string res" where
  "read_current st = (case read_text (st_current st) of
      Inl (OSError _) \<Rightarrow> Inl (FactorStoreError ''factor store has no readable CURRENT generation'')
    | Inl e \<Rightarrow> Inl e
    | Inr text \<Rightarrow> if hex_name 32 (str_strip text) then Inr (str_strip text)
        else Inl (FactorStoreError ''factor store CURRENT generation is invalid''))"

definition open_current_generation :: "native \<Rightarrow> (json \<Rightarrow> string) \<Rightarrow> env \<Rightarrow> (world, lease) prog" where
  "open_current_generation native digest env =
     pbind (reads_res read_current) (\<lambda>generation. open_and_lease native digest env generation None False)"

definition open_generation_by_node_key :: "native \<Rightarrow> (json \<Rightarrow> string) \<Rightarrow> env \<Rightarrow> string \<Rightarrow> float64 \<Rightarrow> (world, lease) prog" where
  "open_generation_by_node_key native digest env node_key interval =
     pbind (plift (require (is_finite interval \<and> f_le (Fin 0) interval)
       (ValueError ''access_update_interval_seconds must be finite and non-negative''))) (\<lambda>_.
     pbind (reads_res (\<lambda>st. require_node_pointer st node_key)) (\<lambda>generation.
     pbind (open_and_lease native digest env generation (Some node_key) True) (\<lambda>lease.
     pbind (record_node_access env node_key generation (f_mul interval (Fin 1000000000))) (\<lambda>_.
     preturn lease))))"

section \<open>Publishing a generation\<close>

definition put_staged :: "string \<Rightarrow> string \<Rightarrow> content \<Rightarrow> store \<Rightarrow> store" where
  "put_staged g file_name c st = st\<lparr>st_generations := dict_set (staging_name g)
     (Plain (dict_set file_name (Plain c) (dir_files (map_of (st_generations st) (staging_name g))))) (st_generations st)\<rparr>"

definition make_staging :: "string \<Rightarrow> store \<Rightarrow> store" where
  "make_staging g st = st\<lparr>st_generations := dict_set (staging_name g) (Plain []) (st_generations st)\<rparr>"

definition rename_staging :: "string \<Rightarrow> store \<Rightarrow> store" where
  "rename_staging g st = (case map_of (st_generations st) (staging_name g) of
      None \<Rightarrow> st
    | Some d \<Rightarrow> st\<lparr>st_generations := dict_set g d (AList.delete (staging_name g) (st_generations st))\<rparr>)"

definition pointer_text :: "string \<Rightarrow> content" where
  "pointer_text g = Text (g @ [newline])"

definition current_staging :: "string \<Rightarrow> string" where
  "current_staging g = ''.CURRENT-'' @ g"

definition put_pointer :: "string \<Rightarrow> content \<Rightarrow> store \<Rightarrow> store" where
  "put_pointer g c st = st\<lparr>st_pointers := dict_set (current_staging g) (Plain c) (st_pointers st)\<rparr>"

definition replace_current :: "string \<Rightarrow> store \<Rightarrow> store" where
  "replace_current g st = (case map_of (st_pointers st) (current_staging g) of
      None \<Rightarrow> st
    | Some c \<Rightarrow> st\<lparr>st_current := Some c, st_pointers := AList.delete (current_staging g) (st_pointers st)\<rparr>)"

definition node_staging :: "string \<Rightarrow> string \<Rightarrow> string" where
  "node_staging node_key g = CHR ''.'' # node_key @ ''-'' @ g"

definition put_node :: "string \<Rightarrow> content \<Rightarrow> store \<Rightarrow> store" where
  "put_node nm c st = st\<lparr>st_nodes := Folder (dict_set nm (Plain c) (entries (st_nodes st)))\<rparr>"

definition make_nodes :: "store \<Rightarrow> store" where
  "make_nodes st = (if st_nodes st = Absent then st\<lparr>st_nodes := Folder []\<rparr> else st)"

definition replace_node :: "string \<Rightarrow> string \<Rightarrow> store \<Rightarrow> store" where
  "replace_node node_key g st = (case map_of (entries (st_nodes st)) (node_staging node_key g) of
      None \<Rightarrow> st
    | Some c \<Rightarrow> st\<lparr>st_nodes := Folder (dict_set node_key c (AList.delete (node_staging node_key g) (entries (st_nodes st))))\<rparr>)"

definition column_metadata :: "string \<Rightarrow> column \<Rightarrow> json" where
  "column_metadata nm column = JObj [(''file'', JStr (nm @ ''.bin'')), (''rows'', JInt (int (col_rows column))),
     (''checksum'', JInt (int (col_checksum column))), (''segment_version'', JInt (int (col_version column)))]"

definition verify_column :: "native \<Rightarrow> string \<Rightarrow> string \<Rightarrow> f8 list \<Rightarrow> store \<Rightarrow> unit res" where
  "verify_column native g nm vs st =
     rbind (open_file native (map_of (dir_files (map_of (st_generations st) (staging_name g))) (nm @ ''.bin''))) (\<lambda>verified.
     require (array_equal (col_values verified) vs) (FactorStoreError ''factor migration verification failed''))"

text \<open>The loop over the columns, in the order of their names: the metadata of the staged ones.\<close>

primrec stage_columns :: "native \<Rightarrow> bool \<Rightarrow> string \<Rightarrow> nat option \<Rightarrow> (string \<times> nd_array) list
    \<Rightarrow> (world, (string \<times> json) list) prog" where
  "stage_columns native verify_written g expected_rows [] = preturn []"
| "stage_columns native verify_written g expected_rows (c # cs) =
     (let nm = fst c; vs = arr_values (snd c); made = nat_create native vs in
      pbind (plift (require (arr_ndim (snd c) = 1) (ValueError ''factor columns must be one-dimensional''))) (\<lambda>_.
      pbind (plift (require (case expected_rows of None \<Rightarrow> True | Some n \<Rightarrow> length vs = n)
        (ValueError ''factor columns must have equal row counts''))) (\<lambda>_.
      pbind (io (put_staged g (nm @ ''.bin'') Torn)) (\<lambda>_.
      pbind (io (put_staged g (nm @ ''.bin'') (Segment (fst made)))) (\<lambda>_.
      pbind (if verify_written then reads_res (verify_column native g nm vs) else preturn ()) (\<lambda>_.
      pbind (stage_columns native verify_written g (Some (length vs)) cs) (\<lambda>rest.
      preturn ((nm, column_metadata nm (snd made)) # rest))))))))"

definition manifest_document :: "env \<Rightarrow> string \<Rightarrow> (string \<times> json) list \<Rightarrow> node_identity option \<Rightarrow> json" where
  "manifest_document env node_key metadata identity = sorted_json (JObj ([(''format'', JStr FORMAT), (''version'', JInt store_VERSION),
     (''generation'', JStr (ev_generation env)), (''node_key'', JStr node_key), (''created_ns'', JInt (ev_now env)),
     (''columns'', JObj metadata)]
     @ (case identity of None \<Rightarrow> [] | Some ident \<Rightarrow> [(''identity'', identity_snapshot ident)])))"

definition publication_cleanup :: "string \<Rightarrow> store \<Rightarrow> store" where
  "publication_cleanup g st = st\<lparr>st_generations := AList.delete (staging_name g) (st_generations st),
     st_pointers := AList.delete (current_staging g) (st_pointers st)\<rparr>"

definition index_node :: "env \<Rightarrow> string \<Rightarrow> (world, unit) prog" where
  "index_node env node_key = (let g = ev_generation env in
     pbind (reads_res (\<lambda>st. require (st_nodes st \<noteq> Linked) (OSError ''node index''))) (\<lambda>_.
     pbind (io make_nodes) (\<lambda>_.
     pbind (io (put_node (node_staging node_key g) Torn)) (\<lambda>_.
     pbind (io (put_node (node_staging node_key g) (pointer_text g))) (\<lambda>_.
     pbind (io (replace_node node_key g)) (\<lambda>_.
     record_node_access env node_key g (Fin 0)))))))"

definition publish_staged :: "native \<Rightarrow> env \<Rightarrow> string \<Rightarrow> (string \<times> nd_array) list \<Rightarrow> node_identity option \<Rightarrow> bool
    \<Rightarrow> (world, string) prog" where
  "publish_staged native env node_key columns identity verify_written = (let g = ev_generation env in
     pbind (stage_columns native verify_written g None (sort_key fst columns)) (\<lambda>metadata.
     pbind (io (put_staged g ''manifest.json'' Torn)) (\<lambda>_.
     pbind (io (put_staged g ''manifest.json'' (Doc (manifest_document env node_key metadata identity)))) (\<lambda>_.
     pbind (io (rename_staging g)) (\<lambda>_.
     pbind (io (put_pointer g Torn)) (\<lambda>_.
     pbind (io (put_pointer g (pointer_text g))) (\<lambda>_.
     pbind (io (replace_current g)) (\<lambda>_.
     pbind (if identity = None then preturn () else index_node env node_key) (\<lambda>_.
     preturn g)))))))))"

definition publish_new :: "native \<Rightarrow> env \<Rightarrow> string \<Rightarrow> (string \<times> nd_array) list \<Rightarrow> node_identity option \<Rightarrow> bool
    \<Rightarrow> (world, string) prog" where
  "publish_new native env node_key columns identity verify_written = (let g = ev_generation env in
     pbind (reads_res (\<lambda>st. require (map_of (st_generations st) (staging_name g) = None) (OSError ''File exists''))) (\<lambda>_.
     pbind (io (make_staging g)) (\<lambda>_.
     on_exception (publish_staged native env node_key columns identity verify_written) (publication_cleanup g))))"

definition publish_checks :: "(json \<Rightarrow> string) \<Rightarrow> string \<Rightarrow> (string \<times> nd_array) list \<Rightarrow> node_identity option \<Rightarrow> unit res" where
  "publish_checks digest node_key columns identity =
     rbind (require (columns \<noteq> []) (ValueError ''columns must not be empty'')) (\<lambda>_.
     rbind (require (hex_name 64 node_key) (ValueError ''node_key must be a lowercase SHA-256 digest'')) (\<lambda>_.
     rbind (require (case identity of None \<Rightarrow> True | Some ident \<Rightarrow> identity_node_key digest ident = node_key)
       (ValueError ''identity does not hash to node_key'')) (\<lambda>_.
     require (\<forall>c\<in>set columns. portable_name (fst c)) (ValueError ''factor column names must be safe portable identifiers''))))"

definition check_replacement :: "string \<Rightarrow> node_identity option \<Rightarrow> string option \<Rightarrow> store \<Rightarrow> unit res" where
  "check_replacement node_key identity replace_generation st = (case replace_generation of None \<Rightarrow> Inr ()
    | Some old \<Rightarrow>
        rbind (require (identity \<noteq> None \<and> hex_name 32 old)
          (ValueError ''replacement publication requires an identity and valid generation'')) (\<lambda>_.
        rbind (read_node_pointer st node_key False) (\<lambda>indexed.
        require (indexed = Some old) (FactorStoreError ''factor node changed during migration''))))"

definition publish_generation :: "native \<Rightarrow> (json \<Rightarrow> string) \<Rightarrow> env \<Rightarrow> string \<Rightarrow> (string \<times> nd_array) list \<Rightarrow> node_identity option
    \<Rightarrow> string option \<Rightarrow> bool \<Rightarrow> (world, string) prog" where
  "publish_generation native digest env node_key columns identity replace_generation verify_written =
     pbind (plift (publish_checks digest node_key columns identity)) (\<lambda>_.
     pbind (reads_res (check_replacement node_key identity replace_generation)) (\<lambda>_.
     pbind (if identity = None then preturn None else reads_res (\<lambda>st. read_node_pointer st node_key True)) (\<lambda>indexed.
     case (indexed, replace_generation) of
       (Some g, None) \<Rightarrow>
         pbind (open_and_lease native digest env g (Some node_key) True) (\<lambda>lease.
         pbind (record_node_access env node_key g (Fin 60000000000)) (\<lambda>_.
         pbind (lease_close lease) (\<lambda>_.
         preturn g)))
     | _ \<Rightarrow> publish_new native env node_key columns identity verify_written)))"

definition publish_factor_node :: "native \<Rightarrow> (json \<Rightarrow> string) \<Rightarrow> env \<Rightarrow> node_identity \<Rightarrow> (string \<times> nd_array) list
    \<Rightarrow> (world, string) prog" where
  "publish_factor_node native digest env identity columns =
     (if set (map cs_name (ni_output_schema identity)) \<noteq> set (map fst columns)
        then plift (Inl (ValueError ''identity output schema must exactly match published columns''))
      else if \<exists>c\<in>set (ni_output_schema identity). cs_dtype c \<noteq> ''float64'' \<or> cs_nullable c
        then plift (Inl (ValueError ''mapped factor storage currently requires non-nullable float64 columns''))
      else publish_generation native digest env (identity_node_key digest identity) columns (Some identity) None False)"

end
