(* ===== verification/Factor_Publication.thy ===== *)
theory Factor_Publication
  imports Factor_Store
begin

text \<open>
  What a publication does to the part of a store readers follow: its \<open>CURRENT\<close> file, its node pointers
  and its finished generations. The abstract publication is three atomic updates of that index; the
  detailed one, with any write failing or any crash, ends in the index before it or behind one of them.
\<close>

section \<open>The index\<close>

record index =
  ix_current :: "content entry option"
  ix_nodes :: "string \<Rightarrow> content entry option"
  ix_generations :: "string \<Rightarrow> generation_dir entry option"

definition index_of :: "store \<Rightarrow> index" where
  "index_of st = \<lparr>ix_current = st_current st,
     ix_nodes = (\<lambda>k. if dotted k then None else map_of (entries (st_nodes st)) k),
     ix_generations = (\<lambda>g. if dotted g then None else map_of (st_generations st) g)\<rparr>"

named_theorems index_simps "what the store operations do to the index"

lemma dotted_names [simp]: "dotted (staging_name g)" "dotted (node_staging k g)"
  by (simp_all add: staging_name_def node_staging_def)

lemma hex_ne_staging [simp]: "hex_name n x \<Longrightarrow> x \<noteq> staging_name g" "hex_name n x \<Longrightarrow> x \<noteq> node_staging k g"
  using dotted_names hex_not_dotted by metis+

lemma index_frames [index_simps]:
  "index_of (put_staged g f c st) = index_of st"
  "index_of (make_staging g st) = index_of st"
  "index_of (put_pointer g c st) = index_of st"
  "index_of (put_node (node_staging k g) c st) = index_of st"
  "index_of (make_nodes st) = index_of st"
  "index_of (put_access k v n st) = index_of st"
  "index_of (put_lease g f c st) = index_of st"
  "index_of (make_lease_dir g st) = index_of st"
  "index_of (unlink_lease g f st) = index_of st"
  by (auto simp: index_of_def put_staged_def make_staging_def put_pointer_def put_node_def make_nodes_def put_access_def
      put_lease_def make_lease_dir_def unlink_lease_def fun_eq_iff split: option.splits entry.splits)

lemma index_cleanup [index_simps]: "index_of (publication_cleanup g st) = index_of st"
  by (auto simp: index_of_def publication_cleanup_def fun_eq_iff delete_conv')

lemma index_rename:
  assumes "map_of (st_generations st) (staging_name g) = Some d" "hex_name 32 g"
  shows "index_of (rename_staging g st) = index_of st\<lparr>ix_generations := (ix_generations (index_of st))(g := Some d)\<rparr>"
  using assms by (auto simp: index_of_def rename_staging_def fun_eq_iff delete_conv')

lemma index_replace_current:
  assumes "map_of (st_pointers st) (current_staging g) = Some c"
  shows "index_of (replace_current g st) = index_of st\<lparr>ix_current := Some c\<rparr>"
  using assms by (auto simp: index_of_def replace_current_def fun_eq_iff)

lemma index_replace_node:
  assumes "map_of (entries (st_nodes st)) (node_staging k g) = Some c" "hex_name 64 k"
  shows "index_of (replace_node k g st) = index_of st\<lparr>ix_nodes := (ix_nodes (index_of st))(k := Some c)\<rparr>"
  using assms by (auto simp: index_of_def replace_node_def fun_eq_iff delete_conv')

lemma staged_lookup:
  "map_of (st_generations (put_staged g f c st)) (staging_name g) =
     Some (Plain (dict_set f (Plain c) (dir_files (map_of (st_generations st) (staging_name g)))))"
  "map_of (st_generations (make_staging g st)) (staging_name g) = Some (Plain [])"
  by (simp_all add: put_staged_def make_staging_def)

lemma dir_files_Some [simp]: "dir_files (Some (Plain d)) = d"
  by (simp add: dir_files_def)

section \<open>Staging the columns\<close>

definition staged_files :: "native \<Rightarrow> (string \<times> nd_array) list \<Rightarrow> generation_dir" where
  "staged_files native cols = map (\<lambda>c. (fst c @ ''.bin'', Plain (Segment (fst (nat_create native (arr_values (snd c))))))) cols"

definition staged_metadata :: "native \<Rightarrow> (string \<times> nd_array) list \<Rightarrow> (string \<times> json) list" where
  "staged_metadata native cols = map (\<lambda>c. (fst c, column_metadata (fst c) (snd (nat_create native (arr_values (snd c)))))) cols"

lemma update_new: "k \<notin> fst ` set d \<Longrightarrow> dict_set k v d = d @ [(k, v)]"
  by (induction d) auto

lemma update_last: "k \<notin> fst ` set d \<Longrightarrow> dict_set k v' (d @ [(k, v)]) = d @ [(k, v')]"
  by (induction d) auto

lemma runs_stage_columns:
  assumes "distinct (map fst cols)" and "\<forall>c\<in>set cols. fst c @ ''.bin'' \<notin> fst ` set files"
    and "index_of t = ix" and "map_of (st_generations t) (staging_name g) = Some (Plain files)"
  shows "runs t (stage_columns native v g rows cols)
    (\<lambda>metadata s. index_of s = ix \<and> metadata = staged_metadata native cols
       \<and> map_of (st_generations s) (staging_name g) = Some (Plain (files @ staged_files native cols)))
    (\<lambda>_ s. index_of s = ix) (\<lambda>s. index_of s = ix)"
  using assms
proof (induction cols arbitrary: files rows t)
  case Nil
  then show ?case by (auto simp: staged_files_def staged_metadata_def simp del: prog_simps intro!: runs_return)
next
  case (Cons c cs)
  let ?f = "fst c @ ''.bin''" and ?vs = "arr_values (snd c)"
  let ?s = "put_staged g ?f (Segment (fst (nat_create native ?vs))) (put_staged g ?f Torn t)"
  have new: "?f \<notin> fst ` set files" using Cons.prems(2) by simp
  have s: "index_of ?s = ix" "map_of (st_generations ?s) (staging_name g)
      = Some (Plain (files @ [(?f, Plain (Segment (fst (nat_create native ?vs))))]))"
    using Cons.prems(3,4) new by (simp_all add: index_simps staged_lookup update_new update_last)
  have "fst c \<notin> fst ` set cs" using Cons.prems(1) by simp
  then have "fst c' \<noteq> fst c" if "c' \<in> set cs" for c' using that by (metis imageI)
  then have names: "\<forall>c'\<in>set cs. fst c' @ ''.bin'' \<notin> fst ` set (files @ [(?f, Plain (Segment (fst (nat_create native ?vs))))])"
    using Cons.prems(2) by auto
  have rec: "runs ?s (stage_columns native v g r cs)
    (\<lambda>metadata s. index_of s = ix \<and> metadata = staged_metadata native cs
       \<and> map_of (st_generations s) (staging_name g) =
           Some (Plain ((files @ [(?f, Plain (Segment (fst (nat_create native ?vs))))]) @ staged_files native cs)))
    (\<lambda>_ s. index_of s = ix) (\<lambda>s. index_of s = ix)" for r
    by (rule Cons.IH [OF _ names s]) (use Cons.prems(1) in simp)
  have tail: "runs ?s (pbind (stage_columns native v g (Some (length ?vs)) cs)
      (\<lambda>rest. preturn ((fst c, column_metadata (fst c) (snd (nat_create native ?vs))) # rest)))
    (\<lambda>metadata s. index_of s = ix \<and> metadata = staged_metadata native (c # cs)
       \<and> map_of (st_generations s) (staging_name g) = Some (Plain (files @ staged_files native (c # cs))))
    (\<lambda>_ s. index_of s = ix) (\<lambda>s. index_of s = ix)"
    by (rule runs_bind [OF rec]) (auto simp: staged_files_def staged_metadata_def simp del: prog_simps intro!: runs_return)
  have verified: "runs ?s (if v then reads_res (verify_column native g (fst c) ?vs) else preturn ()) (\<lambda>_ s. s = ?s)
    (\<lambda>_ s. index_of s = ix) (\<lambda>s. index_of s = ix)"
    by (auto simp: s(1) simp del: prog_simps intro: runs_reads_res runs_return)
  have rest: "runs ?s (pbind (if v then reads_res (verify_column native g (fst c) ?vs) else preturn ()) (\<lambda>_.
      pbind (stage_columns native v g (Some (length ?vs)) cs)
      (\<lambda>rest. preturn ((fst c, column_metadata (fst c) (snd (nat_create native ?vs))) # rest))))
    (\<lambda>metadata s. index_of s = ix \<and> metadata = staged_metadata native (c # cs)
       \<and> map_of (st_generations s) (staging_name g) = Some (Plain (files @ staged_files native (c # cs))))
    (\<lambda>_ s. index_of s = ix) (\<lambda>s. index_of s = ix)"
    by (rule runs_bind [OF verified]) (simp only: tail)
  show ?case
    unfolding stage_columns.simps Let_def
    by (intro run_rules rest) (simp_all add: Cons.prems(3) index_simps)
qed

section \<open>The atomic steps of a publication\<close>

definition publication_dir :: "native \<Rightarrow> env \<Rightarrow> string \<Rightarrow> (string \<times> nd_array) list \<Rightarrow> node_identity option \<Rightarrow> generation_dir" where
  "publication_dir native env node_key columns identity = (let cols = sort_key fst columns in
     staged_files native cols
       @ [(''manifest.json'', Plain (Doc (manifest_document env node_key (staged_metadata native cols) identity)))])"

definition add_generation :: "string \<Rightarrow> generation_dir \<Rightarrow> index \<Rightarrow> index" where
  "add_generation g dir ix = ix\<lparr>ix_generations := (ix_generations ix)(g := Some (Plain dir))\<rparr>"

definition set_current :: "string \<Rightarrow> index \<Rightarrow> index" where
  "set_current g ix = ix\<lparr>ix_current := Some (Plain (pointer_text g))\<rparr>"

definition set_node :: "string \<Rightarrow> string \<Rightarrow> index \<Rightarrow> index" where
  "set_node k g ix = ix\<lparr>ix_nodes := (ix_nodes ix)(k := Some (Plain (pointer_text g)))\<rparr>"

text \<open>The index before the publication and behind each of its steps, the last one complete.\<close>

definition publication_states :: "index \<Rightarrow> string \<Rightarrow> string \<Rightarrow> generation_dir \<Rightarrow> bool \<Rightarrow> index list" where
  "publication_states ix g k dir identified =
     [ix, add_generation g dir ix, set_current g (add_generation g dir ix)]
     @ (if identified then [set_node k g (set_current g (add_generation g dir ix))] else [])"

lemma publication_states_members:
  "ix \<in> set (publication_states ix g k dir b)" "add_generation g dir ix \<in> set (publication_states ix g k dir b)"
  "set_current g (add_generation g dir ix) \<in> set (publication_states ix g k dir b)"
  "b \<Longrightarrow> set_node k g (set_current g (add_generation g dir ix)) \<in> set (publication_states ix g k dir b)"
  by (simp_all add: publication_states_def)

lemma manifest_not_column [simp]: "nm @ ''.bin'' \<noteq> ''manifest.json''" "''manifest.json'' \<noteq> nm @ ''.bin''"
  by (auto dest: arg_cong [of _ _ rev])

lemma staged_files_keys: "fst ` set (staged_files native cols) = (\<lambda>c. fst c @ ''.bin'') ` set cols"
  by (force simp: staged_files_def)

lemma pointer_lookup:
  "map_of (st_pointers (put_pointer g c st)) (current_staging g) = Some (Plain c)"
  "map_of (entries (st_nodes (put_node k c st))) k = Some (Plain c)"
  by (simp_all add: put_pointer_def put_node_def)

lemma runs_record_node_access:
  assumes "index_of t = ix"
  shows "runs t (record_node_access env k g m) (\<lambda>_ s. index_of s = ix) (\<lambda>_ s. index_of s = ix) (\<lambda>s. index_of s = ix)"
proof -
  have "runs t (case count of None \<Rightarrow> preturn ()
      | Some n \<Rightarrow> ignoring_os_error (io (put_access k (access_record k g (ev_now env) (n + 1)) (ev_now env))))
    (\<lambda>_ s. index_of s = ix) (\<lambda>_ s. index_of s = ix) (\<lambda>s. index_of s = ix)" for count
    using assms by (cases count; simp only: option.case)
      ((intro runs_return runs_ignoring_os_error runs_io; simp add: index_simps)+)
  then show ?thesis unfolding record_node_access_def by (intro runs_bind_reads)
qed

lemma runs_index_node:
  assumes "hex_name 64 k" "index_of t = ix"
  shows "runs t (index_node env k) (\<lambda>_ s. index_of s = set_node k (ev_generation env) ix)
    (\<lambda>_ s. index_of s \<in> {ix, set_node k (ev_generation env) ix}) (\<lambda>s. index_of s \<in> {ix, set_node k (ev_generation env) ix})"
proof -
  let ?g = "ev_generation env"
  let ?s = "put_node (node_staging k ?g) (pointer_text ?g) (put_node (node_staging k ?g) Torn (make_nodes t))"
  have "index_of (replace_node k ?g ?s) = set_node k ?g ix"
    using assms by (simp add: index_replace_node [OF pointer_lookup(2)] index_simps set_node_def)
  then show ?thesis
    unfolding index_node_def Let_def
    by (intro run_rules runs_conseq [OF runs_record_node_access]) (auto simp: index_simps assms(2))
qed

lemma runs_publish_staged:
  assumes "hex_name 32 (ev_generation env)" "hex_name 64 k" "distinct (map fst columns)"
    and "index_of t = ix" and "map_of (st_generations t) (staging_name (ev_generation env)) = Some (Plain [])"
    and states: "states = publication_states ix (ev_generation env) k (publication_dir native env k columns identity) (identity \<noteq> None)"
  shows "runs t (publish_staged native env k columns identity v)
    (\<lambda>x s. x = ev_generation env \<and> index_of s = last states)
    (\<lambda>_ s. index_of s \<in> set states) (\<lambda>s. index_of s \<in> set states)"
proof -
  let ?g = "ev_generation env" and ?cols = "sort_key fst columns"
  let ?dir = "publication_dir native env k columns identity"
  let ?doc = "manifest_document env k (staged_metadata native ?cols) identity"
  have cols: "distinct (map fst ?cols)"
    using assms(3) by (simp add: distinct_map inj_on_def)
  have staged: "runs t (stage_columns native v ?g None ?cols)
    (\<lambda>metadata s. index_of s = ix \<and> metadata = staged_metadata native ?cols
       \<and> map_of (st_generations s) (staging_name ?g) = Some (Plain (staged_files native ?cols)))
    (\<lambda>_ s. index_of s \<in> set states) (\<lambda>s. index_of s \<in> set states)"
    by (rule runs_conseq [OF runs_stage_columns [where files = "[]", OF cols _ assms(4,5)]])
      (auto simp: states publication_states_members)
  show ?thesis
    unfolding publish_staged_def Let_def
  proof (rule runs_bind [OF staged])
    fix metadata s
    assume after: "index_of s = ix \<and> metadata = staged_metadata native ?cols
       \<and> map_of (st_generations s) (staging_name ?g) = Some (Plain (staged_files native ?cols))"
    let ?u = "put_staged ?g ''manifest.json'' (Doc ?doc) (put_staged ?g ''manifest.json'' Torn s)"
    have s: "index_of s = ix" "metadata = staged_metadata native ?cols"
        "map_of (st_generations s) (staging_name ?g) = Some (Plain (staged_files native ?cols))"
      using after by simp_all
    have "''manifest.json'' \<notin> fst ` set (staged_files native ?cols)" by (auto simp: staged_files_keys)
    then have "map_of (st_generations ?u) (staging_name ?g) = Some (Plain ?dir)"
      using s(3) by (simp add: staged_lookup update_new update_last publication_dir_def Let_def)
    then have renamed: "index_of (rename_staging ?g ?u) = add_generation ?g ?dir ix"
      using assms(1) s(1) by (simp add: index_rename index_simps add_generation_def)
    let ?w = "put_pointer ?g (pointer_text ?g) (put_pointer ?g Torn (rename_staging ?g ?u))"
    have current: "index_of (replace_current ?g ?w) = set_current ?g (add_generation ?g ?dir ix)"
      using renamed by (simp add: index_replace_current [OF pointer_lookup(1)] index_simps set_current_def)
    have finish: "runs (replace_current ?g ?w) (pbind (if identity = None then preturn () else index_node env k) (\<lambda>_. preturn ?g))
      (\<lambda>x s. x = ?g \<and> index_of s = last states) (\<lambda>_ s. index_of s \<in> set states) (\<lambda>s. index_of s \<in> set states)"
    proof (cases "identity = None")
      case True
      then have "last states = set_current ?g (add_generation ?g ?dir ix)" by (simp add: states publication_states_def)
      then have "index_of (replace_current ?g ?w) = last states" by (simp only: current)
      then show ?thesis by (subst if_P [OF True]) (intro run_rules conjI refl)
    next
      case False
      show ?thesis
        by (simp only: if_False False)
          (rule runs_bind [OF runs_conseq [OF runs_index_node [OF assms(2) current]]];
           auto simp: states False publication_states_def simp del: prog_simps intro!: runs_return)
    qed
    show "runs s
        (pbind (io (put_staged ?g ''manifest.json'' Torn)) (\<lambda>_.
         pbind (io (put_staged ?g ''manifest.json'' (Doc (manifest_document env k metadata identity)))) (\<lambda>_.
         pbind (io (rename_staging ?g)) (\<lambda>_.
         pbind (io (put_pointer ?g Torn)) (\<lambda>_.
         pbind (io (put_pointer ?g (pointer_text ?g))) (\<lambda>_.
         pbind (io (replace_current ?g)) (\<lambda>_.
         pbind (if identity = None then preturn () else index_node env k) (\<lambda>_. preturn ?g))))))))
        (\<lambda>x s. x = ?g \<and> index_of s = last states) (\<lambda>_ s. index_of s \<in> set states) (\<lambda>s. index_of s \<in> set states)"
      unfolding s(2)
      by (intro run_rules finish) (simp_all add: states s(1) index_simps renamed current publication_states_members)
  qed
qed

section \<open>Publishing\<close>

lemma runs_publish_new:
  assumes "hex_name 32 (ev_generation env)" "hex_name 64 k" "distinct (map fst columns)" "index_of t = ix"
    and states: "states = publication_states ix (ev_generation env) k (publication_dir native env k columns identity) (identity \<noteq> None)"
  shows "runs t (publish_new native env k columns identity v)
    (\<lambda>x s. x = ev_generation env \<and> index_of s = last states)
    (\<lambda>_ s. index_of s \<in> set states) (\<lambda>s. index_of s \<in> set states)"
  unfolding publish_new_def Let_def
  by (intro run_rules runs_on_exception [OF runs_publish_staged [OF assms(1-3) _ _ states]])
    (auto simp: states assms(4) index_simps staged_lookup publication_states_members)

lemma lease_put: "map_of (lease_files (put_lease g nm c s) g) nm = Some (Plain c)"
  by (simp add: lease_files_def put_lease_def)

lemma runs_open_and_lease:
  "runs t (open_and_lease native digest env g expected req)
    (\<lambda>lease s. index_of s = index_of t \<and> l_generation lease = g \<and> \<not> l_closed lease
       \<and> check_generation native digest (map_of (st_generations t)) g expected req
           = Inr (l_node_key lease, l_identity lease, l_columns lease)
       \<and> map_of (lease_files s g) (ev_lease_name env) = Some (Plain (Doc (lease_document env g))))
    (\<lambda>_ s. index_of s = index_of t) (\<lambda>s. index_of s = index_of t)"
proof -
  have rest: "runs t (case x of (node_key, identity, opened) \<Rightarrow>
      pbind (reads_res (\<lambda>st. require (map_of (st_leases st) g \<notin> {Some Symlink, Some Irregular}) (OSError ''File exists''))) (\<lambda>_.
      pbind (io (make_lease_dir g)) (\<lambda>_.
      pbind (io (put_lease g (ev_lease_name env) Torn)) (\<lambda>_.
      pbind (io (put_lease g (ev_lease_name env) (Doc (lease_document env g)))) (\<lambda>_.
      preturn \<lparr>l_generation = g, l_node_key = node_key, l_identity = identity, l_columns = opened,
        l_name = ev_lease_name env, l_closed = False\<rparr>)))))
    (\<lambda>lease s. index_of s = index_of t \<and> l_generation lease = g \<and> \<not> l_closed lease
       \<and> x = (l_node_key lease, l_identity lease, l_columns lease)
       \<and> map_of (lease_files s g) (ev_lease_name env) = Some (Plain (Doc (lease_document env g))))
    (\<lambda>_ s. index_of s = index_of t) (\<lambda>s. index_of s = index_of t)" for x
    by (cases x; simp only: prod.case) (intro run_rules; simp add: index_simps lease_put)
  show ?thesis
    unfolding open_and_lease_def
    by (intro run_rules runs_conseq [OF rest]) auto
qed

lemma runs_lease_close:
  "runs t (lease_close lease) (\<lambda>l s. index_of s = index_of t \<and> l_closed l) (\<lambda>_ s. index_of s = index_of t) (\<lambda>s. index_of s = index_of t)"
  unfolding lease_close_def
  by (cases "l_closed lease"; simp only: if_True if_False) (intro run_rules; simp add: index_simps)+

lemma runs_reuse:
  "runs t (pbind (open_and_lease native digest env g (Some k) True) (\<lambda>lease.
     pbind (record_node_access env k g m) (\<lambda>_. pbind (lease_close lease) (\<lambda>_. preturn g))))
    (\<lambda>x s. x = g \<and> index_of s = index_of t) (\<lambda>_ s. index_of s = index_of t) (\<lambda>s. index_of s = index_of t)"
proof (rule runs_bind [OF runs_conseq [OF runs_open_and_lease]])
  fix lease s
  assume s: "index_of s = index_of t"
  show "runs s (pbind (record_node_access env k g m) (\<lambda>_. pbind (lease_close lease) (\<lambda>_. preturn g)))
    (\<lambda>x s. x = g \<and> index_of s = index_of t) (\<lambda>_ s. index_of s = index_of t) (\<lambda>s. index_of s = index_of t)"
    by (rule runs_bind [OF runs_record_node_access [OF s]], rule runs_bind [OF runs_conseq [OF runs_lease_close]])
      (auto simp del: prog_simps intro!: runs_return)
qed auto

lemma runs_publish_generation:
  assumes "hex_name 32 (ev_generation env)" "distinct (map fst columns)" "index_of t = ix"
    and states: "states = publication_states ix (ev_generation env) k (publication_dir native env k columns identity) (identity \<noteq> None)"
  shows "runs t (publish_generation native digest env k columns identity replace_generation v)
    (\<lambda>x s. publish_checks digest k columns identity = Inr () \<and>
       (x = ev_generation env \<and> index_of s = last states
        \<or> index_of s = ix \<and> identity \<noteq> None \<and> read_node_pointer t k True = Inr (Some x)))
    (\<lambda>_ s. index_of s = ix \<or> publish_checks digest k columns identity = Inr () \<and> index_of s \<in> set states)
    (\<lambda>s. index_of s = ix \<or> publish_checks digest k columns identity = Inr () \<and> index_of s \<in> set states)"
    (is "runs t _ ?Q ?E ?C")
proof -
  have body: "runs t (case (indexed, replace_generation) of
       (Some g, None) \<Rightarrow>
         pbind (open_and_lease native digest env g (Some k) True) (\<lambda>lease.
         pbind (record_node_access env k g (Fin 60000000000)) (\<lambda>_.
         pbind (lease_close lease) (\<lambda>_. preturn g)))
     | _ \<Rightarrow> publish_new native env k columns identity v) ?Q ?E ?C"
    if "publish_checks digest k columns identity = Inr ()"
      and "indexed \<noteq> None \<longrightarrow> identity \<noteq> None \<and> read_node_pointer t k True = Inr indexed" for indexed
  proof -
    have hex: "hex_name 64 k" using that(1) by (simp add: publish_checks_def)
    have new: "runs t (publish_new native env k columns identity v) ?Q ?E ?C"
      by (rule runs_conseq [OF runs_publish_new [OF assms(1) hex assms(2,3) states]]) (use that(1) in auto)
    show ?thesis
    proof (cases "indexed = None \<or> replace_generation \<noteq> None")
      case True
      then show ?thesis using new by (auto split: option.splits)
    next
      case False
      then obtain g where g: "indexed = Some g" "replace_generation = None" by auto
      show ?thesis
        unfolding g prod.case option.case
        by (rule runs_conseq [OF runs_reuse]) (use that g assms(3) in auto)
    qed
  qed
  have indexing: "runs t (if identity = None then preturn None else reads_res (\<lambda>st. read_node_pointer st k True))
    (\<lambda>indexed s. s = t \<and> (indexed \<noteq> None \<longrightarrow> identity \<noteq> None \<and> read_node_pointer t k True = Inr indexed)) ?E ?C"
    using assms(3) by (auto simp del: prog_simps intro: runs_return runs_reads_res)
  show ?thesis
    unfolding publish_generation_def
    by (intro run_rules runs_bind [OF indexing]) (use body assms(3) in auto)
qed

text \<open>A replacement never reuses the cached generation.\<close>

lemma runs_publish_replacement:
  assumes "hex_name 32 (ev_generation env)" "distinct (map fst columns)"
    and states: "states = publication_states (index_of t) (ev_generation env) k (publication_dir native env k columns (Some ident)) True"
  shows "runs t (publish_generation native digest env k columns (Some ident) (Some old) v)
    (\<lambda>x s. publish_checks digest k columns (Some ident) = Inr () \<and> x = ev_generation env \<and> index_of s = last states)
    (\<lambda>_ s. index_of s = index_of t \<or> publish_checks digest k columns (Some ident) = Inr () \<and> index_of s \<in> set states)
    (\<lambda>s. index_of s = index_of t \<or> publish_checks digest k columns (Some ident) = Inr () \<and> index_of s \<in> set states)"
    (is "runs t _ ?Q ?E ?C")
proof -
  have new: "runs t (publish_new native env k columns (Some ident) v) ?Q ?E ?C" if checks: "publish_checks digest k columns (Some ident) = Inr ()"
  proof -
    have hex: "hex_name 64 k" using checks by (simp add: publish_checks_def)
    show ?thesis
      by (rule runs_conseq [OF runs_publish_new [OF assms(1) hex assms(2) refl, of states t native "Some ident"]])
        (use checks states in auto)
  qed
  have body: "runs t (case (indexed, Some old) of
       (Some g, None) \<Rightarrow>
         pbind (open_and_lease native digest env g (Some k) True) (\<lambda>lease.
         pbind (record_node_access env k g (Fin 60000000000)) (\<lambda>_.
         pbind (lease_close lease) (\<lambda>_. preturn g)))
     | _ \<Rightarrow> publish_new native env k columns (Some ident) v) ?Q ?E ?C"
    if "publish_checks digest k columns (Some ident) = Inr ()" for indexed
    using new [OF that] by (cases indexed) simp_all
  show ?thesis
    unfolding publish_generation_def
    by (intro run_rules) (use body in \<open>auto simp del: prog_simps intro!: runs_bind_reads_res\<close>)
qed

section \<open>What a published generation opens to\<close>

definition native_law :: "native \<Rightarrow> bool" where
  "native_law native = (\<forall>vs. 8 * length vs < 2 ^ 64 \<longrightarrow>
     nat_open native (fst (nat_create native vs)) = Inr (snd (nat_create native vs)) \<and> col_values (snd (nat_create native vs)) = vs)"

definition identity_valid :: "node_identity \<Rightarrow> bool" where
  "identity_valid ident = (sorted_json (identity_snapshot ident) = identity_snapshot ident \<and> identity_snapshot ident \<noteq> JNull
     \<and> (\<exists>copy. identity_from_snapshot (identity_snapshot ident) = Inr copy \<and> identity_snapshot copy = identity_snapshot ident))"

lemma identity_valid_init:
  assumes "identity_init transform version schema row_order parents inputs parameters context = Inr ident" "\<forall>c\<in>set schema. column_wf c"
  shows "identity_valid ident"
proof -
  have "identity_snapshot ident \<noteq> JNull"
    using assms(1) unfolding identity_init_Inr by (auto simp: identity_snapshot_def simp del: canonicalize.simps)
  then show ?thesis
    using identity_reads_back [OF assms, of "\<lambda>_. []"] identity_payload_sorted [OF assms(1)] unfolding identity_valid_def by blast
qed

lemma read_column_wf:
  assumes "read_column j = Inr c"
  shows "column_wf c"
proof -
  from assms obtain d where d: "j = JObj d" by (cases j; simp only: read_column_def json.case sum.distinct)
  have "\<exists>nm dtype nullable. column_schema_init nm dtype nullable = Inr c"
    using assms unfolding d read_column_def json.case
    apply (simp only: sum.distinct split: if_split_asm)
    apply (cases "item_get d ''name''"; simp only: prod.case json.case sum.distinct)
    apply (cases "item_get d ''dtype''"; simp only: prod.case json.case sum.distinct)
    apply (cases "item_get d ''nullable''"; simp only: prod.case json.case sum.distinct)
    apply blast
    done
  then show ?thesis by (auto simp: column_schema_init_def column_wf_def split: if_split_asm)
qed

lemma identity_from_snapshot_Inr:
  assumes "identity_from_snapshot v = Inr ident"
  shows "\<exists>transform version schema columns row_order parents inputs parameters ctx. res_map read_column schema = Inr columns
    \<and> identity_init transform version columns row_order parents inputs parameters ctx = Inr ident"
  using assms unfolding identity_from_snapshot_def
  apply (cases v; simp only: json.case sum.distinct)
  apply (simp only: sum.distinct split: if_split_asm)
  apply (cases "item_get (the (json_dict v)) ''transform''"; simp only: json.case sum.distinct json_dict.simps option.sel)
  apply (simp only: sum.distinct split: if_split_asm)
  apply (elim rbindE, simp only: split_beta)
  apply (elim rbindE, simp only: split_beta)
  apply (elim rbindE)
  apply (intro exI conjI, assumption, assumption)
  done

lemma identity_valid_read:
  assumes "identity_from_snapshot v = Inr ident"
  shows "identity_valid ident"
proof -
  from identity_from_snapshot_Inr [OF assms] obtain transform version schema columns row_order parents inputs parameters ctx
    where columns: "res_map read_column schema = Inr columns"
      and init: "identity_init transform version columns row_order parents inputs parameters ctx = Inr ident"
    by (elim exE conjE)
  have "list_all2 (\<lambda>j c. read_column j = Inr c) schema columns" using columns by (simp add: res_map_Inr_conv)
  then have "\<forall>c\<in>set columns. column_wf c" by (blast dest: list_all2_source read_column_wf)
  with init show "identity_valid ident" by (rule identity_valid_init)
qed

lemma sorted_column_metadata:
  "sorted_json (column_metadata nm c) = JObj [(''checksum'', JInt (int (col_checksum c))), (''file'', JStr (nm @ ''.bin'')),
     (''rows'', JInt (int (col_rows c))), (''segment_version'', JInt (int (col_version c)))]"
  by (simp add: column_metadata_def)

lemma sorted_staged_metadata:
  "sorted (map fst cols) \<Longrightarrow> sorted_json (JObj (staged_metadata native cols))
     = JObj (map (\<lambda>(nm, m). (nm, sorted_json m)) (staged_metadata native cols))"
  by (simp add: staged_metadata_def sort_key_id_if_sorted comp_def)

lemma sorted_manifest:
  fixes env k metadata identity
  defines "m \<equiv> manifest_document env k metadata identity"
  shows "\<exists>d. m = JObj d \<and> item_get d ''format'' = JStr FORMAT \<and> item_get d ''version'' = JInt store_VERSION
    \<and> item_get d ''generation'' = JStr (ev_generation env) \<and> item_get d ''node_key'' = JStr k
    \<and> item_get d ''created_ns'' = JInt (ev_now env)
    \<and> item_get d ''columns'' = sorted_json (JObj metadata)
    \<and> item_get d ''identity'' = (case identity of None \<Rightarrow> JNull | Some ident \<Rightarrow> sorted_json (identity_snapshot ident))"
  by (cases identity) (simp_all add: m_def manifest_document_def item_get_def)

definition sound_columns :: "(string \<times> nd_array) list \<Rightarrow> bool" where
  "sound_columns columns = (columns \<noteq> [] \<and> distinct (map fst columns)
     \<and> (\<forall>c\<in>set columns. portable_name (fst c) \<and> 8 * length (arr_values (snd c)) < 2 ^ 64))"

definition published_columns :: "native \<Rightarrow> (string \<times> nd_array) list \<Rightarrow> (string \<times> column) list" where
  "published_columns native columns = map (\<lambda>c. (fst c, snd (nat_create native (arr_values (snd c))))) (sort_key fst columns)"

lemma staged_file_lookup:
  assumes "distinct (map fst cols)" "c \<in> set cols"
  shows "map_of (staged_files native cols @ rest) (fst c @ ''.bin'') = Some (Plain (Segment (fst (nat_create native (arr_values (snd c))))))"
proof -
  have "distinct (map fst (staged_files native cols))"
    using assms(1) by (auto simp: staged_files_def distinct_map inj_on_def)
  moreover have "(fst c @ ''.bin'', Plain (Segment (fst (nat_create native (arr_values (snd c)))))) \<in> set (staged_files native cols)"
    using assms(2) by (force simp: staged_files_def)
  ultimately show ?thesis by (simp add: map_add_def)
qed

lemma open_published_column:
  assumes "native_law native" "sound_columns columns" "c \<in> set columns" "distinct (map fst cols)" "c \<in> set cols"
  shows "open_column native (staged_files native cols @ rest) (fst c)
      (sorted_json (column_metadata (fst c) (snd (nat_create native (arr_values (snd c))))))
    = Inr (fst c, snd (nat_create native (arr_values (snd c))))"
  using assms by (simp add: sorted_column_metadata open_column_def sound_columns_def staged_file_lookup open_file_def
      native_law_def item_get_def del: map_of_append)

lemma check_publication:
  assumes law: "native_law native" and sound: "sound_columns columns" and k: "hex_name 64 k"
    and g: "generations g = Some (Plain (publication_dir native env k columns identity))" "ev_generation env = g"
    and ident: "\<forall>ident. identity = Some ident \<longrightarrow> identity_valid ident \<and> identity_node_key digest ident = k"
    and expected: "expected = None \<or> expected = Some k" and req: "req \<longrightarrow> identity \<noteq> None"
  shows "\<exists>copy. check_generation native digest generations g expected req = Inr (k, copy, published_columns native columns)
    \<and> map_option identity_snapshot copy = map_option identity_snapshot identity"
proof -
  let ?cols = "sort_key fst columns"
  have cols: "distinct (map fst ?cols)" "sorted (map fst ?cols)" "?cols \<noteq> []"
    using sound length_sort [of fst columns] by (auto simp: sound_columns_def distinct_map inj_on_def simp del: length_sort)
  obtain d where d: "manifest_document env k (staged_metadata native ?cols) identity = JObj d"
      "item_get d ''format'' = JStr FORMAT" "item_get d ''version'' = JInt store_VERSION"
      "item_get d ''generation'' = JStr g" "item_get d ''node_key'' = JStr k"
      "item_get d ''columns'' = sorted_json (JObj (staged_metadata native ?cols))"
      "item_get d ''identity'' = (case identity of None \<Rightarrow> JNull | Some ident \<Rightarrow> sorted_json (identity_snapshot ident))"
    using sorted_manifest [of env k "staged_metadata native ?cols" identity] g(2) by auto
  let ?files = "publication_dir native env k columns identity"
  have "map_of (staged_files native ?cols) ''manifest.json'' = None"
    by (auto simp: map_of_eq_None_iff staged_files_keys)
  then have manifest: "map_of ?files ''manifest.json'' = Some (Plain (Doc (JObj d)))"
    using d(1) by (simp add: publication_dir_def Let_def map_add_def)
  have read: "\<exists>copy. read_identity digest k req (item_get d ''identity'') = Inr copy
      \<and> map_option identity_snapshot copy = map_option identity_snapshot identity"
  proof (cases identity)
    case None
    then show ?thesis using req by (simp add: d(7) read_identity_def)
  next
    case (Some ident)
    then obtain copy where "identity_from_snapshot (identity_snapshot ident) = Inr copy" "identity_snapshot copy = identity_snapshot ident"
        "sorted_json (identity_snapshot ident) = identity_snapshot ident" "identity_snapshot ident \<noteq> JNull"
      using ident by (auto simp: identity_valid_def)
    moreover have "identity_node_key digest copy = k" if "identity_snapshot copy = identity_snapshot ident" for copy
      using that ident Some by (simp add: identity_node_key_def identity_snapshot_def)
    ultimately show ?thesis by (simp add: d(7) Some read_identity_def)
  qed
  then obtain copy where copy: "read_identity digest k req (item_get d ''identity'') = Inr copy"
      "map_option identity_snapshot copy = map_option identity_snapshot identity" by blast
  define metadata where "metadata = map (\<lambda>(nm, m). (nm, sorted_json m)) (staged_metadata native ?cols)"
  have columns: "item_get d ''columns'' = JObj metadata" "metadata \<noteq> []"
    by (simp only: d(6) sorted_staged_metadata [OF cols(2)] metadata_def) (simp add: metadata_def staged_metadata_def cols(3))
  have opened: "res_map (\<lambda>(nm, m). open_column native ?files nm m) metadata = Inr (published_columns native columns)"
  proof -
    have "metadata = map (\<lambda>c. (fst c, sorted_json (column_metadata (fst c) (snd (nat_create native (arr_values (snd c))))))) ?cols"
      by (simp add: metadata_def staged_metadata_def)
    then show ?thesis
      using open_published_column [OF law sound _ cols(1)]
      by (simp add: published_columns_def publication_dir_def Let_def res_map_Inr_conv list_all2_map1 list_all2_map2 list_all2_same)
  qed
  obtain m ms where m: "metadata = m # ms" using columns(2) by (cases metadata) auto
  have "check_generation native digest generations g expected req = Inr (k, copy, published_columns native columns)"
    using expected k d(1-5)
    by (auto simp: check_generation_def Let_def g(1) dir_files_def manifest copy(1) columns(1) m opened [unfolded m]
        manifest_node_key_def simp del: res_map.simps)
  then show ?thesis using copy(2) by blast
qed

section \<open>Soundness of the index\<close>

definition opens :: "native \<Rightarrow> (json \<Rightarrow> string) \<Rightarrow> index \<Rightarrow> string \<Rightarrow> string option \<Rightarrow> bool \<Rightarrow> bool" where
  "opens native digest ix g expected req = (\<not> isl (check_generation native digest (ix_generations ix) g expected req))"

text \<open>\<open>CURRENT\<close> and every node pointer name a generation that passes the strict checks of opening it.\<close>

definition index_ok :: "native \<Rightarrow> (json \<Rightarrow> string) \<Rightarrow> index \<Rightarrow> bool" where
  "index_ok native digest ix =
     ((\<forall>e. ix_current ix = Some e \<longrightarrow> (\<exists>g. hex_name 32 g \<and> e = Plain (pointer_text g) \<and> opens native digest ix g None False))
      \<and> (\<forall>k e. ix_nodes ix k = Some e \<longrightarrow>
           (\<exists>g. hex_name 32 g \<and> hex_name 64 k \<and> e = Plain (pointer_text g) \<and> opens native digest ix g (Some k) True)))"

lemma check_missing: "generations g = None \<Longrightarrow> \<exists>e. check_generation native digest generations g expected req = Inl e"
  by (simp add: check_generation_def Let_def dir_files_def)

lemma check_local:
  "generations g = generations' g \<Longrightarrow>
     check_generation native digest generations g expected req = check_generation native digest generations' g expected req"
  by (simp add: check_generation_def Let_def)

lemma check_added:
  assumes "check_generation native digest generations g expected req = Inr x" "generations g0 = None"
  shows "check_generation native digest (generations(g0 := Some d)) g expected req = Inr x"
proof -
  have "g \<noteq> g0" using assms check_missing [of generations g0 native digest expected req] by auto
  then show ?thesis using assms(1) check_local [of "generations(g0 := Some d)" g generations] by simp
qed

lemma publication_states_generations:
  assumes "ix' \<in> set (publication_states ix g k dir b)"
  shows "ix_generations ix' = ix_generations ix \<or> ix_generations ix' = (ix_generations ix)(g := Some (Plain dir))"
  using assms by (auto simp: publication_states_def add_generation_def set_current_def set_node_def split: if_splits)

lemma opens_published:
  assumes "native_law native" "sound_columns columns" "hex_name 64 k"
    and "\<forall>ident. identity = Some ident \<longrightarrow> identity_valid ident \<and> identity_node_key digest ident = k"
    and "ix_generations ix (ev_generation env) = Some (Plain (publication_dir native env k columns identity))"
  shows "opens native digest ix (ev_generation env) None False"
    and "identity \<noteq> None \<Longrightarrow> opens native digest ix (ev_generation env) (Some k) True"
  using check_publication [where generations = "ix_generations ix" and native = native, OF assms(1-3,5) refl assms(4), of None False]
    check_publication [where generations = "ix_generations ix" and native = native, OF assms(1-3,5) refl assms(4), of "Some k" True]
  by (auto simp: opens_def)

lemma index_ok_states:
  assumes pub: "native_law native" "sound_columns columns" "hex_name 64 k"
      "\<forall>ident. identity = Some ident \<longrightarrow> identity_valid ident \<and> identity_node_key digest ident = k"
    and g: "hex_name 32 (ev_generation env)" "ix_generations ix (ev_generation env) = None"
    and ok: "index_ok native digest ix"
    and ix': "ix' \<in> set (publication_states ix (ev_generation env) k (publication_dir native env k columns identity) (identity \<noteq> None))"
  shows "index_ok native digest ix'"
proof -
  let ?g = "ev_generation env" and ?dir = "publication_dir native env k columns identity"
  have keep: "opens native digest iy h expected req"
    if "opens native digest ix h expected req" "ix_generations iy = (ix_generations ix)(?g := Some (Plain ?dir))" for iy h expected req
    using that check_added [where generations = "ix_generations ix" and g = h, OF _ g(2)]
    by (cases "check_generation native digest (ix_generations ix) h expected req") (auto simp: opens_def)
  have ok_with: "index_ok native digest iy"
    if gens: "ix_generations iy = (ix_generations ix)(?g := Some (Plain ?dir))"
      and current: "ix_current iy = ix_current ix \<or> ix_current iy = Some (Plain (pointer_text ?g))"
      and nodes: "\<forall>j. ix_nodes iy j = ix_nodes ix j \<or> identity \<noteq> None \<and> j = k \<and> ix_nodes iy j = Some (Plain (pointer_text ?g))" for iy
  proof -
    have "ix_generations iy ?g = Some (Plain ?dir)" using gens by simp
    note new = opens_published [OF pub this]
    have cur: "\<exists>h. hex_name 32 h \<and> e = Plain (pointer_text h) \<and> opens native digest iy h None False" if c: "ix_current iy = Some e" for e
      using ok current c keep [OF _ gens] new(1) g(1) unfolding index_ok_def by (metis option.inject)
    have node: "\<exists>h. hex_name 32 h \<and> hex_name 64 j \<and> e = Plain (pointer_text h) \<and> opens native digest iy h (Some j) True"
      if n: "ix_nodes iy j = Some e" for j e
      using ok nodes n keep [OF _ gens] new(2) g(1) pub(3) unfolding index_ok_def by (metis option.inject)
    show ?thesis unfolding index_ok_def using cur node by blast
  qed
  show ?thesis
    using ix' ok ok_with [of "add_generation ?g ?dir ix"] ok_with [of "set_current ?g (add_generation ?g ?dir ix)"]
      ok_with [of "set_node k ?g (set_current ?g (add_generation ?g ?dir ix))"]
    by (auto simp: publication_states_def add_generation_def set_current_def set_node_def split: if_splits)
qed

section \<open>Properties\<close>

lemma publication_outcome:
  assumes "live w" "publish_generation native digest env k columns identity replace_generation v w = (r, w')"
    and "hex_name 32 (ev_generation env)" "distinct (map fst columns)"
  shows "(index_of (w_store w') = index_of (w_store w) \<or> publish_checks digest k columns identity = Inr ()
        \<and> index_of (w_store w') \<in> set (publication_states (index_of (w_store w)) (ev_generation env) k
          (publication_dir native env k columns identity) (identity \<noteq> None)))
      \<and> (\<forall>x. r = Inr x \<longrightarrow> x = ev_generation env \<and> index_of (w_store w') = last (publication_states (index_of (w_store w))
            (ev_generation env) k (publication_dir native env k columns identity) (identity \<noteq> None))
          \<or> index_of (w_store w') = index_of (w_store w) \<and> identity \<noteq> None \<and> read_node_pointer (w_store w) k True = Inr (Some x))
      \<and> (\<forall>x. r = Inr x \<longrightarrow> publish_checks digest k columns identity = Inr ())"
proof (cases r)
  case (Inl e)
  then show ?thesis
    using runs_Inl [OF runs_publish_generation [OF assms(3,4) refl refl] assms(1) refl, of native digest k identity replace_generation v e w'] assms(2)
    by auto
next
  case (Inr x)
  then have "publish_checks digest k columns identity = Inr () \<and>
       (x = ev_generation env \<and> index_of (w_store w') = last (publication_states (index_of (w_store w))
            (ev_generation env) k (publication_dir native env k columns identity) (identity \<noteq> None))
        \<or> index_of (w_store w') = index_of (w_store w) \<and> identity \<noteq> None \<and> read_node_pointer (w_store w) k True = Inr (Some x))"
    using runs_Inr [OF runs_publish_generation [OF assms(3,4) refl refl] assms(1) refl, of native digest k identity replace_generation v x w'] assms(2)
    by simp
  moreover have "last (publication_states ix g k dir b) \<in> set (publication_states ix g k dir b)" for ix g dir b
    by (simp add: publication_states_def)
  ultimately show ?thesis using Inr by (metis sum.inject(2))
qed

text \<open>
  Claim C16. A publication refines three atomic updates of the index (add the finished generation, move
  \<open>CURRENT\<close>, move the node pointer): whichever write fails or is the last before a crash, the index is the
  old one or the one behind an update, and when the call returns it is the one behind all of them, unless
  the node was already cached and the cached generation is returned.
\<close>

theorem publication_refines_updates:
  assumes "live w" and "publish_generation native digest env k columns identity replace_generation v w = (r, w')"
    and "hex_name 32 (ev_generation env)" and "distinct (map fst columns)"
  shows "index_of (w_store w') \<in> set (publication_states (index_of (w_store w)) (ev_generation env) k
          (publication_dir native env k columns identity) (identity \<noteq> None))
      \<and> (\<forall>x. r = Inr x \<longrightarrow> x = ev_generation env \<and> index_of (w_store w') = last (publication_states (index_of (w_store w))
            (ev_generation env) k (publication_dir native env k columns identity) (identity \<noteq> None))
          \<or> index_of (w_store w') = index_of (w_store w) \<and> identity \<noteq> None \<and> read_node_pointer (w_store w) k True = Inr (Some x))"
  using publication_outcome [OF assms] by (auto simp: publication_states_members)

lemma publish_checks_identity:
  "publish_checks digest k columns identity = Inr () \<Longrightarrow> identity = Some ident \<Longrightarrow> identity_node_key digest ident = k"
  by (auto simp: publish_checks_def)

text \<open>
  Claim C14. Crash safety: a publication that is interrupted anywhere, by an exception or by a crash, leaves
  a store whose \<open>CURRENT\<close> and node pointers all name generations that open, if they did so before; every
  generation that opened before opens to the same columns; no other node's pointer moves.
\<close>

theorem publication_crash_safe:
  assumes "live w" and "publish_generation native digest env k columns identity replace_generation v w = (r, w')"
    and "hex_name 32 (ev_generation env)" and "ix_generations (index_of (w_store w)) (ev_generation env) = None"
    and "native_law native" and "sound_columns columns" and "\<forall>ident. identity = Some ident \<longrightarrow> identity_valid ident"
    and "index_ok native digest (index_of (w_store w))"
  shows "index_ok native digest (index_of (w_store w'))
    \<and> (\<forall>g expected req x. check_generation native digest (ix_generations (index_of (w_store w))) g expected req = Inr x
        \<longrightarrow> check_generation native digest (ix_generations (index_of (w_store w'))) g expected req = Inr x)
    \<and> (\<forall>j. j \<noteq> k \<longrightarrow> ix_nodes (index_of (w_store w')) j = ix_nodes (index_of (w_store w)) j)"
proof -
  have distinct: "distinct (map fst columns)" using assms(6) by (simp add: sound_columns_def)
  show ?thesis
  proof (cases "index_of (w_store w') = index_of (w_store w)")
    case True
    then show ?thesis using assms(8) by simp
  next
    case False
    then have checks: "publish_checks digest k columns identity = Inr ()"
      and states: "index_of (w_store w') \<in> set (publication_states (index_of (w_store w)) (ev_generation env) k
          (publication_dir native env k columns identity) (identity \<noteq> None))"
      using publication_outcome [OF assms(1-3) distinct] by auto
    have k: "hex_name 64 k" using checks by (simp add: publish_checks_def)
    have "index_ok native digest (index_of (w_store w'))"
      by (rule index_ok_states [OF assms(5,6) k _ assms(3,4,8) states]) (use assms(7) publish_checks_identity [OF checks] in blast)
    moreover have "check_generation native digest (ix_generations (index_of (w_store w'))) g expected req = Inr x"
      if "check_generation native digest (ix_generations (index_of (w_store w))) g expected req = Inr x" for g expected req x
      using publication_states_generations [OF states] check_added [OF that assms(4)] that by metis
    moreover have "ix_nodes (index_of (w_store w')) j = ix_nodes (index_of (w_store w)) j" if "j \<noteq> k" for j
      using states that by (auto simp: publication_states_def add_generation_def set_current_def set_node_def split: if_splits)
    ultimately show ?thesis by blast
  qed
qed

subsection \<open>Runs without faults\<close>

lemma io_no_fault: "w_faults w = NoFault \<Longrightarrow> io f w = (Inr (), w\<lparr>w_store := f (w_store w)\<rparr>)"
  by (simp add: io_def)

lemma record_node_access_no_fault:
  assumes "w_faults w = NoFault"
  shows "\<exists>s. record_node_access env k g m w = (Inr (), w\<lparr>w_store := s\<rparr>) \<and> index_of s = index_of (w_store w)
    \<and> st_leases s = st_leases (w_store w)"
proof -
  let ?count = "if st_access (w_store w) = Linked \<or> map_of (entries (st_access (w_store w))) (json_name k) = Some Irregular then None
       else access_count_before (w_store w) k g (ev_now env) m"
  have "record_node_access env k g m w = (Inr (), w\<lparr>w_store := (case ?count of None \<Rightarrow> w_store w
      | Some n \<Rightarrow> put_access k (access_record k g (ev_now env) (n + 1)) (ev_now env) (w_store w))\<rparr>)"
    using assms by (cases ?count) (simp_all add: record_node_access_def pbind_def reads_def ignoring_os_error_def io_no_fault)
  moreover have "st_leases (put_access k v n t) = st_leases t" for v n t by (simp add: put_access_def)
  ultimately show ?thesis
    by (intro exI conjI) (assumption, simp_all add: index_simps split: option.splits)
qed

lemma open_and_lease_no_fault:
  assumes "w_faults w = NoFault" "map_of (st_leases (w_store w)) g \<notin> {Some Symlink, Some Irregular}"
    and "check_generation native digest (map_of (st_generations (w_store w))) g expected req = Inr (k, copy, opened)"
  shows "\<exists>s. open_and_lease native digest env g expected req w = (Inr \<lparr>l_generation = g, l_node_key = k, l_identity = copy,
      l_columns = opened, l_name = ev_lease_name env, l_closed = False\<rparr>, w\<lparr>w_store := s\<rparr>)
    \<and> index_of s = index_of (w_store w) \<and> map_of (lease_files s g) (ev_lease_name env) = Some (Plain (Doc (lease_document env g)))"
proof -
  let ?s = "put_lease g (ev_lease_name env) (Doc (lease_document env g)) (put_lease g (ev_lease_name env) Torn (make_lease_dir g (w_store w)))"
  have "open_and_lease native digest env g expected req w = (Inr \<lparr>l_generation = g, l_node_key = k, l_identity = copy,
      l_columns = opened, l_name = ev_lease_name env, l_closed = False\<rparr>, w\<lparr>w_store := ?s\<rparr>)"
    using assms by (simp add: open_and_lease_def pbind_def reads_res_def io_no_fault)
  then show ?thesis by (intro exI conjI) (assumption, simp_all add: index_simps lease_put)
qed

lemma node_pointer_of_index:
  assumes "hex_name 64 k" "hex_name 32 g" "ix_nodes (index_of st) k = Some (Plain (pointer_text g))"
  shows "require_node_pointer st k = Inr g"
  using assms by (simp add: require_node_pointer_def read_node_pointer_def index_of_def pointer_text_def str_strip_hex)

lemma check_of_index:
  "hex_name 32 g \<Longrightarrow> check_generation native digest (map_of (st_generations st)) g expected req
     = check_generation native digest (ix_generations (index_of st)) g expected req"
  by (rule check_local) (simp add: index_of_def)

lemma open_by_key_no_fault:
  assumes "w_faults w = NoFault" "hex_name 64 k" "hex_name 32 g" "is_finite interval" "f_le (Fin 0) interval"
    and "map_of (st_leases (w_store w)) g \<notin> {Some Symlink, Some Irregular}"
    and "ix_nodes (index_of (w_store w)) k = Some (Plain (pointer_text g))"
    and "check_generation native digest (ix_generations (index_of (w_store w))) g (Some k) True = Inr (k, copy, opened)"
  shows "\<exists>s. open_generation_by_node_key native digest env k interval w = (Inr \<lparr>l_generation = g, l_node_key = k, l_identity = copy,
      l_columns = opened, l_name = ev_lease_name env, l_closed = False\<rparr>, w\<lparr>w_store := s\<rparr>)
    \<and> index_of s = index_of (w_store w) \<and> map_of (lease_files s g) (ev_lease_name env) = Some (Plain (Doc (lease_document env g)))"
proof -
  obtain s where s: "open_and_lease native digest env g (Some k) True w = (Inr \<lparr>l_generation = g, l_node_key = k, l_identity = copy,
      l_columns = opened, l_name = ev_lease_name env, l_closed = False\<rparr>, w\<lparr>w_store := s\<rparr>)" "index_of s = index_of (w_store w)"
      "map_of (lease_files s g) (ev_lease_name env) = Some (Plain (Doc (lease_document env g)))"
    using open_and_lease_no_fault [OF assms(1,6), of native digest "Some k" True k copy opened env] assms(8)
    by (auto simp: check_of_index [OF assms(3)])
  obtain u where "record_node_access env k g (f_mul interval (Fin 1000000000)) (w\<lparr>w_store := s\<rparr>) = (Inr (), w\<lparr>w_store := u\<rparr>)"
      "index_of u = index_of s" "st_leases u = st_leases s"
    using record_node_access_no_fault [of "w\<lparr>w_store := s\<rparr>" env k g] assms(1) by fastforce
  moreover from this(3) have "lease_files u g = lease_files s g" by (simp add: lease_files_def)
  ultimately show ?thesis
    using assms(4,5) s node_pointer_of_index [OF assms(2,3,7)]
    by (intro exI [of _ u]) (simp add: open_generation_by_node_key_def pbind_def reads_res_def)
qed

locale mapped_columns =
  fixes native :: native
  assumes law: "native_law native"
begin

lemma open_created: "8 * length vs < 2 ^ 64 \<Longrightarrow> nat_open native (fst (nat_create native vs)) = Inr (snd (nat_create native vs))"
  using law by (simp add: native_law_def)

lemma published_value:
  assumes "sound_columns columns" "c \<in> set columns"
  shows "\<exists>col. map_of (published_columns native columns) (fst c) = Some col \<and> col_values col = arr_values (snd c)"
proof -
  have "distinct (map fst (published_columns native columns))"
    using assms(1) by (auto simp: published_columns_def sound_columns_def distinct_map inj_on_def)
  moreover have "(fst c, snd (nat_create native (arr_values (snd c)))) \<in> set (published_columns native columns)"
    using assms(2) by (force simp: published_columns_def)
  ultimately show ?thesis using law assms by (auto simp: native_law_def sound_columns_def)
qed

end

text \<open>The column class over the reference form of a segment: an instance of the law.\<close>

definition reference_column :: "f8 list \<Rightarrow> column" where
  "reference_column vs = \<lparr>col_values = vs, col_rows = length vs, col_checksum = unat (checksum (f8_bytes vs)), col_version = VERSION\<rparr>"

definition reference_native :: native where
  "reference_native = \<lparr>nat_create = (\<lambda>vs. (last (write_images vs), reference_column vs)),
     nat_open = (\<lambda>bytes. rbind (read_reference_float64 bytes) (\<lambda>vs. Inr (reference_column vs)))\<rparr>"

lemma reference_native_law: "native_law reference_native"
  using read_header_page [of _ COMMITTED "replicate 4048 0"]
  by (simp add: native_law_def reference_native_def reference_column_def committed_image COMMITTED_def)

interpretation reference: mapped_columns reference_native
  by unfold_locales (rule reference_native_law)

subsection \<open>Publishing without faults\<close>

definition frame_equal :: "store \<Rightarrow> store \<Rightarrow> bool" where
  "frame_equal s t = (st_leases s = st_leases t \<and> st_nodes s = st_nodes t \<and> st_access s = st_access t)"

lemma frame_equal_staging [simp]:
  "frame_equal (put_staged g f c s) t = frame_equal s t" "frame_equal (make_staging g s) t = frame_equal s t"
  "frame_equal (put_pointer g c s) t = frame_equal s t" "frame_equal (replace_current g s) t = frame_equal s t"
  "frame_equal (rename_staging g s) t = frame_equal s t" "frame_equal t t"
  by (simp_all add: frame_equal_def put_staged_def make_staging_def put_pointer_def replace_current_def rename_staging_def
      split: option.splits)

definition uniform_columns :: "(string \<times> nd_array) list \<Rightarrow> nat \<Rightarrow> bool" where
  "uniform_columns columns n = (\<forall>c\<in>set columns. arr_ndim (snd c) = 1 \<and> length (arr_values (snd c)) = n)"

lemma stage_columns_no_fault:
  assumes "w_faults w = NoFault" "uniform_columns cols n" "rows = None \<or> rows = Some n"
  shows "\<exists>s. stage_columns native False g rows cols w = (Inr (staged_metadata native cols), w\<lparr>w_store := s\<rparr>)
    \<and> frame_equal s (w_store w)"
  using assms
proof (induction cols arbitrary: w rows)
  case Nil
  then show ?case by (intro exI [of _ "w_store w"]) (simp add: staged_metadata_def)
next
  case (Cons c cs)
  let ?s = "put_staged g (fst c @ ''.bin'') (Segment (fst (nat_create native (arr_values (snd c)))))
    (put_staged g (fst c @ ''.bin'') Torn (w_store w))"
  have c: "arr_ndim (snd c) = 1" "length (arr_values (snd c)) = n" and cs: "uniform_columns cs n"
    using Cons.prems(2) by (simp_all add: uniform_columns_def)
  obtain s where "stage_columns native False g (Some n) cs (w\<lparr>w_store := ?s\<rparr>) = (Inr (staged_metadata native cs), w\<lparr>w_store := s\<rparr>)"
      "frame_equal s ?s"
    using Cons.IH [of "w\<lparr>w_store := ?s\<rparr>" "Some n"] Cons.prems(1) cs by auto
  then have "stage_columns native False g rows (c # cs) w = (Inr (staged_metadata native (c # cs)), w\<lparr>w_store := s\<rparr>)"
    using Cons.prems(1,3) c by (auto simp: Let_def pbind_def io_no_fault staged_metadata_def)
  moreover have "frame_equal ?s (w_store w)" by simp
  ultimately show ?case using \<open>frame_equal s ?s\<close> unfolding frame_equal_def by (intro exI [of _ s]) simp
qed

lemma index_node_no_fault:
  assumes "w_faults w = NoFault" "st_nodes (w_store w) \<noteq> Linked"
  shows "\<exists>s. index_node env k w = (Inr (), w\<lparr>w_store := s\<rparr>) \<and> st_leases s = st_leases (w_store w)"
proof -
  let ?g = "ev_generation env"
  let ?s = "replace_node k ?g (put_node (node_staging k ?g) (pointer_text ?g) (put_node (node_staging k ?g) Torn (make_nodes (w_store w))))"
  have leases: "st_leases ?s = st_leases (w_store w)"
    by (simp add: replace_node_def put_node_def make_nodes_def split: option.splits)
  obtain u where "record_node_access env k ?g (Fin 0) (w\<lparr>w_store := ?s\<rparr>) = (Inr (), w\<lparr>w_store := u\<rparr>)" "st_leases u = st_leases ?s"
    using record_node_access_no_fault [of "w\<lparr>w_store := ?s\<rparr>" env k ?g "Fin 0"] assms(1) by auto
  then show ?thesis
    using assms leases by (intro exI [of _ u]) (simp add: index_node_def Let_def pbind_def reads_res_def io_no_fault)
qed

lemma publish_staged_no_fault:
  assumes "w_faults w = NoFault" "st_nodes (w_store w) \<noteq> Linked" "uniform_columns columns n"
  shows "\<exists>s. publish_staged native env k columns (Some ident) False w = (Inr (ev_generation env), w\<lparr>w_store := s\<rparr>)
    \<and> st_leases s = st_leases (w_store w)"
proof -
  let ?g = "ev_generation env" and ?cols = "sort_key fst columns"
  let ?doc = "Doc (manifest_document env k (staged_metadata native ?cols) (Some ident))"
  obtain s where s: "stage_columns native False ?g None ?cols w = (Inr (staged_metadata native ?cols), w\<lparr>w_store := s\<rparr>)"
      "frame_equal s (w_store w)"
    using stage_columns_no_fault [OF assms(1), of ?cols n None native ?g] assms(3) by (auto simp: uniform_columns_def)
  let ?t = "replace_current ?g (put_pointer ?g (pointer_text ?g) (put_pointer ?g Torn (rename_staging ?g
    (put_staged ?g ''manifest.json'' ?doc (put_staged ?g ''manifest.json'' Torn s)))))"
  have t: "frame_equal ?t (w_store w)" using s(2) by simp
  obtain u where "index_node env k (w\<lparr>w_store := ?t\<rparr>) = (Inr (), w\<lparr>w_store := u\<rparr>)" "st_leases u = st_leases ?t"
    using index_node_no_fault [of "w\<lparr>w_store := ?t\<rparr>" env k] assms(1,2) t by (auto simp: frame_equal_def)
  then show ?thesis
    using t assms(1) by (intro exI [of _ u]) (simp add: publish_staged_def Let_def pbind_def s(1) io_no_fault frame_equal_def)
qed

lemma publish_no_fault:
  assumes "w_faults w = NoFault" "st_nodes (w_store w) \<noteq> Linked" "uniform_columns columns n"
    and "map_of (st_generations (w_store w)) (staging_name (ev_generation env)) = None"
    and "publish_checks digest k columns (Some ident) = Inr ()" "read_node_pointer (w_store w) k True = Inr None"
  shows "\<exists>s. publish_generation native digest env k columns (Some ident) None False w = (Inr (ev_generation env), w\<lparr>w_store := s\<rparr>)
    \<and> st_leases s = st_leases (w_store w)"
proof -
  let ?s = "make_staging (ev_generation env) (w_store w)"
  obtain s where "publish_staged native env k columns (Some ident) False (w\<lparr>w_store := ?s\<rparr>) = (Inr (ev_generation env), w\<lparr>w_store := s\<rparr>)"
      "st_leases s = st_leases ?s"
    using publish_staged_no_fault [of "w\<lparr>w_store := ?s\<rparr>" columns n native env k ident] assms(1-3) by (auto simp: make_staging_def)
  then show ?thesis
    using assms
    by (intro exI [of _ s]) (simp add: publish_generation_def publish_new_def Let_def pbind_def reads_res_def io_no_fault
        check_replacement_def on_exception_def make_staging_def)
qed

text \<open>
  Publishing under an uncached node key returns, and what was published opens under that key: the lease holds
  exactly the published columns, each with its values bit for bit, in the generation the publication returned,
  and its lease file is on disk; opening moves nothing in the index.
\<close>

lemma published_opens:
  assumes "w_faults w = NoFault" and "st_nodes (w_store w) \<noteq> Linked" and "st_generations (w_store w) = gens"
    and "map_of gens (staging_name (ev_generation env)) = None" and "hex_name 32 (ev_generation env)"
    and "map_of (st_leases (w_store w)) (ev_generation env) = None" and "read_node_pointer (w_store w) k True = Inr None"
    and "native_law native" and "sound_columns columns" and "uniform_columns columns n"
    and "identity_valid ident" and "identity_node_key digest ident = k" and "hex_name 64 k"
    and "is_finite interval" and "f_le (Fin 0) interval"
  shows "\<exists>w' lease w''. publish_generation native digest env k columns (Some ident) None False w = (Inr (ev_generation env), w')
    \<and> open_generation_by_node_key native digest reader k interval w' = (Inr lease, w'')
    \<and> l_generation lease = ev_generation env \<and> map_option identity_snapshot (l_identity lease) = Some (identity_snapshot ident)
    \<and> map fst (l_columns lease) = map fst (sort_key fst columns)
    \<and> (\<forall>c\<in>set columns. \<exists>col. lease_getitem lease (fst c) = Inr col \<and> col_values col = arr_values (snd c))
    \<and> map_of (lease_files (w_store w'') (ev_generation env)) (ev_lease_name reader)
        = Some (Plain (Doc (lease_document reader (ev_generation env))))
    \<and> index_of (w_store w'') = index_of (w_store w')"
proof -
  let ?g = "ev_generation env"
  have distinct: "distinct (map fst columns)" using assms(9) by (simp add: sound_columns_def)
  have checks: "publish_checks digest k columns (Some ident) = Inr ()"
    using assms(9,12,13) by (simp add: publish_checks_def sound_columns_def)
  obtain s where pub: "publish_generation native digest env k columns (Some ident) None False w = (Inr ?g, w\<lparr>w_store := s\<rparr>)"
      and leases: "st_leases s = st_leases (w_store w)"
    using publish_no_fault [OF assms(1,2,10) _ checks assms(7)] assms(3,4) by blast
  have "live w" using assms(1) by (simp add: live_def)
  from publication_outcome [OF this pub assms(5) distinct]
  have index: "index_of s = set_node k ?g (set_current ?g (add_generation ?g
        (publication_dir native env k columns (Some ident)) (index_of (w_store w))))"
    using assms(7) by (auto simp: publication_states_def)
  have found: "ix_generations (index_of s) ?g = Some (Plain (publication_dir native env k columns (Some ident)))"
      "ix_nodes (index_of s) k = Some (Plain (pointer_text ?g))"
    by (simp_all add: index set_node_def set_current_def add_generation_def)
  obtain copy where check: "check_generation native digest (ix_generations (index_of s)) ?g (Some k) True
      = Inr (k, copy, published_columns native columns)"
    and copy: "map_option identity_snapshot copy = Some (identity_snapshot ident)"
    using check_publication [where native = native and generations = "ix_generations (index_of s)" and expected = "Some k"
        and req = True, OF assms(8,9,13) found(1) refl, of digest] assms(11,12) by auto
  define lease where "lease = \<lparr>l_generation = ?g, l_node_key = k, l_identity = copy, l_columns = published_columns native columns,
    l_name = ev_lease_name reader, l_closed = False\<rparr>"
  obtain u where "open_generation_by_node_key native digest reader k interval (w\<lparr>w_store := s\<rparr>) = (Inr lease, w\<lparr>w_store := u\<rparr>)"
      "index_of u = index_of s"
      "map_of (lease_files u ?g) (ev_lease_name reader) = Some (Plain (Doc (lease_document reader ?g)))"
    using open_by_key_no_fault [where w = "w\<lparr>w_store := s\<rparr>" and native = native and digest = digest and env = reader,
        OF _ assms(13,5,14,15) _ _ ] assms(1,6) leases found(2) check by (auto simp: lease_def)
  moreover have "\<forall>c\<in>set columns. \<exists>col. lease_getitem lease (fst c) = Inr col \<and> col_values col = arr_values (snd c)"
    using mapped_columns.published_value [OF mapped_columns.intro [OF assms(8)] assms(9)] by (fastforce simp: lease_def lease_getitem_def)
  ultimately show ?thesis
    using pub by (intro exI [of _ "w\<lparr>w_store := s\<rparr>"] exI [of _ lease] exI [of _ "w\<lparr>w_store := u\<rparr>"])
      (simp add: lease_def copy published_columns_def)
qed

subsection \<open>Instances\<close>

definition example_env :: env where
  "example_env = \<lparr>ev_now = 7, ev_generation = replicate 32 CHR ''a'', ev_lease_name = ''1-x.json'', ev_pid = 1, ev_host = ''h''\<rparr>"

definition example_columns :: "(string \<times> nd_array) list" where
  "example_columns = [(''factor'', \<lparr>arr_ndim = 1, arr_values = [4607182418800017408]\<rparr>)]"

definition example_digest :: "json \<Rightarrow> string" where
  "example_digest j = replicate 64 CHR ''b''"

definition example_key :: string where
  "example_key = replicate 64 CHR ''b''"

definition example_ident :: node_identity where
  "example_ident = projr example_identity"

definition example_publish :: "fault \<Rightarrow> string res \<times> world" where
  "example_publish faults = publish_generation reference_native example_digest example_env example_key example_columns
     (Some example_ident) None False \<lparr>w_store = empty_store, w_faults = faults\<rparr>"

lemma portable_letters: "list_all is_letter s \<Longrightarrow> s \<noteq> [] \<Longrightarrow> length s \<le> 128 \<Longrightarrow> portable_name s"
  by (cases s) (auto simp: portable_name_def list_all_iff)

lemma example_facts:
  "hex_name 32 (ev_generation example_env)" "hex_name 64 example_key" "sound_columns example_columns" "identity_valid example_ident"
proof -
  show "hex_name 32 (ev_generation example_env)" "hex_name 64 example_key"
    by (auto simp: hex_name_def example_env_def example_key_def lower_hex_def less_eq_char_def list_all_iff)
  have "portable_name ''factor''" by (rule portable_letters) (auto simp: is_letter_def less_eq_char_def)
  then show "sound_columns example_columns" by (simp add: sound_columns_def example_columns_def)
  have "column_wf \<lparr>cs_name = ''factor'', cs_dtype = ''float64'', cs_nullable = False\<rparr>"
    using \<open>portable_name ''factor''\<close> by (simp add: column_wf_def)
  then show "identity_valid example_ident"
    unfolding example_ident_def example_identity_def
    by (intro identity_valid_init [OF example_identity_ok [unfolded example_identity_def]]) simp
qed

theorem publication_refines_updates_witness:
  "index_of (w_store (snd (example_publish (CrashAfter 5)))) \<in> set (publication_states (index_of empty_store)
     (ev_generation example_env) example_key
     (publication_dir reference_native example_env example_key example_columns (Some example_ident)) True)"
proof -
  have "distinct (map fst example_columns)" by (simp add: example_columns_def)
  then show ?thesis
    using publication_refines_updates [where w = "\<lparr>w_store = empty_store, w_faults = CrashAfter 5\<rparr>" and native = reference_native
        and digest = example_digest and k = example_key and identity = "Some example_ident" and replace_generation = None and v = False
        and columns = example_columns, OF _ prod.collapse [symmetric] example_facts(1), THEN conjunct1]
    by (simp add: live_def example_publish_def)
qed

theorem publication_crash_safe_witness:
  "index_ok reference_native example_digest (index_of (w_store (snd (example_publish (CrashAfter 5)))))"
proof -
  have "index_ok reference_native example_digest (index_of empty_store)"
    by (simp add: index_ok_def index_of_def empty_store_def)
  then show ?thesis
    using publication_crash_safe [of "\<lparr>w_store = empty_store, w_faults = CrashAfter 5\<rparr>", OF _ prod.collapse [symmetric] example_facts(1)
        _ reference_native_law example_facts(3), of "Some example_ident" example_digest example_key None False] example_facts(4)
    by (simp add: live_def example_publish_def) (simp add: index_of_def empty_store_def)
qed

lemma published_opens_instance:
  "\<exists>w' lease w'' col. example_publish NoFault = (Inr (ev_generation example_env), w')
     \<and> open_generation_by_node_key reference_native example_digest example_env example_key (Fin 60) w' = (Inr lease, w'')
     \<and> lease_getitem lease ''factor'' = Inr col \<and> col_values col = [4607182418800017408]"
proof -
  let ?w = "\<lparr>w_store = empty_store, w_faults = NoFault\<rparr>"
  have pointer: "read_node_pointer (w_store ?w) example_key True = Inr None"
    by (simp add: read_node_pointer_def example_facts(2)) (simp add: empty_store_def)
  have store: "st_nodes (w_store ?w) \<noteq> Linked" "map_of (st_generations (w_store ?w)) (staging_name (ev_generation example_env)) = None"
      "map_of (st_leases (w_store ?w)) (ev_generation example_env) = None" "w_faults ?w = NoFault"
    by (simp_all add: empty_store_def)
  have columns: "uniform_columns example_columns 1" by (simp add: uniform_columns_def example_columns_def)
  have key: "identity_node_key example_digest example_ident = example_key"
    by (simp add: identity_node_key_def example_digest_def example_key_def)
  have interval: "is_finite (Fin 60)" "f_le (Fin 0) (Fin 60)" by (simp_all add: is_finite_def f_le_def f_eq_def)
  from published_opens [OF store(4,1) refl store(2) example_facts(1) store(3) pointer reference_native_law example_facts(3)
      columns example_facts(4) key example_facts(2) interval, of example_env]
  obtain w' lease w'' where *: "example_publish NoFault = (Inr (ev_generation example_env), w')"
      "open_generation_by_node_key reference_native example_digest example_env example_key (Fin 60) w' = (Inr lease, w'')"
      "\<forall>c\<in>set example_columns. \<exists>col. lease_getitem lease (fst c) = Inr col \<and> col_values col = arr_values (snd c)"
    unfolding example_publish_def by blast
  from *(3) obtain col where "lease_getitem lease ''factor'' = Inr col" "col_values col = [4607182418800017408]"
    by (auto simp: example_columns_def)
  with * show ?thesis by blast
qed

end
