(* ===== verification/Factor_Collect.thy ===== *)
theory Factor_Collect
  imports Factor_Publication
begin

text \<open>
  Reclaiming space in a factor store (\<open>collect_garbage\<close> and \<open>evict_factor_nodes\<close> of \<open>factor_store.py\<close>).
  Deleting a directory tree is one write per file and one for the directory, so a fault can leave it
  half deleted. What the operating system answers to a signal sent to a process is a parameter.
\<close>

section \<open>Leases\<close>

datatype kill_result = Delivered | NoSuchProcess | NotPermitted | KillError exn

definition local_process_is_dead :: "(int \<Rightarrow> kill_result) \<Rightarrow> int \<Rightarrow> bool res" where
  "local_process_is_dead kill pid = (case kill pid of
      NoSuchProcess \<Rightarrow> Inr True
    | NotPermitted \<Rightarrow> Inr False
    | KillError (ValueError _) \<Rightarrow> Inr False
    | KillError e \<Rightarrow> Inl e
    | Delivered \<Rightarrow> Inr False)"

text \<open>\<open>int(text)\<close>: surrounding blanks, a sign, digits with single underscores between them.\<close>

fun digits_value :: "int \<Rightarrow> bool \<Rightarrow> string \<Rightarrow> int option" where
  "digits_value n after_digit [] = (if after_digit then Some n else None)"
| "digits_value n after_digit (c # cs) =
     (if is_digit c then digits_value (10 * n + int (of_char c - 48)) True cs
      else if c = CHR ''_'' \<and> after_digit then digits_value n False cs else None)"

definition text_int :: "string \<Rightarrow> int option" where
  "text_int s = (case str_strip s of
      [] \<Rightarrow> None
    | c # cs \<Rightarrow>
        if c = CHR ''-'' then map_option uminus (digits_value 0 False cs)
        else if c = CHR ''+'' then digits_value 0 False cs
        else digits_value 0 False (c # cs))"

text \<open>\<open>int(value)\<close> of a JSON value.\<close>

fun json_to_int :: "json \<Rightarrow> int res" where
  "json_to_int (JInt n) = Inr n"
| "json_to_int (JBool b) = Inr (if b then 1 else 0)"
| "json_to_int (JFloat (Fin x)) = Inr (if 0 \<le> x then \<lfloor>x\<rfloor> else \<lceil>x\<rceil>)"
| "json_to_int (JFloat NaN) = Inl (ValueError ''cannot convert float NaN to integer'')"
| "json_to_int (JFloat _) = Inl (OverflowError ''cannot convert float infinity to integer'')"
| "json_to_int (JStr s) = (case text_int s of None \<Rightarrow> Inl (ValueError ''invalid literal for int()'') | Some n \<Rightarrow> Inr n)"
| "json_to_int _ = Inl (TypeError ''int() argument'')"

text \<open>\<open>a / 1_000_000_000\<close> of Python integers.\<close>

definition seconds_of_ns :: "int \<Rightarrow> float64 res" where
  "seconds_of_ns a = (case rnd64 (of_int a / 1000000000) of
      Fin x \<Rightarrow> Inr (Fin x)
    | _ \<Rightarrow> Inl (OverflowError ''integer division result too large for a float''))"

definition lease_is_stale :: "(int \<Rightarrow> kill_result) \<Rightarrow> string \<Rightarrow> int \<Rightarrow> float64 \<Rightarrow> content entry \<Rightarrow> bool res" where
  "lease_is_stale kill host now_ns stale_lease_seconds e =
     rbind (read_json (Some e)) (\<lambda>j. case j of
       JObj metadata \<Rightarrow>
         rbind (item_of metadata ''created_ns'') (\<lambda>created.
         rbind (json_to_int created) (\<lambda>created_ns.
         rbind (seconds_of_ns (now_ns - created_ns)) (\<lambda>age_seconds.
         rbind (item_of metadata ''host'') (\<lambda>lease_host.
         rbind (if lease_host = JStr host
           then rbind (item_of metadata ''pid'') (\<lambda>p. rbind (json_to_int p) (local_process_is_dead kill)) else Inr False) (\<lambda>local_dead.
         Inr (f_le stale_lease_seconds age_seconds \<and> local_dead))))))
     | _ \<Rightarrow> Inl (TypeError ''indices''))"

text \<open>The judgement of the loop: an unreadable lease survives; what is not caught goes on.\<close>

definition lease_removable :: "(int \<Rightarrow> kill_result) \<Rightarrow> string \<Rightarrow> int \<Rightarrow> float64 \<Rightarrow> content entry \<Rightarrow> bool res" where
  "lease_removable kill host now_ns stale_lease_seconds e = (case lease_is_stale kill host now_ns stale_lease_seconds e of
      Inl (OSError _) \<Rightarrow> Inr False
    | Inl (ValueError _) \<Rightarrow> Inr False
    | Inl (KeyError _) \<Rightarrow> Inr False
    | Inl (TypeError _) \<Rightarrow> Inr False
    | r \<Rightarrow> r)"

section \<open>Collection\<close>

record collect_args =
  ca_now :: int
  ca_host :: string
  ca_kill :: "int \<Rightarrow> kill_result"
  ca_stale :: float64
  ca_retention :: float64
  ca_dry_run :: bool

record collect_report =
  cr_generations :: "string list"
  cr_leases :: "(string \<times> string) list"
  cr_staging :: "string list"
  cr_pointers :: "string list"
  cr_node_staging :: "string list"
  cr_metadata :: "(string \<times> string) list"

definition unless_dry :: "bool \<Rightarrow> (world, unit) prog \<Rightarrow> (world, unit) prog" where
  "unless_dry dry m = (if dry then preturn () else m)"

definition unlink_node :: "string \<Rightarrow> store \<Rightarrow> store" where
  "unlink_node nm st = (case st_nodes st of Folder d \<Rightarrow> st\<lparr>st_nodes := Folder (AList.delete nm d)\<rparr> | _ \<Rightarrow> st)"

definition unlink_generation_file :: "string \<Rightarrow> string \<Rightarrow> store \<Rightarrow> store" where
  "unlink_generation_file g f st = (case map_of (st_generations st) g of
      Some (Plain d) \<Rightarrow> st\<lparr>st_generations := dict_set g (Plain (AList.delete f d)) (st_generations st)\<rparr>
    | _ \<Rightarrow> st)"

definition remove_generation_dir :: "string \<Rightarrow> store \<Rightarrow> store" where
  "remove_generation_dir g st = st\<lparr>st_generations := AList.delete g (st_generations st)\<rparr>"

definition remove_lease_dir :: "string \<Rightarrow> store \<Rightarrow> store" where
  "remove_lease_dir g st = st\<lparr>st_leases := AList.delete g (st_leases st)\<rparr>"

definition unlink_pointer :: "string \<Rightarrow> store \<Rightarrow> store" where
  "unlink_pointer nm st = st\<lparr>st_pointers := AList.delete nm (st_pointers st)\<rparr>"

definition unlink_access :: "string \<Rightarrow> store \<Rightarrow> store" where
  "unlink_access nm st = (case st_access st of Folder d \<Rightarrow> st\<lparr>st_access := Folder (AList.delete nm d)\<rparr> | _ \<Rightarrow> st)"

definition unlink_admission :: "string \<Rightarrow> store \<Rightarrow> store" where
  "unlink_admission nm st = (case st_admission st of Folder d \<Rightarrow> st\<lparr>st_admission := Folder (AList.delete nm d)\<rparr> | _ \<Rightarrow> st)"

text \<open>\<open>shutil.rmtree\<close> of a directory under \<open>generations\<close>.\<close>

definition rmtree :: "string \<Rightarrow> (world, unit) prog" where
  "rmtree g = pbind (reads (\<lambda>st. map fst (dir_files (map_of (st_generations st) g)))) (\<lambda>files.
     pbind (pforeach (\<lambda>f. io (unlink_generation_file g f)) files) (\<lambda>_. io (remove_generation_dir g)))"

text \<open>The index: its keys, the generations they name, the names of removed staging files.\<close>

primrec scan_nodes :: "bool \<Rightarrow> (string \<times> content entry) list \<Rightarrow> (world, string list \<times> string list \<times> string list) prog" where
  "scan_nodes dry [] = preturn ([], [], [])"
| "scan_nodes dry (p # ps) =
     (if dotted (fst p) then
        (if is_plain (Some (snd p)) then
           pbind (unless_dry dry (io (unlink_node (fst p)))) (\<lambda>_.
           pbind (scan_nodes dry ps) (\<lambda>(keys, generations, removed). preturn (keys, generations, fst p # removed)))
         else scan_nodes dry ps)
      else
        pbind (plift (require (hex_name 64 (fst p)) (FactorStoreError ''factor node index contains an invalid key''))) (\<lambda>_.
        pbind (reads_res (\<lambda>st. require_node_pointer st (fst p))) (\<lambda>g.
        pbind (reads_res (\<lambda>st. require (is_plain (map_of (st_generations st) g))
          (FactorStoreError ''factor node index references a missing generation''))) (\<lambda>_.
        pbind (scan_nodes dry ps) (\<lambda>(keys, generations, removed). preturn (fst p # keys, g # generations, removed))))))"

primrec scan_leases :: "collect_args \<Rightarrow> string \<Rightarrow> (string \<times> content entry) list \<Rightarrow> (world, nat \<times> (string \<times> string) list) prog" where
  "scan_leases args g [] = preturn (0, [])"
| "scan_leases args g (l # ls) =
     pbind (plift (lease_removable (ca_kill args) (ca_host args) (ca_now args) (ca_stale args) (snd l))) (\<lambda>removable.
     if removable then
       pbind (unless_dry (ca_dry_run args) (io (unlink_lease g (fst l)))) (\<lambda>_.
       pbind (scan_leases args g ls) (\<lambda>(surviving, removed). preturn (surviving, (g, fst l) # removed)))
     else pbind (scan_leases args g ls) (\<lambda>(surviving, removed). preturn (Suc surviving, removed)))"

definition generation_leases :: "collect_args \<Rightarrow> string \<Rightarrow> (world, bool \<times> (string \<times> string) list) prog" where
  "generation_leases args g = pbind (reads (\<lambda>st. map_of (st_leases st) g)) (\<lambda>directory. case directory of
      Some Symlink \<Rightarrow> preturn (True, [])
    | Some (Plain ls) \<Rightarrow> pbind (scan_leases args g ls) (\<lambda>(surviving, removed). preturn (0 < surviving, removed))
    | _ \<Rightarrow> preturn (False, []))"

definition is_staging :: "string \<Rightarrow> bool" where
  "is_staging nm = (take 9 nm = ''.staging-'')"

definition sweep_generation :: "collect_args \<Rightarrow> string list \<Rightarrow> string \<times> generation_dir entry
    \<Rightarrow> (world, string list \<times> (string \<times> string) list \<times> string list) prog" where
  "sweep_generation args kept p = (let g = fst p in
     if is_staging g then
       (if is_plain (Some (snd p)) then pbind (unless_dry (ca_dry_run args) (rmtree g)) (\<lambda>_. preturn ([], [], [g]))
        else preturn ([], [], []))
     else if g \<in> set kept \<or> \<not> hex_name 32 g then preturn ([], [], [])
     else
       pbind (generation_leases args g) (\<lambda>(has_leases, removed_leases).
       if \<not> has_leases \<and> is_plain (Some (snd p)) then
         pbind (unless_dry (ca_dry_run args) (pbind (rmtree g) (\<lambda>_.
           pbind (reads (\<lambda>st. map_of (st_leases st) g)) (\<lambda>directory.
           if is_plain directory then io (remove_lease_dir g) else preturn ())))) (\<lambda>_.
         preturn ([g], removed_leases, []))
       else preturn ([], removed_leases, [])))"

primrec sweep_generations :: "collect_args \<Rightarrow> string list \<Rightarrow> (string \<times> generation_dir entry) list
    \<Rightarrow> (world, string list \<times> (string \<times> string) list \<times> string list) prog" where
  "sweep_generations args kept [] = preturn ([], [], [])"
| "sweep_generations args kept (p # ps) =
     pbind (sweep_generation args kept p) (\<lambda>(gs, ls, ss).
     pbind (sweep_generations args kept ps) (\<lambda>(gs', ls', ss'). preturn (gs @ gs', ls @ ls', ss @ ss')))"

primrec sweep_pointers :: "bool \<Rightarrow> (string \<times> content entry) list \<Rightarrow> (world, string list) prog" where
  "sweep_pointers dry [] = preturn []"
| "sweep_pointers dry (p # ps) =
     (if is_plain (Some (snd p)) then
        pbind (unless_dry dry (io (unlink_pointer (fst p)))) (\<lambda>_. pbind (sweep_pointers dry ps) (\<lambda>removed. preturn (fst p # removed)))
      else sweep_pointers dry ps)"

definition metadata_key :: "string \<Rightarrow> string option" where
  "metadata_key nm = (let k = take 64 nm in if hex_name 64 k \<and> nm = json_name k then Some k else None)"

primrec sweep_metadata :: "bool \<Rightarrow> string list \<Rightarrow> int \<Rightarrow> (string \<Rightarrow> store \<Rightarrow> store) \<Rightarrow> (string \<times> (content \<times> int) entry) list
    \<Rightarrow> (world, string list) prog" where
  "sweep_metadata dry indexed cutoff unlink [] = preturn []"
| "sweep_metadata dry indexed cutoff unlink (p # ps) =
     (case (metadata_key (fst p), snd p) of
        (Some k, Plain (c, mtime)) \<Rightarrow>
          if k \<notin> set indexed \<and> mtime \<le> cutoff then
            pbind (unless_dry dry (io (unlink (fst p)))) (\<lambda>_.
            pbind (sweep_metadata dry indexed cutoff unlink ps) (\<lambda>removed. preturn (fst p # removed)))
          else sweep_metadata dry indexed cutoff unlink ps
      | _ \<Rightarrow> sweep_metadata dry indexed cutoff unlink ps)"

definition metadata_cutoff :: "collect_args \<Rightarrow> int res" where
  "metadata_cutoff args = rbind (json_to_int (JFloat (f_mul (ca_retention args) (Fin 1000000000)))) (\<lambda>n. Inr (ca_now args - n))"

definition sweep_advisory :: "collect_args \<Rightarrow> string list \<Rightarrow> (world, (string \<times> string) list) prog" where
  "sweep_advisory args indexed_keys = (let linked = FactorStoreError ''factor metadata directories may not use symbolic links'' in
     pbind (plift (metadata_cutoff args)) (\<lambda>cutoff.
     pbind (reads_res (\<lambda>st. require (st_access st \<noteq> Linked) linked)) (\<lambda>_.
     pbind (reads (\<lambda>st. entries (st_access st))) (\<lambda>accesses.
     pbind (sweep_metadata (ca_dry_run args) indexed_keys cutoff unlink_access accesses) (\<lambda>access.
     pbind (reads_res (\<lambda>st. require (st_admission st \<noteq> Linked) linked)) (\<lambda>_.
     pbind (reads (\<lambda>st. entries (st_admission st))) (\<lambda>admissions.
     pbind (sweep_metadata (ca_dry_run args) indexed_keys cutoff unlink_admission admissions) (\<lambda>admission.
     preturn (map (Pair ''access'') access @ map (Pair ''admission'') admission)))))))))"

definition collect_garbage :: "collect_args \<Rightarrow> (world, collect_report) prog" where
  "collect_garbage args = (let dry = ca_dry_run args in
     pbind (plift (require (is_finite (ca_stale args) \<and> f_le (Fin 0) (ca_stale args))
       (ValueError ''stale_lease_seconds must be finite and non-negative''))) (\<lambda>_.
     pbind (plift (require (is_finite (ca_retention args) \<and> f_le (Fin 0) (ca_retention args))
       (ValueError ''metadata_retention_seconds must be finite and non-negative''))) (\<lambda>_.
     pbind (reads_res read_current) (\<lambda>current.
     pbind (reads_res (\<lambda>st. require (st_nodes st \<noteq> Linked) (FactorStoreError ''factor node index may not use symbolic links''))) (\<lambda>_.
     pbind (reads (\<lambda>st. entries (st_nodes st))) (\<lambda>index.
     pbind (scan_nodes dry index) (\<lambda>(indexed_keys, indexed_generations, node_staging).
     pbind (reads st_generations) (\<lambda>generations.
     pbind (sweep_generations args (current # indexed_generations) generations) (\<lambda>(removed, leases, staging).
     pbind (reads st_pointers) (\<lambda>staged_pointers.
     pbind (sweep_pointers dry staged_pointers) (\<lambda>pointers.
     pbind (sweep_advisory args indexed_keys) (\<lambda>metadata.
     preturn \<lparr>cr_generations = removed, cr_leases = leases, cr_staging = staging, cr_pointers = pointers,
       cr_node_staging = node_staging, cr_metadata = metadata\<rparr>))))))))))))"

section \<open>What a collection may touch\<close>

definition node_indexed :: "store \<Rightarrow> string \<Rightarrow> bool" where
  "node_indexed st g = (\<exists>k\<in>fst ` set (entries (st_nodes st)). \<not> dotted k \<and> require_node_pointer st k = Inr g)"

definition lease_held :: "collect_args \<Rightarrow> store \<Rightarrow> string \<Rightarrow> bool" where
  "lease_held args st g = (case map_of (st_leases st) g of
      Some Symlink \<Rightarrow> True
    | Some (Plain ls) \<Rightarrow> \<exists>l\<in>set ls. lease_removable (ca_kill args) (ca_host args) (ca_now args) (ca_stale args) (snd l) = Inr False
    | _ \<Rightarrow> False)"

definition collect_protected :: "collect_args \<Rightarrow> store \<Rightarrow> string \<Rightarrow> bool" where
  "collect_protected args st g = (read_current st = Inr g \<or> node_indexed st g \<or> lease_held args st g)"

text \<open>The invariant of the whole collection, relative to the store \<open>t\<close> it began with.\<close>

definition collecting :: "bool \<Rightarrow> (string \<Rightarrow> bool) \<Rightarrow> store \<Rightarrow> store \<Rightarrow> bool" where
  "collecting dry keep t s = (st_current s = st_current t \<and> (st_nodes s = Linked \<longleftrightarrow> st_nodes t = Linked)
     \<and> (\<forall>k. \<not> dotted k \<longrightarrow> map_of (entries (st_nodes s)) k = map_of (entries (st_nodes t)) k)
     \<and> (\<forall>g. keep g \<longrightarrow> map_of (st_generations s) g = map_of (st_generations t) g)
     \<and> (dry \<longrightarrow> s = t))"

lemma collecting_refl: "collecting dry keep t t"
  by (simp add: collecting_def)

lemma collecting_weaken: "collecting dry keep t s \<Longrightarrow> (\<And>g. keep' g \<Longrightarrow> keep g) \<Longrightarrow> collecting dry keep' t s"
  by (simp add: collecting_def)

lemma collecting_frames:
  assumes "collecting False keep t s"
  shows "collecting False keep t (unlink_lease g nm s)" "collecting False keep t (remove_lease_dir g s)"
    "collecting False keep t (unlink_pointer nm s)" "collecting False keep t (unlink_access nm s)"
    "collecting False keep t (unlink_admission nm s)" "dotted nm \<Longrightarrow> collecting False keep t (unlink_node nm s)"
    "\<not> keep g \<Longrightarrow> collecting False keep t (unlink_generation_file g f s)"
    "\<not> keep g \<Longrightarrow> collecting False keep t (remove_generation_dir g s)"
  using assms
  by (auto simp: collecting_def unlink_lease_def remove_lease_dir_def unlink_pointer_def unlink_access_def unlink_admission_def
      unlink_node_def unlink_generation_file_def remove_generation_dir_def delete_conv' split: option.splits entry.splits folder.splits)

lemma runs_unless_dry:
  assumes "dry \<Longrightarrow> Q () s" "\<not> dry \<Longrightarrow> runs s m Q E C"
  shows "runs s (unless_dry dry m) Q E C"
  using assms by (cases dry) (simp_all add: unless_dry_def runs_return del: prog_simps)

lemma leases_frames [simp]:
  "st_leases (unlink_generation_file g f s) = st_leases s" "st_leases (remove_generation_dir g s) = st_leases s"
  by (simp_all add: unlink_generation_file_def remove_generation_dir_def split: option.splits entry.splits)

definition shrinking :: "store \<Rightarrow> store \<Rightarrow> bool" where
  "shrinking s s' = (\<forall>g. map_of (st_generations s) g = None \<longrightarrow> map_of (st_generations s') g = None)"

lemma unlink_file_None:
  "map_of (st_generations (unlink_generation_file g f s)) h = None \<longleftrightarrow> map_of (st_generations s) h = None"
  by (cases "map_of (st_generations s) g" rule: option.exhaust [case_names None Some])
    (auto simp: unlink_generation_file_def split: entry.splits)

lemma shrinking_simps [simp]:
  "shrinking s s" "shrinking s s' \<Longrightarrow> shrinking s (unlink_generation_file g f s')"
  "shrinking s s' \<Longrightarrow> shrinking s (remove_generation_dir g s')"
  by (simp_all add: shrinking_def unlink_file_None) (simp add: remove_generation_dir_def delete_conv')

lemma shrinking_trans: "shrinking s s' \<Longrightarrow> shrinking s' s'' \<Longrightarrow> shrinking s s''"
  by (simp add: shrinking_def)

lemma runs_rmtree:
  assumes "collecting False keep t s" "\<not> keep g"
  shows "runs s (rmtree g)
    (\<lambda>_ s'. collecting False keep t s' \<and> st_leases s' = st_leases s \<and> shrinking s s' \<and> map_of (st_generations s') g = None)
    (\<lambda>_ s'. collecting False keep t s') (collecting False keep t)"
    (is "runs s _ ?Q (\<lambda>_. ?I) ?I")
proof -
  let ?J = "\<lambda>s'. collecting False keep t s' \<and> st_leases s' = st_leases s \<and> shrinking s s'"
  have "runs s (pforeach (\<lambda>f. io (unlink_generation_file g f)) fs) (\<lambda>_. ?J) (\<lambda>_. ?J) ?J" for fs
    by (rule runs_foreach_invariant, rule runs_io) (use assms collecting_frames(7) in auto)
  then have files: "runs s (pforeach (\<lambda>f. io (unlink_generation_file g f)) fs) (\<lambda>_. ?J) (\<lambda>_. ?I) ?I" for fs
    by (rule runs_conseq) auto
  show ?thesis
    unfolding rmtree_def
  proof (intro runs_bind_reads runs_bind [OF files] runs_io)
    fix s'
    assume "?J s'"
    then show "?Q () (remove_generation_dir g s')"
      using assms(2) collecting_frames(8) by (auto simp: remove_generation_dir_def shrinking_def delete_conv')
  qed simp_all
qed

lemma pointer_local:
  assumes "map_of (entries (st_nodes s)) k = map_of (entries (st_nodes t)) k"
  shows "require_node_pointer s k = require_node_pointer t k"
  using assms by (simp add: require_node_pointer_def read_node_pointer_def)

text \<open>Scanning the index leaves generations and leases alone and finds every indexed generation.\<close>

definition scanning :: "bool \<Rightarrow> store \<Rightarrow> store \<Rightarrow> bool" where
  "scanning dry t s = (collecting dry (\<lambda>_. True) t s \<and> st_generations s = st_generations t \<and> st_leases s = st_leases t)"

lemma scanning_unlink_node: "scanning False t s \<Longrightarrow> dotted nm \<Longrightarrow> scanning False t (unlink_node nm s)"
  using collecting_frames(6) by (auto simp: scanning_def unlink_node_def split: folder.splits)

definition scanned :: "store \<Rightarrow> (string \<times> content entry) list \<Rightarrow> string list \<Rightarrow> string list \<Rightarrow> bool" where
  "scanned t ps keys gens = (keys = filter (\<lambda>k. \<not> dotted k) (map fst ps)
     \<and> list_all2 (\<lambda>k g. require_node_pointer t k = Inr g) keys gens)"

lemma runs_scan_nodes:
  assumes "scanning dry t s"
  shows "runs s (scan_nodes dry ps) (\<lambda>(keys, gens, removed) s'. scanning dry t s' \<and> scanned t ps keys gens)
    (\<lambda>_ s'. scanning dry t s') (\<lambda>s'. scanning dry t s')"
  using assms
proof (induction ps arbitrary: s)
  case Nil
  then show ?case unfolding scan_nodes.simps by (intro runs_return) (simp add: scanned_def)
next
  case (Cons p ps)
  show ?case
  proof (cases "dotted (fst p)")
    case True
    have skip: "runs s' (scan_nodes dry ps) (\<lambda>(keys, gens, removed) s'. scanning dry t s' \<and> scanned t (p # ps) keys gens)
        (\<lambda>_ s'. scanning dry t s') (\<lambda>s'. scanning dry t s')" if "scanning dry t s'" for s'
      by (rule runs_conseq [OF Cons.IH [OF that]]) (auto simp: scanned_def True)
    have unlink: "runs s (unless_dry dry (io (unlink_node (fst p)))) (\<lambda>_ s'. scanning dry t s') (\<lambda>_ s'. scanning dry t s')
        (\<lambda>s'. scanning dry t s')"
      by (intro runs_unless_dry runs_io) (use Cons.prems True scanning_unlink_node in auto)
    show ?thesis
      unfolding scan_nodes.simps if_P [OF True]
    proof (cases "is_plain (Some (snd p))")
      case plain: True
      show "runs s (if is_plain (Some (snd p)) then
           pbind (unless_dry dry (io (unlink_node (fst p)))) (\<lambda>_.
           pbind (scan_nodes dry ps) (\<lambda>(keys, generations, removed). preturn (keys, generations, fst p # removed)))
         else scan_nodes dry ps) (\<lambda>(keys, gens, removed) s'. scanning dry t s' \<and> scanned t (p # ps) keys gens)
        (\<lambda>_ s'. scanning dry t s') (\<lambda>s'. scanning dry t s')"
        unfolding if_P [OF plain]
        by (rule runs_bind [OF unlink], erule runs_bind [OF skip], clarify, rule runs_return, simp)
    next
      case other: False
      show "runs s (if is_plain (Some (snd p)) then
           pbind (unless_dry dry (io (unlink_node (fst p)))) (\<lambda>_.
           pbind (scan_nodes dry ps) (\<lambda>(keys, generations, removed). preturn (keys, generations, fst p # removed)))
         else scan_nodes dry ps) (\<lambda>(keys, gens, removed) s'. scanning dry t s' \<and> scanned t (p # ps) keys gens)
        (\<lambda>_ s'. scanning dry t s') (\<lambda>s'. scanning dry t s')"
        unfolding if_not_P [OF other] by (rule skip [OF Cons.prems])
    qed
  next
    case False
    have here: "require_node_pointer s (fst p) = require_node_pointer t (fst p)"
      by (rule pointer_local) (use Cons.prems False in \<open>simp add: scanning_def collecting_def\<close>)
    have cont: "runs s (pbind (scan_nodes dry ps) (\<lambda>(keys, generations, removed). preturn (fst p # keys, g # generations, removed)))
        (\<lambda>(keys, gens, removed) s'. scanning dry t s' \<and> scanned t (p # ps) keys gens)
        (\<lambda>_ s'. scanning dry t s') (\<lambda>s'. scanning dry t s')"
      if "require_node_pointer s (fst p) = Inr g" for g
      by (rule runs_bind [OF Cons.IH [OF Cons.prems]], clarify, rule runs_return)
        (simp add: scanned_def False that [unfolded here])
    show ?thesis
      unfolding scan_nodes.simps if_not_P [OF False]
      by (intro run_rules cont) (use Cons.prems in simp_all)
  qed
qed

lemma scanned_indexed:
  assumes "scanned t (entries (st_nodes t)) keys gens"
  shows "g \<in> set gens \<longleftrightarrow> node_indexed t g"
proof
  have keys: "keys = filter (\<lambda>k. \<not> dotted k) (map fst (entries (st_nodes t)))"
    and all: "list_all2 (\<lambda>k g. require_node_pointer t k = Inr g) keys gens"
    using assms unfolding scanned_def by auto
  {
    assume "g \<in> set gens"
    from list_all2_source [OF all this] obtain k where "k \<in> set keys" "require_node_pointer t k = Inr g" by (rule bexE)
    then show "node_indexed t g" by (auto simp: keys node_indexed_def)
  next
    assume "node_indexed t g"
    then obtain k where "k \<in> set keys" and k: "require_node_pointer t k = Inr g"
      by (auto simp: keys node_indexed_def)
    then obtain i where i: "i < length keys" "keys ! i = k" by (auto simp: in_set_conv_nth)
    then have "gens ! i = g" using list_all2_nthD [OF all i(1)] k by simp
    then show "g \<in> set gens" using i(1) list_all2_lengthD [OF all] by (metis nth_mem)
  }
qed

section \<open>Sweeping\<close>

lemma runs_scan_leases:
  assumes "collecting (ca_dry_run args) keep t s"
  shows "runs s (scan_leases args g ls)
    (\<lambda>(surviving, removed) s'. collecting (ca_dry_run args) keep t s' \<and> st_generations s' = st_generations s \<and> (\<forall>h. h \<noteq> g \<longrightarrow> map_of (st_leases s') h = map_of (st_leases s) h)
       \<and> (0 < surviving \<longleftrightarrow> (\<exists>l\<in>set ls. lease_removable (ca_kill args) (ca_host args) (ca_now args) (ca_stale args) (snd l) = Inr False)))
    (\<lambda>_ s'. collecting (ca_dry_run args) keep t s') (\<lambda>s'. collecting (ca_dry_run args) keep t s')"
  using assms
proof (induction ls arbitrary: s)
  case Nil
  then show ?case unfolding scan_leases.simps by (intro runs_return) simp
next
  case (Cons l ls)
  let ?verdict = "lease_removable (ca_kill args) (ca_host args) (ca_now args) (ca_stale args)"
  let ?Q = "\<lambda>(surviving, removed) s'. collecting (ca_dry_run args) keep t s' \<and> st_generations s' = st_generations s \<and> (\<forall>h. h \<noteq> g \<longrightarrow> map_of (st_leases s') h = map_of (st_leases s) h)
       \<and> (0 < surviving \<longleftrightarrow> (\<exists>l'\<in>set (l # ls). ?verdict (snd l') = Inr False))"
  have frame: "map_of (st_leases (unlink_lease g (fst l) s)) h = map_of (st_leases s) h" if "h \<noteq> g" for h
    using that by (simp add: unlink_lease_def split: option.splits entry.splits)
  have generations: "st_generations (unlink_lease g (fst l) s) = st_generations s"
    by (simp add: unlink_lease_def split: option.splits entry.splits)
  have removed: "runs s (pbind (unless_dry (ca_dry_run args) (io (unlink_lease g (fst l)))) (\<lambda>_.
       pbind (scan_leases args g ls) (\<lambda>(surviving, removed). preturn (surviving, (g, fst l) # removed)))) ?Q
    (\<lambda>_ s'. collecting (ca_dry_run args) keep t s') (\<lambda>s'. collecting (ca_dry_run args) keep t s')" if "?verdict (snd l) = Inr True"
  proof (rule runs_bind [where R = "\<lambda>_ s'. collecting (ca_dry_run args) keep t s' \<and> st_generations s' = st_generations s \<and> (\<forall>h. h \<noteq> g \<longrightarrow> map_of (st_leases s') h = map_of (st_leases s) h)"])
    show "runs s (unless_dry (ca_dry_run args) (io (unlink_lease g (fst l))))
      (\<lambda>_ s'. collecting (ca_dry_run args) keep t s' \<and> st_generations s' = st_generations s \<and> (\<forall>h. h \<noteq> g \<longrightarrow> map_of (st_leases s') h = map_of (st_leases s) h))
      (\<lambda>_ s'. collecting (ca_dry_run args) keep t s') (\<lambda>s'. collecting (ca_dry_run args) keep t s')"
      by (intro runs_unless_dry runs_io) (use Cons.prems collecting_frames(1) frame generations in auto)
  next
    fix x s'
    assume s': "collecting (ca_dry_run args) keep t s' \<and> st_generations s' = st_generations s \<and> (\<forall>h. h \<noteq> g \<longrightarrow> map_of (st_leases s') h = map_of (st_leases s) h)"
    show "runs s' (pbind (scan_leases args g ls) (\<lambda>(surviving, removed). preturn (surviving, (g, fst l) # removed))) ?Q
      (\<lambda>_ s'. collecting (ca_dry_run args) keep t s') (\<lambda>s'. collecting (ca_dry_run args) keep t s')"
      by (rule runs_bind [OF Cons.IH], rule conjunct1 [OF s'], clarify, rule runs_return) (use s' that in simp)
  qed
  have survived: "runs s (pbind (scan_leases args g ls) (\<lambda>(surviving, removed). preturn (Suc surviving, removed))) ?Q
    (\<lambda>_ s'. collecting (ca_dry_run args) keep t s') (\<lambda>s'. collecting (ca_dry_run args) keep t s')" if "?verdict (snd l) = Inr False"
    by (rule runs_bind [OF Cons.IH [OF Cons.prems]], clarify, rule runs_return) (simp add: that)
  show ?case
    unfolding scan_leases.simps
  proof (rule runs_bind_lift)
    fix e
    show "collecting (ca_dry_run args) keep t s" by (rule Cons.prems)
  next
    fix x
    assume "?verdict (snd l) = Inr x"
    then show "runs s (if x then pbind (unless_dry (ca_dry_run args) (io (unlink_lease g (fst l)))) (\<lambda>_.
         pbind (scan_leases args g ls) (\<lambda>(surviving, removed). preturn (surviving, (g, fst l) # removed)))
       else pbind (scan_leases args g ls) (\<lambda>(surviving, removed). preturn (Suc surviving, removed))) ?Q
      (\<lambda>_ s'. collecting (ca_dry_run args) keep t s') (\<lambda>s'. collecting (ca_dry_run args) keep t s')"
      using removed survived by (cases x) (simp_all only: if_True if_False)
  qed
qed

text \<open>The leases of a generation not yet swept are the ones the collection began with.\<close>

lemma runs_generation_leases:
  assumes "collecting (ca_dry_run args) keep t s" "map_of (st_leases s) g = map_of (st_leases t) g"
  shows "runs s (generation_leases args g)
    (\<lambda>(has_leases, removed) s'. collecting (ca_dry_run args) keep t s' \<and> st_generations s' = st_generations s \<and> (\<forall>h. h \<noteq> g \<longrightarrow> map_of (st_leases s') h = map_of (st_leases s) h)
       \<and> (has_leases \<longleftrightarrow> lease_held args t g))
    (\<lambda>_ s'. collecting (ca_dry_run args) keep t s') (\<lambda>s'. collecting (ca_dry_run args) keep t s')"
proof -
  have plain: "runs s (pbind (scan_leases args g ls) (\<lambda>(surviving, removed). preturn (0 < surviving, removed)))
    (\<lambda>(has_leases, removed) s'. collecting (ca_dry_run args) keep t s' \<and> st_generations s' = st_generations s \<and> (\<forall>h. h \<noteq> g \<longrightarrow> map_of (st_leases s') h = map_of (st_leases s) h)
       \<and> (has_leases \<longleftrightarrow> lease_held args t g))
    (\<lambda>_ s'. collecting (ca_dry_run args) keep t s') (\<lambda>s'. collecting (ca_dry_run args) keep t s')"
    if "map_of (st_leases t) g = Some (Plain ls)" for ls
    by (rule runs_bind [OF runs_scan_leases [OF assms(1)]], clarify, rule runs_return) (simp add: lease_held_def that)
  show ?thesis
    unfolding generation_leases_def
    by (rule runs_bind_reads, cases "map_of (st_leases s) g" rule: option.exhaust [case_names None Some])
      (use assms plain in \<open>auto simp: lease_held_def simp del: prog_simps intro!: runs_return split: entry.splits\<close>)
qed

definition sweep_target :: "collect_args \<Rightarrow> store \<Rightarrow> string list \<Rightarrow> string \<times> generation_dir entry \<Rightarrow> bool" where
  "sweep_target args t kept p = (\<not> is_staging (fst p) \<and> fst p \<notin> set kept \<and> hex_name 32 (fst p)
     \<and> \<not> lease_held args t (fst p) \<and> is_plain (Some (snd p)))"

text \<open>The names a sweep may not touch: all but staging directories and its targets.\<close>

definition sweep_keeps :: "collect_args \<Rightarrow> store \<Rightarrow> string list \<Rightarrow> string \<Rightarrow> bool" where
  "sweep_keeps args t kept g = (\<not> is_staging g \<and> (g \<in> set kept \<or> lease_held args t g \<or> \<not> hex_name 32 g))"

lemma runs_sweep_generation:
  fixes args t kept
  defines "I \<equiv> collecting (ca_dry_run args) (sweep_keeps args t kept) t"
  assumes "I s" "map_of (st_leases s) (fst p) = map_of (st_leases t) (fst p)"
  shows "runs s (sweep_generation args kept p)
    (\<lambda>(gs, ls, ss) s'. I s' \<and> shrinking s s' \<and> (\<forall>h. h \<noteq> fst p \<longrightarrow> map_of (st_leases s') h = map_of (st_leases s) h)
       \<and> gs = (if sweep_target args t kept p then [fst p] else [])
       \<and> (\<not> ca_dry_run args \<longrightarrow> (\<forall>g\<in>set gs. map_of (st_generations s') g = None)))
    (\<lambda>_. I) I" (is "runs s _ ?Q _ _")
proof -
  let ?g = "fst p"
  have staging: "runs s (pbind (unless_dry (ca_dry_run args) (rmtree ?g)) (\<lambda>_. preturn ([], [], [?g]))) ?Q (\<lambda>_. I) I"
    if "is_staging ?g"
  proof (rule runs_bind [where R = "\<lambda>_ s'. I s' \<and> shrinking s s' \<and> st_leases s' = st_leases s"])
    show "runs s (unless_dry (ca_dry_run args) (rmtree ?g)) (\<lambda>_ s'. I s' \<and> shrinking s s' \<and> st_leases s' = st_leases s) (\<lambda>_. I) I"
      by (intro runs_unless_dry runs_conseq [OF runs_rmtree]) (use assms(2) that in \<open>auto simp: I_def sweep_keeps_def\<close>)
  qed (rule runs_return, use that in \<open>simp add: sweep_target_def\<close>)
  have sweep: "runs s' (pbind (unless_dry (ca_dry_run args) (pbind (rmtree ?g) (\<lambda>_.
           pbind (reads (\<lambda>st. map_of (st_leases st) ?g)) (\<lambda>directory.
           if is_plain directory then io (remove_lease_dir ?g) else preturn ())))) (\<lambda>_. preturn ([?g], removed, []))) ?Q (\<lambda>_. I) I"
    if s': "I s'" "st_generations s' = st_generations s" "\<forall>h. h \<noteq> ?g \<longrightarrow> map_of (st_leases s') h = map_of (st_leases s) h"
      and target: "sweep_target args t kept p" for s' removed
  proof -
    let ?R = "\<lambda>s''. I s'' \<and> shrinking s s'' \<and> (\<forall>h. h \<noteq> ?g \<longrightarrow> map_of (st_leases s'') h = map_of (st_leases s) h)
        \<and> (\<not> ca_dry_run args \<longrightarrow> map_of (st_generations s'') ?g = None)"
    have rm: "runs s' (rmtree ?g) (\<lambda>_. ?R) (\<lambda>_. I) I" if "\<not> ca_dry_run args"
      by (rule runs_conseq [OF runs_rmtree [where keep = "sweep_keeps args t kept" and t = t]])
        (use s' that target in \<open>auto simp: I_def sweep_keeps_def sweep_target_def shrinking_def\<close>)
    have dir: "runs s'' (pbind (reads (\<lambda>st. map_of (st_leases st) ?g)) (\<lambda>directory.
           if is_plain directory then io (remove_lease_dir ?g) else preturn ())) (\<lambda>_. ?R) (\<lambda>_. I) I"
      if "?R s''" "\<not> ca_dry_run args" for s''
    proof -
      have "?R (remove_lease_dir ?g s'')"
        using that collecting_frames(2) by (auto simp: I_def remove_lease_dir_def shrinking_def delete_conv')
      then show ?thesis
        using that(1) by (intro runs_bind_reads) (auto simp del: prog_simps intro!: runs_io runs_return)
    qed
    have "runs s' (unless_dry (ca_dry_run args) (pbind (rmtree ?g) (\<lambda>_.
           pbind (reads (\<lambda>st. map_of (st_leases st) ?g)) (\<lambda>directory.
           if is_plain directory then io (remove_lease_dir ?g) else preturn ())))) (\<lambda>_. ?R) (\<lambda>_. I) I"
    proof (rule runs_unless_dry)
      show "runs s' (pbind (rmtree ?g) (\<lambda>_. pbind (reads (\<lambda>st. map_of (st_leases st) ?g)) (\<lambda>directory.
           if is_plain directory then io (remove_lease_dir ?g) else preturn ()))) (\<lambda>_. ?R) (\<lambda>_. I) I" if "\<not> ca_dry_run args"
        by (rule runs_bind [OF rm [OF that]], erule dir, rule that)
    next
      show "?R s'" if "ca_dry_run args" using s' that by (simp add: shrinking_def)
    qed
    then show ?thesis
      by (rule runs_bind) (rule runs_return, use target in simp)
  qed
  have untouched: "runs s (preturn ([], [], [])) ?Q (\<lambda>_. I) I" if "\<not> sweep_target args t kept p"
    by (rule runs_return) (use assms(2) that in simp)
  show ?thesis
  proof (cases "is_staging ?g")
    case True
    then have no: "\<not> sweep_target args t kept p" by (simp add: sweep_target_def)
    show ?thesis
      unfolding sweep_generation_def Let_def if_P [OF True]
      using staging [OF True] untouched [OF no] by (cases "is_plain (Some (snd p))") (simp_all only: if_True if_False)
  next
    case fresh: False
    show ?thesis
    proof (cases "?g \<in> set kept \<or> \<not> hex_name 32 ?g")
      case True
      then have "\<not> sweep_target args t kept p" by (auto simp: sweep_target_def)
      then show ?thesis
        unfolding sweep_generation_def Let_def if_not_P [OF fresh] if_P [OF True] by (rule untouched)
    next
      case False
      have leases: "runs s (generation_leases args ?g)
        (\<lambda>(has_leases, removed) s'. I s' \<and> st_generations s' = st_generations s
           \<and> (\<forall>h. h \<noteq> ?g \<longrightarrow> map_of (st_leases s') h = map_of (st_leases s) h) \<and> (has_leases \<longleftrightarrow> lease_held args t ?g)) (\<lambda>_. I) I"
        using runs_generation_leases [OF assms(2) [unfolded I_def] assms(3)] by (simp add: I_def)
      show ?thesis
        unfolding sweep_generation_def Let_def if_not_P [OF fresh] if_not_P [OF False]
      proof (rule runs_bind [OF leases], clarify)
        fix removed s'
        assume s': "I s'" "st_generations s' = st_generations s" "\<forall>h. h \<noteq> ?g \<longrightarrow> map_of (st_leases s') h = map_of (st_leases s) h"
        then have target: "(\<not> lease_held args t ?g \<and> is_plain (Some (snd p))) = sweep_target args t kept p"
          using fresh False by (auto simp: sweep_target_def)
        have keep: "runs s' (preturn ([], removed, [])) ?Q (\<lambda>_. I) I" if "\<not> sweep_target args t kept p"
          by (rule runs_return) (use s' that in \<open>simp add: shrinking_def\<close>)
        show "runs s' (if \<not> lease_held args t ?g \<and> is_plain (Some (snd p)) then
         pbind (unless_dry (ca_dry_run args) (pbind (rmtree ?g) (\<lambda>_.
           pbind (reads (\<lambda>st. map_of (st_leases st) ?g)) (\<lambda>directory.
           if is_plain directory then io (remove_lease_dir ?g) else preturn ())))) (\<lambda>_. preturn ([?g], removed, []))
         else preturn ([], removed, [])) ?Q (\<lambda>_. I) I"
          unfolding target using sweep [OF s'(1,2,3)] keep
          by (cases "sweep_target args t kept p") (simp_all only: if_True if_False simp_thms)
      qed
    qed
  qed
qed

lemma runs_sweep_generations:
  fixes args t kept
  defines "I \<equiv> collecting (ca_dry_run args) (sweep_keeps args t kept) t"
  assumes "I s" "\<forall>p\<in>set ps. map_of (st_leases s) (fst p) = map_of (st_leases t) (fst p)" "distinct (map fst ps)"
  shows "runs s (sweep_generations args kept ps)
    (\<lambda>(gs, ls, ss) s'. I s' \<and> shrinking s s' \<and> gs = map fst (filter (sweep_target args t kept) ps)
       \<and> (\<not> ca_dry_run args \<longrightarrow> (\<forall>g\<in>set gs. map_of (st_generations s') g = None)))
    (\<lambda>_. I) I"
  using assms(2-)
proof (induction ps arbitrary: s)
  case Nil
  then show ?case unfolding sweep_generations.simps by (intro runs_return) simp
next
  case (Cons p ps)
  note first = runs_sweep_generation [where p = p and s = s and args = args and t = t and kept = kept, folded I_def, OF Cons.prems(1)]
  show ?case
    unfolding sweep_generations.simps
  proof (rule runs_bind [OF first], simp add: Cons.prems(2), clarify)
    fix ls ss s1
    assume s1: "I s1" "shrinking s s1" "\<forall>h. h \<noteq> fst p \<longrightarrow> map_of (st_leases s1) h = map_of (st_leases s) h"
      and gone: "\<not> ca_dry_run args \<longrightarrow> (\<forall>g\<in>set (if sweep_target args t kept p then [fst p] else []). map_of (st_generations s1) g = None)"
    have rest: "\<forall>q\<in>set ps. map_of (st_leases s1) (fst q) = map_of (st_leases t) (fst q)" "distinct (map fst ps)"
    proof -
      have "fst q \<noteq> fst p" if "q \<in> set ps" for q using Cons.prems(3) that by (simp add: rev_image_eqI) (metis imageI)
      then show "\<forall>q\<in>set ps. map_of (st_leases s1) (fst q) = map_of (st_leases t) (fst q)" using s1(3) Cons.prems(2) by simp
    qed (use Cons.prems(3) in simp)
    show "runs s1 (pbind (sweep_generations args kept ps) (\<lambda>(gs', ls', ss').
        preturn ((if sweep_target args t kept p then [fst p] else []) @ gs', ls @ ls', ss @ ss')))
      (\<lambda>(gs, ls, ss) s'. I s' \<and> shrinking s s' \<and> gs = map fst (filter (sweep_target args t kept) (p # ps))
       \<and> (\<not> ca_dry_run args \<longrightarrow> (\<forall>g\<in>set gs. map_of (st_generations s') g = None))) (\<lambda>_. I) I"
      by (rule runs_bind [OF Cons.IH [OF s1(1) rest]], clarify, rule runs_return)
        (use s1(2) gone in \<open>auto simp: shrinking_def split: if_splits\<close>)
  qed
qed

lemma runs_sweep_pointers:
  assumes "collecting dry keep t s"
  shows "runs s (sweep_pointers dry ps) (\<lambda>_ s'. collecting dry keep t s' \<and> st_generations s' = st_generations s)
    (\<lambda>_. collecting dry keep t) (collecting dry keep t)"
  using assms
proof (induction ps arbitrary: s)
  case Nil
  then show ?case unfolding sweep_pointers.simps by (intro runs_return) simp
next
  case (Cons p ps)
  let ?I = "\<lambda>s'. collecting dry keep t s' \<and> st_generations s' = st_generations s"
  have unlink: "runs s (unless_dry dry (io (unlink_pointer (fst p)))) (\<lambda>_. ?I) (\<lambda>_. collecting dry keep t) (collecting dry keep t)"
    by (intro runs_unless_dry runs_io) (use Cons.prems collecting_frames(3) in \<open>auto simp: unlink_pointer_def\<close>)
  have rest: "runs s' (sweep_pointers dry ps) (\<lambda>_. ?I) (\<lambda>_. collecting dry keep t) (collecting dry keep t)" if "?I s'" for s'
    by (rule runs_conseq [OF Cons.IH]) (use that in auto)
  have more: "runs s' (pbind (sweep_pointers dry ps) (\<lambda>removed. preturn (fst p # removed))) (\<lambda>_. ?I)
      (\<lambda>_. collecting dry keep t) (collecting dry keep t)" if "?I s'" for s'
    by (rule runs_bind [OF rest [OF that]], rule runs_return)
  have here: "?I s" using Cons.prems by simp
  show ?case
    unfolding sweep_pointers.simps
    using runs_bind [OF unlink more] rest [OF here] by (cases "is_plain (Some (snd p))") (simp_all only: if_True if_False)
qed

lemma runs_sweep_metadata:
  assumes "collecting dry keep t s"
    and unlink: "\<And>nm s. collecting False keep t s \<Longrightarrow> collecting False keep t (unlink nm s)" "\<And>nm s. st_generations (unlink nm s) = st_generations s"
  shows "runs s (sweep_metadata dry indexed cutoff unlink ps) (\<lambda>_ s'. collecting dry keep t s' \<and> st_generations s' = st_generations s)
    (\<lambda>_. collecting dry keep t) (collecting dry keep t)"
  using assms(1)
proof (induction ps arbitrary: s)
  case Nil
  then show ?case unfolding sweep_metadata.simps by (intro runs_return) simp
next
  case (Cons p ps)
  let ?I = "\<lambda>s'. collecting dry keep t s' \<and> st_generations s' = st_generations s"
  have drop: "runs s (unless_dry dry (io (unlink (fst p)))) (\<lambda>_. ?I) (\<lambda>_. collecting dry keep t) (collecting dry keep t)"
    by (intro runs_unless_dry runs_io) (use Cons.prems unlink in auto)
  have rest: "runs s' (sweep_metadata dry indexed cutoff unlink ps) (\<lambda>_. ?I) (\<lambda>_. collecting dry keep t) (collecting dry keep t)"
    if "?I s'" for s'
    by (rule runs_conseq [OF Cons.IH]) (use that in auto)
  have more: "runs s' (pbind (sweep_metadata dry indexed cutoff unlink ps) (\<lambda>removed. preturn (fst p # removed))) (\<lambda>_. ?I)
      (\<lambda>_. collecting dry keep t) (collecting dry keep t)" if "?I s'" for s'
    by (rule runs_bind [OF rest [OF that]], rule runs_return)
  have here: "?I s" using Cons.prems by simp
  show ?case
    unfolding sweep_metadata.simps
    using runs_bind [OF drop more] rest [OF here]
    by (auto simp del: prog_simps split: option.splits entry.splits prod.splits)
qed

section \<open>Properties\<close>

lemma lease_held_local: "st_leases s = st_leases t \<Longrightarrow> lease_held args s g = lease_held args t g"
  by (simp add: lease_held_def)

lemma hex_not_staging: "hex_name n g \<Longrightarrow> \<not> is_staging g"
proof
  assume "hex_name n g" "is_staging g"
  then show False using hex_not_dotted [of n g] by (cases g) (auto simp: is_staging_def dotted_def)
qed

lemma runs_sweep_advisory:
  assumes "collecting (ca_dry_run args) keep t s"
  shows "runs s (sweep_advisory args keys) (\<lambda>_ s'. collecting (ca_dry_run args) keep t s' \<and> st_generations s' = st_generations s)
    (\<lambda>_. collecting (ca_dry_run args) keep t) (collecting (ca_dry_run args) keep t)"
proof -
  have access: "runs s' (sweep_metadata (ca_dry_run args) keys cutoff unlink_access ps)
    (\<lambda>_ s''. collecting (ca_dry_run args) keep t s'' \<and> st_generations s'' = st_generations s')
    (\<lambda>_. collecting (ca_dry_run args) keep t) (collecting (ca_dry_run args) keep t)"
    if "collecting (ca_dry_run args) keep t s'" for s' cutoff ps
    by (rule runs_sweep_metadata [OF that collecting_frames(4)]) (simp_all add: unlink_access_def split: folder.splits)
  have admission: "runs s' (sweep_metadata (ca_dry_run args) keys cutoff unlink_admission ps)
    (\<lambda>_ s''. collecting (ca_dry_run args) keep t s'' \<and> st_generations s'' = st_generations s')
    (\<lambda>_. collecting (ca_dry_run args) keep t) (collecting (ca_dry_run args) keep t)"
    if "collecting (ca_dry_run args) keep t s'" for s' cutoff ps
    by (rule runs_sweep_metadata [OF that collecting_frames(5)]) (simp_all add: unlink_admission_def split: folder.splits)
  show ?thesis
    unfolding sweep_advisory_def Let_def
    by (intro runs_bind_lift runs_bind_reads_res runs_bind_reads runs_bind [OF access] runs_bind [OF admission] runs_return)
      (simp_all add: assms)
qed

lemma runs_collect_garbage:
  assumes "distinct (map fst (st_generations t))"
  shows "runs t (collect_garbage args)
    (\<lambda>report s. collecting (ca_dry_run args) (\<lambda>g. hex_name 32 g \<and> collect_protected args t g) t s
       \<and> set (cr_generations report) = {g. hex_name 32 g \<and> is_plain (map_of (st_generations t) g) \<and> \<not> collect_protected args t g}
       \<and> (\<not> ca_dry_run args \<longrightarrow> (\<forall>g\<in>set (cr_generations report). map_of (st_generations s) g = None)))
    (\<lambda>_. collecting (ca_dry_run args) (\<lambda>g. hex_name 32 g \<and> collect_protected args t g) t)
    (collecting (ca_dry_run args) (\<lambda>g. hex_name 32 g \<and> collect_protected args t g) t)"
    (is "runs t _ ?Q (\<lambda>_. ?I) ?I")
proof -
  let ?dry = "ca_dry_run args"
  have start: "?I t" "scanning ?dry t t" by (simp_all add: collecting_refl scanning_def)
  have scan: "runs t (scan_nodes ?dry (entries (st_nodes t)))
    (\<lambda>(keys, gens, removed) s. scanning ?dry t s \<and> (\<forall>g. g \<in> set gens \<longleftrightarrow> node_indexed t g)) (\<lambda>_. ?I) ?I"
    by (rule runs_conseq [OF runs_scan_nodes [OF start(2)]])
      (auto simp: scanned_indexed scanning_def intro: collecting_weaken)
  have sweep: "runs s (sweep_generations args (current # gens) (st_generations s))
      (\<lambda>(gs, ls, ss) s'. ?I s' \<and> set gs = {g. hex_name 32 g \<and> is_plain (map_of (st_generations t) g) \<and> \<not> collect_protected args t g}
        \<and> (\<not> ?dry \<longrightarrow> (\<forall>g\<in>set gs. map_of (st_generations s') g = None))) (\<lambda>_. ?I) ?I"
    if "read_current t = Inr current" "scanning ?dry t s" "\<forall>g. g \<in> set gens \<longleftrightarrow> node_indexed t g" for current gens s
  proof -
    let ?keep = "sweep_keeps args t (current # gens)"
    have kept: "hex_name 32 g \<and> collect_protected args t g \<Longrightarrow> ?keep g" for g
      using that(1,3) hex_not_staging by (auto simp: sweep_keeps_def collect_protected_def)
    have same: "st_generations s = st_generations t" "st_leases s = st_leases t" using that(2) by (simp_all add: scanning_def)
    have target: "sweep_target args t (current # gens) (g, e) \<longleftrightarrow> hex_name 32 g \<and> is_plain (Some e) \<and> \<not> collect_protected args t g" for g e
      using that(1,3) hex_not_staging [of 32 g] by (simp add: sweep_target_def collect_protected_def) metis
    have filtered: "g \<in> set (map fst (filter P d)) \<longleftrightarrow> (\<exists>e. map_of d g = Some e \<and> P (g, e))" if "distinct (map fst d)"
      for g P and d :: "(string \<times> generation_dir entry) list"
      using map_of_eq_Some_iff [OF that] by force
    have "set (map fst (filter (sweep_target args t (current # gens)) (st_generations t)))
      = {g. hex_name 32 g \<and> is_plain (map_of (st_generations t) g) \<and> \<not> collect_protected args t g}"
      by (rule set_eqI, unfold filtered [OF assms] target mem_Collect_eq) (auto simp: is_plain_iff)
    moreover have "collecting ?dry ?keep t s"
      using that(2) by (auto simp: scanning_def intro: collecting_weaken)
    ultimately show ?thesis
      unfolding same
      by (intro runs_conseq [OF runs_sweep_generations [where args = args and kept = "current # gens" and t = t and s = s, OF _ _ assms]])
        (auto simp: same intro: collecting_weaken [OF _ kept])
  qed
  have finish: "runs s (pbind (reads st_generations) (\<lambda>generations.
     pbind (sweep_generations args (current # gens) generations) (\<lambda>(removed, leases, staging).
     pbind (reads st_pointers) (\<lambda>staged_pointers.
     pbind (sweep_pointers ?dry staged_pointers) (\<lambda>pointers.
     pbind (sweep_advisory args keys) (\<lambda>metadata.
     preturn \<lparr>cr_generations = removed, cr_leases = leases, cr_staging = staging, cr_pointers = pointers,
       cr_node_staging = node_staging, cr_metadata = metadata\<rparr>)))))) ?Q (\<lambda>_. ?I) ?I"
    if "read_current t = Inr current" "scanning ?dry t s" "\<forall>g. g \<in> set gens \<longleftrightarrow> node_indexed t g" for current keys gens node_staging s
  proof (rule runs_bind_reads, rule runs_bind [OF sweep [OF that]], clarify, rule runs_bind_reads)
    fix removed leases staging s1
    assume s1: "?I s1" and set: "set removed = {g. hex_name 32 g \<and> is_plain (map_of (st_generations t) g) \<and> \<not> collect_protected args t g}"
      and gone: "\<not> ?dry \<longrightarrow> (\<forall>g\<in>set removed. map_of (st_generations s1) g = None)"
    show "runs s1 (pbind (sweep_pointers ?dry (st_pointers s1)) (\<lambda>pointers. pbind (sweep_advisory args keys) (\<lambda>metadata.
       preturn \<lparr>cr_generations = removed, cr_leases = leases, cr_staging = staging, cr_pointers = pointers,
         cr_node_staging = node_staging, cr_metadata = metadata\<rparr>))) ?Q (\<lambda>_. ?I) ?I"
      by (rule runs_bind [OF runs_sweep_pointers [OF s1]], rule runs_bind [OF runs_sweep_advisory], erule conjunct1, rule runs_return)
        (use set gone in simp)
  qed
  show ?thesis
    unfolding collect_garbage_def Let_def
    by (intro runs_bind_lift runs_bind_reads_res runs_bind_reads runs_bind [OF scan])
      (simp_all only: start(1) split: prod.splits, (intro allI impI, rule finish, simp_all)?)
qed

lemma collecting_index:
  assumes "collecting dry keep t s"
  shows "ix_current (index_of s) = ix_current (index_of t)" "ix_nodes (index_of s) = ix_nodes (index_of t)"
    "keep g \<Longrightarrow> ix_generations (index_of s) g = ix_generations (index_of t) g" "dry \<Longrightarrow> s = t"
  using assms by (auto simp: collecting_def index_of_def fun_eq_iff)

lemma pointed_protected:
  assumes "hex_name 32 g"
  shows "ix_current (index_of t) = Some (Plain (pointer_text g)) \<Longrightarrow> collect_protected args t g"
    "hex_name 64 k \<Longrightarrow> ix_nodes (index_of t) k = Some (Plain (pointer_text g)) \<Longrightarrow> collect_protected args t g"
proof -
  assume "ix_current (index_of t) = Some (Plain (pointer_text g))"
  then have "read_current t = Inr g" using assms by (simp add: index_of_def read_current_def pointer_text_def str_strip_hex)
  then show "collect_protected args t g" by (simp add: collect_protected_def)
next
  assume k: "hex_name 64 k" and node: "ix_nodes (index_of t) k = Some (Plain (pointer_text g))"
  then have "map_of (entries (st_nodes t)) k = Some (Plain (pointer_text g))" by (simp add: index_of_def)
  then have "k \<in> fst ` set (entries (st_nodes t))" by (rule image_eqI [OF _ map_of_SomeD, rotated]) simp
  then show "collect_protected args t g"
    using node_pointer_of_index [OF k assms node] hex_not_dotted [OF k] unfolding collect_protected_def node_indexed_def by blast
qed

lemma index_ok_keep:
  assumes ok: "index_ok native digest ix" and same: "ix_current iy = ix_current ix" "ix_nodes iy = ix_nodes ix"
    and current: "\<And>g. hex_name 32 g \<Longrightarrow> ix_current ix = Some (Plain (pointer_text g)) \<Longrightarrow> ix_generations iy g = ix_generations ix g"
    and nodes: "\<And>g k. hex_name 32 g \<Longrightarrow> hex_name 64 k \<Longrightarrow> ix_nodes ix k = Some (Plain (pointer_text g))
      \<Longrightarrow> ix_generations iy g = ix_generations ix g"
  shows "index_ok native digest iy"
  unfolding index_ok_def same
proof (intro conjI allI impI)
  have opens: "opens native digest iy g e q = opens native digest ix g e q" if "ix_generations iy g = ix_generations ix g" for g e q
    using check_local [of "ix_generations iy" g "ix_generations ix"] that by (simp add: opens_def)
  {
    fix e
    assume e: "ix_current ix = Some e"
    then obtain g where "hex_name 32 g" "e = Plain (pointer_text g)" "opens native digest ix g None False"
      using ok by (auto simp: index_ok_def)
    then show "\<exists>g. hex_name 32 g \<and> e = Plain (pointer_text g) \<and> opens native digest iy g None False"
      using opens [OF current] e by auto
  next
    fix k e
    assume e: "ix_nodes ix k = Some e"
    then obtain g where "hex_name 32 g" "hex_name 64 k" "e = Plain (pointer_text g)" "opens native digest ix g (Some k) True"
      using ok unfolding index_ok_def by blast
    then show "\<exists>g. hex_name 32 g \<and> hex_name 64 k \<and> e = Plain (pointer_text g) \<and> opens native digest iy g (Some k) True"
      using opens [OF nodes] e by auto
  }
qed

lemma index_ok_collecting:
  assumes "collecting dry (\<lambda>g. hex_name 32 g \<and> collect_protected args t g) t s" "index_ok native digest (index_of t)"
  shows "index_ok native digest (index_of s)"
  by (rule index_ok_keep [OF assms(2) collecting_index(1,2) [OF assms(1)]])
    (rule collecting_index(3) [OF assms(1)], use pointed_protected in blast)+

text \<open>
  Claim C22. A collection, however it ends, leaves \<open>CURRENT\<close>, the node pointers and every generation they or
  a surviving lease protect exactly as they were, so a sound index stays sound; when it returns, the reported
  generations are exactly the unprotected ones and are gone; a dry run reports the same and changes nothing.
\<close>

theorem collect_garbage_exact:
  assumes "live w" and "collect_garbage args w = (r, w')" and "distinct (map fst (st_generations (w_store w)))"
  shows "ix_current (index_of (w_store w')) = ix_current (index_of (w_store w))
    \<and> ix_nodes (index_of (w_store w')) = ix_nodes (index_of (w_store w))
    \<and> (\<forall>g. hex_name 32 g \<and> collect_protected args (w_store w) g
        \<longrightarrow> ix_generations (index_of (w_store w')) g = ix_generations (index_of (w_store w)) g)
    \<and> (index_ok native digest (index_of (w_store w)) \<longrightarrow> index_ok native digest (index_of (w_store w')))
    \<and> (ca_dry_run args \<longrightarrow> w_store w' = w_store w)
    \<and> (\<forall>report. r = Inr report \<longrightarrow>
        set (cr_generations report) = {g. hex_name 32 g \<and> is_plain (map_of (st_generations (w_store w)) g)
          \<and> \<not> collect_protected args (w_store w) g}
        \<and> (\<not> ca_dry_run args \<longrightarrow> (\<forall>g\<in>set (cr_generations report). ix_generations (index_of (w_store w')) g = None)))"
proof -
  note run = runs_collect_garbage [OF assms(3), of args]
  have kept: "collecting (ca_dry_run args) (\<lambda>g. hex_name 32 g \<and> collect_protected args (w_store w) g) (w_store w) (w_store w')"
  proof (cases r)
    case (Inl e)
    then show ?thesis using runs_Inl [OF run assms(1) refl, of e w'] assms(2) by auto
  next
    case (Inr report)
    then show ?thesis using runs_Inr [OF run assms(1) refl, of report w'] assms(2) by auto
  qed
  have result: "set (cr_generations report) = {g. hex_name 32 g \<and> is_plain (map_of (st_generations (w_store w)) g)
          \<and> \<not> collect_protected args (w_store w) g}
        \<and> (\<not> ca_dry_run args \<longrightarrow> (\<forall>g\<in>set (cr_generations report). ix_generations (index_of (w_store w')) g = None))"
    if "r = Inr report" for report
    using runs_Inr [OF run assms(1) refl, of report w'] assms(2) that by (auto simp: index_of_def)
  show ?thesis
    using collecting_index [OF kept] index_ok_collecting [OF kept] result by blast
qed

definition example_collect :: collect_args where
  "example_collect = \<lparr>ca_now = 100, ca_host = ''h'', ca_kill = (\<lambda>_. NoSuchProcess), ca_stale = Fin 0, ca_retention = Fin 0, ca_dry_run = False\<rparr>"

text \<open>A store with the current generation, an orphan, and an orphan held by an unreadable lease.\<close>

definition littered_store :: store where
  "littered_store = empty_store\<lparr>st_current := Some (Plain (pointer_text (replicate 32 CHR ''a''))),
     st_generations := [(replicate 32 CHR ''a'', Plain []), (replicate 32 CHR ''b'', Plain [(''x.bin'', Plain Torn)]),
       (replicate 32 CHR ''c'', Plain [])],
     st_leases := [(replicate 32 CHR ''c'', Plain [(''l.json'', Plain Torn)])]\<rparr>"

theorem collect_garbage_exact_witness:
  "ix_generations (index_of (w_store (snd (collect_garbage example_collect \<lparr>w_store = littered_store, w_faults = NoFault\<rparr>))))
     (replicate 32 CHR ''c'') = Some (Plain [])"
proof -
  let ?w = "\<lparr>w_store = littered_store, w_faults = NoFault\<rparr>"
  have hex: "hex_name 32 (replicate 32 CHR ''c'')" by (auto simp: hex_name_def lower_hex_def less_eq_char_def list_all_iff)
  have held: "collect_protected example_collect littered_store (replicate 32 CHR ''c'')"
    by (simp add: collect_protected_def lease_held_def littered_store_def lease_removable_def lease_is_stale_def)
  have "distinct (map fst (st_generations littered_store))" by (simp add: littered_store_def numeral_eq_Suc)
  then show ?thesis
    using collect_garbage_exact [of ?w example_collect, OF _ prod.collapse [symmetric], of reference_native example_digest] hex held
    by (simp add: live_def) (simp add: index_of_def littered_store_def numeral_eq_Suc)
qed

end
