(* ===== verification/Factor_Evict.thy ===== *)
theory Factor_Evict
  imports Factor_Collect "HOL-Library.Product_Lexorder"
begin

text \<open>
  Bounded eviction of cached nodes (\<open>evict_factor_nodes\<close> and \<open>enforce_factor_cache_quota\<close> of
  \<open>factor_store.py\<close>): least recently used nodes leave the index and then the disk until the limits hold.
  What \<open>stat\<close> and \<open>statvfs\<close> answer is the record \<open>disk\<close>: sizes, blocks, modification times, free bytes.
\<close>

section \<open>Sizes\<close>

record disk =
  dk_size :: "content \<Rightarrow> int"
  dk_blocks :: "string list \<Rightarrow> int"
  dk_mtime :: "string \<Rightarrow> int"
  dk_other :: int
  dk_free :: int
  dk_metrics :: metrics_call

definition generation_stored_bytes :: "disk \<Rightarrow> generation_dir \<Rightarrow> int res" where
  "generation_stored_bytes disk d =
     (if \<exists>f\<in>set d. snd f = Symlink then Inl (FactorStoreError ''factor generation may not use symbolic links'')
      else Inr (sum_list (map (\<lambda>f. case snd f of Plain c \<Rightarrow> dk_size disk c | _ \<Rightarrow> 0) d)))"

definition file_paths :: "string list \<Rightarrow> (string \<times> 'a entry) list \<Rightarrow> string list list" where
  "file_paths base d = map (\<lambda>f. base @ [fst f]) (filter (\<lambda>f. snd f \<noteq> Symlink) d)"

definition tree_paths :: "string list \<Rightarrow> (string \<times> (string \<times> 'a entry) list entry) list \<Rightarrow> string list list" where
  "tree_paths base d = concat (map (\<lambda>f. case snd f of
      Plain files \<Rightarrow> (base @ [fst f]) # file_paths (base @ [fst f]) files
    | Irregular \<Rightarrow> [base @ [fst f]]
    | Symlink \<Rightarrow> []) d)"

definition folder_paths :: "string \<Rightarrow> 'a folder \<Rightarrow> string list list" where
  "folder_paths nm d = (case d of Folder es \<Rightarrow> [nm] # file_paths [nm] es | _ \<Rightarrow> [])"

definition store_paths :: "store \<Rightarrow> string list list" where
  "store_paths st = (case st_current st of Some (Plain c) \<Rightarrow> [[''CURRENT'']] | _ \<Rightarrow> []) @ file_paths [] (st_pointers st)
     @ folder_paths ''nodes'' (st_nodes st) @ [''generations''] # tree_paths [''generations''] (st_generations st)
     @ [''leases''] # tree_paths [''leases''] (st_leases st) @ folder_paths ''access'' (st_access st)
     @ folder_paths ''admission'' (st_admission st) @ folder_paths ''metrics'' (st_metrics st)
     @ folder_paths ''migration'' (st_migration st)"

definition allocated_bytes :: "disk \<Rightarrow> string list list \<Rightarrow> int" where
  "allocated_bytes disk paths = sum_list (map (\<lambda>p. dk_blocks disk p * 512) paths)"

definition node_reclaimable :: "disk \<Rightarrow> store \<Rightarrow> string \<Rightarrow> string \<Rightarrow> int" where
  "node_reclaimable disk st node_key g =
     allocated_bytes disk (file_paths [''generations'', g] (dir_files (map_of (st_generations st) g)))
     + allocated_bytes disk ([''generations'', g]
         # (if map_of (entries (st_nodes st)) node_key \<in> {None, Some Symlink} then [] else [[''nodes'', node_key]])
         @ (if map_of (entries (st_access st)) (json_name node_key) \<in> {None, Some Symlink} then [] else [[''access'', json_name node_key]])
         @ (if map_of (entries (st_admission st)) (json_name node_key) \<in> {None, Some Symlink} then []
            else [[''admission'', json_name node_key]])
         @ (if map_of (st_leases st) g = Some (Plain []) then [[''leases'', g]] else []))"

section \<open>The entries\<close>

record evict_args =
  ea_max_bytes :: int
  ea_max_nodes :: "int option"
  ea_max_cache :: "int option"
  ea_minimum_free :: int
  ea_trigger :: "int option"
  ea_dry_run :: bool

record evict_entry =
  ee_access :: int
  ee_key :: string
  ee_generation :: string
  ee_stored :: int
  ee_allocated :: int
  ee_protected :: bool

definition node_leased :: "store \<Rightarrow> string \<Rightarrow> bool" where
  "node_leased st g = (case map_of (st_leases st) g of Some Symlink \<Rightarrow> True | Some (Plain ls) \<Rightarrow> ls \<noteq> [] | _ \<Rightarrow> False)"

definition manifest_created :: "disk \<Rightarrow> string \<Rightarrow> (string \<times> json) list \<Rightarrow> int res" where
  "manifest_created disk g manifest = (case map_of manifest ''created_ns'' of
      None \<Rightarrow> if dk_mtime disk g < 0 then Inl (FactorStoreError ''factor generation creation timestamp is invalid'') else Inr (dk_mtime disk g)
    | Some (JInt n) \<Rightarrow> if n < 0 then Inl (FactorStoreError ''factor generation creation timestamp is invalid'') else Inr n
    | Some _ \<Rightarrow> Inl (FactorStoreError ''factor generation creation timestamp is invalid''))"

definition evict_entry_of :: "disk \<Rightarrow> int \<Rightarrow> string \<Rightarrow> store \<Rightarrow> string \<Rightarrow> evict_entry res" where
  "evict_entry_of disk now_ns current st node_key =
     rbind (require (hex_name 64 node_key) (FactorStoreError ''factor node index contains an invalid key'')) (\<lambda>_.
     rbind (require_node_pointer st node_key) (\<lambda>g.
     let files = dir_files (map_of (st_generations st) g) in
     rbind (require (map_of (st_generations st) g \<noteq> Some Symlink \<and> map_of files ''manifest.json'' \<noteq> Some Symlink)
       (FactorStoreError ''factor generation may not use symbolic links'')) (\<lambda>_.
     case read_json (map_of files ''manifest.json'') of
       Inl _ \<Rightarrow> Inl (FactorStoreError ''factor generation manifest is unreadable'')
     | Inr (JObj manifest) \<Rightarrow>
         rbind (require (item_get manifest ''generation'' = JStr g \<and> item_get manifest ''node_key'' = JStr node_key)
           (FactorStoreError ''factor node index does not match its generation manifest'')) (\<lambda>_.
         rbind (generation_stored_bytes disk files) (\<lambda>stored.
         rbind (manifest_created disk g manifest) (\<lambda>created_ns.
         Inr \<lparr>ee_access = read_node_last_access st node_key g created_ns now_ns, ee_key = node_key, ee_generation = g,
           ee_stored = stored, ee_allocated = node_reclaimable disk st node_key g,
           ee_protected = (g = current \<or> node_leased st g)\<rparr>)))
     | Inr _ \<Rightarrow> Inl (AttributeError ''get''))))"

definition evict_entries :: "disk \<Rightarrow> int \<Rightarrow> string \<Rightarrow> store \<Rightarrow> evict_entry list res" where
  "evict_entries disk now_ns current st =
     rbind (require (st_nodes st \<noteq> Linked) (FactorStoreError ''factor node index may not use symbolic links'')) (\<lambda>_.
     res_map (evict_entry_of disk now_ns current st) (filter (\<lambda>k. \<not> dotted k) (map fst (entries (st_nodes st)))))"

section \<open>Eviction\<close>

record totals =
  to_bytes :: int
  to_nodes :: int
  to_cache :: int
  to_free :: int

definition evict_checks :: "evict_args \<Rightarrow> unit res" where
  "evict_checks args =
     rbind (require (0 \<le> ea_max_bytes args) (ValueError ''max_bytes must be a non-negative integer'')) (\<lambda>_.
     rbind (require (case ea_max_nodes args of None \<Rightarrow> True | Some n \<Rightarrow> 0 \<le> n)
       (ValueError ''max_nodes must be a non-negative integer or None'')) (\<lambda>_.
     rbind (require (case ea_max_cache args of None \<Rightarrow> True | Some n \<Rightarrow> 0 \<le> n)
       (ValueError ''max_cache_allocated_bytes must be a non-negative integer or None'')) (\<lambda>_.
     rbind (require (0 \<le> ea_minimum_free args) (ValueError ''minimum_free_bytes must be a non-negative integer or None'')) (\<lambda>_.
     rbind (require (case ea_trigger args of None \<Rightarrow> True | Some n \<Rightarrow> 0 \<le> n)
       (ValueError ''trigger_cache_allocated_bytes must be a non-negative integer or None'')) (\<lambda>_.
     require (case (ea_trigger args, ea_max_cache args) of (Some t, Some m) \<Rightarrow> m \<le> t | _ \<Rightarrow> True)
       (ValueError ''trigger_cache_allocated_bytes must not be below the cache target''))))))"

definition quota_triggered :: "evict_args \<Rightarrow> totals \<Rightarrow> bool" where
  "quota_triggered args before = ((case ea_trigger args of None \<Rightarrow> False | Some t \<Rightarrow> t < to_cache before)
     \<or> to_free before < ea_minimum_free args)"

definition over_limit :: "evict_args \<Rightarrow> bool \<Rightarrow> totals \<Rightarrow> bool" where
  "over_limit args triggered now =
     ((ea_max_bytes args < to_bytes now \<or> (case ea_max_nodes args of None \<Rightarrow> False | Some n \<Rightarrow> n < to_nodes now))
      \<or> (triggered \<and> ((case ea_max_cache args of None \<Rightarrow> False | Some m \<Rightarrow> m < to_cache now) \<or> to_free now < ea_minimum_free args)))"

definition evict_totals :: "evict_entry \<Rightarrow> totals \<Rightarrow> totals" where
  "evict_totals e now = \<lparr>to_bytes = to_bytes now - ee_stored e, to_nodes = to_nodes now - 1,
     to_cache = to_cache now - ee_allocated e, to_free = to_free now + ee_allocated e\<rparr>"

definition unlink_if_plain :: "(store \<Rightarrow> (content \<times> int) folder) \<Rightarrow> (string \<Rightarrow> store \<Rightarrow> store) \<Rightarrow> string \<Rightarrow> (world, unit) prog" where
  "unlink_if_plain folder unlink nm = pbind (reads (\<lambda>st. is_plain (map_of (entries (folder st)) nm))) (\<lambda>found.
     if found then io (unlink nm) else preturn ())"

text \<open>The node pointer goes first, then the tree, then what was recorded about the node.\<close>

definition evict_node :: "evict_entry \<Rightarrow> (world, unit) prog" where
  "evict_node e =
     pbind (io (unlink_node (ee_key e))) (\<lambda>_.
     pbind (rmtree (ee_generation e)) (\<lambda>_.
     pbind (reads (\<lambda>st. map_of (st_leases st) (ee_generation e))) (\<lambda>directory.
     pbind (if directory = Some (Plain []) then io (remove_lease_dir (ee_generation e)) else preturn ()) (\<lambda>_.
     pbind (unlink_if_plain st_access unlink_access (json_name (ee_key e))) (\<lambda>_.
     unlink_if_plain st_admission unlink_admission (json_name (ee_key e)))))))"

primrec evict_loop :: "evict_args \<Rightarrow> bool \<Rightarrow> evict_entry list \<Rightarrow> totals
    \<Rightarrow> (world, evict_entry list \<times> evict_entry list \<times> totals) prog" where
  "evict_loop args triggered [] now = preturn ([], [], now)"
| "evict_loop args triggered (e # es) now =
     (if \<not> over_limit args triggered now then preturn ([], [], now)
      else if ee_protected e then
        pbind (evict_loop args triggered es now) (\<lambda>(evicted, protected, final). preturn (evicted, e # protected, final))
      else
        pbind (unless_dry (ea_dry_run args) (evict_node e)) (\<lambda>_.
        pbind (evict_loop args triggered es (evict_totals e now)) (\<lambda>(evicted, protected, final).
        preturn (e # evicted, protected, final))))"

record evict_report =
  er_evicted_node_keys :: "string list"
  er_removed_generations :: "string list"
  er_protected_node_keys :: "string list"
  er_before :: totals
  er_after :: totals
  er_quota_triggered :: bool
  er_limits_satisfied :: bool
  er_metrics_recorded :: "bool option"

text \<open>\<open>if not dry_run and evicted_node_keys\<close>: the lifetime counters.\<close>

definition eviction_metrics :: "disk \<Rightarrow> evict_args \<Rightarrow> totals \<Rightarrow> evict_entry list \<times> evict_entry list \<times> totals \<Rightarrow> (world, bool option) prog" where
  "eviction_metrics disk args before = (\<lambda>(evicted, protected, final).
     if ea_dry_run args \<or> evicted = [] then preturn None
     else pbind (try_record_factor_cache_metrics (dk_metrics disk) [(''cache_evictions'', int (length evicted)),
         (''reclaimed_bytes'', to_cache before - to_cache final), (''lease_conflicts'', int (length protected))]) (\<lambda>recorded.
       preturn (Some recorded)))"

definition evict_factor_nodes :: "disk \<Rightarrow> int \<Rightarrow> evict_args \<Rightarrow> (world, evict_report) prog" where
  "evict_factor_nodes disk now_ns args =
     pbind (plift (evict_checks args)) (\<lambda>_.
     pbind (reads_res read_current) (\<lambda>current.
     pbind (reads_res (evict_entries disk now_ns current)) (\<lambda>entries.
     pbind (reads (\<lambda>st. allocated_bytes disk (store_paths st) + dk_other disk)) (\<lambda>allocated.
     let before = \<lparr>to_bytes = sum_list (map ee_stored entries), to_nodes = int (length entries), to_cache = allocated,
           to_free = dk_free disk\<rparr>;
         triggered = quota_triggered args before in
     pbind (evict_loop args triggered (sort_key (\<lambda>e. (ee_access e, ee_key e)) entries) before) (\<lambda>(evicted, protected, final).
     pbind (eviction_metrics disk args before (evicted, protected, final)) (\<lambda>recorded.
     preturn \<lparr>er_evicted_node_keys = map ee_key evicted, er_removed_generations = map ee_generation evicted,
       er_protected_node_keys = map ee_key protected, er_before = before, er_after = final, er_quota_triggered = triggered,
       er_limits_satisfied = (\<not> over_limit args triggered final), er_metrics_recorded = recorded\<rparr>))))))"

definition watermark_bytes :: "int \<Rightarrow> float64 \<Rightarrow> int res" where
  "watermark_bytes max_cache_bytes watermark = rbind (py_float max_cache_bytes) (\<lambda>m. json_to_int (JFloat (f_mul m watermark)))"

definition enforce_factor_cache_quota :: "disk \<Rightarrow> int \<Rightarrow> int \<Rightarrow> int \<Rightarrow> float64 \<Rightarrow> float64 \<Rightarrow> bool \<Rightarrow> (world, evict_report) prog" where
  "enforce_factor_cache_quota disk now_ns max_cache_bytes reserve_free_bytes high low dry_run =
     pbind (plift (require (0 \<le> max_cache_bytes) (ValueError ''max_cache_bytes must be a non-negative integer''))) (\<lambda>_.
     pbind (plift (require (0 \<le> reserve_free_bytes) (ValueError ''reserve_free_bytes must be a non-negative integer''))) (\<lambda>_.
     pbind (plift (require (is_finite low \<and> is_finite high) (ValueError ''watermarks must be finite''))) (\<lambda>_.
     pbind (plift (require (f_le (Fin 0) low \<and> f_lt low high \<and> f_le high (Fin 1))
       (ValueError ''watermarks must satisfy 0 <= low < high <= 1''))) (\<lambda>_.
     pbind (plift (watermark_bytes max_cache_bytes low)) (\<lambda>target.
     pbind (plift (watermark_bytes max_cache_bytes high)) (\<lambda>trigger.
     evict_factor_nodes disk now_ns \<lparr>ea_max_bytes = 2 ^ 63 - 1, ea_max_nodes = None, ea_max_cache = Some target,
       ea_minimum_free = reserve_free_bytes, ea_trigger = Some trigger, ea_dry_run = dry_run\<rparr>))))))"

section \<open>The plan\<close>

text \<open>What the loop decides, without its writes.\<close>

primrec evict_plan :: "evict_args \<Rightarrow> bool \<Rightarrow> evict_entry list \<Rightarrow> totals \<Rightarrow> evict_entry list \<times> evict_entry list \<times> totals" where
  "evict_plan args triggered [] now = ([], [], now)"
| "evict_plan args triggered (e # es) now =
     (if \<not> over_limit args triggered now then ([], [], now)
      else if ee_protected e then (case evict_plan args triggered es now of (ev, pr, fin) \<Rightarrow> (ev, e # pr, fin))
      else (case evict_plan args triggered es (evict_totals e now) of (ev, pr, fin) \<Rightarrow> (e # ev, pr, fin)))"

definition evictable :: "evict_entry list \<Rightarrow> evict_entry list" where
  "evictable es = filter (\<lambda>e. \<not> ee_protected e) es"

lemma evict_plan_prefix:
  assumes "evict_plan args triggered es now = (evicted, protected, final)"
  shows "evicted = take (length evicted) (evictable es) \<and> final = fold evict_totals evicted now
    \<and> (\<not> over_limit args triggered final \<or> evicted = evictable es)
    \<and> (\<forall>xs e ys. evicted = xs @ e # ys \<longrightarrow> over_limit args triggered (fold evict_totals xs now))"
  using assms
proof (induction es arbitrary: now evicted protected final)
  case Nil
  then show ?case by (simp add: evictable_def)
next
  case (Cons e es)
  show ?case
  proof (cases "\<not> over_limit args triggered now")
    case True
    then show ?thesis using Cons.prems by simp
  next
    case over: False
    show ?thesis
    proof (cases "ee_protected e")
      case True
      then obtain pr where pr: "evict_plan args triggered es now = (evicted, pr, final)"
        using Cons.prems over by (auto split: prod.splits)
      have es: "evictable (e # es) = evictable es" using True by (simp add: evictable_def)
      show ?thesis unfolding es by (rule Cons.IH [OF pr])
    next
      case False
      then obtain ev where ev: "evict_plan args triggered es (evict_totals e now) = (ev, protected, final)" "evicted = e # ev"
        using Cons.prems over by (auto split: prod.splits)
      have es: "evictable (e # es) = e # evictable es" using False by (simp add: evictable_def)
      note IH = Cons.IH [OF ev(1)]
      have IHo: "\<forall>xs x ys. ev = xs @ x # ys \<longrightarrow> over_limit args triggered (fold evict_totals xs (evict_totals e now))"
        using IH by (elim conjE)
      have "evicted = take (length evicted) (evictable (e # es))" using conjunct1 [OF IH] by (simp add: ev(2) es)
      moreover have "over_limit args triggered (fold evict_totals xs now)" if "evicted = xs @ x # ys" for xs x ys
      proof (cases xs)
        case Nil
        then show ?thesis using over by simp
      next
        case (Cons z zs)
        then have split: "ev = zs @ x # ys" and z: "z = e" using that by (simp_all add: ev(2))
        show ?thesis using IHo [rule_format, OF split] by (simp add: Cons z)
      qed
      moreover have "final = fold evict_totals evicted now" using conjunct1 [OF conjunct2 [OF IH]] by (simp add: ev(2))
      moreover have "\<not> over_limit args triggered final \<or> evicted = evictable (e # es)" using conjunct1 [OF conjunct2 [OF conjunct2 [OF IH]]] by (auto simp: ev(2) es)
      ultimately show ?thesis by blast
    qed
  qed
qed

lemma fold_evict_totals:
  "to_bytes (fold evict_totals es now) = to_bytes now - sum_list (map ee_stored es)"
  "to_nodes (fold evict_totals es now) = to_nodes now - int (length es)"
  "to_cache (fold evict_totals es now) = to_cache now - sum_list (map ee_allocated es)"
  "to_free (fold evict_totals es now) = to_free now + sum_list (map ee_allocated es)"
  by (induction es arbitrary: now) (simp_all add: evict_totals_def)

section \<open>What an eviction may touch\<close>

text \<open>The store when exactly the nodes \<open>gone\<close> have left the index, their trees possibly half deleted.\<close>

definition evicting :: "store \<Rightarrow> evict_entry set \<Rightarrow> store \<Rightarrow> bool" where
  "evicting t gone s = (st_current s = st_current t
     \<and> (\<forall>k. \<not> dotted k \<longrightarrow> map_of (entries (st_nodes s)) k = (if k \<in> ee_key ` gone then None else map_of (entries (st_nodes t)) k))
     \<and> (\<forall>g. g \<notin> ee_generation ` gone \<longrightarrow> map_of (st_generations s) g = map_of (st_generations t) g))"

definition evicting_some :: "bool \<Rightarrow> store \<Rightarrow> evict_entry set \<Rightarrow> store \<Rightarrow> bool" where
  "evicting_some dry t es s = (\<exists>gone\<subseteq>{e \<in> es. \<not> ee_protected e}. evicting t gone s \<and> (dry \<longrightarrow> s = t))"

lemma evicting_someI: "evicting t gone s \<Longrightarrow> gone \<subseteq> {e \<in> es. \<not> ee_protected e} \<Longrightarrow> \<not> dry \<Longrightarrow> evicting_some dry t es s"
  by (auto simp: evicting_some_def)

lemma evicting_metrics: "same_but_metrics s s' \<Longrightarrow> evicting t gone s' = evicting t gone s"
  by (simp add: evicting_def same_but_metrics_fields)

lemma evicting_refl: "evicting t {} t"
  by (simp add: evicting_def)

lemma evicting_unlink_node:
  assumes "evicting t gone s"
  shows "evicting t (insert e gone) (unlink_node (ee_key e) s)"
proof -
  have "map_of (entries (st_nodes (unlink_node (ee_key e) s))) k
      = (if k = ee_key e then None else map_of (entries (st_nodes s)) k)" for k
    by (auto simp: unlink_node_def delete_conv' split: folder.splits)
  moreover have "st_generations (unlink_node (ee_key e) s) = st_generations s" "st_current (unlink_node (ee_key e) s) = st_current s"
    by (simp_all add: unlink_node_def split: folder.splits)
  ultimately show ?thesis using assms by (simp add: evicting_def)
qed

lemma index_fields_frames [simp]:
  "st_current (remove_lease_dir g s) = st_current s" "st_nodes (remove_lease_dir g s) = st_nodes s"
  "st_generations (remove_lease_dir g s) = st_generations s"
  "st_current (unlink_access nm s) = st_current s" "st_nodes (unlink_access nm s) = st_nodes s"
  "st_generations (unlink_access nm s) = st_generations s"
  "st_current (unlink_admission nm s) = st_current s" "st_nodes (unlink_admission nm s) = st_nodes s"
  "st_generations (unlink_admission nm s) = st_generations s"
  "st_current (unlink_generation_file g f s) = st_current s" "st_nodes (unlink_generation_file g f s) = st_nodes s"
  "st_current (remove_generation_dir g s) = st_current s" "st_nodes (remove_generation_dir g s) = st_nodes s"
  by (simp_all add: remove_lease_dir_def unlink_access_def unlink_admission_def unlink_generation_file_def
      remove_generation_dir_def split: option.splits entry.splits folder.splits)

lemma other_generations:
  "h \<noteq> g \<Longrightarrow> map_of (st_generations (unlink_generation_file g f s)) h = map_of (st_generations s) h"
  "h \<noteq> g \<Longrightarrow> map_of (st_generations (remove_generation_dir g s)) h = map_of (st_generations s) h"
  by (simp_all add: unlink_generation_file_def remove_generation_dir_def delete_conv' split: option.splits entry.splits)

lemma evicting_frames:
  assumes "evicting t gone s"
  shows "evicting t gone (remove_lease_dir g s)" "evicting t gone (unlink_access nm s)" "evicting t gone (unlink_admission nm s)"
    "g \<in> ee_generation ` gone \<Longrightarrow> evicting t gone (unlink_generation_file g f s)"
    "g \<in> ee_generation ` gone \<Longrightarrow> evicting t gone (remove_generation_dir g s)"
proof -
  show "evicting t gone (remove_lease_dir g s)" "evicting t gone (unlink_access nm s)" "evicting t gone (unlink_admission nm s)"
    using assms by (simp_all add: evicting_def)
  {
    assume g: "g \<in> ee_generation ` gone"
    then have ne: "h \<noteq> g" if "h \<notin> ee_generation ` gone" for h using that by blast
    show "evicting t gone (unlink_generation_file g f s)"
      using assms other_generations(1) [OF ne] by (simp add: evicting_def)
    show "evicting t gone (remove_generation_dir g s)"
      using assms other_generations(2) [OF ne] by (simp add: evicting_def)
  }
qed

lemma runs_rmtree_evicting:
  assumes "evicting t gone s" "g \<in> ee_generation ` gone"
  shows "runs s (rmtree g) (\<lambda>_. evicting t gone) (\<lambda>_. evicting t gone) (evicting t gone)"
proof -
  have files: "runs s (pforeach (\<lambda>f. io (unlink_generation_file g f)) fs) (\<lambda>_. evicting t gone) (\<lambda>_. evicting t gone) (evicting t gone)" for fs
    by (rule runs_foreach_invariant, rule runs_io) (use assms evicting_frames(4) in auto)
  show ?thesis
    unfolding rmtree_def
    by (intro runs_bind_reads runs_bind [OF files] runs_io) (use assms(2) evicting_frames(5) in auto)
qed

lemma runs_unlink_if_plain:
  assumes "P s" "\<And>s. P s \<Longrightarrow> P (unlink nm s)"
  shows "runs s (unlink_if_plain folder unlink nm) (\<lambda>_. P) (\<lambda>_. P) P"
  unfolding unlink_if_plain_def using assms
  by (intro runs_bind_reads) (auto simp del: prog_simps intro!: runs_io runs_return)

lemma runs_evict_node:
  assumes "evicting t gone s"
  shows "runs s (evict_node e) (\<lambda>_. evicting t (insert e gone))
    (\<lambda>_ s'. evicting t gone s' \<or> evicting t (insert e gone) s') (\<lambda>s'. evicting t gone s' \<or> evicting t (insert e gone) s')"
proof -
  let ?J = "evicting t (insert e gone)" and ?E = "\<lambda>s'. evicting t gone s' \<or> evicting t (insert e gone) s'"
  have tail: "runs s' (pbind (rmtree (ee_generation e)) (\<lambda>_.
     pbind (reads (\<lambda>st. map_of (st_leases st) (ee_generation e))) (\<lambda>directory.
     pbind (if directory = Some (Plain []) then io (remove_lease_dir (ee_generation e)) else preturn ()) (\<lambda>_.
     pbind (unlink_if_plain st_access unlink_access (json_name (ee_key e))) (\<lambda>_.
     unlink_if_plain st_admission unlink_admission (json_name (ee_key e))))))) (\<lambda>_. ?J) (\<lambda>_. ?J) ?J" if J: "?J s'" for s'
  proof (rule runs_bind [OF runs_rmtree_evicting [OF J]], simp, rule runs_bind_reads)
    fix s1
    assume s1: "?J s1"
    have dir: "runs s1 (if d = Some (Plain []) then io (remove_lease_dir (ee_generation e)) else preturn ()) (\<lambda>_. ?J) (\<lambda>_. ?J) ?J" for d
      using s1 evicting_frames(1) by (auto simp del: prog_simps intro!: runs_io runs_return)
    show "runs s1 (pbind (if map_of (st_leases s1) (ee_generation e) = Some (Plain []) then io (remove_lease_dir (ee_generation e)) else preturn ()) (\<lambda>_.
     pbind (unlink_if_plain st_access unlink_access (json_name (ee_key e))) (\<lambda>_.
     unlink_if_plain st_admission unlink_admission (json_name (ee_key e))))) (\<lambda>_. ?J) (\<lambda>_. ?J) ?J"
      by (rule runs_bind [OF dir], rule runs_bind [OF runs_unlink_if_plain], assumption, erule evicting_frames(2),
          rule runs_unlink_if_plain, assumption, erule evicting_frames(3))
  qed
  show ?thesis
    unfolding evict_node_def
    by (rule runs_bind_io) (use assms evicting_unlink_node [OF assms, of e] in \<open>auto intro: runs_conseq [OF tail]\<close>)
qed

lemma runs_evict_loop:
  assumes "evicting t gone s" "gone \<subseteq> {e \<in> all. \<not> ee_protected e}" "set es \<subseteq> all" "ea_dry_run args \<longrightarrow> s = t \<and> gone = {}"
  shows "runs s (evict_loop args triggered es now)
    (\<lambda>result s'. result = evict_plan args triggered es now
       \<and> (if ea_dry_run args then s' = t else evicting t (gone \<union> set (fst result)) s'))
    (\<lambda>_. evicting_some (ea_dry_run args) t all) (evicting_some (ea_dry_run args) t all)"
  using assms
proof (induction es arbitrary: s gone now)
  case Nil
  then show ?case unfolding evict_loop.simps by (intro runs_return) simp
next
  case (Cons e es)
  let ?dry = "ea_dry_run args"
  let ?Q = "\<lambda>result s'. result = evict_plan args triggered (e # es) now
       \<and> (if ?dry then s' = t else evicting t (gone \<union> set (fst result)) s')"
  have all: "e \<in> all" "set es \<subseteq> all" using Cons.prems(3) by simp_all
  show ?case
  proof (cases "\<not> over_limit args triggered now")
    case True
    show ?thesis
      unfolding evict_loop.simps if_P [OF True] by (rule runs_return) (use Cons.prems True in auto)
  next
    case over: False
    show ?thesis
    proof (cases "ee_protected e")
      case True
      show ?thesis
        unfolding evict_loop.simps if_not_P [OF over] if_P [OF True]
        by (rule runs_bind [OF Cons.IH [OF Cons.prems(1,2) all(2) Cons.prems(4)]], clarify, rule runs_return)
          (use True over in \<open>auto split: prod.splits\<close>)
    next
      case False
      let ?gone = "if ?dry then gone else insert e gone"
      have sub: "?gone \<subseteq> {e \<in> all. \<not> ee_protected e}" using Cons.prems(2) all(1) False by auto
      have some: "evicting_some ?dry t all s'" if "\<not> ?dry" "evicting t gone s' \<or> evicting t (insert e gone) s'" for s'
        using that(2) evicting_someI [OF _ Cons.prems(2)] evicting_someI [of t "insert e gone"] sub that(1) by auto
      have step: "runs s (unless_dry ?dry (evict_node e)) (\<lambda>_ s'. evicting t ?gone s' \<and> (?dry \<longrightarrow> s' = t \<and> ?gone = {}))
          (\<lambda>_. evicting_some ?dry t all) (evicting_some ?dry t all)"
        by (intro runs_unless_dry runs_conseq [OF runs_evict_node [OF Cons.prems(1)]]) (use Cons.prems some in auto)
      have rest: "runs s' (pbind (evict_loop args triggered es (evict_totals e now)) (\<lambda>(evicted, protected, final).
          preturn (e # evicted, protected, final))) ?Q (\<lambda>_. evicting_some ?dry t all) (evicting_some ?dry t all)"
        if s': "evicting t ?gone s' \<and> (?dry \<longrightarrow> s' = t \<and> ?gone = {})" for s'
        by (rule runs_bind [OF Cons.IH [OF conjunct1 [OF s'] sub all(2) conjunct2 [OF s']]], clarify, rule runs_return)
          (use False over in \<open>auto split: prod.splits if_splits\<close>)
      show ?thesis
        unfolding evict_loop.simps if_not_P [OF over] if_not_P [OF False]
        by (rule runs_bind [OF step rest])
    qed
  qed
qed

section \<open>The entries of a sound index\<close>

lemma evict_entry_of_Inr:
  assumes "evict_entry_of disk now_ns current st k = Inr e"
  shows "ee_key e = k \<and> hex_name 64 k \<and> require_node_pointer st k = Inr (ee_generation e)
    \<and> ee_protected e = (ee_generation e = current \<or> node_leased st (ee_generation e))
    \<and> (\<exists>manifest. map_of (dir_files (map_of (st_generations st) (ee_generation e))) ''manifest.json'' = Some (Plain (Doc (JObj manifest)))
         \<and> item_get manifest ''node_key'' = JStr k)"
proof -
  obtain g where k: "hex_name 64 k" and g: "require_node_pointer st k = Inr g"
    using assms by (auto simp: evict_entry_of_def)
  let ?m = "map_of (dir_files (map_of (st_generations st) g)) ''manifest.json''"
  obtain manifest where m: "read_json ?m = Inr (JObj manifest)"
    using assms k g by (auto simp: evict_entry_of_def Let_def split: sum.splits json.splits)
  then have doc: "?m = Some (Plain (Doc (JObj manifest)))" by (cases ?m rule: read_json.cases) auto
  have "\<exists>stored created_ns. e = \<lparr>ee_access = read_node_last_access st k g created_ns now_ns, ee_key = k, ee_generation = g,
           ee_stored = stored, ee_allocated = node_reclaimable disk st k g, ee_protected = (g = current \<or> node_leased st g)\<rparr>
      \<and> item_get manifest ''node_key'' = JStr k"
    using assms k g by (simp add: evict_entry_of_def Let_def doc) (elim conjE rbindE, simp only: sum.inject, intro exI, erule sym)
  then show ?thesis using k g doc by auto
qed

lemma evict_entries_members:
  assumes "evict_entries disk now_ns current st = Inr es" "e \<in> set es"
  shows "evict_entry_of disk now_ns current st (ee_key e) = Inr e" "ee_key e \<in> fst ` set (entries (st_nodes st))"
proof -
  have "list_all2 (\<lambda>k e. evict_entry_of disk now_ns current st k = Inr e) (filter (\<lambda>k. \<not> dotted k) (map fst (entries (st_nodes st)))) es"
    using assms(1) by (simp add: evict_entries_def res_map_Inr_conv)
  from list_all2_source [OF this assms(2)] obtain k where "k \<in> fst ` set (entries (st_nodes st))" "evict_entry_of disk now_ns current st k = Inr e"
    by auto
  with evict_entry_of_Inr [OF this(2)] show "evict_entry_of disk now_ns current st (ee_key e) = Inr e" "ee_key e \<in> fst ` set (entries (st_nodes st))"
    by simp_all
qed

section \<open>Properties\<close>

definition evict_order :: "evict_entry list \<Rightarrow> evict_entry list" where
  "evict_order es = sort_key (\<lambda>e. (ee_access e, ee_key e)) es"

definition evict_before :: "disk \<Rightarrow> store \<Rightarrow> evict_entry list \<Rightarrow> totals" where
  "evict_before disk st es = \<lparr>to_bytes = sum_list (map ee_stored es), to_nodes = int (length es),
     to_cache = allocated_bytes disk (store_paths st) + dk_other disk, to_free = dk_free disk\<rparr>"

definition evict_report_of :: "evict_args \<Rightarrow> totals \<Rightarrow> bool option \<Rightarrow> evict_entry list \<times> evict_entry list \<times> totals \<Rightarrow> evict_report" where
  "evict_report_of args before recorded = (\<lambda>(evicted, protected, final). \<lparr>er_evicted_node_keys = map ee_key evicted,
     er_removed_generations = map ee_generation evicted, er_protected_node_keys = map ee_key protected, er_before = before,
     er_after = final, er_quota_triggered = quota_triggered args before,
     er_limits_satisfied = (\<not> over_limit args (quota_triggered args before) final), er_metrics_recorded = recorded\<rparr>)"

lemma evict_plan_unprotected: "set (fst (evict_plan args triggered (evict_order es) now)) \<subseteq> {e \<in> set es. \<not> ee_protected e}"
proof -
  obtain ev pr fin where plan: "evict_plan args triggered (evict_order es) now = (ev, pr, fin)"
    by (cases "evict_plan args triggered (evict_order es) now")
  have "set ev \<subseteq> set (evictable (evict_order es))"
    using conjunct1 [OF evict_plan_prefix [OF plan]] set_take_subset [of "length ev" "evictable (evict_order es)"] by metis
  then have "set ev \<subseteq> {e \<in> set es. \<not> ee_protected e}" by (auto simp: evictable_def evict_order_def)
  then show ?thesis by (simp add: plan)
qed

definition evict_left :: "disk \<Rightarrow> int \<Rightarrow> bool \<Rightarrow> store \<Rightarrow> store \<Rightarrow> bool" where
  "evict_left disk now_ns dry t s = (s = t \<or> (\<exists>current es. read_current t = Inr current \<and> evict_entries disk now_ns current t = Inr es
     \<and> evicting_some dry t (set es) s))"

lemma runs_evict_factor_nodes:
  "runs t (evict_factor_nodes disk now_ns args)
    (\<lambda>report s. \<exists>current es. read_current t = Inr current \<and> evict_entries disk now_ns current t = Inr es
       \<and> (let before = evict_before disk t es;
              plan = evict_plan args (quota_triggered args before) (evict_order es) before in
          (\<exists>recorded. report = evict_report_of args before recorded plan) \<and> (if ea_dry_run args then s = t else evicting t (set (fst plan)) s)))
    (\<lambda>_. evict_left disk now_ns (ea_dry_run args) t) (evict_left disk now_ns (ea_dry_run args) t)" (is "runs t _ ?Q (\<lambda>_. ?E) ?E")
proof -
  have loop: "runs t (let before = \<lparr>to_bytes = sum_list (map ee_stored es), to_nodes = int (length es),
        to_cache = allocated_bytes disk (store_paths t) + dk_other disk, to_free = dk_free disk\<rparr>;
         triggered = quota_triggered args before in
     pbind (evict_loop args triggered (sort_key (\<lambda>e. (ee_access e, ee_key e)) es) before) (\<lambda>(evicted, protected, final).
     pbind (eviction_metrics disk args before (evicted, protected, final)) (\<lambda>recorded.
     preturn \<lparr>er_evicted_node_keys = map ee_key evicted, er_removed_generations = map ee_generation evicted,
       er_protected_node_keys = map ee_key protected, er_before = before, er_after = final, er_quota_triggered = triggered,
       er_limits_satisfied = (\<not> over_limit args triggered final), er_metrics_recorded = recorded\<rparr>))) ?Q (\<lambda>_. ?E) ?E"
    if read: "read_current t = Inr current" "evict_entries disk now_ns current t = Inr es" for current es
  proof -
    let ?before = "evict_before disk t es"
    let ?triggered = "quota_triggered args ?before"
    let ?plan = "evict_plan args ?triggered (evict_order es) ?before"
    have left: "evicting_some (ea_dry_run args) t (set es) s \<Longrightarrow> ?E s" for s using read by (auto simp: evict_left_def)
    have plan: "runs t (evict_loop args ?triggered (evict_order es) ?before)
      (\<lambda>result s'. result = ?plan \<and> (if ea_dry_run args then s' = t else evicting t (set (fst result)) s')) (\<lambda>_. ?E) ?E"
      by (rule runs_conseq [OF runs_evict_loop [where gone = "{}" and all = "set es", OF evicting_refl]])
        (auto simp: evict_order_def left)
    have metrics: "runs s (eviction_metrics disk args ?before ?plan)
        (\<lambda>_ s'. if ea_dry_run args then s' = t else evicting t (set (fst ?plan)) s') (\<lambda>_. ?E) ?E"
      if s: "if ea_dry_run args then s = t else evicting t (set (fst ?plan)) s" for s
    proof (cases "ea_dry_run args \<or> fst ?plan = []")
      case True
      then show ?thesis using s by (auto simp: eviction_metrics_def split_beta simp del: prog_simps intro!: runs_return)
    next
      case False
      then have ev: "evicting t (set (fst ?plan)) s" using s by simp
      have E: "?E s'" if "same_but_metrics s s'" for s'
        using left evicting_someI [OF _ evict_plan_unprotected] that ev False evicting_metrics by blast
      have recorded: "runs s (try_record_factor_cache_metrics call increments) (\<lambda>_. evicting t (set (fst ?plan))) (\<lambda>_. ?E) ?E" for call increments
        by (rule runs_conseq [OF runs_try_record_metrics]) (use ev E evicting_metrics in auto)
      show ?thesis
        unfolding eviction_metrics_def split_beta if_not_P [OF False]
        by (rule runs_bind [OF recorded], rule runs_return) (use False in simp)
    qed
    have report: "(case result of (evicted, protected, final) \<Rightarrow>
     pbind (eviction_metrics disk args ?before (evicted, protected, final)) (\<lambda>recorded.
     preturn \<lparr>er_evicted_node_keys = map ee_key evicted, er_removed_generations = map ee_generation evicted,
       er_protected_node_keys = map ee_key protected, er_before = ?before, er_after = final, er_quota_triggered = ?triggered,
       er_limits_satisfied = (\<not> over_limit args ?triggered final), er_metrics_recorded = recorded\<rparr>))
      = pbind (eviction_metrics disk args ?before result) (\<lambda>recorded. preturn (evict_report_of args ?before recorded result))" for result
      by (simp add: evict_report_of_def split: prod.splits)
    show ?thesis
      unfolding Let_def evict_before_def [symmetric] evict_order_def [symmetric] report
      by (rule runs_bind [OF plan], elim conjE, rule runs_bind, simp only:, rule metrics, assumption, rule runs_return,
          intro exI conjI, rule read(1), rule read(2), simp_all split: if_splits)
  qed
  show ?thesis
    unfolding evict_factor_nodes_def
    by (intro runs_bind_lift runs_bind_reads_res runs_bind_reads loop) (auto simp: evict_left_def)
qed

lemma opens_key:
  assumes "opens native digest ix g (Some k) True" "map_of (dir_files (ix_generations ix g)) ''manifest.json'' = Some (Plain (Doc (JObj m)))"
    and "item_get m ''node_key'' = JStr j"
  shows "j = k"
  using assms by (auto simp: opens_def check_generation_def Let_def manifest_node_key_def split: if_splits)

lemma evicting_index:
  assumes "evicting t gone s" "hex_name 32 g" "g \<notin> ee_generation ` gone"
  shows "ix_generations (index_of s) g = ix_generations (index_of t) g"
  using assms by (simp add: evicting_def index_of_def)

lemma evicting_nodes:
  assumes "evicting t gone s"
  shows "ix_nodes (index_of s) k = (if k \<in> ee_key ` gone then None else ix_nodes (index_of t) k)"
  using assms by (simp add: evicting_def index_of_def)

lemma index_ok_evicting:
  assumes ok: "index_ok native digest (index_of t)" and read: "read_current t = Inr current" "evict_entries disk now_ns current t = Inr es"
    and gone: "gone \<subseteq> {e \<in> set es. \<not> ee_protected e}" "evicting t gone s"
  shows "index_ok native digest (index_of s)"
proof -
  let ?iy = "index_of t\<lparr>ix_nodes := ix_nodes (index_of s)\<rparr>"
  have entry: "evict_entry_of disk now_ns current t (ee_key e) = Inr e" if "e \<in> gone" for e
    using evict_entries_members(1) [OF read(2)] gone(1) that by blast
  have fewer: "index_ok native digest ?iy"
    using ok unfolding index_ok_def opens_def by (auto simp: evicting_nodes [OF gone(2)])
  have current: "ix_generations (index_of s) g = ix_generations (index_of t) g"
    if "hex_name 32 g" "ix_current (index_of t) = Some (Plain (pointer_text g))" for g
  proof (rule evicting_index [OF gone(2) that(1)])
    have "current = g" using that read(1) by (simp add: index_of_def read_current_def pointer_text_def str_strip_hex)
    then show "g \<notin> ee_generation ` gone" using evict_entry_of_Inr [OF entry] gone(1) by auto
  qed
  have node: "ix_generations (index_of s) g = ix_generations (index_of t) g"
    if g: "hex_name 32 g" and k: "hex_name 64 k" "ix_nodes (index_of s) k = Some (Plain (pointer_text g))" for g k
  proof (rule evicting_index [OF gone(2) g], rule notI)
    assume "g \<in> ee_generation ` gone"
    then obtain e where e: "e \<in> gone" "ee_generation e = g" by blast
    have kept: "k \<notin> ee_key ` gone" "ix_nodes (index_of t) k = Some (Plain (pointer_text g))"
      using k(2) by (simp_all add: evicting_nodes [OF gone(2)] split: if_splits)
    obtain m where m: "map_of (dir_files (map_of (st_generations t) g)) ''manifest.json'' = Some (Plain (Doc (JObj m)))"
        "item_get m ''node_key'' = JStr (ee_key e)"
      using evict_entry_of_Inr [OF entry [OF e(1)]] e(2) by auto
    obtain h where "hex_name 32 h" "Plain (pointer_text g) = Plain (pointer_text h)" "opens native digest (index_of t) h (Some k) True"
      using ok kept(2) unfolding index_ok_def by blast
    then have "opens native digest (index_of t) g (Some k) True" by (simp add: pointer_text_def)
    from opens_key [OF this _ m(2)] have "ee_key e = k" using m(1) g by (simp add: index_of_def)
    then show False using kept(1) e(1) by blast
  qed
  show ?thesis
    by (rule index_ok_keep [OF fewer]) (use gone(2) current node in \<open>simp_all add: evicting_def index_of_def\<close>)
qed

lemma evict_left_index:
  assumes "evict_left disk now_ns dry t s"
  shows "ix_current (index_of s) = ix_current (index_of t)
    \<and> (\<forall>k. ix_nodes (index_of s) k \<in> {ix_nodes (index_of t) k, None})
    \<and> (\<forall>k g. require_node_pointer t k = Inr g \<and> (read_current t = Inr g \<or> node_leased t g)
        \<longrightarrow> ix_nodes (index_of s) k = ix_nodes (index_of t) k)
    \<and> (\<forall>g. hex_name 32 g \<and> (read_current t = Inr g \<or> node_leased t g)
        \<longrightarrow> ix_generations (index_of s) g = ix_generations (index_of t) g)
    \<and> (index_ok native digest (index_of t) \<longrightarrow> index_ok native digest (index_of s))
    \<and> (dry \<longrightarrow> s = t)"
proof (cases "s = t")
  case True
  then show ?thesis by simp
next
  case False
  then obtain current es gone where read: "read_current t = Inr current" "evict_entries disk now_ns current t = Inr es"
      and gone: "gone \<subseteq> {e \<in> set es. \<not> ee_protected e}" "evicting t gone s" "dry \<longrightarrow> s = t"
    using assms by (auto simp: evict_left_def evicting_some_def)
  have entry: "require_node_pointer t (ee_key e) = Inr (ee_generation e) \<and> ee_generation e \<noteq> current \<and> \<not> node_leased t (ee_generation e)"
    if "e \<in> gone" for e
    using evict_entry_of_Inr [OF evict_entries_members(1) [OF read(2)], of e] gone(1) that by auto
  have "ix_current (index_of s) = ix_current (index_of t)" using gone(2) by (simp add: evicting_def index_of_def)
  moreover have "ix_nodes (index_of s) k = ix_nodes (index_of t) k"
    if "require_node_pointer t k = Inr g" "read_current t = Inr g \<or> node_leased t g" for k g
    using entry that read(1) by (auto simp: evicting_nodes [OF gone(2)])
  moreover have "ix_generations (index_of s) g = ix_generations (index_of t) g"
    if "hex_name 32 g" "read_current t = Inr g \<or> node_leased t g" for g
    by (rule evicting_index [OF gone(2) that(1)]) (use entry that(2) read(1) in auto)
  ultimately show ?thesis
    using index_ok_evicting [OF _ read gone(1,2)] gone(3) by (simp add: evicting_nodes [OF gone(2)])
qed

lemma eviction_left:
  assumes "live w" "evict_factor_nodes disk now_ns args w = (r, w')"
  shows "evict_left disk now_ns (ea_dry_run args) (w_store w) (w_store w')"
proof (cases r)
  case (Inl e)
  then show ?thesis using runs_Inl [OF runs_evict_factor_nodes assms(1) refl, of disk now_ns args e w'] assms(2) by auto
next
  case (Inr report)
  then obtain current es where read: "read_current (w_store w) = Inr current" "evict_entries disk now_ns current (w_store w) = Inr es"
      and s: "let before = evict_before disk (w_store w) es;
            plan = evict_plan args (quota_triggered args before) (evict_order es) before in
        (\<exists>recorded. report = evict_report_of args before recorded plan)
        \<and> (if ea_dry_run args then w_store w' = w_store w else evicting (w_store w) (set (fst plan)) (w_store w'))"
    using runs_Inr [OF runs_evict_factor_nodes assms(1) refl, of disk now_ns args report w'] assms(2) by auto
  show ?thesis
    using read s evict_plan_unprotected by (auto simp: evict_left_def evicting_some_def Let_def split: if_splits)
qed

text \<open>
  Claim C23. However an eviction ends (with its report, with an exception anywhere, or with the process dead between
  two writes), \<open>CURRENT\<close> is what it was, every node pointer is what it was or gone, the nodes whose generation is
  current or leased keep their pointer and their whole generation, a dry run has written nothing, and in a sound
  index (every pointer names a generation that opens) every pointer left still names a generation that opens.
\<close>

theorem evict_factor_nodes_safe:
  assumes "live w" and "evict_factor_nodes disk now_ns args w = (r, w')"
  shows "ix_current (index_of (w_store w')) = ix_current (index_of (w_store w))
    \<and> (\<forall>k. ix_nodes (index_of (w_store w')) k \<in> {ix_nodes (index_of (w_store w)) k, None})
    \<and> (\<forall>k g. require_node_pointer (w_store w) k = Inr g \<and> (read_current (w_store w) = Inr g \<or> node_leased (w_store w) g)
        \<longrightarrow> ix_nodes (index_of (w_store w')) k = ix_nodes (index_of (w_store w)) k)
    \<and> (\<forall>g. hex_name 32 g \<and> (read_current (w_store w) = Inr g \<or> node_leased (w_store w) g)
        \<longrightarrow> ix_generations (index_of (w_store w')) g = ix_generations (index_of (w_store w)) g)
    \<and> (index_ok native digest (index_of (w_store w)) \<longrightarrow> index_ok native digest (index_of (w_store w')))
    \<and> (ea_dry_run args \<longrightarrow> w_store w' = w_store w)"
  using evict_left_index [OF eviction_left [OF assms]] .

text \<open>
  Claim C24. An eviction that returns has removed the least recently used nodes and no more than it had to: the
  evicted keys are the first of the unprotected nodes in the order of their last access (ties by key), the limits
  were exceeded before each of them, and afterwards they hold or no unprotected node is left. The totals reported are
  those before less what was evicted. Unless it was a dry run, exactly the evicted nodes have left the index.
\<close>

theorem evict_factor_nodes_lru:
  assumes "live w" and "evict_factor_nodes disk now_ns args w = (Inr report, w')"
  shows "\<exists>current es. read_current (w_store w) = Inr current \<and> evict_entries disk now_ns current (w_store w) = Inr es
    \<and> (let order = filter (\<lambda>e. \<not> ee_protected e) (sort_key (\<lambda>e. (ee_access e, ee_key e)) es);
           n = length (er_evicted_node_keys report);
           after = (\<lambda>i. fold evict_totals (take i order) (er_before report)) in
       er_evicted_node_keys report = take n (map ee_key order)
       \<and> (\<forall>i<n. over_limit args (er_quota_triggered report) (after i))
       \<and> (er_limits_satisfied report \<or> n = length order)
       \<and> er_limits_satisfied report = (\<not> over_limit args (er_quota_triggered report) (er_after report))
       \<and> er_after report = after n
       \<and> to_bytes (er_after report) = sum_list (map ee_stored es) - sum_list (map ee_stored (take n order))
       \<and> (\<forall>k. \<not> ea_dry_run args \<longrightarrow> ix_nodes (index_of (w_store w')) k
            = (if k \<in> set (er_evicted_node_keys report) then None else ix_nodes (index_of (w_store w)) k)))"
proof -
  obtain current es where read: "read_current (w_store w) = Inr current" "evict_entries disk now_ns current (w_store w) = Inr es"
      and s: "let before = evict_before disk (w_store w) es;
            plan = evict_plan args (quota_triggered args before) (evict_order es) before in
        (\<exists>recorded. report = evict_report_of args before recorded plan)
        \<and> (if ea_dry_run args then w_store w' = w_store w else evicting (w_store w) (set (fst plan)) (w_store w'))"
    using runs_Inr [OF runs_evict_factor_nodes assms(1) refl, of disk now_ns args report w'] assms(2) by auto
  let ?before = "evict_before disk (w_store w) es" and ?order = "evictable (evict_order es)"
  let ?triggered = "quota_triggered args ?before"
  obtain ev pr fin where plan: "evict_plan args ?triggered (evict_order es) ?before = (ev, pr, fin)"
    by (cases "evict_plan args ?triggered (evict_order es) ?before")
  note prefix = evict_plan_prefix [OF plan]
  have ev: "ev = take (length ev) ?order" and fin: "fin = fold evict_totals ev ?before"
      and stop: "\<not> over_limit args ?triggered fin \<or> ev = ?order"
      and over: "\<And>xs e ys. ev = xs @ e # ys \<Longrightarrow> over_limit args ?triggered (fold evict_totals xs ?before)"
    using prefix by blast+
  obtain recorded where report: "report = evict_report_of args ?before recorded (ev, pr, fin)" using s plan by (auto simp: Let_def)
  have n: "length (er_evicted_node_keys report) = length ev" by (simp add: report evict_report_of_def)
  have over_i: "over_limit args ?triggered (fold evict_totals (take i ?order) ?before)" if i: "i < length ev" for i
  proof -
    have "take i ?order = take i ev" using ev i by (metis min.strict_order_iff take_take)
    then show ?thesis using over [OF id_take_nth_drop [OF i]] by simp
  qed
  have nodes: "ix_nodes (index_of (w_store w')) k = (if k \<in> set (map ee_key ev) then None else ix_nodes (index_of (w_store w)) k)"
    if "\<not> ea_dry_run args" for k
    using s plan that evicting_nodes [of "w_store w" "set ev" "w_store w'" k] by (simp add: Let_def)
  have keys: "map ee_key ev = take (length ev) (map ee_key ?order)" using ev by (metis take_map)
  have bytes: "to_bytes fin = sum_list (map ee_stored es) - sum_list (map ee_stored (take (length ev) ?order))"
    unfolding fin fold_evict_totals(1) using ev by (simp add: evict_before_def)
  have all: "\<not> over_limit args ?triggered fin \<or> length ev = length ?order" using stop by auto
  have final: "fin = fold evict_totals (take (length ev) ?order) ?before" unfolding fin using ev by simp
  show ?thesis
    unfolding evictable_def [symmetric] evict_order_def [symmetric] Let_def n
    by (intro exI conjI, rule read(1), rule read(2))
      (use keys over_i all final bytes nodes in \<open>simp_all add: report evict_report_of_def\<close>)
qed

text \<open>A store whose current generation is not indexed and whose only node is old.\<close>

definition example_disk :: disk where
  "example_disk = \<lparr>dk_size = (\<lambda>_. 1), dk_blocks = (\<lambda>_. 1), dk_mtime = (\<lambda>_. 0), dk_other = 0, dk_free = 0,
     dk_metrics = \<lparr>mc_link_exists = False, mc_now_ns = 10, mc_uuid = ''u''\<rparr>\<rparr>"

definition example_evict :: evict_args where
  "example_evict = \<lparr>ea_max_bytes = 0, ea_max_nodes = None, ea_max_cache = None, ea_minimum_free = 0, ea_trigger = None, ea_dry_run = False\<rparr>"

definition aged_key :: string where
  "aged_key = replicate 64 CHR ''a''"

definition aged_store :: store where
  "aged_store = empty_store\<lparr>st_current := Some (Plain (pointer_text (replicate 32 CHR ''c''))),
     st_nodes := Folder [(aged_key, Plain (pointer_text (replicate 32 CHR ''b'')))],
     st_generations := [(replicate 32 CHR ''b'', Plain [(''manifest.json'', Plain (Doc (JObj
       [(''generation'', JStr (replicate 32 CHR ''b'')), (''node_key'', JStr aged_key), (''created_ns'', JInt 5)])))])]\<rparr>"

theorem evict_factor_nodes_safe_witness:
  "ix_current (index_of (w_store (snd (evict_factor_nodes example_disk 10 example_evict
     \<lparr>w_store = aged_store, w_faults = CrashAfter 1\<rparr>)))) = Some (Plain (pointer_text (replicate 32 CHR ''c'')))"
  using evict_factor_nodes_safe [of "\<lparr>w_store = aged_store, w_faults = CrashAfter 1\<rparr>" example_disk 10 example_evict,
      OF _ prod.collapse [symmetric]]
  by (simp add: live_def) (simp add: index_of_def aged_store_def)

lemma aged_run:
  "map_sum (\<lambda>_. ()) er_evicted_node_keys (fst (evict_factor_nodes example_disk 10 example_evict
     \<lparr>w_store = aged_store, w_faults = NoFault\<rparr>)) = Inr [aged_key]"
  by code_simp

theorem evict_factor_nodes_lru_witness:
  "ix_nodes (index_of (w_store (snd (evict_factor_nodes example_disk 10 example_evict
     \<lparr>w_store = aged_store, w_faults = NoFault\<rparr>)))) aged_key = None"
proof -
  let ?w = "\<lparr>w_store = aged_store, w_faults = NoFault\<rparr>"
  obtain report w' where run: "evict_factor_nodes example_disk 10 example_evict ?w = (Inr report, w')"
      and keys: "er_evicted_node_keys report = [aged_key]"
    using aged_run by (cases "evict_factor_nodes example_disk 10 example_evict ?w"; cases "fst (evict_factor_nodes example_disk 10 example_evict ?w)") auto
  have "\<not> ea_dry_run example_evict" by (simp add: example_evict_def)
  then show ?thesis
    using evict_factor_nodes_lru [OF _ run] by (auto simp: live_def run keys Let_def)
qed

end
