(* ===== verification/Factor_Admission.thy ===== *)
theory Factor_Admission
  imports Factor_Evict
begin

text \<open>
  Rejection hints (\<open>factor_admission.py\<close>): a node whose caching was declined is remembered in
  \<open>admission\<close> for a while, under the policy that declined it, and is then not looked up again.
\<close>

section \<open>Hints\<close>

definition ADMISSION_FORMAT :: string where "ADMISSION_FORMAT = ''gambit-factor-admission''"

definition ADMISSION_VERSION :: int where "ADMISSION_VERSION = 1"

definition rejection_fields :: "string set" where
  "rejection_fields = {''format'', ''version'', ''node_key'', ''policy_key'', ''decision'', ''compute_seconds'', ''output_bytes'', ''recorded_ns''}"

text \<open>\<open>math.isfinite\<close> of an integer beyond the range of a float raises.\<close>

fun non_negative_number :: "json \<Rightarrow> bool res" where
  "non_negative_number (JInt n) = rbind (py_float n) (\<lambda>_. Inr (0 \<le> n))"
| "non_negative_number (JFloat x) = Inr (is_finite x \<and> f_le (Fin 0) x)"
| "non_negative_number _ = Inr False"

fun non_negative_int :: "json \<Rightarrow> bool" where
  "non_negative_int (JInt n) = (0 \<le> n)"
| "non_negative_int _ = False"

definition rejection_valid :: "string \<Rightarrow> string \<Rightarrow> (string \<times> json) list \<Rightarrow> bool res" where
  "rejection_valid node_key policy_key v =
     (if item_get v ''format'' \<noteq> JStr ADMISSION_FORMAT \<or> item_get v ''version'' \<noteq> JInt ADMISSION_VERSION
         \<or> item_get v ''node_key'' \<noteq> JStr node_key \<or> item_get v ''policy_key'' \<noteq> JStr policy_key
         \<or> item_get v ''decision'' \<noteq> JStr ''decline''
      then Inr False
      else rbind (non_negative_number (item_get v ''compute_seconds'')) (\<lambda>ok.
        Inr (ok \<and> non_negative_int (item_get v ''output_bytes'') \<and> non_negative_int (item_get v ''recorded_ns''))))"

definition check_keys :: "string \<Rightarrow> string \<Rightarrow> unit res" where
  "check_keys node_key policy_key =
     require (hex_name 64 node_key \<and> hex_name 64 policy_key) (ValueError ''node_key and policy_key must be lowercase SHA-256 digests'')"

definition has_recent_rejection :: "store \<Rightarrow> int \<Rightarrow> string \<Rightarrow> string \<Rightarrow> float64 \<Rightarrow> bool res" where
  "has_recent_rejection st now_ns node_key policy_key ttl_seconds =
     rbind (check_keys node_key policy_key) (\<lambda>_.
     rbind (require (is_finite ttl_seconds \<and> f_le (Fin 0) ttl_seconds) (ValueError ''ttl_seconds must be finite and non-negative'')) (\<lambda>_.
     case map_of (entries (st_admission st)) (json_name node_key) of
       Some (Plain (Doc (JObj v), _)) \<Rightarrow>
         if set (map fst v) \<noteq> rejection_fields then Inr False
         else rbind (rejection_valid node_key policy_key v) (\<lambda>ok.
           if \<not> ok then Inr False
           else case item_get v ''recorded_ns'' of
               JInt recorded_ns \<Rightarrow> Inr (0 \<le> now_ns - recorded_ns
                 \<and> f_lt (Fin (of_int (now_ns - recorded_ns))) (f_mul ttl_seconds (Fin 1000000000)))
             | _ \<Rightarrow> Inr False)
     | _ \<Rightarrow> Inr False))"

definition rejection_record :: "string \<Rightarrow> string \<Rightarrow> float64 \<Rightarrow> int \<Rightarrow> int \<Rightarrow> json" where
  "rejection_record node_key policy_key compute_seconds output_bytes now_ns = sorted_json (JObj [
     (''format'', JStr ADMISSION_FORMAT), (''version'', JInt ADMISSION_VERSION), (''node_key'', JStr node_key),
     (''policy_key'', JStr policy_key), (''decision'', JStr ''decline''), (''compute_seconds'', JFloat compute_seconds),
     (''output_bytes'', JInt output_bytes), (''recorded_ns'', JInt now_ns)])"

definition make_admission :: "store \<Rightarrow> store" where
  "make_admission st = (case st_admission st of Absent \<Rightarrow> st\<lparr>st_admission := Folder []\<rparr> | _ \<Rightarrow> st)"

definition put_admission :: "string \<Rightarrow> content \<Rightarrow> int \<Rightarrow> store \<Rightarrow> store" where
  "put_admission nm c now_ns st = (case st_admission st of
      Folder d \<Rightarrow> st\<lparr>st_admission := Folder (dict_set nm (Plain (c, now_ns)) d)\<rparr> | _ \<Rightarrow> st)"

definition replace_admission :: "string \<Rightarrow> string \<Rightarrow> store \<Rightarrow> store" where
  "replace_admission staging nm st = (case st_admission st of
      Folder d \<Rightarrow> (case map_of d staging of
          Some e \<Rightarrow> st\<lparr>st_admission := Folder (dict_set nm e (AList.delete staging d))\<rparr>
        | None \<Rightarrow> st)
    | _ \<Rightarrow> st)"

definition admission_staging :: "env \<Rightarrow> string \<Rightarrow> string" where
  "admission_staging env node_key = ''.'' @ node_key @ ''-'' @ ev_generation env"

definition record_rejection :: "env \<Rightarrow> string \<Rightarrow> string \<Rightarrow> float64 \<Rightarrow> int \<Rightarrow> (world, unit) prog" where
  "record_rejection env node_key policy_key compute_seconds output_bytes =
     (let staging = admission_staging env node_key; value = rejection_record node_key policy_key compute_seconds output_bytes (ev_now env) in
     pbind (plift (check_keys node_key policy_key)) (\<lambda>_.
     pbind (plift (require (is_finite compute_seconds \<and> f_le (Fin 0) compute_seconds \<and> 0 \<le> output_bytes)
       (ValueError ''admission measurements must be finite and non-negative''))) (\<lambda>_.
     pbind (io make_admission) (\<lambda>_.
     on_exception (pbind (io (put_admission staging Torn (ev_now env))) (\<lambda>_.
       pbind (io (put_admission staging (Doc value) (ev_now env))) (\<lambda>_.
       io (replace_admission staging (json_name node_key))))) (unlink_admission staging)))))"

definition clear_rejection :: "string \<Rightarrow> (world, unit) prog" where
  "clear_rejection node_key =
     pbind (plift (require (hex_name 64 node_key) (ValueError ''node_key must be a lowercase SHA-256 digest''))) (\<lambda>_.
     unlink_if_plain st_admission unlink_admission (json_name node_key))"

section \<open>What a hint says\<close>

lemma rejection_record_fields:
  "rejection_record k pk secs bytes now = JObj [(''compute_seconds'', JFloat secs), (''decision'', JStr ''decline''),
     (''format'', JStr ADMISSION_FORMAT), (''node_key'', JStr k), (''output_bytes'', JInt bytes), (''policy_key'', JStr pk),
     (''recorded_ns'', JInt now), (''version'', JInt ADMISSION_VERSION)]"
  by (simp add: rejection_record_def)

definition hint_holds :: "json \<Rightarrow> store \<Rightarrow> string \<Rightarrow> bool" where
  "hint_holds value st node_key = (\<exists>d time. st_admission st = Folder d \<and> map_of d (json_name node_key) = Some (Plain (Doc value, time)))"

lemma recent_rejection_of_hint:
  assumes "hint_holds (rejection_record k pk secs bytes recorded) st k" "hex_name 64 k" "hex_name 64 pk'"
    and "is_finite secs" "f_le (Fin 0) secs" "0 \<le> bytes" "0 \<le> recorded" "is_finite ttl" "f_le (Fin 0) ttl"
  shows "has_recent_rejection st now k pk' ttl = Inr (pk' = pk \<and> recorded \<le> now
    \<and> f_lt (Fin (of_int (now - recorded))) (f_mul ttl (Fin 1000000000)))"
proof -
  have fields: "{''compute_seconds'', ''decision'', ''format'', ''node_key'', ''output_bytes'', ''policy_key'', ''recorded_ns'', ''version''}
      = rejection_fields"
    by (auto simp: rejection_fields_def)
  obtain d time where "st_admission st = Folder d" "map_of d (json_name k) = Some (Plain (Doc (rejection_record k pk secs bytes recorded), time))"
    using assms(1) by (auto simp: hint_holds_def)
  then show ?thesis
    using assms(2-9) by (simp add: has_recent_rejection_def rejection_record_fields fields check_keys_def require_def rejection_valid_def item_get_def)
qed

lemma no_recent_rejection:
  assumes "map_of (entries (st_admission st)) (json_name k) = None" "hex_name 64 k" "hex_name 64 pk" "is_finite ttl" "f_le (Fin 0) ttl"
  shows "has_recent_rejection st now k pk ttl = Inr False"
  using assms by (simp add: has_recent_rejection_def check_keys_def require_def)

lemma staging_not_json [simp]: "hex_name 64 k \<Longrightarrow> json_name k \<noteq> admission_staging env k"
  by (cases k) (auto simp: admission_staging_def json_name_def hex_name_def lower_hex_def less_eq_char_def)

lemma record_rejection_no_fault:
  assumes "w_faults w = NoFault" "hex_name 64 k" "hex_name 64 pk" "is_finite secs" "f_le (Fin 0) secs" "0 \<le> bytes"
    and "st_admission (w_store w) \<noteq> Linked"
  shows "\<exists>w'. record_rejection env k pk secs bytes w = (Inr (), w') \<and> w_faults w' = NoFault
    \<and> hint_holds (rejection_record k pk secs bytes (ev_now env)) (w_store w') k"
  using assms by (cases "st_admission (w_store w)")
    (simp_all add: record_rejection_def Let_def check_keys_def require_def pbind_def io_no_fault on_exception_def make_admission_def
      put_admission_def replace_admission_def hint_holds_def delete_conv')

lemma clear_rejection_no_fault:
  assumes "w_faults w = NoFault" "hex_name 64 k" "hint_holds value (w_store w) k"
  shows "\<exists>w'. clear_rejection k w = (Inr (), w') \<and> map_of (entries (st_admission (w_store w'))) (json_name k) = None"
  using assms by (auto simp: clear_rejection_def require_def pbind_def reads_def unlink_if_plain_def io_no_fault hint_holds_def
      unlink_admission_def delete_conv')

text \<open>
  A rejection hint says exactly what was recorded: until its time to live is over it makes the
  node a rejected one for the policy that declined it, never for another policy and never before it was
  recorded, and clearing it takes it back.
\<close>

lemma rejection_hint_round_trip:
  assumes "w_faults w = NoFault" and "st_admission (w_store w) \<noteq> Linked" and "hex_name 64 k" and "hex_name 64 pk"
    and "is_finite secs" and "f_le (Fin 0) secs" and "0 \<le> bytes" and "0 \<le> ev_now env"
  shows "\<exists>w' w''. record_rejection env k pk secs bytes w = (Inr (), w') \<and> clear_rejection k w' = (Inr (), w'')
    \<and> (\<forall>now pk' ttl. hex_name 64 pk' \<and> is_finite ttl \<and> f_le (Fin 0) ttl \<longrightarrow>
        has_recent_rejection (w_store w') now k pk' ttl = Inr (pk' = pk \<and> ev_now env \<le> now
          \<and> f_lt (Fin (of_int (now - ev_now env))) (f_mul ttl (Fin 1000000000)))
        \<and> has_recent_rejection (w_store w'') now k pk' ttl = Inr False)"
proof -
  obtain w' where s: "record_rejection env k pk secs bytes w = (Inr (), w')" "w_faults w' = NoFault"
      "hint_holds (rejection_record k pk secs bytes (ev_now env)) (w_store w') k"
    using record_rejection_no_fault [OF assms(1,3-7,2)] by blast
  obtain w'' where u: "clear_rejection k w' = (Inr (), w'')" "map_of (entries (st_admission (w_store w''))) (json_name k) = None"
    using clear_rejection_no_fault [OF s(2) assms(3) s(3)] by blast
  show ?thesis
    using s u recent_rejection_of_hint [OF s(3) assms(3) _ assms(5-8)] no_recent_rejection [OF u(2) assms(3)]
    by (intro exI [of _ w'] exI [of _ w'']) simp
qed

lemma rejection_hint_round_trip_instance:
  "\<exists>w'. record_rejection example_env example_key example_key (Fin 1) 8 \<lparr>w_store = empty_store, w_faults = NoFault\<rparr> = (Inr (), w')
    \<and> has_recent_rejection (w_store w') (ev_now example_env) example_key example_key (Fin 60) = Inr True"
proof -
  have k: "hex_name 64 example_key" using example_facts by simp
  have "0 \<le> ev_now example_env" by (simp add: example_env_def)
  moreover have "f_lt (Fin (of_int (ev_now example_env - ev_now example_env))) (f_mul (Fin 60) (Fin 1000000000))" by code_simp
  ultimately show ?thesis
    using rejection_hint_round_trip [of "\<lparr>w_store = empty_store, w_faults = NoFault\<rparr>" example_key example_key "Fin 1" 8 example_env] k
    by (auto simp: empty_store_def is_finite_def f_le_def f_eq_def)
qed

end
