(* ===== verification/Factor_Dag.thy ===== *)
theory Factor_Dag
  imports Factor_Admission "HOL-Library.Multiset"
begin

text \<open>
  Execution of a graph of factor nodes over the cache (\<open>factor_dag.py\<close>): a node is opened from the
  store when it is there, and computed from its parents and perhaps published when it is not. The
  computation of a node is the function of its parents' frames that the code requires it to be. What the
  clocks and \<open>uuid4\<close> give while a node is visited, and Polars' estimate of a frame's size, is the record
  \<open>dag_runtime\<close>.
\<close>

section \<open>Admission\<close>

record admission_policy =
  ap_minimum_expected_uses :: int
  ap_read_bytes_per_second :: float64
  ap_write_bytes_per_second :: float64
  ap_fixed_read_seconds :: float64
  ap_fixed_write_seconds :: float64
  ap_minimum_speedup :: float64
  ap_rejection_ttl_seconds :: float64
  ap_force_admission :: bool

definition policy_init :: "admission_policy \<Rightarrow> admission_policy res" where
  "policy_init self =
     rbind (require (1 \<le> ap_minimum_expected_uses self) (ValueError ''minimum_expected_uses must be positive'')) (\<lambda>_.
     rbind (require (is_finite (ap_read_bytes_per_second self) \<and> is_finite (ap_write_bytes_per_second self)
         \<and> f_lt (Fin 0) (ap_read_bytes_per_second self) \<and> f_lt (Fin 0) (ap_write_bytes_per_second self))
       (ValueError ''estimated cache bandwidth must be positive'')) (\<lambda>_.
     rbind (require (is_finite (ap_fixed_read_seconds self) \<and> is_finite (ap_fixed_write_seconds self)
         \<and> f_le (Fin 0) (ap_fixed_read_seconds self) \<and> f_le (Fin 0) (ap_fixed_write_seconds self))
       (ValueError ''fixed cache costs must be non-negative'')) (\<lambda>_.
     rbind (require (is_finite (ap_minimum_speedup self) \<and> f_lt (Fin 0) (ap_minimum_speedup self))
       (ValueError ''minimum_speedup must be positive'')) (\<lambda>_.
     rbind (require (is_finite (ap_rejection_ttl_seconds self) \<and> f_le (Fin 0) (ap_rejection_ttl_seconds self))
       (ValueError ''rejection_ttl_seconds must be finite and non-negative'')) (\<lambda>_.
     Inr self)))))"

definition policy_admit :: "admission_policy \<Rightarrow> float64 \<Rightarrow> int \<Rightarrow> int \<Rightarrow> bool res" where
  "policy_admit self compute_seconds output_bytes expected_uses =
     rbind (require (is_finite compute_seconds \<and> f_le (Fin 0) compute_seconds \<and> 0 \<le> output_bytes \<and> 1 \<le> expected_uses)
       (ValueError ''cache admission measurements must be non-negative'')) (\<lambda>_.
     if ap_force_admission self then Inr True
     else if expected_uses < ap_minimum_expected_uses self then Inr False
     else
       rbind (py_float output_bytes) (\<lambda>bytes.
       rbind (py_truediv bytes (ap_read_bytes_per_second self)) (\<lambda>read.
       rbind (py_truediv bytes (ap_write_bytes_per_second self)) (\<lambda>write.
       rbind (py_float expected_uses) (\<lambda>uses.
       rbind (py_float (expected_uses - 1)) (\<lambda>reuses.
       let read_seconds = f_add (ap_fixed_read_seconds self) read;
           write_seconds = f_add (ap_fixed_write_seconds self) write;
           uncached_seconds = f_mul compute_seconds uses;
           cached_seconds = f_add (f_add compute_seconds write_seconds) (f_mul read_seconds reuses) in
       Inr (f_le (f_mul cached_seconds (ap_minimum_speedup self)) uncached_seconds)))))))"

definition policy_key :: "(json \<Rightarrow> string) \<Rightarrow> admission_policy \<Rightarrow> string" where
  "policy_key digest self = digest (sorted_json (JObj [(''format'', JStr ''gambit-factor-admission-policy''), (''version'', JInt 1),
     (''minimum_expected_uses'', JInt (ap_minimum_expected_uses self)),
     (''estimated_read_bytes_per_second'', JFloat (ap_read_bytes_per_second self)),
     (''estimated_write_bytes_per_second'', JFloat (ap_write_bytes_per_second self)),
     (''fixed_read_seconds'', JFloat (ap_fixed_read_seconds self)), (''fixed_write_seconds'', JFloat (ap_fixed_write_seconds self)),
     (''minimum_speedup'', JFloat (ap_minimum_speedup self)), (''force_admission'', JBool (ap_force_admission self))]))"

section \<open>Frames\<close>

text \<open>A Polars frame: \<open>Float64\<close> columns with their nulls, columns of another type with their length.\<close>

datatype series = Floats "f8 option list" | Series nat

type_synonym frame = "(string \<times> series) list"

fun is_floats :: "series \<Rightarrow> bool" where
  "is_floats (Floats _) = True"
| "is_floats (Series _) = False"

fun floats_of :: "series \<Rightarrow> f8 option list" where
  "floats_of (Floats xs) = xs"
| "floats_of (Series _) = []"

fun series_length :: "series \<Rightarrow> nat" where
  "series_length (Floats xs) = length xs"
| "series_length (Series n) = n"

definition validate_output :: "node_identity \<Rightarrow> frame \<Rightarrow> unit res" where
  "validate_output identity frame =
     (if map fst frame \<noteq> map cs_name (ni_output_schema identity)
        then Inl (ValueError ''factor node output columns do not match its identity schema'')
      else if \<exists>c\<in>set frame. \<not> is_floats (snd c)
        then Inl (ValueError ''mapped factor DAG output columns must use Polars Float64'')
      else if \<exists>c\<in>set frame. None \<in> set (floats_of (snd c))
        then Inl (ValueError ''mapped factor DAG output columns must not contain Polars nulls'')
      else Inr ())"

text \<open>\<open>to_numpy\<close> of a \<open>Float64\<close> column; a null becomes NaN.\<close>

definition to_numpy :: "series \<Rightarrow> nd_array" where
  "to_numpy s = \<lparr>arr_ndim = 1, arr_values = map (case_option 0x7FF8000000000000 id) (floats_of s)\<rparr>"

definition frame_columns :: "frame \<Rightarrow> (string \<times> nd_array) list" where
  "frame_columns frame = map (\<lambda>c. (fst c, to_numpy (snd c))) frame"

text \<open>\<open>pl.DataFrame(...)\<close> of columns of a lease; Polars raises its \<open>ShapeError\<close> on unequal lengths.\<close>

definition lease_frame :: "lease \<Rightarrow> node_identity \<Rightarrow> frame res" where
  "lease_frame lease identity =
     rbind (res_map (\<lambda>c. rbind (lease_getitem lease (cs_name c)) (\<lambda>column. Inr (cs_name c, Floats (map Some (col_values column)))))
       (ni_output_schema identity)) (\<lambda>frame.
     rbind (require (\<forall>c\<in>set frame. series_length (snd c) = series_length (snd (hd frame))) (UserException 0)) (\<lambda>_.
     Inr frame))"

section \<open>Nodes and executions\<close>

record dag_node =
  pn_identity :: node_identity
  pn_compute :: "(string \<times> frame) list \<Rightarrow> frame res"
  pn_expected_uses :: int

definition dag_node_init :: "node_identity \<Rightarrow> ((string \<times> frame) list \<Rightarrow> frame res) \<Rightarrow> int \<Rightarrow> dag_node res" where
  "dag_node_init identity compute expected_uses =
     rbind (require (1 \<le> expected_uses) (ValueError ''expected_uses must be positive'')) (\<lambda>_.
     Inr \<lparr>pn_identity = identity, pn_compute = compute, pn_expected_uses = expected_uses\<rparr>)"

record dag_runtime =
  rt_env :: "string \<Rightarrow> env"
  rt_seconds :: "string \<Rightarrow> float64"
  rt_size :: "frame \<Rightarrow> int"
  rt_link_exists :: bool
  rt_metrics :: metrics_call

record dag_state =
  ds_outputs :: "(string \<times> frame) list"
  ds_leases :: "lease list"
  ds_hits :: "string list"
  ds_misses :: "string list"
  ds_writes :: "string list"
  ds_declines :: "string list"
  ds_rejection_hints :: "string list"
  ds_measurements :: "(string \<times> float64 \<times> int) list"

record dag_execution =
  dx_state :: dag_state
  dx_metrics_recorded :: bool
  dx_closed :: bool

definition execution_getitem :: "dag_execution \<Rightarrow> string \<Rightarrow> frame res" where
  "execution_getitem self node_key = (if dx_closed self then Inl (RuntimeError ''factor DAG execution is closed'')
     else case map_of (ds_outputs (dx_state self)) node_key of None \<Rightarrow> Inl (KeyError node_key) | Some frame \<Rightarrow> Inr frame)"

definition close_leases :: "lease list \<Rightarrow> (world, unit) prog" where
  "close_leases leases = pforeach (\<lambda>lease. pbind (lease_close lease) (\<lambda>_. preturn ())) leases"

definition execution_close :: "dag_execution \<Rightarrow> (world, dag_execution) prog" where
  "execution_close self = (if dx_closed self then preturn self
     else pbind (close_leases (ds_leases (dx_state self))) (\<lambda>_.
       preturn (self\<lparr>dx_state := dx_state self\<lparr>ds_outputs := [], ds_leases := []\<rparr>, dx_closed := True\<rparr>)))"

section \<open>Visiting a node\<close>

text \<open>\<open>Path.exists\<close> follows a link, to where is the file system's affair.\<close>

definition node_exists :: "bool \<Rightarrow> store \<Rightarrow> string \<Rightarrow> bool" where
  "node_exists link_exists st node_key = (case map_of (entries (st_nodes st)) node_key of
      None \<Rightarrow> False | Some Symlink \<Rightarrow> link_exists | Some _ \<Rightarrow> True)"

text \<open>
  \<open>try: lease = m except FactorNodeCacheMiss: pass except FactorStoreError: try_record(...); raise\<close>. A recording
  that raises replaces the exception.
\<close>

definition unless_cache_miss :: "metrics_call \<Rightarrow> (world, 'a) prog \<Rightarrow> (world, 'a option) prog" where
  "unless_cache_miss call m w = (case m w of
      (Inr x, w') \<Rightarrow> (Inr (Some x), w')
    | (Inl (FactorNodeCacheMiss t), w') \<Rightarrow> (if w_faults w' = Crashed then Inl (FactorNodeCacheMiss t) else Inr None, w')
    | (Inl (FactorStoreError t), w') \<Rightarrow> if w_faults w' = Crashed then (Inl (FactorStoreError t), w')
        else (case try_record_factor_cache_metrics call [(''corruption_failures'', 1)] w' of
            (Inr _, w'') \<Rightarrow> (Inl (FactorStoreError t), w'') | (Inl e, w'') \<Rightarrow> (Inl e, w''))
    | (Inl e, w') \<Rightarrow> (Inl e, w'))"

definition cached_node :: "dag_node \<Rightarrow> string \<Rightarrow> lease \<Rightarrow> dag_state \<Rightarrow> (world, dag_state) prog" where
  "cached_node node node_key lease d =
     pbind (clear_rejection node_key) (\<lambda>_.
     pbind (plift (lease_frame lease (pn_identity node))) (\<lambda>frame.
     pbind (plift (validate_output (pn_identity node) frame)) (\<lambda>_.
     preturn (d\<lparr>ds_outputs := ds_outputs d @ [(node_key, frame)], ds_leases := ds_leases d @ [lease], ds_hits := ds_hits d @ [node_key]\<rparr>))))"

definition parent_outputs :: "node_identity \<Rightarrow> (string \<times> frame) list \<Rightarrow> (string \<times> frame) list" where
  "parent_outputs identity outputs = map (\<lambda>p. (p, the (map_of outputs p))) (ni_parents identity)"

definition computed_node :: "native \<Rightarrow> (json \<Rightarrow> string) \<Rightarrow> admission_policy \<Rightarrow> dag_runtime \<Rightarrow> dag_node \<Rightarrow> string \<Rightarrow> bool \<Rightarrow> dag_state
    \<Rightarrow> (world, dag_state) prog" where
  "computed_node native digest policy runtime node node_key rejected_hint d =
     (let identity = pn_identity node; env = rt_env runtime node_key; compute_seconds = rt_seconds runtime node_key in
     pbind (plift (pn_compute node (parent_outputs identity (ds_outputs d)))) (\<lambda>frame.
     pbind (plift (validate_output identity frame)) (\<lambda>_.
     let output_bytes = rt_size runtime frame;
         d = d\<lparr>ds_measurements := ds_measurements d @ [(node_key, compute_seconds, output_bytes)],
           ds_outputs := ds_outputs d @ [(node_key, frame)], ds_misses := ds_misses d @ [node_key]\<rparr> in
     pbind (plift (policy_admit policy compute_seconds output_bytes (pn_expected_uses node))) (\<lambda>admitted.
     if admitted then
       pbind (publish_factor_node native digest env identity (frame_columns frame)) (\<lambda>_.
       pbind (clear_rejection node_key) (\<lambda>_.
       preturn (d\<lparr>ds_writes := ds_writes d @ [node_key]\<rparr>)))
     else
       pbind (if rejected_hint then preturn ()
              else record_rejection env node_key (policy_key digest policy) compute_seconds output_bytes) (\<lambda>_.
       preturn (d\<lparr>ds_declines := ds_declines d @ [node_key]\<rparr>))))))"

definition visit_node :: "native \<Rightarrow> (json \<Rightarrow> string) \<Rightarrow> admission_policy \<Rightarrow> dag_runtime \<Rightarrow> dag_node \<Rightarrow> dag_state \<Rightarrow> (world, dag_state) prog" where
  "visit_node native digest policy runtime node d =
     (let identity = pn_identity node; node_key = identity_node_key digest identity; env = rt_env runtime node_key in
     pbind (plift (require (node_key \<notin> fst ` set (ds_outputs d)) (ValueError ''factor DAG contains a duplicate node identity''))) (\<lambda>_.
     pbind (plift (require (\<forall>p\<in>set (ni_parents identity). p \<in> fst ` set (ds_outputs d))
       (ValueError ''factor DAG nodes must be topologically ordered''))) (\<lambda>_.
     pbind (reads_res (\<lambda>st. has_recent_rejection st (ev_now env) node_key (policy_key digest policy) (ap_rejection_ttl_seconds policy))) (\<lambda>hint.
     pbind (reads (\<lambda>st. hint \<and> \<not> node_exists (rt_link_exists runtime) st node_key)) (\<lambda>rejected_hint.
     let d = (if rejected_hint then d\<lparr>ds_rejection_hints := ds_rejection_hints d @ [node_key]\<rparr> else d) in
     pbind (if rejected_hint then preturn None
            else unless_cache_miss (rt_metrics runtime) (open_generation_by_node_key native digest env node_key (Fin 60))) (\<lambda>lease.
     case lease of
       None \<Rightarrow> computed_node native digest policy runtime node node_key rejected_hint d
     | Some lease \<Rightarrow> cached_node node node_key lease d))))))"

text \<open>
  \<open>try: m except BaseException: handler; raise\<close> with a handler that writes. The executor's one handler
  closes the leases taken so far; a node appends its lease as the last thing it does, so the handler
  around the loop is the handler around each node with the leases of the nodes before it.
\<close>

definition closing_on_exception :: "(world, 'a) prog \<Rightarrow> (world, unit) prog \<Rightarrow> (world, 'a) prog" where
  "closing_on_exception m handler w = (case m w of
      (Inl e, w') \<Rightarrow> if w_faults w' = Crashed then (Inl e, w')
        else (case handler w' of (Inr _, w'') \<Rightarrow> (Inl e, w'') | (Inl e', w'') \<Rightarrow> (Inl e', w''))
    | r \<Rightarrow> r)"

primrec dag_loop :: "native \<Rightarrow> (json \<Rightarrow> string) \<Rightarrow> admission_policy \<Rightarrow> dag_runtime \<Rightarrow> dag_node list \<Rightarrow> dag_state \<Rightarrow> (world, dag_state) prog" where
  "dag_loop native digest policy runtime [] d = preturn d"
| "dag_loop native digest policy runtime (node # nodes) d =
     pbind (closing_on_exception (visit_node native digest policy runtime node d) (close_leases (ds_leases d))) (\<lambda>d'.
     dag_loop native digest policy runtime nodes d')"

definition empty_dag_state :: dag_state where
  "empty_dag_state = \<lparr>ds_outputs = [], ds_leases = [], ds_hits = [], ds_misses = [], ds_writes = [], ds_declines = [],
     ds_rejection_hints = [], ds_measurements = []\<rparr>"

definition dag_execute :: "native \<Rightarrow> (json \<Rightarrow> string) \<Rightarrow> admission_policy \<Rightarrow> dag_runtime \<Rightarrow> dag_node list \<Rightarrow> (world, dag_execution) prog" where
  "dag_execute native digest policy runtime nodes =
     pbind (plift (require (nodes \<noteq> []) (ValueError ''factor DAG must contain at least one node''))) (\<lambda>_.
     pbind (dag_loop native digest policy runtime nodes empty_dag_state) (\<lambda>d.
     pbind (try_record_factor_cache_metrics (rt_metrics runtime) [(''cache_hits'', int (length (ds_hits d))), (''cache_misses'', int (length (ds_misses d))),
       (''cache_admissions'', int (length (ds_writes d))), (''cache_declines'', int (length (ds_declines d)))]) (\<lambda>recorded.
     preturn \<lparr>dx_state = d, dx_metrics_recorded = recorded, dx_closed = False\<rparr>)))"

section \<open>Rules\<close>

lemma runs_unless_cache_miss:
  assumes m: "runs t m (\<lambda>x. Q (Some x)) E' C" and miss: "\<And>u s. E' (FactorNodeCacheMiss u) s \<Longrightarrow> Q None s" and E: "\<And>e s. E' e s \<Longrightarrow> E s"
    and metrics: "\<And>s s'. E s \<Longrightarrow> same_but_metrics s s' \<Longrightarrow> E s' \<and> C s'"
  shows "runs t (unless_cache_miss call m) Q (\<lambda>_. E) C"
proof (rule runsI)
  fix w
  assume w: "live w" "w_store w = t"
  show "case unless_cache_miss call m w of (Inr x, w') \<Rightarrow> live w' \<and> Q x (w_store w')
      | (Inl e, w') \<Rightarrow> if live w' then E (w_store w') else C (w_store w')"
  proof (cases "m w")
    case (Pair r w')
    have recorded: "case try_record_factor_cache_metrics call [(''corruption_failures'', 1)] w' of (Inr _, w'') \<Rightarrow> live w'' \<and> E (w_store w'')
        | (Inl e, w'') \<Rightarrow> if live w'' then E (w_store w'') else C (w_store w'')" if "live w'" "E (w_store w')"
      using runs_conseq [OF runs_try_record_metrics, of "w_store w'" "\<lambda>_. E" "\<lambda>_. E" C call "[(''corruption_failures'', 1)]"] metrics [OF that(2)] that(1)
      by (simp add: runs_def)
    show ?thesis
      using runs_Inr [OF m w] runs_Inl [OF m w] miss E recorded Pair
      by (cases r; cases "try_record_factor_cache_metrics call [(''corruption_failures'', 1)] w'";
          cases "fst (try_record_factor_cache_metrics call [(''corruption_failures'', 1)] w')")
        (auto simp: unless_cache_miss_def live_def split: exn.split)
  qed
qed

lemma runs_closing_on_exception:
  assumes "runs t m Q (\<lambda>_. P) C" and "\<And>s. P s \<Longrightarrow> runs s h (\<lambda>_. E) (\<lambda>_. E) C"
  shows "runs t (closing_on_exception m h) Q (\<lambda>_. E) C"
proof (rule runsI)
  fix w
  assume w: "live w" "w_store w = t"
  show "case closing_on_exception m h w of (Inr x, w') \<Rightarrow> live w' \<and> Q x (w_store w')
      | (Inl e, w') \<Rightarrow> if live w' then E (w_store w') else C (w_store w')"
  proof (cases "m w")
    case (Pair r w')
    show ?thesis
    proof (cases r)
      case (Inr x)
      then show ?thesis using runs_Inr [OF assms(1) w] Pair by (simp add: closing_on_exception_def)
    next
      case (Inl e)
      note end_m = runs_Inl [OF assms(1) w Pair [unfolded Inl]]
      show ?thesis
      proof (cases "w_faults w' = Crashed")
        case True
        then show ?thesis using end_m Pair Inl by (simp add: closing_on_exception_def live_def)
      next
        case False
        then have live: "live w'" "P (w_store w')" using end_m by (simp_all add: live_def)
        show ?thesis
          using runs_Inr [OF assms(2) live(1) refl, OF live(2)] runs_Inl [OF assms(2) live(1) refl, OF live(2)] Pair Inl False
          by (cases "h w'"; cases "fst (h w')") (auto simp: closing_on_exception_def)
      qed
    qed
  qed
qed

lemma index_admission [index_simps]:
  "index_of (make_admission st) = index_of st" "index_of (put_admission nm c n st) = index_of st"
  "index_of (replace_admission a b st) = index_of st" "index_of (unlink_admission nm st) = index_of st"
  by (auto simp: index_of_def make_admission_def put_admission_def replace_admission_def unlink_admission_def
      split: folder.splits option.splits)

lemma index_metrics: "same_but_metrics t s \<Longrightarrow> index_of s = index_of t"
  by (simp add: index_of_def fun_eq_iff same_but_metrics_fields)

lemma runs_clear_rejection:
  "runs t (clear_rejection k) (\<lambda>_ s. index_of s = index_of t) (\<lambda>_ s. index_of s = index_of t) (\<lambda>s. index_of s = index_of t)"
  unfolding clear_rejection_def
  by (intro runs_bind_lift runs_unlink_if_plain [where P = "\<lambda>s. index_of s = index_of t"]) (simp_all add: index_simps)

lemma runs_record_rejection:
  "runs t (record_rejection env k pk secs bytes) (\<lambda>_ s. index_of s = index_of t) (\<lambda>_ s. index_of s = index_of t) (\<lambda>s. index_of s = index_of t)"
  unfolding record_rejection_def Let_def
  by (intro runs_bind_lift runs_bind_io runs_on_exception [where E' = "\<lambda>_ s. index_of s = index_of t"] runs_io) (simp_all add: index_simps)

lemma runs_close_leases:
  "runs t (close_leases leases) (\<lambda>_ s. index_of s = index_of t) (\<lambda>_ s. index_of s = index_of t) (\<lambda>s. index_of s = index_of t)"
  unfolding close_leases_def
proof (rule runs_foreach_invariant)
  fix lease s
  assume "index_of s = index_of t"
  then show "runs s (pbind (lease_close lease) (\<lambda>_. preturn ())) (\<lambda>_ s. index_of s = index_of t) (\<lambda>_ s. index_of s = index_of t)
      (\<lambda>s. index_of s = index_of t)"
    by (intro runs_bind [OF runs_conseq [OF runs_lease_close]] runs_return) simp_all
qed simp

lemma runs_open_by_key:
  "runs t (open_generation_by_node_key native digest env k interval)
    (\<lambda>lease s. index_of s = index_of t \<and> \<not> l_closed lease \<and> (\<exists>g. require_node_pointer t k = Inr g \<and> l_generation lease = g
       \<and> check_generation native digest (map_of (st_generations t)) g (Some k) True = Inr (l_node_key lease, l_identity lease, l_columns lease)))
    (\<lambda>_ s. index_of s = index_of t) (\<lambda>s. index_of s = index_of t)"
  unfolding open_generation_by_node_key_def
proof (intro runs_bind_lift runs_bind_reads_res)
  fix g
  assume g: "require_node_pointer t k = Inr g"
  show "runs t (pbind (open_and_lease native digest env g (Some k) True)
       (\<lambda>lease. pbind (record_node_access env k g (f_mul interval (Fin 1000000000))) (\<lambda>_. preturn lease)))
    (\<lambda>lease s. index_of s = index_of t \<and> \<not> l_closed lease \<and> (\<exists>g. require_node_pointer t k = Inr g \<and> l_generation lease = g
       \<and> check_generation native digest (map_of (st_generations t)) g (Some k) True = Inr (l_node_key lease, l_identity lease, l_columns lease)))
    (\<lambda>_ s. index_of s = index_of t) (\<lambda>s. index_of s = index_of t)"
    by (rule runs_bind [OF runs_open_and_lease], rule runs_bind [OF runs_record_node_access [where ix = "index_of t"]])
      (use g in \<open>auto simp del: prog_simps intro!: runs_return\<close>)
qed simp_all

section \<open>The reference execution\<close>

text \<open>The frames of the graph computed from scratch, without a cache.\<close>

definition node_key_of :: "(json \<Rightarrow> string) \<Rightarrow> dag_node \<Rightarrow> string" where
  "node_key_of digest node = identity_node_key digest (pn_identity node)"

primrec uncached :: "(json \<Rightarrow> string) \<Rightarrow> dag_node list \<Rightarrow> (string \<times> frame) list \<Rightarrow> (string \<times> frame) list res" where
  "uncached digest [] outputs = Inr outputs"
| "uncached digest (node # nodes) outputs =
     rbind (require (node_key_of digest node \<notin> fst ` set outputs) (ValueError ''factor DAG contains a duplicate node identity'')) (\<lambda>_.
     rbind (require (\<forall>p\<in>set (ni_parents (pn_identity node)). p \<in> fst ` set outputs)
       (ValueError ''factor DAG nodes must be topologically ordered'')) (\<lambda>_.
     rbind (pn_compute node (parent_outputs (pn_identity node) outputs)) (\<lambda>frame.
     rbind (validate_output (pn_identity node) frame) (\<lambda>_.
     uncached digest nodes (outputs @ [(node_key_of digest node, frame)])))))"

lemma uncached_extends:
  "uncached digest nodes outputs = Inr frames \<Longrightarrow> \<exists>more. frames = outputs @ more \<and> map fst more = map (node_key_of digest) nodes"
proof (induction nodes arbitrary: outputs)
  case (Cons node nodes)
  then obtain frame where "uncached digest nodes (outputs @ [(node_key_of digest node, frame)]) = Inr frames" by auto
  from Cons.IH [OF this] show ?case by auto
qed simp

lemma uncached_step:
  assumes "uncached digest (node # nodes) outputs = Inr frames"
  obtains frame where "pn_compute node (parent_outputs (pn_identity node) outputs) = Inr frame"
    "validate_output (pn_identity node) frame = Inr ()"
    "uncached digest nodes (outputs @ [(node_key_of digest node, frame)]) = Inr frames"
    "map_of frames (node_key_of digest node) = Some frame"
    "node_key_of digest node \<notin> fst ` set outputs"
proof -
  obtain frame where frame: "pn_compute node (parent_outputs (pn_identity node) outputs) = Inr frame"
      "validate_output (pn_identity node) frame = Inr ()" "node_key_of digest node \<notin> fst ` set outputs"
      "uncached digest nodes (outputs @ [(node_key_of digest node, frame)]) = Inr frames"
    using assms by auto
  obtain more where "frames = (outputs @ [(node_key_of digest node, frame)]) @ more" using uncached_extends [OF frame(4)] by auto
  then have "map_of frames (node_key_of digest node) = Some frame"
    using frame(3) map_of_eq_None_iff [of outputs "node_key_of digest node"] by (simp add: map_add_def)
  then show ?thesis using that frame by blast
qed

text \<open>The columns of a generation are those of a frame, and every indexed node of the graph holds its frame.\<close>

definition holds_frame :: "(string \<times> column) list \<Rightarrow> frame \<Rightarrow> bool" where
  "holds_frame columns frame =
     (\<forall>c\<in>set frame. \<exists>col. map_of columns (fst c) = Some col \<and> snd c = Floats (map Some (col_values col)))"

definition truthful :: "native \<Rightarrow> (json \<Rightarrow> string) \<Rightarrow> index \<Rightarrow> (string \<times> frame) list \<Rightarrow> bool" where
  "truthful native digest ix frames = (\<forall>k frame g x. map_of frames k = Some frame \<and> hex_name 32 g
     \<and> ix_nodes ix k = Some (Plain (pointer_text g)) \<and> check_generation native digest (ix_generations ix) g (Some k) True = Inr x
     \<longrightarrow> holds_frame (snd (snd x)) frame)"

lemma lease_frame_value:
  assumes "holds_frame (l_columns lease) frame" "\<not> l_closed lease" "validate_output identity frame = Inr ()"
    and "lease_frame lease identity = Inr result"
  shows "result = frame"
proof -
  let ?schema = "ni_output_schema identity"
  have names: "map fst frame = map cs_name ?schema" using assms(3) by (simp add: validate_output_def split: if_splits)
  then have len: "length frame = length ?schema" by (metis length_map)
  have each: "list_all2 (\<lambda>c y. rbind (lease_getitem lease (cs_name c)) (\<lambda>column. Inr (cs_name c, Floats (map Some (col_values column)))) = Inr y)
      ?schema result"
    using assms(4) by (auto simp: lease_frame_def res_map_Inr_conv)
  show ?thesis
  proof (rule nth_equalityI)
    show "length result = length frame" using each len by (simp add: list_all2_lengthD)
    fix i
    assume "i < length result"
    then have i: "i < length ?schema" using each by (simp add: list_all2_lengthD)
    have nm: "fst (frame ! i) = cs_name (?schema ! i)" using names i len by (metis nth_map)
    obtain col where col: "map_of (l_columns lease) (fst (frame ! i)) = Some col" "snd (frame ! i) = Floats (map Some (col_values col))"
      using bspec [OF assms(1) [unfolded holds_frame_def], of "frame ! i"] nth_mem [of i frame] i len by auto
    have "rbind (lease_getitem lease (cs_name (?schema ! i))) (\<lambda>column. Inr (cs_name (?schema ! i), Floats (map Some (col_values column))))
        = Inr (result ! i)"
      using list_all2_nthD [OF each i] .
    then show "result ! i = frame ! i" using col assms(2) nm by (simp add: lease_getitem_def prod_eq_iff)
  qed
qed

lemma floats_without_nulls: "is_floats s \<Longrightarrow> None \<notin> set (floats_of s) \<Longrightarrow> s = Floats (map Some (arr_values (to_numpy s)))"
  by (cases s) (auto simp: to_numpy_def intro!: map_idI [symmetric] split: option.splits, metis option.exhaust)

lemma published_frame:
  assumes "native_law native" "validate_output identity frame = Inr ()" "distinct (map fst frame)"
    and "\<forall>c\<in>set frame. 8 * length (floats_of (snd c)) < 2 ^ 64"
  shows "holds_frame (published_columns native (frame_columns frame)) frame"
  unfolding holds_frame_def
proof
  fix c
  assume c: "c \<in> set frame"
  have s: "snd c = Floats (map Some (arr_values (to_numpy (snd c))))"
    using floats_without_nulls c assms(2) by (auto simp: validate_output_def split: if_splits)
  let ?pub = "published_columns native (frame_columns frame)"
  have "distinct (map fst ?pub)"
    using assms(3) by (auto simp: published_columns_def frame_columns_def distinct_map inj_on_def)
  moreover have "(fst c, snd (nat_create native (arr_values (to_numpy (snd c))))) \<in> set ?pub"
    using c by (force simp: published_columns_def frame_columns_def)
  ultimately have "map_of ?pub (fst c) = Some (snd (nat_create native (arr_values (to_numpy (snd c)))))" by simp
  moreover have "col_values (snd (nat_create native (arr_values (to_numpy (snd c))))) = arr_values (to_numpy (snd c))"
    using assms(1,4) c by (auto simp: native_law_def to_numpy_def)
  ultimately show "\<exists>col. map_of ?pub (fst c) = Some col \<and> snd c = Floats (map Some (col_values col))" using s by auto
qed

section \<open>Caching is transparent\<close>

definition cache_ok :: "native \<Rightarrow> (json \<Rightarrow> string) \<Rightarrow> (string \<times> frame) list \<Rightarrow> index \<Rightarrow> bool" where
  "cache_ok native digest frames ix = (index_ok native digest ix \<and> truthful native digest ix frames)"

definition fresh_generations :: "(json \<Rightarrow> string) \<Rightarrow> dag_runtime \<Rightarrow> dag_node list \<Rightarrow> index \<Rightarrow> bool" where
  "fresh_generations digest runtime nodes ix = (let gens = map (\<lambda>n. ev_generation (rt_env runtime (node_key_of digest n))) nodes in
     distinct gens \<and> (\<forall>g\<in>set gens. hex_name 32 g \<and> ix_generations ix g = None))"

definition node_sound :: "dag_node \<Rightarrow> bool" where
  "node_sound node = (identity_valid (pn_identity node) \<and> distinct (map cs_name (ni_output_schema (pn_identity node))))"

definition sized_frames :: "(string \<times> frame) list \<Rightarrow> bool" where
  "sized_frames frames = (\<forall>f\<in>snd ` set frames. \<forall>c\<in>set f. 8 * length (floats_of (snd c)) < 2 ^ 64)"

lemma pointer_text_inject [simp]: "hex_name n g \<Longrightarrow> hex_name n h \<Longrightarrow> pointer_text g = pointer_text h \<longleftrightarrow> g = h"
  by (auto simp: pointer_text_def)

lemma pointed_generation:
  assumes "index_ok native digest ix" "ix_nodes ix k = Some (Plain (pointer_text g))" "hex_name 32 g"
  shows "\<exists>x. check_generation native digest (ix_generations ix) g (Some k) True = Inr x"
proof -
  obtain h where "hex_name 32 h" "Plain (pointer_text g) = Plain (pointer_text h)" "opens native digest ix h (Some k) True"
    using assms(1,2) unfolding index_ok_def by blast
  then show ?thesis using assms(3)
    by (cases "check_generation native digest (ix_generations ix) g (Some k) True") (auto simp: opens_def)
qed

lemma cache_ok_states:
  assumes law: "native_law native" and sound: "sound_columns (frame_columns frame)" and k: "hex_name 64 k"
    and ident: "identity_valid ident" "identity_node_key digest ident = k"
    and g: "hex_name 32 (ev_generation env)" "ix_generations ix (ev_generation env) = None"
    and frame: "map_of frames k = Some frame" "holds_frame (published_columns native (frame_columns frame)) frame"
    and ok: "cache_ok native digest frames ix"
    and ix': "ix' \<in> set (publication_states ix (ev_generation env) k (publication_dir native env k (frame_columns frame) (Some ident)) True)"
  shows "cache_ok native digest frames ix'"
proof -
  let ?g = "ev_generation env" and ?dir = "publication_dir native env k (frame_columns frame) (Some ident)"
  have index: "index_ok native digest ix" using ok by (simp add: cache_ok_def)
  have ident': "\<forall>i. Some ident = Some i \<longrightarrow> identity_valid i \<and> identity_node_key digest i = k" using ident by simp
  have holds: "holds_frame (snd (snd x)) f"
    if j: "map_of frames j = Some f" "hex_name 32 h" "ix_nodes ix' j = Some (Plain (pointer_text h))"
      and x: "check_generation native digest (ix_generations ix') h (Some j) True = Inr x" for j f h x
  proof (cases "ix_nodes ix' j = ix_nodes ix j")
    case True
    then have "ix_nodes ix j = Some (Plain (pointer_text h))" using j(3) by simp
    then obtain y where y: "check_generation native digest (ix_generations ix) h (Some j) True = Inr y"
      using pointed_generation [OF index _ j(2)] by blast
    have "check_generation native digest (ix_generations ix') h (Some j) True = Inr y"
      using publication_states_generations [OF ix'] check_added [OF y g(2)] y by metis
    then have "x = y" using x by simp
    moreover have "truthful native digest ix frames" using ok by (simp add: cache_ok_def)
    ultimately show ?thesis using j(1-3) y True unfolding truthful_def by metis
  next
    case False
    then have last: "ix' = set_node k ?g (set_current ?g (add_generation ?g ?dir ix))" and "j = k"
      using ix' by (auto simp: publication_states_def add_generation_def set_current_def set_node_def split: if_splits)
    then have h: "h = ?g" using j(2,3) g(1) by (simp add: set_node_def)
    have gen: "ix_generations ix' ?g = Some (Plain ?dir)" by (simp add: last set_node_def set_current_def add_generation_def)
    obtain copy where "check_generation native digest (ix_generations ix') ?g (Some k) True = Inr (k, copy, published_columns native (frame_columns frame))"
      using check_publication [where generations = "ix_generations ix'" and native = native, OF law sound k gen refl ident', of "Some k" True] by auto
    then have "x = (k, copy, published_columns native (frame_columns frame))" using x \<open>j = k\<close> h by simp
    then show ?thesis using frame j(1) \<open>j = k\<close> by simp
  qed
  have "index_ok native digest ix'"
    by (rule index_ok_states [OF law sound k ident' g index]) (use ix' in simp)
  then show ?thesis unfolding cache_ok_def truthful_def using holds by blast
qed

lemma frame_columns_sound:
  assumes "validate_output identity frame = Inr ()" "distinct (map cs_name (ni_output_schema identity))"
    and "\<forall>c\<in>set frame. 8 * length (floats_of (snd c)) < 2 ^ 64" "publish_checks digest k (frame_columns frame) (Some identity) = Inr ()"
  shows "sound_columns (frame_columns frame) \<and> hex_name 64 k"
proof -
  have "map fst frame = map cs_name (ni_output_schema identity)" using assms(1) by (simp add: validate_output_def split: if_splits)
  then have "distinct (map fst (frame_columns frame))" using assms(2) by (simp add: frame_columns_def comp_def)
  then show ?thesis
    using assms(3,4) by (auto simp: sound_columns_def publish_checks_def frame_columns_def to_numpy_def)
qed

lemma runs_publish_frame:
  assumes law: "native_law native" and n: "node_sound node" and k: "node_key_of digest node = k"
    and frame: "map_of frames k = Some frame" "validate_output (pn_identity node) frame = Inr ()" "sized_frames frames"
    and fresh: "fresh_generations digest runtime (node # nodes) (index_of t)" and ok: "cache_ok native digest frames (index_of t)"
  shows "runs t (publish_factor_node native digest (rt_env runtime k) (pn_identity node) (frame_columns frame))
    (\<lambda>_ s. cache_ok native digest frames (index_of s) \<and> fresh_generations digest runtime nodes (index_of s))
    (\<lambda>_ s. cache_ok native digest frames (index_of s)) (\<lambda>s. cache_ok native digest frames (index_of s))" (is "runs t _ ?Q ?E ?C")
proof -
  let ?env = "rt_env runtime k" and ?ident = "pn_identity node"
  let ?states = "publication_states (index_of t) (ev_generation ?env) k (publication_dir native ?env k (frame_columns frame) (Some ?ident)) True"
  have names: "map fst frame = map cs_name (ni_output_schema ?ident)" using frame(2) by (simp add: validate_output_def split: if_splits)
  have distinct: "distinct (map fst frame)" using n names by (simp add: node_sound_def)
  have size: "\<forall>c\<in>set frame. 8 * length (floats_of (snd c)) < 2 ^ 64"
    using frame(1,3) map_of_SomeD by (force simp: sized_frames_def)
  have key: "identity_node_key digest ?ident = k" using k by (simp add: node_key_of_def)
  have g: "hex_name 32 (ev_generation ?env)" "ix_generations (index_of t) (ev_generation ?env) = None"
    using fresh k by (simp_all add: fresh_generations_def)
  have fresh': "fresh_generations digest runtime nodes ix'" if "ix' \<in> set (index_of t # ?states)" for ix'
  proof -
    have "ix_generations ix' = ix_generations (index_of t) \<or> ix_generations ix' = (ix_generations (index_of t))(ev_generation ?env
        := Some (Plain (publication_dir native ?env k (frame_columns frame) (Some ?ident))))"
      using that publication_states_generations [of ix' "index_of t"] by auto
    moreover have "ev_generation (rt_env runtime (node_key_of digest n)) \<noteq> ev_generation ?env" if "n \<in> set nodes" for n
      using fresh k that by (auto simp: fresh_generations_def image_iff)
    ultimately show ?thesis using fresh by (auto simp: fresh_generations_def Let_def)
  qed
  have ok': "cache_ok native digest frames ix'" if "publish_checks digest k (frame_columns frame) (Some ?ident) = Inr ()" "ix' \<in> set ?states" for ix'
  proof -
    note sound = frame_columns_sound [OF frame(2) _ size that(1)]
    show ?thesis
      by (rule cache_ok_states [OF law _ _ _ key g frame(1) _ ok that(2)])
        (use sound n published_frame [OF law frame(2) distinct size] in \<open>simp_all add: node_sound_def\<close>)
  qed
  have last: "last ?states \<in> set ?states" by (rule last_in_set) (simp add: publication_states_def)
  have names_columns: "map fst (frame_columns frame) = map fst frame" by (simp add: frame_columns_def comp_def)
  have publish: "runs t (publish_generation native digest ?env k (frame_columns frame) (Some ?ident) None False) ?Q ?E ?C"
    by (rule runs_conseq [OF runs_publish_generation [OF g(1) _ refl refl]])
      (use distinct ok ok' fresh' last in \<open>auto simp: names_columns\<close>)
  show ?thesis
    unfolding publish_factor_node_def key
    using publish ok by (auto simp del: prog_simps intro: runs_lift)
qed

lemma runs_cached_node:
  assumes "validate_output (pn_identity node) frame = Inr ()" "holds_frame (l_columns lease) frame" "\<not> l_closed lease"
  shows "runs t (cached_node node k lease d) (\<lambda>d' s. index_of s = index_of t \<and> ds_outputs d' = ds_outputs d @ [(k, frame)])
    (\<lambda>_ s. index_of s = index_of t) (\<lambda>s. index_of s = index_of t)"
  unfolding cached_node_def
proof (rule runs_bind [OF runs_clear_rejection], intro runs_bind_lift runs_return)
  fix s result
  assume "index_of s = index_of t" "lease_frame lease (pn_identity node) = Inr result"
  then show "index_of s = index_of t \<and> ds_outputs (d\<lparr>ds_outputs := ds_outputs d @ [(k, result)], ds_leases := ds_leases d @ [lease],
      ds_hits := ds_hits d @ [k]\<rparr>) = ds_outputs d @ [(k, frame)]"
    using lease_frame_value [OF assms(2,3,1)] by simp
qed

lemma fresh_generations_tl: "fresh_generations digest runtime (node # nodes) ix \<Longrightarrow> fresh_generations digest runtime nodes ix"
  by (simp add: fresh_generations_def Let_def)

lemma runs_computed_node:
  assumes law: "native_law native" and n: "node_sound node" and k: "node_key_of digest node = k"
    and frame: "map_of frames k = Some frame" "validate_output (pn_identity node) frame = Inr ()" "sized_frames frames"
      "pn_compute node (parent_outputs (pn_identity node) (ds_outputs d)) = Inr frame"
    and fresh: "fresh_generations digest runtime (node # nodes) (index_of t)" and ok: "cache_ok native digest frames (index_of t)"
  shows "runs t (computed_node native digest policy runtime node k hint d)
    (\<lambda>d' s. cache_ok native digest frames (index_of s) \<and> fresh_generations digest runtime nodes (index_of s)
       \<and> ds_outputs d' = ds_outputs d @ [(k, frame)])
    (\<lambda>_ s. cache_ok native digest frames (index_of s)) (\<lambda>s. cache_ok native digest frames (index_of s))"
proof -
  let ?I = "\<lambda>s. cache_ok native digest frames (index_of s) \<and> fresh_generations digest runtime nodes (index_of s)"
  let ?E = "\<lambda>s. cache_ok native digest frames (index_of s)"
  let ?env = "rt_env runtime k" and ?secs = "rt_seconds runtime k" and ?bytes = "rt_size runtime frame"
  let ?d = "d\<lparr>ds_measurements := ds_measurements d @ [(k, ?secs, ?bytes)], ds_outputs := ds_outputs d @ [(k, frame)], ds_misses := ds_misses d @ [k]\<rparr>"
  have t: "?I t" using ok fresh_generations_tl [OF fresh] by simp
  have publish: "runs t (pbind (publish_factor_node native digest ?env (pn_identity node) (frame_columns frame)) (\<lambda>_.
       pbind (clear_rejection k) (\<lambda>_. preturn (?d\<lparr>ds_writes := ds_writes ?d @ [k]\<rparr>))))
     (\<lambda>d' s. ?I s \<and> ds_outputs d' = ds_outputs d @ [(k, frame)]) (\<lambda>_. ?E) ?E"
    by (rule runs_bind [OF runs_publish_frame [OF law n k frame(1-3) fresh ok]],
        rule runs_bind [OF runs_conseq [OF runs_clear_rejection]]) (auto simp del: prog_simps intro!: runs_return)
  have decline: "runs t (pbind (if hint then preturn () else record_rejection ?env k (policy_key digest policy) ?secs ?bytes) (\<lambda>_.
       preturn (?d\<lparr>ds_declines := ds_declines ?d @ [k]\<rparr>)))
     (\<lambda>d' s. ?I s \<and> ds_outputs d' = ds_outputs d @ [(k, frame)]) (\<lambda>_. ?E) ?E"
  proof (rule runs_bind)
    show "runs t (if hint then preturn () else record_rejection ?env k (policy_key digest policy) ?secs ?bytes) (\<lambda>_. ?I) (\<lambda>_. ?E) ?E"
      using t by (auto simp del: prog_simps intro!: runs_return runs_conseq [OF runs_record_rejection])
  qed (auto simp del: prog_simps intro!: runs_return)
  show ?thesis
    unfolding computed_node_def Let_def
    by (intro runs_bind_lift) (use publish decline frame(2,4) ok in \<open>auto simp del: prog_simps\<close>)
qed

lemma runs_visit_node:
  assumes law: "native_law native" and n: "node_sound node" and outputs: "uncached digest (node # nodes) (ds_outputs d) = Inr frames"
    and sized: "sized_frames frames"
    and fresh: "fresh_generations digest runtime (node # nodes) (index_of t)" and ok: "cache_ok native digest frames (index_of t)"
  shows "runs t (visit_node native digest policy runtime node d)
    (\<lambda>d' s. cache_ok native digest frames (index_of s) \<and> fresh_generations digest runtime nodes (index_of s)
       \<and> uncached digest nodes (ds_outputs d') = Inr frames)
    (\<lambda>_ s. cache_ok native digest frames (index_of s)) (\<lambda>s. cache_ok native digest frames (index_of s))" (is "runs t _ ?Q (\<lambda>_. ?E) ?E")
proof -
  let ?k = "node_key_of digest node" and ?env = "rt_env runtime (node_key_of digest node)"
  obtain frame where frame: "pn_compute node (parent_outputs (pn_identity node) (ds_outputs d)) = Inr frame"
      "validate_output (pn_identity node) frame = Inr ()" "uncached digest nodes (ds_outputs d @ [(?k, frame)]) = Inr frames"
      "map_of frames ?k = Some frame"
    using uncached_step [OF outputs] by metis
  have index: "index_ok native digest (index_of t)" and true: "truthful native digest (index_of t) frames"
    using ok by (simp_all add: cache_ok_def)
  have holds: "holds_frame (l_columns lease) frame"
    if g: "require_node_pointer t ?k = Inr g"
      and check: "check_generation native digest (map_of (st_generations t)) g (Some ?k) True = Inr (l_node_key lease, l_identity lease, l_columns lease)"
    for g lease
  proof -
    obtain e where e: "hex_name 64 ?k" "map_of (entries (st_nodes t)) ?k = Some e"
      using g by (auto simp: require_node_pointer_def read_node_pointer_def split: if_splits option.splits)
    then have node: "ix_nodes (index_of t) ?k = Some e" by (simp add: index_of_def)
    then obtain h where h: "hex_name 32 h" "e = Plain (pointer_text h)" using index unfolding index_ok_def by blast
    then have "g = h" using g node_pointer_of_index [OF e(1) h(1), of t] node by simp
    then show ?thesis
      using true frame(4) node h check check_of_index [OF h(1), of native digest t "Some ?k" True] unfolding truthful_def by fastforce
  qed
  have body: "runs s (case lease of None \<Rightarrow> computed_node native digest policy runtime node ?k hint d'
       | Some lease \<Rightarrow> cached_node node ?k lease d') ?Q (\<lambda>_. ?E) ?E"
    if s: "index_of s = index_of t" and d': "ds_outputs d' = ds_outputs d"
      and lease: "\<forall>l. lease = Some l \<longrightarrow> holds_frame (l_columns l) frame \<and> \<not> l_closed l" for s d' lease hint
  proof (cases lease)
    case None
    show ?thesis
      unfolding None option.case
      by (rule runs_conseq [OF runs_computed_node [OF law n refl frame(4,2) sized _ fresh [folded s] ok [folded s]]])
        (use frame(1,3) d' in auto)
  next
    case (Some l)
    show ?thesis
      unfolding Some option.case
      by (rule runs_conseq [OF runs_cached_node [OF frame(2)]])
        (use Some lease s d' ok fresh_generations_tl [OF fresh] frame(3) in auto)
  qed
  let ?L = "\<lambda>lease s. index_of s = index_of t \<and> (\<forall>l. lease = Some l \<longrightarrow> holds_frame (l_columns l) frame \<and> \<not> l_closed l)"
  have open_node: "runs t (unless_cache_miss (rt_metrics runtime) (open_generation_by_node_key native digest ?env ?k (Fin 60))) ?L
      (\<lambda>_ s. index_of s = index_of t) (\<lambda>s. index_of s = index_of t)"
    by (rule runs_unless_cache_miss [OF runs_conseq [OF runs_open_by_key]]) (use holds index_metrics in auto)
  have lookup: "runs t (if hint then preturn None else unless_cache_miss (rt_metrics runtime) (open_generation_by_node_key native digest ?env ?k (Fin 60))) ?L (\<lambda>_. ?E) ?E"
    for hint
    using ok by (auto simp del: prog_simps intro!: runs_return runs_conseq [OF open_node])
  have E: "?E t" by (rule ok)
  show ?thesis
    unfolding visit_node_def Let_def node_key_of_def [symmetric]
    by (intro runs_bind_lift runs_bind_reads_res runs_bind_reads runs_bind [OF lookup] E) (auto intro: body)
qed

lemma runs_dag_loop:
  assumes "native_law native" "\<forall>n\<in>set nodes. node_sound n" "sized_frames frames"
    and "uncached digest nodes (ds_outputs d) = Inr frames"
    and "fresh_generations digest runtime nodes (index_of t)" "cache_ok native digest frames (index_of t)"
  shows "runs t (dag_loop native digest policy runtime nodes d)
    (\<lambda>d' s. cache_ok native digest frames (index_of s) \<and> ds_outputs d' = frames)
    (\<lambda>_ s. cache_ok native digest frames (index_of s)) (\<lambda>s. cache_ok native digest frames (index_of s))"
  using assms(2,4-6)
proof (induction nodes arbitrary: d t)
  case Nil
  then show ?case unfolding dag_loop.simps by (intro runs_return) simp
next
  case (Cons node nodes)
  let ?E = "\<lambda>s. cache_ok native digest frames (index_of s)"
  let ?Q = "\<lambda>d' s. cache_ok native digest frames (index_of s) \<and> fresh_generations digest runtime nodes (index_of s)
       \<and> uncached digest nodes (ds_outputs d') = Inr frames"
  have visit: "runs t (visit_node native digest policy runtime node d) ?Q (\<lambda>_. ?E) ?E"
    using Cons.prems by (intro runs_visit_node [OF assms(1) _ _ assms(3)]) auto
  have step: "runs t (closing_on_exception (visit_node native digest policy runtime node d) (close_leases (ds_leases d))) ?Q (\<lambda>_. ?E) ?E"
    by (rule runs_closing_on_exception [OF visit]) (rule runs_conseq [OF runs_close_leases], simp_all)
  show ?case
    unfolding dag_loop.simps
    by (rule runs_bind [OF step]) (use Cons.IH Cons.prems(1) in auto)
qed

lemma runs_dag_execute:
  assumes "native_law native" "\<forall>n\<in>set nodes. node_sound n" "sized_frames frames" "uncached digest nodes [] = Inr frames"
    and "fresh_generations digest runtime nodes (index_of t)" "cache_ok native digest frames (index_of t)"
  shows "runs t (dag_execute native digest policy runtime nodes)
    (\<lambda>x s. cache_ok native digest frames (index_of s) \<and> ds_outputs (dx_state x) = frames)
    (\<lambda>_ s. cache_ok native digest frames (index_of s)) (\<lambda>s. cache_ok native digest frames (index_of s))"
  unfolding dag_execute_def
  by (intro runs_bind_lift runs_bind [OF runs_dag_loop [OF assms(1-3) _ assms(5,6)]] runs_bind [OF runs_conseq [OF runs_try_record_metrics]] runs_return)
    (use assms(4,6) index_metrics in \<open>auto simp: empty_dag_state_def\<close>)

text \<open>
  Claim C17. The cache is transparent: with an index that is sound and truthful (every indexed node of the
  graph holds the frame the graph computes for it), an execution that returns has exactly the frames that
  computing every node from scratch gives, whatever mixture of hits, publications and refusals it took; and
  however it ends, by returning, raising or dying at any write, the index it leaves is sound and truthful
  again, so the next execution may rely on it.
\<close>

theorem dag_execution_transparent:
  assumes "live w" and "dag_execute native digest policy runtime nodes w = (r, w')" and "uncached digest nodes [] = Inr frames"
    and "native_law native" and "\<forall>n\<in>set nodes. node_sound n" and "sized_frames frames"
    and "fresh_generations digest runtime nodes (index_of (w_store w))" and "cache_ok native digest frames (index_of (w_store w))"
  shows "cache_ok native digest frames (index_of (w_store w')) \<and> (\<forall>x. r = Inr x \<longrightarrow> ds_outputs (dx_state x) = frames)"
proof (cases r)
  case (Inl e)
  then show ?thesis
    using runs_Inl [OF runs_dag_execute [OF assms(4-6,3,7,8)] assms(1) refl, of policy e w'] assms(2) by auto
next
  case (Inr x)
  then show ?thesis
    using runs_Inr [OF runs_dag_execute [OF assms(4-6,3,7,8)] assms(1) refl, of policy x w'] assms(2) by auto
qed

section \<open>What an execution reports\<close>

text \<open>The step of one node, as the state before and after it shows.\<close>

definition node_reused :: "string \<Rightarrow> dag_state \<Rightarrow> dag_state \<Rightarrow> bool" where
  "node_reused k d d' = (\<exists>lease. l_node_key lease = k \<and> ds_leases d' = ds_leases d @ [lease] \<and> ds_hits d' = ds_hits d @ [k]
     \<and> ds_misses d' = ds_misses d \<and> ds_writes d' = ds_writes d \<and> ds_declines d' = ds_declines d
     \<and> ds_rejection_hints d' = ds_rejection_hints d \<and> ds_measurements d' = ds_measurements d)"

definition node_computed :: "string \<Rightarrow> dag_state \<Rightarrow> dag_state \<Rightarrow> bool" where
  "node_computed k d d' = (ds_leases d' = ds_leases d \<and> ds_hits d' = ds_hits d \<and> ds_misses d' = ds_misses d @ [k]
     \<and> (ds_writes d' = ds_writes d @ [k] \<and> ds_declines d' = ds_declines d \<or> ds_writes d' = ds_writes d \<and> ds_declines d' = ds_declines d @ [k])
     \<and> ds_rejection_hints d' \<in> {ds_rejection_hints d, ds_rejection_hints d @ [k]}
     \<and> map fst (ds_measurements d') = map fst (ds_measurements d) @ [k])"

text \<open>The schema declares what the store can hold: columns of non-null \<open>float64\<close>.\<close>

definition floats_declared :: "node_identity \<Rightarrow> bool" where
  "floats_declared identity = (\<forall>c\<in>set (ni_output_schema identity). cs_dtype c = ''float64'' \<and> \<not> cs_nullable c)"

definition node_visited :: "(json \<Rightarrow> string) \<Rightarrow> dag_node \<Rightarrow> dag_state \<Rightarrow> dag_state \<Rightarrow> bool" where
  "node_visited digest node d d' = (let k = node_key_of digest node in
     k \<notin> fst ` set (ds_outputs d) \<and> set (ni_parents (pn_identity node)) \<subseteq> fst ` set (ds_outputs d)
     \<and> (\<exists>frame. validate_output (pn_identity node) frame = Inr () \<and> ds_outputs d' = ds_outputs d @ [(k, frame)])
     \<and> (node_reused k d d' \<or> node_computed k d d') \<and> (ds_writes d' \<noteq> ds_writes d \<longrightarrow> floats_declared (pn_identity node)))"

lemma check_generation_key:
  "check_generation native digest generations g (Some k) req = Inr (j, identity, columns) \<Longrightarrow> j = k"
  by (auto simp: check_generation_def Let_def split: if_splits sum.splits json.splits list.splits)

lemma opened_lease:
  assumes "unless_cache_miss call (open_generation_by_node_key native digest env k interval) w = (Inr (Some lease), w')"
  shows "l_node_key lease = k"
proof -
  have "open_generation_by_node_key native digest env k interval w = (Inr lease, w')"
    using assms by (auto simp: unless_cache_miss_def split: prod.splits sum.splits exn.splits if_splits)
  then obtain g u u' where "open_and_lease native digest env g (Some k) True u = (Inr lease, u')"
    unfolding open_generation_by_node_key_def by (elim pbindE) auto
  then show ?thesis
    unfolding open_and_lease_def by (elim pbindE) (auto simp: reads_res_def dest!: check_generation_key)
qed

lemma cached_node_reused:
  assumes "cached_node node k lease d w = (Inr d', w')" "l_node_key lease = k"
  shows "node_reused k d d' \<and> (\<exists>frame. validate_output (pn_identity node) frame = Inr () \<and> ds_outputs d' = ds_outputs d @ [(k, frame)])"
  using assms by (auto simp: cached_node_def node_reused_def)

lemma computed_node_computed:
  assumes "computed_node native digest policy runtime node k hint d w = (Inr d', w')"
  shows "ds_rejection_hints d' = ds_rejection_hints d \<and> node_computed k d d'
    \<and> (\<exists>frame. validate_output (pn_identity node) frame = Inr () \<and> ds_outputs d' = ds_outputs d @ [(k, frame)])
    \<and> (ds_writes d' \<noteq> ds_writes d \<longrightarrow> floats_declared (pn_identity node))"
  using assms by (auto simp: computed_node_def node_computed_def Let_def floats_declared_def publish_factor_node_def split: if_splits)

lemma visit_node_visited:
  assumes "visit_node native digest policy runtime node d w = (Inr d', w')"
  shows "node_visited digest node d d'"
proof -
  let ?k = "node_key_of digest node"
  obtain hint lease u where start: "?k \<notin> fst ` set (ds_outputs d)" "\<forall>p\<in>set (ni_parents (pn_identity node)). p \<in> fst ` set (ds_outputs d)"
      and lookup: "(if hint then preturn None else unless_cache_miss (rt_metrics runtime) (open_generation_by_node_key native digest (rt_env runtime ?k) ?k (Fin 60))) w
        = (Inr lease, u)"
      and visit: "(case lease of
          None \<Rightarrow> computed_node native digest policy runtime node ?k hint (if hint then d\<lparr>ds_rejection_hints := ds_rejection_hints d @ [?k]\<rparr> else d)
        | Some lease \<Rightarrow> cached_node node ?k lease (if hint then d\<lparr>ds_rejection_hints := ds_rejection_hints d @ [?k]\<rparr> else d)) u = (Inr d', w')"
    using assms unfolding visit_node_def Let_def node_key_of_def [symmetric]
    by (elim pbindE) (auto simp: reads_def reads_res_def)
  show ?thesis
  proof (cases lease)
    case None
    then show ?thesis
      using start computed_node_computed [of native digest policy runtime node ?k hint _ u d' w'] visit
      by (fastforce simp: node_visited_def node_computed_def split: if_splits)
  next
    case (Some l)
    then have hint: "\<not> hint" and key: "l_node_key l = ?k" using lookup opened_lease by (auto split: if_splits)
    then show ?thesis
      using start cached_node_reused [of node ?k l d u d' w'] visit Some by (auto simp: node_visited_def node_reused_def)
  qed
qed

lemma dag_loop_step:
  assumes "dag_loop native digest policy runtime (node # nodes) d w = (Inr d', w')"
  obtains e u where "node_visited digest node d e" "dag_loop native digest policy runtime nodes e u = (Inr d', w')"
proof -
  obtain e u where "closing_on_exception (visit_node native digest policy runtime node d) (close_leases (ds_leases d)) w = (Inr e, u)"
      "dag_loop native digest policy runtime nodes e u = (Inr d', w')"
    using assms unfolding dag_loop.simps by (elim pbindE)
  moreover from this(1) have "visit_node native digest policy runtime node d w = (Inr e, u)"
    by (auto simp: closing_on_exception_def split: prod.splits sum.splits if_splits)
  ultimately show ?thesis using that visit_node_visited by metis
qed

definition dag_accounts :: "(json \<Rightarrow> string) \<Rightarrow> dag_node list \<Rightarrow> dag_state \<Rightarrow> bool" where
  "dag_accounts digest nodes d =
     (map fst (ds_outputs d) = map (node_key_of digest) nodes \<and> distinct (map (node_key_of digest) nodes)
      \<and> list_all2 (\<lambda>node out. validate_output (pn_identity node) (snd out) = Inr ()) nodes (ds_outputs d)
      \<and> mset (ds_hits d) + mset (ds_misses d) = mset (map (node_key_of digest) nodes)
      \<and> mset (ds_writes d) + mset (ds_declines d) = mset (ds_misses d)
      \<and> (\<forall>node\<in>set nodes. node_key_of digest node \<in> set (ds_writes d) \<longrightarrow> floats_declared (pn_identity node))
      \<and> set (ds_rejection_hints d) \<subseteq> set (ds_misses d)
      \<and> map fst (ds_measurements d) = ds_misses d \<and> map l_node_key (ds_leases d) = ds_hits d)"

lemma dag_accounts_step:
  assumes "dag_accounts digest nodes d" "node_visited digest node d d'"
  shows "dag_accounts digest (nodes @ [node]) d'"
proof -
  have keys: "fst ` set (ds_outputs d) = node_key_of digest ` set nodes"
    using assms(1) by (metis dag_accounts_def set_map)
  have "mset (ds_hits d) + (mset (ds_writes d) + mset (ds_declines d)) = mset (map (node_key_of digest) nodes)"
    using assms(1) by (simp add: dag_accounts_def)
  from arg_cong [OF this, of set_mset] have old: "set (ds_writes d) \<subseteq> node_key_of digest ` set nodes" by auto
  let ?k = "node_key_of digest node"
  have v: "?k \<notin> node_key_of digest ` set nodes" "node_reused ?k d d' \<or> node_computed ?k d d'"
      "ds_writes d' \<noteq> ds_writes d \<longrightarrow> floats_declared (pn_identity node)"
    using assms(2) keys by (simp_all add: node_visited_def Let_def)
  have new: "set (ds_writes d') \<subseteq> set (ds_writes d) \<union> {?k}" using v(2) by (auto simp: node_reused_def node_computed_def)
  have "floats_declared (pn_identity n)" if n: "n \<in> set (nodes @ [node])" "node_key_of digest n \<in> set (ds_writes d')" for n
  proof (cases "n \<in> set nodes")
    case True
    then have "node_key_of digest n \<in> node_key_of digest ` set nodes" by (rule imageI)
    then have "node_key_of digest n \<noteq> ?k" using v(1) by metis
    then have "node_key_of digest n \<in> set (ds_writes d)" using n(2) new by auto
    then show ?thesis using True assms(1) by (simp add: dag_accounts_def)
  next
    case False
    then have "?k \<in> set (ds_writes d')" "n = node" using n by auto
    then show ?thesis using v(1,3) old by auto
  qed
  then show ?thesis
    using assms keys unfolding node_visited_def Let_def
    by (elim conjE disjE exE) (simp_all add: dag_accounts_def node_reused_def node_computed_def list_all2_appendI, auto)
qed

lemma dag_loop_accounts:
  assumes "dag_loop native digest policy runtime nodes d w = (Inr d', w')" "dag_accounts digest before d"
  shows "dag_accounts digest (before @ nodes) d'"
  using assms
proof (induction nodes arbitrary: d w before)
  case (Cons node nodes)
  from dag_loop_step [OF Cons.prems(1)] obtain e u where
    e: "node_visited digest node d e" "dag_loop native digest policy runtime nodes e u = (Inr d', w')" .
  from Cons.IH [OF e(2) dag_accounts_step [OF Cons.prems(2) e(1)]] show ?case by simp
qed simp

lemma execution_accounts:
  assumes "dag_execute native digest policy runtime nodes w = (Inr x, w')"
  shows "dag_accounts digest nodes (dx_state x) \<and> nodes \<noteq> [] \<and> \<not> dx_closed x
    \<and> (\<forall>node\<in>set nodes. \<exists>frame. execution_getitem x (node_key_of digest node) = Inr frame
        \<and> map fst frame = map cs_name (ni_output_schema (pn_identity node))
        \<and> (\<forall>c\<in>set frame. is_floats (snd c) \<and> None \<notin> set (floats_of (snd c))))"
proof -
  obtain d u where d: "dag_loop native digest policy runtime nodes empty_dag_state w = (Inr d, u)"
      "dx_state x = d" "\<not> dx_closed x" "nodes \<noteq> []"
    using assms by (auto simp: dag_execute_def require_def split: if_splits)
  have "dag_accounts digest [] empty_dag_state" by (simp add: dag_accounts_def empty_dag_state_def)
  from dag_loop_accounts [OF d(1) this] have accounts: "dag_accounts digest nodes d" by simp
  have "\<exists>frame. execution_getitem x (node_key_of digest node) = Inr frame \<and> validate_output (pn_identity node) frame = Inr ()"
    if node: "node \<in> set nodes" for node
  proof -
    obtain i where i: "i < length nodes" "node = nodes ! i" using node by (auto simp: in_set_conv_nth)
    have len: "length (ds_outputs d) = length nodes" using accounts by (metis dag_accounts_def length_map)
    have key: "fst (ds_outputs d ! i) = node_key_of digest node" using accounts i len by (metis dag_accounts_def nth_map)
    have "distinct (map fst (ds_outputs d))" using accounts by (simp add: dag_accounts_def)
    then have "map_of (ds_outputs d) (node_key_of digest node) = Some (snd (ds_outputs d ! i))"
      using i len key by (metis map_of_eq_Some_iff nth_mem prod.collapse)
    moreover have "list_all2 (\<lambda>node out. validate_output (pn_identity node) (snd out) = Inr ()) nodes (ds_outputs d)"
      using accounts by (simp add: dag_accounts_def)
    then have "validate_output (pn_identity node) (snd (ds_outputs d ! i)) = Inr ()"
      using list_all2_nthD [OF _ i(1)] i(2) by fastforce
    ultimately show ?thesis by (simp add: execution_getitem_def d(2,3))
  qed
  then show ?thesis
    using accounts d(2-4) by (fastforce simp: validate_output_def split: if_splits)
qed

text \<open>
  Claim C20. What an execution returns is accounted for, on any store: one frame per node in order, each with
  exactly the columns its node's schema names, all of them \<open>Float64\<close> without nulls; every node is either a hit,
  with a lease on a generation of that node, or a miss, and every miss was computed, measured and either
  written or declined; only misses were skipped because of a hint. The column types and nullability the schema
  declares are not compared with the frame: they are known to be non-null \<open>float64\<close> for the written nodes, and a
  declined node may declare anything (\<open>declared_type_ignored\<close>).
\<close>

theorem dag_execution_accounts:
  assumes "dag_execute native digest policy runtime nodes w = (Inr x, w')"
  shows "dag_accounts digest nodes (dx_state x) \<and> nodes \<noteq> [] \<and> \<not> dx_closed x
    \<and> (\<forall>node\<in>set nodes. \<exists>frame. execution_getitem x (node_key_of digest node) = Inr frame
        \<and> map fst frame = map cs_name (ni_output_schema (pn_identity node))
        \<and> (\<forall>c\<in>set frame. is_floats (snd c) \<and> None \<notin> set (floats_of (snd c))))"
  using assms by (rule execution_accounts)

section \<open>Instances\<close>

definition example_native :: native where
  "example_native = (let c = \<lparr>col_values = [0], col_rows = 1, col_checksum = 0, col_version = 3\<rparr> in
     \<lparr>nat_create = (\<lambda>_. ([], c)), nat_open = (\<lambda>_. Inr c)\<rparr>)"

definition example_node :: dag_node where
  "example_node = \<lparr>pn_identity = example_ident, pn_compute = (\<lambda>_. Inr [(''factor'', Floats [Some 0])]), pn_expected_uses = 2\<rparr>"

definition example_runtime :: dag_runtime where
  "example_runtime = \<lparr>rt_env = (\<lambda>_. example_env), rt_seconds = (\<lambda>_. Fin 0), rt_size = (\<lambda>_. 8), rt_link_exists = False,
     rt_metrics = \<lparr>mc_link_exists = False, mc_now_ns = 10, mc_uuid = ''u''\<rparr>\<rparr>"

definition example_policy :: admission_policy where
  "example_policy = \<lparr>ap_minimum_expected_uses = 2, ap_read_bytes_per_second = Fin 1, ap_write_bytes_per_second = Fin 1,
     ap_fixed_read_seconds = Fin 0, ap_fixed_write_seconds = Fin 0, ap_minimum_speedup = Fin 1, ap_rejection_ttl_seconds = Fin 60,
     ap_force_admission = True\<rparr>"

text \<open>A store with the node cached in a generation that is not the current one.\<close>

definition cached_generation :: string where
  "cached_generation = replicate 32 CHR ''c''"

definition cached_dir :: generation_dir where
  "cached_dir = [(''factor.bin'', Plain (Segment [])), (''manifest.json'', Plain (Doc (JObj [
     (''columns'', JObj [(''factor'', JObj [(''file'', JStr ''factor.bin''), (''rows'', JInt 1), (''checksum'', JInt 0), (''segment_version'', JInt 3)])]),
     (''created_ns'', JInt 5), (''format'', JStr FORMAT), (''generation'', JStr cached_generation), (''identity'', identity_snapshot example_ident),
     (''node_key'', JStr example_key), (''version'', JInt 1)])))]"

definition cached_store :: store where
  "cached_store = empty_store\<lparr>st_current := Some (Plain (pointer_text (replicate 32 CHR ''d''))),
     st_nodes := Folder [(example_key, Plain (pointer_text cached_generation))], st_generations := [(cached_generation, Plain cached_dir)]\<rparr>"

definition example_run :: "dag_execution res \<times> world" where
  "example_run = dag_execute example_native example_digest example_policy example_runtime [example_node] \<lparr>w_store = cached_store, w_faults = NoFault\<rparr>"

lemma example_run_hits:
  "map_sum (\<lambda>_. ()) (\<lambda>x. (ds_hits (dx_state x), map l_generation (ds_leases (dx_state x)))) (fst example_run) = Inr ([example_key], [cached_generation])"
  by code_simp

lemma example_run_returns:
  obtains x w' where "dag_execute example_native example_digest example_policy example_runtime [example_node]
      \<lparr>w_store = cached_store, w_faults = NoFault\<rparr> = (Inr x, w')" "example_run = (Inr x, w')"
    "ds_hits (dx_state x) = [example_key]" "map l_generation (ds_leases (dx_state x)) = [cached_generation]"
  using example_run_hits that by (cases example_run; cases "fst example_run") (auto simp: example_run_def)

theorem dag_execution_accounts_witness:
  "map_sum (\<lambda>_. ()) (\<lambda>x. map fst (ds_outputs (dx_state x))) (fst example_run) = Inr [node_key_of example_digest example_node]"
proof -
  obtain x w' where run: "dag_execute example_native example_digest example_policy example_runtime [example_node]
      \<lparr>w_store = cached_store, w_faults = NoFault\<rparr> = (Inr x, w')" "example_run = (Inr x, w')"
    by (rule example_run_returns)
  show ?thesis using dag_execution_accounts [OF run(1)] by (simp add: dag_accounts_def run(2))
qed

text \<open>
  A node whose schema declares \<open>int64\<close> with nulls is returned as floats when its publication is declined, and
  raises when it is admitted.
\<close>

lemma declared_type_ignored:
  assumes "ni_output_schema (pn_identity node) = [\<lparr>cs_name = ''factor'', cs_dtype = ''int64'', cs_nullable = True\<rparr>]"
    and "pn_compute node (parent_outputs (pn_identity node) (ds_outputs d)) = Inr [(''factor'', Floats [Some 0])]"
    and "policy_admit policy (rt_seconds runtime k) (rt_size runtime [(''factor'', Floats [Some 0])]) (pn_expected_uses node) = Inr admitted"
  shows "case computed_node native digest policy runtime node k True d w of
      (Inr d', w') \<Rightarrow> \<not> admitted \<and> w' = w \<and> ds_outputs d' = ds_outputs d @ [(k, [(''factor'', Floats [Some 0])])]
    | (Inl e, w') \<Rightarrow> admitted \<and> w' = w \<and> e = ValueError ''mapped factor storage currently requires non-nullable float64 columns''"
  using assms by (cases admitted) (simp_all add: computed_node_def validate_output_def publish_factor_node_def frame_columns_def pbind_def Let_def)

lemma cache_ok_empty: "cache_ok native digest frames (index_of empty_store)"
  by (simp add: cache_ok_def index_ok_def truthful_def index_of_def empty_store_def)

theorem dag_execution_transparent_witness:
  "cache_ok reference_native example_digest [(example_key, [(''factor'', Floats [Some 0])])]
     (index_of (w_store (snd (dag_execute reference_native example_digest example_policy example_runtime [example_node]
       \<lparr>w_store = empty_store, w_faults = CrashAfter 6\<rparr>))))"
proof -
  let ?frames = "[(example_key, [(''factor'', Floats [Some 0])])]" and ?w = "\<lparr>w_store = empty_store, w_faults = CrashAfter 6\<rparr>"
  have schema: "map cs_name (ni_output_schema example_ident) = [''factor'']" and parents: "ni_parents example_ident = []" by code_simp+
  have key: "node_key_of example_digest example_node = example_key"
    by (simp add: node_key_of_def identity_node_key_def example_digest_def example_key_def)
  have reference: "uncached example_digest [example_node] [] = Inr ?frames"
    using schema parents by (simp add: key [unfolded example_node_def] example_node_def validate_output_def)
  have sound: "\<forall>n\<in>set [example_node]. node_sound n"
    using example_facts schema by (simp add: node_sound_def example_node_def)
  have fresh: "fresh_generations example_digest example_runtime [example_node] (index_of (w_store ?w))"
    using example_facts by (simp add: fresh_generations_def example_runtime_def index_of_def empty_store_def)
  show ?thesis
    using dag_execution_transparent [OF _ prod.collapse [symmetric] reference reference_native_law sound _ fresh, of example_policy]
    by (simp add: live_def sized_frames_def cache_ok_empty)
qed

end
