(* ===== verification/Factor_Leases.thy ===== *)
theory Factor_Leases
  imports Factor_Dag
begin

text \<open>
  What the leases of an execution protect. A predicate on the lease directories is kept by a whole program
  when its writes keep it; the locale \<open>lease_predicate\<close> says which writes matter, and its instance for the
  leases taken so far shows that an execution still holds every lease it returns, so eviction leaves the
  generations behind its frames alone until it is closed.
\<close>

section \<open>Predicates a program keeps\<close>

definition keeps :: "(store \<Rightarrow> bool) \<Rightarrow> (world, 'a) prog \<Rightarrow> bool" where
  "keeps P m = (\<forall>t. P t \<longrightarrow> runs t m (\<lambda>_. P) (\<lambda>_. P) P)"

named_theorems keep_rules "programs that keep a predicate"

lemma keeps_progI: "(\<And>t. P t \<Longrightarrow> runs t m (\<lambda>_. P) (\<lambda>_. P) P) \<Longrightarrow> keeps P m"
  by (simp add: keeps_def)

lemma keeps_runs: "keeps P m \<Longrightarrow> P t \<Longrightarrow> runs t m (\<lambda>_. P) (\<lambda>_. P) P"
  by (simp add: keeps_def)

lemma keeps_bind [keep_rules]: "keeps P m \<Longrightarrow> (\<And>x. keeps P (f x)) \<Longrightarrow> keeps P (pbind m f)"
  by (rule keeps_progI) (blast intro: runs_bind dest: keeps_runs)

lemma keeps_basic [keep_rules]: "keeps P (preturn x)" "keeps P (plift r)" "keeps P (reads g)" "keeps P (reads_res h)"
  by (auto simp: keeps_def simp del: prog_simps intro!: runs_return runs_lift runs_reads runs_reads_res)

lemma keeps_io [keep_rules]: "(\<And>s. P s \<Longrightarrow> P (f s)) \<Longrightarrow> keeps P (io f)"
  by (rule keeps_progI) (auto intro: runs_io)

lemma keeps_cond [keep_rules]: "keeps P m \<Longrightarrow> keeps P m' \<Longrightarrow> keeps P (if b then m else m')"
  by simp

lemma keeps_cases [keep_rules]:
  "keeps P m \<Longrightarrow> (\<And>x. keeps P (f x)) \<Longrightarrow> keeps P (case c of None \<Rightarrow> m | Some x \<Rightarrow> f x)"
  "(\<And>x y. keeps P (h x y)) \<Longrightarrow> keeps P (case p of (x, y) \<Rightarrow> h x y)"
  by (cases c; simp) (cases p; simp)

lemma keeps_on_exception [keep_rules]: "keeps P m \<Longrightarrow> (\<And>s. P s \<Longrightarrow> P (g s)) \<Longrightarrow> keeps P (on_exception m g)"
  by (rule keeps_progI, rule runs_on_exception [OF keeps_runs]) auto

lemma keeps_ignoring_os_error [keep_rules]: "keeps P m \<Longrightarrow> keeps P (ignoring_os_error m)"
  by (rule keeps_progI, rule runs_ignoring_os_error [OF keeps_runs]) auto

lemma keeps_unless_cache_miss:
  "keeps P m \<Longrightarrow> (\<And>s s'. P s \<Longrightarrow> same_but_metrics s s' \<Longrightarrow> P s') \<Longrightarrow> keeps P (unless_cache_miss call m)"
  by (rule keeps_progI, rule runs_unless_cache_miss [where E' = "\<lambda>_. P"]) (auto dest: keeps_runs)

lemma keeps_foreach [keep_rules]: "(\<And>x. keeps P (f x)) \<Longrightarrow> keeps P (pforeach f xs)"
  by (rule keeps_progI, rule runs_foreach_invariant) (auto dest: keeps_runs)

section \<open>Which writes touch leases\<close>

lemma lease_dirs_frames:
  "st_leases (put_staged g f c s) = st_leases s" "st_leases (make_staging g s) = st_leases s" "st_leases (rename_staging g s) = st_leases s"
  "st_leases (put_pointer g c s) = st_leases s" "st_leases (replace_current g s) = st_leases s" "st_leases (put_node nm c s) = st_leases s"
  "st_leases (make_nodes s) = st_leases s" "st_leases (replace_node k g s) = st_leases s" "st_leases (put_access k v n s) = st_leases s"
  "st_leases (publication_cleanup g s) = st_leases s" "st_leases (make_admission s) = st_leases s"
  "st_leases (put_admission nm c n s) = st_leases s" "st_leases (replace_admission a b s) = st_leases s"
  "st_leases (unlink_admission nm s) = st_leases s"
  by (simp_all add: put_staged_def make_staging_def rename_staging_def put_pointer_def replace_current_def put_node_def make_nodes_def
      replace_node_def put_access_def publication_cleanup_def make_admission_def put_admission_def replace_admission_def
      unlink_admission_def split: option.splits folder.splits)

locale lease_predicate =
  fixes P :: "store \<Rightarrow> bool" and held :: "string set"
  assumes other: "P s \<Longrightarrow> st_leases s' = st_leases s \<Longrightarrow> P s'"
    and put: "P s \<Longrightarrow> P (put_lease g nm c s)"
    and make: "P s \<Longrightarrow> P (make_lease_dir g s)"
    and release: "P s \<Longrightarrow> nm \<notin> held \<Longrightarrow> P (unlink_lease g nm s)"
begin

lemma frames:
  "P s \<Longrightarrow> P (put_staged g f c s)" "P s \<Longrightarrow> P (make_staging g s)" "P s \<Longrightarrow> P (rename_staging g s)" "P s \<Longrightarrow> P (put_pointer g c s)"
  "P s \<Longrightarrow> P (replace_current g s)" "P s \<Longrightarrow> P (put_node nm c s)" "P s \<Longrightarrow> P (make_nodes s)" "P s \<Longrightarrow> P (replace_node k g s)"
  "P s \<Longrightarrow> P (put_access k v n s)" "P s \<Longrightarrow> P (publication_cleanup g s)" "P s \<Longrightarrow> P (make_admission s)"
  "P s \<Longrightarrow> P (put_admission nm c n s)" "P s \<Longrightarrow> P (replace_admission a b s)" "P s \<Longrightarrow> P (unlink_admission nm s)"
  by (rule other, assumption, rule lease_dirs_frames)+

lemma keeps_record_access: "keeps P (record_node_access env k g m)"
  unfolding record_node_access_def by (intro keep_rules frames)

lemma keeps_open: "keeps P (open_and_lease native digest env g expected req)"
  unfolding open_and_lease_def by (intro keep_rules frames put make)

lemma keeps_open_by_key: "keeps P (open_generation_by_node_key native digest env k interval)"
  unfolding open_generation_by_node_key_def by (intro keep_rules keeps_open keeps_record_access)

lemma keeps_stage: "keeps P (stage_columns native v g rows cols)"
proof (induction cols arbitrary: rows)
  case (Cons c cols)
  show ?case unfolding stage_columns.simps Let_def by (intro keep_rules frames Cons.IH)
qed (simp only: stage_columns.simps, intro keep_rules)

lemma keeps_publish_new: "keeps P (publish_new native env k columns identity v)"
  unfolding publish_new_def publish_staged_def index_node_def Let_def
  by (intro keep_rules frames keeps_stage keeps_record_access)

lemma keeps_reuse:
  assumes "ev_lease_name env \<notin> held"
  shows "keeps P (pbind (open_and_lease native digest env g expected req) (\<lambda>lease.
     pbind (record_node_access env k g m) (\<lambda>_. pbind (lease_close lease) (\<lambda>_. preturn x))))"
proof (rule keeps_progI)
  fix t
  assume t: "P t"
  have "runs t (open_and_lease native digest env g expected req) (\<lambda>lease s. P s \<and> l_name lease = ev_lease_name env) (\<lambda>_. P) P"
    unfolding open_and_lease_def
    by (intro run_rules) (use t in \<open>auto simp del: prog_simps split: prod.splits intro!: run_rules make put\<close>)
  then show "runs t (pbind (open_and_lease native digest env g expected req) (\<lambda>lease.
     pbind (record_node_access env k g m) (\<lambda>_. pbind (lease_close lease) (\<lambda>_. preturn x)))) (\<lambda>_. P) (\<lambda>_. P) P"
  proof (rule runs_bind, elim conjE)
    fix lease :: lease and s
    assume s: "P s" "l_name lease = ev_lease_name env"
    have "keeps P (pbind (record_node_access env k g m) (\<lambda>_. pbind (lease_close lease) (\<lambda>_. preturn x)))"
      unfolding lease_close_def using assms s(2) by (intro keep_rules keeps_record_access release) simp_all
    then show "runs s (pbind (record_node_access env k g m) (\<lambda>_. pbind (lease_close lease) (\<lambda>_. preturn x))) (\<lambda>_. P) (\<lambda>_. P) P"
      using s(1) by (rule keeps_runs)
  qed
qed

lemma keeps_publish:
  assumes "ev_lease_name env \<notin> held"
  shows "keeps P (publish_factor_node native digest env identity columns)"
proof -
  let ?k = "identity_node_key digest identity"
  have body: "keeps P (case (indexed, None :: string option) of
       (Some g, None) \<Rightarrow>
         pbind (open_and_lease native digest env g (Some ?k) True) (\<lambda>lease.
         pbind (record_node_access env ?k g (Fin 60000000000)) (\<lambda>_.
         pbind (lease_close lease) (\<lambda>_.
         preturn g)))
     | _ \<Rightarrow> publish_new native env ?k columns (Some identity) False)" for indexed
    by (cases indexed) (simp_all add: keeps_publish_new keeps_reuse assms)
  then show ?thesis
    unfolding publish_factor_node_def publish_generation_def by (intro keeps_cond keeps_bind keeps_basic body)
qed

lemma keeps_rejections: "keeps P (record_rejection env k pk secs bytes)" "keeps P (clear_rejection k)"
  unfolding record_rejection_def clear_rejection_def unlink_if_plain_def Let_def
  by (intro keep_rules frames; assumption)+

lemma metrics: "P s \<Longrightarrow> same_but_metrics s s' \<Longrightarrow> P s'"
  by (rule other) (simp_all add: same_but_metrics_fields)

lemma keeps_visit:
  assumes "ev_lease_name (rt_env runtime (node_key_of digest node)) \<notin> held"
  shows "keeps P (visit_node native digest policy runtime node d)"
  unfolding visit_node_def computed_node_def cached_node_def Let_def node_key_of_def [symmetric]
  by (intro keep_rules keeps_unless_cache_miss keeps_rejections keeps_open_by_key keeps_publish assms) (rule metrics)

end

section \<open>The leases an execution holds\<close>

definition leases_held :: "lease list \<Rightarrow> store \<Rightarrow> bool" where
  "leases_held leases st = (\<forall>l\<in>set leases. map_of (lease_files st (l_generation l)) (l_name l) \<noteq> None)"

lemma lease_files_writes:
  "lease_files (put_lease g nm c s) h = (if h = g then dict_set nm (Plain c) (lease_files s g) else lease_files s h)"
  "lease_files (make_lease_dir g s) h = lease_files s h"
  "lease_files (unlink_lease g nm s) h = (if h = g then AList.delete nm (lease_files s g) else lease_files s h)"
  by (auto simp: lease_files_def put_lease_def make_lease_dir_def unlink_lease_def split: option.splits entry.splits)

interpretation held: lease_predicate "leases_held leases" "l_name ` set leases" for leases
  by unfold_locales (simp add: leases_held_def lease_files_def, auto simp: leases_held_def lease_files_writes delete_conv')

lemma runs_both:
  assumes "runs t m Q E C" "runs t m Q' E' C'"
  shows "runs t m (\<lambda>x s. Q x s \<and> Q' x s) (\<lambda>e s. E e s \<and> E' e s) (\<lambda>s. C s \<and> C' s)"
proof (rule runsI)
  fix w
  assume w: "live w" "w_store w = t"
  show "case m w of (Inr x, w') \<Rightarrow> live w' \<and> Q x (w_store w') \<and> Q' x (w_store w')
      | (Inl e, w') \<Rightarrow> if live w' then E e (w_store w') \<and> E' e (w_store w') else C (w_store w') \<and> C' (w_store w')"
    using runs_Inr [OF assms(1) w] runs_Inl [OF assms(1) w] runs_Inr [OF assms(2) w] runs_Inl [OF assms(2) w]
    by (cases "m w"; cases "fst (m w)") auto
qed

lemma runs_open_lease:
  "runs t (open_generation_by_node_key native digest env k interval)
    (\<lambda>lease s. leases_held [lease] s \<and> l_name lease = ev_lease_name env \<and> \<not> l_closed lease \<and> hex_name 32 (l_generation lease))
    (\<lambda>_ _. True) (\<lambda>_. True)" (is "runs t _ ?Q ?E ?C")
  unfolding open_generation_by_node_key_def
proof (intro runs_bind_lift runs_bind_reads_res)
  fix g
  assume "require_node_pointer t k = Inr g"
  then have g: "hex_name 32 g"
    by (auto simp: require_node_pointer_def read_node_pointer_def split: if_splits option.splits entry.splits sum.splits exn.splits)
  have opened: "runs t (open_and_lease native digest env g (Some k) True) ?Q ?E ?C"
    unfolding open_and_lease_def
    by (intro run_rules TrueI) (use g in \<open>auto simp del: prog_simps simp: leases_held_def lease_files_writes split: prod.splits intro!: run_rules\<close>)
  show "runs t (pbind (open_and_lease native digest env g (Some k) True)
       (\<lambda>lease. pbind (record_node_access env k g (f_mul interval (Fin 1000000000))) (\<lambda>_. preturn lease))) ?Q ?E ?C"
  proof (rule runs_bind [OF opened])
    fix lease s
    assume s: "?Q lease s"
    show "runs s (pbind (record_node_access env k g (f_mul interval (Fin 1000000000))) (\<lambda>_. preturn lease)) ?Q ?E ?C"
      by (rule runs_bind [OF runs_conseq [OF keeps_runs [OF held.keeps_record_access]]])
        (use s in \<open>auto simp del: prog_simps intro!: runs_return\<close>)
  qed
qed simp_all

text \<open>A visit keeps the leases held so far and appends at most the one it takes, under its own name.\<close>

definition lease_taken :: "string \<Rightarrow> dag_state \<Rightarrow> dag_state \<Rightarrow> bool" where
  "lease_taken nm d d' = (ds_leases d' = ds_leases d
     \<or> (\<exists>lease. ds_leases d' = ds_leases d @ [lease] \<and> l_name lease = nm \<and> \<not> l_closed lease \<and> hex_name 32 (l_generation lease)))"

lemma leases_held_append: "leases_held (xs @ ys) s \<longleftrightarrow> leases_held xs s \<and> leases_held ys s"
  by (auto simp: leases_held_def)

lemma runs_visit_leases:
  assumes held: "leases_held (ds_leases d) t" and nm: "ev_lease_name (rt_env runtime (node_key_of digest node)) \<notin> l_name ` set (ds_leases d)"
  shows "runs t (visit_node native digest policy runtime node d)
    (\<lambda>d' s. leases_held (ds_leases d') s \<and> lease_taken (ev_lease_name (rt_env runtime (node_key_of digest node))) d d')
    (\<lambda>_ _. True) (\<lambda>_. True)" (is "runs t _ ?Q ?E ?C")
proof -
  let ?k = "node_key_of digest node" and ?env = "rt_env runtime (node_key_of digest node)"
  let ?P = "leases_held (ds_leases d)"
  have computed: "runs s (computed_node native digest policy runtime node ?k hint d') ?Q ?E ?C"
    if s: "?P s" and d': "ds_leases d' = ds_leases d" for s d' hint
  proof -
    have "keeps ?P (computed_node native digest policy runtime node ?k hint d')"
      unfolding computed_node_def Let_def
      by (intro keep_rules held.keeps_rejections held.keeps_publish nm)
    from keeps_runs [OF this s] have kept: "runs s (computed_node native digest policy runtime node ?k hint d') (\<lambda>_. ?P) ?E ?C"
      by (rule runs_conseq) auto
    have same: "runs s (computed_node native digest policy runtime node ?k hint d') (\<lambda>d'' _. ds_leases d'' = ds_leases d') ?E ?C"
    proof (rule runsI)
      fix w
      assume "live w" "w_store w = s"
      show "case computed_node native digest policy runtime node ?k hint d' w of (Inr x, w') \<Rightarrow> live w' \<and> ds_leases x = ds_leases d'
          | (Inl e, w') \<Rightarrow> if live w' then True else True"
        using runs_Inr [OF kept \<open>live w\<close> \<open>w_store w = s\<close>] computed_node_computed [of native digest policy runtime node ?k hint d' w]
        by (cases "computed_node native digest policy runtime node ?k hint d' w"; cases "fst (computed_node native digest policy runtime node ?k hint d' w)")
          (auto simp: node_computed_def)
    qed
    show ?thesis by (rule runs_conseq [OF runs_both [OF kept same]]) (use d' in \<open>auto simp: lease_taken_def\<close>)
  qed
  have cached: "runs s (cached_node node ?k lease d') ?Q ?E ?C"
    if s: "?P s" "leases_held [lease] s" and d': "ds_leases d' = ds_leases d"
      and lease: "l_name lease = ev_lease_name ?env" "\<not> l_closed lease" "hex_name 32 (l_generation lease)" for s lease d'
  proof -
    have "runs s (clear_rejection ?k) (\<lambda>_. leases_held (ds_leases d @ [lease])) ?E ?C"
      by (rule runs_conseq [OF keeps_runs [OF held.keeps_rejections(2) [where leases = "ds_leases d @ [lease]"]]]) (use s in \<open>auto simp: leases_held_append\<close>)
    then show ?thesis
      unfolding cached_node_def
      by (rule runs_bind) (intro runs_bind_lift runs_return TrueI, use lease d' in \<open>auto simp: lease_taken_def\<close>)
  qed
  have lookup: "runs t (if hint then preturn None else unless_cache_miss (rt_metrics runtime) (open_generation_by_node_key native digest ?env ?k (Fin 60)))
      (\<lambda>l s. ?P s \<and> (\<forall>lease. l = Some lease \<longrightarrow> leases_held [lease] s \<and> l_name lease = ev_lease_name ?env \<and> \<not> l_closed lease
         \<and> hex_name 32 (l_generation lease))) ?E ?C" for hint
  proof (cases hint)
    case False
    show ?thesis
      unfolding if_not_P [OF False]
      by (rule runs_unless_cache_miss [OF runs_conseq [OF runs_both [OF keeps_runs [OF held.keeps_open_by_key held] runs_open_lease]]]) auto
  qed (use held in \<open>auto simp del: prog_simps intro!: runs_return\<close>)
  show ?thesis
    unfolding visit_node_def Let_def node_key_of_def [symmetric]
    by (intro runs_bind_lift runs_bind_reads_res runs_bind_reads runs_bind [OF lookup] TrueI)
      (auto simp del: prog_simps split: option.split intro!: computed cached)
qed

lemma runs_loop_leases:
  assumes "leases_held (ds_leases d) t" "distinct (map (\<lambda>n. ev_lease_name (rt_env runtime (node_key_of digest n))) nodes)"
    and "\<forall>n\<in>set nodes. ev_lease_name (rt_env runtime (node_key_of digest n)) \<notin> l_name ` set (ds_leases d)"
    and "\<forall>l\<in>set (ds_leases d). \<not> l_closed l \<and> hex_name 32 (l_generation l)"
  shows "runs t (dag_loop native digest policy runtime nodes d)
    (\<lambda>d' s. leases_held (ds_leases d') s \<and> (\<forall>l\<in>set (ds_leases d'). \<not> l_closed l \<and> hex_name 32 (l_generation l))) (\<lambda>_ _. True) (\<lambda>_. True)"
  using assms
proof (induction nodes arbitrary: d t)
  case Nil
  then show ?case unfolding dag_loop.simps by (intro runs_return) simp
next
  case (Cons node nodes)
  have step: "runs t (closing_on_exception (visit_node native digest policy runtime node d) (close_leases (ds_leases d)))
      (\<lambda>d' s. leases_held (ds_leases d') s \<and> lease_taken (ev_lease_name (rt_env runtime (node_key_of digest node))) d d') (\<lambda>_ _. True) (\<lambda>_. True)"
    by (rule runs_closing_on_exception [OF runs_conseq [OF runs_visit_leases]])
      (use Cons.prems in \<open>auto intro: runs_conseq [OF runs_close_leases]\<close>)
  show ?case
    unfolding dag_loop.simps
  proof (rule runs_bind [OF step], elim conjE)
    fix e s
    assume e: "leases_held (ds_leases e) s" "lease_taken (ev_lease_name (rt_env runtime (node_key_of digest node))) d e"
    show "runs s (dag_loop native digest policy runtime nodes e)
      (\<lambda>d' s. leases_held (ds_leases d') s \<and> (\<forall>l\<in>set (ds_leases d'). \<not> l_closed l \<and> hex_name 32 (l_generation l))) (\<lambda>_ _. True) (\<lambda>_. True)"
      by (rule Cons.IH [OF e(1)]) (use Cons.prems(2-4) e(2) in \<open>auto simp: lease_taken_def image_iff, metis\<close>)
  qed
qed

lemma held_lease_protects: "leases_held leases st \<Longrightarrow> l \<in> set leases \<Longrightarrow> node_leased st (l_generation l)"
  by (fastforce simp: leases_held_def node_leased_def lease_files_def split: option.splits entry.splits)

lemma execution_leases:
  assumes "live w" "dag_execute native digest policy runtime nodes w = (Inr x, w')"
    and "distinct (map (\<lambda>n. ev_lease_name (rt_env runtime (node_key_of digest n))) nodes)"
  shows "live w' \<and> leases_held (ds_leases (dx_state x)) (w_store w')
    \<and> (\<forall>l\<in>set (ds_leases (dx_state x)). \<not> l_closed l \<and> hex_name 32 (l_generation l))"
proof -
  have "runs (w_store w) (dag_execute native digest policy runtime nodes)
    (\<lambda>x s. leases_held (ds_leases (dx_state x)) s \<and> (\<forall>l\<in>set (ds_leases (dx_state x)). \<not> l_closed l \<and> hex_name 32 (l_generation l)))
    (\<lambda>_ _. True) (\<lambda>_. True)"
    unfolding dag_execute_def
    by (intro runs_bind_lift TrueI runs_bind [OF runs_loop_leases [OF _ assms(3)]] runs_bind [OF runs_conseq [OF runs_try_record_metrics]] runs_return)
      (auto simp: empty_dag_state_def leases_held_def lease_files_def same_but_metrics_fields)
  from runs_Inr [OF this assms(1) refl assms(2)] show ?thesis by blast
qed

text \<open>
  Claim C18. The generations behind an execution's cached frames stay while it is open: when an execution
  returns, the lease of every hit is unclosed and its file is in the store, so that whatever an eviction
  does next, under any limits and however it ends, those generations keep every one of their files.
\<close>

theorem open_execution_survives_eviction:
  assumes "live w" and "dag_execute native digest policy runtime nodes w = (Inr x, w')"
    and "distinct (map (\<lambda>n. ev_lease_name (rt_env runtime (node_key_of digest n))) nodes)"
    and "evict_factor_nodes disk now_ns args w' = (r, w'')"
  shows "map l_node_key (ds_leases (dx_state x)) = ds_hits (dx_state x)
    \<and> (\<forall>l\<in>set (ds_leases (dx_state x)). \<not> l_closed l
        \<and> map_of (lease_files (w_store w') (l_generation l)) (l_name l) \<noteq> None
        \<and> ix_generations (index_of (w_store w'')) (l_generation l) = ix_generations (index_of (w_store w')) (l_generation l))"
proof -
  note leases = execution_leases [OF assms(1-3)]
  have "evict_left disk now_ns (ea_dry_run args) (w_store w') (w_store w'')"
    by (rule eviction_left [OF conjunct1 [OF leases] assms(4)])
  then have kept: "ix_generations (index_of (w_store w'')) (l_generation l) = ix_generations (index_of (w_store w')) (l_generation l)"
    if "l \<in> set (ds_leases (dx_state x))" for l
    using evict_left_index [of disk now_ns "ea_dry_run args" "w_store w'" "w_store w''"] leases held_lease_protects that by blast
  show ?thesis
    using execution_accounts [OF assms(2)] leases kept by (auto simp: dag_accounts_def leases_held_def)
qed

section \<open>Closing\<close>

lemma runs_close_releases:
  "runs t (close_leases leases) (\<lambda>_ s. \<forall>l\<in>set leases. l_closed l \<or> map_of (lease_files s (l_generation l)) (l_name l) = None) (\<lambda>_ _. True) (\<lambda>_. True)"
  unfolding close_leases_def
proof (rule runs_foreach)
  fix l :: lease and ys zs :: "lease list" and s
  assume before: "\<forall>l\<in>set ys. l_closed l \<or> map_of (lease_files s (l_generation l)) (l_name l) = None"
  have after: "\<forall>m\<in>set (ys @ [l]). l_closed m \<or> map_of (lease_files (unlink_lease (l_generation l) (l_name l) s) (l_generation m)) (l_name m) = None"
    using before by (auto simp: lease_files_writes delete_conv')
  show "runs s (pbind (lease_close l) (\<lambda>_. preturn ()))
      (\<lambda>_ s'. \<forall>m\<in>set (ys @ [l]). l_closed m \<or> map_of (lease_files s' (l_generation m)) (l_name m) = None) (\<lambda>_ _. True) (\<lambda>_. True)"
  proof (cases "l_closed l")
    case True
    show ?thesis
      unfolding lease_close_def if_P [OF True] by (intro runs_bind_return runs_return) (use before True in auto)
  next
    case False
    have "runs s (lease_close l) (\<lambda>_ s'. s' = unlink_lease (l_generation l) (l_name l) s) (\<lambda>_ _. True) (\<lambda>_. True)"
      unfolding lease_close_def if_not_P [OF False] by (intro run_rules TrueI) simp
    then show ?thesis
      by (rule runs_bind) (rule runs_return, use after in simp)
  qed
qed simp

text \<open>
  Closing an execution gives up everything: when \<open>close\<close> returns, no lease of the execution has a
  file in the store any more, every lookup raises, and closing again does nothing.
\<close>

lemma execution_close_releases:
  assumes "live w" and "execution_close x w = (Inr x', w')" and "\<not> dx_closed x"
  shows "(\<forall>l\<in>set (ds_leases (dx_state x)). l_closed l \<or> map_of (lease_files (w_store w') (l_generation l)) (l_name l) = None)
    \<and> (\<forall>k. execution_getitem x' k = Inl (RuntimeError ''factor DAG execution is closed''))
    \<and> execution_close x' w' = (Inr x', w')"
proof -
  have "runs (w_store w) (execution_close x) (\<lambda>y s. dx_closed y
      \<and> (\<forall>l\<in>set (ds_leases (dx_state x)). l_closed l \<or> map_of (lease_files s (l_generation l)) (l_name l) = None)) (\<lambda>_ _. True) (\<lambda>_. True)"
    unfolding execution_close_def if_not_P [OF assms(3)]
    by (rule runs_bind [OF runs_close_releases], rule runs_return) simp
  from runs_Inr [OF this assms(1) refl assms(2)] show ?thesis
    by (simp add: execution_getitem_def execution_close_def)
qed

section \<open>Instances\<close>

theorem open_execution_survives_eviction_witness:
  "ix_generations (index_of (w_store (snd (evict_factor_nodes example_disk 10 example_evict (snd example_run))))) cached_generation
    = ix_generations (index_of (w_store (snd example_run))) cached_generation"
proof -
  obtain x w' where run: "dag_execute example_native example_digest example_policy example_runtime [example_node]
      \<lparr>w_store = cached_store, w_faults = NoFault\<rparr> = (Inr x, w')" "example_run = (Inr x, w')"
    "map l_generation (ds_leases (dx_state x)) = [cached_generation]"
    by (rule example_run_returns)
  from run(3) obtain l where l: "l \<in> set (ds_leases (dx_state x))" "l_generation l = cached_generation" by auto
  have w': "snd example_run = w'" by (simp only: run(2) snd_conv)
  have "ix_generations (index_of (w_store (snd (evict_factor_nodes example_disk 10 example_evict w')))) (l_generation l)
      = ix_generations (index_of (w_store w')) (l_generation l)"
    using open_execution_survives_eviction [OF _ run(1) _ prod.collapse [symmetric], of example_disk 10 example_evict] l(1)
    by (simp add: live_def)
  then show ?thesis unfolding w' l(2) .
qed

definition example_execution :: dag_execution where
  "example_execution = \<lparr>dx_state = empty_dag_state\<lparr>ds_leases := [\<lparr>l_generation = cached_generation, l_node_key = example_key, l_identity = None,
     l_columns = [], l_name = ''1-x.json'', l_closed = False\<rparr>]\<rparr>, dx_metrics_recorded = True, dx_closed = False\<rparr>"

definition leased_store :: store where
  "leased_store = empty_store\<lparr>st_leases := [(cached_generation, Plain [(''1-x.json'', Plain Torn)])]\<rparr>"

lemma execution_close_releases_instance:
  "map_of (lease_files (w_store (snd (execution_close example_execution \<lparr>w_store = leased_store, w_faults = NoFault\<rparr>))) cached_generation) ''1-x.json'' = None"
proof -
  let ?w = "\<lparr>w_store = leased_store, w_faults = NoFault\<rparr>"
  obtain x' w' where run: "execution_close example_execution ?w = (Inr x', w')"
    by (simp add: execution_close_def example_execution_def empty_dag_state_def close_leases_def lease_close_def pbind_def io_def)
  then show ?thesis
    using execution_close_releases [OF _ run] by (simp add: live_def example_execution_def)
qed

end
