(* ===== verification/Factor_Migration.thy ===== *)
theory Factor_Migration
  imports Factor_Leases
begin

text \<open>
  Migration of legacy cached nodes (\<open>migrate_factor_nodes_to_v3\<close> of \<open>factor_store.py\<close>): the nodes whose columns
  are of an older segment version are opened, published again under their identity in a new generation and
  verified, within limits on their number and on the bytes written. Progress goes to a checkpoint file that nothing
  reads back. What \<open>stat\<close> and \<open>statvfs\<close> answer is the record \<open>disk\<close> of the eviction.
\<close>

section \<open>Planning\<close>

record migration_entry =
  me_node_key :: string
  me_generation :: string
  me_segment_versions :: "int list"
  me_estimated_write_bytes :: int
  me_leased :: bool

text \<open>A Python set of JSON scalars keeps the first of equal members; a list or dict has no hash.\<close>

fun same_scalar :: "json \<Rightarrow> json \<Rightarrow> bool" where
  "same_scalar (JInt n) v = json_eq_int v n"
| "same_scalar (JBool b) v = json_eq_int v (if b then 1 else 0)"
| "same_scalar u (JInt n) = json_eq_int u n"
| "same_scalar u (JBool b) = json_eq_int u (if b then 1 else 0)"
| "same_scalar u v = (u = v)"

fun hashable :: "json \<Rightarrow> bool" where
  "hashable (JArr _) = False"
| "hashable (JObj _) = False"
| "hashable _ = True"

definition set_add :: "json list \<Rightarrow> json \<Rightarrow> json list res" where
  "set_add members v =
     (if \<not> hashable v then Inl (TypeError ''unhashable type'')
      else if \<exists>u\<in>set members. same_scalar u v then Inr members else Inr (members @ [v]))"

definition legacy_metadata_ok :: "string \<times> json \<Rightarrow> bool" where
  "legacy_metadata_ok c = (case c of
      (nm, JObj m) \<Rightarrow> portable_name nm \<and> item_get m ''file'' = JStr (nm @ ''.bin'')
        \<and> (case json_int (item_get m ''rows'') of None \<Rightarrow> False | Some n \<Rightarrow> 0 \<le> n) \<and> json_int (item_get m ''checksum'') \<noteq> None
    | _ \<Rightarrow> False)"

definition legacy_version_ok :: "json \<Rightarrow> bool" where
  "legacy_version_ok v = (case json_int v of None \<Rightarrow> False | Some n \<Rightarrow> n \<in> {1, 2, 3})"

text \<open>The body of the \<open>try\<close>: the segment versions of a valid manifest.\<close>

definition legacy_versions :: "(json \<Rightarrow> string) \<Rightarrow> string \<Rightarrow> string \<Rightarrow> json \<Rightarrow> int list res" where
  "legacy_versions digest node_key generation document = (case document of
      JObj manifest \<Rightarrow>
        rbind (item_of manifest ''columns'') (\<lambda>v. case v of
          JObj columns \<Rightarrow>
            rbind (require (columns \<noteq> [] \<and> (\<forall>c\<in>set columns. legacy_metadata_ok c)) (ValueError [])) (\<lambda>_.
            rbind (item_of manifest ''identity'') (\<lambda>snapshot.
            rbind (identity_from_snapshot snapshot) (\<lambda>identity.
            rbind (res_map (\<lambda>c. case snd c of JObj m \<Rightarrow> item_of m ''segment_version'' | _ \<Rightarrow> Inl (TypeError [])) columns) (\<lambda>all.
            rbind (res_fold set_add [] all) (\<lambda>versions.
            rbind (require (item_get manifest ''format'' = JStr FORMAT \<and> json_eq_int (item_get manifest ''version'') store_VERSION)
              (ValueError [])) (\<lambda>_.
            rbind (item_of manifest ''node_key'') (\<lambda>k.
            rbind (item_of manifest ''generation'') (\<lambda>g.
            rbind (require (k = JStr node_key \<and> g = JStr generation \<and> identity_node_key digest identity = node_key
                \<and> (\<forall>v\<in>set versions. legacy_version_ok v)) (ValueError [])) (\<lambda>_.
            Inr (map (\<lambda>v. the (json_int v)) versions))))))))))
        | _ \<Rightarrow> Inl (ValueError []))
    | _ \<Rightarrow> Inl (TypeError []))"

definition invalid_manifest :: "exn \<Rightarrow> exn" where
  "invalid_manifest e = (case e of
      OSError _ \<Rightarrow> FactorStoreError ''factor migration found an invalid generation manifest''
    | ValueError _ \<Rightarrow> FactorStoreError ''factor migration found an invalid generation manifest''
    | KeyError _ \<Rightarrow> FactorStoreError ''factor migration found an invalid generation manifest''
    | TypeError _ \<Rightarrow> FactorStoreError ''factor migration found an invalid generation manifest''
    | _ \<Rightarrow> e)"

definition legacy_entry :: "disk \<Rightarrow> (json \<Rightarrow> string) \<Rightarrow> store \<Rightarrow> string \<Rightarrow> migration_entry option res" where
  "legacy_entry disk digest st node_key =
     rbind (require_node_pointer st node_key) (\<lambda>g.
     let files = dir_files (map_of (st_generations st) g); manifest = map_of files ''manifest.json'' in
     rbind (require (map_of (st_generations st) g \<noteq> Some Symlink \<and> manifest \<noteq> Some Symlink)
       (FactorStoreError ''factor generation may not use symbolic links'')) (\<lambda>_.
     case rbind (read_json manifest) (legacy_versions digest node_key g) of
       Inl e \<Rightarrow> Inl (invalid_manifest e)
     | Inr versions \<Rightarrow>
         if set versions = {3} then Inr None
         else if 3 \<in> set versions then Inl (FactorStoreError ''factor migration does not support mixed segment versions'')
         else Inr (Some \<lparr>me_node_key = node_key, me_generation = g, me_segment_versions = sort versions,
           me_estimated_write_bytes = allocated_bytes disk (file_paths [''generations'', g] files)
             + dk_blocks disk [''generations'', g] * 512,
           me_leased = node_leased st g\<rparr>)))"

definition legacy_node_plan :: "disk \<Rightarrow> (json \<Rightarrow> string) \<Rightarrow> store \<Rightarrow> string list option \<Rightarrow> migration_entry list res" where
  "legacy_node_plan disk digest st selected = (case st_nodes st of
      Folder pointers \<Rightarrow>
        rbind (res_map (legacy_entry disk digest st)
          (sort (filter (\<lambda>k. \<not> dotted k \<and> (case selected of None \<Rightarrow> True | Some keys \<Rightarrow> k \<in> set keys)) (map fst pointers)))) (\<lambda>found.
        let plan = concat (map (\<lambda>e. case e of None \<Rightarrow> [] | Some e \<Rightarrow> [e]) found) in
        rbind (require (case selected of None \<Rightarrow> True
          | Some keys \<Rightarrow> \<forall>k\<in>set keys. k \<in> me_node_key ` set plan \<or> is_plain (map_of pointers k))
          (FactorNodeCacheMiss ''selected factor nodes are not cached'')) (\<lambda>_.
        Inr plan))
    | _ \<Rightarrow> Inl (FactorStoreError ''factor node index is missing or invalid''))"

record migration_failure =
  mf_node_key :: string
  mf_stage :: string
  mf_error :: exn

fun plan_caught :: "exn \<Rightarrow> bool" where
  "plan_caught (FactorStoreError _) = True"
| "plan_caught (FactorNodeCacheMiss _) = True"
| "plan_caught (OSError _) = True"
| "plan_caught (ValueError _) = True"
| "plan_caught _ = False"

text \<open>The loop of \<open>try: plan.extend(...) except (FactorStoreError, OSError, ValueError)\<close>.\<close>

primrec plan_nodes :: "disk \<Rightarrow> (json \<Rightarrow> string) \<Rightarrow> store \<Rightarrow> string list \<Rightarrow> (migration_entry list \<times> migration_failure list) res" where
  "plan_nodes disk digest st [] = Inr ([], [])"
| "plan_nodes disk digest st (k # ks) = (case legacy_node_plan disk digest st (Some [k]) of
      Inr es \<Rightarrow> rbind (plan_nodes disk digest st ks) (\<lambda>(plan, failures). Inr (es @ plan, failures))
    | Inl e \<Rightarrow>
        if plan_caught e then rbind (plan_nodes disk digest st ks) (\<lambda>(plan, failures).
          Inr (plan, \<lparr>mf_node_key = k, mf_stage = ''planning'', mf_error = e\<rparr> # failures))
        else Inl e)"

record migrate_args =
  ma_node_keys :: "string list option"
  ma_max_nodes :: "int option"
  ma_max_additional_bytes :: "int option"
  ma_reserve_free_bytes :: int
  ma_dry_run :: bool
  ma_plan_collection :: bool

definition migrate_checks :: "migrate_args \<Rightarrow> unit res" where
  "migrate_checks args =
     rbind (require (case ma_node_keys args of None \<Rightarrow> True | Some keys \<Rightarrow> \<forall>k\<in>set keys. hex_name 64 k)
       (ValueError ''migration node keys must be lowercase SHA-256 digests'')) (\<lambda>_.
     rbind (require (case ma_max_nodes args of None \<Rightarrow> True | Some n \<Rightarrow> 0 \<le> n)
       (ValueError ''max_nodes must be a non-negative integer or None'')) (\<lambda>_.
     rbind (require (case ma_max_additional_bytes args of None \<Rightarrow> True | Some n \<Rightarrow> 0 \<le> n)
       (ValueError ''max_additional_bytes must be a non-negative integer or None'')) (\<lambda>_.
     require (0 \<le> ma_reserve_free_bytes args) (ValueError ''reserve_free_bytes must be a non-negative integer''))))"

definition keys_to_plan :: "migrate_args \<Rightarrow> store \<Rightarrow> string list res" where
  "keys_to_plan args st = (case ma_node_keys args of
      Some keys \<Rightarrow> Inr (sort (remdups keys))
    | None \<Rightarrow> (case st_nodes st of
        Folder pointers \<Rightarrow> Inr (sort (filter (\<lambda>k. \<not> dotted k) (map fst pointers)))
      | _ \<Rightarrow> Inl (FactorStoreError ''factor node index is missing or invalid'')))"

definition migration_budget :: "disk \<Rightarrow> migrate_args \<Rightarrow> int" where
  "migration_budget disk args = (let budget = max 0 (dk_free disk - ma_reserve_free_bytes args) in
     case ma_max_additional_bytes args of None \<Rightarrow> budget | Some n \<Rightarrow> min budget n)"

text \<open>The planned entries: those before the first that exceeds a limit.\<close>

primrec within_limits :: "int option \<Rightarrow> int \<Rightarrow> int \<Rightarrow> int \<Rightarrow> migration_entry list \<Rightarrow> migration_entry list" where
  "within_limits max_nodes budget planned planned_bytes [] = []"
| "within_limits max_nodes budget planned planned_bytes (e # es) =
     (if (case max_nodes of None \<Rightarrow> False | Some n \<Rightarrow> n \<le> planned) then []
      else if budget < planned_bytes + me_estimated_write_bytes e then []
      else e # within_limits max_nodes budget (planned + 1) (planned_bytes + me_estimated_write_bytes e) es)"

section \<open>The checkpoint\<close>

definition make_migration :: "store \<Rightarrow> store" where
  "make_migration st = (if st_migration st = Absent then st\<lparr>st_migration := Folder []\<rparr> else st)"

definition put_migration :: "string \<Rightarrow> content \<Rightarrow> store \<Rightarrow> store" where
  "put_migration nm c st = st\<lparr>st_migration := Folder (dict_set nm (Plain c) (entries (st_migration st)))\<rparr>"

definition unlink_migration :: "string \<Rightarrow> store \<Rightarrow> store" where
  "unlink_migration nm st = (case st_migration st of
      Folder d \<Rightarrow> st\<lparr>st_migration := Folder (AList.delete nm d)\<rparr> | _ \<Rightarrow> st)"

definition replace_checkpoint :: "string \<Rightarrow> store \<Rightarrow> store" where
  "replace_checkpoint staging st = (case map_of (entries (st_migration st)) staging of
      None \<Rightarrow> st
    | Some e \<Rightarrow> st\<lparr>st_migration := Folder (dict_set ''checkpoint.json'' e (AList.delete staging (entries (st_migration st))))\<rparr>)"

text \<open>\<open>try: m except OSError: return False\<close>.\<close>

definition false_on_os_error :: "(world, bool) prog \<Rightarrow> (world, bool) prog" where
  "false_on_os_error m w = (case m w of
      (Inl (OSError t), w') \<Rightarrow> (if w_faults w' = Crashed then Inl (OSError t) else Inr False, w')
    | r \<Rightarrow> r)"

definition write_checkpoint :: "string \<Rightarrow> json \<Rightarrow> (world, bool) prog" where
  "write_checkpoint staging value =
     pbind (io make_migration) (\<lambda>_.
     on_exception
       (pbind (io (put_migration staging Torn)) (\<lambda>_.
        pbind (io (put_migration staging (Doc value))) (\<lambda>_.
        pbind (reads_res (\<lambda>st. require (map_of (entries (st_migration st)) ''checkpoint.json'' \<noteq> Some Irregular)
          (OSError ''Is a directory''))) (\<lambda>_.
        pbind (io (replace_checkpoint staging)) (\<lambda>_.
        preturn True))))) (unlink_migration staging))"

definition try_write_migration_checkpoint :: "string \<Rightarrow> json \<Rightarrow> (world, bool) prog" where
  "try_write_migration_checkpoint uuid value =
     pbind (reads (\<lambda>st. st_migration st = Linked)) (\<lambda>linked.
     if linked then preturn False else false_on_os_error (write_checkpoint (''.checkpoint-'' @ uuid) value))"

definition checkpoint_document :: "string \<Rightarrow> int \<Rightarrow> int \<Rightarrow> string \<Rightarrow> nat \<Rightarrow> nat \<Rightarrow> nat \<Rightarrow> string option \<Rightarrow> json" where
  "checkpoint_document run_id started_ns updated_ns status planned completed failed last_node_key =
     sorted_json (JObj [(''format'', JStr ''gambit-factor-migration-checkpoint''), (''version'', JInt 1), (''run_id'', JStr run_id),
       (''started_ns'', JInt started_ns), (''updated_ns'', JInt updated_ns), (''status'', JStr status), (''planned_nodes'', JInt (int planned)),
       (''completed_nodes'', JInt (int completed)), (''failed_nodes'', JInt (int failed)),
       (''last_node_key'', case last_node_key of None \<Rightarrow> JNull | Some k \<Rightarrow> JStr k)])"

section \<open>Migrating\<close>

text \<open>\<open>{name: lease[name].values for name in lease}\<close>.\<close>

definition lease_arrays :: "lease \<Rightarrow> (string \<times> nd_array) list res" where
  "lease_arrays lease = res_map (\<lambda>nm. rbind (lease_getitem lease nm) (\<lambda>column.
     Inr (nm, \<lparr>arr_ndim = 1, arr_values = col_values column\<rparr>))) (remdups (map fst (l_columns lease)))"

text \<open>The \<open>with\<close> block: the lease is closed on every way out of it.\<close>

definition migrate_node :: "native \<Rightarrow> (json \<Rightarrow> string) \<Rightarrow> env \<Rightarrow> migration_entry \<Rightarrow> (world, string) prog" where
  "migrate_node native digest env e =
     pbind (open_generation_by_node_key native digest env (me_node_key e) (Fin 60)) (\<lambda>lease.
     pbind (closing_on_exception
       (if l_generation lease \<noteq> me_generation e \<or> l_identity lease = None
          then plift (Inl (FactorStoreError ''factor node changed during migration''))
        else
          pbind (plift (lease_arrays lease)) (\<lambda>columns.
          publish_generation native digest env (me_node_key e) columns (l_identity lease) (Some (me_generation e)) True))
       (pbind (lease_close lease) (\<lambda>_. preturn ()))) (\<lambda>generation.
     pbind (lease_close lease) (\<lambda>_.
     preturn generation)))"

fun migration_caught :: "exn \<Rightarrow> bool" where
  "migration_caught (FactorStoreError _) = True"
| "migration_caught (FactorNodeCacheMiss _) = True"
| "migration_caught (FactorMetricsError _) = True"
| "migration_caught (OSError _) = True"
| "migration_caught (RuntimeError _) = True"
| "migration_caught (ValueError _) = True"
| "migration_caught _ = False"

text \<open>\<open>try: m except ... as error\<close>: the error as a value. A dead process catches nothing.\<close>

definition catching :: "(exn \<Rightarrow> bool) \<Rightarrow> (world, 'a) prog \<Rightarrow> (world, 'a res) prog" where
  "catching caught m w = (case m w of
      (Inr x, w') \<Rightarrow> (Inr (Inr x), w')
    | (Inl e, w') \<Rightarrow> (if caught e \<and> w_faults w' \<noteq> Crashed then Inr (Inl e) else Inl e, w'))"

text \<open>What the host gives to one migration.\<close>

record migrate_runtime =
  mr_env :: "string \<Rightarrow> env"
  mr_run_id :: string
  mr_started_ns :: int
  mr_updated_ns :: "nat \<Rightarrow> int"
  mr_checkpoint_uuid :: "nat \<Rightarrow> string"
  mr_metrics :: metrics_call
  mr_collect :: collect_args

record migration_progress =
  mp_migrated :: "(string \<times> string \<times> string) list"
  mp_failures :: "migration_failure list"
  mp_recorded :: bool

definition checkpoint :: "migrate_runtime \<Rightarrow> nat \<Rightarrow> string \<Rightarrow> nat \<Rightarrow> migration_progress \<Rightarrow> string option \<Rightarrow> (world, bool) prog" where
  "checkpoint runtime i status planned p last_node_key = try_write_migration_checkpoint (mr_checkpoint_uuid runtime i)
     (checkpoint_document (mr_run_id runtime) (mr_started_ns runtime) (if i = 0 then mr_started_ns runtime else mr_updated_ns runtime i)
       status planned (length (mp_migrated p)) (length (mp_failures p)) last_node_key)"

definition after_node :: "migration_entry \<Rightarrow> string res \<Rightarrow> migration_progress \<Rightarrow> migration_progress" where
  "after_node e r p = (case r of
      Inr generation \<Rightarrow> p\<lparr>mp_migrated := mp_migrated p @ [(me_node_key e, me_generation e, generation)]\<rparr>
    | Inl error \<Rightarrow> p\<lparr>mp_failures := mp_failures p @ [\<lparr>mf_node_key = me_node_key e, mf_stage = ''migration'', mf_error = error\<rparr>]\<rparr>)"

primrec migrate_loop :: "native \<Rightarrow> (json \<Rightarrow> string) \<Rightarrow> migrate_runtime \<Rightarrow> nat \<Rightarrow> nat \<Rightarrow> migration_entry list \<Rightarrow> migration_progress
    \<Rightarrow> (world, migration_progress) prog" where
  "migrate_loop native digest runtime planned i [] p = preturn p"
| "migrate_loop native digest runtime planned i (e # es) p =
     pbind (catching migration_caught (migrate_node native digest (mr_env runtime (me_node_key e)) e)) (\<lambda>r.
     let p' = after_node e r p in
     pbind (checkpoint runtime i ''running'' planned p' (Some (me_node_key e))) (\<lambda>ok.
     migrate_loop native digest runtime planned (i + 1) es (p'\<lparr>mp_recorded := ok \<and> mp_recorded p'\<rparr>)))"

fun exn_text :: "exn \<Rightarrow> string" where
  "exn_text (TypeError t) = t" | "exn_text (ValueError t) = t" | "exn_text (RuntimeError t) = t" | "exn_text (IndexError t) = t"
| "exn_text (KeyError t) = t" | "exn_text (AttributeError t) = t" | "exn_text (OverflowError t) = t" | "exn_text (PQException t) = t"
| "exn_text (OSError t) = t" | "exn_text (BufferError t) = t" | "exn_text (FactorStoreError t) = t" | "exn_text (FactorNodeCacheMiss t) = t"
| "exn_text (FactorMetricsError t) = t" | "exn_text (Exception t) = t" | "exn_text _ = []"

fun has_substring :: "string \<Rightarrow> string \<Rightarrow> bool" where
  "has_substring sub [] = (sub = [])"
| "has_substring sub (c # cs) = (take (length sub) (c # cs) = sub \<or> has_substring sub cs)"

definition migration_increments :: "migration_entry list \<Rightarrow> migration_progress \<Rightarrow> counters" where
  "migration_increments planned p = [(''migration_nodes'', int (length (mp_migrated p))),
     (''migration_bytes'', sum_list (map me_estimated_write_bytes (filter (\<lambda>e. me_node_key e \<in> fst ` set (mp_migrated p)) planned))),
     (''migration_failures'', int (length (mp_failures p))),
     (''migration_conflicts'', int (length (filter (\<lambda>f. has_substring ''changed during migration'' (exn_text (mf_error f))) (mp_failures p))))]"

record migrate_report =
  mg_eligible_nodes :: "migration_entry list"
  mg_planned_nodes :: "migration_entry list"
  mg_planned_write_bytes :: int
  mg_migrated_nodes :: "(string \<times> string \<times> string) list"
  mg_failures :: "migration_failure list"
  mg_skipped_by_limits :: int
  mg_checkpoint_recorded :: "bool option"
  mg_metrics_recorded :: "bool option"
  mg_collection_plan :: "collect_report option"

text \<open>The part that writes: all of it under \<open>if not dry_run\<close>.\<close>

definition migrate_planned :: "native \<Rightarrow> (json \<Rightarrow> string) \<Rightarrow> migrate_runtime \<Rightarrow> migration_entry list \<Rightarrow> migration_failure list
    \<Rightarrow> (world, migration_progress \<times> bool) prog" where
  "migrate_planned native digest runtime planned failures =
     (let n = length planned; p = \<lparr>mp_migrated = [], mp_failures = failures, mp_recorded = True\<rparr> in
     pbind (checkpoint runtime 0 ''running'' n p None) (\<lambda>started.
     pbind (migrate_loop native digest runtime n 1 planned (p\<lparr>mp_recorded := started\<rparr>)) (\<lambda>p.
     pbind (checkpoint runtime (n + 1) (if mp_failures p \<noteq> [] then ''complete_with_failures'' else ''complete'') n p
       (if planned = [] then None else Some (me_node_key (last planned)))) (\<lambda>finished.
     pbind (try_record_factor_cache_metrics (mr_metrics runtime) (migration_increments planned p)) (\<lambda>metrics_recorded.
     preturn (p\<lparr>mp_recorded := finished \<and> mp_recorded p\<rparr>, metrics_recorded))))))"

definition migrate_factor_nodes_to_v3 :: "native \<Rightarrow> (json \<Rightarrow> string) \<Rightarrow> disk \<Rightarrow> migrate_runtime \<Rightarrow> migrate_args
    \<Rightarrow> (world, migrate_report) prog" where
  "migrate_factor_nodes_to_v3 native digest disk runtime args =
     pbind (plift (migrate_checks args)) (\<lambda>_.
     pbind (reads_res (keys_to_plan args)) (\<lambda>keys.
     pbind (reads_res (\<lambda>st. plan_nodes disk digest st keys)) (\<lambda>(plan, failures).
     let planned = within_limits (ma_max_nodes args) (migration_budget disk args) 0 0 plan in
     pbind (if ma_dry_run args then preturn (\<lparr>mp_migrated = [], mp_failures = failures, mp_recorded = True\<rparr>, True)
            else migrate_planned native digest runtime planned failures) (\<lambda>(p, metrics_recorded).
     pbind (if ma_plan_collection args \<and> \<not> ma_dry_run args
            then pbind (collect_garbage (mr_collect runtime\<lparr>ca_dry_run := True\<rparr>)) (\<lambda>report. preturn (Some report))
            else preturn None) (\<lambda>collection.
     preturn \<lparr>mg_eligible_nodes = plan, mg_planned_nodes = planned,
       mg_planned_write_bytes = sum_list (map me_estimated_write_bytes planned), mg_migrated_nodes = mp_migrated p,
       mg_failures = mp_failures p, mg_skipped_by_limits = int (length plan) - int (length planned),
       mg_checkpoint_recorded = (if ma_dry_run args then None else Some (mp_recorded p)),
       mg_metrics_recorded = (if ma_dry_run args then None else Some metrics_recorded), mg_collection_plan = collection\<rparr>)))))"

section \<open>What a migration keeps\<close>

definition same_contents :: "string \<times> node_identity option \<times> (string \<times> column) list \<Rightarrow> string \<times> node_identity option \<times> (string \<times> column) list \<Rightarrow> bool" where
  "same_contents x y = (fst x = fst y \<and> map_option identity_snapshot (fst (snd x)) = map_option identity_snapshot (fst (snd y))
     \<and> (\<forall>nm. map_option col_values (map_of (snd (snd x)) nm) = map_option col_values (map_of (snd (snd y)) nm)))"

text \<open>
  The index \<open>iy\<close> carries the nodes of \<open>ix\<close>: it is sound, it indexes the same keys, what opened opens to the same,
  and each key leads to a generation with the same identity and the same column values.
\<close>

definition carries :: "native \<Rightarrow> (json \<Rightarrow> string) \<Rightarrow> index \<Rightarrow> index \<Rightarrow> bool" where
  "carries native digest ix iy = (index_ok native digest iy
     \<and> (\<forall>g expected req x. check_generation native digest (ix_generations ix) g expected req = Inr x
          \<longrightarrow> check_generation native digest (ix_generations iy) g expected req = Inr x)
     \<and> (\<forall>k. ix_nodes iy k = None \<longleftrightarrow> ix_nodes ix k = None)
     \<and> (\<forall>k g x. hex_name 32 g \<and> ix_nodes ix k = Some (Plain (pointer_text g))
            \<and> check_generation native digest (ix_generations ix) g (Some k) True = Inr x
          \<longrightarrow> (\<exists>g' x'. hex_name 32 g' \<and> ix_nodes iy k = Some (Plain (pointer_text g'))
            \<and> check_generation native digest (ix_generations iy) g' (Some k) True = Inr x' \<and> same_contents x x')))"

lemma same_contents_refl [simp]: "same_contents x x"
  by (simp add: same_contents_def)

lemma same_contents_trans: "same_contents x y \<Longrightarrow> same_contents y z \<Longrightarrow> same_contents x z"
  by (simp add: same_contents_def)

lemma carries_refl: "index_ok native digest ix \<Longrightarrow> carries native digest ix ix"
  by (auto simp: carries_def)

lemma carries_trans:
  assumes "carries native digest ix iy" "carries native digest iy iz"
  shows "carries native digest ix iz"
proof -
  have nodes: "\<exists>g' x'. hex_name 32 g' \<and> ix_nodes iz k = Some (Plain (pointer_text g'))
      \<and> check_generation native digest (ix_generations iz) g' (Some k) True = Inr x' \<and> same_contents x x'"
    if g: "hex_name 32 g" "ix_nodes ix k = Some (Plain (pointer_text g))"
      "check_generation native digest (ix_generations ix) g (Some k) True = Inr x" for k g x
  proof -
    obtain g' x' where mid: "hex_name 32 g'" "ix_nodes iy k = Some (Plain (pointer_text g'))"
        "check_generation native digest (ix_generations iy) g' (Some k) True = Inr x'" "same_contents x x'"
      using assms(1) g unfolding carries_def by meson
    then obtain h y where "hex_name 32 h" "ix_nodes iz k = Some (Plain (pointer_text h))"
        "check_generation native digest (ix_generations iz) h (Some k) True = Inr y" "same_contents x' y"
      using assms(2) unfolding carries_def by meson
    then show ?thesis using same_contents_trans [OF mid(4)] by blast
  qed
  have "index_ok native digest iz" "\<And>k. ix_nodes iz k = None \<longleftrightarrow> ix_nodes ix k = None"
    using assms by (simp_all add: carries_def)
  moreover have "check_generation native digest (ix_generations iz) g expected req = Inr x"
    if "check_generation native digest (ix_generations ix) g expected req = Inr x" for g expected req x
    using assms that unfolding carries_def by blast
  ultimately show ?thesis unfolding carries_def using nodes by blast
qed

text \<open>What the native class opens was mapped from a file, whose size is a 64-bit number.\<close>

definition native_sized :: "native \<Rightarrow> bool" where
  "native_sized native = (\<forall>bytes c. nat_open native bytes = Inr c \<longrightarrow> 8 * length (col_values c) < 2 ^ 64)"

definition column_arrays :: "(string \<times> column) list \<Rightarrow> (string \<times> nd_array) list" where
  "column_arrays columns = map (\<lambda>nm. (nm, \<lparr>arr_ndim = 1, arr_values = col_values (the (map_of columns nm))\<rparr>)) (remdups (map fst columns))"

lemma column_arrays_names [simp]: "map fst (column_arrays columns) = remdups (map fst columns)"
  by (simp add: column_arrays_def comp_def)

lemma lease_arrays_opened: "\<not> l_closed lease \<Longrightarrow> lease_arrays lease = Inr (column_arrays (l_columns lease))"
proof -
  assume opened: "\<not> l_closed lease"
  have "rbind (lease_getitem lease nm) (\<lambda>column. Inr (nm, \<lparr>arr_ndim = 1, arr_values = col_values column\<rparr>))
      = Inr (nm, \<lparr>arr_ndim = 1, arr_values = col_values (the (map_of (l_columns lease) nm))\<rparr>)" if "nm \<in> fst ` set (l_columns lease)" for nm
    using that opened map_of_eq_None_iff [of "l_columns lease" nm] by (auto simp: lease_getitem_def split: option.splits)
  then show ?thesis
    by (simp add: lease_arrays_def column_arrays_def res_map_Inr_conv list_all2_map2 list_all2_same)
qed

lemma check_generation_columns:
  assumes "check_generation native digest generations g (Some k) True = Inr (j, identity, columns)"
  shows "j = k \<and> hex_name 64 k \<and> columns \<noteq> [] \<and> (\<exists>ident. identity = Some ident \<and> identity_valid ident \<and> identity_node_key digest ident = k)
    \<and> (\<forall>c\<in>set columns. portable_name (fst c) \<and> (\<exists>bytes. nat_open native bytes = Inr (snd c)))"
proof -
  let ?files = "dir_files (generations g)"
  obtain manifest where manifest: "read_json (map_of ?files ''manifest.json'') = Inr (JObj manifest)"
    using assms by (auto simp: check_generation_def Let_def split: if_splits sum.splits json.splits)
  obtain c cs where read: "read_identity digest j True (item_get manifest ''identity'') = Inr identity" and j: "j = k" "hex_name 64 k"
      and opened: "res_map (\<lambda>(nm, metadata). open_column native ?files nm metadata) (c # cs) = Inr columns"
    using assms manifest
    by (auto simp: check_generation_def Let_def simp del: res_map.simps split: if_split_asm json.split_asm list.split_asm)
  have all: "list_all2 (\<lambda>m column. (case m of (nm, metadata) \<Rightarrow> open_column native ?files nm metadata) = Inr column) (c # cs) columns"
    using opened by (simp add: res_map_Inr_conv del: res_map.simps)
  have column: "portable_name (fst y) \<and> (\<exists>bytes. nat_open native bytes = Inr (snd y))"
    if "open_column native ?files nm metadata = Inr y" for nm metadata y
    using that
    by (auto simp: open_column_def open_file_def split: json.splits if_splits bool.splits option.splits entry.splits content.splits) blast
  have ident: "\<exists>ident. identity = Some ident \<and> identity_valid ident \<and> identity_node_key digest ident = k"
    using read j(1) identity_valid_read by (auto simp: read_identity_def split: if_splits sum.splits exn.splits)
  have "columns \<noteq> []" using all by auto
  then show ?thesis using j ident column list_all2_source [OF all] by fastforce
qed

lemma column_arrays_sound:
  assumes "native_sized native" "columns \<noteq> []" "\<forall>c\<in>set columns. portable_name (fst c) \<and> (\<exists>bytes. nat_open native bytes = Inr (snd c))"
  shows "sound_columns (column_arrays columns)"
proof -
  have "8 * length (col_values (the (map_of columns nm))) < 2 ^ 64" if nm: "nm \<in> fst ` set columns" for nm
  proof -
    obtain c where "map_of columns nm = Some c" "(nm, c) \<in> set columns"
      using nm map_of_eq_None_iff [of columns nm] map_of_SomeD [of columns nm] by fastforce
    then show ?thesis using assms(1,3) by (force simp: native_sized_def)
  qed
  then show ?thesis using assms(2,3) by (auto simp: sound_columns_def column_arrays_def comp_def)
qed

lemma published_arrays:
  assumes "native_law native" "sound_columns (column_arrays columns)"
  shows "map_option col_values (map_of (published_columns native (column_arrays columns)) nm) = map_option col_values (map_of columns nm)"
proof (cases "nm \<in> fst ` set columns")
  case True
  then obtain c where c: "map_of columns nm = Some c" using map_of_eq_None_iff [of columns nm] by fastforce
  have "(nm, \<lparr>arr_ndim = 1, arr_values = col_values c\<rparr>) \<in> set (column_arrays columns)" using True c by (force simp: column_arrays_def)
  from mapped_columns.published_value [OF mapped_columns.intro [OF assms(1)] assms(2) this] show ?thesis using c by auto
next
  case False
  have "fst ` set (published_columns native (column_arrays columns)) = fst ` set (column_arrays columns)"
    by (force simp: published_columns_def)
  also have "\<dots> = fst ` set columns" by (metis column_arrays_names set_map set_remdups)
  finally have "map_of (published_columns native (column_arrays columns)) nm = None" using False by (simp add: map_of_eq_None_iff)
  then show ?thesis using False by (simp add: map_of_eq_None_iff [THEN iffD2])
qed

section \<open>One node\<close>

lemma carries_states:
  assumes law: "native_law native" "native_sized native" and g: "hex_name 32 (ev_generation env)" "ix_generations ix (ev_generation env) = None"
    and ok: "index_ok native digest ix"
    and old: "hex_name 32 old" "ix_nodes ix k = Some (Plain (pointer_text old))"
      "check_generation native digest (ix_generations ix) old (Some k) True = Inr (j, Some ident, columns)"
    and states: "iy \<in> set (publication_states ix (ev_generation env) k (publication_dir native env k (column_arrays columns) (Some ident)) True)"
  shows "carries native digest ix iy"
proof -
  let ?g = "ev_generation env" and ?dir = "publication_dir native env k (column_arrays columns) (Some ident)"
  have opened: "j = k" "hex_name 64 k" "identity_valid ident" "identity_node_key digest ident = k"
      "columns \<noteq> []" "\<forall>c\<in>set columns. portable_name (fst c) \<and> (\<exists>bytes. nat_open native bytes = Inr (snd c))"
    using check_generation_columns [OF old(3)] by auto
  note sound = column_arrays_sound [OF law(2) opened(5,6)]
  have ident: "\<forall>i. Some ident = Some i \<longrightarrow> identity_valid i \<and> identity_node_key digest i = k" using opened(3,4) by simp
  have index: "index_ok native digest iy"
    by (rule index_ok_states [OF law(1) sound opened(2) ident g ok]) (use states in simp)
  have kept: "check_generation native digest (ix_generations iy) h expected req = Inr x"
    if "check_generation native digest (ix_generations ix) h expected req = Inr x" for h expected req x
    using publication_states_generations [OF states] check_added [OF that g(2)] that by metis
  have moved: "\<exists>g' x'. hex_name 32 g' \<and> ix_nodes iy i = Some (Plain (pointer_text g'))
      \<and> check_generation native digest (ix_generations iy) g' (Some i) True = Inr x' \<and> same_contents x x'"
    if h: "hex_name 32 h" "ix_nodes ix i = Some (Plain (pointer_text h))"
      "check_generation native digest (ix_generations ix) h (Some i) True = Inr x" for i h x
  proof (cases "ix_nodes iy i = ix_nodes ix i")
    case True
    then show ?thesis using h kept by (intro exI [of _ h] exI [of _ x]) simp
  next
    case False
    then have iy: "iy = set_node k ?g (set_current ?g (add_generation ?g ?dir ix))" and i: "i = k"
      using states by (auto simp: publication_states_def add_generation_def set_current_def set_node_def split: if_splits)
    have gen: "ix_generations iy ?g = Some (Plain ?dir)" by (simp add: iy set_node_def set_current_def add_generation_def)
    obtain copy where new: "check_generation native digest (ix_generations iy) ?g (Some k) True
        = Inr (k, copy, published_columns native (column_arrays columns))" "map_option identity_snapshot copy = Some (identity_snapshot ident)"
      using check_publication [where generations = "ix_generations iy" and native = native, OF law(1) sound opened(2) gen refl ident, of "Some k" True]
      by auto
    have "h = old" using h(1,2) old(1,2) i by simp
    then have x: "x = (k, Some ident, columns)" using h(3) old(3) i opened(1) by simp
    have "same_contents x (k, copy, published_columns native (column_arrays columns))"
      unfolding same_contents_def x fst_conv snd_conv published_arrays [OF law(1) sound] new(2) by simp
    moreover have "ix_nodes iy k = Some (Plain (pointer_text ?g))" by (simp add: iy set_node_def)
    ultimately show ?thesis using g(1) new(1) i by blast
  qed
  have "ix_nodes iy i = None \<longleftrightarrow> ix_nodes ix i = None" for i
    using states old(2) by (auto simp: publication_states_def add_generation_def set_current_def set_node_def split: if_splits)
  then show ?thesis unfolding carries_def using index kept moved by blast
qed

definition touches :: "string \<Rightarrow> string \<Rightarrow> index \<Rightarrow> index \<Rightarrow> bool" where
  "touches k g ix iy = ((\<forall>h. h \<noteq> g \<longrightarrow> ix_generations iy h = ix_generations ix h) \<and> (\<forall>i. i \<noteq> k \<longrightarrow> ix_nodes iy i = ix_nodes ix i))"

lemma touches_states:
  assumes "iy \<in> set (publication_states ix g k dir b)"
  shows "touches k g ix iy"
  using assms by (auto simp: touches_def publication_states_def add_generation_def set_current_def set_node_def split: if_splits)

text \<open>A node that was migrated is indexed under its new generation, with columns the current writer made.\<close>

definition rewritten :: "native \<Rightarrow> (json \<Rightarrow> string) \<Rightarrow> index \<Rightarrow> string \<Rightarrow> string \<Rightarrow> bool" where
  "rewritten native digest ix k g = (hex_name 32 g \<and> ix_nodes ix k = Some (Plain (pointer_text g))
     \<and> (\<exists>copy columns. check_generation native digest (ix_generations ix) g (Some k) True = Inr (k, copy, columns)
         \<and> (\<forall>c\<in>set columns. \<exists>vs. snd c = snd (nat_create native vs))))"

lemma rewritten_last:
  assumes law: "native_law native" "native_sized native"
    and check: "check_generation native digest generations old (Some k) True = Inr (j, Some ident, columns)"
    and g: "hex_name 32 (ev_generation env)"
  shows "rewritten native digest (set_node k (ev_generation env) (set_current (ev_generation env) (add_generation (ev_generation env)
    (publication_dir native env k (column_arrays columns) (Some ident)) ix))) k (ev_generation env)" (is "rewritten native digest ?iy k ?g")
proof -
  have opened: "hex_name 64 k" "identity_valid ident" "identity_node_key digest ident = k"
      "columns \<noteq> []" "\<forall>c\<in>set columns. portable_name (fst c) \<and> (\<exists>bytes. nat_open native bytes = Inr (snd c))"
    using check_generation_columns [OF check] by auto
  note sound = column_arrays_sound [OF law(2) opened(4,5)]
  have gen: "ix_generations ?iy ?g = Some (Plain (publication_dir native env k (column_arrays columns) (Some ident)))"
    by (simp add: set_node_def set_current_def add_generation_def)
  obtain copy where "check_generation native digest (ix_generations ?iy) ?g (Some k) True
      = Inr (k, copy, published_columns native (column_arrays columns))"
    using check_publication [where generations = "ix_generations ?iy" and native = native, OF law(1) sound opened(1) gen refl, of digest "Some k" True]
      opened(2,3) by auto
  moreover have "\<forall>c\<in>set (published_columns native (column_arrays columns)). \<exists>vs. snd c = snd (nat_create native vs)"
    by (auto simp: published_columns_def)
  ultimately show ?thesis using g by (simp add: rewritten_def set_node_def)
qed

lemma pointed_by_index:
  assumes "index_ok native digest (index_of t)" "require_node_pointer t k = Inr g"
  shows "hex_name 64 k \<and> hex_name 32 g \<and> ix_nodes (index_of t) k = Some (Plain (pointer_text g))"
proof -
  obtain e where e: "hex_name 64 k" "map_of (entries (st_nodes t)) k = Some e"
    using assms(2) by (auto simp: require_node_pointer_def read_node_pointer_def split: if_splits option.splits)
  then have node: "ix_nodes (index_of t) k = Some e" by (simp add: index_of_def)
  then obtain h where h: "hex_name 32 h" "e = Plain (pointer_text h)" using assms(1) unfolding index_ok_def by blast
  then have "g = h" using assms(2) node_pointer_of_index [OF e(1) h(1), of t] node by simp
  then show ?thesis using e(1) h node by simp
qed

lemma runs_migrate_node:
  assumes law: "native_law native" "native_sized native"
    and g: "hex_name 32 (ev_generation env)" "ix_generations (index_of t) (ev_generation env) = None" and ok: "index_ok native digest (index_of t)"
  shows "runs t (migrate_node native digest env e)
    (\<lambda>g s. carries native digest (index_of t) (index_of s) \<and> touches (me_node_key e) (ev_generation env) (index_of t) (index_of s)
       \<and> rewritten native digest (index_of s) (me_node_key e) g)
    (\<lambda>_ s. carries native digest (index_of t) (index_of s) \<and> touches (me_node_key e) (ev_generation env) (index_of t) (index_of s))
    (\<lambda>s. carries native digest (index_of t) (index_of s) \<and> touches (me_node_key e) (ev_generation env) (index_of t) (index_of s))"
    (is "runs t _ ?Q (\<lambda>_. ?E) ?E")
proof -
  let ?k = "me_node_key e" and ?g = "ev_generation env"
  have same: "?E s" if "index_of s = index_of t" for s using that carries_refl [OF ok] by (simp add: touches_def)
  have body: "runs s (if l_generation lease \<noteq> me_generation e \<or> l_identity lease = None
          then plift (Inl (FactorStoreError ''factor node changed during migration''))
        else
          pbind (plift (lease_arrays lease)) (\<lambda>columns.
          publish_generation native digest env ?k columns (l_identity lease) (Some (me_generation e)) True)) ?Q (\<lambda>_. ?E) ?E"
    if s: "index_of s = index_of t" and lease: "\<not> l_closed lease"
      and old: "require_node_pointer t ?k = Inr (l_generation lease)"
        "check_generation native digest (map_of (st_generations t)) (l_generation lease) (Some ?k) True
          = Inr (l_node_key lease, l_identity lease, l_columns lease)" for lease s
  proof (cases "l_generation lease \<noteq> me_generation e \<or> l_identity lease = None")
    case True
    show ?thesis unfolding if_P [OF True] by (rule runs_lift) (use same [OF s] in auto)
  next
    case False
    then obtain ident where ident: "l_identity lease = Some ident" by blast
    let ?arrays = "column_arrays (l_columns lease)"
    let ?states = "publication_states (index_of s) ?g ?k (publication_dir native env ?k ?arrays (Some ident)) True"
    have hex: "hex_name 64 ?k" "hex_name 32 (l_generation lease)" and node: "ix_nodes (index_of t) ?k = Some (Plain (pointer_text (l_generation lease)))"
      using pointed_by_index [OF ok old(1)] by auto
    have check: "check_generation native digest (ix_generations (index_of t)) (l_generation lease) (Some ?k) True
        = Inr (l_node_key lease, Some ident, l_columns lease)"
      using old(2) ident check_of_index [OF hex(2), of native digest t] by simp
    have carried: "?E s'" if "index_of s' = index_of s \<or> index_of s' \<in> set ?states" for s'
    proof (cases "index_of s' = index_of t")
      case False
      then have states: "index_of s' \<in> set (publication_states (index_of t) ?g ?k (publication_dir native env ?k ?arrays (Some ident)) True)"
        using that s by simp
      show ?thesis
        using carries_states [OF law g ok hex(2) node check states] touches_states [OF states] by blast
    qed (rule same)
    have last: "?Q x s'" if "x = ?g" "index_of s' = last ?states" for x s'
    proof -
      have "last ?states \<in> set ?states" by (rule last_in_set) (simp add: publication_states_def)
      moreover have "rewritten native digest (index_of s') ?k x"
        using that rewritten_last [OF law check g(1)] by (simp add: publication_states_def)
      ultimately show ?thesis using carried that(2) by metis
    qed
    have names: "distinct (map fst ?arrays)" by simp
    have publish: "runs s (publish_generation native digest env ?k ?arrays (Some ident) (Some (me_generation e)) True) ?Q (\<lambda>_. ?E) ?E"
      by (rule runs_conseq [OF runs_publish_replacement [OF g(1) names refl]]) (use carried last in auto)
    show ?thesis
      unfolding if_not_P [OF False]
      by (unfold lease_arrays_opened [OF lease] ident, rule runs_bind_lift) (use publish in auto)
  qed
  have exit: "runs s (pbind (lease_close lease) (\<lambda>_. preturn x)) (\<lambda>y. P) (\<lambda>_. P) P"
    if "\<And>s'. index_of s' = index_of s \<Longrightarrow> P s'" for s lease x P
    by (rule runs_bind [OF runs_conseq [OF runs_lease_close]]) (use that in \<open>auto simp del: prog_simps intro!: runs_return\<close>)
  have leave: "runs s (pbind (lease_close lease) (\<lambda>_. preturn x)) ?Q (\<lambda>_. ?E) ?E" if "?Q x s" for s lease x
    by (rule runs_bind [OF runs_conseq [OF runs_lease_close]]) (use that in \<open>auto simp del: prog_simps intro!: runs_return\<close>)
  have block: "runs s (pbind (closing_on_exception
       (if l_generation lease \<noteq> me_generation e \<or> l_identity lease = None
          then plift (Inl (FactorStoreError ''factor node changed during migration''))
        else
          pbind (plift (lease_arrays lease)) (\<lambda>columns.
          publish_generation native digest env ?k columns (l_identity lease) (Some (me_generation e)) True))
       (pbind (lease_close lease) (\<lambda>_. preturn ()))) (\<lambda>generation.
     pbind (lease_close lease) (\<lambda>_. preturn generation))) ?Q (\<lambda>_. ?E) ?E"
    if "index_of s = index_of t \<and> \<not> l_closed lease \<and> (\<exists>g. require_node_pointer t ?k = Inr g \<and> l_generation lease = g
       \<and> check_generation native digest (map_of (st_generations t)) g (Some ?k) True = Inr (l_node_key lease, l_identity lease, l_columns lease))"
    for s lease
    by (rule runs_bind [OF runs_closing_on_exception [OF body exit] leave]) (use that in auto)
  show ?thesis
    unfolding migrate_node_def
    by (rule runs_bind [OF runs_conseq [OF runs_open_by_key] block]) (use same in auto)
qed

section \<open>The whole migration\<close>

lemma index_migration_folder [index_simps]:
  "index_of (make_migration st) = index_of st" "index_of (put_migration nm c st) = index_of st"
  "index_of (unlink_migration nm st) = index_of st" "index_of (replace_checkpoint nm st) = index_of st"
  by (auto simp: index_of_def make_migration_def put_migration_def unlink_migration_def replace_checkpoint_def
      split: folder.splits option.splits)

lemma runs_false_on_os_error:
  assumes "runs t m (\<lambda>_. P) (\<lambda>_. P) P"
  shows "runs t (false_on_os_error m) (\<lambda>_. P) (\<lambda>_. P) P"
proof (rule runsI)
  fix w
  assume w: "live w" "w_store w = t"
  show "case false_on_os_error m w of (Inr _, w') \<Rightarrow> live w' \<and> P (w_store w')
      | (Inl e, w') \<Rightarrow> if live w' then P (w_store w') else P (w_store w')"
    using runs_Inr [OF assms w] runs_Inl [OF assms w]
    by (cases "m w"; cases "fst (m w)") (auto simp: false_on_os_error_def live_def split: exn.split)
qed

text \<open>A checkpoint, recorded or not, leaves the index alone.\<close>

lemma runs_checkpoint:
  "runs t (checkpoint runtime i status n p k) (\<lambda>_ s. index_of s = index_of t) (\<lambda>_ s. index_of s = index_of t) (\<lambda>s. index_of s = index_of t)"
proof -
  let ?P = "\<lambda>s. index_of s = index_of t"
  have written: "runs t (write_checkpoint nm value) (\<lambda>_. ?P) (\<lambda>_. ?P) ?P" for nm "value"
    unfolding write_checkpoint_def
    by (intro runs_bind_io runs_on_exception [where E' = "\<lambda>_. ?P"] runs_bind_reads_res runs_return) (simp_all add: index_simps)
  show ?thesis
    unfolding checkpoint_def try_write_migration_checkpoint_def
    by (rule runs_bind_reads) (auto simp del: prog_simps intro!: runs_return runs_false_on_os_error written)
qed

lemma runs_catching:
  assumes "runs t m Q (\<lambda>_. E) C"
  shows "runs t (catching caught m) (\<lambda>r s. case r of Inr x \<Rightarrow> Q x s | Inl _ \<Rightarrow> E s) (\<lambda>_. E) C"
proof (rule runsI)
  fix w
  assume w: "live w" "w_store w = t"
  show "case catching caught m w of (Inr r, w') \<Rightarrow> live w' \<and> (case r of Inr x \<Rightarrow> Q x (w_store w') | Inl _ \<Rightarrow> E (w_store w'))
      | (Inl e, w') \<Rightarrow> if live w' then E (w_store w') else C (w_store w')"
    using runs_Inr [OF assms w] runs_Inl [OF assms w]
    by (cases "m w"; cases "fst (m w)") (auto simp: catching_def live_def)
qed

definition all_rewritten :: "native \<Rightarrow> (json \<Rightarrow> string) \<Rightarrow> index \<Rightarrow> (string \<times> string \<times> string) list \<Rightarrow> bool" where
  "all_rewritten native digest ix migrated = (\<forall>m\<in>set migrated. rewritten native digest ix (fst m) (snd (snd m)))"

lemma all_rewritten_kept:
  assumes "all_rewritten native digest ix migrated" "carries native digest ix iy" "touches k g ix iy" "k \<notin> fst ` set migrated"
  shows "all_rewritten native digest iy migrated"
proof -
  have "rewritten native digest iy i h" if "rewritten native digest ix i h" "i \<noteq> k" for i h
    using that assms(2,3) unfolding rewritten_def carries_def touches_def by metis
  then show ?thesis using assms(1,4) unfolding all_rewritten_def by (metis imageI)
qed

definition new_generation :: "migrate_runtime \<Rightarrow> migration_entry \<Rightarrow> string" where
  "new_generation runtime e = ev_generation (mr_env runtime (me_node_key e))"

lemma runs_migrate_loop:
  assumes law: "native_law native" "native_sized native"
    and "distinct (map me_node_key es)" "distinct (map (new_generation runtime) es)"
    and "me_node_key ` set es \<inter> fst ` set (mp_migrated p) = {}"
    and "\<forall>e\<in>set es. hex_name 32 (new_generation runtime e) \<and> ix_generations (index_of t) (new_generation runtime e) = None"
    and "carries native digest ix (index_of t)" "all_rewritten native digest (index_of t) (mp_migrated p)"
  shows "runs t (migrate_loop native digest runtime n i es p)
    (\<lambda>p' s. carries native digest ix (index_of s) \<and> all_rewritten native digest (index_of s) (mp_migrated p'))
    (\<lambda>_ s. carries native digest ix (index_of s)) (\<lambda>s. carries native digest ix (index_of s))"
  using assms(3-)
proof (induction es arbitrary: p i t)
  case Nil
  then show ?case unfolding migrate_loop.simps by (intro runs_return) simp
next
  case (Cons e es)
  let ?C = "\<lambda>s. carries native digest ix (index_of s)" and ?g = "new_generation runtime e" and ?k = "me_node_key e"
  let ?step = "\<lambda>s. carries native digest (index_of t) (index_of s) \<and> touches ?k ?g (index_of t) (index_of s)"
  have ok: "index_ok native digest (index_of t)" using Cons.prems(5) by (simp add: carries_def)
  have node: "runs t (migrate_node native digest (mr_env runtime ?k) e) (\<lambda>g s. ?step s \<and> rewritten native digest (index_of s) ?k g) (\<lambda>_. ?step) ?step"
    by (rule runs_conseq [OF runs_migrate_node [OF law]]) (use Cons.prems(4) ok in \<open>auto simp: new_generation_def\<close>)
  have carried: "?C s" if "?step s" for s using that carries_trans [OF Cons.prems(5)] by blast
  have caught: "runs t (catching migration_caught (migrate_node native digest (mr_env runtime ?k) e))
      (\<lambda>r s. ?step s \<and> (case r of Inr g \<Rightarrow> rewritten native digest (index_of s) ?k g | Inl _ \<Rightarrow> True)) (\<lambda>_. ?C) ?C"
    by (rule runs_conseq [OF runs_catching [OF node]]) (use carried in \<open>auto split: sum.splits\<close>)
  have rest: "runs s (migrate_loop native digest runtime n (i + 1) es p')
      (\<lambda>p' s. ?C s \<and> all_rewritten native digest (index_of s) (mp_migrated p')) (\<lambda>_. ?C) ?C"
    if r: "?step s'" "case r of Inr g \<Rightarrow> rewritten native digest (index_of s') ?k g | Inl _ \<Rightarrow> True" and s: "index_of s = index_of s'"
      and p': "mp_migrated p' = mp_migrated (after_node e r p)" for r s s' p'
  proof (rule Cons.IH)
    show "distinct (map me_node_key es)" "distinct (map (new_generation runtime) es)" using Cons.prems(1,2) by simp_all
    show "me_node_key ` set es \<inter> fst ` set (mp_migrated p') = {}"
      using Cons.prems(1,3) by (auto simp: p' after_node_def split: sum.splits)
    show "\<forall>e\<in>set es. hex_name 32 (new_generation runtime e) \<and> ix_generations (index_of s) (new_generation runtime e) = None"
    proof
      fix x
      assume "x \<in> set es"
      then have "new_generation runtime x \<noteq> ?g" using Cons.prems(2) by (simp add: image_iff) metis
      then show "hex_name 32 (new_generation runtime x) \<and> ix_generations (index_of s) (new_generation runtime x) = None"
        using r(1) s Cons.prems(4) \<open>x \<in> set es\<close> by (simp add: touches_def)
    qed
    show "?C s" using carried [OF r(1)] s by simp
    have "?k \<notin> fst ` set (mp_migrated p)" using Cons.prems(3) by auto
    then have "all_rewritten native digest (index_of s) (mp_migrated p)"
      using all_rewritten_kept [OF Cons.prems(6) conjunct1 [OF r(1)] conjunct2 [OF r(1)]] s by simp
    then show "all_rewritten native digest (index_of s) (mp_migrated p')"
      using r(2) s by (auto simp: p' after_node_def all_rewritten_def split: sum.splits)
  qed
  show ?case
    unfolding migrate_loop.simps Let_def
  proof (rule runs_bind [OF caught], rule runs_bind [OF runs_conseq [OF runs_checkpoint]])
    fix r :: "string res" and s' ok s
    assume "?step s' \<and> (case r of Inr g \<Rightarrow> rewritten native digest (index_of s') ?k g | Inl _ \<Rightarrow> True)" "index_of s = index_of s'"
    then show "runs s (migrate_loop native digest runtime n (i + 1) es ((after_node e r p)\<lparr>mp_recorded := ok \<and> mp_recorded (after_node e r p)\<rparr>))
      (\<lambda>p' s. ?C s \<and> all_rewritten native digest (index_of s) (mp_migrated p')) (\<lambda>_. ?C) ?C"
      by (intro rest) auto
  qed (use carried in auto)
qed

text \<open>A dry collection writes nothing.\<close>

lemma keeps_dry [keep_rules]: "keeps P (unless_dry True m)"
  unfolding unless_dry_def if_True by (rule keep_rules)

lemma keeps_scan_nodes: "keeps P (scan_nodes True ps)"
  by (induction ps; simp only: scan_nodes.simps; intro keep_rules; assumption)

lemma keeps_entry [keep_rules]:
  "(\<And>x. keeps P (f x)) \<Longrightarrow> keeps P m \<Longrightarrow> keeps P m' \<Longrightarrow> keeps P (case e of Plain x \<Rightarrow> f x | Symlink \<Rightarrow> m | Irregular \<Rightarrow> m')"
  by (cases e) simp_all

lemma keeps_scan_leases:
  assumes "ca_dry_run args"
  shows "keeps P (scan_leases args g ls)"
  by (induction ls) (simp_all only: scan_leases.simps assms, (intro keep_rules; assumption)+)

lemma keeps_sweep_generation:
  assumes "ca_dry_run args"
  shows "keeps P (sweep_generation args kept p)"
  unfolding sweep_generation_def generation_leases_def Let_def assms [THEN eqTrueI]
  by (intro keep_rules keeps_scan_leases assms)

lemma keeps_sweep_generations:
  assumes "ca_dry_run args"
  shows "keeps P (sweep_generations args kept ps)"
  by (induction ps) (simp_all only: sweep_generations.simps, (intro keep_rules keeps_sweep_generation assms; assumption)+)

lemma keeps_sweep_pointers: "keeps P (sweep_pointers True ps)"
  by (induction ps; simp only: sweep_pointers.simps; intro keep_rules; assumption)

lemma keeps_sweep_metadata: "keeps P (sweep_metadata True indexed cutoff unlink ps)"
  by (induction ps) (auto simp del: prog_simps split: option.split entry.split prod.split intro!: keep_rules)

lemma keeps_dry_collection:
  assumes "ca_dry_run args"
  shows "keeps P (collect_garbage args)"
  unfolding collect_garbage_def sweep_advisory_def Let_def assms [THEN eqTrueI]
  by (intro keep_rules keeps_scan_nodes keeps_sweep_generations keeps_sweep_pointers keeps_sweep_metadata assms)

section \<open>The plan\<close>

lemma within_limits_prefix: "\<exists>n. within_limits max_nodes budget i b es = take n es"
proof (induction es arbitrary: i b)
  case (Cons e es)
  obtain n where "within_limits max_nodes budget (i + 1) (b + me_estimated_write_bytes e) es = take n es" using Cons.IH by blast
  then have "within_limits max_nodes budget i b (e # es) \<in> {take 0 (e # es), take (Suc n) (e # es)}" by (simp split: option.splits)
  then show ?case by blast
qed simp

lemma legacy_entry_key: "legacy_entry disk digest st k = Inr (Some e) \<Longrightarrow> me_node_key e = k"
  by (auto simp: legacy_entry_def Let_def split: sum.splits if_splits)

lemma sort_filter_one: "distinct xs \<Longrightarrow> sort (filter (\<lambda>x. P x \<and> x = k) xs) = (if k \<in> set xs \<and> P k then [k] else [])"
proof -
  assume "distinct xs"
  then have "filter (\<lambda>x. P x \<and> x = k) xs = (if k \<in> set xs \<and> P k then [k] else [])" by (induction xs) auto
  then show ?thesis by simp
qed

lemma legacy_node_plan_one:
  assumes "legacy_node_plan disk digest st (Some [k]) = Inr es" "distinct (map fst (entries (st_nodes st)))"
  shows "map me_node_key es = [] \<or> map me_node_key es = [k] \<and> k \<in> fst ` set (entries (st_nodes st))"
proof -
  obtain d where d: "st_nodes st = Folder d" using assms(1) by (auto simp: legacy_node_plan_def split: folder.splits)
  obtain found where found: "res_map (legacy_entry disk digest st) (sort (filter (\<lambda>x. \<not> dotted x \<and> x = k) (map fst d))) = Inr found"
      "es = concat (map (\<lambda>e. case e of None \<Rightarrow> [] | Some e \<Rightarrow> [e]) found)"
    using assms(1) by (auto simp: legacy_node_plan_def d Let_def)
  show ?thesis
    using found assms(2) by (auto simp: d sort_filter_one split: if_splits option.splits dest: legacy_entry_key)
qed

lemma plan_nodes_keys:
  assumes "plan_nodes disk digest st ks = Inr (plan, failures)" "distinct (map fst (entries (st_nodes st)))" "distinct ks"
  shows "distinct (map me_node_key plan) \<and> me_node_key ` set plan \<subseteq> set ks \<inter> fst ` set (entries (st_nodes st))"
  using assms(1,3)
proof (induction ks arbitrary: plan failures)
  case (Cons k ks)
  show ?case
  proof (cases "legacy_node_plan disk digest st (Some [k])")
    case (Inl e)
    then obtain fs where "plan_nodes disk digest st ks = Inr (plan, fs)" using Cons.prems(1) by (auto split: if_splits)
    from Cons.IH [OF this] show ?thesis using Cons.prems(2) by auto
  next
    case (Inr es)
    then obtain rest where rest: "plan_nodes disk digest st ks = Inr (rest, failures)" "plan = es @ rest" using Cons.prems(1) by auto
    have tl: "distinct (map me_node_key rest)" "me_node_key ` set rest \<subseteq> set ks \<inter> fst ` set (entries (st_nodes st))"
      using Cons.IH [OF rest(1)] Cons.prems(2) by auto
    from legacy_node_plan_one [OF Inr assms(2)] consider "es = []" | e where "es = [e]" "me_node_key e = k" "k \<in> fst ` set (entries (st_nodes st))"
      by (cases es) auto
    then show ?thesis by cases (use tl Cons.prems(2) rest(2) in auto)
  qed
qed simp

text \<open>Fresh names: the nodes to migrate get generation names of their own that the store does not have.\<close>

definition fresh_migration :: "migrate_runtime \<Rightarrow> store \<Rightarrow> bool" where
  "fresh_migration runtime st = (let names = map fst (entries (st_nodes st)); new = (\<lambda>k. ev_generation (mr_env runtime k)) in
     distinct names \<and> inj_on new (set names) \<and> (\<forall>k\<in>set names. hex_name 32 (new k) \<and> ix_generations (index_of st) (new k) = None))"

lemma keys_to_plan_distinct: "keys_to_plan args st = Inr ks \<Longrightarrow> distinct (map fst (entries (st_nodes st))) \<Longrightarrow> distinct ks"
  by (auto simp: keys_to_plan_def split: option.splits folder.splits)

lemma runs_migrate_factor_nodes:
  assumes law: "native_law native" "native_sized native" and fresh: "fresh_migration runtime t" and ok: "index_ok native digest (index_of t)"
  shows "runs t (migrate_factor_nodes_to_v3 native digest disk runtime args)
    (\<lambda>report s. carries native digest (index_of t) (index_of s) \<and> all_rewritten native digest (index_of s) (mg_migrated_nodes report)
       \<and> (ma_dry_run args \<longrightarrow> s = t))
    (\<lambda>_ s. carries native digest (index_of t) (index_of s) \<and> (ma_dry_run args \<longrightarrow> s = t))
    (\<lambda>s. carries native digest (index_of t) (index_of s) \<and> (ma_dry_run args \<longrightarrow> s = t))" (is "runs t _ ?Q (\<lambda>_. ?E) ?E")
proof -
  let ?C = "\<lambda>s. carries native digest (index_of t) (index_of s)" and ?dry = "ma_dry_run args"
  let ?R = "\<lambda>p s. ?C s \<and> all_rewritten native digest (index_of s) (mp_migrated p)"
  have start: "?C t" by (rule carries_refl [OF ok])
  have written: "runs t (migrate_planned native digest runtime planned failures) (\<lambda>r. ?R (fst r)) (\<lambda>_. ?C) ?C"
    if keys: "distinct (map me_node_key planned)" "me_node_key ` set planned \<subseteq> fst ` set (entries (st_nodes t))" for planned failures
  proof -
    have gens: "distinct (map (new_generation runtime) planned)"
    proof -
      have "inj_on (\<lambda>k. ev_generation (mr_env runtime k)) (me_node_key ` set planned)"
        using fresh keys(2) by (auto simp: fresh_migration_def Let_def intro: inj_on_subset)
      then show ?thesis using keys(1) by (auto simp: distinct_map new_generation_def inj_on_def)
    qed
    have free: "\<forall>e\<in>set planned. hex_name 32 (new_generation runtime e) \<and> ix_generations (index_of t) (new_generation runtime e) = None"
    proof
      fix e
      assume "e \<in> set planned"
      then have "me_node_key e \<in> set (map fst (entries (st_nodes t)))" using keys(2) by auto
      then show "hex_name 32 (new_generation runtime e) \<and> ix_generations (index_of t) (new_generation runtime e) = None"
        using fresh unfolding fresh_migration_def Let_def new_generation_def by blast
    qed
    have loop: "runs s (migrate_loop native digest runtime n i planned p) (\<lambda>p' s. ?R p' s) (\<lambda>_. ?C) ?C"
      if "index_of s = index_of t" "mp_migrated p = []" for s n i p
      by (rule runs_migrate_loop [OF law keys(1) gens]) (use that free start in \<open>auto simp: all_rewritten_def\<close>)
    have mark: "runs s (checkpoint runtime i status n p k) (\<lambda>_. ?R p) (\<lambda>_. ?C) ?C" if "?R p s" for s i status n p k
      by (rule runs_conseq [OF runs_checkpoint]) (use that in auto)
    have count: "runs s (try_record_factor_cache_metrics call increments) (\<lambda>_. ?R p) (\<lambda>_. ?C) ?C" if "?R p s" for s call increments p
      by (rule runs_conseq [OF runs_try_record_metrics]) (use that index_metrics in auto)
    show ?thesis
      unfolding migrate_planned_def Let_def
    proof (rule runs_bind [OF runs_conseq [OF runs_checkpoint]])
      fix started s
      assume s: "index_of s = index_of t"
      let ?p = "\<lparr>mp_migrated = [], mp_failures = failures, mp_recorded = started\<rparr>"
      show "runs s (pbind (migrate_loop native digest runtime (length planned) 1 planned
            (\<lparr>mp_migrated = [], mp_failures = failures, mp_recorded = True\<rparr>\<lparr>mp_recorded := started\<rparr>)) (\<lambda>p.
          pbind (checkpoint runtime (length planned + 1) (if mp_failures p \<noteq> [] then ''complete_with_failures'' else ''complete'') (length planned) p
            (if planned = [] then None else Some (me_node_key (last planned)))) (\<lambda>finished.
          pbind (try_record_factor_cache_metrics (mr_metrics runtime) (migration_increments planned p)) (\<lambda>metrics_recorded.
          preturn (p\<lparr>mp_recorded := finished \<and> mp_recorded p\<rparr>, metrics_recorded))))) (\<lambda>r. ?R (fst r)) (\<lambda>_. ?C) ?C"
        by (rule runs_bind [OF loop [OF s]], simp, rule runs_bind [OF mark], assumption, rule runs_bind [OF count], assumption, rule runs_return, simp)
    qed (use start in auto)
  qed
  have collected: "runs s (if ma_plan_collection args \<and> \<not> ?dry
            then pbind (collect_garbage (mr_collect runtime\<lparr>ca_dry_run := True\<rparr>)) (\<lambda>report. preturn (Some report))
            else preturn None) (\<lambda>_ s. P s) (\<lambda>_. P) P" if "P s" for s P
    by (rule keeps_runs [where P = P, OF _ that]) (intro keep_rules keeps_dry_collection; simp)
  have run: "runs t (pbind (if ?dry then preturn (\<lparr>mp_migrated = [], mp_failures = failures, mp_recorded = True\<rparr>, True)
            else migrate_planned native digest runtime planned failures) (\<lambda>(p, metrics_recorded).
     pbind (if ma_plan_collection args \<and> \<not> ?dry
            then pbind (collect_garbage (mr_collect runtime\<lparr>ca_dry_run := True\<rparr>)) (\<lambda>report. preturn (Some report))
            else preturn None) (\<lambda>collection.
     preturn (report p metrics_recorded collection)))) ?Q (\<lambda>_. ?E) ?E"
    if keys: "distinct (map me_node_key planned)" "me_node_key ` set planned \<subseteq> fst ` set (entries (st_nodes t))"
      and report: "\<And>p metrics_recorded collection. mg_migrated_nodes (report p metrics_recorded collection) = mp_migrated p"
    for planned failures report
  proof -
    let ?S = "\<lambda>p s. ?R p s \<and> (?dry \<longrightarrow> s = t)"
    have "runs t (if ?dry then preturn (\<lparr>mp_migrated = [], mp_failures = failures, mp_recorded = True\<rparr>, True)
            else migrate_planned native digest runtime planned failures) (\<lambda>r. ?S (fst r)) (\<lambda>_. ?E) ?E"
    proof (cases ?dry)
      case True
      show ?thesis unfolding if_P [OF True] by (rule runs_return) (use start in \<open>simp add: all_rewritten_def\<close>)
    next
      case False
      show ?thesis unfolding if_not_P [OF False] by (rule runs_conseq [OF written [OF keys]]) (use False in auto)
    qed
    then show ?thesis
    proof (rule runs_bind)
      fix r :: "migration_progress \<times> bool" and s
      assume s: "?S (fst r) s"
      have kept: "runs s (if ma_plan_collection args \<and> \<not> ?dry
            then pbind (collect_garbage (mr_collect runtime\<lparr>ca_dry_run := True\<rparr>)) (\<lambda>report. preturn (Some report))
            else preturn None) (\<lambda>_. ?S (fst r)) (\<lambda>_. ?S (fst r)) (?S (fst r))" using s by (rule collected)
      show "runs s (case r of (p, metrics_recorded) \<Rightarrow>
          pbind (if ma_plan_collection args \<and> \<not> ?dry
            then pbind (collect_garbage (mr_collect runtime\<lparr>ca_dry_run := True\<rparr>)) (\<lambda>report. preturn (Some report))
            else preturn None) (\<lambda>collection.
          preturn (report p metrics_recorded collection))) ?Q (\<lambda>_. ?E) ?E"
        unfolding split_beta
        by (rule runs_bind [OF runs_conseq [OF kept]], assumption, simp, simp, rule runs_return) (auto simp: report)
    qed
  qed
  have start_E: "?E t" using start by simp
  show ?thesis
    unfolding migrate_factor_nodes_to_v3_def
  proof (intro runs_bind_lift runs_bind_reads_res start_E)
    fix keys x
    assume keys: "keys_to_plan args t = Inr keys" and plan: "plan_nodes disk digest t keys = Inr x"
    obtain plan failures where x: "x = (plan, failures)" by (cases x)
    have names: "distinct (map fst (entries (st_nodes t)))" using fresh by (simp add: fresh_migration_def Let_def)
    obtain n where prefix: "within_limits (ma_max_nodes args) (migration_budget disk args) 0 0 plan = take n plan"
      using within_limits_prefix by blast
    have "distinct (map me_node_key plan) \<and> me_node_key ` set plan \<subseteq> set keys \<inter> fst ` set (entries (st_nodes t))"
      using plan_nodes_keys [OF plan [unfolded x] names keys_to_plan_distinct [OF keys names]] .
    then have "distinct (map me_node_key (take n plan))" "me_node_key ` set (take n plan) \<subseteq> fst ` set (entries (st_nodes t))"
      using image_mono [OF set_take_subset, of me_node_key n plan]
      by (simp_all only: take_map [symmetric] distinct_take le_inf_iff) (elim conjE, rule subset_trans)
    from run [OF this] show "runs t (case x of (plan, failures) \<Rightarrow>
       let planned = within_limits (ma_max_nodes args) (migration_budget disk args) 0 0 plan in
       pbind (if ?dry then preturn (\<lparr>mp_migrated = [], mp_failures = failures, mp_recorded = True\<rparr>, True)
            else migrate_planned native digest runtime planned failures) (\<lambda>(p, metrics_recorded).
       pbind (if ma_plan_collection args \<and> \<not> ?dry
            then pbind (collect_garbage (mr_collect runtime\<lparr>ca_dry_run := True\<rparr>)) (\<lambda>report. preturn (Some report))
            else preturn None) (\<lambda>collection.
       preturn \<lparr>mg_eligible_nodes = plan, mg_planned_nodes = planned,
         mg_planned_write_bytes = sum_list (map me_estimated_write_bytes planned), mg_migrated_nodes = mp_migrated p,
         mg_failures = mp_failures p, mg_skipped_by_limits = int (length plan) - int (length planned),
         mg_checkpoint_recorded = (if ?dry then None else Some (mp_recorded p)),
         mg_metrics_recorded = (if ?dry then None else Some metrics_recorded), mg_collection_plan = collection\<rparr>))) ?Q (\<lambda>_. ?E) ?E"
      unfolding x prod.case Let_def prefix by this simp
  qed
qed

lemma within_limits_bounds:
  assumes "\<forall>e\<in>set es. 0 \<le> me_estimated_write_bytes e" "0 \<le> b" "b \<le> budget" "\<forall>n\<in>set_option max_nodes. i \<le> n"
  shows "b + sum_list (map me_estimated_write_bytes (within_limits max_nodes budget i b es)) \<le> budget
    \<and> (\<forall>n\<in>set_option max_nodes. i + int (length (within_limits max_nodes budget i b es)) \<le> n)"
  using assms
proof (induction es arbitrary: i b)
  case (Cons e es)
  show ?case
  proof (cases "(case max_nodes of None \<Rightarrow> False | Some n \<Rightarrow> n \<le> i) \<or> budget < b + me_estimated_write_bytes e")
    case True
    then show ?thesis using Cons.prems by auto
  next
    case False
    then have "\<forall>n\<in>set_option max_nodes. i + 1 \<le> n" "b + me_estimated_write_bytes e \<le> budget" using Cons.prems(4) by (auto split: option.splits)
    with Cons.IH [where b = "b + me_estimated_write_bytes e" and i = "i + 1"] Cons.prems False show ?thesis by (simp add: algebra_simps)
  qed
qed simp

text \<open>A report's plan never exceeds the free bytes above the reserve, nor the caller's limits.\<close>

lemma migration_within_limits:
  assumes "migrate_factor_nodes_to_v3 native digest disk runtime args w = (Inr report, w')"
    and "\<forall>e\<in>set (mg_eligible_nodes report). 0 \<le> me_estimated_write_bytes e"
  shows "mg_planned_write_bytes report \<le> max 0 (dk_free disk - ma_reserve_free_bytes args)
    \<and> (\<forall>n\<in>set_option (ma_max_additional_bytes args). mg_planned_write_bytes report \<le> n)
    \<and> (\<forall>n\<in>set_option (ma_max_nodes args). int (length (mg_planned_nodes report)) \<le> n)
    \<and> mg_planned_nodes report = take (length (mg_planned_nodes report)) (mg_eligible_nodes report)"
proof -
  have checks: "migrate_checks args = Inr ()" using assms(1) by (auto simp: migrate_factor_nodes_to_v3_def pbind_def split: sum.splits)
  let ?planned = "within_limits (ma_max_nodes args) (migration_budget disk args) 0 0 (mg_eligible_nodes report)"
  have report: "mg_planned_nodes report = ?planned" "mg_planned_write_bytes report = sum_list (map me_estimated_write_bytes ?planned)"
    using assms(1) by (auto simp: migrate_factor_nodes_to_v3_def Let_def)
  have budget: "0 \<le> migration_budget disk args" and nodes: "\<forall>n\<in>set_option (ma_max_nodes args). 0 \<le> n"
    using checks by (auto simp: migrate_checks_def migration_budget_def Let_def split: option.splits)
  obtain n where "?planned = take n (mg_eligible_nodes report)" using within_limits_prefix by blast
  then have prefix: "?planned = take (length ?planned) (mg_eligible_nodes report)" by (metis append_eq_conv_conj append_take_drop_id)
  have "sum_list (map me_estimated_write_bytes ?planned) \<le> migration_budget disk args
      \<and> (\<forall>n\<in>set_option (ma_max_nodes args). int (length ?planned) \<le> n)"
    using within_limits_bounds [where b = 0 and i = 0 and max_nodes = "ma_max_nodes args", OF assms(2) _ budget] nodes by simp
  moreover have "migration_budget disk args \<le> max 0 (dk_free disk - ma_reserve_free_bytes args)"
      "\<forall>n\<in>set_option (ma_max_additional_bytes args). migration_budget disk args \<le> n"
    by (auto simp: migration_budget_def Let_def split: option.splits)
  ultimately show ?thesis unfolding report using prefix by (metis (no_types, lifting) order_trans)
qed

section \<open>Properties\<close>

text \<open>
  Claim C19. A migration never loses a node: however it ends (with its report, with an exception, or with the process dead
  between any two writes), every pointer of the index still names a generation that opens, the same keys are indexed, and
  each key opens to the same identity and, column by column, to the same values bit for bit; every generation that opened
  before, leased or not, opens to the same columns. When it reports, each node reported as migrated is indexed under its
  new generation, whose columns are all of the current writer's making. A dry run has written nothing.
\<close>

theorem migration_preserves_nodes:
  assumes "live w" and "migrate_factor_nodes_to_v3 native digest disk runtime args w = (r, w')"
    and "native_law native" and "native_sized native" and "fresh_migration runtime (w_store w)"
    and "index_ok native digest (index_of (w_store w))"
  shows "carries native digest (index_of (w_store w)) (index_of (w_store w'))
    \<and> (\<forall>report. r = Inr report \<longrightarrow> all_rewritten native digest (index_of (w_store w')) (mg_migrated_nodes report))
    \<and> (ma_dry_run args \<longrightarrow> w_store w' = w_store w)"
proof (cases r)
  case (Inl e)
  then show ?thesis
    using runs_Inl [OF runs_migrate_factor_nodes [OF assms(3-6)] assms(1) refl, of disk args e w'] assms(2) by auto
next
  case (Inr report)
  then show ?thesis
    using runs_Inr [OF runs_migrate_factor_nodes [OF assms(3-6)] assms(1) refl, of disk args report w'] assms(2) by auto
qed

subsection \<open>Instances\<close>

lemma length_f8_of_bytes: "8 * length (f8_of_bytes bs) \<le> length bs"
  by (induction bs rule: f8_of_bytes.induct) auto

lemma reference_native_sized: "native_sized reference_native"
proof -
  have "8 * length vs < 2 ^ 64" if read: "read_reference_float64 bs = Inr vs" for bs vs
  proof -
    let ?n = "sh_data_bytes (header_unpack bs)"
    have "vs = f8_of_bytes (drop HEADER_BYTES bs)" "HEADER_BYTES + ?n = length bs"
      using read by (auto simp: read_reference_float64_def Let_def split: if_splits)
    then have "8 * length vs \<le> ?n" using length_f8_of_bytes [of "drop HEADER_BYTES bs"] by simp
    also have "?n < 256 ^ length (field 32 8 bs)" using le_nat_less by (simp add: header_unpack_def)
    also have "\<dots> \<le> (256 :: nat) ^ 8" by (intro power_increasing) (simp_all add: field_def)
    finally show ?thesis by simp
  qed
  then show ?thesis by (auto simp: native_sized_def reference_native_def reference_column_def)
qed

text \<open>A store with one node, published in a generation of its own.\<close>

definition legacy_env :: env where
  "legacy_env = example_env\<lparr>ev_generation := replicate 32 CHR ''c''\<rparr>"

definition legacy_dir :: generation_dir where
  "legacy_dir = publication_dir reference_native legacy_env example_key example_columns (Some example_ident)"

definition legacy_store :: store where
  "legacy_store = empty_store\<lparr>st_current := Some (Plain (pointer_text (ev_generation legacy_env))),
     st_nodes := Folder [(example_key, Plain (pointer_text (ev_generation legacy_env)))],
     st_generations := [(ev_generation legacy_env, Plain legacy_dir)]\<rparr>"

definition example_migration :: migrate_runtime where
  "example_migration = \<lparr>mr_env = (\<lambda>_. example_env), mr_run_id = ''r'', mr_started_ns = 7, mr_updated_ns = (\<lambda>_. 8), mr_checkpoint_uuid = (\<lambda>_. ''c''),
     mr_metrics = \<lparr>mc_link_exists = False, mc_now_ns = 9, mc_uuid = ''u''\<rparr>,
     mr_collect = \<lparr>ca_now = 10, ca_host = ''h'', ca_kill = (\<lambda>_. Delivered), ca_stale = Fin 0, ca_retention = Fin 0, ca_dry_run = True\<rparr>\<rparr>"

definition migrate_all :: migrate_args where
  "migrate_all = \<lparr>ma_node_keys = None, ma_max_nodes = None, ma_max_additional_bytes = None, ma_reserve_free_bytes = 0, ma_dry_run = False,
     ma_plan_collection = True\<rparr>"

lemma legacy_facts:
  "hex_name 32 (ev_generation legacy_env)"
  "index_of legacy_store = set_node example_key (ev_generation legacy_env) (set_current (ev_generation legacy_env)
     (add_generation (ev_generation legacy_env) legacy_dir (index_of empty_store)))"
proof -
  show hex: "hex_name 32 (ev_generation legacy_env)"
    by (auto simp: hex_name_def legacy_env_def lower_hex_def less_eq_char_def list_all_iff)
  have "\<not> dotted (ev_generation legacy_env)" "\<not> dotted example_key" using hex example_facts(2) by simp_all
  then show "index_of legacy_store = set_node example_key (ev_generation legacy_env) (set_current (ev_generation legacy_env)
     (add_generation (ev_generation legacy_env) legacy_dir (index_of empty_store)))"
    by (auto simp: index_of_def legacy_store_def empty_store_def set_node_def set_current_def add_generation_def fun_eq_iff)
qed

theorem migration_preserves_nodes_witness:
  "\<exists>g k ident columns. ix_nodes (index_of (w_store (snd (migrate_factor_nodes_to_v3 reference_native example_digest example_disk example_migration
        migrate_all \<lparr>w_store = legacy_store, w_faults = CrashAfter 9\<rparr>)))) example_key = Some (Plain (pointer_text g))
     \<and> check_generation reference_native example_digest (ix_generations (index_of (w_store (snd (migrate_factor_nodes_to_v3 reference_native
        example_digest example_disk example_migration migrate_all \<lparr>w_store = legacy_store, w_faults = CrashAfter 9\<rparr>))))) g (Some example_key) True
        = Inr (k, ident, columns)
     \<and> map_option col_values (map_of columns ''factor'') = Some [4607182418800017408]"
proof -
  let ?w = "\<lparr>w_store = legacy_store, w_faults = CrashAfter 9\<rparr>" and ?g = "ev_generation legacy_env"
  let ?after = "snd (migrate_factor_nodes_to_v3 reference_native example_digest example_disk example_migration migrate_all ?w)"
  have key: "identity_node_key example_digest example_ident = example_key"
    by (simp add: identity_node_key_def example_digest_def example_key_def)
  have ident: "\<forall>i. Some example_ident = Some i \<longrightarrow> identity_valid i \<and> identity_node_key example_digest i = example_key"
    using example_facts(4) key by simp
  have empty: "index_ok reference_native example_digest (index_of empty_store)" "ix_generations (index_of empty_store) ?g = None"
    by (simp_all add: index_ok_def index_of_def empty_store_def)
  have "index_of legacy_store \<in> set (publication_states (index_of empty_store) ?g example_key
      (publication_dir reference_native legacy_env example_key example_columns (Some example_ident)) (Some example_ident \<noteq> None))"
    by (simp add: legacy_facts(2) legacy_dir_def publication_states_def)
  from index_ok_states [OF reference_native_law example_facts(3,2) ident legacy_facts(1) empty(2,1) this]
  have ok: "index_ok reference_native example_digest (index_of legacy_store)" .
  have gen: "ix_generations (index_of legacy_store) ?g
      = Some (Plain (publication_dir reference_native legacy_env example_key example_columns (Some example_ident)))"
    by (simp add: legacy_facts(2) legacy_dir_def set_node_def set_current_def add_generation_def)
  obtain copy where check: "check_generation reference_native example_digest (ix_generations (index_of legacy_store)) ?g (Some example_key) True
      = Inr (example_key, copy, published_columns reference_native example_columns)"
    using check_publication [where generations = "ix_generations (index_of legacy_store)" and native = reference_native,
        OF reference_native_law example_facts(3,2) gen refl ident, of "Some example_key" True] by auto
  have "ev_generation example_env \<noteq> ?g" by (simp add: legacy_env_def example_env_def)
  then have fresh: "fresh_migration example_migration (w_store ?w)"
    using example_facts(1) by (simp add: fresh_migration_def Let_def example_migration_def legacy_store_def index_of_def empty_store_def)
  from migration_preserves_nodes [OF _ prod.collapse [symmetric] reference_native_law reference_native_sized fresh, of example_digest]
  have "carries reference_native example_digest (index_of legacy_store) (index_of (w_store ?after))" using ok by (simp add: live_def)
  moreover have "ix_nodes (index_of legacy_store) example_key = Some (Plain (pointer_text ?g))" by (simp add: legacy_facts(2) set_node_def)
  ultimately obtain g x where after: "ix_nodes (index_of (w_store ?after)) example_key = Some (Plain (pointer_text g))"
      "check_generation reference_native example_digest (ix_generations (index_of (w_store ?after))) g (Some example_key) True = Inr x"
      "same_contents (example_key, copy, published_columns reference_native example_columns) x"
    using legacy_facts(1) check unfolding carries_def by meson
  have "(''factor'', \<lparr>arr_ndim = 1, arr_values = [4607182418800017408]\<rparr>) \<in> set example_columns" by (simp add: example_columns_def)
  from reference.published_value [OF example_facts(3) this]
  have "map_option col_values (map_of (published_columns reference_native example_columns) ''factor'') = Some [4607182418800017408]" by auto
  then have "map_option col_values (map_of (snd (snd x)) ''factor'') = Some [4607182418800017408]"
    using after(3) unfolding same_contents_def snd_conv by metis
  then show ?thesis using after(1,2) by (cases x) auto
qed

end
