(* ===== verification/Factor_Recovery.thy ===== *)
theory Factor_Recovery
  imports Factor_Publication
begin

text \<open>
  Progress after an interruption: a publication that was cut off anywhere, retried when nothing fails,
  returns a generation that opens with the published columns.
\<close>

lemma no_pointer_of_index:
  assumes "hex_name 64 k" "ix_nodes (index_of st) k = None"
  shows "read_node_pointer st k True = Inr None"
  using assms by (simp add: read_node_pointer_def index_of_def)

lemma index_of_no_pointer:
  assumes "hex_name 64 k" "read_node_pointer st k True = Inr None"
  shows "ix_nodes (index_of st) k = None"
  using assms by (auto simp: read_node_pointer_def index_of_def split: if_splits option.splits sum.splits entry.splits exn.splits)

lemma pointer_of_index:
  assumes "hex_name 64 k" "hex_name 32 g" "ix_nodes (index_of st) k = Some (Plain (pointer_text g))"
  shows "read_node_pointer st k True = Inr (Some g)"
  using assms by (simp add: read_node_pointer_def index_of_def pointer_text_def str_strip_hex)

text \<open>Publishing a cached node returns its generation, and the index stays.\<close>

lemma reuse_no_fault:
  assumes "w_faults w = NoFault" "hex_name 64 k" "hex_name 32 g" "map_of (st_leases (w_store w)) g \<notin> {Some Symlink, Some Irregular}"
    and "ix_nodes (index_of (w_store w)) k = Some (Plain (pointer_text g))"
    and "check_generation native digest (ix_generations (index_of (w_store w))) g (Some k) True = Inr (k, copy, opened)"
    and "publish_checks digest k columns (Some ident) = Inr ()"
  shows "\<exists>s. publish_generation native digest env k columns (Some ident) None v w = (Inr g, w\<lparr>w_store := s\<rparr>)
    \<and> index_of s = index_of (w_store w) \<and> map_of (st_leases s) g \<notin> {Some Symlink, Some Irregular}"
proof -
  let ?lease = "\<lparr>l_generation = g, l_node_key = k, l_identity = copy, l_columns = opened, l_name = ev_lease_name env, l_closed = False\<rparr>"
  obtain s where s: "open_and_lease native digest env g (Some k) True w = (Inr ?lease, w\<lparr>w_store := s\<rparr>)" "index_of s = index_of (w_store w)"
      "map_of (lease_files s g) (ev_lease_name env) = Some (Plain (Doc (lease_document env g)))"
    using open_and_lease_no_fault [OF assms(1,4), of native digest "Some k" True k copy opened env] assms(6)
    by (auto simp: check_of_index [OF assms(3)])
  obtain u where u: "record_node_access env k g (Fin 60000000000) (w\<lparr>w_store := s\<rparr>) = (Inr (), w\<lparr>w_store := u\<rparr>)"
      "index_of u = index_of s" "st_leases u = st_leases s"
    using record_node_access_no_fault [of "w\<lparr>w_store := s\<rparr>" env k g "Fin 60000000000"] assms(1) by auto
  have "map_of (st_leases s) g \<notin> {Some Symlink, Some Irregular}"
    using s(3) by (auto simp: lease_files_def split: option.splits entry.splits)
  then have leases: "map_of (st_leases (unlink_lease g (ev_lease_name env) u)) g \<notin> {Some Symlink, Some Irregular}"
    using u(3) by (auto simp: unlink_lease_def split: option.splits entry.splits)
  have "publish_generation native digest env k columns (Some ident) None v w = (Inr g, w\<lparr>w_store := unlink_lease g (ev_lease_name env) u\<rparr>)"
    using assms(1,7) s(1) u(1) pointer_of_index [OF assms(2,3,5)]
    by (simp add: publish_generation_def pbind_def reads_res_def check_replacement_def lease_close_def io_no_fault)
  then show ?thesis using s(2) u(2) leases by (intro exI conjI) (assumption, simp_all add: index_simps)
qed

text \<open>
  Claim C15. An interrupted publication is recovered by publishing again: after an attempt that ended in any way, by an
  exception at any write or by the death of the process before any write, the next attempt without faults returns, and the
  generation it returns (the one of the first attempt when its pointer had moved, else its own) opens under the node key
  with exactly the published columns.
\<close>

theorem interrupted_publication_recovers:
  assumes "live w" and "publish_generation native digest env k columns (Some ident) None v w = (r, w1)"
    and "read_node_pointer (w_store w) k True = Inr None" and "hex_name 32 (ev_generation env)"
    and "native_law native" and "sound_columns columns" and "uniform_columns columns n"
    and "identity_valid ident" and "identity_node_key digest ident = k" and "hex_name 64 k"
    and "hex_name 32 (ev_generation env')" and "st_nodes (w_store w1) \<noteq> Linked"
    and "map_of (st_generations (w_store w1)) (staging_name (ev_generation env')) = None"
    and "map_of (st_leases (w_store w1)) (ev_generation env') = None"
    and "map_of (st_leases (w_store w1)) (ev_generation env) \<notin> {Some Symlink, Some Irregular}"
    and "is_finite interval" and "f_le (Fin 0) interval"
  shows "\<exists>g w2 lease w3. publish_generation native digest env' k columns (Some ident) None False (w1\<lparr>w_faults := NoFault\<rparr>) = (Inr g, w2)
    \<and> g \<in> {ev_generation env, ev_generation env'}
    \<and> open_generation_by_node_key native digest reader k interval w2 = (Inr lease, w3)
    \<and> l_generation lease = g \<and> map fst (l_columns lease) = map fst (sort_key fst columns)
    \<and> (\<forall>c\<in>set columns. \<exists>col. lease_getitem lease (fst c) = Inr col \<and> col_values col = arr_values (snd c))"
proof -
  let ?w = "w1\<lparr>w_faults := NoFault\<rparr>" and ?ix = "index_of (w_store w1)" and ?g = "ev_generation env"
  have distinct: "distinct (map fst columns)" using assms(6) by (simp add: sound_columns_def)
  have checks: "publish_checks digest k columns (Some ident) = Inr ()"
    using assms(6,9,10) by (simp add: publish_checks_def sound_columns_def)
  have before: "ix_nodes (index_of (w_store w)) k = None" by (rule index_of_no_pointer [OF assms(10,3)])
  show ?thesis
  proof (cases "ix_nodes ?ix k = None")
    case True
    have "read_node_pointer (w_store ?w) k True = Inr None" using no_pointer_of_index [OF assms(10) True] by simp
    from published_opens [of ?w, OF _ _ refl _ assms(11) _ this assms(5-10,16,17), of reader] assms(12-14)
    show ?thesis by simp metis
  next
    case False
    let ?dir = "publication_dir native env k columns (Some ident)"
    from publication_outcome [OF assms(1,2,4) distinct] before False
    have ix: "?ix = set_node k ?g (set_current ?g (add_generation ?g ?dir (index_of (w_store w))))"
      by (auto simp: publication_states_def add_generation_def set_current_def split: if_splits)
    have found: "ix_generations ?ix ?g = Some (Plain ?dir)" "ix_nodes ?ix k = Some (Plain (pointer_text ?g))"
      by (simp_all add: ix set_node_def set_current_def add_generation_def)
    have ident: "\<forall>i. Some ident = Some i \<longrightarrow> identity_valid i \<and> identity_node_key digest i = k" using assms(8,9) by simp
    obtain copy where check: "check_generation native digest (ix_generations ?ix) ?g (Some k) True = Inr (k, copy, published_columns native columns)"
      using check_publication [where generations = "ix_generations ?ix" and native = native, OF assms(5,6,10) found(1) refl ident, of "Some k" True]
      by auto
    obtain s where s: "publish_generation native digest env' k columns (Some ident) None False ?w = (Inr ?g, ?w\<lparr>w_store := s\<rparr>)"
        "index_of s = ?ix" "map_of (st_leases s) ?g \<notin> {Some Symlink, Some Irregular}"
      using reuse_no_fault [where w = ?w and env = env' and v = False, OF _ assms(10,4) _ _ _ checks, of native copy] assms(15) found(2) check
      by auto
    let ?lease = "\<lparr>l_generation = ?g, l_node_key = k, l_identity = copy, l_columns = published_columns native columns,
      l_name = ev_lease_name reader, l_closed = False\<rparr>"
    obtain u where u: "open_generation_by_node_key native digest reader k interval (?w\<lparr>w_store := s\<rparr>) = (Inr ?lease, ?w\<lparr>w_store := u\<rparr>)"
      using open_by_key_no_fault [where w = "?w\<lparr>w_store := s\<rparr>" and native = native and digest = digest and env = reader,
          OF _ assms(10,4,16,17)] s(2,3) found(2) check by auto
    have "\<forall>c\<in>set columns. \<exists>col. lease_getitem ?lease (fst c) = Inr col \<and> col_values col = arr_values (snd c)"
      using mapped_columns.published_value [OF mapped_columns.intro [OF assms(5)] assms(6)] by (fastforce simp: lease_getitem_def)
    then show ?thesis
      using s(1) u by (intro exI [of _ ?g] exI [of _ "?w\<lparr>w_store := s\<rparr>"] exI [of _ ?lease] exI [of _ "?w\<lparr>w_store := u\<rparr>"])
        (simp add: published_columns_def comp_def)
  qed
qed

subsection \<open>Instance\<close>

text \<open>The process dies with the column staged and no manifest; the second attempt has its own generation.\<close>

definition retry_env :: env where
  "retry_env = example_env\<lparr>ev_generation := replicate 32 CHR ''d''\<rparr>"

lemma io_crash:
  "pbind (io f) k \<lparr>w_store = s, w_faults = CrashAfter (Suc n)\<rparr> = k () \<lparr>w_store = f s, w_faults = CrashAfter n\<rparr>"
  "pbind (io f) k \<lparr>w_store = s, w_faults = CrashAfter 0\<rparr> = (Inl (BaseException 0), \<lparr>w_store = s, w_faults = Crashed\<rparr>)"
  by (simp_all add: pbind_def io_def)

lemma interrupted_store:
  "snd (example_publish (CrashAfter (Suc (Suc 0)))) = \<lparr>w_store = put_staged (ev_generation example_env) ''factor.bin'' Torn
     (make_staging (ev_generation example_env) empty_store), w_faults = Crashed\<rparr>"
proof -
  let ?g = "ev_generation example_env"
  have checks: "publish_checks example_digest example_key example_columns (Some example_ident) = Inr ()"
    using example_facts by (simp add: publish_checks_def sound_columns_def identity_node_key_def example_digest_def example_key_def)
  have pointer: "read_node_pointer empty_store example_key True = Inr None"
    using example_facts(2) by (simp add: read_node_pointer_def) (simp add: empty_store_def)
  have new: "map_of (st_generations empty_store) (staging_name ?g) = None" by (simp add: empty_store_def)
  have stage: "stage_columns reference_native False ?g None example_columns \<lparr>w_store = s, w_faults = CrashAfter (Suc 0)\<rparr>
      = (Inl (BaseException 0), \<lparr>w_store = put_staged ?g ''factor.bin'' Torn s, w_faults = Crashed\<rparr>)" for s
    by (simp add: example_columns_def Let_def io_crash)
  have sorted: "sort_key fst example_columns = example_columns" by (simp add: example_columns_def)
  have "publish_staged reference_native example_env example_key example_columns (Some example_ident) False
      \<lparr>w_store = s, w_faults = CrashAfter (Suc 0)\<rparr>
      = (Inl (BaseException 0), \<lparr>w_store = put_staged ?g ''factor.bin'' Torn s, w_faults = Crashed\<rparr>)" for s
    using stage [of s] sorted by (simp add: publish_staged_def Let_def pbind_eq(2))
  then show ?thesis
    using checks pointer new
    by (simp add: example_publish_def publish_generation_def check_replacement_def publish_new_def Let_def reads_res_def pbind_eq io_crash
        on_exception_def)
qed

theorem interrupted_publication_recovers_witness:
  "\<exists>g w2 lease w3 col. publish_generation reference_native example_digest retry_env example_key example_columns (Some example_ident) None False
        (snd (example_publish (CrashAfter (Suc (Suc 0))))\<lparr>w_faults := NoFault\<rparr>) = (Inr g, w2)
    \<and> open_generation_by_node_key reference_native example_digest example_env example_key (Fin 60) w2 = (Inr lease, w3)
    \<and> lease_getitem lease ''factor'' = Inr col \<and> col_values col = [4607182418800017408]"
proof -
  let ?w = "\<lparr>w_store = empty_store, w_faults = CrashAfter (Suc (Suc 0))\<rparr>"
  obtain r w1 where run: "example_publish (CrashAfter (Suc (Suc 0))) = (r, w1)" by fastforce
  then have first: "publish_generation reference_native example_digest example_env example_key example_columns (Some example_ident) None False ?w = (r, w1)"
    by (simp add: example_publish_def)
  have pointer: "read_node_pointer (w_store ?w) example_key True = Inr None"
    using example_facts(2) by (simp add: read_node_pointer_def empty_store_def)
  have columns: "uniform_columns example_columns 1" by (simp add: uniform_columns_def example_columns_def)
  have key: "identity_node_key example_digest example_ident = example_key"
    by (simp add: identity_node_key_def example_digest_def example_key_def)
  have interval: "is_finite (Fin 60)" "f_le (Fin 0) (Fin 60)" by (simp_all add: is_finite_def f_le_def f_eq_def)
  have hex: "hex_name 32 (ev_generation retry_env)"
    by (auto simp: hex_name_def retry_env_def lower_hex_def less_eq_char_def list_all_iff)
  have "staging_name (ev_generation retry_env) \<noteq> staging_name (ev_generation example_env)"
    by (simp add: staging_name_def retry_env_def example_env_def)
  then have store: "st_nodes (w_store w1) \<noteq> Linked" "map_of (st_generations (w_store w1)) (staging_name (ev_generation retry_env)) = None"
      "map_of (st_leases (w_store w1)) (ev_generation retry_env) = None"
      "map_of (st_leases (w_store w1)) (ev_generation example_env) \<notin> {Some Symlink, Some Irregular}"
    using interrupted_store by (simp_all add: run) (simp_all add: put_staged_def make_staging_def empty_store_def)
  have live: "live ?w" by (simp add: live_def)
  from interrupted_publication_recovers [OF live first pointer example_facts(1) reference_native_law example_facts(3) columns example_facts(4) key
      example_facts(2) hex store interval, of example_env]
  obtain g w2 lease w3 where *: "publish_generation reference_native example_digest retry_env example_key example_columns (Some example_ident) None False
        (w1\<lparr>w_faults := NoFault\<rparr>) = (Inr g, w2)"
      "open_generation_by_node_key reference_native example_digest example_env example_key (Fin 60) w2 = (Inr lease, w3)"
      "\<forall>c\<in>set example_columns. \<exists>col. lease_getitem lease (fst c) = Inr col \<and> col_values col = arr_values (snd c)"
    by blast
  from *(3) obtain col where "lease_getitem lease ''factor'' = Inr col" "col_values col = [4607182418800017408]"
    by (auto simp: example_columns_def)
  with * run show ?thesis by auto
qed

end
