(* ===== verification/Civil_Dates.thy ===== *)
theory Civil_Dates
  imports Py_Values
begin

text \<open>
  Calendar dates as Python's \<open>datetime.date\<close> has them, and their day numbers as NumPy's \<open>datetime64[D]\<close> counts them
  (days since 1970-01-01): the proleptic Gregorian calendar of the years 1 to 9999. The two
  representations are inverse to each other.
\<close>

definition is_leap :: "int \<Rightarrow> bool" where
  "is_leap y = (y mod 4 = 0 \<and> (y mod 100 \<noteq> 0 \<or> y mod 400 = 0))"

definition days_in_month :: "int \<Rightarrow> int \<Rightarrow> int" where
  "days_in_month y m = (if m = 2 then (if is_leap y then 29 else 28) else if m \<in> {4, 6, 9, 11} then 30 else 31)"

definition days_before_year :: "int \<Rightarrow> int" where
  "days_before_year y = (let z = y - 1 in z * 365 + z div 4 - z div 100 + z div 400)"

definition days_before_month :: "int \<Rightarrow> int \<Rightarrow> int" where
  "days_before_month y m = sum_list (map (days_in_month y) [1..m - 1])"

definition day_number :: "int \<Rightarrow> int \<Rightarrow> int \<Rightarrow> int" where
  "day_number y m d = days_before_year y + days_before_month y m + d - 719163"

definition valid_date :: "int \<Rightarrow> int \<Rightarrow> int \<Rightarrow> bool" where
  "valid_date y m d = (1 \<le> y \<and> y \<le> 9999 \<and> 1 \<le> m \<and> m \<le> 12 \<and> 1 \<le> d \<and> d \<le> days_in_month y m)"

text \<open>\<open>datetime.date(y, m, d)\<close>.\<close>

definition python_date :: "int \<Rightarrow> int \<Rightarrow> int \<Rightarrow> int res" where
  "python_date y m d = (if valid_date y m d then Inr (day_number y m d) else Inl (ValueError ''date out of range''))"

text \<open>The year, month and day of a day number.\<close>

definition year_of :: "int \<Rightarrow> int" where
  "year_of n = (let y = (n + 719162) * 400 div 146097 + 1 in if days_before_year (y + 1) < n + 719163 then y + 1 else y)"

primrec month_day :: "(int \<Rightarrow> int) \<Rightarrow> int list \<Rightarrow> int \<Rightarrow> int \<times> int" where
  "month_day size_of [] k = (12, k)"
| "month_day size_of (m # ms) k = (if k \<le> size_of m then (m, k) else month_day size_of ms (k - size_of m))"

definition date_of :: "int \<Rightarrow> int \<times> int \<times> int" where
  "date_of n = (let y = year_of n in (y, month_day (days_in_month y) [1..12] (n + 719163 - days_before_year y)))"

text \<open>\<open>date.weekday()\<close>, Monday being 0; day 0 is a Thursday.\<close>

definition day_of_week :: "int \<Rightarrow> int" where
  "day_of_week n = (n + 3) mod 7"

lemma day_of_week_range [simp]: "0 \<le> day_of_week n" "day_of_week n < 7"
  by (simp_all add: day_of_week_def)

section \<open>Round trip\<close>

lemma div_bounds: "0 < (k :: int) \<Longrightarrow> k * (z div k) \<le> z \<and> z < k * (z div k) + k"
  using mult_div_mod_eq [of k z] pos_mod_bound [of k z] pos_mod_sign [of k z] by linarith

lemma days_before_year_bounds:
  "146097 * y - 146896 \<le> 400 * days_before_year y" "400 * days_before_year y \<le> 146097 * y - 145701"
  using div_bounds [of 4 "y - 1"] div_bounds [of 100 "y - 1"] div_bounds [of 400 "y - 1"]
  by (simp_all add: days_before_year_def Let_def)

lemma div_step:
  assumes "1 < (k :: int)"
  shows "y div k = (y - 1) div k + (if y mod k = 0 then 1 else 0)"
proof -
  obtain q r where q: "q = (y - 1) div k" "r = (y - 1) mod k" by simp
  then have y: "y = k * q + (r + 1)" "0 \<le> r" "r < k"
    using mult_div_mod_eq [of k "y - 1"] assms by auto
  show ?thesis
  proof (cases "r + 1 = k")
    case True
    then have y': "y = k * (q + 1) + 0" using y(1) by (simp add: algebra_simps)
    have "y div k = q + 1" "y mod k = 0"
      using assms int_div_pos_eq [OF y'] int_mod_pos_eq [OF y'] by simp_all
    then show ?thesis by (simp add: q(1))
  next
    case False
    then have "y div k = q" "y mod k = r + 1"
      using y int_div_pos_eq [OF y(1)] int_mod_pos_eq [OF y(1)] by simp_all
    then show ?thesis using y(2) by (simp add: q(1))
  qed
qed

lemma leap_days:
  fixes y :: int
  assumes "d1 = y * 365 + p - q + r" and "d0 = (y - 1) * 365 + a - b + c" and "p = a + (if P then 1 else 0)"
    and "q = b + (if Q then 1 else 0)" and "r = c + (if R then 1 else 0)" and "R \<longrightarrow> Q" and "Q \<longrightarrow> P"
  shows "d1 = d0 + (if P \<and> (\<not> Q \<or> R) then 366 else 365)"
  using assms by (cases P; cases Q; cases R) simp_all

lemma days_before_year_step: "days_before_year (y + 1) = days_before_year y + (if is_leap y then 366 else 365)"
  unfolding is_leap_def
proof (rule leap_days [of _ y "y div 4" "y div 100" "y div 400" _ "(y - 1) div 4" "(y - 1) div 100" "(y - 1) div 400"])
  show "days_before_year (y + 1) = y * 365 + y div 4 - y div 100 + y div 400" by (simp add: days_before_year_def)
  show "days_before_year y = (y - 1) * 365 + (y - 1) div 4 - (y - 1) div 100 + (y - 1) div 400"
    by (simp add: days_before_year_def Let_def)
  show "y mod 400 = 0 \<longrightarrow> y mod 100 = 0" "y mod 100 = 0 \<longrightarrow> y mod 4 = 0"
    using dvd_trans [of 100 400 y] dvd_trans [of 4 100 y] by (simp_all add: dvd_eq_mod_eq_0)
qed (rule div_step, simp)+

lemma upto_twelve: "[1..12] = [1, 2, 3, 4, 5, 6, 7, 8, 9, 10, 11, 12 :: int]"
  by (simp add: upto.simps)

lemma month_cases:
  assumes "1 \<le> (m :: int)" "m \<le> 12"
  obtains "m = 1" | "m = 2" | "m = 3" | "m = 4" | "m = 5" | "m = 6" | "m = 7" | "m = 8" | "m = 9" | "m = 10" | "m = 11" | "m = 12"
proof -
  have "m = 1 \<or> m = 2 \<or> m = 3 \<or> m = 4 \<or> m = 5 \<or> m = 6 \<or> m = 7 \<or> m = 8 \<or> m = 9 \<or> m = 10 \<or> m = 11 \<or> m = 12"
    using assms by arith
  then show thesis using that by blast
qed

lemma days_in_month_range: "28 \<le> days_in_month y m" "days_in_month y m \<le> 31"
  by (simp_all add: days_in_month_def)

lemma days_in_months: "sum_list (map (days_in_month y) [1..12]) = (if is_leap y then 366 else 365)"
  by (simp add: upto_twelve days_in_month_def)

lemma days_before_month_range:
  assumes "1 \<le> m" "m \<le> 12"
  shows "0 \<le> days_before_month y m" "days_before_month y m + days_in_month y m \<le> (if is_leap y then 366 else 365)"
  using assms by (cases m rule: month_cases; simp add: days_before_month_def days_in_month_def upto.simps)+

lemma month_day_of:
  assumes "1 \<le> m" "m \<le> 12" "1 \<le> d" "d \<le> days_in_month y m"
  shows "month_day (days_in_month y) [1..12] (days_before_month y m + d) = (m, d)"
  using assms by (cases m rule: month_cases; simp add: days_before_month_def days_in_month_def upto_twelve upto.simps split: if_splits)

lemma year_of_eq:
  assumes "days_before_year y < n + 719163" "n + 719163 \<le> days_before_year (y + 1)"
  shows "year_of n = y"
proof -
  define z where "z = (n + 719162) * 400 div 146097"
  have z: "146097 * z \<le> 400 * n + 287664800" "400 * n + 287664800 < 146097 * z + 146097"
    using div_bounds [of 146097 "(n + 719162) * 400"] by (simp_all add: z_def algebra_simps)
  have "146097 * y - 146896 \<le> 400 * n + 287664800"
    using assms(1) days_before_year_bounds(1) [of y] by linarith
  moreover have "400 * n + 287664800 \<le> 146097 * y - 4"
    using assms(2) days_before_year_bounds(2) [of "y + 1"] by (simp add: algebra_simps)
  ultimately have "y - 2 \<le> z" and "z \<le> y - 1" using z by linarith+
  then have "z + 1 = y - 1 \<or> z + 1 = y" by linarith
  moreover have year: "year_of n = (if days_before_year (z + 2) < n + 719163 then z + 2 else z + 1)"
    by (simp add: year_of_def z_def add.assoc)
  ultimately consider "y = z + 2" | "z + 2 = y + 1" "z + 1 = y" by fastforce
  then show ?thesis using assms year by cases simp_all
qed

lemma date_of_day_number:
  assumes "1 \<le> m" "m \<le> 12" "1 \<le> d" "d \<le> days_in_month y m"
  shows "date_of (day_number y m d) = (y, m, d)"
proof -
  have "year_of (day_number y m d) = y"
    using days_before_month_range [OF assms(1,2), of y] assms(3,4)
    by (intro year_of_eq) (simp_all add: day_number_def days_before_year_step)
  then show ?thesis using month_day_of [OF assms] by (simp add: date_of_def day_number_def)
qed

lemma year_exists: "\<exists>y. days_before_year y < k \<and> k \<le> days_before_year (y + 1)"
proof -
  obtain z where z: "146097 * z \<le> 400 * k - 400" "400 * k - 400 < 146097 * z + 146097"
    using div_bounds [of 146097 "400 * k - 400"] by auto
  have low: "days_before_year z < k" using z(1) days_before_year_bounds(2) [of z] by linarith
  have high: "k \<le> days_before_year (z + 3)" using z(2) days_before_year_bounds(1) [of "z + 3"] by (simp add: algebra_simps)
  consider "k \<le> days_before_year (z + 1)" | "days_before_year (z + 1) < k" "k \<le> days_before_year (z + 2)" | "days_before_year (z + 2) < k"
    by linarith
  then show ?thesis
    by cases (use low high in \<open>auto intro: exI [of _ z] exI [of _ "z + 1"] exI [of _ "z + 2"] simp: add.assoc\<close>)
qed

text \<open>Every day number is that of a date.\<close>

lemma month_day_range:
  assumes "1 \<le> k" "k \<le> sum_list (map size_of ms)" "month_day size_of ms k = (m, d)"
  shows "m \<in> set ms \<and> 1 \<le> d \<and> d \<le> size_of m \<and> (\<exists>pre post. ms = pre @ m # post \<and> k = sum_list (map size_of pre) + d)"
  using assms
proof (induction ms arbitrary: k)
  case (Cons a ms)
  show ?case
  proof (cases "k \<le> size_of a")
    case True
    then have "a = m" "k = d" using Cons.prems by simp_all
    moreover have "a # ms = [] @ a # ms" by simp
    ultimately show ?thesis using Cons.prems(1) True by fastforce
  next
    case False
    then have "month_day size_of ms (k - size_of a) = (m, d)" "1 \<le> k - size_of a" "k - size_of a \<le> sum_list (map size_of ms)"
      using Cons.prems by auto
    from Cons.IH [OF this(2,3,1)] obtain pre post where
      "m \<in> set ms \<and> 1 \<le> d \<and> d \<le> size_of m" "ms = pre @ m # post" "k - size_of a = sum_list (map size_of pre) + d" by blast
    moreover have "a # ms = (a # pre) @ m # post" "k = sum_list (map size_of (a # pre)) + d" using calculation by simp_all
    ultimately show ?thesis by (metis list.set_intros(2))
  qed
qed simp

lemma takeWhile_before: "distinct (pre @ x # post) \<Longrightarrow> takeWhile (\<lambda>y. y \<noteq> x) (pre @ x # post) = pre"
  by (induction pre) auto

lemma day_number_date_of:
  assumes "date_of n = (y, m, d)"
  shows "1 \<le> m" "m \<le> 12" "1 \<le> d" "d \<le> days_in_month y m" "day_number y m d = n"
proof -
  obtain y' where y': "days_before_year y' < n + 719163" "n + 719163 \<le> days_before_year (y' + 1)"
    using year_exists by blast
  have "year_of n = y'" by (rule year_of_eq [OF y'])
  then have y: "y' = y" and md: "month_day (days_in_month y) [1..12] (n + 719163 - days_before_year y) = (m, d)"
    using assms by (auto simp: date_of_def Let_def)
  have "m \<in> set [1..12] \<and> 1 \<le> d \<and> d \<le> days_in_month y m \<and> (\<exists>pre post. [1..12] = pre @ m # post \<and>
      n + 719163 - days_before_year y = sum_list (map (days_in_month y) pre) + d)"
    using y' days_before_year_step [of y] by (intro month_day_range md) (simp_all add: days_in_months y)
  then obtain pre post where md: "m \<in> set [1..12]" "1 \<le> d" "d \<le> days_in_month y m" "[1..12] = pre @ m # post"
      "n + 719163 - days_before_year y = sum_list (map (days_in_month y) pre) + d" by blast
  have m: "1 \<le> m" "m \<le> 12" using md(1) by simp_all
  then have split: "[1..12] = [1..m - 1] @ m # [m + 1..12]" using upto_split3 [of 1 m 12] by simp
  then have "pre = [1..m - 1]"
    using takeWhile_before [of pre m post] takeWhile_before [of "[1..m - 1]" m "[m + 1..12]"] distinct_upto [of 1 12] md(4) by metis
  then show "1 \<le> m" "m \<le> 12" "1 \<le> d" "d \<le> days_in_month y m" "day_number y m d = n"
    using m md by (simp_all add: day_number_def days_before_month_def)
qed

end
