(* ===== verification/Calendars.thy ===== *)
theory Calendars
  imports Civil_Dates
begin

text \<open>
  Exchange calendars (\<open>holiday_calendars.py\<close>). A day is its number since 1970-01-01. NumPy's business-day functions are
  modelled as far as they are exact: membership directly, the roll and the offset of a date and the count of a
  range as parameters, of which only what their documentation states is assumed, and nothing where a 64-bit day
  number overflows. The exchange data come from a package outside the repository and are a parameter too. Arrays
  have one dimension; conversions to days are exact, and no value has a unit finer than nanoseconds.
\<close>

section \<open>Arrays\<close>

datatype (set_nd: 'a) nd = Scalar 'a | Array "'a list"
  for map: map_nd rel: rel_nd

primrec nd_traverse :: "('a \<Rightarrow> 'b res) \<Rightarrow> 'a nd \<Rightarrow> 'b nd res" where
  "nd_traverse f (Scalar x) = rbind (f x) (\<lambda>y. Inr (Scalar y))"
| "nd_traverse f (Array xs) = rbind (res_map f xs) (\<lambda>ys. Inr (Array ys))"

fun broadcast :: "'a nd \<Rightarrow> 'b nd \<Rightarrow> ('a \<times> 'b) nd res" where
  "broadcast (Scalar x) (Scalar y) = Inr (Scalar (x, y))"
| "broadcast (Scalar x) (Array ys) = Inr (Array (map (Pair x) ys))"
| "broadcast (Array xs) (Scalar y) = Inr (Array (map (\<lambda>x. (x, y)) xs))"
| "broadcast (Array xs) (Array ys) =
     (if length xs = length ys then Inr (Array (zip xs ys))
      else if length xs = 1 then Inr (Array (map (Pair (hd xs)) ys))
      else if length ys = 1 then Inr (Array (map (\<lambda>x. (x, hd ys)) xs))
      else Inl (ValueError ''operands could not be broadcast together''))"

definition nd_any :: "('a \<Rightarrow> bool) \<Rightarrow> 'a nd \<Rightarrow> bool" where
  "nd_any P a = (\<exists>x\<in>set_nd a. P x)"

section \<open>Calendars\<close>

text \<open>\<open>numpy.busdaycalendar\<close>: the seven flags start with Monday; holidays are sorted, once each, and fall on open weekdays.\<close>

record busdaycal =
  bc_weekmask :: "bool list"
  bc_holidays :: "int list"

definition on_weekmask :: "bool list \<Rightarrow> int \<Rightarrow> bool" where
  "on_weekmask weekmask d = weekmask ! nat (day_of_week d)"

definition is_busday :: "busdaycal \<Rightarrow> int \<Rightarrow> bool" where
  "is_busday c d = (on_weekmask (bc_weekmask c) d \<and> d \<notin> set (bc_holidays c))"

definition busdaycalendar :: "bool list \<Rightarrow> int option list \<Rightarrow> busdaycal res" where
  "busdaycalendar weekmask holidays =
     (if length weekmask \<noteq> 7 \<or> True \<notin> set weekmask then Inl (ValueError ''invalid business day weekmask'')
      else Inr \<lparr>bc_weekmask = weekmask, bc_holidays = sort (remdups (filter (on_weekmask weekmask) (map the (filter (\<lambda>h. h \<noteq> None) holidays))))\<rparr>)"

text \<open>What comes from outside: NumPy's business-day arithmetic and date parser, \<open>dateutil\<close>'s weekday step, the exchange data.\<close>

record calendar_lib =
  cl_offset :: "busdaycal \<Rightarrow> string \<Rightarrow> int option \<Rightarrow> int \<Rightarrow> int option res"
  cl_count :: "busdaycal \<Rightarrow> int \<Rightarrow> int \<Rightarrow> int"
  cl_relativedelta :: "int \<Rightarrow> int \<Rightarrow> int \<Rightarrow> int res"
  cl_parse :: "string \<Rightarrow> (dt_unit \<times> nat \<times> int option) res"
  cl_exchange :: "string \<Rightarrow> (bool list \<times> int option list) res"

text \<open>\<open>Calendar(name)\<close>: the class keeps the calendars it has built.\<close>

definition calendar_init :: "calendar_lib \<Rightarrow> string \<Rightarrow> ((string, busdaycal) dict, busdaycal) prog" where
  "calendar_init lib calendar_name calendars = (case dict_get calendars calendar_name of
      Some c \<Rightarrow> (Inr c, calendars)
    | None \<Rightarrow> (case rbind (cl_exchange lib calendar_name) (\<lambda>(weekmask, holidays). busdaycalendar weekmask holidays) of
          Inl e \<Rightarrow> (Inl e, calendars)
        | Inr c \<Rightarrow> (Inr c, dict_set calendar_name c calendars)))"

section \<open>Dates\<close>

text \<open>
  A date argument: a \<open>datetime64\<close> scalar or array with its unit, step and ticks, a Python date or datetime (in
  microseconds), text, a Polars series (\<open>None\<close> for another dtype than Date and Datetime), or anything else.
\<close>

datatype date_value =
    NpDates dt_unit nat "int option nd"
  | PyDate int
  | PyDatetime int
  | DateText string
  | PlSeries "(dt_unit \<times> int option list) option"
  | OtherDate

fun day_ticks :: "dt_unit \<Rightarrow> int option" where
  "day_ticks DT_D = Some 1" | "day_ticks DT_h = Some 24" | "day_ticks DT_m = Some 1440" | "day_ticks DT_s = Some 86400"
| "day_ticks DT_ms = Some 86400000" | "day_ticks DT_us = Some 86400000000" | "day_ticks DT_ns = Some 86400000000000"
| "day_ticks _ = None"

definition polars_datetimes :: "(dt_unit \<times> int option list) option \<Rightarrow> (dt_unit \<times> int option list) res" where
  "polars_datetimes values = (case values of
      None \<Rightarrow> Inl (TypeError ''calendar series must have a Polars Date or Datetime dtype'') | Some v \<Rightarrow> Inr v)"

text \<open>\<open>astype("M8[D]")\<close>.\<close>

definition to_day :: "dt_unit \<Rightarrow> nat \<Rightarrow> int \<Rightarrow> int" where
  "to_day unit step t = (let n = t * int step in case unit of
      DT_Y \<Rightarrow> day_number (1970 + n) 1 1
    | DT_M \<Rightarrow> day_number (1970 + n div 12) (n mod 12 + 1) 1
    | DT_W \<Rightarrow> n * 7
    | _ \<Rightarrow> n div the (day_ticks unit))"

definition as_np_date :: "calendar_lib \<Rightarrow> date_value \<Rightarrow> int option nd option res" where
  "as_np_date lib val = (case val of
      NpDates unit step ts \<Rightarrow> Inr (Some (map_nd (map_option (to_day unit step)) ts))
    | PyDate d \<Rightarrow> Inr (Some (Scalar (Some d)))
    | PyDatetime us \<Rightarrow> Inr (Some (Scalar (Some (to_day DT_us 1 us))))
    | DateText s \<Rightarrow> rbind (cl_parse lib s) (\<lambda>(unit, step, t).
        let d = map_option (to_day unit step) t in
        if (case d of None \<Rightarrow> False | Some n \<Rightarrow> \<not> (day_number 1 1 1 \<le> n \<and> n \<le> day_number 9999 12 31))
        then Inl (Exception ''invalid date'') else Inr (Some (Scalar d)))
    | PlSeries v \<Rightarrow> rbind (polars_datetimes v) (\<lambda>(unit, ts). Inr (Some (Array (map (map_option (to_day unit 1)) ts))))
    | OtherDate \<Rightarrow> Inr None)"

text \<open>A date and the time of day, in the unit and step of the result.\<close>

definition time_step :: "dt_unit \<Rightarrow> nat \<Rightarrow> nat" where
  "time_step unit step = (if the (day_ticks unit) mod int step = 0 then step else 1)"

definition split_ticks :: "dt_unit \<Rightarrow> nat \<Rightarrow> int \<Rightarrow> int \<times> int" where
  "split_ticks unit step t = (let total = t * int step; per = the (day_ticks unit) in
     (total div per, total mod per div int (time_step unit step)))"

definition split_datetimes :: "dt_unit \<Rightarrow> nat \<Rightarrow> int option nd \<Rightarrow> dt_unit \<times> nat \<times> (int \<times> int) option nd" where
  "split_datetimes unit step ts =
     (if day_ticks unit \<noteq> None then (unit, time_step unit step, map_nd (map_option (split_ticks unit step)) ts)
      else (DT_D, 1, map_nd (map_option (\<lambda>t. (to_day unit step t, 0))) ts))"

definition normalize_datetime :: "calendar_lib \<Rightarrow> date_value \<Rightarrow> (dt_unit \<times> nat \<times> (int \<times> int) option nd) res" where
  "normalize_datetime lib val = (case val of
      NpDates unit step ts \<Rightarrow> Inr (split_datetimes unit step ts)
    | PyDate d \<Rightarrow> Inr (split_datetimes DT_D 1 (Scalar (Some d)))
    | PyDatetime us \<Rightarrow> Inr (split_datetimes DT_us 1 (Scalar (Some us)))
    | DateText s \<Rightarrow> rbind (cl_parse lib s) (\<lambda>(unit, step, t). Inr (split_datetimes unit step (Scalar t)))
    | PlSeries v \<Rightarrow> rbind (polars_datetimes v) (\<lambda>(unit, ts). Inr (split_datetimes unit 1 (Array ts)))
    | OtherDate \<Rightarrow> Inl (ValueError ''Could not convert object to NumPy datetime''))"

section \<open>Counting trading days\<close>

text \<open>One more day; the day after the last one is NaT.\<close>

definition next_day :: "int option \<Rightarrow> int option" where
  "next_day d = (case d of None \<Rightarrow> None | Some n \<Rightarrow> if n = 2 ^ 63 - 1 then None else Some (n + 1))"

definition after :: "int option \<Rightarrow> int option \<Rightarrow> bool" where
  "after s e = (case (s, e) of (Some x, Some y) \<Rightarrow> y < x | _ \<Rightarrow> False)"

definition normalize_range :: "calendar_lib \<Rightarrow> date_value \<Rightarrow> date_value \<Rightarrow> bool \<Rightarrow> bool \<Rightarrow> (int option \<times> int option) nd res" where
  "normalize_range lib start end include_first include_last =
     rbind (as_np_date lib start) (\<lambda>s. rbind (as_np_date lib end) (\<lambda>e. case (s, e) of
       (Some s, Some e) \<Rightarrow>
         rbind (broadcast s e) (\<lambda>pairs.
         rbind (require (\<not> nd_any (\<lambda>(s, e). after s e) pairs) (ValueError ''start date must not be after end date'')) (\<lambda>_.
         Inr (map_nd (\<lambda>(s, e). let s = (if include_first then s else next_day s); e = (if include_last then next_day e else e) in
           (if after s e then e else s, e)) pairs)))
     | _ \<Rightarrow> Inl (ValueError ''start and end must be supported date values'')))"

definition is_trading_day :: "calendar_lib \<Rightarrow> busdaycal \<Rightarrow> date_value \<Rightarrow> bool nd res" where
  "is_trading_day lib c dates = rbind (as_np_date lib dates) (\<lambda>normalized. case normalized of
      None \<Rightarrow> Inl (ValueError ''dates must be supported date values'')
    | Some ds \<Rightarrow> Inr (map_nd (\<lambda>d. case d of None \<Rightarrow> False | Some n \<Rightarrow> is_busday c n) ds))"

definition num_trading_days :: "calendar_lib \<Rightarrow> busdaycal \<Rightarrow> date_value \<Rightarrow> date_value \<Rightarrow> bool \<Rightarrow> bool \<Rightarrow> float64 nd res" where
  "num_trading_days lib c start end include_first include_last =
     rbind (normalize_range lib start end include_first include_last) (\<lambda>pairs.
     Inr (map_nd (\<lambda>p. case p of (Some s, Some e) \<Rightarrow> f_of_int (cl_count lib c s e) | _ \<Rightarrow> NaN) pairs))"

definition get_trading_days :: "calendar_lib \<Rightarrow> busdaycal \<Rightarrow> date_value \<Rightarrow> date_value \<Rightarrow> bool \<Rightarrow> bool \<Rightarrow> int list res" where
  "get_trading_days lib c start end include_first include_last =
     rbind (normalize_range lib start end include_first include_last) (\<lambda>pairs. case pairs of
       Scalar (Some s, Some e) \<Rightarrow> Inr (filter (is_busday c) [s..e - 1])
     | _ \<Rightarrow> Inl (ValueError ''cannot make a range of dates''))"

section \<open>Adding trading days\<close>

text \<open>An exact business-day index.\<close>

definition weekday_prefix :: "bool list \<Rightarrow> int \<Rightarrow> int" where
  "weekday_prefix weekmask i = int (length (filter (\<lambda>b. b) (take (nat i) (rotate 3 weekmask))))"

definition business_day_ordinal :: "busdaycal \<Rightarrow> int \<Rightarrow> int" where
  "business_day_ordinal c d =
     (d div 7) * int (length (filter (\<lambda>b. b) (bc_weekmask c))) + weekday_prefix (bc_weekmask c) (d mod 7)
     - int (searchsorted_left (bc_holidays c) (Some d))"

datatype days_arg = Days "int nd" | NotIntegers

text \<open>One element of the computation: the date and time it starts from, its rolled date, the days to add, and NumPy's answer.\<close>

type_synonym offset_row = "(((int \<times> int) option \<times> int option) \<times> int) \<times> int option"

definition displaced :: "busdaycal \<Rightarrow> offset_row \<Rightarrow> bool" where
  "displaced c row = (case row of (((_, base), n), out) \<Rightarrow> (case (base, out) of
      (Some b, Some d) \<Rightarrow> business_day_ordinal c d - business_day_ordinal c b \<noteq> n
    | (Some b, None) \<Rightarrow> True
    | _ \<Rightarrow> False))"

definition rolled_too_far :: "busdaycal \<Rightarrow> offset_row \<Rightarrow> bool" where
  "rolled_too_far c row = (case row of (((Some (d, _), Some b), _), _) \<Rightarrow> 7 * (int (length (bc_holidays c)) + 1) < \<bar>b - d\<bar> | _ \<Rightarrow> False)"

definition result_ticks :: "dt_unit \<Rightarrow> nat \<Rightarrow> offset_row \<Rightarrow> int option" where
  "result_ticks unit step row = (case row of
      (((Some (_, time), _), _), Some d) \<Rightarrow> Some (d * (the (day_ticks unit) div int step) + time) | _ \<Rightarrow> None)"

definition allow_days :: "busdaycal \<Rightarrow> (int \<times> int) option \<times> int \<Rightarrow> int" where
  "allow_days c p = (case p of (start, n) \<Rightarrow>
     if \<not> (case start of None \<Rightarrow> False | Some (d, _) \<Rightarrow> is_busday c d) \<and> 0 < n then n - 1 else n)"

definition offset_rows :: "calendar_lib \<Rightarrow> busdaycal \<Rightarrow> string \<Rightarrow> (int \<times> int) option nd \<Rightarrow> int nd \<Rightarrow> offset_row nd res" where
  "offset_rows lib c roll parts ns =
     rbind (nd_traverse (\<lambda>p. rbind (cl_offset lib c roll (map_option fst p) 0) (\<lambda>b. Inr (p, b))) parts) (\<lambda>based.
     rbind (broadcast based ns) (\<lambda>rows.
     nd_traverse (\<lambda>q. rbind (cl_offset lib c roll (map_option fst (fst (fst q))) (snd q)) (\<lambda>out. Inr (q, out))) rows))"

definition add_trading_days :: "calendar_lib \<Rightarrow> busdaycal \<Rightarrow> date_value \<Rightarrow> days_arg \<Rightarrow> string
    \<Rightarrow> (dt_unit \<times> nat \<times> int option nd) res" where
  "add_trading_days lib c start num_days roll =
     rbind (case num_days of Days ns \<Rightarrow> Inr ns
       | NotIntegers \<Rightarrow> Inl (TypeError ''num_days must be an integer or an integer array; booleans are not allowed'')) (\<lambda>ns.
     rbind (normalize_datetime lib start) (\<lambda>(unit, step, parts).
     rbind (if roll = ''allow'' then rbind (broadcast parts ns) (\<lambda>ps. Inr (map_nd (allow_days c) ps, ''forward''))
            else Inr (ns, roll)) (\<lambda>(ns, roll).
     rbind (offset_rows lib c roll parts ns) (\<lambda>rows.
     rbind (require (\<not> nd_any (displaced c) rows \<and> \<not> nd_any (rolled_too_far c) rows)
       (OverflowError ''trading-day offset exceeds the representable date range'')) (\<lambda>_.
     let ticks = map_nd (result_ticks unit step) rows in
     rbind (require (\<not> nd_any (\<lambda>t. \<exists>n\<in>set_option t. \<bar>n\<bar> > 2 ^ 63 - 1) ticks)
       (OverflowError ''trading-day offset exceeds the representable timestamp range'')) (\<lambda>_.
     Inr (unit, step, ticks)))))))"

text \<open>A single date without a time of day.\<close>

definition scalar_day :: "dt_unit \<times> nat \<times> int option nd \<Rightarrow> int option" where
  "scalar_day r = (case r of (unit, step, Scalar t) \<Rightarrow> map_option (to_day unit step) t | _ \<Rightarrow> None)"

definition third_friday_of_month :: "calendar_lib \<Rightarrow> busdaycal \<Rightarrow> int \<Rightarrow> int \<Rightarrow> string \<Rightarrow> (dt_unit \<times> nat \<times> int option nd) res" where
  "third_friday_of_month lib c month year roll =
     rbind (python_date year month 1) (\<lambda>first_day_of_month.
     let first_friday = first_day_of_month + ((4 - day_of_week first_day_of_month) + 7) mod 7 in
     add_trading_days lib c (PyDate (first_friday + 14)) (Days (Scalar 0)) roll)"

definition get_date_from_weekday :: "calendar_lib \<Rightarrow> int \<Rightarrow> int \<Rightarrow> int \<Rightarrow> int \<Rightarrow> int res" where
  "get_date_from_weekday lib weekday year month week =
     rbind (require (0 \<le> weekday \<and> weekday \<le> 6) (ValueError ''weekday must be between 0 and 6'')) (\<lambda>_.
     rbind (require (week \<in> {-1, 1, 2, 3, 4, 5}) (ValueError ''week must be -1 or between 1 and 5'')) (\<lambda>_.
     if week = -1 then python_date year month (days_in_month year month)
     else rbind (python_date year month 1) (\<lambda>first_day_of_month.
       rbind (cl_relativedelta lib (week - 1) weekday first_day_of_month) (\<lambda>date.
       if fst (snd (date_of date)) \<noteq> month then Inl (ValueError ''weekday does not occur 5 times'') else Inr date))))"

section \<open>The business-day index counts\<close>

definition calendar_ok :: "busdaycal \<Rightarrow> bool" where
  "calendar_ok c = (length (bc_weekmask c) = 7 \<and> True \<in> set (bc_weekmask c) \<and> sorted_wrt (<) (bc_holidays c)
     \<and> (\<forall>h\<in>set (bc_holidays c). on_weekmask (bc_weekmask c) h))"

lemma busdaycalendar_ok: "busdaycalendar weekmask holidays = Inr c \<Longrightarrow> calendar_ok c"
  by (auto simp: busdaycalendar_def calendar_ok_def strict_sorted_iff split: if_splits)

definition busdays :: "busdaycal \<Rightarrow> int \<Rightarrow> int \<Rightarrow> int set" where
  "busdays c a b = {x. a \<le> x \<and> x < b \<and> is_busday c x}"

text \<open>The number of trading days from one date to another, negative backwards.\<close>

definition displacement :: "busdaycal \<Rightarrow> int \<Rightarrow> int \<Rightarrow> int" where
  "displacement c a b = (if a \<le> b then int (card (busdays c a b)) else - int (card (busdays c b a)))"

lemma finite_busdays [simp]: "finite (busdays c a b)"
  by (rule finite_subset [of _ "{a..<b}"]) (auto simp: busdays_def)

lemma busdays_step: "a \<le> b \<Longrightarrow> busdays c a (b + 1) = (if is_busday c b then insert b (busdays c a b) else busdays c a b)"
  by (auto simp: busdays_def) (metis zle_add1_eq_le order_le_less)+

lemma searchsorted_step:
  assumes "sorted_wrt (<) hs"
  shows "searchsorted_left hs (Some (d + 1)) = searchsorted_left hs (Some d) + (if d \<in> set hs then 1 else 0)"
  using assms
proof (induction hs)
  case (Cons h hs)
  have "searchsorted_left hs (Some d) = 0" if "d \<le> h"
    using Cons.prems that by (cases hs) (auto simp: searchsorted_left_def)
  then show ?case using Cons by (auto simp: searchsorted_left_def)
qed (simp add: searchsorted_left_def)

lemma filter_rotate: "length (filter P (rotate n xs)) = length (filter P xs)"
proof (induction n)
  case (Suc n)
  have "length (filter P (rotate1 ys)) = length (filter P ys)" for ys by (cases ys) simp_all
  then show ?case using Suc by simp
qed simp

lemma weekday_prefix_step:
  assumes "length w = 7" "0 \<le> i" "i < 7"
  shows "weekday_prefix w (i + 1) = weekday_prefix w i + (if w ! nat ((i + 3) mod 7) then 1 else 0)"
proof -
  have "nat i < length (rotate 3 w)" using assms by simp
  then have "take (nat (i + 1)) (rotate 3 w) = take (nat i) (rotate 3 w) @ [rotate 3 w ! nat i]"
    using assms(2) by (simp add: nat_add_distrib take_Suc_conv_app_nth)
  moreover have "rotate 3 w ! nat i = w ! nat ((i + 3) mod 7)"
    using assms by (simp add: nth_rotate nat_mod_distrib nat_add_distrib add.commute)
  ultimately show ?thesis by (simp add: weekday_prefix_def)
qed

lemma business_day_ordinal_step:
  assumes "calendar_ok c"
  shows "business_day_ordinal c (d + 1) = business_day_ordinal c d + (if is_busday c d then 1 else 0)"
proof -
  let ?w = "bc_weekmask c"
  let ?n = "int (length (filter (\<lambda>b. b) ?w))"
  have len: "length ?w = 7" using assms by (simp add: calendar_ok_def)
  have total: "weekday_prefix ?w 7 = ?n" using len by (simp add: weekday_prefix_def filter_rotate)
  have zero: "weekday_prefix ?w 0 = 0" by (simp add: weekday_prefix_def)
  obtain q r where r: "q = d div 7" "r = d mod 7" "0 \<le> r" "r < 7" "d = 7 * q + r"
    using mult_div_mod_eq [of 7 d] by fastforce
  have dow: "on_weekmask ?w d \<longleftrightarrow> ?w ! nat ((r + 3) mod 7)"
    by (simp add: on_weekmask_def day_of_week_def r(5) add.assoc)
  have "(d + 1) div 7 * ?n + weekday_prefix ?w ((d + 1) mod 7) = q * ?n + weekday_prefix ?w (r + 1)"
  proof (cases "r = 6")
    case True
    then have "(d + 1) div 7 = q + 1" "(d + 1) mod 7 = 0" using r(5) by simp_all
    then show ?thesis using True by (simp add: zero total algebra_simps)
  next
    case False
    then have "(d + 1) div 7 = q" "(d + 1) mod 7 = r + 1" using r(3-5) by (simp_all add: add.assoc)
    then show ?thesis by simp
  qed
  also have "\<dots> = q * ?n + weekday_prefix ?w r + (if on_weekmask ?w d then 1 else 0)"
    using weekday_prefix_step [OF len r(3,4)] by (simp add: dow)
  finally show ?thesis
    using assms searchsorted_step [of "bc_holidays c" d]
    by (auto simp: business_day_ordinal_def is_busday_def calendar_ok_def r(1,2))
qed

lemma business_day_ordinal_forward:
  assumes "calendar_ok c" "a \<le> b"
  shows "business_day_ordinal c b = business_day_ordinal c a + int (card (busdays c a b))"
  using assms(2)
proof (induction b rule: int_ge_induct)
  case base
  have "busdays c a a = {}" by (auto simp: busdays_def)
  then show ?case by simp
next
  case (step b)
  have "b \<notin> busdays c a b" by (simp add: busdays_def)
  then show ?case using step by (simp add: business_day_ordinal_step [OF assms(1)] busdays_step)
qed

lemma business_day_ordinal_counts:
  "calendar_ok c \<Longrightarrow> business_day_ordinal c b - business_day_ordinal c a = displacement c a b"
  using business_day_ordinal_forward [of c a b] business_day_ordinal_forward [of c b a] by (simp add: displacement_def)

text \<open>At most one trading day lies at a given displacement.\<close>

lemma displacement_inject:
  assumes "calendar_ok c" "is_busday c d" "is_busday c e" "displacement c b d = displacement c b e"
  shows "d = e"
proof (rule ccontr)
  have same: "business_day_ordinal c d = business_day_ordinal c e"
    using business_day_ordinal_counts [OF assms(1), of d b] business_day_ordinal_counts [OF assms(1), of e b] assms(4) by simp
  have False if "is_busday c x" "x < y" "business_day_ordinal c x = business_day_ordinal c y" for x y
  proof -
    have "x \<in> busdays c x y" using that by (simp add: busdays_def)
    then show False using business_day_ordinal_forward [OF assms(1), of x y] that by (auto simp: card_gt_0_iff)
  qed
  moreover assume "d \<noteq> e"
  ultimately show False using assms(2,3) same by (metis linorder_neqE)
qed

section \<open>What NumPy and dateutil document\<close>

definition rolls_forward :: "busdaycal \<Rightarrow> int \<Rightarrow> int \<Rightarrow> bool" where
  "rolls_forward c s b = (s \<le> b \<and> is_busday c b \<and> busdays c s b = {})"

definition rolls_backward :: "busdaycal \<Rightarrow> int \<Rightarrow> int \<Rightarrow> bool" where
  "rolls_backward c s b = (b \<le> s \<and> is_busday c b \<and> busdays c (b + 1) (s + 1) = {})"

definition same_month :: "int \<Rightarrow> int \<Rightarrow> bool" where
  "same_month a b = (fst (date_of a) = fst (date_of b) \<and> fst (snd (date_of a)) = fst (snd (date_of b)))"

text \<open>The date a roll rule gives for a start date.\<close>

definition rolled :: "busdaycal \<Rightarrow> string \<Rightarrow> int \<Rightarrow> int \<Rightarrow> bool" where
  "rolled c roll s b =
     (if roll \<in> {''forward'', ''following''} then rolls_forward c s b
      else if roll \<in> {''backward'', ''preceding''} then rolls_backward c s b
      else if roll = ''modifiedfollowing'' then (\<exists>x. rolls_forward c s x \<and> (if same_month s x then b = x else rolls_backward c s b))
      else if roll = ''modifiedpreceding'' then (\<exists>x. rolls_backward c s x \<and> (if same_month s x then b = x else rolls_forward c s b))
      else b = s \<and> is_busday c s)"

text \<open>A date far enough from the ends of the 64-bit range for a roll to stay within it.\<close>

definition room :: "busdaycal \<Rightarrow> int \<Rightarrow> bool" where
  "room c s = (\<bar>s\<bar> + 7 * (int (length (bc_holidays c)) + 1) < 2 ^ 63)"

text \<open>
  A result of \<open>busday_offset\<close> is a trading day; with nothing to add it is the rolled date; NaT stays NaT. Nothing is
  assumed of what it returns where the offset leaves the 64-bit range; rolling within it succeeds. \<open>busday_count\<close> counts, and
  \<open>relativedelta\<close> finds the first such weekday from the day that many weeks later.
\<close>

definition roll_rules :: "string set" where
  "roll_rules = {''forward'', ''following'', ''backward'', ''preceding'', ''modifiedfollowing'', ''modifiedpreceding''}"

definition calendar_law :: "calendar_lib \<Rightarrow> bool" where
  "calendar_law lib =
     ((\<forall>c roll s n d. calendar_ok c \<and> cl_offset lib c roll s n = Inr (Some d) \<longrightarrow>
        (\<exists>t. s = Some t \<and> is_busday c d \<and> (n = 0 \<and> room c t \<longrightarrow> rolled c roll t d) \<and> cl_offset lib c roll s 0 \<noteq> Inr None)) \<and>
      (\<forall>c roll t. calendar_ok c \<and> room c t \<and> roll \<in> roll_rules \<longrightarrow> (\<exists>d. cl_offset lib c roll (Some t) 0 = Inr (Some d))) \<and>
      (\<forall>c s e. calendar_ok c \<and> s \<le> e \<and> - (2 ^ 62) \<le> s \<and> e \<le> 2 ^ 62 \<longrightarrow> cl_count lib c s e = int (card (busdays c s e))) \<and>
      (\<forall>weeks weekday d. 0 \<le> weekday \<and> weekday < 7 \<and> d + 7 * weeks + 6 \<le> day_number 9999 12 31 \<longrightarrow>
        (\<exists>r. cl_relativedelta lib weeks weekday d = Inr r \<and> day_of_week r = weekday \<and> d + 7 * weeks \<le> r \<and> r < d + 7 * weeks + 7)))"

lemma calendar_lawD:
  assumes "calendar_law lib"
  shows "calendar_ok c \<Longrightarrow> cl_offset lib c roll s n = Inr (Some d) \<Longrightarrow>
      \<exists>t. s = Some t \<and> is_busday c d \<and> (n = 0 \<and> room c t \<longrightarrow> rolled c roll t d) \<and> cl_offset lib c roll s 0 \<noteq> Inr None"
    and "calendar_ok c \<Longrightarrow> s' \<le> e \<Longrightarrow> - (2 ^ 62) \<le> s' \<Longrightarrow> e \<le> 2 ^ 62 \<Longrightarrow> cl_count lib c s' e = int (card (busdays c s' e))"
    and "0 \<le> weekday \<Longrightarrow> weekday < 7 \<Longrightarrow> x + 7 * weeks + 6 \<le> day_number 9999 12 31 \<Longrightarrow>
      \<exists>r. cl_relativedelta lib weeks weekday x = Inr r \<and> day_of_week r = weekday \<and> x + 7 * weeks \<le> r \<and> r < x + 7 * weeks + 7"
    and "calendar_ok c \<Longrightarrow> room c t \<Longrightarrow> roll \<in> roll_rules \<Longrightarrow> \<exists>d. cl_offset lib c roll (Some t) 0 = Inr (Some d)"
  using assms by (simp_all add: calendar_law_def)

section \<open>Added days\<close>

lemma broadcast_rel:
  assumes "rel_nd R a b" "broadcast b ns = Inr q"
  shows "\<exists>p. broadcast a ns = Inr p \<and> rel_nd (rel_prod R (=)) p q"
  using assms
proof (cases b; cases ns; cases a)
  fix ys zs xs
  assume *: "b = Array ys" "ns = Array zs" "a = Array xs"
  then have all: "list_all2 R xs ys" using assms(1) by simp
  then have len: "length xs = length ys" by (rule list_all2_lengthD)
  have "R (hd xs) (hd ys)" if "length ys = 1" using all len that by (cases xs; cases ys) simp_all
  then show ?thesis
    using assms(2) all len *
    by (auto simp: list_all2_conv_all_nth split: if_splits)
qed (auto simp: list_all2_conv_all_nth split: if_splits)

lemma nd_traverse_rel: "nd_traverse f a = Inr b \<Longrightarrow> rel_nd (\<lambda>x y. f x = Inr y) a b"
  by (cases a) (auto simp: res_map_Inr_conv)

lemma broadcast_allow: "broadcast a b = Inr p \<Longrightarrow> broadcast a (map_nd f p) = Inr (map_nd (\<lambda>q. (fst q, f q)) p)"
  by (cases a; cases b) (auto simp: zip_map2 map_zip_map2 comp_def length_Suc_conv set_zip intro!: nth_equalityI split: if_splits)

lemma broadcast_set: "broadcast a b = Inr p \<Longrightarrow> q \<in> set_nd p \<Longrightarrow> fst q \<in> set_nd a"
  by (cases q; cases a; cases b) (auto simp: length_Suc_conv dest: set_zip_leftD split: if_splits)

lemma offset_rows_rel:
  assumes "offset_rows lib c roll parts ns = Inr rows"
  shows "\<exists>pairs. broadcast parts ns = Inr pairs \<and> rel_nd (\<lambda>(p, n) row. \<exists>b out. row = (((p, b), n), out)
    \<and> cl_offset lib c roll (map_option fst p) 0 = Inr b \<and> cl_offset lib c roll (map_option fst p) n = Inr out) pairs rows"
proof -
  obtain based q where 1: "nd_traverse (\<lambda>p. rbind (cl_offset lib c roll (map_option fst p) 0) (\<lambda>b. Inr (p, b))) parts = Inr based"
      and 2: "broadcast based ns = Inr q"
      and 3: "nd_traverse (\<lambda>q. rbind (cl_offset lib c roll (map_option fst (fst (fst q))) (snd q)) (\<lambda>out. Inr (q, out))) q = Inr rows"
    using assms unfolding offset_rows_def by (elim rbindE)
  from nd_traverse_rel [OF 1] have "rel_nd (\<lambda>p x. \<exists>b. x = (p, b) \<and> cl_offset lib c roll (map_option fst p) 0 = Inr b) parts based"
    by (rule nd.rel_mono_strong) auto
  from broadcast_rel [OF this 2] obtain pairs where pairs: "broadcast parts ns = Inr pairs"
      "rel_nd (rel_prod (\<lambda>p x. \<exists>b. x = (p, b) \<and> cl_offset lib c roll (map_option fst p) 0 = Inr b) (=)) pairs q" by blast
  have "rel_nd (\<lambda>(p, n) row. \<exists>b out. row = (((p, b), n), out)
    \<and> cl_offset lib c roll (map_option fst p) 0 = Inr b \<and> cl_offset lib c roll (map_option fst p) n = Inr out) pairs rows"
    using nd.rel_compp [THEN fun_cong, THEN fun_cong, THEN iffD2, OF relcomppI, OF pairs(2) nd_traverse_rel [OF 3]]
    by (rule nd.rel_mono_strong) fastforce
  with pairs(1) show ?thesis by blast
qed

text \<open>
  The trading day \<open>n\<close> days on from the rolled start \<open>b\<close>; under \<open>allow\<close> a closed start day counts as open. The
  rolled start is a trading day within a week for every holiday and one more, and away from the ends of the
  64-bit range the one of the roll rule.
\<close>

definition trading_offset :: "busdaycal \<Rightarrow> string \<Rightarrow> int \<Rightarrow> int \<Rightarrow> int \<Rightarrow> bool" where
  "trading_offset c roll d n d' = (\<exists>b. is_busday c b \<and> \<bar>b - d\<bar> \<le> 7 * (int (length (bc_holidays c)) + 1)
     \<and> (room c d \<longrightarrow> rolled c (if roll = ''allow'' then ''forward'' else roll) d b) \<and> is_busday c d'
     \<and> displacement c b d' = (if roll = ''allow'' \<and> \<not> is_busday c d \<and> 0 < n then n - 1 else n))"

definition added :: "calendar_lib \<Rightarrow> busdaycal \<Rightarrow> dt_unit \<Rightarrow> nat \<Rightarrow> string \<Rightarrow> (int \<times> int) option \<times> int \<Rightarrow> int option \<Rightarrow> bool" where
  "added lib c unit step roll q t = (case t of
      None \<Rightarrow> (case fst q of None \<Rightarrow> True
        | Some (d, _) \<Rightarrow> cl_offset lib c (if roll = ''allow'' then ''forward'' else roll) (Some d) 0 = Inr None)
    | Some t \<Rightarrow> (\<exists>d time d'. fst q = Some (d, time) \<and> t = d' * (the (day_ticks unit) div int step) + time \<and> \<bar>t\<bar> < 2 ^ 63
        \<and> trading_offset c roll d (snd q) d'))"

lemma offset_row_exact:
  assumes "calendar_law lib" "calendar_ok c"
    and "cl_offset lib c roll (map_option fst p) 0 = Inr b" "cl_offset lib c roll (map_option fst p) n = Inr out"
    and "\<not> displaced c (((p, b), n), out)" "\<not> rolled_too_far c (((p, b), n), out)"
  shows "case result_ticks unit step (((p, b), n), out) of
      None \<Rightarrow> (case p of None \<Rightarrow> True | Some (d, _) \<Rightarrow> cl_offset lib c roll (Some d) 0 = Inr None)
    | Some t \<Rightarrow> (\<exists>d time b' d'. p = Some (d, time) \<and> t = d' * (the (day_ticks unit) div int step) + time
        \<and> is_busday c b' \<and> \<bar>b' - d\<bar> \<le> 7 * (int (length (bc_holidays c)) + 1) \<and> (room c d \<longrightarrow> rolled c roll d b')
        \<and> is_busday c d' \<and> displacement c b' d' = n)"
proof (cases p)
  case None
  then show ?thesis by (simp add: result_ticks_def)
next
  case (Some x)
  then obtain d time where p: "p = Some (d, time)" by (cases x) simp
  show ?thesis
  proof (cases out)
    case None
    then have "b = None" using assms(5) by (simp add: displaced_def p split: option.splits)
    then show ?thesis using assms(3) None by (simp add: result_ticks_def p)
  next
    case (Some d')
    then have out: "is_busday c d'" "cl_offset lib c roll (Some d) 0 \<noteq> Inr None"
      using calendar_lawD(1) [OF assms(1,2), of roll "Some d" n d'] assms(4) p by auto
    then obtain b' where b: "b = Some b'" using assms(3) p by (cases b) auto
    have "is_busday c b' \<and> (room c d \<longrightarrow> rolled c roll d b')"
      using calendar_lawD(1) [OF assms(1,2), of roll "Some d" 0 b'] assms(3) p b by auto
    moreover have "\<bar>b' - d\<bar> \<le> 7 * (int (length (bc_holidays c)) + 1)" using assms(6) by (simp add: rolled_too_far_def p b)
    moreover have "displacement c b' d' = n"
      using assms(5) business_day_ordinal_counts [OF assms(2), of d' b'] by (simp add: displaced_def p b Some)
    ultimately show ?thesis using out(1) by (auto simp: result_ticks_def p b Some)
  qed
qed


section \<open>Counted days\<close>

text \<open>
  The count and the list of trading days of a range agree, and the list holds in order exactly the trading days
  between the dates, either end included as asked; a range of one day with both ends excluded is empty.
\<close>

lemma trading_days_counted:
  assumes "calendar_law lib" and "calendar_ok c"
    and "as_np_date lib start = Inr (Some (Scalar (Some s)))" and "as_np_date lib end = Inr (Some (Scalar (Some e)))"
    and "s \<le> e" and "- (2 ^ 61) \<le> s" and "e \<le> 2 ^ 61"
  shows "\<exists>ds. get_trading_days lib c start end include_first include_last = Inr ds
    \<and> num_trading_days lib c start end include_first include_last = Inr (Scalar (f_of_int (int (length ds))))
    \<and> sorted_wrt (<) ds
    \<and> set ds = {d. is_busday c d \<and> (if include_first then s \<le> d else s < d) \<and> (if include_last then d \<le> e else d < e)}"
proof -
  let ?s0 = "if include_first then s else s + 1" and ?e = "if include_last then e + 1 else e"
  let ?s = "if ?e < ?s0 then ?e else ?s0"
  let ?ds = "filter (is_busday c) [?s..?e - 1]"
  have range: "normalize_range lib start end include_first include_last = Inr (Scalar (Some ?s, Some ?e))"
    using assms(3-7) by (auto simp: normalize_range_def nd_any_def after_def next_day_def Let_def)
  have set: "set ?ds = busdays c ?s ?e" by (auto simp: busdays_def)
  have "distinct ?ds" by simp
  then have "length ?ds = card (busdays c ?s ?e)" using distinct_card set by metis
  moreover have "cl_count lib c ?s ?e = int (card (busdays c ?s ?e))"
    using assms(5-7) by (intro calendar_lawD(2) [OF assms(1,2)]) auto
  moreover have "sorted_wrt (<) ?ds" by (rule sorted_wrt_filter) (rule sorted_wrt_upto)
  moreover have "busdays c ?s ?e = {d. is_busday c d \<and> (if include_first then s \<le> d else s < d) \<and> (if include_last then d \<le> e else d < e)}"
    by (auto simp: busdays_def)
  ultimately show ?thesis
    using set by (intro exI [of _ ?ds]) (simp add: get_trading_days_def num_trading_days_def range)
qed

section \<open>Weekdays of a month\<close>

lemma day_of_week_add: "day_of_week (d + k) = (day_of_week d + k) mod 7"
  by (simp add: day_of_week_def mod_simps algebra_simps)

lemma day_of_week_shift: "day_of_week (d + 7 * a + (x - day_of_week d) mod 7) = x mod 7"
proof -
  have "(x - day_of_week d) mod 7 = (x - (d + 3)) mod 7" by (simp add: day_of_week_def mod_diff_right_eq)
  moreover have "(d + 7 * a + (x - (d + 3)) mod 7 + 3) mod 7 = (d + 7 * a + 3 + (x - (d + 3))) mod 7"
    using mod_add_right_eq [of "d + 7 * a + 3" "x - (d + 3)" 7] by (simp add: algebra_simps)
  moreover have "d + 7 * a + 3 + (x - (d + 3)) = x + a * 7" by simp
  ultimately show ?thesis by (simp only: day_of_week_def mod_mult_self1)
qed

lemma day_number_add: "day_number y m (k + j) = day_number y m k + j"
  by (simp add: day_number_def)

definition nth_weekday :: "int \<Rightarrow> int \<Rightarrow> int \<Rightarrow> int \<Rightarrow> int \<Rightarrow> bool" where
  "nth_weekday weekday y m week k = (7 * (week - 1) < k \<and> k \<le> 7 * week \<and> k \<le> days_in_month y m \<and> day_of_week (day_number y m k) = weekday)"

lemma same_weekday:
  assumes "day_of_week (day_number y m j) = day_of_week (day_number y m k)" "\<bar>j - k\<bar> < 7"
  shows "j = k"
proof -
  have "(day_number y m j + 3) mod 7 = (day_number y m k + 3) mod 7" using assms(1) by (simp add: day_of_week_def)
  then have "7 dvd day_number y m j - day_number y m k" by (simp add: mod_eq_dvd_iff)
  then have "7 dvd j - k" by (simp add: day_number_def)
  then obtain q where q: "j - k = 7 * q" by (rule dvdE)
  then consider "q = 0" | "1 \<le> q" | "q \<le> -1" by linarith
  then show ?thesis using q assms(2) by cases linarith+
qed

lemma days_before_year_mono: "y \<le> z \<Longrightarrow> days_before_year y \<le> days_before_year z"
proof (induction z rule: int_ge_induct)
  case (step i)
  then show ?case using days_before_year_step [of i] by (auto split: if_splits)
qed simp

lemma days_before_last_year: "days_before_year 9999 = 3651694"
  by (simp add: days_before_year_def)

lemma day_number_bound:
  assumes "y < 9999" "1 \<le> m" "m \<le> 12" "k \<le> 62"
  shows "day_number y m k + 6 \<le> day_number 9999 12 31"
proof -
  have "days_before_year (y + 1) \<le> days_before_year 9999" using assms(1) by (intro days_before_year_mono) simp
  moreover have "days_before_month y m + days_in_month y m \<le> (if is_leap y then 366 else 365)"
    using days_before_month_range assms by blast
  moreover have "days_before_month 9999 12 = 334" by (simp add: days_before_month_def days_in_month_def is_leap_def upto.simps)
  moreover have "28 \<le> days_in_month y m" by (rule days_in_month_range)
  ultimately show ?thesis using assms(4) days_before_year_step [of y] by (simp add: day_number_def days_before_last_year)
qed

lemma month_after:
  assumes "1 \<le> y" "y < 9999" "1 \<le> m" "m \<le> 12" "days_in_month y m < k" "k \<le> days_in_month y m + 28"
  shows "fst (snd (date_of (day_number y m k))) \<noteq> m"
proof -
  let ?j = "k - days_in_month y m"
  have j: "1 \<le> ?j" "?j \<le> 28" using assms(5,6) by simp_all
  show ?thesis
  proof (cases "m = 12")
    case True
    have "days_before_month y 12 + 31 = (if is_leap y then 366 else 365)"
      by (simp add: days_before_month_def days_in_month_def upto.simps)
    then have "day_number y m k = day_number (y + 1) 1 ?j"
      using True days_before_year_step [of y] by (simp add: day_number_def days_in_month_def days_before_month_def)
    moreover have "date_of (day_number (y + 1) 1 ?j) = (y + 1, 1, ?j)"
      using j days_in_month_range [of "y + 1" 1] by (intro date_of_day_number) simp_all
    ultimately show ?thesis using True by simp
  next
    case False
    have "[1..m] = [1..m - 1] @ [m]" using assms(3) by (simp add: upto_rec2)
    then have "days_before_month y (m + 1) = days_before_month y m + days_in_month y m"
      by (simp add: days_before_month_def)
    then have "day_number y m k = day_number y (m + 1) ?j" by (simp add: day_number_def)
    moreover have "date_of (day_number y (m + 1) ?j) = (y, m + 1, ?j)"
      using j days_in_month_range [of y "m + 1"] False assms(3,4) by (intro date_of_day_number) simp_all
    ultimately show ?thesis by simp
  qed
qed

lemma get_date_from_weekday_exact:
  assumes "calendar_law lib" "1 \<le> y" "y < 9999" "1 \<le> m" "m \<le> 12" "0 \<le> weekday" "weekday \<le> 6" "1 \<le> week" "week \<le> 5"
  shows "(\<exists>k. get_date_from_weekday lib weekday y m week = Inr (day_number y m k) \<and> nth_weekday weekday y m week k)
    \<or> get_date_from_weekday lib weekday y m week = Inl (ValueError ''weekday does not occur 5 times'') \<and> (\<nexists>k. nth_weekday weekday y m week k)"
proof -
  let ?first = "day_number y m 1"
  have week: "week \<in> {-1, 1, 2, 3, 4, 5}" "week \<noteq> -1" using assms(8,9) by auto
  have date: "python_date y m 1 = Inr ?first"
    using assms days_in_month_range [of y m] by (simp add: python_date_def valid_date_def)
  have "?first + 7 * (week - 1) + 6 \<le> day_number 9999 12 31"
    using day_number_bound [OF assms(3-5), of "1 + 7 * (week - 1)"] assms(9) by (simp add: day_number_def)
  then obtain r where r: "cl_relativedelta lib (week - 1) weekday ?first = Inr r" "day_of_week r = weekday"
      "?first + 7 * (week - 1) \<le> r" "r < ?first + 7 * (week - 1) + 7"
    using calendar_lawD(3) [OF assms(1), of weekday ?first "week - 1"] assms(6,7) by auto
  define k where "k = r - ?first + 1"
  have k: "r = day_number y m k" "7 * (week - 1) < k" "k \<le> 7 * week" using r(3,4) by (simp_all add: k_def day_number_def)
  have get: "get_date_from_weekday lib weekday y m week =
      (if fst (snd (date_of r)) \<noteq> m then Inl (ValueError ''weekday does not occur 5 times'') else Inr r)"
    by (simp only: get_date_from_weekday_def date r(1) assms(6,7) week require_True rbind_simps simp_thms if_False)
  show ?thesis
  proof (cases "k \<le> days_in_month y m")
    case True
    then have "date_of r = (y, m, k)" unfolding k(1) using k assms by (intro date_of_day_number) auto
    then show ?thesis using get k True r(2) by (auto simp: nth_weekday_def)
  next
    case False
    moreover have "k \<le> days_in_month y m + 28" using k(3) assms(9) days_in_month_range(1) [of y m] by linarith
    ultimately have "fst (snd (date_of r)) \<noteq> m"
      unfolding k(1) by (intro month_after [OF assms(2-5)]) simp_all
    moreover have False if "nth_weekday weekday y m week j" for j
    proof -
      have j: "7 * (week - 1) < j" "j \<le> 7 * week" "j \<le> days_in_month y m" "day_of_week (day_number y m j) = weekday"
        using that by (simp_all add: nth_weekday_def)
      have "\<bar>j - k\<bar> < 7" using j(1,2) k(2,3) unfolding right_diff_distrib by linarith
      moreover have "day_of_week (day_number y m j) = day_of_week (day_number y m k)" using j(4) r(2) k(1) by simp
      ultimately have "j = k" using same_weekday by blast
      then show False using j(3) False by simp
    qed
    ultimately show ?thesis using get by auto
  qed
qed

section \<open>A reference library\<close>

text \<open>The documented behaviour without overflow, by searching day by day; the exchange data and the date parser are left open.\<close>

fun seek :: "busdaycal \<Rightarrow> int \<Rightarrow> nat \<Rightarrow> int \<Rightarrow> int" where
  "seek c step 0 d = d"
| "seek c step (Suc k) d = (if is_busday c d then d else seek c step k (d + step))"

definition find_day :: "busdaycal \<Rightarrow> int \<Rightarrow> int \<Rightarrow> int" where
  "find_day c step d = seek c step (7 * (length (bc_holidays c) + 1)) d"

primrec advance :: "busdaycal \<Rightarrow> int \<Rightarrow> nat \<Rightarrow> int \<Rightarrow> int" where
  "advance c step 0 d = d"
| "advance c step (Suc k) d = advance c step k (find_day c step (d + step))"

definition reference_roll :: "busdaycal \<Rightarrow> string \<Rightarrow> int \<Rightarrow> int option res" where
  "reference_roll c roll d =
     (let f = find_day c 1 d; b = find_day c (-1) d in
      if roll \<in> {''forward'', ''following''} then Inr (Some f)
      else if roll \<in> {''backward'', ''preceding''} then Inr (Some b)
      else if roll = ''modifiedfollowing'' then Inr (Some (if same_month d f then f else b))
      else if roll = ''modifiedpreceding'' then Inr (Some (if same_month d b then b else f))
      else if is_busday c d then Inr (Some d)
      else if roll = ''nat'' then Inr None else Inl (ValueError ''Non-business day date in busday_offset''))"

definition reference_offset :: "busdaycal \<Rightarrow> string \<Rightarrow> int option \<Rightarrow> int \<Rightarrow> int option res" where
  "reference_offset c roll s n = (case s of
      None \<Rightarrow> if roll = ''raise'' then Inl (ValueError ''NaT input in busday_offset'') else Inr None
    | Some d \<Rightarrow> rbind (reference_roll c roll d) (\<lambda>b. Inr (map_option (\<lambda>b.
        if 0 \<le> n then advance c 1 (nat n) b else advance c (-1) (nat (- n)) b) b)))"

definition reference_lib :: calendar_lib where
  "reference_lib = \<lparr>cl_offset = reference_offset, cl_count = (\<lambda>c s e. int (length (filter (is_busday c) [s..e - 1]))),
     cl_relativedelta = (\<lambda>weeks weekday d. Inr (d + 7 * weeks + (7 - day_of_week d + weekday) mod 7)),
     cl_parse = (\<lambda>_. Inl (ValueError ''Error parsing datetime string'')), cl_exchange = (\<lambda>_. Inl (KeyError ''calendar''))\<rparr>"

lemma busday_near:
  assumes "calendar_ok c"
  shows "\<exists>k < 7 * (length (bc_holidays c) + 1). is_busday c (d + int k)"
proof (rule ccontr)
  let ?h = "length (bc_holidays c)"
  assume none: "\<not> ?thesis"
  obtain i where i: "i < 7" "bc_weekmask c ! i"
    using assms by (auto simp: calendar_ok_def in_set_conv_nth)
  define j where "j = nat ((int i - day_of_week d) mod 7)"
  have j: "j < 7" "day_of_week (d + int (j + 7 * w)) = int i" for w
    using i(1) day_of_week_shift [of d "int w" "int i"] by (simp_all add: j_def nat_less_iff algebra_simps)
  have "d + int (j + 7 * w) \<in> set (bc_holidays c)" if "w < Suc ?h" for w
  proof -
    have "j + 7 * w < 7 * (?h + 1)" using j(1) that by simp
    then have "\<not> is_busday c (d + int (j + 7 * w))" using none by blast
    then show ?thesis using i(2) j(2) [of w] by (simp add: is_busday_def on_weekmask_def)
  qed
  then have "(\<lambda>w. d + int (j + 7 * w)) ` {..<Suc ?h} \<subseteq> set (bc_holidays c)" by auto
  then have "card ((\<lambda>w. d + int (j + 7 * w)) ` {..<Suc ?h}) \<le> card (set (bc_holidays c))" by (intro card_mono) simp_all
  moreover have "card ((\<lambda>w. d + int (j + 7 * w)) ` {..<Suc ?h}) = Suc ?h" by (subst card_image) (auto simp: inj_on_def)
  ultimately show False using card_length [of "bc_holidays c"] by simp
qed

lemma busday_near_back:
  assumes "calendar_ok c"
  shows "\<exists>k < 7 * (length (bc_holidays c) + 1). is_busday c (d - int k)"
proof -
  let ?m = "7 * (length (bc_holidays c) + 1)"
  obtain k where "k < ?m" "is_busday c (d - int (?m - 1) + int k)" using busday_near [OF assms] by blast
  then show ?thesis by (intro exI [of _ "?m - 1 - k"]) (simp add: algebra_simps of_nat_diff)
qed

lemma seek_up:
  assumes "\<exists>k < fuel. is_busday c (d + int k)"
  shows "rolls_forward c d (seek c 1 fuel d)"
  using assms
proof (induction fuel arbitrary: d)
  case (Suc fuel)
  show ?case
  proof (cases "is_busday c d")
    case False
    obtain k where k: "k < Suc fuel" "is_busday c (d + int k)" using Suc.prems by blast
    then have "rolls_forward c (d + 1) (seek c 1 fuel (d + 1))"
      using False by (intro Suc.IH exI [of _ "k - 1"]) (cases k; simp add: add.assoc)
    then show ?thesis using False by (auto simp: rolls_forward_def busdays_def) (metis order_le_less zless_imp_add1_zle)
  qed (auto simp: rolls_forward_def busdays_def)
qed simp

lemma seek_down:
  assumes "\<exists>k < fuel. is_busday c (d - int k)"
  shows "rolls_backward c d (seek c (-1) fuel d)"
  using assms
proof (induction fuel arbitrary: d)
  case (Suc fuel)
  show ?case
  proof (cases "is_busday c d")
    case False
    obtain k where k: "k < Suc fuel" "is_busday c (d - int k)" using Suc.prems by blast
    then have "rolls_backward c (d - 1) (seek c (-1) fuel (d - 1))"
      using False by (intro Suc.IH exI [of _ "k - 1"]) (cases k; simp add: algebra_simps)
    then show ?thesis using False by (auto simp: rolls_backward_def busdays_def) (metis order_le_less zless_imp_add1_zle add.commute diff_add_cancel)
  qed (auto simp: rolls_backward_def busdays_def)
qed simp

lemma find_day_rolls:
  assumes "calendar_ok c"
  shows "rolls_forward c d (find_day c 1 d)" "rolls_backward c d (find_day c (-1) d)"
  unfolding find_day_def by (rule seek_up seek_down; rule busday_near busday_near_back; rule assms)+

lemma advance_busday:
  assumes "calendar_ok c" "is_busday c d"
  shows "is_busday c (advance c 1 k d)" "is_busday c (advance c (-1) k d)"
  using assms(2) find_day_rolls [OF assms(1)]
  by (induction k arbitrary: d) (auto simp: rolls_forward_def rolls_backward_def)

lemma reference_roll_rolled:
  assumes "calendar_ok c" "reference_roll c roll d = Inr (Some b)"
  shows "rolled c roll d b \<and> is_busday c b"
  using assms(2) find_day_rolls [OF assms(1), of d]
  by (auto simp: reference_roll_def rolled_def Let_def rolls_forward_def rolls_backward_def split: if_splits)

lemma reference_law: "calendar_law reference_lib"
  unfolding calendar_law_def
proof (intro conjI allI impI)
  fix c roll s n d
  assume *: "calendar_ok c \<and> cl_offset reference_lib c roll s n = Inr (Some d)"
  then obtain t b where t: "s = Some t" "reference_roll c roll t = Inr (Some b)"
      "d = (if 0 \<le> n then advance c 1 (nat n) b else advance c (-1) (nat (- n)) b)"
    by (auto simp: reference_lib_def reference_offset_def split: option.splits if_splits)
  then have "is_busday c d" "n = 0 \<longrightarrow> rolled c roll t d"
    using reference_roll_rolled [OF conjunct1 [OF *] t(2)] advance_busday [OF conjunct1 [OF *]] by auto
  then show "\<exists>t. s = Some t \<and> is_busday c d \<and> (n = 0 \<and> room c t \<longrightarrow> rolled c roll t d) \<and> cl_offset reference_lib c roll s 0 \<noteq> Inr None"
    using t(1,2) by (auto simp: reference_lib_def reference_offset_def)
next
  fix c roll t
  assume "calendar_ok c \<and> room c t \<and> roll \<in> roll_rules"
  then show "\<exists>d. cl_offset reference_lib c roll (Some t) 0 = Inr (Some d)"
    by (auto simp: reference_lib_def reference_offset_def reference_roll_def roll_rules_def Let_def)
next
  fix c and s e :: int
  have "distinct (filter (is_busday c) [s..e - 1])" by simp
  moreover have "set (filter (is_busday c) [s..e - 1]) = busdays c s e" by (auto simp: busdays_def)
  ultimately have "length (filter (is_busday c) [s..e - 1]) = card (busdays c s e)" using distinct_card by metis
  then show "cl_count reference_lib c s e = int (card (busdays c s e))" by (simp add: reference_lib_def)
next
  fix weeks weekday d :: int
  assume "0 \<le> weekday \<and> weekday < 7 \<and> d + 7 * weeks + 6 \<le> day_number 9999 12 31"
  moreover have "day_of_week (d + 7 * weeks + (7 - day_of_week d + weekday) mod 7) = weekday mod 7"
    using day_of_week_shift [of d weeks "7 + weekday"] by (simp add: algebra_simps)
  ultimately show "\<exists>r. cl_relativedelta reference_lib weeks weekday d = Inr r \<and> day_of_week r = weekday
      \<and> d + 7 * weeks \<le> r \<and> r < d + 7 * weeks + 7"
    by (simp add: reference_lib_def)
qed

section \<open>Rolling\<close>

lemma rolls_within:
  assumes "calendar_ok c"
  shows "rolls_forward c d b \<Longrightarrow> \<bar>b - d\<bar> < 7 * (int (length (bc_holidays c)) + 1)"
    and "rolls_backward c d b \<Longrightarrow> \<bar>b - d\<bar> < 7 * (int (length (bc_holidays c)) + 1)"
proof -
  obtain k where k: "k < 7 * (length (bc_holidays c) + 1)" "is_busday c (d + int k)" using busday_near [OF assms] by blast
  show "\<bar>b - d\<bar> < 7 * (int (length (bc_holidays c)) + 1)" if "rolls_forward c d b"
  proof -
    have "\<not> d + int k < b" using that k(2) by (auto simp: rolls_forward_def busdays_def)
    then show ?thesis using that k(1) by (auto simp: rolls_forward_def)
  qed
  obtain k where k: "k < 7 * (length (bc_holidays c) + 1)" "is_busday c (d - int k)" using busday_near_back [OF assms] by blast
  show "\<bar>b - d\<bar> < 7 * (int (length (bc_holidays c)) + 1)" if "rolls_backward c d b"
  proof -
    have "\<not> b < d - int k" using that k(2) by (auto simp: rolls_backward_def busdays_def)
    then show ?thesis using that k(1) by (auto simp: rolls_backward_def)
  qed
qed

text \<open>Rolling a single date succeeds away from the ends of the range.\<close>

lemma roll_date:
  assumes "calendar_law lib" "calendar_ok c" "room c d" "roll \<in> {''forward'', ''backward''}"
    and "normalize_datetime lib start = Inr (DT_D, 1, Scalar (Some (d, 0)))"
  shows "\<exists>b. add_trading_days lib c start (Days (Scalar 0)) roll = Inr (DT_D, 1, Scalar (Some b)) \<and> rolled c roll d b"
proof -
  obtain b where b: "cl_offset lib c roll (Some d) 0 = Inr (Some b)"
    using calendar_lawD(4) [OF assms(1-3), of roll] assms(4) by (auto simp: roll_rules_def)
  have rolled: "rolled c roll d b" using calendar_lawD(1) [OF assms(1,2) b] assms(3) by auto
  then have "\<bar>b - d\<bar> < 7 * (int (length (bc_holidays c)) + 1)"
    using assms(4) rolls_within [OF assms(2)] by (auto simp: rolled_def)
  moreover have "\<not> 2 ^ 63 - 1 < \<bar>b\<bar>" using calculation assms(3) by (simp add: room_def)
  moreover have "roll \<noteq> ''allow''" using assms(4) by auto
  ultimately show ?thesis
    using rolled by (simp add: add_trading_days_def assms(5) offset_rows_def b nd_any_def displaced_def rolled_too_far_def result_ticks_def)
qed

lemma third_friday:
  assumes "calendar_law lib" "calendar_ok c" "1 \<le> y" "y < 9999" "1 \<le> m" "m \<le> 12" "roll \<in> {''forward'', ''backward''}"
    and "\<forall>k. 15 \<le> k \<and> k \<le> 21 \<longrightarrow> room c (day_number y m k)"
  shows "\<exists>k b. 15 \<le> k \<and> k \<le> 21 \<and> day_of_week (day_number y m k) = 4 \<and> rolled c roll (day_number y m k) b
    \<and> third_friday_of_month lib c m y roll = Inr (DT_D, 1, Scalar (Some b))"
proof -
  let ?first = "day_number y m 1"
  define j where "j = ((4 - day_of_week ?first) + 7) mod 7"
  have j: "0 \<le> j" "j < 7" by (simp_all add: j_def)
  have k: "?first + j + 14 = day_number y m (15 + j)" by (simp add: day_number_def)
  have "python_date y m 1 = Inr ?first"
    using assms(3-6) days_in_month_range(1) [of y m] by (simp add: python_date_def valid_date_def)
  then have "third_friday_of_month lib c m y roll = add_trading_days lib c (PyDate (day_number y m (15 + j))) (Days (Scalar 0)) roll"
    by (simp only: third_friday_of_month_def rbind_simps Let_def k j_def [symmetric])
  moreover obtain b where "add_trading_days lib c (PyDate (day_number y m (15 + j))) (Days (Scalar 0)) roll = Inr (DT_D, 1, Scalar (Some b))"
      "rolled c roll (day_number y m (15 + j)) b"
    using roll_date [OF assms(1,2) _ assms(7), of "day_number y m (15 + j)" "PyDate (day_number y m (15 + j))"] assms(8) j
    by (auto simp: normalize_datetime_def split_datetimes_def split_ticks_def time_step_def)
  moreover have "day_of_week (day_number y m (15 + j)) = 4"
    using day_of_week_shift [of ?first 2 11] unfolding k [symmetric] by (simp add: j_def algebra_simps)
  ultimately show ?thesis
    using j by (intro exI [of "\<lambda>k. \<exists>b. 15 \<le> k \<and> _ k b" "15 + j"] exI [of _ b]) auto
qed

section \<open>Instances\<close>

text \<open>Weekdays, closed on the Fourth of July 2017 and on Presidents' Day 2019.\<close>

definition example_calendar :: busdaycal where
  "example_calendar = \<lparr>bc_weekmask = [True, True, True, True, True, False, False], bc_holidays = [17351, 17945]\<rparr>"

lemma example_calendar_ok: "calendar_ok example_calendar"
  by (simp add: calendar_ok_def example_calendar_def on_weekmask_def day_of_week_def)

lemma example_added:
  "add_trading_days reference_lib example_calendar (NpDates DT_m 1 (Scalar (Some 25840285))) (Days (Scalar 1)) ''allow''
    = Inr (DT_m, 1, Scalar (Some 25843165))"
  by code_simp


lemma trading_days_counted_instance:
  "num_trading_days reference_lib example_calendar (PyDate 17351) (PyDate 17355) False True = Inr (Scalar (Fin 3))"
proof -
  have "get_trading_days reference_lib example_calendar (PyDate 17351) (PyDate 17355) False True = Inr [17352, 17353, 17354]"
    by code_simp
  moreover have "f_of_int 3 = Fin 3" by code_simp
  ultimately show ?thesis
    using trading_days_counted [OF reference_law example_calendar_ok, of "PyDate 17351" 17351 "PyDate 17355" 17355 False True]
    by (auto simp: as_np_date_def)
qed

end
