(* ===== verification/Markets.thy ===== *)
theory Markets
  imports Calendars
begin

text \<open>
  Symbols and expiries of E-mini futures and options (\<open>markets.py\<close>) over the exchange calendar. Symbols are strings;
  a weekday constant of \<open>dateutil\<close> is its number, Monday being 0; an expiry is a timestamp in minutes.
\<close>

section \<open>Futures codes\<close>

definition FUTURE_CODES_INT :: "(string \<times> int) list" where
  "FUTURE_CODES_INT = [(''F'', 1), (''G'', 2), (''H'', 3), (''J'', 4), (''K'', 5), (''M'', 6), (''N'', 7), (''Q'', 8), (''U'', 9),
     (''V'', 10), (''X'', 11), (''Z'', 12)]"

definition FUTURES_CODES_INVERTED :: "(int \<times> string) list" where
  "FUTURES_CODES_INVERTED = map (\<lambda>(k, v). (v, k)) FUTURE_CODES_INT"

definition CURRENT_SYMBOL_DECADE :: int where "CURRENT_SYMBOL_DECADE = 2020"

definition FUTURE_CODES_STR :: "(string \<times> string) list" where
  "FUTURE_CODES_STR = [(''F'', ''jan''), (''G'', ''feb''), (''H'', ''mar''), (''J'', ''apr''), (''K'', ''may''), (''M'', ''jun''),
     (''N'', ''jul''), (''Q'', ''aug''), (''U'', ''sep''), (''V'', ''oct''), (''X'', ''nov''), (''Z'', ''dec'')]"

definition future_code_to_month :: "string \<Rightarrow> string res" where
  "future_code_to_month future_code =
     rbind (require (length future_code = 1) (PQException ''Future code must be a single character'')) (\<lambda>_.
     case map_of FUTURE_CODES_STR future_code of None \<Rightarrow> Inl (Exception ''unknown future code'') | Some month \<Rightarrow> Inr month)"

definition future_code_to_month_number :: "string \<Rightarrow> int res" where
  "future_code_to_month_number future_code =
     rbind (require (length future_code = 1) (PQException ''Future code must be a single character'')) (\<lambda>_.
     case map_of FUTURE_CODES_INT future_code of None \<Rightarrow> Inl (Exception ''unknown future code'') | Some month \<Rightarrow> Inr month)"

definition get_future_code :: "int \<Rightarrow> string res" where
  "get_future_code month = (case map_of FUTURES_CODES_INVERTED month of None \<Rightarrow> Inl (KeyError []) | Some code \<Rightarrow> Inr code)"

section \<open>Contract years\<close>

definition is_decimal :: "char \<Rightarrow> bool" where
  "is_decimal ch = (48 \<le> (of_char ch :: nat) \<and> (of_char ch :: nat) \<le> 57)"

text \<open>\<open>str.isdigit\<close> also accepts superscripts, which \<open>int\<close> then rejects.\<close>

definition is_digit :: "char \<Rightarrow> bool" where
  "is_digit ch = (is_decimal ch \<or> (of_char ch :: nat) \<in> {178, 179, 185})"

definition decimal_value :: "string \<Rightarrow> int" where
  "decimal_value s = foldl (\<lambda>n ch. n * 10 + (int (of_char ch) - 48)) 0 s"

definition parse_int :: "string \<Rightarrow> int res" where
  "parse_int s = (if s \<noteq> [] \<and> (\<forall>ch\<in>set s. is_decimal ch) then Inr (decimal_value s) else Inl (ValueError ''invalid literal for int''))"

definition decode_contract_year :: "string \<Rightarrow> int res" where
  "decode_contract_year year_code =
     rbind (require (year_code \<noteq> [] \<and> (\<forall>ch\<in>set year_code. is_digit ch) \<and> length year_code \<in> {1, 2})
       (ValueError ''contract year must contain one or two digits'')) (\<lambda>_.
     rbind (parse_int year_code) (\<lambda>n.
     Inr (if length year_code = 1 then CURRENT_SYMBOL_DECADE + n else 2000 + n)))"

text \<open>\<open>f"{n:02d}"\<close> of a natural number.\<close>

definition pad2 :: "int \<Rightarrow> string" where
  "pad2 n = (let s = str_int n in replicate (2 - length s) CHR ''0'' @ s)"

definition format_contract_year :: "int \<Rightarrow> string res" where
  "format_contract_year year =
     (if \<not> (2000 \<le> year \<and> year \<le> 2099) then Inl (ValueError ''contract year is outside the supported 2000-2099 range'')
      else Inr (if CURRENT_SYMBOL_DECADE \<le> year \<and> year < CURRENT_SYMBOL_DECADE + 10 then str_int (year mod 10) else pad2 (year mod 100)))"

text \<open>The tail \<open>([FGHJKMNQUVXZ])(\d{1,2})\<close> of the symbol patterns.\<close>

fun code_and_year :: "string \<Rightarrow> (string \<times> string) option" where
  "code_and_year (code # digits) =
     (if [code] \<in> fst ` set FUTURE_CODES_INT \<and> length digits \<in> {1, 2} \<and> (\<forall>ch\<in>set digits. is_decimal ch)
      then Some ([code], digits) else None)"
| "code_and_year [] = None"

definition parse_future_symbol :: "string \<Rightarrow> (string \<times> int) res" where
  "parse_future_symbol symbol =
     (case (if take 2 symbol = ''ES'' then code_and_year (drop 2 symbol) else None) of
        None \<Rightarrow> Inl (ValueError ''invalid E-mini future symbol'')
      | Some (code, digits) \<Rightarrow> rbind (decode_contract_year digits) (\<lambda>year. Inr (code, year)))"

section \<open>E-mini futures\<close>

text \<open>\<open>third_friday_of_month(month, year).astype(datetime.date)\<close>.\<close>

definition third_friday_date :: "calendar_lib \<Rightarrow> busdaycal \<Rightarrow> int \<Rightarrow> int \<Rightarrow> int option res" where
  "third_friday_date lib c month year = rbind (third_friday_of_month lib c month year ''backward'') (\<lambda>r. Inr (scalar_day r))"

definition get_current_symbol :: "calendar_lib \<Rightarrow> busdaycal \<Rightarrow> int \<Rightarrow> string res" where
  "get_current_symbol lib c curr_date = (case date_of curr_date of (year, month, day) \<Rightarrow>
     rbind (third_friday_date lib c month year) (\<lambda>third_friday.
     rbind (require (third_friday \<noteq> None \<or> month \<notin> {3, 6, 9, 12}) (AttributeError ''day'')) (\<lambda>_.
     let before = (case third_friday of None \<Rightarrow> False | Some d \<Rightarrow> day < snd (snd (date_of d)));
         (month_str, year) = (if month < 3 \<or> month = 3 \<and> before then (''H'', year)
           else if month < 6 \<or> month = 6 \<and> before then (''M'', year)
           else if month < 9 \<or> month = 9 \<and> before then (''U'', year)
           else if month < 12 \<or> month = 12 \<and> before then (''Z'', year)
           else (''H'', year + 1)) in
     rbind (format_contract_year year) (\<lambda>y. Inr (''ES'' @ month_str @ y)))))"

definition get_previous_symbol :: "string \<Rightarrow> string res" where
  "get_previous_symbol curr_future_symbol =
     rbind (parse_future_symbol curr_future_symbol) (\<lambda>(month, year).
     case map_of [(''H'', ''Z''), (''M'', ''H''), (''U'', ''M''), (''Z'', ''U'')] month of
       None \<Rightarrow> Inl (KeyError month)
     | Some prev_month \<Rightarrow>
         rbind (format_contract_year (if prev_month \<noteq> ''Z'' then year else year - 1)) (\<lambda>y. Inr (''ES'' @ prev_month @ y)))"

definition get_next_symbol :: "string \<Rightarrow> string res" where
  "get_next_symbol curr_future_symbol =
     rbind (parse_future_symbol curr_future_symbol) (\<lambda>(month, year).
     case map_of [(''Z'', ''H''), (''H'', ''M''), (''M'', ''U''), (''U'', ''Z'')] month of
       None \<Rightarrow> Inl (KeyError month)
     | Some next_month \<Rightarrow>
         rbind (format_contract_year (if next_month \<noteq> ''H'' then year else year + 1)) (\<lambda>y. Inr (''ES'' @ next_month @ y)))"

definition future_get_expiry :: "calendar_lib \<Rightarrow> busdaycal \<Rightarrow> string \<Rightarrow> int option res" where
  "future_get_expiry lib c fut_symbol =
     rbind (parse_future_symbol fut_symbol) (\<lambda>(month_str, year).
     rbind (future_code_to_month_number month_str) (\<lambda>month.
     rbind (third_friday_date lib c month year) (\<lambda>expiry_date.
     Inr (map_option (\<lambda>d. d * 1440 + (8 * 60 + 30)) expiry_date))))"

section \<open>E-mini options\<close>

definition MO :: int where "MO = 0"
definition WE :: int where "WE = 2"
definition FR :: int where "FR = 4"

text \<open>The weekday, year, month and week of a name; week \<open>-1\<close> is the end of the month.\<close>

definition decode_symbol :: "string \<Rightarrow> (int \<times> int \<times> int \<times> int) res" where
  "decode_symbol name =
     (let decode = (\<lambda>weekday week tail. case code_and_year tail of
          None \<Rightarrow> None
        | Some (code, digits) \<Rightarrow> Some (rbind (future_code_to_month_number code) (\<lambda>month.
            rbind (decode_contract_year digits) (\<lambda>year. Inr (weekday, year, month, week)))));
        friday = (case name of CHR ''E'' # CHR ''W'' # w # tail \<Rightarrow> if w \<in> set ''1234'' then decode FR (int (of_char w) - 48) tail else None | _ \<Rightarrow> None);
        monday = (case name of CHR ''E'' # w # CHR ''A'' # tail \<Rightarrow> if w \<in> set ''12345'' then decode MO (int (of_char w) - 48) tail else None | _ \<Rightarrow> None);
        wednesday = (case name of CHR ''E'' # w # CHR ''C'' # tail \<Rightarrow> if w \<in> set ''12345'' then decode WE (int (of_char w) - 48) tail else None | _ \<Rightarrow> None);
        end_of_month = (case name of CHR ''E'' # CHR ''W'' # tail \<Rightarrow> decode WE (-1) tail | _ \<Rightarrow> None) in
     case friday of Some r \<Rightarrow> r | None \<Rightarrow> (case monday of Some r \<Rightarrow> r | None \<Rightarrow> (case wednesday of Some r \<Rightarrow> r | None \<Rightarrow>
       (case end_of_month of Some r \<Rightarrow> r | None \<Rightarrow> Inl (Exception ''could not decode'')))))"

definition option_get_expiry :: "calendar_lib \<Rightarrow> busdaycal \<Rightarrow> string \<Rightarrow> int option res" where
  "option_get_expiry lib c symbol =
     rbind (require (CHR '':'' \<notin> set symbol) (PQException ''pass in option root instead'')) (\<lambda>_.
     rbind (decode_symbol symbol) (\<lambda>(weekday, year, month, week).
     rbind (get_date_from_weekday lib weekday year month week) (\<lambda>expiry.
     rbind (add_trading_days lib c (NpDates DT_D 1 (Scalar (Some expiry))) (Days (Scalar 0))
       (if weekday \<in> {WE, FR} then ''backward'' else ''forward'')) (\<lambda>r.
     Inr (map_option (\<lambda>d. d * 1440 + (if d < day_number 2015 9 20 then 15 * 60 + 15 else 15 * 60)) (scalar_day r))))))"

section \<open>Symbols\<close>

lemma digit_chars:
  assumes "n < 10"
  shows "dec n = [char_of (48 + n)]" "is_decimal (char_of (48 + n))" "(of_char (char_of (48 + n) :: char) :: nat) = 48 + n"
  using assms by (simp_all add: dec.simps is_decimal_def of_char_of)

lemma two_digits: "10 \<le> n \<Longrightarrow> n < 100 \<Longrightarrow> dec n = [char_of (48 + n div 10), char_of (48 + n mod 10)]"
  using digit_chars(1) [of "n div 10"] by (subst dec.simps) simp

lemma decode_digits:
  assumes "\<forall>d\<in>set ds. d < 10" "length ds \<in> {1, 2}"
  shows "decode_contract_year (map (\<lambda>d. char_of (48 + d)) ds)
    = Inr (if length ds = 1 then 2020 + int (hd ds) else 2000 + 10 * int (hd ds) + int (ds ! 1))"
proof -
  have "\<forall>d\<in>set ds. is_decimal (char_of (48 + d)) \<and> is_digit (char_of (48 + d))" using assms(1) digit_chars(2) by (simp add: is_digit_def)
  moreover have "\<forall>d\<in>set ds. (of_char (char_of (48 + d) :: char) :: nat) = 48 + d" using assms(1) digit_chars(3) by blast
  ultimately show ?thesis
    using assms(2)
    by (auto simp: decode_contract_year_def parse_int_def decimal_value_def CURRENT_SYMBOL_DECADE_def length_Suc_conv numeral_2_eq_2)
qed

lemma format_decode_year:
  assumes "2000 \<le> y" "y \<le> 2099"
  shows "\<exists>digits. format_contract_year y = Inr digits \<and> length digits \<in> {1, 2} \<and> (\<forall>ch\<in>set digits. is_decimal ch)
    \<and> decode_contract_year digits = Inr y"
proof -
  obtain ds where ds: "format_contract_year y = Inr (map (\<lambda>d. char_of (48 + d)) ds)" "\<forall>d\<in>set ds. d < 10" "length ds \<in> {1, 2}"
      "y = (if length ds = 1 then 2020 + int (hd ds) else 2000 + 10 * int (hd ds) + int (ds ! 1))"
  proof (cases "2020 \<le> y \<and> y < 2030")
    case True
    define n where "n = nat (y - 2020)"
    have n: "y = 2020 + int n" "n < 10" using True by (auto simp: n_def nat_less_iff)
    have "y mod 10 = int n" using n(2) unfolding n(1) by (simp add: mod_add_eq [of 2020, symmetric])
    then show thesis
      using that [of "[n]"] True n(2) by (simp add: format_contract_year_def CURRENT_SYMBOL_DECADE_def str_int_def digit_chars n(1))
  next
    case False
    define n where "n = nat (y - 2000)"
    have n: "y = 2000 + int n" "n < 100" using assms by (simp_all add: n_def)
    have "y mod 100 = int n" using n(2) unfolding n(1) by (simp add: mod_add_eq [of 2000, symmetric])
    then have "format_contract_year y = Inr (pad2 (int n))"
      using assms False by (auto simp: format_contract_year_def CURRENT_SYMBOL_DECADE_def)
    moreover have "pad2 (int n) = map (\<lambda>d. char_of (48 + d)) [n div 10, n mod 10]"
    proof (cases "n < 10")
      case True
      moreover have "CHR ''0'' = char_of (48 :: nat)" by code_simp
      ultimately show ?thesis by (simp add: pad2_def str_int_def digit_chars)
    next
      case False
      then show ?thesis using n(2) by (simp add: pad2_def str_int_def two_digits)
    qed
    moreover have "int (10 * (n div 10) + n mod 10) = int n" by (simp only: mult_div_mod_eq)
    then have "int n = 10 * int (n div 10) + int (n mod 10)" by (simp only: of_nat_add of_nat_mult of_nat_numeral)
    then have "y = 2000 + 10 * int (n div 10) + int (n mod 10)" using n(1) by linarith
    moreover have "n div 10 < 10" "n mod 10 < 10" using n(2) by auto
    ultimately show thesis by (intro that [of "[n div 10, n mod 10]"]) (simp_all only: list.simps list.set insert_iff empty_iff, simp_all)
  qed
  then show ?thesis using digit_chars(2) decode_digits [OF ds(2,3)] by (intro exI [of _ "map (\<lambda>d. char_of (48 + d)) ds"]) auto
qed

text \<open>The symbol of a contract and what parsing gives back.\<close>

definition future_symbol :: "string \<Rightarrow> int \<Rightarrow> string" where
  "future_symbol code year = ''ES'' @ code @ (case format_contract_year year of Inl _ \<Rightarrow> [] | Inr digits \<Rightarrow> digits)"

lemma format_year: "2000 \<le> y \<Longrightarrow> y \<le> 2099 \<Longrightarrow> rbind (format_contract_year y) (\<lambda>d. Inr (''ES'' @ code @ d)) = Inr (future_symbol code y)"
  using format_decode_year [of y] by (auto simp: future_symbol_def)

lemma parse_symbol:
  assumes "code \<in> fst ` set FUTURE_CODES_INT" "2000 \<le> y" "y \<le> 2099"
  shows "parse_future_symbol (future_symbol code y) = Inr (code, y)"
proof -
  obtain ch where ch: "code = [ch]" using assms(1) by (auto simp: FUTURE_CODES_INT_def)
  obtain digits where "format_contract_year y = Inr digits" "length digits \<in> {1, 2}" "\<forall>ch\<in>set digits. is_decimal ch"
      "decode_contract_year digits = Inr y" using format_decode_year [OF assms(2,3)] by blast
  then show ?thesis using assms(1) by (simp add: parse_future_symbol_def future_symbol_def ch)
qed

text \<open>The quarterly contracts in order.\<close>

definition quarter_code :: "int \<Rightarrow> string" where
  "quarter_code q = [''H'', ''M'', ''U'', ''Z''] ! nat (q mod 4)"

definition quarter_month :: "int \<Rightarrow> int" where
  "quarter_month q = 3 * (q mod 4) + 3"

definition quarter_symbol :: "int \<Rightarrow> string" where
  "quarter_symbol q = future_symbol (quarter_code q) (q div 4)"

lemma quarter_cases:
  obtains y where "q = 4 * y" | y where "q = 4 * y + 1" | y where "q = 4 * y + 2" | y where "q = 4 * y + (3 :: int)"
proof -
  have "q = 4 * (q div 4) \<or> q = 4 * (q div 4) + 1 \<or> q = 4 * (q div 4) + 2 \<or> q = 4 * (q div 4) + 3" by presburger
  then show thesis using that by blast
qed

lemma quarter_parts:
  "(4 * y) div 4 = y" "(4 * y + 1) div 4 = y" "(4 * y + 2) div 4 = y" "(4 * y + 3) div 4 = y" "(4 * y + 4) div 4 = y + 1"
  "(4 * y - 1) div 4 = y - 1" "(4 * y) mod 4 = 0" "(4 * y + 1) mod 4 = 1" "(4 * y + 2) mod 4 = 2" "(4 * y + 3) mod 4 = 3"
  "(4 * y + 4) mod 4 = 0" "(4 * y - 1) mod 4 = (3 :: int)"
  by presburger+

lemma parse_quarter:
  assumes "2000 \<le> q div 4" "q div 4 \<le> 2099"
  shows "parse_future_symbol (quarter_symbol q) = Inr (quarter_code q, q div 4)"
  unfolding quarter_symbol_def using assms
  by (intro parse_symbol) (cases q rule: quarter_cases; simp add: quarter_code_def quarter_parts FUTURE_CODES_INT_def)+

lemma next_quarter:
  assumes "2000 \<le> q div 4" "(q + 1) div 4 \<le> 2099"
  shows "get_next_symbol (quarter_symbol q) = Inr (quarter_symbol (q + 1))"
proof -
  have y: "2000 \<le> (q + 1) div 4" "q div 4 \<le> 2099" using assms by presburger+
  show ?thesis
    unfolding get_next_symbol_def parse_quarter [OF assms(1) y(2)]
    using format_year [of "(q + 1) div 4" "quarter_code (q + 1)"] assms y
    by (cases q rule: quarter_cases) (simp_all add: quarter_symbol_def quarter_code_def quarter_parts add.assoc)
qed

lemma previous_quarter:
  assumes "2000 \<le> (q - 1) div 4" "q div 4 \<le> 2099"
  shows "get_previous_symbol (quarter_symbol q) = Inr (quarter_symbol (q - 1))"
proof -
  have y: "2000 \<le> q div 4" "(q - 1) div 4 \<le> 2099" using assms by presburger+
  show ?thesis
    unfolding get_previous_symbol_def parse_quarter [OF y(1) assms(2)]
    using format_year [of "(q - 1) div 4" "quarter_code (q - 1)"] assms y
    by (cases q rule: quarter_cases) (simp_all add: quarter_symbol_def quarter_code_def quarter_parts)
qed

section \<open>Expiries\<close>

text \<open>An exchange that is never closed for fifteen days on end.\<close>

definition exchange_calendar :: "busdaycal \<Rightarrow> bool" where
  "exchange_calendar c = (calendar_ok c \<and> room c 4000000 \<and> (\<forall>d. \<exists>k. 0 \<le> k \<and> k \<le> 14 \<and> is_busday c (d - k)))"

lemma room_dates:
  assumes "exchange_calendar c" "1 \<le> y" "y < 9999" "1 \<le> m" "m \<le> 12" "0 \<le> k" "k \<le> 31"
  shows "room c (day_number y m k)"
proof -
  have "0 \<le> days_before_year y" using days_before_year_mono [of 1 y] assms(2) by (simp add: days_before_year_def)
  moreover have "0 \<le> days_before_month y m" using days_before_month_range assms(4,5) by blast
  ultimately have "- 719163 \<le> day_number y m k" using assms(6) by (simp add: day_number_def)
  moreover have "day_number 9999 12 31 = 2932896"
    by (simp add: day_number_def days_before_last_year days_before_month_def days_in_month_def is_leap_def upto.simps)
  then have "day_number y m k \<le> 2932896" using day_number_bound [OF assms(3-5), of k] assms(7) by simp
  ultimately have "\<bar>day_number y m k\<bar> \<le> 4000000" by simp
  moreover have "room c 4000000" using assms(1) by (simp add: exchange_calendar_def)
  ultimately show ?thesis unfolding room_def by linarith
qed

lemma third_friday_in_month:
  assumes "calendar_law lib" "exchange_calendar c" "1 \<le> y" "y < 9999" "1 \<le> m" "m \<le> 12"
  shows "\<exists>j. 1 \<le> j \<and> j \<le> 21 \<and> third_friday_date lib c m y = Inr (Some (day_number y m j))"
proof -
  have ok: "calendar_ok c" using assms(2) by (simp add: exchange_calendar_def)
  obtain k b where k: "15 \<le> k" "k \<le> 21" "rolled c ''backward'' (day_number y m k) b"
      "third_friday_of_month lib c m y ''backward'' = Inr (DT_D, 1, Scalar (Some b))"
    using third_friday [OF assms(1) ok assms(3-6), of "''backward''"] room_dates [OF assms(2-6)] by auto
  obtain i where i: "0 \<le> i" "i \<le> 14" "is_busday c (day_number y m k - i)" using assms(2) by (auto simp: exchange_calendar_def)
  have b: "b \<le> day_number y m k" "\<not> b < day_number y m k - i"
    using k(3) i by (auto simp: rolled_def rolls_backward_def busdays_def)
  define j where "j = k - (day_number y m k - b)"
  have "b = day_number y m j" by (simp add: j_def day_number_def)
  moreover have "1 \<le> j" "j \<le> 21" using b i k(1,2) by (auto simp: j_def)
  ultimately show ?thesis using k(4) by (auto simp: third_friday_date_def scalar_day_def to_day_def)
qed

lemma days_before_month_mono:
  assumes "1 \<le> m" "m < m'"
  shows "days_before_month y m + days_in_month y m \<le> days_before_month y m'"
proof -
  have "[1..m' - 1] = [1..m - 1] @ [m] @ [m + 1..m' - 1]" using upto_split3 [of 1 m "m' - 1"] assms by simp
  moreover have "0 \<le> sum_list (map (days_in_month y) ms)" for ms
    by (intro sum_list_nonneg) (auto intro: order_trans [OF _ days_in_month_range(1)])
  ultimately show ?thesis by (simp add: days_before_month_def)
qed

text \<open>A day of an earlier month comes first.\<close>

lemma earlier_month:
  assumes "1 \<le> m" "m \<le> 12" "1 \<le> m'" "m' \<le> 12" "12 * y + m < 12 * y' + m'" "d \<le> days_in_month y m" "1 \<le> j"
  shows "day_number y m d < day_number y' m' j"
proof (cases "y = y'")
  case True
  then show ?thesis using days_before_month_mono [of m m' y] assms by (simp add: day_number_def)
next
  case False
  then have "y + 1 \<le> y'" using assms by linarith
  then have "days_before_year (y + 1) \<le> days_before_year y'" by (rule days_before_year_mono)
  moreover have "0 \<le> days_before_month y' m'" "days_before_month y m + days_in_month y m \<le> (if is_leap y then 366 else 365)"
    using days_before_month_range assms(1-4) by blast+
  ultimately show ?thesis using assms(6,7) days_before_year_step [of y] by (simp add: day_number_def)
qed

lemma quarter_month_range: "1 \<le> quarter_month q" "quarter_month q \<le> 12"
  by (simp_all add: quarter_month_def)

lemma same_month_index: "12 * a + b = 12 * y + m \<Longrightarrow> 1 \<le> b \<Longrightarrow> b \<le> 12 \<Longrightarrow> 1 \<le> m \<Longrightarrow> m \<le> 12 \<Longrightarrow> a = y \<and> b = (m :: int)"
  by presburger

lemma quarter_expiry:
  assumes "calendar_law lib" "exchange_calendar c" "2000 \<le> q div 4" "q div 4 \<le> 2099"
  shows "\<exists>j. 1 \<le> j \<and> j \<le> 21 \<and> third_friday_date lib c (quarter_month q) (q div 4) = Inr (Some (day_number (q div 4) (quarter_month q) j))
    \<and> future_get_expiry lib c (quarter_symbol q) = Inr (Some (day_number (q div 4) (quarter_month q) j * 1440 + 510))"
proof -
  obtain j where j: "1 \<le> j" "j \<le> 21" "third_friday_date lib c (quarter_month q) (q div 4) = Inr (Some (day_number (q div 4) (quarter_month q) j))"
    using third_friday_in_month [OF assms(1,2), of "q div 4" "quarter_month q"] quarter_month_range [of q] assms(3,4) by auto
  moreover have "future_code_to_month_number (quarter_code q) = Inr (quarter_month q)"
    by (cases q rule: quarter_cases)
      (simp_all add: future_code_to_month_number_def quarter_code_def quarter_month_def quarter_parts FUTURE_CODES_INT_def)
  ultimately show ?thesis
    by (intro exI [of _ j]) (simp add: future_get_expiry_def parse_quarter [OF assms(3,4)])
qed

lemma quarter_index: "12 * (q div 4) + quarter_month q = 3 * q + 3"
  by (rule quarter_cases [of q]) (simp_all add: quarter_month_def quarter_parts)

text \<open>
  Claim C40. The current symbol is that of the front contract: it expires on a later day than the date asked for, and the contract
  before it, whose next symbol it is, has expired by that date.
\<close>

theorem current_symbol_is_front_contract:
  assumes "calendar_law lib" and "exchange_calendar c" and "date_of curr_date = (y, m, d)" and "2001 \<le> y" and "y \<le> 2098"
  shows "\<exists>s p t t'. get_current_symbol lib c curr_date = Inr s \<and> get_previous_symbol s = Inr p \<and> get_next_symbol p = Inr s
    \<and> future_get_expiry lib c s = Inr (Some t) \<and> future_get_expiry lib c p = Inr (Some t')
    \<and> t' div 1440 \<le> curr_date \<and> curr_date < t div 1440"
proof -
  have md: "1 \<le> m" "m \<le> 12" "1 \<le> d" "d \<le> days_in_month y m" "day_number y m d = curr_date"
    using day_number_date_of [OF assms(3)] by blast+
  obtain j where j: "1 \<le> j" "j \<le> 21" "third_friday_date lib c m y = Inr (Some (day_number y m j))"
    using third_friday_in_month [OF assms(1,2), of y m] assms(4,5) md by auto
  have day: "date_of (day_number y m j) = (y, m, j)"
    using j(1,2) md days_in_month_range(1) [of y m] by (intro date_of_day_number) simp_all
  define q where "q = 4 * y + (m - 1) div 3 + (if m mod 3 = 0 \<and> \<not> d < j then 1 else 0)"
  have q: "4 * y \<le> q" "q \<le> 4 * y + 4" using md(1,2) by (auto simp: q_def)
  then have years: "y \<le> q div 4" "q div 4 \<le> y + 1" "y - 1 \<le> (q - 1) div 4" "(q - 1) div 4 \<le> y" by presburger+
  obtain this_year next_year where digits: "format_contract_year y = Inr this_year" "format_contract_year (y + 1) = Inr next_year"
    using format_decode_year [of y] format_decode_year [of "y + 1"] assms(4,5) by auto
  have current: "get_current_symbol lib c curr_date = Inr (quarter_symbol q)"
    by (rule month_cases [OF md(1,2)])
      (use digits assms(3) j(3) day in \<open>simp_all add: get_current_symbol_def q_def future_symbol_def
        quarter_symbol_def quarter_code_def quarter_parts add.assoc\<close>)
  obtain i where i: "1 \<le> i" "i \<le> 21" "third_friday_date lib c (quarter_month q) (q div 4) = Inr (Some (day_number (q div 4) (quarter_month q) i))"
      "future_get_expiry lib c (quarter_symbol q) = Inr (Some (day_number (q div 4) (quarter_month q) i * 1440 + 510))"
    using quarter_expiry [OF assms(1,2), of q] years assms(4,5) by auto
  obtain i' where i': "1 \<le> i'" "i' \<le> 21" "third_friday_date lib c (quarter_month (q - 1)) ((q - 1) div 4) = Inr (Some (day_number ((q - 1) div 4) (quarter_month (q - 1)) i'))"
      "future_get_expiry lib c (quarter_symbol (q - 1)) = Inr (Some (day_number ((q - 1) div 4) (quarter_month (q - 1)) i' * 1440 + 510))"
    using quarter_expiry [OF assms(1,2), of "q - 1"] years assms(4,5) by auto
  have index: "12 * (q div 4) + quarter_month q = 3 * q + 3" "12 * ((q - 1) div 4) + quarter_month (q - 1) = 3 * q"
    using quarter_index [of q] quarter_index [of "q - 1"] by simp_all
  have "curr_date < day_number (q div 4) (quarter_month q) i"
  proof (cases "m mod 3 = 0 \<and> d < j")
    case True
    then have "3 * q + 3 = 12 * y + m" by (simp add: q_def) presburger
    then have "q div 4 = y \<and> quarter_month q = m" using index(1) md(1,2) quarter_month_range by (intro same_month_index) simp_all
    then show ?thesis using i(3) j(3) True md(5) by (auto simp: day_number_def)
  next
    case False
    then have "12 * y + m < 3 * q + 3" by (auto simp: q_def) presburger+
    then show ?thesis
      using earlier_month [of m "quarter_month q" y "q div 4" d i] index(1) md i(1) by (simp add: quarter_month_def)
  qed
  moreover have "day_number ((q - 1) div 4) (quarter_month (q - 1)) i' \<le> curr_date"
  proof (cases "m mod 3 = 0 \<and> \<not> d < j")
    case True
    then have "3 * q = 12 * y + m" by (simp add: q_def) presburger
    then have "(q - 1) div 4 = y \<and> quarter_month (q - 1) = m" using index(2) md(1,2) quarter_month_range by (intro same_month_index) simp_all
    then show ?thesis using i'(3) j(3) True md(5) by (auto simp: day_number_def)
  next
    case False
    then have "3 * q < 12 * y + m" using md(1) by (auto simp: q_def; presburger)
    then show ?thesis
      using earlier_month [of "quarter_month (q - 1)" m "(q - 1) div 4" y i' d] index(2) md i'(1,2) quarter_month_range
        days_in_month_range(1) [of "(q - 1) div 4" "quarter_month (q - 1)"] by simp
  qed
  moreover have "get_previous_symbol (quarter_symbol q) = Inr (quarter_symbol (q - 1))" "get_next_symbol (quarter_symbol (q - 1)) = Inr (quarter_symbol q)"
    using previous_quarter [of q] next_quarter [of "q - 1"] years assms(4,5) by simp_all
  ultimately show ?thesis using current i(4) i'(4) by auto
qed

section \<open>Instances\<close>

text \<open>Weekdays, closed on Good Friday 2019.\<close>

definition good_friday :: busdaycal where
  "good_friday = \<lparr>bc_weekmask = [True, True, True, True, True, False, False], bc_holidays = [18005]\<rparr>"

lemma exchange_good_friday: "exchange_calendar good_friday"
proof -
  have ok: "calendar_ok good_friday"
    by (simp add: calendar_ok_def good_friday_def on_weekmask_def day_of_week_def)
  have "\<exists>k. 0 \<le> k \<and> k \<le> 14 \<and> is_busday good_friday (d - k)" for d
  proof -
    have "length (bc_holidays good_friday) = 1" by (simp add: good_friday_def)
    then obtain k where "k < 14" "is_busday good_friday (d - int k)" using busday_near_back [OF ok, of d] by auto
    then show ?thesis by (intro exI [of _ "int k"]) simp
  qed
  then show ?thesis using ok by (simp add: exchange_calendar_def room_def good_friday_def)
qed

lemma march_2019: "date_of 17969 = (2019, 3, 14)" "get_current_symbol reference_lib good_friday 17969 = Inr ''ESH19''"
  by code_simp+

text \<open>On 2019-03-14 the front contract is the one of March 2019, ESH19; it expires on the 15th.\<close>

theorem current_symbol_is_front_contract_witness:
  "get_current_symbol reference_lib good_friday 17969 = Inr ''ESH19'' \<and> (\<exists>t. future_get_expiry reference_lib good_friday ''ESH19'' = Inr (Some t)
    \<and> 17969 < t div 1440)"
  using current_symbol_is_front_contract [OF reference_law exchange_good_friday march_2019(1)] march_2019(2) by auto

end
