(* ===== verification/Spec2Isabelle.thy ===== *)
theory Spec2Isabelle
  imports Control_Plane Trading_Rules Price_Inputs Universe Calculation Portfolio Factor_Migration Factor_Recovery Markets
begin

text \<open>
  Gambit is an event-driven backtesting engine for trading strategies, a Python package (\<open>src/src/gambit\<close>)
  with a Cython kernel. This development models its core, component by component, in HOL functions that
  can be run, and proves the properties that make the components and their composition correct.

  \<^bold>\<open>The program.\<close> Contracts live in groups and registries (\<open>pq_types.py\<close>, \<open>instruments.py\<close>, \<open>universe.py\<close>). A
  strategy (\<open>strategy.py\<close>) is a pipeline: indicators and signals are computed once per contract group in
  dependency order (\<open>stages.py\<close>), a sparse schedule (\<open>sparse_iterations.py\<close>) says which rules are due at which
  timestamp, and an event loop calls the rules, passes their orders through validation
  (\<open>callback_contracts.py\<close>) and the risk policies (\<open>risk.py\<close>, \<open>control_plane.py\<close>), lets the market simulators
  (\<open>strategy_components.py\<close>, \<open>execution_costs.py\<close>) fill the open orders, and books the resulting trades in the
  account (\<open>account.py\<close>). The account keeps one ledger per contract (\<open>contract_pnl.py\<close>), which nets lots with the
  native kernel (\<open>compute_pnl.pyx\<close>, \<open>pnl_calculation.py\<close>); \<open>trade_reconciliation.py\<close> reports round trips
  from the same executions. A portfolio (\<open>portfolio.py\<close>) interleaves several strategies. Exposures are translated to
  one currency by \<open>currency.py\<close> under the calculation parameters of \<open>calculation.py\<close>. Trading days come from exchange
  calendars (\<open>holiday_calendars.py\<close>), over which \<open>markets.py\<close> names the front contract and its expiry. Beside the engine stands a cache of factor
  columns on disk (\<open>factor_cache.py\<close>, \<open>factor_identity.py\<close>, \<open>factor_store.py\<close>): immutable generations, an index of them by the hash
  of what they were computed from, leases of readers, garbage collection, eviction,
  migration of old formats and lifetime counters (\<open>factor_metrics.py\<close>).

  \<^bold>\<open>Conventions.\<close> An expression that may raise has type \<open>exn + 'a\<close>; a method that mutates its object and may
  raise is a \<open>prog\<close>, which returns the outcome beside the state it leaves, so that what a raise leaves behind is
  part of the model (\<open>Prelude\<close>). \<open>float\<close> is IEEE 754 binary64 with round-half-even on exact rationals, with
  infinities and NaN and one zero (\<open>Float64\<close>, \<open>Rounding\<close>); values of unknown class at public boundaries are
  \<open>pyval\<close> and attributes of mutable objects \<open>attr\<close> (\<open>Py_Values\<close>). Python integers are \<open>int\<close>, NumPy integers and
  the kernel's \<open>long\<close> wrap at 64 bits. A \<open>datetime64\<close> is an instant in nanoseconds (its unit is kept
  where it is looked at), NaT is \<open>None\<close>. Dictionaries are association lists in insertion order. Orders and strategies are
  mutable objects and are addressed by identities in a store; contracts and groups are immutable values with an identity.
  Exception messages are kept without the data formatted into them.

  \<^bold>\<open>Theories.\<close>
  \<^item> \<open>Fifo_Kernel\<close>: buffers, cursors and the netting loop of the kernel, with the allocator a parameter and the C \<open>int\<close> that sizes the
    buffer narrowed to 32 bits; below \<open>2\<^sup>3\<^sup>1\<close> lots and trades it never leaves its buffers, it conserves the position and, for prices on
    a common binary tick, computes the exact cash difference (C1--C3). \<open>calc_trade_pnl\<close>, which the ledgers call, is the kernel over an
    allocator that grants every request below \<open>2\<^sup>6\<^sup>3\<close> bytes; of other allocators \<open>calc_trade_pnl_on\<close> speaks. With \<open>2\<^sup>3\<^sup>1\<close> trades the buffer is too
    small: \<open>calc_trade_pnl_overflows\<close>.
  \<^item> \<open>Contracts\<close>, \<open>Universe\<close>: registries, contract creation, bulk creation and its all-or-nothing behaviour.
  \<^item> \<open>Orders\<close>: the order lifecycle as a step relation with its invariants, roll expansion, detached snapshots, capture and restore
    (\<open>order_callback_state.py\<close>, \<open>execution_snapshots.py\<close>).
  \<^item> \<open>Sorted_Dict\<close>, \<open>Contract_PNL\<close>: the ledgers' ordered dictionaries with the \<open>as_of_index\<close> contract, the ledger and its invariants.
  \<^item> \<open>Reconciliation\<close>: round trips; the closed ones are the FIFO matches with their quantities and prices, whose gains sum to what the
    kernel realises, and the open ones the lots it leaves.
  \<^item> \<open>Account\<close>: atomic booking (the whole batch in every table, or nothing), positions as running totals, equity as the sum of the ledgers.
  \<^item> \<open>Callback_Contracts\<close>, \<open>Risk\<close>, \<open>Control_Plane\<close>: what passes from user callbacks into the engine, the policies and the operators'
    overrides and limits.
  \<^item> \<open>Stages\<close>, \<open>Strategy_Stages\<close>, \<open>Sparse_Iterations\<close>: stage graph, indicator and signal runs, the schedule.
  \<^item> \<open>Execution_Costs\<close>, \<open>Market_Simulators\<close>, \<open>Trading_Rules\<close>, \<open>Price_Inputs\<close>: the components a strategy is assembled from.
  \<^item> \<open>Strategy_Engine\<close>: the event loop under arbitrary rules, simulators and policies.
  \<^item> \<open>Portfolio\<close>: interleaved runs, shown to equal separate runs for strategies whose final valuation is switched on.
  \<^item> \<open>Calculation\<close>: calculation contexts, FX snapshots, exposure translation. Conversion to nanoseconds wraps as NumPy's does, so causality is a
    property of instants from 1677 to 2262 only (\<open>translate_exposures_wrapped\<close> is an instance outside).
  \<^item> \<open>Json\<close>: JSON values as \<open>json.loads\<close> gives them, and the name patterns of the factor cache.
  \<^item> \<open>Factor_Segment\<close>: column segments byte for byte (\<open>factor_cache.py\<close>): a segment reads back bit for bit, and torn, truncated or altered
    images are refused; a failed checksum reaches the caller as the \<open>BufferError\<close> of a mapping closed under a view.
  \<^item> \<open>Factor_Identity\<close>: the canonical identity of a cached factor node and its persisted snapshot (\<open>factor_identity.py\<close>).
  \<^item> \<open>Factor_Files\<close>, \<open>Factor_Store\<close>, \<open>Factor_Publication\<close>: the on-disk store of factor generations (\<open>factor_store.py\<close>) as a record of directories,
    with writes that may raise or be the last before the process dies. Publication refines atomic updates of an index and is safe at every point
    where it may be cut; what is published opens again with the same columns.
  \<^item> \<open>Factor_Collect\<close>, \<open>Factor_Evict\<close>: garbage collection and least-recently-used eviction keep the index sound and remove exactly
    what their rules say.
  \<^item> \<open>Factor_Admission\<close>, \<open>Factor_Dag\<close>, \<open>Factor_Leases\<close>: rejection hints (\<open>factor_admission.py\<close>) and the execution of a factor graph
    over the cache (\<open>factor_dag.py\<close>): cached execution equals computing from scratch, over crashes too, its result has the schema's
    columns (\<open>Float64\<close>, whatever type the schema declares: \<open>declared_type_ignored\<close>) and is accounted for, and what it has leased survives eviction.
  \<^item> \<open>Factor_Recovery\<close>: publishing again after an attempt that was cut anywhere succeeds.
  \<^item> \<open>Factor_Metrics\<close>: the lifetime counters (\<open>factor_metrics.py\<close>), which eviction, execution and migration record; recording adds every
    increment or none, and a raise leaves open which, since the directory is synchronised after the file was replaced.
  \<^item> \<open>Factor_Migration\<close>: the rewriting of legacy nodes in the current segment version, which never loses or alters a node.
  \<^item> \<open>Civil_Dates\<close>, \<open>Calendars\<close>, \<open>Markets\<close>: exchange calendars (\<open>holiday_calendars.py\<close>), whose trading-day arithmetic is exact or raises (the roll of a start at the
    ends of the 64-bit range excepted, of which only a bound is known), and the
    futures and option symbols of \<open>markets.py\<close> over them.
  Locales state the contracts between components (an index by timestamp, a causal source of quotes, and others) and are interpreted
  on the model's definitions in the theory that provides them.

  \<^bold>\<open>Parameters.\<close> NumPy's and Polars' floating-point sums have no documented order, so they are functions \<open>np_sum\<close>, \<open>py_sum\<close> and
  \<open>pl_sum\<close> of the record \<open>numerics\<close>, constrained only where a property needs it. User callbacks (indicators, signals,
  rules, simulators, policies, price functions) are arbitrary functions or programs over the objects they are handed. NumPy's business-day
  functions, \<open>dateutil\<close>'s weekday step and the exchange data are the record \<open>calendar_lib\<close>, of which \<open>calendar_law\<close> states what their
  documentation says; nothing is assumed where 64 bits overflow. NumPy's parser
  of date strings is the parameter \<open>parse\<close>. SHA-256 is a function \<open>digest\<close> of JSON values, the native column class a record \<open>native\<close>
  of which the properties assume that an opened segment is the one created (the reference format of \<open>Factor_Segment\<close> is such a class).

  \<^bold>\<open>Fuel.\<close> \<open>run_indicators\<close> and \<open>run_signals\<close> recurse into parents; their first argument is the interpreter's recursion budget and
  running out of it raises, as in Python. \<open>run_indicators_complete\<close> shows that a budget above the number of
  indicators is enough for every valid graph. All other loops are structural or have a termination proof.

  \<^bold>\<open>Not modelled.\<close> DataFrame and HTML reports, plots and logging; provenance, fingerprints and timing; stage arrays of
  other dtypes than boolean, integer, float and object; sharing of one order, account or ledger object between two strategies;
  object finalisation and threads; in the factor cache power failures (data that was written is not lost; \<open>fsync\<close> is a step that may raise only where the counters are
  recorded) and waiting for locks (an operation holds its lock throughout, so operations follow one another). Of smaller scope: the differences of
  instants more than 292 years apart, which wrap in \<open>np.diff\<close> (\<open>diffs_positive\<close> takes them unbounded); the interpreter's recursion limit in
  \<open>topological_order\<close> (\<open>visit\<close>); symbolic links in place of a lease or of CURRENT, which Python follows (\<open>lease_is_stale\<close> and
  \<open>read_current\<close> take them for unreadable); a store without a generations directory, where the sweep of \<open>collect_garbage\<close> would raise. The C++ class
  \<open>mapped_column.cpp\<close> is a parameter, the record \<open>native\<close> under \<open>native_law\<close>. Whole files left out are listed with their reasons in the manifest: statistics and optimisation
  over arrays (\<open>evaluator.py\<close>, \<open>optimize.py\<close>, \<open>covariance_risk.py\<close>, \<open>var_risk.py\<close>), file formats and native input
  (\<open>pq_io.py\<close>, \<open>backtest_result.py\<close>, \<open>ipc_validation.py\<close>), widgets (\<open>interactive_plot.py\<close>) and the C++ extensions.
\<close>

end
